(* ===== verification/Prelude.thy ===== *)
theory Prelude
  imports Main "HOL-Library.Word" "HOL-Library.List_Lexorder"
begin

unbundle bit_operations_syntax

text \<open>
  Shared vocabulary of the development: machine integers as words, byte strings as lists of
  8-bit words, checked slices, little- and big-endian encodings, the result type of fallible
  code with its bind, in-place writes into a fixed buffer, and two interfaces used by several
  components: a self-delimited codec (what is written is read back, whatever precedes and
  follows it) and an order-preserving encoding (the byte order of the encodings is the order of
  the values).  Byte strings are compared with the lexicographic order of
  \<^theory_text>\<open>List_Lexorder\<close>, which is the order Rust gives \<^verbatim>\<open>[u8]\<close>.
\<close>

type_synonym u8 = "8 word"
type_synonym u16 = "16 word"
type_synonym u32 = "32 word"
type_synonym u64 = "64 word"
type_synonym bytes = "u8 list"

text \<open>A fallible result: \<open>Inl\<close> carries the error of the early return, \<open>Inr\<close> the value.\<close>

fun rbind :: "'e + 'a \<Rightarrow> ('a \<Rightarrow> 'e + 'b) \<Rightarrow> 'e + 'b" where
  "rbind (Inl e) f = Inl e"
| "rbind (Inr x) f = f x"

definition ok_or :: "'a option \<Rightarrow> 'e \<Rightarrow> 'e + 'a" where
  "ok_or r e = (case r of None \<Rightarrow> Inl e | Some x \<Rightarrow> Inr x)"

named_theorems codec_simps \<open>round trips and lengths of the byte encodings\<close>

lemma rbind_eq_Inr: "rbind r f = Inr y \<longleftrightarrow> (\<exists>x. r = Inr x \<and> f x = Inr y)"
  by (cases r) auto

lemma rbind_eq_Inl: "rbind r f = Inl e \<longleftrightarrow> (r = Inl e \<or> (\<exists>x. r = Inr x \<and> f x = Inl e))"
  by (cases r) auto

lemma rbind_assoc: "rbind (rbind r f) g = rbind r (\<lambda>x. rbind (f x) g)"
  by (cases r) auto

lemma ok_or_simps [simp]: "ok_or None e = Inl e" "ok_or (Some x) e = Inr x"
  by (simp_all add: ok_or_def)

lemma ok_or_eq_Inr [simp]: "ok_or r e = Inr x \<longleftrightarrow> r = Some x"
  by (cases r) auto

section \<open>Slices\<close>

text \<open>\<^verbatim>\<open>buf.get(a..b)\<close> and \<^verbatim>\<open>buf.get(i)\<close>: the element or sub-slice, or \<open>None\<close> out of range.\<close>

definition get_range :: "'a list \<Rightarrow> nat \<Rightarrow> nat \<Rightarrow> 'a list option" where
  "get_range buf a b = (if a \<le> b \<and> b \<le> length buf then Some (take (b - a) (drop a buf)) else None)"

definition get_at :: "'a list \<Rightarrow> nat \<Rightarrow> 'a option" where
  "get_at buf i = (if i < length buf then Some (buf ! i) else None)"

lemma get_range_Some_iff:
  "get_range buf a b = Some s \<longleftrightarrow> a \<le> b \<and> b \<le> length buf \<and> s = take (b - a) (drop a buf)"
  by (auto simp: get_range_def)

lemma get_range_mid [simp]:
  "get_range (pre @ s @ rest) (length pre) (length pre + length s) = Some s"
  by (simp add: get_range_def)

lemma get_range_len: "get_range buf a b = Some s \<Longrightarrow> length s = b - a"
  by (auto simp: get_range_Some_iff)

lemma get_at_mid [simp]: "get_at (pre @ x # rest) (length pre) = Some x"
  by (simp add: get_at_def)

lemma get_at_Some_iff: "get_at buf i = Some x \<longleftrightarrow> i < length buf \<and> x = buf ! i"
  by (auto simp: get_at_def)

lemma map_nth_upt: "map (f \<circ> (!) xs) [0..<length xs] = map f xs"
  by (metis map_map map_nth)

text \<open>
  A read at an offset sees the suffix of the buffer at that offset: the form in which the
  round-trip lemmas below are applied inside a larger buffer.
\<close>

definition at_pos :: "'a list \<Rightarrow> nat \<Rightarrow> 'a list \<Rightarrow> bool" where
  "at_pos buf p s \<longleftrightarrow> p + length s \<le> length buf \<and> take (length s) (drop p buf) = s"

lemma at_pos_split: "at_pos buf p s \<longleftrightarrow> (\<exists>pre rest. buf = pre @ s @ rest \<and> length pre = p)"
proof
  assume "at_pos buf p s"
  then have "buf = take p buf @ s @ drop (p + length s) buf" and "length (take p buf) = p"
    by (auto simp: at_pos_def) (metis append_take_drop_id drop_drop add.commute)
  then show "\<exists>pre rest. buf = pre @ s @ rest \<and> length pre = p" by blast
qed (auto simp: at_pos_def)

lemma at_posI [simp]: "at_pos (pre @ s @ rest) (length pre) s"
  by (auto simp: at_pos_def)

lemma at_pos_prefix: "at_pos (s @ rest) 0 s"
  by (simp add: at_pos_def)

lemma at_pos_self: "at_pos s 0 s"
  by (simp add: at_pos_def)

lemma at_pos_append:
  "at_pos buf p (s @ t) \<longleftrightarrow> at_pos buf p s \<and> at_pos buf (p + length s) t"
proof
  assume "at_pos buf p (s @ t)"
  then obtain pre rest where "buf = pre @ s @ t @ rest" "length pre = p"
    by (auto simp: at_pos_split)
  then show "at_pos buf p s \<and> at_pos buf (p + length s) t"
    using at_posI [of pre s "t @ rest"] at_posI [of "pre @ s" t rest] by simp
next
  assume a: "at_pos buf p s \<and> at_pos buf (p + length s) t"
  have "take (length s + length t) (drop p buf)
      = take (length s) (drop p buf) @ take (length t) (drop (p + length s) buf)"
    by (simp add: take_add add.commute)
  then show "at_pos buf p (s @ t)" using a by (auto simp: at_pos_def)
qed

lemma at_pos_Nil [simp]: "at_pos buf p [] \<longleftrightarrow> p \<le> length buf"
  by (simp add: at_pos_def)

lemma at_pos_Cons: "at_pos buf p (x # s) \<longleftrightarrow> at_pos buf p [x] \<and> at_pos buf (Suc p) s"
  using at_pos_append [of buf p "[x]" s] by simp

lemma at_pos_get: "at_pos buf p [x] \<longleftrightarrow> p < length buf \<and> buf ! p = x"
proof -
  have "take 1 (drop p buf) = [buf ! p]" if "p < length buf"
    using that by (simp add: take_Suc_conv_app_nth)
  then show ?thesis by (auto simp: at_pos_def Suc_le_eq)
qed

lemma at_pos_get_at: "at_pos buf p (x # s) \<Longrightarrow> get_at buf p = Some x"
  by (auto simp: at_pos_Cons [of buf p x s] at_pos_get get_at_def)

lemma at_pos_tl: "at_pos buf p (x # s) \<Longrightarrow> at_pos buf (p + 1) s"
  using at_pos_append [of buf p "[x]" s] by simp

lemma at_pos_range: "at_pos buf p s \<Longrightarrow> get_range buf p (p + length s) = Some s"
  by (auto simp: at_pos_def get_range_def)

lemma at_pos_take: "at_pos buf p s \<Longrightarrow> length s = n \<Longrightarrow> take n (drop p buf) = s"
  by (simp add: at_pos_def)

lemma at_pos_take0: "at_pos buf 0 s \<Longrightarrow> length s = n \<Longrightarrow> take n buf = s"
  by (simp add: at_pos_def)

lemma at_pos_le: "at_pos buf p s \<Longrightarrow> p + length s \<le> length buf"
  by (simp add: at_pos_def)

section \<open>Little- and big-endian integers\<close>

lemma unat_u8_less: "unat (b :: u8) < 256"
  using unsigned_less [of b, where ?'a = nat] by simp

lemma unat_u16_less: "unat (b :: u16) < 2 ^ 16"
  using unsigned_less [of b, where ?'a = nat] by simp

lemma unat_u32_less: "unat (b :: u32) < 2 ^ 32"
  using unsigned_less [of b, where ?'a = nat] by simp

lemma unat_u64_less: "unat (b :: u64) < 2 ^ 64"
  using unsigned_less [of b, where ?'a = nat] by simp

lemma unat_of_nat_u64: "n < 2 ^ 64 \<Longrightarrow> unat (of_nat n :: u64) = n"
  by (simp add: unat_of_nat)

lemma unat_of_nat_u16: "n < 2 ^ 16 \<Longrightarrow> unat (of_nat n :: u16) = n"
  by (simp add: unat_of_nat)

fun nat_le :: "nat \<Rightarrow> nat \<Rightarrow> bytes" where
  "nat_le 0 n = []"
| "nat_le (Suc k) n = of_nat (n mod 256) # nat_le k (n div 256)"

fun le_val :: "bytes \<Rightarrow> nat" where
  "le_val [] = 0"
| "le_val (b # bs) = unat b + 256 * le_val bs"

definition be_val :: "bytes \<Rightarrow> nat" where
  "be_val bs = le_val (rev bs)"

definition u16_le :: "u16 \<Rightarrow> bytes" where "u16_le w = nat_le 2 (unat w)"
definition u32_le :: "u32 \<Rightarrow> bytes" where "u32_le w = nat_le 4 (unat w)"
definition u64_le :: "u64 \<Rightarrow> bytes" where "u64_le w = nat_le 8 (unat w)"
definition u64_be :: "u64 \<Rightarrow> bytes" where "u64_be w = rev (nat_le 8 (unat w))"

lemma length_nat_le [simp]: "length (nat_le k n) = k"
  by (induction k arbitrary: n) auto

lemma le_val_nat_le: "le_val (nat_le k n) = n mod 256 ^ k"
proof (induction k arbitrary: n)
  case (Suc k)
  have "unat (of_nat (n mod 256) :: u8) = n mod 256"
    by (simp add: unat_of_nat)
  moreover have "n mod 256 + 256 * (n div 256 mod 256 ^ k) = n mod (256 * 256 ^ k)"
    by (simp add: mod_mult2_eq)
  ultimately show ?case using Suc by simp
qed simp

lemma le_val_bound: "le_val bs < 256 ^ length bs"
proof (induction bs)
  case (Cons b bs)
  have "unat b < 256" by (rule unat_u8_less)
  with Cons show ?case by simp
qed simp

lemma nat_le_le_val: "nat_le (length bs) (le_val bs) = bs"
proof (induction bs)
  case (Cons b bs)
  have b: "unat b < 256" by (rule unat_u8_less)
  then have "(unat b + 256 * le_val bs) mod 256 = unat b"
    and "(unat b + 256 * le_val bs) div 256 = le_val bs" by simp_all
  with Cons show ?case by simp
qed simp

lemma length_le_be [simp]:
  "length (u16_le a) = 2" "length (u32_le b) = 4" "length (u64_le c) = 8" "length (u64_be c) = 8"
  by (simp_all add: u16_le_def u32_le_def u64_le_def u64_be_def)

lemma u16_le_pair: "\<exists>x y. u16_le w = [x, y]"
  by (simp add: u16_le_def numeral_2_eq_2)

lemma le_val_u16_le [codec_simps]: "le_val (u16_le w) = unat w"
  using unat_u16_less [of w] by (simp add: u16_le_def le_val_nat_le)

lemma le_val_u32_le [codec_simps]: "le_val (u32_le w) = unat w"
  using unat_u32_less [of w] by (simp add: u32_le_def le_val_nat_le)

lemma le_val_u64_le [codec_simps]: "le_val (u64_le w) = unat w"
  using unat_u64_less [of w] by (simp add: u64_le_def le_val_nat_le)

lemma be_val_u64_be [codec_simps]: "be_val (u64_be w) = unat w"
  using unat_u64_less [of w] by (simp add: u64_be_def be_val_def le_val_nat_le)

lemma u64_le_of_le_val: "length bs = 8 \<Longrightarrow> u64_le (of_nat (le_val bs)) = bs"
  using le_val_bound [of bs] nat_le_le_val [of bs] by (simp add: u64_le_def unat_of_nat)

lemma u64_be_of_be_val: "length bs = 8 \<Longrightarrow> u64_be (of_nat (be_val bs)) = bs"
  using le_val_bound [of "rev bs"] nat_le_le_val [of "rev bs"]
  by (simp add: u64_be_def be_val_def unat_of_nat)

section \<open>Writes into a fixed buffer\<close>

text \<open>\<^verbatim>\<open>body[off..off + s.len()].copy_from_slice(s)\<close>; the code's callers keep it in range.\<close>

definition blit :: "'a list \<Rightarrow> nat \<Rightarrow> 'a list \<Rightarrow> 'a list" where
  "blit body off s = take off body @ s @ drop (off + length s) body"

lemma length_blit [simp]: "off + length s \<le> length body \<Longrightarrow> length (blit body off s) = length body"
  by (simp add: blit_def)

lemma blit_at_pos: "off + length s \<le> length body \<Longrightarrow> at_pos (blit body off s) off s"
  unfolding blit_def using at_posI [of "take off body" s "drop (off + length s) body"] by simp

lemma blit_at_pos_before:
  assumes "p + length t \<le> off" and "off + length s \<le> length body"
  shows "at_pos (blit body off s) p t \<longleftrightarrow> at_pos body p t"
proof -
  have "take (length t) (drop p (blit body off s)) = take (length t) (drop p body)"
    using assms by (auto simp: blit_def drop_append take_append drop_take)
  with assms show ?thesis by (simp add: at_pos_def)
qed

lemma blit_at_pos_after:
  assumes "off + length s \<le> p" and "off + length s \<le> length body"
  shows "at_pos (blit body off s) p t \<longleftrightarrow> at_pos body p t"
proof -
  have "drop p (blit body off s) = drop p body"
    using assms by (simp add: blit_def)
  with assms show ?thesis by (simp add: at_pos_def)
qed

lemma blit_single: "i < length body \<Longrightarrow> blit body i [x] = body[i := x]"
  by (simp add: blit_def upd_conv_take_nth_drop)

lemma blit_nth:
  assumes "off + length s \<le> length body" "i < length body"
  shows "blit body off s ! i =
    (if i < off then body ! i else if i < off + length s then s ! (i - off) else body ! i)"
  using assms by (auto simp: blit_def nth_append)

section \<open>Interface: a self-delimited codec\<close>

text \<open>
  \<open>enc\<close> appends the bytes of a value, \<open>dec\<close> reads a value at a position and returns the next
  position.  The only law: wherever the bytes of an admissible value stand, \<open>dec\<close> gives the value
  back and stops right after them.
\<close>

fun dec_many :: "(bytes \<Rightarrow> nat \<Rightarrow> 'e + 'a \<times> nat) \<Rightarrow> nat \<Rightarrow> bytes \<Rightarrow> nat \<Rightarrow> 'e + 'a list \<times> nat" where
  "dec_many dec 0 buf p = Inr ([], p)"
| "dec_many dec (Suc n) buf p =
     rbind (dec buf p) (\<lambda>(x, p'). rbind (dec_many dec n buf p') (\<lambda>(xs, q). Inr (x # xs, q)))"

locale codec =
  fixes enc :: "'a \<Rightarrow> bytes"
    and dec :: "bytes \<Rightarrow> nat \<Rightarrow> 'e + 'a \<times> nat"
    and ok :: "'a \<Rightarrow> bool"
  assumes dec_enc: "ok a \<Longrightarrow> at_pos buf p (enc a) \<Longrightarrow> dec buf p = Inr (a, p + length (enc a))"
begin

lemma dec_whole:
  assumes "ok a"
  shows "dec (enc a) 0 = Inr (a, length (enc a))"
  using dec_enc [OF assms, of "enc a" 0] by (simp add: at_pos_self)

lemma enc_inject:
  assumes "ok a" "ok b" "enc a = enc b"
  shows "a = b"
  using dec_whole [OF assms(1)] dec_whole [OF assms(2)] unfolding assms(3) by simp

lemma enc_prefix_free:
  assumes "ok a" "ok b" "enc a @ x = enc b @ y"
  shows "a = b"
proof -
  have "at_pos (enc a @ x) 0 (enc a)" by (rule at_pos_prefix)
  moreover have "at_pos (enc a @ x) 0 (enc b)"
    unfolding assms(3) by (rule at_pos_prefix)
  ultimately show ?thesis
    using dec_enc [OF assms(1)] dec_enc [OF assms(2)] by fastforce
qed

lemma dec_many_enc:
  "list_all ok xs \<Longrightarrow> at_pos buf p (concat (map enc xs)) \<Longrightarrow>
   dec_many dec (length xs) buf p = Inr (xs, p + length (concat (map enc xs)))"
proof (induction xs arbitrary: p)
  case (Cons x xs)
  then have "dec buf p = Inr (x, p + length (enc x))"
    by (intro dec_enc) (simp_all add: at_pos_append)
  moreover have "dec_many dec (length xs) buf (p + length (enc x))
      = Inr (xs, p + length (enc x) + length (concat (map enc xs)))"
    using Cons by (intro Cons.IH) (simp_all add: at_pos_append)
  ultimately show ?case by simp
qed simp

end

section \<open>Interface: an order-preserving encoding\<close>

text \<open>
  \<open>lt\<close> is the order of the values; the law says that smaller values have strictly smaller
  encodings \<^emph>\<open>whatever bytes follow\<close>, which is what a composite index key needs.
\<close>

lemma lex_append_same [simp]: "(us :: bytes) @ x < us @ y \<longleftrightarrow> x < y"
  by (induction us) auto

lemma le_val_append: "le_val (xs @ ys) = le_val xs + 256 ^ length xs * le_val ys"
  by (induction xs) (auto simp: algebra_simps)

lemma be_val_Cons: "be_val (x # xs) = unat x * 256 ^ length xs + be_val xs"
  by (simp add: be_val_def le_val_append)

lemma be_val_bound: "be_val xs < 256 ^ length xs"
  using le_val_bound [of "rev xs"] by (simp add: be_val_def)

lemma digit_less:
  assumes "(a :: nat) < n" "b < n" "x * n + a < y * n + b"
  shows "x < y \<or> x = y \<and> a < b"
proof (cases x y rule: linorder_cases)
  case greater
  then obtain k where "x = Suc (y + k)" using less_imp_Suc_add by blast
  then have "x * n = y * n + n + k * n" by (simp add: algebra_simps)
  then show ?thesis using assms by linarith
qed (use assms in auto)

text \<open>Equal-length big-endian strings compare like their values, whatever follows.\<close>

lemma be_val_less:
  "length xs = length ys \<Longrightarrow> be_val xs < be_val ys \<Longrightarrow> xs @ u < ys @ (v :: bytes)"
proof (induction xs ys rule: list_induct2)
  case (Cons x xs y ys)
  then have "unat x < unat y \<or> unat x = unat y \<and> be_val xs < be_val ys"
    using digit_less [of "be_val xs" "256 ^ length xs" "be_val ys"] be_val_bound [of xs] be_val_bound [of ys]
    by (simp add: be_val_Cons)
  then show ?case using Cons.IH by (auto simp: word_less_nat_alt word_unat_eq_iff)
qed (simp add: be_val_def)

lemma u64_be_less: "a < b \<Longrightarrow> u64_be a @ u < u64_be b @ v"
  by (rule be_val_less) (simp_all add: be_val_u64_be word_less_nat_alt)

lemma uint_xor_top: "uint ((a :: u64) XOR push_bit 63 1) = sint a + 2 ^ 63"
proof -
  define s :: u64 where "s = push_bit 63 1"
  have sb: "bit s n \<longleftrightarrow> n = 63" for n
    unfolding s_def bit_push_bit_iff by (auto simp: bit_1_iff)
  have s2: "s = 2 ^ 63" by (simp add: s_def push_bit_eq_mult)
  have x: "a XOR s = a + s"
  proof (cases "bit a 63")
    case True
    have n: "NOT a AND s = 0"
      by (rule bit_word_eqI) (use True in \<open>auto simp: bit_simps sb\<close>)
    have "a XOR s = a - s"
      using disjunctive_and_not_eq_xor [OF n] disjunctive_diff_eq_and_not [OF n] by simp
    also have "\<dots> = a + s" by (simp add: s2)
    finally show ?thesis .
  next
    case False
    have n: "a AND s = 0"
      by (rule bit_word_eqI) (use False in \<open>auto simp: bit_simps sb\<close>)
    then show ?thesis
      using disjunctive_add_eq_or [OF n] disjunctive_xor_eq_or [OF n] by simp
  qed
  have "sint a + 2 ^ 63 = take_bit 64 (uint a + 2 ^ 63)"
    by (simp add: sint_uint signed_take_bit_eq_take_bit_shift)
  also have "\<dots> = uint (a + s)"
    by (simp add: s2 uint_word_ariths take_bit_eq_mod)
  finally show ?thesis using x by (simp add: s_def)
qed

locale memcmp =
  fixes enc :: "'a \<Rightarrow> bytes"
    and ok :: "'a \<Rightarrow> bool"
    and lt :: "'a \<Rightarrow> 'a \<Rightarrow> bool"
  assumes lt_enc: "ok a \<Longrightarrow> ok b \<Longrightarrow> lt a b \<Longrightarrow> enc a @ x < enc b @ y"
    and lt_total: "ok a \<Longrightarrow> ok b \<Longrightarrow> lt a b \<or> a = b \<or> lt b a"
begin

lemma lt_irrefl: "ok a \<Longrightarrow> \<not> lt a a"
  using lt_enc [of a a "[]" "[]"] by auto

lemma lt_asym: "ok a \<Longrightarrow> ok b \<Longrightarrow> lt a b \<Longrightarrow> \<not> lt b a"
  using lt_enc [of a b "[]" "[]"] lt_enc [of b a "[]" "[]"] by auto

lemma enc_less_iff:
  assumes "ok a" "ok b"
  shows "enc a @ x < enc b @ y \<longleftrightarrow> lt a b \<or> a = b \<and> x < y"
  using lt_total [OF assms]
proof (elim disjE)
  assume "lt b a"
  then have "enc b @ y < enc a @ x" using assms by (simp add: lt_enc)
  with \<open>lt b a\<close> show ?thesis using assms lt_asym [of a b] lt_irrefl by auto
qed (use assms lt_irrefl in \<open>auto simp: lt_enc lex_append_same\<close>)

lemma enc_order: "ok a \<Longrightarrow> ok b \<Longrightarrow> enc a < enc b \<longleftrightarrow> lt a b"
  using enc_less_iff [of a b "[]" "[]"] by auto

lemma enc_inject: "ok a \<Longrightarrow> ok b \<Longrightarrow> enc a = enc b \<Longrightarrow> a = b"
  using enc_order [of a b] enc_order [of b a] lt_total [of a b] by auto

end

end
