(* ===== verification/Errors.thy ===== *)
theory Errors
  imports Prelude
begin

text \<open>
  The engine's error type (\<^verbatim>\<open>src/error.rs\<close>) and the two public types of \<^verbatim>\<open>src/tx.rs\<close> it carries.
  Reason strings are the code's, without accents.  A \<^verbatim>\<open>SystemTime\<close> is the number of nanoseconds since
  the Unix epoch (negative before it), and an operating-system error is an opaque string.  The last
  constructor is not one of the code's: \<open>Panic\<close> is the outcome of an operation that panics (an index
  out of range, an arithmetic assertion), which ends the call as an error would.
\<close>

datatype as_of = AsHead | AsVersion u64 | AsTimestamp int

record merge_conflict =
  mc_key :: bytes
  mc_from :: "bytes option"
  mc_into :: "bytes option"

datatype error =
    Io string
  | NotADatabase
  | UnsupportedFormat u32
  | UnsupportedPageSize u32
  | KeyRequired
  | WrongKey
  | Corrupt u64 string
  | InvalidInput string
  | CorruptRecord string
  | Constraint string
  | Sql string "nat option"
  | VersionNotFound as_of
  | ChainBroken u64 string
  | Conversion string string
  | Busy
  | BranchNotFound bytes
  | BranchExists bytes
  | Conflict "merge_conflict list"
  | Panic

type_synonym 'a res = "error + 'a"

end
