(* ===== verification/Format.thy ===== *)
theory Format
  imports Errors
begin

unbundle bit_operations_syntax

text \<open>
  Constants and binary layouts of the file format (\<^verbatim>\<open>src/format.rs\<close>): the file header, the meta
  slots, the LEB128 varint and its length, and fixed-width reads.  A page body is a list of bytes;
  \<^verbatim>\<open>encode_into\<close> is a sequence of in-place writes into it.  The code's callers pass bodies of
  \<^verbatim>\<open>BODY_SIZE\<close> bytes; on a shorter body the slices of the code panic, and the properties assume
  the length.
\<close>

section \<open>Constants\<close>

definition PAGE_SIZE :: nat where "PAGE_SIZE = 4096"
definition NONCE_LEN :: nat where "NONCE_LEN = 12"
definition TAG_LEN :: nat where "TAG_LEN = 16"
definition CRYPTO_RESERVE :: nat where "CRYPTO_RESERVE = NONCE_LEN + TAG_LEN"
definition BODY_SIZE :: nat where "BODY_SIZE = PAGE_SIZE - CRYPTO_RESERVE"
definition LEN_PREFIX_LEN :: nat where "LEN_PREFIX_LEN = 4"
definition MIN_RECORD_LEN :: nat where "MIN_RECORD_LEN = LEN_PREFIX_LEN + CRYPTO_RESERVE"

lemmas size_consts = PAGE_SIZE_def NONCE_LEN_def TAG_LEN_def CRYPTO_RESERVE_def BODY_SIZE_def
  LEN_PREFIX_LEN_def MIN_RECORD_LEN_def

text \<open>The ASCII bytes of a string literal.\<close>

definition ascii :: "string \<Rightarrow> bytes" where
  "ascii s = map (\<lambda>c. of_nat (of_char c)) s"

lemma length_ascii [simp]: "length (ascii s) = length s"
  by (simp add: ascii_def)

definition MAGIC_HEADER :: bytes where "MAGIC_HEADER = ascii ''ARKEION1''"
definition MAGIC_META :: bytes where "MAGIC_META = ascii ''ARKMETA1''"
definition MAGIC_COMMIT :: bytes where "MAGIC_COMMIT = ascii ''ARKCMT01''"
definition FORMAT_VERSION :: u32 where "FORMAT_VERSION = 5"
definition FLAG_ENCRYPTED :: u32 where "FLAG_ENCRYPTED = 1"
definition FLAG_COMPRESSED :: u32 where "FLAG_COMPRESSED = 2"

type_synonym page_id = u64

definition HEADER_PAGE :: page_id where "HEADER_PAGE = 0"
definition META_PAGE_A :: page_id where "META_PAGE_A = 1"
definition META_PAGE_B :: page_id where "META_PAGE_B = 2"
definition FIRST_DATA_PAGE :: page_id where "FIRST_DATA_PAGE = 3"

definition byte_offset :: "page_id \<Rightarrow> u64" where
  "byte_offset p = p * of_nat PAGE_SIZE"

lemma length_magic [simp]:
  "length MAGIC_HEADER = 8" "length MAGIC_META = 8" "length MAGIC_COMMIT = 8"
  by (simp_all add: MAGIC_HEADER_def MAGIC_META_def MAGIC_COMMIT_def)

section \<open>Fixed-width reads\<close>

definition le_u32 :: "bytes \<Rightarrow> nat \<Rightarrow> u32" where
  "le_u32 b off = of_nat (le_val (take 4 (drop off b)))"

definition le_u64 :: "bytes \<Rightarrow> nat \<Rightarrow> u64" where
  "le_u64 b off = of_nat (le_val (take 8 (drop off b)))"

lemma le_u32_at [codec_simps]: "at_pos b off (u32_le w) \<Longrightarrow> le_u32 b off = w"
  by (simp add: at_pos_def le_u32_def codec_simps)

lemma le_u64_at [codec_simps]: "at_pos b off (u64_le w) \<Longrightarrow> le_u64 b off = w"
  by (simp add: at_pos_def le_u64_def codec_simps)

section \<open>Pages\<close>

text \<open>A page buffer is a whole page: nonce, tag, body.\<close>

type_synonym page_buf = bytes

definition page_zeroed :: page_buf where "page_zeroed = replicate PAGE_SIZE 0"
definition page_nonce :: "page_buf \<Rightarrow> bytes" where "page_nonce p = take NONCE_LEN p"
definition page_tag :: "page_buf \<Rightarrow> bytes" where
  "page_tag p = take (CRYPTO_RESERVE - NONCE_LEN) (drop NONCE_LEN p)"
definition page_body :: "page_buf \<Rightarrow> bytes" where "page_body p = drop CRYPTO_RESERVE p"

section \<open>File header\<close>

record file_header =
  fh_flags :: u32
  fh_file_id :: bytes
  fh_kdf_salt :: bytes
  fh_ecc_nsym :: u8

definition header_encode_into :: "file_header \<Rightarrow> bytes \<Rightarrow> bytes" where
  "header_encode_into h body =
     (let body = blit body 0 MAGIC_HEADER;
          body = blit body 8 (u32_le FORMAT_VERSION);
          body = blit body 12 (u32_le (of_nat PAGE_SIZE));
          body = blit body 16 (u32_le (fh_flags h));
          body = blit body 20 (fh_file_id h);
          body = blit body 36 (fh_kdf_salt h)
      in body[52 := fh_ecc_nsym h])"

definition header_decode :: "bytes \<Rightarrow> file_header res" where
  "header_decode body =
     (if take 8 body \<noteq> MAGIC_HEADER then Inl NotADatabase
      else let version = le_u32 body 8 in
        if version > FORMAT_VERSION then Inl (UnsupportedFormat version)
        else let page_size = le_u32 body 12 in
          if unat page_size \<noteq> PAGE_SIZE then Inl (UnsupportedPageSize page_size)
          else Inr \<lparr>fh_flags = le_u32 body 16,
                    fh_file_id = take 16 (drop 20 body),
                    fh_kdf_salt = take 16 (drop 36 body),
                    fh_ecc_nsym = body ! 52\<rparr>)"

section \<open>Meta slots\<close>

record meta_slot =
  ms_version :: u64
  ms_last_commit_page :: page_id
  ms_n_pages :: u64

definition slot_page :: "u64 \<Rightarrow> page_id" where
  "slot_page version = META_PAGE_A + version mod 2"

definition meta_encode_into :: "meta_slot \<Rightarrow> bytes \<Rightarrow> bytes" where
  "meta_encode_into m body =
     (let body = blit body 0 MAGIC_META;
          body = blit body 8 (u64_le (ms_version m));
          body = blit body 16 (u64_le (ms_last_commit_page m))
      in blit body 24 (u64_le (ms_n_pages m)))"

definition meta_decode :: "bytes \<Rightarrow> meta_slot option" where
  "meta_decode body =
     (if take 8 body \<noteq> MAGIC_META then None
      else Some \<lparr>ms_version = le_u64 body 8,
                 ms_last_commit_page = le_u64 body 16,
                 ms_n_pages = le_u64 body 24\<rparr>)"

section \<open>Varint (LEB128)\<close>

text \<open>The bytes \<^verbatim>\<open>put_varint\<close> pushes: seven bits at a time, the high bit set on all but the last.\<close>

lemma unat_drop7: "unat (drop_bit 7 (v :: u64)) = unat v div 128"
  by (simp add: unat_drop_bit_eq, simp add: drop_bit_eq_div)

function put_varint :: "u64 \<Rightarrow> bytes" where
  "put_varint v =
     (let b = ucast (v AND 0x7f) :: u8; v' = drop_bit 7 v
      in if v' = 0 then [b] else (b OR 0x80) # put_varint v')"
  by pat_completeness auto
termination
proof (relation "measure unat")
  fix v :: u64 and b v'
  assume "v' = drop_bit 7 v" and "v' \<noteq> 0"
  then have "unat v div 128 \<noteq> 0" using unat_drop7 [of v] by (metis unat_eq_zero)
  then show "(v', v) \<in> measure unat" using \<open>v' = drop_bit 7 v\<close> by (simp add: unat_drop7)
qed simp

declare put_varint.simps [simp del]

text \<open>The loop of \<^verbatim>\<open>take_varint\<close>: accumulator, shift and position.\<close>

function take_varint_loop :: "bytes \<Rightarrow> nat \<Rightarrow> u64 \<Rightarrow> nat \<Rightarrow> (u64 \<times> nat) option" where
  "take_varint_loop buf pos v shift =
     (case get_at buf pos of
        None \<Rightarrow> None
      | Some b \<Rightarrow>
          let v = v OR push_bit shift (ucast (b AND 0x7f)) in
          if b AND 0x80 = 0 then Some (v, pos + 1)
          else if shift + 7 \<ge> 64 then None
          else take_varint_loop buf (pos + 1) v (shift + 7))"
  by pat_completeness auto
termination by (relation "measure (\<lambda>(buf, pos, v, shift). 64 - shift)") auto

declare take_varint_loop.simps [simp del]

definition take_varint :: "bytes \<Rightarrow> nat \<Rightarrow> (u64 \<times> nat) option" where
  "take_varint buf pos = take_varint_loop buf pos 0 0"

text \<open>Rust's \<^verbatim>\<open>leading_zeros\<close> of a 64-bit word is 64 minus the number of significant bits.\<close>

fun bit_count :: "nat \<Rightarrow> nat" where
  "bit_count n = (if n = 0 then 0 else Suc (bit_count (n div 2)))"

declare bit_count.simps [simp del]

definition leading_zeros :: "u64 \<Rightarrow> nat" where
  "leading_zeros w = 64 - bit_count (unat w)"

definition div_ceil :: "nat \<Rightarrow> nat \<Rightarrow> nat" where
  "div_ceil a b = (a + b - 1) div b"

definition varint_len :: "u64 \<Rightarrow> nat" where
  "varint_len v = div_ceil (max (64 - leading_zeros v) 1) 7"

section \<open>Varint: round trip, length, bounds\<close>

lemma bit_0x80: "bit (0x80 :: int) n \<longleftrightarrow> n = 7"
proof -
  have "(0x80 :: int) = push_bit 7 1" by simp
  then show ?thesis by (simp only: bit_push_bit_iff bit_1_iff) auto
qed

lemma bit_0x7f: "bit (0x7f :: int) n \<longleftrightarrow> n < 7"
proof -
  have "(0x7f :: int) = mask 7" by (simp add: mask_eq_exp_minus_1)
  then show ?thesis by (simp only: bit_mask_iff) auto
qed

lemma take7_word: "(ucast ((ucast (v AND 0x7f) :: u8) AND 0x7f) :: u64) = take_bit 7 v"
proof (rule bit_word_eqI)
  fix n
  show "n < LENGTH(64) \<Longrightarrow> bit (ucast ((ucast (v AND 0x7f) :: u8) AND 0x7f) :: u64) n = bit (take_bit 7 v) n"
    by (auto simp: bit_simps bit_0x7f bit_0x80)
qed

lemma take7_word_cont: "(ucast (((ucast (v AND 0x7f) :: u8) OR 0x80) AND 0x7f) :: u64) = take_bit 7 v"
proof (rule bit_word_eqI)
  fix n
  show "n < LENGTH(64) \<Longrightarrow> bit (ucast (((ucast (v AND 0x7f) :: u8) OR 0x80) AND 0x7f) :: u64) n = bit (take_bit 7 v) n"
    by (auto simp: bit_simps bit_0x7f bit_0x80)
qed

lemma byte_stop: "(ucast (v AND 0x7f) :: u8) AND 0x80 = 0" for v :: u64
proof (rule bit_word_eqI)
  fix n
  show "n < LENGTH(8) \<Longrightarrow> bit ((ucast (v AND 0x7f) :: u8) AND 0x80) n = bit (0 :: u8) n"
    by (auto simp: bit_simps bit_0x7f bit_0x80)
qed

lemma byte_cont: "((b :: u8) OR 0x80) AND 0x80 \<noteq> 0"
proof -
  have "bit ((b OR 0x80) AND 0x80) 7" by (simp add: bit_simps bit_0x80)
  then show ?thesis by (metis bit_0_eq bot_apply bot_bool_def)
qed

lemma push_split: "push_bit s (take_bit 7 v) OR push_bit (s + 7) (drop_bit 7 v) = push_bit s (v :: u64)"
proof (rule bit_word_eqI)
  fix n
  show "n < LENGTH(64) \<Longrightarrow> bit (push_bit s (take_bit 7 v) OR push_bit (s + 7) (drop_bit 7 v)) n = bit (push_bit s v) n"
    by (cases "s + 7 \<le> n") (auto simp: bit_simps)
qed

lemma take_varint_loop_put:
  "s < 64 \<Longrightarrow> unat v < 2 ^ (64 - s) \<Longrightarrow> at_pos buf p (put_varint v) \<Longrightarrow>
   take_varint_loop buf p acc s = Some (acc OR push_bit s v, p + length (put_varint v))"
proof (induction v arbitrary: p acc s rule: put_varint.induct)
  case (1 v)
  show ?case
  proof (cases "drop_bit 7 v = 0")
    case True
    have e: "put_varint v = [ucast (v AND 0x7f)]" using True by (simp add: put_varint.simps [of v] Let_def)
    have g: "get_at buf p = Some (ucast (v AND 0x7f))"
      using 1(4) unfolding e by (rule at_pos_get_at)
    have "take_bit 7 v = v"
      using push_split [of 0 v] True by simp
    then show ?thesis
      unfolding take_varint_loop.simps [of buf p] g e
      by (simp only: option.case Let_def take7_word byte_stop if_True list.size) simp
  next
    case False
    define b where "b = (ucast (v AND 0x7f) :: u8) OR 0x80"
    have e: "put_varint v = b # put_varint (drop_bit 7 v)"
      using False by (simp add: put_varint.simps [of v] Let_def b_def)
    have g: "get_at buf p = Some b" using 1(4) unfolding e by (rule at_pos_get_at)
    have "unat v div 128 \<noteq> 0" using False by (metis unat_drop7 unat_eq_zero)
    then have "128 \<le> unat v" by simp
    then have "(2::nat) ^ 7 < 2 ^ (64 - s)" using 1(3) by simp
    then have s: "s + 7 < 64" using power_less_imp_less_exp [of "2::nat" 7 "64 - s"] by simp
    have "(2::nat) ^ (64 - s) = 128 * 2 ^ (64 - (s + 7))"
      using s power_add [of "2::nat" 7 "64 - (s + 7)"] by simp
    then have lt: "unat (drop_bit 7 v) < 2 ^ (64 - (s + 7))" using 1(3) by (simp add: unat_drop7)
    have at: "at_pos buf (p + 1) (put_varint (drop_bit 7 v))"
      using 1(4) unfolding e by (rule at_pos_tl)
    have IH: "take_varint_loop buf (Suc p) acc' (s + 7) =
        Some (acc' OR push_bit (s + 7) (drop_bit 7 v), Suc p + length (put_varint (drop_bit 7 v)))" for acc'
      using 1(1) [OF refl refl False s lt at] by simp
    have c: "b AND 0x80 \<noteq> 0" unfolding b_def by (rule byte_cont)
    have u: "(ucast (b AND 0x7f) :: u64) = take_bit 7 v" unfolding b_def by (rule take7_word_cont)
    show ?thesis
      unfolding take_varint_loop.simps [of buf p] g e
      using s c by (simp add: Let_def u IH or.assoc push_split)
  qed
qed

lemma take_varint_put [codec_simps]:
  "at_pos buf p (put_varint v) \<Longrightarrow> take_varint buf p = Some (v, p + length (put_varint v))"
  unfolding take_varint_def using take_varint_loop_put [of 0 v buf p 0] unat_u64_less [of v] by simp

lemma take_varint_loop_bounds:
  "take_varint_loop buf p v s = Some (w, q) \<Longrightarrow> p < q \<and> q \<le> length buf"
proof (induction buf p v s rule: take_varint_loop.induct)
  case (1 buf pos v shift)
  then show ?case
    by (fastforce simp: take_varint_loop.simps [of buf pos] get_at_def Let_def
        split: option.splits if_splits)
qed

lemma bit_count_div: "0 < n \<Longrightarrow> bit_count n = Suc (bit_count (n div 2))"
  by (simp add: bit_count.simps)

lemma bit_count_0 [simp]: "bit_count 0 = 0"
  by (simp add: bit_count.simps)

lemma bit_count_le: "n < 2 ^ k \<Longrightarrow> bit_count n \<le> k"
proof (induction k arbitrary: n)
  case (Suc k)
  then show ?case by (cases "n = 0") (simp_all add: bit_count_div)
qed simp

lemma bit_count_ge: "2 ^ k \<le> n \<Longrightarrow> k < bit_count n"
proof (induction k arbitrary: n)
  case 0
  then show ?case by (simp add: bit_count_div)
next
  case (Suc k)
  then have "2 ^ k \<le> n div 2" by simp
  moreover have "0 < n" using Suc.prems by (cases n) auto
  ultimately show ?case using Suc.IH by (simp add: bit_count_div)
qed

lemma bit_count_drop: "bit_count (n div 2 ^ k) = bit_count n - k"
proof (induction k arbitrary: n)
  case (Suc k)
  have "n div 2 ^ Suc k = n div 2 div 2 ^ k" by (simp add: div_mult2_eq)
  then show ?case using Suc by (cases "n = 0") (simp_all add: bit_count_div)
qed simp

lemma unat_leading_zeros: "64 - leading_zeros v = bit_count (unat v)"
  using bit_count_le [of "unat v" 64] unat_u64_less [of v] by (simp add: leading_zeros_def)

lemma length_put_varint_bits: "length (put_varint v) = div_ceil (max (bit_count (unat v)) 1) 7"
proof (induction v rule: put_varint.induct)
  case (1 v)
  have d: "bit_count (unat (drop_bit 7 v)) = bit_count (unat v) - 7"
    using bit_count_drop [of "unat v" 7] by (simp add: unat_drop7)
  show ?case
  proof (cases "drop_bit 7 v = 0")
    case True
    then have "bit_count (unat v) \<le> 7" using d by simp
    then show ?thesis using True
      by (auto simp: put_varint.simps [of v] Let_def div_ceil_def max_def intro!: div_nat_eqI [symmetric])
  next
    case False
    then have "unat (drop_bit 7 v) \<noteq> 0" by (simp add: unat_eq_zero)
    then have "0 < bit_count (unat (drop_bit 7 v))" by (simp add: bit_count_div)
    then have b: "7 < bit_count (unat v)" using d by simp
    have "length (put_varint v) = Suc (length (put_varint (drop_bit 7 v)))"
      using False by (simp add: put_varint.simps [of v] Let_def)
    also have "\<dots> = Suc (div_ceil (max (bit_count (unat v) - 7) 1) 7)"
      using 1 [OF refl refl False] d by simp
    also have "\<dots> = div_ceil (max (bit_count (unat v)) 1) 7"
      using b by (auto simp: div_ceil_def max_def)
    finally show ?thesis .
  qed
qed

theorem length_put_varint [codec_simps]: "length (put_varint v) = varint_len v"
  by (simp add: varint_len_def unat_leading_zeros length_put_varint_bits)

lemma varint_len_bounds: "1 \<le> varint_len v" "varint_len v \<le> 10"
proof -
  have "bit_count (unat v) \<le> 64" using bit_count_le [of "unat v" 64] unat_u64_less [of v] by simp
  then have "(max (bit_count (unat v)) 1 + 6) div 7 \<le> 70 div 7" by (intro div_le_mono) simp
  then show "varint_len v \<le> 10" by (simp add: varint_len_def unat_leading_zeros div_ceil_def)
  have "7 div 7 \<le> (max (bit_count (unat v)) 1 + 6) div 7" by (intro div_le_mono) simp
  then show "1 \<le> varint_len v" by (simp add: varint_len_def unat_leading_zeros div_ceil_def)
qed

lemma put_varint_ne [simp]: "put_varint v \<noteq> []"
  by (simp add: put_varint.simps [of v] Let_def)

lemma header_decode_encode:
  assumes "length body \<ge> 53" "length (fh_file_id h) = 16" "length (fh_kdf_salt h) = 16"
  shows "header_decode (header_encode_into h body) = Inr h"
proof -
  define b1 where "b1 = blit body 0 MAGIC_HEADER"
  define b2 where "b2 = blit b1 8 (u32_le FORMAT_VERSION)"
  define b3 where "b3 = blit b2 12 (u32_le (of_nat PAGE_SIZE))"
  define b4 where "b4 = blit b3 16 (u32_le (fh_flags h))"
  define b5 where "b5 = blit b4 20 (fh_file_id h)"
  define b6 where "b6 = blit b5 36 (fh_kdf_salt h)"
  define b7 where "b7 = blit b6 52 [fh_ecc_nsym h]"
  have e: "header_encode_into h body = b7"
    using assms by (simp add: header_encode_into_def Let_def b1_def b2_def b3_def b4_def b5_def b6_def b7_def
        blit_single)
  have l: "length b1 = length body" "length b2 = length body" "length b3 = length body"
    "length b4 = length body" "length b5 = length body" "length b6 = length body" "length b7 = length body"
    using assms by (simp_all add: b1_def b2_def b3_def b4_def b5_def b6_def b7_def)
  note w = b1_def b2_def b3_def b4_def b5_def b6_def b7_def blit_at_pos blit_at_pos_before
  have "at_pos b7 0 MAGIC_HEADER" "at_pos b7 8 (u32_le FORMAT_VERSION)"
    "at_pos b7 12 (u32_le (of_nat PAGE_SIZE))" "at_pos b7 16 (u32_le (fh_flags h))"
    "at_pos b7 20 (fh_file_id h)" "at_pos b7 36 (fh_kdf_salt h)" "at_pos b7 52 [fh_ecc_nsym h]"
    using assms l by (simp_all add: w)
  then show ?thesis
    unfolding e header_decode_def using assms
    by (simp add: Let_def at_pos_take at_pos_take0 codec_simps at_pos_get PAGE_SIZE_def FORMAT_VERSION_def)
qed

lemma header_decode_rejects_magic:
  "take 8 body \<noteq> MAGIC_HEADER \<Longrightarrow> header_decode body = Inl NotADatabase"
  by (simp add: header_decode_def)

lemma header_decode_rejects_future:
  "take 8 body = MAGIC_HEADER \<Longrightarrow> le_u32 body 8 > FORMAT_VERSION \<Longrightarrow>
   header_decode body = Inl (UnsupportedFormat (le_u32 body 8))"
  by (simp add: header_decode_def Let_def)

lemma meta_decode_encode:
  assumes "length body \<ge> 32"
  shows "meta_decode (meta_encode_into m body) = Some m"
proof -
  define b1 where "b1 = blit body 0 MAGIC_META"
  define b2 where "b2 = blit b1 8 (u64_le (ms_version m))"
  define b3 where "b3 = blit b2 16 (u64_le (ms_last_commit_page m))"
  define b4 where "b4 = blit b3 24 (u64_le (ms_n_pages m))"
  have e: "meta_encode_into m body = b4"
    by (simp add: meta_encode_into_def Let_def b1_def b2_def b3_def b4_def)
  have l: "length b1 = length body" "length b2 = length body" "length b3 = length body" "length b4 = length body"
    using assms by (simp_all add: b1_def b2_def b3_def b4_def)
  note w = b1_def b2_def b3_def b4_def blit_at_pos blit_at_pos_before
  have "at_pos b4 0 MAGIC_META" "at_pos b4 8 (u64_le (ms_version m))"
    "at_pos b4 16 (u64_le (ms_last_commit_page m))" "at_pos b4 24 (u64_le (ms_n_pages m))"
    using assms l by (simp_all add: w)
  then show ?thesis
    unfolding e meta_decode_def by (simp add: at_pos_take0 codec_simps)
qed

lemma slot_page_alternates: "slot_page (v + 1) \<noteq> slot_page v"
proof -
  have "even (v + 1) \<longleftrightarrow> \<not> even v" by simp
  then have "(v + 1) mod 2 \<noteq> v mod 2" by (metis even_iff_mod_2_eq_zero)
  then show ?thesis by (simp add: slot_page_def)
qed

lemma slot_page_range: "slot_page v = META_PAGE_A \<or> slot_page v = META_PAGE_B"
proof -
  have "v mod 2 = 0 \<or> v mod 2 = 1" by (metis even_iff_mod_2_eq_zero odd_iff_mod_2_eq_one)
  then show ?thesis by (auto simp: slot_page_def META_PAGE_A_def META_PAGE_B_def)
qed

lemma take_varint_loop_len:
  "take_varint_loop buf p v s = Some (w, q) \<Longrightarrow> s < 64 \<Longrightarrow> q \<le> p + (63 - s) div 7 + 1"
proof (induction buf p v s rule: take_varint_loop.induct)
  case (1 buf pos v shift)
  obtain b where b: "get_at buf pos = Some b"
    using 1(2) by (cases "get_at buf pos") (simp_all add: take_varint_loop.simps [of buf pos])
  show ?case
  proof (cases "b AND 0x80 = 0")
    case True
    then show ?thesis using 1(2) b by (simp add: take_varint_loop.simps [of buf pos] Let_def)
  next
    case False
    then have lt: "shift + 7 < 64"
      using 1(2) b by (simp add: take_varint_loop.simps [of buf pos] Let_def split: if_splits)
    then have "q \<le> pos + 1 + (63 - (shift + 7)) div 7 + 1"
      using 1(1) [OF b refl False] 1(2) b False
      by (simp add: take_varint_loop.simps [of buf pos] Let_def)
    moreover have "(63 - shift) div 7 = (63 - (shift + 7)) div 7 + 1"
      using lt div_add_self2 [of 7 "63 - (shift + 7)"] by simp
    ultimately show ?thesis by simp
  qed
qed

lemma take_varint_bounds:
  assumes "take_varint buf p = Some (v, q)"
  shows "p < q" "q \<le> p + 10" "q \<le> length buf"
  using assms take_varint_loop_bounds [of buf p 0 0 v q] take_varint_loop_len [of buf p 0 0 v q]
  by (simp_all add: take_varint_def)

lemma take_varint_overlong:
  "take_varint (replicate 9 0xFF @ [0x7F]) 0 = Some (0xFFFFFFFFFFFFFFFF, 10)"
  by code_simp

definition varint_dec :: "'e \<Rightarrow> bytes \<Rightarrow> nat \<Rightarrow> 'e + u64 \<times> nat" where
  "varint_dec e buf p = ok_or (take_varint buf p) e"

interpretation varint: codec put_varint "varint_dec e" "\<lambda>_. True" for e
  by unfold_locales (simp add: varint_dec_def codec_simps)

end
