(* ===== verification/Utf8.thy ===== *)
theory Utf8
  imports Prelude
begin

text \<open>
  UTF-8 as Rust's \<^verbatim>\<open>String\<close> requires it.  A \<^verbatim>\<open>String\<close> or \<^verbatim>\<open>&str\<close> is modelled either by its bytes (the
  storage and protocol layers) or by its list of Unicode scalar values (the layers that iterate over
  \<^verbatim>\<open>chars()\<close>); this theory relates the two and gives the check of \<^verbatim>\<open>String::from_utf8\<close>.
\<close>

type_synonym uchar = nat
type_synonym ustr = "uchar list"

definition is_scalar :: "uchar \<Rightarrow> bool" where
  "is_scalar c \<longleftrightarrow> c < 0xD800 \<or> (0xE000 \<le> c \<and> c \<le> 0x10FFFF)"

definition len_utf8 :: "uchar \<Rightarrow> nat" where
  "len_utf8 c = (if c < 0x80 then 1 else if c < 0x800 then 2 else if c < 0x10000 then 3 else 4)"

definition utf8_char :: "uchar \<Rightarrow> bytes" where
  "utf8_char c =
     (if c < 0x80 then [of_nat c]
      else if c < 0x800 then [of_nat (0xC0 + c div 64), of_nat (0x80 + c mod 64)]
      else if c < 0x10000 then
        [of_nat (0xE0 + c div 4096), of_nat (0x80 + c div 64 mod 64), of_nat (0x80 + c mod 64)]
      else [of_nat (0xF0 + c div 262144), of_nat (0x80 + c div 4096 mod 64),
            of_nat (0x80 + c div 64 mod 64), of_nat (0x80 + c mod 64)])"

definition utf8_bytes :: "ustr \<Rightarrow> bytes" where
  "utf8_bytes s = concat (map utf8_char s)"

definition is_cont :: "u8 \<Rightarrow> bool" where
  "is_cont b \<longleftrightarrow> 0x80 \<le> unat b \<and> unat b < 0xC0"

text \<open>
  The first scalar value of a byte string and the number of its bytes; \<open>None\<close> on a truncated,
  overlong, surrogate or out-of-range sequence.
\<close>

definition utf8_next :: "bytes \<Rightarrow> (uchar \<times> nat) option" where
  "utf8_next bs =
     (case bs of [] \<Rightarrow> None
      | b0 # r \<Rightarrow>
        (let n0 = unat b0 in
         if n0 < 0x80 then Some (n0, 1)
         else if n0 < 0xC0 then None
         else if n0 < 0xE0 then
           (case r of b1 # _ \<Rightarrow>
              (let c = (n0 - 0xC0) * 64 + (unat b1 - 0x80)
               in if is_cont b1 \<and> 0x80 \<le> c then Some (c, 2) else None)
            | _ \<Rightarrow> None)
         else if n0 < 0xF0 then
           (case r of b1 # b2 # _ \<Rightarrow>
              (let c = (n0 - 0xE0) * 4096 + (unat b1 - 0x80) * 64 + (unat b2 - 0x80)
               in if is_cont b1 \<and> is_cont b2 \<and> 0x800 \<le> c \<and> is_scalar c then Some (c, 3) else None)
            | _ \<Rightarrow> None)
         else if n0 < 0xF8 then
           (case r of b1 # b2 # b3 # _ \<Rightarrow>
              (let c = (n0 - 0xF0) * 262144 + (unat b1 - 0x80) * 4096
                     + (unat b2 - 0x80) * 64 + (unat b3 - 0x80)
               in if is_cont b1 \<and> is_cont b2 \<and> is_cont b3 \<and> 0x10000 \<le> c \<and> is_scalar c
                  then Some (c, 4) else None)
            | _ \<Rightarrow> None)
         else None))"

lemma utf8_next_pos: "utf8_next bs = Some (c, n) \<Longrightarrow> 0 < n \<and> n \<le> length bs"
  by (auto simp: utf8_next_def Let_def split: list.splits if_splits)

function utf8_decode :: "bytes \<Rightarrow> ustr option" where
  "utf8_decode bs =
     (if bs = [] then Some []
      else case utf8_next bs of None \<Rightarrow> None
        | Some (c, n) \<Rightarrow> map_option ((#) c) (utf8_decode (drop n bs)))"
  by pat_completeness auto
termination by (relation "measure length") (auto dest: utf8_next_pos)

declare utf8_decode.simps [simp del]

definition valid_utf8 :: "bytes \<Rightarrow> bool" where
  "valid_utf8 bs \<longleftrightarrow> utf8_decode bs \<noteq> None"

lemma length_utf8_char: "length (utf8_char c) = len_utf8 c"
  by (simp add: utf8_char_def len_utf8_def)

lemma unat_byte: "n < 256 \<Longrightarrow> unat (of_nat n :: u8) = n"
  by (simp add: unat_of_nat)

lemma utf8_next_char:
  assumes "is_scalar c"
  shows "utf8_next (utf8_char c @ rest) = Some (c, len_utf8 c)"
proof -
  have le: "c \<le> 0x10FFFF" using assms by (auto simp: is_scalar_def)
  consider "c < 0x80" | "0x80 \<le> c" "c < 0x800" | "0x800 \<le> c" "c < 0x10000" | "0x10000 \<le> c"
    by linarith
  then show ?thesis
  proof cases
    case 1
    then show ?thesis by (simp add: utf8_char_def len_utf8_def utf8_next_def unat_byte)
  next
    case 2
    then have d: "c div 64 < 32" by simp
    have m: "c mod 64 < 64" by simp
    have s: "c = c div 64 * 64 + c mod 64" by simp
    define b0 b1 where "b0 = (of_nat (0xC0 + c div 64) :: u8)" and "b1 = (of_nat (0x80 + c mod 64) :: u8)"
    have u: "unat b0 = 0xC0 + c div 64" "unat b1 = 0x80 + c mod 64"
      unfolding b0_def b1_def using d m by (intro unat_byte; simp)+
    have "utf8_char c = [b0, b1]" "len_utf8 c = 2"
      using 2 by (simp_all add: utf8_char_def b0_def b1_def len_utf8_def)
    then show ?thesis
      using 2 d m by (simp add: utf8_next_def u is_cont_def)
  next
    case 3
    then have d: "c div 4096 < 16" by simp
    have m: "c mod 64 < 64" "c div 64 mod 64 < 64" by simp_all
    have "c div 64 = c div 4096 * 64 + c div 64 mod 64"
      using div_mult_mod_eq [of "c div 64" 64] by (simp add: div_mult2_eq [symmetric])
    then have s: "c div 4096 * 4096 + c div 64 mod 64 * 64 + c mod 64 = c"
      using div_mult_mod_eq [of c 64] by linarith
    define b0 b1 b2 where "b0 = (of_nat (0xE0 + c div 4096) :: u8)"
      and "b1 = (of_nat (0x80 + c div 64 mod 64) :: u8)" and "b2 = (of_nat (0x80 + c mod 64) :: u8)"
    have u: "unat b0 = 0xE0 + c div 4096" "unat b1 = 0x80 + c div 64 mod 64" "unat b2 = 0x80 + c mod 64"
      unfolding b0_def b1_def b2_def using d m by (intro unat_byte; simp)+
    have "utf8_char c = [b0, b1, b2]" "len_utf8 c = 3"
      using 3 by (simp_all add: utf8_char_def b0_def b1_def b2_def len_utf8_def)
    then show ?thesis
      using 3 d m s assms by (simp add: utf8_next_def u is_cont_def)
  next
    case 4
    then have d: "c div 262144 < 8" using le by simp
    have m: "c mod 64 < 64" "c div 64 mod 64 < 64" "c div 4096 mod 64 < 64" by simp_all
    have "c div 64 = c div 4096 * 64 + c div 64 mod 64"
      using div_mult_mod_eq [of "c div 64" 64] by (simp add: div_mult2_eq [symmetric])
    moreover have "c div 4096 = c div 262144 * 64 + c div 4096 mod 64"
      using div_mult_mod_eq [of "c div 4096" 64] by (simp add: div_mult2_eq [symmetric])
    ultimately have s: "c div 262144 * 262144 + c div 4096 mod 64 * 4096 + c div 64 mod 64 * 64 + c mod 64 = c"
      using div_mult_mod_eq [of c 64] by linarith
    define b0 b1 b2 b3 where "b0 = (of_nat (0xF0 + c div 262144) :: u8)"
      and "b1 = (of_nat (0x80 + c div 4096 mod 64) :: u8)"
      and "b2 = (of_nat (0x80 + c div 64 mod 64) :: u8)" and "b3 = (of_nat (0x80 + c mod 64) :: u8)"
    have u: "unat b0 = 0xF0 + c div 262144" "unat b1 = 0x80 + c div 4096 mod 64"
      "unat b2 = 0x80 + c div 64 mod 64" "unat b3 = 0x80 + c mod 64"
      unfolding b0_def b1_def b2_def b3_def using d m by (intro unat_byte; simp)+
    have "utf8_char c = [b0, b1, b2, b3]" "len_utf8 c = 4"
      using 4 by (simp_all add: utf8_char_def b0_def b1_def b2_def b3_def len_utf8_def)
    then show ?thesis
      using 4 d m s assms by (simp add: utf8_next_def u is_cont_def)
  qed
qed

lemma utf8_decode_bytes: "list_all is_scalar s \<Longrightarrow> utf8_decode (utf8_bytes s) = Some s"
proof (induction s)
  case (Cons c s)
  have n: "utf8_next (utf8_bytes (c # s)) = Some (c, len_utf8 c)"
    using Cons.prems utf8_next_char [of c "utf8_bytes s"] by (simp add: utf8_bytes_def)
  have "utf8_bytes (c # s) \<noteq> []" using n by (auto simp: utf8_next_def)
  moreover have "drop (len_utf8 c) (utf8_bytes (c # s)) = utf8_bytes s"
    by (simp add: utf8_bytes_def length_utf8_char [symmetric])
  ultimately show ?case
    using n Cons by (subst utf8_decode.simps) simp
qed (simp add: utf8_bytes_def utf8_decode.simps)

lemma valid_utf8_bytes: "list_all is_scalar s \<Longrightarrow> valid_utf8 (utf8_bytes s)"
  by (simp add: valid_utf8_def utf8_decode_bytes)

lemma valid_utf8_ascii:
  assumes "\<forall>b \<in> set bs. unat b < 128"
  shows "valid_utf8 bs"
  using assms
proof (induction bs)
  case (Cons b bs)
  then show ?case
    by (simp add: valid_utf8_def utf8_decode.simps [of "b # bs"] utf8_next_def Let_def)
qed (simp add: valid_utf8_def utf8_decode.simps)

end
