(* ===== verification/Records.thy ===== *)
theory Records
  imports Format Utf8
begin

unbundle bit_operations_syntax

text \<open>
  Typed values and the record encoding (\<^verbatim>\<open>src/record.rs\<close>).  An \<^verbatim>\<open>i64\<close> is a 64-bit word read with
  \<^const>\<open>sint\<close>; an \<^verbatim>\<open>f64\<close> is its bit pattern (the code only moves the bits); text is its UTF-8 bytes.
  The borrowed view \<^verbatim>\<open>ValueRef\<close> of the code is the value itself.  Offsets are \<^verbatim>\<open>usize\<close>: where the code
  slices with \<^verbatim>\<open>buf.get(pos..pos + len)\<close> a sum that wraps makes the range empty or reversed and the
  answer \<open>None\<close>, which is what the unbounded sum gives; where it compares and adds
  (\<^verbatim>\<open>skip_payload\<close>), the release build's wrap-around is written out with \<open>usize_add\<close>.
\<close>

datatype val =
    Null
  | Bool bool
  | Integer u64
  | Real u64
  | Text bytes
  | Blob bytes

definition type_name :: "val \<Rightarrow> string" where
  "type_name v = (case v of
       Null \<Rightarrow> ''NULL'' | Bool _ \<Rightarrow> ''BOOLEAN'' | Integer _ \<Rightarrow> ''INTEGER''
     | Real _ \<Rightarrow> ''REAL'' | Text _ \<Rightarrow> ''TEXT'' | Blob _ \<Rightarrow> ''BLOB'')"

definition TAG_NULL :: u8 where "TAG_NULL = 0"
definition TAG_FALSE :: u8 where "TAG_FALSE = 1"
definition TAG_TRUE :: u8 where "TAG_TRUE = 2"
definition TAG_INT :: u8 where "TAG_INT = 3"
definition TAG_REAL :: u8 where "TAG_REAL = 4"
definition TAG_TEXT :: u8 where "TAG_TEXT = 5"
definition TAG_BLOB :: u8 where "TAG_BLOB = 6"

lemmas tag_defs = TAG_NULL_def TAG_FALSE_def TAG_TRUE_def TAG_INT_def TAG_REAL_def TAG_TEXT_def TAG_BLOB_def

definition zigzag :: "u64 \<Rightarrow> u64" where
  "zigzag v = push_bit 1 v XOR signed_drop_bit 63 v"

definition unzigzag :: "u64 \<Rightarrow> u64" where
  "unzigzag u = drop_bit 1 u XOR - (u AND 1)"

definition usize_add :: "nat \<Rightarrow> nat \<Rightarrow> nat" where
  "usize_add a b = (a + b) mod 2 ^ 64"

section \<open>Encoding\<close>

definition value_tag :: "val \<Rightarrow> u8" where
  "value_tag v = (case v of
       Null \<Rightarrow> TAG_NULL | Bool b \<Rightarrow> (if b then TAG_TRUE else TAG_FALSE) | Integer _ \<Rightarrow> TAG_INT
     | Real _ \<Rightarrow> TAG_REAL | Text _ \<Rightarrow> TAG_TEXT | Blob _ \<Rightarrow> TAG_BLOB)"

definition value_payload :: "val \<Rightarrow> bytes" where
  "value_payload v = (case v of
       Null \<Rightarrow> [] | Bool _ \<Rightarrow> []
     | Integer n \<Rightarrow> put_varint (zigzag n)
     | Real f \<Rightarrow> u64_le f
     | Text s \<Rightarrow> put_varint (of_nat (length s)) @ s
     | Blob b \<Rightarrow> put_varint (of_nat (length b)) @ b)"

text \<open>The two passes over the resolver, each stopping at its first error.\<close>

fun encode_tags :: "(nat \<Rightarrow> val res) \<Rightarrow> nat list \<Rightarrow> bytes res" where
  "encode_tags col [] = Inr []"
| "encode_tags col (i # is) =
     rbind (col i) (\<lambda>v. rbind (encode_tags col is) (\<lambda>r. Inr (value_tag v # r)))"

fun encode_payloads :: "(nat \<Rightarrow> val res) \<Rightarrow> nat list \<Rightarrow> bytes res" where
  "encode_payloads col [] = Inr []"
| "encode_payloads col (i # is) =
     rbind (col i) (\<lambda>v. rbind (encode_payloads col is) (\<lambda>r. Inr (value_payload v @ r)))"

definition encode_resolved_into :: "nat \<Rightarrow> (nat \<Rightarrow> val res) \<Rightarrow> bytes res" where
  "encode_resolved_into ncols col =
     rbind (encode_tags col [0..<ncols]) (\<lambda>tags.
     rbind (encode_payloads col [0..<ncols]) (\<lambda>payloads.
       Inr (put_varint (of_nat ncols) @ tags @ payloads)))"

definition encode_values :: "val list \<Rightarrow> bytes" where
  "encode_values vs = (case encode_resolved_into (length vs) (\<lambda>i. Inr (vs ! i)) of
       Inr out \<Rightarrow> out | Inl _ \<Rightarrow> [])"

section \<open>Decoding\<close>

definition decode_payload :: "bytes \<Rightarrow> nat \<Rightarrow> u8 \<Rightarrow> (val \<times> nat) res" where
  "decode_payload buf pos tag =
     (if tag = TAG_NULL then Inr (Null, pos)
      else if tag = TAG_FALSE then Inr (Bool False, pos)
      else if tag = TAG_TRUE then Inr (Bool True, pos)
      else if tag = TAG_INT then
        rbind (ok_or (take_varint buf pos) (CorruptRecord ''entero truncado'')) (\<lambda>(u, pos).
          Inr (Integer (unzigzag u), pos))
      else if tag = TAG_REAL then
        rbind (ok_or (get_range buf pos (pos + 8)) (CorruptRecord ''real truncado'')) (\<lambda>bytes.
          Inr (Real (of_nat (le_val bytes)), pos + 8))
      else if tag = TAG_TEXT then
        rbind (ok_or (take_varint buf pos) (CorruptRecord ''longitud de texto truncada'')) (\<lambda>(len, pos).
        rbind (ok_or (get_range buf pos (pos + unat len)) (CorruptRecord ''texto truncado'')) (\<lambda>bytes.
          if valid_utf8 bytes then Inr (Text bytes, pos + unat len)
          else Inl (CorruptRecord ''texto no UTF-8'')))
      else if tag = TAG_BLOB then
        rbind (ok_or (take_varint buf pos) (CorruptRecord ''longitud de blob truncada'')) (\<lambda>(len, pos).
        rbind (ok_or (get_range buf pos (pos + unat len)) (CorruptRecord ''blob truncado'')) (\<lambda>bytes.
          Inr (Blob bytes, pos + unat len)))
      else Inl (CorruptRecord ''tag de valor desconocido''))"

fun decode_tags_loop :: "bytes \<Rightarrow> bytes \<Rightarrow> nat \<Rightarrow> (val list \<times> nat) res" where
  "decode_tags_loop buf [] pos = Inr ([], pos)"
| "decode_tags_loop buf (tag # tags) pos =
     rbind (decode_payload buf pos tag) (\<lambda>(v, pos).
     rbind (decode_tags_loop buf tags pos) (\<lambda>(vs, pos). Inr (v # vs, pos)))"

definition take_tags :: "bytes \<Rightarrow> (bytes \<times> nat) res" where
  "take_tags buf =
     rbind (ok_or (take_varint buf 0) (CorruptRecord ''cabecera de registro truncada'')) (\<lambda>(ncols, pos).
     rbind (ok_or (get_range buf pos (pos + unat ncols)) (CorruptRecord ''tags truncados'')) (\<lambda>tags.
       Inr (tags, pos + unat ncols)))"

definition decode_values :: "bytes \<Rightarrow> val list res" where
  "decode_values buf =
     rbind (take_tags buf) (\<lambda>(tags, pos).
     rbind (decode_tags_loop buf tags pos) (\<lambda>(vs, pos).
       if pos \<noteq> length buf then Inl (CorruptRecord ''bytes sobrantes tras el registro'') else Inr vs))"

definition skip_payload :: "bytes \<Rightarrow> nat \<Rightarrow> u8 \<Rightarrow> nat res" where
  "skip_payload buf pos tag =
     (if tag = TAG_NULL \<or> tag = TAG_FALSE \<or> tag = TAG_TRUE then Inr pos
      else if tag = TAG_INT then
        rbind (ok_or (take_varint buf pos) (CorruptRecord ''entero truncado'')) (\<lambda>(_, pos). Inr pos)
      else if tag = TAG_REAL then
        (if length buf < usize_add pos 8 then Inl (CorruptRecord ''real truncado'')
         else Inr (usize_add pos 8))
      else if tag = TAG_TEXT \<or> tag = TAG_BLOB then
        rbind (ok_or (take_varint buf pos) (CorruptRecord ''longitud truncada'')) (\<lambda>(len, pos).
          if length buf < usize_add pos (unat len) then Inl (CorruptRecord ''payload truncado'')
          else Inr (usize_add pos (unat len)))
      else Inl (CorruptRecord ''tag de valor desconocido''))"

fun skip_loop :: "bytes \<Rightarrow> bytes \<Rightarrow> nat \<Rightarrow> nat res" where
  "skip_loop buf [] pos = Inr pos"
| "skip_loop buf (tag # tags) pos = rbind (skip_payload buf pos tag) (skip_loop buf tags)"

definition col_blob_bytes :: "bytes \<Rightarrow> nat \<Rightarrow> bytes option res" where
  "col_blob_bytes buf col =
     rbind (ok_or (take_varint buf 0) (CorruptRecord ''cabecera de registro truncada'')) (\<lambda>(ncols, pos).
     if col \<ge> unat ncols then Inr None
     else
       rbind (ok_or (get_range buf pos (pos + unat ncols)) (CorruptRecord ''tags truncados'')) (\<lambda>tags.
       rbind (skip_loop buf (take col tags) (pos + unat ncols)) (\<lambda>pos.
       if tags ! col \<noteq> TAG_BLOB then Inr None
       else
         rbind (ok_or (take_varint buf pos) (CorruptRecord ''longitud de blob truncada'')) (\<lambda>(len, pos).
         rbind (ok_or (get_range buf pos (pos + unat len)) (CorruptRecord ''blob truncado'')) (\<lambda>bs.
           Inr (Some bs))))))"

text \<open>
  The single pass over the tags: \<open>i\<close> is the index of the next tag, \<open>wanted\<close> the columns still to
  produce (the code's \<^verbatim>\<open>wanted[w..]\<close>).
\<close>

fun decode_cols_loop :: "bytes \<Rightarrow> bytes \<Rightarrow> nat \<Rightarrow> nat list \<Rightarrow> nat \<Rightarrow> val option list res" where
  "decode_cols_loop buf [] i wanted pos = Inr (map (\<lambda>_. None) wanted)"
| "decode_cols_loop buf (tag # tags) i [] pos = Inr []"
| "decode_cols_loop buf (tag # tags) i (w # ws) pos =
     (if w = i then
        rbind (decode_payload buf pos tag) (\<lambda>(v, pos).
        rbind (decode_cols_loop buf tags (Suc i) ws pos) (\<lambda>r. Inr (Some v # r)))
      else
        rbind (skip_payload buf pos tag) (decode_cols_loop buf tags (Suc i) (w # ws)))"

definition decode_cols_sorted :: "bytes \<Rightarrow> nat list \<Rightarrow> val option list res" where
  "decode_cols_sorted buf wanted =
     rbind (take_tags buf) (\<lambda>(tags, pos). decode_cols_loop buf tags 0 wanted pos)"

section \<open>Memcomparable row ids\<close>

definition SIGN :: u64 where "SIGN = push_bit 63 1"

definition rowid_be :: "u64 \<Rightarrow> bytes" where
  "rowid_be rowid = u64_be (rowid XOR SIGN)"

definition rowid_from_be :: "bytes \<Rightarrow> u64 option" where
  "rowid_from_be bs = (if length bs = 8 then Some (of_nat (be_val bs) XOR SIGN) else None)"

section \<open>Round trips\<close>

definition value_ok :: "val \<Rightarrow> bool" where
  "value_ok v = (case v of
       Text s \<Rightarrow> valid_utf8 s \<and> length s < 2 ^ 64
     | Blob b \<Rightarrow> length b < 2 ^ 64
     | _ \<Rightarrow> True)"

lemma unzigzag_zigzag [codec_simps]: "unzigzag (zigzag v) = v"
proof (rule bit_word_eqI)
  fix n assume n: "n < LENGTH(64)"
  have z: "bit (zigzag v) m \<longleftrightarrow> m < 64 \<and> ((0 < m \<and> bit v (m - 1)) \<noteq> bit v 63)" for m
    unfolding zigzag_def bit_xor_iff bit_push_bit_iff bit_signed_drop_bit_iff
    by (cases "m = 0") (auto simp: Suc_le_eq dest: bit_imp_le_length)
  have one: "zigzag v AND 1 = (if bit v 63 then 1 else 0)"
  proof (rule bit_word_eqI)
    fix m assume "m < LENGTH(64)"
    then show "bit (zigzag v AND 1) m = bit (if bit v 63 then 1 else 0 :: u64) m"
      by (cases "m = 0") (simp_all add: bit_and_iff z bit_1_iff)
  qed
  show "bit (unzigzag (zigzag v)) n = bit v n"
    using n unfolding unzigzag_def one bit_xor_iff bit_drop_bit_eq o_apply z
    by (cases "bit v 63"; cases "n = 63") (auto simp: bit_minus_1_iff)
qed

lemma decode_payload_at:
  assumes "value_ok v" and "at_pos buf pos (value_payload v)"
  shows "decode_payload buf pos (value_tag v) = Inr (v, pos + length (value_payload v))"
  using assms
  by (cases v)
    (auto simp: decode_payload_def value_tag_def value_payload_def value_ok_def tag_defs at_pos_append
      take_varint_put at_pos_range unzigzag_zigzag unat_of_nat_u64 le_val_u64_le
      dest: at_pos_range [where s = "u64_le _"])

lemma skip_payload_at:
  assumes "value_ok v" and "at_pos buf pos (value_payload v)" and "length buf < 2 ^ 64"
  shows "skip_payload buf pos (value_tag v) = Inr (pos + length (value_payload v))"
  using assms at_pos_le [OF assms(2)]
  by (cases v)
    (auto simp: skip_payload_def value_tag_def value_payload_def value_ok_def tag_defs at_pos_append
      take_varint_put unat_of_nat_u64 usize_add_def)


text \<open>What the encoder writes, in closed form: the two passes never fail on given values.\<close>

lemma encode_tags_Inr: "(\<And>i. i \<in> set is \<Longrightarrow> col i = Inr (f i)) \<Longrightarrow>
   encode_tags col is = Inr (map (value_tag \<circ> f) is)"
  by (induction "is") auto

lemma encode_payloads_Inr: "(\<And>i. i \<in> set is \<Longrightarrow> col i = Inr (f i)) \<Longrightarrow>
   encode_payloads col is = Inr (concat (map (value_payload \<circ> f) is))"
  by (induction "is") auto

lemma encode_values_eq:
  "encode_values vs = put_varint (of_nat (length vs)) @ map value_tag vs @ concat (map value_payload vs)"
proof -
  have "encode_tags (\<lambda>i. Inr (vs ! i)) [0..<length vs] = Inr (map value_tag vs)"
    by (subst encode_tags_Inr [where f = "(!) vs"]) (simp_all only: map_nth_upt)
  moreover have "encode_payloads (\<lambda>i. Inr (vs ! i)) [0..<length vs] = Inr (concat (map value_payload vs))"
    by (subst encode_payloads_Inr [where f = "(!) vs"]) (simp_all only: map_nth_upt)
  ultimately show ?thesis
    by (simp add: encode_values_def encode_resolved_into_def)
qed

lemma encode_tags_Inl:
  "i < length is \<Longrightarrow> col (is ! i) = Inl e \<Longrightarrow> (\<And>j. j < i \<Longrightarrow> \<exists>v. col (is ! j) = Inr v) \<Longrightarrow>
   encode_tags col is = Inl e"
proof (induction "is" arbitrary: i)
  case (Cons k ks)
  show ?case
  proof (cases i)
    case (Suc m)
    have "encode_tags col ks = Inl e"
      using Cons.prems(1,2) Cons.prems(3) [of "Suc _"] by (intro Cons.IH [of m]) (auto simp: Suc)
    moreover obtain v where "col k = Inr v" using Cons.prems(3) [of 0] Suc by auto
    ultimately show ?thesis by simp
  qed (use Cons.prems in simp)
qed simp

lemma encode_resolved_fails:
  assumes "i < ncols" "col i = Inl e" "\<And>j. j < i \<Longrightarrow> \<exists>v. col j = Inr v"
  shows "encode_resolved_into ncols col = Inl e"
  using encode_tags_Inl [of i "[0..<ncols]" col e] assms by (simp add: encode_resolved_into_def)

lemma encode_resolved_ok:
  assumes "\<And>i. i < ncols \<Longrightarrow> col i = Inr (f i)"
  shows "encode_resolved_into ncols col = Inr (encode_values (map f [0..<ncols]))"
  using encode_tags_Inr [of "[0..<ncols]" col f] encode_payloads_Inr [of "[0..<ncols]" col f] assms
  by (simp add: encode_resolved_into_def encode_values_eq)

lemma decode_tags_loop_at:
  "list_all value_ok vs \<Longrightarrow> at_pos buf p (concat (map value_payload vs)) \<Longrightarrow>
   decode_tags_loop buf (map value_tag vs) p = Inr (vs, p + length (concat (map value_payload vs)))"
proof (induction vs arbitrary: p)
  case (Cons v vs)
  then show ?case by (simp add: at_pos_append decode_payload_at add.assoc)
qed simp

lemma take_tags_encode:
  assumes "length vs < 2 ^ 64"
  shows "take_tags (encode_values vs)
    = Inr (map value_tag vs, length (put_varint (of_nat (length vs))) + length vs)"
proof -
  let ?h = "put_varint (of_nat (length vs))"
  have a: "at_pos (encode_values vs) 0 ?h" "at_pos (encode_values vs) (length ?h) (map value_tag vs)"
    unfolding encode_values_eq by (simp_all add: at_pos_prefix)
  from at_pos_range [OF a(2)] show ?thesis
    by (simp add: take_tags_def take_varint_put [OF a(1)] unat_of_nat_u64 [OF assms])
qed

lemma decode_values_encode:
  assumes "list_all value_ok vs" and "length vs < 2 ^ 64"
  shows "decode_values (encode_values vs) = Inr vs"
proof -
  let ?h = "put_varint (of_nat (length vs))"
  have "at_pos (encode_values vs) (length ?h + length vs) (concat (map value_payload vs))"
    unfolding encode_values_eq
    using at_posI [of "?h @ map value_tag vs" "concat (map value_payload vs)" "[]"] by simp
  from decode_tags_loop_at [OF assms(1) this] show ?thesis
    by (simp add: decode_values_def take_tags_encode [OF assms(2)]) (simp add: encode_values_eq)
qed

section \<open>The projections agree with the full decoder\<close>

lemma decode_payload_skip:
  assumes "decode_payload buf pos tag = Inr (v, p')" and "length buf < 2 ^ 64"
  shows "skip_payload buf pos tag = Inr p'"
  using assms
  by (cases "take_varint buf pos")
    (auto simp: decode_payload_def skip_payload_def rbind_eq_Inr get_range_Some_iff usize_add_def tag_defs
      split: if_splits)

lemma decode_payload_tag:
  "decode_payload buf pos tag = Inr (v, p') \<Longrightarrow> value_tag v = tag"
  by (auto simp: decode_payload_def value_tag_def rbind_eq_Inr tag_defs split: if_splits)

lemma decode_payload_ok:
  "decode_payload buf pos tag = Inr (v, p') \<Longrightarrow> length buf < 2 ^ 64 \<Longrightarrow> value_ok v"
  by (auto simp: decode_payload_def value_ok_def rbind_eq_Inr get_range_Some_iff split: if_splits)

lemma decode_tags_loop_length:
  "decode_tags_loop buf tags p = Inr (vs, q) \<Longrightarrow> length vs = length tags"
  by (induction tags arbitrary: p vs) (fastforce simp: rbind_eq_Inr)+

lemma decode_tags_loop_ok:
  "decode_tags_loop buf tags p = Inr (vs, q) \<Longrightarrow> length buf < 2 ^ 64 \<Longrightarrow> list_all value_ok vs"
  by (induction tags arbitrary: p vs) (fastforce simp: rbind_eq_Inr dest: decode_payload_ok)+

lemma decode_values_ok:
  "decode_values buf = Inr vs \<Longrightarrow> length buf < 2 ^ 64 \<Longrightarrow> list_all value_ok vs"
  by (auto simp: decode_values_def rbind_eq_Inr dest: decode_tags_loop_ok split: if_splits)

definition col_of :: "val list \<Rightarrow> nat \<Rightarrow> val option" where
  "col_of vs c = (if c < length vs then Some (vs ! c) else None)"

lemma decode_cols_loop_full:
  assumes "length buf < 2 ^ 64"
  shows "decode_tags_loop buf tags p = Inr (vs, q) \<Longrightarrow> sorted_wrt (<) wanted \<Longrightarrow>
    (\<forall>w\<in>set wanted. i \<le> w) \<Longrightarrow>
    decode_cols_loop buf tags i wanted p = Inr (map (\<lambda>w. col_of vs (w - i)) wanted)"
proof (induction tags arbitrary: p vs i wanted)
  case (Cons tag tags)
  then obtain v p' vs' where d: "decode_payload buf p tag = Inr (v, p')"
    and l: "decode_tags_loop buf tags p' = Inr (vs', q)" and vs: "vs = v # vs'"
    by (auto simp: rbind_eq_Inr)
  have shift: "map (\<lambda>x. col_of vs' (x - Suc i)) ws = map (\<lambda>x. col_of vs (x - i)) ws"
    if "\<forall>x\<in>set ws. Suc i \<le> x" for ws
    using that by (auto simp: vs col_of_def nth_Cons' Suc_diff_Suc)
  show ?case
  proof (cases wanted)
    case (Cons w ws)
    then have ws: "sorted_wrt (<) ws" "\<forall>x\<in>set ws. w < x" "i \<le> w" using Cons.prems by auto
    show ?thesis
    proof (cases "w = i")
      case True
      then have "\<forall>x\<in>set ws. Suc i \<le> x" using ws(2) by auto
      then show ?thesis using Cons.IH [OF l ws(1)] shift [of ws] True
        by (simp add: \<open>wanted = w # ws\<close> d vs col_of_def)
    next
      case False
      then have le: "\<forall>x\<in>set wanted. Suc i \<le> x" using ws Cons by auto
      have "decode_cols_loop buf tags (Suc i) wanted p' = Inr (map (\<lambda>x. col_of vs (x - i)) wanted)"
        using Cons.IH [OF l Cons.prems(2) le] shift [OF le] by simp
      then show ?thesis using False decode_payload_skip [OF d assms] by (simp add: Cons)
    qed
  qed simp
qed (auto simp: col_of_def)

lemma decode_cols_sorted_full:
  assumes "decode_values buf = Inr vs" "length buf < 2 ^ 64" "sorted_wrt (<) wanted"
  shows "decode_cols_sorted buf wanted = Inr (map (col_of vs) wanted)"
  using assms decode_cols_loop_full [OF assms(2), of _ _ vs _ wanted 0]
  by (auto simp: decode_values_def decode_cols_sorted_def rbind_eq_Inr split: if_splits)

lemma skip_loop_full:
  assumes "length buf < 2 ^ 64"
  shows "decode_tags_loop buf tags p = Inr (vs, q) \<Longrightarrow> c < length tags \<Longrightarrow>
    \<exists>p' p''. skip_loop buf (take c tags) p = Inr p' \<and> decode_payload buf p' (tags ! c) = Inr (vs ! c, p'')"
proof (induction tags arbitrary: p vs c)
  case (Cons tag tags)
  then show ?case using decode_payload_skip [OF _ assms]
    by (cases c) (fastforce simp: rbind_eq_Inr)+
qed simp

definition blob_of :: "val option \<Rightarrow> bytes option" where
  "blob_of v = (case v of Some (Blob b) \<Rightarrow> Some b | _ \<Rightarrow> None)"

lemma col_blob_bytes_full:
  assumes "decode_values buf = Inr vs" "length buf < 2 ^ 64"
  shows "col_blob_bytes buf c = Inr (blob_of (col_of vs c))"
proof -
  from assms(1) obtain n p tags q where n: "take_varint buf 0 = Some (n, p)"
    and t: "get_range buf p (p + unat n) = Some tags"
    and l: "decode_tags_loop buf tags (p + unat n) = Inr (vs, q)"
    by (auto simp: decode_values_def take_tags_def rbind_eq_Inr split: if_splits)
  have len: "length tags = unat n" "length vs = unat n"
    using get_range_len [OF t] decode_tags_loop_length [OF l] by simp_all
  show ?thesis
  proof (cases "c < unat n")
    case True
    then obtain p' p'' where s: "skip_loop buf (take c tags) (p + unat n) = Inr p'"
      and d: "decode_payload buf p' (tags ! c) = Inr (vs ! c, p'')"
      using skip_loop_full [OF assms(2) l, of c] len by auto
    show ?thesis
    proof (cases "tags ! c = TAG_BLOB")
      case True
      then obtain b where "Blob b = vs ! c" and "\<exists>m q'. take_varint buf p' = Some (m, q')
          \<and> get_range buf q' (q' + unat m) = Some b"
        using d by (auto simp: decode_payload_def tag_defs rbind_eq_Inr)
      then show ?thesis using True \<open>c < unat n\<close>
        by (auto simp: col_blob_bytes_def n t s col_of_def blob_of_def len split: val.split)
    next
      case False
      then have "blob_of (Some (vs ! c)) = None"
        using decode_payload_tag [OF d] by (auto simp: blob_of_def value_tag_def split: val.splits)
      then show ?thesis using False \<open>c < unat n\<close> by (simp add: col_blob_bytes_def n t s col_of_def len)
    qed
  qed (simp add: col_blob_bytes_def n col_of_def blob_of_def len)
qed

text \<open>
  The release build's wrap-around in \<^verbatim>\<open>skip_payload\<close>: a TEXT length of \<open>2^64 - 13\<close> moves the read
  position back to the front of the record.  The full decoder rejects that record; the projection
  accepts it.
\<close>

definition wrap_record :: bytes where
  "wrap_record = [2, TAG_TEXT, TAG_TRUE] @ put_varint (- 13)"

lemma put_varint_m13: "put_varint (- 13) = [0xf3, 0xff, 0xff, 0xff, 0xff, 0xff, 0xff, 0xff, 0xff, 0x01]"
  by code_simp

lemma take_varint_wrap_record: "take_varint wrap_record 3 = Some (- 13, 13)" "take_varint wrap_record 0 = Some (2, 1)"
  unfolding wrap_record_def put_varint_m13 by (code_simp, code_simp)

lemma wrap_record_tags: "take_tags wrap_record = Inr ([TAG_TEXT, TAG_TRUE], 3)" "length wrap_record = 13"
  by (simp_all add: take_tags_def take_varint_wrap_record get_range_def)
    (simp_all add: wrap_record_def put_varint_m13)

lemma skip_payload_wraps:
  "decode_values wrap_record = Inl (CorruptRecord ''texto truncado'')"
  "skip_payload wrap_record 3 TAG_TEXT = Inr 0"
  "decode_cols_sorted wrap_record [1] = Inr [Some (Bool True)]"
proof -
  show s: "skip_payload wrap_record 3 TAG_TEXT = Inr 0"
    by (simp add: skip_payload_def take_varint_wrap_record tag_defs usize_add_def)
  show "decode_values wrap_record = Inl (CorruptRecord ''texto truncado'')"
    by (simp add: decode_values_def wrap_record_tags decode_payload_def take_varint_wrap_record
        tag_defs get_range_def)
  show "decode_cols_sorted wrap_record [1] = Inr [Some (Bool True)]"
    by (simp add: decode_cols_sorted_def wrap_record_tags s)
      (simp add: decode_payload_def tag_defs)
qed

section \<open>Row ids\<close>

lemma rowid_from_be_rowid_be [codec_simps]: "rowid_from_be (rowid_be r) = Some r"
  by (simp add: rowid_from_be_def rowid_be_def be_val_u64_be xor.assoc)

interpretation payload: codec value_payload "\<lambda>buf p. decode_payload buf p tag"
    "\<lambda>v. value_ok v \<and> value_tag v = tag" for tag
  by unfold_locales (auto simp: decode_payload_at)

lemma neq_sint: "sint (a :: u64) = sint b \<Longrightarrow> a = b"
  by (simp add: signed_word_eqI)

lemma rowid_be_less: "sint a < sint b \<Longrightarrow> rowid_be a @ x < rowid_be b @ y"
  unfolding rowid_be_def
  unfolding SIGN_def by (rule u64_be_less) (simp only: uint_xor_top word_less_def add_less_cancel_right)

interpretation rowid: memcmp rowid_be "\<lambda>_. True" "\<lambda>a b. sint a < sint b"
  by unfold_locales (auto simp: rowid_be_less intro: neq_sint)

end
