(* ===== verification/Keyenc.thy ===== *)
theory Keyenc
  imports Records
begin

text \<open>
  Memcomparable encodings (\<^verbatim>\<open>src/keyenc.rs\<close>) and the row and index-entry keys built from them
  (\<^verbatim>\<open>src/catalog.rs\<close>).  Each encoder is an interpretation of the \<open>memcmp\<close> interface, so
  that composite keys are ordered by their components.
\<close>

section \<open>Encoders\<close>

fun escape_bytes :: "bytes \<Rightarrow> bytes" where
  "escape_bytes [] = []"
| "escape_bytes (b # bs) = (if b = 0 then [b, 0xFF] else [b]) @ escape_bytes bs"

definition encode_bytes :: "bytes \<Rightarrow> bytes" where
  "encode_bytes b = escape_bytes b @ [0x00, 0x00]"

definition encode_text_prefix :: "bytes \<Rightarrow> bytes" where
  "encode_text_prefix s = 0x01 # escape_bytes s"

definition real_be :: "u64 \<Rightarrow> bytes" where
  "real_be bits = u64_be (if bits AND 0x8000000000000000 \<noteq> 0 then NOT bits
                          else bits OR 0x8000000000000000)"

definition encode_index_value :: "val \<Rightarrow> bytes" where
  "encode_index_value v = (case v of
       Null \<Rightarrow> [0x00]
     | Integer n \<Rightarrow> 0x01 # rowid_be n
     | Real f \<Rightarrow> 0x01 # real_be f
     | Bool b \<Rightarrow> [0x01, if b then 1 else 0]
     | Text s \<Rightarrow> 0x01 # encode_bytes s
     | Blob b \<Rightarrow> 0x01 # encode_bytes b)"

definition encode_oint :: "u64 \<Rightarrow> bytes" where
  "encode_oint v =
     (if 0 \<le> sint v then
        let nbytes = 8 - leading_zeros v div 8 in
        (0x80 OR of_nat nbytes) # drop (8 - nbytes) (u64_be v)
      else
        let c = NOT v; nbytes = 8 - leading_zeros c div 8 in
        (0x7F - of_nat nbytes) # map (\<lambda>b. NOT b) (drop (8 - nbytes) (u64_be c)))"

definition decode_oint :: "bytes \<Rightarrow> nat \<Rightarrow> (u64 \<times> nat) option" where
  "decode_oint buf pos =
     (case get_at buf pos of None \<Rightarrow> None | Some header \<Rightarrow>
        if 0x80 \<le> header then
          let nbytes = unat (header - 0x80) in
          if nbytes > 8 then None
          else (case get_range buf (pos + 1) (pos + 1 + nbytes) of None \<Rightarrow> None | Some bs \<Rightarrow>
            Some (of_nat (be_val (replicate (8 - nbytes) 0 @ bs)), pos + 1 + nbytes))
        else
          let nbytes = unat (0x7F - header) in
          if nbytes > 8 then None
          else (case get_range buf (pos + 1) (pos + 1 + nbytes) of None \<Rightarrow> None | Some bs \<Rightarrow>
            Some (NOT (of_nat (be_val (replicate (8 - nbytes) 0 @ map (\<lambda>b. NOT b) bs))), pos + 1 + nbytes)))"

section \<open>Row and index keys\<close>

definition KS_INDEX :: u8 where "KS_INDEX = 0x02"

definition row_key :: "u32 \<Rightarrow> u64 \<Rightarrow> bytes" where
  "row_key table_id rowid = encode_oint (ucast table_id) @ encode_oint rowid"

definition row_prefix :: "u32 \<Rightarrow> bytes" where
  "row_prefix table_id = encode_oint (ucast table_id)"

definition decode_row_key :: "bytes \<Rightarrow> (u32 \<times> u64) option" where
  "decode_row_key key =
     (case key of [] \<Rightarrow> None | first # _ \<Rightarrow>
        if first < 0x80 then None
        else (case decode_oint key 0 of None \<Rightarrow> None | Some (table_id, pos) \<Rightarrow>
          (case decode_oint key pos of None \<Rightarrow> None | Some (rowid, pos) \<Rightarrow>
             if 0 \<le> sint table_id \<and> sint table_id < 2 ^ 32 then Some (ucast table_id, rowid) else None)))"

definition index_id_prefix :: "u32 \<Rightarrow> bytes" where
  "index_id_prefix index_id = KS_INDEX # rev (u32_le index_id)"

definition index_value_prefix :: "u32 \<Rightarrow> val list \<Rightarrow> bytes" where
  "index_value_prefix index_id values = index_id_prefix index_id @ concat (map encode_index_value values)"

definition index_entry_key :: "u32 \<Rightarrow> nat list \<Rightarrow> val list \<Rightarrow> u64 \<Rightarrow> bytes" where
  "index_entry_key index_id columns record rowid =
     index_id_prefix index_id @ concat (map (\<lambda>col. encode_index_value (record ! col)) columns) @ rowid_be rowid"

section \<open>Variable-length integers keep their order\<close>

text \<open>The number of significant bytes, and the bytes themselves.\<close>

definition sig_bytes :: "u64 \<Rightarrow> nat" where
  "sig_bytes u = 8 - leading_zeros u div 8"

lemma sig_bytes_bits: "sig_bytes u = div_ceil (bit_count (unat u)) 8"
proof -
  define z where "z = leading_zeros u"
  have "bit_count (unat u) \<le> 64" by (rule bit_count_le) (rule unat_u64_less)
  then have b: "bit_count (unat u) = 64 - z" and "z \<le> 64" by (simp_all add: z_def leading_zeros_def)
  define q r where "q = z div 8" and "r = z mod 8"
  have z: "z = 8 * q + r" "r < 8" by (simp_all add: q_def r_def)
  have "64 - z + 7 = (7 - r) + (8 - q) * 8" using z \<open>z \<le> 64\<close> by auto
  then have "(64 - z + 7) div 8 = 8 - q" by simp
  then show ?thesis by (simp add: sig_bytes_def div_ceil_def b flip: z_def q_def)
qed

lemma sig_bytes_le: "sig_bytes u \<le> 8"
  by (simp add: sig_bytes_def)

lemma unat_less_sig: "unat u < 256 ^ sig_bytes u"
proof (rule ccontr)
  let ?n = "sig_bytes u"
  assume "\<not> unat u < 256 ^ ?n"
  then have "2 ^ (8 * ?n) \<le> unat u" by (simp add: power_mult)
  then have "8 * ?n < bit_count (unat u)" by (rule bit_count_ge)
  then show False by (simp add: sig_bytes_bits div_ceil_def)
qed

lemma sig_bytes_mono: "a \<le> b \<Longrightarrow> sig_bytes a \<le> sig_bytes b"
proof -
  assume "a \<le> b"
  then have "unat a \<le> unat b" by (simp add: word_le_nat_alt)
  have "bit_count (unat a) \<le> bit_count (unat b)"
  proof (rule bit_count_le, rule ccontr)
    assume "\<not> unat a < 2 ^ bit_count (unat b)"
    then have "2 ^ bit_count (unat b) \<le> unat b" using \<open>unat a \<le> unat b\<close> by simp
    then show False using bit_count_ge by blast
  qed
  then show ?thesis by (simp add: sig_bytes_bits div_ceil_def div_le_mono)
qed

lemma nat_le_take: "take k (nat_le n v) = nat_le (min k n) v"
proof (induction k arbitrary: n v)
  case (Suc k)
  then show ?case by (cases n) auto
qed simp

lemma be_val_drop_sig: "be_val (drop (8 - sig_bytes u) (u64_be u)) = unat u"
proof -
  have "be_val (drop (8 - sig_bytes u) (u64_be u)) = le_val (take (sig_bytes u) (nat_le 8 (unat u)))"
    using sig_bytes_le [of u] by (simp add: be_val_def u64_be_def rev_drop)
  then show ?thesis
    using unat_less_sig [of u] sig_bytes_le [of u] by (simp add: le_val_nat_le nat_le_take)
qed

lemma length_drop_sig: "length (drop (8 - sig_bytes u) (u64_be u)) = sig_bytes u"
  using sig_bytes_le [of u] by simp

text \<open>Complementing the bytes reverses the order.\<close>

lemma unat_minus_1: "unat (- 1 :: 'a::len word) = 2 ^ LENGTH('a) - 1"
  by (simp add: unsigned_minus_1_eq_mask mask_eq_exp_minus_1)

lemma unat_NOT_add: "unat (NOT x) + unat x = unat (- 1 :: 'a word)" for x :: "'a::len word"
proof -
  have "NOT x = - 1 - x" by (simp add: not_eq_complement)
  then have "unat (NOT x) = unat (- 1 :: 'a word) - unat x" using unat_sub [of x "- 1"] by simp
  then show ?thesis using word_le_nat_alt [of x "- 1"] by simp
qed

lemma be_val_NOT: "be_val (map (\<lambda>b. NOT b) xs) + be_val xs + 1 = 256 ^ length xs"
proof (induction xs)
  case (Cons x xs)
  have x: "unat (NOT x) + unat x = 255"
    unfolding unat_NOT_add unat_minus_1 by simp
  have "be_val (map (\<lambda>b. NOT b) (x # xs)) + be_val (x # xs) + 1
      = (unat (NOT x) + unat x) * 256 ^ length xs + (be_val (map (\<lambda>b. NOT b) xs) + be_val xs + 1)"
    by (simp add: be_val_Cons algebra_simps)
  then show ?case unfolding x Cons by simp
qed (simp add: be_val_def)

lemma be_val_less_NOT:
  assumes "length xs = length ys" "be_val ys < be_val xs"
  shows "map (\<lambda>b. NOT b) xs @ u < map (\<lambda>b. NOT b) ys @ (v :: bytes)"
  using assms be_val_NOT [of xs] be_val_NOT [of ys] by (intro be_val_less) auto

text \<open>The two branches of the encoder, with the header as a number.\<close>

lemma le8_cases: "n \<le> 8 \<Longrightarrow> n = 0 \<or> n = 1 \<or> n = 2 \<or> n = 3 \<or> n = 4 \<or> n = 5 \<or> n = 6 \<or> n = 7 \<or> n = (8 :: nat)"
  by linarith

lemma header_pos: "n \<le> 8 \<Longrightarrow> unat (0x80 OR of_nat n :: u8) = 128 + n"
  by (drule le8_cases) (elim disjE; simp)

lemma header_neg: "n \<le> 8 \<Longrightarrow> unat (0x7F - of_nat n :: u8) = 127 - n"
  by (drule le8_cases) (elim disjE; simp)

lemma encode_oint_pos:
  "0 \<le> sint v \<Longrightarrow> encode_oint v = (0x80 OR of_nat (sig_bytes v)) # drop (8 - sig_bytes v) (u64_be v)"
  by (simp add: encode_oint_def sig_bytes_def Let_def)

lemma encode_oint_neg:
  "sint v < 0 \<Longrightarrow> encode_oint v = (0x7F - of_nat (sig_bytes (NOT v)))
     # map (\<lambda>b. NOT b) (drop (8 - sig_bytes (NOT v)) (u64_be (NOT v)))"
  by (simp add: encode_oint_def sig_bytes_def Let_def)

lemma sint_u64: "sint v = (if unat v < 2 ^ 63 then int (unat v) else int (unat v) - 2 ^ 64)" for v :: u64
proof -
  define n where "n = int (unat v)"
  have s: "sint v = (n + 2 ^ 63) mod 2 ^ 64 - 2 ^ 63"
    by (simp add: n_def sint_uint signed_take_bit_eq_take_bit_shift take_bit_eq_mod)
  have "0 \<le> n" "n < 2 ^ 64" using unat_u64_less [of v] by (simp_all add: n_def del: of_nat_unat)
  then have "sint v = (if n < 2 ^ 63 then n else n - 2 ^ 64)"
    unfolding s using minus_mod_self2 [of "n + 2 ^ 63" "2 ^ 64", symmetric]
    by (cases "n < 2 ^ 63") simp_all
  moreover have "n < 2 ^ 63 \<longleftrightarrow> unat v < 2 ^ 63" unfolding n_def by (simp del: of_nat_unat)
  ultimately show ?thesis by (simp only: n_def)
qed

lemma sint_pos_unat: "0 \<le> sint (v :: u64) \<Longrightarrow> sint v = int (unat v)"
  using unat_u64_less [of v] unfolding sint_u64 by (simp split: if_splits del: of_nat_unat)

lemma sint_NOT: "sint (NOT v :: u64) = - sint v - 1"
proof -
  have "unat (NOT v) + unat v = 2 ^ 64 - 1" unfolding unat_NOT_add unat_minus_1 by simp
  then show ?thesis unfolding sint_u64 by (auto simp del: of_nat_unat)
qed

lemma encode_oint_less:
  assumes "sint a < sint b"
  shows "encode_oint a @ x < encode_oint b @ y"
proof -
  consider "0 \<le> sint a" "0 \<le> sint b" | "sint a < 0" "0 \<le> sint b" | "sint a < 0" "sint b < 0"
    using assms by linarith
  then show ?thesis
  proof cases
    case 1
    then have "unat a < unat b" using assms sint_pos_unat [of a] sint_pos_unat [of b] by linarith
    moreover from this have "sig_bytes a \<le> sig_bytes b" by (simp add: sig_bytes_mono word_le_nat_alt)
    ultimately show ?thesis using 1 sig_bytes_le [of a] sig_bytes_le [of b] be_val_drop_sig [of a]
        be_val_drop_sig [of b] length_drop_sig [of a] length_drop_sig [of b]
      by (cases "sig_bytes a = sig_bytes b")
        (auto simp: encode_oint_pos word_less_nat_alt header_pos intro: be_val_less)
  next
    case 2
    have "127 - sig_bytes (NOT a) < 128 + sig_bytes b" by linarith
    with 2 show ?thesis using sig_bytes_le [of "NOT a"] sig_bytes_le [of b]
      by (simp add: encode_oint_pos encode_oint_neg word_less_nat_alt header_pos header_neg)
  next
    case 3
    then have "unat (NOT b) < unat (NOT a)"
      using assms sint_pos_unat [of "NOT a"] sint_pos_unat [of "NOT b"] unfolding sint_NOT by linarith
    moreover from this have "sig_bytes (NOT b) \<le> sig_bytes (NOT a)"
      by (simp add: sig_bytes_mono word_le_nat_alt)
    ultimately show ?thesis using 3 sig_bytes_le [of "NOT a"] sig_bytes_le [of "NOT b"]
        be_val_drop_sig [of "NOT a"] be_val_drop_sig [of "NOT b"]
        length_drop_sig [of "NOT a"] length_drop_sig [of "NOT b"]
      by (cases "sig_bytes (NOT a) = sig_bytes (NOT b)")
        (auto simp: encode_oint_neg word_less_nat_alt header_neg intro: be_val_less_NOT)
  qed
qed

interpretation oint: memcmp encode_oint "\<lambda>_. True" "\<lambda>a b. sint a < sint b"
  by unfold_locales (auto simp: encode_oint_less intro: neq_sint)

lemma be_val_pad: "be_val (replicate k 0 @ bs) = be_val bs"
  by (induction k) (simp_all add: be_val_Cons)

lemma decode_oint_encode:
  assumes "at_pos buf p (encode_oint v)"
  shows "decode_oint buf p = Some (v, p + length (encode_oint v))"
proof (cases "0 \<le> sint v")
  case True
  let ?n = "sig_bytes v" and ?s = "drop (8 - sig_bytes v) (u64_be v)"
  have n: "?n \<le> 8" by (rule sig_bytes_le)
  have h: "unat (0x80 OR of_nat ?n :: u8) = 128 + ?n" by (rule header_pos [OF n])
  then have "unat ((0x80 OR of_nat ?n) - 0x80 :: u8) = ?n" and "0x80 \<le> (0x80 OR of_nat ?n :: u8)"
    using unat_sub [of "0x80 :: u8" "0x80 OR of_nat ?n"] by (simp_all add: word_le_nat_alt)
  moreover have "get_at buf p = Some (0x80 OR of_nat ?n)" and "get_range buf (p + 1) (p + 1 + ?n) = Some ?s"
    using assms at_pos_tl [of buf p _ ?s] at_pos_range [of buf "p + 1" ?s]
    by (auto simp: encode_oint_pos [OF True] dest: at_pos_get_at simp del: length_drop)
      (metis Suc_eq_plus1 length_drop_sig)+
  ultimately show ?thesis using n be_val_drop_sig [of v]
    by (simp add: decode_oint_def be_val_pad) (simp add: encode_oint_pos [OF True])
next
  case False
  let ?c = "NOT v"
  let ?n = "sig_bytes ?c" and ?s = "drop (8 - sig_bytes ?c) (u64_be ?c)"
  have neg: "sint v < 0" using False by simp
  have n: "?n \<le> 8" by (rule sig_bytes_le)
  have h: "unat (0x7F - of_nat ?n :: u8) = 127 - ?n" by (rule header_neg [OF n])
  then have "unat (0x7F - (0x7F - of_nat ?n) :: u8) = ?n" and "\<not> 0x80 \<le> (0x7F - of_nat ?n :: u8)"
    using n unat_sub [of "0x7F - of_nat ?n" "0x7F :: u8"] by (simp_all add: word_le_nat_alt)
  moreover have "get_at buf p = Some (0x7F - of_nat ?n)"
    and "get_range buf (p + 1) (p + 1 + ?n) = Some (map (\<lambda>b. NOT b) ?s)"
    using assms at_pos_tl [of buf p _ "map (\<lambda>b. NOT b) ?s"] at_pos_range [of buf "p + 1" "map (\<lambda>b. NOT b) ?s"]
    by (auto simp: encode_oint_neg [OF neg] dest: at_pos_get_at simp del: length_drop)
      (metis Suc_eq_plus1 length_drop_sig length_map)+
  ultimately show ?thesis using n be_val_drop_sig [of ?c]
    by (simp add: decode_oint_def be_val_pad o_def) (simp add: encode_oint_neg [OF neg])
qed


section \<open>Reals\<close>

text \<open>
  An \<^verbatim>\<open>f64\<close> is read from its bits: sign, 11 bits of exponent, 52 of mantissa.  \<open>f64_scaled\<close> is its
  value times \<open>2 ^ 1074\<close>, an integer for every finite double; the two infinities get the next
  integer after the largest finite one, so the order of \<open>f64_scaled\<close> is the order of the doubles.
\<close>

definition f64_sign :: "u64 \<Rightarrow> bool" where "f64_sign b = bit b 63"
definition f64_mag :: "u64 \<Rightarrow> nat" where "f64_mag b = unat b mod 2 ^ 63"
definition f64_exp :: "u64 \<Rightarrow> nat" where "f64_exp b = f64_mag b div 2 ^ 52"
definition f64_man :: "u64 \<Rightarrow> nat" where "f64_man b = f64_mag b mod 2 ^ 52"
definition f64_nan :: "u64 \<Rightarrow> bool" where "f64_nan b \<longleftrightarrow> f64_exp b = 2047 \<and> f64_man b \<noteq> 0"

definition f64_abs :: "u64 \<Rightarrow> nat" where
  "f64_abs b = (if f64_exp b = 0 then f64_man b else (2 ^ 52 + f64_man b) * 2 ^ (f64_exp b - 1))"

definition f64_scaled :: "u64 \<Rightarrow> int" where
  "f64_scaled b = (if f64_sign b then - int (f64_abs b) else int (f64_abs b))"

text \<open>The order of the encoding: by value, and negative zero before positive zero.\<close>

definition f64_lt :: "u64 \<Rightarrow> u64 \<Rightarrow> bool" where
  "f64_lt a b \<longleftrightarrow> f64_scaled a < f64_scaled b \<or> f64_scaled a = f64_scaled b \<and> f64_sign a \<and> \<not> f64_sign b"

lemma f64_abs_mono:
  assumes "f64_mag a < f64_mag b"
  shows "f64_abs a < f64_abs b"
proof -
  have ma: "f64_mag a = f64_exp a * 2 ^ 52 + f64_man a" and mb: "f64_mag b = f64_exp b * 2 ^ 52 + f64_man b"
    by (simp_all add: f64_exp_def f64_man_def)
  have la: "f64_man a < 2 ^ 52" and lb: "f64_man b < 2 ^ 52" by (simp_all add: f64_man_def)
  consider "f64_exp a = f64_exp b" "f64_man a < f64_man b" | "f64_exp a < f64_exp b"
    using assms digit_less [OF la lb] unfolding ma mb by auto
  then show ?thesis
  proof cases
    case 2
    have "f64_abs a < 2 ^ 52 * 2 ^ f64_exp a"
    proof (cases "f64_exp a")
      case (Suc e)
      have "2 ^ 52 + f64_man a < 2 ^ 53" using la by simp
      then have "(2 ^ 52 + f64_man a) * 2 ^ e < 2 ^ 53 * 2 ^ e" by simp
      then show ?thesis by (simp add: f64_abs_def Suc)
    qed (use la in \<open>simp add: f64_abs_def\<close>)
    also have "\<dots> \<le> 2 ^ 52 * 2 ^ (f64_exp b - 1)"
      using 2 by (intro mult_le_mono2 power_increasing) simp_all
    also have "\<dots> \<le> f64_abs b" using 2 by (simp add: f64_abs_def)
    finally show ?thesis .
  qed (simp add: f64_abs_def)
qed

lemma real_be_bits: "real_be a = u64_be (if f64_sign a then NOT a else a OR push_bit 63 1)"
proof -
  have "a AND 0x8000000000000000 \<noteq> 0 \<longleftrightarrow> bit a 63"
    using bit_iff_and_push_bit_not_eq_0 [of a 63] by simp
  then show ?thesis by (simp add: real_be_def f64_sign_def)
qed

lemma f64_sign_unat: "f64_sign b \<longleftrightarrow> 2 ^ 63 \<le> unat b"
proof -
  have "f64_sign b \<longleftrightarrow> odd (unat b div 2 ^ 63)"
    using bit_iff_odd [of "unat b" 63] by (simp add: f64_sign_def bit_unsigned_iff)
  moreover have "unat b div 2 ^ 63 < 2" using unat_u64_less [of b] by (simp add: less_mult_imp_div_less)
  ultimately show ?thesis by (auto simp: less_2_cases_iff div_eq_0_iff)
qed

lemma unat_or_top:
  assumes "\<not> f64_sign a"
  shows "unat (a OR push_bit 63 1) = 2 ^ 63 + unat a"
proof -
  have n: "a AND push_bit 63 1 = 0"
    using assms bit_iff_and_push_bit_not_eq_0 [of a 63] by (simp add: f64_sign_def)
  have "int (unat (a OR push_bit 63 1)) = sint a + 2 ^ 63"
    using uint_xor_top [of a] disjunctive_xor_eq_or [OF n] by simp
  also have "\<dots> = int (2 ^ 63 + unat a)"
    using assms unfolding f64_sign_unat sint_u64 by simp
  finally show ?thesis by (simp only: of_nat_eq_iff)
qed

lemma unat_NOT_u64: "unat (NOT a :: u64) = 2 ^ 64 - 1 - unat a"
  using unat_NOT_add [of a] unfolding unat_minus_1 by simp

lemma f64_mag_pos: "\<not> f64_sign a \<Longrightarrow> f64_mag a = unat a"
  by (simp add: f64_sign_unat f64_mag_def)

lemma f64_mag_neg: "f64_sign a \<Longrightarrow> f64_mag a + 2 ^ 63 = unat a"
  using unat_u64_less [of a] by (auto simp: f64_sign_unat f64_mag_def le_mod_geq)

lemma f64_abs_less: "f64_abs a < f64_abs b \<Longrightarrow> f64_mag a < f64_mag b"
proof (rule ccontr)
  assume lt: "f64_abs a < f64_abs b" and "\<not> f64_mag a < f64_mag b"
  then consider "f64_mag b < f64_mag a" | "f64_mag a = f64_mag b" by linarith
  then show False
  proof cases
    case 2
    then have "f64_abs a = f64_abs b" by (simp only: f64_abs_def f64_exp_def f64_man_def)
    then show ?thesis using lt by simp
  qed (use f64_abs_mono [of b a] lt in simp)
qed

lemma real_be_less:
  assumes "f64_lt a b"
  shows "real_be a @ x < real_be b @ y"
proof -
  have "unat (if f64_sign a then NOT a else a OR push_bit 63 1)
      < unat (if f64_sign b then NOT b else b OR push_bit 63 1)"
  proof (cases "f64_sign a"; cases "f64_sign b")
    assume s: "f64_sign a" "f64_sign b"
    then have "f64_mag b < f64_mag a"
      using assms by (intro f64_abs_less) (simp add: f64_lt_def f64_scaled_def)
    then show ?thesis using s f64_mag_neg [of a] f64_mag_neg [of b] unat_u64_less [of a]
      by (simp add: unat_NOT_u64)
  next
    assume s: "f64_sign a" "\<not> f64_sign b"
    then have "2 ^ 63 \<le> unat a" and "unat (b OR push_bit 63 1) = 2 ^ 63 + unat b"
      by (simp_all only: f64_sign_unat unat_or_top not_False_eq_True)
    moreover have "2 ^ 64 = 2 * (2 ^ 63 :: nat)" "0 < (2 ^ 63 :: nat)" by simp_all
    ultimately show ?thesis unfolding if_P [OF s(1)] if_not_P [OF s(2)] unat_NOT_u64 by linarith
  next
    assume s: "\<not> f64_sign a" "\<not> f64_sign b"
    then have "f64_mag a < f64_mag b"
      using assms by (intro f64_abs_less) (simp add: f64_lt_def f64_scaled_def)
    then have "unat a < unat b" using s by (simp only: f64_mag_pos not_False_eq_True)
    then show ?thesis
      unfolding if_not_P [OF s(1)] if_not_P [OF s(2)] unat_or_top [OF s(1)] unat_or_top [OF s(2)] by simp
  qed (use assms in \<open>auto simp: f64_lt_def f64_scaled_def\<close>)
  then show ?thesis unfolding real_be_bits by (intro u64_be_less) (simp add: word_less_nat_alt)
qed

lemma f64_lt_total: "f64_lt a b \<or> a = b \<or> f64_lt b a"
proof (rule ccontr)
  assume n: "\<not> (f64_lt a b \<or> a = b \<or> f64_lt b a)"
  then have s: "f64_sign a = f64_sign b" and e: "f64_abs a = f64_abs b"
    by (auto simp: f64_lt_def f64_scaled_def split: if_splits)
  from e have "f64_mag a = f64_mag b"
    using f64_abs_mono [of a b] f64_abs_mono [of b a] by (metis less_irrefl linorder_neqE_nat)
  then have "unat a = unat b"
    using s f64_mag_pos [of a] f64_mag_pos [of b] f64_mag_neg [of a] f64_mag_neg [of b] by fastforce
  then show False using n by (simp add: word_unat_eq_iff)
qed

interpretation real: memcmp real_be "\<lambda>f. \<not> f64_nan f" f64_lt
  using f64_lt_total by unfold_locales (simp_all add: real_be_less)

text \<open>
  The corner cases: the two zeros compare equal as doubles but have different keys, and a NaN with
  its sign bit set sorts before negative infinity, not after everything.
\<close>

lemma real_be_corners:
  "f64_scaled 0x8000000000000000 = f64_scaled 0" "real_be 0x8000000000000000 < real_be 0"
  "f64_nan 0xFFF8000000000000" "real_be 0xFFF8000000000000 < real_be 0xFFF0000000000000"
proof -
  have less: "real_be a < real_be b" if "f64_lt a b" for a b
    using real_be_less [OF that, of "[]" "[]"] by simp
  have s: "f64_sign 0x8000000000000000" "\<not> f64_sign 0" "f64_sign 0xFFF8000000000000" "f64_sign 0xFFF0000000000000"
    by (simp_all add: f64_sign_unat)
  note abs = f64_abs_def f64_exp_def f64_man_def f64_mag_def
  show z: "f64_scaled 0x8000000000000000 = f64_scaled 0"
    using s by (simp add: f64_scaled_def abs)
  show "real_be 0x8000000000000000 < real_be 0"
    by (rule less) (simp add: f64_lt_def z s)
  show "f64_nan 0xFFF8000000000000" by (simp add: f64_nan_def f64_exp_def f64_man_def f64_mag_def)
  have "f64_abs 0xFFF0000000000000 < f64_abs 0xFFF8000000000000"
    by (rule f64_abs_mono) (simp add: f64_mag_def)
  then show "real_be 0xFFF8000000000000 < real_be 0xFFF0000000000000"
    using s by (intro less) (simp add: f64_lt_def f64_scaled_def)
qed

section \<open>Byte strings\<close>

lemma escape_bytes_less: "a < b \<Longrightarrow> escape_bytes a @ 0 # 0 # x < escape_bytes b @ 0 # 0 # (y :: bytes)"
proof (induction a arbitrary: b)
  case Nil
  then show ?case by (cases b) (auto simp: word_gt_0)
next
  case (Cons c cs)
  then obtain d ds where b: "b = d # ds" by (cases b) auto
  show ?case
  proof (cases "c = d")
    case True
    then show ?thesis using Cons by (simp add: b)
  next
    case False
    then have "c < d" using Cons.prems by (simp add: b)
    then show ?thesis by (auto simp: b)
  qed
qed

interpretation bytes: memcmp encode_bytes "\<lambda>_. True" "(<)"
  by unfold_locales (auto simp: encode_bytes_def escape_bytes_less)

lemma escape_bytes_append [simp]: "escape_bytes (a @ b) = escape_bytes a @ escape_bytes b"
  by (induction a) auto

lemma encode_text_prefix_prefix:
  "encode_index_value (Text (s @ t)) = encode_text_prefix s @ escape_bytes t @ [0, 0]"
  by (simp add: encode_index_value_def encode_text_prefix_def encode_bytes_def)


section \<open>Index values and composite keys\<close>

text \<open>
  The order of a column's values: NULL first, then the order of the column's type.  Within one index
  every value of a column has the column's type \<open>T\<close> or is NULL.
\<close>

fun val_lt :: "val \<Rightarrow> val \<Rightarrow> bool" where
  "val_lt Null Null = False"
| "val_lt Null _ = True"
| "val_lt (Integer a) (Integer b) = (sint a < sint b)"
| "val_lt (Real a) (Real b) = f64_lt a b"
| "val_lt (Bool a) (Bool b) = (\<not> a \<and> b)"
| "val_lt (Text a) (Text b) = (a < b)"
| "val_lt (Blob a) (Blob b) = (a < b)"
| "val_lt _ _ = False"

definition col_value :: "string \<Rightarrow> val \<Rightarrow> bool" where
  "col_value T v \<longleftrightarrow> v = Null \<or> type_name v = T \<and> (case v of Real f \<Rightarrow> \<not> f64_nan f | _ \<Rightarrow> True)"

lemma encode_index_value_less:
  "col_value T a \<Longrightarrow> col_value T b \<Longrightarrow> val_lt a b \<Longrightarrow> encode_index_value a @ x < encode_index_value b @ y"
  by (cases a; cases b)
    (auto simp: encode_index_value_def rowid.lt_enc real.lt_enc bytes.lt_enc col_value_def)

lemma val_lt_total: "col_value T a \<Longrightarrow> col_value T b \<Longrightarrow> val_lt a b \<or> a = b \<or> val_lt b a"
  using f64_lt_total by (cases a; cases b) (auto simp: col_value_def type_name_def intro: neq_sint)

interpretation index_value: memcmp encode_index_value "col_value T" val_lt for T
  by unfold_locales (auto simp: encode_index_value_less dest: val_lt_total)

text \<open>Several columns, each with its type: the lexicographic order of the values.\<close>

fun vals_lt :: "val list \<Rightarrow> val list \<Rightarrow> bool" where
  "vals_lt (a # as) (b # bs) = (val_lt a b \<or> a = b \<and> vals_lt as bs)"
| "vals_lt _ _ = False"

lemma encode_values_order:
  assumes "list_all2 col_value Ts xs" "list_all2 col_value Ts ys"
  shows "concat (map encode_index_value xs) @ u < concat (map encode_index_value ys) @ v
    \<longleftrightarrow> vals_lt xs ys \<or> xs = ys \<and> u < v"
  using assms
proof (induction Ts arbitrary: xs ys)
  case (Cons T Ts)
  then obtain a as b bs where "xs = a # as" "ys = b # bs" "col_value T a" "col_value T b"
    "list_all2 col_value Ts as" "list_all2 col_value Ts bs"
    by (auto simp: list_all2_Cons1)
  then show ?case using Cons.IH index_value.enc_less_iff by auto
qed simp

lemma unat_ucast_table: "unat (ucast (t :: u32) :: u64) = unat t"
  using unat_u32_less [of t] by (simp add: unsigned_ucast_eq take_bit_nat_eq_self)

lemma sint_ucast_table: "sint (ucast (t :: u32) :: u64) = int (unat t)"
  using unat_u32_less [of t] unfolding sint_u64 unat_ucast_table by simp

lemma row_key_order:
  "row_key t1 r1 < row_key t2 r2 \<longleftrightarrow> t1 < t2 \<or> t1 = t2 \<and> sint r1 < sint r2"
proof -
  have e: "(ucast t1 :: u64) = ucast t2 \<longleftrightarrow> t1 = t2"
    by (metis sint_ucast_table of_nat_eq_iff word_unat_eq_iff)
  show ?thesis
    using oint.enc_less_iff [where a = "ucast t1" and b = "ucast t2" and x = "encode_oint r1"
        and y = "encode_oint r2"] oint.enc_order [where a = r1 and b = r2]
    unfolding row_key_def sint_ucast_table e by (auto simp: word_less_nat_alt simp del: of_nat_unat)
qed

lemma decode_row_key_row_key: "decode_row_key (row_key table_id rowid) = Some (table_id, rowid)"
proof -
  let ?t = "ucast table_id :: u64"
  have nn: "0 \<le> sint ?t" unfolding sint_ucast_table by simp
  have "\<exists>h hs. row_key table_id rowid = h # hs \<and> \<not> h < 0x80"
    using sig_bytes_le [of ?t]
    by (simp add: row_key_def encode_oint_pos [OF nn] word_less_nat_alt header_pos)
  then obtain h hs where k: "row_key table_id rowid = h # hs" "\<not> h < 0x80" by blast
  have "decode_oint (row_key table_id rowid) 0 = Some (?t, length (encode_oint ?t))"
    using decode_oint_encode [of "row_key table_id rowid" 0 ?t] by (simp add: row_key_def at_pos_prefix)
  moreover have "decode_oint (row_key table_id rowid) (length (encode_oint ?t))
      = Some (rowid, length (row_key table_id rowid))"
    using decode_oint_encode [of "row_key table_id rowid" "length (encode_oint ?t)" rowid]
      at_posI [of "encode_oint ?t" "encode_oint rowid" "[]"] by (simp add: row_key_def)
  moreover have "ucast ?t = table_id"
    by (rule bit_word_eqI) (simp add: bit_ucast_iff)
  ultimately show ?thesis
    using k nn unat_u32_less [of table_id]
    by (simp add: decode_row_key_def sint_ucast_table del: of_nat_unat)
qed

text \<open>Every row of a table, and nothing else, has the table's prefix.\<close>

lemma row_key_prefix:
  "(\<exists>s. row_key t r = row_prefix u @ s) \<longleftrightarrow> t = u"
proof
  assume "\<exists>s. row_key t r = row_prefix u @ s"
  then obtain s where e: "encode_oint (ucast t) @ encode_oint r = encode_oint (ucast u) @ s"
    by (auto simp: row_key_def row_prefix_def)
  have "decode_oint (encode_oint w @ x) 0 = Some (w, length (encode_oint w))" for w x
    using decode_oint_encode [OF at_pos_prefix] by simp
  from this [of "ucast t" "encode_oint r"] this [of "ucast u" s]
  have "(ucast t :: u64) = ucast u" unfolding e by simp
  then show "t = u" by (metis sint_ucast_table of_nat_eq_iff word_unat_eq_iff)
qed (auto simp: row_key_def row_prefix_def)

lemma index_entry_key_order:
  assumes "list_all2 col_value Ts (map ((!) r1) columns)" "list_all2 col_value Ts (map ((!) r2) columns)"
  shows "index_entry_key idx columns r1 rowid1 < index_entry_key idx columns r2 rowid2 \<longleftrightarrow>
    vals_lt (map ((!) r1) columns) (map ((!) r2) columns)
    \<or> map ((!) r1) columns = map ((!) r2) columns \<and> sint rowid1 < sint rowid2"
  using encode_values_order [OF assms] rowid.enc_order
  by (simp add: index_entry_key_def o_def)

end
