(* ===== verification/CodecProps.thy ===== *)
theory CodecProps
  imports Keyenc
begin

text \<open>
  The properties of the byte formats: variable-length integers, the header page and the meta slots (\<^verbatim>\<open>src/format.rs\<close>),
  the records of rows (\<^verbatim>\<open>src/record.rs\<close>) and the memcomparable keys (\<^verbatim>\<open>src/keyenc.rs\<close>).
\<close>

section \<open>Integers, header and meta slots\<close>

text \<open>A variable-length integer written anywhere in a buffer is read back at that place, and the reader stops
  exactly behind it; the writer uses the announced number of bytes, between one and ten.\<close>

lemma varint_round_trip:
  assumes "at_pos buf p (put_varint v)"
  shows "take_varint buf p = Some (v, p + varint_len v) \<and> length (put_varint v) = varint_len v \<and>
    1 \<le> varint_len v \<and> varint_len v \<le> 10"
  using take_varint_put [OF assms] varint_len_bounds [of v] by (simp add: length_put_varint)

lemma varint_round_trip_witness: "take_varint (put_varint 300 @ [7]) 0 = Some (300, 0 + varint_len 300)"
  using varint_round_trip [of "put_varint 300 @ [7]" 0 300] by (simp add: at_pos_def)

text \<open>Whatever the bytes, a successful read of a variable-length integer consumes at least one and at most ten
  bytes and never runs past the buffer; a tenth byte above 1 loses its high bits instead of being refused.\<close>

lemma take_varint_within:
  "(case take_varint buf p of None \<Rightarrow> True | Some (_, q) \<Rightarrow> p < q \<and> q \<le> p + 10 \<and> q \<le> length buf) \<and>
   take_varint (replicate 9 0xFF @ [0x7F]) 0 = Some (0xFFFFFFFFFFFFFFFF, 10)"
  using take_varint_bounds [of buf p] take_varint_overlong by (auto split: option.splits)

text \<open>The header page written by \<^verbatim>\<open>encode_into\<close> is decoded to the same header, whatever the rest of the page
  held; with the magic damaged it is refused, and a format version above the supported one is named in the error.\<close>

lemma file_header_round_trip:
  assumes "53 \<le> length body" "length (fh_file_id h) = 16" "length (fh_kdf_salt h) = 16"
  shows "header_decode (header_encode_into h body) = Inr h \<and>
    (take 8 b \<noteq> MAGIC_HEADER \<longrightarrow> header_decode b = Inl NotADatabase) \<and>
    (take 8 b = MAGIC_HEADER \<and> FORMAT_VERSION < le_u32 b 8 \<longrightarrow> header_decode b = Inl (UnsupportedFormat (le_u32 b 8)))"
  using header_decode_encode [OF assms] header_decode_rejects_magic header_decode_rejects_future by auto

lemma file_header_round_trip_witness:
  "header_decode (header_encode_into \<lparr>fh_flags = 1, fh_file_id = replicate 16 9, fh_kdf_salt = replicate 16 8, fh_ecc_nsym = 4\<rparr>
     (replicate 60 0)) = Inr \<lparr>fh_flags = 1, fh_file_id = replicate 16 9, fh_kdf_salt = replicate 16 8, fh_ecc_nsym = 4\<rparr>"
  using file_header_round_trip [of "replicate 60 0"
      "\<lparr>fh_flags = 1, fh_file_id = replicate 16 9, fh_kdf_salt = replicate 16 8, fh_ecc_nsym = 4\<rparr>"] by simp

text \<open>A meta slot is decoded to what was encoded, and two consecutive versions go to different slots, so that
  publishing a version never overwrites the slot of the version before it.\<close>

lemma meta_slot_round_trip:
  assumes "32 \<le> length body"
  shows "meta_decode (meta_encode_into m body) = Some m \<and> slot_page (v + 1) \<noteq> slot_page v \<and>
    slot_page v \<in> {META_PAGE_A, META_PAGE_B}"
  using meta_decode_encode [OF assms] slot_page_alternates [of v] slot_page_range [of v] by auto

lemma meta_slot_round_trip_witness:
  "meta_decode (meta_encode_into \<lparr>ms_version = 5, ms_last_commit_page = 9, ms_n_pages = 12\<rparr> (replicate 32 0))
     = Some \<lparr>ms_version = 5, ms_last_commit_page = 9, ms_n_pages = 12\<rparr>"
  using meta_slot_round_trip [of "replicate 32 0" "\<lparr>ms_version = 5, ms_last_commit_page = 9, ms_n_pages = 12\<rparr>"] by simp

section \<open>Records\<close>

text \<open>C9: A row is decoded to the values it was encoded from; and whatever bytes decode to a row, every text in it
  is UTF-8 and every length fits the format, so that the row can be encoded again.\<close>

lemma record_round_trip:
  assumes "list_all value_ok vs" "length vs < 2 ^ 64" "length buf < 2 ^ 64"
  shows "decode_values (encode_values vs) = Inr vs \<and> (\<forall>ws. decode_values buf = Inr ws \<longrightarrow> list_all value_ok ws)"
  using decode_values_encode [OF assms(1,2)] decode_values_ok assms(3) by blast

lemma record_round_trip_witness: "decode_values (encode_values [Integer (- 5), Null, Blob [104, 105]]) = Inr [Integer (- 5), Null, Blob [104, 105]]"
proof -
  have "list_all value_ok [Integer (- 5), Null, Blob [104, 105]]" by (simp add: value_ok_def)
  then show ?thesis using record_round_trip [of "[Integer (- 5), Null, Blob [104, 105]]" "[]"] by simp
qed

text \<open>C10: Decoding only some columns gives what decoding the whole row and selecting gives, for every increasing
  list of columns, missing columns included; and the direct path to a blob column gives that column.\<close>

lemma partial_decode_agrees:
  assumes "decode_values buf = Inr vs" "length buf < 2 ^ 64" "sorted_wrt (<) wanted"
  shows "decode_cols_sorted buf wanted = Inr (map (col_of vs) wanted) \<and>
    col_blob_bytes buf c = Inr (blob_of (col_of vs c))"
  using decode_cols_sorted_full [OF assms] col_blob_bytes_full [OF assms(1,2)] by blast

lemma partial_decode_agrees_witness:
  "decode_cols_sorted (encode_values [Null, Blob [1, 2], Bool True]) [1, 2, 7] = Inr [Some (Blob [1, 2]), Some (Bool True), None]"
proof -
  have v: "list_all value_ok [Null, Blob [1, 2], Bool True]" by (simp add: value_ok_def)
  have l: "length (encode_values [Null, Blob [1, 2], Bool True]) < 2 ^ 64"
    using varint_len_bounds(2) [of 3] varint_len_bounds(2) [of 2]
    by (simp add: encode_values_eq length_put_varint value_payload_def)
  show ?thesis
    using partial_decode_agrees [OF decode_values_encode [OF v] l, of "[1, 2, 7]" 0] by (simp add: col_of_def)
qed

text \<open>In a build without overflow checks, the skipping reader follows a length that wraps the position around:
  a record the full decoder refuses is accepted by the partial one.\<close>

lemma partial_decode_accepts_wrapped:
  "decode_values wrap_record = Inl (CorruptRecord ''texto truncado'') \<and>
   skip_payload wrap_record 3 TAG_TEXT = Inr 0 \<and> decode_cols_sorted wrap_record [1] = Inr [Some (Bool True)]"
  using skip_payload_wraps by blast

section \<open>Keys\<close>

text \<open>The byte order of row keys is the order of the table, then of the signed row identifier; and a key is
  decoded to both.\<close>

lemma row_keys_ordered:
  "(row_key t1 r1 < row_key t2 r2 \<longleftrightarrow> t1 < t2 \<or> t1 = t2 \<and> sint r1 < sint r2) \<and>
   decode_row_key (row_key t1 r1) = Some (t1, r1) \<and> ((\<exists>s. row_key t1 r1 = row_prefix t2 @ s) \<longleftrightarrow> t1 = t2)"
  using row_key_order decode_row_key_row_key row_key_prefix by blast

text \<open>C11: The keys of an index sort like the indexed values column by column, rows with equal values by their
  identifier, for columns that each hold one type.\<close>

lemma index_keys_ordered:
  assumes "list_all2 col_value Ts (map ((!) r1) columns)" "list_all2 col_value Ts (map ((!) r2) columns)"
  shows "index_entry_key idx columns r1 rowid1 < index_entry_key idx columns r2 rowid2 \<longleftrightarrow>
    vals_lt (map ((!) r1) columns) (map ((!) r2) columns)
    \<or> map ((!) r1) columns = map ((!) r2) columns \<and> sint rowid1 < sint rowid2"
  by (rule index_entry_key_order [OF assms])

lemma index_keys_ordered_witness:
  "index_entry_key 7 [1] [Null, Blob [1]] 9 < index_entry_key 7 [1] [Null, Blob [1, 0]] 4"
  using index_keys_ordered [of "[''BLOB'']" "[Null, Blob [1]]" "[1]" "[Null, Blob [1, 0]]" 7 9 4]
  by (simp add: col_value_def type_name_def)

text \<open>The ordered variable-length integers preserve the signed order whatever follows them, and are decoded
  to the value and the position behind it.\<close>

lemma ordered_int_order:
  assumes "sint a < sint b"
  shows "encode_oint a @ x < encode_oint b @ y \<and> decode_oint (pre @ encode_oint a @ x) (length pre) = Some (a, length pre + length (encode_oint a))"
  using encode_oint_less [OF assms] decode_oint_encode [of "pre @ encode_oint a @ x" "length pre" a] at_posI by blast

lemma ordered_int_order_witness: "encode_oint (- 3) @ [255] < encode_oint 200 @ []"
  using ordered_int_order [of "- 3" 200 "[255]" "[]" "[]"] by simp

end
