(* ===== verification/Store.thy ===== *)
theory Store
  imports Format
begin

text \<open>
  The page state of a write transaction (\<^verbatim>\<open>TxStore\<close> of \<^verbatim>\<open>src/tx.rs\<close>): copy-on-write pages over the
  pager's durable ones, ids allocated above the logical end of the file, a stack of freed ids, and
  the cached append cursor.  Operations are state transformers with an error branch; a loop or
  recursion that follows page ids is a partial function, so that not returning is \<open>None\<close>.  On an error
  the state reached is kept, as \<^verbatim>\<open>&mut self\<close> keeps it.
\<close>

section \<open>State transformers with errors\<close>

type_synonym ('s, 'a) sx = "'s \<Rightarrow> ('a res \<times> 's) option"

definition sret :: "'a \<Rightarrow> ('s, 'a) sx" where "sret x s = Some (Inr x, s)"
definition sthrow :: "error \<Rightarrow> ('s, 'a) sx" where "sthrow e s = Some (Inl e, s)"
definition slift :: "'a res \<Rightarrow> ('s, 'a) sx" where "slift r s = Some (r, s)"

definition sbind :: "('s, 'a) sx \<Rightarrow> ('a \<Rightarrow> ('s, 'b) sx) \<Rightarrow> ('s, 'b) sx" where
  "sbind m f s = (case m s of
       None \<Rightarrow> None
     | Some (Inl e, s) \<Rightarrow> Some (Inl e, s)
     | Some (Inr x, s) \<Rightarrow> f x s)"

lemma sx_simps [simp]:
  "sret x s = Some (Inr x, s)" "sthrow e s = Some (Inl e, s)" "slift r s = Some (r, s)"
  by (simp_all add: sret_def sthrow_def slift_def)

lemma sbind_simps [simp]:
  "m s = None \<Longrightarrow> sbind m f s = None"
  "m s = Some (Inl e, s') \<Longrightarrow> sbind m f s = Some (Inl e, s')"
  "m s = Some (Inr x, s') \<Longrightarrow> sbind m f s = f x s'"
  by (simp_all add: sbind_def)

lemma sbind_eq_Inr: "sbind m f s = Some (Inr y, t) \<longleftrightarrow> (\<exists>x s'. m s = Some (Inr x, s') \<and> f x s' = Some (Inr y, t))"
  by (auto simp: sbind_def split: option.splits sum.splits prod.splits)

lemma sbind_mono [partial_function_mono]:
  fixes m :: "('x \<Rightarrow> 'y option) \<Rightarrow> ('s, 'p) sx" and k :: "('x \<Rightarrow> 'y option) \<Rightarrow> 'p \<Rightarrow> ('s, 'q) sx"
  assumes "monotone (fun_ord option_ord) option_ord (\<lambda>f. m f s)"
    and "\<And>x s'. monotone (fun_ord option_ord) option_ord (\<lambda>f. k f x s')"
  shows "monotone (fun_ord option_ord) option_ord (\<lambda>f. sbind (m f) (k f) s)"
proof (rule monotoneI)
  fix f g :: "'x \<Rightarrow> 'y option" assume fg: "fun_ord option_ord f g"
  have m: "option_ord (m f s) (m g s)" and k: "\<And>x s'. option_ord (k f x s') (k g x s')"
    using assms fg unfolding monotone_on_def by simp_all
  show "option_ord (sbind (m f) (k f) s) (sbind (m g) (k g) s)"
  proof (cases "m f s")
    case None
    then show ?thesis by (simp add: flat_ord_def)
  next
    case (Some r)
    then have "m g s = Some r" using m by (auto simp: flat_ord_def)
    then show ?thesis using Some k by (cases r; cases "fst r") (auto simp: flat_ord_def)
  qed
qed

section \<open>The store\<close>

record append_cursor =
  ac_root :: page_id
  ac_leaf :: page_id
  ac_end :: nat
  ac_last_key :: bytes

text \<open>
  \<open>pager\<close> is the pager's \<^verbatim>\<open>read_page\<close> at the transaction's base; \<open>freed\<close> is a stack, its head the pid
  freed last.
\<close>

record tx_store =
  pager :: "page_id \<Rightarrow> page_buf res"
  dirty :: "page_id \<rightharpoonup> page_buf"
  freed :: "page_id list"
  alloc_base :: u64
  alloc_next :: u64
  append_cursor :: "append_cursor option"

definition tx_store_new :: "(page_id \<Rightarrow> page_buf res) \<Rightarrow> u64 \<Rightarrow> tx_store" where
  "tx_store_new read_page n_pages =
     \<lparr>pager = read_page, dirty = Map.empty, freed = [], alloc_base = n_pages, alloc_next = n_pages,
      append_cursor = None\<rparr>"

definition set_body :: "page_buf \<Rightarrow> bytes \<Rightarrow> page_buf" where
  "set_body p b = take CRYPTO_RESERVE p @ b"

definition ts_body :: "tx_store \<Rightarrow> page_id \<Rightarrow> bytes res" where
  "ts_body s pid = (case dirty s pid of
       Some p \<Rightarrow> Inr (page_body p)
     | None \<Rightarrow>
         if pid \<ge> alloc_base s then Inl (Corrupt pid ''pagina transitoria liberada'')
         else rbind (pager s pid) (\<lambda>p. Inr (page_body p)))"

definition ts_alloc :: "(tx_store, page_id) sx" where
  "ts_alloc s =
     (let (pid, s) = (case freed s of
            pid # ids \<Rightarrow> (pid, s\<lparr>freed := ids\<rparr>)
          | [] \<Rightarrow> (alloc_next s, s\<lparr>alloc_next := alloc_next s + 1\<rparr>))
      in sret pid (s\<lparr>dirty := (dirty s)(pid \<mapsto> page_zeroed)\<rparr>))"

definition ts_make_dirty :: "page_id \<Rightarrow> (tx_store, page_id) sx" where
  "ts_make_dirty pid s =
     (if dirty s pid \<noteq> None then sret pid s
      else
        sbind (slift (pager s pid)) (\<lambda>src.
        sbind ts_alloc (\<lambda>new s.
          sret new (s\<lparr>dirty := (dirty s)(new \<mapsto> src)\<rparr>))) s)"

text \<open>\<^verbatim>\<open>body_mut\<close> with the write made through it: \<open>f\<close> maps the body to a result and the new body.\<close>

definition ts_body_mut :: "page_id \<Rightarrow> (bytes \<Rightarrow> 'a res \<times> bytes) \<Rightarrow> (tx_store, 'a) sx" where
  "ts_body_mut pid f s = (case dirty s pid of
       None \<Rightarrow> sthrow Panic s
     | Some p \<Rightarrow>
         let (r, b) = f (page_body p) in slift r (s\<lparr>dirty := (dirty s)(pid \<mapsto> set_body p b)\<rparr>))"

definition ts_free :: "page_id \<Rightarrow> tx_store \<Rightarrow> tx_store" where
  "ts_free pid s =
     (if dirty s pid \<noteq> None then s\<lparr>dirty := (dirty s)(pid := None), freed := pid # freed s\<rparr> else s)"

definition ts_is_dirty :: "tx_store \<Rightarrow> page_id \<Rightarrow> bool" where
  "ts_is_dirty s pid \<longleftrightarrow> dirty s pid \<noteq> None"

definition ts_take_append_cursor :: "tx_store \<Rightarrow> append_cursor option \<times> tx_store" where
  "ts_take_append_cursor s = (append_cursor s, s\<lparr>append_cursor := None\<rparr>)"

definition ts_set_append_cursor :: "append_cursor option \<Rightarrow> tx_store \<Rightarrow> tx_store" where
  "ts_set_append_cursor c s = s\<lparr>append_cursor := c\<rparr>"

end
