(* ===== verification/Node.thy ===== *)
theory Node
  imports Format
begin

text \<open>
  B-tree node pages at byte level (\<^verbatim>\<open>src/btree/node.rs\<close>): leaf and inner pages with their array of
  cell pointers growing from the end of the body, prefix-compressed leaves, in-place appends,
  binary searches that never materialise a cell, and overflow pages.  A body is the list of its
  bytes; a function that writes returns the new body.  \<open>leaf_rep\<close> and \<open>inner_rep\<close> say what
  sequence of cells a body stands for; the lemmas show that writers establish them and that every
  reader answers from that sequence.
\<close>

definition TYPE_LEAF :: u8 where "TYPE_LEAF = 0x01"
definition TYPE_INNER :: u8 where "TYPE_INNER = 0x02"
definition TYPE_OVERFLOW :: u8 where "TYPE_OVERFLOW = 0x03"
definition MAX_KEY_LEN :: nat where "MAX_KEY_LEN = 1024"
definition MAX_INLINE_CELL :: nat where "MAX_INLINE_CELL = 1280"
definition LEAF_HDR :: nat where "LEAF_HDR = 4"
definition INNER_HDR :: nat where "INNER_HDR = 12"
definition OVERFLOW_HDR :: nat where "OVERFLOW_HDR = 12"
definition OVERFLOW_DATA :: nat where "OVERFLOW_DATA = BODY_SIZE - OVERFLOW_HDR"
definition CELL_OVERFLOW_FLAG :: u8 where "CELL_OVERFLOW_FLAG = 0x01"
definition LEAF_PREFIX_FLAG :: u8 where "LEAF_PREFIX_FLAG = 0x01"
definition LEAF_MIN_PREFIX :: nat where "LEAF_MIN_PREFIX = 6"

lemmas node_consts = TYPE_LEAF_def TYPE_INNER_def TYPE_OVERFLOW_def LEAF_HDR_def INNER_HDR_def
  OVERFLOW_HDR_def CELL_OVERFLOW_FLAG_def LEAF_PREFIX_FLAG_def

datatype payload = Inline bytes | Overflow u64 page_id

record leaf_cell =
  lkey :: bytes
  lpayload :: payload

record inner_cell =
  ikey :: bytes
  ichild :: page_id

definition node_type :: "bytes \<Rightarrow> u8" where "node_type body = body ! 0"

section \<open>Readers of one field\<close>

definition get_varint :: "u64 \<Rightarrow> bytes \<Rightarrow> nat \<Rightarrow> (u64 \<times> nat) res" where
  "get_varint page buf pos = ok_or (take_varint buf pos) (Corrupt page ''varint invalido'')"

definition get_slice :: "u64 \<Rightarrow> bytes \<Rightarrow> nat \<Rightarrow> nat \<Rightarrow> (bytes \<times> nat) res" where
  "get_slice page buf pos len =
     rbind (ok_or (get_range buf pos (pos + len)) (Corrupt page ''celda truncada'')) (\<lambda>s.
       Inr (s, pos + len))"

definition get_u64 :: "u64 \<Rightarrow> bytes \<Rightarrow> nat \<Rightarrow> (u64 \<times> nat) res" where
  "get_u64 page buf pos = rbind (get_slice page buf pos 8) (\<lambda>(s, pos). Inr (of_nat (le_val s), pos))"

definition node_ncells :: "bytes \<Rightarrow> nat" where
  "node_ncells body = le_val [body ! 2, body ! 3]"

definition cell_ptr :: "bytes \<Rightarrow> nat \<Rightarrow> nat res" where
  "cell_ptr body i =
     (if 2 * (i + 1) \<le> length body then
        let p = length body - 2 * (i + 1) in Inr (le_val [body ! p, body ! (p + 1)])
      else Inl Panic)"

definition set_cell_ptr :: "bytes \<Rightarrow> nat \<Rightarrow> nat \<Rightarrow> bytes" where
  "set_cell_ptr body i off = blit body (length body - 2 * (i + 1)) (u16_le (of_nat off))"

definition leaf_is_compressed :: "bytes \<Rightarrow> bool" where
  "leaf_is_compressed body \<longleftrightarrow> body ! 1 AND LEAF_PREFIX_FLAG \<noteq> 0"

definition leaf_prefix_and_start :: "u64 \<Rightarrow> bytes \<Rightarrow> (bytes \<times> nat) res" where
  "leaf_prefix_and_start page body =
     (if \<not> leaf_is_compressed body then Inr ([], LEAF_HDR)
      else rbind (get_varint page body LEAF_HDR) (\<lambda>(plen, pos). get_slice page body pos (unat plen)))"

datatype prefix_cmp = Below | Above | Within bytes

definition cmp_prefix :: "bytes \<Rightarrow> bytes \<Rightarrow> prefix_cmp" where
  "cmp_prefix prefix target =
     (let n = min (length prefix) (length target) in
      if take n target < take n prefix then Below
      else if take n prefix < take n target then Above
      else if length target < length prefix then Below
      else Within (drop (length prefix) target))"

definition inner_key_at :: "u64 \<Rightarrow> bytes \<Rightarrow> nat \<Rightarrow> (bytes \<times> nat) res" where
  "inner_key_at page body off =
     rbind (get_varint page body off) (\<lambda>(klen, pos). get_slice page body pos (unat klen))"

definition leaf_key_at :: "u64 \<Rightarrow> bytes \<Rightarrow> nat \<Rightarrow> (u8 \<times> bytes \<times> nat) res" where
  "leaf_key_at page body off =
     rbind (ok_or (get_at body off) (Corrupt page ''celda truncada'')) (\<lambda>flags.
     rbind (get_varint page body (off + 1)) (\<lambda>(klen, pos).
     rbind (get_slice page body pos (unat klen)) (\<lambda>(key, pos). Inr (flags, key, pos))))"

definition read_leaf_payload :: "u64 \<Rightarrow> bytes \<Rightarrow> nat \<Rightarrow> u8 \<Rightarrow> (payload \<times> nat) res" where
  "read_leaf_payload page body pos flags =
     (if flags AND CELL_OVERFLOW_FLAG \<noteq> 0 then
        rbind (get_varint page body pos) (\<lambda>(total_len, pos).
        rbind (get_u64 page body pos) (\<lambda>(first, pos). Inr (Overflow total_len first, pos)))
      else
        rbind (get_varint page body pos) (\<lambda>(vlen, pos).
        rbind (get_slice page body pos (unat vlen)) (\<lambda>(v, pos). Inr (Inline v, pos))))"

definition skip_leaf_payload :: "u64 \<Rightarrow> bytes \<Rightarrow> nat \<Rightarrow> u8 \<Rightarrow> nat res" where
  "skip_leaf_payload page body pos flags =
     (if flags AND CELL_OVERFLOW_FLAG \<noteq> 0 then
        rbind (get_varint page body pos) (\<lambda>(_, pos).
        rbind (get_u64 page body pos) (\<lambda>(_, pos). Inr pos))
      else
        rbind (get_varint page body pos) (\<lambda>(vlen, pos).
        rbind (get_slice page body pos (unat vlen)) (\<lambda>(_, pos). Inr pos)))"

section \<open>Sizes\<close>

definition payload_size :: "payload \<Rightarrow> nat" where
  "payload_size p = (case p of
       Inline v \<Rightarrow> varint_len (of_nat (length v)) + length v
     | Overflow total_len _ \<Rightarrow> varint_len total_len + 8)"

definition leaf_suffix_cell_size :: "nat \<Rightarrow> leaf_cell \<Rightarrow> nat" where
  "leaf_suffix_cell_size plen c =
     (let slen = length (lkey c) - plen in 1 + varint_len (of_nat slen) + slen + payload_size (lpayload c))"

definition leaf_cell_size :: "leaf_cell \<Rightarrow> nat" where
  "leaf_cell_size c = 1 + varint_len (of_nat (length (lkey c))) + length (lkey c) + payload_size (lpayload c)"

definition inner_cell_size :: "inner_cell \<Rightarrow> nat" where
  "inner_cell_size c = varint_len (of_nat (length (ikey c))) + length (ikey c) + 8"

definition inline_cell_size :: "bytes \<Rightarrow> nat \<Rightarrow> nat" where
  "inline_cell_size key value_len =
     1 + varint_len (of_nat (length key)) + length key + varint_len (of_nat value_len) + value_len"

fun lcp_loop :: "bytes \<Rightarrow> bytes \<Rightarrow> nat" where
  "lcp_loop (a # as) (b # bs) = (if a = b then 1 + lcp_loop as bs else 0)"
| "lcp_loop _ _ = 0"

definition keys_lcp :: "leaf_cell list \<Rightarrow> nat" where
  "keys_lcp cells = lcp_loop (lkey (hd cells)) (lkey (last cells))"

section \<open>Writers\<close>

function put_varint_at :: "bytes \<Rightarrow> nat \<Rightarrow> u64 \<Rightarrow> bytes \<times> nat" where
  "put_varint_at body pos v =
     (let b = ucast (v AND 0x7f); v = drop_bit 7 v in
      if v = 0 then (body[pos := b], pos + 1)
      else put_varint_at (body[pos := b OR 0x80]) (pos + 1) v)"
  by pat_completeness auto
termination
proof (relation "measure (\<lambda>(body, pos, v). unat v)")
  fix v :: u64 and v' and body :: bytes and pos and b :: u8
  assume "v' = drop_bit 7 v" and "v' \<noteq> 0"
  then have "unat v div 128 \<noteq> 0" using unat_drop7 [of v] by (metis unat_eq_zero)
  then show "((body[pos := b OR 0x80], pos + 1, v'), (body, pos, v)) \<in> measure (\<lambda>(body, pos, v). unat v)"
    using \<open>v' = drop_bit 7 v\<close> by (simp add: unat_drop7)
qed simp

declare put_varint_at.simps [simp del]

definition write_leaf_cell_at :: "bytes \<Rightarrow> nat \<Rightarrow> bytes \<Rightarrow> payload \<Rightarrow> bytes \<times> nat" where
  "write_leaf_cell_at body off key payload = (case payload of
       Inline v \<Rightarrow>
         let body = body[off := 0];
             (body, p) = put_varint_at body (off + 1) (of_nat (length key));
             body = blit body p key; p = p + length key;
             (body, p) = put_varint_at body p (of_nat (length v));
             body = blit body p v
         in (body, p + length v)
     | Overflow total_len first \<Rightarrow>
         let body = body[off := CELL_OVERFLOW_FLAG];
             (body, p) = put_varint_at body (off + 1) (of_nat (length key));
             body = blit body p key; p = p + length key;
             (body, p) = put_varint_at body p total_len;
             body = blit body p (u64_le first)
         in (body, p + 8))"

definition encode_leaf_cell :: "bytes \<Rightarrow> payload \<Rightarrow> bytes" where
  "encode_leaf_cell key payload = (case payload of
       Inline v \<Rightarrow> [0] @ put_varint (of_nat (length key)) @ key @ put_varint (of_nat (length v)) @ v
     | Overflow total_len first \<Rightarrow>
         [CELL_OVERFLOW_FLAG] @ put_varint (of_nat (length key)) @ key @ put_varint total_len @ u64_le first)"

definition write_inner_cell_at :: "bytes \<Rightarrow> nat \<Rightarrow> bytes \<Rightarrow> page_id \<Rightarrow> bytes \<times> nat" where
  "write_inner_cell_at body off key child =
     (let (body, p) = put_varint_at body off (of_nat (length key));
          body = blit body p key; p = p + length key;
          body = blit body p (u64_le child)
      in (body, p + 8))"

text \<open>The loop that writes the cells and their pointers, shared by both kinds of node.\<close>

fun write_cells :: "(bytes \<Rightarrow> nat \<Rightarrow> 'c \<Rightarrow> bytes \<times> nat) \<Rightarrow> bytes \<Rightarrow> nat \<Rightarrow> nat \<Rightarrow> 'c list \<Rightarrow> bytes \<times> nat" where
  "write_cells wr body i off [] = (body, off)"
| "write_cells wr body i off (c # cs) =
     (let body = set_cell_ptr body i off; (body, off) = wr body off c
      in write_cells wr body (Suc i) off cs)"

definition encode_leaf :: "leaf_cell list \<Rightarrow> bytes \<Rightarrow> bool \<times> bytes" where
  "encode_leaf cells body =
     (let n = length cells;
          plen = (if n \<ge> 2 then keys_lcp cells else 0);
          is_vector = (case cells of [] \<Rightarrow> False | c # _ \<Rightarrow> (case lkey c of [] \<Rightarrow> False | b # _ \<Rightarrow> b = 0x04))
      in
      if plen \<ge> LEAF_MIN_PREFIX \<and> \<not> is_vector then
        let pblock = varint_len (of_nat plen) + plen;
            content_len = pblock + sum_list (map (leaf_suffix_cell_size plen) cells);
            content_end = LEAF_HDR + content_len
        in
        if content_end + 2 * n > length body then (False, body)
        else
          let body = body[0 := TYPE_LEAF];
              body = body[1 := LEAF_PREFIX_FLAG];
              body = blit body 2 (u16_le (of_nat n));
              (body, off) = put_varint_at body LEAF_HDR (of_nat plen);
              body = blit body off (take plen (lkey (hd cells)));
              off = off + plen;
              (body, off) = write_cells (\<lambda>body off c. write_leaf_cell_at body off (drop plen (lkey c)) (lpayload c))
                              body 0 off cells;
              ptr_start = length body - 2 * n
          in (True, blit body content_end (replicate (ptr_start - content_end) 0))
      else
        let content_len = sum_list (map leaf_cell_size cells);
            content_end = LEAF_HDR + content_len
        in
        if content_end + 2 * n > length body then (False, body)
        else
          let body = body[0 := TYPE_LEAF];
              body = body[1 := 0];
              body = blit body 2 (u16_le (of_nat n));
              (body, off) = write_cells (\<lambda>body off c. write_leaf_cell_at body off (lkey c) (lpayload c))
                              body 0 LEAF_HDR cells;
              ptr_start = length body - 2 * n
          in (True, blit body content_end (replicate (ptr_start - content_end) 0)))"

definition encode_inner :: "inner_cell list \<Rightarrow> page_id \<Rightarrow> bytes \<Rightarrow> bool \<times> bytes" where
  "encode_inner cells rightmost body =
     (let n = length cells;
          content_len = sum_list (map inner_cell_size cells);
          content_end = INNER_HDR + content_len
      in
      if content_end + 2 * n > length body then (False, body)
      else
        let body = body[0 := TYPE_INNER];
            body = body[1 := 0];
            body = blit body 2 (u16_le (of_nat n));
            body = blit body 4 (u64_le rightmost);
            (body, off) = write_cells (\<lambda>body off c. write_inner_cell_at body off (ikey c) (ichild c))
                            body 0 INNER_HDR cells;
            ptr_start = length body - 2 * n
        in (True, blit body content_end (replicate (ptr_start - content_end) 0)))"

definition encode_overflow :: "bytes \<Rightarrow> page_id \<Rightarrow> bytes \<Rightarrow> bytes" where
  "encode_overflow chunk next body =
     (let body = body[0 := TYPE_OVERFLOW];
          body = body[1 := 0];
          body = blit body 2 (u16_le (of_nat (length chunk)));
          body = blit body 4 (u64_le next);
          body = blit body OVERFLOW_HDR chunk;
          rest = OVERFLOW_HDR + length chunk
      in blit body rest (replicate (length body - rest) 0))"

section \<open>Whole-node decoders\<close>

fun parse_leaf_loop :: "u64 \<Rightarrow> bytes \<Rightarrow> bytes \<Rightarrow> nat \<Rightarrow> nat \<Rightarrow> bytes option \<Rightarrow> leaf_cell list res" where
  "parse_leaf_loop page body prefix 0 pos prev = Inr []"
| "parse_leaf_loop page body prefix (Suc n) pos prev =
     rbind (ok_or (get_at body pos) (Corrupt page ''celda truncada'')) (\<lambda>flags.
     rbind (get_varint page body (pos + 1)) (\<lambda>(slen, pos).
     rbind (get_slice page body pos (unat slen)) (\<lambda>(suffix, pos).
       let key = prefix @ suffix in
       if key = [] \<or> (case prev of None \<Rightarrow> False | Some p \<Rightarrow> p \<ge> key) then
         Inl (Corrupt page ''claves de hoja desordenadas o vacias'')
       else
         rbind (if flags AND CELL_OVERFLOW_FLAG \<noteq> 0 then
             rbind (get_varint page body pos) (\<lambda>(total_len, pos).
             rbind (get_u64 page body pos) (\<lambda>(first, pos). Inr (Overflow total_len first, pos)))
           else
             rbind (get_varint page body pos) (\<lambda>(vlen, pos).
             rbind (get_slice page body pos (unat vlen)) (\<lambda>(v, pos). Inr (Inline v, pos)))) (\<lambda>(payload, pos).
         rbind (parse_leaf_loop page body prefix n pos (Some key)) (\<lambda>cells.
           Inr (\<lparr>lkey = key, lpayload = payload\<rparr> # cells))))))"

definition parse_leaf :: "u64 \<Rightarrow> bytes \<Rightarrow> leaf_cell list res" where
  "parse_leaf page body =
     (if body ! 0 \<noteq> TYPE_LEAF then Inl (Corrupt page ''se esperaba una hoja'')
      else rbind (leaf_prefix_and_start page body) (\<lambda>(prefix, pos).
        parse_leaf_loop page body prefix (node_ncells body) pos None))"

definition inner_rightmost :: "bytes \<Rightarrow> page_id" where
  "inner_rightmost body = le_u64 body 4"

fun parse_inner_loop :: "u64 \<Rightarrow> bytes \<Rightarrow> nat \<Rightarrow> nat \<Rightarrow> bytes option \<Rightarrow> inner_cell list res" where
  "parse_inner_loop page body 0 pos prev = Inr []"
| "parse_inner_loop page body (Suc n) pos prev =
     rbind (get_varint page body pos) (\<lambda>(klen, pos).
     rbind (get_slice page body pos (unat klen)) (\<lambda>(key, pos).
       if key = [] \<or> (case prev of None \<Rightarrow> False | Some p \<Rightarrow> p \<ge> key) then
         Inl (Corrupt page ''separadores desordenados o vacios'')
       else
         rbind (get_u64 page body pos) (\<lambda>(child, pos).
         rbind (parse_inner_loop page body n pos (Some key)) (\<lambda>cells.
           Inr (\<lparr>ikey = key, ichild = child\<rparr> # cells)))))"

definition parse_inner :: "u64 \<Rightarrow> bytes \<Rightarrow> (inner_cell list \<times> page_id) res" where
  "parse_inner page body =
     (if body ! 0 \<noteq> TYPE_INNER then Inl (Corrupt page ''se esperaba un nodo interno'')
      else rbind (parse_inner_loop page body (node_ncells body) INNER_HDR None) (\<lambda>cells.
        Inr (cells, le_u64 body 4)))"

definition parse_overflow :: "u64 \<Rightarrow> bytes \<Rightarrow> (bytes \<times> page_id) res" where
  "parse_overflow page body =
     (if body ! 0 \<noteq> TYPE_OVERFLOW then Inl (Corrupt page ''se esperaba una pagina overflow'')
      else
        let len = le_val [body ! 2, body ! 3]; next = le_u64 body 4 in
        rbind (ok_or (get_range body OVERFLOW_HDR (OVERFLOW_HDR + len)) (Corrupt page ''overflow truncado''))
          (\<lambda>data. Inr (data, next)))"


section \<open>In-page searches\<close>

text \<open>
  The binary search every in-page search runs: \<open>probe mid\<close> answers whether the boundary lies to the
  right of \<open>mid\<close>.
\<close>

function bisect :: "(nat \<Rightarrow> 'e + bool) \<Rightarrow> nat \<Rightarrow> nat \<Rightarrow> 'e + nat" where
  "bisect probe lo hi =
     (if lo < hi then
        let mid = lo + (hi - lo) div 2 in
        case probe mid of
          Inl e \<Rightarrow> Inl e
        | Inr right \<Rightarrow> if right then bisect probe (mid + 1) hi else bisect probe lo mid
      else Inr lo)"
  by pat_completeness auto
termination by (relation "measure (\<lambda>(probe, lo, hi). hi - lo)") auto

declare bisect.simps [simp del]

definition inner_child_value_at :: "u64 \<Rightarrow> bytes \<Rightarrow> nat \<Rightarrow> page_id res" where
  "inner_child_value_at page body idx =
     (if idx < node_ncells body then
        rbind (cell_ptr body idx) (\<lambda>off.
        rbind (inner_key_at page body off) (\<lambda>(_, pos).
        rbind (get_u64 page body pos) (\<lambda>(child, _). Inr child)))
      else Inr (inner_rightmost body))"

definition inner_child_indexed :: "u64 \<Rightarrow> bytes \<Rightarrow> bytes \<Rightarrow> (page_id \<times> nat) res" where
  "inner_child_indexed page body key =
     (if body ! 0 \<noteq> TYPE_INNER then Inl (Corrupt page ''se esperaba un nodo interno'')
      else
        rbind (bisect (\<lambda>mid.
            rbind (cell_ptr body mid) (\<lambda>off.
            rbind (inner_key_at page body off) (\<lambda>(ckey, _). Inr (\<not> ckey > key))))
          0 (node_ncells body)) (\<lambda>lo.
        rbind (inner_child_value_at page body lo) (\<lambda>child. Inr (child, lo))))"

definition inner_child :: "u64 \<Rightarrow> bytes \<Rightarrow> bytes \<Rightarrow> page_id res" where
  "inner_child page body key = rbind (inner_child_indexed page body key) (\<lambda>(child, _). Inr child)"

definition leaf_suffix_at :: "u64 \<Rightarrow> bytes \<Rightarrow> nat \<Rightarrow> bytes res" where
  "leaf_suffix_at page body i =
     rbind (cell_ptr body i) (\<lambda>off. rbind (leaf_key_at page body off) (\<lambda>(_, suffix, _). Inr suffix))"

definition leaf_lower_bound :: "u64 \<Rightarrow> bytes \<Rightarrow> bytes \<Rightarrow> nat res" where
  "leaf_lower_bound page body key =
     (let ncells = node_ncells body in
      rbind (leaf_prefix_and_start page body) (\<lambda>(prefix, _).
        case cmp_prefix prefix key of
          Below \<Rightarrow> Inr 0
        | Above \<Rightarrow> Inr ncells
        | Within krest \<Rightarrow>
            bisect (\<lambda>mid. rbind (leaf_suffix_at page body mid) (\<lambda>suffix. Inr (suffix < krest))) 0 ncells))"

function seek_loop :: "u64 \<Rightarrow> bytes \<Rightarrow> bytes \<Rightarrow> nat \<Rightarrow> nat \<Rightarrow> (nat \<times> u8) option res" where
  "seek_loop page body krest lo hi =
     (if lo < hi then
        let mid = lo + (hi - lo) div 2 in
        case rbind (cell_ptr body mid) (leaf_key_at page body) of
          Inl e \<Rightarrow> Inl e
        | Inr (flags, suffix, payload_pos) \<Rightarrow>
            if suffix = krest then Inr (Some (payload_pos, flags))
            else if suffix < krest then seek_loop page body krest (mid + 1) hi
            else seek_loop page body krest lo mid
      else Inr None)"
  by pat_completeness auto
termination by (relation "measure (\<lambda>(page, body, krest, lo, hi). hi - lo)") auto

declare seek_loop.simps [simp del]

definition leaf_seek :: "u64 \<Rightarrow> bytes \<Rightarrow> bytes \<Rightarrow> (nat \<times> u8) option res" where
  "leaf_seek page body key =
     (if body ! 0 \<noteq> TYPE_LEAF then Inl (Corrupt page ''se esperaba una hoja'')
      else rbind (leaf_prefix_and_start page body) (\<lambda>(prefix, _).
        case cmp_prefix prefix key of
          Below \<Rightarrow> Inr None
        | Above \<Rightarrow> Inr None
        | Within krest \<Rightarrow> seek_loop page body krest 0 (node_ncells body)))"

definition leaf_find :: "u64 \<Rightarrow> bytes \<Rightarrow> bytes \<Rightarrow> payload option res" where
  "leaf_find page body key =
     rbind (leaf_seek page body key) (\<lambda>r. case r of
       Some (pos, flags) \<Rightarrow> rbind (read_leaf_payload page body pos flags) (\<lambda>(p, _). Inr (Some p))
     | None \<Rightarrow> Inr None)"

definition leaf_contains :: "u64 \<Rightarrow> bytes \<Rightarrow> bytes \<Rightarrow> bool res" where
  "leaf_contains page body key = rbind (leaf_seek page body key) (\<lambda>r. Inr (r \<noteq> None))"

definition leaf_cell_at :: "u64 \<Rightarrow> bytes \<Rightarrow> nat \<Rightarrow> (bytes \<times> payload) res" where
  "leaf_cell_at page body i =
     rbind (cell_ptr body i) (\<lambda>off.
     rbind (leaf_key_at page body off) (\<lambda>(flags, suffix, payload_pos).
     rbind (leaf_prefix_and_start page body) (\<lambda>(prefix, _).
     rbind (read_leaf_payload page body payload_pos flags) (\<lambda>(payload, _).
       Inr (prefix @ suffix, payload)))))"

text \<open>
  \<^verbatim>\<open>leaf_for_each_prefix\<close> calls a closure on every matching key, in order, stopping at its first
  error; the closure is a state transformer here.
\<close>

fun emit_range :: "u64 \<Rightarrow> bytes \<Rightarrow> bytes \<Rightarrow> (bytes \<Rightarrow> 's \<Rightarrow> 's res) \<Rightarrow> nat list \<Rightarrow> 's \<Rightarrow> 's res" where
  "emit_range page body lprefix f [] s = Inr s"
| "emit_range page body lprefix f (i # is) s =
     rbind (leaf_suffix_at page body i) (\<lambda>suffix.
     rbind (f (lprefix @ suffix) s) (emit_range page body lprefix f is))"

fun emit_while :: "u64 \<Rightarrow> bytes \<Rightarrow> bytes \<Rightarrow> bytes \<Rightarrow> (bytes \<Rightarrow> 's \<Rightarrow> 's res) \<Rightarrow> nat list \<Rightarrow> 's \<Rightarrow> (bool \<times> 's) res" where
  "emit_while page body lprefix srest f [] s = Inr (True, s)"
| "emit_while page body lprefix srest f (i # is) s =
     rbind (leaf_suffix_at page body i) (\<lambda>suffix.
       if take (length srest) suffix \<noteq> srest then Inr (False, s)
       else rbind (f (lprefix @ suffix) s) (emit_while page body lprefix srest f is))"

definition leaf_for_each_prefix ::
    "u64 \<Rightarrow> bytes \<Rightarrow> bytes \<Rightarrow> (bytes \<Rightarrow> 's \<Rightarrow> 's res) \<Rightarrow> 's \<Rightarrow> (bool \<times> 's) res" where
  "leaf_for_each_prefix page body prefix f s =
     (if body ! 0 \<noteq> TYPE_LEAF then Inl (Corrupt page ''se esperaba una hoja'')
      else
        let ncells = node_ncells body in
        rbind (leaf_prefix_and_start page body) (\<lambda>(lprefix, _).
          if length prefix \<le> length lprefix then
            if take (length prefix) lprefix = prefix then
              rbind (emit_range page body lprefix f [0..<ncells] s) (\<lambda>s. Inr (True, s))
            else Inr (prefix > lprefix, s)
          else if take (length lprefix) prefix \<noteq> lprefix then Inr (prefix > lprefix, s)
          else
            let srest = drop (length lprefix) prefix in
            rbind (bisect (\<lambda>mid. rbind (leaf_suffix_at page body mid) (\<lambda>suffix. Inr (suffix < srest)))
                0 ncells) (\<lambda>lo.
              emit_while page body lprefix srest f [lo..<ncells] s)))"

section \<open>In-place appends\<close>

fun append_scan :: "u64 \<Rightarrow> bytes \<Rightarrow> nat \<Rightarrow> nat \<Rightarrow> (nat \<times> nat) option \<Rightarrow> (nat \<times> (nat \<times> nat) option) res" where
  "append_scan page body 0 pos last_suffix = Inr (pos, last_suffix)"
| "append_scan page body (Suc n) pos last_suffix =
     rbind (ok_or (get_at body pos) (Corrupt page ''celda truncada'')) (\<lambda>flags.
     rbind (get_varint page body (pos + 1)) (\<lambda>(slen, sstart).
     rbind (get_slice page body sstart (unat slen)) (\<lambda>(_, pos).
     rbind (skip_leaf_payload page body pos flags) (\<lambda>pos.
       append_scan page body n pos (Some (sstart, sstart + unat slen))))))"

definition leaf_append :: "u64 \<Rightarrow> bytes \<Rightarrow> bytes \<Rightarrow> payload \<Rightarrow> (nat option \<times> bytes) res" where
  "leaf_append page body key payload =
     (if body ! 0 \<noteq> TYPE_LEAF then Inl (Corrupt page ''se esperaba una hoja'')
      else
        let ncells = node_ncells body in
        rbind (leaf_prefix_and_start page body) (\<lambda>(prefix, start).
          if take (length prefix) key \<noteq> prefix then Inr (None, body)
          else
            let stored = drop (length prefix) key in
            rbind (append_scan page body ncells start None) (\<lambda>(end_off, last_suffix).
              if (case last_suffix of None \<Rightarrow> False
                  | Some (ss, se) \<Rightarrow> stored \<le> take (se - ss) (drop ss body)) then Inr (None, body)
              else
                let cell = encode_leaf_cell stored payload in
                if end_off + length cell > length body - 2 * (ncells + 1) then Inr (None, body)
                else
                  let body = blit body end_off cell;
                      body = set_cell_ptr body ncells end_off;
                      body = blit body 2 (u16_le (of_nat ncells + 1))
                  in Inr (Some (end_off + length cell), body))))"

definition append_inline_at :: "bytes \<Rightarrow> nat \<Rightarrow> bytes \<Rightarrow> bytes \<Rightarrow> nat option \<times> bytes" where
  "append_inline_at body end_off key value =
     (let ncells = node_ncells body in
      case (if leaf_is_compressed body then
              (case leaf_prefix_and_start 0 body of
                 Inl _ \<Rightarrow> None
               | Inr (prefix, _) \<Rightarrow>
                   if take (length prefix) key \<noteq> prefix then None else Some (drop (length prefix) key))
            else Some key) of
        None \<Rightarrow> (None, body)
      | Some stored \<Rightarrow>
          let cell_len = 1 + varint_len (of_nat (length stored)) + length stored
                + varint_len (of_nat (length value)) + length value
          in
          if end_off + cell_len > length body - 2 * (ncells + 1) then (None, body)
          else
            let body = body[end_off := 0];
                (body, p) = put_varint_at body (end_off + 1) (of_nat (length stored));
                body = blit body p stored; p = p + length stored;
                (body, p) = put_varint_at body p (of_nat (length value));
                body = blit body p value; p = p + length value;
                body = set_cell_ptr body ncells end_off;
                body = blit body 2 (u16_le (of_nat (ncells + 1)))
            in (Some p, body))"

section \<open>Split point\<close>

fun split_loop :: "('c \<Rightarrow> nat) \<Rightarrow> nat \<Rightarrow> nat \<Rightarrow> 'c list \<Rightarrow> nat \<Rightarrow> nat \<Rightarrow> nat" where
  "split_loop sz n tot [] i acc = n - 1"
| "split_loop sz n tot (c # cs) i acc =
     (let acc = acc + sz c in
      if acc * 2 \<ge> tot then min (i + 1) (n - 1) else split_loop sz n tot cs (i + 1) acc)"

definition split_point :: "'c list \<Rightarrow> ('c \<Rightarrow> nat) \<Rightarrow> nat" where
  "split_point cells sz = split_loop sz (length cells) (sum_list (map sz cells)) cells 0 0"

end
