(* ===== verification/NodeRep.thy ===== *)
theory NodeRep
  imports Node
begin

text \<open>
  What a node body stands for.  \<open>leaf_rep body cm prefix cells fin\<close>: the body is a leaf, compressed
  iff \<open>cm\<close>, whose cells are \<open>cells\<close>, all sharing \<open>prefix\<close>, stored in order from the header with one
  pointer each, the free gap starting at \<open>fin\<close>.  \<open>inner_rep\<close> is the same for inner nodes.  The
  encoders and the in-place appends establish it; every reader is then a function of the cell list.
\<close>

section \<open>Writers as single writes\<close>

lemma blit_Nil [simp]: "blit body p [] = body"
  by (simp add: blit_def)

lemma blit_append:
  "p + length s + length t \<le> length body \<Longrightarrow> blit (blit body p s) (p + length s) t = blit body p (s @ t)"
  by (simp add: blit_def ac_simps)

lemma blit_Cons:
  "p + length s < length body \<Longrightarrow> blit (body[p := x]) (p + 1) s = blit body p (x # s)"
  using blit_append [of p "[x]" s body] by (simp add: blit_single)

lemma put_varint_at_blit:
  "pos + length (put_varint v) \<le> length body \<Longrightarrow>
   put_varint_at body pos v = (blit body pos (put_varint v), pos + length (put_varint v))"
proof (induction body pos v rule: put_varint_at.induct)
  case (1 body pos v)
  show ?case
  proof (cases "drop_bit 7 v = 0")
    case True
    then show ?thesis using 1(2)
      by (simp add: put_varint_at.simps [of body pos v] put_varint.simps [of v] blit_single)
  next
    case False
    let ?b = "ucast (v AND 0x7f) OR 0x80 :: u8"
    have p: "put_varint v = ?b # put_varint (drop_bit 7 v)"
      using False by (subst put_varint.simps) (simp add: Let_def)
    have "put_varint_at (body[pos := ?b]) (pos + 1) (drop_bit 7 v)
        = (blit (body[pos := ?b]) (pos + 1) (put_varint (drop_bit 7 v)),
           pos + 1 + length (put_varint (drop_bit 7 v)))"
      using 1(2) p by (intro 1(1)) (simp_all add: False)
    then show ?thesis
      using False 1(2) p by (subst put_varint_at.simps) (simp add: Let_def blit_Cons [simplified])
  qed
qed

lemma length_encode_leaf_cell:
  "length (encode_leaf_cell key payload)
    = 1 + varint_len (of_nat (length key)) + length key + payload_size payload"
  by (cases payload) (simp_all add: encode_leaf_cell_def payload_size_def length_put_varint)

lemma write_leaf_cell_at_blit:
  assumes "off + length (encode_leaf_cell key payload) \<le> length body"
  shows "write_leaf_cell_at body off key payload
    = (blit body off (encode_leaf_cell key payload), off + length (encode_leaf_cell key payload))"
proof (cases payload)
  case (Inline v)
  let ?k = "put_varint (of_nat (length key))" and ?v = "put_varint (of_nat (length v))"
  have l: "off + (1 + length ?k + length key + length ?v + length v) \<le> length body"
    using assms by (simp add: Inline encode_leaf_cell_def)
  have 1: "body[off := 0] = blit body off [0]" using l by (simp add: blit_single)
  show ?thesis using l unfolding Inline
    by (simp add: write_leaf_cell_at_def encode_leaf_cell_def 1 put_varint_at_blit
        blit_append [of off "[0]" ?k body, simplified]
        blit_append [of off "0 # ?k" key body, simplified]
        blit_append [of off "0 # ?k @ key" ?v body, simplified]
        blit_append [of off "0 # ?k @ key @ ?v" v body, simplified] add.assoc)
next
  case (Overflow total_len first)
  let ?k = "put_varint (of_nat (length key))" and ?v = "put_varint total_len" and ?f = CELL_OVERFLOW_FLAG
  have l: "off + (1 + length ?k + length key + length ?v + 8) \<le> length body"
    using assms by (simp add: Overflow encode_leaf_cell_def)
  have 1: "body[off := ?f] = blit body off [?f]" using l by (simp add: blit_single)
  show ?thesis using l unfolding Overflow
    by (simp add: write_leaf_cell_at_def encode_leaf_cell_def 1 put_varint_at_blit
        blit_append [of off "[?f]" ?k body, simplified]
        blit_append [of off "?f # ?k" key body, simplified]
        blit_append [of off "?f # ?k @ key" ?v body, simplified]
        blit_append [of off "?f # ?k @ key @ ?v" "u64_le first" body, simplified] add.assoc)
qed

definition inner_cell_bytes :: "inner_cell \<Rightarrow> bytes" where
  "inner_cell_bytes c = put_varint (of_nat (length (ikey c))) @ ikey c @ u64_le (ichild c)"

lemma length_inner_cell_bytes: "length (inner_cell_bytes c) = inner_cell_size c"
  by (simp add: inner_cell_bytes_def inner_cell_size_def length_put_varint)

lemma write_inner_cell_at_blit:
  assumes "off + length (inner_cell_bytes c) \<le> length body"
  shows "write_inner_cell_at body off (ikey c) (ichild c)
    = (blit body off (inner_cell_bytes c), off + length (inner_cell_bytes c))"
proof -
  let ?k = "put_varint (of_nat (length (ikey c)))"
  have l: "off + (length ?k + length (ikey c) + 8) \<le> length body"
    using assms by (simp add: inner_cell_bytes_def)
  show ?thesis using l
    by (simp add: write_inner_cell_at_def inner_cell_bytes_def put_varint_at_blit
        blit_append [of off ?k "ikey c" body, simplified]
        blit_append [of off "?k @ ikey c" "u64_le (ichild c)" body, simplified] add.assoc)
qed


section \<open>Sequences of cells with their pointers\<close>

text \<open>
  The writing loop, for any cell writer that is a single write: it stores the cells contiguously,
  points at each, and touches nothing below the start or in the pointers already there.
\<close>

lemma cell_ptr_at: "at_pos body (length body - 2 * (i + 1)) (u16_le w) \<Longrightarrow> 2 * (i + 1) \<le> length body \<Longrightarrow>
    cell_ptr body i = Inr (unat w)"
proof -
  assume a: "at_pos body (length body - 2 * (i + 1)) (u16_le w)" and l: "2 * (i + 1) \<le> length body"
  obtain x y where w: "u16_le w = [x, y]"
    using u16_le_pair by blast
  have "body ! (length body - 2 * (i + 1)) = x" "body ! (length body - 2 * (i + 1) + 1) = y"
    using a unfolding w by (auto simp: at_pos_Cons [of _ _ x] at_pos_get)
  then show ?thesis using l le_val_u16_le [of w] by (simp add: cell_ptr_def w Let_def)
qed

definition off_of :: "('c \<Rightarrow> bytes) \<Rightarrow> nat \<Rightarrow> 'c list \<Rightarrow> nat \<Rightarrow> nat" where
  "off_of enc off cs j = off + length (concat (map enc (take j cs)))"

lemma off_of_Cons [simp]: "off_of enc off (c # cs) (Suc j) = off_of enc (off + length (enc c)) cs j"
  by (simp add: off_of_def)

lemma off_of_0 [simp]: "off_of enc off cs 0 = off"
  by (simp add: off_of_def)

lemma off_of_le: "off_of enc off cs j \<le> off + length (concat (map enc cs))"
proof -
  have "concat (map enc cs) = concat (map enc (take j cs)) @ concat (map enc (drop j cs))"
    by (metis append_take_drop_id concat_append map_append)
  then show ?thesis by (simp add: off_of_def)
qed

definition ptrs_at :: "bytes \<Rightarrow> nat \<Rightarrow> nat list \<Rightarrow> bool" where
  "ptrs_at body i offs \<longleftrightarrow>
     (\<forall>j<length offs. at_pos body (length body - 2 * (i + j + 1)) (u16_le (of_nat (offs ! j))))"

lemma write_cells_spec:
  assumes wr: "\<And>body off c. c \<in> set cs \<Longrightarrow> off + length (enc c) \<le> length body \<Longrightarrow>
      wr body off c = (blit body off (enc c), off + length (enc c))"
    and fits: "off + length (concat (map enc cs)) + 2 * (i + length cs) \<le> length body"
    and res: "write_cells wr body i off cs = (body', off')"
  shows "length body' = length body \<and> off' = off + length (concat (map enc cs)) \<and>
    at_pos body' off (concat (map enc cs)) \<and>
    ptrs_at body' i (map (off_of enc off cs) [0..<length cs]) \<and>
    (\<forall>p t. p + length t \<le> off \<or> length body - 2 * i \<le> p \<longrightarrow> at_pos body' p t = at_pos body p t)"
  using assms
proof (induction cs arbitrary: body i off)
  case Nil
  then show ?case by (simp add: ptrs_at_def)
next
  case (Cons c cs)
  let ?n = "length body"
  let ?b1 = "set_cell_ptr body i off"
  let ?b2 = "blit ?b1 off (enc c)"
  have fit: "off + length (enc c) + length (concat (map enc cs)) + 2 * (i + Suc (length cs)) \<le> ?n"
    using Cons.prems(2) by simp
  have l1: "length ?b1 = ?n" using fit by (simp add: set_cell_ptr_def)
  have l2: "length ?b2 = ?n" using fit l1 by simp
  have w: "wr ?b1 off c = (?b2, off + length (enc c))" using Cons.prems(1) fit l1 by simp
  have IH: "length body' = ?n \<and> off' = off + length (enc c) + length (concat (map enc cs)) \<and>
    at_pos body' (off + length (enc c)) (concat (map enc cs)) \<and>
    ptrs_at body' (Suc i) (map (off_of enc (off + length (enc c)) cs) [0..<length cs]) \<and>
    (\<forall>p t. p + length t \<le> off + length (enc c) \<or> ?n - 2 * Suc i \<le> p \<longrightarrow>
       at_pos body' p t = at_pos ?b2 p t)"
    using Cons.IH [of "off + length (enc c)" "Suc i" ?b2] Cons.prems(1,3) fit l1 l2 w by simp
  have here: "at_pos body' off (enc c)"
    using IH blit_at_pos [of off "enc c" ?b1] fit l1 by simp
  have ptr: "at_pos body' (?n - 2 * (i + 1)) (u16_le (of_nat off))"
  proof -
    have "at_pos ?b1 (?n - 2 * (i + 1)) (u16_le (of_nat off))"
      unfolding set_cell_ptr_def using fit by (intro blit_at_pos) simp
    then have "at_pos ?b2 (?n - 2 * (i + 1)) (u16_le (of_nat off))"
      using fit l1 by (simp add: blit_at_pos_after)
    then show ?thesis using IH by simp
  qed
  have ptrs: "ptrs_at body' i (map (off_of enc off (c # cs)) [0..<Suc (length cs)])"
    unfolding ptrs_at_def
  proof (intro allI impI)
    fix j assume j: "j < length (map (off_of enc off (c # cs)) [0..<Suc (length cs)])"
    show "at_pos body' (length body' - 2 * (i + j + 1))
        (u16_le (of_nat (map (off_of enc off (c # cs)) [0..<Suc (length cs)] ! j)))"
    proof (cases j)
      case 0
      then show ?thesis using ptr IH j by (simp del: upt_Suc)
    next
      case (Suc k)
      then show ?thesis using IH [THEN conjunct1] IH j by (auto simp: ptrs_at_def simp del: upt_Suc)
    qed
  qed
  have frame: "at_pos body' p t = at_pos body p t" if "p + length t \<le> off \<or> ?n - 2 * i \<le> p" for p t
  proof -
    have "at_pos body' p t = at_pos ?b2 p t" using that IH fit by (elim disjE) auto
    also have "\<dots> = at_pos ?b1 p t"
      using that fit l1 by (elim disjE) (simp_all add: blit_at_pos_before blit_at_pos_after)
    also have "\<dots> = at_pos body p t"
      unfolding set_cell_ptr_def
      using that fit by (elim disjE) (simp_all add: blit_at_pos_before blit_at_pos_after)
    finally show ?thesis .
  qed
  show ?case using IH here ptrs frame by (simp add: at_pos_append del: upt_Suc)
qed


section \<open>Leaves\<close>

definition leaf_start :: "bool \<Rightarrow> bytes \<Rightarrow> nat" where
  "leaf_start cm prefix = (if cm then LEAF_HDR + length (put_varint (of_nat (length prefix))) + length prefix
                             else LEAF_HDR)"

definition cell_bytes :: "bytes \<Rightarrow> leaf_cell \<Rightarrow> bytes" where
  "cell_bytes prefix c = encode_leaf_cell (drop (length prefix) (lkey c)) (lpayload c)"

definition leaf_rep :: "bytes \<Rightarrow> bool \<Rightarrow> bytes \<Rightarrow> leaf_cell list \<Rightarrow> nat \<Rightarrow> bool" where
  "leaf_rep body cm prefix cells fin \<longleftrightarrow>
     length body < 2 ^ 16 \<and>
     at_pos body 0 ([TYPE_LEAF, if cm then LEAF_PREFIX_FLAG else 0] @ u16_le (of_nat (length cells))) \<and>
     (if cm then at_pos body LEAF_HDR (put_varint (of_nat (length prefix)) @ prefix) else prefix = []) \<and>
     (\<forall>c\<in>set cells. take (length prefix) (lkey c) = prefix) \<and>
     at_pos body (leaf_start cm prefix) (concat (map (cell_bytes prefix) cells)) \<and>
     ptrs_at body 0 (map (off_of (cell_bytes prefix) (leaf_start cm prefix) cells) [0..<length cells]) \<and>
     fin = leaf_start cm prefix + length (concat (map (cell_bytes prefix) cells)) \<and>
     fin + 2 * length cells \<le> length body"

definition leaf_wf :: "leaf_cell list \<Rightarrow> bool" where
  "leaf_wf cells \<longleftrightarrow> sorted_wrt (\<lambda>a b. lkey a < lkey b) cells \<and> (\<forall>c\<in>set cells. lkey c \<noteq> [])"

lemma lcp_loop_take: "lcp_loop a b \<le> length a" "take (lcp_loop a b) a = take (lcp_loop a b) b"
  by (induction a b rule: lcp_loop.induct) auto

text \<open>Keys between two keys share their common prefix: the comparison of the first and the last is enough.\<close>

lemma between_prefix:
  "a \<le> k \<Longrightarrow> k \<le> b \<Longrightarrow> take (lcp_loop a b) (k :: bytes) = take (lcp_loop a b) a"
proof (induction a b arbitrary: k rule: lcp_loop.induct)
  case (1 a as b bs)
  then obtain x xs where k: "k = x # xs" by (cases k) auto
  show ?case using 1 by (cases "a = b") (auto simp: k)
qed auto

lemma sorted_between:
  assumes "sorted_wrt (\<lambda>a b. lkey a < lkey b) cells" "c \<in> set cells"
  shows "lkey (hd cells) \<le> lkey c \<and> lkey c \<le> lkey (last cells)"
  using assms
proof (induction cells)
  case (Cons x xs)
  then show ?case by (cases "xs = []") (auto intro: less_imp_le dest: last_in_set)
qed simp

lemma keys_lcp_prefix:
  assumes "leaf_wf cells" "c \<in> set cells"
  shows "take (keys_lcp cells) (lkey c) = take (keys_lcp cells) (lkey (hd cells))"
  using sorted_between [of cells c] assms between_prefix
  unfolding keys_lcp_def leaf_wf_def by blast

lemma keys_lcp_le: "keys_lcp cells \<le> length (lkey (hd cells))"
  by (simp add: keys_lcp_def lcp_loop_take)

lemma ptrs_at_frame:
  assumes "ptrs_at body i offs" "length body' = length body"
    "\<And>p t. lo \<le> p \<Longrightarrow> at_pos body' p t = at_pos body p t" "lo + 2 * (i + length offs) \<le> length body"
  shows "ptrs_at body' i offs"
  using assms unfolding ptrs_at_def by (simp add: diff_le_mono2)

text \<open>
  Both layouts of \<^verbatim>\<open>encode_leaf\<close> are one pattern: a header, the cells and their pointers, and the gap
  filled with zeros.
\<close>

lemma write_node_spec:
  assumes wr: "\<And>body off c. c \<in> set cs \<Longrightarrow> off + length (enc c) \<le> length body \<Longrightarrow>
      wr body off c = (blit body off (enc c), off + length (enc c))"
    and fits: "length hdr + length (concat (map enc cs)) + 2 * length cs \<le> length body"
    and hdr: "at_pos body 0 hdr"
    and res: "write_cells wr body 0 (length hdr) cs = (body1, off1)"
    and cend: "content_end = length hdr + length (concat (map enc cs))"
    and body': "body' = blit body1 content_end (replicate (length body1 - 2 * length cs - content_end) 0)"
  shows "length body' = length body" "at_pos body' 0 hdr" "at_pos body' (length hdr) (concat (map enc cs))"
    "ptrs_at body' 0 (map (off_of enc (length hdr) cs) [0..<length cs])"
proof -
  have w: "length body1 = length body" "at_pos body1 (length hdr) (concat (map enc cs))"
    "ptrs_at body1 0 (map (off_of enc (length hdr) cs) [0..<length cs])"
    "\<And>p t. p + length t \<le> length hdr \<Longrightarrow> at_pos body1 p t = at_pos body p t"
    using write_cells_spec [where cs = cs and enc = enc and off = "length hdr" and i = 0, OF wr _ res] fits
    by auto
  have le: "content_end + 2 * length cs \<le> length body1" using fits cend w by simp
  show l: "length body' = length body" unfolding body' using le w by simp
  have before: "p + length t \<le> content_end \<Longrightarrow> at_pos body' p t = at_pos body1 p t" for p t
    unfolding body' using le by (intro blit_at_pos_before) simp_all
  have after: "length body1 - 2 * length cs \<le> p \<Longrightarrow> at_pos body' p t = at_pos body1 p t" for p t
    unfolding body' using le by (intro blit_at_pos_after) simp_all
  show "at_pos body' 0 hdr" "at_pos body' (length hdr) (concat (map enc cs))"
    using before w hdr cend by simp_all
  show "ptrs_at body' 0 (map (off_of enc (length hdr) cs) [0..<length cs])"
    by (rule ptrs_at_frame [OF w(3), of _ "length body1 - 2 * length cs"])
      (use l w after le in simp_all)
qed


lemma length_cell_bytes: "length (cell_bytes prefix c) = leaf_suffix_cell_size (length prefix) c"
  by (simp add: cell_bytes_def length_encode_leaf_cell leaf_suffix_cell_size_def Let_def)

lemma length_cells: "length (concat (map (cell_bytes prefix) cells))
    = sum_list (map (leaf_suffix_cell_size (length prefix)) cells)"
  by (simp add: length_concat o_def length_cell_bytes)

lemma leaf_suffix_cell_size_0: "leaf_suffix_cell_size 0 = leaf_cell_size"
  by (rule ext) (simp add: leaf_suffix_cell_size_def leaf_cell_size_def Let_def)

definition leaf_hdr :: "bool \<Rightarrow> bytes \<Rightarrow> nat \<Rightarrow> bytes" where
  "leaf_hdr cm prefix n = [TYPE_LEAF, if cm then LEAF_PREFIX_FLAG else 0] @ u16_le (of_nat n)
     @ (if cm then put_varint (of_nat (length prefix)) @ prefix else [])"

lemma length_leaf_hdr: "length (leaf_hdr cm prefix n) = leaf_start cm prefix"
  by (simp add: leaf_hdr_def leaf_start_def LEAF_HDR_def)

lemma leaf_rep_hdr:
  "leaf_rep body cm prefix cells fin \<longleftrightarrow>
     length body < 2 ^ 16 \<and> at_pos body 0 (leaf_hdr cm prefix (length cells)) \<and> (\<not> cm \<longrightarrow> prefix = []) \<and>
     (\<forall>c\<in>set cells. take (length prefix) (lkey c) = prefix) \<and>
     at_pos body (leaf_start cm prefix) (concat (map (cell_bytes prefix) cells)) \<and>
     ptrs_at body 0 (map (off_of (cell_bytes prefix) (leaf_start cm prefix) cells) [0..<length cells]) \<and>
     fin = leaf_start cm prefix + length (concat (map (cell_bytes prefix) cells)) \<and>
     fin + 2 * length cells \<le> length body"
proof -
  have "at_pos body 0 (leaf_hdr cm prefix (length cells)) \<longleftrightarrow>
      at_pos body 0 ([TYPE_LEAF, if cm then LEAF_PREFIX_FLAG else 0] @ u16_le (of_nat (length cells)))
      \<and> (cm \<longrightarrow> at_pos body LEAF_HDR (put_varint (of_nat (length prefix)) @ prefix))"
    using at_pos_append [of body 0 "[TYPE_LEAF, if cm then LEAF_PREFIX_FLAG else 0] @ u16_le (of_nat (length cells))"
        "put_varint (of_nat (length prefix)) @ prefix"]
    by (cases cm) (simp_all add: leaf_hdr_def LEAF_HDR_def)
  then show ?thesis unfolding leaf_rep_def by auto
qed

definition leaf_plen :: "leaf_cell list \<Rightarrow> nat" where
  "leaf_plen cells = (if length cells \<ge> 2 then keys_lcp cells else 0)"

definition leaf_compresses :: "leaf_cell list \<Rightarrow> bool" where
  "leaf_compresses cells \<longleftrightarrow> leaf_plen cells \<ge> LEAF_MIN_PREFIX \<and> (\<forall>ks. lkey (hd cells) \<noteq> 0x04 # ks)"

definition leaf_prefix :: "leaf_cell list \<Rightarrow> bytes" where
  "leaf_prefix cells = (if leaf_compresses cells then take (leaf_plen cells) (lkey (hd cells)) else [])"

definition leaf_fin :: "leaf_cell list \<Rightarrow> nat" where
  "leaf_fin cells = leaf_start (leaf_compresses cells) (leaf_prefix cells)
     + length (concat (map (cell_bytes (leaf_prefix cells)) cells))"

lemma leaf_compresses_length: "leaf_compresses cells \<Longrightarrow> 2 \<le> length cells"
  by (auto simp: leaf_compresses_def leaf_plen_def LEAF_MIN_PREFIX_def split: if_splits)

lemma length_leaf_prefix: "leaf_compresses cells \<Longrightarrow> length (leaf_prefix cells) = leaf_plen cells"
  using keys_lcp_le [of cells] leaf_compresses_length [of cells] by (simp add: leaf_prefix_def leaf_plen_def)

lemma leaf_prefix_shared:
  "leaf_wf cells \<Longrightarrow> c \<in> set cells \<Longrightarrow> take (length (leaf_prefix cells)) (lkey c) = leaf_prefix cells"
  using keys_lcp_prefix [of cells c] length_leaf_prefix [of cells] leaf_compresses_length [of cells]
  by (cases "leaf_compresses cells") (simp_all add: leaf_prefix_def leaf_plen_def)

lemma blit_hdr4:
  assumes "4 \<le> length body"
  shows "blit (body[0 := x, 1 := y]) 2 (u16_le w) = blit body 0 ([x, y] @ u16_le w)"
proof -
  have "body \<noteq> []" using assms by auto
  then have "body[0 := x, 1 := y] = blit body 0 [x, y]"
    using assms blit_single [of 0 body x] blit_single [of 1 "blit body 0 [x]" y]
      blit_append [of 0 "[x]" "[y]" body] by simp
  then show ?thesis using assms blit_append [of 0 "[x, y]" "u16_le w" body] by (simp add: numeral_2_eq_2)
qed

lemma leaf_prefix_Nil: "\<not> leaf_compresses cells \<Longrightarrow> leaf_prefix cells = []"
  by (simp add: leaf_prefix_def)

lemma leaf_compresses_code:
  "leaf_compresses cells \<longleftrightarrow>
     leaf_plen cells \<ge> LEAF_MIN_PREFIX \<and>
     \<not> (case cells of [] \<Rightarrow> False | c # _ \<Rightarrow> (case lkey c of [] \<Rightarrow> False | b # _ \<Rightarrow> b = 0x04))"
proof (cases cells)
  case Nil
  then show ?thesis by (simp add: leaf_compresses_def leaf_plen_def LEAF_MIN_PREFIX_def)
qed (auto simp: leaf_compresses_def split: list.splits)

lemma leaf_fin_sizes:
  "leaf_compresses cells \<Longrightarrow> leaf_fin cells = LEAF_HDR + (varint_len (of_nat (leaf_plen cells)) + leaf_plen cells
     + sum_list (map (leaf_suffix_cell_size (leaf_plen cells)) cells))"
  "\<not> leaf_compresses cells \<Longrightarrow> leaf_fin cells = LEAF_HDR + sum_list (map leaf_cell_size cells)"
  by (simp_all add: leaf_fin_def leaf_start_def length_cells length_leaf_prefix length_put_varint
      leaf_prefix_Nil leaf_suffix_cell_size_0)

text \<open>The node that \<^verbatim>\<open>encode_leaf\<close> writes, in one form for both layouts.\<close>

definition leaf_written :: "leaf_cell list \<Rightarrow> bytes \<Rightarrow> bytes" where
  "leaf_written cells body =
     (let prefix = leaf_prefix cells; hdr = leaf_hdr (leaf_compresses cells) prefix (length cells);
          (b1, off) = write_cells (\<lambda>body off c. write_leaf_cell_at body off (drop (length prefix) (lkey c)) (lpayload c))
                          (blit body 0 hdr) 0 (length hdr) cells
      in blit b1 (leaf_fin cells) (replicate (length b1 - 2 * length cells - leaf_fin cells) 0))"

lemma encode_leaf_cases:
  "encode_leaf cells body =
     (if leaf_fin cells + 2 * length cells > length body then (False, body) else (True, leaf_written cells body))"
proof (cases "leaf_fin cells + 2 * length cells > length body")
  case True
  then show ?thesis
    by (cases "leaf_compresses cells")
      (simp_all add: encode_leaf_def leaf_fin_sizes Let_def flip: leaf_plen_def leaf_compresses_code)
next
  case fits: False
  then have 4: "4 \<le> length body" by (cases "leaf_compresses cells") (simp_all add: leaf_fin_sizes LEAF_HDR_def)
  show ?thesis
  proof (cases "leaf_compresses cells")
    case True
    let ?p = "leaf_prefix cells" and ?h = "[TYPE_LEAF, LEAF_PREFIX_FLAG] @ u16_le (of_nat (length cells))"
    let ?v = "put_varint (of_nat (leaf_plen cells))"
    have p: "length ?p = leaf_plen cells" "take (leaf_plen cells) (lkey (hd cells)) = ?p"
      using length_leaf_prefix [OF True] True by (simp_all add: leaf_prefix_def)
    have l: "4 + (length ?v + leaf_plen cells) \<le> length body"
      using fits leaf_fin_sizes(1) [OF True] by (simp add: LEAF_HDR_def length_put_varint)
    have "put_varint_at (blit body 0 ?h) LEAF_HDR (of_nat (leaf_plen cells)) = (blit body 0 (?h @ ?v), 4 + length ?v)"
      using l 4 blit_append [of 0 ?h ?v body] by (simp add: put_varint_at_blit LEAF_HDR_def)
    moreover have "blit (blit body 0 (?h @ ?v)) (4 + length ?v) ?p = blit body 0 (leaf_hdr True ?p (length cells))"
      using l blit_append [of 0 "?h @ ?v" ?p body] p by (simp add: leaf_hdr_def eval_nat_numeral)
    moreover have "length (leaf_hdr True ?p (length cells)) = 4 + length ?v + leaf_plen cells"
      using p by (simp add: leaf_hdr_def)
    ultimately show ?thesis
      using fits True leaf_fin_sizes(1) [OF True]
      by (simp add: encode_leaf_def leaf_written_def p blit_hdr4 [OF 4, simplified] Let_def
          split: prod.split flip: leaf_plen_def leaf_compresses_code)
  next
    case False
    then show ?thesis
      using fits leaf_fin_sizes(2) [OF False]
      by (simp add: encode_leaf_def leaf_written_def leaf_prefix_Nil leaf_hdr_def blit_hdr4 [OF 4, simplified]
          LEAF_HDR_def Let_def split: prod.split flip: leaf_plen_def leaf_compresses_code)
  qed
qed

lemma encode_leaf_rep:
  assumes "encode_leaf cells body = (True, body')" "leaf_wf cells" "length body < 2 ^ 16"
  shows "leaf_rep body' (leaf_compresses cells) (leaf_prefix cells) cells (leaf_fin cells)"
    and "length body' = length body"
proof -
  let ?cm = "leaf_compresses cells" and ?p = "leaf_prefix cells"
  let ?h = "leaf_hdr ?cm ?p (length cells)"
  obtain b1 off where fits: "leaf_fin cells + 2 * length cells \<le> length body"
    and w: "write_cells (\<lambda>body off c. write_leaf_cell_at body off (drop (length ?p) (lkey c)) (lpayload c))
        (blit body 0 ?h) 0 (length ?h) cells = (b1, off)"
    and b': "body' = blit b1 (leaf_fin cells) (replicate (length b1 - 2 * length cells - leaf_fin cells) 0)"
    using assms(1) unfolding encode_leaf_cases leaf_written_def Let_def by (auto split: if_splits prod.splits)
  have hl: "length ?h = leaf_start ?cm ?p" by (rule length_leaf_hdr)
  have hb: "length (blit body 0 ?h) = length body" "at_pos (blit body 0 ?h) 0 ?h"
    using fits hl by (simp_all add: leaf_fin_def blit_at_pos)
  note spec = write_node_spec [where enc = "cell_bytes ?p" and cs = cells and hdr = ?h, OF _ _ hb(2) w _ b']
  have "length body' = length body" "at_pos body' 0 ?h" "at_pos body' (length ?h) (concat (map (cell_bytes ?p) cells))"
    "ptrs_at body' 0 (map (off_of (cell_bytes ?p) (length ?h) cells) [0..<length cells])"
    using spec fits hl hb(1) by (simp_all add: leaf_fin_def write_leaf_cell_at_blit cell_bytes_def)
  then show "leaf_rep body' ?cm ?p cells (leaf_fin cells)" and "length body' = length body"
    using assms fits leaf_prefix_shared [OF assms(2)] unfolding leaf_rep_hdr hl
    by (simp_all add: leaf_fin_def leaf_prefix_def)
qed


end
