(* ===== verification/NodeRead.thy ===== *)
theory NodeRead
  imports NodeRep
begin

section \<open>Readers of a represented leaf\<close>

lemma get_varint_at: "at_pos body p (put_varint v) \<Longrightarrow> get_varint page body p = Inr (v, p + length (put_varint v))"
  by (simp add: get_varint_def take_varint_put)

lemma get_slice_at: "at_pos body p s \<Longrightarrow> length s = n \<Longrightarrow> get_slice page body p n = Inr (s, p + n)"
  using at_pos_range [of body p s] by (simp add: get_slice_def)

lemma get_u64_at: "at_pos body p (u64_le w) \<Longrightarrow> get_u64 page body p = Inr (w, p + 8)"
  by (simp add: get_u64_def get_slice_at [where s = "u64_le w"] le_val_u64_le)

definition payload_flag :: "payload \<Rightarrow> u8" where
  "payload_flag p = (case p of Inline _ \<Rightarrow> 0 | Overflow _ _ \<Rightarrow> CELL_OVERFLOW_FLAG)"

definition payload_bytes :: "payload \<Rightarrow> bytes" where
  "payload_bytes p = (case p of
       Inline v \<Rightarrow> put_varint (of_nat (length v)) @ v
     | Overflow total_len first \<Rightarrow> put_varint total_len @ u64_le first)"

lemma encode_leaf_cell_split:
  "encode_leaf_cell key p = [payload_flag p] @ put_varint (of_nat (length key)) @ key @ payload_bytes p"
  by (cases p) (simp_all add: encode_leaf_cell_def payload_flag_def payload_bytes_def)

lemma unat_len: "at_pos body p s \<Longrightarrow> length body < 2 ^ 16 \<Longrightarrow> unat (of_nat (length s) :: u64) = length s"
  using at_pos_le [of body p s] by (intro unat_of_nat_u64) simp

lemma leaf_key_at_cell:
  assumes a: "at_pos body off (encode_leaf_cell key p)" and l: "length body < 2 ^ 16"
  shows "leaf_key_at page body off
    = Inr (payload_flag p, key, off + 1 + length (put_varint (of_nat (length key))) + length key)"
proof -
  let ?k = "put_varint (of_nat (length key))"
  from a have c: "at_pos body off ([payload_flag p] @ ?k @ key @ payload_bytes p)"
    by (simp add: encode_leaf_cell_split)
  have s: "get_at body off = Some (payload_flag p)" "at_pos body (off + 1) ?k"
    "at_pos body (off + 1 + length ?k) key"
    using at_pos_get_at [OF c [unfolded append_Cons append_Nil]] c
    by (auto simp only: at_pos_append list.size add_0_right One_nat_def add_Suc_right add_Suc)
  show ?thesis
    using s by (simp add: leaf_key_at_def get_varint_at [OF s(2), simplified] unat_len [OF s(3) l]
        get_slice_at [OF s(3), simplified])
qed

lemma read_leaf_payload_at:
  assumes a: "at_pos body p (payload_bytes q)" and l: "length body < 2 ^ 16"
  shows "read_leaf_payload page body p (payload_flag q) = Inr (q, p + length (payload_bytes q))"
proof (cases q)
  case (Inline v)
  have s: "at_pos body p (put_varint (of_nat (length v)))" "at_pos body (p + length (put_varint (of_nat (length v)))) v"
    using a by (simp_all add: Inline payload_bytes_def at_pos_append)
  note g = get_varint_at [OF s(1), of page] get_slice_at [OF s(2) refl, of page] unat_len [OF s(2) l]
  show ?thesis
    by (simp add: read_leaf_payload_def payload_flag_def Inline payload_bytes_def g add.assoc)
next
  case (Overflow tot first)
  have s: "at_pos body p (put_varint tot)" "at_pos body (p + length (put_varint tot)) (u64_le first)"
    using a by (simp_all add: Overflow payload_bytes_def at_pos_append)
  note g = get_varint_at [OF s(1), of page] get_u64_at [OF s(2), of page]
  show ?thesis
    by (simp add: read_leaf_payload_def payload_flag_def Overflow CELL_OVERFLOW_FLAG_def g payload_bytes_def
        add.assoc)
qed

lemma skip_read_payload:
  "skip_leaf_payload page body p flags = rbind (read_leaf_payload page body p flags) (\<lambda>(_, pos). Inr pos)"
  by (simp add: skip_leaf_payload_def read_leaf_payload_def rbind_assoc case_prod_unfold)

lemma skip_leaf_payload_at:
  "at_pos body p (payload_bytes q) \<Longrightarrow> length body < 2 ^ 16 \<Longrightarrow>
   skip_leaf_payload page body p (payload_flag q) = Inr (p + length (payload_bytes q))"
  by (simp add: skip_read_payload read_leaf_payload_at)

lemma at_pos_u16: "at_pos body p (u16_le w) \<Longrightarrow> le_val [body ! p, body ! Suc p] = unat w"
proof -
  assume a: "at_pos body p (u16_le w)"
  obtain x y where w: "u16_le w = [x, y]"
    using u16_le_pair by blast
  have "body ! p = x" "body ! Suc p = y"
    using a unfolding w by (auto simp: at_pos_Cons [of _ _ x] at_pos_get)
  then show ?thesis using le_val_u16_le [of w] by (simp add: w)
qed

lemma leaf_rep_fields:
  assumes r: "leaf_rep body cm prefix cells fin"
  shows "body ! 0 = TYPE_LEAF" "leaf_is_compressed body = cm" "node_ncells body = length cells"
    "leaf_prefix_and_start page body = Inr (prefix, leaf_start cm prefix)"
    "length body < 2 ^ 16" "2 * length cells \<le> length body"
proof -
  show l: "length body < 2 ^ 16" and n: "2 * length cells \<le> length body" using r by (auto simp: leaf_rep_def)
  have h: "at_pos body 0 ([TYPE_LEAF] @ [if cm then LEAF_PREFIX_FLAG else 0] @ u16_le (of_nat (length cells)))"
    using r by (simp add: leaf_rep_def)
  then have h3: "at_pos body 0 [TYPE_LEAF]" "at_pos body 1 [if cm then LEAF_PREFIX_FLAG else 0]"
    "at_pos body 2 (u16_le (of_nat (length cells)))"
    by (simp_all only: at_pos_append list.size) (simp_all add: numeral_2_eq_2)
  show "body ! 0 = TYPE_LEAF" using h3(1) by (simp add: at_pos_get)
  show c: "leaf_is_compressed body = cm"
    using h3(2) by (simp add: at_pos_get leaf_is_compressed_def LEAF_PREFIX_FLAG_def)
  show "node_ncells body = length cells"
    using at_pos_u16 [OF h3(3)] n l by (simp add: node_ncells_def unat_of_nat_u16 numeral_3_eq_3)
  show "leaf_prefix_and_start page body = Inr (prefix, leaf_start cm prefix)"
  proof (cases cm)
    case True
    then have s: "at_pos body LEAF_HDR (put_varint (of_nat (length prefix)))"
      "at_pos body (LEAF_HDR + length (put_varint (of_nat (length prefix)))) prefix"
      using r by (simp_all add: leaf_rep_def at_pos_append)
    then show ?thesis
      using get_slice_at [OF s(2) refl] unat_len [OF s(2) l] True c
      by (simp add: leaf_prefix_and_start_def get_varint_at [OF s(1)] leaf_start_def)
  qed (use r c in \<open>simp add: leaf_prefix_and_start_def leaf_rep_def leaf_start_def\<close>)
qed

lemma at_pos_concat:
  assumes "at_pos body off (concat (map enc cs))" "i < length cs"
  shows "at_pos body (off_of enc off cs i) (enc (cs ! i))"
proof -
  have "concat (map enc cs) = concat (map enc (take i cs)) @ enc (cs ! i) @ concat (map enc (drop (Suc i) cs))"
    using assms(2) by (metis append_take_drop_id concat.simps(2) concat_append list.simps(9) map_append Cons_nth_drop_Suc)
  then show ?thesis using assms(1) by (simp add: at_pos_append off_of_def)
qed

lemma ptrs_at_cell_ptr:
  assumes "ptrs_at body 0 (map (off_of enc off cs) [0..<length cs])" "i < length cs"
    "off + length (concat (map enc cs)) + 2 * length cs \<le> length body" "length body < 2 ^ 16"
  shows "cell_ptr body i = Inr (off_of enc off cs i)"
proof -
  have "off_of enc off cs i < 2 ^ 16" using off_of_le [of enc off cs i] assms(3,4) by linarith
  moreover have "at_pos body (length body - 2 * (i + 1)) (u16_le (of_nat (off_of enc off cs i)))"
    using assms(1,2) by (auto simp: ptrs_at_def)
  ultimately show ?thesis using cell_ptr_at [of body i] assms(2,3) by (simp add: unat_of_nat_u16)
qed

lemma leaf_rep_cell:
  assumes r: "leaf_rep body cm prefix cells fin" and i: "i < length cells"
  shows "\<exists>off. cell_ptr body i = Inr off \<and> at_pos body off (cell_bytes prefix (cells ! i))"
  using ptrs_at_cell_ptr [of body "cell_bytes prefix"] at_pos_concat [of body _ "cell_bytes prefix" cells i] r i
  by (auto simp: leaf_rep_def)

lemma leaf_rep_suffix:
  assumes "leaf_rep body cm prefix cells fin" "i < length cells"
  shows "leaf_suffix_at page body i = Inr (drop (length prefix) (lkey (cells ! i)))"
proof -
  obtain off where "cell_ptr body i = Inr off" "at_pos body off (cell_bytes prefix (cells ! i))"
    using leaf_rep_cell [OF assms] by blast
  then show ?thesis using leaf_rep_fields(5) [OF assms(1)]
    by (simp add: leaf_suffix_at_def cell_bytes_def leaf_key_at_cell)
qed

lemma leaf_rep_prefix:
  "leaf_rep body cm prefix cells fin \<Longrightarrow> i < length cells \<Longrightarrow>
   lkey (cells ! i) = prefix @ drop (length prefix) (lkey (cells ! i))"
  by (auto simp: leaf_rep_def) (metis append_take_drop_id nth_mem)

lemma leaf_cell_at_rep:
  assumes "leaf_rep body cm prefix cells fin" "i < length cells"
  shows "leaf_cell_at page body i = Inr (lkey (cells ! i), lpayload (cells ! i))"
proof -
  let ?c = "cells ! i"
  let ?k = "drop (length prefix) (lkey ?c)"
  obtain off where o: "cell_ptr body i = Inr off" "at_pos body off (cell_bytes prefix ?c)"
    using leaf_rep_cell [OF assms] by blast
  have l: "length body < 2 ^ 16" using leaf_rep_fields(5) [OF assms(1)] .
  have "at_pos body (off + 1 + length (put_varint (of_nat (length ?k))) + length ?k) (payload_bytes (lpayload ?c))"
    using o(2) unfolding cell_bytes_def encode_leaf_cell_split at_pos_append by simp
  from read_leaf_payload_at [OF this l] show ?thesis
    using o leaf_key_at_cell [OF o(2) [unfolded cell_bytes_def] l] leaf_rep_prefix [OF assms]
      leaf_rep_fields(4) [OF assms(1), of page]
    by (simp add: leaf_cell_at_def)
qed

end
