(* ===== verification/NodeSearch.thy ===== *)
theory NodeSearch
  imports NodeRead
begin

text \<open>
  Every in-page search of a represented, ordered node is a function of its cells: the whole-node
  decoders return them, the searches are \<open>map_of\<close>, a lower bound and a partition point of them, and
  the prefix walk emits exactly the keys with the prefix.
\<close>

section \<open>Whole-node decoders\<close>

lemma cell_pieces:
  assumes "at_pos body p (encode_leaf_cell k q)"
  shows "get_at body p = Some (payload_flag q)" "at_pos body (p + 1) (put_varint (of_nat (length k)))"
    "at_pos body (p + 1 + length (put_varint (of_nat (length k)))) k"
    "at_pos body (p + 1 + length (put_varint (of_nat (length k))) + length k) (payload_bytes q)"
proof -
  let ?v = "put_varint (of_nat (length k)) :: bytes"
  have c: "at_pos body p ([payload_flag q] @ ?v @ k @ payload_bytes q)"
    using assms by (simp add: encode_leaf_cell_split)
  show "get_at body p = Some (payload_flag q)" "at_pos body (p + 1) ?v"
    "at_pos body (p + 1 + length ?v) k" "at_pos body (p + 1 + length ?v + length k) (payload_bytes q)"
    using at_pos_get_at [OF c [unfolded append_Cons append_Nil]] c
    by (auto simp only: at_pos_append list.size add_0_right One_nat_def add_Suc_right add_Suc)
qed

lemma length_cell_pieces:
  "length (encode_leaf_cell k q) = 1 + length (put_varint (of_nat (length k))) + length k + length (payload_bytes q)"
  by (simp add: encode_leaf_cell_split)

lemmas parse_leaf_loop_Suc = parse_leaf_loop.simps(2) [folded read_leaf_payload_def]

lemma parse_leaf_loop_at:
  assumes "length body < 2 ^ 16"
  shows "at_pos body p (concat (map (cell_bytes prefix) cells)) \<Longrightarrow>
    (\<forall>c\<in>set cells. take (length prefix) (lkey c) = prefix) \<Longrightarrow> leaf_wf cells \<Longrightarrow>
    (\<forall>q c. prev = Some q \<longrightarrow> c \<in> set cells \<longrightarrow> q < lkey c) \<Longrightarrow>
    parse_leaf_loop page body prefix (length cells) p prev = Inr cells"
proof (induction cells arbitrary: p prev)
  case (Cons c cs)
  let ?k = "drop (length prefix) (lkey c)" and ?q = "lpayload c"
  have key: "prefix @ ?k = lkey c" using Cons.prems(2) by (metis append_take_drop_id list.set_intros(1))
  have c: "at_pos body p (encode_leaf_cell ?k ?q)"
    using Cons.prems(1) by (simp add: at_pos_append cell_bytes_def)
  note s = cell_pieces [OF c]
  note g = get_varint_at [OF s(2), of page] get_slice_at [OF s(3) refl, of page] unat_len [OF s(3) assms]
    read_leaf_payload_at [OF s(4) assms, of page]
  let ?v = "put_varint (of_nat (length ?k)) :: bytes"
  let ?p' = "p + 1 + length ?v + length ?k + length (payload_bytes ?q)"
  have next_pos: "at_pos body ?p' (concat (map (cell_bytes prefix) cs))"
    using Cons.prems(1) length_cell_pieces [of ?k ?q, folded cell_bytes_def]
    by (simp add: at_pos_append add.assoc)
  have order: "\<forall>q d. Some (lkey c) = Some q \<longrightarrow> d \<in> set cs \<longrightarrow> q < lkey d"
    using Cons.prems(3) by (auto simp: leaf_wf_def)
  have "parse_leaf_loop page body prefix (length cs) ?p' (Some (lkey c)) = Inr cs"
    by (rule Cons.IH [OF next_pos _ _ order]) (use Cons.prems(2,3) in \<open>auto simp: leaf_wf_def\<close>)
  moreover have "lkey c \<noteq> []" "\<not> (case prev of None \<Rightarrow> False | Some q \<Rightarrow> q \<ge> lkey c)"
    using Cons.prems(3,4) by (auto simp: leaf_wf_def not_le split: option.split)
  ultimately show ?case
    by (cases prev) (simp_all add: s(1) g [simplified] key Let_def parse_leaf_loop_Suc del: parse_leaf_loop.simps(2))
qed simp

lemma parse_leaf_rep:
  assumes "leaf_rep body cm prefix cells fin" "leaf_wf cells"
  shows "parse_leaf page body = Inr cells"
  using leaf_rep_fields [OF assms(1)] parse_leaf_loop_at [of body _ prefix cells None page] assms
  by (simp add: parse_leaf_def leaf_rep_def)

section \<open>Binary search\<close>

lemma bisect_spec:
  assumes "\<And>i. lo \<le> i \<Longrightarrow> i < hi \<Longrightarrow> probe i = Inr (P i)" "lo \<le> hi"
    and "\<And>i j. i \<le> j \<Longrightarrow> j < hi \<Longrightarrow> P j \<Longrightarrow> P i"
  shows "\<exists>m. bisect probe lo hi = Inr m \<and> lo \<le> m \<and> m \<le> hi \<and>
    (\<forall>i. lo \<le> i \<and> i < m \<longrightarrow> P i) \<and> (\<forall>i. m \<le> i \<and> i < hi \<longrightarrow> \<not> P i)"
  using assms
proof (induction probe lo hi rule: bisect.induct)
  case (1 probe lo hi)
  show ?case
  proof (cases "lo < hi")
    case False
    then show ?thesis using "1.prems"(2) by (auto simp: bisect.simps)
  next
    case True
    define mid where "mid = lo + (hi - lo) div 2"
    have mid: "lo \<le> mid" "mid < hi" using True by (auto simp: mid_def)
    then have p: "probe mid = Inr (P mid)" using "1.prems"(1) by simp
    show ?thesis
    proof (cases "P mid")
      case right: True
      have "\<exists>m. bisect probe (mid + 1) hi = Inr m \<and> mid + 1 \<le> m \<and> m \<le> hi \<and>
          (\<forall>i. mid + 1 \<le> i \<and> i < m \<longrightarrow> P i) \<and> (\<forall>i. m \<le> i \<and> i < hi \<longrightarrow> \<not> P i)"
        using "1.IH"(1) [OF True mid_def p] "1.prems" mid right by auto
      then obtain m where m: "bisect probe (mid + 1) hi = Inr m" "mid + 1 \<le> m" "m \<le> hi"
        "\<forall>i. mid + 1 \<le> i \<and> i < m \<longrightarrow> P i" "\<forall>i. m \<le> i \<and> i < hi \<longrightarrow> \<not> P i" by blast
      have "P i" if "i < m" for i
        using that m(4) "1.prems"(3) [of i mid] mid right by (cases "mid < i") auto
      moreover have "bisect probe lo hi = Inr m"
        using True p right m(1) by (subst bisect.simps) (simp add: Let_def flip: mid_def)
      ultimately show ?thesis using m mid by auto
    next
      case left: False
      have "\<exists>m. bisect probe lo mid = Inr m \<and> lo \<le> m \<and> m \<le> mid \<and>
          (\<forall>i. lo \<le> i \<and> i < m \<longrightarrow> P i) \<and> (\<forall>i. m \<le> i \<and> i < mid \<longrightarrow> \<not> P i)"
        using "1.IH"(2) [OF True mid_def p] "1.prems" mid left by auto
      then obtain m where m: "bisect probe lo mid = Inr m" "lo \<le> m" "m \<le> mid"
        "\<forall>i. lo \<le> i \<and> i < m \<longrightarrow> P i" "\<forall>i. m \<le> i \<and> i < mid \<longrightarrow> \<not> P i" by blast
      have "\<not> P i" if "m \<le> i" "i < hi" for i
        using that m(5) "1.prems"(3) [of mid i] mid left by (cases "i < mid") auto
      moreover have "bisect probe lo hi = Inr m"
        using True p left m(1) by (subst bisect.simps) (simp add: Let_def flip: mid_def)
      ultimately show ?thesis using m mid by auto
    qed
  qed
qed

text \<open>Over a list whose elements satisfy \<open>P\<close> on an initial segment, the search finds its length.\<close>

lemma bisect_takeWhile:
  assumes "\<And>i. i < length cs \<Longrightarrow> probe i = Inr (P (cs ! i))"
    and "\<And>i j. i \<le> j \<Longrightarrow> j < length cs \<Longrightarrow> P (cs ! j) \<Longrightarrow> P (cs ! i)"
  shows "bisect probe 0 (length cs) = Inr (length (takeWhile P cs))"
proof -
  obtain m where m: "bisect probe 0 (length cs) = Inr m" "m \<le> length cs"
    "\<forall>i<m. P (cs ! i)" "\<forall>i. m \<le> i \<and> i < length cs \<longrightarrow> \<not> P (cs ! i)"
    using bisect_spec [of 0 "length cs" probe "\<lambda>i. P (cs ! i)"] assms by auto
  have "takeWhile P cs = take m cs"
    using m by (intro takeWhile_eq_take_P_nth) auto
  then show ?thesis using m by simp
qed


section \<open>Comparisons through the common prefix\<close>

lemma take_less:
  "length u = length v \<Longrightarrow> u < v \<Longrightarrow> (u :: bytes) @ x < v @ y"
  by (induction u v rule: list_induct2) auto

lemma append_mono_le [simp]: "(p :: bytes) @ x \<le> p @ y \<longleftrightarrow> x \<le> y"
  by (simp flip: not_less)

lemma cmp_prefix_cases:
  obtains
    (below) "cmp_prefix prefix target = Below" "\<And>s. target < prefix @ s"
  | (above) "cmp_prefix prefix target = Above" "\<And>s. prefix @ s < target"
  | (within) r where "cmp_prefix prefix target = Within r" "target = prefix @ r"
proof -
  define n where "n = min (length prefix) (length target)"
  have p: "prefix = take n prefix @ drop n prefix" and t: "target = take n target @ drop n target" by simp_all
  have l: "length (take n prefix) = length (take n target)" by (simp add: n_def)
  consider "take n target < take n prefix" | "take n prefix < take n target" | "take n prefix = take n target"
    by fastforce
  then show thesis
  proof cases
    case 1
    have "target < prefix @ s" for s
      using take_less [OF l [symmetric] 1, of "drop n target" "drop n prefix @ s"] by (simp flip: append_assoc)
    then show ?thesis using 1 below by (simp add: cmp_prefix_def n_def)
  next
    case 2
    have "prefix @ s < target" for s
      using take_less [OF l 2, of "drop n prefix @ s" "drop n target"] by (simp flip: append_assoc)
    then show ?thesis using 2 above by (simp add: cmp_prefix_def n_def Let_def)
  next
    case 3
    show ?thesis
    proof (cases "length target < length prefix")
      case True
      then have "target = take (length target) prefix" using 3 by (simp add: n_def)
      then obtain q where q: "prefix = target @ q" "q \<noteq> []"
        using True by (metis append_take_drop_id length_append add_0_right list.size(3) nat_neq_iff)
      then have "[] < q @ s" for s by (cases q) auto
      then have "target < prefix @ s" for s using lex_append_same [of target "[]" "q @ s"] q by simp
      then show ?thesis using 3 True below by (simp add: cmp_prefix_def n_def Let_def)
    next
      case False
      then have "target = prefix @ drop (length prefix) target"
        using 3 by (metis append_take_drop_id min.absorb1 n_def not_le_imp_less less_imp_le nat_le_linear take_all order_refl)
      then show ?thesis using 3 False within [of "drop (length prefix) target"] by (simp add: cmp_prefix_def n_def Let_def)
    qed
  qed
qed

lemma leaf_wf_sorted:
  "leaf_wf cells \<Longrightarrow> i \<le> j \<Longrightarrow> j < length cells \<Longrightarrow> lkey (cells ! i) \<le> lkey (cells ! j)"
  unfolding leaf_wf_def by (cases "i = j") (auto simp: sorted_wrt_iff_nth_less intro: less_imp_le)

lemma leaf_wf_less:
  "leaf_wf cells \<Longrightarrow> i < j \<Longrightarrow> j < length cells \<Longrightarrow> lkey (cells ! i) < lkey (cells ! j)"
  unfolding leaf_wf_def by (auto simp: sorted_wrt_iff_nth_less)

lemma takeWhile_all: "(\<And>i. i < length cs \<Longrightarrow> P (cs ! i)) \<Longrightarrow> takeWhile P cs = cs"
  by (auto simp: takeWhile_eq_all_conv in_set_conv_nth)

lemma takeWhile_none:
  assumes "\<And>i. i < length cs \<Longrightarrow> \<not> P (cs ! i)"
  shows "takeWhile P cs = []"
  using assms [of 0] by (cases cs) auto

lemma leaf_lower_bound_rep:
  assumes r: "leaf_rep body cm prefix cells fin" and w: "leaf_wf cells"
  shows "leaf_lower_bound page body key = Inr (length (takeWhile (\<lambda>c. lkey c < key) cells))"
proof -
  have k: "\<exists>s. lkey (cells ! i) = prefix @ s" if "i < length cells" for i
    using leaf_rep_prefix [OF r that] by blast
  note f = leaf_rep_fields [OF r]
  show ?thesis
  proof (cases rule: cmp_prefix_cases [of prefix key])
    case below
    then have "takeWhile (\<lambda>c. lkey c < key) cells = []"
      using k by (intro takeWhile_none) (metis less_asym)
    then show ?thesis using below(1) f by (simp add: leaf_lower_bound_def Let_def)
  next
    case above
    then have "length (takeWhile (\<lambda>c. lkey c < key) cells) = length cells"
      using k by (intro arg_cong [where f = length] takeWhile_all) metis
    then show ?thesis using above(1) f by (simp add: leaf_lower_bound_def Let_def)
  next
    case (within rest)
    have "bisect (\<lambda>mid. rbind (leaf_suffix_at page body mid) (\<lambda>suffix. Inr (suffix < rest))) 0 (length cells)
        = Inr (length (takeWhile (\<lambda>c. lkey c < key) cells))"
    proof (rule bisect_takeWhile)
      fix i assume i: "i < length cells"
      have "drop (length prefix) (lkey (cells ! i)) < rest \<longleftrightarrow> lkey (cells ! i) < key"
        unfolding within(2) by (subst (2) leaf_rep_prefix [OF r i]) simp
      then show "rbind (leaf_suffix_at page body i) (\<lambda>suffix. Inr (suffix < rest)) = Inr (lkey (cells ! i) < key)"
        by (simp add: leaf_rep_suffix [OF r i])
    next
      fix i j assume "i \<le> j" "j < length cells" "lkey (cells ! j) < key"
      then show "lkey (cells ! i) < key" using leaf_wf_sorted [OF w] le_less_trans by blast
    qed
    then show ?thesis using within(1) f by (simp add: leaf_lower_bound_def Let_def)
  qed
qed


section \<open>Exact search\<close>

definition cells_map :: "leaf_cell list \<Rightarrow> bytes \<rightharpoonup> payload" where
  "cells_map cells = map_of (map (\<lambda>c. (lkey c, lpayload c)) cells)"

lemma cells_map_None: "cells_map cells k = None \<longleftrightarrow> k \<notin> lkey ` set cells"
  by (auto simp: cells_map_def map_of_eq_None_iff image_image)

lemma leaf_wf_inj: "leaf_wf cells \<Longrightarrow> i < length cells \<Longrightarrow> j < length cells \<Longrightarrow>
    lkey (cells ! i) = lkey (cells ! j) \<Longrightarrow> i = j"
  using leaf_wf_less [of cells i j] leaf_wf_less [of cells j i] by (cases i j rule: linorder_cases) auto

lemma leaf_wf_distinct: "leaf_wf cells \<Longrightarrow> distinct (map lkey cells)"
  using leaf_wf_inj by (auto simp: distinct_conv_nth)

lemma cells_map_nth: "leaf_wf cells \<Longrightarrow> i < length cells \<Longrightarrow> cells_map cells (lkey (cells ! i)) = Some (lpayload (cells ! i))"
  unfolding cells_map_def
  by (rule map_of_is_SomeI) (auto simp: leaf_wf_distinct o_def intro!: image_eqI [where x = "cells ! i"])

text \<open>Reading the cell at a probed index, and what the search loop returns.\<close>

lemma leaf_rep_key_at:
  assumes "leaf_rep body cm prefix cells fin" "i < length cells"
  shows "\<exists>pos. rbind (cell_ptr body i) (leaf_key_at page body)
      = Inr (payload_flag (lpayload (cells ! i)), drop (length prefix) (lkey (cells ! i)), pos)
    \<and> at_pos body pos (payload_bytes (lpayload (cells ! i)))"
proof -
  obtain off where o: "cell_ptr body i = Inr off" "at_pos body off (cell_bytes prefix (cells ! i))"
    using leaf_rep_cell [OF assms] by blast
  note o2 = o(2) [unfolded cell_bytes_def]
  show ?thesis
    using leaf_key_at_cell [OF o2 leaf_rep_fields(5) [OF assms(1)], of page] cell_pieces(4) [OF o2] o(1) by simp
qed

lemma seek_loop_spec:
  assumes r: "leaf_rep body cm prefix cells fin" and w: "leaf_wf cells"
  shows "hi \<le> length cells \<Longrightarrow>
    (\<forall>j. j < length cells \<and> lkey (cells ! j) = prefix @ krest \<longrightarrow> lo \<le> j \<and> j < hi) \<Longrightarrow>
    \<exists>res. seek_loop page body krest lo hi = Inr res \<and>
      (case res of
         None \<Rightarrow> cells_map cells (prefix @ krest) = None
       | Some (pos, flags) \<Rightarrow> \<exists>q. cells_map cells (prefix @ krest) = Some q \<and> flags = payload_flag q
           \<and> at_pos body pos (payload_bytes q))"
proof (induction "hi - lo" arbitrary: lo hi rule: less_induct)
  case less
  show ?case
  proof (cases "lo < hi")
    case False
    then have "cells_map cells (prefix @ krest) = None"
      using less.prems(2) by (auto simp: cells_map_None in_set_conv_nth) (metis le_less_trans leD)
    then show ?thesis using False by (simp add: seek_loop.simps)
  next
    case True
    define mid where "mid = lo + (hi - lo) div 2"
    have mid: "lo \<le> mid" "mid < hi" using True by (auto simp: mid_def)
    then have ml: "mid < length cells" using less.prems(1) by simp
    obtain pos where pos: "rbind (cell_ptr body mid) (leaf_key_at page body)
        = Inr (payload_flag (lpayload (cells ! mid)), drop (length prefix) (lkey (cells ! mid)), pos)"
      "at_pos body pos (payload_bytes (lpayload (cells ! mid)))"
      using leaf_rep_key_at [OF r ml] by blast
    define suf where "suf = drop (length prefix) (lkey (cells ! mid))"
    have key: "lkey (cells ! mid) = prefix @ suf" using leaf_rep_prefix [OF r ml] by (simp add: suf_def)
    note step = seek_loop.simps [of page body krest lo hi] Let_def mid_def [symmetric] pos(1) suf_def [symmetric]
    consider "suf = krest" | "suf < krest" | "krest < suf" by fastforce
    then show ?thesis
    proof cases
      case 1
      then show ?thesis using True pos(2) cells_map_nth [OF w ml] key by (simp add: step)
    next
      case 2
      have "mid + 1 \<le> j \<and> j < hi" if "j < length cells" "lkey (cells ! j) = prefix @ krest" for j
        using that less.prems(2) leaf_wf_sorted [OF w, of j mid] ml 2 key by (cases "j \<le> mid") auto
      then show ?thesis
        using less.hyps [of hi "mid + 1"] less.prems(1) mid True 2 less_imp_neq [OF 2] by (simp add: step)
    next
      case 3
      have "lo \<le> j \<and> j < mid" if "j < length cells" "lkey (cells ! j) = prefix @ krest" for j
        using that less.prems(2) leaf_wf_sorted [OF w, of mid j] ml 3 key by (cases "mid \<le> j") auto
      then show ?thesis
        using less.hyps [of mid lo] less.prems(1) mid True 3 less_imp_neq [OF 3] less_not_sym [OF 3]
        by (simp add: step)
    qed
  qed
qed


lemma leaf_seek_rep:
  assumes r: "leaf_rep body cm prefix cells fin" and w: "leaf_wf cells"
  shows "\<exists>res. leaf_seek page body key = Inr res \<and>
    (case res of
       None \<Rightarrow> cells_map cells key = None
     | Some (pos, flags) \<Rightarrow> \<exists>q. cells_map cells key = Some q \<and> flags = payload_flag q
         \<and> at_pos body pos (payload_bytes q))"
proof -
  note f = leaf_rep_fields [OF r]
  have none: "cells_map cells key = None" if "\<And>s. prefix @ s \<noteq> key"
    using that leaf_rep_prefix [OF r] by (auto simp: cells_map_None in_set_conv_nth) metis
  show ?thesis
  proof (cases rule: cmp_prefix_cases [of prefix key])
    case below
    then have "cells_map cells key = None" by (intro none) (metis less_irrefl)
    then show ?thesis using below(1) f by (simp add: leaf_seek_def)
  next
    case above
    then have "cells_map cells key = None" by (intro none) (metis less_irrefl)
    then show ?thesis using above(1) f by (simp add: leaf_seek_def)
  next
    case (within rest)
    then show ?thesis
      using f seek_loop_spec [OF r w, of "length cells" rest 0 page] unfolding within(2) by (simp add: leaf_seek_def)
  qed
qed

lemma leaf_find_rep:
  assumes "leaf_rep body cm prefix cells fin" "leaf_wf cells"
  shows "leaf_find page body key = Inr (cells_map cells key)"
proof -
  obtain res where res: "leaf_seek page body key = Inr res" "case res of None \<Rightarrow> cells_map cells key = None
     | Some (pos, flags) \<Rightarrow> \<exists>q. cells_map cells key = Some q \<and> flags = payload_flag q
         \<and> at_pos body pos (payload_bytes q)"
    using leaf_seek_rep [OF assms, of page key] by blast
  then show ?thesis
    using read_leaf_payload_at [OF _ leaf_rep_fields(5) [OF assms(1)]]
    by (cases res) (auto simp: leaf_find_def)
qed

lemma leaf_contains_rep:
  assumes "leaf_rep body cm prefix cells fin" "leaf_wf cells"
  shows "leaf_contains page body key = Inr (cells_map cells key \<noteq> None)"
  using leaf_seek_rep [OF assms, of page key] by (auto simp: leaf_contains_def split: option.splits)

section \<open>The prefix walk\<close>

text \<open>
  The keys it emits are those with the searched prefix; \<open>f\<close> is folded over them, and the flag says
  that the block may go on in the next leaf: no key of this leaf lies beyond the block.
\<close>

definition has_prefix :: "bytes \<Rightarrow> bytes \<Rightarrow> bool" where
  "has_prefix p k \<longleftrightarrow> take (length p) k = p"

fun fold_res :: "('a \<Rightarrow> 's \<Rightarrow> 'e + 's) \<Rightarrow> 'a list \<Rightarrow> 's \<Rightarrow> 'e + 's" where
  "fold_res f [] s = Inr s"
| "fold_res f (x # xs) s = rbind (f x s) (fold_res f xs)"

lemma fold_res_append: "fold_res f (xs @ ys) s = rbind (fold_res f xs s) (fold_res f ys)"
proof (induction xs arbitrary: s)
  case (Cons x xs)
  have "fold_res f (xs @ ys) = (\<lambda>s. rbind (fold_res f xs s) (fold_res f ys))" by (rule ext) (rule Cons.IH)
  then show ?case by (simp add: rbind_assoc)
qed simp

lemma has_prefix_iff: "has_prefix p k \<longleftrightarrow> (\<exists>s. k = p @ s)"
  unfolding has_prefix_def by (metis append_eq_conv_conj append_take_drop_id)

lemma emit_range_rep:
  assumes r: "leaf_rep body cm prefix cells fin"
  shows "\<forall>i\<in>set is. i < length cells \<Longrightarrow>
    emit_range page body prefix f is s = fold_res f (map (\<lambda>i. lkey (cells ! i)) is) s"
proof (induction "is" arbitrary: s)
  case (Cons i "is")
  then show ?case
    using leaf_rep_suffix [OF r, of i page] leaf_rep_prefix [OF r, of i]
    by (cases "f (lkey (cells ! i)) s") simp_all
qed simp

text \<open>With a prefix longer than the leaf's, the walk goes on while the keys have it.\<close>

lemma emit_while_rep:
  assumes r: "leaf_rep body cm prefix cells fin"
  shows "lo \<le> length cells \<Longrightarrow>
    emit_while page body prefix srest f [lo..<length cells] s
    = (let ks = map lkey (drop lo cells); m = takeWhile (has_prefix (prefix @ srest)) ks in
       rbind (fold_res f m s) (\<lambda>s. Inr (m = ks, s)))"
proof (induction "length cells - lo" arbitrary: lo s)
  case 0
  then show ?case by simp
next
  case (Suc n)
  then have lo: "lo < length cells" by simp
  let ?c = "cells ! lo"
  let ?suf = "drop (length prefix) (lkey ?c)"
  have d: "drop lo cells = ?c # drop (Suc lo) cells" using lo by (simp add: Cons_nth_drop_Suc)
  have u: "[lo..<length cells] = lo # [Suc lo..<length cells]" using lo by (simp add: upt_conv_Cons)
  have k: "prefix @ ?suf = lkey ?c" using leaf_rep_prefix [OF r lo] by simp
  have p: "has_prefix (prefix @ srest) (lkey ?c) \<longleftrightarrow> take (length srest) ?suf = srest"
    by (subst k [symmetric]) (simp add: has_prefix_def)
  have IH: "emit_while page body prefix srest f [Suc lo..<length cells] s'
      = (let ks = map lkey (drop (Suc lo) cells); m = takeWhile (has_prefix (prefix @ srest)) ks in
       rbind (fold_res f m s') (\<lambda>s. Inr (m = ks, s)))" for s'
    using Suc.hyps(1) [of "Suc lo" s'] Suc.hyps(2) lo by simp
  show ?case
    unfolding u d using leaf_rep_suffix [OF r lo, of page] k
    by (cases "f (lkey ?c) s") (simp_all add: p IH Let_def)
qed


lemma between_has_prefix:
  assumes "q \<le> k" "k \<le> q @ (s :: bytes)"
  shows "has_prefix q k"
proof -
  have "lcp_loop q (q @ s) = length q" by (induction q) simp_all
  then show ?thesis using between_prefix [OF assms] by (simp add: has_prefix_def)
qed

lemma has_prefix_ge: "has_prefix q k \<Longrightarrow> q \<le> (k :: bytes)"
  using append_mono_le [of q "[]"] by (auto simp: has_prefix_iff)

lemma filter_prefix_block:
  "sorted_wrt (<) ks \<Longrightarrow> filter (has_prefix q) ks = takeWhile (has_prefix q) (dropWhile (\<lambda>k. k < q) ks)"
proof (induction ks)
  case (Cons k ks)
  show ?case
  proof (cases "k < q")
    case True
    then show ?thesis using Cons has_prefix_ge [of q k] by auto
  next
    case False
    then have ge: "\<forall>x\<in>set ks. q \<le> x \<and> \<not> x < q" using Cons.prems by fastforce
    then have d: "dropWhile (\<lambda>k. k < q) ks = ks" by (cases ks) auto
    have "filter (has_prefix q) ks = []" if "\<not> has_prefix q k"
    proof -
      have "\<not> has_prefix q x" if "x \<in> set ks" for x
      proof
        assume "has_prefix q x"
        then obtain s where "x = q @ s" by (auto simp: has_prefix_iff)
        moreover have "k < x" using Cons.prems that by simp
        ultimately show False using False \<open>\<not> has_prefix q k\<close> between_has_prefix [of q k s] by auto
      qed
      then show ?thesis by (simp add: filter_empty_conv)
    qed
    then show ?thesis using False Cons d by auto
  qed
qed simp

lemma set_dropWhile_sorted:
  "sorted_wrt (<) ks \<Longrightarrow> set (dropWhile (\<lambda>k. k < q) ks) = {k \<in> set ks. \<not> k < (q :: bytes)}"
  by (induction ks) auto

lemma cmp_prefix_append: "cmp_prefix p (p @ u) = Within u"
  by (simp add: cmp_prefix_def)

text \<open>When neither of leaf prefix and searched prefix extends the other, nothing matches.\<close>

lemma leaf_for_each_prefix_apart:
  assumes r: "leaf_rep body cm prefix cells fin"
    and a: "\<And>u. q \<noteq> prefix @ u" "\<And>t. prefix \<noteq> q @ t"
  shows "leaf_for_each_prefix page body q f s = Inr (q > prefix, s)"
    and "filter (has_prefix q) (map lkey cells) = []"
proof -
  have "take (length q) prefix \<noteq> q" "take (length prefix) q \<noteq> prefix"
    using a by (metis append_take_drop_id)+
  then show "leaf_for_each_prefix page body q f s = Inr (q > prefix, s)"
    using leaf_rep_fields [OF r] by (simp add: leaf_for_each_prefix_def Let_def)
  have "\<not> has_prefix q (lkey (cells ! i))" if "i < length cells" for i
    using a leaf_rep_prefix [OF r that] unfolding has_prefix_iff by (metis append_eq_append_conv2)
  then show "filter (has_prefix q) (map lkey cells) = []"
    by (auto simp: filter_empty_conv in_set_conv_nth)
qed

lemma leaf_for_each_prefix_rep:
  assumes r: "leaf_rep body cm prefix cells fin" and w: "leaf_wf cells" and ne: "prefix \<noteq> [] \<Longrightarrow> cells \<noteq> []"
  shows "leaf_for_each_prefix page body q f s =
    rbind (fold_res f (filter (has_prefix q) (map lkey cells)) s)
      (\<lambda>s. Inr (\<forall>k\<in>lkey ` set cells. k < q \<or> has_prefix q k, s))"
proof -
  note fs = leaf_rep_fields [OF r]
  have key: "\<exists>s. k = prefix @ s" if "k \<in> lkey ` set cells" for k
  proof -
    from that obtain i where "i < length cells" "k = lkey (cells ! i)" by (metis image_iff in_set_conv_nth)
    then show ?thesis using leaf_rep_prefix [OF r] by metis
  qed
  consider (all) t where "prefix = q @ t"
    | (rest) srest where "q = prefix @ srest" "srest \<noteq> []"
    | (low) "cmp_prefix prefix q = Below" "\<And>t. prefix \<noteq> q @ t" "\<And>t. q < prefix @ t"
    | (high) "cmp_prefix prefix q = Above" "\<And>t. prefix @ t < q"
  proof (cases rule: cmp_prefix_cases [of prefix q])
    case below
    then show ?thesis using that(1,3) by blast
  next
    case above
    then show ?thesis using that(4) by blast
  next
    case (within u)
    then show ?thesis using that(1) [of "[]"] that(2) [of u] by (cases "u = []") auto
  qed
  then show ?thesis
  proof cases
    case all
    have m: "\<forall>k\<in>lkey ` set cells. has_prefix q k" using key by (force simp: all has_prefix_iff)
    have "emit_range page body prefix f [0..<length cells] s = fold_res f (map lkey cells) s"
      using emit_range_rep [OF r, of "[0..<length cells]" page f s] map_nth_upt [of lkey cells]
      by (simp add: o_def)
    then show ?thesis using m fs by (simp add: leaf_for_each_prefix_def all Let_def filter_True)
  next
    case (rest srest)
    have ks: "sorted_wrt (<) (map lkey cells)" using w by (simp add: leaf_wf_def sorted_wrt_map)
    define lo where "lo = length (takeWhile (\<lambda>c. lkey c < q) cells)"
    have lo: "lo \<le> length cells" by (simp add: lo_def length_takeWhile_le)
    have b: "bisect (\<lambda>mid. rbind (leaf_suffix_at page body mid) (\<lambda>suffix. Inr (suffix < srest))) 0 (length cells) = Inr lo"
      unfolding lo_def
    proof (rule bisect_takeWhile)
      fix i assume i: "i < length cells"
      have "drop (length prefix) (lkey (cells ! i)) < srest \<longleftrightarrow> lkey (cells ! i) < q"
        unfolding rest(1) by (subst (2) leaf_rep_prefix [OF r i]) simp
      then show "rbind (leaf_suffix_at page body i) (\<lambda>suffix. Inr (suffix < srest)) = Inr (lkey (cells ! i) < q)"
        by (simp add: leaf_rep_suffix [OF r i])
    qed (metis leaf_wf_sorted [OF w] le_less_trans)
    have dl: "map lkey (drop lo cells) = dropWhile (\<lambda>k. k < q) (map lkey cells)"
      by (simp add: lo_def dropWhile_eq_drop takeWhile_map o_def flip: drop_map)
    let ?ks = "dropWhile (\<lambda>k. k < q) (map lkey cells)"
    have flag: "(takeWhile (has_prefix q) ?ks = ?ks) = (\<forall>k\<in>lkey ` set cells. k < q \<or> has_prefix q k)"
      unfolding takeWhile_eq_all_conv set_dropWhile_sorted [OF ks] by auto
    have "leaf_for_each_prefix page body q f s = emit_while page body prefix srest f [lo..<length cells] s"
      using fs rest b by (simp add: leaf_for_each_prefix_def Let_def)
    then show ?thesis
      using emit_while_rep [OF r lo, of page srest f s] filter_prefix_block [OF ks, of q] flag
      by (simp add: dl Let_def flip: rest(1))
  next
    case low
    then have u: "\<And>u. q \<noteq> prefix @ u" using cmp_prefix_append by (metis prefix_cmp.distinct(3))
    then have "prefix \<noteq> []" by (metis append_Nil)
    then obtain c where c: "c \<in> set cells" using ne by (cases cells) auto
    then obtain x where "lkey c = prefix @ x" using key by blast
    then have "\<not> (lkey c < q \<or> has_prefix q (lkey c))"
      using low(2,3) u unfolding has_prefix_iff by (metis append_eq_append_conv2 less_not_sym)
    moreover have "\<not> prefix < q" using low(3) [of "[]"] by auto
    ultimately show ?thesis
      using leaf_for_each_prefix_apart(1) [OF r u low(2), of page f s] leaf_for_each_prefix_apart(2) [OF r u low(2)] c by auto
  next
    case high
    then have u: "\<And>u. q \<noteq> prefix @ u" using cmp_prefix_append by (metis prefix_cmp.distinct(5))
    have v: "prefix \<noteq> q @ x" for x
      using high(2) [of "[]"] append_mono_le [of q "[]" x] by auto
    have "\<forall>k\<in>lkey ` set cells. k < q" using key high(2) by metis
    then show ?thesis
      using leaf_for_each_prefix_apart(1) [OF r u v, of page f s] leaf_for_each_prefix_apart(2) [OF r u v] high(2) [of "[]"] by simp
  qed
qed

end
