(* ===== verification/NodeUpdate.thy ===== *)
theory NodeUpdate
  imports NodeSearch
begin

text \<open>
  In-place appends to a represented leaf, inner nodes and overflow pages.  An append extends the
  cell list with its new last cell; the scanning and the cursor variants write the same bytes.
  Inner nodes are described by \<open>inner_rep\<close> and searched by partition point.
\<close>

section \<open>Appends\<close>

definition leaf_appended :: "bytes \<Rightarrow> nat \<Rightarrow> nat \<Rightarrow> bytes \<Rightarrow> bytes" where
  "leaf_appended body n fin cell =
     blit (set_cell_ptr (blit body fin cell) n fin) 2 (u16_le (of_nat (Suc n)))"

lemma leaf_appended_rep:
  assumes r: "leaf_rep body cm prefix cells fin" and p: "has_prefix prefix (lkey c)"
    and fits: "fin + length (cell_bytes prefix c) \<le> length body - 2 * (length cells + 1)"
  shows "leaf_rep (leaf_appended body (length cells) fin (cell_bytes prefix c)) cm prefix (cells @ [c])
      (fin + length (cell_bytes prefix c))"
    and "length (leaf_appended body (length cells) fin (cell_bytes prefix c)) = length body"
proof -
  let ?n = "length cells" and ?cell = "cell_bytes prefix c" and ?L = "length body"
  let ?b1 = "blit body fin ?cell"
  let ?b2 = "set_cell_ptr ?b1 ?n fin"
  let ?b3 = "blit ?b2 2 (u16_le (of_nat (Suc ?n)))"
  have st: "4 \<le> leaf_start cm prefix" "leaf_start cm prefix \<le> fin"
    using r by (auto simp: leaf_start_def LEAF_HDR_def leaf_rep_def)
  have cl: "1 \<le> length ?cell" by (simp add: cell_bytes_def length_encode_leaf_cell)
  have f2: "fin + length ?cell + 2 * (?n + 1) \<le> ?L" using fits cl by linarith
  have l1: "length ?b1 = ?L" using f2 by simp
  have l2: "length ?b2 = ?L" using f2 l1 by (simp add: set_cell_ptr_def)
  have l3: "length ?b3 = ?L" using f2 l2 st by simp
  have low: "at_pos ?b3 q t = at_pos body q t" if "4 \<le> q" "q + length t \<le> fin" for q t
    using that f2 l1 l2 by (simp add: blit_at_pos_before blit_at_pos_after set_cell_ptr_def)
  have cell: "at_pos ?b3 fin ?cell"
  proof -
    have "at_pos ?b1 fin ?cell" using f2 by (intro blit_at_pos) simp
    then have "at_pos ?b2 fin ?cell" unfolding set_cell_ptr_def using f2 l1 by (simp add: blit_at_pos_before)
    then show ?thesis using f2 l2 st by (simp add: blit_at_pos_after)
  qed
  have ptr_old: "at_pos ?b3 q t = at_pos body q t" if "?L - 2 * ?n \<le> q" for q t
    using that f2 l1 l2 st by (simp add: blit_at_pos_after set_cell_ptr_def)
  have ptr_new: "at_pos ?b3 (?L - 2 * (?n + 1)) (u16_le (of_nat fin))"
  proof -
    have "at_pos ?b2 (?L - 2 * (?n + 1)) (u16_le (of_nat fin))"
      unfolding set_cell_ptr_def l1 using f2 l1 by (intro blit_at_pos) simp
    then show ?thesis using f2 l2 st by (simp add: blit_at_pos_after)
  qed
  have hdr: "at_pos ?b3 0 ([TYPE_LEAF, if cm then LEAF_PREFIX_FLAG else 0] @ u16_le (of_nat (Suc ?n)))"
  proof -
    have "at_pos body 0 ([TYPE_LEAF, if cm then LEAF_PREFIX_FLAG else 0] @ u16_le (of_nat ?n))"
      using r unfolding leaf_rep_def by blast
    then have "at_pos body 0 [TYPE_LEAF, if cm then LEAF_PREFIX_FLAG else 0]"
      unfolding at_pos_append by blast
    then have "at_pos ?b3 0 [TYPE_LEAF, if cm then LEAF_PREFIX_FLAG else 0]"
      using f2 l1 l2 st by (simp add: blit_at_pos_before set_cell_ptr_def)
    moreover have "at_pos ?b3 2 (u16_le (of_nat (Suc ?n)))" using f2 l2 st by (intro blit_at_pos) simp
    ultimately show ?thesis using at_pos_append [of ?b3 0 "[TYPE_LEAF, if cm then LEAF_PREFIX_FLAG else 0]"]
      by (simp add: numeral_2_eq_2)
  qed
  have ptrs: "ptrs_at ?b3 0 (map (off_of (cell_bytes prefix) (leaf_start cm prefix) (cells @ [c])) [0..<Suc ?n])"
    unfolding ptrs_at_def
  proof (intro allI impI)
    fix j assume j: "j < length (map (off_of (cell_bytes prefix) (leaf_start cm prefix) (cells @ [c])) [0..<Suc ?n])"
    show "at_pos ?b3 (length ?b3 - 2 * (0 + j + 1))
        (u16_le (of_nat (map (off_of (cell_bytes prefix) (leaf_start cm prefix) (cells @ [c])) [0..<Suc ?n] ! j)))"
    proof (cases "j = ?n")
      case True
      have "off_of (cell_bytes prefix) (leaf_start cm prefix) (cells @ [c]) ?n = fin"
        using r by (simp add: off_of_def leaf_rep_def)
      then show ?thesis using True ptr_new l3 by (simp del: upt_Suc)
    next
      case False
      then have j: "j < ?n" using j by simp
      then have "at_pos body (?L - 2 * (0 + j + 1)) (u16_le (of_nat (off_of (cell_bytes prefix) (leaf_start cm prefix) cells j)))"
        using r by (simp add: leaf_rep_def ptrs_at_def)
      moreover have "off_of (cell_bytes prefix) (leaf_start cm prefix) (cells @ [c]) j
          = off_of (cell_bytes prefix) (leaf_start cm prefix) cells j" using j by (simp add: off_of_def)
      ultimately show ?thesis using ptr_old [of "?L - 2 * (0 + j + 1)"] j l3 by (simp del: upt_Suc)
    qed
  qed
  have pre: "if cm then at_pos ?b3 LEAF_HDR (put_varint (of_nat (length prefix)) @ prefix) else prefix = []"
    using r low [of LEAF_HDR "put_varint (of_nat (length prefix)) @ prefix"] st
    by (cases cm) (simp_all add: leaf_rep_def LEAF_HDR_def leaf_start_def add.assoc)
  have content: "at_pos ?b3 (leaf_start cm prefix) (concat (map (cell_bytes prefix) (cells @ [c])))"
    using r low [of "leaf_start cm prefix" "concat (map (cell_bytes prefix) cells)"] st cell
    by (simp add: at_pos_append leaf_rep_def)
  show "leaf_rep (leaf_appended body ?n fin ?cell) cm prefix (cells @ [c]) (fin + length ?cell)"
    unfolding leaf_rep_def leaf_appended_def
    using hdr ptrs pre content l3 f2 r p by (simp add: leaf_rep_def has_prefix_def del: upt_Suc)
  show "length (leaf_appended body ?n fin ?cell) = ?L" using l3 by (simp add: leaf_appended_def)
qed


lemma append_scan_at:
  assumes l: "length body < 2 ^ 16"
  shows "at_pos body p (concat (map (cell_bytes prefix) cells)) \<Longrightarrow>
    \<exists>ss. append_scan page body (length cells) p ls
        = Inr (p + length (concat (map (cell_bytes prefix) cells)),
               if cells = [] then ls else Some (ss, ss + length (drop (length prefix) (lkey (last cells)))))
      \<and> (cells \<noteq> [] \<longrightarrow> at_pos body ss (drop (length prefix) (lkey (last cells))))"
proof (induction cells arbitrary: p ls)
  case (Cons c cs)
  let ?k = "drop (length prefix) (lkey c)" and ?q = "lpayload c"
  let ?v = "put_varint (of_nat (length ?k)) :: bytes"
  have c: "at_pos body p (encode_leaf_cell ?k ?q)"
    using Cons.prems by (simp add: at_pos_append cell_bytes_def)
  note s = cell_pieces [OF c]
  note g = get_varint_at [OF s(2), of page] get_slice_at [OF s(3) refl, of page] unat_len [OF s(3) l]
    skip_leaf_payload_at [OF s(4) l, of page]
  let ?p' = "p + 1 + length ?v + length ?k + length (payload_bytes ?q)"
  have "at_pos body ?p' (concat (map (cell_bytes prefix) cs))"
    using Cons.prems length_cell_pieces [of ?k ?q, folded cell_bytes_def] by (simp add: at_pos_append add.assoc)
  from Cons.IH [OF this, of "Some (p + 1 + length ?v, p + 1 + length ?v + length ?k)"]
  obtain ss where ss: "append_scan page body (length cs) ?p' (Some (p + 1 + length ?v, p + 1 + length ?v + length ?k))
      = Inr (?p' + length (concat (map (cell_bytes prefix) cs)),
             if cs = [] then Some (p + 1 + length ?v, p + 1 + length ?v + length ?k)
             else Some (ss, ss + length (drop (length prefix) (lkey (last cs)))))"
    "cs \<noteq> [] \<longrightarrow> at_pos body ss (drop (length prefix) (lkey (last cs)))" by blast
  have "append_scan page body (length (c # cs)) p ls
      = Inr (?p' + length (concat (map (cell_bytes prefix) cs)),
             if cs = [] then Some (p + 1 + length ?v, p + 1 + length ?v + length ?k)
             else Some (ss, ss + length (drop (length prefix) (lkey (last cs)))))"
    using ss(1) by (simp add: s(1) g [simplified])
  moreover have "?p' + length (concat (map (cell_bytes prefix) cs)) = p + length (concat (map (cell_bytes prefix) (c # cs)))"
    using length_cell_pieces [of ?k ?q, folded cell_bytes_def] by simp
  ultimately show ?case
    using ss(2) s(3) by (cases "cs = []") (auto intro!: exI [of _ "p + 1 + length ?v"])
qed simp

lemma leaf_append_rep:
  assumes r: "leaf_rep body cm prefix cells fin" and w: "leaf_wf cells"
  shows "leaf_append page body key payload =
    (let c = \<lparr>lkey = key, lpayload = payload\<rparr> in
     if \<not> has_prefix prefix key \<or> (\<exists>d\<in>set cells. key \<le> lkey d)
        \<or> fin + length (cell_bytes prefix c) > length body - 2 * (length cells + 1)
     then Inr (None, body)
     else Inr (Some (fin + length (cell_bytes prefix c)),
               leaf_appended body (length cells) fin (cell_bytes prefix c)))"
proof -
  note f = leaf_rep_fields [OF r]
  have "at_pos body (leaf_start cm prefix) (concat (map (cell_bytes prefix) cells))"
    using r by (simp add: leaf_rep_def)
  from append_scan_at [OF f(5) this, of page None]
  obtain ss where ss: "append_scan page body (length cells) (leaf_start cm prefix) None
      = Inr (fin, if cells = [] then None else Some (ss, ss + length (drop (length prefix) (lkey (last cells)))))"
    "cells \<noteq> [] \<Longrightarrow> at_pos body ss (drop (length prefix) (lkey (last cells)))"
    using r by (auto simp: leaf_rep_def)
  have last: "drop (length prefix) key \<le> drop (length prefix) (lkey (last cells)) \<longleftrightarrow> (\<exists>d\<in>set cells. key \<le> lkey d)"
    if "cells \<noteq> []" "has_prefix prefix key"
  proof -
    have "key = prefix @ drop (length prefix) key"
      using that(2) unfolding has_prefix_def by (metis append_take_drop_id)
    moreover have "lkey (last cells) = prefix @ drop (length prefix) (lkey (last cells))"
      using leaf_rep_prefix [OF r, of "length cells - 1"] that(1) by (simp add: last_conv_nth)
    ultimately have "drop (length prefix) key \<le> drop (length prefix) (lkey (last cells)) \<longleftrightarrow> key \<le> lkey (last cells)"
      by (metis append_mono_le)
    also have "\<dots> \<longleftrightarrow> (\<exists>d\<in>set cells. key \<le> lkey d)"
    proof
      assume "\<exists>d\<in>set cells. key \<le> lkey d"
      then obtain d where "d \<in> set cells" "key \<le> lkey d" by blast
      then show "key \<le> lkey (last cells)" using sorted_between [of cells d] w by (auto simp: leaf_wf_def)
    qed (use that(1) in auto)
    finally show ?thesis .
  qed
  have sl: "take (length (drop (length prefix) (lkey (last cells)))) (drop ss body) = drop (length prefix) (lkey (last cells))"
    if "cells \<noteq> []" using ss(2) [OF that] by (simp add: at_pos_def)
  show ?thesis
  proof (cases "has_prefix prefix key")
    case False
    then show ?thesis using f by (simp add: leaf_append_def has_prefix_def Let_def)
  next
    case True
    then show ?thesis
      using f ss(1) last sl
      by (cases "cells = []")
        (simp_all add: leaf_append_def has_prefix_def Let_def leaf_appended_def cell_bytes_def add.commute)
  qed
qed

text \<open>
  The cursor append writes a cell at the offset it is given, whatever that offset is; given the free
  offset, it writes what the scanning append writes.
\<close>

lemma append_inline_at_any:
  assumes r: "leaf_rep body cm prefix cells fin"
  shows "append_inline_at body off key value =
    (let c = \<lparr>lkey = key, lpayload = Inline value\<rparr> in
     if \<not> has_prefix prefix key
        \<or> off + length (cell_bytes prefix c) > length body - 2 * (length cells + 1)
     then (None, body)
     else (Some (off + length (cell_bytes prefix c)),
           leaf_appended body (length cells) off (cell_bytes prefix c)))"
proof -
  note f = leaf_rep_fields [OF r]
  let ?s = "drop (length prefix) key" and ?p = "Inline value"
  let ?cell = "encode_leaf_cell ?s ?p"
  have stored: "(if leaf_is_compressed body then
              (case leaf_prefix_and_start 0 body of
                 Inl _ \<Rightarrow> None
               | Inr (prefix, _) \<Rightarrow>
                   if take (length prefix) key \<noteq> prefix then None else Some (drop (length prefix) key))
            else Some key) = (if has_prefix prefix key then Some ?s else None)"
    using f r by (auto simp: has_prefix_def leaf_rep_def)
  have len: "1 + varint_len (of_nat (length ?s)) + length ?s + varint_len (of_nat (length value)) + length value
      = length ?cell"
    by (simp add: length_encode_leaf_cell payload_size_def)
  have cb: "cell_bytes prefix \<lparr>lkey = key, lpayload = ?p\<rparr> = ?cell" by (simp add: cell_bytes_def)
  show ?thesis
  proof (cases "\<not> has_prefix prefix key \<or> off + length ?cell > length body - 2 * (length cells + 1)")
    case True
    then show ?thesis unfolding append_inline_at_def stored using len f by (auto simp: Let_def cb)
  next
    case False
    then have fit: "off + length ?cell \<le> length body" by linarith
    obtain b1 p1 where w: "write_leaf_cell_at body off ?s ?p = (b1, p1)" by fastforce
    then have w1: "b1 = blit body off ?cell" "p1 = off + length ?cell"
      using write_leaf_cell_at_blit [OF fit] by simp_all
    have "append_inline_at body off key value
        = (let (b, p) = write_leaf_cell_at body off ?s ?p in
           (Some p, blit (set_cell_ptr b (length cells) off) 2 (u16_le (of_nat (length cells + 1)))))"
      unfolding append_inline_at_def stored using False len f(3)
      by (simp add: Let_def write_leaf_cell_at_def case_prod_unfold)
    then show ?thesis using False w w1 by (simp add: leaf_appended_def cb Let_def)
  qed
qed


section \<open>Inner nodes\<close>

definition inner_hdr :: "nat \<Rightarrow> page_id \<Rightarrow> bytes" where
  "inner_hdr n rightmost = [TYPE_INNER, 0] @ u16_le (of_nat n) @ u64_le rightmost"

lemma length_inner_hdr [simp]: "length (inner_hdr n r) = INNER_HDR"
  by (simp add: inner_hdr_def INNER_HDR_def)

definition inner_rep :: "bytes \<Rightarrow> inner_cell list \<Rightarrow> page_id \<Rightarrow> bool" where
  "inner_rep body cells rightmost \<longleftrightarrow>
     length body < 2 ^ 16 \<and> at_pos body 0 (inner_hdr (length cells) rightmost) \<and>
     at_pos body INNER_HDR (concat (map inner_cell_bytes cells)) \<and>
     ptrs_at body 0 (map (off_of inner_cell_bytes INNER_HDR cells) [0..<length cells]) \<and>
     INNER_HDR + length (concat (map inner_cell_bytes cells)) + 2 * length cells \<le> length body"

definition inner_wf :: "inner_cell list \<Rightarrow> bool" where
  "inner_wf cells \<longleftrightarrow> sorted_wrt (\<lambda>a b. ikey a < ikey b) cells \<and> (\<forall>c\<in>set cells. ikey c \<noteq> [])"

definition inner_size :: "inner_cell list \<Rightarrow> nat" where
  "inner_size cells = INNER_HDR + sum_list (map inner_cell_size cells) + 2 * length cells"

lemma length_inner_cells: "length (concat (map inner_cell_bytes cells)) = sum_list (map inner_cell_size cells)"
  by (simp add: length_concat o_def length_inner_cell_bytes)

lemma encode_inner_rep:
  assumes "length body < 2 ^ 16"
  shows "fst (encode_inner cells rightmost body) \<longleftrightarrow> inner_size cells \<le> length body"
    and "\<not> inner_size cells \<le> length body \<Longrightarrow> encode_inner cells rightmost body = (False, body)"
    and "inner_size cells \<le> length body \<Longrightarrow> \<exists>body'. encode_inner cells rightmost body = (True, body')
      \<and> length body' = length body \<and> inner_rep body' cells rightmost"
proof -
  let ?n = "length cells" and ?h = "inner_hdr (length cells) rightmost"
  let ?wr = "\<lambda>body off c. write_inner_cell_at body off (ikey c) (ichild c)"
  let ?fin = "INNER_HDR + sum_list (map inner_cell_size cells)"
  show no: "\<not> inner_size cells \<le> length body \<Longrightarrow> encode_inner cells rightmost body = (False, body)"
    by (simp add: encode_inner_def inner_size_def Let_def not_le)
  show yes: "\<exists>body'. encode_inner cells rightmost body = (True, body') \<and> length body' = length body
      \<and> inner_rep body' cells rightmost" if fits: "inner_size cells \<le> length body"
  proof -
    have l: "?fin + 2 * ?n \<le> length body" "12 \<le> length body"
      using fits by (simp_all add: inner_size_def INNER_HDR_def)
    have "blit (blit body 0 ([TYPE_INNER, 0] @ u16_le (of_nat ?n))) 4 (u64_le rightmost) = blit body 0 ?h"
      using l(2) blit_append [of 0 "[TYPE_INNER, 0] @ u16_le (of_nat ?n)" "u64_le rightmost" body]
      by (simp add: inner_hdr_def eval_nat_numeral)
    then have h: "blit (blit (body[0 := TYPE_INNER, 1 := 0]) 2 (u16_le (of_nat ?n))) 4 (u64_le rightmost) = blit body 0 ?h"
      using l(2) blit_hdr4 [of body TYPE_INNER 0 "of_nat ?n"] by simp
    obtain b1 off where w: "write_cells ?wr (blit body 0 ?h) 0 (length ?h) cells = (b1, off)" by fastforce
    define body' where "body' = blit b1 ?fin (replicate (length b1 - 2 * ?n - ?fin) 0)"
    have e: "encode_inner cells rightmost body = (True, body')"
      using l(1) w unfolding encode_inner_def body'_def by (simp add: Let_def h [simplified])
    have hb: "length (blit body 0 ?h) = length body" "at_pos (blit body 0 ?h) 0 ?h"
      using l by (simp_all add: blit_at_pos INNER_HDR_def)
    have f: "length ?h + length (concat (map inner_cell_bytes cells)) + 2 * ?n \<le> length (blit body 0 ?h)"
      using l(1) hb(1) by (simp add: length_inner_cells)
    have ce: "?fin = length ?h + length (concat (map inner_cell_bytes cells))" by (simp add: length_inner_cells)
    note spec = write_node_spec [where enc = inner_cell_bytes, OF write_inner_cell_at_blit f hb(2) w ce body'_def]
    show ?thesis
      using e spec hb(1) assms l(1) unfolding inner_rep_def by (simp add: length_inner_cells)
  qed
  show "fst (encode_inner cells rightmost body) \<longleftrightarrow> inner_size cells \<le> length body"
    using yes no by fastforce
qed

lemma inner_rep_fields:
  assumes r: "inner_rep body cells rightmost"
  shows "body ! 0 = TYPE_INNER" "node_ncells body = length cells" "inner_rightmost body = rightmost"
proof -
  have h: "at_pos body 0 ([TYPE_INNER] @ [0] @ u16_le (of_nat (length cells)) @ u64_le rightmost)"
    using r by (simp add: inner_rep_def inner_hdr_def)
  then have h3: "at_pos body 0 [TYPE_INNER]" "at_pos body 2 (u16_le (of_nat (length cells)))"
    "at_pos body 4 (u64_le rightmost)"
    by (simp_all only: at_pos_append list.size length_le_be) (simp_all add: eval_nat_numeral)
  have "length cells < 2 ^ 16" using r by (simp add: inner_rep_def)
  then show "node_ncells body = length cells"
    using at_pos_u16 [OF h3(2)] by (simp add: node_ncells_def unat_of_nat_u16 numeral_3_eq_3)
  show "body ! 0 = TYPE_INNER" using h3(1) by (simp add: at_pos_get)
  show "inner_rightmost body = rightmost" using h3(3) by (simp add: inner_rightmost_def le_u64_at)
qed

lemma inner_cell_pieces:
  assumes "at_pos body p (inner_cell_bytes c)" "length body < 2 ^ 16"
  shows "inner_key_at page body p = Inr (ikey c, p + length (put_varint (of_nat (length (ikey c)))) + length (ikey c))"
    and "get_u64 page body (p + length (put_varint (of_nat (length (ikey c)))) + length (ikey c))
      = Inr (ichild c, p + length (inner_cell_bytes c))"
proof -
  let ?v = "put_varint (of_nat (length (ikey c))) :: bytes"
  have s: "at_pos body p ?v" "at_pos body (p + length ?v) (ikey c)"
    "at_pos body (p + length ?v + length (ikey c)) (u64_le (ichild c))"
    using assms(1) by (simp_all add: inner_cell_bytes_def at_pos_append add.assoc)
  show "inner_key_at page body p = Inr (ikey c, p + length ?v + length (ikey c))"
    using get_varint_at [OF s(1), of page] get_slice_at [OF s(2) refl, of page] unat_len [OF s(2) assms(2)]
    by (simp add: inner_key_at_def)
  show "get_u64 page body (p + length ?v + length (ikey c)) = Inr (ichild c, p + length (inner_cell_bytes c))"
    using get_u64_at [OF s(3), of page] by (simp add: inner_cell_bytes_def)
qed

lemma inner_rep_cell:
  assumes "inner_rep body cells rightmost" "i < length cells"
  shows "\<exists>off. cell_ptr body i = Inr off \<and> at_pos body off (inner_cell_bytes (cells ! i))"
  using ptrs_at_cell_ptr [of body inner_cell_bytes INNER_HDR cells i]
    at_pos_concat [of body INNER_HDR inner_cell_bytes cells i] assms
  by (auto simp: inner_rep_def)

lemma parse_inner_loop_at:
  assumes l: "length body < 2 ^ 16"
  shows "at_pos body p (concat (map inner_cell_bytes cells)) \<Longrightarrow> inner_wf cells \<Longrightarrow>
    (\<forall>q c. prev = Some q \<longrightarrow> c \<in> set cells \<longrightarrow> q < ikey c) \<Longrightarrow>
    parse_inner_loop page body (length cells) p prev = Inr cells"
proof (induction cells arbitrary: p prev)
  case (Cons c cs)
  have c: "at_pos body p (inner_cell_bytes c)" and n: "at_pos body (p + length (inner_cell_bytes c)) (concat (map inner_cell_bytes cs))"
    using Cons.prems(1) by (simp_all add: at_pos_append)
  have IH: "parse_inner_loop page body (length cs) (p + length (inner_cell_bytes c)) (Some (ikey c)) = Inr cs"
    by (rule Cons.IH [OF n]) (use Cons.prems(2) in \<open>auto simp: inner_wf_def\<close>)
  have "rbind (inner_key_at page body p) (\<lambda>(key, pos).
        if key = [] \<or> (case prev of None \<Rightarrow> False | Some p \<Rightarrow> p \<ge> key) then
         Inl (Corrupt page ''separadores desordenados o vacios'')
       else rbind (get_u64 page body pos) (\<lambda>(child, pos).
         rbind (parse_inner_loop page body (length cs) pos (Some key)) (\<lambda>cells.
           Inr (\<lparr>ikey = key, ichild = child\<rparr> # cells)))) = Inr (c # cs)"
    using inner_cell_pieces [OF c l, of page] IH Cons.prems(2,3)
    by (cases prev) (auto simp: inner_wf_def not_le)
  then show ?case by (simp add: inner_key_at_def rbind_assoc case_prod_unfold)
qed simp

lemma parse_inner_rep:
  "inner_rep body cells rightmost \<Longrightarrow> inner_wf cells \<Longrightarrow> parse_inner page body = Inr (cells, rightmost)"
  using inner_rep_fields [of body cells rightmost] parse_inner_loop_at [of body INNER_HDR cells None page]
  by (simp add: parse_inner_def inner_rep_def inner_rightmost_def)

text \<open>The child for a key: the first separator strictly above it, or the rightmost.\<close>

definition child_index :: "inner_cell list \<Rightarrow> bytes \<Rightarrow> nat" where
  "child_index cells key = length (takeWhile (\<lambda>c. ikey c \<le> key) cells)"

definition child_at :: "inner_cell list \<Rightarrow> page_id \<Rightarrow> nat \<Rightarrow> page_id" where
  "child_at cells rightmost i = (if i < length cells then ichild (cells ! i) else rightmost)"

lemma inner_child_value_at_rep:
  assumes "inner_rep body cells rightmost"
  shows "inner_child_value_at page body i = Inr (child_at cells rightmost i)"
proof (cases "i < length cells")
  case True
  obtain off where "cell_ptr body i = Inr off" "at_pos body off (inner_cell_bytes (cells ! i))"
    using inner_rep_cell [OF assms True] by blast
  then show ?thesis using inner_cell_pieces [of body off "cells ! i" page] inner_rep_fields [OF assms] assms True
    by (simp add: inner_child_value_at_def child_at_def inner_rep_def)
qed (use inner_rep_fields [OF assms] in \<open>simp add: inner_child_value_at_def child_at_def\<close>)

lemma inner_child_indexed_rep:
  assumes r: "inner_rep body cells rightmost" and w: "inner_wf cells"
  shows "inner_child_indexed page body key
    = Inr (child_at cells rightmost (child_index cells key), child_index cells key)"
proof -
  have "bisect (\<lambda>mid. rbind (cell_ptr body mid) (\<lambda>off.
            rbind (inner_key_at page body off) (\<lambda>(ckey, _). Inr (\<not> ckey > key)))) 0 (length cells)
      = Inr (child_index cells key)"
    unfolding child_index_def
  proof (rule bisect_takeWhile)
    fix i assume i: "i < length cells"
    obtain off where "cell_ptr body i = Inr off" "at_pos body off (inner_cell_bytes (cells ! i))"
      using inner_rep_cell [OF r i] by blast
    then show "rbind (cell_ptr body i) (\<lambda>off.
            rbind (inner_key_at page body off) (\<lambda>(ckey, _). Inr (\<not> ckey > key))) = Inr (ikey (cells ! i) \<le> key)"
      using inner_cell_pieces(1) [of body off "cells ! i" page] r by (simp add: inner_rep_def not_less)
  next
    fix i j assume "i \<le> j" "j < length cells" "ikey (cells ! j) \<le> key"
    moreover have "ikey (cells ! i) < ikey (cells ! j)" if "i < j"
      using w that \<open>j < length cells\<close> by (simp add: inner_wf_def sorted_wrt_iff_nth_less)
    ultimately show "ikey (cells ! i) \<le> key" by (cases "i = j") auto
  qed
  then show ?thesis
    using inner_rep_fields [OF r] inner_child_value_at_rep [OF r] by (simp add: inner_child_indexed_def)
qed

section \<open>Overflow pages\<close>

lemma parse_encode_overflow:
  assumes "OVERFLOW_HDR + length chunk \<le> length body" "length chunk < 2 ^ 16"
  shows "parse_overflow page (encode_overflow chunk next body) = Inr (chunk, next)"
    and "length (encode_overflow chunk next body) = length body"
proof -
  let ?h = "[TYPE_OVERFLOW, 0] @ u16_le (of_nat (length chunk)) @ u64_le next"
  have l: "12 + length chunk \<le> length body" using assms(1) by (simp add: OVERFLOW_HDR_def)
  have "blit (blit body 0 ([TYPE_OVERFLOW, 0] @ u16_le (of_nat (length chunk)))) 4 (u64_le next) = blit body 0 ?h"
    using l blit_append [of 0 "[TYPE_OVERFLOW, 0] @ u16_le (of_nat (length chunk))" "u64_le next" body]
    by (simp add: eval_nat_numeral)
  then have "blit (blit (blit (body[0 := TYPE_OVERFLOW, 1 := 0]) 2 (u16_le (of_nat (length chunk)))) 4 (u64_le next)) 12 chunk
      = blit body 0 (?h @ chunk)"
    using l blit_hdr4 [of body TYPE_OVERFLOW 0 "of_nat (length chunk)"] blit_append [of 0 ?h chunk body]
    by (simp add: eval_nat_numeral)
  then have e: "encode_overflow chunk next body
      = blit (blit body 0 (?h @ chunk)) (12 + length chunk) (replicate (length body - (12 + length chunk)) 0)"
    using l by (simp add: encode_overflow_def OVERFLOW_HDR_def Let_def)
  show "length (encode_overflow chunk next body) = length body" using l by (simp add: e)
  have "at_pos (encode_overflow chunk next body) 0 ([TYPE_OVERFLOW] @ [0] @ u16_le (of_nat (length chunk)) @ u64_le next @ chunk)"
    unfolding e using l blit_at_pos [of 0 "?h @ chunk" body] by (subst blit_at_pos_before) simp_all
  then have h: "at_pos (encode_overflow chunk next body) 0 [TYPE_OVERFLOW]"
    "at_pos (encode_overflow chunk next body) 2 (u16_le (of_nat (length chunk)))"
    "at_pos (encode_overflow chunk next body) 4 (u64_le next)"
    "at_pos (encode_overflow chunk next body) 12 chunk"
    by (simp_all only: at_pos_append list.size length_le_be) (simp_all add: eval_nat_numeral)
  show "parse_overflow page (encode_overflow chunk next body) = Inr (chunk, next)"
    using h at_pos_u16 [OF h(2)] at_pos_range [OF h(4)] assms(2)
    by (simp add: parse_overflow_def at_pos_get le_u64_at unat_of_nat_u16 OVERFLOW_HDR_def numeral_3_eq_3 Let_def)
qed

section \<open>Split points\<close>

lemma split_loop_bounds:
  "i + length cs = n \<Longrightarrow> 2 \<le> n \<Longrightarrow> 1 \<le> split_loop sz n tot cs i acc \<and> split_loop sz n tot cs i acc \<le> n - 1"
  by (induction sz n tot cs i acc rule: split_loop.induct) (auto simp: Let_def)

text \<open>Both halves are non-empty, and neither half is much more than half: without its last cell the
  left one weighs less than half of the total.\<close>

lemma split_point_bounds:
  "2 \<le> length cells \<Longrightarrow> 1 \<le> split_point cells sz \<and> split_point cells sz < length cells"
  using split_loop_bounds [of 0 cells "length cells" sz "sum_list (map sz cells)" 0]
  by (auto simp: split_point_def)

lemma split_loop_balance:
  "i + length cs = n \<Longrightarrow> split_loop sz n tot cs i acc = m \<Longrightarrow> i < m \<Longrightarrow>
   (i = 0 \<or> acc * 2 < tot) \<Longrightarrow> m - 1 - i > 0 \<Longrightarrow> (acc + sum_list (map sz (take (m - 1 - i) cs))) * 2 < tot"
proof (induction sz n tot cs i acc rule: split_loop.induct)
  case (2 sz n tot c cs i acc)
  show ?case
  proof (cases "(acc + sz c) * 2 \<ge> tot")
    case True
    then show ?thesis using 2 by (simp add: Let_def min_def split: if_splits)
  next
    case False
    then have m: "split_loop sz n tot cs (i + 1) (acc + sz c) = m" using 2 by simp
    show ?thesis
    proof (cases "m - 1 - (i + 1) > 0")
      case True
      then have "(acc + sz c + sum_list (map sz (take (m - 1 - (i + 1)) cs))) * 2 < tot"
        using 2(1) [OF refl] False 2(2) m by auto
      moreover have "m - 1 - i = Suc (m - 1 - (i + 1))" using True by simp
      ultimately show ?thesis by (simp add: add.assoc)
    next
      case False': False
      then have "m - 1 - i = 1" using 2(6) by simp
      then show ?thesis using False by simp
    qed
  qed
qed simp

end
