(* ===== verification/Btree.thy ===== *)
theory Btree
  imports Store NodeUpdate
begin

text \<open>
  The copy-on-write B-tree (\<^verbatim>\<open>src/btree/mod.rs\<close>) over a page source: point lookups, overflow chains,
  insertion with its append cursor and splits, deletion, the streaming cursor, the prefix walk and
  the diff of two trees that skips shared subtrees.  A source is its \<^verbatim>\<open>body\<close> function; the writers act
  on the transaction store.
\<close>

definition NO_ROOT :: page_id where "NO_ROOT = 0"

definition bad_node :: "page_id \<Rightarrow> error" where
  "bad_node pid = Corrupt pid ''tipo de nodo inesperado''"

section \<open>Reading\<close>

type_synonym source = "page_id \<Rightarrow> bytes res"

text \<open>\<open>obind\<close> sequences a read that may fail (\<open>Inl\<close>) inside a loop that may not end (\<open>None\<close>).\<close>

definition obind :: "'a res \<Rightarrow> ('a \<Rightarrow> 'b res option) \<Rightarrow> 'b res option" where
  "obind r f = (case r of Inl e \<Rightarrow> Some (Inl e) | Inr x \<Rightarrow> f x)"

lemma obind_simps [simp]: "obind (Inl e) f = Some (Inl e)" "obind (Inr x) f = f x"
  by (simp_all add: obind_def)

lemma obind_mono [partial_function_mono]:
  assumes "\<And>x. monotone (fun_ord option_ord) option_ord (\<lambda>f. k f x)"
  shows "monotone (fun_ord option_ord) option_ord (\<lambda>f. obind r (k f))"
  using assms by (cases r) (simp_all add: monotone_on_def flat_ord_def)

definition opbind :: "'a res option \<Rightarrow> ('a \<Rightarrow> 'b res option) \<Rightarrow> 'b res option" where
  "opbind m f = (case m of None \<Rightarrow> None | Some r \<Rightarrow> obind r f)"

lemma opbind_simps [simp]:
  "opbind None f = None" "opbind (Some (Inl e)) f = Some (Inl e)" "opbind (Some (Inr x)) f = f x"
  by (simp_all add: opbind_def)

lemma opbind_mono [partial_function_mono]:
  fixes m :: "('x \<Rightarrow> 'y option) \<Rightarrow> 'p res option" and k :: "('x \<Rightarrow> 'y option) \<Rightarrow> 'p \<Rightarrow> 'q res option"
  assumes "monotone (fun_ord option_ord) option_ord m"
    and "\<And>x. monotone (fun_ord option_ord) option_ord (\<lambda>f. k f x)"
  shows "monotone (fun_ord option_ord) option_ord (\<lambda>f. opbind (m f) (k f))"
proof (rule monotoneI)
  fix f g :: "'x \<Rightarrow> 'y option" assume fg: "fun_ord option_ord f g"
  have m: "option_ord (m f) (m g)" and k: "\<And>x. option_ord (k f x) (k g x)"
    using assms fg unfolding monotone_on_def by simp_all
  show "option_ord (opbind (m f) (k f)) (opbind (m g) (k g))"
  proof (cases "m f")
    case (Some r)
    then have "m g = Some r" using m by (auto simp: flat_ord_def)
    then show ?thesis using Some k by (cases r) (auto simp: flat_ord_def)
  qed (simp add: flat_ord_def)
qed

text \<open>The overflow chain of a value, and its check against the recorded length.\<close>

partial_function (option) read_chain :: "source \<Rightarrow> page_id \<Rightarrow> bytes res option" where
  "read_chain src pid =
     (if pid = NO_ROOT then Some (Inr [])
      else obind (src pid) (\<lambda>body.
        obind (parse_overflow pid body) (\<lambda>(chunk, next).
        opbind (read_chain src next) (\<lambda>rest. Some (Inr (chunk @ rest))))))"

definition read_value :: "source \<Rightarrow> payload \<Rightarrow> bytes res option" where
  "read_value src p = (case p of
       Inline v \<Rightarrow> Some (Inr v)
     | Overflow total_len first \<Rightarrow>
         opbind (read_chain src first) (\<lambda>out.
           if of_nat (length out) \<noteq> total_len then Some (Inl (Corrupt first ''cadena overflow incompleta''))
           else Some (Inr out)))"

partial_function (option) descend_to :: "source \<Rightarrow> page_id \<Rightarrow> bytes \<Rightarrow> (page_id \<times> bytes) res option" where
  "descend_to src pid key =
     obind (src pid) (\<lambda>body.
       if node_type body = TYPE_INNER then
         obind (inner_child pid body key) (\<lambda>child. descend_to src child key)
       else if node_type body = TYPE_LEAF then Some (Inr (pid, body))
       else Some (Inl (bad_node pid)))"

definition btree_get :: "source \<Rightarrow> page_id \<Rightarrow> bytes \<Rightarrow> bytes option res option" where
  "btree_get src root key =
     (if root = NO_ROOT then Some (Inr None)
      else opbind (descend_to src root key) (\<lambda>(pid, body).
        obind (leaf_find pid body key) (\<lambda>found. case found of
            Some p \<Rightarrow> opbind (read_value src p) (\<lambda>v. Some (Inr (Some v)))
          | None \<Rightarrow> Some (Inr None))))"

definition btree_contains :: "source \<Rightarrow> page_id \<Rightarrow> bytes \<Rightarrow> bool res option" where
  "btree_contains src root key =
     (if root = NO_ROOT then Some (Inr False)
      else opbind (descend_to src root key) (\<lambda>(pid, body).
        obind (leaf_contains pid body key) (\<lambda>found. Some (Inr found))))"

section \<open>Insertion\<close>

text \<open>\<^verbatim>\<open>data.chunks(OVERFLOW_DATA)\<close>, and the chain written from its last chunk.\<close>

function chunks :: "nat \<Rightarrow> 'a list \<Rightarrow> 'a list list" where
  "chunks n xs = (if xs = [] \<or> n = 0 then [] else take n xs # chunks n (drop n xs))"
  by pat_completeness auto
termination by (relation "measure (\<lambda>(n, xs). length xs)") (auto simp: length_greater_0_conv)

declare chunks.simps [simp del]

fun write_chain_loop :: "bytes list \<Rightarrow> page_id \<Rightarrow> (tx_store, page_id) sx" where
  "write_chain_loop [] next s = sret next s"
| "write_chain_loop (chunk # cs) next s =
     sbind ts_alloc (\<lambda>pid.
     sbind (ts_body_mut pid (\<lambda>b. (Inr (), encode_overflow chunk next b))) (\<lambda>_.
       write_chain_loop cs pid)) s"

definition write_chain :: "bytes \<Rightarrow> (tx_store, page_id) sx" where
  "write_chain data = write_chain_loop (rev (chunks OVERFLOW_DATA data)) NO_ROOT"

partial_function (option) free_chain :: "page_id \<Rightarrow> tx_store \<Rightarrow> tx_store option" where
  "free_chain pid s =
     (if pid = NO_ROOT then Some s
      else case rbind (ts_body s pid) (parse_overflow pid) of
          Inl _ \<Rightarrow> Some s
        | Inr (_, next) \<Rightarrow> free_chain next (ts_free pid s))"

definition free_payload :: "payload \<Rightarrow> (tx_store, unit) sx" where
  "free_payload p s = (case p of
       Inline _ \<Rightarrow> sret () s
     | Overflow _ first \<Rightarrow>
         if \<not> ts_is_dirty s first then sret () s
         else (case free_chain first s of None \<Rightarrow> None | Some s \<Rightarrow> sret () s))"

record tail_info =
  tl_leaf :: page_id
  tl_end :: nat
  tl_last_key :: bytes

record insert_outcome =
  io_id :: page_id
  io_split :: "(bytes \<times> page_id) option"
  io_tail :: "tail_info option"

text \<open>\<^verbatim>\<open>binary_search_by\<close> on the ordered cells: the index of the key, or where it would go.\<close>

definition search_cells :: "leaf_cell list \<Rightarrow> bytes \<Rightarrow> nat + nat" where
  "search_cells cells key =
     (let i = length (takeWhile (\<lambda>c. lkey c < key) cells) in
      if i < length cells \<and> lkey (cells ! i) = key then Inr i else Inl i)"

definition list_insert :: "nat \<Rightarrow> 'a \<Rightarrow> 'a list \<Rightarrow> 'a list" where
  "list_insert i x xs = take i xs @ x # drop i xs"

definition list_remove :: "nat \<Rightarrow> 'a list \<Rightarrow> 'a list" where
  "list_remove i xs = take i xs @ drop (Suc i) xs"

definition leaf_insert_general :: "page_id \<Rightarrow> bytes \<Rightarrow> payload \<Rightarrow> (tx_store, insert_outcome) sx" where
  "leaf_insert_general pid key payload s =
     sbind (slift (rbind (ts_body s pid) (parse_leaf pid))) (\<lambda>cells.
     sbind (case search_cells cells key of
         Inr i \<Rightarrow> sbind (free_payload (lpayload (cells ! i))) (\<lambda>_.
           sret (cells[i := (cells ! i)\<lparr>lpayload := payload\<rparr>], False))
       | Inl i \<Rightarrow>
           let cells = list_insert i \<lparr>lkey = key, lpayload = payload\<rparr> cells
           in sret (cells, i + 1 = length cells)) (\<lambda>(cells, appended).
     sbind (ts_body_mut pid (\<lambda>b. let (ok, b) = encode_leaf cells b in (Inr ok, b))) (\<lambda>ok.
     if ok then sret \<lparr>io_id = pid, io_split = None, io_tail = None\<rparr>
     else
       let sp = (if appended then length cells - 1 else split_point cells leaf_cell_size);
           right_cells = drop sp cells; cells = take sp cells; sep = lkey (hd right_cells)
       in
       sbind ts_alloc (\<lambda>right.
       sbind (ts_body_mut right (\<lambda>b. let (ok, b) = encode_leaf right_cells b in (Inr ok, b))) (\<lambda>ok.
       sbind (if ok then ts_body_mut pid (\<lambda>b. let (ok, b) = encode_leaf cells b in (Inr ok, b))
              else sret False) (\<lambda>_.
         sret \<lparr>io_id = pid, io_split = Some (sep, right), io_tail = None\<rparr>)))))) s"

definition insert_leaf :: "page_id \<Rightarrow> bytes \<Rightarrow> payload \<Rightarrow> (tx_store, insert_outcome) sx" where
  "insert_leaf pid key payload =
     sbind (ts_make_dirty pid) (\<lambda>pid.
     sbind (ts_body_mut pid (\<lambda>b. case leaf_append pid b key payload of
         Inl e \<Rightarrow> (Inl e, b) | Inr (r, b) \<Rightarrow> (Inr r, b))) (\<lambda>appended.
     case appended of
       Some end_off \<Rightarrow>
         sret \<lparr>io_id = pid, io_split = None,
               io_tail = Some \<lparr>tl_leaf = pid, tl_end = end_off, tl_last_key = key\<rparr>\<rparr>
     | None \<Rightarrow> leaf_insert_general pid key payload))"

text \<open>What an inner node does with the outcome of its child.\<close>

definition insert_inner :: "page_id \<Rightarrow> bytes \<Rightarrow> page_id \<Rightarrow> bool \<Rightarrow> insert_outcome \<Rightarrow> (tx_store, insert_outcome) sx" where
  "insert_inner pid key child is_rightmost out s =
     (let cid = io_id out; csplit = io_split out;
          tail = (if is_rightmost then io_tail out else None)
      in
      if csplit = None \<and> cid = child then sret \<lparr>io_id = pid, io_split = None, io_tail = tail\<rparr> s
      else
        sbind (slift (rbind (ts_body s pid) (parse_inner pid))) (\<lambda>(cells, rightmost).
          let idx = child_index cells key;
              (cells, rightmost) =
                (if idx < length cells then (cells[idx := (cells ! idx)\<lparr>ichild := cid\<rparr>], rightmost)
                 else (cells, cid));
              (cells, rightmost) = (case csplit of
                  None \<Rightarrow> (cells, rightmost)
                | Some (sep, right) \<Rightarrow>
                    let cells = list_insert idx \<lparr>ikey = sep, ichild = cid\<rparr> cells in
                    if idx + 1 < length cells
                    then (cells[idx + 1 := (cells ! (idx + 1))\<lparr>ichild := right\<rparr>], rightmost)
                    else (cells, right))
          in
          sbind (ts_make_dirty pid) (\<lambda>pid.
          sbind (ts_body_mut pid (\<lambda>b. let (ok, b) = encode_inner cells rightmost b in (Inr ok, b))) (\<lambda>ok.
          if ok then sret \<lparr>io_id = pid, io_split = None, io_tail = tail\<rparr>
          else
            let sp = split_point cells inner_cell_size;
                sep_up = ikey (cells ! sp); left_rightmost = ichild (cells ! sp);
                right_cells = drop (sp + 1) cells; cells = take sp cells
            in
            sbind ts_alloc (\<lambda>right.
            sbind (ts_body_mut right (\<lambda>b. let (ok, b) = encode_inner right_cells rightmost b in (Inr ok, b))) (\<lambda>ok.
            sbind (if ok then ts_body_mut pid (\<lambda>b. let (ok, b) = encode_inner cells left_rightmost b in (Inr ok, b))
                   else sret False) (\<lambda>_.
              sret \<lparr>io_id = pid, io_split = Some (sep_up, right), io_tail = tail\<rparr>)))))) s)"

partial_function (option) insert_rec ::
    "page_id \<Rightarrow> bytes \<Rightarrow> payload \<Rightarrow> tx_store \<Rightarrow> (insert_outcome res \<times> tx_store) option" where
  "insert_rec pid key payload s =
     sbind (slift (ts_body s pid)) (\<lambda>body s.
       if node_type body = TYPE_LEAF then insert_leaf pid key payload s
       else if node_type body = TYPE_INNER then
         sbind (slift (inner_child pid body key)) (\<lambda>child s.
         sbind (\<lambda>s. insert_rec child key payload s) (\<lambda>out s.
           insert_inner pid key child (child = inner_rightmost body) out s) s) s
       else sthrow (bad_node pid) s) s"

text \<open>The append cursor's fast path: \<open>None\<close> when one of its conditions fails.\<close>

definition cursor_insert :: "page_id \<Rightarrow> bytes \<Rightarrow> bytes \<Rightarrow> (tx_store, page_id option) sx" where
  "cursor_insert root key value s =
     (let (c, s) = ts_take_append_cursor s in
      case c of
        None \<Rightarrow> sret None s
      | Some cur \<Rightarrow>
          if ac_root cur = root \<and> key > ac_last_key cur \<and> ts_is_dirty s (ac_leaf cur)
             \<and> inline_cell_size key (length value) \<le> MAX_INLINE_CELL
          then
            sbind (ts_body_mut (ac_leaf cur) (\<lambda>b.
                let (r, b) = append_inline_at b (ac_end cur) key value in (Inr r, b))) (\<lambda>r s.
              case r of
                None \<Rightarrow> sret None s
              | Some new_end \<Rightarrow>
                  sret (Some root)
                    (ts_set_append_cursor (Some (cur\<lparr>ac_end := new_end, ac_last_key := key\<rparr>)) s)) s
          else sret None s)"

definition btree_insert :: "page_id \<Rightarrow> bytes \<Rightarrow> bytes \<Rightarrow> (tx_store, page_id) sx" where
  "btree_insert root key value =
     (if key = [] \<or> length key > MAX_KEY_LEN then
        sthrow (InvalidInput ''clave vacia o de mas de 1024 bytes'')
      else
        sbind (cursor_insert root key value) (\<lambda>fast. case fast of
          Some r \<Rightarrow> sret r
        | None \<Rightarrow>
            sbind (if inline_cell_size key (length value) \<le> MAX_INLINE_CELL then sret (Inline value)
                   else sbind (write_chain value) (\<lambda>first. sret (Overflow (of_nat (length value)) first)))
              (\<lambda>payload.
            if root = NO_ROOT then
              sbind ts_alloc (\<lambda>pid.
              sbind (ts_body_mut pid (\<lambda>b. let (ok, b) = encode_leaf [\<lparr>lkey = key, lpayload = payload\<rparr>] b
                                          in (Inr ok, b))) (\<lambda>_ s.
                sret pid (ts_set_append_cursor None s)))
            else
              sbind (insert_rec root key payload) (\<lambda>out.
              sbind (case io_split out of
                  None \<Rightarrow> sret (io_id out)
                | Some (sep, right) \<Rightarrow>
                    sbind ts_alloc (\<lambda>new_root.
                    sbind (ts_body_mut new_root (\<lambda>b.
                        let (ok, b) = encode_inner [\<lparr>ikey = sep, ichild = io_id out\<rparr>] right b
                        in (Inr ok, b))) (\<lambda>_. sret new_root))) (\<lambda>new_root s.
                sret new_root
                  (ts_set_append_cursor
                     (map_option (\<lambda>t. \<lparr>ac_root = new_root, ac_leaf = tl_leaf t, ac_end = tl_end t,
                                       ac_last_key = tl_last_key t\<rparr>) (io_tail out)) s))))))"

section \<open>Deletion\<close>

definition delete_leaf :: "page_id \<Rightarrow> bytes \<Rightarrow> bytes \<Rightarrow> (tx_store, page_id option \<times> bool) sx" where
  "delete_leaf pid body key =
     sbind (slift (parse_leaf pid body)) (\<lambda>cells.
     case search_cells cells key of
       Inl _ \<Rightarrow> sret (Some pid, False)
     | Inr i \<Rightarrow>
         sbind (free_payload (lpayload (cells ! i))) (\<lambda>_ s.
           let cells = list_remove i cells in
           if cells = [] then sret (None, True) (ts_free pid s)
           else
             sbind (ts_make_dirty pid) (\<lambda>pid.
             sbind (ts_body_mut pid (\<lambda>b. let (ok, b) = encode_leaf cells b in (Inr ok, b))) (\<lambda>_.
               sret (Some pid, True))) s))"

definition delete_inner ::
    "page_id \<Rightarrow> bytes \<Rightarrow> page_id \<Rightarrow> page_id option \<Rightarrow> bool \<Rightarrow> (tx_store, page_id option \<times> bool) sx" where
  "delete_inner pid key child new_child existed s =
     (if new_child = Some child then sret (Some pid, existed) s
      else
        sbind (slift (rbind (ts_body s pid) (parse_inner pid))) (\<lambda>(cells, rightmost) s.
          let idx = child_index cells key;
              rewrite = (\<lambda>cells rightmost.
                sbind (ts_make_dirty pid) (\<lambda>pid.
                sbind (ts_body_mut pid (\<lambda>b. let (ok, b) = encode_inner cells rightmost b in (Inr ok, b))) (\<lambda>_.
                  sret (Some pid, existed))))
          in
          case new_child of
            Some nc \<Rightarrow>
              if idx < length cells then rewrite (cells[idx := (cells ! idx)\<lparr>ichild := nc\<rparr>]) rightmost s
              else rewrite cells nc s
          | None \<Rightarrow>
              if idx \<ge> length cells \<and> cells = [] then sret (None, existed) (ts_free pid s)
              else
                let (cells, rightmost) =
                  (if idx < length cells then (list_remove idx cells, rightmost)
                   else (butlast cells, ichild (last cells)))
                in
                if cells = [] then sret (Some rightmost, existed) (ts_free pid s)
                else rewrite cells rightmost s) s)"

partial_function (option) delete_rec ::
    "page_id \<Rightarrow> bytes \<Rightarrow> tx_store \<Rightarrow> ((page_id option \<times> bool) res \<times> tx_store) option" where
  "delete_rec pid key s =
     sbind (slift (ts_body s pid)) (\<lambda>body s.
       if node_type body = TYPE_LEAF then delete_leaf pid body key s
       else if node_type body = TYPE_INNER then
         sbind (slift (inner_child pid body key)) (\<lambda>child s.
         sbind (\<lambda>s. delete_rec child key s) (\<lambda>(new_child, existed) s.
           delete_inner pid key child new_child existed s) s) s
       else sthrow (bad_node pid) s) s"

definition btree_delete :: "page_id \<Rightarrow> bytes \<Rightarrow> (tx_store, page_id \<times> bool) sx" where
  "btree_delete root key =
     (if root = NO_ROOT then sret (NO_ROOT, False)
      else sbind (delete_rec root key) (\<lambda>(new_root, existed).
        sret (case new_root of None \<Rightarrow> NO_ROOT | Some r \<Rightarrow> r, existed)))"

end
