(* ===== verification/BtreeLaws.thy ===== *)
theory BtreeLaws
  imports Btree
begin

text \<open>
  Correctness of the B-tree's readers over a page source, of its overflow chains over the
  transaction store, and the store's own invariant.  \<open>tree src pid m\<close>: the pages from \<open>pid\<close> form a
  finite, ordered search tree whose entries are the map \<open>m\<close> from keys to payloads.
\<close>

section \<open>Search trees of pages\<close>

inductive tree :: "source \<Rightarrow> page_id \<Rightarrow> (bytes \<rightharpoonup> payload) \<Rightarrow> bool" for src where
  leaf: "src pid = Inr body \<Longrightarrow> leaf_rep body cm prefix cells fin \<Longrightarrow> leaf_wf cells \<Longrightarrow>
    m = cells_map cells \<Longrightarrow> tree src pid m"
| inner: "src pid = Inr body \<Longrightarrow> inner_rep body cells rightmost \<Longrightarrow> inner_wf cells \<Longrightarrow>
    (\<And>i. i \<le> length cells \<Longrightarrow> tree src (child_at cells rightmost i) (ms i)) \<Longrightarrow>
    (\<And>i k. i \<le> length cells \<Longrightarrow> ms i k \<noteq> None \<Longrightarrow> child_index cells k = i) \<Longrightarrow>
    m = (\<lambda>k. ms (child_index cells k) k) \<Longrightarrow> tree src pid m"

lemma child_index_le: "child_index cells key \<le> length cells"
  by (simp add: child_index_def length_takeWhile_le)

lemma node_type_distinct [simp]: "TYPE_LEAF \<noteq> TYPE_INNER" "TYPE_INNER \<noteq> TYPE_LEAF"
  by (simp_all add: TYPE_LEAF_def TYPE_INNER_def)

text \<open>The descent ends, at the leaf that would hold the key.\<close>

lemma descend_to_tree:
  "tree src pid m \<Longrightarrow> \<exists>lp body cm prefix cells fin.
     descend_to src pid key = Some (Inr (lp, body)) \<and> leaf_rep body cm prefix cells fin \<and> leaf_wf cells \<and>
     cells_map cells key = m key"
proof (induction rule: tree.induct)
  case (leaf pid body cm prefix cells fin m)
  then show ?case
    using leaf_rep_fields(1) [OF leaf(2)]
    by (subst descend_to.simps) (auto simp: node_type_def)
next
  case (inner pid body cells rightmost ms m)
  let ?i = "child_index cells key"
  have c: "inner_child pid body key = Inr (child_at cells rightmost ?i)"
    by (simp add: inner_child_def inner_child_indexed_rep [OF inner(2,3)])
  have "descend_to src pid key = descend_to src (child_at cells rightmost ?i) key"
    using inner(1) inner_rep_fields(1) [OF inner(2)] c by (subst descend_to.simps) (simp add: node_type_def)
  then show ?case using inner(7) [OF child_index_le, of key] by (simp add: inner(6))
qed

lemma btree_get_tree:
  assumes "tree src root m" "root \<noteq> NO_ROOT"
  shows "btree_get src root key = (case m key of
      None \<Rightarrow> Some (Inr None)
    | Some p \<Rightarrow> opbind (read_value src p) (\<lambda>v. Some (Inr (Some v))))"
proof -
  obtain lp body cm prefix cells fin where d: "descend_to src root key = Some (Inr (lp, body))"
    "leaf_rep body cm prefix cells fin" "leaf_wf cells" "cells_map cells key = m key"
    using descend_to_tree [OF assms(1)] by blast
  then show ?thesis
    using assms(2) leaf_find_rep [OF d(2,3), of lp key] by (simp add: btree_get_def split: option.split)
qed

lemma btree_contains_tree:
  assumes "tree src root m" "root \<noteq> NO_ROOT"
  shows "btree_contains src root key = Some (Inr (m key \<noteq> None))"
proof -
  obtain lp body cm prefix cells fin where d: "descend_to src root key = Some (Inr (lp, body))"
    "leaf_rep body cm prefix cells fin" "leaf_wf cells" "cells_map cells key = m key"
    using descend_to_tree [OF assms(1)] by blast
  then show ?thesis
    using assms(2) leaf_contains_rep [OF d(2,3), of lp key] by (simp add: btree_contains_def)
qed

section \<open>Overflow chains\<close>

inductive chain :: "source \<Rightarrow> page_id \<Rightarrow> page_id set \<Rightarrow> bytes \<Rightarrow> bool" for src where
  nil: "chain src NO_ROOT {} []"
| link: "pid \<noteq> NO_ROOT \<Longrightarrow> src pid = Inr body \<Longrightarrow> parse_overflow pid body = Inr (chunk, next) \<Longrightarrow>
    chain src next P data \<Longrightarrow> pid \<notin> P \<Longrightarrow> chain src pid (insert pid P) (chunk @ data)"

inductive_cases chain_cases: "chain src pid P data"

lemma read_chain_chain: "chain src pid P data \<Longrightarrow> read_chain src pid = Some (Inr data)"
proof (induction rule: chain.induct)
  case nil
  then show ?case by (simp add: read_chain.simps)
next
  case (link pid body chunk "next" P data)
  then show ?case by (subst read_chain.simps) simp
qed

lemma chain_frame: "chain src pid P data \<Longrightarrow> (\<And>p. p \<in> P \<Longrightarrow> src' p = src p) \<Longrightarrow> chain src' pid P data"
proof (induction rule: chain.induct)
  case (link pid body chunk "next" P data)
  then show ?case by (intro chain.link) auto
qed (rule chain.nil)

section \<open>The store's invariant\<close>

text \<open>
  Every id handed out is dirty or freed, never both, and lies between the base and the next id;
  pages have their size.  \<open>room n\<close>: the id counter is at least \<open>n\<close> away from wrapping.
\<close>

definition ts_ok :: "tx_store \<Rightarrow> bool" where
  "ts_ok s \<longleftrightarrow> 3 \<le> alloc_base s \<and> alloc_base s \<le> alloc_next s \<and> distinct (freed s) \<and>
     set (freed s) \<inter> dom (dirty s) = {} \<and>
     set (freed s) \<union> dom (dirty s) = {p. alloc_base s \<le> p \<and> p < alloc_next s} \<and>
     (\<forall>p b. dirty s p = Some b \<longrightarrow> length b = PAGE_SIZE) \<and>
     (\<forall>p b. pager s p = Inr b \<longrightarrow> length b = PAGE_SIZE)"

definition room :: "nat \<Rightarrow> tx_store \<Rightarrow> bool" where
  "room n s \<longleftrightarrow> unat (alloc_next s) + n < 2 ^ 64"

lemma ts_ok_new:
  assumes "3 \<le> n_pages" "\<And>p b. read_page p = Inr b \<Longrightarrow> length b = PAGE_SIZE"
  shows "ts_ok (tx_store_new read_page n_pages)"
  using assms by (auto simp: ts_ok_def tx_store_new_def)

lemma ts_alloc_spec:
  assumes ok: "ts_ok s" and room: "room (Suc n) s"
  shows "\<exists>pid s'. ts_alloc s = Some (Inr pid, s') \<and> pid \<notin> dom (dirty s) \<and> pid \<noteq> NO_ROOT \<and> alloc_base s \<le> pid \<and>
    dirty s' = (dirty s)(pid \<mapsto> page_zeroed) \<and> pager s' = pager s \<and> alloc_base s' = alloc_base s \<and>
    append_cursor s' = append_cursor s \<and> ts_ok s' \<and> room n s'"
proof (cases "freed s")
  case Nil
  let ?n = "alloc_next s"
  have u: "unat (?n + 1) = Suc (unat ?n)"
    using room by (simp add: room_def unat_word_ariths)
  have lt: "p < ?n + 1 \<longleftrightarrow> p < ?n \<or> p = ?n" for p
    by (auto simp: word_less_nat_alt u less_Suc_eq word_unat_eq_iff)
  have b: "3 \<le> alloc_base s" "alloc_base s \<le> ?n" using ok by (auto simp: ts_ok_def)
  then have "alloc_base s \<le> ?n + 1" "?n \<noteq> 0" using u by (auto simp: word_le_nat_alt)
  note le = this(1) and nz = this(2)
  note nz
  moreover have "?n \<notin> dom (dirty s)" using ok by (auto simp: ts_ok_def)
  moreover have "ts_ok (s\<lparr>alloc_next := ?n + 1, dirty := (dirty s)(?n \<mapsto> page_zeroed)\<rparr>)"
    using ok b Nil le unfolding ts_ok_def
    by (auto simp: lt page_zeroed_def intro: order.trans less_imp_le)
  ultimately show ?thesis using Nil b room by (auto simp: ts_alloc_def room_def NO_ROOT_def u)
next
  case (Cons pid ids)
  then have p: "pid \<notin> dom (dirty s)" "alloc_base s \<le> pid" "pid < alloc_next s" "pid \<notin> set ids"
    and b: "3 \<le> alloc_base s"
    using ok unfolding ts_ok_def by auto
  then have "pid \<noteq> 0" by (auto simp: word_le_nat_alt)
  moreover have "ts_ok (s\<lparr>freed := ids, dirty := (dirty s)(pid \<mapsto> page_zeroed)\<rparr>)"
    using ok Cons p unfolding ts_ok_def by (auto simp: page_zeroed_def)
  ultimately show ?thesis using Cons p room by (auto simp: ts_alloc_def room_def NO_ROOT_def)
qed


lemma page_body_zeroed: "page_body page_zeroed = replicate BODY_SIZE 0"
  by (simp add: page_body_def page_zeroed_def BODY_SIZE_def drop_replicate)

lemma length_page_body: "length p = PAGE_SIZE \<Longrightarrow> length (page_body p) = BODY_SIZE"
  by (simp add: page_body_def BODY_SIZE_def)

lemma page_body_set_body: "length p = PAGE_SIZE \<Longrightarrow> page_body (set_body p b) = b"
  by (simp add: page_body_def set_body_def size_consts)

lemma length_set_body: "length p = PAGE_SIZE \<Longrightarrow> length b = BODY_SIZE \<Longrightarrow> length (set_body p b) = PAGE_SIZE"
  by (simp add: set_body_def size_consts)

lemma ts_body_dirty: "dirty s pid = Some p \<Longrightarrow> ts_body s pid = Inr (page_body p)"
  by (simp add: ts_body_def)

text \<open>A write through \<^verbatim>\<open>body_mut\<close>: the new body is read back, every other page is as before.\<close>

lemma ts_body_mut_spec:
  assumes ok: "ts_ok s" and d: "pid \<in> dom (dirty s)"
    and f: "\<And>b. length b = BODY_SIZE \<Longrightarrow> length (snd (f b)) = BODY_SIZE"
  shows "\<exists>b s'. ts_body s pid = Inr b \<and> length b = BODY_SIZE \<and>
    ts_body_mut pid f s = Some (fst (f b), s') \<and>
    ts_body s' pid = Inr (snd (f b)) \<and> (\<forall>q. q \<noteq> pid \<longrightarrow> ts_body s' q = ts_body s q) \<and>
    dom (dirty s') = dom (dirty s) \<and> freed s' = freed s \<and> alloc_next s' = alloc_next s \<and> pager s' = pager s \<and>
    alloc_base s' = alloc_base s \<and> append_cursor s' = append_cursor s \<and> ts_ok s'"
proof -
  obtain p where p: "dirty s pid = Some p" using d by blast
  have l: "length p = PAGE_SIZE" using ok p by (auto simp: ts_ok_def)
  obtain r b where fb: "f (page_body p) = (r, b)" by fastforce
  have lb: "length b = BODY_SIZE" using f [OF length_page_body [OF l]] fb by simp
  let ?s = "s\<lparr>dirty := (dirty s)(pid \<mapsto> set_body p b)\<rparr>"
  have "ts_body_mut pid f s = Some (r, ?s)" using p fb by (simp add: ts_body_mut_def)
  moreover have "ts_body s pid = Inr (page_body p)" by (rule ts_body_dirty [OF p])
  moreover have "ts_body ?s pid = Inr b" using page_body_set_body [OF l] by (simp add: ts_body_def)
  moreover have "\<forall>q. q \<noteq> pid \<longrightarrow> ts_body ?s q = ts_body s q"
    by (auto simp: ts_body_def split: option.split)
  moreover have "ts_ok ?s"
    using ok d length_set_body [OF l lb] unfolding ts_ok_def by auto
  ultimately show ?thesis using fb d length_page_body [OF l] by auto
qed

text \<open>Pages other than a fresh one are untouched by an allocation; the fresh one is zeroed.\<close>

lemma ts_alloc_body:
  assumes "ts_alloc s = Some (Inr pid, s')" "dirty s' = (dirty s)(pid \<mapsto> page_zeroed)" "pager s' = pager s"
    "alloc_base s' = alloc_base s"
  shows "ts_body s' pid = Inr (replicate BODY_SIZE 0)" "q \<noteq> pid \<Longrightarrow> ts_body s' q = ts_body s q"
  using assms page_body_zeroed by (auto simp: ts_body_def split: option.split)

section \<open>Writing and reading a chain\<close>

lemma overflow_data: "OVERFLOW_HDR + OVERFLOW_DATA = BODY_SIZE" "OVERFLOW_DATA < 2 ^ 16" "0 < OVERFLOW_DATA"
  by (simp_all add: OVERFLOW_DATA_def OVERFLOW_HDR_def size_consts)

lemma write_chain_loop_spec:
  "ts_ok s \<Longrightarrow> room (length cs + n) s \<Longrightarrow> (\<forall>c\<in>set cs. length c \<le> OVERFLOW_DATA) \<Longrightarrow>
   chain (ts_body s) next P data \<Longrightarrow> P \<subseteq> dom (dirty s) \<Longrightarrow>
   \<exists>first s' P'. write_chain_loop cs next s = Some (Inr first, s') \<and> chain (ts_body s') first P' (concat (rev cs) @ data)
     \<and> P' \<subseteq> dom (dirty s') \<and> P' \<inter> dom (dirty s) = P \<and> dom (dirty s) \<subseteq> dom (dirty s')
     \<and> (\<forall>q. q \<notin> P' - P \<longrightarrow> ts_body s' q = ts_body s q) \<and> ts_ok s' \<and> room n s'
     \<and> (\<forall>p\<in>P' - P. alloc_base s \<le> p) \<and> alloc_base s' = alloc_base s"
proof (induction cs arbitrary: s "next" P data)
  case Nil
  then show ?case by auto
next
  case (Cons c cs)
  obtain pid s1 where a: "ts_alloc s = Some (Inr pid, s1)" "pid \<notin> dom (dirty s)" "pid \<noteq> NO_ROOT" "alloc_base s \<le> pid"
    "dirty s1 = (dirty s)(pid \<mapsto> page_zeroed)" "pager s1 = pager s" "alloc_base s1 = alloc_base s"
    "ts_ok s1" "room (length cs + n) s1"
    using ts_alloc_spec [OF Cons.prems(1), of "length cs + n"] Cons.prems(2) by auto
  let ?f = "\<lambda>b. (Inr () :: unit res, encode_overflow c next b)"
  have lc: "length c \<le> OVERFLOW_DATA" using Cons.prems(3) by simp
  have lf: "length (snd (?f b)) = BODY_SIZE" if "length b = BODY_SIZE" for b
    using that lc overflow_data parse_encode_overflow(2) [of c b "next"] by simp
  obtain b s2 where m: "length b = BODY_SIZE" "ts_body_mut pid ?f s1 = Some (Inr (), s2)"
    "ts_body s2 pid = Inr (encode_overflow c next b)" "\<forall>q. q \<noteq> pid \<longrightarrow> ts_body s2 q = ts_body s1 q"
    "dom (dirty s2) = dom (dirty s1)" "alloc_next s2 = alloc_next s1" "ts_ok s2" "alloc_base s2 = alloc_base s1"
    using ts_body_mut_spec [OF a(8), of pid ?f] a(5) lf by auto
  have same: "ts_body s2 q = ts_body s q" if "q \<noteq> pid" for q
    using m(4) that ts_alloc_body(2) [OF a(1,5,6,7)] by simp
  have pP: "pid \<notin> P" using a(2) Cons.prems(5) by blast
  have "chain (ts_body s2) next P data"
  proof (rule chain_frame [OF Cons.prems(4)])
    fix q assume "q \<in> P"
    then have "q \<noteq> pid" using pP by auto
    then show "ts_body s2 q = ts_body s q" by (rule same)
  qed
  moreover have "parse_overflow pid (encode_overflow c next b) = Inr (c, next)"
    using parse_encode_overflow(1) [of c b pid "next"] lc m(1) overflow_data by simp
  ultimately have "chain (ts_body s2) pid (insert pid P) (c @ data)"
    using a(3) m(3) pP by (intro chain.link) auto
  moreover have "insert pid P \<subseteq> dom (dirty s2)" using m(5) a(5) Cons.prems(5) by auto
  moreover have "room (length cs + n) s2" using a(9) m(6) by (simp add: room_def)
  ultimately obtain first s' P' where r: "write_chain_loop cs pid s2 = Some (Inr first, s')"
    "chain (ts_body s') first P' (concat (rev cs) @ c @ data)" "P' \<subseteq> dom (dirty s')"
    "P' \<inter> dom (dirty s2) = insert pid P" "dom (dirty s2) \<subseteq> dom (dirty s')"
    "\<forall>q. q \<notin> P' - insert pid P \<longrightarrow> ts_body s' q = ts_body s2 q" "ts_ok s'" "room n s'"
    "\<forall>p\<in>P' - insert pid P. alloc_base s2 \<le> p" "alloc_base s' = alloc_base s2"
    using Cons.IH [OF m(7)] Cons.prems(3) by (metis list.set_intros(2))
  have "write_chain_loop (c # cs) next s = Some (Inr first, s')" using a(1) m(2) r(1) by simp
  moreover have "P' \<inter> dom (dirty s) = P" using r(4) m(5) a(2,5) Cons.prems(5) by auto
  moreover have "\<forall>q. q \<notin> P' - P \<longrightarrow> ts_body s' q = ts_body s q"
  proof (intro allI impI)
    fix q assume q: "q \<notin> P' - P"
    then have "q \<noteq> pid" using r(4) pP by auto
    then have "ts_body s2 q = ts_body s q" by (rule same)
    then show "ts_body s' q = ts_body s q" using r(6) q by auto
  qed
  moreover have "dom (dirty s) \<subseteq> dom (dirty s')" using r(5) m(5) a(5) by auto
  moreover have "\<forall>p\<in>P' - P. alloc_base s \<le> p" using r(9) m(8) a(4,7) by auto
  moreover have "alloc_base s' = alloc_base s" using r(10) m(8) a(7) by simp
  ultimately show ?case using r(2,3,7,8) by auto
qed

lemma concat_chunks: "0 < n \<Longrightarrow> concat (chunks n xs) = xs"
  by (induction n xs rule: chunks.induct) (subst chunks.simps, auto)

lemma chunks_length: "c \<in> set (chunks n xs) \<Longrightarrow> length c \<le> n"
  by (induction n xs rule: chunks.induct) (subst (asm) (2) chunks.simps, auto split: if_splits)

lemma write_chain_read:
  assumes "ts_ok s" "room (length (chunks OVERFLOW_DATA data)) s"
  shows "\<exists>first s'. write_chain data s = Some (Inr first, s') \<and> read_chain (ts_body s') first = Some (Inr data)
    \<and> ts_ok s' \<and> (\<forall>q. q \<in> dom (dirty s) \<or> q < alloc_base s \<longrightarrow> ts_body s' q = ts_body s q)"
proof -
  have "\<forall>c\<in>set (rev (chunks OVERFLOW_DATA data)). length c \<le> OVERFLOW_DATA"
    by (auto dest: chunks_length)
  then obtain first s' P' where r: "write_chain_loop (rev (chunks OVERFLOW_DATA data)) NO_ROOT s = Some (Inr first, s')"
    "chain (ts_body s') first P' (concat (rev (rev (chunks OVERFLOW_DATA data))) @ [])" "P' \<inter> dom (dirty s) = {}"
    "\<forall>q. q \<notin> P' - {} \<longrightarrow> ts_body s' q = ts_body s q" "ts_ok s'" "\<forall>p\<in>P' - {}. alloc_base s \<le> p"
    using write_chain_loop_spec [OF assms(1) _ _ chain.nil, of "rev (chunks OVERFLOW_DATA data)" 0] assms(2)
    by (metis add.right_neutral empty_subsetI length_rev)
  have "chain (ts_body s') first P' data" using r(2) concat_chunks [OF overflow_data(3), of data] by simp
  moreover have "q \<notin> P'" if "q \<in> dom (dirty s) \<or> q < alloc_base s" for q using that r(3,6) by auto
  ultimately show ?thesis using r read_chain_chain by (auto simp: write_chain_def)
qed

end
