(* ===== verification/BtreeSplit.thy ===== *)
theory BtreeSplit
  imports BtreeLaws
begin

text \<open>
  Leaf splits.  \<^verbatim>\<open>split_point\<close> weighs cells by their uncompressed size, but a full leaf may hold many
  more bytes of keys than a page, compressed by their long common prefix.  A key without that prefix
  forces the re-encoding without compression, and then a half need not fit; the code checks that
  only with \<^verbatim>\<open>debug_assert!\<close>.  Ten keys of 1001 bytes and one short key are enough.
\<close>

definition long_prefix :: bytes where "long_prefix = replicate 1000 1"

definition long_cell :: "u8 \<Rightarrow> leaf_cell" where
  "long_cell b = \<lparr>lkey = long_prefix @ [b], lpayload = Inline []\<rparr>"

definition long_cells :: "leaf_cell list" where
  "long_cells = map long_cell [1, 2, 3, 4, 5, 6, 7, 8, 9, 10]"

definition short_cell :: leaf_cell where
  "short_cell = \<lparr>lkey = [0], lpayload = Inline []\<rparr>"

lemma varint_len_small: "varint_len 0 = 1" "varint_len 1 = 1" "varint_len 1000 = 2" "varint_len 1001 = 2"
proof -
  have "bit_count 1 = 1" "bit_count 1000 = 10" "bit_count 1001 = 10"
    by (simp_all add: bit_count_div)
  then show "varint_len 0 = 1" "varint_len 1 = 1" "varint_len 1000 = 2" "varint_len 1001 = 2"
    by (simp_all add: varint_len_def leading_zeros_def div_ceil_def)
qed

lemma length_long_prefix: "length long_prefix = 1000"
  by (simp add: long_prefix_def)

lemma long_cell_size: "leaf_cell_size (long_cell b) = 1005"
  by (simp add: leaf_cell_size_def long_cell_def payload_size_def length_long_prefix varint_len_small)

lemma long_suffix_size: "leaf_suffix_cell_size 1000 (long_cell b) = 4"
  by (simp add: leaf_suffix_cell_size_def long_cell_def payload_size_def length_long_prefix varint_len_small Let_def)

lemma short_cell_size: "leaf_cell_size short_cell = 4"
  by (simp add: leaf_cell_size_def short_cell_def payload_size_def varint_len_small)

lemma lcp_loop_prefix: "x \<noteq> y \<Longrightarrow> lcp_loop (p @ x # xs) (p @ y # ys) = length p"
  by (induction p) auto

lemma long_cells_lcp: "a \<noteq> b \<Longrightarrow> lcp_loop (lkey (long_cell a)) (lkey (long_cell b)) = 1000"
  by (simp add: long_cell_def lcp_loop_prefix length_long_prefix)

lemma long_first: "lkey (long_cell b) \<noteq> 4 # ks"
proof -
  have p: "long_prefix = 1 # replicate 999 1" by (simp add: long_prefix_def flip: replicate_Suc)
  show ?thesis unfolding long_cell_def p by simp
qed

lemma long_less: "lkey (long_cell a) < lkey (long_cell b) \<longleftrightarrow> a < b"
  by (simp add: long_cell_def)

lemma long_cells_wf: "leaf_wf long_cells"
  by (simp add: leaf_wf_def long_cells_def long_less) (simp add: long_cell_def)

lemma long_cells_compress: "leaf_compresses long_cells" "leaf_plen long_cells = 1000"
  by (simp_all add: leaf_compresses_def leaf_plen_def long_cells_def keys_lcp_def long_cells_lcp long_first LEAF_MIN_PREFIX_def)

lemma long_cells_fin: "leaf_fin long_cells = 1046"
  by (simp add: leaf_fin_sizes(1) [OF long_cells_compress(1)] long_cells_compress(2) varint_len_small LEAF_HDR_def)
    (simp add: long_cells_def long_suffix_size)

lemma length_long_cells: "length long_cells = 10"
  by (simp add: long_cells_def)

text \<open>The cells with the short key, the split chosen for them and its two halves.\<close>

definition mixed_cells :: "leaf_cell list" where "mixed_cells = short_cell # long_cells"

lemma mixed_split: "split_point mixed_cells leaf_cell_size = 6"
  by (simp add: split_point_def mixed_cells_def long_cells_def short_cell_size long_cell_size Let_def)

lemma plain_first_short: "\<not> leaf_compresses (short_cell # long_cell b # cs)"
proof -
  have "lcp_loop [0] k = 0 \<or> hd k = 0" for k :: bytes by (cases k) auto
  then have "lcp_loop (lkey short_cell) (lkey (last (long_cell b # cs))) \<le> 1"
    using lcp_loop_take(1) [of "[0]"] by (simp add: short_cell_def)
  then show ?thesis by (simp add: leaf_compresses_def leaf_plen_def keys_lcp_def LEAF_MIN_PREFIX_def)
qed

lemma halves:
  "\<not> leaf_fin mixed_cells + 2 * length mixed_cells \<le> BODY_SIZE"
  "\<not> leaf_fin (take 6 mixed_cells) + 2 * length (take 6 mixed_cells) \<le> BODY_SIZE"
  "leaf_fin (drop 6 mixed_cells) + 2 * length (drop 6 mixed_cells) \<le> BODY_SIZE"
proof -
  have "\<not> leaf_compresses mixed_cells" "\<not> leaf_compresses (take 6 mixed_cells)"
    by (simp_all add: mixed_cells_def long_cells_def plain_first_short)
  note f = leaf_fin_sizes(2) [OF this(1)] leaf_fin_sizes(2) [OF this(2)]
  show "\<not> leaf_fin mixed_cells + 2 * length mixed_cells \<le> BODY_SIZE"
    "\<not> leaf_fin (take 6 mixed_cells) + 2 * length (take 6 mixed_cells) \<le> BODY_SIZE"
    unfolding f by (simp_all add: mixed_cells_def long_cells_def short_cell_size long_cell_size LEAF_HDR_def size_consts)
  have d: "drop 6 mixed_cells = map long_cell [6, 7, 8, 9, 10]" by (simp add: mixed_cells_def long_cells_def)
  have p: "leaf_plen (drop 6 mixed_cells) = 1000" and c: "leaf_compresses (drop 6 mixed_cells)"
    unfolding d by (simp_all add: leaf_compresses_def leaf_plen_def keys_lcp_def long_cells_lcp long_first LEAF_MIN_PREFIX_def)
  show "leaf_fin (drop 6 mixed_cells) + 2 * length (drop 6 mixed_cells) \<le> BODY_SIZE"
    unfolding leaf_fin_sizes(1) [OF c] p unfolding d
    by (simp add: long_suffix_size varint_len_small LEAF_HDR_def size_consts)
qed


section \<open>The lost key\<close>

abbreviation enc_leaf_mut :: "leaf_cell list \<Rightarrow> bytes \<Rightarrow> bool res \<times> bytes" where
  "enc_leaf_mut cells \<equiv> (\<lambda>b. let (ok, b) = encode_leaf cells b in (Inr ok, b))"

abbreviation enc_inner_mut :: "inner_cell list \<Rightarrow> page_id \<Rightarrow> bytes \<Rightarrow> bool res \<times> bytes" where
  "enc_inner_mut cells r \<equiv> (\<lambda>b. let (ok, b) = encode_inner cells r b in (Inr ok, b))"

text \<open>An encoding that does not fit leaves the page as it was; one that fits represents its cells.\<close>

lemma mut_leaf_no_fit:
  assumes "ts_ok s" "pid \<in> dom (dirty s)" "leaf_fin cells + 2 * length cells > BODY_SIZE"
  shows "\<exists>s'. ts_body_mut pid (enc_leaf_mut cells) s = Some (Inr False, s') \<and> ts_body s' = ts_body s \<and>
    dom (dirty s') = dom (dirty s) \<and> alloc_next s' = alloc_next s \<and> append_cursor s' = append_cursor s \<and> ts_ok s'"
proof -
  have n: "enc_leaf_mut cells b = (Inr False, b)" if "length b = BODY_SIZE" for b
    using assms(3) that by (simp add: encode_leaf_cases)
  have l: "length (snd (enc_leaf_mut cells b)) = BODY_SIZE" if "length b = BODY_SIZE" for b
    unfolding n [OF that] using that by simp
  obtain b s' where w: "ts_body s pid = Inr b" "length b = BODY_SIZE"
    "ts_body_mut pid (enc_leaf_mut cells) s = Some (fst (enc_leaf_mut cells b), s')"
    "ts_body s' pid = Inr (snd (enc_leaf_mut cells b))" "\<forall>q. q \<noteq> pid \<longrightarrow> ts_body s' q = ts_body s q"
    "dom (dirty s') = dom (dirty s)" "alloc_next s' = alloc_next s" "append_cursor s' = append_cursor s" "ts_ok s'"
    using ts_body_mut_spec [OF assms(1,2), of "enc_leaf_mut cells"] l by blast
  have "ts_body s' = ts_body s" using w(1,4,5) unfolding n [OF w(2)] by (metis snd_conv ext)
  then show ?thesis using w(3,6-9) unfolding n [OF w(2)] by auto
qed

lemma mut_leaf_fit:
  assumes "ts_ok s" "pid \<in> dom (dirty s)" "leaf_fin cells + 2 * length cells \<le> BODY_SIZE" "leaf_wf cells"
  shows "\<exists>s' b. ts_body_mut pid (enc_leaf_mut cells) s = Some (Inr True, s') \<and>
    ts_body s' pid = Inr b \<and> leaf_rep b (leaf_compresses cells) (leaf_prefix cells) cells (leaf_fin cells) \<and>
    (\<forall>q. q \<noteq> pid \<longrightarrow> ts_body s' q = ts_body s q) \<and>
    dom (dirty s') = dom (dirty s) \<and> alloc_next s' = alloc_next s \<and> append_cursor s' = append_cursor s \<and> ts_ok s'"
proof -
  have e: "encode_leaf cells b = (True, leaf_written cells b)" if "length b = BODY_SIZE" for b
    using assms(3) that by (simp add: encode_leaf_cases)
  have small: "BODY_SIZE < 2 ^ 16" by (simp add: size_consts)
  have l: "length (snd (enc_leaf_mut cells b)) = BODY_SIZE" if "length b = BODY_SIZE" for b
    using encode_leaf_rep(2) [OF e [OF that] assms(4)] that small by (simp add: e [OF that])
  obtain b s' where w: "ts_body s pid = Inr b" "length b = BODY_SIZE"
    "ts_body_mut pid (enc_leaf_mut cells) s = Some (fst (enc_leaf_mut cells b), s')"
    "ts_body s' pid = Inr (snd (enc_leaf_mut cells b))" "\<forall>q. q \<noteq> pid \<longrightarrow> ts_body s' q = ts_body s q"
    "dom (dirty s') = dom (dirty s)" "alloc_next s' = alloc_next s" "append_cursor s' = append_cursor s" "ts_ok s'"
    using ts_body_mut_spec [OF assms(1,2), of "enc_leaf_mut cells"] l by blast
  have "leaf_rep (leaf_written cells b) (leaf_compresses cells) (leaf_prefix cells) cells (leaf_fin cells)"
    using encode_leaf_rep(1) [OF e [OF w(2)] assms(4)] w(2) small by simp
  then show ?thesis using w(3-9) by (auto simp: e [OF w(2)])
qed

lemma mut_inner_fit:
  assumes "ts_ok s" "pid \<in> dom (dirty s)" "inner_size cells \<le> BODY_SIZE"
  shows "\<exists>s' b. ts_body_mut pid (enc_inner_mut cells r) s = Some (Inr True, s') \<and>
    ts_body s' pid = Inr b \<and> inner_rep b cells r \<and> (\<forall>q. q \<noteq> pid \<longrightarrow> ts_body s' q = ts_body s q) \<and>
    dom (dirty s') = dom (dirty s) \<and> alloc_next s' = alloc_next s \<and> append_cursor s' = append_cursor s \<and> ts_ok s'"
proof -
  have small: "BODY_SIZE < 2 ^ 16" by (simp add: size_consts)
  have e: "\<exists>b'. encode_inner cells r b = (True, b') \<and> length b' = BODY_SIZE \<and> inner_rep b' cells r"
    if "length b = BODY_SIZE" for b
    using encode_inner_rep(3) [of b cells r] that small assms(3) by simp
  have l: "length (snd (enc_inner_mut cells r b)) = BODY_SIZE" if "length b = BODY_SIZE" for b
    using e [OF that] by auto
  obtain b s' where w: "ts_body s pid = Inr b" "length b = BODY_SIZE"
    "ts_body_mut pid (enc_inner_mut cells r) s = Some (fst (enc_inner_mut cells r b), s')"
    "ts_body s' pid = Inr (snd (enc_inner_mut cells r b))" "\<forall>q. q \<noteq> pid \<longrightarrow> ts_body s' q = ts_body s q"
    "dom (dirty s') = dom (dirty s)" "alloc_next s' = alloc_next s" "append_cursor s' = append_cursor s" "ts_ok s'"
    using ts_body_mut_spec [OF assms(1,2), of "enc_inner_mut cells r"] l by blast
  then show ?thesis using e [OF w(2)] by auto
qed

lemma split_run:
  assumes ok: "ts_ok s" and room: "room 2 s" and cur: "append_cursor s = None"
    and d: "r \<in> dom (dirty s)" and b: "ts_body s r = Inr body"
    and rep: "leaf_rep body True long_prefix long_cells fin" and nz: "r \<noteq> NO_ROOT"
  shows "\<exists>root s'. btree_insert r [0] [] s = Some (Inr root, s') \<and>
    btree_get (ts_body s') root [0] = Some (Inr None)"
proof -
  have inl: "inline_cell_size [0] 0 \<le> MAX_INLINE_CELL"
    by (simp add: inline_cell_size_def MAX_INLINE_CELL_def varint_len_small)
  have leaf: "node_type body = TYPE_LEAF" using leaf_rep_fields(1) [OF rep] by (simp add: node_type_def)
  have np: "\<not> has_prefix long_prefix [0]"
  proof -
    have "take 1000 [0] \<noteq> long_prefix" by (rule notI, drule arg_cong [of _ _ length]) (simp add: length_long_prefix)
    then show ?thesis by (simp add: has_prefix_def length_long_prefix)
  qed
  let ?app = "\<lambda>b. case leaf_append r b [0] (Inline []) of Inl e \<Rightarrow> (Inl e, b) | Inr (x, b) \<Rightarrow> (Inr x, b)"
  have la: "?app body = (Inr None, body)" using leaf_append_rep [OF rep long_cells_wf, of r "[0]"] np by simp
  obtain p where p: "dirty s r = Some p" using d by blast
  have pb: "page_body p = body" "length p = PAGE_SIZE" using b p ok by (auto simp: ts_body_def ts_ok_def)
  have lb: "length body = BODY_SIZE" using length_page_body [OF pb(2)] pb(1) by simp
  define s1 where "s1 = s\<lparr>dirty := (dirty s)(r \<mapsto> set_body p body)\<rparr>"
  have sp: "set_body p body = p" using pb by (simp add: set_body_def page_body_def flip: pb(1))
  have s1: "ts_body_mut r ?app s = Some (Inr None, s1)"
    unfolding ts_body_mut_def p option.case pb(1) la s1_def by simp
  have "s1 = s" using p by (simp add: s1_def sp map_upd_triv)
  obtain s2 where s2: "ts_body_mut r (enc_leaf_mut mixed_cells) s = Some (Inr False, s2)" "ts_body s2 = ts_body s"
    "dom (dirty s2) = dom (dirty s)" "alloc_next s2 = alloc_next s" "append_cursor s2 = append_cursor s" "ts_ok s2"
    using mut_leaf_no_fit [OF ok d, of mixed_cells] halves(1) by fastforce
  have room2: "room (Suc 1) s2" using room s2(4) by (simp add: room_def)
  obtain R s3 where s3: "ts_alloc s2 = Some (Inr R, s3)" "R \<notin> dom (dirty s2)"
    "dirty s3 = (dirty s2)(R \<mapsto> page_zeroed)" "pager s3 = pager s2" "alloc_base s3 = alloc_base s2" "ts_ok s3" "room 1 s3"
    using ts_alloc_spec [OF s2(6) room2] by blast
  have Rr: "R \<noteq> r" using s3(2) s2(3) d by auto
  have w: "leaf_wf (drop 6 mixed_cells)"
    using long_cells_wf by (simp add: mixed_cells_def leaf_wf_def long_cells_def)
  obtain s4 b4 where s4: "ts_body_mut R (enc_leaf_mut (drop 6 mixed_cells)) s3 = Some (Inr True, s4)"
    "\<forall>q. q \<noteq> R \<longrightarrow> ts_body s4 q = ts_body s3 q" "dom (dirty s4) = dom (dirty s3)" "alloc_next s4 = alloc_next s3" "ts_ok s4"
    using mut_leaf_fit [OF s3(6) _ halves(3) w, of R] s3(3) by auto
  obtain s5 where s5: "ts_body_mut r (enc_leaf_mut (take 6 mixed_cells)) s4 = Some (Inr False, s5)" "ts_body s5 = ts_body s4"
    "dom (dirty s5) = dom (dirty s4)" "alloc_next s5 = alloc_next s4" "ts_ok s5"
    using mut_leaf_no_fit [OF s4(5), of r "take 6 mixed_cells"] halves(2) d s2(3) s3(3) s4(3) by fastforce
  have b5: "ts_body s5 r = Inr body"
    using s5(2) s4(2) Rr ts_alloc_body(2) [OF s3(1,3,4,5)] s2(2) b by auto
  let ?sep = "lkey (long_cell 6)"
  let ?root = "[\<lparr>ikey = ?sep, ichild = r\<rparr>]"
  have hd6: "hd (drop 6 mixed_cells) = long_cell 6" by (simp add: mixed_cells_def long_cells_def)
  have room5: "room (Suc 0) s5" using s3(7) s4(4) s5(4) by (simp add: room_def)
  obtain N s6 where s6: "ts_alloc s5 = Some (Inr N, s6)" "N \<notin> dom (dirty s5)" "N \<noteq> NO_ROOT"
    "dirty s6 = (dirty s5)(N \<mapsto> page_zeroed)" "pager s6 = pager s5" "alloc_base s6 = alloc_base s5" "ts_ok s6"
    using ts_alloc_spec [OF s5(5) room5] by blast
  have Nr: "N \<noteq> r" using s6(2) s5(3) s4(3) s3(3) s2(3) d by auto
  have isz: "inner_size ?root \<le> BODY_SIZE"
    by (simp add: inner_size_def inner_cell_size_def long_cell_def length_long_prefix varint_len_small INNER_HDR_def size_consts)
  obtain s7 b7 where s7: "ts_body_mut N (enc_inner_mut ?root R) s6 = Some (Inr True, s7)" "ts_body s7 N = Inr b7"
    "inner_rep b7 ?root R" "\<forall>q. q \<noteq> N \<longrightarrow> ts_body s7 q = ts_body s6 q"
    using mut_inner_fit [OF s6(7) _ isz, of N R] s6(4) by auto
  have b7: "ts_body s7 r = Inr body" using s7(4) Nr ts_alloc_body(2) [OF s6(1,4,5,6)] b5 by auto
  have sc: "search_cells long_cells [0] = Inl 0"
  proof -
    have "\<not> lkey (long_cell 1) < [0]" by (simp add: long_cell_def long_prefix_def numeral_eq_Suc)
    moreover have "lkey (long_cell 1) \<noteq> [0]" by (simp add: long_cell_def long_prefix_def numeral_eq_Suc)
    ultimately show ?thesis by (simp add: search_cells_def long_cells_def)
  qed
  have li: "list_insert 0 \<lparr>lkey = [0], lpayload = Inline []\<rparr> long_cells = mixed_cells" "length mixed_cells = 11"
    by (simp_all add: list_insert_def mixed_cells_def short_cell_def long_cells_def)
  have "leaf_insert_general r [0] (Inline []) s
      = Some (Inr \<lparr>io_id = r, io_split = Some (?sep, R), io_tail = None\<rparr>, s5)"
    using b parse_leaf_rep [OF rep long_cells_wf] s2(1) s3(1) s4(1) s5(1)
    by (simp add: leaf_insert_general_def sbind_def sc li mixed_split hd6 Let_def)
  then have ir: "insert_rec r [0] (Inline []) s = Some (Inr \<lparr>io_id = r, io_split = Some (?sep, R), io_tail = None\<rparr>, s5)"
    using b leaf d s1 \<open>s1 = s\<close>
    by (subst insert_rec.simps) (auto simp: sbind_def insert_leaf_def ts_make_dirty_def)
  have cs: "s\<lparr>append_cursor := None\<rparr> = s" using cur by (cases s) simp
  have ins: "btree_insert r [0] [] s = Some (Inr N, ts_set_append_cursor None s7)"
    using cur nz inl s6(1) s7(1)
    by (simp add: cs ir btree_insert_def cursor_insert_def ts_take_append_cursor_def sbind_def MAX_KEY_LEN_def)
  let ?src = "ts_body (ts_set_append_cursor None s7)"
  have src: "?src = ts_body s7" by (rule ext) (auto simp: ts_set_append_cursor_def ts_body_def split: option.split)
  have less: "\<not> ?sep \<le> [0]" by (simp add: long_cell_def long_prefix_def numeral_eq_Suc)
  have iw: "inner_wf ?root" by (simp add: inner_wf_def long_cell_def)
  have child: "inner_child N b7 [0] = Inr r"
    using inner_child_indexed_rep [OF s7(3) iw, of N "[0]"] less
    by (simp add: inner_child_def child_index_def child_at_def)
  have "descend_to ?src r [0] = Some (Inr (r, body))"
    by (subst descend_to.simps) (simp add: src b7 leaf)
  then have "descend_to ?src N [0] = Some (Inr (r, body))"
    using s7(2) inner_rep_fields(1) [OF s7(3)] child by (subst descend_to.simps) (simp add: src node_type_def)
  moreover have "leaf_find r body [0] = Inr None"
  proof -
    have "[0] \<notin> lkey ` set long_cells" by (auto simp: long_cells_def long_cell_def long_prefix_def numeral_eq_Suc)
    then show ?thesis using leaf_find_rep [OF rep long_cells_wf, of r "[0]"] by (simp add: cells_map_None)
  qed
  ultimately have "btree_get ?src N [0] = Some (Inr None)" using s6(3) by (simp add: btree_get_def)
  then show ?thesis using ins by blast
qed

text \<open>Such a state exists: the ten cells fit one leaf.\<close>

lemma long_leaf_state:
  "\<exists>s r body fin. ts_ok s \<and> room 2 s \<and> append_cursor s = None \<and> r \<in> dom (dirty s) \<and> r \<noteq> NO_ROOT \<and>
    ts_body s r = Inr body \<and> leaf_rep body True long_prefix long_cells fin"
proof -
  define s where "s = tx_store_new (\<lambda>_. Inl NotADatabase) 3"
  have ok: "ts_ok s" unfolding s_def by (rule ts_ok_new) simp_all
  have room: "room (Suc 2) s" by (simp add: room_def s_def tx_store_new_def)
  obtain r s1 where s1: "ts_alloc s = Some (Inr r, s1)" "r \<noteq> NO_ROOT" "dirty s1 = (dirty s)(r \<mapsto> page_zeroed)"
    "append_cursor s1 = append_cursor s" "ts_ok s1" "room 2 s1"
    using ts_alloc_spec [OF ok room] by blast
  have fit: "leaf_fin long_cells + 2 * length long_cells \<le> BODY_SIZE"
    by (simp add: long_cells_fin length_long_cells size_consts)
  have pre: "leaf_prefix long_cells = long_prefix"
    by (simp add: leaf_prefix_def long_cells_compress) (simp add: long_cells_def long_cell_def length_long_prefix)
  obtain s2 b where "ts_body s2 r = Inr b" "leaf_rep b True long_prefix long_cells (leaf_fin long_cells)"
    "dom (dirty s2) = dom (dirty s1)" "alloc_next s2 = alloc_next s1" "append_cursor s2 = append_cursor s1" "ts_ok s2"
    using mut_leaf_fit [OF s1(5) _ fit long_cells_wf, of r] s1(3) pre long_cells_compress(1) by auto
  then show ?thesis using s1 by (intro exI [of _ s2] exI [of _ r]) (auto simp: room_def s_def tx_store_new_def)
qed

end
