(* ===== verification/BtreeCursor.thy ===== *)
theory BtreeCursor
  imports BtreeLaws
begin

text \<open>
  The append cursor and deletion.  \<^verbatim>\<open>insert\<close> remembers where the rightmost leaf ends; \<^verbatim>\<open>delete\<close> re-encodes
  that leaf, shorter, and leaves the remembered offset as it was.  The next sequential insert then
  writes its cell beyond a gap of zero bytes, and the leaf no longer parses.
\<close>

section \<open>A gap inside a leaf\<close>

lemma parse_leaf_loop_gap:
  assumes l: "length body < 2 ^ 16"
  shows "at_pos body p (concat (map (cell_bytes prefix) cells)) \<Longrightarrow>
    (\<forall>c\<in>set cells. take (length prefix) (lkey c) = prefix) \<Longrightarrow> leaf_wf cells \<Longrightarrow>
    (\<forall>q c. prev = Some q \<longrightarrow> c \<in> set cells \<longrightarrow> q < lkey c) \<Longrightarrow>
    (cells = [] \<longrightarrow> (case prev of None \<Rightarrow> prefix = [] | Some q \<Rightarrow> prefix \<le> q)) \<Longrightarrow>
    at_pos body (p + length (concat (map (cell_bytes prefix) cells))) [0, 0] \<Longrightarrow>
    parse_leaf_loop page body prefix (length cells + Suc k) p prev
      = Inl (Corrupt page ''claves de hoja desordenadas o vacias'')"
proof (induction cells arbitrary: p prev)
  case Nil
  have z: "at_pos body p [0]" "at_pos body (p + 1) (put_varint 0)"
    using Nil(6) at_pos_append [of body p "[0]" "[0]"] by (simp_all add: put_varint.simps [of 0])
  have v: "length (put_varint 0) = 1" by (simp add: put_varint.simps [of 0])
  have "p + 2 \<le> length body" using at_pos_le [OF Nil(6)] by simp
  then have s: "get_at body p = Some 0" "get_slice page body (p + 2) 0 = Inr ([], p + 2)"
    using at_pos_get_at [OF z(1)] by (simp_all add: get_slice_def get_range_def)
  have g: "get_varint page body (p + 1) = Inr (0, p + 2)" using get_varint_at [OF z(2), of page] v by simp
  show ?case using Nil(5) s g by (cases prev) (simp_all add: Let_def)
next
  case (Cons c cs)
  let ?k = "drop (length prefix) (lkey c)" and ?q = "lpayload c"
  have key: "prefix @ ?k = lkey c" using Cons.prems(2) by (metis append_take_drop_id list.set_intros(1))
  have c: "at_pos body p (encode_leaf_cell ?k ?q)"
    using Cons.prems(1) by (simp add: at_pos_append cell_bytes_def)
  note s = cell_pieces [OF c]
  note g = get_varint_at [OF s(2), of page] get_slice_at [OF s(3) refl, of page] unat_len [OF s(3) l]
    read_leaf_payload_at [OF s(4) l, of page]
  let ?v = "put_varint (of_nat (length ?k)) :: bytes"
  let ?p' = "p + 1 + length ?v + length ?k + length (payload_bytes ?q)"
  have len: "length (cell_bytes prefix c) = 1 + length ?v + length ?k + length (payload_bytes ?q)"
    using length_cell_pieces [of ?k ?q] by (simp add: cell_bytes_def)
  have n: "at_pos body ?p' (concat (map (cell_bytes prefix) cs))"
    using Cons.prems(1) len by (simp add: at_pos_append add.assoc)
  have z: "at_pos body (?p' + length (concat (map (cell_bytes prefix) cs))) [0, 0]"
    using Cons.prems(6) len by (simp add: add.assoc)
  have "prefix \<le> lkey c" using append_mono_le [of prefix "[]" ?k] key by simp
  then have "parse_leaf_loop page body prefix (length cs + Suc k) ?p' (Some (lkey c))
      = Inl (Corrupt page ''claves de hoja desordenadas o vacias'')"
    by (intro Cons.IH [OF n _ _ _ _ z]) (use Cons.prems(2,3) in \<open>auto simp: leaf_wf_def\<close>)
  moreover have "lkey c \<noteq> []" "\<not> (case prev of None \<Rightarrow> False | Some q \<Rightarrow> q \<ge> lkey c)"
    using Cons.prems(3,4) by (auto simp: leaf_wf_def not_le split: option.split)
  ultimately show ?case
    by (cases prev) (simp_all add: s(1) g [simplified] key Let_def parse_leaf_loop_Suc del: parse_leaf_loop.simps(2))
qed

lemma leaf_written_gap:
  assumes "encode_leaf cells body = (True, body')" "leaf_wf cells" "length body < 2 ^ 16"
  shows "at_pos body' (leaf_fin cells) (replicate (length body - 2 * length cells - leaf_fin cells) 0)"
proof -
  let ?p = "leaf_prefix cells" and ?h = "leaf_hdr (leaf_compresses cells) (leaf_prefix cells) (length cells)"
  obtain b1 off where fits: "leaf_fin cells + 2 * length cells \<le> length body"
    and w: "write_cells (\<lambda>body off c. write_leaf_cell_at body off (drop (length ?p) (lkey c)) (lpayload c))
        (blit body 0 ?h) 0 (length ?h) cells = (b1, off)"
    and b': "body' = blit b1 (leaf_fin cells) (replicate (length b1 - 2 * length cells - leaf_fin cells) 0)"
    using assms(1) unfolding encode_leaf_cases leaf_written_def Let_def by (auto split: if_splits prod.splits)
  have hl: "length ?h = leaf_start (leaf_compresses cells) ?p" by (rule length_leaf_hdr)
  have hb: "length (blit body 0 ?h) = length body"
    using fits hl by (simp add: leaf_fin_def)
  have "length b1 = length body"
    using write_cells_spec [where enc = "cell_bytes ?p" and i = 0, OF _ _ w] fits hl hb
    by (simp add: write_leaf_cell_at_blit cell_bytes_def leaf_fin_def)
  then show ?thesis using fits b' by (simp add: blit_at_pos)
qed

text \<open>A cell written beyond the end: the decoder meets the gap.\<close>

lemma stale_append_corrupts:
  assumes r: "leaf_rep body cm prefix cells fin" and w: "leaf_wf cells" and ne: "cells \<noteq> []"
    and gap: "at_pos body fin [0, 0]" and stale: "fin + 2 \<le> off"
    and app: "append_inline_at body off key value = (Some e, body')"
  shows "parse_leaf page body' = Inl (Corrupt page ''claves de hoja desordenadas o vacias'')"
    and "length body' = length body" and "body' ! 0 = TYPE_LEAF"
proof -
  let ?c = "\<lparr>lkey = key, lpayload = Inline value\<rparr>"
  let ?cell = "cell_bytes prefix ?c" and ?n = "length cells" and ?L = "length body"
  have fits: "off + length ?cell \<le> ?L - 2 * (?n + 1)" and b': "body' = leaf_appended body ?n off ?cell"
    using app append_inline_at_any [OF r, where off = off and key = key] by (auto simp: Let_def split: if_splits)
  have st: "4 \<le> leaf_start cm prefix" "leaf_start cm prefix \<le> fin"
    using r by (auto simp: leaf_start_def LEAF_HDR_def leaf_rep_def)
  have cl: "1 \<le> length ?cell" by (simp add: cell_bytes_def length_encode_leaf_cell)
  have f2: "off + length ?cell + 2 * (?n + 1) \<le> ?L" using fits cl by linarith
  let ?b1 = "blit body off ?cell"
  let ?b2 = "set_cell_ptr ?b1 ?n off"
  have l1: "length ?b1 = ?L" using f2 by simp
  have l2: "length ?b2 = ?L" using f2 l1 by (simp add: set_cell_ptr_def)
  have b3: "body' = blit ?b2 2 (u16_le (of_nat (Suc ?n)))" by (simp add: b' leaf_appended_def)
  show l3: "length body' = ?L" using b3 f2 l2 st stale by simp
  have low: "at_pos body' q t = at_pos body q t" if "4 \<le> q" "q + length t \<le> off" for q t
    using that f2 l1 l2 stale by (simp add: b3 blit_at_pos_before blit_at_pos_after set_cell_ptr_def)
  have hdr: "at_pos body' 0 [x] = at_pos body 0 [x]" "at_pos body' 1 [x] = at_pos body 1 [x]" for x
    using f2 l1 l2 st stale by (simp_all add: b3 blit_at_pos_before set_cell_ptr_def)
  note f = leaf_rep_fields [OF r]
  have b0: "body' ! 0 = body ! 0" "body' ! 1 = body ! 1"
  proof -
    have "1 < length body" using f2 st stale by linarith
    then have "0 < length body" "1 < length body" by auto
    then show "body' ! 0 = body ! 0" "body' ! 1 = body ! 1"
      using hdr(1) [of "body ! 0"] hdr(2) [of "body ! 1"] by (simp_all add: at_pos_get)
  qed
  show "body' ! 0 = TYPE_LEAF" using b0 f(1) by simp
  have "at_pos body' 2 (u16_le (of_nat (Suc ?n)))" unfolding b3 using f2 l2 st stale by (intro blit_at_pos) simp
  moreover have "Suc ?n < 2 ^ 16" using f2 f(5) by simp
  ultimately have nc: "node_ncells body' = Suc ?n"
    using at_pos_u16 [of body' 2 "of_nat (Suc ?n)"]
    by (simp add: node_ncells_def unat_of_nat_u16 numeral_3_eq_3 del: of_nat_Suc)
  have pre: "leaf_prefix_and_start page body' = Inr (prefix, leaf_start cm prefix)"
  proof (cases cm)
    case True
    then have "at_pos body LEAF_HDR (put_varint (of_nat (length prefix)) @ prefix)" using r by (simp add: leaf_rep_def)
    then have "at_pos body' LEAF_HDR (put_varint (of_nat (length prefix)) @ prefix)"
      using low [of LEAF_HDR "put_varint (of_nat (length prefix)) @ prefix"] st stale True
      by (simp add: leaf_start_def LEAF_HDR_def)
    then have s: "at_pos body' LEAF_HDR (put_varint (of_nat (length prefix)))"
      "at_pos body' (LEAF_HDR + length (put_varint (of_nat (length prefix)))) prefix"
      by (simp_all add: at_pos_append)
    have "leaf_is_compressed body'" using f(2) True b0 by (simp add: leaf_is_compressed_def)
    then show ?thesis
      using get_slice_at [OF s(2) refl] unat_len [OF s(2)] True l3 f(5)
      by (simp add: leaf_prefix_and_start_def get_varint_at [OF s(1)] leaf_start_def)
  next
    case False
    then have "\<not> leaf_is_compressed body'" "prefix = []" using f(2) b0 r by (simp_all add: leaf_is_compressed_def leaf_rep_def)
    then show ?thesis using False by (simp add: leaf_prefix_and_start_def leaf_start_def)
  qed
  have content: "at_pos body' (leaf_start cm prefix) (concat (map (cell_bytes prefix) cells))"
    and fin: "fin = leaf_start cm prefix + length (concat (map (cell_bytes prefix) cells))"
    using r low [of "leaf_start cm prefix" "concat (map (cell_bytes prefix) cells)"] st stale
    by (simp_all add: leaf_rep_def)
  have z: "at_pos body' (leaf_start cm prefix + length (concat (map (cell_bytes prefix) cells))) [0, 0]"
    using gap low [of fin "[0, 0]"] st stale fin by simp
  have "\<forall>c\<in>set cells. take (length prefix) (lkey c) = prefix" using r by (simp add: leaf_rep_def)
  from parse_leaf_loop_gap [OF _ content this w _ _ z, where prev = None and k = 0 and page = page]
  show "parse_leaf page body' = Inl (Corrupt page ''claves de hoja desordenadas o vacias'')"
    using l3 f(1,5) b0 nc pre ne by (simp add: parse_leaf_def)
qed


section \<open>The run\<close>

text \<open>Three keys in ascending order, each short enough to be inline: the pieces of the run.\<close>

abbreviation icell :: "bytes \<Rightarrow> bytes \<Rightarrow> leaf_cell" where
  "icell k v \<equiv> \<lparr>lkey = k, lpayload = Inline v\<rparr>"

lemma icell_size: "leaf_cell_size (icell k v) = inline_cell_size k (length v)"
  by (simp add: leaf_cell_size_def inline_cell_size_def payload_size_def)

lemma cell_bytes_Nil: "length (cell_bytes [] c) = leaf_cell_size c"
  by (simp add: length_cell_bytes leaf_suffix_cell_size_0)

lemma icell_size_ge: "k \<noteq> [] \<Longrightarrow> 4 \<le> leaf_cell_size (icell k v)"
  using varint_len_bounds(1) [of "of_nat (length k)"] varint_len_bounds(1) [of "of_nat (length v)"]
  by (cases k) (auto simp: leaf_cell_size_def payload_size_def)

lemma leaf_plain_single: "\<not> leaf_compresses [c]" "leaf_prefix [c] = []"
  "leaf_fin [c] = LEAF_HDR + leaf_cell_size c"
proof -
  show n: "\<not> leaf_compresses [c]" using leaf_compresses_length [of "[c]"] by auto
  then show "leaf_prefix [c] = []" "leaf_fin [c] = LEAF_HDR + leaf_cell_size c"
    by (simp_all add: leaf_prefix_Nil leaf_fin_sizes(2))
qed

lemma encode_single:
  assumes "leaf_cell_size c \<le> MAX_INLINE_CELL" "length body = BODY_SIZE" "lkey c \<noteq> []"
  shows "\<exists>b. encode_leaf [c] body = (True, b) \<and> length b = BODY_SIZE \<and>
    leaf_rep b False [] [c] (LEAF_HDR + leaf_cell_size c) \<and> at_pos b (LEAF_HDR + leaf_cell_size c) [0, 0]"
proof -
  have fit: "LEAF_HDR + leaf_cell_size c + 4 \<le> length body"
    using assms by (simp add: LEAF_HDR_def MAX_INLINE_CELL_def size_consts)
  then have e: "encode_leaf [c] body = (True, leaf_written [c] body)"
    by (simp add: encode_leaf_cases leaf_plain_single)
  have w: "leaf_wf [c]" using assms(3) by (simp add: leaf_wf_def)
  have l: "length body < 2 ^ 16" using assms(2) by (simp add: size_consts)
  note r = encode_leaf_rep [OF e w l] and g = leaf_written_gap [OF e w l]
  have z: "replicate (length body - 2 * length [c] - leaf_fin [c]) (0 :: u8)
      = [0, 0] @ replicate (length body - 4 - leaf_fin [c]) 0"
  proof -
    have "length body - 2 * length [c] - leaf_fin [c] = Suc (Suc (length body - 4 - leaf_fin [c]))"
      using fit by (simp add: leaf_plain_single)
    then show ?thesis by simp
  qed
  have "at_pos (leaf_written [c] body) (leaf_fin [c]) [0, 0]"
    using g unfolding z at_pos_append by blast
  then show ?thesis using e r assms(2) by (simp add: leaf_plain_single)
qed

lemma append_fits:
  assumes r: "leaf_rep body False [] cells fin" and w: "leaf_wf (cells @ [icell k v])"
    and l: "length body = BODY_SIZE" and fit: "fin + leaf_cell_size (icell k v) + 2 * (length cells + 1) \<le> BODY_SIZE"
  shows "leaf_append page body k (Inline v)
      = Inr (Some (fin + leaf_cell_size (icell k v)), leaf_appended body (length cells) fin (cell_bytes [] (icell k v)))"
    and "leaf_rep (leaf_appended body (length cells) fin (cell_bytes [] (icell k v))) False [] (cells @ [icell k v])
      (fin + leaf_cell_size (icell k v))"
    and "length (leaf_appended body (length cells) fin (cell_bytes [] (icell k v))) = BODY_SIZE"
proof -
  have "leaf_wf cells" "\<forall>d\<in>set cells. lkey d < k" using w by (auto simp: leaf_wf_def sorted_wrt_append)
  then show "leaf_append page body k (Inline v)
      = Inr (Some (fin + leaf_cell_size (icell k v)), leaf_appended body (length cells) fin (cell_bytes [] (icell k v)))"
    using leaf_append_rep [OF r, of page k "Inline v"] fit l
    by (auto simp: Let_def has_prefix_def cell_bytes_Nil leD)
  have f: "fin + length (cell_bytes [] (icell k v)) \<le> length body - 2 * (length cells + 1)"
    using fit l by (simp add: cell_bytes_Nil)
  show "leaf_rep (leaf_appended body (length cells) fin (cell_bytes [] (icell k v))) False [] (cells @ [icell k v])
      (fin + leaf_cell_size (icell k v))"
    "length (leaf_appended body (length cells) fin (cell_bytes [] (icell k v))) = BODY_SIZE"
    using leaf_appended_rep [OF r _ f] l by (simp_all add: has_prefix_def cell_bytes_Nil)
qed

text \<open>States with a single dirty page, the root leaf.\<close>

definition one_leaf :: "tx_store \<Rightarrow> page_id \<Rightarrow> bytes \<Rightarrow> append_cursor option \<Rightarrow> bool" where
  "one_leaf s pid body c \<longleftrightarrow> pid \<noteq> NO_ROOT \<and> (\<exists>p. dirty s pid = Some p \<and> length p = PAGE_SIZE \<and> page_body p = body)
     \<and> append_cursor s = c"

lemma one_leaf_body: "one_leaf s pid body c \<Longrightarrow> ts_body s pid = Inr body"
  by (auto simp: one_leaf_def ts_body_def)

lemma one_leaf_mut:
  assumes "one_leaf s pid body c" "f body = (r, body')" "length body' = BODY_SIZE"
  shows "\<exists>s'. ts_body_mut pid f s = Some (r, s') \<and> one_leaf s' pid body' c"
proof -
  obtain p where p: "dirty s pid = Some p" "length p = PAGE_SIZE" "page_body p = body"
    using assms(1) by (auto simp: one_leaf_def)
  then show ?thesis
    using assms length_set_body [OF p(2) assms(3)] page_body_set_body [OF p(2), of body']
    by (auto simp: ts_body_mut_def one_leaf_def)
qed

lemma one_leaf_make_dirty: "one_leaf s pid body c \<Longrightarrow> ts_make_dirty pid s = Some (Inr pid, s)"
  by (auto simp: one_leaf_def ts_make_dirty_def)

lemma run_first:
  assumes "alloc_base s = alloc_next s" "freed s = []" "append_cursor s = None" "alloc_next s \<noteq> NO_ROOT"
    and k: "k \<noteq> []" "length k \<le> MAX_KEY_LEN" "inline_cell_size k (length v) \<le> MAX_INLINE_CELL"
  shows "\<exists>s' body. btree_insert NO_ROOT k v s = Some (Inr (alloc_next s), s') \<and>
    one_leaf s' (alloc_next s) body None \<and> length body = BODY_SIZE \<and>
    leaf_rep body False [] [icell k v] (LEAF_HDR + leaf_cell_size (icell k v))"
proof -
  obtain b where b: "encode_leaf [icell k v] (replicate BODY_SIZE 0) = (True, b)" "length b = BODY_SIZE"
    "leaf_rep b False [] [icell k v] (LEAF_HDR + leaf_cell_size (icell k v))"
    using encode_single [of "icell k v" "replicate BODY_SIZE 0"] k by (auto simp: icell_size)
  let ?s1 = "s\<lparr>append_cursor := None, alloc_next := alloc_next s + 1, dirty := (dirty s)(alloc_next s \<mapsto> page_zeroed)\<rparr>"
  have "one_leaf ?s1 (alloc_next s) (replicate BODY_SIZE 0) None"
    using assms(4) page_body_zeroed by (simp add: one_leaf_def page_zeroed_def)
  from one_leaf_mut [OF this, of "\<lambda>b. let (ok, b) = encode_leaf [icell k v] b in (Inr ok, b)" "Inr True" b]
  obtain s2 where s2: "ts_body_mut (alloc_next s) (\<lambda>b. let (ok, b) = encode_leaf [icell k v] b in (Inr ok, b)) ?s1
      = Some (Inr True, s2)" "one_leaf s2 (alloc_next s) b None"
    using b by auto
  have "btree_insert NO_ROOT k v s = Some (Inr (alloc_next s), ts_set_append_cursor None s2)"
    using assms s2(1) by (simp add: btree_insert_def cursor_insert_def ts_take_append_cursor_def ts_alloc_def sbind_def Let_def)
  moreover have "one_leaf (ts_set_append_cursor None s2) (alloc_next s) b None"
    using s2(2) by (simp add: one_leaf_def ts_set_append_cursor_def)
  ultimately show ?thesis using b by blast
qed

lemma run_append:
  assumes o: "one_leaf s pid body None" and r: "leaf_rep body False [] cells fin"
    and w: "leaf_wf (cells @ [icell k v])" and l: "length body = BODY_SIZE"
    and fit: "fin + leaf_cell_size (icell k v) + 2 * (length cells + 1) \<le> BODY_SIZE"
    and k: "length k \<le> MAX_KEY_LEN" "inline_cell_size k (length v) \<le> MAX_INLINE_CELL"
  shows "\<exists>s' body'. btree_insert pid k v s = Some (Inr pid, s') \<and>
    one_leaf s' pid body' (Some \<lparr>ac_root = pid, ac_leaf = pid, ac_end = fin + leaf_cell_size (icell k v),
      ac_last_key = k\<rparr>) \<and>
    length body' = BODY_SIZE \<and> leaf_rep body' False [] (cells @ [icell k v]) (fin + leaf_cell_size (icell k v))"
proof -
  let ?e = "fin + leaf_cell_size (icell k v)"
  let ?b = "leaf_appended body (length cells) fin (cell_bytes [] (icell k v))"
  note a = append_fits [OF r w l fit]
  have ne: "k \<noteq> []" using w by (auto simp: leaf_wf_def)
  have o': "one_leaf (s\<lparr>append_cursor := None\<rparr>) pid body None" using o by (simp add: one_leaf_def)
  let ?f = "\<lambda>b. case leaf_append pid b k (Inline v) of Inl e \<Rightarrow> (Inl e, b) | Inr (r, b) \<Rightarrow> (Inr r, b)"
  obtain s2 where s2: "ts_body_mut pid ?f (s\<lparr>append_cursor := None\<rparr>) = Some (Inr (Some ?e), s2)" "one_leaf s2 pid ?b None"
    using one_leaf_mut [OF o', of ?f "Inr (Some ?e)" ?b] a by auto
  have "node_type body = TYPE_LEAF" using leaf_rep_fields(1) [OF r] by (simp add: node_type_def)
  then have "insert_rec pid k (Inline v) (s\<lparr>append_cursor := None\<rparr>)
      = Some (Inr \<lparr>io_id = pid, io_split = None, io_tail = Some \<lparr>tl_leaf = pid, tl_end = ?e, tl_last_key = k\<rparr>\<rparr>, s2)"
    using one_leaf_body [OF o'] one_leaf_make_dirty [OF o'] s2(1)
    by (subst insert_rec.simps) (simp add: sbind_def insert_leaf_def)
  then have "btree_insert pid k v s = Some (Inr pid, ts_set_append_cursor (Some \<lparr>ac_root = pid, ac_leaf = pid,
      ac_end = ?e, ac_last_key = k\<rparr>) s2)"
    using o ne k by (simp add: btree_insert_def cursor_insert_def ts_take_append_cursor_def sbind_def one_leaf_def)
  moreover have "one_leaf (ts_set_append_cursor (Some \<lparr>ac_root = pid, ac_leaf = pid,
      ac_end = ?e, ac_last_key = k\<rparr>) s2) pid ?b (Some \<lparr>ac_root = pid, ac_leaf = pid, ac_end = ?e, ac_last_key = k\<rparr>)"
    using s2(2) by (simp add: one_leaf_def ts_set_append_cursor_def)
  ultimately show ?thesis using a by blast
qed

text \<open>Deleting the last of two cells keeps the page and the cursor, and shortens the leaf.\<close>

lemma run_delete:
  assumes o: "one_leaf s pid body c" and r: "leaf_rep body False [] [c1, icell k v] fin"
    and w: "leaf_wf [c1, icell k v]" and l: "length body = BODY_SIZE"
    and s1: "leaf_cell_size c1 \<le> MAX_INLINE_CELL"
  shows "\<exists>s' body'. btree_delete pid k s = Some (Inr (pid, True), s') \<and> one_leaf s' pid body' c \<and>
    length body' = BODY_SIZE \<and> leaf_rep body' False [] [c1] (LEAF_HDR + leaf_cell_size c1) \<and>
    at_pos body' (LEAF_HDR + leaf_cell_size c1) [0, 0]"
proof -
  obtain b where b: "encode_leaf [c1] body = (True, b)" "length b = BODY_SIZE"
    "leaf_rep b False [] [c1] (LEAF_HDR + leaf_cell_size c1)" "at_pos b (LEAF_HDR + leaf_cell_size c1) [0, 0]"
    using encode_single [OF s1 l] w by (auto simp: leaf_wf_def)
  let ?f = "\<lambda>b. let (ok, b) = encode_leaf [c1] b in (Inr ok, b)"
  obtain s2 where s2: "ts_body_mut pid ?f s = Some (Inr True, s2)" "one_leaf s2 pid b c"
    using one_leaf_mut [OF o, of ?f "Inr True" b] b by auto
  have "lkey c1 < k" using w by (simp add: leaf_wf_def)
  then have "search_cells [c1, icell k v] k = Inr 1" by (simp add: search_cells_def)
  moreover have "parse_leaf pid body = Inr [c1, icell k v]" by (rule parse_leaf_rep [OF r w])
  moreover have "node_type body = TYPE_LEAF" using leaf_rep_fields(1) [OF r] by (simp add: node_type_def)
  ultimately have "delete_rec pid k s = Some (Inr (Some pid, True), s2)"
    using one_leaf_body [OF o] one_leaf_make_dirty [OF o] s2(1)
    by (subst delete_rec.simps) (simp add: sbind_def delete_leaf_def free_payload_def list_remove_def)
  then have "btree_delete pid k s = Some (Inr (pid, True), s2)"
    using o by (simp add: btree_delete_def sbind_def one_leaf_def)
  then show ?thesis using s2(2) b by blast
qed

text \<open>The cursor's fast path at an offset beyond the end of the leaf.\<close>

lemma run_stale:
  assumes o: "one_leaf s pid body (Some \<lparr>ac_root = pid, ac_leaf = pid, ac_end = off, ac_last_key = lk\<rparr>)"
    and r: "leaf_rep body False [] cells fin" and w: "leaf_wf cells" and ne: "cells \<noteq> []"
    and gap: "at_pos body fin [0, 0]" and stale: "fin + 2 \<le> off" and l: "length body = BODY_SIZE"
    and fit: "off + leaf_cell_size (icell k v) + 2 * (length cells + 1) \<le> BODY_SIZE"
    and k: "lk < k" "length k \<le> MAX_KEY_LEN" "inline_cell_size k (length v) \<le> MAX_INLINE_CELL"
  shows "\<exists>s' body'. btree_insert pid k v s = Some (Inr pid, s') \<and> ts_body s' pid = Inr body' \<and>
    body' ! 0 = TYPE_LEAF \<and> (\<forall>page. parse_leaf page body' = Inl (Corrupt page ''claves de hoja desordenadas o vacias''))
    \<and> pid \<noteq> NO_ROOT"
proof -
  have f: "off + length (cell_bytes [] (icell k v)) \<le> length body - 2 * (length cells + 1)"
    using fit l by (simp add: cell_bytes_Nil)
  then obtain e b where b: "append_inline_at body off k v = (Some e, b)"
    using append_inline_at_any [OF r, of off k v] by (simp add: Let_def has_prefix_def)
  note st = stale_append_corrupts [OF r w ne gap stale b]
  let ?f = "\<lambda>b. let (r, b) = append_inline_at b off k v in (Inr r, b)"
  let ?s0 = "s\<lparr>append_cursor := None\<rparr>"
  have o': "one_leaf ?s0 pid body None" using o by (simp add: one_leaf_def)
  obtain s2 where s2: "ts_body_mut pid ?f ?s0 = Some (Inr (Some e), s2)" "one_leaf s2 pid b None"
    using one_leaf_mut [OF o', of ?f "Inr (Some e)" b] b st(2) l by auto
  have ne': "k \<noteq> []" using k(1) by auto
  let ?c = "\<lparr>ac_root = pid, ac_leaf = pid, ac_end = e, ac_last_key = k\<rparr>"
  have "btree_insert pid k v s = Some (Inr pid, ts_set_append_cursor (Some ?c) s2)"
    using o ne' k s2(1)
    by (auto simp: btree_insert_def cursor_insert_def ts_take_append_cursor_def sbind_def one_leaf_def ts_is_dirty_def)
  moreover have "one_leaf (ts_set_append_cursor (Some ?c) s2) pid b (Some ?c)"
    using s2(2) by (simp add: ts_set_append_cursor_def one_leaf_def)
  from one_leaf_body [OF this] have "ts_body (ts_set_append_cursor (Some ?c) s2) pid = Inr b" .
  ultimately show ?thesis using st(1,3) o by (auto simp: one_leaf_def)
qed


text \<open>
  Insert two keys in ascending order, delete the second, insert a third above it: every call
  succeeds, and from then on the leaf does not parse, so that deleting the first key fails.
\<close>

lemma cursor_survives_delete:
  assumes base: "alloc_base s = alloc_next s" "freed s = []" "append_cursor s = None" "alloc_next s \<noteq> NO_ROOT"
    and keys: "k1 \<noteq> []" "k1 < k2" "k2 < k3" "length k1 \<le> MAX_KEY_LEN" "length k2 \<le> MAX_KEY_LEN" "length k3 \<le> MAX_KEY_LEN"
    and small: "inline_cell_size k1 (length v1) \<le> MAX_INLINE_CELL" "inline_cell_size k2 (length v2) \<le> MAX_INLINE_CELL"
      "inline_cell_size k3 (length v3) \<le> MAX_INLINE_CELL"
  shows "\<exists>r s1 s2 s3 s4 s5. btree_insert NO_ROOT k1 v1 s = Some (Inr r, s1) \<and>
    btree_insert r k2 v2 s1 = Some (Inr r, s2) \<and>
    btree_delete r k2 s2 = Some (Inr (r, True), s3) \<and>
    btree_insert r k3 v3 s3 = Some (Inr r, s4) \<and>
    btree_delete r k1 s4 = Some (Inl (Corrupt r ''claves de hoja desordenadas o vacias''), s5)"
proof -
  let ?r = "alloc_next s" and ?c1 = "icell k1 v1"
  have ne: "k2 \<noteq> []" "k3 \<noteq> []" using keys by auto
  note sz = small [folded icell_size, unfolded MAX_INLINE_CELL_def]
  obtain s1 b1 where 1: "btree_insert NO_ROOT k1 v1 s = Some (Inr ?r, s1)" "one_leaf s1 ?r b1 None"
    "length b1 = BODY_SIZE" "leaf_rep b1 False [] [?c1] (LEAF_HDR + leaf_cell_size ?c1)"
    using run_first [OF base keys(1,4) small(1)] by blast
  have w2: "leaf_wf ([?c1] @ [icell k2 v2])" using keys(1,2) ne by (simp add: leaf_wf_def)
  have f2: "LEAF_HDR + leaf_cell_size ?c1 + leaf_cell_size (icell k2 v2) + 2 * (length [?c1] + 1) \<le> BODY_SIZE"
    using sz by (simp add: LEAF_HDR_def size_consts)
  obtain s2 b2 where 2: "btree_insert ?r k2 v2 s1 = Some (Inr ?r, s2)"
    "one_leaf s2 ?r b2 (Some \<lparr>ac_root = ?r, ac_leaf = ?r,
       ac_end = LEAF_HDR + leaf_cell_size ?c1 + leaf_cell_size (icell k2 v2), ac_last_key = k2\<rparr>)"
    "length b2 = BODY_SIZE"
    "leaf_rep b2 False [] ([?c1] @ [icell k2 v2]) (LEAF_HDR + leaf_cell_size ?c1 + leaf_cell_size (icell k2 v2))"
    using run_append [OF 1(2,4) w2 1(3) f2 keys(5) small(2)] by blast
  obtain s3 b3 where 3: "btree_delete ?r k2 s2 = Some (Inr (?r, True), s3)"
    "one_leaf s3 ?r b3 (Some \<lparr>ac_root = ?r, ac_leaf = ?r,
       ac_end = LEAF_HDR + leaf_cell_size ?c1 + leaf_cell_size (icell k2 v2), ac_last_key = k2\<rparr>)"
    "length b3 = BODY_SIZE" "leaf_rep b3 False [] [?c1] (LEAF_HDR + leaf_cell_size ?c1)"
    "at_pos b3 (LEAF_HDR + leaf_cell_size ?c1) [0, 0]"
    using run_delete [OF 2(2) 2(4) [unfolded append.simps] w2 [unfolded append.simps] 2(3)
        small(1) [folded icell_size]] by blast
  have w1: "leaf_wf [?c1]" using keys(1) by (simp add: leaf_wf_def)
  have st: "LEAF_HDR + leaf_cell_size ?c1 + 2 \<le> LEAF_HDR + leaf_cell_size ?c1 + leaf_cell_size (icell k2 v2)"
    using icell_size_ge [OF ne(1), of v2] by simp
  have f3: "LEAF_HDR + leaf_cell_size ?c1 + leaf_cell_size (icell k2 v2) + leaf_cell_size (icell k3 v3)
      + 2 * (length [?c1] + 1) \<le> BODY_SIZE"
    using sz by (simp add: LEAF_HDR_def size_consts)
  obtain s4 b4 where 4: "btree_insert ?r k3 v3 s3 = Some (Inr ?r, s4)" "ts_body s4 ?r = Inr b4"
    "b4 ! 0 = TYPE_LEAF" "parse_leaf ?r b4 = Inl (Corrupt ?r ''claves de hoja desordenadas o vacias'')"
    using run_stale [OF 3(2,4) w1 _ 3(5) st 3(3) f3 keys(3,6) small(3)] by auto
  have "delete_rec ?r k1 s4 = Some (Inl (Corrupt ?r ''claves de hoja desordenadas o vacias''), s4)"
    using 4 by (subst delete_rec.simps) (simp add: sbind_def node_type_def delete_leaf_def)
  then have "btree_delete ?r k1 s4 = Some (Inl (Corrupt ?r ''claves de hoja desordenadas o vacias''), s4)"
    using base(4) by (simp add: btree_delete_def)
  then show ?thesis using 1(1) 2(1) 3(1) 4(1) by blast
qed

end
