(* ===== verification/BtreeScan.thy ===== *)
theory BtreeScan
  imports BtreeLaws
begin

text \<open>
  Walking trees (\<^verbatim>\<open>src/btree/mod.rs\<close>): the streaming cursor with its stack of parents, the prefix walk
  over sibling leaves, and the diff of two trees.  A stack is a list whose head is its top.
\<close>

section \<open>The streaming cursor\<close>

record leaf_scan =
  ls_page :: page_id
  ls_held :: bytes
  ls_next :: nat
  ls_ncells :: nat
  ls_compressed :: bool

record cursor_state =
  cs_stack :: "(page_id \<times> nat) list"
  cs_leaf :: "leaf_scan option"

partial_function (option) cursor_descend ::
    "source \<Rightarrow> page_id \<Rightarrow> bytes option \<Rightarrow> cursor_state \<Rightarrow> cursor_state res option" where
  "cursor_descend src pid start st =
     obind (src pid) (\<lambda>body.
       if node_type body = TYPE_INNER then
         obind (parse_inner pid body) (\<lambda>(cells, rightmost).
           let idx = (case start of None \<Rightarrow> 0 | Some k \<Rightarrow> child_index cells k) in
           cursor_descend src (child_at cells rightmost idx) start
             (st\<lparr>cs_stack := (pid, idx + 1) # cs_stack st\<rparr>))
       else if node_type body = TYPE_LEAF then
         obind (case start of None \<Rightarrow> Inr 0 | Some k \<Rightarrow> leaf_lower_bound pid body k) (\<lambda>next.
           Some (Inr (st\<lparr>cs_leaf := Some \<lparr>ls_page = pid, ls_held = body, ls_next = next,
             ls_ncells = node_ncells body, ls_compressed = leaf_is_compressed body\<rparr>\<rparr>)))
       else Some (Inl (bad_node pid)))"

definition scan_state :: "source \<Rightarrow> page_id \<Rightarrow> bytes option \<Rightarrow> cursor_state res option" where
  "scan_state src root start =
     (let st = \<lparr>cs_stack = [], cs_leaf = None\<rparr> in
      if root \<noteq> NO_ROOT then cursor_descend src root start st else Some (Inr st))"

definition next_leaf :: "source \<Rightarrow> cursor_state \<Rightarrow> (bool \<times> cursor_state) res option" where
  "next_leaf src st =
     (let st = st\<lparr>cs_leaf := None\<rparr> in
      case cs_stack st of
        [] \<Rightarrow> Some (Inr (False, st))
      | (pid, idx) # stack \<Rightarrow>
          obind (src pid) (\<lambda>body.
          obind (parse_inner pid body) (\<lambda>(cells, rightmost).
            if idx \<le> length cells then
              opbind (cursor_descend src (child_at cells rightmost idx) None
                        (st\<lparr>cs_stack := (pid, idx + 1) # stack\<rparr>)) (\<lambda>st. Some (Inr (True, st)))
            else Some (Inr (True, st\<lparr>cs_stack := stack\<rparr>)))))"

partial_function (option) cursor_advance ::
    "source \<Rightarrow> cursor_state \<Rightarrow> ((bytes \<times> bytes) option \<times> cursor_state) res option" where
  "cursor_advance src st =
     (case cs_leaf st of
        Some ls \<Rightarrow>
          if ls_next ls < ls_ncells ls then
            let st = st\<lparr>cs_leaf := Some (ls\<lparr>ls_next := ls_next ls + 1\<rparr>)\<rparr> in
            obind (leaf_cell_at (ls_page ls) (ls_held ls) (ls_next ls)) (\<lambda>(key, payload).
            opbind (read_value src payload) (\<lambda>val. Some (Inr (Some (key, val), st))))
          else
            opbind (next_leaf src st) (\<lambda>(more, st). if more then cursor_advance src st else Some (Inr (None, st)))
      | None \<Rightarrow>
          opbind (next_leaf src st) (\<lambda>(more, st). if more then cursor_advance src st else Some (Inr (None, st))))"

section \<open>The prefix walk\<close>

partial_function (option) prefix_descend ::
    "source \<Rightarrow> page_id \<Rightarrow> bytes \<Rightarrow> (page_id \<times> nat) list \<Rightarrow> (page_id \<times> (page_id \<times> nat) list) res option" where
  "prefix_descend src pid prefix stack =
     obind (src pid) (\<lambda>body.
       if node_type body = TYPE_INNER then
         obind (inner_child_indexed pid body prefix) (\<lambda>(child, idx).
           prefix_descend src child prefix ((pid, idx + 1) # stack))
       else if node_type body = TYPE_LEAF then Some (Inr (pid, stack))
       else Some (Inl (bad_node pid)))"

partial_function (option) leftmost_descend ::
    "source \<Rightarrow> page_id \<Rightarrow> (page_id \<times> nat) list \<Rightarrow> (page_id \<times> (page_id \<times> nat) list) res option" where
  "leftmost_descend src cur stack =
     obind (src cur) (\<lambda>b.
       if node_type b = TYPE_INNER then
         obind (inner_child_value_at cur b 0) (\<lambda>first. leftmost_descend src first ((cur, 1) # stack))
       else if node_type b = TYPE_LEAF then Some (Inr (cur, stack))
       else Some (Inl (bad_node cur)))"

fun next_sibling :: "source \<Rightarrow> (page_id \<times> nat) list \<Rightarrow> (page_id option \<times> (page_id \<times> nat) list) res option" where
  "next_sibling src [] = Some (Inr (None, []))"
| "next_sibling src ((iid, idx) # stack) =
     obind (src iid) (\<lambda>body.
       if idx \<le> node_ncells body then
         obind (inner_child_value_at iid body idx) (\<lambda>child.
         opbind (leftmost_descend src child ((iid, idx + 1) # stack)) (\<lambda>(leaf, stack).
           Some (Inr (Some leaf, stack))))
       else next_sibling src stack)"

partial_function (option) prefix_walk ::
    "source \<Rightarrow> bytes \<Rightarrow> (bytes \<Rightarrow> 's \<Rightarrow> 's res) \<Rightarrow> page_id \<Rightarrow> (page_id \<times> nat) list \<Rightarrow> 's \<Rightarrow> 's res option" where
  "prefix_walk src prefix f pid stack s =
     obind (src pid) (\<lambda>body.
     obind (leaf_for_each_prefix pid body prefix f s) (\<lambda>(extends, s).
       if \<not> extends then Some (Inr s)
       else
         opbind (next_sibling src stack) (\<lambda>(nxt, stack). case nxt of
             Some n \<Rightarrow> prefix_walk src prefix f n stack s
           | None \<Rightarrow> Some (Inr s))))"

definition for_each_prefix ::
    "source \<Rightarrow> page_id \<Rightarrow> bytes \<Rightarrow> (bytes \<Rightarrow> 's \<Rightarrow> 's res) \<Rightarrow> 's \<Rightarrow> 's res option" where
  "for_each_prefix src root prefix f s =
     (if root = NO_ROOT then Some (Inr s)
      else opbind (prefix_descend src root prefix []) (\<lambda>(leaf, stack). prefix_walk src prefix f leaf stack s))"

section \<open>Diff of two trees\<close>

datatype key_change = Added bytes | Removed bytes | Modified bytes bytes

record key_diff =
  kd_key :: bytes
  kd_change :: key_change

definition max_lower :: "bytes option \<Rightarrow> bytes option \<Rightarrow> bytes option" where
  "max_lower a b = (case (a, b) of (None, x) \<Rightarrow> x | (x, None) \<Rightarrow> x | (Some x, Some y) \<Rightarrow> Some (max x y))"

definition min_upper :: "bytes option \<Rightarrow> bytes option \<Rightarrow> bytes option" where
  "min_upper a b = (case (a, b) of (None, x) \<Rightarrow> x | (x, None) \<Rightarrow> x | (Some x, Some y) \<Rightarrow> Some (min x y))"

definition range_valid :: "bytes option \<Rightarrow> bytes option \<Rightarrow> bool" where
  "range_valid lo hi = (case (lo, hi) of (Some l, Some h) \<Rightarrow> l < h | _ \<Rightarrow> True)"

type_synonym interval = "bytes option \<times> bytes option \<times> page_id"

fun intervals_loop :: "inner_cell list \<Rightarrow> page_id \<Rightarrow> bytes option \<Rightarrow> interval list" where
  "intervals_loop [] rightmost prev = [(prev, None, rightmost)]"
| "intervals_loop (c # cs) rightmost prev =
     (prev, Some (ikey c), ichild c) # intervals_loop cs rightmost (Some (ikey c))"

definition child_intervals :: "source \<Rightarrow> page_id \<Rightarrow> interval list res" where
  "child_intervals src pid =
     rbind (src pid) (\<lambda>body. rbind (parse_inner pid body) (\<lambda>(cells, rightmost).
       Inr (intervals_loop cells rightmost None)))"

text \<open>The loop of \<^verbatim>\<open>diff_inner\<close>: the overlapping pairs of children, with the segment they share.\<close>

fun segments :: "interval list \<Rightarrow> interval list \<Rightarrow> bytes option \<Rightarrow> bytes option
    \<Rightarrow> (page_id \<times> page_id \<times> bytes option \<times> bytes option) list" where
  "segments ((alo, aup, ap) # as) ((blo, bup, bp) # bs) lo hi =
     (let seg_lo = max_lower (max_lower alo blo) lo;
          seg_hi = min_upper (min_upper aup bup) hi;
          here = (if range_valid seg_lo seg_hi then [(ap, bp, seg_lo, seg_hi)] else []);
          rest = (case (aup, bup) of
              (None, None) \<Rightarrow> segments as bs lo hi
            | (None, Some _) \<Rightarrow> segments ((alo, aup, ap) # as) bs lo hi
            | (Some _, None) \<Rightarrow> segments as ((blo, bup, bp) # bs) lo hi
            | (Some x, Some y) \<Rightarrow>
                if x < y then segments as ((blo, bup, bp) # bs) lo hi
                else if y < x then segments ((alo, aup, ap) # as) bs lo hi
                else segments as bs lo hi)
      in here @ rest)"
| "segments _ _ lo hi = []"

partial_function (option) collect_loop ::
    "source \<Rightarrow> bytes option \<Rightarrow> cursor_state \<Rightarrow> (bytes \<times> bytes) list res option" where
  "collect_loop src hi st =
     opbind (cursor_advance src st) (\<lambda>(item, st). case item of
         None \<Rightarrow> Some (Inr [])
       | Some (key, val) \<Rightarrow>
           if (case hi of None \<Rightarrow> False | Some h \<Rightarrow> key \<ge> h) then Some (Inr [])
           else opbind (collect_loop src hi st) (\<lambda>rest. Some (Inr ((key, val) # rest))))"

definition collect_range ::
    "source \<Rightarrow> page_id \<Rightarrow> bytes option \<Rightarrow> bytes option \<Rightarrow> (bytes \<times> bytes) list res option" where
  "collect_range src pid lo hi =
     (if pid = NO_ROOT then Some (Inr [])
      else opbind (scan_state src pid (Some (case lo of None \<Rightarrow> [] | Some l \<Rightarrow> l))) (collect_loop src hi))"

fun diff_merge :: "(bytes \<times> bytes) list \<Rightarrow> (bytes \<times> bytes) list \<Rightarrow> key_diff list" where
  "diff_merge ((k, v) # as) ((l, w) # bs) =
     (if k < l then \<lparr>kd_key = k, kd_change = Removed v\<rparr> # diff_merge as ((l, w) # bs)
      else if l < k then \<lparr>kd_key = l, kd_change = Added w\<rparr> # diff_merge ((k, v) # as) bs
      else (if v \<noteq> w then [\<lparr>kd_key = k, kd_change = Modified v w\<rparr>] else []) @ diff_merge as bs)"
| "diff_merge as [] = map (\<lambda>(k, v). \<lparr>kd_key = k, kd_change = Removed v\<rparr>) as"
| "diff_merge [] bs = map (\<lambda>(k, v). \<lparr>kd_key = k, kd_change = Added v\<rparr>) bs"

definition diff_flat ::
    "source \<Rightarrow> page_id \<Rightarrow> page_id \<Rightarrow> bytes option \<Rightarrow> bytes option \<Rightarrow> key_diff list res option" where
  "diff_flat src from to lo hi =
     opbind (collect_range src from lo hi) (\<lambda>a.
     opbind (collect_range src to lo hi) (\<lambda>b. Some (Inr (diff_merge a b))))"

fun oconcat :: "('a \<Rightarrow> 'b list res option) \<Rightarrow> 'a list \<Rightarrow> 'b list res option" where
  "oconcat f [] = Some (Inr [])"
| "oconcat f (x # xs) = opbind (f x) (\<lambda>ys. opbind (oconcat f xs) (\<lambda>zs. Some (Inr (ys @ zs))))"

lemma oconcat_mono [partial_function_mono]:
  assumes "\<And>x. monotone (fun_ord option_ord) option_ord (\<lambda>f. g f x)"
  shows "monotone (fun_ord option_ord) option_ord (\<lambda>f. oconcat (g f) xs)"
proof (induction xs)
  case Nil
  then show ?case by (simp add: monotone_on_def flat_ord_def)
next
  case (Cons x xs)
  show ?case
    by (simp only: oconcat.simps, intro opbind_mono assms Cons.IH) (simp add: monotone_on_def flat_ord_def)
qed

partial_function (option) diff_range ::
    "source \<Rightarrow> page_id \<Rightarrow> page_id \<Rightarrow> bytes option \<Rightarrow> bytes option \<Rightarrow> key_diff list res option" where
  "diff_range src from to lo hi =
     (if from = to then Some (Inr [])
      else if from = NO_ROOT then
        opbind (collect_range src to lo hi) (\<lambda>r.
          Some (Inr (map (\<lambda>(k, v). \<lparr>kd_key = k, kd_change = Added v\<rparr>) r)))
      else if to = NO_ROOT then
        opbind (collect_range src from lo hi) (\<lambda>r.
          Some (Inr (map (\<lambda>(k, v). \<lparr>kd_key = k, kd_change = Removed v\<rparr>) r)))
      else
        obind (src from) (\<lambda>fb. obind (src to) (\<lambda>tb.
          if node_type fb = TYPE_INNER \<and> node_type tb = TYPE_INNER then
            obind (child_intervals src from) (\<lambda>a. obind (child_intervals src to) (\<lambda>b.
              oconcat (\<lambda>(ap, bp, l, h). diff_range src ap bp l h) (segments a b lo hi)))
          else diff_flat src from to lo hi)))"

definition btree_diff :: "source \<Rightarrow> page_id \<Rightarrow> page_id \<Rightarrow> key_diff list res option" where
  "btree_diff src from to = diff_range src from to None None"

section \<open>The merge computes the difference\<close>

definition change_of :: "bytes option \<Rightarrow> bytes option \<Rightarrow> key_change option" where
  "change_of x y = (case (x, y) of
       (None, None) \<Rightarrow> None | (Some v, None) \<Rightarrow> Some (Removed v) | (None, Some w) \<Rightarrow> Some (Added w)
     | (Some v, Some w) \<Rightarrow> (if v = w then None else Some (Modified v w)))"

definition diffs_map :: "key_diff list \<Rightarrow> bytes \<rightharpoonup> key_change" where
  "diffs_map ds = map_of (map (\<lambda>d. (kd_key d, kd_change d)) ds)"

lemma map_of_above: "\<forall>x\<in>set xs. k < fst x \<Longrightarrow> map_of xs (k :: bytes) = None"
  by (auto simp: map_of_eq_None_iff)

lemma diff_merge_keys: "d \<in> set (diff_merge as bs) \<Longrightarrow> kd_key d \<in> fst ` set as \<or> kd_key d \<in> fst ` set bs"
  by (induction as bs rule: diff_merge.induct) (auto simp: rev_image_eqI split: if_splits)

lemma diff_merge_sorted:
  "sorted_wrt (<) (map fst as) \<Longrightarrow> sorted_wrt (<) (map fst bs) \<Longrightarrow> sorted_wrt (<) (map kd_key (diff_merge as bs))"
proof (induction as bs rule: diff_merge.induct)
  case (1 k v as l w bs)
  have ab: "\<forall>x\<in>fst ` set as. k < x" "\<forall>x\<in>fst ` set bs. l < x" using "1.prems" by auto
  consider "k < l" | "l < k" | "k = l" by fastforce
  then show ?case
  proof cases
    case 1
    then have "k < kd_key d" if "d \<in> set (diff_merge as ((l, w) # bs))" for d
      using diff_merge_keys [OF that] ab by auto
    then show ?thesis using "1.IH"(1) "1.prems" 1 by auto
  next
    case 2
    then have "l < kd_key d" if "d \<in> set (diff_merge ((k, v) # as) bs)" for d
      using diff_merge_keys [OF that] ab by auto
    then show ?thesis using "1.IH"(2) "1.prems" 2 by auto
  next
    case 3
    then have "k < kd_key d" if "d \<in> set (diff_merge as bs)" for d
      using diff_merge_keys [OF that] ab by auto
    then show ?thesis using "1.IH"(3) "1.prems" 3 by auto
  qed
qed (auto simp: o_def case_prod_unfold)

lemma diffs_map_simps:
  "diffs_map [] = Map.empty"
  "diffs_map (d # ds) = (diffs_map ds)(kd_key d \<mapsto> kd_change d)"
  by (simp_all add: diffs_map_def)

lemma diffs_map_map: "diffs_map (map (\<lambda>(k, v). \<lparr>kd_key = k, kd_change = C v\<rparr>) xs) k = map_option C (map_of xs k)"
  by (induction xs) (auto simp: diffs_map_simps)

lemma diff_merge_spec:
  "sorted_wrt (<) (map fst as) \<Longrightarrow> sorted_wrt (<) (map fst bs) \<Longrightarrow>
   diffs_map (diff_merge as bs) x = change_of (map_of as x) (map_of bs x)"
proof (induction as bs rule: diff_merge.induct)
  case (1 k v as l w bs)
  have ab: "\<forall>x\<in>set as. k < fst x" "\<forall>x\<in>set bs. l < fst x" using "1.prems" by auto
  consider "k < l" | "l < k" | "k = l" by fastforce
  then show ?case
  proof cases
    case 1
    then have "map_of ((l, w) # bs) k = None" using ab by (intro map_of_above) auto
    then show ?thesis using "1.IH"(1) "1.prems" 1 by (auto simp: diffs_map_simps change_of_def)
  next
    case 2
    then have "map_of ((k, v) # as) l = None" using ab by (intro map_of_above) auto
    then show ?thesis using "1.IH"(2) "1.prems" 2 by (auto simp: diffs_map_simps change_of_def)
  next
    case 3
    then have "map_of as k = None" "map_of bs k = None" using ab by (auto intro!: map_of_above)
    then show ?thesis using "1.IH"(3) "1.prems" 3 by (auto simp: diffs_map_simps change_of_def)
  qed
qed (auto simp: diffs_map_map change_of_def diffs_map_simps split: option.split)

text \<open>A shared subtree costs nothing and differs in nothing; the intervals of a node cover the key space.\<close>

lemma diff_range_shared: "diff_range src p p lo hi = Some (Inr [])"
  by (subst diff_range.simps) simp

definition in_interval :: "bytes \<Rightarrow> bytes option \<Rightarrow> bytes option \<Rightarrow> bool" where
  "in_interval k lo hi \<longleftrightarrow> (case lo of None \<Rightarrow> True | Some l \<Rightarrow> l \<le> k) \<and> (case hi of None \<Rightarrow> True | Some h \<Rightarrow> k < h)"

lemma in_interval_inter:
  "in_interval k (max_lower a b) (min_upper c d) \<longleftrightarrow> in_interval k a c \<and> in_interval k b d"
  by (auto simp: in_interval_def max_lower_def min_upper_def split: option.splits)

lemma range_valid_in: "in_interval k lo hi \<Longrightarrow> range_valid lo hi"
  by (auto simp: in_interval_def range_valid_def split: option.splits)

end
