(* ===== verification/BtreeDiff.thy ===== *)
theory BtreeDiff
  imports BtreeScan
begin

text \<open>
  The diff of two versions of a tree (\<^verbatim>\<open>src/btree/mod.rs\<close>): the streaming cursor yields the entries of a search
  tree in order, a range collects those between its bounds, the segments of two inner nodes cover the keys once and
  in order, and so the recursion over the children finds for every key what the two versions make of it.
\<close>

section \<open>The entries a cursor yields\<close>

text \<open>\<open>yields src st es\<close>: advancing the cursor from \<open>st\<close> returns the entries \<open>es\<close> one by one, and then ends.\<close>

inductive yields :: "source \<Rightarrow> cursor_state \<Rightarrow> (bytes \<times> bytes) list \<Rightarrow> bool" for src where
  stop: "cursor_advance src st = Some (Inr (None, st')) \<Longrightarrow> yields src st []"
| item: "cursor_advance src st = Some (Inr (Some e, st')) \<Longrightarrow> yields src st' es \<Longrightarrow> yields src st (e # es)"

definition below :: "bytes option \<Rightarrow> bytes \<Rightarrow> bool" where
  "below hi k \<longleftrightarrow> (case hi of None \<Rightarrow> True | Some h \<Rightarrow> k < h)"

definition from_key :: "bytes option \<Rightarrow> bytes \<Rightarrow> bool" where
  "from_key lo k \<longleftrightarrow> (case lo of None \<Rightarrow> True | Some l \<Rightarrow> l \<le> k)"

lemma in_interval_split: "in_interval k lo hi \<longleftrightarrow> from_key lo k \<and> below hi k"
  by (simp add: in_interval_def from_key_def below_def)

lemma collect_loop_yields:
  "yields src st es \<Longrightarrow> collect_loop src hi st = Some (Inr (takeWhile (\<lambda>e. below hi (fst e)) es))"
proof (induction rule: yields.induct)
  case (stop st st')
  then show ?case by (subst collect_loop.simps) simp
next
  case (item st e st' es)
  then show ?case
    by (subst collect_loop.simps) (cases e, auto simp: below_def not_le split: option.split)
qed

lemma yields_same_advance:
  "yields src st es \<Longrightarrow> cursor_advance src st' = cursor_advance src st \<Longrightarrow> yields src st' es"
  by (cases rule: yields.cases) (auto intro: yields.intros)

abbreviation at_stack :: "(page_id \<times> nat) list \<Rightarrow> cursor_state" where
  "at_stack stack \<equiv> \<lparr>cs_stack = stack, cs_leaf = None\<rparr>"

abbreviation in_leaf :: "(page_id \<times> nat) list \<Rightarrow> page_id \<Rightarrow> bytes \<Rightarrow> nat \<Rightarrow> cursor_state" where
  "in_leaf stack pid body i \<equiv> \<lparr>cs_stack = stack, cs_leaf = Some \<lparr>ls_page = pid, ls_held = body, ls_next = i,
     ls_ncells = node_ncells body, ls_compressed = leaf_is_compressed body\<rparr>\<rparr>"

section \<open>Values\<close>

text \<open>What the payloads of a tree stand for, and that each of them can be read.\<close>

definition value_map :: "source \<Rightarrow> (bytes \<rightharpoonup> payload) \<Rightarrow> bytes \<rightharpoonup> bytes" where
  "value_map src m k = (case m k of
       None \<Rightarrow> None
     | Some p \<Rightarrow> (case read_value src p of Some (Inr v) \<Rightarrow> Some v | _ \<Rightarrow> None))"

definition readable :: "source \<Rightarrow> (bytes \<rightharpoonup> payload) \<Rightarrow> bool" where
  "readable src m \<longleftrightarrow> (\<forall>k p. m k = Some p \<longrightarrow> (\<exists>v. read_value src p = Some (Inr v)))"

definition cell_value :: "source \<Rightarrow> leaf_cell \<Rightarrow> bytes \<times> bytes" where
  "cell_value src c = (lkey c, case read_value src (lpayload c) of Some (Inr v) \<Rightarrow> v | _ \<Rightarrow> [])"

lemma readable_get:
  assumes "tree src root m" "root \<noteq> NO_ROOT" "readable src m"
  shows "btree_get src root k = Some (Inr (value_map src m k))"
proof (cases "m k")
  case (Some p)
  then obtain v where "read_value src p = Some (Inr v)" using assms(3) unfolding readable_def by blast
  then show ?thesis using Some by (simp add: btree_get_tree [OF assms(1,2)] value_map_def)
qed (simp add: btree_get_tree [OF assms(1,2)] value_map_def)

lemma readable_cell:
  assumes "readable src (cells_map cells)" "leaf_wf cells" "c \<in> set cells"
  shows "read_value src (lpayload c) = Some (Inr (snd (cell_value src c)))"
proof -
  obtain i where "i < length cells" "c = cells ! i" using assms(3) by (metis in_set_conv_nth)
  then have "cells_map cells (lkey c) = Some (lpayload c)" using cells_map_nth [OF assms(2)] by simp
  then obtain v where "read_value src (lpayload c) = Some (Inr v)" using assms(1) unfolding readable_def by blast
  then show ?thesis by (simp add: cell_value_def)
qed

lemma map_of_cell_values:
  assumes "readable src (cells_map cells)" "leaf_wf cells"
  shows "map_of (map (cell_value src) cells) = value_map src (cells_map cells)"
proof
  fix k
  show "map_of (map (cell_value src) cells) k = value_map src (cells_map cells) k"
  proof (cases "k \<in> lkey ` set cells")
    case False
    then have "map_of (map (cell_value src) cells) k = None"
      by (auto simp: map_of_eq_None_iff cell_value_def)
    then show ?thesis using False by (simp add: value_map_def cells_map_None [THEN iffD2])
  next
    case True
    then obtain c where c: "c \<in> set cells" "k = lkey c" by blast
    then obtain i where "i < length cells" "c = cells ! i" by (metis in_set_conv_nth)
    then have m: "cells_map cells k = Some (lpayload c)" using cells_map_nth [OF assms(2)] c by simp
    have "map_of (map (cell_value src) cells) k = Some (snd (cell_value src c))"
    proof (rule map_of_is_SomeI)
      show "distinct (map fst (map (cell_value src) cells))"
        using leaf_wf_distinct [OF assms(2)] by (simp add: cell_value_def o_def)
      show "(k, snd (cell_value src c)) \<in> set (map (cell_value src) cells)"
        using c by (force simp: cell_value_def)
    qed
    then show ?thesis using m readable_cell [OF assms c(1)] by (simp add: value_map_def)
  qed
qed

section \<open>The cursor over a tree\<close>

lemma advance_exhausted:
  "i \<ge> node_ncells body \<Longrightarrow> cursor_advance src (in_leaf stack pid body i) = cursor_advance src (at_stack stack)"
  by (subst (1 2) cursor_advance.simps) (simp add: next_leaf_def)

lemma leaf_yields:
  assumes r: "leaf_rep body cm prefix cells fin" and w: "leaf_wf cells" and v: "readable src (cells_map cells)"
    and rest: "yields src (at_stack stack) es"
  shows "i \<le> length cells \<Longrightarrow> yields src (in_leaf stack pid body i) (map (cell_value src) (drop i cells) @ es)"
proof (induction i rule: inc_induct)
  case base
  have "yields src (in_leaf stack pid body (length cells)) es"
    by (rule yields_same_advance [OF rest advance_exhausted]) (simp add: leaf_rep_fields(3) [OF r])
  then show ?case by simp
next
  case (step i)
  let ?c = "cells ! i"
  obtain v where "read_value src (lpayload ?c) = Some (Inr v)" using readable_cell [OF v w, of ?c] step.hyps by fastforce
  moreover from this have "cell_value src ?c = (lkey ?c, v)" by (simp add: cell_value_def)
  ultimately have "cursor_advance src (in_leaf stack pid body i)
      = Some (Inr (Some (cell_value src ?c), in_leaf stack pid body (Suc i)))"
    using step.hyps leaf_rep_fields(3) [OF r]
    by (subst cursor_advance.simps) (simp add: leaf_cell_at_rep [OF r])
  moreover have "drop i cells = ?c # drop (Suc i) cells" using step.hyps by (simp add: Cons_nth_drop_Suc)
  ultimately show ?case using step.IH by (simp add: yields.item)
qed

lemma leaf_dropWhile:
  assumes "leaf_wf cells"
  shows "drop (length (takeWhile (\<lambda>c. lkey c < key) cells)) cells = filter (\<lambda>c. key \<le> lkey c) cells"
  using assms
proof (induction cells)
  case (Cons c cs)
  then have "leaf_wf cs" "\<forall>d\<in>set cs. lkey c < lkey d" by (auto simp: leaf_wf_def)
  then show ?case using Cons.IH by (auto simp: not_less intro!: filter_True [symmetric])
qed simp

lemma descend_leaf:
  assumes b: "src pid = Inr body" and r: "leaf_rep body cm prefix cells fin" and w: "leaf_wf cells"
    and v: "readable src (cells_map cells)" and rest: "yields src (at_stack stack) es"
  shows "\<exists>st. cursor_descend src pid start (at_stack stack) = Some (Inr st) \<and>
    yields src st (filter (\<lambda>e. from_key start (fst e)) (map (cell_value src) cells) @ es)"
proof (cases start)
  case None
  have "cursor_descend src pid start (at_stack stack) = Some (Inr (in_leaf stack pid body 0))"
    using b leaf_rep_fields(1) [OF r] None by (subst cursor_descend.simps) (simp add: node_type_def)
  then show ?thesis using leaf_yields [OF r w v rest, of 0 pid] None by (simp add: from_key_def)
next
  case (Some key)
  let ?i = "length (takeWhile (\<lambda>c. lkey c < key) cells)"
  have "cursor_descend src pid start (at_stack stack) = Some (Inr (in_leaf stack pid body ?i))"
    using b leaf_rep_fields(1) [OF r] Some
    by (subst cursor_descend.simps) (simp add: node_type_def leaf_lower_bound_rep [OF r w])
  then show ?thesis using leaf_yields [OF r w v rest, of ?i pid] Some
    by (simp add: leaf_dropWhile [OF w] length_takeWhile_le from_key_def filter_map o_def cell_value_def)
qed

text \<open>
  A child of an inner node at its index: \<open>kids\<close> gives the entries of each child, and what the cursor yields from
  each of them on.
\<close>

lemma inner_yields:
  assumes b: "src pid = Inr body" and r: "inner_rep body cells rightmost" and w: "inner_wf cells"
    and kid: "\<And>i stack es. i \<le> length cells \<Longrightarrow> yields src (at_stack stack) es \<Longrightarrow>
      \<exists>st. cursor_descend src (child_at cells rightmost i) None (at_stack stack) = Some (Inr st) \<and> yields src st (kids i @ es)"
    and rest: "yields src (at_stack stack) es"
  shows "i \<le> Suc (length cells) \<Longrightarrow>
    yields src (at_stack ((pid, i) # stack)) (concat (map kids [i..<Suc (length cells)]) @ es)"
proof (induction i rule: inc_induct)
  case base
  have "cursor_advance src (at_stack ((pid, Suc (length cells)) # stack)) = cursor_advance src (at_stack stack)"
    using b parse_inner_rep [OF r w] by (subst cursor_advance.simps) (simp add: next_leaf_def)
  then show ?case using yields_same_advance [OF rest] by simp
next
  case (step i)
  then have i: "i \<le> length cells" by simp
  obtain st where st: "cursor_descend src (child_at cells rightmost i) None (at_stack ((pid, Suc i) # stack)) = Some (Inr st)"
    "yields src st (kids i @ concat (map kids [Suc i..<Suc (length cells)]) @ es)"
    using kid [OF i step.IH] by blast
  have "cursor_advance src (at_stack ((pid, i) # stack)) = cursor_advance src st"
    using b parse_inner_rep [OF r w] i st(1) by (subst cursor_advance.simps) (simp add: next_leaf_def)
  moreover have "[i..<Suc (length cells)] = i # [Suc i..<Suc (length cells)]" using i by (simp add: upt_conv_Cons)
  ultimately show ?case using yields_same_advance [OF st(2)] by (simp del: upt_Suc)
qed

lemma child_index_mono: "a \<le> b \<Longrightarrow> child_index cells a \<le> child_index cells b"
proof (induction cells)
  case (Cons c cs)
  then show ?case by (auto simp: child_index_def dest: order.trans)
qed (simp add: child_index_def)

lemma child_index_less: "child_index cells a < child_index cells b \<Longrightarrow> a < b"
  using child_index_mono [of b a cells] by (metis leD leI)

text \<open>Lists of entries sorted apart by an index of their keys.\<close>

definition apart :: "(bytes \<Rightarrow> nat) \<Rightarrow> (nat \<Rightarrow> (bytes \<times> bytes) list) \<Rightarrow> nat \<Rightarrow> bool" where
  "apart idx kids n \<longleftrightarrow> (\<forall>i<n. sorted_wrt (<) (map fst (kids i)) \<and> (\<forall>e\<in>set (kids i). idx (fst e) = i))"

lemma apart_idx: "apart idx kids n \<Longrightarrow> i < n \<Longrightarrow> e \<in> set (kids i) \<Longrightarrow> idx (fst e) = i"
  by (simp add: apart_def)

lemma apart_sorted:
  assumes "\<And>a b. idx a < idx b \<Longrightarrow> a < b"
  shows "apart idx kids n \<Longrightarrow> sorted_wrt (<) (map fst (concat (map kids [0..<n])))"
proof (induction n)
  case (Suc n)
  then have "apart idx kids n" by (simp add: apart_def)
  moreover have "fst e < fst f" if "i < n" "e \<in> set (kids i)" "f \<in> set (kids n)" for i e f
    using that apart_idx [OF Suc.prems, of i e] apart_idx [OF Suc.prems, of n f] by (intro assms) simp
  ultimately show ?case using Suc by (auto simp: sorted_wrt_append apart_def)
qed simp

lemma apart_map_of:
  "apart idx kids n \<Longrightarrow> map_of (concat (map kids [0..<n])) k = (if idx k < n then map_of (kids (idx k)) k else None)"
proof (induction n)
  case (Suc n)
  then have "apart idx kids n" and other: "map_of (kids n) k = None" if "idx k \<noteq> n"
    using that by (auto simp: apart_def map_of_eq_None_iff)
  then show ?case using Suc by (auto simp: apart_def map_add_def less_Suc_eq split: option.split)
qed simp

lemma apart_filter:
  assumes less: "\<And>a b. idx a < idx b \<Longrightarrow> a < b" and a: "apart idx kids n" and i: "idx key < n"
  shows "filter (\<lambda>e. key \<le> fst e) (concat (map kids [0..<n]))
    = filter (\<lambda>e. key \<le> fst e) (kids (idx key)) @ concat (map kids [Suc (idx key)..<n])"
proof -
  have "[0..<n] = [0..<idx key] @ idx key # [Suc (idx key)..<n]"
    using i by (metis le0 less_imp_le_nat upt_add_eq_append upt_conv_Cons le_add_diff_inverse add_0)
  moreover have "filter (\<lambda>e. key \<le> fst e) (concat (map kids [0..<idx key])) = []"
  proof -
    have "fst e < key" if "j < idx key" "e \<in> set (kids j)" for j e
      using that i apart_idx [OF a, of j e] by (intro less) simp
    then show ?thesis by (auto simp: filter_empty_conv not_le)
  qed
  moreover have "filter (\<lambda>e. key \<le> fst e) (concat (map kids [Suc (idx key)..<n])) = concat (map kids [Suc (idx key)..<n])"
  proof -
    have "key < fst e" if "idx key < j" "j < n" "e \<in> set (kids j)" for j e
      using that apart_idx [OF a, of j e] by (intro less) simp
    then have "key \<le> fst e" if "idx key < j" "j < n" "e \<in> set (kids j)" for j e using that by (metis less_imp_le)
    then show ?thesis by (intro filter_True) (auto simp: Suc_le_eq)
  qed
  ultimately show ?thesis by simp
qed

text \<open>The entries of a tree: its map as a sorted list, which a descent yields from its starting key on.\<close>

definition entries_of :: "source \<Rightarrow> page_id \<Rightarrow> (bytes \<times> bytes) list \<Rightarrow> bool" where
  "entries_of src pid es \<longleftrightarrow> sorted_wrt (<) (map fst es) \<and>
     (\<forall>stack rest start. yields src (at_stack stack) rest \<longrightarrow>
        (\<exists>st. cursor_descend src pid start (at_stack stack) = Some (Inr st) \<and>
           yields src st (filter (\<lambda>e. from_key start (fst e)) es @ rest)))"

lemma value_map_None: "value_map src m k \<noteq> None \<Longrightarrow> m k \<noteq> None"
  by (auto simp: value_map_def split: option.splits)

lemma tree_entries:
  "tree src pid m \<Longrightarrow> readable src m \<Longrightarrow> \<exists>es. entries_of src pid es \<and> map_of es = value_map src m"
proof (induction rule: tree.induct)
  case (leaf pid body cm prefix cells fin m)
  have "entries_of src pid (map (cell_value src) cells)"
    using descend_leaf [where pid = pid and src = src, OF leaf.hyps(1) leaf.hyps(2) leaf.hyps(3)] leaf.hyps(3,4) leaf.prems
    by (auto simp: entries_of_def cell_value_def o_def leaf_wf_def sorted_wrt_map)
  then show ?case using map_of_cell_values [OF _ leaf.hyps(3)] leaf.hyps(4) leaf.prems by blast
next
  case (inner pid body cells rightmost ms m)
  let ?n = "Suc (length cells)" and ?idx = "child_index cells"
  have ms: "ms i k = m k" if "i \<le> length cells" "ms i k \<noteq> None" for i k
    using inner.hyps(5) [OF that] inner.hyps(6) by simp
  have "readable src (ms i)" if "i \<le> length cells" for i
    using inner.prems ms [OF that] unfolding readable_def by (metis option.distinct(1))
  then have "\<forall>i. \<exists>es. i \<le> length cells \<longrightarrow> entries_of src (child_at cells rightmost i) es \<and> map_of es = value_map src (ms i)"
    using inner.IH by blast
  then obtain kids where k: "\<And>i. i \<le> length cells \<Longrightarrow>
      entries_of src (child_at cells rightmost i) (kids i) \<and> map_of (kids i) = value_map src (ms i)"
    by metis
  have "?idx (fst e) = i" if "i \<le> length cells" "e \<in> set (kids i)" for i e
  proof (rule inner.hyps(5) [OF that(1)])
    have "map_of (kids i) (fst e) \<noteq> None" using that(2) by (auto simp: map_of_eq_None_iff)
    then show "ms i (fst e) \<noteq> None" using k [OF that(1)] value_map_None by metis
  qed
  then have a: "apart ?idx kids ?n" using k by (auto simp: apart_def entries_of_def less_Suc_eq_le)
  let ?es = "concat (map kids [0..<?n])"
  have desc: "\<exists>st. cursor_descend src (child_at cells rightmost i) start (at_stack stack) = Some (Inr st) \<and>
      yields src st (filter (\<lambda>e. from_key start (fst e)) (kids i) @ rest)"
    if "i \<le> length cells" "yields src (at_stack stack) rest" for i start stack rest
    using k [OF that(1)] that(2) unfolding entries_of_def by blast
  have "\<exists>st. cursor_descend src pid start (at_stack stack) = Some (Inr st) \<and>
      yields src st (filter (\<lambda>e. from_key start (fst e)) ?es @ rest)"
    if rest: "yields src (at_stack stack) rest" for stack rest start
  proof -
    define i where "i = (case start of None \<Rightarrow> 0 | Some key \<Rightarrow> ?idx key)"
    have i: "i \<le> length cells" by (simp add: i_def child_index_le split: option.split)
    have "yields src (at_stack ((pid, Suc i) # stack)) (concat (map kids [Suc i..<?n]) @ rest)"
    proof (rule inner_yields [OF inner.hyps(1,2,3) _ rest])
      fix j stack es assume "j \<le> length cells" "yields src (at_stack stack) es"
      then show "\<exists>st. cursor_descend src (child_at cells rightmost j) None (at_stack stack) = Some (Inr st) \<and>
          yields src st (kids j @ es)"
        using desc [of j stack es None] by (simp add: from_key_def)
    qed (use i in simp)
    then obtain st where st: "cursor_descend src (child_at cells rightmost i) start (at_stack ((pid, Suc i) # stack)) = Some (Inr st)"
      "yields src st (filter (\<lambda>e. from_key start (fst e)) (kids i) @ concat (map kids [Suc i..<?n]) @ rest)"
      using desc [OF i] by blast
    have "cursor_descend src pid start (at_stack stack)
        = cursor_descend src (child_at cells rightmost i) start (at_stack ((pid, Suc i) # stack))"
      using inner.hyps(1) inner_rep_fields(1) [OF inner.hyps(2)] parse_inner_rep [OF inner.hyps(2,3)]
      by (subst cursor_descend.simps) (simp add: node_type_def i_def Let_def)
    moreover have "filter (\<lambda>e. from_key start (fst e)) ?es
        = filter (\<lambda>e. from_key start (fst e)) (kids i) @ concat (map kids [Suc i..<?n])"
    proof (cases start)
      case None
      then show ?thesis using upt_conv_Cons [of 0 ?n] by (simp add: from_key_def i_def del: upt_Suc)
    next
      case (Some key)
      then show ?thesis using apart_filter [where key = key, OF child_index_less a] i by (simp add: from_key_def i_def del: upt_Suc)
    qed
    ultimately show ?thesis using st by simp
  qed
  moreover have "sorted_wrt (<) (map fst ?es)" by (rule apart_sorted [OF _ a]) (rule child_index_less)
  ultimately have "entries_of src pid ?es" unfolding entries_of_def by blast
  moreover have "map_of ?es = value_map src m"
    using apart_map_of [OF a] k child_index_le [of cells] inner.hyps(6)
    by (auto simp: value_map_def less_Suc_eq_le fun_eq_iff simp del: upt_Suc)
  ultimately show ?case by blast
qed

lemma takeWhile_sorted_filter:
  "sorted_wrt (<) (map fst es) \<Longrightarrow> takeWhile (\<lambda>e. below hi (fst e)) es = filter (\<lambda>e. below hi (fst e)) es"
proof (induction es)
  case (Cons e es)
  have "\<not> below hi (fst f)" if "f \<in> set es" "\<not> below hi (fst e)" for f
    using that Cons.prems by (auto simp: below_def split: option.splits)
  then show ?case using Cons by (auto simp: filter_empty_conv [symmetric])
qed simp

lemma map_of_filter_key: "map_of (filter (\<lambda>e. P (fst e)) es) k = (if P k then map_of es k else None)"
  by (induction es) auto

lemma sorted_keys_filter: "sorted_wrt (<) (map fst es) \<Longrightarrow> sorted_wrt (<) (map fst (filter P es))"
  by (simp add: sorted_wrt_map sorted_wrt_filter)

lemma collect_range_tree:
  assumes t: "tree src pid m" and v: "readable src m" and p: "pid \<noteq> NO_ROOT"
  shows "\<exists>es. collect_range src pid lo hi = Some (Inr es) \<and> sorted_wrt (<) (map fst es) \<and>
    (\<forall>k. map_of es k = (if in_interval k lo hi then value_map src m k else None))"
proof -
  obtain es where e: "entries_of src pid es" "map_of es = value_map src m" using tree_entries [OF t v] by blast
  let ?l = "case lo of None \<Rightarrow> [] | Some l \<Rightarrow> l" and ?es = "filter (\<lambda>e. from_key lo (fst e)) es"
  have "from_key (Some ?l) = from_key lo" by (auto simp: from_key_def split: option.split)
  moreover have "yields src (at_stack []) []"
    by (rule yields.stop) (subst cursor_advance.simps, simp add: next_leaf_def)
  ultimately obtain st where st: "cursor_descend src pid (Some ?l) (at_stack []) = Some (Inr st)" "yields src st ?es"
    using e(1) unfolding entries_of_def by (metis append_Nil2)
  have s: "sorted_wrt (<) (map fst ?es)"
    using e(1) by (intro sorted_keys_filter) (simp add: entries_of_def)
  have "collect_range src pid lo hi = Some (Inr (filter (\<lambda>e. below hi (fst e)) ?es))"
    using st p collect_loop_yields [OF st(2)] takeWhile_sorted_filter [OF s]
    by (simp add: collect_range_def scan_state_def)
  moreover have "sorted_wrt (<) (map fst (filter (\<lambda>e. below hi (fst e)) ?es))"
    by (rule sorted_keys_filter [OF s])
  moreover have "map_of (filter (\<lambda>e. below hi (fst e)) ?es) k
      = (if in_interval k lo hi then value_map src m k else None)" for k
    by (simp add: map_of_filter_key e(2) in_interval_split del: filter_filter)
  ultimately show ?thesis by blast
qed

section \<open>The segments of two inner nodes\<close>

text \<open>\<open>chained prev as\<close>: the intervals start at \<open>prev\<close>, each begins where the one before it ends, and the last is open.\<close>

fun chained :: "bytes option \<Rightarrow> interval list \<Rightarrow> bool" where
  "chained prev [] = False"
| "chained prev ((lo, up, c) # as) = (lo = prev \<and> (case up of
       None \<Rightarrow> as = []
     | Some u \<Rightarrow> range_valid prev (Some u) \<and> chained (Some u) as))"

definition at_least :: "bytes option \<Rightarrow> bytes option \<Rightarrow> bool" where
  "at_least x lo \<longleftrightarrow> (case x of None \<Rightarrow> True | Some p \<Rightarrow> (case lo of None \<Rightarrow> False | Some l \<Rightarrow> p \<le> l))"

lemma chained_lower:
  "chained prev as \<Longrightarrow> (alo, aup, ap) \<in> set as \<Longrightarrow> at_least prev alo"
proof (induction prev as rule: chained.induct)
  case (2 prev lo up c as)
  show ?case
  proof (cases "(alo, aup, ap) = (lo, up, c)")
    case True
    then show ?thesis using "2.prems" by (auto simp: at_least_def split: option.split)
  next
    case False
    then obtain u where u: "up = Some u" using "2.prems" by (cases up) auto
    then have "at_least (Some u) alo" using 2 False by auto
    moreover have "range_valid prev (Some u)" using u "2.prems" by simp
    ultimately show ?thesis by (fastforce simp: at_least_def range_valid_def split: option.splits)
  qed
qed simp

lemma segments_step:
  "\<exists>as'\<in>{as, (alo, aup, a) # as}. \<exists>bs'\<in>{bs, (blo, bup, b) # bs}. length as' + length bs' < length as + length bs + 2 \<and>
     segments ((alo, aup, a) # as) ((blo, bup, b) # bs) lo hi =
       (let l = max_lower (max_lower alo blo) lo; h = min_upper (min_upper aup bup) hi in
        if range_valid l h then [(a, b, l, h)] else []) @ segments as' bs' lo hi"
  by (cases aup; cases bup) (simp_all add: Let_def)

lemma segments_from:
  "(ap, bp, l, h) \<in> set (segments as bs lo hi) \<Longrightarrow>
   \<exists>alo aup blo bup. (alo, aup, ap) \<in> set as \<and> (blo, bup, bp) \<in> set bs \<and>
     l = max_lower (max_lower alo blo) lo \<and> h = min_upper (min_upper aup bup) hi"
proof (induction "length as + length bs" arbitrary: as bs rule: less_induct)
  case less
  obtain alo aup a as2 blo bup b bs2 where ab: "as = (alo, aup, a) # as2" "bs = (blo, bup, b) # bs2"
    using less.prems by (cases "(as, bs, lo, hi)" rule: segments.cases) auto
  obtain as' bs' where r: "as' \<in> {as2, (alo, aup, a) # as2}" "bs' \<in> {bs2, (blo, bup, b) # bs2}"
    "length as' + length bs' < length as2 + length bs2 + 2"
    "segments ((alo, aup, a) # as2) ((blo, bup, b) # bs2) lo hi =
       (let l = max_lower (max_lower alo blo) lo; h = min_upper (min_upper aup bup) hi in
        if range_valid l h then [(a, b, l, h)] else []) @ segments as' bs' lo hi"
    using segments_step [of as2 alo aup a bs2 blo bup b lo hi] by blast
  show ?case
  proof (cases "(ap, bp, l, h) \<in> set (segments as' bs' lo hi)")
    case True
    have "set as' \<subseteq> set as" "set bs' \<subseteq> set bs" using r(1,2) by (auto simp: ab)
    moreover have "length as' + length bs' < length as + length bs" using r(3) by (simp add: ab)
    ultimately show ?thesis using less.hyps [OF _ True] by blast
  next
    case False
    then show ?thesis using less.prems unfolding ab r(4) by (auto simp: Let_def split: if_splits)
  qed
qed

lemma at_least_max: "at_least x (max_lower (max_lower a b) c) \<longleftrightarrow> at_least x a \<or> at_least x b \<or> at_least x c"
  by (auto simp: at_least_def max_lower_def le_max_iff_disj split: option.splits)

lemma segments_lower:
  assumes "(ap, bp, l, h) \<in> set (segments as bs lo hi)"
  shows "chained x as \<Longrightarrow> at_least x l" "chained x bs \<Longrightarrow> at_least x l"
  using segments_from [OF assms] chained_lower by (auto simp: at_least_max)

text \<open>One round of the loop: the pair at the heads, and then the lists whose heads begin where the pair ends.\<close>

lemma segments_round:
  assumes "chained pa ((alo, aup, a) # as)" "chained pb ((blo, bup, b) # bs)"
  obtains (last) "aup = None" "bup = None"
      "segments ((alo, aup, a) # as) ((blo, bup, b) # bs) lo hi = (let l = max_lower (max_lower pa pb) lo in
        if range_valid l hi then [(a, b, l, hi)] else [])"
  | (more) x as' bs' pa' pb' where "min_upper aup bup = Some x" "chained pa' as'" "chained pb' bs'"
      "\<And>k. from_key pa k \<Longrightarrow> from_key pb k \<Longrightarrow> x \<le> k \<Longrightarrow> from_key pa' k \<and> from_key pb' k"
      "pa' = Some x \<or> pb' = Some x" "length as' + length bs' < length as + length bs + 2"
      "segments ((alo, aup, a) # as) ((blo, bup, b) # bs) lo hi =
        (let l = max_lower (max_lower pa pb) lo; h = min_upper (Some x) hi in
         if range_valid l h then [(a, b, l, h)] else []) @ segments as' bs' lo hi"
proof -
  have eq: "alo = pa" "blo = pb" using assms by auto
  note seg = segments.simps(1) [of alo aup a as blo bup b bs lo hi]
  show thesis
  proof (cases aup)
    case [simp]: None
    show ?thesis
    proof (cases bup)
      case None
      then show ?thesis using assms eq by (intro last) (simp_all add: min_upper_def Let_def)
    next
      case [simp]: (Some y)
      show ?thesis using assms seg eq
        by (intro more [of y pa "(alo, aup, a) # as" "Some y" bs]) (simp_all add: min_upper_def Let_def from_key_def)
    qed
  next
    case [simp]: (Some x)
    show ?thesis
    proof (cases bup)
      case [simp]: None
      show ?thesis using assms seg eq
        by (intro more [of x "Some x" as pb "(blo, bup, b) # bs"]) (simp_all add: min_upper_def Let_def from_key_def)
    next
      case [simp]: (Some y)
      show ?thesis
      proof (cases x y rule: linorder_cases)
        case less
        then show ?thesis using assms seg eq
          by (intro more [of x "Some x" as pb "(blo, bup, b) # bs"]) (simp_all add: min_upper_def Let_def from_key_def)
      next
        case equal
        then show ?thesis using assms seg eq
          by (intro more [of x "Some x" as "Some x" bs]) (simp_all add: min_upper_def Let_def from_key_def)
      next
        case greater
        then have "\<not> x < y" by simp
        then show ?thesis using greater assms seg eq
          by (intro more [of y pa "(alo, aup, a) # as" "Some y" bs])
            (simp_all add: min_upper_def Let_def from_key_def)
      qed
    qed
  qed
qed

lemma at_least_min_upper: "at_least (Some x) l \<Longrightarrow> min_upper (Some x) hi \<noteq> None \<and> at_least (min_upper (Some x) hi) l"
  by (auto simp: at_least_def min_upper_def min_le_iff_disj split: option.splits)

abbreviation seg_before :: "page_id \<times> page_id \<times> bytes option \<times> bytes option \<Rightarrow>
    page_id \<times> page_id \<times> bytes option \<times> bytes option \<Rightarrow> bool" where
  "seg_before s t \<equiv> (case (s, t) of ((_, _, _, h), (_, _, l, _)) \<Rightarrow> h \<noteq> None \<and> at_least h l)"

lemma segments_ordered:
  "chained pa as \<Longrightarrow> chained pb bs \<Longrightarrow> sorted_wrt seg_before (segments as bs lo hi)"
proof (induction "length as + length bs" arbitrary: as bs pa pb rule: less_induct)
  case less
  obtain alo aup a as2 blo bup b bs2 where ab: "as = (alo, aup, a) # as2" "bs = (blo, bup, b) # bs2"
    using less.prems by (metis chained.simps(1) list.exhaust prod_cases3)
  show ?case
  proof (cases rule: segments_round [OF less.prems [unfolded ab], of lo hi, case_names last more])
    case last
    then show ?thesis by (simp add: ab Let_def)
  next
    case (more x as' bs' pa' pb')
    have "sorted_wrt seg_before (segments as' bs' lo hi)"
      using less.hyps [OF _ more(2,3)] more(6) by (simp add: ab)
    moreover have "at_least (Some x) l" if "(ap, bp, l, h) \<in> set (segments as' bs' lo hi)" for ap bp l h
      using segments_lower [OF that] more(2,3,5) by auto
    ultimately show ?thesis
      using at_least_min_upper [of x] unfolding ab more(7) by (fastforce simp: Let_def sorted_wrt_append)
  qed
qed

lemma segments_cover:
  "chained pa as \<Longrightarrow> chained pb bs \<Longrightarrow> from_key pa k \<Longrightarrow> from_key pb k \<Longrightarrow> in_interval k lo hi \<Longrightarrow>
   \<exists>(ap, bp, l, h)\<in>set (segments as bs lo hi). in_interval k l h"
proof (induction "length as + length bs" arbitrary: as bs pa pb rule: less_induct)
  case less
  obtain alo aup a as2 blo bup b bs2 where ab: "as = (alo, aup, a) # as2" "bs = (blo, bup, b) # bs2"
    using less.prems(1,2) by (metis chained.simps(1) list.exhaust prod_cases3)
  have here: "in_interval k (max_lower (max_lower pa pb) lo) (min_upper c hi)" if "below c k" for c
    using that less.prems(3,4,5) by (auto simp: in_interval_inter in_interval_split from_key_def max_lower_def below_def
        min_upper_def split: option.splits)
  show ?case
  proof (cases rule: segments_round [OF less.prems(1,2) [unfolded ab], of lo hi, case_names last more])
    case last
    have "in_interval k (max_lower (max_lower pa pb) lo) hi"
      using here [of None] by (simp add: below_def min_upper_def)
    then show ?thesis using last range_valid_in by (auto simp: ab Let_def)
  next
    case (more x as' bs' pa' pb')
    show ?thesis
    proof (cases "x \<le> k")
      case True
      then have "\<exists>(ap, bp, l, h)\<in>set (segments as' bs' lo hi). in_interval k l h"
        using less.hyps [OF _ more(2,3)] more(4,6) less.prems(3,4,5) by (simp add: ab)
      then show ?thesis unfolding ab more(7) by auto
    next
      case False
      then have "in_interval k (max_lower (max_lower pa pb) lo) (min_upper (Some x) hi)"
        by (intro here) (simp add: below_def)
      then show ?thesis using range_valid_in unfolding ab more(7) by (auto simp: Let_def)
    qed
  qed
qed

section \<open>Intervals and routing\<close>

lemma intervals_chained:
  "inner_wf cells \<Longrightarrow> (\<forall>c\<in>set cells. range_valid prev (Some (ikey c))) \<Longrightarrow>
   chained prev (intervals_loop cells rightmost prev)"
proof (induction cells arbitrary: prev)
  case (Cons c cs)
  then show ?case using Cons.IH [of "Some (ikey c)"] by (simp add: inner_wf_def range_valid_def)
qed simp

lemma intervals_child:
  "inner_wf cells \<Longrightarrow> (lo, up, p) \<in> set (intervals_loop cells rightmost prev) \<Longrightarrow>
   \<forall>c\<in>set cells. range_valid prev (Some (ikey c)) \<Longrightarrow>
   \<exists>i\<le>length cells. p = child_at cells rightmost i \<and> (\<forall>k. in_interval k lo up \<longrightarrow> child_index cells k = i)"
proof (induction cells arbitrary: prev)
  case Nil
  then show ?case by (simp add: child_at_def child_index_def)
next
  case (Cons c cs)
  then consider "(lo, up, p) = (prev, Some (ikey c), ichild c)"
    | "(lo, up, p) \<in> set (intervals_loop cs rightmost (Some (ikey c)))" by auto
  then show ?case
  proof cases
    case 1
    then show ?thesis by (intro exI [of _ 0]) (auto simp: child_at_def child_index_def in_interval_split below_def)
  next
    case 2
    have w: "inner_wf cs" "\<forall>d\<in>set cs. range_valid (Some (ikey c)) (Some (ikey d))"
      using Cons.prems(1) by (auto simp: inner_wf_def range_valid_def)
    then obtain i where i: "i \<le> length cs" "p = child_at cs rightmost i"
      "\<forall>k. in_interval k lo up \<longrightarrow> child_index cs k = i" using Cons.IH [OF w(1) 2 w(2)] by blast
    have "at_least (Some (ikey c)) lo" using chained_lower [OF intervals_chained [OF w] 2] .
    then have "ikey c \<le> k" if "in_interval k lo up" for k
      using that by (auto simp: at_least_def in_interval_split from_key_def split: option.splits)
    then show ?thesis using i by (intro exI [of _ "Suc i"]) (auto simp: child_at_def child_index_def)
  qed
qed

section \<open>The diff of two versions\<close>

definition version :: "source \<Rightarrow> page_id \<Rightarrow> (bytes \<rightharpoonup> payload) \<Rightarrow> bool" where
  "version src root m \<longleftrightarrow> (if root = NO_ROOT then m = Map.empty else tree src root m)"

definition diff_ok :: "bytes option \<Rightarrow> bytes option \<Rightarrow> (bytes \<rightharpoonup> key_change) \<Rightarrow> key_diff list res option \<Rightarrow> bool" where
  "diff_ok lo hi f r \<longleftrightarrow> (\<exists>ds. r = Some (Inr ds) \<and> sorted_wrt (<) (map kd_key ds) \<and>
     (\<forall>k. diffs_map ds k = (if in_interval k lo hi then f k else None)))"

lemma diff_ok_I:
  "r = Some (Inr ds) \<Longrightarrow> sorted_wrt (<) (map kd_key ds) \<Longrightarrow>
   (\<And>k. diffs_map ds k = (if in_interval k lo hi then f k else None)) \<Longrightarrow> diff_ok lo hi f r"
  by (auto simp: diff_ok_def)

lemma diff_ok_cong:
  "diff_ok lo hi f r \<Longrightarrow> (\<And>k. in_interval k lo hi \<Longrightarrow> f k = g k) \<Longrightarrow> diff_ok lo hi g r"
  by (auto simp: diff_ok_def)

lemma oconcat_total: "(\<And>x. x \<in> set xs \<Longrightarrow> f x = Some (Inr (g x))) \<Longrightarrow> oconcat f xs = Some (Inr (concat (map g xs)))"
  by (induction xs) auto

lemma diffs_map_append: "diffs_map (xs @ ys) k = (case diffs_map xs k of None \<Rightarrow> diffs_map ys k | Some c \<Rightarrow> Some c)"
  by (simp add: diffs_map_def map_add_def split: option.split)

lemma diffs_map_key: "d \<in> set ds \<Longrightarrow> diffs_map ds (kd_key d) \<noteq> None"
  by (auto simp: diffs_map_def map_of_eq_None_iff image_image)

text \<open>The diffs of ordered segments that cover a range, put together, are the diff of the range.\<close>

lemma diff_ok_segments:
  assumes ok: "\<And>ap bp l h. (ap, bp, l, h) \<in> set segs \<Longrightarrow> diff_ok l h f (F (ap, bp, l, h))"
    and inside: "\<And>ap bp l h k. (ap, bp, l, h) \<in> set segs \<Longrightarrow> in_interval k l h \<Longrightarrow> in_interval k lo hi"
    and cover: "\<And>k. in_interval k lo hi \<Longrightarrow> \<exists>(ap, bp, l, h)\<in>set segs. in_interval k l h"
    and ord: "sorted_wrt seg_before segs"
  shows "diff_ok lo hi f (oconcat F segs)"
proof -
  define g where "g s = (case F s of Some (Inr ds) \<Rightarrow> ds | _ \<Rightarrow> [])" for s
  have g: "F s = Some (Inr (g s))" "sorted_wrt (<) (map kd_key (g s))"
    "\<And>k. diffs_map (g s) k = (case s of (_, _, l, h) \<Rightarrow> if in_interval k l h then f k else None)"
    if mem: "s \<in> set segs" for s
  proof -
    obtain ap bp l h where s: "s = (ap, bp, l, h)" by (rule prod_cases4)
    obtain ds where "F s = Some (Inr ds)" "sorted_wrt (<) (map kd_key ds)"
      "\<forall>k. diffs_map ds k = (if in_interval k l h then f k else None)"
      using ok [of ap bp l h] mem unfolding s diff_ok_def by blast
    then show "F s = Some (Inr (g s))" "sorted_wrt (<) (map kd_key (g s))"
      "\<And>k. diffs_map (g s) k = (case s of (_, _, l, h) \<Rightarrow> if in_interval k l h then f k else None)"
      by (simp_all add: g_def s)
  qed
  have keys: "in_interval (kd_key d) l h" if "(ap, bp, l, h) \<in> set segs" "d \<in> set (g (ap, bp, l, h))" for ap bp l h d
    using g(3) [OF that(1), of "kd_key d"] diffs_map_key [OF that(2)] by (auto split: if_splits)
  have "sorted_wrt (<) (map kd_key (concat (map g ss)))" if "set ss \<subseteq> set segs" "sorted_wrt seg_before ss" for ss
    using that
  proof (induction ss)
    case (Cons s ss)
    have "kd_key d < kd_key e" if d: "d \<in> set (g s)" and t: "t \<in> set ss" and e: "e \<in> set (g t)" for d t e
    proof -
      obtain ap bp l h ap' bp' l' h' where st: "s = (ap, bp, l, h)" "t = (ap', bp', l', h')"
        using prod_cases4 by metis
      have "h \<noteq> None \<and> at_least h l'" using Cons.prems(2) t by (auto simp: st)
      moreover have "in_interval (kd_key d) l h" "in_interval (kd_key e) l' h'"
        using keys Cons.prems(1) d t e by (auto simp: st)
      ultimately show ?thesis by (auto simp: in_interval_def at_least_def split: option.splits)
    qed
    then show ?case using Cons g(2) by (auto simp: sorted_wrt_append)
  qed simp
  then have sorted: "sorted_wrt (<) (map kd_key (concat (map g segs)))" using ord by blast
  have "diffs_map (concat (map g ss)) k = (if \<exists>(ap, bp, l, h)\<in>set ss. in_interval k l h then f k else None)"
    if "set ss \<subseteq> set segs" for ss k
    using that
  proof (induction ss)
    case (Cons s ss)
    then show ?case using g(3) [of s k] by (cases s) (auto simp: diffs_map_append split: option.split if_splits)
  qed (simp add: diffs_map_simps)
  then have "diffs_map (concat (map g segs)) k = (if in_interval k lo hi then f k else None)" for k
    using cover inside by fastforce
  then show ?thesis using sorted oconcat_total [of segs F g] g(1) by (intro diff_ok_I) auto
qed

text \<open>A tree is routed: below an inner node, a child holds the whole map on its interval.\<close>

lemma tree_unique: "tree src pid m1 \<Longrightarrow> tree src pid m2 \<Longrightarrow> m1 = m2"
proof
  fix k
  assume t: "tree src pid m1" "tree src pid m2"
  obtain lp body cm prefix cells fin where 1: "descend_to src pid k = Some (Inr (lp, body))"
    "leaf_rep body cm prefix cells fin" "leaf_wf cells" "cells_map cells k = m1 k"
    using descend_to_tree [OF t(1)] by blast
  obtain lp' body' cm' prefix' cells' fin' where 2: "descend_to src pid k = Some (Inr (lp', body'))"
    "leaf_rep body' cm' prefix' cells' fin'" "leaf_wf cells'" "cells_map cells' k = m2 k"
    using descend_to_tree [OF t(2)] by blast
  show "m1 k = m2 k" using 1 2 parse_leaf_rep [OF 1(2,3)] parse_leaf_rep [OF 2(2,3)] by simp
qed

lemma tree_body: "tree src pid m \<Longrightarrow> \<exists>b. src pid = Inr b"
  by (auto elim: tree.cases)

lemma change_of_same: "change_of x x = None"
  by (simp add: change_of_def split: option.split)

lemma diff_flat_ok:
  assumes "tree src from m1" "readable src m1" "from \<noteq> NO_ROOT" "tree src to m2" "readable src m2" "to \<noteq> NO_ROOT"
  shows "diff_ok lo hi (\<lambda>k. change_of (value_map src m1 k) (value_map src m2 k)) (diff_flat src from to lo hi)"
proof -
  obtain as where a: "collect_range src from lo hi = Some (Inr as)" "sorted_wrt (<) (map fst as)"
    "\<forall>k. map_of as k = (if in_interval k lo hi then value_map src m1 k else None)"
    using collect_range_tree [OF assms(1-3)] by blast
  obtain bs where b: "collect_range src to lo hi = Some (Inr bs)" "sorted_wrt (<) (map fst bs)"
    "\<forall>k. map_of bs k = (if in_interval k lo hi then value_map src m2 k else None)"
    using collect_range_tree [OF assms(4-6)] by blast
  show ?thesis
    by (rule diff_ok_I [where ds = "diff_merge as bs"])
      (use a b diff_merge_sorted diff_merge_spec in \<open>simp_all add: diff_flat_def change_of_same\<close>)
qed

lemma diff_one_side:
  assumes "tree src pid m" "readable src m" "pid \<noteq> NO_ROOT"
  shows "diff_ok lo hi (\<lambda>k. map_option C (value_map src m k))
    (opbind (collect_range src pid lo hi) (\<lambda>r. Some (Inr (map (\<lambda>(k, v). \<lparr>kd_key = k, kd_change = C v\<rparr>) r))))"
proof -
  obtain es where e: "collect_range src pid lo hi = Some (Inr es)" "sorted_wrt (<) (map fst es)"
    "\<forall>k. map_of es k = (if in_interval k lo hi then value_map src m k else None)"
    using collect_range_tree [OF assms] by blast
  let ?ds = "map (\<lambda>(k, v). \<lparr>kd_key = k, kd_change = C v\<rparr>) es"
  have "map kd_key ?ds = map fst es" by auto
  then have "sorted_wrt (<) (map kd_key ?ds)" using e(2) by metis
  moreover have "diffs_map ?ds k = (if in_interval k lo hi then map_option C (value_map src m k) else None)" for k
    unfolding diffs_map_map using e(3) by simp
  ultimately show ?thesis using e(1) by (intro diff_ok_I [where ds = ?ds]) simp_all
qed

lemma change_of_None: "change_of None x = map_option Added x" "change_of x None = map_option Removed x"
  by (simp_all add: change_of_def split: option.split)

lemma value_map_empty: "value_map src Map.empty = Map.empty"
  by (simp add: value_map_def fun_eq_iff)

lemma readable_child:
  assumes "readable src (\<lambda>k. ms (child_index cells k) k)" "i \<le> length cells"
    "\<And>k. i \<le> length cells \<Longrightarrow> ms i k \<noteq> None \<Longrightarrow> child_index cells k = i"
  shows "readable src (ms i)"
  using assms unfolding readable_def by (metis option.distinct(1))

lemma version_tree: "version src pid m \<Longrightarrow> pid \<noteq> NO_ROOT \<Longrightarrow> tree src pid m"
  by (simp add: version_def)

lemma diff_range_step:
  assumes "from \<noteq> to" "from \<noteq> NO_ROOT" "to \<noteq> NO_ROOT" "src from = Inr fb" "src to = Inr tb"
  shows "diff_range src from to lo hi =
    (if node_type fb = TYPE_INNER \<and> node_type tb = TYPE_INNER then
       obind (child_intervals src from) (\<lambda>a. obind (child_intervals src to) (\<lambda>b.
         oconcat (\<lambda>(ap, bp, l, h). diff_range src ap bp l h) (segments a b lo hi)))
     else diff_flat src from to lo hi)"
  using assms by (subst diff_range.simps) simp

lemma diff_range_ends:
  assumes v: "version src from m1" "version src to m2" "readable src m1" "readable src m2"
    and e: "from = to \<or> from = NO_ROOT \<or> to = NO_ROOT"
  shows "diff_ok lo hi (\<lambda>k. change_of (value_map src m1 k) (value_map src m2 k)) (diff_range src from to lo hi)"
proof -
  consider "from = to" | "from \<noteq> to" "from = NO_ROOT" | "from \<noteq> to" "from \<noteq> NO_ROOT" "to = NO_ROOT" using e by blast
  then show ?thesis
  proof cases
    case 1
    then have "m1 = m2" using v(1,2) tree_unique by (auto simp: version_def split: if_splits)
    then show ?thesis using 1 by (auto intro!: diff_ok_I simp: diff_range_shared change_of_same diffs_map_simps)
  next
    case 2
    then have "m1 = Map.empty" "tree src to m2" "to \<noteq> NO_ROOT" using v by (auto simp: version_def split: if_splits)
    then show ?thesis using diff_one_side [OF _ v(4), of to lo hi Added] 2
      by (subst diff_range.simps) (simp add: change_of_None value_map_empty)
  next
    case 3
    then have "m2 = Map.empty" "tree src from m1" using v by (auto simp: version_def split: if_splits)
    then show ?thesis using diff_one_side [OF _ v(3), of "from" lo hi Removed] 3
      by (subst diff_range.simps) (simp add: change_of_None value_map_empty)
  qed
qed

lemma in_interval_segment:
  "in_interval k (max_lower (max_lower a b) lo) (min_upper (min_upper c d) hi) \<longleftrightarrow>
   in_interval k a c \<and> in_interval k b d \<and> in_interval k lo hi"
  by (simp add: in_interval_inter)

lemma diff_inner_ok:
  assumes root: "\<And>b. src NO_ROOT \<noteq> Inr b" and n: "from \<noteq> NO_ROOT" "to \<noteq> NO_ROOT" "from \<noteq> to"
    and a: "src from = Inr body1" "inner_rep body1 cells1 right1" "inner_wf cells1"
    and route1: "\<And>i k. i \<le> length cells1 \<Longrightarrow> ms1 i k \<noteq> None \<Longrightarrow> child_index cells1 k = i"
    and m1: "m1 = (\<lambda>k. ms1 (child_index cells1 k) k)"
    and b: "src to = Inr body2" "inner_rep body2 cells2 right2" "inner_wf cells2"
    and kids2: "\<And>i. i \<le> length cells2 \<Longrightarrow> tree src (child_at cells2 right2 i) (ms2 i)"
    and route2: "\<And>i k. i \<le> length cells2 \<Longrightarrow> ms2 i k \<noteq> None \<Longrightarrow> child_index cells2 k = i"
    and m2: "m2 = (\<lambda>k. ms2 (child_index cells2 k) k)"
    and v: "readable src m1" "readable src m2"
    and IH: "\<And>i to m2 lo hi. i \<le> length cells1 \<Longrightarrow> version src to m2 \<Longrightarrow> readable src (ms1 i) \<Longrightarrow> readable src m2 \<Longrightarrow>
      diff_ok lo hi (\<lambda>k. change_of (value_map src (ms1 i) k) (value_map src m2 k)) (diff_range src (child_at cells1 right1 i) to lo hi)"
  shows "diff_ok lo hi (\<lambda>k. change_of (value_map src m1 k) (value_map src m2 k)) (diff_range src from to lo hi)"
proof -
  let ?f = "\<lambda>k. change_of (value_map src m1 k) (value_map src m2 k)"
  let ?as = "intervals_loop cells1 right1 None" and ?bs = "intervals_loop cells2 right2 None"
  let ?segs = "segments ?as ?bs lo hi" and ?F = "\<lambda>(ap, bp, l, h). diff_range src ap bp l h"
  have ch: "chained None ?as" "chained None ?bs"
    using intervals_chained [OF a(3)] intervals_chained [OF b(3)] by (simp_all add: range_valid_def)
  have "diff_ok l h ?f (?F (ap, bp, l, h)) \<and> (\<forall>k. in_interval k l h \<longrightarrow> in_interval k lo hi)"
    if mem: "(ap, bp, l, h) \<in> set ?segs" for ap bp l h
  proof -
    obtain alo aup blo bup where sg: "(alo, aup, ap) \<in> set ?as" "(blo, bup, bp) \<in> set ?bs"
      "l = max_lower (max_lower alo blo) lo" "h = min_upper (min_upper aup bup) hi"
      using segments_from [OF mem] by blast
    obtain i where i: "i \<le> length cells1" "ap = child_at cells1 right1 i"
      "\<forall>k. in_interval k alo aup \<longrightarrow> child_index cells1 k = i"
      using intervals_child [OF a(3) sg(1)] by (auto simp: range_valid_def)
    obtain j where j: "j \<le> length cells2" "bp = child_at cells2 right2 j"
      "\<forall>k. in_interval k blo bup \<longrightarrow> child_index cells2 k = j"
      using intervals_child [OF b(3) sg(2)] by (auto simp: range_valid_def)
    have bp: "tree src bp (ms2 j)" using kids2 [OF j(1)] j(2) by simp
    then have "bp \<noteq> NO_ROOT" using root tree_body by blast
    then have "version src bp (ms2 j)" using bp by (simp add: version_def)
    moreover have "readable src (ms1 i)" using v(1) unfolding m1 by (rule readable_child [OF _ i(1) route1])
    moreover have "readable src (ms2 j)" using v(2) unfolding m2 by (rule readable_child [OF _ j(1) route2])
    ultimately have "diff_ok l h (\<lambda>k. change_of (value_map src (ms1 i) k) (value_map src (ms2 j) k)) (?F (ap, bp, l, h))"
      using IH [OF i(1)] i(2) by simp
    moreover have "change_of (value_map src (ms1 i) k) (value_map src (ms2 j) k) = ?f k" if "in_interval k l h" for k
    proof -
      have "child_index cells1 k = i" "child_index cells2 k = j"
        using that i(3) j(3) by (auto simp: sg(3,4) in_interval_segment)
      then show ?thesis by (simp add: m1 m2 value_map_def)
    qed
    ultimately have "diff_ok l h ?f (?F (ap, bp, l, h))" by (rule diff_ok_cong)
    then show ?thesis by (simp add: sg(3,4) in_interval_segment)
  qed
  then have "diff_ok lo hi ?f (oconcat ?F ?segs)"
    using segments_cover [OF ch] segments_ordered [OF ch] by (intro diff_ok_segments) (auto simp: from_key_def)
  then show ?thesis
    using diff_range_step [where src = src, OF n(3,1,2) a(1) b(1)] inner_rep_fields(1) [OF a(2)] inner_rep_fields(1) [OF b(2)]
      parse_inner_rep [OF a(2,3)] parse_inner_rep [OF b(2,3)] a(1) b(1)
    by (simp add: node_type_def child_intervals_def)
qed

theorem diff_range_ok:
  assumes root: "\<And>b. src NO_ROOT \<noteq> Inr b"
  shows "tree src from m1 \<Longrightarrow> version src to m2 \<Longrightarrow> readable src m1 \<Longrightarrow> readable src m2 \<Longrightarrow>
    diff_ok lo hi (\<lambda>k. change_of (value_map src m1 k) (value_map src m2 k)) (diff_range src from to lo hi)"
proof (induction arbitrary: to m2 lo hi rule: tree.induct)
  case (leaf pid body cm prefix cells fin m)
  have t: "tree src pid m" using leaf.hyps by (intro tree.leaf)
  have n: "pid \<noteq> NO_ROOT" using root leaf.hyps(1) by auto
  show ?case
  proof (cases "pid = to \<or> to = NO_ROOT")
    case True
    then show ?thesis using t n leaf.prems by (intro diff_range_ends) (auto simp: version_def)
  next
    case False
    then have t2: "tree src to m2" "to \<noteq> NO_ROOT" using leaf.prems(1) version_tree by auto
    then obtain tb where "src to = Inr tb" by (cases rule: tree.cases) auto
    then have "diff_range src pid to lo hi = diff_flat src pid to lo hi"
      using diff_range_step [where src = src, OF _ n _ leaf.hyps(1)] False leaf_rep_fields(1) [OF leaf.hyps(2)] by (simp add: node_type_def)
    then show ?thesis using diff_flat_ok [OF t leaf.prems(2) n t2(1) leaf.prems(3) t2(2)] by simp
  qed
next
  case outer: (inner pid body cells rightmost ms m)
  have t: "tree src pid m" by (rule tree.inner [where ms = ms, OF outer.hyps])
  have n: "pid \<noteq> NO_ROOT" using root outer.hyps(1) by auto
  show ?case
  proof (cases "pid = to \<or> to = NO_ROOT")
    case True
    then show ?thesis using t n outer.prems by (intro diff_range_ends) (auto simp: version_def)
  next
    case False
    then have t2: "tree src to m2" "to \<noteq> NO_ROOT" using outer.prems(1) version_tree by auto
    show ?thesis using t2(1)
    proof (cases rule: tree.cases)
      case (leaf tb cm prefix cells2 fin)
      then have "diff_range src pid to lo hi = diff_flat src pid to lo hi"
        using diff_range_step [where src = src, OF _ n t2(2) outer.hyps(1) leaf(1)] False leaf_rep_fields(1) [OF leaf(2)]
        by (simp add: node_type_def)
      then show ?thesis using diff_flat_ok [OF t outer.prems(2) n t2(1) outer.prems(3) t2(2)] by simp
    next
      case (inner tb cells2 rightmost2 ms2)
      show ?thesis
        by (rule diff_inner_ok [OF root n t2(2) _ outer.hyps(1-3) outer.hyps(5,6) inner(1-6) outer.prems(2,3) outer.IH])
          (use False in simp)
    qed
  qed
qed

theorem btree_diff_ok:
  assumes "\<And>b. src NO_ROOT \<noteq> Inr b" "version src from m1" "version src to m2" "readable src m1" "readable src m2"
  shows "\<exists>ds. btree_diff src from to = Some (Inr ds) \<and> sorted_wrt (<) (map kd_key ds) \<and>
    (\<forall>k. diffs_map ds k = change_of (value_map src m1 k) (value_map src m2 k))"
proof -
  have "diff_ok None None (\<lambda>k. change_of (value_map src m1 k) (value_map src m2 k)) (diff_range src from to None None)"
  proof (cases "from = NO_ROOT")
    case True
    then show ?thesis using assms by (intro diff_range_ends) simp_all
  next
    case False
    then show ?thesis using diff_range_ok [OF assms(1) version_tree [OF assms(2)] assms(3-5)] by blast
  qed
  then show ?thesis by (simp add: diff_ok_def btree_diff_def in_interval_def)
qed

lemma version_get:
  assumes "version src root m" "readable src m"
  shows "btree_get src root k = Some (Inr (value_map src m k))"
proof (cases "root = NO_ROOT")
  case True
  then show ?thesis using assms(1) by (simp add: version_def btree_get_def value_map_def)
next
  case False
  then show ?thesis using readable_get [OF version_tree [OF assms(1)] _ assms(2)] by simp
qed

end
