(* ===== verification/BtreeProps.thy ===== *)
theory BtreeProps
  imports BtreeSplit BtreeCursor BtreeDiff
begin

text \<open>
  The properties of the B-tree: its node formats (\<^verbatim>\<open>src/btree/node.rs\<close>), lookups, overflow values, the diff of two
  versions, and the two ways in which an insert loses or damages data (\<^verbatim>\<open>src/btree/mod.rs\<close>).
\<close>

section \<open>A sample leaf\<close>

abbreviation sample_cells :: "leaf_cell list" where
  "sample_cells \<equiv> [icell [7] [8], icell [9] [1, 2]]"

definition sample_leaf :: bytes where "sample_leaf = leaf_written sample_cells (replicate BODY_SIZE 0)"

lemma sample_wf: "leaf_wf sample_cells" by (simp add: leaf_wf_def)

lemma sample_sizes: "\<not> leaf_compresses sample_cells" "leaf_fin sample_cells \<le> 100"
proof -
  show c: "\<not> leaf_compresses sample_cells"
    by (simp add: leaf_compresses_code leaf_plen_def keys_lcp_def LEAF_MIN_PREFIX_def)
  show "leaf_fin sample_cells \<le> 100"
    using varint_len_bounds(2) [of 1] varint_len_bounds(2) [of 2]
    by (simp add: leaf_fin_sizes(2) [OF c] leaf_cell_size_def payload_size_def LEAF_HDR_def)
qed

lemma sample_rep: "leaf_rep sample_leaf False [] sample_cells (leaf_fin sample_cells)" "length sample_leaf = BODY_SIZE"
proof -
  have e: "encode_leaf sample_cells (replicate BODY_SIZE 0) = (True, sample_leaf)"
    using sample_sizes(2) by (simp add: encode_leaf_cases sample_leaf_def size_consts)
  show "leaf_rep sample_leaf False [] sample_cells (leaf_fin sample_cells)" "length sample_leaf = BODY_SIZE"
    using encode_leaf_rep [OF e sample_wf] sample_sizes(1) leaf_prefix_Nil [OF sample_sizes(1)]
    by (simp_all add: size_consts)
qed

section \<open>Nodes\<close>

text \<open>C6: A leaf that the encoder accepts is parsed to the same cells, prefix compression or not, and the search, the
  membership test and the encoder's refusal agree with the sorted list of cells: a key is found with its payload iff it
  is there, and the encoder refuses exactly when the cells and their pointers do not fit.\<close>

lemma leaf_round_trip:
  assumes "leaf_wf cells" "length body < 2 ^ 16"
  shows "(if leaf_fin cells + 2 * length cells > length body then encode_leaf cells body = (False, body)
    else \<exists>b. encode_leaf cells body = (True, b) \<and> length b = length body \<and> parse_leaf page b = Inr cells \<and>
      leaf_find page b key = Inr (cells_map cells key) \<and> leaf_contains page b key = Inr (cells_map cells key \<noteq> None))"
proof (cases "leaf_fin cells + 2 * length cells > length body")
  case False
  then have e: "encode_leaf cells body = (True, leaf_written cells body)" by (simp add: encode_leaf_cases)
  note r = encode_leaf_rep [OF e assms]
  show ?thesis using False e r(2) parse_leaf_rep [OF r(1) assms(1)] leaf_find_rep [OF r(1) assms(1)]
      leaf_contains_rep [OF r(1) assms(1)] by simp
qed (simp add: encode_leaf_cases)

lemma leaf_round_trip_witness:
  "\<exists>b. encode_leaf sample_cells (replicate BODY_SIZE 0) = (True, b) \<and> leaf_find 5 b [9] = Inr (Some (Inline [1, 2]))"
  using leaf_round_trip [OF sample_wf, of "replicate BODY_SIZE 0" 5 "[9]"] sample_sizes(2)
  by (auto simp: size_consts cells_map_def)

text \<open>C14: Appending to a leaf in place either leaves it as it was, exactly when the key is not above every key of the
  leaf, does not share its compressed prefix or does not fit, or gives a leaf that parses to the cells with the new one
  behind them.\<close>

lemma leaf_append_refines:
  assumes "leaf_rep body cm prefix cells fin" "leaf_wf cells" "key \<noteq> []"
  shows "\<exists>r b. leaf_append page body key payload = Inr (r, b) \<and> length b = length body \<and>
    parse_leaf page b = Inr (if r = None then cells else cells @ [\<lparr>lkey = key, lpayload = payload\<rparr>]) \<and>
    (r = None \<longleftrightarrow> \<not> has_prefix prefix key \<or> (\<exists>d\<in>set cells. key \<le> lkey d) \<or>
       fin + length (cell_bytes prefix \<lparr>lkey = key, lpayload = payload\<rparr>) > length body - 2 * (length cells + 1))"
proof (cases "\<not> has_prefix prefix key \<or> (\<exists>d\<in>set cells. key \<le> lkey d) \<or>
       fin + length (cell_bytes prefix \<lparr>lkey = key, lpayload = payload\<rparr>) > length body - 2 * (length cells + 1)")
  case True
  then show ?thesis using leaf_append_rep [OF assms(1,2), of page key payload] parse_leaf_rep [OF assms(1,2), of page]
    by (auto simp: Let_def)
next
  case False
  let ?c = "\<lparr>lkey = key, lpayload = payload\<rparr>"
  note r = leaf_appended_rep [OF assms(1), of ?c]
  have w: "leaf_wf (cells @ [?c])" using False assms(2,3) by (auto simp: leaf_wf_def sorted_wrt_append)
  show ?thesis using False leaf_append_rep [OF assms(1,2), of page key payload] r parse_leaf_rep [OF r(1) w, of page]
    by (simp add: Let_def)
qed

lemma leaf_append_refines_witness:
  "\<exists>r b. leaf_append 5 sample_leaf [10] (Inline []) = Inr (Some r, b) \<and>
     parse_leaf 5 b = Inr (sample_cells @ [icell [10] []])"
proof -
  have "length (cell_bytes [] (icell [10] [])) \<le> 100"
    using varint_len_bounds(2) [of 1] varint_len_bounds(2) [of 0]
    by (simp add: length_cell_bytes leaf_suffix_cell_size_0 leaf_cell_size_def payload_size_def)
  then show ?thesis
    using leaf_append_refines [OF sample_rep(1) sample_wf, of "[10]" 5 "Inline []"] sample_sizes(2) sample_rep(2)
    by (auto simp: has_prefix_iff size_consts)
qed

text \<open>An inner node written by the encoder is parsed to the same cells and rightmost child, and routing a key
  through it descends into the first child whose separator is not below the key, the rightmost one if there is none.\<close>

lemma inner_round_trip:
  assumes "inner_wf cells" "length body < 2 ^ 16" "inner_size cells \<le> length body"
  shows "\<exists>b. encode_inner cells rightmost body = (True, b) \<and> parse_inner page b = Inr (cells, rightmost) \<and>
    inner_child_indexed page b key = Inr (child_at cells rightmost (child_index cells key), child_index cells key)"
  using encode_inner_rep(3) [OF assms(2,3), of rightmost] parse_inner_rep inner_child_indexed_rep assms(1) by blast

lemma inner_round_trip_witness:
  "\<exists>b. encode_inner [\<lparr>ikey = [5], ichild = 11\<rparr>] 12 (replicate 64 0) = (True, b) \<and>
     inner_child_indexed 4 b [6] = Inr (12, 1)"
proof -
  have "inner_size [\<lparr>ikey = [5], ichild = 11\<rparr>] \<le> 64"
    using varint_len_bounds(2) [of 1] by (simp add: inner_size_def inner_cell_size_def INNER_HDR_def)
  then show ?thesis
    using inner_round_trip [of "[\<lparr>ikey = [5], ichild = 11\<rparr>]" "replicate 64 0" 12 4 "[6]"]
    by (auto simp: inner_wf_def child_index_def child_at_def)
qed

text \<open>The split of a full node leaves cells on both sides, whatever their sizes.\<close>

lemma split_leaves_both_sides:
  assumes "2 \<le> length cells"
  shows "take (split_point cells sz) cells \<noteq> [] \<and> drop (split_point cells sz) cells \<noteq> []"
  using split_point_bounds [OF assms, of sz] by auto

lemma split_leaves_both_sides_witness: "drop (split_point [1, 100 :: nat] (\<lambda>n. n)) [1, 100] \<noteq> []"
  using split_leaves_both_sides [of "[1, 100 :: nat]" "\<lambda>n. n"] by simp

section \<open>Trees\<close>

text \<open>C5: On every well-formed search tree of pages, a lookup returns what the map of the tree holds for the key,
  overflow values read from their chain, and the membership test agrees with it.\<close>

lemma lookup_refines_map:
  assumes "tree src root m" "root \<noteq> NO_ROOT"
  shows "btree_contains src root key = Some (Inr (m key \<noteq> None)) \<and>
    btree_get src root key = (case m key of
        None \<Rightarrow> Some (Inr None)
      | Some p \<Rightarrow> opbind (read_value src p) (\<lambda>v. Some (Inr (Some v))))"
  using btree_get_tree [OF assms] btree_contains_tree [OF assms] by blast

lemma lookup_refines_map_witness: "btree_get (\<lambda>_. Inr sample_leaf) 5 [9] = Some (Inr (Some [1, 2]))"
proof -
  have "tree (\<lambda>_. Inr sample_leaf) 5 (cells_map sample_cells)"
    by (rule tree.leaf [OF refl sample_rep(1) sample_wf refl])
  then show ?thesis using lookup_refines_map [of "\<lambda>_. Inr sample_leaf" 5 "cells_map sample_cells" "[9]"]
    by (simp add: NO_ROOT_def cells_map_def read_value_def opbind_def)
qed

text \<open>C15: A value written to an overflow chain is read back whole, and writing it changes no page the transaction
  already held nor any page of the snapshot below.\<close>

lemma overflow_value_round_trip:
  assumes "ts_ok s" "room (length (chunks OVERFLOW_DATA data)) s"
  shows "\<exists>first s'. write_chain data s = Some (Inr first, s') \<and> read_chain (ts_body s') first = Some (Inr data)
    \<and> ts_ok s' \<and> (\<forall>q. q \<in> dom (dirty s) \<or> q < alloc_base s \<longrightarrow> ts_body s' q = ts_body s q)"
  by (rule write_chain_read [OF assms])

lemma overflow_value_round_trip_witness:
  "\<exists>first s'. write_chain [1, 2, 3] (tx_store_new (\<lambda>_. Inl Panic) 5) = Some (Inr first, s') \<and>
     read_chain (ts_body s') first = Some (Inr [1, 2, 3])"
proof -
  have "ts_ok (tx_store_new (\<lambda>_. Inl Panic) 5)" by (rule ts_ok_new) simp_all
  moreover have "length (chunks OVERFLOW_DATA [1, 2, 3 :: u8]) \<le> 1"
    by (simp add: chunks.simps [of _ "[1, 2, 3 :: u8]"] chunks.simps [of _ "[]"] OVERFLOW_DATA_def OVERFLOW_HDR_def size_consts)
  then have "room (length (chunks OVERFLOW_DATA [1, 2, 3 :: u8])) (tx_store_new (\<lambda>_. Inl Panic) 5)"
    by (simp add: room_def tx_store_new_def)
  ultimately show ?thesis using overflow_value_round_trip by blast
qed

text \<open>The transaction's store keeps its invariant when a page is allocated: the page is new, zeroed and above the
  pages of the snapshot, and no other page changes.\<close>

lemma alloc_is_fresh:
  assumes "ts_ok s" "room (Suc n) s"
  shows "\<exists>pid s'. ts_alloc s = Some (Inr pid, s') \<and> pid \<notin> dom (dirty s) \<and> pid \<noteq> NO_ROOT \<and> alloc_base s \<le> pid \<and>
    dirty s' = (dirty s)(pid \<mapsto> page_zeroed) \<and> ts_ok s' \<and> room n s'"
  using ts_alloc_spec [OF assms] by blast

lemma alloc_is_fresh_witness: "\<exists>pid s'. ts_alloc (tx_store_new (\<lambda>_. Inl Panic) 5) = Some (Inr pid, s') \<and> 5 \<le> pid"
proof -
  have "ts_ok (tx_store_new (\<lambda>_. Inl Panic) 5)" by (rule ts_ok_new) simp_all
  moreover have "room (Suc 0) (tx_store_new (\<lambda>_. Inl Panic) 5)" by (simp add: room_def tx_store_new_def)
  ultimately show ?thesis using alloc_is_fresh [of "tx_store_new (\<lambda>_. Inl Panic) 5" 0]
    by (auto simp: tx_store_new_def)
qed

section \<open>Two versions of a tree\<close>

lemma short_leaf:
  assumes "leaf_wf cells" "\<not> leaf_compresses cells" "LEAF_HDR + sum_list (map leaf_cell_size cells) + 2 * length cells \<le> BODY_SIZE"
  shows "leaf_rep (leaf_written cells (replicate BODY_SIZE 0)) False [] cells (leaf_fin cells)"
proof -
  have "encode_leaf cells (replicate BODY_SIZE 0) = (True, leaf_written cells (replicate BODY_SIZE 0))"
    using assms(3) by (simp add: encode_leaf_cases leaf_fin_sizes(2) [OF assms(2)])
  then show ?thesis using encode_leaf_rep(1) [OF _ assms(1)] assms(2) leaf_prefix_Nil [OF assms(2)]
    by (fastforce simp: size_consts)
qed

definition shared_cells :: "leaf_cell list" where "shared_cells = [icell [1] [10]]"
definition old_cells :: "leaf_cell list" where "old_cells = [icell [7] [8]]"
definition new_cells :: "leaf_cell list" where "new_cells = [icell [7] [9], icell [8] []]"

text \<open>Root 6 has the leaves 3 and 4, root 7 the leaves 3 and 5.\<close>

definition two_versions :: source where
  "two_versions p =
     (if p = 3 then Inr (leaf_written shared_cells (replicate BODY_SIZE 0))
      else if p = 4 then Inr (leaf_written old_cells (replicate BODY_SIZE 0))
      else if p = 5 then Inr (leaf_written new_cells (replicate BODY_SIZE 0))
      else if p = 6 then Inr (snd (encode_inner [\<lparr>ikey = [5], ichild = 3\<rparr>] 4 (replicate BODY_SIZE 0)))
      else if p = 7 then Inr (snd (encode_inner [\<lparr>ikey = [5], ichild = 3\<rparr>] 5 (replicate BODY_SIZE 0)))
      else Inl Panic)"

lemma versions_leaves:
  "tree two_versions 3 (cells_map shared_cells)" "tree two_versions 4 (cells_map old_cells)"
  "tree two_versions 5 (cells_map new_cells)"
proof -
  have 1: "leaf_wf shared_cells" "leaf_wf old_cells" "leaf_wf new_cells"
    "\<not> leaf_compresses shared_cells" "\<not> leaf_compresses old_cells" "\<not> leaf_compresses new_cells"
    by (simp_all add: leaf_wf_def shared_cells_def old_cells_def new_cells_def leaf_compresses_code leaf_plen_def
        keys_lcp_def LEAF_MIN_PREFIX_def)
  have 2: "LEAF_HDR + sum_list (map leaf_cell_size cells) + 2 * length cells \<le> BODY_SIZE"
    if "cells \<in> {shared_cells, old_cells, new_cells}" for cells
    using that varint_len_bounds(2) [of 0] varint_len_bounds(2) [of 1]
    by (auto simp: shared_cells_def old_cells_def new_cells_def leaf_cell_size_def payload_size_def LEAF_HDR_def size_consts)
  show "tree two_versions 3 (cells_map shared_cells)" "tree two_versions 4 (cells_map old_cells)"
    "tree two_versions 5 (cells_map new_cells)"
    using short_leaf [OF 1(1,4) 2] short_leaf [OF 1(2,5) 2] short_leaf [OF 1(3,6) 2] 1
    by (auto intro!: tree.leaf [OF _ _ _ refl] simp: two_versions_def)
qed

lemma versions_root:
  assumes "tree two_versions right (cells_map cells)" "right \<noteq> 3" "\<forall>c\<in>set cells. [5] \<le> lkey c"
    "two_versions root = Inr (snd (encode_inner [\<lparr>ikey = [5], ichild = 3\<rparr>] right (replicate BODY_SIZE 0)))"
  shows "tree two_versions root (cells_map (shared_cells @ cells))"
proof -
  let ?cells = "[\<lparr>ikey = [5], ichild = 3\<rparr>]"
  define ms where "ms i = (if i = 0 then cells_map shared_cells else cells_map cells)" for i :: nat
  have "inner_size ?cells \<le> BODY_SIZE"
    using varint_len_bounds(2) [of 1] by (simp add: inner_size_def inner_cell_size_def INNER_HDR_def size_consts)
  then obtain body where b: "encode_inner ?cells right (replicate BODY_SIZE 0) = (True, body)" "inner_rep body ?cells right"
    using encode_inner_rep(3) [of "replicate BODY_SIZE 0" ?cells right] by (auto simp: size_consts)
  have ix: "child_index ?cells k = (if [5] \<le> k then 1 else 0)" for k by (simp add: child_index_def)
  have above: "[5] \<le> k" if "cells_map cells k \<noteq> None" for k using that assms(3) cells_map_None [of cells k] by auto
  have below: "k = [1]" if "cells_map shared_cells k \<noteq> None" for k
    using that by (cases "k = [1]") (simp_all add: cells_map_None shared_cells_def)
  show ?thesis
  proof (rule tree.inner [where ms = ms, OF _ b(2)])
    show "two_versions root = Inr body" using assms(4) b(1) by simp
    show "inner_wf ?cells" by (simp add: inner_wf_def)
    show "tree two_versions (child_at ?cells right i) (ms i)" for i
      using assms(1) versions_leaves(1) by (simp add: child_at_def ms_def)
    show "child_index ?cells k = i" if "i \<le> length ?cells" "ms i k \<noteq> None" for i k
      using that above [of k] below [of k] by (cases "i = 0") (auto simp: ix ms_def)
    show "cells_map (shared_cells @ cells) = (\<lambda>k. ms (child_index ?cells k) k)"
    proof
      fix k
      have "\<not> [5] \<le> [1 :: u8]" by simp
      then have "cells_map cells [1] = None" using above by blast
      moreover have "\<not> [5] \<le> k \<Longrightarrow> cells_map cells k = None" using above by blast
      ultimately show "cells_map (shared_cells @ cells) k = ms (child_index ?cells k) k"
        by (auto simp: ix ms_def cells_map_def shared_cells_def)
    qed
  qed
qed

lemma versions_trees:
  "version two_versions 6 (cells_map (shared_cells @ old_cells))" "version two_versions 7 (cells_map (shared_cells @ new_cells))"
  unfolding version_def
  using versions_root [OF versions_leaves(2), of 6] versions_root [OF versions_leaves(3), of 7]
  by (simp_all add: two_versions_def NO_ROOT_def old_cells_def new_cells_def)

lemma versions_readable: "readable two_versions (cells_map (shared_cells @ old_cells))"
  "readable two_versions (cells_map (shared_cells @ new_cells))"
  by (auto simp: readable_def cells_map_def shared_cells_def old_cells_def new_cells_def read_value_def split: if_splits)

text \<open>C8: The diff of two versions of a tree, which may share pages and differ in height, always returns: it lists,
  in strictly increasing order of keys, exactly the keys whose lookups in the two versions differ, and for each whether
  it was added, removed or changed, with the values that the lookups return.\<close>

lemma diff_is_pointwise:
  assumes "version src from m1" "version src to m2" "readable src m1" "readable src m2"
    and "\<And>body. src NO_ROOT \<noteq> Inr body"
  shows "\<exists>ds before after. btree_diff src from to = Some (Inr ds) \<and> sorted_wrt (<) (map kd_key ds) \<and>
    (\<forall>k. btree_get src from k = Some (Inr (before k)) \<and> btree_get src to k = Some (Inr (after k)) \<and>
       diffs_map ds k = change_of (before k) (after k))"
  using btree_diff_ok [OF assms(5,1,2,3,4)] version_get [OF assms(1,3)] version_get [OF assms(2,4)] by blast

lemma diff_is_pointwise_witness:
  "\<exists>ds. btree_diff two_versions 6 7 = Some (Inr ds) \<and> diffs_map ds [1] = None \<and>
     diffs_map ds [7] = Some (Modified [8] [9]) \<and> diffs_map ds [8] = Some (Added [])"
proof -
  obtain ds before after where d: "btree_diff two_versions 6 7 = Some (Inr ds)"
    "\<forall>k. btree_get two_versions 6 k = Some (Inr (before k)) \<and> btree_get two_versions 7 k = Some (Inr (after k)) \<and>
       diffs_map ds k = change_of (before k) (after k)"
    using diff_is_pointwise [OF versions_trees versions_readable] by (auto simp: two_versions_def NO_ROOT_def)
  then have "diffs_map ds k = change_of (value_map two_versions (cells_map (shared_cells @ old_cells)) k)
      (value_map two_versions (cells_map (shared_cells @ new_cells)) k)" for k
    using version_get [OF versions_trees(1) versions_readable(1), of k]
      version_get [OF versions_trees(2) versions_readable(2), of k] by simp
  then show ?thesis using d(1)
    by (simp add: value_map_def change_of_def cells_map_def shared_cells_def old_cells_def new_cells_def read_value_def)
qed

section \<open>Two ways to lose a key\<close>

text \<open>C17: A full leaf whose keys share a long prefix is not split into halves that fit: inserting a key that ends the
  prefix compression reports success, and the key is not in the tree.\<close>

lemma split_loses_key:
  "\<exists>s r body fin root s'. ts_ok s \<and> ts_body s r = Inr body \<and> leaf_rep body True long_prefix long_cells fin \<and>
     btree_insert r [0] [] s = Some (Inr root, s') \<and> btree_get (ts_body s') root [0] = Some (Inr None)"
  using long_leaf_state split_run by blast

text \<open>C16: Deleting a key keeps the append cursor of the leaf it shrank: the next insert of a greatest key writes
  behind a gap, and the leaf no longer parses.\<close>

lemma delete_keeps_stale_cursor:
  assumes "alloc_base s = alloc_next s" "freed s = []" "append_cursor s = None" "alloc_next s \<noteq> NO_ROOT"
  shows "\<exists>r s1 s2 s3 s4 s5. btree_insert NO_ROOT [1] [10] s = Some (Inr r, s1) \<and>
    btree_insert r [2] [20] s1 = Some (Inr r, s2) \<and>
    btree_delete r [2] s2 = Some (Inr (r, True), s3) \<and>
    btree_insert r [3] [30] s3 = Some (Inr r, s4) \<and>
    btree_delete r [1] s4 = Some (Inl (Corrupt r ''claves de hoja desordenadas o vacias''), s5)"
  using varint_len_bounds(2) [of 1]
  by (intro cursor_survives_delete [OF assms]) (simp_all add: MAX_KEY_LEN_def inline_cell_size_def MAX_INLINE_CELL_def)

lemma delete_keeps_stale_cursor_witness:
  "\<exists>r s1. btree_insert NO_ROOT [1] [10] (tx_store_new (\<lambda>_. Inl Panic) 5) = Some (Inr r, s1)"
  using delete_keeps_stale_cursor [of "tx_store_new (\<lambda>_. Inl Panic) 5"] by (auto simp: tx_store_new_def NO_ROOT_def)

end
