(* ===== verification/PageCache.thy ===== *)
theory PageCache
  imports Format
begin

text \<open>
  The page cache of the pager (\<^verbatim>\<open>src/pager.rs\<close>): one CLOCK cache per shard, the shard of a page given by a
  multiplicative hash of its id.  The eviction sweep is a loop without a bound in the code, so it is a
  \<open>partial_function\<close> here and shown to return: every turn that does not evict clears one reference bit.
  The contract of a cache is the locale \<open>page_map\<close>: an insert is seen by the next lookup, and no lookup ever
  gives a page other than the last one inserted under its id.
\<close>

section \<open>One shard\<close>

record slot =
  sl_id :: page_id
  sl_page :: page_buf
  sl_referenced :: bool

record page_cache =
  pc_slots :: "slot list"
  pc_index :: "page_id \<rightharpoonup> nat"
  pc_hand :: nat
  pc_cap :: nat

definition pc_new :: "nat \<Rightarrow> page_cache" where
  "pc_new cap = \<lparr>pc_slots = [], pc_index = Map.empty, pc_hand = 0, pc_cap = max cap 1\<rparr>"

definition pc_get :: "page_cache \<Rightarrow> page_id \<Rightarrow> page_buf option \<times> page_cache" where
  "pc_get c pid =
     (case pc_index c pid of
        None \<Rightarrow> (None, c)
      | Some i \<Rightarrow>
          let slots = (pc_slots c)[i := (pc_slots c ! i)\<lparr>sl_referenced := True\<rparr>]
          in (Some (sl_page (slots ! i)), c\<lparr>pc_slots := slots\<rparr>))"

text \<open>The sweep of a full cache: a set bit is cleared, the first clear one gives its place.\<close>

partial_function (option) pc_evict :: "page_id \<Rightarrow> page_buf \<Rightarrow> page_cache \<Rightarrow> page_cache option" where
  "pc_evict pid page c =
     (let i = pc_hand c; c = c\<lparr>pc_hand := (i + 1) mod pc_cap c\<rparr> in
      if sl_referenced (pc_slots c ! i) then
        pc_evict pid page (c\<lparr>pc_slots := (pc_slots c)[i := (pc_slots c ! i)\<lparr>sl_referenced := False\<rparr>]\<rparr>)
      else
        Some (c\<lparr>pc_index := (pc_index c)(sl_id (pc_slots c ! i) := None, pid \<mapsto> i),
                pc_slots := (pc_slots c)[i := \<lparr>sl_id = pid, sl_page = page, sl_referenced = False\<rparr>]\<rparr>))"

definition pc_insert :: "page_id \<Rightarrow> page_buf \<Rightarrow> page_cache \<Rightarrow> page_cache option" where
  "pc_insert pid page c =
     (case pc_index c pid of
        Some i \<Rightarrow>
          Some (c\<lparr>pc_slots := (pc_slots c)[i := (pc_slots c ! i)\<lparr>sl_page := page, sl_referenced := True\<rparr>]\<rparr>)
      | None \<Rightarrow>
          if length (pc_slots c) < pc_cap c then
            let i = length (pc_slots c) in
            Some (c\<lparr>pc_slots := pc_slots c @ [\<lparr>sl_id = pid, sl_page = page, sl_referenced = False\<rparr>],
                    pc_index := (pc_index c)(pid \<mapsto> i)\<rparr>)
          else pc_evict pid page c)"

section \<open>Shards\<close>

record sharded_cache =
  sc_shards :: "page_cache list"
  sc_mask :: nat

text \<open>\<^verbatim>\<open>usize::next_power_of_two\<close>, from a power of two on.\<close>

function pow2_from :: "nat \<Rightarrow> nat \<Rightarrow> nat" where
  "pow2_from p n = (if 0 < p \<and> p < n then pow2_from (2 * p) n else p)"
  by pat_completeness auto
termination by (relation "measure (\<lambda>(p, n). n - p)") auto

function shrink_shards :: "nat \<Rightarrow> nat \<Rightarrow> nat" where
  "shrink_shards nshards cap = (if nshards > cap then shrink_shards (nshards div 2) cap else nshards)"
  by pat_completeness auto
termination by (relation "measure fst") auto

declare pow2_from.simps [simp del] shrink_shards.simps [simp del]

text \<open>\<open>cores\<close> is what \<^verbatim>\<open>available_parallelism\<close> reports (4 when it fails).\<close>

definition sc_new :: "nat \<Rightarrow> nat \<Rightarrow> sharded_cache" where
  "sc_new cores cap =
     (let cap = max cap 1;
          nshards = shrink_shards (min (max (pow2_from 1 (cores * 2)) 1) 64) cap;
          per = div_ceil cap nshards
      in \<lparr>sc_shards = replicate nshards (pc_new per), sc_mask = nshards - 1\<rparr>)"

definition sc_shard :: "sharded_cache \<Rightarrow> page_id \<Rightarrow> nat" where
  "sc_shard c pid = unat (drop_bit 58 (pid * 0x9E3779B97F4A7C15)) AND sc_mask c"

definition sc_get :: "sharded_cache \<Rightarrow> page_id \<Rightarrow> page_buf option \<times> sharded_cache" where
  "sc_get c pid =
     (let i = sc_shard c pid; (r, s) = pc_get (sc_shards c ! i) pid in (r, c\<lparr>sc_shards := (sc_shards c)[i := s]\<rparr>))"

definition sc_insert :: "page_id \<Rightarrow> page_buf \<Rightarrow> sharded_cache \<Rightarrow> sharded_cache option" where
  "sc_insert pid page c =
     (let i = sc_shard c pid in
      map_option (\<lambda>s. c\<lparr>sc_shards := (sc_shards c)[i := s]\<rparr>) (pc_insert pid page (sc_shards c ! i)))"

section \<open>Interface: a cache of pages\<close>

text \<open>\<open>view c\<close> is what the cache \<open>c\<close> would answer; \<open>ok\<close> is its invariant.\<close>

locale page_map =
  fixes get :: "'c \<Rightarrow> page_id \<Rightarrow> page_buf option \<times> 'c"
    and insert_page :: "page_id \<Rightarrow> page_buf \<Rightarrow> 'c \<Rightarrow> 'c option"
    and view :: "'c \<Rightarrow> page_id \<rightharpoonup> page_buf"
    and ok :: "'c \<Rightarrow> bool"
  assumes get_view: "ok c \<Longrightarrow> fst (get c pid) = view c pid"
    and get_keeps: "ok c \<Longrightarrow> ok (snd (get c pid)) \<and> view (snd (get c pid)) = view c"
    and insert_returns: "ok c \<Longrightarrow> \<exists>c'. insert_page pid page c = Some c'"
    and insert_view: "ok c \<Longrightarrow> insert_page pid page c = Some c' \<Longrightarrow>
      ok c' \<and> view c' pid = Some page \<and> (\<forall>q. q \<noteq> pid \<longrightarrow> view c' q = view c q \<or> view c' q = None)"
begin

text \<open>Whatever the cache holds agrees with a store it agreed with, once the store is updated alike.\<close>

definition agrees :: "'c \<Rightarrow> (page_id \<rightharpoonup> page_buf) \<Rightarrow> bool" where
  "agrees c m \<longleftrightarrow> view c \<subseteq>\<^sub>m m"

lemma agrees_get: "ok c \<Longrightarrow> agrees c m \<Longrightarrow> agrees (snd (get c pid)) m"
  using get_keeps [of c pid] by (simp add: agrees_def)

lemma map_le_SomeI: "(\<And>k v. m k = Some v \<Longrightarrow> n k = Some v) \<Longrightarrow> m \<subseteq>\<^sub>m n"
  by (auto simp: map_le_def)

lemma map_le_SomeD: "m \<subseteq>\<^sub>m n \<Longrightarrow> m k = Some v \<Longrightarrow> n k = Some v"
  by (metis domI map_le_def)

lemma agrees_hit: "ok c \<Longrightarrow> agrees c m \<Longrightarrow> fst (get c pid) = Some p \<Longrightarrow> m pid = Some p"
  using get_view [of c pid] unfolding agrees_def by (auto dest: map_le_SomeD)

lemma agrees_insert:
  assumes "ok c" "agrees c m" "insert_page pid page c = Some c'"
  shows "agrees c' (m(pid \<mapsto> page))"
proof -
  note v = insert_view [OF assms(1,3)]
  show ?thesis
    unfolding agrees_def
  proof (rule map_le_SomeI)
    fix q p assume p: "view c' q = Some p"
    show "(m(pid \<mapsto> page)) q = Some p"
    proof (cases "q = pid")
      case False
      then have "view c q = Some p" using v p by (metis option.distinct(1))
      then show ?thesis using False map_le_SomeD assms(2) unfolding agrees_def by simp
    qed (use v p in simp)
  qed
qed

end

section \<open>A shard is a cache\<close>

definition pc_view :: "page_cache \<Rightarrow> page_id \<rightharpoonup> page_buf" where
  "pc_view c pid = map_option (\<lambda>i. sl_page (pc_slots c ! i)) (pc_index c pid)"

definition pc_ok :: "page_cache \<Rightarrow> bool" where
  "pc_ok c \<longleftrightarrow> 0 < pc_cap c \<and> length (pc_slots c) \<le> pc_cap c \<and> pc_hand c < pc_cap c \<and>
     (\<forall>pid i. pc_index c pid = Some i \<longleftrightarrow> i < length (pc_slots c) \<and> sl_id (pc_slots c ! i) = pid)"

lemma pc_okD: "pc_ok c \<Longrightarrow> pc_index c pid = Some i \<longleftrightarrow> i < length (pc_slots c) \<and> sl_id (pc_slots c ! i) = pid"
  by (simp add: pc_ok_def)

lemma pc_ok_new: "pc_ok (pc_new cap)"
  by (simp add: pc_ok_def pc_new_def)

lemma update_keeps: "f x = f (xs ! i) \<Longrightarrow> f (xs[i := x] ! j) = f (xs ! j)"
  by (cases "i < length xs"; cases "i = j") (auto simp: list_update_beyond not_less)

text \<open>Changing a slot but for its id keeps the invariant; but for its page, what is seen.\<close>

lemma pc_ok_slot: "pc_ok c \<Longrightarrow> sl_id x = sl_id (pc_slots c ! i) \<Longrightarrow> pc_ok (c\<lparr>pc_slots := (pc_slots c)[i := x]\<rparr>)"
  by (simp add: pc_ok_def update_keeps [where f = sl_id])

lemma pc_view_slot: "sl_page x = sl_page (pc_slots c ! i) \<Longrightarrow> pc_view (c\<lparr>pc_slots := (pc_slots c)[i := x]\<rparr>) = pc_view c"
  by (rule ext) (simp add: pc_view_def update_keeps [where f = sl_page])

lemma pc_ok_hand: "pc_ok c \<Longrightarrow> h < pc_cap c \<Longrightarrow> pc_ok (c\<lparr>pc_hand := h\<rparr>)"
  by (simp add: pc_ok_def)

lemma pc_view_hand: "pc_view (c\<lparr>pc_hand := h\<rparr>) = pc_view c"
  by (rule ext) (simp add: pc_view_def)

lemma filter_clear:
  "i < length xs \<Longrightarrow> P (xs ! i) \<Longrightarrow> \<not> P y \<Longrightarrow> length (filter P (xs[i := y])) < length (filter P xs)"
proof (induction xs arbitrary: i)
  case (Cons x xs)
  then show ?case by (cases i) auto
qed simp

text \<open>Placing a page in a slot: it is seen, its predecessor is not, the others are as before.\<close>

lemma pc_place:
  fixes page :: page_buf
  assumes ok: "pc_ok c" and i: "i < length (pc_slots c)" and n: "pc_index c pid = None"
  defines "c' \<equiv> c\<lparr>pc_index := (pc_index c)(sl_id (pc_slots c ! i) := None, pid \<mapsto> i),
      pc_slots := (pc_slots c)[i := \<lparr>sl_id = pid, sl_page = page, sl_referenced = False\<rparr>]\<rparr>"
  shows "pc_ok c' \<and> pc_view c' pid = Some page \<and> (\<forall>q. q \<noteq> pid \<longrightarrow> pc_view c' q = pc_view c q \<or> pc_view c' q = None)"
proof -
  let ?o = "sl_id (pc_slots c ! i)"
  have idx: "pc_index c q = Some j \<longleftrightarrow> j < length (pc_slots c) \<and> sl_id (pc_slots c ! j) = q" for q j
    using ok by (rule pc_okD)
  have op: "?o \<noteq> pid" using idx [of ?o i] i n by auto
  have "pc_index c' q = Some j \<longleftrightarrow> j < length (pc_slots c') \<and> sl_id (pc_slots c' ! j) = q" for q j
  proof (cases "j = i")
    case True
    then show ?thesis using i idx [of q i] op by (auto simp: c'_def)
  next
    case False
    then have s: "sl_id (pc_slots c' ! j) = sl_id (pc_slots c ! j)" by (simp add: c'_def)
    have "pc_index c pid \<noteq> Some j" using n by simp
    moreover have "pc_index c ?o = Some i" using idx [of ?o i] i by simp
    ultimately show ?thesis using False idx [of q j] s by (auto simp: c'_def)
  qed
  then have "pc_ok c'" using ok by (simp add: pc_ok_def c'_def)
  moreover have "pc_view c' pid = Some page" using i by (simp add: pc_view_def c'_def)
  moreover have "pc_view c' q = pc_view c q \<or> pc_view c' q = None" if "q \<noteq> pid" for q
  proof (cases "q = ?o")
    case False
    have "j \<noteq> i" if "pc_index c q = Some j" for j using that idx [of q j] False by auto
    then have "pc_view c' q = pc_view c q"
      using that False by (cases "pc_index c q") (simp_all add: pc_view_def c'_def)
    then show ?thesis by simp
  qed (use that in \<open>simp add: pc_view_def c'_def\<close>)
  ultimately show ?thesis by blast
qed

lemma pc_evict_spec:
  "pc_ok c \<Longrightarrow> length (pc_slots c) = pc_cap c \<Longrightarrow> pc_index c pid = None \<Longrightarrow>
   \<exists>c'. pc_evict pid page c = Some c' \<and> pc_ok c' \<and>
    pc_view c' pid = Some page \<and> (\<forall>q. q \<noteq> pid \<longrightarrow> pc_view c' q = pc_view c q \<or> pc_view c' q = None)"
proof (induction "length (filter sl_referenced (pc_slots c))" arbitrary: c rule: less_induct)
  case less
  let ?i = "pc_hand c"
  define c1 where "c1 = c\<lparr>pc_hand := (?i + 1) mod pc_cap c\<rparr>"
  have cap: "0 < pc_cap c" and i: "?i < length (pc_slots c)" using less.prems by (simp_all add: pc_ok_def)
  have c1: "pc_ok c1" "pc_view c1 = pc_view c" "pc_slots c1 = pc_slots c" "pc_cap c1 = pc_cap c" "pc_index c1 = pc_index c"
    using less.prems(1) cap by (simp_all add: c1_def pc_ok_hand pc_view_hand)
  show ?case
  proof (cases "sl_referenced (pc_slots c ! ?i)")
    case True
    let ?x = "(pc_slots c ! ?i)\<lparr>sl_referenced := False\<rparr>"
    define c2 where "c2 = c1\<lparr>pc_slots := (pc_slots c1)[?i := ?x]\<rparr>"
    have e: "pc_evict pid page c = pc_evict pid page c2"
      using True by (subst pc_evict.simps) (simp add: Let_def c2_def c1_def)
    have "pc_ok c2" unfolding c2_def by (rule pc_ok_slot [OF c1(1)]) (simp add: c1)
    moreover have "pc_view c2 = pc_view c" unfolding c2_def using c1 by (subst pc_view_slot) simp_all
    moreover have "length (filter sl_referenced (pc_slots c2)) < length (filter sl_referenced (pc_slots c))"
      using filter_clear [of ?i "pc_slots c" sl_referenced ?x] i True c1(3) by (simp add: c2_def)
    moreover have "length (pc_slots c2) = pc_cap c2" "pc_index c2 pid = None" using less.prems c1 by (simp_all add: c2_def)
    ultimately show ?thesis unfolding e using less.hyps [of c2] by simp
  next
    case False
    let ?c' = "c1\<lparr>pc_index := (pc_index c1)(sl_id (pc_slots c1 ! ?i) := None, pid \<mapsto> ?i),
      pc_slots := (pc_slots c1)[?i := \<lparr>sl_id = pid, sl_page = page, sl_referenced = False\<rparr>]\<rparr>"
    have "pc_evict pid page c = Some ?c'"
      using False by (subst pc_evict.simps) (simp add: Let_def c1_def)
    then show ?thesis using pc_place [of c1 ?i pid page] c1 i less.prems(3) by simp
  qed
qed

lemma pc_insert_spec:
  assumes ok: "pc_ok c"
  shows "\<exists>c'. pc_insert pid page c = Some c' \<and> pc_ok c' \<and> pc_view c' pid = Some page \<and>
    (\<forall>q. q \<noteq> pid \<longrightarrow> pc_view c' q = pc_view c q \<or> pc_view c' q = None)"
proof (cases "pc_index c pid")
  case (Some i)
  let ?c' = "c\<lparr>pc_slots := (pc_slots c)[i := (pc_slots c ! i)\<lparr>sl_page := page, sl_referenced := True\<rparr>]\<rparr>"
  have i: "i < length (pc_slots c)" "sl_id (pc_slots c ! i) = pid" using Some pc_okD [OF ok] by simp_all
  have ne: "j \<noteq> i" if "q \<noteq> pid" "pc_index c q = Some j" for q j
    using that pc_okD [OF ok, of q j] i(2) by blast
  have "pc_view ?c' q = pc_view c q" if "q \<noteq> pid" for q
    using ne [OF that] by (cases "pc_index c q") (simp_all add: pc_view_def)
  then show ?thesis using Some i pc_ok_slot [OF ok, of "(pc_slots c ! i)\<lparr>sl_page := page, sl_referenced := True\<rparr>" i]
    by (simp add: pc_insert_def) (simp add: pc_view_def)
next
  case n: None
  show ?thesis
  proof (cases "length (pc_slots c) < pc_cap c")
    case True
    let ?n = "length (pc_slots c)"
    let ?c' = "c\<lparr>pc_slots := pc_slots c @ [\<lparr>sl_id = pid, sl_page = page, sl_referenced = False\<rparr>],
                 pc_index := (pc_index c)(pid \<mapsto> ?n)\<rparr>"
    have ne: "j < ?n \<Longrightarrow> sl_id (pc_slots c ! j) \<noteq> pid" for j using pc_okD [OF ok, of pid j] n by auto
    have "pc_index ?c' q = Some j \<longleftrightarrow> j < length (pc_slots ?c') \<and> sl_id (pc_slots ?c' ! j) = q" for q j
      using pc_okD [OF ok, of q j] ne [of j] by (auto simp: nth_append less_Suc_eq)
    then have "pc_ok ?c'" using ok True by (simp add: pc_ok_def)
    moreover have lt: "j < ?n" if "pc_index c q = Some j" for q j
      using that pc_okD [OF ok, of q j] by blast
    have "pc_view ?c' q = pc_view c q" if "q \<noteq> pid" for q
      using that lt [of q] by (cases "pc_index c q") (simp_all add: pc_view_def nth_append)
    ultimately show ?thesis using n True by (simp add: pc_insert_def Let_def) (simp add: pc_view_def)
  next
    case False
    then have "length (pc_slots c) = pc_cap c" using ok by (simp add: pc_ok_def)
    then show ?thesis using pc_evict_spec [OF ok _ n] n False by (simp add: pc_insert_def)
  qed
qed

lemma pc_get_spec:
  assumes "pc_ok c"
  shows "fst (pc_get c pid) = pc_view c pid" "pc_ok (snd (pc_get c pid))" "pc_view (snd (pc_get c pid)) = pc_view c"
proof -
  have "fst (pc_get c pid) = pc_view c pid \<and> pc_ok (snd (pc_get c pid)) \<and> pc_view (snd (pc_get c pid)) = pc_view c"
  proof (cases "pc_index c pid")
    case (Some i)
    then have i: "i < length (pc_slots c)" using pc_okD [OF assms] by simp
    let ?x = "(pc_slots c ! i)\<lparr>sl_referenced := True\<rparr>"
    show ?thesis using Some i pc_ok_slot [OF assms, of ?x i] pc_view_slot [of ?x c i]
      by (simp add: pc_get_def Let_def) (simp add: pc_view_def)
  qed (simp add: pc_get_def assms, simp add: pc_view_def)
  then show "fst (pc_get c pid) = pc_view c pid" "pc_ok (snd (pc_get c pid))" "pc_view (snd (pc_get c pid)) = pc_view c"
    by simp_all
qed

interpretation shard: page_map pc_get pc_insert pc_view pc_ok
proof
  fix c pid page c'
  assume ok: "pc_ok c"
  show "fst (pc_get c pid) = pc_view c pid" using pc_get_spec [OF ok] by simp
  show "pc_ok (snd (pc_get c pid)) \<and> pc_view (snd (pc_get c pid)) = pc_view c" using pc_get_spec [OF ok] by simp
  show "\<exists>c'. pc_insert pid page c = Some c'" using pc_insert_spec [OF ok] by blast
  show "pc_insert pid page c = Some c' \<Longrightarrow>
      pc_ok c' \<and> pc_view c' pid = Some page \<and> (\<forall>q. q \<noteq> pid \<longrightarrow> pc_view c' q = pc_view c q \<or> pc_view c' q = None)"
    using pc_insert_spec [OF ok, of pid page] by auto
qed

section \<open>The sharded cache\<close>

definition sc_view :: "sharded_cache \<Rightarrow> page_id \<rightharpoonup> page_buf" where
  "sc_view c pid = pc_view (sc_shards c ! sc_shard c pid) pid"

definition sc_ok :: "sharded_cache \<Rightarrow> bool" where
  "sc_ok c \<longleftrightarrow> length (sc_shards c) = sc_mask c + 1 \<and> list_all pc_ok (sc_shards c)"

lemma sc_shard_less: "sc_ok c \<Longrightarrow> sc_shard c pid < length (sc_shards c)"
proof -
  have "(a AND m :: nat) \<le> m" for a m 
  proof -
    have "int (a AND m) = int a AND int m" by (simp add: of_nat_and_eq)
    also have "\<dots> \<le> int m" by (rule AND_upper2) simp
    finally show ?thesis by simp
  qed
  then show "sc_ok c \<Longrightarrow> ?thesis" by (simp add: sc_ok_def sc_shard_def le_imp_less_Suc)
qed

lemma sc_ok_shard: "sc_ok c \<Longrightarrow> pc_ok (sc_shards c ! sc_shard c pid)"
  using sc_shard_less [of c pid] by (simp add: sc_ok_def list_all_length)

lemma sc_replace:
  fixes pid :: page_id
  assumes "sc_ok c" "pc_ok s"
  defines "c' \<equiv> c\<lparr>sc_shards := (sc_shards c)[sc_shard c pid := s]\<rparr>"
  shows "sc_ok c'" "sc_view c' q = (if sc_shard c q = sc_shard c pid then pc_view s q else sc_view c q)"
proof -
  have l: "sc_shard c pid < length (sc_shards c)" by (rule sc_shard_less [OF assms(1)])
  have "pc_ok ((sc_shards c)[sc_shard c pid := s] ! n)" if "n < length (sc_shards c)" for n
    using assms that by (cases "n = sc_shard c pid") (simp_all add: sc_ok_def list_all_length)
  then show "sc_ok c'" using assms(1) by (simp add: c'_def sc_ok_def list_all_length)
  have "sc_shard c' q = sc_shard c q" by (simp add: sc_shard_def c'_def)
  then show "sc_view c' q = (if sc_shard c q = sc_shard c pid then pc_view s q else sc_view c q)"
    using l by (simp add: sc_view_def c'_def)
qed

interpretation cache: page_map sc_get sc_insert sc_view sc_ok
proof
  fix c pid page c'
  assume ok: "sc_ok c"
  let ?s = "sc_shards c ! sc_shard c pid"
  note s = sc_ok_shard [OF ok, of pid]
  note g = pc_get_spec [OF s]
  have sg: "sc_get c pid = (fst (pc_get ?s pid), c\<lparr>sc_shards := (sc_shards c)[sc_shard c pid := snd (pc_get ?s pid)]\<rparr>)"
    by (simp add: sc_get_def Let_def case_prod_unfold)
  show "fst (sc_get c pid) = sc_view c pid" unfolding sg using g(1) [of pid] by (simp add: sc_view_def)
  have "sc_view (snd (sc_get c pid)) q = sc_view c q" for q
    unfolding sg snd_conv sc_replace(2) [OF ok g(2)] using g(3) [of pid] by (simp add: sc_view_def)
  then show "sc_ok (snd (sc_get c pid)) \<and> sc_view (snd (sc_get c pid)) = sc_view c"
    using sc_replace(1) [OF ok g(2) [of pid], of pid] sg by auto
  obtain s' where s': "pc_insert pid page ?s = Some s'" "pc_ok s'" "pc_view s' pid = Some page"
    "\<forall>q. q \<noteq> pid \<longrightarrow> pc_view s' q = pc_view ?s q \<or> pc_view s' q = None"
    using pc_insert_spec [OF s, of pid page] by blast
  let ?c = "c\<lparr>sc_shards := (sc_shards c)[sc_shard c pid := s']\<rparr>"
  have i: "sc_insert pid page c = Some ?c" by (simp add: sc_insert_def s' Let_def)
  then show "\<exists>c'. sc_insert pid page c = Some c'" by blast
  show "sc_insert pid page c = Some c' \<Longrightarrow>
      sc_ok c' \<and> sc_view c' pid = Some page \<and> (\<forall>q. q \<noteq> pid \<longrightarrow> sc_view c' q = sc_view c q \<or> sc_view c' q = None)"
    using i sc_replace [OF ok s'(2), of pid] s'(3,4) by (auto simp: sc_view_def)
qed

lemma shrink_shards_le: "0 < c \<Longrightarrow> shrink_shards n c \<le> n"
proof (induction n c rule: shrink_shards.induct)
  case (1 n c)
  then show ?case by (subst shrink_shards.simps) auto
qed

lemma shrink_shards_pos: "0 < n \<Longrightarrow> 0 < c \<Longrightarrow> 0 < shrink_shards n c"
proof (induction n c rule: shrink_shards.induct)
  case (1 n c)
  show ?case
  proof (cases "n > c")
    case True
    then have "0 < n div 2" using 1(3) by (simp add: div_greater_zero_iff)
    then show ?thesis using 1(1) [OF True] 1(3) True by (subst shrink_shards.simps) simp
  qed (use 1 in \<open>subst shrink_shards.simps, simp\<close>)
qed

lemma sc_ok_new: "sc_ok (sc_new cores cap)"
proof -
  have "0 < shrink_shards (min (max n 1) 64) (max cap 1)" for n by (rule shrink_shards_pos) simp_all
  then show ?thesis by (simp add: sc_new_def sc_ok_def list_all_length pc_ok_new Let_def)
qed

lemma sc_view_new: "sc_view (sc_new cores cap) = Map.empty"
proof
  fix pid
  have l: "sc_shard (sc_new cores cap) pid < length (sc_shards (sc_new cores cap))" by (rule sc_shard_less [OF sc_ok_new])
  then have "sc_shards (sc_new cores cap) ! sc_shard (sc_new cores cap) pid \<in> set (sc_shards (sc_new cores cap))"
    by (rule nth_mem)
  moreover have "s \<in> set (sc_shards (sc_new cores cap)) \<Longrightarrow> pc_view s pid = None" for s
    by (auto simp: sc_new_def Let_def pc_new_def pc_view_def)
  ultimately show "sc_view (sc_new cores cap) pid = None" by (simp add: sc_view_def)
qed

end
