(* ===== verification/Crypto.thy ===== *)
theory Crypto
  imports Format
begin

text \<open>
  Sealing of pages (\<^verbatim>\<open>src/crypto.rs\<close>).  SHA-256 and AES-256-GCM come from crates outside the
  repository: \<open>sha\<close> maps a message to a 32-byte digest, and an \<open>aead\<close> record holds the two
  operations of the cipher.  What the code relies on of AES-GCM is the predicate \<open>aead_ok\<close>: decryption
  inverts encryption and neither changes the length of the text.  The \<^verbatim>\<open>trait CryptoProvider\<close> is the
  locale \<open>crypto_provider\<close>; its two fixed-slot wrappers are proved once inside it.
\<close>

section \<open>Digests\<close>

typedef digest = "{b :: bytes. length b = 32}"
  morphisms digest_bytes Digest
  by (rule exI [of _ "replicate 32 0"]) simp

lemma length_digest_bytes [simp]: "length (digest_bytes d) = 32"
  using digest_bytes [of d] by simp

lemma digest_bytes_Digest [simp]: "length b = 32 \<Longrightarrow> digest_bytes (Digest b) = b"
  by (simp add: Digest_inverse)

lemma digest_bytes_inject_iff [simp]: "digest_bytes a = digest_bytes b \<longleftrightarrow> a = b"
  by (rule digest_bytes_inject)

type_synonym hash = "bytes \<Rightarrow> digest"

section \<open>Integrity without encryption\<close>

definition plain_tag :: "hash \<Rightarrow> page_id \<Rightarrow> bytes \<Rightarrow> bytes" where
  "plain_tag sha page body = take TAG_LEN (digest_bytes (sha (u64_le page @ body)))"

definition plain_seal_bytes :: "hash \<Rightarrow> bytes \<Rightarrow> page_id \<Rightarrow> u64 \<Rightarrow> bytes" where
  "plain_seal_bytes sha body page nonce_counter =
     replicate NONCE_LEN 0 @ plain_tag sha page body @ body"

definition split_stored :: "bytes \<Rightarrow> page_id \<Rightarrow> (bytes \<times> bytes \<times> bytes) res" where
  "split_stored stored page =
     (if length stored < CRYPTO_RESERVE
      then Inl (Corrupt page ''registro mas corto que la reserva criptografica'')
      else Inr (take NONCE_LEN stored, take TAG_LEN (drop NONCE_LEN stored), drop TAG_LEN (drop NONCE_LEN stored)))"

definition plain_open_bytes :: "hash \<Rightarrow> bytes \<Rightarrow> page_id \<Rightarrow> bytes res" where
  "plain_open_bytes sha stored page =
     rbind (split_stored stored page) (\<lambda>(nonce, tag, body).
       if list_ex (\<lambda>b. b \<noteq> 0) nonce then Inl (Corrupt page ''nonce no nulo sin cifrado'')
       else if tag \<noteq> plain_tag sha page body then Inl (Corrupt page ''tag de integridad invalido'')
       else Inr body)"

section \<open>Encryption at rest\<close>

text \<open>HMAC-SHA256 over a 32-byte key: the key block is the key padded to 64 bytes.\<close>

definition hmac_sha256 :: "hash \<Rightarrow> bytes \<Rightarrow> bytes \<Rightarrow> digest" where
  "hmac_sha256 sha key msg =
     (let k_block = blit (replicate 64 0) 0 key;
          ipad = map2 (XOR) (replicate 64 0x36) k_block;
          opad = map2 (XOR) (replicate 64 0x5c) k_block;
          inner = sha (ipad @ msg)
      in sha (opad @ digest_bytes inner))"

text \<open>The cipher of the \<^verbatim>\<open>aes_gcm\<close> crate under a key: nonce, associated data and text to the
  ciphertext and its tag, and back (\<open>None\<close> when the tag does not authenticate).\<close>

record aead =
  aead_encrypt :: "bytes \<Rightarrow> bytes \<Rightarrow> bytes \<Rightarrow> bytes \<Rightarrow> bytes \<times> bytes"
  aead_decrypt :: "bytes \<Rightarrow> bytes \<Rightarrow> bytes \<Rightarrow> bytes \<Rightarrow> bytes \<Rightarrow> bytes option"

definition aead_ok :: "aead \<Rightarrow> bool" where
  "aead_ok a \<longleftrightarrow>
     (\<forall>key nonce aad text ct tag. aead_encrypt a key nonce aad text = (ct, tag) \<longrightarrow>
        length ct = length text \<and> length tag = TAG_LEN \<and> aead_decrypt a key nonce aad ct tag = Some text) \<and>
     (\<forall>key nonce aad ct tag text. aead_decrypt a key nonce aad ct tag = Some text \<longrightarrow> length text = length ct)"

definition aes_new :: "hash \<Rightarrow> bytes \<Rightarrow> bytes \<Rightarrow> bytes" where
  "aes_new sha key file_id = digest_bytes (hmac_sha256 sha key file_id)"

definition nonce_bytes :: "u64 \<Rightarrow> bytes" where
  "nonce_bytes counter = blit (replicate NONCE_LEN 0) 0 (u64_le counter)"

definition aes_seal_bytes :: "aead \<Rightarrow> bytes \<Rightarrow> bytes \<Rightarrow> page_id \<Rightarrow> u64 \<Rightarrow> bytes" where
  "aes_seal_bytes a key body page nonce_counter =
     (let nonce = nonce_bytes nonce_counter;
          (ct, tag) = aead_encrypt a key nonce (u64_le page) body
      in nonce @ tag @ ct)"

definition aes_open_bytes :: "aead \<Rightarrow> bytes \<Rightarrow> bytes \<Rightarrow> page_id \<Rightarrow> bytes res" where
  "aes_open_bytes a key stored page =
     rbind (split_stored stored page) (\<lambda>(nonce, tag, ct).
       case aead_decrypt a key nonce (u64_le page) ct tag of
         None \<Rightarrow> Inl (Corrupt page ''fallo de autenticacion AES-GCM'')
       | Some body \<Rightarrow> Inr body)"

section \<open>Providers\<close>

text \<open>A provider is the two operations of the trait; \<^verbatim>\<open>provider_for\<close> (\<^verbatim>\<open>src/pager.rs\<close>) picks one.\<close>

record provider =
  seal_bytes :: "bytes \<Rightarrow> page_id \<Rightarrow> u64 \<Rightarrow> bytes"
  open_bytes :: "bytes \<Rightarrow> page_id \<Rightarrow> bytes res"

definition PlainProvider :: "hash \<Rightarrow> provider" where
  "PlainProvider sha = \<lparr>seal_bytes = plain_seal_bytes sha, open_bytes = plain_open_bytes sha\<rparr>"

definition Aes256GcmProvider :: "hash \<Rightarrow> aead \<Rightarrow> bytes \<Rightarrow> bytes \<Rightarrow> provider" where
  "Aes256GcmProvider sha a key file_id =
     (let k = aes_new sha key file_id in \<lparr>seal_bytes = aes_seal_bytes a k, open_bytes = aes_open_bytes a k\<rparr>)"

definition provider_for :: "hash \<Rightarrow> aead \<Rightarrow> bytes option \<Rightarrow> bytes \<Rightarrow> provider" where
  "provider_for sha a key file_id =
     (case key of Some k \<Rightarrow> Aes256GcmProvider sha a k file_id | None \<Rightarrow> PlainProvider sha)"

text \<open>The wrappers for fixed slots; \<^verbatim>\<open>copy_from_slice\<close> panics on another length.\<close>

definition seal :: "provider \<Rightarrow> page_buf \<Rightarrow> page_id \<Rightarrow> u64 \<Rightarrow> page_buf res" where
  "seal c page pid nonce_counter =
     (let stored = seal_bytes c (page_body page) pid nonce_counter
      in if length stored = length page then Inr stored else Inl Panic)"

definition open_page :: "provider \<Rightarrow> page_buf \<Rightarrow> page_id \<Rightarrow> page_buf res" where
  "open_page c page pid =
     rbind (open_bytes c page pid) (\<lambda>body.
       if length body = BODY_SIZE then Inr (take CRYPTO_RESERVE page @ body) else Inl Panic)"

section \<open>Interface: a provider\<close>

locale crypto_provider =
  fixes c :: provider
  assumes open_seal: "open_bytes c (seal_bytes c body page n) page = Inr body"
    and length_seal: "length (seal_bytes c body page n) = CRYPTO_RESERVE + length body"
    and length_open: "open_bytes c stored page = Inr body \<Longrightarrow> length stored = CRYPTO_RESERVE + length body"
    and open_error: "open_bytes c stored page = Inl e \<Longrightarrow> \<exists>r. e = Corrupt page r"
begin

lemma open_page_seal:
  assumes "length p = PAGE_SIZE" "seal c p pid n = Inr q"
  shows "length q = PAGE_SIZE \<and> (\<exists>p'. open_page c q pid = Inr p' \<and> page_body p' = page_body p)"
proof -
  have q: "q = seal_bytes c (page_body p) pid n" "length q = PAGE_SIZE"
    using assms by (auto simp: seal_def Let_def split: if_splits)
  have "length (page_body p) = BODY_SIZE" using assms(1) by (simp add: page_body_def size_consts)
  then show ?thesis using q by (simp add: open_page_def open_seal page_body_def size_consts)
qed

lemma seal_total:
  assumes "length p = PAGE_SIZE"
  shows "seal c p pid n = Inr (seal_bytes c (page_body p) pid n)"
  using assms by (simp add: seal_def length_seal page_body_def size_consts Let_def)

lemma open_page_no_panic:
  assumes "length p = PAGE_SIZE"
  shows "open_page c p pid \<noteq> Inl Panic"
proof
  assume p: "open_page c p pid = Inl Panic"
  then show False
    using open_error [of p pid] length_open [of p pid] assms
    by (cases "open_bytes c p pid") (auto simp: open_page_def size_consts split: if_splits)
qed

lemma seal_inject: "seal_bytes c a pid n = seal_bytes c b pid m \<Longrightarrow> a = b"
  using open_seal [of a pid n] open_seal [of b pid m] by simp

end

lemma length_plain_tag [simp]: "length (plain_tag sha page body) = TAG_LEN"
  by (simp add: plain_tag_def size_consts)

lemma split_stored_append:
  "length n = NONCE_LEN \<Longrightarrow> length t = TAG_LEN \<Longrightarrow> split_stored (n @ t @ b) page = Inr (n, t, b)"
  by (simp add: split_stored_def CRYPTO_RESERVE_def)

lemma split_stored_length:
  "split_stored s page = Inr (n, t, b) \<Longrightarrow>
   length s = CRYPTO_RESERVE + length b \<and> s = n @ t @ b \<and> length n = NONCE_LEN \<and> length t = TAG_LEN"
  using append_take_drop_id [of TAG_LEN "drop NONCE_LEN s"]
  by (auto simp: split_stored_def CRYPTO_RESERVE_def split: if_splits)

lemma split_stored_error: "split_stored s page = Inl e \<Longrightarrow> \<exists>r. e = Corrupt page r"
  by (auto simp: split_stored_def split: if_splits)

lemmas rbind_Inr = rbind_eq_Inr [THEN iffD1]

interpretation plain: crypto_provider "PlainProvider sha" for sha
proof
  fix body page n
  have z: "\<not> list_ex (\<lambda>b. b \<noteq> 0) (replicate NONCE_LEN (0 :: u8))" by (simp add: list_ex_iff)
  show "open_bytes (PlainProvider sha) (seal_bytes (PlainProvider sha) body page n) page = Inr body"
    using z by (simp add: PlainProvider_def plain_seal_bytes_def plain_open_bytes_def split_stored_append)
  show "length (seal_bytes (PlainProvider sha) body page n) = CRYPTO_RESERVE + length body"
    by (simp add: PlainProvider_def plain_seal_bytes_def CRYPTO_RESERVE_def)
next
  fix stored page body
  assume "open_bytes (PlainProvider sha) stored page = Inr body"
  then show "length stored = CRYPTO_RESERVE + length body"
    by (auto simp: PlainProvider_def plain_open_bytes_def dest!: rbind_Inr split_stored_length split: if_splits)
next
  fix stored page e
  assume "open_bytes (PlainProvider sha) stored page = Inl e"
  then show "\<exists>r. e = Corrupt page r"
    using split_stored_error [of stored page]
    by (cases "split_stored stored page") (auto simp: PlainProvider_def plain_open_bytes_def split: if_splits)
qed

lemma length_nonce_bytes [simp]: "length (nonce_bytes n) = NONCE_LEN"
  by (simp add: nonce_bytes_def size_consts)

lemma aead_okD:
  assumes "aead_ok a" "aead_encrypt a key nonce aad text = (ct, tag)"
  shows "length ct = length text" "length tag = TAG_LEN" "aead_decrypt a key nonce aad ct tag = Some text"
  using assms unfolding aead_ok_def by blast+

lemma aead_okD2: "aead_ok a \<Longrightarrow> aead_decrypt a key nonce aad ct tag = Some text \<Longrightarrow> length text = length ct"
  unfolding aead_ok_def by blast

lemma aes_provider:
  assumes "aead_ok a"
  shows "crypto_provider (Aes256GcmProvider sha a key file_id)"
proof
  fix body page n
  let ?k = "aes_new sha key file_id"
  obtain ct tag where e: "aead_encrypt a ?k (nonce_bytes n) (u64_le page) body = (ct, tag)"
    by (cases "aead_encrypt a ?k (nonce_bytes n) (u64_le page) body")
  note l = aead_okD [OF assms e]
  show "open_bytes (Aes256GcmProvider sha a key file_id)
      (seal_bytes (Aes256GcmProvider sha a key file_id) body page n) page = Inr body"
    by (simp add: Aes256GcmProvider_def aes_seal_bytes_def aes_open_bytes_def e l split_stored_append Let_def)
  show "length (seal_bytes (Aes256GcmProvider sha a key file_id) body page n) = CRYPTO_RESERVE + length body"
    by (simp add: Aes256GcmProvider_def aes_seal_bytes_def e l CRYPTO_RESERVE_def Let_def)
next
  fix stored page body
  assume "open_bytes (Aes256GcmProvider sha a key file_id) stored page = Inr body"
  then show "length stored = CRYPTO_RESERVE + length body"
    using aead_okD2 [OF assms]
    by (auto simp: Aes256GcmProvider_def aes_open_bytes_def Let_def dest!: rbind_Inr split_stored_length
        split: option.splits)
next
  fix stored page e
  assume "open_bytes (Aes256GcmProvider sha a key file_id) stored page = Inl e"
  then show "\<exists>r. e = Corrupt page r"
    using split_stored_error [of stored page]
    by (cases "split_stored stored page") (auto simp: Aes256GcmProvider_def aes_open_bytes_def Let_def split: option.splits)
qed

lemma provider_for_ok:
  assumes "key = None \<or> aead_ok a"
  shows "crypto_provider (provider_for sha a key file_id)"
  using assms aes_provider plain.crypto_provider_axioms by (auto simp: provider_for_def split: option.split)

text \<open>A sealed page moved elsewhere opens only on a collision of the truncated hash.\<close>

lemma plain_moved:
  assumes "plain_open_bytes sha (plain_seal_bytes sha body page n) page' = Inr body'"
  shows "body' = body" "plain_tag sha page' body = plain_tag sha page body"
  using assms by (auto simp: plain_open_bytes_def plain_seal_bytes_def split_stored_append split: if_splits)

text \<open>Any stored record that opens is the sealing of its body: every byte is covered.\<close>

lemma plain_open_covers:
  assumes "plain_open_bytes sha stored page = Inr body"
  shows "stored = plain_seal_bytes sha body page n"
proof -
  obtain nn t b where s: "split_stored stored page = Inr (nn, t, b)"
    and c: "\<not> list_ex (\<lambda>b. b \<noteq> 0) nn" "t = plain_tag sha page b" "body = b"
    using assms by (auto simp: plain_open_bytes_def dest!: rbind_Inr split: if_splits)
  have "nn = replicate NONCE_LEN 0"
    using c(1) split_stored_length [OF s] by (simp add: list_ex_iff replicate_eqI)
  then show ?thesis using split_stored_length [OF s] c by (simp add: plain_seal_bytes_def)
qed

text \<open>Different counters give different nonces.\<close>

lemma nonce_bytes_inject: "nonce_bytes a = nonce_bytes b \<longleftrightarrow> a = b"
proof
  assume "nonce_bytes a = nonce_bytes b"
  then have "u64_le a = u64_le b" by (simp add: nonce_bytes_def blit_def)
  then show "a = b" using le_val_u64_le [of a] le_val_u64_le [of b] by (simp add: word_unat_eq_iff)
qed simp

end
