(* ===== verification/Compress.thy ===== *)
theory Compress
  imports Format
begin

text \<open>
  Page compression (\<^verbatim>\<open>src/compress.rs\<close>): the LZSS coder with hash chains, the adaptive range coder over its
  output, and the three backends behind the \<^verbatim>\<open>trait Compressor\<close>.  Loops bounded by the input are
  structural or have a measure; the renormalisation of the range coder is a \<open>partial_function\<close>, so that an
  endless loop would be the value \<open>None\<close>; \<^verbatim>\<open>CompressLaws\<close> shows that it returns.
\<close>

definition METHOD_RAW :: u8 where "METHOD_RAW = 0"
definition METHOD_LZ :: u8 where "METHOD_LZ = 1"
definition METHOD_DENSA :: u8 where "METHOD_DENSA = 2"

definition MIN_MATCH :: nat where "MIN_MATCH = 3"
definition MAX_MATCH :: nat where "MAX_MATCH = 273"
definition WINDOW :: nat where "WINDOW = 4096"
definition HASH_BITS :: nat where "HASH_BITS = 13"
definition HASH_SIZE :: nat where "HASH_SIZE = 2 ^ HASH_BITS"
definition MAX_CHAIN :: nat where "MAX_CHAIN = 128"

lemmas lz_consts = MIN_MATCH_def MAX_MATCH_def WINDOW_def MAX_CHAIN_def

section \<open>LZSS: the compressor\<close>

text \<open>The hash of the three bytes at \<open>pos\<close>.\<close>

definition hash3 :: "bytes \<Rightarrow> nat \<Rightarrow> nat" where
  "hash3 b pos =
     (let v = push_bit 16 (ucast (b ! pos)) OR push_bit 8 (ucast (b ! (pos + 1))) OR ucast (b ! (pos + 2)) :: u32
      in unat (drop_bit (32 - HASH_BITS) (v * 0x9E3779B1)))"

text \<open>A position as the \<^verbatim>\<open>i32\<close> the chains hold; \<open>-1\<close> is the empty chain.\<close>

definition as_i32 :: "nat \<Rightarrow> int" where
  "as_i32 n = sint (of_nat n :: u32)"

record lz_state =
  lz_out :: bytes
  lz_head :: "int list"
  lz_prev :: "int list"
  lz_flags_pos :: nat
  lz_flags :: u8
  lz_nflags :: nat
  lz_pos :: nat

definition lz_insert :: "bytes \<Rightarrow> nat \<Rightarrow> int list \<times> int list \<Rightarrow> int list \<times> int list" where
  "lz_insert input pos = (\<lambda>(head, prev).
     if pos + MIN_MATCH \<le> length input then
       let h = hash3 input pos in (head[h := as_i32 pos], prev[pos := head ! h])
     else (head, prev))"

text \<open>Length of the common run at \<open>c\<close> and \<open>pos\<close>, up to \<open>max_len\<close>.\<close>

fun match_len :: "bytes \<Rightarrow> nat \<Rightarrow> nat \<Rightarrow> nat \<Rightarrow> nat" where
  "match_len input c pos 0 = 0"
| "match_len input c pos (Suc max_len) =
     (if input ! c = input ! pos then Suc (match_len input (c + 1) (pos + 1) max_len) else 0)"

text \<open>The walk of a hash chain: at most \<open>MAX_CHAIN\<close> candidates, keeping the best length and offset.\<close>

fun best_match :: "bytes \<Rightarrow> int list \<Rightarrow> nat \<Rightarrow> nat \<Rightarrow> nat \<Rightarrow> int \<Rightarrow> nat \<times> nat \<Rightarrow> nat \<times> nat" where
  "best_match input prev pos max_len 0 cand best = best"
| "best_match input prev pos max_len (Suc fuel) cand (best_len, best_off) =
     (if cand < 0 then (best_len, best_off)
      else let c = nat cand in
        if pos - c > WINDOW then (best_len, best_off)
        else let l = match_len input c pos max_len in
          if l > best_len then
            if l = max_len then (l, pos - c)
            else best_match input prev pos max_len fuel (prev ! c) (l, pos - c)
          else best_match input prev pos max_len fuel (prev ! c) (best_len, best_off))"

definition lz_find :: "bytes \<Rightarrow> lz_state \<Rightarrow> nat \<times> nat" where
  "lz_find input s =
     (let pos = lz_pos s; n = length input in
      if pos + MIN_MATCH \<le> n then
        best_match input (lz_prev s) pos (min (n - pos) MAX_MATCH) MAX_CHAIN (lz_head s ! hash3 input pos) (0, 0)
      else (0, 0))"

text \<open>The bytes of a match: 12 bits of offset, 4 of length, and the extra length byte of the long form.\<close>

definition match_code :: "nat \<Rightarrow> nat \<Rightarrow> bytes" where
  "match_code best_len best_off =
     (let lc = (if best_len \<le> 17 then of_nat (best_len - MIN_MATCH) else 15) :: u16;
          code = of_nat (best_off - 1) OR push_bit 12 lc
      in u16_le code @ (if best_len > 17 then [of_nat (best_len - 18)] else []))"

definition lz_open_group :: "lz_state \<Rightarrow> lz_state" where
  "lz_open_group s =
     (if lz_nflags s = 0
      then s\<lparr>lz_flags_pos := length (lz_out s), lz_out := lz_out s @ [0], lz_flags := 0\<rparr> else s)"

definition lz_emit :: "bytes \<Rightarrow> lz_state \<Rightarrow> lz_state" where
  "lz_emit input s =
     (let (best_len, best_off) = lz_find input s; pos = lz_pos s in
      if best_len \<ge> MIN_MATCH then
        let (head, prev) = fold (lz_insert input) [pos..<pos + best_len] (lz_head s, lz_prev s)
        in s\<lparr>lz_out := lz_out s @ match_code best_len best_off, lz_head := head, lz_prev := prev,
             lz_pos := pos + best_len\<rparr>
      else
        let (head, prev) = lz_insert input pos (lz_head s, lz_prev s)
        in s\<lparr>lz_flags := lz_flags s OR push_bit (lz_nflags s) 1, lz_out := lz_out s @ [input ! pos],
             lz_head := head, lz_prev := prev, lz_pos := pos + 1\<rparr>)"

definition lz_close_group :: "lz_state \<Rightarrow> lz_state" where
  "lz_close_group s =
     (let nflags = lz_nflags s + 1 in
      if nflags = 8 then s\<lparr>lz_out := (lz_out s)[lz_flags_pos s := lz_flags s], lz_nflags := 0\<rparr>
      else s\<lparr>lz_nflags := nflags\<rparr>)"

definition lz_step :: "bytes \<Rightarrow> lz_state \<Rightarrow> lz_state" where
  "lz_step input s = lz_close_group (lz_emit input (lz_open_group s))"

lemma lz_emit_pos: "lz_pos s < lz_pos (lz_emit input s)"
  by (auto simp: lz_emit_def MIN_MATCH_def Let_def split: prod.split)

lemma lz_step_pos: "lz_pos s < lz_pos (lz_step input s)"
  using lz_emit_pos [of "lz_open_group s" input]
  by (auto simp: lz_step_def lz_close_group_def lz_open_group_def Let_def split: if_splits)

function lz_loop :: "bytes \<Rightarrow> lz_state \<Rightarrow> lz_state" where
  "lz_loop input s = (if lz_pos s < length input then lz_loop input (lz_step input s) else s)"
  by pat_completeness auto
termination
  by (relation "measure (\<lambda>(input, s). length input - lz_pos s)") (auto intro: diff_less_mono2 lz_step_pos)

declare lz_loop.simps [simp del]

definition lz_compress :: "bytes \<Rightarrow> bytes" where
  "lz_compress input =
     (let n = length input;
          s = lz_loop input \<lparr>lz_out = put_varint (of_nat n), lz_head = replicate HASH_SIZE (-1),
                lz_prev = replicate n (-1), lz_flags_pos = 0, lz_flags = 0, lz_nflags = 0, lz_pos = 0\<rparr>
      in if lz_nflags s > 0 then (lz_out s)[lz_flags_pos s := lz_flags s] else lz_out s)"

section \<open>LZSS: the decompressor\<close>

fun copy_match :: "bytes \<Rightarrow> nat \<Rightarrow> nat \<Rightarrow> bytes" where
  "copy_match out start 0 = out"
| "copy_match out start (Suc len) = copy_match (out @ [out ! start]) (start + 1) len"

text \<open>One token at \<open>pos\<close>: the new position and output.\<close>

definition lz_token :: "bytes \<Rightarrow> bool \<Rightarrow> nat \<Rightarrow> bytes \<Rightarrow> (nat \<times> bytes) option" where
  "lz_token data literal pos out =
     (if literal then map_option (\<lambda>b. (pos + 1, out @ [b])) (get_at data pos)
      else case (get_at data pos, get_at data (pos + 1)) of
        (Some b0, Some b1) \<Rightarrow>
          let code = of_nat (le_val [b0, b1]) :: u16; pos = pos + 2;
              off = unat (code AND 0x0FFF) + 1; lc = unat (drop_bit 12 code)
          in (case (if lc < 15 then Some (lc + MIN_MATCH, pos)
                else map_option (\<lambda>extra. (18 + unat extra, pos + 1)) (get_at data pos)) of
              None \<Rightarrow> None
            | Some (len, pos) \<Rightarrow>
                if off > length out then None
                else Some (pos, copy_match out (length out - off) len))
      | _ \<Rightarrow> None)"

function lz_group :: "bytes \<Rightarrow> nat \<Rightarrow> u8 \<Rightarrow> nat \<Rightarrow> nat \<Rightarrow> bytes \<Rightarrow> (nat \<times> bytes) option" where
  "lz_group data n ctrl b pos out =
     (if b < 8 \<and> length out < n then
        case lz_token data (ctrl AND push_bit b 1 \<noteq> 0) pos out of
          None \<Rightarrow> None
        | Some (pos, out) \<Rightarrow> lz_group data n ctrl (b + 1) pos out
      else Some (pos, out))"
  by pat_completeness auto
termination by (relation "measure (\<lambda>(data, n, ctrl, b, pos, out). 8 - b)") auto

declare lz_group.simps [simp del]

lemma lz_token_pos: "lz_token data lit pos out = Some (pos', out') \<Longrightarrow> pos \<le> pos'"
  by (auto simp: lz_token_def Let_def split: if_splits option.splits)

lemma lz_group_pos: "lz_group data n ctrl b pos out = Some (pos', out') \<Longrightarrow> pos \<le> pos'"
proof (induction data n ctrl b pos out rule: lz_group.induct)
  case (1 data n ctrl b pos out)
  then show ?case
    by (subst (asm) lz_group.simps) (fastforce dest: lz_token_pos split: if_splits option.splits)
qed

function lz_groups :: "bytes \<Rightarrow> nat \<Rightarrow> nat \<Rightarrow> bytes \<Rightarrow> bytes option" where
  "lz_groups data n pos out =
     (if length out < n then
        case get_at data pos of
          None \<Rightarrow> None
        | Some ctrl \<Rightarrow>
            (case lz_group data n ctrl 0 (pos + 1) out of
               None \<Rightarrow> None
             | Some (pos, out) \<Rightarrow> lz_groups data n pos out)
      else Some out)"
  by pat_completeness auto
termination
  by (relation "measure (\<lambda>(data, n, pos, out). length data - pos)")
    (auto dest!: lz_group_pos simp: get_at_def split: if_splits)

declare lz_groups.simps [simp del]

definition lz_decompress :: "bytes \<Rightarrow> bytes option" where
  "lz_decompress data =
     (case take_varint data 0 of
        None \<Rightarrow> None
      | Some (n, pos) \<Rightarrow>
          (case lz_groups data (unat n) pos [] of
             None \<Rightarrow> None
           | Some out \<Rightarrow> if length out = unat n then Some out else None))"

section \<open>The adaptive range coder\<close>

definition RC_TOP :: u32 where "RC_TOP = push_bit 24 1"
definition RC_BOT :: u32 where "RC_BOT = push_bit 16 1"
definition RC_INC :: u32 where "RC_INC = 24"
definition RC_MAX_TOTAL :: u32 where "RC_MAX_TOTAL = push_bit 15 1"
definition RC_MIN_INPUT :: nat where "RC_MIN_INPUT = 32"

record range_model =
  rm_freq :: "u16 list"
  rm_total :: u32

definition model_new :: range_model where
  "model_new = \<lparr>rm_freq = replicate 256 1, rm_total = 256\<rparr>"

definition model_cum :: "range_model \<Rightarrow> nat \<Rightarrow> u32" where
  "model_cum m sy = fold (\<lambda>f acc. acc + ucast f) (take sy (rm_freq m)) 0"

fun find_loop :: "u32 \<Rightarrow> nat \<Rightarrow> u32 \<Rightarrow> u16 list \<Rightarrow> (nat \<times> u32 \<times> u32) option" where
  "find_loop target s cum [] = None"
| "find_loop target s cum (f # fs) =
     (if cum + ucast f > target then Some (s, cum, ucast f) else find_loop target (s + 1) (cum + ucast f) fs)"

definition model_find :: "range_model \<Rightarrow> u32 \<Rightarrow> nat \<times> u32 \<times> u32" where
  "model_find m target =
     (case find_loop target 0 0 (rm_freq m) of
        Some r \<Rightarrow> r
      | None \<Rightarrow> let last_freq = ucast (rm_freq m ! 255) in (255, rm_total m - last_freq, last_freq))"

definition model_update :: "range_model \<Rightarrow> nat \<Rightarrow> range_model" where
  "model_update m sy =
     (let freq = (rm_freq m)[sy := rm_freq m ! sy + ucast RC_INC]; total = rm_total m + RC_INC in
      if total \<ge> RC_MAX_TOTAL then
        let freq = map (\<lambda>f. drop_bit 1 f OR 1) freq
        in \<lparr>rm_freq = freq, rm_total = fold (\<lambda>f acc. acc + ucast f) freq 0\<rparr>
      else \<lparr>rm_freq = freq, rm_total = total\<rparr>)"

text \<open>The condition of the renormalisation loop: the range to continue with, \<open>None\<close> to stop.\<close>

definition rc_more :: "u32 \<Rightarrow> u32 \<Rightarrow> u32 option" where
  "rc_more low rng =
     (if (low XOR (low + rng)) < RC_TOP then Some rng
      else if rng < RC_BOT then Some ((- low) AND (RC_BOT - 1))
      else None)"

partial_function (option) rc_norm :: "u32 \<Rightarrow> u32 \<Rightarrow> bytes \<Rightarrow> (u32 \<times> u32 \<times> bytes) option" where
  "rc_norm low rng out =
     (case rc_more low rng of
        None \<Rightarrow> Some (low, rng, out)
      | Some rng \<Rightarrow> rc_norm (push_bit 8 low) (push_bit 8 rng) (out @ [ucast (drop_bit 24 low)]))"

fun rc_encode :: "bytes \<Rightarrow> u32 \<Rightarrow> u32 \<Rightarrow> range_model \<Rightarrow> bytes \<Rightarrow> (u32 \<times> bytes) option" where
  "rc_encode [] low rng model out = Some (low, out)"
| "rc_encode (b # bs) low rng model out =
     (let sy = unat b; cum = model_cum model sy; freq = ucast (rm_freq model ! sy);
          rng = rng div rm_total model;
          low = low + cum * rng;
          rng = rng * freq
      in case rc_norm low rng out of
           None \<Rightarrow> None
         | Some (low, rng, out) \<Rightarrow> rc_encode bs low rng (model_update model sy) out)"

fun rc_flush :: "nat \<Rightarrow> u32 \<Rightarrow> bytes \<Rightarrow> bytes" where
  "rc_flush 0 low out = out"
| "rc_flush (Suc k) low out = rc_flush k (push_bit 8 low) (out @ [ucast (drop_bit 24 low)])"

text \<open>The outer option is for a loop that does not end, the inner one is the code's.\<close>

definition rc_compress :: "bytes \<Rightarrow> bytes option option" where
  "rc_compress input =
     (let n = length input in
      if n < RC_MIN_INPUT then Some None
      else map_option (\<lambda>(low, out). let out = rc_flush 4 low out in if length out < n then Some out else None)
        (rc_encode input 0 0xFFFFFFFF model_new (put_varint (of_nat n))))"

definition rc_next :: "bytes \<Rightarrow> nat \<Rightarrow> u32" where
  "rc_next body bp = (case get_at body bp of Some b \<Rightarrow> ucast b | None \<Rightarrow> 0)"

partial_function (option) rc_norm_dec :: "bytes \<Rightarrow> u32 \<Rightarrow> u32 \<Rightarrow> u32 \<Rightarrow> nat \<Rightarrow> (u32 \<times> u32 \<times> u32 \<times> nat) option" where
  "rc_norm_dec body low rng code bp =
     (case rc_more low rng of
        None \<Rightarrow> Some (low, rng, code, bp)
      | Some rng \<Rightarrow>
          rc_norm_dec body (push_bit 8 low) (push_bit 8 rng) (push_bit 8 code OR rc_next body bp) (bp + 1))"

fun rc_decode :: "nat \<Rightarrow> bytes \<Rightarrow> u32 \<Rightarrow> u32 \<Rightarrow> u32 \<Rightarrow> nat \<Rightarrow> range_model \<Rightarrow> bytes \<Rightarrow> bytes option" where
  "rc_decode 0 body low rng code bp model out = Some out"
| "rc_decode (Suc n) body low rng code bp model out =
     (let rng = rng div rm_total model;
          target = min ((code - low) div rng) (rm_total model - 1);
          (sy, cum, freq) = model_find model target;
          low = low + cum * rng;
          rng = rng * freq
      in case rc_norm_dec body low rng code bp of
           None \<Rightarrow> None
         | Some (low, rng, code, bp) \<Rightarrow>
             rc_decode n body low rng code bp (model_update model sy) (out @ [of_nat sy]))"

definition rc_decompress :: "bytes \<Rightarrow> bytes option option" where
  "rc_decompress data =
     (case take_varint data 0 of
        None \<Rightarrow> Some None
      | Some (n, pos) \<Rightarrow>
          let body = drop pos data;
              code = fold (\<lambda>bp code. push_bit 8 code OR rc_next body bp) [0..<4] 0
          in map_option Some (rc_decode (unat n) body 0 0xFFFFFFFF code 4 model_new []))"

section \<open>Backends\<close>

text \<open>A backend: the three operations of the trait.  The outer option of each is divergence.\<close>

record compressor =
  compress :: "bytes \<Rightarrow> bytes option option"
  decompress :: "bytes \<Rightarrow> bytes option option"
  method_tag :: u8

definition NoCompression :: compressor where
  "NoCompression = \<lparr>compress = \<lambda>body. Some None, decompress = \<lambda>data. Some (Some data), method_tag = METHOD_RAW\<rparr>"

definition Lz :: compressor where
  "Lz = \<lparr>compress = \<lambda>body. Some (let out = lz_compress body in if length out < length body then Some out else None),
         decompress = \<lambda>data. Some (lz_decompress data), method_tag = METHOD_LZ\<rparr>"

definition densa_compress :: "bytes \<Rightarrow> bytes option option" where
  "densa_compress body =
     (let lz = lz_compress body;
          finish = (\<lambda>sub payload. let out = sub # payload in if length out < length body then Some out else None)
      in case rc_compress lz of
           None \<Rightarrow> None
         | Some None \<Rightarrow> Some (finish 0 lz)
         | Some (Some c) \<Rightarrow>
             if length c < length lz then
               (case rc_decompress c of
                  None \<Rightarrow> None
                | Some d \<Rightarrow> Some (if d = Some lz then finish 1 c else finish 0 lz))
             else Some (finish 0 lz))"

definition densa_decompress :: "bytes \<Rightarrow> bytes option option" where
  "densa_decompress data =
     (case data of
        [] \<Rightarrow> Some None
      | sub # rest \<Rightarrow>
          if sub = 0 then Some (lz_decompress rest)
          else if sub = 1 then map_option (\<lambda>d. Option.bind d lz_decompress) (rc_decompress rest)
          else Some None)"

definition Densa :: compressor where
  "Densa = \<lparr>compress = densa_compress, decompress = densa_decompress, method_tag = METHOD_DENSA\<rparr>"

end
