(* ===== verification/Ecc.thy ===== *)
theory Ecc
  imports Format
begin

text \<open>
  Reed-Solomon over GF(256) (\<^verbatim>\<open>src/ecc.rs\<close>): the tables of the field, its operations, polynomials as
  byte lists with the highest degree first, the systematic encoder, the decoder (syndromes,
  Berlekamp-Massey, Chien search, Forney) and the splitting of a page into blocks.
\<close>

definition PRIM :: u16 where "PRIM = 0x11D"
definition GEN :: u8 where "GEN = 2"
definition BLOCK :: nat where "BLOCK = 255"

section \<open>Tables\<close>

fun tables_loop :: "nat \<Rightarrow> nat \<Rightarrow> u16 \<Rightarrow> bytes \<Rightarrow> bytes \<Rightarrow> bytes \<times> bytes" where
  "tables_loop 0 i x exp log = (exp, log)"
| "tables_loop (Suc n) i x exp log =
     (let exp = exp[i := ucast x]; log = log[unat x := of_nat i];
          x = push_bit 1 x; x = (if x AND 0x100 \<noteq> 0 then x XOR PRIM else x)
      in tables_loop n (i + 1) x exp log)"

definition tables :: "bytes \<times> bytes" where
  "tables = (let (exp, log) = tables_loop 255 0 1 (replicate 512 0) (replicate 256 0)
     in (blit exp 255 (take 257 exp), log))"

definition exp_at :: "nat \<Rightarrow> u8" where "exp_at i = fst tables ! i"
definition log_at :: "u8 \<Rightarrow> nat" where "log_at a = unat (snd tables ! unat a)"

definition gf_mul :: "u8 \<Rightarrow> u8 \<Rightarrow> u8" where
  "gf_mul a b = (if a = 0 \<or> b = 0 then 0 else exp_at (log_at a + log_at b))"

definition gf_div :: "u8 \<Rightarrow> u8 \<Rightarrow> u8" where
  "gf_div a b = (if a = 0 then 0 else exp_at (nat ((int (log_at a) - int (log_at b)) mod 255)))"

definition gf_inv :: "u8 \<Rightarrow> u8" where
  "gf_inv a = exp_at (255 - log_at a)"

definition gf_pow :: "int \<Rightarrow> u8" where
  "gf_pow n = exp_at (nat ((int (log_at GEN) * n) mod 255))"

section \<open>Polynomials\<close>

definition poly_scale :: "bytes \<Rightarrow> u8 \<Rightarrow> bytes" where
  "poly_scale p x = map (\<lambda>pi. gf_mul pi x) p"

definition poly_add :: "bytes \<Rightarrow> bytes \<Rightarrow> bytes" where
  "poly_add p q =
     (let n = max (length p) (length q);
          r = fold (\<lambda>(i, pi) r. r[i + n - length p := pi]) (enumerate 0 p) (replicate n 0)
      in fold (\<lambda>(i, qi) r. r[i + n - length q := r ! (i + n - length q) XOR qi]) (enumerate 0 q) r)"

definition poly_mul :: "bytes \<Rightarrow> bytes \<Rightarrow> bytes" where
  "poly_mul p q =
     fold (\<lambda>(j, qj). fold (\<lambda>(i, pi) r. r[i + j := r ! (i + j) XOR gf_mul pi qj]) (enumerate 0 p))
       (enumerate 0 q) (replicate (length p + length q - 1) 0)"

definition poly_eval :: "bytes \<Rightarrow> u8 \<Rightarrow> u8" where
  "poly_eval poly x = fold (\<lambda>c y. gf_mul y x XOR c) (tl poly) (hd poly)"

definition poly_div :: "bytes \<Rightarrow> bytes \<Rightarrow> bytes \<times> bytes" where
  "poly_div dividend divisor =
     (let out = fold (\<lambda>i out.
            let coef = out ! i in
            if coef \<noteq> 0 then
              fold (\<lambda>j out. if divisor ! j \<noteq> 0 then out[i + j := out ! (i + j) XOR gf_mul (divisor ! j) coef] else out)
                [1..<length divisor] out
            else out)
          [0..<length dividend - (length divisor - 1)] dividend;
          sep = length out - (length divisor - 1)
      in (take sep out, drop sep out))"

definition gen_poly :: "nat \<Rightarrow> bytes" where
  "gen_poly nsym = fold (\<lambda>i g. poly_mul g [1, gf_pow (int i)]) [0..<nsym] [1]"

section \<open>Encoder\<close>

text \<open>One step of the division by the generator: position \<open>i\<close> is cancelled into the next ones.\<close>

definition encode_step :: "bytes \<Rightarrow> nat \<Rightarrow> bytes \<Rightarrow> bytes" where
  "encode_step gp i out =
     (let coef = out ! i in
      if coef \<noteq> 0 then
        fold (\<lambda>j out. out[i + j := out ! (i + j) XOR gf_mul (gp ! j) coef]) [1..<length gp] out
      else out)"

definition encode_block :: "bytes \<Rightarrow> nat \<Rightarrow> bytes" where
  "encode_block data nsym =
     (let gp = gen_poly nsym;
          out = blit (replicate (length data + nsym) 0) 0 data;
          out = fold (encode_step gp) [0..<length data] out
      in drop (length data) out)"

section \<open>Decoder\<close>

definition syndromes :: "bytes \<Rightarrow> nat \<Rightarrow> bytes" where
  "syndromes codeword nsym =
     fold (\<lambda>i s. s[i + 1 := poly_eval codeword (gf_pow (int i))]) [0..<nsym] (replicate (nsym + 1) 0)"

text \<open>One round of Berlekamp-Massey, on the pair \<open>(err_loc, old_loc)\<close>.\<close>

definition bm_delta :: "bytes \<Rightarrow> nat \<Rightarrow> bytes \<Rightarrow> u8" where
  "bm_delta synd k err_loc =
     fold (\<lambda>j delta. delta XOR gf_mul (err_loc ! (length err_loc - 1 - j)) (synd ! (k - j)))
       [1..<length err_loc] (synd ! k)"

definition bm_step :: "bytes \<Rightarrow> nat \<Rightarrow> nat \<Rightarrow> bytes \<times> bytes \<Rightarrow> bytes \<times> bytes" where
  "bm_step synd synd_shift i = (\<lambda>(err_loc, old_loc).
     let k = i + synd_shift;
         delta = bm_delta synd k err_loc;
         old_loc = old_loc @ [0]
     in if delta \<noteq> 0 then
          let (err_loc, old_loc) =
                (if length old_loc > length err_loc
                 then (poly_scale old_loc delta, poly_scale err_loc (gf_inv delta))
                 else (err_loc, old_loc))
          in (poly_add err_loc (poly_scale old_loc delta), old_loc)
        else (err_loc, old_loc))"

definition error_locator :: "bytes \<Rightarrow> nat \<Rightarrow> bytes option" where
  "error_locator synd nsym =
     (let (err_loc, _) = fold (bm_step synd (length synd - nsym)) [0..<nsym] ([1], [1]);
          err_loc = dropWhile (\<lambda>c. c = 0) err_loc;
          errs = length err_loc - 1
      in if errs * 2 > nsym then None else Some err_loc)"

definition error_positions :: "bytes \<Rightarrow> nat \<Rightarrow> nat list option" where
  "error_positions err_loc nmess =
     (let errs = length err_loc - 1;
          pos = filter (\<lambda>p. poly_eval err_loc (gf_pow (- int (nmess - 1 - p))) = 0) [0..<nmess]
      in if length pos = errs then Some pos else None)"

definition correct_errata :: "bytes \<Rightarrow> bytes \<Rightarrow> nat list \<Rightarrow> bytes" where
  "correct_errata msg synd err_pos =
     (let coef_pos = map (\<lambda>p. length msg - 1 - p) err_pos;
          e_loc = fold (\<lambda>i e_loc. poly_mul e_loc (poly_add [1] [gf_pow (int i), 0])) coef_pos [1];
          synd_rev = rev synd;
          divisor = (replicate (length e_loc + 1) 0)[0 := 1];
          (_, err_eval) = poly_div (poly_mul synd_rev e_loc) divisor;
          xs = map (\<lambda>p. gf_pow (int p)) coef_pos
      in fold (\<lambda>(i, xi) msg.
           let xi_inv = gf_inv xi;
               prime = fold (\<lambda>(j, xj) prime. if j \<noteq> i then gf_mul prime (1 XOR gf_mul xi_inv xj) else prime)
                 (enumerate 0 xs) 1;
               y = gf_mul xi (poly_eval err_eval xi_inv);
               magnitude = gf_div y prime
           in msg[err_pos ! i := msg ! (err_pos ! i) XOR magnitude])
         (enumerate 0 xs) msg)"

definition decode_block :: "bytes \<Rightarrow> bytes \<Rightarrow> bytes option" where
  "decode_block data parity =
     (let nsym = length parity;
          msg = data @ parity;
          synd = syndromes msg nsym
      in if list_all (\<lambda>s. s = 0) synd then Some data
         else case error_locator synd nsym of
           None \<Rightarrow> None
         | Some err_loc \<Rightarrow>
             (case error_positions err_loc (length msg) of
                None \<Rightarrow> None
              | Some err_pos \<Rightarrow>
                  let msg = correct_errata msg synd err_pos
                  in if list_ex (\<lambda>s. s \<noteq> 0) (syndromes msg nsym) then None
                     else Some (take (length data) msg)))"

section \<open>Pages\<close>

definition data_per_block :: "nat \<Rightarrow> nat" where
  "data_per_block nsym = BLOCK - nsym"

definition parity_len :: "nat \<Rightarrow> nat \<Rightarrow> nat" where
  "parity_len data_len nsym = div_ceil data_len (data_per_block nsym) * nsym"

text \<open>\<^verbatim>\<open>slice::chunks(k)\<close>; a chunk size of zero panics there, and the callers keep it positive.\<close>

function chunks_of :: "nat \<Rightarrow> 'a list \<Rightarrow> 'a list list" where
  "chunks_of k xs = (if xs = [] \<or> k = 0 then [] else take k xs # chunks_of k (drop k xs))"
  by pat_completeness auto
termination by (relation "measure (\<lambda>(k, xs). length xs)") (auto simp: diff_less)

declare chunks_of.simps [simp del]

definition parity :: "bytes \<Rightarrow> nat \<Rightarrow> bytes" where
  "parity data nsym = concat (map (\<lambda>block. encode_block block nsym) (chunks_of (data_per_block nsym) data))"

fun correct_blocks :: "nat \<Rightarrow> bytes list \<Rightarrow> bytes \<Rightarrow> nat \<Rightarrow> bytes option" where
  "correct_blocks nsym [] par i = Some []"
| "correct_blocks nsym (block # blocks) par i =
     (case decode_block block (take nsym (drop (i * nsym) par)) of
        None \<Rightarrow> None
      | Some fixed \<Rightarrow> map_option (\<lambda>out. fixed @ out) (correct_blocks nsym blocks par (i + 1)))"

definition correct :: "bytes \<Rightarrow> bytes \<Rightarrow> nat \<Rightarrow> bytes option" where
  "correct data par nsym =
     (let k = data_per_block nsym;
          nblocks = max (div_ceil (length data) k) 1
      in if length par \<noteq> nblocks * nsym \<and> \<not> (data = [] \<and> par = []) then None
         else if data = [] then Some []
         else correct_blocks nsym (chunks_of k data) par 0)"

section \<open>The field\<close>

text \<open>Multiplication by the generator, on bytes.\<close>

definition xtime :: "u8 \<Rightarrow> u8" where
  "xtime b = push_bit 1 b XOR (if bit b 7 then 0x1D else 0)"

lemma xtime_xor: "xtime (a XOR b) = xtime a XOR xtime b"
  by (auto simp: xtime_def bit_simps push_bit_xor ac_simps xor.assoc)

lemma xtime_0 [simp]: "xtime 0 = 0"
  by (simp add: xtime_def)

lemma funpow_xtime_xor: "(xtime ^^ n) (a XOR b) = (xtime ^^ n) a XOR (xtime ^^ n) b"
  by (induction n) (auto simp: xtime_xor)

lemma funpow_xtime_0 [simp]: "(xtime ^^ n) 0 = 0"
  by (induction n) auto

lemma funpow_numeral: "(f ^^ numeral k) x = (f ^^ pred_numeral k) (f x)"
  by (simp add: numeral_eq_Suc funpow_swap1)

lemma xtime_powers:
  "(xtime ^^ 15) 1 = 0x26" "(xtime ^^ 51) 1 = 0x0A" "(xtime ^^ 85) 1 = 0xD6" "(xtime ^^ 255) 1 = 1"
  by (simp_all add: funpow_numeral xtime_def)

lemma funpow_gcd: "(f ^^ m) x = x \<Longrightarrow> (f ^^ n) x = x \<Longrightarrow> (f ^^ gcd m n) x = x"
proof (induction m n rule: gcd_nat_induct)
  case (step m n)
  then have "(f ^^ (m mod n)) x = x" by (simp add: funpow_mod_eq)
  then have "(f ^^ gcd n (m mod n)) x = x" using step by simp
  then show ?case by (subst gcd_red_nat)
qed simp

lemma funpow_fixed: "f x = x \<Longrightarrow> (f ^^ k) x = x"
  by (induction k) auto

lemma funpow_dvd: "(f ^^ m) x = x \<Longrightarrow> m dvd n \<Longrightarrow> (f ^^ n) x = x"
  using funpow_fixed [of "f ^^ m" x] by (auto simp: funpow_mult mult.commute)

lemma divisors_255: "filter (\<lambda>g. g dvd (255 :: nat)) [2..<255] = [3, 5, 15, 17, 51, 85]"
  by simp

text \<open>The generator has order 255.\<close>

lemma xtime_order:
  assumes "(xtime ^^ n) 1 = 1" "n < 255"
  shows "n = 0"
proof (rule ccontr)
  assume n: "n \<noteq> 0"
  define g where "g = gcd n 255"
  have g1: "(xtime ^^ g) 1 = 1" unfolding g_def by (rule funpow_gcd [OF assms(1) xtime_powers(4)])
  have "g \<le> n" "g dvd 255" "g \<noteq> 0" using n by (simp_all add: g_def gcd_le1_nat)
  then have "g = 1 \<or> g \<in> set (filter (\<lambda>g. g dvd 255) [2..<255])"
    using assms(2) by (simp only: set_filter set_upt mem_Collect_eq atLeastLessThan_iff) auto
  then have "g dvd 15 \<or> g dvd 51 \<or> g dvd 85" unfolding divisors_255 by auto
  then show False using funpow_dvd [OF g1, of 15] funpow_dvd [OF g1, of 51] funpow_dvd [OF g1, of 85]
    by (auto simp: xtime_powers)
qed

lemma bit_xtime:
  "n < 8 \<Longrightarrow> bit (xtime b) n \<longleftrightarrow> (0 < n \<and> bit b (n - 1)) \<noteq> (bit b 7 \<and> bit (0x1D :: u8) n)"
  unfolding xtime_def bit_xor_iff bit_push_bit_iff by auto

lemma xtime_inject0: "xtime b = 0 \<longleftrightarrow> b = 0"
proof
  assume z: "xtime b = 0"
  have n7: "\<not> bit b 7" using bit_xtime [of 0 b] z by (simp add: bit_0)
  have b: "\<not> bit b n" if "n < 7" for n
    using bit_xtime [of "Suc n" b] that z n7 by simp
  show "b = 0"
  proof (rule bit_word_eqI)
    fix n assume "n < LENGTH(8)"
    then have "n < 7 \<or> n = 7" by auto
    then show "bit b n = bit 0 n" using b [of n] n7 by auto
  qed
qed simp

lemma funpow_xtime_nz: "(xtime ^^ n) 1 \<noteq> 0"
  by (induction n) (auto simp: xtime_inject0)

lemma xtime_inject: "xtime a = xtime b \<Longrightarrow> a = b"
proof -
  assume "xtime a = xtime b"
  then have "xtime (a XOR b) = 0" by (simp add: xtime_xor)
  then have "a XOR b = 0" by (simp add: xtime_inject0)
  then show "a = b" by (metis xor.assoc xor.right_neutral xor_self_eq xor.commute)
qed

lemma funpow_xtime_inject: "(xtime ^^ n) a = (xtime ^^ n) b \<Longrightarrow> a = b"
  by (induction n) (auto dest: xtime_inject)

lemma xtime_pow_less: "i \<le> j \<Longrightarrow> j < 255 \<Longrightarrow> (xtime ^^ i) 1 = (xtime ^^ j) 1 \<Longrightarrow> i = j"
proof -
  assume a: "i \<le> j" "j < 255" "(xtime ^^ i) 1 = (xtime ^^ j) 1"
  then have "(xtime ^^ i) 1 = (xtime ^^ i) ((xtime ^^ (j - i)) 1)"
    by (metis comp_apply funpow_add le_add_diff_inverse)
  then have "(xtime ^^ (j - i)) 1 = 1" using funpow_xtime_inject by metis
  moreover have "j - i < 255" using a(2) by linarith
  ultimately have "j - i = 0" by (rule xtime_order)
  then show "i = j" using a(1) by simp
qed

lemma xtime_pow_inject: "i < 255 \<Longrightarrow> j < 255 \<Longrightarrow> (xtime ^^ i) 1 = (xtime ^^ j) 1 \<longleftrightarrow> i = j"
  by (metis linorder_le_cases xtime_pow_less)

lemma xtime_pow_mod: "(xtime ^^ (n mod 255)) 1 = (xtime ^^ n) 1"
  by (rule funpow_mod_eq [OF xtime_powers(4)])

lemma xtime_pow_surj:
  assumes "b \<noteq> 0"
  shows "\<exists>i<255. (xtime ^^ i) 1 = b"
proof -
  have "inj_on (\<lambda>i. (xtime ^^ i) 1) {..<255}" by (auto simp: inj_on_def xtime_pow_inject)
  then have c: "card ((\<lambda>i. (xtime ^^ i) 1) ` {..<255}) = 255" by (simp add: card_image)
  have "card (UNIV :: u8 set) = 256" by (simp add: card_word)
  then have "card (UNIV - {0 :: u8}) = 255" by (simp add: card_Diff_singleton)
  moreover have "(\<lambda>i. (xtime ^^ i) 1) ` {..<255} \<subseteq> UNIV - {0 :: u8}" using funpow_xtime_nz by auto
  ultimately have "(\<lambda>i. (xtime ^^ i) 1) ` {..<255} = UNIV - {0 :: u8}"
    using c by (intro card_subset_eq) auto
  then have "b \<in> (\<lambda>i. (xtime ^^ i) 1) ` {..<255}" using assms by simp
  then show ?thesis by auto
qed

text \<open>The tables are the powers of the generator and their logarithms.\<close>

lemma bit_0x100: "bit (0x100 :: u16) n \<longleftrightarrow> n = 8"
proof -
  have "(0x100 :: u16) = push_bit 8 1" by simp
  then show ?thesis by (simp only: bit_push_bit_iff bit_1_iff) auto
qed

lemma xtime_u16:
  "(let x = push_bit 1 (ucast (b :: u8) :: u16) in if x AND 0x100 \<noteq> 0 then x XOR PRIM else x) = ucast (xtime b)"
proof -
  have c: "push_bit 1 (ucast b :: u16) AND 0x100 = (if bit b 7 then 0x100 else 0)"
  proof (rule bit_word_eqI)
    fix n assume "n < LENGTH(16)"
    then have "bit (push_bit 1 (ucast b :: u16) AND 0x100) n = (n = 8 \<and> bit b 7)"
      unfolding bit_and_iff bit_push_bit_iff bit_0x100 bit_ucast_iff by auto
    moreover have "bit (if bit b 7 then 0x100 else 0 :: u16) n = (n = 8 \<and> bit b 7)"
      by (cases "bit b 7") (simp_all only: if_True if_False bit_0x100 bit_0_eq bot_apply bot_bool_def simp_thms)
    ultimately show "bit (push_bit 1 (ucast b :: u16) AND 0x100) n = bit (if bit b 7 then 0x100 else 0 :: u16) n"
      by (simp only:)
  qed
  have p: "PRIM = 0x100 XOR (ucast (0x1D :: u8))" by (simp add: PRIM_def)
  have e: "(if bit b 7 then push_bit 1 (ucast b :: u16) XOR PRIM else push_bit 1 (ucast b)) = ucast (xtime b)"
  proof (rule bit_word_eqI)
    fix n assume "n < LENGTH(16)"
    then have "n < 8 \<or> n = 8 \<or> 8 < n" "n < 16" by auto
    moreover have "bit (ucast (xtime b) :: u16) n = (n < 8 \<and> bit (xtime b) n)"
      using \<open>n < 16\<close> bit_imp_le_length [of "xtime b" n] by (auto simp: bit_ucast_iff)
    moreover have "bit (push_bit 1 (ucast b :: u16)) n = (0 < n \<and> n \<le> 8 \<and> bit b (n - 1))"
      using \<open>n < 16\<close> bit_imp_le_length [of b "n - 1"] unfolding bit_push_bit_iff bit_ucast_iff by auto
    moreover have "bit PRIM n = (n = 8 \<or> n < 8 \<and> bit (0x1D :: u8) n)"
      using \<open>n < 16\<close> bit_imp_le_length [of "0x1D :: u8" n] unfolding p bit_xor_iff bit_0x100 bit_ucast_iff by auto
    ultimately show "bit (if bit b 7 then push_bit 1 (ucast b :: u16) XOR PRIM else push_bit 1 (ucast b)) n
        = bit (ucast (xtime b) :: u16) n"
      by (auto simp: bit_xtime bit_xor_iff)
  qed
  show ?thesis unfolding Let_def c e [symmetric] by simp
qed

lemma ucast_u8_u16: "ucast (ucast b :: u16) = (b :: u8)" "unat (ucast b :: u16) = unat b"
proof -
  show "ucast (ucast b :: u16) = b" by (rule bit_word_eqI) (auto simp: bit_simps)
  show "unat (ucast b :: u16) = unat b" using unat_u8_less [of b] by (simp add: unsigned_ucast_eq take_bit_nat_eq_self_iff)
qed

lemma tables_loop_spec:
  assumes "tables_loop n i (ucast ((xtime ^^ i) 1)) exp log = (exp', log')"
    "i + n \<le> 255" "length exp = 512" "length log = 256"
  shows "length exp' = 512 \<and> length log' = 256 \<and>
    (\<forall>k < 512. exp' ! k = (if i \<le> k \<and> k < i + n then (xtime ^^ k) 1 else exp ! k)) \<and>
    (\<forall>k. i \<le> k \<and> k < i + n \<longrightarrow> log' ! unat ((xtime ^^ k) 1) = of_nat k) \<and>
    (\<forall>j. (\<forall>k. i \<le> k \<and> k < i + n \<longrightarrow> j \<noteq> unat ((xtime ^^ k) 1)) \<longrightarrow> log' ! j = log ! j)"
  using assms
proof (induction n arbitrary: i exp log)
  case (Suc n)
  let ?x = "(xtime ^^ i) 1"
  have s: "tables_loop n (Suc i) (ucast ((xtime ^^ Suc i) 1)) (exp[i := ?x]) (log[unat ?x := of_nat i]) = (exp', log')"
    using Suc.prems(1) unfolding tables_loop.simps Let_def xtime_u16 [of ?x, unfolded Let_def] ucast_u8_u16 by simp
  have u: "unat ?x < 256" by (rule unat_u8_less)
  have ne: "unat ((xtime ^^ k) 1) \<noteq> unat ?x" if "Suc i \<le> k" "k < Suc i + n" for k
    using that Suc.prems(2) xtime_pow_inject [of k i] by (simp flip: word_unat_eq_iff)
  note IH = Suc.IH [OF s]
  have IH': "length exp' = 512" "length log' = 256"
    "\<And>k. k < 512 \<Longrightarrow> exp' ! k = (if Suc i \<le> k \<and> k < Suc i + n then (xtime ^^ k) 1 else exp[i := ?x] ! k)"
    "\<And>k. Suc i \<le> k \<Longrightarrow> k < Suc i + n \<Longrightarrow> log' ! unat ((xtime ^^ k) 1) = of_nat k"
    "\<And>j. (\<And>k. Suc i \<le> k \<Longrightarrow> k < Suc i + n \<Longrightarrow> j \<noteq> unat ((xtime ^^ k) 1)) \<Longrightarrow> log' ! j = log[unat ?x := of_nat i] ! j"
    using IH Suc.prems(2-4) by auto
  show ?case
  proof (intro conjI allI impI)
    fix k assume "k < (512 :: nat)"
    then show "exp' ! k = (if i \<le> k \<and> k < i + Suc n then (xtime ^^ k) 1 else exp ! k)"
      using IH'(3) Suc.prems(3) by (auto simp: nth_list_update Suc_le_eq le_less)
  next
    fix k assume "i \<le> k \<and> k < i + Suc n"
    then show "log' ! unat ((xtime ^^ k) 1) = of_nat k"
      using IH'(4) [of k] IH'(5) [of "unat ?x", OF ne [symmetric]] u Suc.prems(4) by (cases "k = i") auto
  next
    fix j assume a: "\<forall>k. i \<le> k \<and> k < i + Suc n \<longrightarrow> j \<noteq> unat ((xtime ^^ k) 1)"
    then have "j \<noteq> unat ?x" by auto
    then show "log' ! j = log ! j" using a IH'(5) [of j] by auto
  qed (use IH' in auto)
qed auto

lemma log_at_pow: "i < 255 \<Longrightarrow> log_at ((xtime ^^ i) 1) = i"
  and exp_at_pow: "i < 510 \<Longrightarrow> exp_at i = (xtime ^^ i) 1"
proof -
  obtain e l where t: "tables_loop 255 0 1 (replicate 512 0) (replicate 256 0) = (e, l)" by fastforce
  have x1: "(ucast ((xtime ^^ 0) 1) :: u16) = 1" by simp
  note s = tables_loop_spec [of 255 0, unfolded x1, OF t]
  have l: "length e = 512" "\<And>k. k < 255 \<Longrightarrow> e ! k = (xtime ^^ k) 1" "\<And>k. k < 255 \<Longrightarrow> l ! unat ((xtime ^^ k) 1) = of_nat k"
    using s by auto
  show "log_at ((xtime ^^ i) 1) = i" if "i < 255"
    using that l(3) by (simp add: log_at_def tables_def t unat_of_nat)
  show "exp_at i = (xtime ^^ i) 1" if "i < 510"
  proof -
    have "exp_at i = (if i < 255 then e ! i else e ! (i - 255))"
      using that l(1) by (simp add: exp_at_def tables_def t blit_nth)
    moreover have "(xtime ^^ (i - 255)) 1 = (xtime ^^ i) 1" if "255 \<le> i"
      using xtime_pow_mod [of i] that \<open>i < 510\<close> by (simp add: le_mod_geq)
    ultimately show ?thesis using l(2) that by auto
  qed
qed

lemma exp_log: "a \<noteq> 0 \<Longrightarrow> (xtime ^^ log_at a) 1 = a" and log_at_less: "a \<noteq> 0 \<Longrightarrow> log_at a < 255"
  using xtime_pow_surj [of a] log_at_pow by auto

text \<open>Products are repeated doublings.\<close>

lemma gf_mul_xtime: "a \<noteq> 0 \<Longrightarrow> gf_mul a b = (xtime ^^ log_at a) b"
proof (cases "b = 0")
  case False
  assume a: "a \<noteq> 0"
  then have "gf_mul a b = (xtime ^^ (log_at a + log_at b)) 1"
    using False log_at_less [of a] log_at_less [of b] by (simp add: gf_mul_def exp_at_pow)
  then show ?thesis using False by (simp add: funpow_add exp_log)
qed (simp add: gf_mul_def)

lemma gf_mul_0 [simp]: "gf_mul 0 b = 0" "gf_mul b 0 = 0"
  by (simp_all add: gf_mul_def)

lemma gf_mul_commute: "gf_mul a b = gf_mul b a"
  by (simp add: gf_mul_def add.commute)

lemma gf_mul_xor: "gf_mul a (b XOR c) = gf_mul a b XOR gf_mul a c"
  by (cases "a = 0") (simp_all add: gf_mul_xtime funpow_xtime_xor)

lemma gf_mul_nz: "a \<noteq> 0 \<Longrightarrow> b \<noteq> 0 \<Longrightarrow> gf_mul a b \<noteq> 0"
  using funpow_xtime_inject [of "log_at a" b 0] by (auto simp: gf_mul_xtime)

lemma gf_mul_assoc: "gf_mul (gf_mul a b) c = gf_mul a (gf_mul b c)"
proof (cases "a = 0 \<or> b = 0 \<or> c = 0")
  case False
  then have "gf_mul (gf_mul a b) c = gf_mul c (gf_mul a b)" by (simp add: gf_mul_commute)
  also have "\<dots> = (xtime ^^ log_at c) ((xtime ^^ log_at a) b)" using False by (simp add: gf_mul_xtime)
  also have "\<dots> = (xtime ^^ log_at a) ((xtime ^^ log_at c) b)"
    by (metis add.commute comp_apply funpow_add)
  also have "\<dots> = gf_mul a (gf_mul c b)" using False by (simp add: gf_mul_xtime)
  finally show ?thesis by (simp add: gf_mul_commute)
qed auto

lemma gf_mul_1 [simp]: "gf_mul 1 a = a"
  using log_at_pow [of 0] gf_mul_xtime [of 1 a] by simp

lemma gf_inv_mul: "a \<noteq> 0 \<Longrightarrow> gf_mul (gf_inv a) a = 1"
proof -
  assume a: "a \<noteq> 0"
  have "gf_inv a = (xtime ^^ (255 - log_at a)) 1"
    unfolding gf_inv_def by (rule exp_at_pow) simp
  then have "gf_mul a (gf_inv a) = (xtime ^^ (log_at a + (255 - log_at a))) 1"
    using a by (simp add: gf_mul_xtime funpow_add)
  then show ?thesis using log_at_less [OF a] xtime_powers(4) by (simp add: gf_mul_commute)
qed

text \<open>The bytes with these operations are a field.\<close>

typedef gf = "UNIV :: u8 set"
  morphisms ungf GF by simp

declare GF_inverse [simplified, simp] ungf_inverse [simp]

lemma GF_inject' [simp]: "GF a = GF b \<longleftrightarrow> a = b"
  by (simp add: GF_inject)

lemma gf_exhaust: "\<exists>a. x = GF a"
  by (metis ungf_inverse)

instantiation gf :: field
begin

definition "0 = GF 0"
definition "1 = GF 1"
definition "x + y = GF (ungf x XOR ungf y)"
definition "- (x :: gf) = x"
definition "x - y = GF (ungf x XOR ungf y)"
definition "x * y = GF (gf_mul (ungf x) (ungf y))"
definition "inverse x = (if x = GF 0 then GF 0 else GF (gf_inv (ungf x)))"
definition "x div y = (x :: gf) * inverse y"

instance
proof
  fix a b c :: gf
  obtain x y z where e: "a = GF x" "b = GF y" "c = GF z" using gf_exhaust by metis
  show "a * b * c = a * (b * c)" by (simp add: times_gf_def gf_mul_assoc)
  show "a * b = b * a" by (simp add: times_gf_def gf_mul_commute)
  show "1 * a = a" by (simp add: times_gf_def one_gf_def)
  show "a + b + c = a + (b + c)" by (simp add: plus_gf_def xor.assoc)
  show "a + b = b + a" by (simp add: plus_gf_def xor.commute)
  show "0 + a = a" by (simp add: plus_gf_def zero_gf_def)
  show "- a + a = 0" by (simp add: plus_gf_def zero_gf_def uminus_gf_def)
  show "a - b = a + - b" by (simp add: plus_gf_def minus_gf_def uminus_gf_def)
  show "(a + b) * c = a * c + b * c"
    by (simp add: plus_gf_def times_gf_def gf_mul_xor gf_mul_commute [of _ "ungf c"])
  show "(0 :: gf) \<noteq> 1" by (simp add: zero_gf_def one_gf_def)
  show "a \<noteq> 0 \<Longrightarrow> inverse a * a = 1"
    by (auto simp: e inverse_gf_def times_gf_def one_gf_def zero_gf_def gf_inv_mul)
  show "a div b = a * inverse b" by (simp add: divide_gf_def)
  show "inverse (0 :: gf) = 0" by (simp add: inverse_gf_def zero_gf_def)
qed

end

lemma GF_xor: "GF (a XOR b) = GF a + GF b"
  and GF_mul: "GF (gf_mul a b) = GF a * GF b"
  and GF_0: "GF 0 = 0" and GF_1: "GF 1 = 1"
  by (simp_all add: plus_gf_def times_gf_def zero_gf_def one_gf_def)

lemmas GF_hom = GF_xor GF_mul GF_0 GF_1

lemma GF_inv: "a \<noteq> 0 \<Longrightarrow> GF (gf_inv a) = inverse (GF a)"
  by (simp add: inverse_gf_def)

lemma gf_add_self [simp]: "(x :: gf) + x = 0"
  by (simp add: plus_gf_def zero_gf_def)

lemma gf_minus_eq [simp]: "(x :: gf) - y = x + y" "- x = (x :: gf)"
  by (simp_all add: plus_gf_def minus_gf_def uminus_gf_def)

lemma gf_add_eq_0: "(x :: gf) + y = 0 \<longleftrightarrow> x = y"
  by (metis add_right_imp_eq gf_add_self)

lemma GF_div: "b \<noteq> 0 \<Longrightarrow> GF (gf_div a b) = GF a / GF b"
proof (cases "a = 0")
  case False
  assume b: "b \<noteq> 0"
  let ?l = "nat ((int (log_at a) - int (log_at b)) mod 255)"
  have l: "?l < 255" by (simp add: nat_less_iff)
  have "gf_mul (gf_div a b) b = (xtime ^^ (log_at b + ?l)) 1"
    using False b l by (simp add: gf_div_def exp_at_pow gf_mul_commute [of _ b] gf_mul_xtime funpow_add)
  also have "\<dots> = (xtime ^^ ((log_at b + ?l) mod 255)) 1" by (simp only: xtime_pow_mod)
  also have "(log_at b + ?l) mod 255 = log_at a"
  proof -
    have "int ((log_at b + ?l) mod 255) = int (log_at a)"
      using log_at_less [OF False] by (simp add: zmod_int mod_simps)
    then show ?thesis by (simp only: of_nat_eq_iff)
  qed
  finally have "gf_mul (gf_div a b) b = a" using False by (simp add: exp_log)
  then have "GF (gf_div a b) * GF b = GF a" by (simp flip: GF_mul)
  then show ?thesis using b by (simp add: nonzero_eq_divide_eq GF_0 [symmetric])
qed (simp add: gf_div_def GF_hom)

text \<open>The powers of the generator, which are distinct below 255.\<close>

definition alpha :: gf where "alpha = GF GEN"

lemma log_GEN: "log_at GEN = 1"
  using log_at_pow [of 1] by (simp add: GEN_def xtime_def)

lemma xtime_alpha: "GF ((xtime ^^ n) 1) = alpha ^ n"
proof (induction n)
  case (Suc n)
  have "xtime b = gf_mul GEN b" for b using gf_mul_xtime [of GEN b] log_GEN by (simp add: GEN_def)
  then show ?case using Suc by (simp add: GF_mul alpha_def)
qed (simp add: GF_1)

lemma alpha_255: "alpha ^ 255 = 1"
  using xtime_alpha [of 255] xtime_powers(4) by (simp add: GF_1)

lemma alpha_inject: "i < 255 \<Longrightarrow> j < 255 \<Longrightarrow> alpha ^ i = alpha ^ j \<longleftrightarrow> i = j"
  using xtime_pow_inject [of i j] by (simp flip: xtime_alpha)

lemma alpha_nz: "alpha \<noteq> 0"
  by (simp add: alpha_def GEN_def zero_gf_def)

lemma gf_pow_nat: "GF (gf_pow (int n)) = alpha ^ n"
proof -
  have "gf_pow (int n) = (xtime ^^ (n mod 255)) 1"
    by (simp add: gf_pow_def log_GEN exp_at_pow nat_mod_distrib)
  then show ?thesis using xtime_alpha [of n] by (simp add: xtime_pow_mod)
qed
end
