(* ===== verification/Pager.thy ===== *)
theory Pager
  imports PageCache Crypto Compress Ecc Store
begin

text \<open>
  The pager (\<^verbatim>\<open>src/pager.rs\<close>) over the file of \<^verbatim>\<open>src/io.rs\<close>: from the bytes of the file to verified, decompressed,
  cached pages, and back.  The file is its bytes and a write budget: \<open>None\<close> is a disk that never fails,
  \<open>Some n\<close> one that stops after \<open>n\<close> more bytes, a write that does not fit leaving the part that did (a crash or
  a full disk).  Writes reach the file in order and \<^verbatim>\<open>sync_data\<close> is the identity.  Offsets are natural numbers: a
  file is shorter than \<open>2^63\<close> bytes.  Locks are not modelled; the functions are the sequential code between them.
  A backend whose decompression does not return makes the operation \<open>None\<close>.
\<close>

section \<open>The file\<close>

record db_file =
  df_bytes :: bytes
  df_budget :: "nat option"

definition io_eof :: error where "io_eof = Io ''failed to fill whole buffer''"
definition io_write :: error where "io_write = Io ''write failed''"

definition read_exact_at :: "db_file \<Rightarrow> nat \<Rightarrow> nat \<Rightarrow> bytes res" where
  "read_exact_at f n offset =
     (case get_range (df_bytes f) offset (offset + n) of None \<Rightarrow> Inl io_eof | Some b \<Rightarrow> Inr b)"

definition overwrite :: "bytes \<Rightarrow> nat \<Rightarrow> bytes \<Rightarrow> bytes" where
  "overwrite b offset d = take offset (b @ replicate (offset - length b) 0) @ d @ drop (offset + length d) b"

definition write_all_at :: "bytes \<Rightarrow> nat \<Rightarrow> db_file \<Rightarrow> unit res \<times> db_file" where
  "write_all_at d offset f =
     (case df_budget f of
        None \<Rightarrow> (Inr (), f\<lparr>df_bytes := overwrite (df_bytes f) offset d\<rparr>)
      | Some n \<Rightarrow>
          if length d \<le> n
          then (Inr (), f\<lparr>df_bytes := overwrite (df_bytes f) offset d, df_budget := Some (n - length d)\<rparr>)
          else (Inl io_write, f\<lparr>df_bytes := overwrite (df_bytes f) offset (take n d), df_budget := Some 0\<rparr>))"

section \<open>State\<close>

record phys_loc =
  pl_offset :: nat
  pl_len :: u32

record append_state =
  as_next_page :: u64
  as_nonce_counter :: u64
  as_write_offset :: nat
  as_dir :: "phys_loc list"

record pager =
  pg_file :: db_file
  pg_header :: file_header
  pg_plain :: provider
  pg_crypto :: provider
  pg_master_key :: "bytes option"
  pg_compressor :: "compressor option"
  pg_cache :: sharded_cache
  pg_state :: append_state

definition as_loc :: "append_state \<Rightarrow> page_id \<Rightarrow> phys_loc option" where
  "as_loc s pid =
     (if pid < FIRST_DATA_PAGE then None
      else let idx = unat (pid - FIRST_DATA_PAGE) in if idx < length (as_dir s) then Some (as_dir s ! idx) else None)"

definition frame :: "bytes \<Rightarrow> bytes" where
  "frame stored = u32_le (of_nat (length stored)) @ stored"

definition trim_trailing_zeros :: "bytes \<Rightarrow> bytes" where
  "trim_trailing_zeros body = rev (dropWhile (\<lambda>b. b = 0) (rev body))"

abbreviation ecc_nsym :: "pager \<Rightarrow> nat" where
  "ecc_nsym pg \<equiv> unat (fh_ecc_nsym (pg_header pg))"

definition put_state :: "append_state \<Rightarrow> pager \<Rightarrow> pager" where
  "put_state s pg = pg\<lparr>pg_state := s\<rparr>"

definition file_write :: "bytes \<Rightarrow> nat \<Rightarrow> (pager, unit) sx" where
  "file_write d offset pg = (let (r, f) = write_all_at d offset (pg_file pg) in Some (r, pg\<lparr>pg_file := f\<rparr>))"

definition cache_insert :: "page_id \<Rightarrow> page_buf \<Rightarrow> (pager, unit) sx" where
  "cache_insert pid page pg =
     (case sc_insert pid page (pg_cache pg) of None \<Rightarrow> None | Some c \<Rightarrow> Some (Inr (), pg\<lparr>pg_cache := c\<rparr>))"

section \<open>Sealing of a body\<close>

text \<open>The outer option is a backend that does not return.\<close>

definition body_to_seal :: "compressor option \<Rightarrow> bytes \<Rightarrow> bytes option" where
  "body_to_seal c trimmed =
     (case c of
        None \<Rightarrow> Some trimmed
      | Some c \<Rightarrow>
          (case compress c trimmed of
             None \<Rightarrow> None
           | Some (Some packed) \<Rightarrow> Some (method_tag c # packed)
           | Some None \<Rightarrow> Some (METHOD_RAW # trimmed)))"

definition decode_body :: "compressor option \<Rightarrow> bytes \<Rightarrow> page_id \<Rightarrow> bytes res option" where
  "decode_body c opened pid =
     (case c of
        None \<Rightarrow> Some (Inr opened)
      | Some c \<Rightarrow>
          (case opened of
             [] \<Rightarrow> Some (Inl (Corrupt pid ''pagina de datos comprimida vacia''))
           | m # payload \<Rightarrow>
               if m = METHOD_RAW then Some (Inr payload)
               else if m = method_tag c then
                 map_option (\<lambda>d. case d of
                     None \<Rightarrow> Inl (Corrupt pid ''descompresion de pagina fallida'') | Some b \<Rightarrow> Inr b)
                   (decompress c payload)
               else Some (Inl (Corrupt pid ''metodo de compresion desconocido''))))"

definition framed_record :: "nat \<Rightarrow> bytes \<Rightarrow> bytes" where
  "framed_record nsym stored = frame stored @ (if nsym > 0 then parity stored nsym else [])"

definition record_plen :: "nat \<Rightarrow> nat \<Rightarrow> nat" where
  "record_plen nsym stored_len = (if nsym > 0 then parity_len stored_len nsym else 0)"

definition open_with_ecc :: "pager \<Rightarrow> bytes \<Rightarrow> page_id \<Rightarrow> phys_loc \<Rightarrow> bytes res" where
  "open_with_ecc pg payload pid loc =
     (case open_bytes (pg_crypto pg) payload pid of
        Inr body \<Rightarrow> Inr body
      | Inl e \<Rightarrow>
          let nsym = ecc_nsym pg in
          if nsym = 0 then Inl e
          else
            rbind (read_exact_at (pg_file pg) (parity_len (length payload) nsym) (pl_offset loc + unat (pl_len loc))) (\<lambda>par.
              case correct payload par nsym of
                None \<Rightarrow> Inl e
              | Some fixed \<Rightarrow> open_bytes (pg_crypto pg) fixed pid))"

section \<open>Appending and reading\<close>

definition append_page :: "(bytes \<Rightarrow> bytes) \<Rightarrow> (pager, page_id) sx" where
  "append_page build pg =
     (let body = build (page_body page_zeroed);
          page = take CRYPTO_RESERVE page_zeroed @ body;
          s = pg_state pg; pid = as_next_page s; offset = as_write_offset s
      in case body_to_seal (pg_compressor pg) (trim_trailing_zeros body) of
           None \<Rightarrow> None
         | Some to_seal \<Rightarrow>
             let stored = seal_bytes (pg_crypto pg) to_seal pid (as_nonce_counter s);
                 framed = framed_record (ecc_nsym pg) stored
             in sbind (file_write framed offset) (\<lambda>_ pg.
                  let s' = \<lparr>as_next_page = pid + 1, as_nonce_counter = as_nonce_counter s + 1,
                            as_write_offset = offset + length framed,
                            as_dir = as_dir s @ [\<lparr>pl_offset = offset + LEN_PREFIX_LEN, pl_len = of_nat (length stored)\<rparr>]\<rparr>
                  in sbind (cache_insert pid page) (\<lambda>_. sret pid) (put_state s' pg)) pg)"

definition read_page :: "page_id \<Rightarrow> (pager, page_buf) sx" where
  "read_page pid pg =
     (if as_next_page (pg_state pg) \<le> pid then sthrow (Corrupt pid ''pagina fuera de rango'') pg
      else case as_loc (pg_state pg) pid of
        None \<Rightarrow> sthrow (Corrupt pid ''pagina sin entrada en el directorio'') pg
      | Some loc \<Rightarrow>
          let (hit, c) = sc_get (pg_cache pg) pid; pg = pg\<lparr>pg_cache := c\<rparr> in
          (case hit of
             Some p \<Rightarrow> sret p pg
           | None \<Rightarrow>
               (case rbind (read_exact_at (pg_file pg) (unat (pl_len loc)) (pl_offset loc)) (\<lambda>stored.
                       open_with_ecc pg stored pid loc) of
                  Inl e \<Rightarrow> sthrow e pg
                | Inr opened \<Rightarrow>
                    (case decode_body (pg_compressor pg) opened pid of
                       None \<Rightarrow> None
                     | Some (Inl e) \<Rightarrow> sthrow e pg
                     | Some (Inr body) \<Rightarrow>
                         if length body > BODY_SIZE then sthrow Panic pg
                         else
                           let page = take CRYPTO_RESERVE page_zeroed @ blit (page_body page_zeroed) 0 body
                           in sbind (cache_insert pid page) (\<lambda>_. sret page) pg))))"

section \<open>Scrubbing\<close>

datatype page_health = Clean | Corrected | Broken

record scrub_report =
  sr_pages :: nat
  sr_corrected :: nat
  sr_broken :: nat

definition scrub_page :: "pager \<Rightarrow> page_id \<Rightarrow> page_health" where
  "scrub_page pg pid =
     (case as_loc (pg_state pg) pid of
        None \<Rightarrow> Broken
      | Some loc \<Rightarrow>
          if as_next_page (pg_state pg) \<le> pid then Broken
          else case read_exact_at (pg_file pg) (unat (pl_len loc)) (pl_offset loc) of
            Inl _ \<Rightarrow> Broken
          | Inr payload \<Rightarrow>
              (case open_bytes (pg_crypto pg) payload pid of
                 Inr _ \<Rightarrow> Clean
               | Inl _ \<Rightarrow>
                   let nsym = ecc_nsym pg in
                   if nsym = 0 then Broken
                   else case read_exact_at (pg_file pg) (parity_len (length payload) nsym) (pl_offset loc + unat (pl_len loc)) of
                     Inl _ \<Rightarrow> Broken
                   | Inr par \<Rightarrow>
                       (case correct payload par nsym of
                          None \<Rightarrow> Broken
                        | Some fixed \<Rightarrow>
                            (case open_bytes (pg_crypto pg) fixed pid of Inr _ \<Rightarrow> Corrected | Inl _ \<Rightarrow> Broken))))"

definition scrub :: "pager \<Rightarrow> scrub_report" where
  "scrub pg =
     fold (\<lambda>pid rep.
         let rep = rep\<lparr>sr_pages := sr_pages rep + 1\<rparr> in
         case scrub_page pg (of_nat pid) of
           Clean \<Rightarrow> rep
         | Corrected \<Rightarrow> rep\<lparr>sr_corrected := sr_corrected rep + 1\<rparr>
         | Broken \<Rightarrow> rep\<lparr>sr_broken := sr_broken rep + 1\<rparr>)
       [unat FIRST_DATA_PAGE..<unat (as_next_page (pg_state pg))]
       \<lparr>sr_pages = 0, sr_corrected = 0, sr_broken = 0\<rparr>"

section \<open>Commit support\<close>

definition write_record_at :: "page_id \<Rightarrow> bytes \<Rightarrow> nat \<Rightarrow> (pager, nat \<times> phys_loc) sx" where
  "write_record_at pid body offset pg =
     (let s = pg_state pg; counter = as_nonce_counter s; pg = put_state (s\<lparr>as_nonce_counter := counter + 1\<rparr>) pg in
      case body_to_seal (pg_compressor pg) (trim_trailing_zeros body) of
        None \<Rightarrow> None
      | Some to_seal \<Rightarrow>
          let stored = seal_bytes (pg_crypto pg) to_seal pid counter;
              framed = framed_record (ecc_nsym pg) stored
          in sbind (file_write framed offset) (\<lambda>_.
               sret (length framed, \<lparr>pl_offset = offset + LEN_PREFIX_LEN, pl_len = of_nat (length stored)\<rparr>)) pg)"

definition install_commit :: "(page_id \<times> phys_loc) list \<Rightarrow> nat \<Rightarrow> u64 \<Rightarrow> pager \<Rightarrow> pager" where
  "install_commit entries write_offset n_pages pg =
     put_state ((pg_state pg)\<lparr>as_dir := as_dir (pg_state pg) @ map snd entries, as_write_offset := write_offset,
       as_next_page := n_pages\<rparr>) pg"

definition truncate_to_head :: "u64 \<Rightarrow> pager \<Rightarrow> pager" where
  "truncate_to_head head_n_pages pg =
     (let s = pg_state pg;
          keep = unat head_n_pages - unat FIRST_DATA_PAGE;
          write_offset =
            (if keep > 0 \<and> keep - 1 < length (as_dir s) then
               let l = as_dir s ! (keep - 1)
               in pl_offset l + unat (pl_len l) + record_plen (ecc_nsym pg) (unat (pl_len l))
             else unat (byte_offset FIRST_DATA_PAGE))
      in put_state (s\<lparr>as_dir := take keep (as_dir s), as_write_offset := write_offset, as_next_page := head_n_pages\<rparr>) pg)"

definition set_nonce_counter :: "u64 \<Rightarrow> pager \<Rightarrow> pager" where
  "set_nonce_counter c pg = put_state ((pg_state pg)\<lparr>as_nonce_counter := c\<rparr>) pg"

definition n_pages :: "pager \<Rightarrow> u64" where "n_pages pg = as_next_page (pg_state pg)"

section \<open>Meta slots\<close>

definition read_meta_slot :: "pager \<Rightarrow> page_id \<Rightarrow> meta_slot option" where
  "read_meta_slot pg pid =
     (case read_exact_at (pg_file pg) PAGE_SIZE (unat (byte_offset pid)) of
        Inl _ \<Rightarrow> None
      | Inr page \<Rightarrow>
          (case open_page (pg_plain pg) page pid of Inl _ \<Rightarrow> None | Inr p \<Rightarrow> meta_decode (page_body p)))"

definition meta_slots :: "pager \<Rightarrow> meta_slot list" where
  "meta_slots pg = List.map_filter (read_meta_slot pg) [META_PAGE_A, META_PAGE_B]"

text \<open>\<^verbatim>\<open>max_by_key\<close> gives the last of the maximal elements.\<close>

fun max_version :: "meta_slot list \<Rightarrow> meta_slot option" where
  "max_version [] = None"
| "max_version (m # ms) =
     (case max_version ms of None \<Rightarrow> Some m | Some n \<Rightarrow> if ms_version n < ms_version m then Some m else Some n)"

definition read_meta :: "pager \<Rightarrow> meta_slot res" where
  "read_meta pg =
     (case max_version (meta_slots pg) of
        None \<Rightarrow> Inl (Corrupt META_PAGE_A ''ningun meta slot valido'') | Some m \<Rightarrow> Inr m)"

definition write_meta_at :: "meta_slot \<Rightarrow> page_id \<Rightarrow> (pager, unit) sx" where
  "write_meta_at m pid pg =
     sbind (slift (seal (pg_plain pg) (take CRYPTO_RESERVE page_zeroed @ meta_encode_into m (page_body page_zeroed)) pid 0))
       (\<lambda>page. file_write page (unat (byte_offset pid))) pg"

definition write_meta :: "meta_slot \<Rightarrow> (pager, unit) sx" where
  "write_meta m = write_meta_at m (slot_page (ms_version m))"

section \<open>Creation and opening\<close>

function sweep_loop :: "db_file \<Rightarrow> nat \<Rightarrow> nat \<Rightarrow> nat \<Rightarrow> phys_loc list \<Rightarrow> phys_loc list \<times> nat" where
  "sweep_loop f nsym file_len offset dir =
     (if offset + LEN_PREFIX_LEN > file_len then (dir, offset)
      else case read_exact_at f LEN_PREFIX_LEN offset of
        Inl _ \<Rightarrow> (dir, offset)
      | Inr prefix \<Rightarrow>
          let stored_len = le_val prefix; payload = offset + LEN_PREFIX_LEN; plen = record_plen nsym stored_len in
          if stored_len < CRYPTO_RESERVE \<or> payload + stored_len + plen > file_len then (dir, offset)
          else sweep_loop f nsym file_len (payload + stored_len + plen)
                 (dir @ [\<lparr>pl_offset = payload, pl_len = of_nat stored_len\<rparr>]))"
  by pat_completeness auto
termination by (relation "measure (\<lambda>(f, nsym, file_len, offset, dir). file_len + 1 - offset)") (auto simp: LEN_PREFIX_LEN_def)

declare sweep_loop.simps [simp del]

definition sweep_append_region :: "nat \<Rightarrow> pager \<Rightarrow> pager" where
  "sweep_append_region file_len pg =
     (let s = pg_state pg;
          (dir, offset) = sweep_loop (pg_file pg) (ecc_nsym pg) file_len (unat (byte_offset FIRST_DATA_PAGE)) (as_dir s)
      in put_state (s\<lparr>as_dir := dir, as_next_page := FIRST_DATA_PAGE + of_nat (length dir), as_write_offset := offset\<rparr>) pg)"

definition fresh_state :: append_state where
  "fresh_state = \<lparr>as_next_page = FIRST_DATA_PAGE, as_nonce_counter = 0,
     as_write_offset = unat (byte_offset FIRST_DATA_PAGE), as_dir = []\<rparr>"

text \<open>
  What the code takes from its surroundings: SHA-256, the AES-GCM cipher, the number of cores, and for a new file
  the random bytes drawn for its identity and salt.
\<close>

record env =
  env_sha :: hash
  env_aead :: aead
  env_cores :: nat

definition create_with_crypto ::
    "env \<Rightarrow> bytes \<Rightarrow> bytes \<Rightarrow> bytes option \<Rightarrow> compressor option \<Rightarrow> u8 \<Rightarrow> nat \<Rightarrow> db_file \<Rightarrow> (pager res \<times> db_file) option" where
  "create_with_crypto e file_id kdf_salt key packer nsym cache_pages file =
     (let header = \<lparr>fh_flags = (if key = None then 0 else FLAG_ENCRYPTED) OR (if packer = None then 0 else FLAG_COMPRESSED),
                    fh_file_id = file_id, fh_kdf_salt = kdf_salt, fh_ecc_nsym = nsym\<rparr>;
          pg = \<lparr>pg_file = file, pg_header = header, pg_plain = PlainProvider (env_sha e),
                pg_crypto = provider_for (env_sha e) (env_aead e) key file_id, pg_master_key = key,
                pg_compressor = packer, pg_cache = sc_new (env_cores e) cache_pages, pg_state = fresh_state\<rparr>;
          page = take CRYPTO_RESERVE page_zeroed @ header_encode_into header (page_body page_zeroed);
          meta = \<lparr>ms_version = 0, ms_last_commit_page = 0, ms_n_pages = FIRST_DATA_PAGE\<rparr>
      in case sbind (slift (seal (pg_plain pg) page HEADER_PAGE 0)) (\<lambda>page.
                sbind (file_write page (unat (byte_offset HEADER_PAGE))) (\<lambda>_.
                sbind (write_meta_at meta META_PAGE_A) (\<lambda>_. write_meta_at meta META_PAGE_B))) pg of
           None \<Rightarrow> None
         | Some (Inl err, pg) \<Rightarrow> Some (Inl err, pg_file pg)
         | Some (Inr _, pg) \<Rightarrow> Some (Inr pg, pg_file pg))"

definition open_keyed_with :: "env \<Rightarrow> bytes option \<Rightarrow> nat \<Rightarrow> db_file \<Rightarrow> pager res option" where
  "open_keyed_with e key cache_pages file =
     (let len = length (df_bytes file); plain = PlainProvider (env_sha e) in
      if len < unat (byte_offset FIRST_DATA_PAGE) then Some (Inl NotADatabase)
      else case rbind (read_exact_at file PAGE_SIZE (unat (byte_offset HEADER_PAGE))) (\<lambda>page.
             if take 8 (page_body page) \<noteq> MAGIC_HEADER then Inl NotADatabase
             else rbind (open_page plain page HEADER_PAGE) (\<lambda>page. header_decode (page_body page))) of
        Inl err \<Rightarrow> Some (Inl err)
      | Inr header \<Rightarrow>
          let encrypted = fh_flags header AND FLAG_ENCRYPTED \<noteq> 0 in
          (case (if encrypted then
                   (case key of Some k \<Rightarrow> Inr (Aes256GcmProvider (env_sha e) (env_aead e) k (fh_file_id header)) | None \<Rightarrow> Inl KeyRequired)
                 else if key = None then Inr plain
                 else Inl (InvalidInput ''se proporciono clave para un archivo sin cifrar'')) of
             Inl err \<Rightarrow> Some (Inl err)
           | Inr crypto \<Rightarrow>
               let packer = (if fh_flags header AND FLAG_COMPRESSED \<noteq> 0 then Some Densa else None);
                   pg = \<lparr>pg_file = file, pg_header = header, pg_plain = plain, pg_crypto = crypto, pg_master_key = key,
                         pg_compressor = packer, pg_cache = sc_new (env_cores e) cache_pages, pg_state = fresh_state\<rparr>
               in case read_meta pg of
                    Inl err \<Rightarrow> Some (Inl err)
                  | Inr _ \<Rightarrow>
                      let pg = sweep_append_region len pg in
                      if encrypted \<and> n_pages pg > FIRST_DATA_PAGE then
                        (case read_page FIRST_DATA_PAGE pg of
                           None \<Rightarrow> None
                         | Some (Inl _, _) \<Rightarrow> Some (Inl WrongKey)
                         | Some (Inr _, pg) \<Rightarrow> Some (Inr pg))
                      else Some (Inr pg)))"

end
