(* ===== verification/CompressLaws.thy ===== *)
theory CompressLaws
  imports Compress
begin

text \<open>
  The LZSS round trip.  Both directions are related to a list of tokens: \<open>expand\<close> is what a list of tokens
  stands for and \<open>enc_group\<close> its bytes, a control byte for up to eight tokens.  The compressor writes
  the groups of a token list that expands to its input; the decompressor reads them back.
\<close>

section \<open>Tokens\<close>

datatype token = Lit u8 | Match nat nat

fun token_bytes :: "token \<Rightarrow> bytes" where
  "token_bytes (Lit b) = [b]"
| "token_bytes (Match off len) = match_code len off"

fun token_ok :: "bytes \<Rightarrow> token \<Rightarrow> bool" where
  "token_ok out (Lit b) = True"
| "token_ok out (Match off len) = (1 \<le> off \<and> off \<le> length out \<and> off \<le> WINDOW \<and> MIN_MATCH \<le> len \<and> len \<le> MAX_MATCH)"

fun apply_token :: "bytes \<Rightarrow> token \<Rightarrow> bytes" where
  "apply_token out (Lit b) = out @ [b]"
| "apply_token out (Match off len) = copy_match out (length out - off) len"

fun expand :: "bytes \<Rightarrow> token list \<Rightarrow> bytes" where
  "expand out [] = out"
| "expand out (t # ts) = expand (apply_token out t) ts"

fun tokens_ok :: "bytes \<Rightarrow> token list \<Rightarrow> bool" where
  "tokens_ok out [] = True"
| "tokens_ok out (t # ts) = (token_ok out t \<and> tokens_ok (apply_token out t) ts)"

lemma expand_append: "expand out (ts @ us) = expand (expand out ts) us"
  by (induction out ts rule: expand.induct) auto

lemma tokens_ok_append: "tokens_ok out (ts @ us) \<longleftrightarrow> tokens_ok out ts \<and> tokens_ok (expand out ts) us"
  by (induction out ts rule: expand.induct) auto

fun is_lit :: "token \<Rightarrow> bool" where
  "is_lit (Lit b) = True" | "is_lit (Match off len) = False"

definition ctrl :: "token list \<Rightarrow> u8" where
  "ctrl ts = fold (\<lambda>i c. c OR (if is_lit (ts ! i) then push_bit i 1 else 0)) [0..<length ts] 0"

definition enc_group :: "token list \<Rightarrow> bytes" where
  "enc_group ts = ctrl ts # concat (map token_bytes ts)"

lemma ctrl_append: "ctrl (ts @ [t]) = ctrl ts OR (if is_lit t then push_bit (length ts) 1 else 0)"
proof -
  have "fold (\<lambda>i c. c OR (if is_lit ((ts @ [t]) ! i) then push_bit i 1 else 0)) [0..<length ts] (0 :: u8) =
      fold (\<lambda>i c. c OR (if is_lit (ts ! i) then push_bit i 1 else 0)) [0..<length ts] 0"
    by (rule fold_cong) (auto simp: nth_append)
  then show ?thesis by (simp add: ctrl_def nth_append)
qed

lemma ctrl_Nil [simp]: "ctrl [] = 0"
  by (simp add: ctrl_def)

lemma bit_ctrl: "length ts \<le> 8 \<Longrightarrow> i < length ts \<Longrightarrow> bit (ctrl ts) i = is_lit (ts ! i)"
proof (induction ts arbitrary: i rule: rev_induct)
  case (snoc t ts)
  have z: "\<not> bit (ctrl us) j" if "length us \<le> j" for us :: "token list" and j
    using that
  proof (induction us arbitrary: j rule: rev_induct)
    case (snoc u us)
    then show ?case by (simp add: ctrl_append bit_or_iff bit_push_bit_iff bit_1_iff bit_exp_iff)
  qed simp
  show ?case
  proof (cases "i < length ts")
    case True
    then show ?thesis using snoc by (simp add: ctrl_append nth_append bit_or_iff bit_push_bit_iff bit_1_iff bit_exp_iff)
  next
    case False
    then have "i = length ts" using snoc.prems by simp
    then show ?thesis using snoc.prems z [of ts i] by (simp add: ctrl_append bit_or_iff bit_push_bit_iff bit_1_iff bit_exp_iff)
  qed
qed simp

lemma ctrl_test: "length ts \<le> 8 \<Longrightarrow> i < length ts \<Longrightarrow> (ctrl ts AND push_bit i 1 \<noteq> 0) = is_lit (ts ! i)"
proof -
  assume a: "length ts \<le> 8" "i < length ts"
  have "ctrl ts AND push_bit i 1 = (if bit (ctrl ts) i then push_bit i 1 else 0)"
    by (rule bit_word_eqI) (auto simp: bit_and_iff bit_push_bit_iff bit_1_iff bit_exp_iff)
  moreover have "bit (push_bit i (1 :: u8)) i" using a by (simp add: bit_push_bit_iff bit_exp_iff)
  ultimately show ?thesis using bit_ctrl [OF a] by (metis bit_0_eq bot_apply bot_bool_def)
qed

lemma length_copy_match [simp]: "length (copy_match out s len) = length out + len"
  by (induction out s len rule: copy_match.induct) auto

section \<open>The decompressor reads tokens back\<close>

lemma match_code_fields:
  assumes "1 \<le> off" "off \<le> WINDOW" "MIN_MATCH \<le> len" "len \<le> MAX_MATCH"
  defines "c \<equiv> of_nat (off - 1) OR push_bit 12 (if len \<le> 17 then of_nat (len - MIN_MATCH) else 15) :: u16"
  shows "unat (c AND 0x0FFF) = off - 1" "unat (drop_bit 12 c) = (if len \<le> 17 then len - MIN_MATCH else 15)"
proof -
  let ?lc = "if len \<le> 17 then of_nat (len - MIN_MATCH) else 15 :: u16"
  let ?o = "of_nat (off - 1) :: u16"
  have lc: "unat ?lc = (if len \<le> 17 then len - MIN_MATCH else 15)" "unat ?lc < 16"
    using unat_of_nat_u16 [of "len - MIN_MATCH"] by (auto simp: MIN_MATCH_def simp del: of_nat_diff)
  have o: "unat ?o = off - 1" "unat ?o < 2 ^ 12" using assms(2) by (simp_all add: unat_of_nat WINDOW_def take_bit_nat_eq_self)
  have m: "(0x0FFF :: u16) = mask 12" by (simp add: mask_eq_exp_minus_1)
  have oh: "\<not> bit ?o n" if "12 \<le> n" for n
  proof -
    have "(2 :: nat) ^ 12 \<le> 2 ^ n" using that by (intro power_increasing) simp_all
    then have z: "unat ?o div 2 ^ n = 0" using o(2) by (intro div_less) linarith
    show "\<not> bit ?o n"
    proof
      assume "bit ?o n"
      then have "bit (unat ?o) n" by (simp add: bit_unsigned_iff del: of_nat_diff)
      then show False unfolding bit_iff_odd z by simp
    qed
  qed
  show "unat (c AND 0x0FFF) = off - 1"
  proof -
    have "c AND 0x0FFF = ?o"
      unfolding c_def m
      by (rule bit_word_eqI) (use oh in \<open>auto simp: bit_and_iff bit_or_iff bit_push_bit_iff bit_mask_iff intro: leI simp flip: not_le\<close>)
    then show ?thesis using o by simp
  qed
  show "unat (drop_bit 12 c) = (if len \<le> 17 then len - MIN_MATCH else 15)"
  proof -
    have "drop_bit 12 c = take_bit 4 ?lc"
      unfolding c_def
      by (rule bit_word_eqI) (use oh in \<open>auto simp: bit_drop_bit_eq bit_or_iff bit_push_bit_iff bit_take_bit_iff\<close>)
    also have "\<dots> = ?lc" using lc(2) unfolding word_unat_eq_iff unsigned_take_bit_eq by (intro take_bit_nat_eq_self) simp
    finally show ?thesis using lc(1) by simp
  qed
qed

text \<open>A token standing at \<open>pos\<close> is read and applied.\<close>

lemma lz_token_read:
  assumes "token_ok out t" "at_pos data pos (token_bytes t)"
  shows "lz_token data (is_lit t) pos out = Some (pos + length (token_bytes t), apply_token out t)"
proof (cases t)
  case (Lit b)
  then show ?thesis using assms(2) at_pos_get_at [of data pos b "[]"] by (simp add: lz_token_def)
next
  case (Match off len)
  define c :: u16 where "c = of_nat (off - 1) OR push_bit 12 (if len \<le> 17 then of_nat (len - MIN_MATCH) else 15)"
  have ok: "1 \<le> off" "off \<le> length out" "off \<le> WINDOW" "MIN_MATCH \<le> len" "len \<le> MAX_MATCH"
    using assms(1) by (simp_all add: Match)
  note f = match_code_fields [OF ok(1,3,4,5), folded c_def]
  obtain x y where xy: "u16_le c = [x, y]" using u16_le_pair by blast
  define ex where "ex = (if len > 17 then [of_nat (len - 18) :: u8] else [])"
  have b: "token_bytes t = x # y # ex"
    using xy by (simp add: Match match_code_def c_def ex_def Let_def)
  have g0: "get_at data pos = Some x" and a1: "at_pos data (pos + 1) (y # ex)"
    using assms(2) unfolding b by (rule at_pos_get_at, rule at_pos_tl)
  have g1: "get_at data (pos + 1) = Some y" and a2: "at_pos data (pos + 2) ex"
    using at_pos_get_at [OF a1] at_pos_tl [OF a1] by simp_all
  have v: "of_nat (le_val [x, y]) = c"
    using le_val_u16_le [of c] by (simp add: xy)
  have len: "(if unat (drop_bit 12 c) < 15 then Some (unat (drop_bit 12 c) + MIN_MATCH, pos + 2)
      else map_option (\<lambda>extra. (18 + unat extra, pos + 2 + 1)) (get_at data (pos + 2))) = Some (len, pos + length (token_bytes t))"
  proof (cases "len \<le> 17")
    case True
    then show ?thesis using f(2) ok(4) by (simp add: b ex_def MIN_MATCH_def)
  next
    case False
    then have "at_pos data (pos + 2) [of_nat (len - 18)]" using a2 by (simp add: ex_def)
    then have "get_at data (pos + 2) = Some (of_nat (len - 18))" by (rule at_pos_get_at)
    moreover have "unat (of_nat (len - 18) :: u8) = len - 18"
      using ok(5) by (simp add: unat_of_nat MAX_MATCH_def take_bit_nat_eq_self del: of_nat_diff)
    ultimately show ?thesis using False f(2) by (simp add: b ex_def)
  qed
  have off: "unat (c AND 0x0FFF) + 1 = off" using f(1) ok(1) by simp
  show ?thesis
    unfolding lz_token_def g0 g1 option.case prod.case Let_def v len off using ok(2) by (simp add: Match)
qed

lemma length_apply_token: "token_ok out t \<Longrightarrow> length out < length (apply_token out t)"
  by (cases t) (auto simp: MIN_MATCH_def)

lemma length_expand: "tokens_ok out ts \<Longrightarrow> length out + length ts \<le> length (expand out ts)"
proof (induction out ts rule: expand.induct)
  case (2 out t ts)
  then show ?case using length_apply_token [of out t] by simp
qed simp

text \<open>The tokens of a group from index \<open>i\<close> on, when the text ends at their end or later.\<close>

lemma lz_group_read:
  "\<lbrakk>length ts \<le> 8; i \<le> length ts; tokens_ok out (drop i ts); at_pos data pos (concat (map token_bytes (drop i ts)));
    length (expand out (drop i ts)) \<le> n; length ts < 8 \<Longrightarrow> length (expand out (drop i ts)) = n\<rbrakk> \<Longrightarrow>
   lz_group data n (ctrl ts) i pos out =
     Some (pos + length (concat (map token_bytes (drop i ts))), expand out (drop i ts))"
proof (induction "length ts - i" arbitrary: i pos out)
  case 0
  then have "drop i ts = []" "i = length ts" by simp_all
  then show ?case using 0 by (subst lz_group.simps) auto
next
  case (Suc m)
  then have i: "i < length ts" by simp
  then have d: "drop i ts = ts ! i # drop (Suc i) ts" by (simp add: Cons_nth_drop_Suc)
  let ?t = "ts ! i"
  have ok: "token_ok out ?t" "tokens_ok (apply_token out ?t) (drop (Suc i) ts)" using Suc.prems(3) by (simp_all add: d)
  have at: "at_pos data pos (token_bytes ?t)"
    "at_pos data (pos + length (token_bytes ?t)) (concat (map token_bytes (drop (Suc i) ts)))"
    using Suc.prems(4) by (simp_all add: d at_pos_append)
  have lt: "length out < n"
    using length_expand [OF Suc.prems(3)] Suc.prems(5) by (simp add: d)
  have r: "lz_token data (ctrl ts AND push_bit i 1 \<noteq> 0) pos out = Some (pos + length (token_bytes ?t), apply_token out ?t)"
    using lz_token_read [OF ok(1) at(1)] ctrl_test [OF Suc.prems(1) i] by simp
  have "lz_group data n (ctrl ts) (Suc i) (pos + length (token_bytes ?t)) (apply_token out ?t) =
      Some (pos + length (token_bytes ?t) + length (concat (map token_bytes (drop (Suc i) ts))),
        expand (apply_token out ?t) (drop (Suc i) ts))"
    using Suc.hyps(2) i ok(2) at(2) Suc.prems(1,5,6) by (intro Suc.hyps(1)) (auto simp: d)
  then show ?case using i Suc.prems(1) lt r by (subst lz_group.simps) (simp add: d)
qed

lemma lz_groups_read:
  assumes "\<forall>g \<in> set gs. length g = 8" "length cur < 8"
  shows "\<lbrakk>tokens_ok out (concat gs @ cur); n = length (expand out (concat gs @ cur));
    at_pos data pos (concat (map enc_group gs) @ (if cur = [] then [] else enc_group cur))\<rbrakk> \<Longrightarrow>
   lz_groups data n pos out = Some (expand out (concat gs @ cur))"
  using assms
proof (induction gs arbitrary: pos out)
  case Nil
  show ?case
  proof (cases "cur = []")
    case True
    then show ?thesis using Nil by (subst lz_groups.simps) simp
  next
    case False
    have at: "get_at data pos = Some (ctrl cur)" "at_pos data (pos + 1) (concat (map token_bytes cur))"
      using Nil(3) False at_pos_get_at at_pos_tl by (fastforce simp: enc_group_def)+
    have "length out < n" using length_expand [of out cur] Nil False by (cases cur) auto
    moreover have "lz_group data n (ctrl cur) 0 (pos + 1) out = Some (pos + 1 + length (concat (map token_bytes cur)), expand out cur)"
      using lz_group_read [of cur 0 out data "pos + 1" n] Nil at(2) by simp
    ultimately show ?thesis using at(1) Nil(2)
      by (subst lz_groups.simps) (simp, subst lz_groups.simps, simp)
  qed
next
  case (Cons g gs)
  let ?rest = "concat (map enc_group gs) @ (if cur = [] then [] else enc_group cur)"
  have p: "at_pos data pos (enc_group g @ ?rest)" using Cons.prems(3) by simp
  then have p1: "at_pos data pos (enc_group g)" "at_pos data (pos + length (enc_group g)) ?rest"
    using at_pos_append by blast+
  have at: "get_at data pos = Some (ctrl g)" "at_pos data (pos + 1) (concat (map token_bytes g))"
    using p1(1) at_pos_get_at at_pos_tl by (fastforce simp: enc_group_def)+
  have ok: "tokens_ok out g" "tokens_ok (expand out g) (concat gs @ cur)"
    using Cons.prems(1) by (simp_all add: tokens_ok_append)
  have e: "expand out (concat (g # gs) @ cur) = expand (expand out g) (concat gs @ cur)" by (simp add: expand_append)
  have n: "length (expand out g) \<le> n" using length_expand [OF ok(2)] Cons.prems(2) unfolding e by simp
  have "length g = 8" using Cons.prems(4) by simp
  then have lt: "length out < n" using length_expand [OF ok(1)] n by simp
  have "lz_group data n (ctrl g) 0 (pos + 1) out = Some (pos + length (enc_group g), expand out g)"
    using lz_group_read [of g 0 out data "pos + 1" n] ok(1) at(2) n \<open>length g = 8\<close> by (simp add: enc_group_def)
  moreover have "lz_groups data n (pos + length (enc_group g)) (expand out g) = Some (expand (expand out g) (concat gs @ cur))"
    using Cons.prems(2,4,5) ok(2) p1(2) unfolding e by (intro Cons.IH) auto
  ultimately show ?case unfolding e using at(1) lt by (subst lz_groups.simps) simp
qed

text \<open>The bytes of a whole text: its length and its groups.\<close>

lemma lz_decompress_tokens:
  assumes "\<forall>g \<in> set gs. length g = 8" "length cur < 8" "tokens_ok [] (concat gs @ cur)"
    "length (expand [] (concat gs @ cur)) < 2 ^ 64"
  shows "lz_decompress (put_varint (of_nat (length (expand [] (concat gs @ cur)))) @ concat (map enc_group gs) @
      (if cur = [] then [] else enc_group cur)) = Some (expand [] (concat gs @ cur))"
proof -
  let ?x = "expand [] (concat gs @ cur)" and ?rest = "concat (map enc_group gs) @ (if cur = [] then [] else enc_group cur)"
  let ?v = "put_varint (of_nat (length ?x))"
  have "at_pos (?v @ ?rest) 0 (?v @ ?rest)" by (rule at_pos_self)
  then have a: "at_pos (?v @ ?rest) 0 ?v" "at_pos (?v @ ?rest) (0 + length ?v) ?rest" using at_pos_append by blast+
  have t: "take_varint (?v @ ?rest) 0 = Some (of_nat (length ?x), 0 + length ?v)" by (rule take_varint_put [OF a(1)])
  have u: "unat (of_nat (length ?x) :: u64) = length ?x" by (rule unat_of_nat_u64 [OF assms(4)])
  have "lz_groups (?v @ ?rest) (length ?x) (0 + length ?v) [] = Some ?x"
    by (rule lz_groups_read [OF assms(1,2,3) refl a(2)])
  then show ?thesis unfolding lz_decompress_def t option.case prod.case u by simp
qed

section \<open>The compressor writes tokens\<close>

lemma match_len_le: "match_len input c pos m \<le> m"
  by (induction input c pos m rule: match_len.induct) auto

lemma match_len_same: "i < match_len input c pos m \<Longrightarrow> input ! (c + i) = input ! (pos + i)"
proof (induction input c pos m arbitrary: i rule: match_len.induct)
  case (2 input c pos m)
  then show ?case by (cases i) (auto split: if_splits)
qed simp

text \<open>Every chain entry is below \<open>b\<close>, as a signed number.\<close>

definition chain_below :: "int list \<Rightarrow> nat \<Rightarrow> bool" where
  "chain_below xs b \<longleftrightarrow> (\<forall>x \<in> set xs. x < int b)"

lemma as_i32_le: "as_i32 n \<le> int n"
proof -
  have "as_i32 n = signed_take_bit 31 (int n)" by (simp add: as_i32_def signed_of_nat)
  then show ?thesis by (simp add: signed_take_bit_int_less_eq_self_iff)
qed

lemma hash3_less: "hash3 b pos < HASH_SIZE"
proof -
  have "unat (drop_bit 19 (w :: u32)) < 2 ^ 13" for w
  proof -
    have "unat (drop_bit 19 w) = unat w div 2 ^ 19" by (simp only: unat_drop_bit_eq, simp only: drop_bit_eq_div)
    then show ?thesis using unat_u32_less [of w] by (simp add: less_mult_imp_div_less)
  qed
  then show ?thesis by (simp add: hash3_def HASH_SIZE_def HASH_BITS_def Let_def)
qed

definition match_ok :: "bytes \<Rightarrow> nat \<Rightarrow> nat \<Rightarrow> nat \<times> nat \<Rightarrow> bool" where
  "match_ok input pos m = (\<lambda>(len, off). len \<le> m \<and>
     (len > 0 \<longrightarrow> 1 \<le> off \<and> off \<le> pos \<and> off \<le> WINDOW \<and> (\<forall>i < len. input ! (pos - off + i) = input ! (pos + i))))"

lemma best_match_ok:
  "\<lbrakk>match_ok input pos m best; cand < int pos; chain_below prev pos; pos \<le> length prev\<rbrakk> \<Longrightarrow>
   match_ok input pos m (best_match input prev pos m fuel cand best)"
proof (induction input prev pos m fuel cand best rule: best_match.induct)
  case (2 input prev pos m fuel cand bl bo)
  show ?case
  proof (cases "cand < 0 \<or> pos - nat cand > WINDOW")
    case False
    then have c: "nat cand < pos" using 2(4) by linarith
    then have p: "prev ! nat cand < int pos" using 2(5,6) unfolding chain_below_def by (meson less_le_trans nth_mem)
    have m: "match_ok input pos m (match_len input (nat cand) pos m, pos - nat cand)"
      using c False match_len_le match_len_same [of _ input "nat cand" pos m] by (auto simp: match_ok_def)
    show ?thesis using False 2(1) [OF _ refl _ refl] 2(2) [OF _ refl _ refl] 2(3) m p 2(5,6) by (auto simp: Let_def)
  qed (use 2 in \<open>auto simp: Let_def\<close>)
qed auto

lemma copy_match_take:
  "\<lbrakk>s < p; p + len \<le> length input; \<forall>i < len. input ! (s + i) = input ! (p + i)\<rbrakk> \<Longrightarrow>
   copy_match (take p input) s len = take (p + len) input"
proof (induction len arbitrary: s p)
  case (Suc len)
  have "take p input ! s = input ! p" using Suc.prems(1) Suc.prems(3) by (auto dest: spec [of _ 0])
  then have "take p input @ [take p input ! s] = take (Suc p) input"
    using Suc.prems(2) by (simp add: take_Suc_conv_app_nth)
  moreover have "\<forall>i < len. input ! (Suc s + i) = input ! (Suc p + i)"
    using Suc.prems(3) by (metis Suc_less_eq add_Suc_shift)
  ultimately show ?case using Suc.IH [of "Suc s" "Suc p"] Suc.prems(1,2) by simp
qed simp

definition chains_ok :: "bytes \<Rightarrow> nat \<Rightarrow> int list \<times> int list \<Rightarrow> bool" where
  "chains_ok input b = (\<lambda>(head, prev). length head = HASH_SIZE \<and> length prev = length input \<and>
     chain_below head b \<and> chain_below prev b)"

lemma chain_below_upd: "chain_below xs b \<Longrightarrow> x < int b \<Longrightarrow> chain_below (xs[i := x]) b"
  unfolding chain_below_def by (metis insert_iff set_update_subset_insert subsetD)

lemma chain_below_mono: "chain_below xs b \<Longrightarrow> b \<le> c \<Longrightarrow> chain_below xs c"
  unfolding chain_below_def by force

lemma chains_ok_mono: "chains_ok input b hp \<Longrightarrow> b \<le> c \<Longrightarrow> chains_ok input c hp"
  by (auto simp: chains_ok_def chain_below_mono)

lemma lz_insert_ok: "chains_ok input b hp \<Longrightarrow> p < b \<Longrightarrow> chains_ok input b (lz_insert input p hp)"
proof -
  assume a: "chains_ok input b hp" "p < b"
  obtain head prev where hp: "hp = (head, prev)" by (cases hp)
  have "as_i32 p < int b" using as_i32_le [of p] a(2) by simp
  moreover have "head ! hash3 input p < int b"
    using a(1) hash3_less [of input p] by (auto simp: hp chains_ok_def chain_below_def)
  ultimately show ?thesis using a(1) by (auto simp: hp chains_ok_def lz_insert_def Let_def intro: chain_below_upd)
qed

lemma lz_inserts_ok: "chains_ok input b hp \<Longrightarrow> \<forall>p \<in> set ps. p < b \<Longrightarrow> chains_ok input b (fold (lz_insert input) ps hp)"
proof (induction ps arbitrary: hp)
  case (Cons p ps)
  have "chains_ok input b (lz_insert input p hp)" using Cons.prems by (intro lz_insert_ok) simp_all
  then show ?case using Cons.IH Cons.prems(2) by simp
qed simp

text \<open>The state after an open group: what is written is \<open>pre\<close>, a reserved byte and the tokens \<open>cur\<close>.\<close>

definition lz_mid :: "bytes \<Rightarrow> bytes \<Rightarrow> token list list \<Rightarrow> token list \<Rightarrow> lz_state \<Rightarrow> bool" where
  "lz_mid input pre gs cur s \<longleftrightarrow>
     tokens_ok [] (concat gs @ cur) \<and> expand [] (concat gs @ cur) = take (lz_pos s) input \<and> lz_pos s \<le> length input \<and>
     chains_ok input (lz_pos s) (lz_head s, lz_prev s) \<and>
     lz_out s = pre @ 0 # concat (map token_bytes cur) \<and> lz_flags_pos s = length pre \<and> lz_flags s = ctrl cur"

definition lz_inv :: "bytes \<Rightarrow> bytes \<Rightarrow> token list list \<Rightarrow> token list \<Rightarrow> lz_state \<Rightarrow> bool" where
  "lz_inv input v gs cur s \<longleftrightarrow>
     (\<forall>g \<in> set gs. length g = 8) \<and> length cur < 8 \<and> lz_nflags s = length cur \<and>
     (if cur = [] then
        tokens_ok [] (concat gs) \<and> expand [] (concat gs) = take (lz_pos s) input \<and> lz_pos s \<le> length input \<and>
        chains_ok input (lz_pos s) (lz_head s, lz_prev s) \<and> lz_out s = v @ concat (map enc_group gs)
      else lz_mid input (v @ concat (map enc_group gs)) gs cur s)"

lemma lz_emit_mid:
  assumes m: "lz_mid input pre gs cur s" and lt: "lz_pos s < length input" and nf: "lz_nflags s = length cur"
  shows "\<exists>t. lz_mid input pre gs (cur @ [t]) (lz_emit input s) \<and> lz_nflags (lz_emit input s) = length cur"
proof -
  let ?pos = "lz_pos s" and ?n = "length input"
  obtain bl bo where f: "lz_find input s = (bl, bo)" by (cases "lz_find input s")
  have ch: "length (lz_head s) = HASH_SIZE" "length (lz_prev s) = ?n" "chain_below (lz_head s) ?pos" "chain_below (lz_prev s) ?pos"
    and out: "lz_out s = pre @ 0 # concat (map token_bytes cur)" "lz_flags_pos s = length pre" "lz_flags s = ctrl cur"
    and tok: "tokens_ok [] (concat gs @ cur)" "expand [] (concat gs @ cur) = take ?pos input"
    using m by (simp_all add: lz_mid_def chains_ok_def)
  have co: "chains_ok input ?pos (lz_head s, lz_prev s)" using ch by (simp add: chains_ok_def)
  have le: "length (take ?pos input) = ?pos" using lt by simp
  have snoc: "tokens_ok [] (concat gs @ cur @ [t]) \<longleftrightarrow> token_ok (take ?pos input) t"
    "expand [] (concat gs @ cur @ [t]) = apply_token (take ?pos input) t" for t
    using tok tokens_ok_append [of "[]" "concat gs @ cur" "[t]"] expand_append [of "[]" "concat gs @ cur" "[t]"]
    by simp_all
  show ?thesis
  proof (cases "bl \<ge> MIN_MATCH")
    case True
    then have bl: "bl > 0" by (simp add: MIN_MATCH_def)
    then have pm: "?pos + MIN_MATCH \<le> ?n" using f by (auto simp: lz_find_def Let_def split: if_splits)
    have hd: "lz_head s ! hash3 input ?pos < int ?pos"
      using ch(1,3) hash3_less [of input ?pos] unfolding chain_below_def by (metis nth_mem)
    then have "match_ok input ?pos (min (?n - ?pos) MAX_MATCH) (bl, bo)"
    proof -
      let ?m = "min (?n - ?pos) MAX_MATCH"
      have b: "best_match input (lz_prev s) ?pos ?m MAX_CHAIN (lz_head s ! hash3 input ?pos) (0, 0) = (bl, bo)"
        using f pm by (simp add: lz_find_def Let_def)
      have z: "match_ok input ?pos ?m (0, 0)" by (simp add: match_ok_def)
      have "?pos \<le> length (lz_prev s)" using ch(2) lt by simp
      then show ?thesis using best_match_ok [OF z hd ch(4), of MAX_CHAIN] unfolding b by simp
    qed
    then have mo: "bl \<le> ?n - ?pos" "bl \<le> MAX_MATCH" "1 \<le> bo" "bo \<le> ?pos" "bo \<le> WINDOW"
      "\<forall>i < bl. input ! (?pos - bo + i) = input ! (?pos + i)"
      using bl unfolding match_ok_def prod.case min.bounded_iff by blast+
    let ?t = "Match bo bl"
    have ap: "apply_token (take ?pos input) ?t = take (?pos + bl) input"
      using copy_match_take [of "?pos - bo" ?pos bl input] mo lt by (simp add: le)
    have ok: "token_ok (take ?pos input) ?t" using mo True le by simp
    define hp2 where "hp2 = fold (lz_insert input) [?pos..<?pos + bl] (lz_head s, lz_prev s)"
    define head prev where "head = fst hp2" and "prev = snd hp2"
    have hp: "fold (lz_insert input) [?pos..<?pos + bl] (lz_head s, lz_prev s) = (head, prev)"
      by (simp only: hp2_def [symmetric] head_def prev_def prod.collapse)
    have "chains_ok input (?pos + bl) (head, prev)"
      unfolding hp [symmetric] by (rule lz_inserts_ok [OF chains_ok_mono [OF co]]) auto
    moreover have "lz_emit input s = s\<lparr>lz_out := lz_out s @ match_code bl bo, lz_head := head, lz_prev := prev, lz_pos := ?pos + bl\<rparr>"
      unfolding lz_emit_def f Let_def prod.case hp if_P [OF True] ..
    moreover have "?pos + bl \<le> ?n" using mo(1) lt by linarith
    ultimately show ?thesis using out nf
      by (intro exI [of _ ?t]) (simp add: lz_mid_def snoc ok ap ctrl_append del: apply_token.simps token_ok.simps)
  next
    case False
    let ?t = "Lit (input ! ?pos)"
    obtain head prev where hp: "lz_insert input ?pos (lz_head s, lz_prev s) = (head, prev)"
      by (rule prod.exhaust)
    have "chains_ok input (?pos + 1) (head, prev)"
      unfolding hp [symmetric] by (rule lz_insert_ok [OF chains_ok_mono [OF co]]) auto
    then show ?thesis using False lt out nf
      by (intro exI [of _ ?t])
        (simp add: lz_mid_def lz_emit_def f hp snoc ctrl_append take_Suc_conv_app_nth Let_def)
  qed
qed

lemma lz_open_mid:
  assumes "lz_inv input v gs cur s"
  shows "lz_mid input (v @ concat (map enc_group gs)) gs cur (lz_open_group s) \<and>
    lz_nflags (lz_open_group s) = length cur \<and> lz_pos (lz_open_group s) = lz_pos s"
  using assms by (cases "cur = []") (simp_all add: lz_inv_def lz_open_group_def lz_mid_def)

lemma lz_step_inv:
  assumes "lz_inv input v gs cur s" "lz_pos s < length input"
  shows "\<exists>gs' cur'. lz_inv input v gs' cur' (lz_step input s)"
proof -
  let ?pre = "v @ concat (map enc_group gs)" and ?s = "lz_emit input (lz_open_group s)"
  note o = lz_open_mid [OF assms(1)]
  obtain t where t: "lz_mid input ?pre gs (cur @ [t]) ?s" "lz_nflags ?s = length cur"
    using lz_emit_mid [of input ?pre gs cur "lz_open_group s"] o assms(2) by auto
  have gs: "\<forall>g \<in> set gs. length g = 8" "length cur < 8" using assms(1) by (simp_all add: lz_inv_def)
  show ?thesis
  proof (cases "length cur = 7")
    case True
    have "lz_inv input v (gs @ [cur @ [t]]) [] (lz_step input s)"
      using t gs True by (simp add: lz_inv_def lz_mid_def lz_step_def lz_close_group_def enc_group_def list_update_append)
    then show ?thesis by blast
  next
    case False
    have "lz_inv input v gs (cur @ [t]) (lz_step input s)"
      using t gs False by (simp add: lz_inv_def lz_mid_def lz_step_def lz_close_group_def Let_def)
    then show ?thesis by blast
  qed
qed

lemma lz_loop_inv:
  "lz_inv input v gs cur s \<Longrightarrow> \<exists>gs' cur'. lz_inv input v gs' cur' (lz_loop input s) \<and> lz_pos (lz_loop input s) \<ge> length input"
proof (induction input s arbitrary: gs cur rule: lz_loop.induct)
  case (1 input s)
  show ?case
  proof (cases "lz_pos s < length input")
    case True
    obtain gs' cur' where "lz_inv input v gs' cur' (lz_step input s)" using lz_step_inv [OF 1(2) True] by blast
    then show ?thesis using 1(1) [OF True] True by (subst (1 2) lz_loop.simps) simp
  qed (use 1(2) in \<open>subst (1 2) lz_loop.simps, auto\<close>)
qed

text \<open>What the compressor writes: the length and the groups of a token list that expands to the input.\<close>

lemma lz_compress_tokens:
  "\<exists>gs cur. (\<forall>g \<in> set gs. length g = 8) \<and> length cur < 8 \<and> tokens_ok [] (concat gs @ cur) \<and>
     expand [] (concat gs @ cur) = input \<and>
     lz_compress input = put_varint (of_nat (length input)) @ concat (map enc_group gs) @ (if cur = [] then [] else enc_group cur)"
proof -
  let ?v = "put_varint (of_nat (length input))"
  let ?s0 = "\<lparr>lz_out = ?v, lz_head = replicate HASH_SIZE (-1), lz_prev = replicate (length input) (-1),
    lz_flags_pos = 0, lz_flags = 0, lz_nflags = 0, lz_pos = 0\<rparr>"
  have "lz_inv input ?v [] [] ?s0" by (simp add: lz_inv_def chains_ok_def chain_below_def)
  then obtain gs cur where i: "lz_inv input ?v gs cur (lz_loop input ?s0)" "lz_pos (lz_loop input ?s0) \<ge> length input"
    using lz_loop_inv by blast
  let ?s = "lz_loop input ?s0"
  have "lz_compress input = ?v @ concat (map enc_group gs) @ (if cur = [] then [] else enc_group cur)"
    using i(1) by (auto simp: lz_compress_def lz_inv_def lz_mid_def enc_group_def list_update_append Let_def split: if_splits)
  moreover have "tokens_ok [] (concat gs @ cur)" "expand [] (concat gs @ cur) = input"
    using i by (cases "cur = []", simp_all add: lz_inv_def lz_mid_def)+
  ultimately show ?thesis using i(1) unfolding lz_inv_def by blast
qed

lemma lz_decompress_compress:
  assumes "length input < 2 ^ 64"
  shows "lz_decompress (lz_compress input) = Some input"
proof -
  obtain gs cur where t: "\<forall>g \<in> set gs. length g = 8" "length cur < 8" "tokens_ok [] (concat gs @ cur)"
     "expand [] (concat gs @ cur) = input"
     "lz_compress input = put_varint (of_nat (length input)) @ concat (map enc_group gs) @ (if cur = [] then [] else enc_group cur)"
    using lz_compress_tokens [of input] by blast
  show ?thesis using lz_decompress_tokens [OF t(1-3)] assms unfolding t(4,5) by simp
qed

section \<open>Backends\<close>

text \<open>A compressor keeps its promise: what it returns is smaller and gives the body back.\<close>

definition backend_ok :: "compressor \<Rightarrow> bool" where
  "backend_ok c \<longleftrightarrow> (\<forall>body out. length body < 2 ^ 64 \<longrightarrow> compress c body = Some (Some out) \<longrightarrow>
     length out < length body \<and> decompress c out = Some (Some body))"

lemma densa_compress_cases:
  assumes "densa_compress body = Some (Some out)"
  shows "length out < length body \<and>
    (out = 0 # lz_compress body \<or> (\<exists>c. out = 1 # c \<and> rc_decompress c = Some (Some (lz_compress body))))"
  using assms by (auto simp: densa_compress_def Let_def split: option.splits if_splits)

lemma backend_ok_Densa: "backend_ok Densa"
  unfolding backend_ok_def
proof (intro allI impI)
  fix body out
  assume l: "length body < 2 ^ 64" and c: "compress Densa body = Some (Some out)"
  from c have "densa_compress body = Some (Some out)" by (simp add: Densa_def)
  note k = densa_compress_cases [OF this]
  moreover have "densa_decompress out = Some (Some body)"
    using k lz_decompress_compress [OF l] by (auto simp: densa_decompress_def)
  ultimately show "length out < length body \<and> decompress Densa out = Some (Some body)" by (simp add: Densa_def)
qed

lemma backend_ok_Lz: "backend_ok Lz"
  using lz_decompress_compress by (auto simp: backend_ok_def Lz_def Let_def split: if_splits)

lemma backend_ok_NoCompression: "backend_ok NoCompression"
  by (simp add: backend_ok_def NoCompression_def)

end
