(* ===== verification/EccLaws.thy ===== *)
theory EccLaws
  imports Ecc
begin

text \<open>
  Correctness of the Reed-Solomon code: the encoder's block is a codeword, two codewords that agree but for
  at most \<^verbatim>\<open>nsym\<close> positions are equal (Vandermonde), hence a block decoded within the budget is the
  original one.
\<close>

lemma gf_two [simp]: "(2 :: gf) = 0"
  using gf_add_self [of 1] unfolding one_add_one .

section \<open>Evaluation\<close>

definition hev :: "gf list \<Rightarrow> gf \<Rightarrow> gf" where
  "hev p x = fold (\<lambda>c y. y * x + c) p 0"

lemma hev_fold: "fold (\<lambda>c y. y * x + c) p a = a * x ^ length p + hev p x"
proof (induction p arbitrary: a)
  case (Cons c p)
  have "hev (c # p) x = c * x ^ length p + hev p x" using Cons [of c] by (simp add: hev_def)
  then show ?case using Cons [of "a * x + c"] by (simp add: algebra_simps)
qed (simp add: hev_def)

lemma hev_Nil [simp]: "hev [] x = 0" by (simp add: hev_def)

lemma hev_Cons: "hev (c # p) x = c * x ^ length p + hev p x"
  using hev_fold [of x p c] by (simp add: hev_def)

lemma hev_append: "hev (p @ q) x = hev p x * x ^ length q + hev q x"
proof -
  have "hev (p @ q) x = fold (\<lambda>c y. y * x + c) q (hev p x)" by (simp add: hev_def)
  then show ?thesis by (simp only: hev_fold)
qed

lemma hev_sum: "hev p x = (\<Sum>i<length p. p ! i * x ^ (length p - 1 - i))"
proof (induction p)
  case (Cons c p)
  have "(\<Sum>i<length (c # p). (c # p) ! i * x ^ (length (c # p) - 1 - i)) =
      c * x ^ length p + (\<Sum>i<length p. p ! i * x ^ (length p - Suc i))"
    by (simp add: sum.lessThan_Suc_shift del: sum.lessThan_Suc)
  then show ?case using Cons by (simp add: hev_Cons)
qed simp

lemma hev_replicate_0 [simp]: "hev (replicate n 0) x = 0"
  by (induction n) (simp_all add: hev_Cons)

lemma hev_add: "length p = length q \<Longrightarrow> hev (map2 (+) p q) x = hev p x + hev q x"
  by (induction p q rule: list_induct2) (simp_all add: hev_Cons algebra_simps)

lemma hev_upd: "k < length p \<Longrightarrow> hev (p[k := p ! k + d]) x = hev p x + d * x ^ (length p - 1 - k)"
proof (induction p arbitrary: k)
  case (Cons c p)
  then show ?case by (cases k) (simp_all add: hev_Cons algebra_simps)
qed simp

lemma GF_poly_eval: "p \<noteq> [] \<Longrightarrow> GF (poly_eval p x) = hev (map GF p) (GF x)"
proof -
  have f: "GF (fold (\<lambda>c y. gf_mul y x XOR c) p a) = fold (\<lambda>c y. y * GF x + c) (map GF p) (GF a)" for p a
    by (induction p arbitrary: a) (simp_all add: GF_hom)
  assume "p \<noteq> []"
  then obtain c q where "p = c # q" by (cases p) auto
  then show ?thesis by (simp add: poly_eval_def f hev_fold hev_Cons)
qed

section \<open>In-place updates\<close>

definition xor_at :: "(nat \<times> u8) list \<Rightarrow> bytes \<Rightarrow> bytes" where
  "xor_at us r = fold (\<lambda>(k, d) r. r[k := r ! k XOR d]) us r"

lemma xor_at_simps [simp]: "xor_at [] r = r" "xor_at ((k, d) # us) r = xor_at us (r[k := r ! k XOR d])"
  by (simp_all add: xor_at_def)

lemma length_xor_at [simp]: "length (xor_at us r) = length r"
  by (induction us arbitrary: r) auto

lemma xor_at_other: "m \<notin> fst ` set us \<Longrightarrow> xor_at us r ! m = r ! m"
  by (induction us arbitrary: r) auto

lemma hev_xor_at:
  "\<forall>(k, d) \<in> set us. k < length r \<Longrightarrow>
   hev (map GF (xor_at us r)) x = hev (map GF r) x + (\<Sum>(k, d)\<leftarrow>us. GF d * x ^ (length r - 1 - k))"
proof (induction us arbitrary: r)
  case (Cons u us)
  obtain k d where u: "u = (k, d)" by (cases u)
  have k: "k < length r" using Cons.prems u by auto
  have "map GF (r[k := r ! k XOR d]) = (map GF r)[k := map GF r ! k + GF d]"
    using k by (simp add: map_update GF_xor)
  then have "hev (map GF (r[k := r ! k XOR d])) x = hev (map GF r) x + GF d * x ^ (length r - 1 - k)"
    using k hev_upd [of k "map GF r"] by simp
  then show ?case using Cons u by (simp add: add.assoc)
qed simp

lemma fold_concat_map: "fold (\<lambda>x. fold g (h x)) xs a = fold g (concat (map h xs)) a"
  by (induction xs arbitrary: a) auto

lemma enumerate_nth: "map (\<lambda>(i, x). f i x) (enumerate 0 p) = map (\<lambda>i. f i (p ! i)) [0..<length p]"
  by (rule nth_equalityI) (auto simp: nth_enumerate_eq)

lemma sum_enumerate: "(\<Sum>(i, x)\<leftarrow>enumerate 0 p. f i x) = (\<Sum>i<length p. f i (p ! i))"
  unfolding enumerate_nth by (simp add: interv_sum_list_conv_sum_set_nat atLeast0LessThan)

lemma sum_shifted:
  "(\<Sum>(k, d)\<leftarrow>map (\<lambda>(i, pi). (i + j, h pi)) ps. G k d) = (\<Sum>(i, pi)\<leftarrow>ps. G (i + j) (h pi))"
  by (induction ps) auto

section \<open>Products and the generator\<close>

definition mul_updates :: "bytes \<Rightarrow> bytes \<Rightarrow> (nat \<times> u8) list" where
  "mul_updates p q =
     concat (map (\<lambda>(j, qj). map (\<lambda>(i, pi). (i + j, gf_mul pi qj)) (enumerate 0 p)) (enumerate 0 q))"

lemma poly_mul_updates: "poly_mul p q = xor_at (mul_updates p q) (replicate (length p + length q - 1) 0)"
proof -
  have i: "fold (\<lambda>(i, pi) r. r[i + j := r ! (i + j) XOR gf_mul pi qj]) ps r =
      fold (\<lambda>(k, d) r. r[k := r ! k XOR d]) (map (\<lambda>(i, pi). (i + j, gf_mul pi qj)) ps) r" for ps j qj and r :: bytes
    by (induction ps arbitrary: r) auto
  show ?thesis
    unfolding poly_mul_def mul_updates_def xor_at_def i
    by (subst fold_concat_map [symmetric]) (simp add: case_prod_unfold)
qed

lemma length_poly_mul [simp]: "length (poly_mul p q) = length p + length q - 1"
  by (simp add: poly_mul_updates)

lemma mul_updates_range: "(k, d) \<in> set (mul_updates p q) \<Longrightarrow> k < length p + length q - 1"
  by (auto simp: mul_updates_def in_set_enumerate_eq)

lemma sum_list_mul_updates:
  "(\<Sum>(k, d)\<leftarrow>mul_updates p q. GF d * x ^ (length p + length q - 2 - k)) = hev (map GF p) x * hev (map GF q) x"
proof -
  have inner: "(\<Sum>(k, d)\<leftarrow>map (\<lambda>(i, pi). (i + j, gf_mul pi b)) (enumerate 0 p).
      GF d * x ^ (length p + length q - 2 - k)) = hev (map GF p) x * (GF b * x ^ (length q - 1 - j))"
    if "j < length q" for j b
  proof -
    have "(\<Sum>(k, d)\<leftarrow>map (\<lambda>(i, pi). (i + j, gf_mul pi b)) (enumerate 0 p). GF d * x ^ (length p + length q - 2 - k)) =
        (\<Sum>i<length p. GF (gf_mul (p ! i) b) * x ^ (length p + length q - 2 - (i + j)))"
      by (simp only: sum_shifted sum_enumerate)
    also have "\<dots> = (\<Sum>i<length p. GF (p ! i) * x ^ (length p - 1 - i) * (GF b * x ^ (length q - 1 - j)))"
    proof -
      have "x ^ (length p + length q - 2 - (i + j)) = x ^ (length p - 1 - i) * x ^ (length q - 1 - j)" if "i < length p" for i
        using that \<open>j < length q\<close> by (simp flip: power_add)
      then show ?thesis by (intro sum.cong refl) (simp add: GF_mul ac_simps)
    qed
    finally show ?thesis by (simp add: hev_sum sum_distrib_right)
  qed
  have "(\<Sum>(k, d)\<leftarrow>mul_updates p q. GF d * x ^ (length p + length q - 2 - k)) =
      (\<Sum>(j, b)\<leftarrow>enumerate 0 q. hev (map GF p) x * (GF b * x ^ (length q - 1 - j)))"
  proof -
    have s: "(\<Sum>(k, d)\<leftarrow>concat (map (\<lambda>(j, b). h j b) qs). G k d) = (\<Sum>(j, b)\<leftarrow>qs. \<Sum>(k, d)\<leftarrow>h j b. G k d)"
      for h qs and G :: "nat \<Rightarrow> u8 \<Rightarrow> gf"
      by (induction qs) auto
    show ?thesis unfolding mul_updates_def s
    proof (intro arg_cong [where f = sum_list] map_cong refl)
      fix jb assume a: "jb \<in> set (enumerate 0 q)"
      obtain j b where e: "jb = (j, b)" by (rule prod.exhaust)
      have jb: "jb = (j, b)" "j < length q" using a by (simp_all add: e in_set_enumerate_eq)
      show "(case jb of (j, b) \<Rightarrow> \<Sum>(k, d)\<leftarrow>map (\<lambda>(i, pi). (i + j, gf_mul pi b)) (enumerate 0 p).
            GF d * x ^ (length p + length q - 2 - k)) =
          (case jb of (j, b) \<Rightarrow> hev (map GF p) x * (GF b * x ^ (length q - 1 - j)))"
        by (simp only: jb(1) prod.case inner [OF jb(2)])
    qed
  qed
  also have "\<dots> = hev (map GF p) x * hev (map GF q) x"
    by (simp add: sum_enumerate hev_sum [of "map GF q"] sum_distrib_left)
  finally show ?thesis .
qed

lemma hev_poly_mul:
  assumes "p \<noteq> []" "q \<noteq> []"
  shows "hev (map GF (poly_mul p q)) x = hev (map GF p) x * hev (map GF q) x"
proof -
  have "hev (map GF (poly_mul p q)) x = (\<Sum>(k, d)\<leftarrow>mul_updates p q. GF d * x ^ (length p + length q - 2 - k))"
    unfolding poly_mul_updates
    by (subst hev_xor_at) (auto dest: mul_updates_range simp: GF_0 map_replicate_const numeral_2_eq_2)
  then show ?thesis by (simp only: sum_list_mul_updates)
qed


lemma poly_mul_nz: "p \<noteq> [] \<Longrightarrow> q \<noteq> [] \<Longrightarrow> poly_mul p q \<noteq> []"
  using length_poly_mul [of p q] by (cases p; cases q) (auto simp del: length_poly_mul)

text \<open>The highest coefficient is the product of the highest coefficients.\<close>

lemma hd_poly_mul:
  assumes "p \<noteq> []" "q \<noteq> []"
  shows "poly_mul p q ! 0 = gf_mul (p ! 0) (q ! 0)"
proof -
  obtain a p' b q' where e: "p = a # p'" "q = b # q'" using assms by (meson neq_Nil_conv)
  have u: "mul_updates p q = (0, gf_mul a b) # map (\<lambda>(i, pi). (i, gf_mul pi b)) (enumerate 1 p') @
      concat (map (\<lambda>(j, qj). map (\<lambda>(i, pi). (i + j, gf_mul pi qj)) (enumerate 0 p)) (enumerate 1 q'))"
    by (simp add: mul_updates_def e)
  have "0 \<notin> fst ` set (map (\<lambda>(i, pi). (i, gf_mul pi b)) (enumerate 1 p') @
      concat (map (\<lambda>(j, qj). map (\<lambda>(i, pi). (i + j, gf_mul pi qj)) (enumerate 0 p)) (enumerate 1 q')))"
    by (auto simp: in_set_enumerate_eq)
  then show ?thesis
    unfolding poly_mul_updates u by (simp add: xor_at_other) (simp add: e)
qed

lemma gen_poly_Suc: "gen_poly (Suc n) = poly_mul (gen_poly n) [1, gf_pow (int n)]"
  by (simp add: gen_poly_def)

lemma length_gen_poly [simp]: "length (gen_poly n) = Suc n"
  by (induction n) (simp_all add: gen_poly_Suc, simp add: gen_poly_def)

lemma gen_poly_ne: "gen_poly n \<noteq> []"
  by (metis length_gen_poly list.size(3) nat.distinct(1))

lemma gen_poly_hd: "gen_poly n ! 0 = 1"
proof (induction n)
  case (Suc n)
  then show ?case by (simp add: gen_poly_Suc hd_poly_mul gen_poly_ne)
qed (simp add: gen_poly_def)

lemma gen_poly_root: "i < n \<Longrightarrow> hev (map GF (gen_poly n)) (alpha ^ i) = 0"
proof (induction n)
  case (Suc n)
  have "hev (map GF (gen_poly (Suc n))) x = hev (map GF (gen_poly n)) x * (x + alpha ^ n)" for x
    by (simp add: gen_poly_Suc hev_poly_mul gen_poly_ne hev_Cons GF_1 gf_pow_nat)
  then show ?case using Suc by (cases "i = n") auto
qed simp

section \<open>The encoder\<close>

lemma encode_step_updates:
  "encode_step gp i out =
   (if out ! i = 0 then out else xor_at (map (\<lambda>j. (i + j, gf_mul (gp ! j) (out ! i))) [1..<length gp]) out)"
proof -
  have "fold (\<lambda>j out. out[i + j := out ! (i + j) XOR gf_mul (gp ! j) c]) js out =
      xor_at (map (\<lambda>j. (i + j, gf_mul (gp ! j) c)) js) out" for js c and out :: bytes
    by (induction js arbitrary: out) auto
  then show ?thesis by (simp add: encode_step_def Let_def)
qed

lemma length_encode_step [simp]: "length (encode_step gp i out) = length out"
  by (simp add: encode_step_updates)

lemma encode_step_before: "j \<le> i \<Longrightarrow> encode_step gp i out ! j = out ! j"
  by (auto simp: encode_step_updates intro!: xor_at_other)

lemma hev_gp_tail:
  assumes "length gp = Suc n" "gp ! 0 = 1" "hev (map GF gp) x = 0"
  shows "(\<Sum>j\<leftarrow>[1..<Suc n]. GF (gp ! j) * x ^ (n - j)) = x ^ n"
proof -
  have "(\<Sum>j<Suc n. GF (gp ! j) * x ^ (n - j)) = 0" using assms(3) by (simp add: hev_sum assms(1))
  then have "x ^ n + (\<Sum>j<n. GF (gp ! Suc j) * x ^ (n - Suc j)) = 0"
    by (simp add: sum.lessThan_Suc_shift assms(2) GF_1 del: sum.lessThan_Suc)
  then have "x ^ n = (\<Sum>j<n. GF (gp ! Suc j) * x ^ (n - Suc j))" by (simp only: gf_add_eq_0)
  also have "\<dots> = (\<Sum>j\<leftarrow>[1..<Suc n]. GF (gp ! j) * x ^ (n - j))"
    by (simp only: interv_sum_list_conv_sum_set_nat One_nat_def set_upt sum.shift_bounds_Suc_ivl atLeast0LessThan)
  finally show ?thesis by simp
qed

lemma hev_encode_step:
  assumes g: "length gp = Suc n" "gp ! 0 = 1" "hev (map GF gp) x = 0" and i: "i + n < length out"
  shows "hev (map GF (encode_step gp i out)) x = hev (map GF out) x + GF (out ! i) * x ^ (length out - 1 - i)"
proof (cases "out ! i = 0")
  case False
  let ?c = "out ! i" and ?L = "length out"
  have "hev (map GF (encode_step gp i out)) x = hev (map GF out) x +
      (\<Sum>j\<leftarrow>[1..<Suc n]. GF (gf_mul (gp ! j) ?c) * x ^ (?L - 1 - (i + j)))"
    using False i g(1) by (simp add: encode_step_updates hev_xor_at comp_def del: upt_Suc)
  also have "(\<Sum>j\<leftarrow>[1..<Suc n]. GF (gf_mul (gp ! j) ?c) * x ^ (?L - 1 - (i + j))) =
      (\<Sum>j\<leftarrow>[1..<Suc n]. GF ?c * x ^ (?L - 1 - i - n) * (GF (gp ! j) * x ^ (n - j)))"
  proof (intro arg_cong [where f = sum_list] map_cong refl)
    fix j assume "j \<in> set [1..<Suc n]"
    then have "?L - 1 - (i + j) = (?L - 1 - i - n) + (n - j)" using i by auto
    then show "GF (gf_mul (gp ! j) ?c) * x ^ (?L - 1 - (i + j)) = GF ?c * x ^ (?L - 1 - i - n) * (GF (gp ! j) * x ^ (n - j))"
      by (simp add: GF_mul power_add ac_simps)
  qed
  also have "\<dots> = GF ?c * x ^ (?L - 1 - i - n) * x ^ n"
    by (simp only: sum_list_const_mult hev_gp_tail [OF g])
  also have "\<dots> = GF ?c * x ^ (?L - 1 - i)"
  proof -
    have "?L - 1 - i = (?L - 1 - i - n) + n" using i by simp
    then show ?thesis by (metis mult.assoc power_add)
  qed
  finally show ?thesis .
qed (simp add: encode_step_updates GF_0)

lemma encode_loop:
  fixes out :: bytes
  assumes g: "length gp = Suc n" "gp ! 0 = 1" "hev (map GF gp) x = 0" and m: "m + n \<le> length out"
  defines "r \<equiv> fold (encode_step gp) [0..<m] out"
  shows "length r = length out"
    "hev (map GF r) x + (\<Sum>i<m. GF (r ! i) * x ^ (length out - 1 - i)) = hev (map GF out) x"
proof -
  have "length (fold (encode_step gp) [0..<k] out) = length out \<and>
    hev (map GF (fold (encode_step gp) [0..<k] out)) x +
      (\<Sum>i<k. GF (fold (encode_step gp) [0..<k] out ! i) * x ^ (length out - 1 - i)) = hev (map GF out) x"
    if "k \<le> m" for k
    using that
  proof (induction k)
    case (Suc k)
    define r where "r = fold (encode_step gp) [0..<k] out"
    have l: "length r = length out" and IH: "hev (map GF r) x + (\<Sum>i<k. GF (r ! i) * x ^ (length out - 1 - i)) = hev (map GF out) x"
      using Suc by (simp_all add: r_def)
    have s: "fold (encode_step gp) [0..<Suc k] out = encode_step gp k r" by (simp add: r_def)
    have "hev (map GF (encode_step gp k r)) x = hev (map GF r) x + GF (r ! k) * x ^ (length out - 1 - k)"
      using hev_encode_step [OF g, of k r] Suc.prems m l by simp
    moreover have "(\<Sum>i<Suc k. GF (encode_step gp k r ! i) * x ^ (length out - 1 - i)) =
        (\<Sum>i<k. GF (r ! i) * x ^ (length out - 1 - i)) + GF (r ! k) * x ^ (length out - 1 - k)"
      by (simp add: encode_step_before)
    ultimately show ?case unfolding s using l IH by (simp add: ac_simps)
  qed simp
  from this [of m] show "length r = length out"
    "hev (map GF r) x + (\<Sum>i<m. GF (r ! i) * x ^ (length out - 1 - i)) = hev (map GF out) x"
    by (simp_all add: r_def)
qed

lemma length_encode_block [simp]: "length (encode_block data nsym) = nsym"
proof -
  have "length (fold (encode_step gp) js out) = length out" for gp js and out :: bytes
    by (induction js arbitrary: out) auto
  then show ?thesis by (simp add: encode_block_def Let_def)
qed

text \<open>The block followed by its parity vanishes at the first \<open>nsym\<close> powers of the generator.\<close>

lemma encode_block_root:
  assumes "i < nsym"
  shows "hev (map GF (data @ encode_block data nsym)) (alpha ^ i) = 0"
proof -
  let ?x = "alpha ^ i" and ?k = "length data"
  let ?out = "data @ replicate nsym 0"
  define r where "r = fold (encode_step (gen_poly nsym)) [0..<?k] ?out"
  have o: "blit (replicate (?k + nsym) 0) 0 data = ?out" by (simp add: blit_def)
  have b: "encode_block data nsym = drop ?k r" by (simp add: encode_block_def o r_def Let_def)
  have l: "length r = ?k + nsym"
    and e: "hev (map GF r) ?x + (\<Sum>j<?k. GF (r ! j) * ?x ^ (?k + nsym - 1 - j)) = hev (map GF ?out) ?x"
    using encode_loop [OF length_gen_poly gen_poly_hd gen_poly_root [OF assms], of ?k ?out] by (simp_all add: r_def)
  have "hev (map GF r) ?x = hev (map GF (take ?k r)) ?x * ?x ^ nsym + hev (map GF (drop ?k r)) ?x"
    using hev_append [of "map GF (take ?k r)" "map GF (drop ?k r)" ?x] l by (simp flip: map_append)
  moreover have "hev (map GF (take ?k r)) ?x * ?x ^ nsym = (\<Sum>j<?k. GF (r ! j) * ?x ^ (?k + nsym - 1 - j))"
  proof -
    have "?x ^ (?k - 1 - j) * ?x ^ nsym = ?x ^ (?k + nsym - 1 - j)" if "j < ?k" for j
    proof -
      have "?k + nsym - 1 - j = (?k - 1 - j) + nsym" using that by simp
      then show ?thesis by (simp only: power_add)
    qed
    then show ?thesis using l by (simp add: hev_sum sum_distrib_right mult.assoc)
  qed
  moreover have "s + d + s = d" for s d :: gf using gf_add_self [of s] by (simp add: ac_simps)
  ultimately have "hev (map GF (drop ?k r)) ?x = hev (map GF ?out) ?x" using e by simp
  then show ?thesis by (simp add: b hev_append l GF_0 map_replicate_const)
qed

section \<open>Distance\<close>

text \<open>A sparse combination of distinct locators whose power sums vanish is zero.\<close>

lemma power_sums_zero:
  fixes c X :: "'a \<Rightarrow> gf"
  assumes "finite S" "inj_on X S" "\<And>i. i < card S \<Longrightarrow> (\<Sum>s\<in>S. c s * X s ^ i) = 0"
  shows "\<forall>s\<in>S. c s = 0"
  using assms
proof (induction S arbitrary: c rule: finite_induct)
  case (insert t S)
  define c' where "c' s = c s * (X s + X t)" for s
  have "(\<Sum>s\<in>S. c' s * X s ^ i) = 0" if "i < card S" for i
  proof -
    have "(\<Sum>s\<in>insert t S. c s * X s ^ Suc i) = 0" "(\<Sum>s\<in>insert t S. c s * X s ^ i) = 0"
      using insert.prems(2) [of "Suc i"] insert.prems(2) [of i] insert.hyps that by simp_all
    then have "(\<Sum>s\<in>insert t S. c s * X s ^ Suc i) + X t * (\<Sum>s\<in>insert t S. c s * X s ^ i) = 0" by simp
    also have "(\<Sum>s\<in>insert t S. c s * X s ^ Suc i) + X t * (\<Sum>s\<in>insert t S. c s * X s ^ i) =
        (\<Sum>s\<in>insert t S. c' s * X s ^ i)"
      by (simp only: sum_distrib_left sum.distrib [symmetric] c'_def) (simp add: algebra_simps)
    also have "\<dots> = (\<Sum>s\<in>S. c' s * X s ^ i)" using insert.hyps by (simp add: c'_def)
    finally show ?thesis .
  qed
  then have "\<forall>s\<in>S. c' s = 0" using insert.IH [of c'] insert.prems(1) by (simp add: inj_on_insert)
  moreover have "X s + X t \<noteq> 0" if "s \<in> S" for s
    using insert.prems(1) insert.hyps that by (auto simp: gf_add_eq_0 inj_on_def)
  ultimately have z: "\<forall>s\<in>S. c s = 0" by (auto simp: c'_def)
  then have "(\<Sum>s\<in>S. c s) = 0" by simp
  then have "c t = 0" using insert.prems(2) [of 0] insert.hyps by simp
  then show ?case using z by simp
qed simp

definition codeword :: "nat \<Rightarrow> bytes \<Rightarrow> bool" where
  "codeword nsym w \<longleftrightarrow> (\<forall>i < nsym. hev (map GF w) (alpha ^ i) = 0)"

definition hamming :: "bytes \<Rightarrow> bytes \<Rightarrow> nat" where
  "hamming v w = card {i. i < length v \<and> v ! i \<noteq> w ! i}"

lemma hamming_triangle:
  assumes "length u = length v" "length v = length w"
  shows "hamming u w \<le> hamming u v + hamming v w"
proof -
  have "{i. i < length u \<and> u ! i \<noteq> w ! i} \<subseteq> {i. i < length u \<and> u ! i \<noteq> v ! i} \<union> {i. i < length v \<and> v ! i \<noteq> w ! i}"
    using assms by auto
  then have "hamming u w \<le> card ({i. i < length u \<and> u ! i \<noteq> v ! i} \<union> {i. i < length v \<and> v ! i \<noteq> w ! i})"
    unfolding hamming_def by (intro card_mono) auto
  also have "\<dots> \<le> hamming u v + hamming v w" unfolding hamming_def by (rule card_Un_le)
  finally show ?thesis .
qed

lemma hamming_sym: "length v = length w \<Longrightarrow> hamming v w = hamming w v"
  unfolding hamming_def by (rule arg_cong [where f = card]) auto

lemma codeword_distance:
  assumes "codeword nsym v" "codeword nsym w" "length v = length w" "length v \<le> 255" "hamming v w \<le> nsym"
  shows "v = w"
proof -
  let ?S = "{i. i < length v \<and> v ! i \<noteq> w ! i}" and ?n = "length v"
  let ?c = "\<lambda>i. GF (v ! i) + GF (w ! i)" and ?X = "\<lambda>i. alpha ^ (?n - 1 - i)"
  have inj: "inj_on ?X ?S" using assms(4) by (auto simp: inj_on_def alpha_inject)
  have "(\<Sum>s\<in>?S. ?c s * ?X s ^ i) = 0" if "i < card ?S" for i
  proof -
    have "i < nsym" using that assms(5) by (simp add: hamming_def)
    then have "hev (map GF v) (alpha ^ i) + hev (map GF w) (alpha ^ i) = 0" using assms(1,2) by (simp add: codeword_def)
    then have "(\<Sum>s<?n. ?c s * (alpha ^ i) ^ (?n - 1 - s)) = 0"
      using assms(3) by (simp add: hev_sum sum.distrib [symmetric] algebra_simps)
    moreover have "(\<Sum>s<?n. ?c s * (alpha ^ i) ^ (?n - 1 - s)) = (\<Sum>s\<in>?S. ?c s * (alpha ^ i) ^ (?n - 1 - s))"
      by (rule sum.mono_neutral_right) auto
    ultimately show ?thesis by (simp add: power_mult [symmetric] mult.commute)
  qed
  then have "\<forall>s\<in>?S. ?c s = 0" by (intro power_sums_zero [OF _ inj]) simp_all
  then show ?thesis using assms(3) by (intro nth_equalityI) (auto simp: gf_add_eq_0)
qed

lemma encode_block_codeword: "codeword nsym (data @ encode_block data nsym)"
  using encode_block_root by (simp add: codeword_def)

section \<open>The decoder\<close>

lemma syndromes_nth:
  "length (syndromes w nsym) = nsym + 1 \<and> syndromes w nsym ! 0 = 0 \<and>
   (\<forall>i < nsym. syndromes w nsym ! (i + 1) = poly_eval w (gf_pow (int i)))"
proof -
  let ?s = "\<lambda>f m n. fold (\<lambda>i s. s[i + 1 := f i]) [0..<n] (replicate (m + 1) (0 :: u8))"
  have "length (?s f m n) = m + 1 \<and> ?s f m n ! 0 = 0 \<and> (\<forall>i < n. ?s f m n ! (i + 1) = f i)"
    if "n \<le> m" for f n m
    using that
  proof (induction n)
    case (Suc n)
    define s where "s = ?s f m n"
    have s: "?s f m (Suc n) = s[n + 1 := f n]" by (simp add: s_def)
    have "length s = m + 1" "s ! 0 = 0" "\<forall>i < n. s ! (i + 1) = f i" using Suc by (simp_all add: s_def)
    moreover from this have "s[n + 1 := f n] ! (n + 1) = f n" using Suc.prems by (intro nth_list_update_eq) simp
    ultimately show ?case unfolding s by (auto simp: less_Suc_eq)
  qed simp
  then show ?thesis unfolding syndromes_def by simp
qed

lemma syndromes_zero:
  assumes "w \<noteq> []"
  shows "list_all (\<lambda>s. s = 0) (syndromes w nsym) \<longleftrightarrow> codeword nsym w"
proof -
  have "(\<forall>i < nsym. poly_eval w (gf_pow (int i)) = 0) \<longleftrightarrow> codeword nsym w"
    using assms unfolding codeword_def
    by (simp add: gf_pow_nat GF_poly_eval flip: GF_inject' [of "poly_eval _ _"]) (simp add: GF_0)
  moreover have "list_all (\<lambda>s. s = 0) (syndromes w nsym) \<longleftrightarrow> (\<forall>i < nsym. syndromes w nsym ! (i + 1) = 0)"
    using syndromes_nth [of w nsym] by (auto simp: list_all_length less_Suc_eq_0_disj)
  ultimately show ?thesis using syndromes_nth [of w nsym] by auto
qed

lemma hamming_update: "hamming (w[k := x]) v \<le> Suc (hamming w v)" if "length v = length w"
proof -
  have "{i. i < length w \<and> w[k := x] ! i \<noteq> v ! i} \<subseteq> insert k {i. i < length w \<and> w ! i \<noteq> v ! i}" by (auto simp: nth_list_update)
  then have "card {i. i < length w \<and> w[k := x] ! i \<noteq> v ! i} \<le> card (insert k {i. i < length w \<and> w ! i \<noteq> v ! i})"
    by (intro card_mono) auto
  also have "\<dots> \<le> Suc (hamming w v)" unfolding hamming_def by (rule card_insert_le_m1) simp_all
  finally show ?thesis by (simp add: hamming_def)
qed

lemma hamming_self [simp]: "hamming v v = 0"
  by (simp add: hamming_def)

lemma correct_errata_near:
  "length (correct_errata msg synd pos) = length msg \<and> hamming (correct_errata msg synd pos) msg \<le> length pos"
proof -
  have f: "length (fold h us m) = length msg \<and> hamming (fold h us m) msg \<le> hamming m msg + length us"
    if "length m = length msg" "\<And>u m. \<exists>k x. h u m = m[k := x]" for us :: "(nat \<times> u8) list" and h and m :: bytes
  proof -
    note upd = that(2)
    from that(1) show ?thesis
  proof (induction us arbitrary: m)
    case (Cons u us)
    obtain k x where h: "h u m = m[k := x]" using upd by blast
    show ?case using Cons.IH [of "m[k := x]"] Cons.prems hamming_update [of msg m k x] by (simp add: h)
  qed simp
  qed
  have "\<exists>h. correct_errata msg synd pos = fold h (enumerate 0 (map (\<lambda>p. gf_pow (int p)) (map (\<lambda>p. length msg - 1 - p) pos))) msg
      \<and> (\<forall>u m. \<exists>k x. h u m = (m :: bytes)[k := x])"
    unfolding correct_errata_def Let_def case_prod_beta'
    by (intro exI conjI) (rule refl, auto)
  then obtain h where h: "correct_errata msg synd pos = fold h (enumerate 0 (map (\<lambda>p. gf_pow (int p)) (map (\<lambda>p. length msg - 1 - p) pos))) msg"
    "\<And>u m. \<exists>k x. h u m = (m :: bytes)[k := x]" by blast
  define us where "us = enumerate 0 (map (\<lambda>p. gf_pow (int p)) (map (\<lambda>p. length msg - 1 - p) pos))"
  have "length us = length pos" by (simp add: us_def)
  then show ?thesis unfolding h(1) us_def [symmetric] using f [of msg h us, OF refl h(2)] by simp
qed

lemma error_locator_bound: "error_locator synd nsym = Some l \<Longrightarrow> length l - 1 \<le> nsym div 2"
  by (auto simp: error_locator_def Let_def split: prod.splits if_splits)

lemma error_positions_length: "error_positions l n = Some pos \<Longrightarrow> length pos = length l - 1"
  by (auto simp: error_positions_def Let_def split: if_splits)

text \<open>What a successful decoding returns: the data of a codeword near the block read.\<close>

lemma decode_block_near:
  assumes "decode_block rd rp = Some d" "rd @ rp \<noteq> []"
  shows "\<exists>w. codeword (length rp) w \<and> length w = length rd + length rp \<and> hamming w (rd @ rp) \<le> length rp div 2 \<and>
    d = take (length rd) w"
proof -
  let ?m = "rd @ rp" and ?n = "length rp"
  let ?s = "syndromes ?m ?n"
  consider "codeword ?n ?m" "d = rd"
    | l pos where "error_locator ?s ?n = Some l" "error_positions l (length ?m) = Some pos"
        "list_all (\<lambda>s. s = 0) (syndromes (correct_errata ?m ?s pos) ?n)"
        "d = take (length rd) (correct_errata ?m ?s pos)"
  proof (cases "list_all (\<lambda>s. s = 0) ?s")
    case True
    then show ?thesis using that(1) assms syndromes_zero [OF assms(2)] by (simp add: decode_block_def Let_def)
  next
    case False
    have n: "\<not> list_ex (\<lambda>s. s \<noteq> 0) w \<longleftrightarrow> list_all (\<lambda>s. s = 0) w" for w :: bytes
      by (simp add: list_ex_iff list_all_iff)
    have "\<exists>l pos. error_locator ?s ?n = Some l \<and> error_positions l (length ?m) = Some pos \<and>
        list_all (\<lambda>s. s = 0) (syndromes (correct_errata ?m ?s pos) ?n) \<and> d = take (length rd) (correct_errata ?m ?s pos)"
      using assms(1) unfolding decode_block_def Let_def if_not_P [OF False]
      by (auto simp only: n split: option.splits if_splits)
    then show ?thesis using that(2) by blast
  qed
  then show ?thesis
  proof cases
    case 1
    then show ?thesis by (intro exI [of _ ?m]) simp
  next
    case (2 l pos)
    let ?w = "correct_errata ?m (syndromes ?m ?n) pos"
    have n: "length ?w = length ?m" "hamming ?w ?m \<le> length pos" using correct_errata_near by simp_all
    then have "codeword ?n ?w" using 2(3) syndromes_zero [of ?w] assms(2) by (metis length_0_conv)
    then show ?thesis using n 2 error_locator_bound [OF 2(1)] error_positions_length [OF 2(2)]
      by (intro exI [of _ ?w]) simp
  qed
qed

lemma decode_block_correct:
  assumes "decode_block rd rp = Some d" "length rd = length data" "length rp = nsym"
    "length data + nsym \<le> 255" "hamming (rd @ rp) (data @ encode_block data nsym) \<le> nsym div 2" "data @ rp \<noteq> []"
  shows "d = data"
proof -
  have "rd @ rp \<noteq> []" using assms(2,6) by auto
  then obtain w where w: "codeword nsym w" "length w = length rd + length rp" "hamming w (rd @ rp) \<le> nsym div 2"
    "d = take (length rd) w"
    using decode_block_near [OF assms(1)] assms(3) by blast
  have "hamming w (data @ encode_block data nsym) \<le> nsym"
    using hamming_triangle [of w "rd @ rp" "data @ encode_block data nsym"] w(2,3) assms(2,3,5) by simp
  then have "w = data @ encode_block data nsym"
    using w(1,2) assms(2-4) encode_block_codeword by (intro codeword_distance) simp_all
  then show ?thesis using w(4) assms(2) by simp
qed

lemma decode_block_clean: "data \<noteq> [] \<Longrightarrow> decode_block data (encode_block data nsym) = Some data"
  using syndromes_zero [of "data @ encode_block data nsym" nsym] encode_block_codeword
  by (simp add: decode_block_def Let_def)

section \<open>Pages\<close>

definition block_at :: "nat \<Rightarrow> nat \<Rightarrow> 'a list \<Rightarrow> 'a list" where
  "block_at k i xs = take k (drop (i * k) xs)"

lemma div_ceil_Suc: "0 < k \<Longrightarrow> 0 < n \<Longrightarrow> div_ceil n k = Suc (div_ceil (n - k) k)"
proof -
  assume a: "0 < k" "0 < n"
  show ?thesis
  proof (cases "k \<le> n")
    case True
    then have "n + k - 1 = (n - k + k - 1) + k" using a by simp
    then show ?thesis unfolding div_ceil_def by (metis a(1) div_add_self2 Suc_eq_plus1 less_numeral_extra(3))
  next
    case False
    then have "n + k - 1 = (n - 1) + k" "(n - 1) div k = 0" "(k - 1) div k = 0" "n - k = 0" using a by simp_all
    moreover have "((n - 1) + k) div k = Suc ((n - 1) div k)" using a(1) by (simp only: div_add_self2 Suc_eq_plus1)
    ultimately show ?thesis unfolding div_ceil_def by simp
  qed
qed

lemma chunks_of_blocks:
  "0 < k \<Longrightarrow> chunks_of k xs = map (\<lambda>i. block_at k i xs) [0..<div_ceil (length xs) k]"
proof (induction k xs rule: chunks_of.induct)
  case (1 k xs)
  show ?case
  proof (cases "xs = []")
    case False
    have d: "div_ceil (length xs) k = Suc (div_ceil (length (drop k xs)) k)"
      using 1(2) False by (simp add: div_ceil_Suc)
    have "chunks_of k xs = take k xs # chunks_of k (drop k xs)" using 1(2) False by (simp add: chunks_of.simps)
    also have "chunks_of k (drop k xs) = map (\<lambda>i. block_at k i (drop k xs)) [0..<div_ceil (length (drop k xs)) k]"
      using 1 False by simp
    also have "\<dots> = map (\<lambda>i. block_at k i xs) (map Suc [0..<div_ceil (length (drop k xs)) k])"
      by (simp add: block_at_def add.commute)
    finally show ?thesis unfolding d map_Suc_upt by (simp add: upt_conv_Cons block_at_def del: upt_Suc)
  next
    case True
    have "(k - 1) div k = 0" using 1(2) by simp
    then show ?thesis using True by (simp add: chunks_of.simps div_ceil_def)
  qed
qed

lemma concat_blocks: "0 < k \<Longrightarrow> concat (map (\<lambda>i. block_at k i xs) [0..<div_ceil (length xs) k]) = xs"
proof -
  have "0 < k \<Longrightarrow> concat (chunks_of k xs) = xs"
  proof (induction k xs rule: chunks_of.induct)
    case (1 k xs)
    then show ?case by (cases "xs = []") (simp_all add: chunks_of.simps [of k xs] chunks_of.simps [of k "[]"])
  qed
  then show "0 < k \<Longrightarrow> ?thesis" by (simp add: chunks_of_blocks)
qed

lemma block_at_concat:
  "(\<And>x. x \<in> set xs \<Longrightarrow> length (f x) = n) \<Longrightarrow> i < length xs \<Longrightarrow> block_at n i (concat (map f xs)) = f (xs ! i)"
proof (induction xs arbitrary: i)
  case (Cons x xs)
  then show ?case by (cases i) (auto simp: block_at_def)
qed simp

lemma length_concat_const: "(\<And>x. x \<in> set xs \<Longrightarrow> length (f x) = n) \<Longrightarrow> length (concat (map f xs)) = length xs * n"
  by (induction xs) auto

lemma parity_blocks:
  assumes "0 < nsym" "nsym < 255"
  defines "k \<equiv> data_per_block nsym"
  shows "length (parity data nsym) = parity_len (length data) nsym"
    "i < div_ceil (length data) k \<Longrightarrow> block_at nsym i (parity data nsym) = encode_block (block_at k i data) nsym"
proof -
  have k: "0 < k" using assms(2) by (simp add: k_def data_per_block_def BLOCK_def)
  have p: "parity data nsym = concat (map (\<lambda>i. encode_block (block_at k i data) nsym) [0..<div_ceil (length data) k])"
    using k by (simp add: parity_def chunks_of_blocks comp_def flip: k_def)
  show "length (parity data nsym) = parity_len (length data) nsym"
    unfolding p by (simp add: length_concat_const parity_len_def flip: k_def)
  show "i < div_ceil (length data) k \<Longrightarrow> block_at nsym i (parity data nsym) = encode_block (block_at k i data) nsym"
    unfolding p by (subst block_at_concat) simp_all
qed

lemma correct_blocks_Some:
  "correct_blocks nsym (map f [i..<n]) rp i = Some d \<Longrightarrow>
   (\<And>j x. i \<le> j \<Longrightarrow> j < n \<Longrightarrow> decode_block (f j) (block_at nsym j rp) = Some x \<Longrightarrow> x = g j) \<Longrightarrow>
   d = concat (map g [i..<n])"
proof (induction "n - i" arbitrary: i d)
  case (Suc m)
  then have u: "[i..<n] = i # [Suc i..<n]" by (simp add: upt_conv_Cons)
  obtain x d' where x: "decode_block (f i) (block_at nsym i rp) = Some x"
    "correct_blocks nsym (map f [Suc i..<n]) rp (Suc i) = Some d'" "d = x @ d'"
    using Suc.prems(1) unfolding u by (auto simp: block_at_def split: option.splits)
  have "d' = concat (map g [Suc i..<n])" using Suc.hyps(2) by (intro Suc.hyps(1) [OF _ x(2)] Suc.prems(2)) simp_all
  then show ?case using x(1,3) Suc.prems(2) [of i x] Suc.hyps(2) by (simp add: u)
qed simp

lemma correct_blocks_all:
  "(\<And>j. i \<le> j \<Longrightarrow> j < n \<Longrightarrow> decode_block (f j) (block_at nsym j rp) = Some (g j)) \<Longrightarrow>
   correct_blocks nsym (map f [i..<n]) rp i = Some (concat (map g [i..<n]))"
proof (induction "n - i" arbitrary: i)
  case (Suc m)
  then have u: "[i..<n] = i # [Suc i..<n]" by (simp add: upt_conv_Cons)
  have "correct_blocks nsym (map f [Suc i..<n]) rp (Suc i) = Some (concat (map g [Suc i..<n]))"
    using Suc.hyps(2) by (intro Suc.hyps(1) Suc.prems) simp_all
  then show ?case using Suc.prems [of i] Suc.hyps(2) by (simp add: u block_at_def)
qed simp

lemma block_at_ne: "0 < k \<Longrightarrow> i < div_ceil (length xs) k \<Longrightarrow> block_at k i xs \<noteq> []"
proof
  assume a: "0 < k" "i < div_ceil (length xs) k" "block_at k i xs = []"
  then have "length xs \<le> i * k" by (simp add: block_at_def)
  then have "length xs + k - 1 < Suc i * k" using a(1) by simp
  then have "(length xs + k - 1) div k < Suc i" using a(1) by (simp add: div_less_iff_less_mult)
  then show False using a(2) by (simp add: div_ceil_def)
qed

lemma length_block_at: "length (block_at k i xs) = min k (length xs - i * k)"
  by (simp add: block_at_def)

text \<open>A corrected page is the original one when every block is within the budget.\<close>

lemma correct_within_budget:
  assumes nsym: "0 < nsym" "nsym < 255"
    and len: "length rd = length data" "length rp = length (parity data nsym)"
    and near: "\<And>i. i < div_ceil (length data) (data_per_block nsym) \<Longrightarrow>
      hamming (block_at (data_per_block nsym) i rd @ block_at nsym i rp)
        (block_at (data_per_block nsym) i data @ block_at nsym i (parity data nsym)) \<le> nsym div 2"
    and c: "correct rd rp nsym = Some d"
  shows "d = data"
proof (cases "data = []")
  case True
  then show ?thesis using c len nsym by (auto simp: correct_def Let_def split: if_splits)
next
  case False
  let ?k = "data_per_block nsym"
  let ?n = "div_ceil (length data) ?k"
  have k: "0 < ?k" "?k + nsym = 255" using nsym by (simp_all add: data_per_block_def BLOCK_def)
  have c': "correct_blocks nsym (map (\<lambda>i. block_at ?k i rd) [0..<?n]) rp 0 = Some d"
    using c False len k by (auto simp: correct_def Let_def chunks_of_blocks split: if_splits)
  have "d = concat (map (\<lambda>i. block_at ?k i data) [0..<?n])"
  proof (rule correct_blocks_Some [OF c'])
    fix j x assume j: "j < ?n" and x: "decode_block (block_at ?k j rd) (block_at nsym j rp) = Some x"
    have lp: "length (block_at nsym j rp) = nsym"
      using parity_blocks(2) [OF nsym j] len(2) length_block_at [of nsym j rp] length_block_at [of nsym j "parity data nsym"]
      by simp
    show "x = block_at ?k j data"
      by (rule decode_block_correct [OF x _ lp])
        (use near [OF j] parity_blocks(2) [OF nsym j] len k block_at_ne [OF k(1) j] in \<open>simp_all add: length_block_at\<close>)
  qed
  then show ?thesis using concat_blocks [OF k(1)] by simp
qed

lemma correct_clean:
  assumes "0 < nsym" "nsym < 255"
  shows "correct data (parity data nsym) nsym = Some data"
proof (cases "data = []")
  case False
  let ?k = "data_per_block nsym"
  let ?n = "div_ceil (length data) ?k"
  have k: "0 < ?k" using assms by (simp add: data_per_block_def BLOCK_def)
  have n: "max ?n 1 = ?n" using div_ceil_Suc [OF k, of "length data"] False by simp
  have "correct_blocks nsym (map (\<lambda>i. block_at ?k i data) [0..<?n]) (parity data nsym) 0
      = Some (concat (map (\<lambda>i. block_at ?k i data) [0..<?n]))"
    by (rule correct_blocks_all) (simp add: parity_blocks(2) [OF assms] decode_block_clean block_at_ne [OF k])
  then show ?thesis
    using False k parity_blocks(1) [OF assms, of data] n concat_blocks [OF k, of data]
    by (simp add: correct_def Let_def chunks_of_blocks parity_len_def)
qed (simp add: correct_def parity_def chunks_of.simps)
end
