(* ===== verification/PagerLaws.thy ===== *)
theory PagerLaws
  imports Pager CompressLaws EccLaws
begin

text \<open>
  What the pager promises.  \<open>pager_rep pg bs\<close> relates its state and its file to the list \<open>bs\<close> of page bodies: the
  records of the pages stand one after the other from the first data page on, the directory locates them, and the
  cache holds no other page.  Appending a page extends the list, reading gives its element, and a sweep of the file
  finds the same directory, whatever torn record follows.
\<close>

section \<open>Bodies\<close>

definition comp_ok :: "compressor option \<Rightarrow> bool" where
  "comp_ok z \<longleftrightarrow> (\<forall>c. z = Some c \<longrightarrow> backend_ok c \<and> (\<forall>b. compress c b \<noteq> None) \<and>
     (method_tag c = METHOD_RAW \<longrightarrow> (\<forall>b. compress c b = Some None)))"

lemma trim_pad: "trim_trailing_zeros b @ replicate (length b - length (trim_trailing_zeros b)) 0 = b"
proof -
  have t: "takeWhile (\<lambda>x. x = 0) xs = replicate (length xs - length (dropWhile (\<lambda>x. x = 0) xs)) 0" for xs :: bytes
    by (induction xs) (auto simp: Suc_diff_le length_dropWhile_le)
  have "rev b = takeWhile (\<lambda>x. x = 0) (rev b) @ dropWhile (\<lambda>x. x = 0) (rev b)" by simp
  then have "b = rev (dropWhile (\<lambda>x. x = 0) (rev b)) @ rev (takeWhile (\<lambda>x. x = 0) (rev b))"
    by (metis rev_append rev_rev_ident)
  then show ?thesis using t [of "rev b"] by (simp add: trim_trailing_zeros_def)
qed

lemma length_trim: "length (trim_trailing_zeros b) \<le> length b"
  using length_dropWhile_le [of "\<lambda>x. x = 0" "rev b"] by (simp add: trim_trailing_zeros_def)

lemma decode_body_seal:
  assumes "comp_ok z" "body_to_seal z t = Some ts" "length t < 2 ^ 64"
  shows "decode_body z ts pid = Some (Inr t)"
proof (cases z)
  case (Some c)
  have ok: "backend_ok c" "method_tag c = METHOD_RAW \<Longrightarrow> compress c t = Some None"
    using assms(1) Some by (simp_all add: comp_ok_def)
  show ?thesis
  proof (cases "compress c t = Some None")
    case True
    then show ?thesis using assms(2) Some by (auto simp: body_to_seal_def decode_body_def)
  next
    case False
    then obtain d where d: "compress c t = Some (Some d)" using assms(2) Some by (auto simp: body_to_seal_def split: option.splits)
    then have "decompress c d = Some (Some t)" using ok(1) assms(3) unfolding backend_ok_def by blast
    then show ?thesis using assms(2) Some d ok(2) by (auto simp: body_to_seal_def decode_body_def)
  qed
qed (use assms in \<open>auto simp: body_to_seal_def decode_body_def\<close>)

section \<open>Records on disk\<close>

definition sealed :: "provider \<Rightarrow> compressor option \<Rightarrow> page_id \<Rightarrow> bytes \<Rightarrow> bytes \<Rightarrow> bool" where
  "sealed c z pid b stored \<longleftrightarrow> (\<exists>ts n. body_to_seal z (trim_trailing_zeros b) = Some ts \<and>
     stored = seal_bytes c ts pid n \<and> length stored < 2 ^ 32)"

fun on_disk :: "nat \<Rightarrow> provider \<Rightarrow> compressor option \<Rightarrow> bytes \<Rightarrow> nat \<Rightarrow> page_id \<Rightarrow> bytes list \<Rightarrow> phys_loc list \<Rightarrow> nat \<Rightarrow> bool" where
  "on_disk k c z f off pid [] [] e \<longleftrightarrow> e = off"
| "on_disk k c z f off pid (b # bs) (l # ls) e \<longleftrightarrow>
     (\<exists>stored. sealed c z pid b stored \<and> at_pos f off (framed_record k stored) \<and>
        l = \<lparr>pl_offset = off + LEN_PREFIX_LEN, pl_len = of_nat (length stored)\<rparr> \<and>
        on_disk k c z f (off + length (framed_record k stored)) (pid + 1) bs ls e)"
| "on_disk k c z f off pid _ _ e \<longleftrightarrow> False"

definition page_of :: "bytes \<Rightarrow> page_buf" where
  "page_of b = take CRYPTO_RESERVE page_zeroed @ b"

definition pages_map :: "bytes list \<Rightarrow> page_id \<rightharpoonup> page_buf" where
  "pages_map bs pid =
     (if FIRST_DATA_PAGE \<le> pid \<and> unat pid - 3 < length bs then Some (page_of (bs ! (unat pid - 3))) else None)"

text \<open>
  The cache may also hold pages behind the last one (what opening read of a commit it then did not take over): they
  are out of range until a new page takes their place.
\<close>

definition cache_for :: "sharded_cache \<Rightarrow> bytes list \<Rightarrow> bool" where
  "cache_for c bs \<longleftrightarrow> sc_ok c \<and> (\<exists>old. cache.agrees c (old ++ pages_map bs))"

definition pager_rep :: "pager \<Rightarrow> bytes list \<Rightarrow> bool" where
  "pager_rep pg bs \<longleftrightarrow>
     crypto_provider (pg_crypto pg) \<and> comp_ok (pg_compressor pg) \<and> ecc_nsym pg < 255 \<and>
     length bs < 2 ^ 62 \<and> (\<forall>b \<in> set bs. length b = BODY_SIZE) \<and>
     on_disk (ecc_nsym pg) (pg_crypto pg) (pg_compressor pg) (df_bytes (pg_file pg)) 12288 FIRST_DATA_PAGE bs
       (as_dir (pg_state pg)) (as_write_offset (pg_state pg)) \<and>
     12288 \<le> length (df_bytes (pg_file pg)) \<and>
     as_next_page (pg_state pg) = FIRST_DATA_PAGE + of_nat (length bs) \<and>
     cache_for (pg_cache pg) bs"

lemma on_disk_length: "on_disk k c z f off pid bs ls e \<Longrightarrow> length ls = length bs"
  by (induction k c z f off pid bs ls e rule: on_disk.induct) auto

lemma on_disk_le: "on_disk k c z f off pid bs ls e \<Longrightarrow> off \<le> length f \<Longrightarrow> off \<le> e \<and> e \<le> length f"
proof (induction k c z f off pid bs ls e rule: on_disk.induct)
  case (2 k c z f off pid b bs l ls e)
  then obtain st where s: "at_pos f off (framed_record k st)" "on_disk k c z f (off + length (framed_record k st)) (pid + 1) bs ls e"
    by auto
  have "off + length (framed_record k st) \<le> length f" using s(1) by (rule at_pos_le)
  then show ?case using 2(1) s(2) by fastforce
qed auto

lemma on_disk_append:
  "on_disk k c z f off pid (bs @ [b]) (ls @ [l]) e \<longleftrightarrow>
     (\<exists>m. on_disk k c z f off pid bs ls m \<and> on_disk k c z f m (pid + of_nat (length bs)) [b] [l] e)"
  if "length bs = length ls"
  using that
proof (induction bs ls arbitrary: off pid rule: list_induct2)
  case (Cons x xs y ys)
  then show ?case by (simp del: on_disk.simps(1)) (auto simp: algebra_simps)
qed auto

text \<open>A write at or after the end of the records leaves them.\<close>

lemma on_disk_frame:
  "on_disk k c z f off pid bs ls e \<Longrightarrow> off \<le> length f \<Longrightarrow> (\<And>p t. p + length t \<le> e \<Longrightarrow> at_pos f p t \<Longrightarrow> at_pos g p t) \<Longrightarrow>
   on_disk k c z g off pid bs ls e"
proof (induction k c z f off pid bs ls e rule: on_disk.induct)
  case (2 k c z f off pid b bs l ls e)
  then obtain st where s: "sealed c z pid b st" "at_pos f off (framed_record k st)"
    "l = \<lparr>pl_offset = off + LEN_PREFIX_LEN, pl_len = of_nat (length st)\<rparr>"
    "on_disk k c z f (off + length (framed_record k st)) (pid + 1) bs ls e"
    by auto
  have le: "off + length (framed_record k st) \<le> length f" using s(2) by (rule at_pos_le)
  then have "off + length (framed_record k st) \<le> e" using on_disk_le [OF s(4)] by simp
  then show ?case using 2(1) [OF s(4) le 2(4)] 2(4) [OF _ s(2)] s by auto
qed auto

lemma overwrite_end: "length f \<le> off + length d \<Longrightarrow> off \<le> length f \<Longrightarrow> overwrite f off d = take off f @ d"
  by (simp add: overwrite_def)

lemma overwrite_at:
  assumes "off \<le> length f"
  shows "at_pos (overwrite f off d) off d" "p + length t \<le> off \<Longrightarrow> at_pos f p t \<Longrightarrow> at_pos (overwrite f off d) p t"
    "length f \<le> length (overwrite f off d)"
proof -
  have o: "overwrite f off d = take off f @ d @ drop (off + length d) f" using assms by (simp add: overwrite_def)
  show "at_pos (overwrite f off d) off d"
    unfolding o using at_posI [of "take off f" d "drop (off + length d) f"] assms by simp
  show "length f \<le> length (overwrite f off d)" unfolding o using assms by simp
  assume a: "p + length t \<le> off" "at_pos f p t"
  have "take (length t) (drop p (take off f @ d @ drop (off + length d) f)) = take (length t) (drop p f)"
    using a(1) assms by (auto simp: drop_append take_append drop_take)
  then show "at_pos (overwrite f off d) p t" unfolding o using a assms by (simp add: at_pos_def)
qed

lemma on_disk_nth:
  "on_disk k c z f off pid bs ls e \<Longrightarrow> i < length bs \<Longrightarrow>
   \<exists>st o'. sealed c z (pid + of_nat i) (bs ! i) st \<and> at_pos f o' (framed_record k st) \<and>
     ls ! i = \<lparr>pl_offset = o' + LEN_PREFIX_LEN, pl_len = of_nat (length st)\<rparr>"
proof (induction k c z f off pid bs ls e arbitrary: i rule: on_disk.induct)
  case (2 k c z f off pid b bs l ls e)
  show ?case
  proof (cases i)
    case 0
    then show ?thesis using 2(2) by auto
  next
    case (Suc j)
    obtain st where "on_disk k c z f (off + length (framed_record k st)) (pid + 1) bs ls e" using 2(2) by auto
    moreover have "j < length bs" using 2(3) Suc by simp
    ultimately have "\<exists>st o'. sealed c z (pid + 1 + of_nat j) (bs ! j) st \<and> at_pos f o' (framed_record k st) \<and>
        ls ! j = \<lparr>pl_offset = o' + LEN_PREFIX_LEN, pl_len = of_nat (length st)\<rparr>" by (rule 2(1))
    then show ?thesis using Suc by (simp add: add.assoc)
  qed
qed auto

section \<open>The steps of an append\<close>

lemma body_to_seal_total:
  assumes "comp_ok z" "length b \<le> BODY_SIZE"
  shows "\<exists>ts. body_to_seal z (trim_trailing_zeros b) = Some ts \<and> length ts \<le> BODY_SIZE + 1"
proof -
  have l: "length (trim_trailing_zeros b) \<le> BODY_SIZE" using length_trim [of b] assms(2) by simp
  show ?thesis
  proof (cases z)
    case (Some c)
    have ok: "backend_ok c" "compress c (trim_trailing_zeros b) \<noteq> None" using assms(1) Some by (simp_all add: comp_ok_def)
    have "length d < length (trim_trailing_zeros b)" if "compress c (trim_trailing_zeros b) = Some (Some d)" for d
      using ok(1) that l unfolding backend_ok_def by (simp add: size_consts)
    then show ?thesis using ok(2) Some l by (auto simp: body_to_seal_def split: option.splits)
  qed (use l in \<open>simp add: body_to_seal_def\<close>)
qed

lemma sealed_seal:
  assumes "crypto_provider c" "body_to_seal z (trim_trailing_zeros b) = Some ts" "length ts \<le> BODY_SIZE + 1"
  shows "sealed c z pid b (seal_bytes c ts pid n)"
  using assms crypto_provider.length_seal [OF assms(1), of ts pid n]
  unfolding sealed_def by (intro exI [of _ ts] exI [of _ n]) (simp add: size_consts)

lemma file_write_ok: "df_budget (pg_file pg) = None \<Longrightarrow>
  file_write d off pg = Some (Inr (), pg\<lparr>pg_file := (pg_file pg)\<lparr>df_bytes := overwrite (df_bytes (pg_file pg)) off d\<rparr>\<rparr>)"
  by (simp add: file_write_def write_all_at_def)

lemma cache_insert_ok:
  assumes "sc_ok (pg_cache pg)"
  shows "\<exists>c'. cache_insert pid page pg = Some (Inr (), pg\<lparr>pg_cache := c'\<rparr>) \<and> sc_ok c' \<and>
    (\<forall>m. cache.agrees (pg_cache pg) m \<longrightarrow> cache.agrees c' (m(pid \<mapsto> page)))"
proof -
  obtain c' where c: "sc_insert pid page (pg_cache pg) = Some c'" using cache.insert_returns [OF assms] by blast
  show ?thesis using cache.insert_view [OF assms c] cache.agrees_insert [OF assms _ c] c
    by (intro exI [of _ c']) (simp add: cache_insert_def)
qed

lemma unat_first_plus: "n < 2 ^ 62 \<Longrightarrow> unat (FIRST_DATA_PAGE + of_nat n) = n + 3"
proof -
  assume "n < 2 ^ 62"
  then have "unat (of_nat (n + 3) :: u64) = n + 3" by (intro unat_of_nat_u64) simp
  then show ?thesis by (simp add: FIRST_DATA_PAGE_def add.commute)
qed

lemma first_le_plus: "n < 2 ^ 62 \<Longrightarrow> FIRST_DATA_PAGE \<le> FIRST_DATA_PAGE + of_nat n"
  using unat_first_plus [of n] by (simp add: word_le_nat_alt FIRST_DATA_PAGE_def)

lemma pages_map_nth: "i < length bs \<Longrightarrow> length bs < 2 ^ 62 \<Longrightarrow> pages_map bs (FIRST_DATA_PAGE + of_nat i) = Some (page_of (bs ! i))"
  using unat_first_plus [of i] first_le_plus [of i] by (simp add: pages_map_def)

lemma pages_map_snoc:
  assumes "length bs < 2 ^ 62"
  shows "pages_map (bs @ [b]) = (pages_map bs)(FIRST_DATA_PAGE + of_nat (length bs) \<mapsto> page_of b)"
proof
  fix q
  let ?p = "FIRST_DATA_PAGE + of_nat (length bs)"
  have p: "unat ?p = length bs + 3" using unat_first_plus [OF assms] .
  show "pages_map (bs @ [b]) q = ((pages_map bs)(?p \<mapsto> page_of b)) q"
  proof (cases "q = ?p")
    case True
    then show ?thesis using p first_le_plus [OF assms] by (simp add: pages_map_def)
  next
    case False
    have "unat q - 3 \<noteq> length bs" if "FIRST_DATA_PAGE \<le> q"
    proof
      assume "unat q - 3 = length bs"
      then have "unat q = unat ?p" using that p by (simp add: word_le_nat_alt FIRST_DATA_PAGE_def)
      then show False using False by (simp add: word_unat_eq_iff)
    qed
    then show ?thesis using False by (auto simp: pages_map_def nth_append)
  qed
qed

lemma cache_for_insert:
  assumes "cache_for (pg_cache pg) bs" "length bs < 2 ^ 62"
  shows "\<exists>c'. cache_insert (FIRST_DATA_PAGE + of_nat (length bs)) (page_of b) pg = Some (Inr (), pg\<lparr>pg_cache := c'\<rparr>) \<and>
    cache_for c' (bs @ [b])"
proof -
  obtain old where o: "sc_ok (pg_cache pg)" "cache.agrees (pg_cache pg) (old ++ pages_map bs)"
    using assms(1) unfolding cache_for_def by blast
  obtain c' where c': "cache_insert (FIRST_DATA_PAGE + of_nat (length bs)) (page_of b) pg = Some (Inr (), pg\<lparr>pg_cache := c'\<rparr>)"
    "sc_ok c'" "cache.agrees c' ((old ++ pages_map bs)(FIRST_DATA_PAGE + of_nat (length bs) \<mapsto> page_of b))"
    using cache_insert_ok [OF o(1)] o(2) by blast
  then show ?thesis unfolding cache_for_def pages_map_snoc [OF assms(2)] by (simp add: map_add_upd) blast
qed

text \<open>Writing one more record, with its directory entry, extends what is on disk.\<close>

lemma on_disk_write:
  assumes d: "on_disk k c z f off pid bs ls e" "off \<le> length f"
    and s: "sealed c z (pid + of_nat (length bs)) b st"
  defines "r \<equiv> framed_record k st"
  shows "on_disk k c z (overwrite f e r) off pid (bs @ [b]) (ls @ [\<lparr>pl_offset = e + LEN_PREFIX_LEN, pl_len = of_nat (length st)\<rparr>])
    (e + length r)" "length f \<le> length (overwrite f e r)"
proof -
  have e: "e \<le> length f" using on_disk_le [OF d] by simp
  have "on_disk k c z (overwrite f e r) off pid bs ls e"
    by (rule on_disk_frame [OF d]) (rule overwrite_at(2) [OF e])
  then show "on_disk k c z (overwrite f e r) off pid (bs @ [b]) (ls @ [\<lparr>pl_offset = e + LEN_PREFIX_LEN, pl_len = of_nat (length st)\<rparr>])
      (e + length r)"
    using s overwrite_at(1) [OF e, of r] on_disk_length [OF d(1)] by (subst on_disk_append) (auto simp: r_def)
  show "length f \<le> length (overwrite f e r)" by (rule overwrite_at(3) [OF e])
qed

lemma append_page_spec:
  assumes rep: "pager_rep pg bs" and b: "length (build (page_body page_zeroed)) = BODY_SIZE"
    and n: "length bs + 1 < 2 ^ 62" and disk: "df_budget (pg_file pg) = None"
  shows "\<exists>pg'. append_page build pg = Some (Inr (FIRST_DATA_PAGE + of_nat (length bs)), pg') \<and>
    pager_rep pg' (bs @ [build (page_body page_zeroed)]) \<and> df_budget (pg_file pg') = None \<and>
    as_nonce_counter (pg_state pg') = as_nonce_counter (pg_state pg) + 1"
proof -
  let ?b = "build (page_body page_zeroed)" and ?s = "pg_state pg" and ?k = "ecc_nsym pg"
    and ?c = "pg_crypto pg" and ?z = "pg_compressor pg" and ?f = "df_bytes (pg_file pg)"
  note R = rep [unfolded pager_rep_def]
  have pid: "as_next_page ?s = FIRST_DATA_PAGE + of_nat (length bs)" using R by blast
  obtain ts where ts: "body_to_seal ?z (trim_trailing_zeros ?b) = Some ts" "length ts \<le> BODY_SIZE + 1"
    using body_to_seal_total [of ?z ?b] R b by auto
  define st where "st = seal_bytes ?c ts (as_next_page ?s) (as_nonce_counter ?s)"
  have sealed: "sealed ?c ?z (FIRST_DATA_PAGE + of_nat (length bs)) ?b st"
    unfolding st_def pid using R ts by (intro sealed_seal) simp_all
  let ?r = "framed_record ?k st"
  let ?dir = "as_dir ?s @ [\<lparr>pl_offset = as_write_offset ?s + LEN_PREFIX_LEN, pl_len = of_nat (length st)\<rparr>]"
  have d: "on_disk ?k ?c ?z ?f 12288 FIRST_DATA_PAGE bs (as_dir ?s) (as_write_offset ?s)" "12288 \<le> length ?f"
    using R by blast+
  note w = on_disk_write [OF d sealed]
  define pg1 where "pg1 = pg\<lparr>pg_file := (pg_file pg)\<lparr>df_bytes := overwrite ?f (as_write_offset ?s) ?r\<rparr>\<rparr>"
  define s' where "s' = \<lparr>as_next_page = as_next_page ?s + 1, as_nonce_counter = as_nonce_counter ?s + 1,
    as_write_offset = as_write_offset ?s + length ?r, as_dir = ?dir\<rparr>"
  have fw: "file_write ?r (as_write_offset ?s) pg = Some (Inr (), pg1)"
    using disk by (simp add: file_write_ok pg1_def)
  have "cache_for (pg_cache (put_state s' pg1)) bs" using R by (simp add: put_state_def pg1_def)
  then obtain c' where c': "cache_insert (as_next_page ?s) (page_of ?b) (put_state s' pg1) = Some (Inr (), put_state s' pg1\<lparr>pg_cache := c'\<rparr>)"
    "cache_for c' (bs @ [?b])"
    using cache_for_insert [of "put_state s' pg1" bs ?b] R unfolding pid by blast
  let ?pg = "put_state s' pg1\<lparr>pg_cache := c'\<rparr>"
  have "append_page build pg = Some (Inr (FIRST_DATA_PAGE + of_nat (length bs)), ?pg)"
    using fw c'(1) ts(1) unfolding append_page_def Let_def page_of_def [symmetric] st_def [symmetric] s'_def [symmetric]
    by (simp add: st_def [symmetric] s'_def [symmetric] pid [symmetric])
  moreover have "pager_rep ?pg (bs @ [?b])"
    using R n b w c'(2) unfolding pager_rep_def by (simp add: put_state_def pg1_def s'_def add.assoc)
  ultimately show ?thesis using disk by (simp add: put_state_def pg1_def s'_def)
qed

section \<open>Reading\<close>

lemma read_at_pos: "at_pos (df_bytes f) off s \<Longrightarrow> length s = n \<Longrightarrow> read_exact_at f n off = Inr s"
  using at_pos_range by (fastforce simp: read_exact_at_def)

lemma framed_record_at:
  assumes "at_pos f o' (framed_record k st)"
  shows "at_pos f o' (u32_le (of_nat (length st)))" "at_pos f (o' + LEN_PREFIX_LEN) st"
    "k > 0 \<Longrightarrow> at_pos f (o' + LEN_PREFIX_LEN + length st) (parity st k)"
proof -
  let ?p = "u32_le (of_nat (length st))" and ?q = "if k > 0 then parity st k else []"
  have "at_pos f o' (?p @ st @ ?q)" using assms by (simp add: framed_record_def frame_def)
  then have a: "at_pos f o' ?p" "at_pos f (o' + length ?p) (st @ ?q)" using at_pos_append by blast+
  show "at_pos f o' ?p" by (rule a(1))
  have "at_pos f (o' + length ?p) st" "at_pos f (o' + length ?p + length st) ?q" using a(2) at_pos_append by blast+
  then show "at_pos f (o' + LEN_PREFIX_LEN) st" "k > 0 \<Longrightarrow> at_pos f (o' + LEN_PREFIX_LEN + length st) (parity st k)"
    by (simp_all add: LEN_PREFIX_LEN_def)
qed

lemma unat_of_nat_u32: "n < 2 ^ 32 \<Longrightarrow> unat (of_nat n :: u32) = n"
  by (simp add: unat_of_nat take_bit_nat_eq_self)

lemma blit_pad: "length t \<le> BODY_SIZE \<Longrightarrow> blit (page_body page_zeroed) 0 t = t @ replicate (BODY_SIZE - length t) 0"
  by (simp add: blit_def page_body_def page_zeroed_def size_consts)

lemma read_page_spec:
  assumes rep: "pager_rep pg bs" and i: "i < length bs"
  shows "\<exists>c. read_page (FIRST_DATA_PAGE + of_nat i) pg = Some (Inr (page_of (bs ! i)), pg\<lparr>pg_cache := c\<rparr>) \<and>
    pager_rep (pg\<lparr>pg_cache := c\<rparr>) bs"
proof -
  let ?pid = "FIRST_DATA_PAGE + of_nat i" and ?s = "pg_state pg" and ?k = "ecc_nsym pg"
    and ?c = "pg_crypto pg" and ?z = "pg_compressor pg" and ?f = "df_bytes (pg_file pg)"
  note R = rep [unfolded pager_rep_def]
  have sz: "length bs < 2 ^ 62" "i < 2 ^ 62" using R i by auto
  have next_pid: "\<not> as_next_page ?s \<le> ?pid"
    using R i unat_first_plus [OF sz(1)] unat_first_plus [OF sz(2)] by (simp add: word_le_nat_alt)
  have len: "length (as_dir ?s) = length bs" using R on_disk_length by blast
  have idx: "unat (?pid - FIRST_DATA_PAGE) = i" using sz(2) by (simp add: unat_of_nat_u64)
  have loc: "as_loc ?s ?pid = Some (as_dir ?s ! i)"
    using first_le_plus [OF sz(2)] idx i len by (simp add: as_loc_def Let_def not_le [symmetric])
  obtain hit c where g: "sc_get (pg_cache pg) ?pid = (hit, c)" by (cases "sc_get (pg_cache pg) ?pid")
  obtain old where ok: "sc_ok (pg_cache pg)" "cache.agrees (pg_cache pg) (old ++ pages_map bs)"
    using R unfolding cache_for_def by blast
  have here: "(old ++ pages_map bs) ?pid = Some (page_of (bs ! i))" using pages_map_nth [OF i sz(1)] by simp
  have c: "sc_ok c" "cache.agrees c (old ++ pages_map bs)"
    using cache.get_keeps [OF ok(1), of ?pid] cache.agrees_get [OF ok, of ?pid] g by simp_all
  have rep1: "pager_rep (pg\<lparr>pg_cache := c'\<rparr>) bs" if "sc_ok c'" "cache.agrees c' (old ++ pages_map bs)" for c'
    using R that unfolding pager_rep_def cache_for_def by auto
  show ?thesis
  proof (cases hit)
    case (Some p)
    then have "p = page_of (bs ! i)"
      using cache.agrees_hit [OF ok, of ?pid p] g here by simp
    then show ?thesis using next_pid loc g Some rep1 [OF c] by (intro exI [of _ c]) (simp add: read_page_def)
  next
    case None
    obtain st o' where d: "sealed ?c ?z ?pid (bs ! i) st" "at_pos ?f o' (framed_record ?k st)"
      "as_dir ?s ! i = \<lparr>pl_offset = o' + LEN_PREFIX_LEN, pl_len = of_nat (length st)\<rparr>"
      using on_disk_nth [of ?k ?c ?z ?f 12288 FIRST_DATA_PAGE bs "as_dir ?s" "as_write_offset ?s" i] R i by blast
    obtain ts n where ts: "body_to_seal ?z (trim_trailing_zeros (bs ! i)) = Some ts" "st = seal_bytes ?c ts ?pid n" "length st < 2 ^ 32"
      using d(1) by (auto simp: sealed_def)
    let ?pg = "pg\<lparr>pg_cache := c\<rparr>"
    have rd: "read_exact_at (pg_file pg) (unat (pl_len (as_dir ?s ! i))) (pl_offset (as_dir ?s ! i)) = Inr st"
      using framed_record_at(2) [OF d(2)] by (simp add: d(3) unat_of_nat_u32 [OF ts(3)] read_at_pos)
    have op: "open_with_ecc ?pg st ?pid (as_dir ?s ! i) = Inr ts"
      using R crypto_provider.open_seal [of ?c ts ?pid n] by (simp add: open_with_ecc_def ts(2))
    have bl: "length (bs ! i) = BODY_SIZE" using R i by simp
    then have tl: "length (trim_trailing_zeros (bs ! i)) \<le> BODY_SIZE" using length_trim [of "bs ! i"] by simp
    have de: "decode_body ?z ts ?pid = Some (Inr (trim_trailing_zeros (bs ! i)))"
      using R ts(1) tl by (intro decode_body_seal) (simp_all add: size_consts)
    have pg': "take CRYPTO_RESERVE page_zeroed @ blit (page_body page_zeroed) 0 (trim_trailing_zeros (bs ! i)) = page_of (bs ! i)"
      using blit_pad [OF tl] trim_pad [of "bs ! i"] by (simp add: page_of_def bl)
    obtain c' where c': "cache_insert ?pid (page_of (bs ! i)) ?pg = Some (Inr (), ?pg\<lparr>pg_cache := c'\<rparr>)"
      "sc_ok c'" "cache.agrees c' ((old ++ pages_map bs)(?pid \<mapsto> page_of (bs ! i)))"
      using cache_insert_ok [of ?pg ?pid "page_of (bs ! i)"] c by auto
    have "(old ++ pages_map bs)(?pid \<mapsto> page_of (bs ! i)) = old ++ pages_map bs" using here by (simp add: fun_upd_idem)
    then show ?thesis using next_pid loc g None rd op de tl pg' c' rep1 [of c']
      by (intro exI [of _ c']) (simp add: read_page_def)
  qed
qed

lemma read_page_out_of_range:
  "as_next_page (pg_state pg) \<le> pid \<Longrightarrow> read_page pid pg = Some (Inl (Corrupt pid ''pagina fuera de rango''), pg)"
  by (simp add: read_page_def)

end
