(* ===== verification/RangeCoder.thy ===== *)
theory RangeCoder
  imports CompressLaws
begin

text \<open>
  The range coder: its renormalisation always ends, its arithmetic never wraps, and the decoder inverts the encoder.
  \<open>rc_inv low rng\<close>: the interval from \<open>low\<close> of width \<open>rng\<close> is not empty and ends at \<open>2 ^ 32\<close> at most, and there only
  when it is short.  \<open>norm_run\<close> is one renormalisation with the bytes it shifts out; coder and decoder follow it alike.
\<close>

section \<open>Renormalisation\<close>

definition rc_inv :: "u32 \<Rightarrow> u32 \<Rightarrow> bool" where
  "rc_inv low rng \<longleftrightarrow> 0 < unat rng \<and> unat low + unat rng \<le> 2 ^ 32 \<and> (unat low + unat rng = 2 ^ 32 \<longrightarrow> unat rng < 2 ^ 24)"

inductive norm_run :: "u32 \<Rightarrow> u32 \<Rightarrow> bytes \<Rightarrow> u32 \<Rightarrow> u32 \<Rightarrow> bool" where
  stop: "rc_more low rng = None \<Longrightarrow> norm_run low rng [] low rng"
| shift: "rc_more low rng = Some r \<Longrightarrow> norm_run (push_bit 8 low) (push_bit 8 r) E l g \<Longrightarrow>
    norm_run low rng (ucast (drop_bit 24 low) # E) l g"

lemma xor_top: "(low XOR x) < RC_TOP \<longleftrightarrow> unat low div 2 ^ 24 = unat x div 2 ^ 24" for low x :: u32
proof -
  have "(low XOR x) < RC_TOP \<longleftrightarrow> unat (low XOR x) div 2 ^ 24 = 0"
    by (auto simp: word_less_nat_alt RC_TOP_def)
  also have "\<dots> \<longleftrightarrow> drop_bit 24 (low XOR x) = 0"
    by (simp only: word_unat_eq_iff unat_0 unat_drop_bit_eq) (simp add: drop_bit_eq_div)
  also have "\<dots> \<longleftrightarrow> drop_bit 24 low = drop_bit 24 x" by (auto simp: drop_bit_xor bit_eq_iff bit_xor_iff)
  finally show ?thesis by (simp add: word_unat_eq_iff unat_drop_bit_eq drop_bit_eq_div unat_div_distrib)
qed

lemma unat_add_wrap: "unat (a + b) = (unat a + unat b) mod 2 ^ 32" for a b :: u32
  by (simp add: unat_word_ariths)

lemma unat_neg_and: "unat ((- low) AND (RC_BOT - 1)) = (2 ^ 32 - unat low) mod 2 ^ 16" for low :: u32
proof -
  have "(- low) AND (RC_BOT - 1) = take_bit 16 (- low)" by (simp add: RC_BOT_def take_bit_eq_mask mask_eq_exp_minus_1)
  moreover have "unat (- low) mod 2 ^ 16 = (2 ^ 32 - unat low) mod 2 ^ 16"
  proof -
    have "(unat (- low) + unat low) mod 2 ^ 32 = unat (- low + low)" by (simp only: unat_add_wrap)
    then have "unat (- low) + unat low = 0 \<or> unat (- low) + unat low = 2 ^ 32"
      using unat_u32_less [of low] unat_u32_less [of "- low"]
      by (cases "unat (- low) + unat low < 2 ^ 32") (auto simp: le_mod_geq)
    then have "unat (- low) = 2 ^ 32 - unat low \<or> unat low = 0 \<and> unat (- low) = 0" by auto
    then show ?thesis by auto
  qed
  ultimately show ?thesis by (simp add: take_bit_eq_mod unat_mod_distrib)
qed

lemma rc_more_None: "rc_more low rng = None \<Longrightarrow> 2 ^ 16 \<le> unat rng"
  by (auto simp: rc_more_def RC_BOT_def word_less_nat_alt split: if_splits)

lemma rc_more_Some:
  assumes inv: "rc_inv low rng" and m: "rc_more low rng = Some r"
  shows "0 < unat r" "unat r \<le> unat rng" "unat low mod 2 ^ 24 + unat r \<le> 2 ^ 24"
    "unat low mod 2 ^ 24 + unat r = 2 ^ 24 \<longrightarrow> unat r < 2 ^ 16"
    "unat low mod 2 ^ 24 + unat r = 2 ^ 24 \<or> unat low + unat rng < 2 ^ 32 \<and> r = rng"
    "unat low + unat rng = 2 ^ 32 \<longrightarrow> r = rng"
proof -
  let ?l = "unat low" and ?g = "unat rng"
  have sum: "0 < ?g" "?l + ?g \<le> 2 ^ 32" "?l + ?g = 2 ^ 32 \<longrightarrow> ?g < 2 ^ 24" using inv by (simp_all add: rc_inv_def)
  have dm: "?l = 2 ^ 24 * (?l div 2 ^ 24) + ?l mod 2 ^ 24" by simp
  have ld: "?l div 2 ^ 24 < 256" using unat_u32_less [of low] by simp
  let ?goal = "0 < unat r \<and> unat r \<le> ?g \<and> ?l mod 2 ^ 24 + unat r \<le> 2 ^ 24 \<and>
    (?l mod 2 ^ 24 + unat r = 2 ^ 24 \<longrightarrow> unat r < 2 ^ 16) \<and>
    (?l mod 2 ^ 24 + unat r = 2 ^ 24 \<or> ?l + ?g < 2 ^ 32 \<and> r = rng) \<and> (?l + ?g = 2 ^ 32 \<longrightarrow> r = rng)"
  have ?goal
  proof (cases "?l div 2 ^ 24 = (?l + ?g) mod 2 ^ 32 div 2 ^ 24")
    case True
    then have r: "r = rng" using m by (simp add: rc_more_def xor_top unat_add_wrap)
    have s: "?l + ?g < 2 ^ 32"
    proof (rule ccontr)
      assume "\<not> ?thesis"
      then have e: "?l + ?g = 2 ^ 32" using sum by simp
      then have "?l < 2 ^ 24" using True by (simp add: div_eq_0_iff)
      then show False using e sum by simp
    qed
    then have "(?l + ?g) div 2 ^ 24 = ?l div 2 ^ 24" using True by simp
    then have "(?l + ?g) mod 2 ^ 24 = ?l mod 2 ^ 24 + ?g"
      using dm by (simp add: minus_div_mult_eq_mod [symmetric])
    then have "?l mod 2 ^ 24 + ?g < 2 ^ 24" by (metis mod_less_divisor zero_less_numeral zero_less_power)
    then show ?thesis using r s sum by simp
  next
    case False
    then have "\<not> (low XOR (low + rng)) < RC_TOP" by (simp add: xor_top unat_add_wrap)
    then have b: "?g < 2 ^ 16" "r = (- low) AND (RC_BOT - 1)"
      using m by (simp_all add: rc_more_def RC_BOT_def word_less_nat_alt split: if_splits)
    define q m where "q = ?l div 2 ^ 24" and "m = ?l mod 2 ^ 24"
    have lqm: "?l = 16777216 * q + m" "q < 256" using ld by (simp_all add: q_def m_def)
    have cross: "2 ^ 24 \<le> ?l mod 2 ^ 24 + ?g"
    proof (rule ccontr)
      assume "\<not> ?thesis"
      then have c: "m + ?g < 16777216" by (simp add: m_def)
      then have "?l + ?g < 2 ^ 32" using lqm by simp
      moreover have "(?l + ?g) div 2 ^ 24 = q" using c lqm(1) by (intro div_nat_eqI) simp_all
      ultimately show False using False by (simp add: q_def)
    qed
    let ?a = "2 ^ 24 - ?l mod 2 ^ 24"
    have a: "0 < ?a" "?a \<le> ?g" using cross by (simp_all)
    have "2 ^ 32 - ?l = 2 ^ 24 * (255 - ?l div 2 ^ 24) + ?a"
      using lqm a(1) unfolding m_def [symmetric] q_def [symmetric] by (simp add: diff_mult_distrib2)
    moreover have "(2 ^ 24 * q + ?a) mod 2 ^ 16 = ?a" for q
    proof -
      have "(2 ^ 24 * q + ?a) mod 2 ^ 16 = (2 ^ 16 * (2 ^ 8 * q) + ?a) mod 2 ^ 16" by (simp add: mult.assoc)
      also have "\<dots> = ?a mod 2 ^ 16" by (rule mod_mult_self4)
      finally show ?thesis using a b(1) by simp
    qed
    ultimately have r: "unat r = ?a" unfolding b(2) unat_neg_and by simp
    have "r = rng" if "?l + ?g = 2 ^ 32"
    proof -
      have "?l div 2 ^ 24 = 255" using that b(1) unat_u32_less [of low] by (intro div_nat_eqI) auto
      then have "unat r = ?g" using r dm that by simp
      then show ?thesis by (simp add: word_unat_eq_iff)
    qed
    then show ?thesis using a b(1) r by simp
  qed
  then show "0 < unat r" "unat r \<le> unat rng" "unat low mod 2 ^ 24 + unat r \<le> 2 ^ 24"
    "unat low mod 2 ^ 24 + unat r = 2 ^ 24 \<longrightarrow> unat r < 2 ^ 16"
    "unat low mod 2 ^ 24 + unat r = 2 ^ 24 \<or> unat low + unat rng < 2 ^ 32 \<and> r = rng"
    "unat low + unat rng = 2 ^ 32 \<longrightarrow> r = rng" by blast+
qed

lemma unat_push8: "unat (push_bit 8 w) = 256 * (unat w mod 2 ^ 24)" for w :: u32
proof -
  have "unat (push_bit 8 w) = (unat w * 256) mod 2 ^ 32" by (simp add: push_bit_eq_mult unat_word_ariths)
  also have "\<dots> = 256 * unat w mod (256 * 2 ^ 24)" by (simp add: mult.commute)
  finally show ?thesis by (simp only: mult_mod_right)
qed

lemma rc_shift:
  assumes "rc_inv low rng" "rc_more low rng = Some r"
  shows "rc_inv (push_bit 8 low) (push_bit 8 r)" "unat (push_bit 8 r) = 256 * unat r"
    "unat low + unat rng = 2 ^ 32 \<Longrightarrow> unat (push_bit 8 low) + unat (push_bit 8 r) = 2 ^ 32"
proof -
  note r = rc_more_Some [OF assms]
  have "unat r < 2 ^ 24" using r(3,4) by (cases "unat low mod 2 ^ 24 = 0") auto
  then show p: "unat (push_bit 8 r) = 256 * unat r" by (simp add: unat_push8)
  show "rc_inv (push_bit 8 low) (push_bit 8 r)"
    using r(1,3,4) by (auto simp: rc_inv_def p) (auto simp: unat_push8)
  assume "unat low + unat rng = 2 ^ 32"
  then have "unat low mod 2 ^ 24 + unat r = 2 ^ 24" using r(5) by simp
  then show "unat (push_bit 8 low) + unat (push_bit 8 r) = 2 ^ 32" unfolding p by (simp add: unat_push8)
qed

text \<open>Every shift either widens the interval or reaches its end, after which it widens until it is wide enough.\<close>

definition norm_measure :: "u32 \<Rightarrow> u32 \<Rightarrow> nat" where
  "norm_measure low rng = (if unat low + unat rng = 2 ^ 32 then 2 ^ 24 - unat rng else 2 ^ 25 + 2 ^ 32 - unat rng)"

lemma norm_total: "rc_inv low rng \<Longrightarrow> \<exists>E l g. norm_run low rng E l g \<and> rc_inv l g \<and> 2 ^ 16 \<le> unat g"
proof (induction "norm_measure low rng" arbitrary: low rng rule: less_induct)
  case less
  show ?case
  proof (cases "rc_more low rng")
    case None
    then show ?thesis using less.prems rc_more_None norm_run.stop by blast
  next
    case (Some r)
    note r = rc_more_Some [OF less.prems Some] and s = rc_shift [OF less.prems Some]
    have inv: "0 < unat rng" "unat low + unat rng = 2 ^ 32 \<longrightarrow> unat rng < 2 ^ 24" "unat rng < 2 ^ 32"
      using less.prems unat_u32_less [of rng] by (simp_all add: rc_inv_def)
    have inv': "unat (push_bit 8 low) + unat (push_bit 8 r) = 2 ^ 32 \<longrightarrow> unat (push_bit 8 r) < 2 ^ 24"
      using s(1) by (simp add: rc_inv_def)
    have "norm_measure (push_bit 8 low) (push_bit 8 r) < norm_measure low rng"
    proof (cases "unat low + unat rng = 2 ^ 32")
      case True
      then show ?thesis using r(1,6) s(2,3) inv inv' unfolding norm_measure_def by simp
    next
      case False
      then show ?thesis
        using r(1,5) s(2) inv inv' unat_push8 [of low] unfolding norm_measure_def by auto
    qed
    then obtain E l g where "norm_run (push_bit 8 low) (push_bit 8 r) E l g" "rc_inv l g" "2 ^ 16 \<le> unat g"
      using less.hyps [OF _ s(1)] by blast
    then show ?thesis using norm_run.shift [OF Some] by blast
  qed
qed

lemma rc_norm_run: "norm_run low rng E l g \<Longrightarrow> rc_norm low rng out = Some (l, g, out @ E)"
  by (induction arbitrary: out rule: norm_run.induct) (subst rc_norm.simps, simp)+

text \<open>The decoder's window: the four bytes at a position, zeros behind the end.\<close>

fun shift_code :: "bytes \<Rightarrow> u32 \<Rightarrow> nat \<Rightarrow> nat \<Rightarrow> u32" where
  "shift_code body code bp 0 = code"
| "shift_code body code bp (Suc k) = shift_code body (push_bit 8 code OR rc_next body bp) (bp + 1) k"

definition window :: "bytes \<Rightarrow> nat \<Rightarrow> u32" where "window body p = shift_code body 0 p 4"

lemma rc_norm_dec_run: "norm_run low rng E l g \<Longrightarrow>
  rc_norm_dec body low rng code bp = Some (l, g, shift_code body code bp (length E), bp + length E)"
  by (induction arbitrary: code bp rule: norm_run.induct) (subst rc_norm_dec.simps, simp)+

lemma rc_next_less: "unat (rc_next body bp) < 256"
proof (cases "get_at body bp")
  case (Some b)
  have "unat (ucast b :: u32) = unat b" by (simp add: unsigned_ucast_eq take_bit_nat_eq_self order_less_trans [OF unat_u8_less])
  then show ?thesis using Some unat_u8_less [of b] by (simp add: rc_next_def)
qed (simp add: rc_next_def)

lemma unat_shift_in: "unat (push_bit 8 c OR rc_next body bp) = 256 * (unat c mod 2 ^ 24) + unat (rc_next body bp)"
proof -
  note n = rc_next_less [of body bp]
  have "push_bit 8 c AND rc_next body bp = 0"
    using n by (intro bit_eqI) (auto simp: bit_simps rc_next_def dest: bit_imp_le_length split: option.splits)
  then have "push_bit 8 c OR rc_next body bp = push_bit 8 c + rc_next body bp" by (simp add: disjunctive_add_eq_or)
  moreover have "unat (push_bit 8 c) + unat (rc_next body bp) < 2 ^ 32" using n by (simp add: unat_push8)
  ultimately show ?thesis by (simp add: unat_add_wrap unat_push8)
qed

lemma window_value: "unat (window body p) = 2 ^ 24 * unat (rc_next body p) + 2 ^ 16 * unat (rc_next body (p + 1)) +
    2 ^ 8 * unat (rc_next body (p + 2)) + unat (rc_next body (p + 3))"
proof -
  let ?n = "\<lambda>i. rc_next body (p + i)"
  have n: "unat (?n i) < 256" for i by (rule rc_next_less)
  define w1 where "w1 = push_bit 8 0 OR ?n 0"
  define w2 where "w2 = push_bit 8 w1 OR ?n 1"
  define w3 where "w3 = push_bit 8 w2 OR ?n 2"
  have "unat w1 = unat (?n 0)" unfolding w1_def by (subst unat_shift_in) simp
  moreover from this have "unat w2 = 256 * unat (?n 0) + unat (?n 1)"
    using n [of 0] unfolding w2_def unat_shift_in by simp
  moreover from this have "unat w3 = 256 * (256 * unat (?n 0) + unat (?n 1)) + unat (?n 2)"
    using n [of 0] n [of 1] unfolding w3_def unat_shift_in by simp
  moreover have "window body p = push_bit 8 w3 OR ?n 3"
    by (simp add: window_def w1_def w2_def w3_def eval_nat_numeral add.assoc)
  ultimately show ?thesis using n [of 0] n [of 1] n [of 2] by (simp only: unat_shift_in) simp
qed


lemma digits_mod: "b < 256 \<Longrightarrow> c < 256 \<Longrightarrow> d < 256 \<Longrightarrow>
    (2 ^ 24 * a + 2 ^ 16 * b + 2 ^ 8 * c + d) mod 2 ^ 24 = 2 ^ 16 * b + 2 ^ 8 * c + (d :: nat)"
  using mod_mult_self4 [of "2 ^ 24" a "2 ^ 16 * b + 2 ^ 8 * c + d"] by (simp add: add.assoc)

lemma window_next: "unat (window body (p + 1)) = 256 * (2 ^ 16 * unat (rc_next body (p + 1)) +
    2 ^ 8 * unat (rc_next body (p + 2)) + unat (rc_next body (p + 3))) + unat (rc_next body (p + 4))"
proof -
  have e: "p + 1 + 1 = p + 2" "p + 1 + 2 = p + 3" "p + 1 + 3 = p + 4" by simp_all
  show ?thesis by (simp only: window_value [of body "p + 1"] e) (simp add: distrib_left)
qed

lemma shift_code_window: "shift_code body (window body p) (p + 4) k = window body (p + k)"
proof (induction k arbitrary: p)
  case (Suc k)
  have "unat (push_bit 8 (window body p) OR rc_next body (p + 4)) = unat (window body (p + 1))"
    unfolding unat_shift_in window_value [of body p] window_next by (subst digits_mod) (simp_all add: rc_next_less)
  then have "push_bit 8 (window body p) OR rc_next body (p + 4) = window body (p + 1)" by (simp add: word_unat_eq_iff)
  then show ?case using Suc [of "p + 1"] by (simp add: add.commute)
qed simp

lemma window_step:
  assumes "get_at body p = Some (ucast (drop_bit 24 low :: u32))"
  shows "unat (window body p) = 2 ^ 24 * (unat low div 2 ^ 24) + unat (window body (p + 1)) div 256"
proof -
  have d: "unat (drop_bit 24 low) = unat low div 2 ^ 24" by (simp add: unat_drop_bit_eq drop_bit_eq_div unat_div_distrib)
  have l: "unat low div 2 ^ 24 < 256" using unat_u32_less [of low] by simp
  have "rc_next body p = ucast (ucast (drop_bit 24 low) :: u8)" using assms by (simp add: rc_next_def)
  then have "unat (rc_next body p) = unat low div 2 ^ 24"
    using l d by (simp add: unsigned_ucast_eq unsigned_take_bit_eq take_bit_nat_eq_self)
  then show ?thesis
    using rc_next_less [of body "p + 4"] unfolding window_value [of body p] window_next by simp
qed

lemma norm_run_window:
  "norm_run low rng E l g \<Longrightarrow> rc_inv low rng \<Longrightarrow> at_pos body p E \<Longrightarrow>
   unat l \<le> unat (window body (p + length E)) \<Longrightarrow> unat (window body (p + length E)) < unat l + unat g \<Longrightarrow>
   unat low \<le> unat (window body p) \<and> unat (window body p) < unat low + unat rng"
proof (induction arbitrary: p rule: norm_run.induct)
  case (shift low rng r E l g)
  let ?m = "unat low mod 2 ^ 24" and ?w = "unat (window body (p + 1))"
  note s = rc_shift [OF shift.prems(1) shift.hyps(1)] and r = rc_more_Some [OF shift.prems(1) shift.hyps(1)]
  have a: "at_pos body p [ucast (drop_bit 24 low)]" "at_pos body (p + 1) E"
    using shift.prems(2) at_pos_append [of body p "[ucast (drop_bit 24 low)]" E] by simp_all
  have "256 * ?m \<le> ?w \<and> ?w < 256 * ?m + 256 * unat r"
    using shift.IH [OF s(1) a(2)] shift.prems(3,4) unfolding s(2) unat_push8 [of low] by (simp add: add.assoc)
  then have "?m \<le> ?w div 256 \<and> ?w div 256 < ?m + unat r" by (auto simp: less_mult_imp_div_less)
  moreover have "unat (window body p) = 2 ^ 24 * (unat low div 2 ^ 24) + ?w div 256"
    by (rule window_step) (use at_pos_get_at [OF a(1)] in simp)
  moreover have "unat low = 2 ^ 24 * (unat low div 2 ^ 24) + ?m" by simp
  ultimately show ?case using r(2) by linarith
qed auto

section \<open>The model\<close>

definition model_ok :: "range_model \<Rightarrow> bool" where
  "model_ok m \<longleftrightarrow> length (rm_freq m) = 256 \<and> (\<forall>f \<in> set (rm_freq m). 0 < unat f) \<and>
     sum_list (map unat (rm_freq m)) = unat (rm_total m) \<and> unat (rm_total m) < 2 ^ 15"

lemma model_ok_new: "model_ok model_new"
  by (simp add: model_ok_def model_new_def sum_list_replicate)

lemma unat_fold_sum:
  "sum_list (map unat fs) + unat a < 2 ^ 32 \<Longrightarrow> unat (fold (\<lambda>f acc. acc + ucast f) fs a) = unat a + sum_list (map unat fs)"
  for fs :: "u16 list" and a :: u32
proof (induction fs arbitrary: a)
  case (Cons f fs)
  have f: "unat (ucast f :: u32) = unat f"
    using unat_u16_less [of f] by (simp add: unsigned_ucast_eq take_bit_nat_eq_self)
  have "unat (a + ucast f) = unat a + unat f" using Cons.prems by (simp add: unat_add_wrap f)
  then show ?case using Cons by simp
qed simp

lemma sum_take_le: "sum_list (map unat (take k fs)) \<le> sum_list (map unat fs)" for fs :: "'a::len word list"
  by (metis append_take_drop_id le_add1 map_append sum_list_append)

lemma model_cum_value:
  assumes "model_ok m"
  shows "unat (model_cum m sy) = sum_list (map unat (take sy (rm_freq m)))"
  using assms sum_take_le [of sy "rm_freq m"] by (simp add: model_cum_def model_ok_def unat_fold_sum)

lemma sum_take_Suc: "sy < length fs \<Longrightarrow> sum_list (map unat (take (Suc sy) fs)) = sum_list (map unat (take sy fs)) + unat (fs ! sy)"
  by (simp add: take_Suc_conv_app_nth)

lemma model_interval:
  assumes "model_ok m" "sy < 256"
  shows "unat (model_cum m sy) + unat (rm_freq m ! sy) \<le> unat (rm_total m)" "0 < unat (rm_freq m ! sy)"
  using assms sum_take_le [of "Suc sy" "rm_freq m"]
  by (simp_all add: model_cum_value sum_take_Suc model_ok_def)

lemma find_loop_hit:
  "sy < length fs \<Longrightarrow> unat cum + sum_list (map unat fs) < 2 ^ 32 \<Longrightarrow>
   unat cum + sum_list (map unat (take sy fs)) \<le> unat k \<Longrightarrow>
   unat k < unat cum + sum_list (map unat (take (Suc sy) fs)) \<Longrightarrow>
   find_loop k s cum fs = Some (s + sy, cum + of_nat (sum_list (map unat (take sy fs))), ucast (fs ! sy))"
proof (induction fs arbitrary: s cum sy)
  case (Cons f fs)
  have f: "unat (ucast f :: u32) = unat f"
    using unat_u16_less [of f] by (simp add: unsigned_ucast_eq take_bit_nat_eq_self)
  have c: "unat (cum + ucast f) = unat cum + unat f" using Cons.prems(2) by (simp add: unat_add_wrap f)
  show ?case
  proof (cases sy)
    case 0
    then show ?thesis using Cons.prems c by (simp add: word_less_nat_alt)
  next
    case (Suc t)
    have u: "(of_nat (unat f) :: u32) = ucast f" by (simp add: unsigned_ucast_eq)
    show ?thesis using Cons.IH [of t "cum + ucast f" "s + 1"] Cons.prems c Suc
      by (simp add: word_less_nat_alt add.assoc u)
  qed
qed simp

lemma model_find_hit:
  assumes "model_ok m" "sy < 256" "unat (model_cum m sy) \<le> unat k" "unat k < unat (model_cum m sy) + unat (rm_freq m ! sy)"
  shows "model_find m k = (sy, model_cum m sy, ucast (rm_freq m ! sy))"
proof -
  have "length (rm_freq m) = 256" "sum_list (map unat (rm_freq m)) < 2 ^ 32" using assms(1) by (simp_all add: model_ok_def)
  then have "find_loop k 0 0 (rm_freq m) =
      Some (0 + sy, 0 + of_nat (sum_list (map unat (take sy (rm_freq m)))), ucast (rm_freq m ! sy))"
    using assms by (intro find_loop_hit) (simp_all add: model_cum_value sum_take_Suc)
  moreover have "of_nat (sum_list (map unat (take sy (rm_freq m)))) = model_cum m sy"
    unfolding model_cum_value [OF assms(1), of sy, symmetric] by simp
  ultimately show ?thesis by (simp add: model_find_def)
qed

lemma sum_list_update_nat: "i < length xs \<Longrightarrow> sum_list (xs[i := x]) + xs ! i = sum_list xs + (x :: nat)"
proof (induction xs arbitrary: i)
  case (Cons y ys)
  then show ?case by (cases i) auto
qed simp

lemma halve_less: "unat (drop_bit 1 f OR 1) \<le> unat f div 2 + 1" "0 < unat (drop_bit 1 f OR 1)" for f :: u16
proof -
  have "unat (drop_bit 1 f OR 1) = unat (drop_bit 1 f) OR 1" by (simp only: unsigned_or_eq unsigned_1)
  then have e: "unat (drop_bit 1 f OR 1) = unat f div 2 + of_bool (even (unat f div 2))"
    by (simp only: or_one_eq unat_drop_bit_eq) (simp add: drop_bit_eq_div)
  show "unat (drop_bit 1 f OR 1) \<le> unat f div 2 + 1" unfolding e by simp
  show "0 < unat (drop_bit 1 f OR 1)" unfolding e by (cases "unat f div 2 = 0") auto
qed

lemma model_update_ok:
  assumes m: "model_ok m" and sy: "sy < 256"
  shows "model_ok (model_update m sy)"
proof -
  let ?F = "rm_freq m" and ?T = "rm_total m"
  let ?F' = "?F[sy := ?F ! sy + ucast RC_INC]"
  have ok: "length ?F = 256" "\<forall>f \<in> set ?F. 0 < unat f" "sum_list (map unat ?F) = unat ?T" "unat ?T < 2 ^ 15"
    using m by (simp_all add: model_ok_def)
  have one: "unat (?F ! sy) \<le> unat ?T" using model_interval [OF m sy] by simp
  have inc: "unat (?F ! sy + ucast RC_INC) = unat (?F ! sy) + 24"
    using one ok(4) by (simp add: RC_INC_def unat_word_ariths)
  have F': "sum_list (map unat ?F') = unat ?T + 24"
    using sum_list_update_nat [of sy "map unat ?F" "unat (?F ! sy) + 24"] ok(1,3) sy inc by (simp add: map_update)
  have pos: "\<forall>f \<in> set ?F'. 0 < unat f"
    using ok(2) inc set_update_subset_insert [of ?F sy "?F ! sy + ucast RC_INC"] by fastforce
  have tot: "unat (?T + RC_INC) = unat ?T + 24" using ok(4) by (simp add: RC_INC_def unat_word_ariths)
  show ?thesis
  proof (cases "RC_MAX_TOTAL \<le> ?T + RC_INC")
    case True
    let ?H = "map (\<lambda>f. drop_bit 1 f OR 1) ?F'"
    have "sum_list (map unat ?H) \<le> sum_list (map (\<lambda>f. unat f div 2 + 1) ?F')"
      using halve_less(1) by (simp add: comp_def) (intro sum_list_mono, blast)
    also have "\<dots> \<le> sum_list (map unat ?F') div 2 + length ?F'"
    proof -
      have "sum_list (map (\<lambda>f. unat f div 2 + 1) xs) \<le> sum_list (map unat xs) div 2 + length xs" for xs :: "u16 list"
        by (induction xs) simp_all
      then show ?thesis .
    qed
    finally have le: "sum_list (map unat ?H) < 2 ^ 15" using F' ok(1,4) by simp
    have "model_update m sy = \<lparr>rm_freq = ?H, rm_total = fold (\<lambda>f acc. acc + ucast f) ?H 0\<rparr>"
      using True by (simp add: model_update_def Let_def)
    then show ?thesis using le ok(1) halve_less(2) by (simp add: model_ok_def unat_fold_sum del: map_map)
  next
    case False
    then have "unat ?T + 24 < 2 ^ 15" using tot by (simp add: RC_MAX_TOTAL_def word_le_nat_alt)
    then show ?thesis using False F' pos ok(1) tot by (simp add: model_update_def model_ok_def)
  qed
qed

section \<open>Encoding and decoding\<close>

text \<open>One symbol narrows the interval to a part of it that is not empty; nothing wraps.\<close>

lemma rc_narrow:
  assumes m: "model_ok m" and sy: "sy < 256" and inv: "rc_inv low rng" and big: "2 ^ 16 \<le> unat rng"
  defines "r \<equiv> rng div rm_total m"
  shows "unat r = unat rng div unat (rm_total m)" "0 < unat r"
    "unat (low + model_cum m sy * r) = unat low + unat (model_cum m sy) * unat r"
    "unat (r * ucast (rm_freq m ! sy)) = unat r * unat (rm_freq m ! sy)"
    "rc_inv (low + model_cum m sy * r) (r * ucast (rm_freq m ! sy))"
    "unat (model_cum m sy) * unat r + unat r * unat (rm_freq m ! sy) \<le> unat rng"
proof -
  let ?t = "unat (rm_total m)" and ?c = "unat (model_cum m sy)" and ?f = "unat (rm_freq m ! sy)"
  note i = model_interval [OF m sy]
  have t: "0 < ?t" "?t < 2 ^ 15" using i m by (simp_all add: model_ok_def)
  show r: "unat r = unat rng div ?t" by (simp add: r_def unat_div_distrib)
  have le: "unat r * ?t \<le> unat rng" unfolding r by simp
  show pos: "0 < unat r" using t big unfolding r by (simp add: div_greater_zero_iff)
  have cf: "?c * unat r + unat r * ?f \<le> unat r * ?t"
    using mult_le_mono2 [OF i(1), of "unat r"] by (simp add: algebra_simps)
  then show sum: "?c * unat r + unat r * ?f \<le> unat rng" using le by simp
  have rl: "unat low + unat rng \<le> 2 ^ 32" "unat low + unat rng = 2 ^ 32 \<longrightarrow> unat rng < 2 ^ 24" "unat rng < 2 ^ 32"
    using inv unat_u32_less [of rng] by (simp_all add: rc_inv_def)
  have fp: "0 < unat r * ?f" using pos i(2) by simp
  have uf: "unat (ucast (rm_freq m ! sy) :: u32) = ?f"
    using unat_u16_less [of "rm_freq m ! sy"] by (simp add: unsigned_ucast_eq take_bit_nat_eq_self)
  have c: "unat (model_cum m sy * r) = ?c * unat r" using sum rl(3) by (simp add: unat_word_ariths)
  show l: "unat (low + model_cum m sy * r) = unat low + ?c * unat r"
  proof -
    have "unat low + ?c * unat r < 2 ^ 32" using sum rl(1) fp by linarith
    then show ?thesis unfolding unat_add_wrap c by (rule mod_less)
  qed
  show g: "unat (r * ucast (rm_freq m ! sy)) = unat r * ?f" using sum rl(3) by (simp add: unat_word_ariths uf)
  show "rc_inv (low + model_cum m sy * r) (r * ucast (rm_freq m ! sy))"
    unfolding rc_inv_def l g using sum rl fp by auto
qed

lemma rc_total:
  "model_ok m \<Longrightarrow> rc_inv low rng \<Longrightarrow> 2 ^ 16 \<le> unat rng \<Longrightarrow> \<exists>l E. rc_encode bs low rng m out = Some (l, out @ E)"
proof (induction bs arbitrary: low rng m out)
  case (Cons b bs)
  have sy: "unat b < 256" by (rule unat_u8_less)
  note n = rc_narrow [OF Cons.prems(1) sy Cons.prems(2,3)]
  obtain E l g where e: "norm_run (low + model_cum m (unat b) * (rng div rm_total m))
      (rng div rm_total m * ucast (rm_freq m ! unat b)) E l g" "rc_inv l g" "2 ^ 16 \<le> unat g"
    using norm_total [OF n(5)] by blast
  obtain l' E' where "rc_encode bs l g (model_update m (unat b)) (out @ E) = Some (l', (out @ E) @ E')"
    using Cons.IH [OF model_update_ok [OF Cons.prems(1) sy] e(2,3)] by blast
  then show ?case by (auto simp: Let_def rc_norm_run [OF e(1)])
qed simp

lemma rc_flush_append: "rc_flush k low out = out @ rc_flush k low []"
proof (induction k arbitrary: low out)
  case (Suc k)
  show ?case using Suc [of "push_bit 8 low" "out @ [ucast (drop_bit 24 low)]"] Suc [of "push_bit 8 low" "[ucast (drop_bit 24 low)]"]
    by simp
qed simp

lemma window_flush:
  "k \<le> 4 \<Longrightarrow> at_pos body p (rc_flush k low []) \<Longrightarrow>
   unat (window body p) div 2 ^ (32 - 8 * k) = unat low div 2 ^ (32 - 8 * k)"
proof (induction k arbitrary: low p)
  case 0
  show ?case using unat_u32_less [of "window body p"] unat_u32_less [of low] by simp
next
  case (Suc k)
  let ?W = "unat (window body p)" and ?V = "unat (window body (p + 1))" and ?e = "24 - 8 * k"
  have e: "32 - 8 * Suc k = ?e" "32 - 8 * k = ?e + 8" "24 = ?e + 8 * k" using Suc.prems(1) by simp_all
  have fl: "rc_flush (Suc k) low [] = ucast (drop_bit 24 low) # rc_flush k (push_bit 8 low) []"
    using rc_flush_append [of k "push_bit 8 low" "[ucast (drop_bit 24 low)]"] by simp
  note at = Suc.prems(2) [unfolded fl]
  have split: "(2 ^ 24 * q + m) div 2 ^ ?e = 2 ^ (8 * k) * q + m div 2 ^ ?e" for q m :: nat
  proof -
    have "(2 :: nat) ^ 24 = 2 ^ ?e * 2 ^ (8 * k)" by (metis e(3) power_add)
    then have "2 ^ 24 * q + m = m + 2 ^ ?e * (2 ^ (8 * k) * q)" by (simp only: mult.assoc add.commute)
    then show ?thesis by (simp only: div_mult_self2) simp
  qed
  have "?V div 2 ^ (?e + 8) = unat (push_bit 8 low) div 2 ^ (?e + 8)"
    using Suc.IH [OF _ at_pos_tl [OF at]] Suc.prems(1) unfolding e(2) by simp
  then have "(?V div 256) div 2 ^ ?e = (unat low mod 2 ^ 24) div 2 ^ ?e"
    by (simp add: unat_push8 power_add mult.commute [of _ 256] div_mult2_eq)
  moreover have "?W = 2 ^ 24 * (unat low div 2 ^ 24) + ?V div 256" by (rule window_step [OF at_pos_get_at [OF at]])
  moreover have "unat low = 2 ^ 24 * (unat low div 2 ^ 24) + unat low mod 2 ^ 24" by simp
  ultimately show ?case unfolding e(1) using split by metis
qed

lemma rc_decode_encode:
  "model_ok m \<Longrightarrow> rc_inv low rng \<Longrightarrow> 2 ^ 16 \<le> unat rng \<Longrightarrow> rc_encode bs low rng m out = Some (lf, out @ E) \<Longrightarrow>
   at_pos body p (E @ rc_flush 4 lf []) \<Longrightarrow>
   unat low \<le> unat (window body p) \<and> unat (window body p) < unat low + unat rng \<and>
   rc_decode (length bs) body low rng (window body p) (p + 4) m out' = Some (out' @ bs)"
proof (induction bs arbitrary: low rng m out E p out')
  case Nil
  then have "unat (window body p) = unat lf" using window_flush [of 4 body p lf] by simp
  then show ?case using Nil by (auto simp: rc_inv_def)
next
  case (Cons b bs)
  let ?s = "unat b"
  let ?r = "rng div rm_total m" and ?c = "model_cum m ?s" and ?f = "rm_freq m ! ?s" and ?C = "unat (window body p)"
  have sy: "?s < 256" by (rule unat_u8_less)
  note n = rc_narrow [OF Cons.prems(1) sy Cons.prems(2,3)] and i = model_interval [OF Cons.prems(1) sy]
  obtain E1 l g where e: "norm_run (low + ?c * ?r) (?r * ucast ?f) E1 l g" "rc_inv l g" "2 ^ 16 \<le> unat g"
    using norm_total [OF n(5)] by blast
  have enc: "rc_encode bs l g (model_update m ?s) (out @ E1) = Some (lf, out @ E)"
    using Cons.prems(4) by (simp add: Let_def rc_norm_run [OF e(1)])
  obtain l' E2 where "rc_encode bs l g (model_update m ?s) (out @ E1) = Some (l', (out @ E1) @ E2)"
    using rc_total [OF model_update_ok [OF Cons.prems(1) sy] e(2,3)] by blast
  then have E2: "E = E1 @ E2" "rc_encode bs l g (model_update m ?s) (out @ E1) = Some (lf, (out @ E1) @ E2)"
    using enc by auto
  have at: "at_pos body p E1" "at_pos body (p + length E1) (E2 @ rc_flush 4 lf [])"
    using Cons.prems(5) at_pos_append [of body p E1 "E2 @ rc_flush 4 lf []"] unfolding E2(1) by simp_all
  note IH = Cons.IH [OF model_update_ok [OF Cons.prems(1) sy] e(2,3) E2(2) at(2)]
  have w: "unat (low + ?c * ?r) \<le> ?C" "?C < unat (low + ?c * ?r) + unat (?r * ucast ?f)"
    using norm_run_window [OF e(1) n(5) at(1)] IH [of out'] by blast+
  then have C: "unat ?c * unat ?r \<le> ?C - unat low" "?C - unat low < unat ?c * unat ?r + unat ?r * unat ?f" "unat low \<le> ?C"
    unfolding n(3,4) by simp_all
  let ?k = "(window body p - low) div ?r"
  have "unat (window body p - low) = ?C - unat low" using C(3) by (simp add: unat_sub word_le_nat_alt)
  then have k: "unat ?k = (?C - unat low) div unat ?r" by (simp add: unat_div_distrib)
  have k1: "unat ?c \<le> unat ?k" unfolding k using C(1) n(2) by (simp add: less_eq_div_iff_mult_less_eq)
  have k2: "unat ?k < unat ?c + unat ?f"
    unfolding k using C(2) n(2) by (simp add: div_less_iff_less_mult algebra_simps)
  have tpos: "0 < unat (rm_total m)" using i by simp
  then have "unat (rm_total m - 1) = unat (rm_total m) - 1"
    by (subst unat_sub) (auto simp: word_le_nat_alt)
  then have "min ?k (rm_total m - 1) = ?k" using k2 i(1) by (intro min_absorb1) (simp add: word_le_nat_alt)
  then have find: "model_find m (min ?k (rm_total m - 1)) = (?s, ?c, ucast ?f)"
    using model_find_hit [OF Cons.prems(1) sy k1 k2] by simp
  have bound: "unat low \<le> ?C \<and> ?C < unat low + unat rng" using C n(6) by linarith
  have "rc_decode (length bs) body l g (window body (p + length E1)) (p + length E1 + 4) (model_update m ?s) (out' @ [b])
      = Some ((out' @ [b]) @ bs)"
    using IH [of "out' @ [b]"] by blast
  then show ?case using bound find by (simp add: Let_def rc_norm_dec_run [OF e(1)] shift_code_window add_ac)
qed

lemma rc_inv_start: "rc_inv 0 0xFFFFFFFF" by (simp add: rc_inv_def)

lemma rc_compress_total: "rc_compress input \<noteq> None"
  using rc_total [OF model_ok_new rc_inv_start] by (fastforce simp: rc_compress_def Let_def)

text \<open>Whatever the bytes, decoding ends.\<close>

lemma find_some:
  "k < sum_list (map unat fs) \<Longrightarrow>
   \<exists>sy < length fs. sum_list (map unat (take sy fs)) \<le> k \<and> k < sum_list (map unat (take sy fs)) + unat (fs ! sy)"
  for fs :: "u16 list"
proof (induction fs arbitrary: k)
  case (Cons f fs)
  show ?case
  proof (cases "k < unat f")
    case False
    then obtain sy where "sy < length fs" "sum_list (map unat (take sy fs)) \<le> k - unat f"
      "k - unat f < sum_list (map unat (take sy fs)) + unat (fs ! sy)"
      using Cons.IH [of "k - unat f"] Cons.prems by (auto simp: less_diff_conv2 not_less)
    then show ?thesis using False by (intro exI [of _ "Suc sy"]) auto
  qed auto
qed simp

lemma rc_decode_total:
  "model_ok m \<Longrightarrow> rc_inv low rng \<Longrightarrow> 2 ^ 16 \<le> unat rng \<Longrightarrow> rc_decode n body low rng code bp m out \<noteq> None"
proof (induction n arbitrary: low rng code bp m out)
  case (Suc n)
  let ?k = "min ((code - low) div (rng div rm_total m)) (rm_total m - 1)"
  have t: "0 < unat (rm_total m)" using model_interval [OF Suc.prems(1), of 0] by simp
  have "unat ?k \<le> unat (rm_total m - 1)" by (simp add: word_le_nat_alt [symmetric])
  also have "\<dots> = unat (rm_total m) - 1" using t by (subst unat_sub) (auto simp: word_le_nat_alt)
  finally have "unat ?k < sum_list (map unat (rm_freq m))" using t Suc.prems(1) by (simp add: model_ok_def)
  then obtain sy where sy: "sy < length (rm_freq m)" "sum_list (map unat (take sy (rm_freq m))) \<le> unat ?k"
    "unat ?k < sum_list (map unat (take sy (rm_freq m))) + unat (rm_freq m ! sy)"
    using find_some by blast
  have s: "sy < 256" using sy(1) Suc.prems(1) by (simp add: model_ok_def)
  have find: "model_find m ?k = (sy, model_cum m sy, ucast (rm_freq m ! sy))"
    using model_find_hit [OF Suc.prems(1) s] sy(2,3) model_cum_value [OF Suc.prems(1)] by simp
  obtain E l g where e: "norm_run (low + model_cum m sy * (rng div rm_total m))
      (rng div rm_total m * ucast (rm_freq m ! sy)) E l g" "rc_inv l g" "2 ^ 16 \<le> unat g"
    using norm_total [OF rc_narrow(5) [OF Suc.prems(1) s Suc.prems(2,3)]] by blast
  show ?case using Suc.IH [OF model_update_ok [OF Suc.prems(1) s] e(2,3)] find
    by (simp add: Let_def rc_norm_dec_run [OF e(1)])
qed simp

lemma rc_decompress_total: "rc_decompress data \<noteq> None"
  using rc_decode_total [OF model_ok_new rc_inv_start] by (auto simp: rc_decompress_def Let_def split: option.split)

lemma shift_code_fold: "shift_code b c p k = fold (\<lambda>i c. push_bit 8 c OR rc_next b i) [p..<p + k] c"
proof (induction k arbitrary: c p)
  case (Suc k)
  then show ?case using upt_conv_Cons [of p "p + Suc k"] by simp
qed simp

lemma rc_decompress_compress:
  assumes c: "rc_compress input = Some (Some out)" and l: "length input < 2 ^ 64"
  shows "rc_decompress out = Some (Some input)" "length out < length input"
proof -
  let ?v = "put_varint (of_nat (length input))"
  obtain lf E where e: "rc_encode input 0 0xFFFFFFFF model_new ?v = Some (lf, ?v @ E)"
    using rc_total [OF model_ok_new rc_inv_start] by fastforce
  have f: "rc_flush 4 lf (?v @ E) = ?v @ E @ rc_flush 4 lf []" using rc_flush_append [of 4 lf "?v @ E"] by simp
  have out: "out = ?v @ E @ rc_flush 4 lf []" "length out < length input"
    using c e unfolding f rc_compress_def Let_def by (auto simp: f split: if_splits)
  show "length out < length input" by (rule out(2))
  let ?body = "E @ rc_flush 4 lf []"
  have tv: "take_varint out 0 = Some (of_nat (length input), length ?v)"
    unfolding out(1) using take_varint_put [of "?v @ ?body" 0 "of_nat (length input)"] at_posI [of "[]" ?v ?body] by simp
  have w: "fold (\<lambda>bp code. push_bit 8 code OR rc_next ?body bp) [0..<4] 0 = window ?body 0"
    by (simp add: window_def shift_code_fold)
  have "rc_decode (length input) ?body 0 0xFFFFFFFF (window ?body 0) (0 + 4) model_new [] = Some ([] @ input)"
    using rc_decode_encode [OF model_ok_new rc_inv_start _ e, of ?body 0] at_pos_self [of ?body] by simp
  then show "rc_decompress out = Some (Some input)"
    using tv w l out(1) by (simp add: rc_decompress_def Let_def unat_of_nat_u64)
qed

text \<open>So the combined backend always answers, and the choice of the smaller method never falls back.\<close>

lemma densa_total: "compress Densa body \<noteq> None" "decompress Densa body \<noteq> None"
proof -
  show "compress Densa body \<noteq> None"
    using rc_compress_total [of "lz_compress body"] by (auto simp: Densa_def densa_compress_def Let_def rc_decompress_total split: option.splits)
  show "decompress Densa body \<noteq> None"
    using rc_decompress_total by (auto simp: Densa_def densa_decompress_def split: list.splits)
qed

lemma length_lz_compress:
  "length (lz_compress body) < 2 ^ 64 \<Longrightarrow> rc_compress (lz_compress body) = Some (Some c) \<Longrightarrow>
   compress Densa body = Some (if Suc (length c) < length body then Some (1 # c) else None)"
  using rc_decompress_compress [of "lz_compress body" c] by (auto simp: Densa_def densa_compress_def Let_def)

end
