(* ===== verification/CompressRuns.thy ===== *)
theory CompressRuns
  imports RangeCoder
begin

text \<open>
  The compressors do compress (\<^verbatim>\<open>src/compress.rs\<close>): on a run of one byte the hash chain offers the position just
  before, the match is as long as it may be, and the text shrinks.
\<close>

section \<open>The chain over a run\<close>

lemma hash3_run: "p + 3 \<le> n \<Longrightarrow> hash3 (replicate n b) p = hash3 (replicate 3 b) 0"
  by (simp add: hash3_def)

lemma match_len_run: "c + m \<le> n \<Longrightarrow> p + m \<le> n \<Longrightarrow> match_len (replicate n b) c p m = m"
  by (induction m arbitrary: c p) auto

lemma as_i32_small: "p < 2 ^ 31 \<Longrightarrow> as_i32 p = int p"
  by (simp add: as_i32_def signed_of_nat signed_take_bit_int_eq_self)

text \<open>What the run keeps: the chain of its three bytes starts at the position before.\<close>

definition run_chain :: "nat \<Rightarrow> u8 \<Rightarrow> nat \<Rightarrow> int list \<Rightarrow> bool" where
  "run_chain n b pos head \<longleftrightarrow> length head = HASH_SIZE \<and>
     (pos + 2 \<le> n \<longrightarrow> 1 \<le> pos \<longrightarrow> head ! hash3 (replicate 3 b) 0 = int (pos - 1))"

lemma run_chain_insert:
  assumes "run_chain n b pos head" "n < 2 ^ 31"
  shows "run_chain n b (Suc pos) (fst (lz_insert (replicate n b) pos (head, prev)))"
proof (cases "pos + 3 \<le> n")
  case True
  then show ?thesis using assms hash3_less hash3_run [OF True, of b]
    by (simp add: run_chain_def lz_insert_def MIN_MATCH_def Let_def as_i32_small)
next
  case False
  then show ?thesis using assms by (simp add: run_chain_def lz_insert_def MIN_MATCH_def)
qed

lemma run_chain_fold:
  "run_chain n b pos (fst hp) \<Longrightarrow> n < 2 ^ 31 \<Longrightarrow> run_chain n b (pos + k) (fst (fold (lz_insert (replicate n b)) [pos..<pos + k] hp))"
proof (induction k)
  case (Suc k)
  then show ?case using run_chain_insert [OF Suc.IH] by (metis add_Suc_right fold_append fold_simps comp_apply le_add1 prod.collapse upt_Suc_append)
qed simp

lemma lz_find_run:
  assumes "run_chain n b (lz_pos s) (lz_head s)" "1 \<le> lz_pos s" "lz_pos s + 3 \<le> n"
  shows "lz_find (replicate n b) s = (min (n - lz_pos s) MAX_MATCH, 1)"
proof -
  let ?m = "min (n - lz_pos s) MAX_MATCH"
  obtain q where q: "lz_pos s = Suc q" using assms(2) by (cases "lz_pos s") simp_all
  have "lz_head s ! hash3 (replicate n b) (lz_pos s) = int q"
    using assms hash3_run [OF assms(3), of b] by (simp add: run_chain_def q)
  moreover have "match_len (replicate n b) q (Suc q) ?m = ?m"
    using assms(3) by (intro match_len_run) (auto simp: q)
  moreover have "0 < ?m" using assms(3) by (simp add: MAX_MATCH_def)
  ultimately have "best_match (replicate n b) (lz_prev s) (lz_pos s) ?m (Suc k) (lz_head s ! hash3 (replicate n b) (lz_pos s))
      (0, 0) = (?m, 1)" for k
    by (simp add: WINDOW_def Let_def q del: min_less_iff_conj)
  then have "best_match (replicate n b) (lz_prev s) (lz_pos s) ?m MAX_CHAIN (lz_head s ! hash3 (replicate n b) (lz_pos s))
      (0, 0) = (?m, 1)"
    by (metis MAX_CHAIN_def Suc_numeral numeral_eq_Suc)
  then show ?thesis using assms(3) by (simp only: lz_find_def MIN_MATCH_def Let_def length_replicate if_True)
qed

lemma length_match_code: "length (match_code len off) = (if len \<le> 17 then 2 else 3)"
  by (simp add: match_code_def Let_def u16_le_def)

text \<open>A step over a run: at most the bytes of the match and a control byte are written.\<close>

lemma lz_step_frame:
  "lz_pos (lz_step input s) = lz_pos (lz_emit input (lz_open_group s))"
  "lz_head (lz_step input s) = lz_head (lz_emit input (lz_open_group s))"
  "length (lz_out (lz_step input s)) = length (lz_out (lz_emit input (lz_open_group s)))"
  "lz_pos (lz_open_group s) = lz_pos s" "lz_head (lz_open_group s) = lz_head s"
  "length (lz_out (lz_open_group s)) \<le> Suc (length (lz_out s))"
  by (simp_all add: lz_step_def lz_close_group_def lz_open_group_def Let_def)

lemma lz_step_run:
  assumes "run_chain n b (lz_pos s) (lz_head s)" "1 \<le> lz_pos s" "lz_pos s + 3 \<le> n" "n < 2 ^ 31"
  defines "len \<equiv> min (n - lz_pos s) MAX_MATCH"
  shows "lz_pos (lz_step (replicate n b) s) = lz_pos s + len"
    "run_chain n b (lz_pos s + len) (lz_head (lz_step (replicate n b) s))"
    "length (lz_out (lz_step (replicate n b) s)) \<le> length (lz_out s) + (if len \<le> 17 then 3 else 4)"
proof -
  let ?o = "lz_open_group s" and ?in = "replicate n b"
  obtain head prev where f: "fold (lz_insert ?in) [lz_pos s..<lz_pos s + len] (lz_head s, lz_prev ?o) = (head, prev)" by fastforce
  have "lz_find ?in ?o = (len, 1)"
    using lz_find_run [of n b ?o] assms by (simp add: lz_step_frame)
  moreover have "MIN_MATCH \<le> len" using assms(3) by (simp add: len_def MIN_MATCH_def MAX_MATCH_def)
  ultimately have e: "lz_emit ?in ?o = ?o\<lparr>lz_out := lz_out ?o @ match_code len 1, lz_head := head, lz_prev := prev,
      lz_pos := lz_pos s + len\<rparr>"
    using f by (simp add: lz_emit_def lz_step_frame Let_def)
  show "lz_pos (lz_step ?in s) = lz_pos s + len" by (simp add: lz_step_frame e)
  show "run_chain n b (lz_pos s + len) (lz_head (lz_step ?in s))"
    using run_chain_fold [of n b "lz_pos s" "(lz_head s, lz_prev ?o)" len] assms(1,4) f by (simp add: lz_step_frame e)
  show "length (lz_out (lz_step ?in s)) \<le> length (lz_out s) + (if len \<le> 17 then 3 else 4)"
    using lz_step_frame(6) [of s] by (simp add: lz_step_frame(3) e length_match_code)
qed

lemma lz_step_literal:
  assumes "lz_find input (lz_open_group s) = (0, 0)"
  shows "lz_pos (lz_step input s) = Suc (lz_pos s)"
    "lz_head (lz_step input s) = fst (lz_insert input (lz_pos s) (lz_head s, lz_prev s))"
    "length (lz_out (lz_step input s)) \<le> length (lz_out s) + 2"
proof -
  have "lz_prev (lz_open_group s) = lz_prev s" by (simp add: lz_open_group_def)
  then show "lz_pos (lz_step input s) = Suc (lz_pos s)"
    "lz_head (lz_step input s) = fst (lz_insert input (lz_pos s) (lz_head s, lz_prev s))"
    "length (lz_out (lz_step input s)) \<le> length (lz_out s) + 2"
    using assms lz_step_frame(6) [of s]
    by (auto simp: lz_step_frame lz_emit_def MIN_MATCH_def Let_def split: prod.split)
qed

lemma lz_loop_run:
  "run_chain n b (lz_pos s) (lz_head s) \<Longrightarrow> 1 \<le> lz_pos s \<Longrightarrow> lz_pos s \<le> n \<Longrightarrow> n < 2 ^ 31 \<Longrightarrow>
   length (lz_out (lz_loop (replicate n b) s)) \<le> length (lz_out s) + (n - lz_pos s) + min 2 (n - lz_pos s)"
proof (induction "replicate n b" s rule: lz_loop.induct)
  case (1 s)
  let ?s = "lz_step (replicate n b) s" and ?len = "min (n - lz_pos s) MAX_MATCH"
  consider "lz_pos s = n" | "lz_pos s < n" "n < lz_pos s + 3" | "lz_pos s + 3 \<le> n" using "1.prems"(3) by linarith
  then show ?case
  proof cases
    case 1
    then show ?thesis by (subst lz_loop.simps) simp
  next
    case 2
    have "lz_find (replicate n b) (lz_open_group s) = (0, 0)"
      using 2 by (simp add: lz_find_def lz_step_frame MIN_MATCH_def)
    note l = lz_step_literal [OF this]
    have "run_chain n b (lz_pos ?s) (lz_head ?s)"
      using run_chain_insert [OF "1.prems"(1,4)] by (simp add: l)
    then have "length (lz_out (lz_loop (replicate n b) ?s)) \<le> length (lz_out ?s) + (n - lz_pos ?s) + min 2 (n - lz_pos ?s)"
      using "1.hyps" "1.prems" 2 by (simp add: l)
    then show ?thesis using 2 l by (subst lz_loop.simps) simp
  next
    case 3
    note l = lz_step_run [OF "1.prems"(1,2) 3 "1.prems"(4)]
    have "length (lz_out (lz_loop (replicate n b) ?s)) \<le> length (lz_out ?s) + (n - lz_pos ?s) + min 2 (n - lz_pos ?s)"
      using "1.hyps" "1.prems" 3 l by simp
    moreover have "(if ?len \<le> 17 then 3 else 4) \<le> ?len" using 3 by (auto simp: MAX_MATCH_def)
    moreover have "lz_pos s + ?len \<le> n" using 3 by simp
    ultimately have "length (lz_out (lz_loop (replicate n b) ?s)) \<le> length (lz_out s) + (n - lz_pos s) + min 2 (n - lz_pos s)"
      using 3 l(1,3) by linarith
    then show ?thesis using 3 by (subst lz_loop.simps) simp
  qed
qed

lemma lz_run_shrinks:
  assumes "32 \<le> n" "n < 2 ^ 31"
  shows "Suc (length (lz_compress (replicate n b))) < n"
proof -
  let ?in = "replicate n b"
  define s0 :: lz_state where "s0 = \<lparr>lz_out = put_varint (of_nat n), lz_head = replicate HASH_SIZE (-1),
    lz_prev = replicate n (-1), lz_flags_pos = 0, lz_flags = 0, lz_nflags = 0, lz_pos = 0\<rparr>"
  let ?s1 = "lz_step ?in s0" let ?s2 = "lz_step ?in ?s1"
  have h: "lz_head (lz_open_group s0) ! hash3 ?in 0 = -1"
    using hash3_less [of ?in 0] by (simp add: lz_step_frame s0_def)
  obtain k where k: "MAX_CHAIN = Suc k" by (simp add: MAX_CHAIN_def)
  have p0: "lz_pos s0 = 0" by (simp add: s0_def)
  have "lz_find ?in (lz_open_group s0) = (0, 0)"
    unfolding lz_find_def lz_step_frame(4) p0 k Let_def using h by simp
  note l = lz_step_literal [OF this]
  have "run_chain n b 0 (lz_head s0)" by (simp add: run_chain_def s0_def)
  then have c1: "run_chain n b (lz_pos ?s1) (lz_head ?s1)"
    using run_chain_insert [of n b 0] assms(2) by (simp add: l) (simp add: s0_def)
  have p1: "lz_pos ?s1 = 1" using l(1) by (simp add: s0_def)
  note m = lz_step_run [OF c1, unfolded p1, OF order_refl _ assms(2)]
  let ?len = "min (n - 1) MAX_MATCH"
  have m': "lz_pos ?s2 = 1 + ?len" "run_chain n b (lz_pos ?s2) (lz_head ?s2)"
    "length (lz_out ?s2) \<le> length (lz_out ?s1) + 4" "31 \<le> ?len"
    using m assms(1) by (auto simp: MAX_MATCH_def split: if_splits)
  have "length (lz_out (lz_loop ?in ?s2)) \<le> length (lz_out ?s2) + (n - lz_pos ?s2) + min 2 (n - lz_pos ?s2)"
    using m' assms by (intro lz_loop_run) simp_all
  moreover have "length (lz_out ?s1) \<le> 12" using l(3) varint_len_bounds(2) [of "of_nat n"]
    by (simp add: s0_def length_put_varint)
  ultimately have "Suc (length (lz_out (lz_loop ?in ?s2))) < n" using m' assms by linarith
  moreover have "lz_loop ?in s0 = lz_loop ?in ?s2"
    using assms(1) p0 p1 lz_loop.simps [of ?in s0] lz_loop.simps [of ?in ?s1] by simp
  ultimately show ?thesis by (simp add: lz_compress_def Let_def flip: s0_def)
qed

section \<open>The backends answer, and compress\<close>

lemma lz_answers: "compress Lz body = Some (if length (lz_compress body) < length body then Some (lz_compress body) else None)"
  by (simp add: Lz_def Let_def)

lemma densa_answers:
  assumes "Suc (length (lz_compress body)) < length body" "length body < 2 ^ 64"
  shows "\<exists>packed. compress Densa body = Some (Some packed)"
proof (cases "rc_compress (lz_compress body)")
  case None
  then show ?thesis using rc_compress_total by simp
next
  case (Some r)
  show ?thesis
  proof (cases r)
    case None
    then show ?thesis using Some assms by (simp add: Densa_def densa_compress_def Let_def)
  next
    case (Some c)
    then have "length c < length (lz_compress body)"
      using \<open>rc_compress (lz_compress body) = Some r\<close> rc_decompress_compress(2) [of "lz_compress body" c] assms by simp
    then show ?thesis
      using length_lz_compress [of body c] \<open>rc_compress (lz_compress body) = Some r\<close> Some assms by simp
  qed
qed

lemma lz_total: "compress Lz body \<noteq> None" "decompress Lz data \<noteq> None"
  by (simp_all add: Lz_def)

lemma backend_answers:
  assumes "c \<in> {Densa, Lz}" "length body < 2 ^ 64"
  shows "\<exists>r. compress c body = Some r \<and> (case r of
      None \<Rightarrow> length body \<le> Suc (length (lz_compress body))
    | Some packed \<Rightarrow> decompress c packed = Some (Some body) \<and> length packed < length body)"
proof -
  have "compress c body \<noteq> None" using assms(1) densa_total lz_total by auto
  then obtain r where r: "compress c body = Some r" by blast
  have "backend_ok c" using assms(1) backend_ok_Densa backend_ok_Lz by auto
  then have "decompress c packed = Some (Some body) \<and> length packed < length body" if "r = Some packed" for packed
    using r that assms(2) unfolding backend_ok_def by blast
  moreover have "length body \<le> Suc (length (lz_compress body))" if "r = None"
    using assms r that lz_answers [of body] densa_answers [of body] by (cases "length body \<le> Suc (length (lz_compress body))")
      (auto split: if_splits)
  ultimately show ?thesis using r by (intro exI [of _ r]) (simp split: option.split)
qed

lemma run_packed:
  assumes "c \<in> {Densa, Lz}" "32 \<le> n" "n < 2 ^ 31"
  shows "\<exists>packed. compress c (replicate n b) = Some (Some packed) \<and>
    decompress c packed = Some (Some (replicate n b)) \<and> length packed < n"
proof -
  have "length (replicate n b) < 2 ^ 64" using assms(3) by simp
  from backend_answers [OF assms(1) this] show ?thesis
    using lz_run_shrinks [OF assms(2,3), of b] by (auto split: option.splits)
qed

end
