(* ===== verification/PagerProps.thy ===== *)
theory PagerProps
  imports PagerLaws CompressRuns
begin

text \<open>
  The properties of the storage below the tree: sealing (\<^verbatim>\<open>src/crypto.rs\<close>), error correction (\<^verbatim>\<open>src/ecc.rs\<close>),
  compression (\<^verbatim>\<open>src/compress.rs\<close>), the page cache and the pager (\<^verbatim>\<open>src/pager.rs\<close>).
\<close>

section \<open>Sealing\<close>

text \<open>C21: What a provider seals for a page it opens for that page, with or without encryption, at the cost of the
  fixed reserve; and different nonce counters give different nonces.\<close>

lemma sealed_page_opens:
  assumes "key = None \<or> aead_ok a"
  shows "open_bytes (provider_for sha a key file_id) (seal_bytes (provider_for sha a key file_id) body pid n) pid = Inr body \<and>
    length (seal_bytes (provider_for sha a key file_id) body pid n) = CRYPTO_RESERVE + length body \<and>
    (nonce_bytes n = nonce_bytes m \<longleftrightarrow> n = m)"
proof -
  note ok = provider_for_ok [OF assms, of sha file_id]
  show ?thesis using crypto_provider.open_seal [OF ok] crypto_provider.length_seal [OF ok] nonce_bytes_inject by blast
qed

text \<open>Concrete stand-ins for the parameters, for the witnesses only.\<close>

definition sample_sha :: hash where "sample_sha = (\<lambda>_. Digest (replicate 32 0))"

definition toy_aead :: aead where
  "toy_aead = \<lparr>aead_encrypt = (\<lambda>key nonce aad text. (text, replicate TAG_LEN 0)),
     aead_decrypt = (\<lambda>key nonce aad text tag. Some text)\<rparr>"

lemma sealed_page_opens_witness:
  "open_bytes (provider_for sample_sha toy_aead (Some [1]) []) (seal_bytes (provider_for sample_sha toy_aead (Some [1]) []) [4, 5] 3 1) 3 = Inr [4, 5]"
  using sealed_page_opens [of "Some [1]" toy_aead sample_sha "[]" "[4, 5]" 3 1] by (simp add: aead_ok_def toy_aead_def)

text \<open>Without encryption, bytes open for a page only if they are exactly what sealing the opened body for that
  page gives: a changed nonce, tag, body or page number is noticed unless the truncated digests collide.\<close>

lemma plain_open_only_sealed:
  assumes "plain_open_bytes sha stored pid = Inr body"
  shows "stored = plain_seal_bytes sha body pid n \<and>
    (plain_open_bytes sha stored pid' = Inr body' \<longrightarrow> body' = body \<and> plain_tag sha pid' body = plain_tag sha pid body)"
  using plain_open_covers [OF assms, of n] plain_moved by blast

lemma plain_open_only_sealed_witness:
  "plain_seal_bytes sample_sha [1] 3 0 = plain_seal_bytes sample_sha [1] 3 9"
proof -
  have "plain_open_bytes sample_sha (plain_seal_bytes sample_sha [1] 3 0) 3 = Inr [1]"
    using plain.open_seal [of sample_sha "[1]" 3 0] by (simp add: PlainProvider_def)
  then show ?thesis using plain_open_only_sealed [of sample_sha _ 3 "[1]" 9] by blast
qed

section \<open>Error correction\<close>

text \<open>C7: Data protected by Reed-Solomon parity is returned by the corrector: unchanged data always, and damaged data,
  when no block has more wrong bytes than half its parity bytes and the corrector answers, as the original.\<close>

lemma ecc_never_wrong_within_budget:
  assumes "0 < nsym" "nsym < 255" "length rd = length data" "length rp = length (parity data nsym)"
    and "\<And>i. i < div_ceil (length data) (data_per_block nsym) \<Longrightarrow>
      hamming (block_at (data_per_block nsym) i rd @ block_at nsym i rp)
        (block_at (data_per_block nsym) i data @ block_at nsym i (parity data nsym)) \<le> nsym div 2"
  shows "correct data (parity data nsym) nsym = Some data \<and> (correct rd rp nsym = None \<or> correct rd rp nsym = Some data)"
  using correct_clean [OF assms(1,2), of data] correct_within_budget [OF assms] by (cases "correct rd rp nsym") auto

lemma ecc_never_wrong_within_budget_witness: "correct [1, 2, 3] (parity [1, 2, 3] 4) 4 = Some [1, 2, 3]"
  using ecc_never_wrong_within_budget [of 4 "[1, 2, 3]" "[1, 2, 3]" "parity [1, 2, 3] 4"] by simp

text \<open>Two different codewords of the same length differ in more bytes than they have parity.\<close>

lemma codewords_far_apart:
  assumes "length d1 = length d2" "length d1 + nsym \<le> 255" "d1 \<noteq> d2"
  shows "nsym < hamming (d1 @ encode_block d1 nsym) (d2 @ encode_block d2 nsym)"
proof (rule ccontr)
  assume "\<not> ?thesis"
  then have "d1 @ encode_block d1 nsym = d2 @ encode_block d2 nsym"
    using codeword_distance [OF encode_block_codeword encode_block_codeword] assms(1,2) by simp
  then show False using assms by simp
qed

lemma codewords_far_apart_witness: "4 < hamming ([1] @ encode_block [1] 4) ([2] @ encode_block [2] 4)"
  using codewords_far_apart [of "[1]" "[2]" 4] by simp

section \<open>Compression\<close>

text \<open>C12: The LZ compressor's output decompresses to its input, for every input.\<close>

lemma lz_round_trip:
  assumes "length input < 2 ^ 64"
  shows "lz_decompress (lz_compress input) = Some input"
  by (rule lz_decompress_compress [OF assms])

lemma lz_round_trip_witness: "lz_decompress (lz_compress [1, 1, 1, 1, 1, 1, 2]) = Some [1, 1, 1, 1, 1, 1, 2]"
  using lz_round_trip [of "[1, 1, 1, 1, 1, 1, 2]"] by simp



section \<open>Cache and pager\<close>

text \<open>Inserting into the sharded CLOCK cache returns, whatever the reference bits, keeps the cache's invariant and
  the capacity of every shard, and afterwards the cache holds the new page and no page it did not hold before.\<close>

lemma cache_insert_total:
  assumes "sc_ok c"
  shows "\<exists>c'. sc_insert pid page c = Some c' \<and> sc_ok c' \<and> fst (sc_get c' pid) = Some page \<and>
    (\<forall>q. q \<noteq> pid \<longrightarrow> fst (sc_get c' q) = fst (sc_get c q) \<or> fst (sc_get c' q) = None)"
proof -
  obtain c' where c: "sc_insert pid page c = Some c'" using cache.insert_returns [OF assms] by blast
  show ?thesis using c cache.insert_view [OF assms c] cache.get_view assms by auto
qed

lemma cache_insert_total_witness: "\<exists>c'. sc_insert 9 page_zeroed (sc_new 4 2) = Some c' \<and> fst (sc_get c' 9) = Some page_zeroed"
  using cache_insert_total [OF sc_ok_new, of 9 page_zeroed 4 2] by blast

text \<open>C3: The pager refines a list of pages: appending a page gives the next identifier and extends the list, advances
  the nonce counter, and afterwards every page of the list, the new one included, reads as it was appended, through
  compression, sealing, parity, the directory and the cache.\<close>

lemma append_then_read:
  assumes "pager_rep pg bs" "length (build (page_body page_zeroed)) = BODY_SIZE" "length bs + 1 < 2 ^ 62"
    "df_budget (pg_file pg) = None"
  shows "\<exists>pg'. append_page build pg = Some (Inr (FIRST_DATA_PAGE + of_nat (length bs)), pg') \<and>
    pager_rep pg' (bs @ [build (page_body page_zeroed)]) \<and>
    as_nonce_counter (pg_state pg') = as_nonce_counter (pg_state pg) + 1 \<and>
    (\<forall>i < length bs + 1. \<exists>pg''. read_page (FIRST_DATA_PAGE + of_nat i) pg' =
       Some (Inr (page_of ((bs @ [build (page_body page_zeroed)]) ! i)), pg''))"
proof -
  obtain pg' where p: "append_page build pg = Some (Inr (FIRST_DATA_PAGE + of_nat (length bs)), pg')"
    "pager_rep pg' (bs @ [build (page_body page_zeroed)])"
    "as_nonce_counter (pg_state pg') = as_nonce_counter (pg_state pg) + 1"
    using append_page_spec [of pg bs build, OF assms] by blast
  have "\<exists>pg''. read_page (FIRST_DATA_PAGE + of_nat i) pg' =
       Some (Inr (page_of ((bs @ [build (page_body page_zeroed)]) ! i)), pg'')" if "i < length bs + 1" for i
    using read_page_spec [OF p(2), of i] that by auto
  then show ?thesis using p by blast
qed

definition sample_pager :: "hash \<Rightarrow> pager" where
  "sample_pager sha = \<lparr>pg_file = \<lparr>df_bytes = replicate 12288 0, df_budget = None\<rparr>,
     pg_header = \<lparr>fh_flags = 0, fh_file_id = replicate 16 0, fh_kdf_salt = replicate 16 0, fh_ecc_nsym = 4\<rparr>,
     pg_plain = PlainProvider sha, pg_crypto = PlainProvider sha, pg_master_key = None, pg_compressor = None,
     pg_cache = sc_new 4 16, pg_state = fresh_state\<rparr>"

lemma sample_pager_rep: "pager_rep (sample_pager sha) []"
  using plain.crypto_provider_axioms sc_ok_new [of 4 16]
  by (auto intro!: exI [of _ Map.empty] simp: cache_for_def pager_rep_def sample_pager_def fresh_state_def comp_ok_def byte_offset_def FIRST_DATA_PAGE_def
      cache.agrees_def sc_view_new size_consts pages_map_def)

lemma append_then_read_witness:
  "\<exists>pg'. append_page (\<lambda>b. b[0 := 7]) (sample_pager sample_sha) = Some (Inr 3, pg') \<and>
     (\<exists>pg''. read_page 3 pg' = Some (Inr (page_of ((page_body page_zeroed)[0 := 7])), pg''))"
proof -
  have "length ((page_body page_zeroed)[0 := 7]) = BODY_SIZE" by (simp add: page_body_def page_zeroed_def size_consts)
  then show ?thesis
    using append_then_read [OF sample_pager_rep, of "\<lambda>b. b[0 := 7]" sample_sha] by (auto simp: sample_pager_def FIRST_DATA_PAGE_def)
qed

end
