(* ===== verification/Commit.thy ===== *)
theory Commit
  imports Pager Utf8
begin

text \<open>
  The commit chain (\<^verbatim>\<open>src/commit.rs\<close>): the header page of a commit, the hash chain from the identity of the file,
  recovery on opening and the audit of the whole history.  Versions, page numbers and counters are words, so their
  sums wrap as they do in a release build; a branch name is its UTF-8 bytes.  Reading a page is an operation of the
  pager's state (its cache), so recovery and audit are state transformers; the audit's walk back along \<^verbatim>\<open>prev_page\<close>
  is a partial function, since nothing in the code bounds it.
\<close>

section \<open>Errors that are caught\<close>

text \<open>\<^verbatim>\<open>Result::ok\<close> and \<^verbatim>\<open>Result::map_err\<close>; a panic passes through both.\<close>

definition scatch :: "('s, 'a) sx \<Rightarrow> ('s, 'a option) sx" where
  "scatch m s =
     (case m s of
        None \<Rightarrow> None
      | Some (Inl e, s) \<Rightarrow> if e = Panic then Some (Inl Panic, s) else Some (Inr None, s)
      | Some (Inr x, s) \<Rightarrow> Some (Inr (Some x), s))"

definition smap_err :: "error \<Rightarrow> ('s, 'a) sx \<Rightarrow> ('s, 'a) sx" where
  "smap_err err m s =
     (case m s of
        None \<Rightarrow> None
      | Some (Inl e, s) \<Rightarrow> Some (Inl (if e = Panic then Panic else err), s)
      | Some (Inr x, s) \<Rightarrow> Some (Inr x, s))"

section \<open>The header of a commit\<close>

definition BRANCH_MAX :: nat where "BRANCH_MAX = 64"
definition COMMIT_FLAG_CHECKPOINT :: u32 where "COMMIT_FLAG_CHECKPOINT = 1"

record commit_header =
  ch_flags :: u32
  ch_version :: u64
  ch_parent_page :: u64
  ch_prev_page :: u64
  ch_timestamp_ms :: u64
  ch_data_root :: page_id
  ch_meta_root :: page_id
  ch_nonce_counter :: u64
  ch_pages_written :: u64
  ch_branch :: bytes
  ch_content_hash :: digest
  ch_prev_chain :: digest
  ch_chain_hash :: digest

definition commit_encode_into :: "commit_header \<Rightarrow> bytes \<Rightarrow> bytes" where
  "commit_encode_into h body =
     (let body = blit body 0 MAGIC_COMMIT;
          body = blit body 8 (u32_le (ch_flags h));
          body = blit body 12 (replicate 4 0);
          body = blit body 16 (u64_le (ch_version h));
          body = blit body 24 (u64_le (ch_parent_page h));
          body = blit body 32 (u64_le (ch_prev_page h));
          body = blit body 40 (u64_le (ch_timestamp_ms h));
          body = blit body 48 (u64_le (ch_data_root h));
          body = blit body 56 (u64_le (ch_meta_root h));
          body = blit body 64 (u64_le (ch_nonce_counter h));
          body = blit body 72 (u64_le (ch_pages_written h));
          body = blit body 80 (replicate BRANCH_MAX 0);
          body = blit body 80 (ch_branch h);
          body = blit body 144 (digest_bytes (ch_content_hash h));
          body = blit body 176 (digest_bytes (ch_prev_chain h))
      in blit body 208 (digest_bytes (ch_chain_hash h)))"

definition arr32 :: "bytes \<Rightarrow> nat \<Rightarrow> digest" where "arr32 body off = Digest (take 32 (drop off body))"

definition commit_decode :: "bytes \<Rightarrow> commit_header option" where
  "commit_decode body =
     (if take 8 body \<noteq> MAGIC_COMMIT then None
      else
        let raw = take BRANCH_MAX (drop 80 body); branch = takeWhile (\<lambda>b. b \<noteq> 0) raw in
        if \<not> valid_utf8 branch then None
        else Some \<lparr>ch_flags = le_u32 body 8, ch_version = le_u64 body 16, ch_parent_page = le_u64 body 24,
                   ch_prev_page = le_u64 body 32, ch_timestamp_ms = le_u64 body 40, ch_data_root = le_u64 body 48,
                   ch_meta_root = le_u64 body 56, ch_nonce_counter = le_u64 body 64, ch_pages_written = le_u64 body 72,
                   ch_branch = branch, ch_content_hash = arr32 body 144, ch_prev_chain = arr32 body 176,
                   ch_chain_hash = arr32 body 208\<rparr>)"

text \<open>The bytes under the chain hash; a branch name that does not fit its field is a panic.\<close>

definition chain_message :: "commit_header \<Rightarrow> bytes" where
  "chain_message h =
     digest_bytes (ch_prev_chain h) @ digest_bytes (ch_content_hash h) @ u64_le (ch_version h) @ u64_le (ch_timestamp_ms h) @
     u64_le (ch_data_root h) @ u64_le (ch_meta_root h) @ blit (replicate BRANCH_MAX 0) 0 (ch_branch h)"

definition compute_chain :: "hash \<Rightarrow> commit_header \<Rightarrow> digest res" where
  "compute_chain sha h = (if length (ch_branch h) > BRANCH_MAX then Inl Panic else Inr (sha (chain_message h)))"

definition self_consistent :: "hash \<Rightarrow> commit_header \<Rightarrow> bool res" where
  "self_consistent sha h = rbind (compute_chain sha h) (\<lambda>c. Inr (ch_chain_hash h = c))"

definition genesis_chain :: "hash \<Rightarrow> bytes \<Rightarrow> digest" where
  "genesis_chain sha file_id = sha (MAGIC_HEADER @ file_id)"

section \<open>The head\<close>

record head =
  hd_version :: u64
  hd_commit_page :: u64
  hd_data_root :: page_id
  hd_meta_root :: page_id
  hd_chain_hash :: digest
  hd_nonce_counter :: u64
  hd_n_pages :: u64

definition genesis_head :: "hash \<Rightarrow> bytes \<Rightarrow> head" where
  "genesis_head sha file_id =
     \<lparr>hd_version = 0, hd_commit_page = 0, hd_data_root = 0, hd_meta_root = 0, hd_chain_hash = genesis_chain sha file_id,
      hd_nonce_counter = 0, hd_n_pages = FIRST_DATA_PAGE\<rparr>"

definition head_from :: "commit_header \<Rightarrow> page_id \<Rightarrow> head" where
  "head_from h page =
     \<lparr>hd_version = ch_version h, hd_commit_page = page, hd_data_root = ch_data_root h, hd_meta_root = ch_meta_root h,
      hd_chain_hash = ch_chain_hash h, hd_nonce_counter = ch_nonce_counter h, hd_n_pages = page + 1\<rparr>"

definition meta_for :: "head \<Rightarrow> meta_slot" where
  "meta_for h = \<lparr>ms_version = hd_version h, ms_last_commit_page = hd_commit_page h, ms_n_pages = hd_n_pages h\<rparr>"

section \<open>Recovery\<close>

definition try_head_at :: "hash \<Rightarrow> page_id \<Rightarrow> (pager, head option) sx" where
  "try_head_at sha page =
     sbind (scatch (read_page page)) (\<lambda>buf.
       case Option.bind buf (\<lambda>p. commit_decode (page_body p)) of
         None \<Rightarrow> sret None
       | Some h \<Rightarrow> sbind (slift (self_consistent sha h)) (\<lambda>ok. sret (if ok then Some (head_from h page) else None)))"

text \<open>The first candidate slot, newest first, that gives a head.\<close>

fun first_head :: "hash \<Rightarrow> meta_slot list \<Rightarrow> head \<Rightarrow> (pager, head) sx" where
  "first_head sha [] genesis = sret genesis"
| "first_head sha (m # ms) genesis =
     (if ms_last_commit_page m < FIRST_DATA_PAGE then first_head sha ms genesis
      else sbind (try_head_at sha (ms_last_commit_page m)) (\<lambda>r. case r of
             Some h \<Rightarrow> sret h
           | None \<Rightarrow> first_head sha ms genesis))"

text \<open>A commit that continues the chain of the head, or the checkpoint that opens a compacted file.\<close>

definition chains_on :: "head \<Rightarrow> commit_header \<Rightarrow> bool" where
  "chains_on head h \<longleftrightarrow>
     ch_version h = hd_version head + 1 \<and> ch_prev_chain h = hd_chain_hash head \<or>
     hd_commit_page head = 0 \<and> ch_flags h AND COMMIT_FLAG_CHECKPOINT \<noteq> 0 \<and> ch_prev_chain h = hd_chain_hash head"

fun recover_scan :: "hash \<Rightarrow> nat list \<Rightarrow> head \<Rightarrow> (pager, head) sx" where
  "recover_scan sha [] head = sret head"
| "recover_scan sha (pid # pids) head =
     sbind (scatch (read_page (of_nat pid))) (\<lambda>buf. case buf of
         None \<Rightarrow> sret head
       | Some p \<Rightarrow>
           (case commit_decode (page_body p) of
              None \<Rightarrow> recover_scan sha pids head
            | Some h \<Rightarrow>
                if chains_on head h then
                  sbind (slift (self_consistent sha h)) (\<lambda>ok.
                    if ok then recover_scan sha pids (head_from h (of_nat pid)) else sret head)
                else sret head))"

definition recover :: "hash \<Rightarrow> (pager, head) sx" where
  "recover sha pg =
     sbind (first_head sha (sort_key (\<lambda>m. - uint (ms_version m)) (meta_slots pg))
              (genesis_head sha (fh_file_id (pg_header pg)))) (\<lambda>head pg.
       recover_scan sha [unat (hd_n_pages head)..<unat (n_pages pg)] head pg) pg"

section \<open>Audit\<close>

record audit_report =
  ar_head :: u64
  ar_commits :: u64
  ar_chain_ok :: bool
  ar_chain_hash :: digest

record audit_anchor =
  aa_version :: u64
  aa_chain_hash :: digest

definition anchor :: "audit_report \<Rightarrow> audit_anchor" where
  "anchor r = \<lparr>aa_version = ar_head r, aa_chain_hash = ar_chain_hash r\<rparr>"

definition saturating_sub :: "u64 \<Rightarrow> u64 \<Rightarrow> u64" where
  "saturating_sub a b = (if b \<le> a then a - b else 0)"

text \<open>The walk back; the list comes out from the oldest commit to the head, as after \<^verbatim>\<open>reverse\<close>.\<close>

partial_function (option) collect_headers ::
    "u64 \<Rightarrow> page_id \<Rightarrow> (page_id \<times> commit_header) list \<Rightarrow> pager \<Rightarrow> ((page_id \<times> commit_header) list res \<times> pager) option" where
  "collect_headers version page headers pg =
     (if page = 0 then sret headers pg
      else
        let at = saturating_sub version (of_nat (length headers)) in
        sbind (smap_err (ChainBroken at ''pagina de commit ilegible o corrupta'') (read_page page)) (\<lambda>buf pg.
          case commit_decode (page_body buf) of
            None \<Rightarrow> sthrow (ChainBroken at ''pagina de commit mal formada'') pg
          | Some h \<Rightarrow> collect_headers version (ch_prev_page h) ((page, h) # headers) pg) pg)"

fun content_bodies :: "u64 \<Rightarrow> nat list \<Rightarrow> (pager, bytes) sx" where
  "content_bodies version [] = sret []"
| "content_bodies version (dp # dps) =
     sbind (smap_err (ChainBroken version ''pagina de datos ilegible o corrupta'') (read_page (of_nat dp))) (\<lambda>buf.
     sbind (content_bodies version dps) (\<lambda>rest. sret (page_body buf @ rest)))"

text \<open>One commit: its version, its pages, its link, its own hash and the anchor.\<close>

definition verify_commit ::
    "hash \<Rightarrow> audit_anchor option \<Rightarrow> page_id \<times> commit_header \<Rightarrow> digest \<times> u64 \<times> bool \<Rightarrow> (pager, digest \<times> u64 \<times> bool) sx" where
  "verify_commit sha anch = (\<lambda>(pid, h) (prev_chain, expected, seen).
     let expected = expected + 1; broken = ChainBroken (ch_version h) in
     if ch_version h \<noteq> expected then sthrow (broken ''version fuera de secuencia'')
     else
       let data_count = saturating_sub (ch_pages_written h) 1 in
       if pid < data_count then sthrow (broken ''pages_written invalido'')
       else
         sbind (content_bodies (ch_version h) [unat (pid - data_count)..<unat pid]) (\<lambda>content.
           if sha content \<noteq> ch_content_hash h then sthrow (broken ''content_hash no coincide'')
           else if ch_prev_chain h \<noteq> prev_chain then sthrow (broken ''prev_chain no enlaza'')
           else sbind (slift (compute_chain sha h)) (\<lambda>c.
             if ch_chain_hash h \<noteq> c then sthrow (broken ''chain_hash inconsistente'')
             else
               (case anch of
                  Some a \<Rightarrow>
                    if ch_version h = aa_version a then
                      (if ch_chain_hash h \<noteq> aa_chain_hash a
                       then sthrow (broken ''el ancla no coincide: la historia fue reescrita'')
                       else sret (ch_chain_hash h, expected, True))
                    else sret (ch_chain_hash h, expected, seen)
                | None \<Rightarrow> sret (ch_chain_hash h, expected, seen)))))"

fun verify_loop ::
    "hash \<Rightarrow> audit_anchor option \<Rightarrow> (page_id \<times> commit_header) list \<Rightarrow> digest \<times> u64 \<times> bool \<Rightarrow> (pager, digest \<times> u64 \<times> bool) sx" where
  "verify_loop sha anch [] st = sret st"
| "verify_loop sha anch (c # cs) st = sbind (verify_commit sha anch c st) (verify_loop sha anch cs)"

text \<open>The version before the first commit: a compacted file starts at its checkpoint.\<close>

definition first_expected :: "(page_id \<times> commit_header) list \<Rightarrow> u64" where
  "first_expected headers = (case headers of
      (_, h) # _ \<Rightarrow> if ch_flags h AND COMMIT_FLAG_CHECKPOINT \<noteq> 0 then saturating_sub (ch_version h) 1 else 0
    | [] \<Rightarrow> 0)"

text \<open>The walk must end at the live head and have met the anchor.\<close>

definition verify_finish ::
    "head \<Rightarrow> audit_anchor option \<Rightarrow> nat \<Rightarrow> digest \<times> u64 \<times> bool \<Rightarrow> audit_report res" where
  "verify_finish head anch n = (\<lambda>(prev_chain, expected, seen).
     if expected \<noteq> hd_version head then Inl (ChainBroken expected ''el recorrido no llega al head'')
     else if prev_chain \<noteq> hd_chain_hash head
     then Inl (ChainBroken (hd_version head) ''el chain_hash del head no coincide'')
     else
       rbind (case anch of
           Some a \<Rightarrow>
             if seen then Inr ()
             else if aa_version a > hd_version head
             then Inl (ChainBroken (hd_version head) ''el ancla apunta a una version futura: faltan commits'')
             else Inl (ChainBroken (aa_version a) ''la version del ancla ya no esta (compactada por vacuum)'')
         | None \<Rightarrow> Inr ())
         (\<lambda>_. Inr \<lparr>ar_head = hd_version head, ar_commits = of_nat n, ar_chain_ok = True, ar_chain_hash = hd_chain_hash head\<rparr>))"

definition verify_anchored :: "hash \<Rightarrow> head \<Rightarrow> audit_anchor option \<Rightarrow> (pager, audit_report) sx" where
  "verify_anchored sha head anch =
     sbind (collect_headers (hd_version head) (hd_commit_page head) []) (\<lambda>headers pg.
       sbind (verify_loop sha anch headers (genesis_chain sha (fh_file_id (pg_header pg)), first_expected headers, False))
         (\<lambda>st. slift (verify_finish head anch (length headers) st)) pg)"

definition verify :: "hash \<Rightarrow> head \<Rightarrow> (pager, audit_report) sx" where
  "verify sha head = verify_anchored sha head None"

end
