(* ===== verification/TxCommit.thy ===== *)
theory TxCommit
  imports Commit BtreeScan
begin

text \<open>
  Publishing a transaction (\<^verbatim>\<open>src/tx.rs\<close>): the global index of versions and branches, the pages of a commit and
  its header, the meta slot, and the opening of a store with recovery and the margin of nonces.  A transaction reads
  through \<open>page_reader pg\<close>, the pager as it was when the transaction began: reading moves only the cache.  The time of
  a commit is a parameter.
\<close>

definition MAIN_BRANCH :: bytes where "MAIN_BRANCH = ascii ''main''"
definition META_REF :: u8 where "META_REF = 0x01"
definition META_HIST :: u8 where "META_HIST = 0x02"

definition page_reader :: "pager \<Rightarrow> page_id \<Rightarrow> page_buf res" where
  "page_reader pg pid = (case read_page pid pg of None \<Rightarrow> Inl Panic | Some (r, _) \<Rightarrow> r)"

definition pager_source :: "pager \<Rightarrow> source" where
  "pager_source pg pid = rbind (page_reader pg pid) (\<lambda>p. Inr (page_body p))"

definition begin_store :: "pager \<Rightarrow> tx_store" where
  "begin_store pg = tx_store_new (page_reader pg) (n_pages pg)"

section \<open>The index of versions and branches\<close>

definition hist_key :: "u64 \<Rightarrow> bytes" where "hist_key version = META_HIST # u64_be version"
definition ref_key :: "bytes \<Rightarrow> bytes" where "ref_key branch = META_REF # branch"

definition write_meta_indices ::
    "page_id \<Rightarrow> u64 \<Rightarrow> page_id \<Rightarrow> u64 \<Rightarrow> bytes \<Rightarrow> u64 \<Rightarrow> (tx_store, page_id) sx" where
  "write_meta_indices meta_root version data_root timestamp_ms branch parent_version =
     sbind (btree_insert meta_root (hist_key version) (u64_le data_root @ u64_le timestamp_ms @ u64_le parent_version)) (\<lambda>root.
       btree_insert root (ref_key branch) (u64_le version))"

section \<open>Writing a commit\<close>

record commit_params =
  cp_version :: u64
  cp_flags :: u32
  cp_prev_page :: u64
  cp_prev_chain :: digest
  cp_branch :: bytes
  cp_parent_page :: u64

definition params_after :: "head \<Rightarrow> bytes \<Rightarrow> u64 \<Rightarrow> commit_params" where
  "params_after base branch parent_page =
     \<lparr>cp_version = hd_version base + 1, cp_flags = 0, cp_prev_page = hd_commit_page base,
      cp_prev_chain = hd_chain_hash base, cp_branch = branch, cp_parent_page = parent_page\<rparr>"

text \<open>
  The pages in the order of their ids, a page that was allocated and freed as zeros: the bytes under the content hash,
  the position behind them, and their directory entries.
\<close>

fun write_pages ::
    "(page_id \<rightharpoonup> page_buf) \<Rightarrow> nat list \<Rightarrow> nat \<Rightarrow> (pager, bytes \<times> nat \<times> (page_id \<times> phys_loc) list) sx" where
  "write_pages d [] cursor = sret ([], cursor, [])"
| "write_pages d (pid # pids) cursor =
     (let pd = of_nat pid; page = (case d pd of Some p \<Rightarrow> p | None \<Rightarrow> page_zeroed) in
      sbind (write_record_at pd (page_body page) cursor) (\<lambda>(rec_len, loc).
      sbind (cache_insert pd page) (\<lambda>_.
      sbind (write_pages d pids (cursor + rec_len)) (\<lambda>(content, cursor, entries).
        sret (page_body page @ content, cursor, (pd, loc) # entries)))))"

definition commit_header_of ::
    "hash \<Rightarrow> commit_params \<Rightarrow> page_id \<Rightarrow> page_id \<Rightarrow> u64 \<Rightarrow> u64 \<Rightarrow> u64 \<Rightarrow> bytes \<Rightarrow> commit_header res" where
  "commit_header_of sha params data_root meta_root timestamp_ms nonce_counter pages_written content =
     (let header = \<lparr>ch_flags = cp_flags params, ch_version = cp_version params, ch_parent_page = cp_parent_page params,
            ch_prev_page = cp_prev_page params, ch_timestamp_ms = timestamp_ms, ch_data_root = data_root,
            ch_meta_root = meta_root, ch_nonce_counter = nonce_counter, ch_pages_written = pages_written,
            ch_branch = cp_branch params, ch_content_hash = sha content, ch_prev_chain = cp_prev_chain params,
            ch_chain_hash = Digest (replicate 32 0)\<rparr>
      in rbind (compute_chain sha header) (\<lambda>c. Inr (header\<lparr>ch_chain_hash := c\<rparr>)))"

definition write_commit_pages ::
    "hash \<Rightarrow> tx_store \<Rightarrow> commit_params \<Rightarrow> page_id \<Rightarrow> page_id \<Rightarrow> u64 \<Rightarrow> (pager, head) sx" where
  "write_commit_pages sha ts params data_root meta_root timestamp_ms pg =
     (let commit_page = alloc_next ts; pids = [unat (alloc_base ts)..<unat (alloc_next ts)] in
      sbind (write_pages (dirty ts) pids (as_write_offset (pg_state pg))) (\<lambda>(content, cursor, entries) pg.
        let nonce_counter = as_nonce_counter (pg_state pg) + 1 in
        sbind (slift (commit_header_of sha params data_root meta_root timestamp_ms nonce_counter
                        (of_nat (length pids) + 1) content)) (\<lambda>header.
          let page = set_body page_zeroed (commit_encode_into header (page_body page_zeroed)) in
          sbind (write_record_at commit_page (page_body page) cursor) (\<lambda>(rec_len, loc).
          sbind (cache_insert commit_page page) (\<lambda>_ pg.
            sret \<lparr>hd_version = ch_version header, hd_commit_page = commit_page, hd_data_root = data_root,
                  hd_meta_root = meta_root, hd_chain_hash = ch_chain_hash header, hd_nonce_counter = ch_nonce_counter header,
                  hd_n_pages = commit_page + 1\<rparr>
              (install_commit (entries @ [(commit_page, loc)]) (cursor + rec_len) (commit_page + 1) pg)))) pg) pg)"

definition publish_commit ::
    "hash \<Rightarrow> tx_store \<Rightarrow> commit_params \<Rightarrow> page_id \<Rightarrow> page_id \<Rightarrow> u64 \<Rightarrow> (pager, head) sx" where
  "publish_commit sha ts params data_root meta_root timestamp_ms =
     sbind (write_commit_pages sha ts params data_root meta_root timestamp_ms) (\<lambda>head.
     sbind (write_meta (meta_for head)) (\<lambda>_. sret head))"

section \<open>Opening a store\<close>

text \<open>Recovery, truncation to the recovered head, and the margin for the nonces a torn tail may have used.\<close>

definition store_open :: "env \<Rightarrow> bytes option \<Rightarrow> nat \<Rightarrow> db_file \<Rightarrow> (pager \<times> head) res option" where
  "store_open e key cache_pages file =
     opbind (open_keyed_with e key cache_pages file) (\<lambda>pg.
       case recover (env_sha e) pg of
         None \<Rightarrow> None
       | Some (Inl err, _) \<Rightarrow> Some (Inl err)
       | Some (Inr head, pg) \<Rightarrow>
           let file_len = length (df_bytes (pg_file pg));
               pg = truncate_to_head (hd_n_pages head) pg;
               torn_bytes = file_len - as_write_offset (pg_state pg);
               pg = set_nonce_counter (hd_nonce_counter head + of_nat (div_ceil torn_bytes MIN_RECORD_LEN)) pg
           in Some (Inr (pg, head)))"

end
