(* ===== verification/PagerCrash.thy ===== *)
theory PagerCrash
  imports PagerLaws RangeCoder
begin

text \<open>
  Opening after a crash.  \<open>tail_ok k f e\<close>: the sweep of the file stops at \<open>e\<close>, as what is there is no whole record.  A
  file whose records end at \<open>e\<close> with such a tail is swept to the directory of its records; a write that runs out of
  budget leaves such a file.
\<close>

lemma comp_ok_cases: "comp_ok None" "comp_ok (Some Densa)" "comp_ok (Some Lz)" "comp_ok (Some NoCompression)"
  using backend_ok_Densa backend_ok_Lz backend_ok_NoCompression densa_total
  by (auto simp: comp_ok_def Densa_def Lz_def NoCompression_def METHOD_DENSA_def METHOD_LZ_def METHOD_RAW_def Let_def)

section \<open>Torn tails\<close>

definition tail_ok :: "nat \<Rightarrow> bytes \<Rightarrow> nat \<Rightarrow> bool" where
  "tail_ok k f e \<longleftrightarrow> e \<le> length f \<and> (length f < e + LEN_PREFIX_LEN \<or> (\<exists>n. at_pos f e (u32_le n) \<and>
     (unat n < CRYPTO_RESERVE \<or> length f < e + LEN_PREFIX_LEN + unat n + record_plen k (unat n))))"

lemma length_framed: "length (framed_record k st) = LEN_PREFIX_LEN + length st + (if k > 0 then length (parity st k) else 0)"
  by (simp add: framed_record_def frame_def LEN_PREFIX_LEN_def)

lemma record_plen_framed:
  "k < 255 \<Longrightarrow> length (framed_record k st) = LEN_PREFIX_LEN + length st + record_plen k (length st)"
  using parity_blocks(1) [of k st] by (simp add: length_framed record_plen_def)

lemma tail_ok_clean: "e = length f \<Longrightarrow> tail_ok k f e"
  by (simp add: tail_ok_def LEN_PREFIX_LEN_def)

text \<open>The beginning of a record, before whatever the file still has from earlier, if the record would go beyond the end.\<close>

lemma tail_ok_prefix:
  assumes k: "k < 255" and st: "length st < 2 ^ 32" and m: "m < length (framed_record k st)" "m < LEN_PREFIX_LEN \<longrightarrow> t = []"
    and l: "m + length t < length (framed_record k st)"
  shows "tail_ok k (f @ take m (framed_record k st) @ t) (length f)"
proof (cases "m < LEN_PREFIX_LEN")
  case True
  then show ?thesis using m by (simp add: tail_ok_def)
next
  case False
  then have "take m (framed_record k st) = u32_le (of_nat (length st)) @ take (m - 4) (st @ (if k > 0 then parity st k else []))"
    by (simp add: framed_record_def frame_def LEN_PREFIX_LEN_def take_append)
  then have "at_pos (f @ take m (framed_record k st) @ t) (length f) (u32_le (of_nat (length st)))"
    by (simp add: at_pos_def)
  then show ?thesis
    using l m(1) unfolding tail_ok_def record_plen_framed [OF k]
    by (auto intro!: exI [of _ "of_nat (length st)"] simp: unat_of_nat_u32 [OF st] min_def)
qed

lemma tail_ok_torn:
  assumes "k < 255" "length st < 2 ^ 32" "m < length (framed_record k st)"
  shows "tail_ok k (f @ take m (framed_record k st)) (length f)"
  using tail_ok_prefix [OF assms, of "[]"] assms(3) by simp

section \<open>The sweep\<close>

lemma at_pos_read: "at_pos (df_bytes f) off s \<Longrightarrow> read_exact_at f (length s) off = Inr s"
  by (rule read_at_pos) simp_all

lemma sweep_stop: "tail_ok k (df_bytes f) e \<Longrightarrow> sweep_loop f k (length (df_bytes f)) e dir = (dir, e)"
  using at_pos_read [of f e "u32_le _"]
  by (subst sweep_loop.simps) (auto simp: tail_ok_def Let_def LEN_PREFIX_LEN_def le_val_u32_le)

lemma sweep_on_disk:
  assumes k: "k < 255" and c: "crypto_provider c"
  shows "on_disk k c z (df_bytes f) off pid bs ls e \<Longrightarrow> off \<le> length (df_bytes f) \<Longrightarrow> tail_ok k (df_bytes f) e \<Longrightarrow>
    sweep_loop f k (length (df_bytes f)) off dir = (dir @ ls, e)"
proof (induction bs arbitrary: ls off pid dir)
  case Nil
  then show ?case using sweep_stop by (cases ls) auto
next
  case (Cons b bs)
  then obtain l ls' st where ls: "ls = l # ls'" and s: "sealed c z pid b st" "at_pos (df_bytes f) off (framed_record k st)"
    "l = \<lparr>pl_offset = off + LEN_PREFIX_LEN, pl_len = of_nat (length st)\<rparr>"
    "on_disk k c z (df_bytes f) (off + length (framed_record k st)) (pid + 1) bs ls' e"
    by (cases ls) auto
  have st: "CRYPTO_RESERVE \<le> length st" "length st < 2 ^ 32"
    using s(1) crypto_provider.length_seal [OF c] by (auto simp: sealed_def)
  have le: "off + length (framed_record k st) \<le> length (df_bytes f)" using s(2) by (rule at_pos_le)
  have r: "read_exact_at f LEN_PREFIX_LEN off = Inr (u32_le (of_nat (length st)))"
    using at_pos_read [OF framed_record_at(1) [OF s(2)]] by (simp add: LEN_PREFIX_LEN_def)
  have l: "le_val (u32_le (of_nat (length st))) = length st" using st(2) by (simp add: le_val_u32_le unat_of_nat_u32)
  have "sweep_loop f k (length (df_bytes f)) off dir
      = sweep_loop f k (length (df_bytes f)) (off + length (framed_record k st)) (dir @ [l])"
    using le r l st(1) s(3) unfolding record_plen_framed [OF k]
    by (subst sweep_loop.simps) (simp add: Let_def add.assoc)
  then show ?case using Cons.IH [OF s(4) le Cons.prems(3), of "dir @ [l]"] ls by simp
qed

section \<open>Writing with a budget\<close>

text \<open>One record at the end of the file: it is written whole, or the file ends in a torn record.\<close>

lemma write_all_at_end:
  fixes d :: bytes and f :: db_file
  defines "b \<equiv> df_bytes f"
  obtains (whole) f' where "write_all_at d (length b) f = (Inr (), f')" "df_bytes f' = b @ d"
    | (torn) f' m where "write_all_at d (length b) f = (Inl io_write, f')" "m < length d" "df_bytes f' = b @ take m d"
proof (cases "case df_budget f of None \<Rightarrow> True | Some n \<Rightarrow> length d \<le> n")
  case True
  then show thesis
    by (intro whole [of "snd (write_all_at d (length b) f)"])
      (auto simp: write_all_at_def overwrite_def b_def split: option.splits)
next
  case False
  then obtain n where "df_budget f = Some n" "n < length d" by (auto split: option.splits)
  then show thesis by (intro torn [of _ n]) (auto simp: write_all_at_def overwrite_def b_def)
qed

lemma write_record_at_end:
  fixes pg :: pager and body :: bytes and pid :: page_id
  defines "b \<equiv> df_bytes (pg_file pg)" and "s \<equiv> pg_state pg"
  assumes ok: "crypto_provider (pg_crypto pg)" "comp_ok (pg_compressor pg)" and body: "length body = BODY_SIZE"
  obtains (whole) st f' where "sealed (pg_crypto pg) (pg_compressor pg) pid body st" "CRYPTO_RESERVE \<le> length st"
      "write_record_at pid body (length b) pg = Some (Inr (length (framed_record (ecc_nsym pg) st),
         \<lparr>pl_offset = length b + LEN_PREFIX_LEN, pl_len = of_nat (length st)\<rparr>),
         pg\<lparr>pg_file := f', pg_state := s\<lparr>as_nonce_counter := as_nonce_counter s + 1\<rparr>\<rparr>)"
      "df_bytes f' = b @ framed_record (ecc_nsym pg) st"
    | (torn) st m f' where "CRYPTO_RESERVE \<le> length st" "length st < 2 ^ 32"
      "m < length (framed_record (ecc_nsym pg) st)"
      "write_record_at pid body (length b) pg = Some (Inl io_write,
         pg\<lparr>pg_file := f', pg_state := s\<lparr>as_nonce_counter := as_nonce_counter s + 1\<rparr>\<rparr>)"
      "df_bytes f' = b @ take m (framed_record (ecc_nsym pg) st)"
proof -
  obtain ts where ts: "body_to_seal (pg_compressor pg) (trim_trailing_zeros body) = Some ts" "length ts \<le> BODY_SIZE + 1"
    using body_to_seal_total [OF ok(2), of body] body by auto
  define st where "st = seal_bytes (pg_crypto pg) ts pid (as_nonce_counter s)"
  have st: "sealed (pg_crypto pg) (pg_compressor pg) pid body st" unfolding st_def by (rule sealed_seal [OF ok(1) ts])
  have l: "CRYPTO_RESERVE \<le> length st" "length st < 2 ^ 32"
    using st crypto_provider.length_seal [OF ok(1)] by (auto simp: sealed_def)
  let ?r = "framed_record (ecc_nsym pg) st"
  show thesis
  proof (cases rule: write_all_at_end [of ?r "pg_file pg"])
    case (whole f')
    then show thesis using st l ts(1) that(1) [of st f'] unfolding b_def s_def st_def
      by (simp add: write_record_at_def put_state_def file_write_def Let_def)
  next
    case (torn f' m)
    then show thesis using st l ts(1) that(2) [of st m f'] unfolding b_def s_def st_def
      by (simp add: write_record_at_def put_state_def file_write_def Let_def)
  qed
qed

end
