(* ===== verification/CommitLaws.thy ===== *)
theory CommitLaws
  imports TxCommit PagerCrash
begin

text \<open>
  The commit chain on a well-formed file.  \<open>hist_ok sha h i bs h'\<close>: the bodies \<open>bs\<close> of the pages from number \<open>i\<close> on
  are data pages and commits, each commit continuing the chain, from the head \<open>h\<close> to the head \<open>h'\<close>.  Recovery finds the
  head of the history whatever the meta slots say, as they are hints.
\<close>

section \<open>The header's codec\<close>

definition branch_ok :: "bytes \<Rightarrow> bool" where
  "branch_ok b \<longleftrightarrow> length b \<le> BRANCH_MAX \<and> valid_utf8 b \<and> 0 \<notin> set b"

definition commit_fields :: "commit_header \<Rightarrow> bytes list" where
  "commit_fields h =
     [MAGIC_COMMIT, u32_le (ch_flags h), replicate 4 0, u64_le (ch_version h), u64_le (ch_parent_page h),
      u64_le (ch_prev_page h), u64_le (ch_timestamp_ms h), u64_le (ch_data_root h), u64_le (ch_meta_root h),
      u64_le (ch_nonce_counter h), u64_le (ch_pages_written h),
      ch_branch h @ replicate (BRANCH_MAX - length (ch_branch h)) 0,
      digest_bytes (ch_content_hash h), digest_bytes (ch_prev_chain h), digest_bytes (ch_chain_hash h)]"

lemma blit_blit: "length t \<le> length s \<Longrightarrow> p + length s \<le> length b \<Longrightarrow>
  blit (blit b p s) p t = blit b p (t @ drop (length t) s)"
  by (auto simp: blit_def drop_append take_append)

lemma commit_encode_fields:
  assumes "240 \<le> length body" "length (ch_branch h) \<le> BRANCH_MAX"
  shows "commit_encode_into h body = blit body 0 (concat (commit_fields h))"
proof -
  have step: "blit (blit body 0 s) n t = blit body 0 (s @ t)" if "length s = n" "n + length t \<le> 240" for s n t
    using blit_append [of 0 s t body] that assms(1) by simp
  have br: "blit (blit body 0 s) 80 (ch_branch h) = blit body 0 (take 80 s @ ch_branch h @ drop (length (ch_branch h)) (drop 80 s))"
    if "length s = 144" for s
  proof -
    have "blit body 0 s = blit (blit body 0 (take 80 s)) 80 (drop 80 s)" using step [of "take 80 s" 80 "drop 80 s"] that by simp
    then have "blit (blit body 0 s) 80 (ch_branch h) = blit (blit (blit body 0 (take 80 s)) 80 (drop 80 s)) 80 (ch_branch h)"
      by (rule arg_cong)
    also have "\<dots> = blit (blit body 0 (take 80 s)) 80 (ch_branch h @ drop (length (ch_branch h)) (drop 80 s))"
      using that assms by (intro blit_blit) (simp_all add: BRANCH_MAX_def)
    also have "\<dots> = blit body 0 (take 80 s @ ch_branch h @ drop (length (ch_branch h)) (drop 80 s))"
      using that assms by (intro step) (simp_all add: BRANCH_MAX_def)
    finally show ?thesis .
  qed
  show ?thesis using assms(2)
    unfolding commit_encode_into_def Let_def
    by (simp add: step br commit_fields_def BRANCH_MAX_def take_append drop_append)
qed

lemma at_pos_fields:
  "at_pos b p (concat xs) \<Longrightarrow> i < length xs \<Longrightarrow> at_pos b (p + length (concat (take i xs))) (xs ! i)"
proof (induction xs arbitrary: p i)
  case (Cons x xs)
  have a: "at_pos b p x" "at_pos b (p + length x) (concat xs)" using Cons.prems(1) at_pos_append [of b p x "concat xs"] by simp_all
  show ?case using a Cons.IH [OF a(2), of "i - 1"] Cons.prems(2) by (cases i) (simp_all add: add.assoc)
qed simp

lemma commit_decode_encode:
  assumes "240 \<le> length body" "branch_ok (ch_branch h)"
  shows "commit_decode (commit_encode_into h body) = Some h"
proof -
  let ?c = "commit_encode_into h body" and ?xs = "commit_fields h"
  have br: "length (ch_branch h) \<le> BRANCH_MAX" "valid_utf8 (ch_branch h)" "0 \<notin> set (ch_branch h)"
    using assms(2) by (simp_all add: branch_ok_def)
  have e: "?c = blit body 0 (concat ?xs)" by (rule commit_encode_fields [OF assms(1) br(1)])
  have l: "length (concat ?xs) = 240" using br(1) by (simp add: commit_fields_def BRANCH_MAX_def)
  have at: "at_pos ?c 0 (concat ?xs)" unfolding e using l assms(1) by (intro blit_at_pos) simp
  have f: "at_pos ?c (length (concat (take i ?xs))) (?xs ! i)" if "i < 15" for i
    using at_pos_fields [OF at, of i] that by (simp add: commit_fields_def)
  have raw: "take 64 (drop 80 ?c) = ch_branch h @ replicate (BRANCH_MAX - length (ch_branch h)) 0"
    using f [of 11] br by (intro at_pos_take) (simp_all add: commit_fields_def BRANCH_MAX_def)
  have tw: "takeWhile (\<lambda>b. b \<noteq> 0) (ch_branch h @ replicate n 0) = ch_branch h" for n
    using br(3) by (subst takeWhile_append2) auto
  have a32: "arr32 ?c p = d" if "at_pos ?c p (digest_bytes d)" for p d
    using at_pos_take [OF that, of 32] by (simp add: arr32_def digest_bytes_inverse)
  have "at_pos ?c 0 MAGIC_COMMIT" "at_pos ?c 8 (u32_le (ch_flags h))" "at_pos ?c 16 (u64_le (ch_version h))"
    "at_pos ?c 24 (u64_le (ch_parent_page h))" "at_pos ?c 32 (u64_le (ch_prev_page h))" "at_pos ?c 40 (u64_le (ch_timestamp_ms h))"
    "at_pos ?c 48 (u64_le (ch_data_root h))" "at_pos ?c 56 (u64_le (ch_meta_root h))" "at_pos ?c 64 (u64_le (ch_nonce_counter h))"
    "at_pos ?c 72 (u64_le (ch_pages_written h))"
    using f [of 0] f [of 1] f [of 3] f [of 4] f [of 5] f [of 6] f [of 7] f [of 8] f [of 9] f [of 10]
    by (simp_all add: commit_fields_def)
  moreover have "arr32 ?c 144 = ch_content_hash h" "arr32 ?c 176 = ch_prev_chain h" "arr32 ?c 208 = ch_chain_hash h"
    using f [of 12] f [of 13] f [of 14] br(1) by (auto intro!: a32 simp: commit_fields_def BRANCH_MAX_def)
  ultimately show ?thesis
    unfolding commit_decode_def using br(2) raw
    by (simp add: at_pos_take0 codec_simps tw BRANCH_MAX_def Let_def)
qed

section \<open>Histories\<close>

fun hist_ok :: "hash \<Rightarrow> head \<Rightarrow> page_id \<Rightarrow> bytes list \<Rightarrow> head \<Rightarrow> bool" where
  "hist_ok sha h i [] h' \<longleftrightarrow> h' = h"
| "hist_ok sha h i (b # bs) h' \<longleftrightarrow>
     (case commit_decode b of
        None \<Rightarrow> hist_ok sha h (i + 1) bs h'
      | Some c \<Rightarrow> chains_on h c \<and> self_consistent sha c = Inr True \<and> hist_ok sha (head_from c i) (i + 1) bs h')"

lemma hist_ok_append:
  "hist_ok sha h i (xs @ ys) h' \<longleftrightarrow> (\<exists>m. hist_ok sha h i xs m \<and> hist_ok sha m (i + of_nat (length xs)) ys h')"
  by (induction xs arbitrary: h i) (auto split: option.splits simp: add.assoc)

lemma hist_ok_data: "list_all (\<lambda>b. commit_decode b = None) bs \<Longrightarrow> hist_ok sha h i bs h' \<longleftrightarrow> h' = h"
  by (induction bs arbitrary: i) auto

lemma hist_ok_at:
  "hist_ok sha h i bs h' \<Longrightarrow> j < length bs \<Longrightarrow> commit_decode (bs ! j) = Some c \<Longrightarrow>
   self_consistent sha c = Inr True \<and> hist_ok sha (head_from c (i + of_nat j)) (i + of_nat j + 1) (drop (Suc j) bs) h'"
proof (induction bs arbitrary: h i j)
  case (Cons b bs)
  show ?case
  proof (cases j)
    case 0
    then show ?thesis using Cons.prems by simp
  next
    case (Suc k)
    have "\<exists>h. hist_ok sha h (i + 1) bs h'" using Cons.prems(1) by (auto split: option.splits)
    then show ?thesis using Cons.IH [of _ "i + 1" k] Cons.prems(2,3) Suc by (auto simp: add.assoc)
  qed
qed simp

section \<open>Recovery\<close>

lemma page_body_page_of [simp]: "page_body (page_of b) = b"
  by (simp add: page_body_def page_of_def page_zeroed_def size_consts)

lemma n_pages_rep: "pager_rep pg bs \<Longrightarrow> unat (n_pages pg) = 3 + length bs"
  using unat_first_plus [of "length bs"] by (simp add: pager_rep_def n_pages_def add.commute)

lemma of_nat_page: "(of_nat (3 + i) :: page_id) = FIRST_DATA_PAGE + of_nat i"
  by (simp add: FIRST_DATA_PAGE_def)

lemma recover_scan_spec:
  assumes "m \<le> length bs" "pager_rep pg bs" "hist_ok sha h (FIRST_DATA_PAGE + of_nat m) (drop m bs) h'"
  shows "\<exists>c. recover_scan sha [3 + m..<3 + length bs] h pg = Some (Inr h', pg\<lparr>pg_cache := c\<rparr>) \<and> pager_rep (pg\<lparr>pg_cache := c\<rparr>) bs"
  using assms
proof (induction "length bs - m" arbitrary: m h pg)
  case 0
  then show ?case by (intro exI [of _ "pg_cache pg"]) simp
next
  case (Suc n)
  have m: "m < length bs" using Suc.hyps(2) by simp
  obtain c where rd: "read_page (FIRST_DATA_PAGE + of_nat m) pg = Some (Inr (page_of (bs ! m)), pg\<lparr>pg_cache := c\<rparr>)"
    "pager_rep (pg\<lparr>pg_cache := c\<rparr>) bs"
    using read_page_spec [OF Suc.prems(2) m] by blast
  let ?p = "FIRST_DATA_PAGE + of_nat m" and ?rest = "[3 + Suc m..<3 + length bs]" and ?pg = "pg\<lparr>pg_cache := c\<rparr>"
  have sc: "scatch (read_page ?p) pg = Some (Inr (Some (page_of (bs ! m))), ?pg)"
    unfolding scatch_def rd(1) by simp
  have ls: "[3 + m..<3 + length bs] = (3 + m) # [3 + Suc m..<3 + length bs]" using m by (simp add: upt_conv_Cons)
  have dr: "drop m bs = bs ! m # drop (Suc m) bs" using m by (rule Cons_nth_drop_Suc [symmetric])
  have st: "recover_scan sha [3 + m..<3 + length bs] h pg =
      (case commit_decode (bs ! m) of
         None \<Rightarrow> recover_scan sha ?rest h ?pg
       | Some k \<Rightarrow> if chains_on h k then
           sbind (slift (self_consistent sha k)) (\<lambda>ok. if ok then recover_scan sha ?rest (head_from k ?p) else sret h) ?pg
           else Some (Inr h, ?pg))"
    unfolding ls recover_scan.simps of_nat_page by (simp add: sc split: option.split del: upt_Suc)
  have nx: "FIRST_DATA_PAGE + of_nat m + 1 = FIRST_DATA_PAGE + of_nat (Suc m)" by simp
  have h: "hist_ok sha h (FIRST_DATA_PAGE + of_nat m) (bs ! m # drop (Suc m) bs) h'" using Suc.prems(3) dr by simp
  have IH: "\<exists>c'. recover_scan sha [3 + Suc m..<3 + length bs] k (pg\<lparr>pg_cache := c\<rparr>) = Some (Inr h', pg\<lparr>pg_cache := c'\<rparr>) \<and>
      pager_rep (pg\<lparr>pg_cache := c'\<rparr>) bs"
    if "hist_ok sha k (FIRST_DATA_PAGE + of_nat (Suc m)) (drop (Suc m) bs) h'" for k
    using Suc.hyps(1) [OF _ _ rd(2) that] Suc.hyps(2) m by simp
  show ?case
  proof (cases "commit_decode (bs ! m)")
    case None
    then show ?thesis using IH [of h] h nx unfolding st by (simp del: upt_Suc)
  next
    case (Some k)
    then have "chains_on h k" "self_consistent sha k = Inr True"
      "hist_ok sha (head_from k (FIRST_DATA_PAGE + of_nat m)) (FIRST_DATA_PAGE + of_nat (Suc m)) (drop (Suc m) bs) h'"
      using h nx by simp_all
    then show ?thesis using IH Some unfolding st by (simp del: upt_Suc)
  qed
qed

lemma try_head_at_spec:
  assumes rep: "pager_rep pg bs" and hist: "hist_ok sha g FIRST_DATA_PAGE bs h'" and p: "FIRST_DATA_PAGE \<le> page"
  shows "\<exists>r c. try_head_at sha page pg = Some (Inr r, pg\<lparr>pg_cache := c\<rparr>) \<and> pager_rep (pg\<lparr>pg_cache := c\<rparr>) bs \<and>
    (\<forall>h. r = Some h \<longrightarrow> (\<exists>j k. j < length bs \<and> page = FIRST_DATA_PAGE + of_nat j \<and> commit_decode (bs ! j) = Some k \<and> h = head_from k page))"
proof (cases "n_pages pg \<le> page")
  case True
  then have "read_page page pg = Some (Inl (Corrupt page ''pagina fuera de rango''), pg)"
    by (simp add: read_page_out_of_range n_pages_def)
  then show ?thesis using rep by (intro exI [of _ None] exI [of _ "pg_cache pg"]) (simp add: try_head_at_def scatch_def)
next
  case False
  define j where "j = unat page - 3"
  have j: "j < length bs" "page = FIRST_DATA_PAGE + of_nat j"
  proof -
    have n: "unat (n_pages pg) = 3 + length bs" "length bs < 2 ^ 62" using n_pages_rep [OF rep] rep by (blast, simp add: pager_rep_def)
    have q: "unat page < 3 + length bs" "3 \<le> unat page"
      using False p unfolding n(1) [symmetric] by (simp_all add: word_le_nat_alt FIRST_DATA_PAGE_def)
    show "j < length bs" using q by (simp add: j_def)
    then show "page = FIRST_DATA_PAGE + of_nat j"
      using unat_first_plus [of j] n(2) q by (simp add: word_unat_eq_iff j_def)
  qed
  obtain c where rd: "read_page page pg = Some (Inr (page_of (bs ! j)), pg\<lparr>pg_cache := c\<rparr>)" "pager_rep (pg\<lparr>pg_cache := c\<rparr>) bs"
    using read_page_spec [OF rep j(1)] j(2) by blast
  show ?thesis
  proof (cases "commit_decode (bs ! j)")
    case None
    then show ?thesis using rd by (intro exI [of _ None] exI [of _ c]) (simp add: try_head_at_def scatch_def)
  next
    case (Some k)
    have "self_consistent sha k = Inr True" using hist_ok_at [OF hist j(1) Some] by blast
    then show ?thesis using rd Some j
      by (intro exI [of _ "Some (head_from k page)"] exI [of _ c]) (auto simp: try_head_at_def scatch_def)
  qed
qed

lemma first_head_spec:
  assumes "pager_rep pg bs" "hist_ok sha g FIRST_DATA_PAGE bs h'"
  shows "\<exists>h c. first_head sha ms g pg = Some (Inr h, pg\<lparr>pg_cache := c\<rparr>) \<and> pager_rep (pg\<lparr>pg_cache := c\<rparr>) bs \<and>
    (h = g \<or> (\<exists>j k. j < length bs \<and> commit_decode (bs ! j) = Some k \<and> h = head_from k (FIRST_DATA_PAGE + of_nat j)))"
  using assms
proof (induction ms arbitrary: pg)
  case Nil
  then show ?case by (intro exI [of _ g] exI [of _ "pg_cache pg"]) simp
next
  case (Cons m ms)
  show ?case
  proof (cases "ms_last_commit_page m < FIRST_DATA_PAGE")
    case True
    then show ?thesis using Cons by simp
  next
    case False
    obtain r c where r: "try_head_at sha (ms_last_commit_page m) pg = Some (Inr r, pg\<lparr>pg_cache := c\<rparr>)"
      "pager_rep (pg\<lparr>pg_cache := c\<rparr>) bs"
      "\<And>h. r = Some h \<Longrightarrow> \<exists>j k. j < length bs \<and> ms_last_commit_page m = FIRST_DATA_PAGE + of_nat j \<and>
         commit_decode (bs ! j) = Some k \<and> h = head_from k (ms_last_commit_page m)"
      using try_head_at_spec [OF Cons.prems leI [OF False]] by blast
    show ?thesis
    proof (cases r)
      case None
      then show ?thesis using Cons.IH [OF r(2) Cons.prems(2)] r(1) False by simp
    next
      case (Some h)
      then show ?thesis using r(1,2) r(3) [OF Some] False by (intro exI [of _ h] exI [of _ c]) auto
    qed
  qed
qed

text \<open>Recovery gives the head of the history, from any meta slots.\<close>

lemma recover_spec:
  assumes rep: "pager_rep pg bs" and hist: "hist_ok sha (genesis_head sha (fh_file_id (pg_header pg))) FIRST_DATA_PAGE bs h'"
  shows "\<exists>c. recover sha pg = Some (Inr h', pg\<lparr>pg_cache := c\<rparr>) \<and> pager_rep (pg\<lparr>pg_cache := c\<rparr>) bs"
proof -
  let ?g = "genesis_head sha (fh_file_id (pg_header pg))"
  obtain h c where f: "first_head sha (sort_key (\<lambda>m. - uint (ms_version m)) (meta_slots pg)) ?g pg = Some (Inr h, pg\<lparr>pg_cache := c\<rparr>)"
    "pager_rep (pg\<lparr>pg_cache := c\<rparr>) bs"
    "h = ?g \<or> (\<exists>j k. j < length bs \<and> commit_decode (bs ! j) = Some k \<and> h = head_from k (FIRST_DATA_PAGE + of_nat j))"
    using first_head_spec [OF rep hist] by blast
  have np: "unat (n_pages pg) = 3 + length bs" "length bs < 2 ^ 62" using n_pages_rep [OF rep] rep by (blast, simp add: pager_rep_def)
  obtain m where m: "m \<le> length bs" "unat (hd_n_pages h) = 3 + m" "hist_ok sha h (FIRST_DATA_PAGE + of_nat m) (drop m bs) h'"
  proof (cases "h = ?g")
    case True
    then show thesis using hist that [of 0] by (simp add: genesis_head_def FIRST_DATA_PAGE_def)
  next
    case False
    then obtain j k where j: "j < length bs" "commit_decode (bs ! j) = Some k" "h = head_from k (FIRST_DATA_PAGE + of_nat j)"
      using f(3) by blast
    have e: "FIRST_DATA_PAGE + of_nat j + 1 = FIRST_DATA_PAGE + of_nat (Suc j)" by simp
    show thesis
    proof (rule that [of "Suc j"])
      show "unat (hd_n_pages h) = 3 + Suc j"
        using unat_first_plus [of "Suc j"] j(1) np(2) unfolding j(3) head_from_def by (simp only: e head.simps)
      show "hist_ok sha h (FIRST_DATA_PAGE + of_nat (Suc j)) (drop (Suc j) bs) h'"
        using hist_ok_at [OF hist j(1,2)] unfolding j(3) e by blast
    qed (use j in simp)
  qed
  show ?thesis
    using recover_scan_spec [OF m(1) f(2) m(3)] f(1) unfolding recover_def
    by (simp add: m(2) n_pages_rep [OF f(2)])
qed

end
