(* ===== verification/TxCommitLaws.thy ===== *)
theory TxCommitLaws
  imports CommitLaws
begin

text \<open>
  Publishing a transaction on a file whose records end at its end (\<open>writing\<close>), with a disk that may stop after any
  byte, and opening the file that is left.
\<close>

section \<open>Records at the end of the file\<close>

definition same_store :: "pager \<Rightarrow> pager \<Rightarrow> bool" where
  "same_store pg pg' \<longleftrightarrow> pg_header pg' = pg_header pg \<and> pg_plain pg' = pg_plain pg \<and> pg_crypto pg' = pg_crypto pg \<and>
     pg_compressor pg' = pg_compressor pg \<and> pg_master_key pg' = pg_master_key pg \<and>
     take 12288 (df_bytes (pg_file pg')) = take 12288 (df_bytes (pg_file pg))"

lemma same_store_refl [simp]: "same_store pg pg"
  by (simp add: same_store_def)

lemma same_store_trans: "same_store a b \<Longrightarrow> same_store b c \<Longrightarrow> same_store a c"
  by (simp add: same_store_def)

definition store_ok :: "pager \<Rightarrow> bytes list \<Rightarrow> bool" where
  "store_ok pg bs \<longleftrightarrow> crypto_provider (pg_crypto pg) \<and> comp_ok (pg_compressor pg) \<and> ecc_nsym pg < 255 \<and>
     length bs < 2 ^ 62 \<and> (\<forall>b \<in> set bs. length b = BODY_SIZE) \<and> 12288 \<le> length (df_bytes (pg_file pg))"

definition disk :: "pager \<Rightarrow> bytes list \<Rightarrow> phys_loc list \<Rightarrow> nat \<Rightarrow> bool" where
  "disk pg bs ls e \<longleftrightarrow> store_ok pg bs \<and>
     on_disk (ecc_nsym pg) (pg_crypto pg) (pg_compressor pg) (df_bytes (pg_file pg)) 12288 FIRST_DATA_PAGE bs ls e"

definition writing :: "pager \<Rightarrow> bytes list \<Rightarrow> phys_loc list \<Rightarrow> nat \<Rightarrow> bool" where
  "writing pg bs ls e \<longleftrightarrow> disk pg bs ls e \<and> e = length (df_bytes (pg_file pg)) \<and> cache_for (pg_cache pg) bs"

text \<open>What a crash leaves: the records of the pages and at most a torn one behind them.\<close>

definition torn :: "pager \<Rightarrow> bytes list \<Rightarrow> bool" where
  "torn pg bs \<longleftrightarrow> (\<exists>ls e. disk pg bs ls e \<and> tail_ok (ecc_nsym pg) (df_bytes (pg_file pg)) e)"

lemma writing_torn: "writing pg bs ls e \<Longrightarrow> torn pg bs"
  unfolding writing_def torn_def using tail_ok_clean by blast

lemma pager_rep_disk:
  "pager_rep pg bs \<longleftrightarrow> disk pg bs (as_dir (pg_state pg)) (as_write_offset (pg_state pg)) \<and>
     as_next_page (pg_state pg) = FIRST_DATA_PAGE + of_nat (length bs) \<and> cache_for (pg_cache pg) bs"
  unfolding pager_rep_def disk_def store_ok_def by blast

lemma on_disk_extend:
  assumes d: "on_disk k c z f 12288 FIRST_DATA_PAGE bs ls (length f)" "12288 \<le> length f"
    and s: "sealed c z (FIRST_DATA_PAGE + of_nat (length bs)) b st"
  shows "on_disk k c z (f @ framed_record k st) 12288 FIRST_DATA_PAGE (bs @ [b])
    (ls @ [\<lparr>pl_offset = length f + LEN_PREFIX_LEN, pl_len = of_nat (length st)\<rparr>]) (length f + length (framed_record k st))"
  using on_disk_write(1) [OF d s] by (simp add: overwrite_end)

lemma on_disk_prefix:
  assumes "on_disk k c z f 12288 FIRST_DATA_PAGE bs ls e" "12288 \<le> length f"
  shows "on_disk k c z (f @ t) 12288 FIRST_DATA_PAGE bs ls e"
  by (rule on_disk_frame [OF assms]) (auto simp: at_pos_def)

lemma record_step:
  assumes w: "writing pg bs ls e" and b: "length b = BODY_SIZE" "length bs + 1 < 2 ^ 62"
  obtains (whole) pg' c loc n where
      "write_record_at (FIRST_DATA_PAGE + of_nat (length bs)) b e pg = Some (Inr (n, loc), pg')"
      "cache_insert (FIRST_DATA_PAGE + of_nat (length bs)) (page_of b) pg' = Some (Inr (), pg'\<lparr>pg_cache := c\<rparr>)"
      "writing (pg'\<lparr>pg_cache := c\<rparr>) (bs @ [b]) (ls @ [loc]) (e + n)" "same_store pg (pg'\<lparr>pg_cache := c\<rparr>)"
      "pg_state pg' = (pg_state pg)\<lparr>as_nonce_counter := as_nonce_counter (pg_state pg) + 1\<rparr>"
    | (torn) pg' where "write_record_at (FIRST_DATA_PAGE + of_nat (length bs)) b e pg = Some (Inl io_write, pg')"
      "torn pg' bs" "same_store pg pg'"
proof -
  let ?f = "df_bytes (pg_file pg)" and ?k = "ecc_nsym pg" and ?p = "FIRST_DATA_PAGE + of_nat (length bs) :: u64"
  have W: "store_ok pg bs" "on_disk ?k (pg_crypto pg) (pg_compressor pg) ?f 12288 FIRST_DATA_PAGE bs ls e"
    "e = length ?f" "cache_for (pg_cache pg) bs"
    using w unfolding writing_def disk_def by blast+
  have ok: "crypto_provider (pg_crypto pg)" "comp_ok (pg_compressor pg)" "12288 \<le> length ?f" "?k < 255"
    using W(1) by (simp_all add: store_ok_def)
  show thesis
  proof (cases rule: write_record_at_end [OF ok(1,2) b(1), of ?p])
    case (1 st f')
    let ?pg = "pg\<lparr>pg_file := f', pg_state := (pg_state pg)\<lparr>as_nonce_counter := as_nonce_counter (pg_state pg) + 1\<rparr>\<rparr>"
    obtain c where c: "cache_insert ?p (page_of b) ?pg = Some (Inr (), ?pg\<lparr>pg_cache := c\<rparr>)" "cache_for c (bs @ [b])"
      using cache_for_insert [of ?pg bs b] W(4) b(2) by auto
    show thesis
    proof (rule whole [OF _ c(1)])
      show "writing (?pg\<lparr>pg_cache := c\<rparr>) (bs @ [b]) (ls @ [\<lparr>pl_offset = length ?f + LEN_PREFIX_LEN, pl_len = of_nat (length st)\<rparr>])
          (e + length (framed_record ?k st))"
        using W on_disk_extend [OF W(2) [unfolded W(3)] ok(3) 1(1)] 1(4) b c(2)
        by (simp add: writing_def disk_def store_ok_def)
    qed (use 1 W(3) ok(3) in \<open>simp_all add: same_store_def\<close>)
  next
    case (2 st m f')
    show thesis
    proof (rule torn)
      show "torn (pg\<lparr>pg_file := f', pg_state := (pg_state pg)\<lparr>as_nonce_counter := as_nonce_counter (pg_state pg) + 1\<rparr>\<rparr>) bs"
        unfolding torn_def
        by (rule exI [of _ ls], rule exI [of _ e])
          (use W ok on_disk_prefix [OF W(2) ok(3)] tail_ok_torn [OF ok(4)] 2 in \<open>simp add: disk_def store_ok_def\<close>)
    qed (use 2 W(3) ok(3) in \<open>simp_all add: same_store_def\<close>)
  qed
qed

section \<open>The pages of a transaction\<close>

definition pages_are :: "(page_id \<rightharpoonup> page_buf) \<Rightarrow> nat list \<Rightarrow> bytes list \<Rightarrow> bool" where
  "pages_are d pids new \<longleftrightarrow>
     list_all2 (\<lambda>pid b. (case d (of_nat pid) of Some p \<Rightarrow> p | None \<Rightarrow> page_zeroed) = page_of b \<and> length b = BODY_SIZE) pids new"

lemma write_pages_spec:
  assumes "writing pg bs ls e" "pages_are d [3 + length bs..<3 + length bs + length new] new" "length bs + length new < 2 ^ 62"
  shows "(\<exists>pg' es n. write_pages d [3 + length bs..<3 + length bs + length new] e pg = Some (Inr (concat new, e + n, es), pg') \<and>
      writing pg' (bs @ new) (ls @ map snd es) (e + n) \<and> same_store pg pg' \<and>
      pg_state pg' = (pg_state pg)\<lparr>as_nonce_counter := as_nonce_counter (pg_state pg) + of_nat (length new)\<rparr>) \<or>
    (\<exists>pg' m. m < length new \<and> write_pages d [3 + length bs..<3 + length bs + length new] e pg = Some (Inl io_write, pg') \<and>
      torn pg' (bs @ take m new) \<and> same_store pg pg')"
  using assms
proof (induction new arbitrary: pg bs ls e)
  case Nil
  then show ?case by (intro disjI1 exI [of _ pg] exI [of _ "[]"] exI [of _ 0]) simp
next
  case (Cons b new)
  let ?n = "3 + length bs" and ?p = "FIRST_DATA_PAGE + of_nat (length bs) :: u64"
  have ids: "[?n..<?n + length (b # new)] = ?n # [3 + length (bs @ [b])..<3 + length (bs @ [b]) + length new]"
    by (simp add: upt_rec [of ?n] add.assoc)
  have pg0: "(case d ?p of Some p \<Rightarrow> p | None \<Rightarrow> page_zeroed) = page_of b" "length b = BODY_SIZE"
    "pages_are d [3 + length (bs @ [b])..<3 + length (bs @ [b]) + length new] new"
    using Cons.prems(2) unfolding ids pages_are_def list_all2_Cons of_nat_page by auto
  have sz: "length bs + 1 < 2 ^ 62" using Cons.prems(3) by simp
  show ?case
  proof (cases rule: record_step [OF Cons.prems(1) pg0(2) sz])
    case (1 pg1 c loc n)
    let ?pg = "pg1\<lparr>pg_cache := c\<rparr>"
    have step: "write_pages d [?n..<?n + length (b # new)] e pg =
        sbind (write_pages d [3 + length (bs @ [b])..<3 + length (bs @ [b]) + length new] (e + n))
          (\<lambda>(content, cursor, entries). sret (b @ content, cursor, (?p, loc) # entries)) ?pg"
      unfolding ids write_pages.simps of_nat_page Let_def pg0(1) using 1(1,2) by simp
    have st: "pg_state ?pg = (pg_state pg)\<lparr>as_nonce_counter := as_nonce_counter (pg_state pg) + 1\<rparr>" using 1(5) by simp
    have sz2: "length (bs @ [b]) + length new < 2 ^ 62" using Cons.prems(3) by simp
    from Cons.IH [OF 1(3) pg0(3) sz2] show ?thesis
    proof (elim disjE exE conjE)
      fix pg' es n'
      assume w: "write_pages d [3 + length (bs @ [b])..<3 + length (bs @ [b]) + length new] (e + n) ?pg = Some (Inr (concat new, e + n + n', es), pg')"
        "writing pg' ((bs @ [b]) @ new) ((ls @ [loc]) @ map snd es) (e + n + n')" "same_store ?pg pg'"
        "pg_state pg' = (pg_state ?pg)\<lparr>as_nonce_counter := as_nonce_counter (pg_state ?pg) + of_nat (length new)\<rparr>"
      show ?thesis
        using w(1,2) same_store_trans [OF 1(4) w(3)] w(4) unfolding step st
        by (intro disjI1 exI [of _ pg'] exI [of _ "(?p, loc) # es"] exI [of _ "n + n'"]) (simp add: add.assoc)
    next
      fix pg' m
      assume w: "m < length new" "write_pages d [3 + length (bs @ [b])..<3 + length (bs @ [b]) + length new] (e + n) ?pg = Some (Inl io_write, pg')"
        "torn pg' ((bs @ [b]) @ take m new)" "same_store ?pg pg'"
      show ?thesis
        using w(1-3) same_store_trans [OF 1(4) w(4)] unfolding step
        by (intro disjI2 exI [of _ pg'] exI [of _ "Suc m"]) simp
    qed
  next
    case (2 pg')
    then have "write_pages d [?n..<?n + length (b # new)] e pg = Some (Inl io_write, pg')"
      unfolding ids write_pages.simps of_nat_page Let_def pg0(1) by simp
    then show ?thesis using 2 by (intro disjI2 exI [of _ pg'] exI [of _ 0]) simp
  qed
qed

section \<open>The commit page\<close>

lemma commit_header_of_spec:
  assumes "length (cp_branch params) \<le> BRANCH_MAX"
  obtains hdr where "commit_header_of sha params dr mr t nonce n content = Inr hdr" "self_consistent sha hdr = Inr True"
    "ch_flags hdr = cp_flags params" "ch_version hdr = cp_version params" "ch_prev_page hdr = cp_prev_page params"
    "ch_prev_chain hdr = cp_prev_chain params" "ch_branch hdr = cp_branch params" "ch_data_root hdr = dr" "ch_meta_root hdr = mr"
    "ch_nonce_counter hdr = nonce" "ch_pages_written hdr = n" "ch_content_hash hdr = sha content" "ch_timestamp_ms hdr = t"
  using assms by (auto simp: commit_header_of_def Let_def compute_chain_def self_consistent_def chain_message_def)

definition commit_body :: "commit_header \<Rightarrow> bytes" where
  "commit_body hdr = commit_encode_into hdr (page_body page_zeroed)"

lemma length_commit_body: "branch_ok (ch_branch hdr) \<Longrightarrow> length (commit_body hdr) = BODY_SIZE"
  unfolding commit_body_def branch_ok_def
  by (subst commit_encode_fields)
    (simp_all add: page_body_def page_zeroed_def size_consts BRANCH_MAX_def commit_fields_def)

lemma commit_page_of: "set_body page_zeroed (commit_encode_into hdr (page_body page_zeroed)) = page_of (commit_body hdr)"
  by (simp add: set_body_def page_of_def commit_body_def)

lemma decode_commit_body: "branch_ok (ch_branch hdr) \<Longrightarrow> commit_decode (commit_body hdr) = Some hdr"
  unfolding commit_body_def by (rule commit_decode_encode) (simp_all add: page_body_def page_zeroed_def size_consts)

text \<open>The dirty pages of a transaction that began on the pager: their bodies in the order of their numbers.\<close>

definition tx_pages :: "tx_store \<Rightarrow> pager \<Rightarrow> bytes list \<Rightarrow> bool" where
  "tx_pages ts pg new \<longleftrightarrow> alloc_base ts = n_pages pg \<and> alloc_next ts = n_pages pg + of_nat (length new) \<and>
     pages_are (dirty ts) [unat (alloc_base ts)..<unat (alloc_next ts)] new"

text \<open>Either the whole commit is behind the pages and in the directory, or the write failed and left a torn tail.\<close>

lemma write_commit_pages_spec:
  assumes rep: "pager_rep pg bs" "as_write_offset (pg_state pg) = length (df_bytes (pg_file pg))"
    and tx: "tx_pages ts pg new" "branch_ok (cp_branch params)" "length bs + length new + 1 < 2 ^ 62"
  defines "p \<equiv> FIRST_DATA_PAGE + of_nat (length bs + length new)"
  obtains (whole) pg' hdr where "write_commit_pages sha ts params dr mr t pg = Some (Inr (head_from hdr p), pg')"
      "pager_rep pg' (bs @ new @ [commit_body hdr])" "as_write_offset (pg_state pg') = length (df_bytes (pg_file pg'))"
      "same_store pg pg'" "self_consistent sha hdr = Inr True" "ch_version hdr = cp_version params"
      "ch_flags hdr = cp_flags params" "ch_prev_chain hdr = cp_prev_chain params" "ch_branch hdr = cp_branch params"
      "ch_nonce_counter hdr = as_nonce_counter (pg_state pg) + of_nat (length new) + 1"
      "as_nonce_counter (pg_state pg') = ch_nonce_counter hdr"
      "ch_prev_page hdr = cp_prev_page params" "ch_pages_written hdr = of_nat (length new) + 1" "ch_content_hash hdr = sha (concat new)"
    | (torn) pg' m where "write_commit_pages sha ts params dr mr t pg = Some (Inl io_write, pg')"
      "torn pg' (bs @ take m new)" "same_store pg pg'"
proof -
  let ?s = "pg_state pg" and ?e = "as_write_offset (pg_state pg)"
  let ?pids = "[3 + length bs..<3 + length bs + length new]"
  have w: "writing pg bs (as_dir ?s) ?e"
    using rep unfolding pager_rep_disk writing_def by blast
  have np: "n_pages pg = FIRST_DATA_PAGE + of_nat (length bs)" using rep(1) unfolding pager_rep_disk n_pages_def by blast
  have cp: "alloc_next ts = p" using tx(1) np by (simp add: tx_pages_def p_def)
  have "unat (alloc_base ts) = 3 + length bs" using n_pages_rep [OF rep(1)] tx(1) by (simp add: tx_pages_def)
  moreover have "unat (alloc_next ts) = 3 + length bs + length new"
    using unat_first_plus [of "length bs + length new"] tx(3) unfolding cp p_def by simp
  ultimately have ids: "[unat (alloc_base ts)..<unat p] = ?pids" by (simp add: cp)
  have pa: "pages_are (dirty ts) ?pids new" using tx(1) unfolding tx_pages_def cp ids by blast
  have sz: "length bs + length new < 2 ^ 62" using tx(3) by simp
  let ?rest = "\<lambda>content cursor entries nonce. sbind (slift (commit_header_of sha params dr mr t nonce (of_nat (length ?pids) + 1) content))
      (\<lambda>header. let page = set_body page_zeroed (commit_encode_into header (page_body page_zeroed)) in
          sbind (write_record_at p (page_body page) cursor) (\<lambda>(rec_len, loc).
          sbind (cache_insert p page) (\<lambda>_ pg.
            sret \<lparr>hd_version = ch_version header, hd_commit_page = p, hd_data_root = dr, hd_meta_root = mr,
                  hd_chain_hash = ch_chain_hash header, hd_nonce_counter = ch_nonce_counter header, hd_n_pages = p + 1\<rparr>
              (install_commit (entries @ [(p, loc)]) (cursor + rec_len) (p + 1) pg))))"
  have unf: "write_commit_pages sha ts params dr mr t pg = sbind (write_pages (dirty ts) ?pids ?e)
      (\<lambda>(content, cursor, entries) pg. ?rest content cursor entries (as_nonce_counter (pg_state pg) + 1) pg) pg"
    unfolding write_commit_pages_def Let_def cp ids ..
  from write_pages_spec [OF w pa sz] show thesis
  proof (elim disjE exE conjE)
    fix pg1 es n
    assume f: "write_pages (dirty ts) ?pids ?e pg = Some (Inr (concat new, ?e + n, es), pg1)"
      "writing pg1 (bs @ new) (as_dir ?s @ map snd es) (?e + n)" "same_store pg pg1"
      "pg_state pg1 = ?s\<lparr>as_nonce_counter := as_nonce_counter ?s + of_nat (length new)\<rparr>"
    obtain hdr where h: "commit_header_of sha params dr mr t (as_nonce_counter (pg_state pg1) + 1) (of_nat (length ?pids) + 1) (concat new) = Inr hdr"
      "self_consistent sha hdr = Inr True"
      "ch_flags hdr = cp_flags params" "ch_version hdr = cp_version params" "ch_prev_page hdr = cp_prev_page params"
      "ch_prev_chain hdr = cp_prev_chain params" "ch_branch hdr = cp_branch params" "ch_data_root hdr = dr" "ch_meta_root hdr = mr"
      "ch_nonce_counter hdr = as_nonce_counter (pg_state pg1) + 1" "ch_pages_written hdr = of_nat (length ?pids) + 1"
      "ch_content_hash hdr = sha (concat new)"
      by (rule commit_header_of_spec [of params sha dr mr t "as_nonce_counter (pg_state pg1) + 1" "of_nat (length ?pids) + 1" "concat new"])
        (use tx(2) in \<open>auto simp: branch_ok_def\<close>)
    have len: "length (commit_body hdr) = BODY_SIZE" "length (bs @ new) + 1 < 2 ^ 62"
      using length_commit_body [of hdr] h tx(2,3) by simp_all
    have hd: "\<lparr>hd_version = ch_version hdr, hd_commit_page = p, hd_data_root = dr, hd_meta_root = mr,
        hd_chain_hash = ch_chain_hash hdr, hd_nonce_counter = ch_nonce_counter hdr, hd_n_pages = p + 1\<rparr> = head_from hdr p"
      using h by (simp add: head_from_def)
    have p': "FIRST_DATA_PAGE + of_nat (length (bs @ new)) = p" by (simp add: p_def)
    show thesis
    proof (cases rule: record_step [OF f(2) len])
      case (1 pg2 c loc k)
      let ?pg = "install_commit (es @ [(p, loc)]) (?e + n + k) (p + 1) (pg2\<lparr>pg_cache := c\<rparr>)"
      have r: "write_commit_pages sha ts params dr mr t pg = Some (Inr (head_from hdr p), ?pg)"
        using f(1) h(1) 1(1,2) unfolding unf p' commit_page_of Let_def by (simp add: hd)
      have st: "pg_state ?pg = ?s\<lparr>as_nonce_counter := as_nonce_counter ?s + of_nat (length new) + 1,
          as_dir := as_dir ?s @ map snd es @ [loc], as_write_offset := ?e + n + k, as_next_page := p + 1\<rparr>"
        using 1(5) f(4) by (simp add: install_commit_def put_state_def)
      have w2: "disk (pg2\<lparr>pg_cache := c\<rparr>) ((bs @ new) @ [commit_body hdr]) ((as_dir ?s @ map snd es) @ [loc]) (?e + n + k)"
        "?e + n + k = length (df_bytes (pg_file pg2))" "cache_for c ((bs @ new) @ [commit_body hdr])"
        using 1(3) unfolding writing_def by (blast, simp, simp)
      have "pager_rep ?pg (bs @ new @ [commit_body hdr])"
        using w2 unfolding pager_rep_disk st by (simp add: install_commit_def put_state_def disk_def store_ok_def p_def)
      moreover have "same_store pg ?pg"
        using same_store_trans [OF f(3) 1(4)] by (simp add: same_store_def install_commit_def put_state_def)
      ultimately show thesis
        by (intro whole [OF r]) (use h f(4) st w2(2) in \<open>simp_all add: install_commit_def put_state_def\<close>)
    next
      case (2 pg2)
      have "write_commit_pages sha ts params dr mr t pg = Some (Inl io_write, pg2)"
        using f(1) h(1) 2(1) unfolding unf p' commit_page_of Let_def by simp
      then show thesis using 2 same_store_trans [OF f(3)] torn [of pg2 "length new"] by simp
    qed
  next
    fix pg1 m
    assume f: "write_pages (dirty ts) ?pids ?e pg = Some (Inl io_write, pg1)" "torn pg1 (bs @ take m new)" "same_store pg pg1"
    show thesis by (rule torn [OF _ f(2,3)]) (simp add: unf f(1))
  qed
qed

end
