(* ===== verification/StoreOpen.thy ===== *)
theory StoreOpen
  imports TxCommitLaws
begin

text \<open>
  Opening a file: what it reads of the header and the meta slots, and that the sweep rebuilds the directory of the
  records; writing a meta slot leaves the rest of the file alone, torn or whole.
\<close>

section \<open>The fixed pages\<close>

definition file_head :: "env \<Rightarrow> db_file \<Rightarrow> file_header res" where
  "file_head e file = rbind (read_exact_at file PAGE_SIZE (unat (byte_offset HEADER_PAGE))) (\<lambda>page.
     if take 8 (page_body page) \<noteq> MAGIC_HEADER then Inl NotADatabase
     else rbind (open_page (PlainProvider (env_sha e)) page HEADER_PAGE) (\<lambda>page. header_decode (page_body page)))"

text \<open>The pager is the one its header page asks for.\<close>

definition ready :: "env \<Rightarrow> bytes option \<Rightarrow> pager \<Rightarrow> bool" where
  "ready e key pg \<longleftrightarrow>
     file_head e (pg_file pg) = Inr (pg_header pg) \<and> pg_plain pg = PlainProvider (env_sha e) \<and> pg_master_key pg = key \<and>
     (fh_flags (pg_header pg) AND FLAG_ENCRYPTED \<noteq> 0 \<longleftrightarrow> key \<noteq> None) \<and>
     pg_crypto pg = provider_for (env_sha e) (env_aead e) key (fh_file_id (pg_header pg)) \<and>
     pg_compressor pg = (if fh_flags (pg_header pg) AND FLAG_COMPRESSED \<noteq> 0 then Some Densa else None)"

lemma byte_offsets: "unat (byte_offset HEADER_PAGE) = 0" "unat (byte_offset META_PAGE_A) = 4096"
  "unat (byte_offset META_PAGE_B) = 8192" "unat (byte_offset FIRST_DATA_PAGE) = 12288"
  by (simp_all add: byte_offset_def HEADER_PAGE_def META_PAGE_A_def META_PAGE_B_def FIRST_DATA_PAGE_def size_consts)

lemma read_exact_at_cong:
  assumes "take m (drop off (df_bytes f)) = take m (drop off (df_bytes g))"
    "off + m \<le> length (df_bytes f)" "off + m \<le> length (df_bytes g)"
  shows "read_exact_at f m off = read_exact_at g m off"
  using assms by (simp add: read_exact_at_def get_range_def)

lemma read_region_cong:
  assumes "take 12288 (df_bytes f) = take 12288 (df_bytes g)" "12288 \<le> length (df_bytes f)" "12288 \<le> length (df_bytes g)"
    "off + m \<le> 12288"
  shows "read_exact_at f m off = read_exact_at g m off"
proof (rule read_exact_at_cong)
  have "take m (drop off (take 12288 (df_bytes f))) = take m (drop off (take 12288 (df_bytes g)))" using assms(1) by simp
  then show "take m (drop off (df_bytes f)) = take m (drop off (df_bytes g))"
    using assms(4) by (simp add: drop_take min.absorb1)
qed (use assms in simp_all)

lemma read_meta_slot_cong:
  "pg_plain pg' = pg_plain pg \<Longrightarrow>
   read_exact_at (pg_file pg') PAGE_SIZE (unat (byte_offset pid)) = read_exact_at (pg_file pg) PAGE_SIZE (unat (byte_offset pid)) \<Longrightarrow>
   read_meta_slot pg' pid = read_meta_slot pg pid"
  by (simp only: read_meta_slot_def)

lemma ready_same:
  assumes "ready e key pg" "same_store pg pg'" "12288 \<le> length (df_bytes (pg_file pg))" "12288 \<le> length (df_bytes (pg_file pg'))"
  shows "ready e key pg'" "read_meta_slot pg' META_PAGE_A = read_meta_slot pg META_PAGE_A"
    "read_meta_slot pg' META_PAGE_B = read_meta_slot pg META_PAGE_B"
proof -
  have t: "take 12288 (df_bytes (pg_file pg')) = take 12288 (df_bytes (pg_file pg))" using assms(2) by (simp add: same_store_def)
  note r = read_region_cong [OF t assms(4,3)]
  show "ready e key pg'" using assms(1,2) r [of 0 PAGE_SIZE]
    by (simp add: ready_def same_store_def file_head_def byte_offsets size_consts)
  show "read_meta_slot pg' META_PAGE_A = read_meta_slot pg META_PAGE_A" "read_meta_slot pg' META_PAGE_B = read_meta_slot pg META_PAGE_B"
    using assms(2) r [of 4096 PAGE_SIZE] r [of 8192 PAGE_SIZE]
    by (auto intro!: read_meta_slot_cong simp: same_store_def byte_offsets PAGE_SIZE_def)
qed

section \<open>Opening\<close>

lemma max_version_some: "ms \<noteq> [] \<Longrightarrow> max_version ms \<noteq> None"
  by (cases ms) (auto split: option.splits)

lemma read_meta_ok: "read_meta_slot pg META_PAGE_A \<noteq> None \<or> read_meta_slot pg META_PAGE_B \<noteq> None \<Longrightarrow> \<exists>m. read_meta pg = Inr m"
  using max_version_some [of "meta_slots pg"]
  by (auto simp: read_meta_def meta_slots_def List.map_filter_simps split: option.splits)

lemma cache_for_new: "cache_for (sc_new n m) bs"
  using sc_ok_new [of n m] by (auto simp: cache_for_def cache.agrees_def sc_view_new)

lemma open_file:
  assumes r: "ready e key pg" and t: "torn pg bs"
    and m: "read_meta_slot pg META_PAGE_A \<noteq> None \<or> read_meta_slot pg META_PAGE_B \<noteq> None"
  shows "\<exists>pg2. open_keyed_with e key cp (pg_file pg) = Some (Inr pg2) \<and> pager_rep pg2 bs \<and> same_store pg pg2 \<and>
    pg_file pg2 = pg_file pg \<and> as_nonce_counter (pg_state pg2) = 0"
proof -
  let ?f = "pg_file pg" and ?hd = "pg_header pg"
  obtain ls en where d: "store_ok pg bs" "tail_ok (ecc_nsym pg) (df_bytes ?f) en"
    "on_disk (ecc_nsym pg) (pg_crypto pg) (pg_compressor pg) (df_bytes ?f) 12288 FIRST_DATA_PAGE bs ls en"
    using t unfolding torn_def disk_def by blast
  have ok: "crypto_provider (pg_crypto pg)" "ecc_nsym pg < 255" "12288 \<le> length (df_bytes ?f)" "length bs < 2 ^ 62"
    using d(1) by (simp_all add: store_ok_def)
  have R: "file_head e ?f = Inr ?hd" "pg_plain pg = PlainProvider (env_sha e)" "pg_master_key pg = key"
    "(fh_flags ?hd AND FLAG_ENCRYPTED \<noteq> 0) = (key \<noteq> None)"
    "pg_crypto pg = provider_for (env_sha e) (env_aead e) key (fh_file_id ?hd)"
    "pg_compressor pg = (if fh_flags ?hd AND FLAG_COMPRESSED \<noteq> 0 then Some Densa else None)"
    using r unfolding ready_def by blast+
  define pg0 where "pg0 = \<lparr>pg_file = ?f, pg_header = ?hd, pg_plain = PlainProvider (env_sha e), pg_crypto = pg_crypto pg,
    pg_master_key = key, pg_compressor = pg_compressor pg, pg_cache = sc_new (env_cores e) cp, pg_state = fresh_state\<rparr>"
  have m0: "\<exists>m. read_meta pg0 = Inr m"
    using read_meta_ok [of pg0] read_meta_slot_cong [of pg0 pg] m R(2) by (simp add: pg0_def)
  let ?pg = "sweep_append_region (length (df_bytes ?f)) pg0"
  have sw: "sweep_loop ?f (ecc_nsym pg) (length (df_bytes ?f)) 12288 [] = (ls, en)"
    using sweep_on_disk [OF ok(2,1) d(3) ok(3) d(2), of "[]"] by simp
  have st: "?pg = pg0\<lparr>pg_state := fresh_state\<lparr>as_dir := ls, as_next_page := FIRST_DATA_PAGE + of_nat (length ls), as_write_offset := en\<rparr>\<rparr>"
    using sw by (simp add: sweep_append_region_def pg0_def put_state_def byte_offsets fresh_state_def)
  have rep: "pager_rep ?pg bs"
    using d on_disk_length [OF d(3)] cache_for_new [of "env_cores e" cp bs]
    unfolding pager_rep_disk st by (simp add: pg0_def disk_def store_ok_def)
  have same: "same_store pg ?pg" "pg_file ?pg = ?f" "as_nonce_counter (pg_state ?pg) = 0"
    unfolding st using R(2,3) by (simp_all add: same_store_def pg0_def fresh_state_def)
  have op: "open_keyed_with e key cp ?f =
      (if fh_flags ?hd AND FLAG_ENCRYPTED \<noteq> 0 \<and> n_pages ?pg > FIRST_DATA_PAGE then
         (case read_page FIRST_DATA_PAGE ?pg of
            None \<Rightarrow> None | Some (Inl _, _) \<Rightarrow> Some (Inl WrongKey) | Some (Inr _, pg) \<Rightarrow> Some (Inr pg))
       else Some (Inr ?pg))"
  proof -
    obtain page page' where h: "read_exact_at ?f PAGE_SIZE (unat (byte_offset HEADER_PAGE)) = Inr page"
      "take 8 (page_body page) = MAGIC_HEADER" "open_page (PlainProvider (env_sha e)) page HEADER_PAGE = Inr page'"
      "header_decode (page_body page') = Inr ?hd"
      using R(1) unfolding file_head_def by (auto simp: rbind_eq_Inr split: if_splits)
    show ?thesis
      using h m0 ok(3) R(4,5) unfolding open_keyed_with_def Let_def byte_offsets(4)
      by (cases key) (auto simp: provider_for_def pg0_def R(6))
  qed
  show ?thesis
  proof (cases "fh_flags ?hd AND FLAG_ENCRYPTED \<noteq> 0 \<and> n_pages ?pg > FIRST_DATA_PAGE")
    case True
    have "n_pages ?pg = FIRST_DATA_PAGE + of_nat (length bs)" using rep unfolding pager_rep_disk n_pages_def by blast
    then have "0 < length bs" using True by (cases bs) auto
    then obtain c where c: "read_page FIRST_DATA_PAGE ?pg = Some (Inr (page_of (bs ! 0)), ?pg\<lparr>pg_cache := c\<rparr>)"
      "pager_rep (?pg\<lparr>pg_cache := c\<rparr>) bs"
      using read_page_spec [OF rep, of 0] by auto
    have "open_keyed_with e key cp ?f = Some (Inr (?pg\<lparr>pg_cache := c\<rparr>))"
      unfolding op by (simp only: True simp_thms if_True c(1) option.case prod.case sum.case)
    then show ?thesis using c(2) same by (intro exI [of _ "?pg\<lparr>pg_cache := c\<rparr>"]) (simp add: same_store_def)
  next
    case False
    then have "open_keyed_with e key cp ?f = Some (Inr ?pg)" unfolding op by (simp only: if_False)
    then show ?thesis using rep same by blast
  qed
qed

section \<open>Truncation to the head\<close>

definition loc_end :: "nat \<Rightarrow> phys_loc \<Rightarrow> nat" where
  "loc_end k l = pl_offset l + unat (pl_len l) + record_plen k (unat (pl_len l))"

lemma on_disk_take:
  "on_disk k c z f off pid bs ls e \<Longrightarrow> k < 255 \<Longrightarrow> m \<le> length bs \<Longrightarrow>
   on_disk k c z f off pid (take m bs) (take m ls) (if m = 0 then off else loc_end k (ls ! (m - 1)))"
proof (induction k c z f off pid bs ls e arbitrary: m rule: on_disk.induct)
  case (2 k c z f off pid b bs l ls e)
  then obtain st where st: "sealed c z pid b st" "at_pos f off (framed_record k st)"
    "l = \<lparr>pl_offset = off + LEN_PREFIX_LEN, pl_len = of_nat (length st)\<rparr>"
    "on_disk k c z f (off + length (framed_record k st)) (pid + 1) bs ls e"
    by auto
  show ?case
  proof (cases m)
    case (Suc n)
    have "length st < 2 ^ 32" using st(1) by (auto simp: sealed_def)
    then have l: "loc_end k l = off + length (framed_record k st)"
      using record_plen_framed [OF 2(3), of st] by (simp add: loc_end_def st(3) unat_of_nat_u32)
    have n: "n \<le> length bs" using 2(4) Suc by simp
    show ?thesis using 2(1) [OF st(4) 2(3) n] st l Suc by (cases n) auto
  qed simp
qed auto

lemma truncate_rep:
  assumes rep: "pager_rep pg bs" and m: "m \<le> length bs"
  shows "pager_rep (truncate_to_head (FIRST_DATA_PAGE + of_nat m) pg) (take m bs)"
proof -
  let ?ls = "as_dir (pg_state pg)" and ?k = "ecc_nsym pg"
  have d: "store_ok pg bs" "cache_for (pg_cache pg) bs"
    "on_disk ?k (pg_crypto pg) (pg_compressor pg) (df_bytes (pg_file pg)) 12288 FIRST_DATA_PAGE bs ?ls (as_write_offset (pg_state pg))"
    using rep unfolding pager_rep_disk disk_def by blast+
  have k: "?k < 255" "length bs < 2 ^ 62" using d(1) by (simp_all add: store_ok_def)
  have keep: "unat (FIRST_DATA_PAGE + of_nat m :: u64) - unat FIRST_DATA_PAGE = m"
    using unat_first_plus [of m] m k(2) by (simp add: FIRST_DATA_PAGE_def)
  have t: "truncate_to_head (FIRST_DATA_PAGE + of_nat m) pg =
      put_state ((pg_state pg)\<lparr>as_dir := take m ?ls, as_write_offset := (if m = 0 then 12288 else loc_end ?k (?ls ! (m - 1))),
        as_next_page := FIRST_DATA_PAGE + of_nat m\<rparr>) pg"
    using m on_disk_length [OF d(3)] unfolding truncate_to_head_def keep byte_offsets Let_def
    by (simp add: loc_end_def)
  obtain old where "sc_ok (pg_cache pg)" "cache.agrees (pg_cache pg) (old ++ pages_map bs)"
    using d(2) unfolding cache_for_def by blast
  moreover have "old ++ pages_map bs = (old ++ pages_map bs) ++ pages_map (take m bs)"
    using m by (auto simp: fun_eq_iff map_add_def pages_map_def split: option.splits)
  ultimately have "cache_for (pg_cache pg) (take m bs)" unfolding cache_for_def by metis
  then show ?thesis
    using on_disk_take [OF d(3) k(1) m] d(1) m unfolding pager_rep_disk t
    by (auto simp: put_state_def disk_def store_ok_def dest: in_set_takeD)
qed

section \<open>A store at rest\<close>

text \<open>The state between transactions: all of the file is pages of a history that leads to the head.\<close>

definition store_inv :: "env \<Rightarrow> bytes option \<Rightarrow> pager \<Rightarrow> bytes list \<Rightarrow> head \<Rightarrow> bool" where
  "store_inv e key pg bs h \<longleftrightarrow>
     pager_rep pg bs \<and> as_write_offset (pg_state pg) = length (df_bytes (pg_file pg)) \<and> ready e key pg \<and>
     read_meta_slot pg META_PAGE_A \<noteq> None \<and> read_meta_slot pg META_PAGE_B \<noteq> None \<and>
     hist_ok (env_sha e) (genesis_head (env_sha e) (fh_file_id (pg_header pg))) FIRST_DATA_PAGE bs h \<and>
     hd_n_pages h = n_pages pg \<and> hd_nonce_counter h = as_nonce_counter (pg_state pg)"

lemma store_open_spec:
  assumes r: "ready e key pg" and t: "torn pg bs"
    and m: "read_meta_slot pg META_PAGE_A \<noteq> None \<or> read_meta_slot pg META_PAGE_B \<noteq> None"
    and h: "hist_ok (env_sha e) (genesis_head (env_sha e) (fh_file_id (pg_header pg))) FIRST_DATA_PAGE bs h"
    and n: "hd_n_pages h = FIRST_DATA_PAGE + of_nat n" "n \<le> length bs"
  shows "\<exists>pg2. store_open e key cp (pg_file pg) = Some (Inr (pg2, h)) \<and> pager_rep pg2 (take n bs) \<and> same_store pg pg2 \<and>
    pg_file pg2 = pg_file pg \<and> as_nonce_counter (pg_state pg2) = hd_nonce_counter h +
      of_nat (div_ceil (length (df_bytes (pg_file pg)) - as_write_offset (pg_state pg2)) MIN_RECORD_LEN)"
proof -
  obtain pg1 where o: "open_keyed_with e key cp (pg_file pg) = Some (Inr pg1)" "pager_rep pg1 bs" "same_store pg pg1"
    "pg_file pg1 = pg_file pg"
    using open_file [OF r t m] by blast
  have "hist_ok (env_sha e) (genesis_head (env_sha e) (fh_file_id (pg_header pg1))) FIRST_DATA_PAGE bs h"
    using h o(3) by (simp add: same_store_def)
  then obtain c where c: "recover (env_sha e) pg1 = Some (Inr h, pg1\<lparr>pg_cache := c\<rparr>)" "pager_rep (pg1\<lparr>pg_cache := c\<rparr>) bs"
    using recover_spec [OF o(2)] by blast
  let ?pg = "truncate_to_head (hd_n_pages h) (pg1\<lparr>pg_cache := c\<rparr>)"
  let ?pg2 = "set_nonce_counter (hd_nonce_counter h +
      of_nat (div_ceil (length (df_bytes (pg_file pg)) - as_write_offset (pg_state ?pg)) MIN_RECORD_LEN)) ?pg"
  have f: "pg_file ?pg = pg_file pg" using o(4) by (simp add: truncate_to_head_def put_state_def Let_def)
  have "store_open e key cp (pg_file pg) = Some (Inr (?pg2, h))"
    using o(1) c(1) o(4) by (simp add: store_open_def Let_def)
  moreover have "pager_rep ?pg2 (take n bs)"
    using truncate_rep [OF c(2) n(2)] unfolding pager_rep_disk n(1)
    by (simp add: set_nonce_counter_def put_state_def disk_def store_ok_def)
  moreover have "same_store pg ?pg2" "pg_file ?pg2 = pg_file pg"
    using o(3) f by (simp_all add: same_store_def set_nonce_counter_def truncate_to_head_def put_state_def Let_def)
  ultimately show ?thesis by (intro exI [of _ ?pg2]) (simp add: set_nonce_counter_def put_state_def)
qed

end
