(* ===== verification/StoreCommit.thy ===== *)
theory StoreCommit
  imports StoreOpen
begin

text \<open>
  A commit is atomic: whatever the disk stops at, opening what is left gives the head before or the head after, and
  the head after whenever the commit was acknowledged.
\<close>

section \<open>Writing a meta slot\<close>

text \<open>A file that differs only in the slot's page.\<close>

definition same_but :: "nat \<Rightarrow> bytes \<Rightarrow> bytes \<Rightarrow> bool" where
  "same_but off f g \<longleftrightarrow> length g = length f \<and> take off g = take off f \<and> drop (off + PAGE_SIZE) g = drop (off + PAGE_SIZE) f"

lemma overwrite_same_but:
  assumes "off + PAGE_SIZE \<le> length f" "length d \<le> PAGE_SIZE"
  shows "same_but off f (overwrite f off d)"
  using assms by (simp add: same_but_def overwrite_def drop_append add.commute)

lemma same_but_before: "same_but off f g \<Longrightarrow> p + m \<le> off \<Longrightarrow> take m (drop p g) = take m (drop p f)"
proof -
  assume a: "same_but off f g" "p + m \<le> off"
  have "take m (drop p (take off g)) = take m (drop p (take off f))" using a(1) by (simp add: same_but_def)
  then show ?thesis using a(2) by (simp add: drop_take min.absorb1)
qed

lemma same_but_after: "same_but off f g \<Longrightarrow> off + PAGE_SIZE \<le> p \<Longrightarrow> drop p g = drop p f"
proof -
  assume a: "same_but off f g" "off + PAGE_SIZE \<le> p"
  have "drop (p - (off + PAGE_SIZE)) (drop (off + PAGE_SIZE) g) = drop (p - (off + PAGE_SIZE)) (drop (off + PAGE_SIZE) f)"
    using a(1) by (simp add: same_but_def)
  then show ?thesis using a(2) by simp
qed

lemma same_but_at_pos: "same_but off f g \<Longrightarrow> off + PAGE_SIZE \<le> p \<Longrightarrow> at_pos g p t \<longleftrightarrow> at_pos f p t"
  using same_but_after [of off f g p] by (simp add: at_pos_def same_but_def)

lemma same_but_on_disk:
  "same_but off f g \<Longrightarrow> off + PAGE_SIZE \<le> o' \<Longrightarrow> on_disk k c z f o' pid bs ls e \<Longrightarrow> on_disk k c z g o' pid bs ls e"
proof (induction k c z f o' pid bs ls e rule: on_disk.induct)
  case (2 k c z f o' pid b bs l ls e)
  then show ?case using same_but_at_pos [OF 2(2,3)] by auto
qed auto

lemma same_but_tail: "same_but off f g \<Longrightarrow> off + PAGE_SIZE \<le> e \<Longrightarrow> tail_ok k f e \<Longrightarrow> tail_ok k g e"
  using same_but_at_pos [of off f g e] by (auto simp: tail_ok_def same_but_def)

lemma write_meta_spec:
  fixes m :: meta_slot
  assumes plain: "pg_plain pg = PlainProvider sha" and len: "12288 \<le> length (df_bytes (pg_file pg))"
  defines "off \<equiv> unat (byte_offset (slot_page (ms_version m)))"
  obtains r f' where "write_meta m pg = Some (r, pg\<lparr>pg_file := f'\<rparr>)" "r = Inr () \<or> r = Inl io_write"
    "same_but off (df_bytes (pg_file pg)) (df_bytes f')"
    "r = Inr () \<Longrightarrow> read_meta_slot (pg\<lparr>pg_file := f'\<rparr>) (slot_page (ms_version m)) = Some m"
proof -
  let ?pid = "slot_page (ms_version m)" and ?f = "df_bytes (pg_file pg)"
  let ?p = "take CRYPTO_RESERVE page_zeroed @ meta_encode_into m (page_body page_zeroed)"
  let ?c = "PlainProvider sha"
  let ?q = "seal_bytes ?c (page_body ?p) ?pid 0"
  have off: "off + PAGE_SIZE \<le> length ?f"
    using slot_page_range [of "ms_version m"] byte_offsets len by (auto simp: off_def size_consts)
  have p: "length ?p = PAGE_SIZE" "page_body ?p = meta_encode_into m (page_body page_zeroed)"
    by (simp_all add: meta_encode_into_def Let_def page_body_def page_zeroed_def size_consts)
  have s: "seal ?c ?p ?pid 0 = Inr ?q" by (rule plain.seal_total [OF p(1)])
  have q: "length ?q = PAGE_SIZE" "\<exists>p'. open_page ?c ?q ?pid = Inr p' \<and> page_body p' = page_body ?p"
    using plain.open_page_seal [OF p(1) s] by blast+
  have w: "write_meta m pg = file_write ?q off pg"
    using s plain by (simp add: write_meta_def write_meta_at_def off_def)
  show thesis
  proof (cases "case df_budget (pg_file pg) of None \<Rightarrow> True | Some n \<Rightarrow> length ?q \<le> n")
    case True
    then obtain f' where f': "write_all_at ?q off (pg_file pg) = (Inr (), f')" "df_bytes f' = overwrite ?f off ?q"
      by (cases "df_budget (pg_file pg)") (auto simp: write_all_at_def)
    have "read_exact_at f' PAGE_SIZE off = Inr ?q"
      using overwrite_at(1) [of off ?f ?q] off q(1) by (intro read_at_pos) (simp_all add: f'(2))
    then have "read_meta_slot (pg\<lparr>pg_file := f'\<rparr>) ?pid = meta_decode (page_body ?p)"
      using q(2) plain by (auto simp: read_meta_slot_def off_def)
    moreover have "meta_decode (page_body ?p) = Some m"
      unfolding p(2) by (rule meta_decode_encode) (simp add: page_body_def page_zeroed_def size_consts)
    ultimately show thesis
      using overwrite_same_but [OF off, of ?q] q(1) f'
      by (intro that [of "Inr ()" f']) (simp_all add: w file_write_def)
  next
    case False
    then obtain n f' where f': "write_all_at ?q off (pg_file pg) = (Inl io_write, f')" "df_bytes f' = overwrite ?f off (take n ?q)"
      by (cases "df_budget (pg_file pg)") (auto simp: write_all_at_def)
    then show thesis
      using overwrite_same_but [OF off, of "take n ?q"] q(1)
      by (intro that [of "Inl io_write" f']) (simp_all add: w file_write_def)
  qed
qed

text \<open>What a write of a meta slot, whole or torn, leaves of a store.\<close>

lemma same_but_store:
  assumes s: "same_but off (df_bytes (pg_file pg)) (df_bytes f')" "off = 4096 \<or> off = 8192"
    and len: "12288 \<le> length (df_bytes (pg_file pg))"
  shows "pager_rep pg bs \<Longrightarrow> pager_rep (pg\<lparr>pg_file := f'\<rparr>) bs" "torn pg bs \<Longrightarrow> torn (pg\<lparr>pg_file := f'\<rparr>) bs"
    "ready e key pg \<Longrightarrow> ready e key (pg\<lparr>pg_file := f'\<rparr>)"
    "unat (byte_offset pid) = 12288 - off \<Longrightarrow> read_meta_slot (pg\<lparr>pg_file := f'\<rparr>) pid = read_meta_slot pg pid"
proof -
  have o: "off + PAGE_SIZE \<le> 12288" "PAGE_SIZE \<le> off" using s(2) by (auto simp: size_consts)
  have l: "length (df_bytes f') = length (df_bytes (pg_file pg))" using s(1) by (simp add: same_but_def)
  note d = same_but_on_disk [OF s(1) o(1)]
  show "pager_rep pg bs \<Longrightarrow> pager_rep (pg\<lparr>pg_file := f'\<rparr>) bs"
    using d l unfolding pager_rep_def by simp
  show "torn pg bs \<Longrightarrow> torn (pg\<lparr>pg_file := f'\<rparr>) bs"
  proof -
    assume "torn pg bs"
    then obtain ls en where t: "disk pg bs ls en" "tail_ok (ecc_nsym pg) (df_bytes (pg_file pg)) en" by (auto simp: torn_def)
    have "12288 \<le> en" using t(1) on_disk_le len unfolding disk_def by blast
    then have "tail_ok (ecc_nsym pg) (df_bytes f') en" using same_but_tail [OF s(1) _ t(2)] o by simp
    then show ?thesis using t(1) d l unfolding torn_def disk_def store_ok_def
      by (intro exI [of _ ls] exI [of _ en]) simp
  qed
  show "ready e key pg \<Longrightarrow> ready e key (pg\<lparr>pg_file := f'\<rparr>)"
  proof -
    have "read_exact_at f' PAGE_SIZE 0 = read_exact_at (pg_file pg) PAGE_SIZE 0"
      using same_but_before [OF s(1), of 0 PAGE_SIZE] o len l by (intro read_exact_at_cong) auto
    then show "ready e key pg \<Longrightarrow> ready e key (pg\<lparr>pg_file := f'\<rparr>)"
      by (simp add: ready_def file_head_def byte_offsets)
  qed
  assume p: "unat (byte_offset pid) = 12288 - off"
  have "take PAGE_SIZE (drop (12288 - off) (df_bytes f')) = take PAGE_SIZE (drop (12288 - off) (df_bytes (pg_file pg)))"
    using s(2) same_but_before [OF s(1), of 4096 PAGE_SIZE] same_but_after [OF s(1), of 8192]
    by (auto simp: size_consts)
  then have "read_exact_at f' PAGE_SIZE (12288 - off) = read_exact_at (pg_file pg) PAGE_SIZE (12288 - off)"
    using s(2) len l by (intro read_exact_at_cong) (auto simp: size_consts)
  then show "read_meta_slot (pg\<lparr>pg_file := f'\<rparr>) pid = read_meta_slot pg pid"
    by (intro read_meta_slot_cong) (simp_all add: p)
qed

section \<open>Atomicity\<close>

text \<open>The end of the records is a function of the file.\<close>

lemma on_disk_unique:
  "on_disk k c z f off pid bs ls e \<Longrightarrow> on_disk k c z f off pid bs ls' e' \<Longrightarrow> k < 255 \<Longrightarrow> e' = e"
proof (induction k c z f off pid bs ls e arbitrary: ls' rule: on_disk.induct)
  case (1 k c z f off pid e)
  then show ?case by (cases ls') auto
next
  case (2 k c z f off pid b bs l ls e)
  then obtain l' ls2 st st' where ls': "ls' = l' # ls2" and st: "sealed c z pid b st" "at_pos f off (framed_record k st)"
    "on_disk k c z f (off + length (framed_record k st)) (pid + 1) bs ls e"
    and st': "sealed c z pid b st'" "at_pos f off (framed_record k st')"
    "on_disk k c z f (off + length (framed_record k st')) (pid + 1) bs ls2 e'"
    by (cases ls') auto
  have l: "length st < 2 ^ 32" "length st' < 2 ^ 32" using st(1) st'(1) by (auto simp: sealed_def)
  have "u32_le (of_nat (length st)) = u32_le (of_nat (length st'))"
    using framed_record_at(1) [OF st(2)] framed_record_at(1) [OF st'(2)] by (simp add: at_pos_def)
  then have "length st = length st'"
    using l by (metis le_val_u32_le unat_of_nat_u32)
  then have "length (framed_record k st) = length (framed_record k st')"
    using record_plen_framed [OF 2(4)] by simp
  then show ?case using 2(1) [OF st(3) _ 2(4), of ls2] st'(3) by simp
qed auto

text \<open>The bodies of a transaction's pages are no commits.\<close>

definition data_pages :: "bytes list \<Rightarrow> bool" where
  "data_pages bs \<longleftrightarrow> list_all (\<lambda>b. commit_decode b = None) bs"

lemma store_invD:
  assumes "store_inv e key pg bs h"
  shows "pager_rep pg bs" "as_write_offset (pg_state pg) = length (df_bytes (pg_file pg))" "ready e key pg"
    "read_meta_slot pg META_PAGE_A \<noteq> None" "read_meta_slot pg META_PAGE_B \<noteq> None"
    "hist_ok (env_sha e) (genesis_head (env_sha e) (fh_file_id (pg_header pg))) FIRST_DATA_PAGE bs h"
    "hd_n_pages h = FIRST_DATA_PAGE + of_nat (length bs)" "hd_nonce_counter h = as_nonce_counter (pg_state pg)"
    "12288 \<le> length (df_bytes (pg_file pg))" "torn pg bs"
proof -
  note S = assms [unfolded store_inv_def]
  show "pager_rep pg bs" "as_write_offset (pg_state pg) = length (df_bytes (pg_file pg))" "ready e key pg"
    "read_meta_slot pg META_PAGE_A \<noteq> None" "read_meta_slot pg META_PAGE_B \<noteq> None"
    "hist_ok (env_sha e) (genesis_head (env_sha e) (fh_file_id (pg_header pg))) FIRST_DATA_PAGE bs h"
    "hd_nonce_counter h = as_nonce_counter (pg_state pg)"
    using S by blast+
  then show "12288 \<le> length (df_bytes (pg_file pg))" by (simp add: pager_rep_def)
  show "hd_n_pages h = FIRST_DATA_PAGE + of_nat (length bs)"
    using S unfolding pager_rep_disk n_pages_def by simp
  show "torn pg bs" using S tail_ok_clean unfolding pager_rep_disk torn_def by metis
qed

lemma data_pages_take: "data_pages bs \<Longrightarrow> data_pages (take m bs)"
  by (auto simp: data_pages_def list_all_iff dest: in_set_takeD)

lemma hist_ok_more: "hist_ok sha g i bs h \<Longrightarrow> data_pages new \<Longrightarrow> hist_ok sha g i (bs @ new) h"
  by (auto simp: hist_ok_append hist_ok_data data_pages_def intro!: exI [of _ h])

text \<open>The new history, when the commit is written.\<close>

lemma hist_ok_commit:
  assumes "hist_ok sha g FIRST_DATA_PAGE bs h" "data_pages new" "branch_ok (ch_branch hdr)" "self_consistent sha hdr = Inr True"
    "ch_version hdr = hd_version h + 1" "ch_prev_chain hdr = hd_chain_hash h"
  shows "hist_ok sha g FIRST_DATA_PAGE (bs @ new @ [commit_body hdr]) (head_from hdr (FIRST_DATA_PAGE + of_nat (length bs + length new)))"
  using assms decode_commit_body [OF assms(3)]
  by (auto simp: hist_ok_append hist_ok_data data_pages_def chains_on_def add.assoc intro!: exI [of _ h])

lemma publish_outcome:
  assumes inv: "store_inv e key pg bs h"
    and tx: "tx_pages ts pg new" "data_pages new" "branch_ok branch" "length bs + length new + 1 < 2 ^ 62"
  obtains (acked) pg' hdr where
      "publish_commit (env_sha e) ts (params_after h branch parent) dr mr t pg =
        Some (Inr (head_from hdr (FIRST_DATA_PAGE + of_nat (length bs + length new))), pg')"
      "store_inv e key pg' (bs @ new @ [commit_body hdr]) (head_from hdr (FIRST_DATA_PAGE + of_nat (length bs + length new)))"
      "ch_version hdr = hd_version h + 1" "ch_branch hdr = branch"
      "ch_prev_chain hdr = hd_chain_hash h" "self_consistent (env_sha e) hdr = Inr True" "ch_flags hdr = 0"
      "ch_prev_page hdr = hd_commit_page h" "ch_pages_written hdr = of_nat (length new) + 1" "ch_content_hash hdr = env_sha e (concat new)"
      "pg_header pg' = pg_header pg"
    | (torn_meta) pg' hdr where
      "publish_commit (env_sha e) ts (params_after h branch parent) dr mr t pg = Some (Inl io_write, pg')"
      "ready e key pg'" "torn pg' (bs @ new @ [commit_body hdr])"
      "read_meta_slot pg' META_PAGE_A \<noteq> None \<or> read_meta_slot pg' META_PAGE_B \<noteq> None"
      "hist_ok (env_sha e) (genesis_head (env_sha e) (fh_file_id (pg_header pg'))) FIRST_DATA_PAGE
        (bs @ new @ [commit_body hdr]) (head_from hdr (FIRST_DATA_PAGE + of_nat (length bs + length new)))"
      "ch_version hdr = hd_version h + 1" "ch_branch hdr = branch"
    | (torn_pages) pg' m where
      "publish_commit (env_sha e) ts (params_after h branch parent) dr mr t pg = Some (Inl io_write, pg')"
      "ready e key pg'" "torn pg' (bs @ take m new)"
      "read_meta_slot pg' META_PAGE_A \<noteq> None \<or> read_meta_slot pg' META_PAGE_B \<noteq> None"
      "hist_ok (env_sha e) (genesis_head (env_sha e) (fh_file_id (pg_header pg'))) FIRST_DATA_PAGE (bs @ take m new) h"
proof -
  note I = store_invD [OF inv]
  let ?sha = "env_sha e" and ?ps = "params_after h branch parent" and ?p = "FIRST_DATA_PAGE + of_nat (length bs + length new) :: u64"
  have br: "branch_ok (cp_branch ?ps)" using tx(3) by (simp add: params_after_def)
  show thesis
  proof (cases rule: write_commit_pages_spec [OF I(1,2) tx(1) br tx(4), of ?sha dr mr t])
    case (1 pg1 hdr)
    have len: "12288 \<le> length (df_bytes (pg_file pg1))" using 1(2) by (simp add: pager_rep_def)
    note same = ready_same [OF I(3) 1(4) I(9) len]
    have F: "ch_version hdr = hd_version h + 1" "ch_prev_chain hdr = hd_chain_hash h" "ch_branch hdr = branch"
      using 1 by (simp_all add: params_after_def)
    have hist: "hist_ok ?sha (genesis_head ?sha (fh_file_id (pg_header pg1))) FIRST_DATA_PAGE
        (bs @ new @ [commit_body hdr]) (head_from hdr ?p)"
      using hist_ok_commit [OF I(6) tx(2) _ 1(5) F(1,2)] F(3) tx(3) 1(4) by (simp add: same_store_def)
    have plain: "pg_plain pg1 = PlainProvider ?sha" using same(1) by (simp add: ready_def)
    let ?m = "meta_for (head_from hdr ?p)"
    let ?off = "unat (byte_offset (slot_page (ms_version ?m)))"
    show thesis
    proof (cases rule: write_meta_spec [OF plain len, of ?m])
      case w: (1 r f')
      let ?pg = "pg1\<lparr>pg_file := f'\<rparr>"
      have off: "?off = 4096 \<or> ?off = 8192" using slot_page_range [of "ms_version ?m"] byte_offsets by auto
      have other: "\<exists>pid \<in> {META_PAGE_A, META_PAGE_B}. unat (byte_offset pid) = 12288 - ?off"
        using off byte_offsets by auto
      note S = same_but_store [OF w(3) off len]
      have rep: "pager_rep ?pg (bs @ new @ [commit_body hdr])" by (rule S(1) [OF 1(2)])
      have rdy: "ready e key ?pg" by (rule S(3) [OF same(1)])
      have slot: "read_meta_slot ?pg pid \<noteq> None" if "pid \<in> {META_PAGE_A, META_PAGE_B}" "unat (byte_offset pid) = 12288 - ?off" for pid
        using S(4) [OF that(2)] that(1) same(2,3) I(4,5) by auto
      have pub: "publish_commit ?sha ts ?ps dr mr t pg = (case r of Inl er \<Rightarrow> Some (Inl er, ?pg) | Inr _ \<Rightarrow> Some (Inr (head_from hdr ?p), ?pg))"
        using 1(1) w(1) by (cases r) (simp_all add: publish_commit_def)
      have f: "length (df_bytes f') = length (df_bytes (pg_file pg1))" using w(3) by (simp add: same_but_def)
      from w(2) show thesis
      proof
        assume r: "r = Inr ()"
        have this_slot: "read_meta_slot ?pg (slot_page (ms_version ?m)) = Some ?m" by (rule w(4) [OF r])
        have "read_meta_slot ?pg META_PAGE_A \<noteq> None \<and> read_meta_slot ?pg META_PAGE_B \<noteq> None"
          using slot_page_range [of "ms_version ?m"]
        proof
          assume a: "slot_page (ms_version ?m) = META_PAGE_A"
          show ?thesis using this_slot slot [of META_PAGE_B] unfolding a byte_offsets by simp
        next
          assume a: "slot_page (ms_version ?m) = META_PAGE_B"
          show ?thesis using this_slot slot [of META_PAGE_A] unfolding a byte_offsets by simp
        qed
        moreover have "as_next_page (pg_state pg1) = FIRST_DATA_PAGE + of_nat (length (bs @ new @ [commit_body hdr]))"
          using 1(2) unfolding pager_rep_disk by blast
        ultimately have "store_inv e key ?pg (bs @ new @ [commit_body hdr]) (head_from hdr ?p)"
          unfolding store_inv_def using rep rdy hist 1(3,11) f by (simp add: n_pages_def head_from_def add.assoc)
        then show thesis by (intro acked [of hdr ?pg]) (use pub r F 1 in \<open>simp_all add: params_after_def same_store_def\<close>)
      next
        assume r: "r = Inl io_write"
        have "torn ?pg (bs @ new @ [commit_body hdr])"
          by (rule S(2)) (use 1(2,3) tail_ok_clean in \<open>unfold pager_rep_disk torn_def, metis\<close>)
        then show thesis by (intro torn_meta [of ?pg hdr]) (use pub r F rdy slot other hist in auto)
      qed
    qed
  next
    case (2 pg1 m)
    have len: "12288 \<le> length (df_bytes (pg_file pg1))" using 2(2) by (auto simp: torn_def disk_def store_ok_def)
    note same = ready_same [OF I(3) 2(3) I(9) len]
    have "hist_ok ?sha (genesis_head ?sha (fh_file_id (pg_header pg1))) FIRST_DATA_PAGE (bs @ take m new) h"
      using hist_ok_more [OF I(6) data_pages_take [OF tx(2)]] 2(3) by (simp add: same_store_def)
    then show thesis
      by (intro torn_pages [of pg1 m]) (use 2 same I(4) in \<open>simp_all add: publish_commit_def\<close>)
  qed
qed

text \<open>
  Opening the file after the transaction, whether it was acknowledged or the disk failed at some byte: the old head
  with the old pages, or the new head with all of the new ones.
\<close>

lemma commit_then_open:
  assumes inv: "store_inv e key pg bs h"
    and tx: "tx_pages ts pg new" "data_pages new" "branch_ok branch" "length bs + length new + 1 < 2 ^ 62"
  obtains r pg' pg2 h2 bs2 where
    "publish_commit (env_sha e) ts (params_after h branch parent) dr mr t pg = Some (r, pg')"
    "store_open e key cp (pg_file pg') = Some (Inr (pg2, h2))" "pager_rep pg2 bs2" "hd_n_pages h2 = n_pages pg2"
    "(h2, bs2) = (h, bs) \<and> r = Inl io_write \<or>
     hd_version h2 = hd_version h + 1 \<and> (\<exists>hdr. bs2 = bs @ new @ [commit_body hdr] \<and> ch_branch hdr = branch)"
    "r = Inl io_write \<or> r = Inr h2 \<and> store_inv e key pg2 bs2 h2"
proof -
  note I = store_invD [OF inv]
  let ?p = "FIRST_DATA_PAGE + of_nat (length bs + length new) :: u64"
  have all: "hd_n_pages (head_from hdr ?p) = FIRST_DATA_PAGE + of_nat (length (bs @ new @ [commit_body hdr]))" for hdr
    by (simp add: head_from_def add.assoc)
  have np: "n_pages q = FIRST_DATA_PAGE + of_nat (length xs)" if "pager_rep q xs" for q xs
    using that unfolding pager_rep_disk n_pages_def by blast
  show thesis
  proof (cases rule: publish_outcome [OF inv tx, of parent dr mr t])
    case (1 pg' hdr)
    note J = store_invD [OF 1(2)]
    obtain pg2 where o: "store_open e key cp (pg_file pg') = Some (Inr (pg2, head_from hdr ?p))"
      "pager_rep pg2 (bs @ new @ [commit_body hdr])" "same_store pg' pg2" "pg_file pg2 = pg_file pg'"
      "as_nonce_counter (pg_state pg2) = hd_nonce_counter (head_from hdr ?p) +
         of_nat (div_ceil (length (df_bytes (pg_file pg')) - as_write_offset (pg_state pg2)) MIN_RECORD_LEN)"
      using store_open_spec [OF J(3,10) disjI1 [OF J(4)] J(6) all order_refl, of cp] by auto
    have "store_inv e key pg2 (bs @ new @ [commit_body hdr]) (head_from hdr ?p)"
    proof -
      have d: "disk pg' (bs @ new @ [commit_body hdr]) (as_dir (pg_state pg')) (as_write_offset (pg_state pg'))"
        "disk pg2 (bs @ new @ [commit_body hdr]) (as_dir (pg_state pg2)) (as_write_offset (pg_state pg2))"
        using J(1) o(2) unfolding pager_rep_disk by blast+
      have "as_write_offset (pg_state pg2) = as_write_offset (pg_state pg')"
        using on_disk_unique d o(3,4) unfolding disk_def store_ok_def same_store_def by metis
      then have wo: "as_write_offset (pg_state pg2) = length (df_bytes (pg_file pg2))" using J(2) o(4) by simp
      have l2: "12288 \<le> length (df_bytes (pg_file pg2))" using J(9) o(4) by simp
      note same = ready_same [OF J(3) o(3) J(9) l2]
      show ?thesis
        using o(2) wo same J(4-6) o(3,5) all [of hdr] np [OF o(2)] o(4)
        unfolding store_inv_def by (simp add: same_store_def div_ceil_def size_consts)
    qed
    then show thesis
      using 1 o np [OF o(2)] all [of hdr]
      by (intro that [of "Inr (head_from hdr ?p)" pg' pg2 "head_from hdr ?p" "bs @ new @ [commit_body hdr]"])
        (auto simp: head_from_def)
  next
    case (2 pg' hdr)
    obtain pg2 where o: "store_open e key cp (pg_file pg') = Some (Inr (pg2, head_from hdr ?p))"
      "pager_rep pg2 (bs @ new @ [commit_body hdr])"
      using store_open_spec [OF 2(2-5) all order_refl, of cp] by auto
    then show thesis
      using 2 np [OF o(2)] all [of hdr]
      by (intro that [of "Inl io_write" pg' pg2 "head_from hdr ?p" "bs @ new @ [commit_body hdr]"])
        (auto simp: head_from_def)
  next
    case (3 pg' m)
    obtain pg2 where o: "store_open e key cp (pg_file pg') = Some (Inr (pg2, h))" "pager_rep pg2 bs"
      using store_open_spec [OF 3(2-5) I(7), of cp] by auto
    then show thesis
      using 3 np [OF o(2)] I(7) by (intro that [of "Inl io_write" pg' pg2 h bs]) auto
  qed
qed

end
