(* ===== verification/StoreCreate.thy ===== *)
theory StoreCreate
  imports StoreCommit
begin

text \<open>A new file is a store at rest, with no page and the genesis head.\<close>

section \<open>Creation\<close>

lemma file_write_none:
  assumes "df_budget (pg_file pg) = None" "length (df_bytes (pg_file pg)) = off"
  shows "file_write d off pg = Some (Inr (), pg\<lparr>pg_file := (pg_file pg)\<lparr>df_bytes := df_bytes (pg_file pg) @ d\<rparr>\<rparr>)"
  using assms by (simp add: file_write_ok overwrite_end)

lemma meta_page:
  obtains q where "seal (PlainProvider sha) (take CRYPTO_RESERVE page_zeroed @ meta_encode_into m (page_body page_zeroed)) pid 0 = Inr q"
    "length q = PAGE_SIZE" "\<exists>p. open_page (PlainProvider sha) q pid = Inr p \<and> meta_decode (page_body p) = Some m"
proof -
  let ?p = "take CRYPTO_RESERVE page_zeroed @ meta_encode_into m (page_body page_zeroed)"
  have p: "length ?p = PAGE_SIZE" "page_body ?p = meta_encode_into m (page_body page_zeroed)"
    by (simp_all add: meta_encode_into_def Let_def page_body_def page_zeroed_def size_consts)
  have "meta_decode (page_body ?p) = Some m"
    unfolding p(2) by (rule meta_decode_encode) (simp add: page_body_def page_zeroed_def size_consts)
  then show thesis
    using plain.seal_total [OF p(1)] plain.open_page_seal [OF p(1) plain.seal_total [OF p(1)]] that by metis
qed

lemma header_page:
  fixes h :: file_header
  assumes "length (fh_file_id h) = 16" "length (fh_kdf_salt h) = 16"
  obtains q where "seal (PlainProvider sha) (take CRYPTO_RESERVE page_zeroed @ header_encode_into h (page_body page_zeroed)) HEADER_PAGE 0 = Inr q"
    "length q = PAGE_SIZE" "take 8 (page_body q) = MAGIC_HEADER"
    "\<exists>p. open_page (PlainProvider sha) q HEADER_PAGE = Inr p \<and> header_decode (page_body p) = Inr h"
proof -
  let ?b = "header_encode_into h (page_body page_zeroed)"
  let ?p = "take CRYPTO_RESERVE page_zeroed @ ?b" and ?c = "PlainProvider sha"
  have d: "header_decode ?b = Inr h"
    by (rule header_decode_encode) (use assms in \<open>simp_all add: page_body_def page_zeroed_def size_consts\<close>)
  have l: "length ?b = BODY_SIZE"
    using assms by (simp add: header_encode_into_def Let_def page_body_def page_zeroed_def size_consts)
  have p: "length ?p = PAGE_SIZE" "page_body ?p = ?b" using l by (simp_all add: page_body_def page_zeroed_def size_consts)
  have s: "seal ?c ?p HEADER_PAGE 0 = Inr (seal_bytes ?c ?b HEADER_PAGE 0)" using plain.seal_total [OF p(1)] p(2) by simp
  have m: "take 8 ?b = MAGIC_HEADER" using header_decode_rejects_magic [of ?b] d by (metis sum.distinct(1))
  have q: "page_body (seal_bytes ?c ?b HEADER_PAGE 0) = ?b"
    using plain.length_seal [of sha ?b HEADER_PAGE 0] l
    by (simp add: PlainProvider_def plain_seal_bytes_def page_body_def size_consts)
  show thesis
    using plain.open_page_seal [OF p(1) s] d p(2) m q by (intro that [OF s]) auto
qed

lemma create_spec:
  assumes len: "length file_id = 16" "length salt = 16" and n: "nsym < 255" and z: "packer = None \<or> packer = Some Densa"
    and a: "key = None \<or> aead_ok (env_aead e)"
  shows "\<exists>pg. create_with_crypto e file_id salt key packer nsym cp \<lparr>df_bytes = [], df_budget = None\<rparr> = Some (Inr pg, pg_file pg) \<and>
    store_inv e key pg [] (genesis_head (env_sha e) file_id) \<and> fh_file_id (pg_header pg) = file_id \<and> df_budget (pg_file pg) = None"
proof -
  let ?h = "\<lparr>fh_flags = (if key = None then 0 else FLAG_ENCRYPTED) OR (if packer = None then 0 else FLAG_COMPRESSED),
    fh_file_id = file_id, fh_kdf_salt = salt, fh_ecc_nsym = nsym\<rparr>"
  let ?m = "\<lparr>ms_version = 0, ms_last_commit_page = 0, ms_n_pages = FIRST_DATA_PAGE\<rparr>"
  let ?c = "PlainProvider (env_sha e)"
  define pg0 where "pg0 = \<lparr>pg_file = \<lparr>df_bytes = [], df_budget = None\<rparr>, pg_header = ?h, pg_plain = ?c,
    pg_crypto = provider_for (env_sha e) (env_aead e) key file_id, pg_master_key = key, pg_compressor = packer,
    pg_cache = sc_new (env_cores e) cp, pg_state = fresh_state\<rparr>"
  obtain q where q: "seal ?c (take CRYPTO_RESERVE page_zeroed @ header_encode_into ?h (page_body page_zeroed)) HEADER_PAGE 0 = Inr q"
    "length q = PAGE_SIZE" "take 8 (page_body q) = MAGIC_HEADER"
    "\<exists>p. open_page ?c q HEADER_PAGE = Inr p \<and> header_decode (page_body p) = Inr ?h"
    by (rule header_page [of ?h "env_sha e"]) (use len in auto)
  obtain q1 where q1: "seal ?c (take CRYPTO_RESERVE page_zeroed @ meta_encode_into ?m (page_body page_zeroed)) META_PAGE_A 0 = Inr q1"
    "length q1 = PAGE_SIZE" "\<exists>p. open_page ?c q1 META_PAGE_A = Inr p \<and> meta_decode (page_body p) = Some ?m"
    by (rule meta_page [of "env_sha e" ?m META_PAGE_A])
  obtain q2 where q2: "seal ?c (take CRYPTO_RESERVE page_zeroed @ meta_encode_into ?m (page_body page_zeroed)) META_PAGE_B 0 = Inr q2"
    "length q2 = PAGE_SIZE" "\<exists>p. open_page ?c q2 META_PAGE_B = Inr p \<and> meta_decode (page_body p) = Some ?m"
    by (rule meta_page [of "env_sha e" ?m META_PAGE_B])
  let ?pg = "pg0\<lparr>pg_file := \<lparr>df_bytes = q @ q1 @ q2, df_budget = None\<rparr>\<rparr>"
  have l: "length q = 4096" "length q1 = 4096" "length q2 = 4096" using q(2) q1(2) q2(2) by (simp_all add: size_consts)
  have "create_with_crypto e file_id salt key packer nsym cp \<lparr>df_bytes = [], df_budget = None\<rparr> = Some (Inr ?pg, pg_file ?pg)"
    using q(1) q1(1) q2(1) l unfolding create_with_crypto_def Let_def pg0_def [symmetric] byte_offsets
    by (simp add: write_meta_at_def file_write_none byte_offsets pg0_def)
  moreover have rd: "read_exact_at (pg_file ?pg) PAGE_SIZE 0 = Inr q" "read_exact_at (pg_file ?pg) PAGE_SIZE 4096 = Inr q1"
    "read_exact_at (pg_file ?pg) PAGE_SIZE 8192 = Inr q2"
    using l by (simp_all add: read_exact_at_def get_range_def size_consts)
  have slots: "read_meta_slot ?pg META_PAGE_A = Some ?m" "read_meta_slot ?pg META_PAGE_B = Some ?m"
    using rd(2,3) q1(3) q2(3) unfolding read_meta_slot_def byte_offsets by (auto simp: pg0_def)
  have "file_head e (pg_file ?pg) = Inr ?h"
    using rd(1) q(3,4) unfolding file_head_def byte_offsets by auto
  then have "ready e key ?pg"
    using z by (auto simp: ready_def pg0_def FLAG_ENCRYPTED_def FLAG_COMPRESSED_def)
  moreover have "pager_rep ?pg []"
    using provider_for_ok [OF a, of "env_sha e" file_id] comp_ok_cases z n l cache_for_new [of "env_cores e" cp "[]"]
    by (auto simp: pager_rep_def pg0_def fresh_state_def byte_offsets word_less_nat_alt)
  moreover have "as_write_offset (pg_state ?pg) = length (df_bytes (pg_file ?pg))"
    using l by (simp add: pg0_def fresh_state_def byte_offsets)
  ultimately show ?thesis
    using slots by (intro exI [of _ ?pg]) (simp add: store_inv_def pg0_def genesis_head_def n_pages_def fresh_state_def)
qed

end
