(* ===== verification/StoreCrash.thy ===== *)
theory StoreCrash
  imports StoreCreate
begin

text \<open>
  What opening leaves behind: the bytes after the head stay in the file, and later writes go over them.  Two
  consequences: the margin of nonce counters is a function of the file's length, so a second crash gives the same
  counters again; and a commit page left there is taken over as soon as every page before it reads, whoever wrote it.
\<close>

section \<open>A store just opened\<close>

definition reopened :: "env \<Rightarrow> bytes option \<Rightarrow> pager \<Rightarrow> bytes list \<Rightarrow> head \<Rightarrow> bool" where
  "reopened e key pg bs h \<longleftrightarrow>
     pager_rep pg bs \<and> ready e key pg \<and> (read_meta_slot pg META_PAGE_A \<noteq> None \<or> read_meta_slot pg META_PAGE_B \<noteq> None) \<and>
     hist_ok (env_sha e) (genesis_head (env_sha e) (fh_file_id (pg_header pg))) FIRST_DATA_PAGE bs h \<and>
     hd_n_pages h = n_pages pg \<and>
     as_nonce_counter (pg_state pg) = hd_nonce_counter h +
       of_nat (div_ceil (length (df_bytes (pg_file pg)) - as_write_offset (pg_state pg)) MIN_RECORD_LEN)"

lemma store_inv_reopened: "store_inv e key pg bs h \<Longrightarrow> reopened e key pg bs h"
  by (auto simp: store_inv_def reopened_def div_ceil_def size_consts)

lemma reopenedD:
  assumes "reopened e key pg bs h"
  shows "pager_rep pg bs" "ready e key pg" "read_meta_slot pg META_PAGE_A \<noteq> None \<or> read_meta_slot pg META_PAGE_B \<noteq> None"
    "hist_ok (env_sha e) (genesis_head (env_sha e) (fh_file_id (pg_header pg))) FIRST_DATA_PAGE bs h"
    "hd_n_pages h = FIRST_DATA_PAGE + of_nat (length bs)" "12288 \<le> as_write_offset (pg_state pg)"
    "as_write_offset (pg_state pg) \<le> length (df_bytes (pg_file pg))" "12288 \<le> length (df_bytes (pg_file pg))"
    "disk pg bs (as_dir (pg_state pg)) (as_write_offset (pg_state pg))" "ecc_nsym pg < 255"
proof -
  note S = assms [unfolded reopened_def]
  show R: "pager_rep pg bs" "ready e key pg" "read_meta_slot pg META_PAGE_A \<noteq> None \<or> read_meta_slot pg META_PAGE_B \<noteq> None"
    "hist_ok (env_sha e) (genesis_head (env_sha e) (fh_file_id (pg_header pg))) FIRST_DATA_PAGE bs h"
    using S by blast+
  show "hd_n_pages h = FIRST_DATA_PAGE + of_nat (length bs)" using S unfolding pager_rep_disk n_pages_def by simp
  show l: "12288 \<le> length (df_bytes (pg_file pg))" and "ecc_nsym pg < 255" using R(1) by (simp_all add: pager_rep_def)
  show d: "disk pg bs (as_dir (pg_state pg)) (as_write_offset (pg_state pg))" using R(1) unfolding pager_rep_disk by blast
  show "12288 \<le> as_write_offset (pg_state pg)" "as_write_offset (pg_state pg) \<le> length (df_bytes (pg_file pg))"
    using d on_disk_le l unfolding disk_def by blast+
qed

text \<open>Opening what a crash left, in the terms of this section.\<close>

lemma store_open_reopened:
  assumes "ready e key pg" "torn pg bs" "read_meta_slot pg META_PAGE_A \<noteq> None \<or> read_meta_slot pg META_PAGE_B \<noteq> None"
    "hist_ok (env_sha e) (genesis_head (env_sha e) (fh_file_id (pg_header pg))) FIRST_DATA_PAGE (take n bs) h"
    "data_pages (drop n bs)" "hd_n_pages h = FIRST_DATA_PAGE + of_nat n" "n \<le> length bs"
  shows "\<exists>pg2. store_open e key cp (pg_file pg) = Some (Inr (pg2, h)) \<and> reopened e key pg2 (take n bs) h \<and>
    same_store pg pg2 \<and> pg_file pg2 = pg_file pg"
proof -
  have hist: "hist_ok (env_sha e) (genesis_head (env_sha e) (fh_file_id (pg_header pg))) FIRST_DATA_PAGE bs h"
    using hist_ok_more [OF assms(4,5)] by simp
  obtain pg2 where o: "store_open e key cp (pg_file pg) = Some (Inr (pg2, h))" "pager_rep pg2 (take n bs)" "same_store pg pg2"
    "pg_file pg2 = pg_file pg" "as_nonce_counter (pg_state pg2) = hd_nonce_counter h +
      of_nat (div_ceil (length (df_bytes (pg_file pg)) - as_write_offset (pg_state pg2)) MIN_RECORD_LEN)"
    using store_open_spec [OF assms(1-3) hist assms(6,7), of cp] by blast
  have l: "12288 \<le> length (df_bytes (pg_file pg))" using assms(2) by (auto simp: torn_def disk_def store_ok_def)
  have l2: "12288 \<le> length (df_bytes (pg_file pg2))" using l o(4) by simp
  note same = ready_same [OF assms(1) o(3) l l2]
  have "n_pages pg2 = FIRST_DATA_PAGE + of_nat n" using o(2) assms(7) unfolding pager_rep_disk n_pages_def by simp
  then have "reopened e key pg2 (take n bs) h"
    unfolding reopened_def using o same assms(3,4,6) by (simp add: same_store_def)
  then show ?thesis using o by blast
qed

section \<open>Nonces\<close>

text \<open>C19: Nonces repeat after crashes.
  A store that was opened with \<open>L\<close> bytes behind its head begins a record that is longer than \<open>L\<close>, and the disk stops
  after \<open>m \<le> L\<close> bytes of it.  The file is as long as before, so opening it gives the same counter as the last time,
  and the next record is sealed with the counter of the bytes that are on the disk.
\<close>

lemma nonce_again:
  fixes b :: bytes and pg :: pager
  defines "s \<equiv> pg_state pg"
  assumes r: "reopened e key pg bs h" and b: "body_to_seal (pg_compressor pg) (trim_trailing_zeros b) = Some ts"
    and st: "st = seal_bytes (pg_crypto pg) ts (n_pages pg) (as_nonce_counter s)" "length st < 2 ^ 32"
    and m: "df_budget (pg_file pg) = Some m" "LEN_PREFIX_LEN \<le> m" "as_write_offset s + m \<le> length (df_bytes (pg_file pg))"
      "length (df_bytes (pg_file pg)) < as_write_offset s + length (framed_record (ecc_nsym pg) st)"
  shows "\<exists>pg' pg2. write_record_at (n_pages pg) b (as_write_offset s) pg = Some (Inl io_write, pg') \<and>
    at_pos (df_bytes (pg_file pg')) (as_write_offset s) (take m (framed_record (ecc_nsym pg) st)) \<and>
    store_open e key cp (pg_file pg') = Some (Inr (pg2, h)) \<and> reopened e key pg2 bs h \<and>
    as_nonce_counter (pg_state pg2) = as_nonce_counter s"
proof -
  note R = reopenedD [OF r]
  let ?f = "df_bytes (pg_file pg)" and ?w = "as_write_offset s" and ?r = "framed_record (ecc_nsym pg) st"
  have wo: "12288 \<le> ?w" "?w \<le> length ?f" using R(6,7) by (simp_all add: s_def)
  have ml: "m < length ?r" using m(3,4) by linarith
  let ?g = "\<lparr>df_bytes = overwrite ?f ?w (take m ?r), df_budget = Some 0\<rparr>"
  let ?pg' = "pg\<lparr>pg_file := ?g, pg_state := s\<lparr>as_nonce_counter := as_nonce_counter s + 1\<rparr>\<rparr>"
  have w: "write_record_at (n_pages pg) b ?w pg = Some (Inl io_write, ?pg')"
    using b m(1) ml by (simp add: write_record_at_def s_def [symmetric] st(1) [symmetric] put_state_def file_write_def write_all_at_def Let_def)
  have ov: "overwrite ?f ?w (take m ?r) = take ?w ?f @ take m ?r @ drop (?w + m) ?f" using wo ml by (simp add: overwrite_def)
  have at: "at_pos (overwrite ?f ?w (take m ?r)) ?w (take m ?r)" by (rule overwrite_at(1) [OF wo(2)])
  have tail: "tail_ok (ecc_nsym pg) (overwrite ?f ?w (take m ?r)) ?w"
    using tail_ok_prefix [OF R(10) st(2) ml, of "drop (?w + m) ?f" "take ?w ?f"] m wo ml unfolding ov by (simp add: min.absorb2)
  have same: "same_store pg ?pg'" using wo by (simp add: same_store_def ov take_append min.absorb1)
  have len: "length (df_bytes ?g) = length ?f" using m(3) ml by (simp add: ov)
  have d: "disk ?pg' bs (as_dir s) ?w"
    using R(8,9) on_disk_frame [of _ _ _ ?f 12288 _ bs "as_dir s" ?w "df_bytes ?g"] overwrite_at(2) [OF wo(2)] len
    unfolding disk_def store_ok_def s_def by (auto simp: s_def)
  have torn: "torn ?pg' bs" using d tail unfolding torn_def by auto
  have l': "12288 \<le> length (df_bytes (pg_file ?pg'))" using len R(8) by simp
  note rs = ready_same [OF R(2) same R(8) l']
  have hist: "hist_ok (env_sha e) (genesis_head (env_sha e) (fh_file_id (pg_header ?pg'))) FIRST_DATA_PAGE (take (length bs) bs) h"
    "data_pages (drop (length bs) bs)"
    using R(4) by (simp_all add: data_pages_def)
  have sl: "read_meta_slot ?pg' META_PAGE_A \<noteq> None \<or> read_meta_slot ?pg' META_PAGE_B \<noteq> None" using R(3) rs(2,3) by simp
  obtain pg2 where o: "store_open e key cp ?g = Some (Inr (pg2, h))" "reopened e key pg2 bs h" "same_store ?pg' pg2" "pg_file pg2 = ?g"
    using store_open_reopened [OF rs(1) torn sl hist R(5) order_refl, of cp] by auto
  have "as_write_offset (pg_state pg2) = ?w"
    using on_disk_unique d reopenedD(9) [OF o(2)] o(3,4) R(10) unfolding disk_def same_store_def by (simp, metis)
  then have "as_nonce_counter (pg_state pg2) = as_nonce_counter s"
    using o(2,4) r len unfolding reopened_def s_def by simp
  then show ?thesis using w at o(1,2) by (intro exI [of _ ?pg'] exI [of _ pg2]) simp
qed

section \<open>A commit left behind the head\<close>

lemma nat_le_zero: "nat_le k 0 = replicate k 0"
  by (induction k) simp_all

text \<open>C18: Recovery can adopt a transaction that was never completed.
  The records of a transaction reach the disk in any order before its barrier.  Here the commit page of one did and
  its data page, \<open>n\<close> bytes before it, did not; opening finds the head as before.  The next transaction writes a page
  whose record also has \<open>n\<close> bytes, and the machine stops again: opening now takes the old commit over, with the page of
  the other transaction in the place of its own.
\<close>

lemma stale_commit:
  assumes inv: "store_inv e key pg bs h" and sz: "length bs + 2 < 2 ^ 62"
    and d: "length d = BODY_SIZE" "commit_decode d = None"
      "body_to_seal (pg_compressor pg) (trim_trailing_zeros d) = Some ts" "length ts \<le> BODY_SIZE + 1"
    and hdr: "branch_ok (ch_branch hdr)" "self_consistent (env_sha e) hdr = Inr True"
      "ch_version hdr = hd_version h + 1" "ch_prev_chain hdr = hd_chain_hash h"
    and c: "sealed (pg_crypto pg) (pg_compressor pg) (n_pages pg + 1) (commit_body hdr) stc"
    and n: "n = length (framed_record (ecc_nsym pg) (seal_bytes (pg_crypto pg) ts (n_pages pg) 0))"
  shows "\<exists>pg1 x pg2 pg3.
    store_open e key cp \<lparr>df_bytes = df_bytes (pg_file pg) @ replicate n 0 @ framed_record (ecc_nsym pg) stc, df_budget = None\<rparr> =
      Some (Inr (pg1, h)) \<and>
    write_record_at (n_pages pg1) d (as_write_offset (pg_state pg1)) pg1 = Some (Inr x, pg2) \<and>
    store_open e key cp (pg_file pg2) = Some (Inr (pg3, head_from hdr (n_pages pg + 1))) \<and>
    pager_rep pg3 (bs @ [d, commit_body hdr])"
proof -
  note I = store_invD [OF inv]
  let ?f = "df_bytes (pg_file pg)" and ?k = "ecc_nsym pg" and ?c = "pg_crypto pg" and ?z = "pg_compressor pg"
  let ?rc = "framed_record ?k stc" and ?sha = "env_sha e"
  define x where "x = pg\<lparr>pg_file := \<lparr>df_bytes = ?f @ replicate n 0 @ ?rc, df_budget = None\<rparr>\<rparr>"
  have W: "disk pg bs (as_dir (pg_state pg)) (length ?f)" "ecc_nsym pg < 255" "crypto_provider ?c" "comp_ok ?z"
    using I(1,2) unfolding pager_rep_disk disk_def store_ok_def by auto
  have od: "on_disk ?k ?c ?z ?f 12288 FIRST_DATA_PAGE bs (as_dir (pg_state pg)) (length ?f)" "store_ok pg bs"
    using W(1) unfolding disk_def by blast+
  have np: "n_pages pg = FIRST_DATA_PAGE + of_nat (length bs)" using I(1) unfolding pager_rep_disk n_pages_def by blast
  have fx: "df_bytes (pg_file x) = ?f @ replicate n 0 @ ?rc" "pg_file x = \<lparr>df_bytes = ?f @ replicate n 0 @ ?rc, df_budget = None\<rparr>"
    by (simp_all add: x_def)
  have kx: "ecc_nsym x = ?k" by (simp add: x_def)
  have same: "same_store pg x" using I(9) by (simp add: same_store_def x_def)
  have lx: "12288 \<le> length (df_bytes (pg_file x))" using I(9) by (simp add: fx)
  note rx = ready_same [OF I(3) same I(9) lx]
  have n4: "4 \<le> n" unfolding n length_framed by (simp add: LEN_PREFIX_LEN_def)
  have "replicate n (0 :: u8) = u32_le 0 @ replicate (n - 4) 0"
  proof -
    have "u32_le (0 :: u32) = replicate 4 0" by (simp add: u32_le_def nat_le_zero)
    then show ?thesis using n4 replicate_add [of 4 "n - 4" "0 :: u8"] by simp
  qed
  then have "at_pos (df_bytes (pg_file x)) (length ?f) (u32_le 0)" by (simp add: fx at_pos_def)
  then have "tail_ok ?k (df_bytes (pg_file x)) (length ?f)"
    unfolding tail_ok_def by (auto intro!: exI [of _ 0] simp: fx size_consts)
  moreover have "disk x bs (as_dir (pg_state pg)) (length ?f)"
    using on_disk_prefix [OF od(1) I(9)] od(2) by (simp add: disk_def store_ok_def x_def)
  ultimately have torn: "torn x bs" unfolding torn_def kx by blast
  have slx: "read_meta_slot x META_PAGE_A \<noteq> None \<or> read_meta_slot x META_PAGE_B \<noteq> None" using I(4) rx(2) by simp
  have hx: "hist_ok ?sha (genesis_head ?sha (fh_file_id (pg_header x))) FIRST_DATA_PAGE (take (length bs) bs) h"
    "data_pages (drop (length bs) bs)" using I(6) by (simp_all add: x_def data_pages_def)
  obtain pg1 where o1: "store_open e key cp (pg_file x) = Some (Inr (pg1, h))" "reopened e key pg1 bs h" "same_store x pg1"
    "pg_file pg1 = pg_file x"
    using store_open_reopened [OF rx(1) torn slx hx I(7) order_refl, of cp] by auto
  note R1 = reopenedD [OF o1(2)]
  have s1: "pg_crypto pg1 = ?c" "pg_compressor pg1 = ?z" "ecc_nsym pg1 = ?k"
    using same_store_trans [OF same o1(3)] by (simp_all add: same_store_def)
  have np1: "n_pages pg1 = n_pages pg" using R1(1) np unfolding pager_rep_disk n_pages_def by simp
  have wo: "as_write_offset (pg_state pg1) = length ?f"
    using on_disk_unique [OF on_disk_prefix [OF od(1) I(9)] _ W(2), of "replicate n 0 @ ?rc"] R1(9) s1 o1(4) fx(1)
    unfolding disk_def by auto
  let ?s1 = "pg_state pg1"
  define st where "st = seal_bytes ?c ts (n_pages pg) (as_nonce_counter ?s1)"
  have sst: "sealed ?c ?z (n_pages pg) d st" unfolding st_def by (rule sealed_seal [OF W(3) d(3,4)])
  have "length st = length (seal_bytes ?c ts (n_pages pg) 0)"
    using crypto_provider.length_seal [OF W(3)] by (simp add: st_def)
  then have nl: "length (framed_record ?k st) = n" using record_plen_framed [OF W(2)] by (simp add: n)
  let ?g = "\<lparr>df_bytes = (?f @ framed_record ?k st) @ ?rc, df_budget = None\<rparr>"
  let ?pg2 = "pg1\<lparr>pg_file := ?g, pg_state := ?s1\<lparr>as_nonce_counter := as_nonce_counter ?s1 + 1\<rparr>\<rparr>"
  have ov: "overwrite (?f @ replicate n 0 @ ?rc) (length ?f) (framed_record ?k st) = (?f @ framed_record ?k st) @ ?rc"
    using nl by (simp add: overwrite_def)
  have w: "write_record_at (n_pages pg1) d (length ?f) pg1 =
      Some (Inr (n, \<lparr>pl_offset = length ?f + LEN_PREFIX_LEN, pl_len = of_nat (length st)\<rparr>), ?pg2)"
    using d(3) ov by (simp add: write_record_at_def s1 np1 st_def [symmetric] put_state_def file_write_def write_all_at_def
        Let_def o1(4) fx(2) nl)
  have same2: "same_store pg ?pg2" using same_store_trans [OF same o1(3)] I(9) by (simp add: same_store_def)
  have sd: "sealed ?c ?z (FIRST_DATA_PAGE + of_nat (length bs)) d st" using sst np by simp
  have sc: "sealed ?c ?z (FIRST_DATA_PAGE + of_nat (length (bs @ [d]))) (commit_body hdr) stc"
    using c np by (simp add: add.commute add.left_commute)
  note e1 = on_disk_extend [OF od(1) I(9) sd]
  obtain ls where ls: "on_disk ?k ?c ?z ((?f @ framed_record ?k st) @ ?rc) 12288 FIRST_DATA_PAGE ((bs @ [d]) @ [commit_body hdr]) ls
      (length ((?f @ framed_record ?k st) @ ?rc))"
    using on_disk_extend [OF e1 [folded length_append] _ sc] I(9) by (auto simp: add.assoc)
  have "disk ?pg2 (bs @ [d, commit_body hdr]) ls (length (df_bytes ?g))"
    using ls od(2) sz d(1) length_commit_body [OF hdr(1)] I(9) s1 by (simp add: disk_def store_ok_def)
  then have "torn ?pg2 (bs @ [d, commit_body hdr])"
    unfolding torn_def by (intro exI [of _ ls] exI [of _ "length (df_bytes ?g)"] conjI tail_ok_clean) simp_all
  moreover have l2: "12288 \<le> length (df_bytes (pg_file ?pg2))" using I(9) by simp
  note r2 = ready_same [OF I(3) same2 I(9) l2]
  have "hist_ok ?sha (genesis_head ?sha (fh_file_id (pg_header ?pg2))) FIRST_DATA_PAGE (bs @ [d, commit_body hdr])
      (head_from hdr (n_pages pg + 1))"
    using hist_ok_commit [OF I(6) _ hdr, of "[d]"] d(2) same2 np by (simp add: data_pages_def same_store_def ac_simps)
  moreover have "read_meta_slot ?pg2 META_PAGE_A \<noteq> None \<or> read_meta_slot ?pg2 META_PAGE_B \<noteq> None" using I(4) r2(2) by simp
  moreover have "hd_n_pages (head_from hdr (n_pages pg + 1)) = FIRST_DATA_PAGE + of_nat (length (bs @ [d, commit_body hdr]))"
    by (simp add: head_from_def np add.assoc)
  ultimately obtain pg3 where "store_open e key cp (pg_file ?pg2) = Some (Inr (pg3, head_from hdr (n_pages pg + 1)))"
    "pager_rep pg3 (bs @ [d, commit_body hdr])"
    using store_open_spec [OF r2(1), of "bs @ [d, commit_body hdr]" "head_from hdr (n_pages pg + 1)" "length (bs @ [d, commit_body hdr])" cp]
    by auto
  then show ?thesis
    using o1(1) w unfolding fx(2) wo [symmetric]
    by (intro exI [of _ pg1] exI [of _ "(n, \<lparr>pl_offset = length ?f + LEN_PREFIX_LEN, pl_len = of_nat (length st)\<rparr>)"]
        exI [of _ ?pg2] exI [of _ pg3]) (simp add: wo)
qed

end
