(* ===== verification/CommitAudit.thy ===== *)
theory CommitAudit
  imports StoreCommit
begin

text \<open>
  The audit of the hash chain.  \<open>trail bs p hs\<close>: walking back from the commit on page \<open>p\<close> gives the contents and
  headers \<open>hs\<close>, oldest first.  What the audit accepts is a trail whose hashes link (\<open>audited\<close>); under a hash without
  collisions among the messages in question, the last hash determines all of them.
\<close>

section \<open>Trails\<close>

inductive trail :: "bytes list \<Rightarrow> page_id \<Rightarrow> (bytes \<times> commit_header) list \<Rightarrow> bool" for bs where
  trail_Nil: "trail bs 0 []"
| trail_snoc: "j < length bs \<Longrightarrow> commit_decode (bs ! j) = Some h \<Longrightarrow>
    unat (saturating_sub (ch_pages_written h) 1) \<le> j \<Longrightarrow> trail bs (ch_prev_page h) hs \<Longrightarrow>
    content = concat (drop (j - unat (saturating_sub (ch_pages_written h) 1)) (take j bs)) \<Longrightarrow>
    trail bs (FIRST_DATA_PAGE + of_nat j) (hs @ [(content, h)])"

fun audited :: "hash \<Rightarrow> digest \<Rightarrow> (bytes \<times> commit_header) list \<Rightarrow> digest \<Rightarrow> bool" where
  "audited sha prev [] d \<longleftrightarrow> d = prev"
| "audited sha prev ((content, h) # hs) d \<longleftrightarrow>
     ch_prev_chain h = prev \<and> ch_content_hash h = sha content \<and> length (ch_branch h) \<le> BRANCH_MAX \<and> 0 \<notin> set (ch_branch h) \<and>
     ch_chain_hash h = sha (chain_message h) \<and> audited sha (ch_chain_hash h) hs d"

lemma audited_append: "audited sha p (xs @ ys) d \<longleftrightarrow> (\<exists>m. audited sha p xs m \<and> audited sha m ys d)"
proof (induction xs arbitrary: p)
  case (Cons x xs)
  show ?case by (cases x) (simp only: append_Cons audited.simps Cons.IH, blast)
qed simp

section \<open>What the chain commits to\<close>

definition committed :: "bytes \<times> commit_header \<Rightarrow> bytes \<times> u64 \<times> u64 \<times> page_id \<times> page_id \<times> bytes" where
  "committed = (\<lambda>(content, h). (content, ch_version h, ch_timestamp_ms h, ch_data_root h, ch_meta_root h, ch_branch h))"

text \<open>Every string that is hashed on the way from the identity of the file.\<close>

definition hashed :: "bytes \<Rightarrow> (bytes \<times> commit_header) list \<Rightarrow> bytes set" where
  "hashed file_id hs = {MAGIC_HEADER @ file_id} \<union> fst ` set hs \<union> (\<lambda>(_, h). chain_message h) ` set hs"

lemma pad_inject:
  assumes "length a \<le> n" "length b \<le> n" "0 \<notin> set a" "0 \<notin> set b"
    "blit (replicate n (0 :: u8)) 0 a = blit (replicate n 0) 0 b"
  shows "a = b"
proof -
  have e: "a @ replicate (n - length a) 0 = b @ replicate (n - length b) 0"
    using assms by (simp add: blit_def)
  have t: "takeWhile (\<lambda>x. x \<noteq> 0) (c @ replicate m (0 :: u8)) = c" if "0 \<notin> set c" for c m
    using that by (subst takeWhile_append2) auto
  show ?thesis using arg_cong [OF e, of "takeWhile (\<lambda>x. x \<noteq> 0)"] t assms(3,4) by simp
qed

lemma u64_le_inject: "u64_le a = u64_le b \<longleftrightarrow> a = b"
proof
  assume "u64_le a = u64_le b"
  then have "le_val (u64_le a) = le_val (u64_le b)" by (rule arg_cong)
  then have "unat a = unat b" by (simp add: le_val_u64_le)
  then show "a = b" by (simp only: word_unat_eq_iff)
qed simp

lemma chain_message_inject:
  assumes "length (ch_branch g) \<le> BRANCH_MAX" "length (ch_branch h) \<le> BRANCH_MAX" "0 \<notin> set (ch_branch g)" "0 \<notin> set (ch_branch h)"
    and e: "chain_message g = chain_message h"
  shows "ch_prev_chain g = ch_prev_chain h \<and> ch_content_hash g = ch_content_hash h \<and> ch_version g = ch_version h \<and>
    ch_timestamp_ms g = ch_timestamp_ms h \<and> ch_data_root g = ch_data_root h \<and> ch_meta_root g = ch_meta_root h \<and>
    ch_branch g = ch_branch h"
  using e pad_inject [of "ch_branch g" BRANCH_MAX "ch_branch h"] assms(1-4)
  by (auto simp: chain_message_def u64_le_inject digest_bytes_inject)

lemma length_chain_message: "length (ch_branch h) \<le> BRANCH_MAX \<Longrightarrow> length (chain_message h) = 160"
  by (simp add: chain_message_def BRANCH_MAX_def)

text \<open>Without collisions, the last hash determines the trail.\<close>

lemma audited_determined:
  assumes "audited sha (genesis_chain sha f1) hs1 d" "audited sha (genesis_chain sha f2) hs2 d"
    and "inj_on sha (hashed f1 hs1 \<union> hashed f2 hs2)" "length f1 = 16" "length f2 = 16"
  shows "f1 = f2 \<and> map committed hs1 = map committed hs2"
  using assms
proof (induction hs1 arbitrary: hs2 d rule: rev_induct)
  case Nil
  show ?case
  proof (cases hs2 rule: rev_cases)
    case Nil
    then show ?thesis using \<open>audited sha (genesis_chain sha f1) [] d\<close> Nil.prems
      by (auto simp: genesis_chain_def hashed_def dest: inj_onD)
  next
    case (snoc ys y)
    obtain c h where y: "y = (c, h)" by (cases y)
    have "sha (MAGIC_HEADER @ f1) = sha (chain_message h)" and bl: "length (ch_branch h) \<le> BRANCH_MAX"
      using Nil.prems(1,2) snoc y by (auto simp: audited_append genesis_chain_def)
    moreover have "MAGIC_HEADER @ f1 \<in> hashed f1 [] \<union> hashed f2 hs2" "chain_message h \<in> hashed f1 [] \<union> hashed f2 hs2"
      using snoc y by (auto simp: hashed_def)
    ultimately have "MAGIC_HEADER @ f1 = chain_message h" using Nil.prems(3) by (auto dest: inj_onD)
    then have "length (MAGIC_HEADER @ f1) = 160" using length_chain_message bl by simp
    then show ?thesis using Nil.prems(4) by (simp add: MAGIC_HEADER_def)
  qed
next
  case (snoc x xs)
  show ?case
  proof (cases hs2 rule: rev_cases)
    case Nil
    obtain c h where x: "x = (c, h)" by (cases x)
    have "sha (MAGIC_HEADER @ f2) = sha (chain_message h)" and bl: "length (ch_branch h) \<le> BRANCH_MAX"
      using snoc.prems(1,2) Nil x by (auto simp: audited_append genesis_chain_def)
    moreover have "MAGIC_HEADER @ f2 \<in> hashed f1 (xs @ [x]) \<union> hashed f2 hs2" "chain_message h \<in> hashed f1 (xs @ [x]) \<union> hashed f2 hs2"
      using x by (auto simp: hashed_def)
    ultimately have "MAGIC_HEADER @ f2 = chain_message h" using snoc.prems(3) by (auto dest: inj_onD)
    then have "length (MAGIC_HEADER @ f2) = 160" using length_chain_message bl by simp
    then show ?thesis using snoc.prems(5) by (simp add: MAGIC_HEADER_def)
  next
    case (snoc ys y)
    obtain c h c' h' where xy: "x = (c, h)" "y = (c', h')" by (cases x, cases y)
    note P = \<open>audited sha (genesis_chain sha f1) (xs @ [x]) d\<close> \<open>audited sha (genesis_chain sha f2) hs2 d\<close>
      \<open>inj_on sha (hashed f1 (xs @ [x]) \<union> hashed f2 hs2)\<close>
    have A: "audited sha (genesis_chain sha f1) xs (ch_prev_chain h)" "audited sha (genesis_chain sha f2) ys (ch_prev_chain h')"
      "ch_content_hash h = sha c" "ch_content_hash h' = sha c'" "sha (chain_message h) = sha (chain_message h')"
      "length (ch_branch h) \<le> BRANCH_MAX" "length (ch_branch h') \<le> BRANCH_MAX" "0 \<notin> set (ch_branch h)" "0 \<notin> set (ch_branch h')"
      using P(1,2) unfolding xy \<open>hs2 = ys @ [y]\<close> by (auto simp: audited_append)
    have m: "chain_message h \<in> hashed f1 (xs @ [x]) \<union> hashed f2 hs2" "chain_message h' \<in> hashed f1 (xs @ [x]) \<union> hashed f2 hs2"
      "c \<in> hashed f1 (xs @ [x]) \<union> hashed f2 hs2" "c' \<in> hashed f1 (xs @ [x]) \<union> hashed f2 hs2"
      unfolding xy \<open>hs2 = ys @ [y]\<close> by (auto simp: hashed_def)
    have "chain_message h = chain_message h'" using inj_onD [OF P(3) A(5)] m by blast
    note F = chain_message_inject [OF A(6-9) this]
    have "c = c'" using inj_onD [OF P(3), of c c'] m A(3,4) F by simp
    then have "committed x = committed y" using F by (simp add: xy committed_def)
    moreover have "inj_on sha (hashed f1 xs \<union> hashed f2 ys)"
      by (rule inj_on_subset [OF P(3)]) (auto simp: hashed_def \<open>hs2 = ys @ [y]\<close>)
    ultimately show ?thesis
      using snoc.IH [of "ch_prev_chain h" ys] A(1,2) F \<open>length f1 = 16\<close> \<open>length f2 = 16\<close> \<open>hs2 = ys @ [y]\<close> by simp
  qed
qed

section \<open>The audit finds a trail\<close>

lemma read_page_cases:
  assumes "pager_rep pg bs"
  obtains (page) j c where "j < length bs" "pid = FIRST_DATA_PAGE + of_nat j"
      "read_page pid pg = Some (Inr (page_of (bs ! j)), pg\<lparr>pg_cache := c\<rparr>)" "pager_rep (pg\<lparr>pg_cache := c\<rparr>) bs"
    | (error) err where "read_page pid pg = Some (Inl err, pg)" "pid < FIRST_DATA_PAGE \<or> length bs + 3 \<le> unat pid"
proof (cases "n_pages pg \<le> pid")
  case True
  then show thesis using error read_page_out_of_range [of pg pid] n_pages_rep [OF assms]
    by (simp add: n_pages_def word_le_nat_alt)
next
  case False
  have n: "unat (n_pages pg) = 3 + length bs" "length bs < 2 ^ 62" using n_pages_rep [OF assms] assms by (blast, simp add: pager_rep_def)
  show thesis
  proof (cases "pid < FIRST_DATA_PAGE")
    case True
    then show thesis using error False by (simp add: read_page_def as_loc_def n_pages_def)
  next
    case ge: False
    define j where "j = unat pid - 3"
    have "3 \<le> unat pid" using ge by (simp add: word_less_nat_alt FIRST_DATA_PAGE_def)
    then have j: "j < length bs" "unat pid = j + 3" using False n(1) by (simp_all add: j_def word_le_nat_alt)
    then have p: "pid = FIRST_DATA_PAGE + of_nat j" using unat_first_plus [of j] n(2) by (simp add: word_unat_eq_iff)
    then show thesis using read_page_spec [OF assms j(1)] page [OF j(1)] by blast
  qed
qed

inductive walk :: "bytes list \<Rightarrow> page_id \<Rightarrow> (page_id \<times> commit_header) list \<Rightarrow> bool" for bs where
  walk_Nil: "walk bs 0 []"
| walk_snoc: "page \<noteq> 0 \<Longrightarrow> page = FIRST_DATA_PAGE + of_nat j \<Longrightarrow> j < length bs \<Longrightarrow> commit_decode (bs ! j) = Some h \<Longrightarrow>
    walk bs (ch_prev_page h) ps \<Longrightarrow> walk bs page (ps @ [(page, h)])"

definition reads_as :: "pager \<Rightarrow> bytes list \<Rightarrow> pager \<Rightarrow> bool" where
  "reads_as pg bs pg' \<longleftrightarrow> (\<exists>c. pg' = pg\<lparr>pg_cache := c\<rparr>) \<and> pager_rep pg' bs"

lemma reads_as_refl: "pager_rep pg bs \<Longrightarrow> reads_as pg bs pg"
  unfolding reads_as_def by (intro conjI exI [of _ "pg_cache pg"]) simp_all

lemma reads_as_trans: "reads_as a bs b \<Longrightarrow> reads_as b bs c \<Longrightarrow> reads_as a bs c"
  by (auto simp: reads_as_def)

lemma collect_headers_walk:
  "collect_headers v page hdrs pg = Some y \<Longrightarrow>
   \<forall>bs hs pg'. pager_rep pg bs \<longrightarrow> y = (Inr hs, pg') \<longrightarrow> (\<exists>ps. hs = ps @ hdrs \<and> walk bs page ps) \<and> reads_as pg bs pg'"
proof (induction rule: collect_headers.raw_induct [rotated, consumes 1])
  case (1 self v page hdrs pg y)
  show ?case
  proof (intro allI impI)
    fix bs hs pg'
    assume rep: "pager_rep pg bs" and y: "y = (Inr hs, pg')"
    show "(\<exists>ps. hs = ps @ hdrs \<and> walk bs page ps) \<and> reads_as pg bs pg'"
    proof (cases "page = 0")
      case True
      then show ?thesis using 1(2) y reads_as_refl [OF rep] by (auto intro: walk_Nil)
    next
      case False
      show ?thesis
      proof (cases rule: read_page_cases [OF rep, of page])
        case pg1: (1 j c)
        let ?pg = "pg\<lparr>pg_cache := c\<rparr>"
        have r: "reads_as pg bs ?pg" using pg1(4) by (auto simp: reads_as_def)
        show ?thesis
        proof (cases "commit_decode (bs ! j)")
          case None
          then show ?thesis using 1(2) y False pg1 by (simp add: smap_err_def Let_def)
        next
          case (Some h)
          then have "self v (ch_prev_page h) ((page, h) # hdrs) ?pg = Some (Inr hs, pg')"
            using 1(2) y False pg1 by (simp add: smap_err_def Let_def)
          from 1(1) [OF this] pg1(4)
          obtain ps where ps: "hs = ps @ (page, h) # hdrs" "walk bs (ch_prev_page h) ps" "reads_as ?pg bs pg'" by blast
          have "walk bs page (ps @ [(page, h)])" by (rule walk_snoc [OF False pg1(2,1) Some ps(2)])
          then show ?thesis using ps(1) reads_as_trans [OF r ps(3)] by (intro conjI exI [of _ "ps @ [(page, h)]"]) simp_all
        qed
      next
        case (2 err)
        then show ?thesis using 1(2) y False by (simp add: smap_err_def Let_def)
      qed
    qed
  qed
qed

lemma content_bodies_sound:
  "content_bodies v [3 + a..<3 + b] pg = Some (Inr content, pg') \<Longrightarrow> pager_rep pg bs \<Longrightarrow> b \<le> length bs \<Longrightarrow>
   content = concat (drop a (take b bs)) \<and> reads_as pg bs pg'"
proof (induction "b - a" arbitrary: a pg content)
  case 0
  then show ?case using reads_as_refl by simp
next
  case (Suc n)
  have a: "a < b" "a < length bs" using Suc.hyps(2) Suc.prems(3) by simp_all
  then have ids: "[3 + a..<3 + b] = (3 + a) # [3 + Suc a..<3 + b]" by (simp add: upt_conv_Cons)
  obtain c where rd: "read_page (FIRST_DATA_PAGE + of_nat a) pg = Some (Inr (page_of (bs ! a)), pg\<lparr>pg_cache := c\<rparr>)"
    "pager_rep (pg\<lparr>pg_cache := c\<rparr>) bs"
    using read_page_spec [OF Suc.prems(2) a(2)] by blast
  let ?pg = "pg\<lparr>pg_cache := c\<rparr>"
  have "sbind (content_bodies v [3 + Suc a..<3 + b]) (\<lambda>rest. sret (bs ! a @ rest)) ?pg = Some (Inr content, pg')"
    using Suc.prems(1) rd(1) unfolding ids content_bodies.simps of_nat_page by (simp add: smap_err_def del: upt_Suc)
  then obtain rest where r: "content_bodies v [3 + Suc a..<3 + b] ?pg = Some (Inr rest, pg')" "content = bs ! a @ rest"
    by (auto simp: sbind_def sret_def split: option.splits sum.splits prod.splits)
  have "rest = concat (drop (Suc a) (take b bs)) \<and> reads_as ?pg bs pg'"
    using Suc.hyps(1) [OF _ r(1) rd(2) Suc.prems(3)] Suc.hyps(2) by simp
  moreover have "drop a (take b bs) = bs ! a # drop (Suc a) (take b bs)"
    using a by (metis Cons_nth_drop_Suc length_take min_less_iff_conj nth_take)
  moreover have "reads_as pg bs ?pg" using rd(2) by (auto simp: reads_as_def)
  ultimately show ?case using r(2) reads_as_trans by auto
qed

lemma content_bodies_low:
  assumes "s < 3" "s < en" "pager_rep pg bs"
  shows "content_bodies v [s..<en] pg \<noteq> Some (Inr content, pg')"
proof -
  have ids: "[s..<en] = s # [Suc s..<en]" using assms(2) by (simp add: upt_conv_Cons)
  have "s = 0 \<or> s = 1 \<or> s = 2" using assms(1) by auto
  then have "(of_nat s :: page_id) < FIRST_DATA_PAGE" by (auto simp: FIRST_DATA_PAGE_def)
  then have "as_loc (pg_state pg) (of_nat s) = None" by (simp add: as_loc_def)
  then show ?thesis unfolding ids by (auto simp: smap_err_def read_page_def sthrow_def sbind_def)
qed

lemma commit_decode_branch:
  assumes "commit_decode b = Some h"
  shows "0 \<notin> set (ch_branch h)" "length (ch_branch h) \<le> BRANCH_MAX"
proof -
  have h: "ch_branch h = takeWhile (\<lambda>b. b \<noteq> 0) (take BRANCH_MAX (drop 80 b))"
    using assms by (auto simp: commit_decode_def Let_def split: if_splits)
  show "0 \<notin> set (ch_branch h)" unfolding h by (auto dest: set_takeWhileD)
  show "length (ch_branch h) \<le> BRANCH_MAX"
    unfolding h using length_takeWhile_le [of "\<lambda>b. b \<noteq> 0" "take BRANCH_MAX (drop 80 b)"] by simp
qed

text \<open>One step of the audit.\<close>

definition step_ok :: "hash \<Rightarrow> bytes list \<Rightarrow> nat \<Rightarrow> commit_header \<Rightarrow> digest \<Rightarrow> u64 \<Rightarrow> bool" where
  "step_ok sha bs j h prev expected \<longleftrightarrow>
     ch_version h = expected + 1 \<and> unat (saturating_sub (ch_pages_written h) 1) \<le> j \<and>
     sha (concat (drop (j - unat (saturating_sub (ch_pages_written h) 1)) (take j bs))) = ch_content_hash h \<and>
     ch_prev_chain h = prev \<and> ch_chain_hash h = sha (chain_message h)"

definition anchors :: "audit_anchor option \<Rightarrow> commit_header \<Rightarrow> bool" where
  "anchors anch h \<longleftrightarrow> (\<exists>a. anch = Some a \<and> ch_version h = aa_version a \<and> ch_chain_hash h = aa_chain_hash a)"

lemma sbind_InrE:
  assumes "sbind m f s = Some (Inr y, t)"
  obtains x s' where "m s = Some (Inr x, s')" "f x s' = Some (Inr y, t)"
  using assms by (auto simp: sbind_def split: option.splits sum.splits prod.splits)

lemma verify_commit_sound:
  assumes v: "verify_commit sha anch (pid, h) (prev, expected, seen) pg = Some (Inr (prev', expected', seen'), pg')"
    and rep: "pager_rep pg bs" and j: "pid = FIRST_DATA_PAGE + of_nat j" "j < length bs"
  shows "step_ok sha bs j h prev expected \<and> prev' = ch_chain_hash h \<and> expected' = expected + 1 \<and>
    (seen' \<longrightarrow> seen \<or> anchors anch h) \<and> reads_as pg bs pg'"
proof -
  let ?n = "saturating_sub (ch_pages_written h) 1"
  have up: "unat pid = 3 + j" using unat_first_plus [of j] j rep by (simp add: pager_rep_def)
  have ver: "ch_version h = expected + 1" and le: "?n \<le> pid"
    using v by (auto simp: verify_commit_def Let_def sthrow_def split: if_splits)
  let ?K = "\<lambda>content. if sha content \<noteq> ch_content_hash h then sthrow (ChainBroken (ch_version h) ''content_hash no coincide'')
      else if ch_prev_chain h \<noteq> prev then sthrow (ChainBroken (ch_version h) ''prev_chain no enlaza'')
      else sbind (slift (compute_chain sha h)) (\<lambda>c.
        if ch_chain_hash h \<noteq> c then sthrow (ChainBroken (ch_version h) ''chain_hash inconsistente'')
        else (case anch of
            Some a \<Rightarrow>
              if ch_version h = aa_version a then
                (if ch_chain_hash h \<noteq> aa_chain_hash a
                 then sthrow (ChainBroken (ch_version h) ''el ancla no coincide: la historia fue reescrita'')
                 else sret (ch_chain_hash h, expected + 1, True))
              else sret (ch_chain_hash h, expected + 1, seen)
          | None \<Rightarrow> sret (ch_chain_hash h, expected + 1, seen)))"
  have "sbind (content_bodies (ch_version h) [unat (pid - ?n)..<unat pid]) ?K pg = Some (Inr (prev', expected', seen'), pg')"
    using v ver le unfolding verify_commit_def Let_def prod.case by (simp add: not_less [symmetric])
  then obtain content pg1 where c: "content_bodies (ch_version h) [unat (pid - ?n)..<unat pid] pg = Some (Inr content, pg1)"
    "?K content pg1 = Some (Inr (prev', expected', seen'), pg')"
    by (rule sbind_InrE)
  have K: "sha content = ch_content_hash h" "ch_prev_chain h = prev" "ch_chain_hash h = sha (chain_message h)"
    "prev' = ch_chain_hash h" "expected' = expected + 1" "seen' \<longrightarrow> seen \<or> anchors anch h" "pg' = pg1"
    using c(2) by (auto simp: sthrow_def compute_chain_def anchors_def sret_def split: if_splits option.splits)
  have s: "unat (pid - ?n) = 3 + j - unat ?n" using le up by (simp add: unat_sub)
  have "unat ?n \<le> j"
  proof (rule ccontr)
    assume "\<not> ?thesis"
    then have "3 + j - unat ?n < 3" "3 + j - unat ?n < 3 + j" by simp_all
    then show False using content_bodies_low [OF _ _ rep, of "3 + j - unat ?n" "3 + j" "ch_version h" content pg1] c(1) s up by simp
  qed
  then have cont: "content_bodies (ch_version h) [3 + (j - unat ?n)..<3 + j] pg = Some (Inr content, pg1)"
    using c(1) s up by simp
  have "content = concat (drop (j - unat ?n) (take j bs)) \<and> reads_as pg bs pg1"
    using content_bodies_sound [OF cont rep] j(2) by simp
  then show ?thesis using K ver \<open>unat ?n \<le> j\<close> by (simp add: step_ok_def)
qed

definition content_of :: "bytes list \<Rightarrow> page_id \<times> commit_header \<Rightarrow> bytes \<times> commit_header" where
  "content_of bs = (\<lambda>(pid, h).
     let j = unat pid - 3 in (concat (drop (j - unat (saturating_sub (ch_pages_written h) 1)) (take j bs)), h))"

definition pages_ok :: "bytes list \<Rightarrow> (page_id \<times> commit_header) list \<Rightarrow> bool" where
  "pages_ok bs ps \<longleftrightarrow>
     (\<forall>(pid, h) \<in> set ps. \<exists>j. j < length bs \<and> pid = FIRST_DATA_PAGE + of_nat j \<and> commit_decode (bs ! j) = Some h)"

lemma walk_pages_ok: "walk bs p ps \<Longrightarrow> pages_ok bs ps"
  by (induction rule: walk.induct) (auto simp: pages_ok_def)

lemma content_of_eq:
  "unat pid - 3 = j \<Longrightarrow>
   content_of bs (pid, h) = (concat (drop (j - unat (saturating_sub (ch_pages_written h) 1)) (take j bs)), h)"
  by (simp add: content_of_def Let_def del: diff_diff_left)

lemma verify_loop_sound:
  assumes "verify_loop sha anch ps (prev, expected, seen) pg = Some (Inr (d, expected', seen'), pg')"
    "pager_rep pg bs" "pages_ok bs ps"
  shows "audited sha prev (map (content_of bs) ps) d \<and> expected' = expected + of_nat (length ps) \<and>
    (seen' \<longrightarrow> seen \<or> (\<exists>x \<in> set ps. anchors anch (snd x))) \<and>
    (\<forall>(pid, h) \<in> set ps. unat (saturating_sub (ch_pages_written h) 1) \<le> unat pid - 3) \<and> reads_as pg bs pg'"
  using assms
proof (induction ps arbitrary: prev expected seen pg)
  case Nil
  then show ?case by (auto simp: sret_def reads_as_refl)
next
  case (Cons x ps)
  obtain pid h where x: "x = (pid, h)" by (cases x)
  obtain j where j: "pid = FIRST_DATA_PAGE + of_nat j" "j < length bs" "commit_decode (bs ! j) = Some h"
    using Cons.prems(3) x by (auto simp: pages_ok_def)
  have up: "unat pid - 3 = j" using unat_first_plus [of j] j Cons.prems(2) by (simp add: pager_rep_def)
  obtain st pg1 where s: "verify_commit sha anch (pid, h) (prev, expected, seen) pg = Some (Inr st, pg1)"
    "verify_loop sha anch ps st pg1 = Some (Inr (d, expected', seen'), pg')"
    using Cons.prems(1) unfolding x verify_loop.simps by (rule sbind_InrE)
  obtain p1 e1 s1 where st: "st = (p1, e1, s1)" by (cases st)
  have v: "step_ok sha bs j h prev expected" "p1 = ch_chain_hash h" "e1 = expected + 1"
    "s1 \<longrightarrow> seen \<or> anchors anch h" "reads_as pg bs pg1"
    using verify_commit_sound [OF s(1) [unfolded st] Cons.prems(2) j(1,2)] by blast+
  have IH: "audited sha p1 (map (content_of bs) ps) d" "expected' = e1 + of_nat (length ps)"
    "seen' \<longrightarrow> s1 \<or> (\<exists>x \<in> set ps. anchors anch (snd x))"
    "\<forall>(pid, h) \<in> set ps. unat (saturating_sub (ch_pages_written h) 1) \<le> unat pid - 3" "reads_as pg1 bs pg'"
    using Cons.IH [OF s(2) [unfolded st]] v(5) Cons.prems(3) by (simp_all add: reads_as_def pages_ok_def)
  have "audited sha prev (map (content_of bs) (x # ps)) d"
    using v(1,2) IH(1) commit_decode_branch [OF j(3)] by (simp add: x content_of_eq [OF up] step_ok_def)
  then show ?case
    using v IH(2-5) up reads_as_trans [OF v(5) IH(5)] by (auto simp: x step_ok_def)
qed

lemma walk_trail:
  "walk bs p ps \<Longrightarrow> \<forall>(pid, h) \<in> set ps. unat (saturating_sub (ch_pages_written h) 1) \<le> unat pid - 3 \<Longrightarrow>
   length bs < 2 ^ 62 \<Longrightarrow> trail bs p (map (content_of bs) ps)"
proof (induction rule: walk.induct)
  case (walk_snoc page j h ps)
  have up: "unat page - 3 = j" using unat_first_plus [of j] walk_snoc by simp
  have "trail bs (FIRST_DATA_PAGE + of_nat j) (map (content_of bs) ps @
      [(concat (drop (j - unat (saturating_sub (ch_pages_written h) 1)) (take j bs)), h)])"
    using walk_snoc up by (intro trail_snoc) auto
  then have "trail bs page (map (content_of bs) ps @ [content_of bs (page, h)])"
    unfolding content_of_eq [OF up] by (simp only: walk_snoc(2))
  then show ?case by simp
qed (simp add: trail_Nil)

lemma verify_sound:
  assumes v: "verify_anchored sha head anch pg = Some (Inr rep, pg')" and r: "pager_rep pg bs"
  shows "\<exists>hs. trail bs (hd_commit_page head) hs \<and>
    audited sha (genesis_chain sha (fh_file_id (pg_header pg))) hs (hd_chain_hash head) \<and>
    ar_head rep = hd_version head \<and> ar_chain_hash rep = hd_chain_hash head \<and> ar_commits rep = of_nat (length hs) \<and>
    (\<forall>a. anch = Some a \<longrightarrow> (\<exists>x \<in> set hs. anchors anch (snd x)))"
proof -
  obtain ps pg1 where c: "collect_headers (hd_version head) (hd_commit_page head) [] pg = Some (Inr ps, pg1)"
    and rest: "sbind (verify_loop sha anch ps (genesis_chain sha (fh_file_id (pg_header pg1)), first_expected ps, False))
         (\<lambda>st. slift (verify_finish head anch (length ps) st)) pg1 = Some (Inr rep, pg')"
    using v unfolding verify_anchored_def by (rule sbind_InrE)
  have w: "walk bs (hd_commit_page head) ps" "reads_as pg bs pg1"
    using collect_headers_walk [OF c] r by auto
  have r1: "pager_rep pg1 bs" "pg_header pg1 = pg_header pg" using w(2) by (auto simp: reads_as_def)
  obtain st pg2 where l: "verify_loop sha anch ps (genesis_chain sha (fh_file_id (pg_header pg1)), first_expected ps, False) pg1
      = Some (Inr st, pg2)"
    and fin: "slift (verify_finish head anch (length ps) st) pg2 = Some (Inr rep, pg')"
    using rest by (rule sbind_InrE)
  obtain d e1 s1 where st: "st = (d, e1, s1)" by (cases st)
  note L = verify_loop_sound [OF l [unfolded st] r1(1) walk_pages_ok [OF w(1)]]
  have F: "d = hd_chain_hash head" "rep = \<lparr>ar_head = hd_version head, ar_commits = of_nat (length ps), ar_chain_ok = True,
      ar_chain_hash = hd_chain_hash head\<rparr>" "\<forall>a. anch = Some a \<longrightarrow> s1"
    using fin unfolding st by (auto simp: verify_finish_def slift_def split: if_splits option.splits)
  have t: "trail bs (hd_commit_page head) (map (content_of bs) ps)"
    using walk_trail [OF w(1)] L r by (simp add: pager_rep_def)
  have a: "\<exists>x \<in> set (map (content_of bs) ps). anchors anch (snd x)" if "anch = Some a" for a
  proof -
    obtain y where "y \<in> set ps" "anchors anch (snd y)" using L F(3) \<open>anch = Some a\<close> by blast
    then show ?thesis by (intro bexI [of _ "content_of bs y"]) (auto simp: content_of_def Let_def split: prod.splits)
  qed
  show ?thesis using t a L F(1,2) r1(2) by (intro exI [of _ "map (content_of bs) ps"]) auto
qed

section \<open>Anchors\<close>

lemma trail_last_page: "trail bs p hs \<Longrightarrow> length bs < 2 ^ 62 \<Longrightarrow> hs \<noteq> [] \<Longrightarrow> p \<noteq> 0"
proof (induction rule: trail.induct)
  case (trail_snoc j h hs content)
  then show ?case using unat_first_plus [of j] by (metis add_is_0 less_trans unat_0 zero_neq_numeral)
qed simp

lemma trail_unique: "trail bs p a \<Longrightarrow> trail bs p b \<Longrightarrow> length bs < 2 ^ 62 \<Longrightarrow> a = b"
proof (induction arbitrary: b rule: trail.induct)
  case trail_Nil
  then show ?case using trail_last_page [of bs 0 b] by auto
next
  case (trail_snoc j h hs content)
  let ?p = "FIRST_DATA_PAGE + of_nat j :: page_id"
  have nz: "?p \<noteq> 0"
    using unat_first_plus [of j] trail_snoc(1,8) by (metis add_is_0 less_trans unat_0 zero_neq_numeral)
  from trail_snoc(7) show ?case
  proof cases
    case trail_Nil
    then show ?thesis using nz by simp
  next
    case (trail_snoc j' h' hs' content')
    have "unat (FIRST_DATA_PAGE + of_nat j :: u64) = unat (FIRST_DATA_PAGE + of_nat j' :: u64)" using trail_snoc(1) by simp
    then have "j' = j" using unat_first_plus [of j] unat_first_plus [of j'] trail_snoc(3) \<open>j < length bs\<close> \<open>length bs < 2 ^ 62\<close> by simp
    then show ?thesis using trail_snoc \<open>commit_decode (bs ! j) = Some h\<close>
        \<open>content = concat (drop (j - unat (saturating_sub (ch_pages_written h) 1)) (take j bs))\<close>
        \<open>\<And>b. trail bs (ch_prev_page h) b \<Longrightarrow> length bs < 2 ^ 62 \<Longrightarrow> hs = b\<close> \<open>length bs < 2 ^ 62\<close> by auto
  qed
qed

text \<open>C4: An anchor detects a rewritten history.  If the audit of a later file passes with the anchor of an audit that
  passed before, and the hash has no collision among the messages of the two histories, the file is the same and its
  history begins with the anchored one: the same contents, versions, times, roots and branches.\<close>

lemma anchor_extends:
  assumes v1: "verify_anchored sha head1 anch1 pg1 = Some (Inr rep1, pg1')" "pager_rep pg1 bs1" "trail bs1 (hd_commit_page head1) hs1"
    and v2: "verify_anchored sha head2 (Some (anchor rep1)) pg2 = Some (Inr rep2, pg2')" "pager_rep pg2 bs2"
      "trail bs2 (hd_commit_page head2) hs2"
    and sha: "inj_on sha (hashed (fh_file_id (pg_header pg1)) hs1 \<union> hashed (fh_file_id (pg_header pg2)) hs2)"
      "length (fh_file_id (pg_header pg1)) = 16" "length (fh_file_id (pg_header pg2)) = 16"
  shows "fh_file_id (pg_header pg1) = fh_file_id (pg_header pg2) \<and>
    (\<exists>n. map committed hs1 = map committed (take n hs2))"
proof -
  let ?f1 = "fh_file_id (pg_header pg1)" and ?f2 = "fh_file_id (pg_header pg2)"
  have sz: "length bs1 < 2 ^ 62" "length bs2 < 2 ^ 62" using v1(2) v2(2) by (simp_all add: pager_rep_def)
  obtain xs1 where x1: "trail bs1 (hd_commit_page head1) xs1" "audited sha (genesis_chain sha ?f1) xs1 (hd_chain_hash head1)"
    "ar_chain_hash rep1 = hd_chain_hash head1"
    using verify_sound [OF v1(1,2)] by blast
  obtain xs2 where x2: "trail bs2 (hd_commit_page head2) xs2" "audited sha (genesis_chain sha ?f2) xs2 (hd_chain_hash head2)"
    "\<exists>x \<in> set xs2. anchors (Some (anchor rep1)) (snd x)"
    using verify_sound [OF v2(1,2)] by blast
  have e: "xs1 = hs1" "xs2 = hs2" using trail_unique x1(1) v1(3) x2(1) v2(3) sz by blast+
  obtain c h where a: "(c, h) \<in> set hs2" "ch_chain_hash h = hd_chain_hash head1"
    using x2(3) x1(3) e(2) by (auto simp: anchors_def anchor_def)
  obtain pre post where p: "hs2 = (pre @ [(c, h)]) @ post" using split_list [OF a(1)] by auto
  have "audited sha (genesis_chain sha ?f2) (pre @ [(c, h)]) (hd_chain_hash head1)"
    using x2(2) a(2) unfolding e(2) p by (auto simp: audited_append)
  moreover have "inj_on sha (hashed ?f1 hs1 \<union> hashed ?f2 (pre @ [(c, h)]))"
    by (rule inj_on_subset [OF sha(1)]) (auto simp: hashed_def p)
  ultimately have "?f1 = ?f2 \<and> map committed hs1 = map committed (pre @ [(c, h)])"
    using audited_determined [OF x1(2) [unfolded e(1)]] sha(2,3) by blast
  then show ?thesis using p by (intro conjI exI [of _ "length (pre @ [(c, h)])"]) simp_all
qed

section \<open>A cycle\<close>

lemma collect_cycle:
  assumes "commit_decode (bs ! j) = Some h" "ch_prev_page h = FIRST_DATA_PAGE + of_nat j" "j < length bs"
  shows "collect_headers v page hdrs pg = Some y \<Longrightarrow> page = FIRST_DATA_PAGE + of_nat j \<longrightarrow> \<not> pager_rep pg bs"
proof (induction rule: collect_headers.raw_induct [rotated, consumes 1])
  case (1 self v page hdrs pg y)
  show ?case
  proof (intro impI notI)
    assume p: "page = FIRST_DATA_PAGE + of_nat j" and rep: "pager_rep pg bs"
    have "unat page = j + 3" using unat_first_plus [of j] p assms(3) rep by (simp add: pager_rep_def)
    then have nz: "page \<noteq> 0" by auto
    obtain c where rd: "read_page page pg = Some (Inr (page_of (bs ! j)), pg\<lparr>pg_cache := c\<rparr>)" "pager_rep (pg\<lparr>pg_cache := c\<rparr>) bs"
      using read_page_spec [OF rep assms(3)] p by blast
    have "self v (ch_prev_page h) ((page, h) # hdrs) (pg\<lparr>pg_cache := c\<rparr>) = Some y"
      using 1(2) nz rd(1) assms(1) by (simp add: smap_err_def Let_def)
    then show False using 1(1) rd(2) assms(2) by blast
  qed
qed

text \<open>C20: The audit may not return.  The link back to the previous commit is not under the chain hash: a file whose last
  commit links back to itself is taken over by recovery exactly when the honest one is, and its audit does not end.\<close>

lemma cyclic_commit:
  fixes hdr :: commit_header and bs :: "bytes list"
  defines "p \<equiv> FIRST_DATA_PAGE + of_nat (length bs)"
  assumes br: "branch_ok (ch_branch hdr)" and rep: "pager_rep pg (bs @ [commit_body (hdr\<lparr>ch_prev_page := p\<rparr>)])"
  shows "(hist_ok sha g FIRST_DATA_PAGE (bs @ [commit_body (hdr\<lparr>ch_prev_page := p\<rparr>)]) h \<longleftrightarrow>
      hist_ok sha g FIRST_DATA_PAGE (bs @ [commit_body hdr]) h) \<and>
    (hd_commit_page h = p \<longrightarrow> verify_anchored sha h anch pg = None)"
proof (intro conjI impI)
  have d: "commit_decode (commit_body (hdr\<lparr>ch_prev_page := q\<rparr>)) = Some (hdr\<lparr>ch_prev_page := q\<rparr>)" for q
    using br by (intro decode_commit_body) simp
  have d0: "commit_decode (commit_body hdr) = Some hdr" by (rule decode_commit_body [OF br])
  have m: "chain_message (hdr\<lparr>ch_prev_page := q\<rparr>) = chain_message hdr" for q by (simp add: chain_message_def)
  show "hist_ok sha g FIRST_DATA_PAGE (bs @ [commit_body (hdr\<lparr>ch_prev_page := p\<rparr>)]) h \<longleftrightarrow>
      hist_ok sha g FIRST_DATA_PAGE (bs @ [commit_body hdr]) h"
    by (simp add: hist_ok_append d d0 chains_on_def self_consistent_def compute_chain_def m head_from_def)
  assume "hd_commit_page h = p"
  then have "collect_headers (hd_version h) (hd_commit_page h) [] pg = None"
    using collect_cycle [of "bs @ [commit_body (hdr\<lparr>ch_prev_page := p\<rparr>)]" "length bs"] d rep
    by (cases "collect_headers (hd_version h) (hd_commit_page h) [] pg") (auto simp: p_def)
  then show "verify_anchored sha h anch pg = None" by (simp add: verify_anchored_def)
qed

end
