(* ===== verification/AuditComplete.thy ===== *)
theory AuditComplete
  imports StoreCrash CommitAudit
begin

text \<open>
  The audit accepts what commits write.  A store is described by its commits, each the bodies of its data pages and its
  header (\<open>linked\<close>); \<open>bodies\<close> are the pages they make.
\<close>

section \<open>The commits of a store\<close>

type_synonym commits = "(bytes list \<times> commit_header) list"

definition bodies :: "commits \<Rightarrow> bytes list" where
  "bodies cs = concat (map (\<lambda>(ds, c). ds @ [commit_body c]) cs)"

lemma bodies_simps [simp]: "bodies [] = []" "bodies ((ds, c) # cs) = ds @ commit_body c # bodies cs" "bodies (xs @ ys) = bodies xs @ bodies ys"
  by (simp_all add: bodies_def)

definition follows :: "hash \<Rightarrow> head \<Rightarrow> bytes list \<times> commit_header \<Rightarrow> bool" where
  "follows sha h = (\<lambda>(ds, c). branch_ok (ch_branch c) \<and> ch_version c = hd_version h + 1 \<and> ch_prev_page c = hd_commit_page h \<and>
     ch_prev_chain c = hd_chain_hash h \<and> ch_content_hash c = sha (concat ds) \<and> ch_pages_written c = of_nat (length ds) + 1 \<and>
     ch_flags c = 0 \<and> self_consistent sha c = Inr True)"

fun linked :: "hash \<Rightarrow> head \<Rightarrow> nat \<Rightarrow> commits \<Rightarrow> head \<Rightarrow> bool" where
  "linked sha h n [] h' \<longleftrightarrow> h' = h"
| "linked sha h n ((ds, c) # cs) h' \<longleftrightarrow> follows sha h (ds, c) \<and>
     linked sha (head_from c (FIRST_DATA_PAGE + of_nat (n + length ds))) (n + length ds + 1) cs h'"

lemma linked_append:
  "linked sha h n (xs @ ys) h' \<longleftrightarrow> (\<exists>m. linked sha h n xs m \<and> linked sha m (n + length (bodies xs)) ys h')"
proof (induction xs arbitrary: h n)
  case (Cons x xs)
  then show ?case by (cases x) (simp add: add.assoc)
qed simp

text \<open>The pages of the headers, as the walk back collects them.\<close>

fun headers_of :: "nat \<Rightarrow> commits \<Rightarrow> (page_id \<times> commit_header) list" where
  "headers_of n [] = []"
| "headers_of n ((ds, c) # cs) = (FIRST_DATA_PAGE + of_nat (n + length ds), c) # headers_of (n + length ds + 1) cs"

lemma headers_of_append: "headers_of n (xs @ ys) = headers_of n xs @ headers_of (n + length (bodies xs)) ys"
proof (induction xs arbitrary: n)
  case (Cons x xs)
  then show ?case by (cases x) (simp add: add.assoc)
qed simp

lemma length_headers_of [simp]: "length (headers_of n cs) = length cs"
  by (induction n cs rule: headers_of.induct) simp_all

lemma page_ne_0: "j < 2 ^ 62 \<Longrightarrow> (FIRST_DATA_PAGE + of_nat j :: page_id) \<noteq> 0"
  using unat_first_plus [of j] by (metis add_is_0 unat_0 zero_neq_numeral)

lemma collect_linked:
  assumes "linked sha g 0 cs h" "hd_commit_page g = 0" "pager_rep pg (bodies cs @ rest)"
  shows "\<exists>pg'. collect_headers v (hd_commit_page h) hdrs pg = Some (Inr (headers_of 0 cs @ hdrs), pg') \<and>
    reads_as pg (bodies cs @ rest) pg'"
  using assms
proof (induction cs arbitrary: h hdrs pg rest rule: rev_induct)
  case Nil
  then show ?case using reads_as_refl by (subst collect_headers.simps) (auto simp: sret_def)
next
  case (snoc x cs)
  obtain ds c where x: "x = (ds, c)" by (cases x)
  let ?n = "length (bodies cs)" and ?bs = "bodies (cs @ [x]) @ rest"
  let ?p = "FIRST_DATA_PAGE + of_nat (?n + length ds) :: page_id"
  obtain m where m: "linked sha g 0 cs m" "follows sha m (ds, c)" "h = head_from c ?p"
    using snoc.prems(1) x by (auto simp: linked_append)
  have j: "?n + length ds < length ?bs" "?bs ! (?n + length ds) = commit_body c" by (simp_all add: x nth_append)
  have sz: "length ?bs < 2 ^ 62" using snoc.prems(3) by (simp add: pager_rep_def)
  have nz: "?p \<noteq> 0" using page_ne_0 [of "?n + length ds"] j(1) sz by simp
  obtain ca where rd: "read_page ?p pg = Some (Inr (page_of (commit_body c)), pg\<lparr>pg_cache := ca\<rparr>)" "pager_rep (pg\<lparr>pg_cache := ca\<rparr>) ?bs"
    using read_page_spec [OF snoc.prems(3) j(1)] j(2) by auto
  have dec: "commit_decode (commit_body c) = Some c" using m(2) by (simp add: follows_def decode_commit_body)
  have st: "collect_headers v ?p hdrs pg = collect_headers v (hd_commit_page m) ((?p, c) # hdrs) (pg\<lparr>pg_cache := ca\<rparr>)"
    using nz rd(1) dec m(2) by (subst collect_headers.simps) (simp add: smap_err_def Let_def follows_def)
  have bs: "?bs = bodies cs @ (ds @ commit_body c # rest)" by (simp add: x)
  obtain pg' where "collect_headers v (hd_commit_page m) ((?p, c) # hdrs) (pg\<lparr>pg_cache := ca\<rparr>)
      = Some (Inr (headers_of 0 cs @ (?p, c) # hdrs), pg')" "reads_as (pg\<lparr>pg_cache := ca\<rparr>) ?bs pg'"
    using snoc.IH [OF m(1) snoc.prems(2), of "pg\<lparr>pg_cache := ca\<rparr>" "ds @ commit_body c # rest" "(?p, c) # hdrs"] rd(2) unfolding bs by blast
  moreover have "reads_as pg ?bs (pg\<lparr>pg_cache := ca\<rparr>)" using rd(2) by (auto simp: reads_as_def)
  ultimately show ?case
    using reads_as_trans st m(3) by (auto simp: headers_of_append x head_from_def)
qed

lemma content_bodies_complete:
  "a \<le> b \<Longrightarrow> b \<le> length bs \<Longrightarrow> pager_rep pg bs \<Longrightarrow>
   \<exists>pg'. content_bodies v [3 + a..<3 + b] pg = Some (Inr (concat (drop a (take b bs))), pg') \<and> reads_as pg bs pg'"
proof (induction "b - a" arbitrary: a pg)
  case 0
  then show ?case using reads_as_refl by auto
next
  case (Suc n)
  have a: "a < b" "a < length bs" using Suc.hyps(2) Suc.prems(2) by simp_all
  then have ids: "[3 + a..<3 + b] = (3 + a) # [3 + Suc a..<3 + b]" by (simp add: upt_conv_Cons)
  have nb: "n = b - Suc a" using Suc.hyps(2) by simp
  obtain c where rd: "read_page (FIRST_DATA_PAGE + of_nat a) pg = Some (Inr (page_of (bs ! a)), pg\<lparr>pg_cache := c\<rparr>)"
    "pager_rep (pg\<lparr>pg_cache := c\<rparr>) bs"
    using read_page_spec [OF Suc.prems(3) a(2)] by blast
  obtain pg' where r: "content_bodies v [3 + Suc a..<3 + b] (pg\<lparr>pg_cache := c\<rparr>) = Some (Inr (concat (drop (Suc a) (take b bs))), pg')"
    "reads_as (pg\<lparr>pg_cache := c\<rparr>) bs pg'"
    using Suc.hyps(1) [OF nb _ Suc.prems(2) rd(2)] a(1) by auto
  have "drop a (take b bs) = bs ! a # drop (Suc a) (take b bs)"
    using a by (metis Cons_nth_drop_Suc length_take min_less_iff_conj nth_take)
  moreover have "reads_as pg bs (pg\<lparr>pg_cache := c\<rparr>)" using rd(2) by (auto simp: reads_as_def)
  ultimately show ?case
    using r rd(1) reads_as_trans unfolding ids content_bodies.simps of_nat_page by (fastforce simp: smap_err_def simp del: upt_Suc)
qed

text \<open>An anchor that agrees with a commit of its version, and whether a commit is the anchored one.\<close>

definition agrees_with :: "audit_anchor option \<Rightarrow> commit_header \<Rightarrow> bool" where
  "agrees_with anch c \<longleftrightarrow> (\<forall>a. anch = Some a \<longrightarrow> ch_version c = aa_version a \<longrightarrow> ch_chain_hash c = aa_chain_hash a)"

definition met :: "audit_anchor option \<Rightarrow> commit_header \<Rightarrow> bool" where
  "met anch c \<longleftrightarrow> (\<exists>a. anch = Some a \<and> ch_version c = aa_version a)"

lemma verify_commit_complete:
  assumes f: "follows sha h (ds, c)" and rep: "pager_rep pg (pre @ ds @ commit_body c # post)" and an: "agrees_with anch c"
  shows "\<exists>pg'. verify_commit sha anch (FIRST_DATA_PAGE + of_nat (length pre + length ds), c) (hd_chain_hash h, hd_version h, seen) pg =
      Some (Inr (ch_chain_hash c, hd_version h + 1, seen \<or> met anch c), pg') \<and> reads_as pg (pre @ ds @ commit_body c # post) pg'"
proof -
  let ?bs = "pre @ ds @ commit_body c # post" and ?p = "FIRST_DATA_PAGE + of_nat (length pre + length ds) :: page_id"
  have sz: "length pre + length ds < 2 ^ 62" "length ds < 2 ^ 62" using rep by (simp_all add: pager_rep_def)
  have up: "unat ?p = length pre + length ds + 3" by (rule unat_first_plus [OF sz(1)])
  have ul: "unat (of_nat (length ds) :: u64) = length ds" using sz(2) by (intro unat_of_nat_u64) simp
  have n: "saturating_sub (ch_pages_written c) 1 = of_nat (length ds)"
  proof -
    have "(1 :: u64) \<le> of_nat (length ds) + 1"
      using sz(2) unat_of_nat_u64 [of "length ds + 1"] by (simp add: word_le_nat_alt add.commute)
    then show ?thesis using f by (simp add: follows_def saturating_sub_def)
  qed
  have le: "\<not> ?p < of_nat (length ds)" using up ul by (simp add: word_less_nat_alt)
  have "unat (?p - of_nat (length ds)) = 3 + length pre" using unat_first_plus [of "length pre"] sz(1) by simp
  then have ids: "[unat (?p - of_nat (length ds))..<unat ?p] = [3 + length pre..<3 + (length pre + length ds)]"
    using up by (simp add: add.commute)
  obtain pg' where r: "content_bodies (ch_version c) [3 + length pre..<3 + (length pre + length ds)] pg = Some (Inr (concat ds), pg')"
    "reads_as pg ?bs pg'"
    using content_bodies_complete [OF _ _ rep, of "length pre" "length pre + length ds" "ch_version c"] by auto
  have cc: "compute_chain sha c = Inr (ch_chain_hash c)"
    using f by (auto simp: follows_def self_consistent_def rbind_eq_Inr)
  show ?thesis
    using f r cc le an unfolding verify_commit_def prod.case Let_def n ids
    by (intro exI [of _ pg']) (auto simp: follows_def agrees_with_def met_def split: option.splits)
qed

lemma verify_loop_complete:
  "linked sha h (length pre) cs h' \<Longrightarrow> pager_rep pg (pre @ bodies cs) \<Longrightarrow> (\<And>x. x \<in> set cs \<Longrightarrow> agrees_with anch (snd x)) \<Longrightarrow>
   \<exists>pg'. verify_loop sha anch (headers_of (length pre) cs) (hd_chain_hash h, hd_version h, seen) pg =
      Some (Inr (hd_chain_hash h', hd_version h', seen \<or> (\<exists>x \<in> set cs. met anch (snd x))), pg') \<and> reads_as pg (pre @ bodies cs) pg'"
proof (induction cs arbitrary: h pre pg seen)
  case Nil
  then show ?case using reads_as_refl by (auto simp: sret_def)
next
  case (Cons x cs)
  obtain ds c where x: "x = (ds, c)" by (cases x)
  let ?h = "head_from c (FIRST_DATA_PAGE + of_nat (length pre + length ds))" and ?pre = "pre @ ds @ [commit_body c]"
  have f: "follows sha h (ds, c)" and l: "linked sha ?h (length ?pre) cs h'" using Cons.prems(1) by (simp_all add: x add.assoc)
  have an: "agrees_with anch c" using Cons.prems(3) [of x] x by simp
  let ?seen = "seen \<or> met anch c"
  obtain pg1 where v: "verify_commit sha anch (FIRST_DATA_PAGE + of_nat (length pre + length ds), c) (hd_chain_hash h, hd_version h, seen) pg
      = Some (Inr (ch_chain_hash c, hd_version h + 1, ?seen), pg1)" "reads_as pg (?pre @ bodies cs) pg1"
    using verify_commit_complete [OF f _ an, of pg pre "bodies cs" seen] Cons.prems(2) by (auto simp: x)
  have h: "hd_chain_hash ?h = ch_chain_hash c" "hd_version ?h = hd_version h + 1" using f by (simp_all add: head_from_def follows_def)
  obtain pg2 where r: "verify_loop sha anch (headers_of (length ?pre) cs) (ch_chain_hash c, hd_version h + 1, ?seen) pg1 =
      Some (Inr (hd_chain_hash h', hd_version h', ?seen \<or> (\<exists>x \<in> set cs. met anch (snd x))), pg2)" "reads_as pg1 (?pre @ bodies cs) pg2"
    using Cons.IH [OF l, of pg1 ?seen] v(2) h Cons.prems(3) by (auto simp: reads_as_def)
  have hs: "headers_of (length pre) (x # cs) = (FIRST_DATA_PAGE + of_nat (length pre + length ds), c) # headers_of (length ?pre) cs"
    by (simp add: x)
  have "verify_loop sha anch (headers_of (length pre) (x # cs)) (hd_chain_hash h, hd_version h, seen) pg =
      Some (Inr (hd_chain_hash h', hd_version h', seen \<or> (\<exists>x \<in> set (x # cs). met anch (snd x))), pg2)"
    unfolding hs verify_loop.simps using v(1) r(1) by (simp add: x disj_assoc)
  then show ?case using reads_as_trans [OF v(2) r(2)] by (auto simp: x)
qed

lemma verify_complete:
  assumes l: "linked sha (genesis_head sha (fh_file_id (pg_header pg))) 0 cs h" and rep: "pager_rep pg (bodies cs)"
    and an: "\<And>x. x \<in> set cs \<Longrightarrow> agrees_with anch (snd x)" "anch \<noteq> None \<Longrightarrow> \<exists>x \<in> set cs. met anch (snd x)"
  shows "\<exists>pg'. verify_anchored sha h anch pg = Some (Inr \<lparr>ar_head = hd_version h, ar_commits = of_nat (length cs), ar_chain_ok = True,
    ar_chain_hash = hd_chain_hash h\<rparr>, pg') \<and> reads_as pg (bodies cs) pg'"
proof -
  let ?g = "genesis_head sha (fh_file_id (pg_header pg))"
  have g: "hd_commit_page ?g = 0" "hd_chain_hash ?g = genesis_chain sha (fh_file_id (pg_header pg))" "hd_version ?g = 0"
    by (simp_all add: genesis_head_def)
  obtain pg1 where c: "collect_headers (hd_version h) (hd_commit_page h) [] pg = Some (Inr (headers_of 0 cs), pg1)"
    "reads_as pg (bodies cs) pg1"
    using collect_linked [OF l g(1), of pg "[]" "hd_version h" "[]"] rep by auto
  have e: "first_expected (headers_of 0 cs) = 0"
    using l by (cases cs) (auto simp: first_expected_def follows_def)
  have r1: "pager_rep pg1 (bodies cs)" "pg_header pg1 = pg_header pg" using c(2) by (auto simp: reads_as_def)
  obtain pg2 where v: "verify_loop sha anch (headers_of 0 cs) (hd_chain_hash ?g, hd_version ?g, False) pg1 =
      Some (Inr (hd_chain_hash h, hd_version h, \<exists>x \<in> set cs. met anch (snd x)), pg2)" "reads_as pg1 (bodies cs) pg2"
    using verify_loop_complete [of sha ?g "[]" cs h pg1 anch False] l r1(1) an(1) by auto
  have "verify_anchored sha h anch pg = Some (Inr \<lparr>ar_head = hd_version h, ar_commits = of_nat (length cs), ar_chain_ok = True,
      ar_chain_hash = hd_chain_hash h\<rparr>, pg2)"
    using c(1) v(1) r1(2) g e an(2) by (cases anch) (simp_all add: verify_anchored_def verify_finish_def)
  then show ?thesis using reads_as_trans [OF c(2) v(2)] by blast
qed

text \<open>The anchor of any commit of the history is met, as no two commits have the same version.\<close>

lemma linked_versions:
  "linked sha h n cs h' \<Longrightarrow> i < length cs \<Longrightarrow> ch_version (snd (cs ! i)) = hd_version h + of_nat (i + 1)"
proof (induction cs arbitrary: h n i)
  case (Cons x cs)
  obtain ds c where x: "x = (ds, c)" by (cases x)
  have v: "ch_version c = hd_version h + 1" using Cons.prems(1) by (simp add: x follows_def)
  show ?case
  proof (cases i)
    case 0
    then show ?thesis using v by (simp add: x)
  next
    case (Suc k)
    have "ch_version (snd (cs ! k)) = hd_version (head_from c (FIRST_DATA_PAGE + of_nat (n + length ds))) + of_nat (k + 1)"
      using Cons.IH [of "head_from c (FIRST_DATA_PAGE + of_nat (n + length ds))" "n + length ds + 1" k] Cons.prems Suc by (simp add: x)
    then show ?thesis using v Suc by (simp add: head_from_def x)
  qed
qed simp

lemma anchor_met:
  assumes l: "linked sha h n cs h'" "length cs < 2 ^ 62" and x: "(ds, c) \<in> set cs"
  defines "a \<equiv> Some \<lparr>aa_version = ch_version c, aa_chain_hash = ch_chain_hash c\<rparr>"
  shows "y \<in> set cs \<Longrightarrow> agrees_with a (snd y)" "\<exists>x \<in> set cs. met a (snd x)"
proof -
  obtain i where i: "i < length cs" "cs ! i = (ds, c)" using x by (auto simp: in_set_conv_nth)
  show "\<exists>x \<in> set cs. met a (snd x)" using x by (intro bexI [of _ "(ds, c)"]) (simp_all add: met_def a_def)
  assume "y \<in> set cs"
  then obtain j where j: "j < length cs" "cs ! j = y" by (auto simp: in_set_conv_nth)
  have "j = i" if "ch_version (snd y) = ch_version c"
  proof -
    have "hd_version h + of_nat (j + 1) = hd_version h + of_nat (i + 1)"
      using linked_versions [OF l(1) i(1)] linked_versions [OF l(1) j(1)] i(2) j(2) that by simp
    then have "(of_nat (j + 1) :: u64) = of_nat (i + 1)" by (rule add_left_imp_eq)
    moreover have "unat (of_nat (j + 1) :: u64) = j + 1" "unat (of_nat (i + 1) :: u64) = i + 1"
      using i(1) j(1) l(2) by (intro unat_of_nat_u64, simp)+
    ultimately show ?thesis by (metis add_right_imp_eq)
  qed
  then show "agrees_with a (snd y)" using i j by (auto simp: agrees_with_def a_def)
qed

text \<open>A store at rest whose pages are the commits of its history.\<close>

definition audited_store :: "env \<Rightarrow> bytes option \<Rightarrow> pager \<Rightarrow> commits \<Rightarrow> head \<Rightarrow> bool" where
  "audited_store e key pg cs h \<longleftrightarrow> store_inv e key pg (bodies cs) h \<and>
     linked (env_sha e) (genesis_head (env_sha e) (fh_file_id (pg_header pg))) 0 cs h"

lemma create_audited:
  "store_inv e key pg [] (genesis_head (env_sha e) (fh_file_id (pg_header pg))) \<Longrightarrow>
   audited_store e key pg [] (genesis_head (env_sha e) (fh_file_id (pg_header pg)))"
  by (simp add: audited_store_def)

lemma publish_audited:
  assumes inv: "audited_store e key pg cs h"
    and tx: "tx_pages ts pg new" "data_pages new" "branch_ok branch" "length (bodies cs) + length new + 1 < 2 ^ 62"
    and pub: "publish_commit (env_sha e) ts (params_after h branch parent) dr mr t pg = Some (Inr h', pg')"
  shows "\<exists>hdr. audited_store e key pg' (cs @ [(new, hdr)]) h' \<and> hd_version h' = hd_version h + 1 \<and> ch_branch hdr = branch \<and>
    fh_file_id (pg_header pg') = fh_file_id (pg_header pg)"
proof -
  have S: "store_inv e key pg (bodies cs) h" and L: "linked (env_sha e) (genesis_head (env_sha e) (fh_file_id (pg_header pg))) 0 cs h"
    using inv by (simp_all add: audited_store_def)
  let ?p = "FIRST_DATA_PAGE + of_nat (length (bodies cs) + length new) :: page_id"
  show ?thesis
  proof (cases rule: publish_outcome [OF S tx, of parent dr mr t])
    case (1 pg1 hdr)
    have e: "pg1 = pg'" "h' = head_from hdr ?p" using 1(1) pub by simp_all
    have id: "fh_file_id (pg_header pg') = fh_file_id (pg_header pg)"
      using 1(11) e by simp
    have "follows (env_sha e) h (new, hdr)" using 1 tx(3) by (simp add: follows_def)
    then have "linked (env_sha e) (genesis_head (env_sha e) (fh_file_id (pg_header pg'))) 0 (cs @ [(new, hdr)]) h'"
      using L e(2) id by (auto simp: linked_append)
    then show ?thesis using 1(2-4) e id by (intro exI [of _ hdr]) (simp add: audited_store_def head_from_def)
  qed (use pub in simp_all)
qed

end
