(* ===== verification/StoreLive.thy ===== *)
theory StoreLive
  imports StoreCrash
begin

text \<open>On a disk that does not fail (no write budget) no operation of a commit reports a failed write, so a commit is
  acknowledged.\<close>

section \<open>Operations that do not fail\<close>

definition nofail :: "(pager, 'a) sx \<Rightarrow> bool" where
  "nofail m \<longleftrightarrow> (\<forall>pg r pg'. df_budget (pg_file pg) = None \<longrightarrow> m pg = Some (r, pg') \<longrightarrow> r \<noteq> Inl io_write \<and> df_budget (pg_file pg') = None)"

lemma nofailI:
  "(\<And>pg r pg'. df_budget (pg_file pg) = None \<Longrightarrow> m pg = Some (r, pg') \<Longrightarrow> r \<noteq> Inl io_write \<and> df_budget (pg_file pg') = None) \<Longrightarrow> nofail m"
  unfolding nofail_def by blast

lemma nofail_bind:
  assumes m: "nofail m" and f: "\<And>x. nofail (f x)"
  shows "nofail (sbind m f)"
proof (rule nofailI)
  fix pg r pg'
  assume b: "df_budget (pg_file pg) = None" and e: "sbind m f pg = Some (r, pg')"
  show "r \<noteq> Inl io_write \<and> df_budget (pg_file pg') = None"
  proof (cases "m pg")
    case None
    then show ?thesis using e by simp
  next
    case (Some p)
    obtain q pg1 where p: "p = (q, pg1)" by (cases p)
    have q: "q \<noteq> Inl io_write" "df_budget (pg_file pg1) = None" using m b Some unfolding p nofail_def by blast+
    show ?thesis
    proof (cases q)
      case (Inl err)
      then show ?thesis using e Some q by (auto simp: p)
    next
      case (Inr x)
      then have "f x pg1 = Some (r, pg')" using e Some by (simp add: p)
      then show ?thesis using f [of x] q(2) unfolding nofail_def by blast
    qed
  qed
qed

lemma nofail_ret: "nofail (sret x)" by (simp add: nofail_def sret_def)

lemma nofail_lift: "m \<noteq> Inl io_write \<Longrightarrow> nofail (slift m)" by (auto simp: nofail_def slift_def)

lemma nofail_cache: "nofail (cache_insert pid p)"
  by (auto simp: nofail_def cache_insert_def split: option.splits)

lemma nofail_write: "nofail (file_write d off)"
  by (auto simp: nofail_def file_write_ok)

lemma nofail_record: "nofail (write_record_at pid b off)"
proof (rule nofailI)
  fix pg r pg'
  assume a: "df_budget (pg_file pg) = None" "write_record_at pid b off pg = Some (r, pg')"
  then show "r \<noteq> Inl io_write \<and> df_budget (pg_file pg') = None"
    by (auto simp: write_record_at_def Let_def put_state_def file_write_ok split: option.splits)
qed

lemma nofail_pages: "nofail (write_pages d pids cursor)"
  by (induction pids arbitrary: cursor)
    (auto simp: Let_def intro!: nofail_ret nofail_bind nofail_record nofail_cache split: prod.splits)

lemma nofail_commit: "nofail (write_commit_pages sha ts params dr mr t)"
proof -
  have tail: "nofail (\<lambda>pg. Some (Inr x, install_commit es c n pg))" for x :: head and es c n
    by (auto simp: nofail_def install_commit_def put_state_def)
  have hdr: "nofail (slift (commit_header_of sha params dr mr t nonce n content))" for nonce n content
    by (rule nofail_lift) (auto simp: commit_header_of_def compute_chain_def io_write_def Let_def)
  let ?K = "\<lambda>content cursor entries nonce. sbind (slift (commit_header_of sha params dr mr t nonce
        (of_nat (length [unat (alloc_base ts)..<unat (alloc_next ts)]) + 1) content)) (\<lambda>header.
          sbind (write_record_at (alloc_next ts) (page_body (set_body page_zeroed (commit_encode_into header (page_body page_zeroed)))) cursor)
            (\<lambda>(rec_len, loc).
          sbind (cache_insert (alloc_next ts) (set_body page_zeroed (commit_encode_into header (page_body page_zeroed)))) (\<lambda>_ pg.
            sret \<lparr>hd_version = ch_version header, hd_commit_page = alloc_next ts, hd_data_root = dr, hd_meta_root = mr,
                  hd_chain_hash = ch_chain_hash header, hd_nonce_counter = ch_nonce_counter header, hd_n_pages = alloc_next ts + 1\<rparr>
              (install_commit (entries @ [(alloc_next ts, loc)]) (cursor + rec_len) (alloc_next ts + 1) pg))))"
  have K: "nofail (?K content cursor entries nonce)" for content cursor entries nonce
    by (intro nofail_bind hdr) (auto intro!: nofail_bind nofail_record nofail_cache tail split: prod.splits)
  have K': "nofail (\<lambda>pg. ?K content cursor entries (as_nonce_counter (pg_state pg) + 1) pg)" for content cursor entries
    using K unfolding nofail_def by blast
  have "nofail (sbind (write_pages (dirty ts) [unat (alloc_base ts)..<unat (alloc_next ts)] off)
      (\<lambda>(content, cursor, entries) pg. ?K content cursor entries (as_nonce_counter (pg_state pg) + 1) pg))" for off
    by (rule nofail_bind [OF nofail_pages]) (use K' in \<open>simp split: prod.splits\<close>)
  then show ?thesis unfolding nofail_def write_commit_pages_def Let_def by blast
qed

lemma nofail_publish: "nofail (publish_commit sha ts params dr mr t)"
proof -
  have "nofail (\<lambda>pg. write_meta_at m pid pg)" for m pid
  proof -
    have "nofail (sbind (slift (seal c p pid 0)) (\<lambda>page. file_write page off))" for c p off
      by (intro nofail_bind nofail_write nofail_lift) (auto simp: seal_def Let_def io_write_def)
    then show ?thesis unfolding nofail_def write_meta_at_def by blast
  qed
  then show ?thesis unfolding publish_commit_def write_meta_def
    by (intro nofail_bind nofail_commit nofail_ret)
qed

end
