(* ===== verification/CommitProps.thy ===== *)
theory CommitProps
  imports AuditComplete StoreLive PagerProps
begin

text \<open>
  The properties of commits (\<^verbatim>\<open>src/commit.rs\<close>, \<^verbatim>\<open>src/tx.rs\<close>): atomicity against crashes, recovery, the audit with
  its anchors, and what the margin of nonces and the bytes left behind the head allow.
\<close>

section \<open>A store to try them on\<close>

definition sample_env :: "hash \<Rightarrow> env" where
  "sample_env sha = \<lparr>env_sha = sha, env_aead = toy_aead, env_cores = 2\<rparr>"

definition sample_id :: bytes where "sample_id = replicate 16 1"

definition sample_store :: "hash \<Rightarrow> pager" where
  "sample_store sha =
     (case create_with_crypto (sample_env sha) sample_id (replicate 16 2) None None 0 4 \<lparr>df_bytes = [], df_budget = None\<rparr> of
        Some (Inr pg, _) \<Rightarrow> pg | _ \<Rightarrow> sample_pager sha)"

lemma sample_store_ok:
  "audited_store (sample_env sha) None (sample_store sha) [] (genesis_head sha sample_id)"
  "fh_file_id (pg_header (sample_store sha)) = sample_id" "df_budget (pg_file (sample_store sha)) = None"
  "n_pages (sample_store sha) = FIRST_DATA_PAGE"
proof -
  obtain pg where c: "create_with_crypto (sample_env sha) sample_id (replicate 16 2) None None 0 4 \<lparr>df_bytes = [], df_budget = None\<rparr>
      = Some (Inr pg, pg_file pg)" "store_inv (sample_env sha) None pg [] (genesis_head (env_sha (sample_env sha)) sample_id)"
    "fh_file_id (pg_header pg) = sample_id" "df_budget (pg_file pg) = None"
    using create_spec [of sample_id "replicate 16 2" 0 None None "sample_env sha" 4] by (auto simp: sample_id_def)
  then have s: "sample_store sha = pg" by (simp add: sample_store_def)
  show "audited_store (sample_env sha) None (sample_store sha) [] (genesis_head sha sample_id)"
    "fh_file_id (pg_header (sample_store sha)) = sample_id" "df_budget (pg_file (sample_store sha)) = None"
    using c create_audited [of "sample_env sha" None pg] by (simp_all add: s sample_env_def)
  have "pager_rep pg []" using c(2) by (simp add: store_inv_def)
  then show "n_pages (sample_store sha) = FIRST_DATA_PAGE" by (simp add: s pager_rep_def n_pages_def)
qed

text \<open>A transaction that wrote one page, of zeros.\<close>

definition sample_tx :: "hash \<Rightarrow> tx_store" where
  "sample_tx sha = (begin_store (sample_store sha))\<lparr>dirty := [FIRST_DATA_PAGE \<mapsto> page_zeroed], alloc_next := 4\<rparr>"

lemma page_zeroed_of: "page_of (replicate BODY_SIZE 0) = page_zeroed"
  by (simp add: page_of_def page_zeroed_def size_consts flip: replicate_add)

lemma sample_tx_ok:
  "tx_pages (sample_tx sha) (sample_store sha) [replicate BODY_SIZE 0]" "data_pages [replicate BODY_SIZE 0]"
  "branch_ok MAIN_BRANCH"
proof -
  have "[unat (3 :: u64)..<unat (4 :: u64)] = [3]" by (simp add: upt_rec)
  then show "tx_pages (sample_tx sha) (sample_store sha) [replicate BODY_SIZE 0]"
    using sample_store_ok(4) [of sha]
    by (simp add: tx_pages_def sample_tx_def begin_store_def tx_store_new_def pages_are_def FIRST_DATA_PAGE_def page_zeroed_of)
  show "data_pages [replicate BODY_SIZE 0]"
  proof -
    have "hd (take 8 (replicate BODY_SIZE (0 :: u8))) \<noteq> hd MAGIC_COMMIT"
      by (simp add: MAGIC_COMMIT_def size_consts ascii_def)
    then have "take 8 (replicate BODY_SIZE (0 :: u8)) \<noteq> MAGIC_COMMIT" by metis
    then show ?thesis by (simp add: data_pages_def commit_decode_def)
  qed
  show "branch_ok MAIN_BRANCH"
    using valid_utf8_ascii [of MAIN_BRANCH] by (simp add: branch_ok_def MAIN_BRANCH_def BRANCH_MAX_def ascii_def)
qed

section \<open>Commits\<close>

text \<open>C1: A commit is atomic.  From a store at rest, a transaction is published to a disk that may stop after any byte,
  and the file that is left is opened.  Publication always returns; the store that opens has the old head with all the
  old pages, and then the commit was refused, or a head of the next version with the old pages, all the new ones and
  the commit page.  An acknowledged head is the one that opens, the store is then at rest again, and a disk that does
  not fail acknowledges.\<close>

lemma commit_is_atomic:
  assumes "store_inv e key pg bs h" "tx_pages ts pg new" "data_pages new" "branch_ok branch" "length bs + length new + 1 < 2 ^ 62"
  shows "\<exists>r pg' pg2 h2 bs2.
    publish_commit (env_sha e) ts (params_after h branch parent) dr mr t pg = Some (r, pg') \<and>
    store_open e key cp (pg_file pg') = Some (Inr (pg2, h2)) \<and> pager_rep pg2 bs2 \<and> hd_n_pages h2 = n_pages pg2 \<and>
    ((h2, bs2) = (h, bs) \<and> r = Inl io_write \<or>
     hd_version h2 = hd_version h + 1 \<and> (\<exists>hdr. bs2 = bs @ new @ [commit_body hdr] \<and> ch_branch hdr = branch)) \<and>
    (r = Inl io_write \<or> r = Inr h2 \<and> store_inv e key pg2 bs2 h2) \<and>
    (df_budget (pg_file pg) = None \<longrightarrow> r = Inr h2)"
proof -
  obtain r pg' pg2 h2 bs2 where P:
    "publish_commit (env_sha e) ts (params_after h branch parent) dr mr t pg = Some (r, pg')"
    "store_open e key cp (pg_file pg') = Some (Inr (pg2, h2))" "pager_rep pg2 bs2" "hd_n_pages h2 = n_pages pg2"
    "(h2, bs2) = (h, bs) \<and> r = Inl io_write \<or>
     hd_version h2 = hd_version h + 1 \<and> (\<exists>hdr. bs2 = bs @ new @ [commit_body hdr] \<and> ch_branch hdr = branch)"
    "r = Inl io_write \<or> r = Inr h2 \<and> store_inv e key pg2 bs2 h2"
    by (rule commit_then_open [OF assms, of parent dr mr t cp])
  have "df_budget (pg_file pg) = None \<longrightarrow> r = Inr h2" using P(1,6) nofail_publish unfolding nofail_def by blast
  then show ?thesis using P
    by (rule_tac exI [of _ r], rule_tac exI [of _ pg'], rule_tac exI [of _ pg2], rule_tac exI [of _ h2], rule_tac exI [of _ bs2], blast)
qed

lemma commit_is_atomic_witness:
  "\<exists>pg' pg2 h2 hdr.
     publish_commit sample_sha (sample_tx sample_sha) (params_after (genesis_head sample_sha sample_id) MAIN_BRANCH 0) 3 0 9
       (sample_store sample_sha) = Some (Inr h2, pg') \<and>
     store_open (sample_env sample_sha) None 4 (pg_file pg') = Some (Inr (pg2, h2)) \<and>
     pager_rep pg2 [replicate BODY_SIZE 0, commit_body hdr] \<and> hd_version h2 = 1"
proof -
  have i: "store_inv (sample_env sample_sha) None (sample_store sample_sha) [] (genesis_head sample_sha sample_id)"
    using sample_store_ok(1) [of sample_sha] unfolding audited_store_def by (simp only: bodies_simps)
  show ?thesis
    using commit_is_atomic [OF i sample_tx_ok, of 0 3 0 9 4] sample_store_ok(3) [of sample_sha]
    by (auto simp: sample_env_def genesis_head_def)
qed

text \<open>C2: What commits write passes the audit: when a commit on a store made of commits is acknowledged, the audit of the
  new head answers with one commit more, and so does the audit against the anchor of any commit of the history.\<close>

lemma acknowledged_passes_audit:
  assumes "audited_store e key pg cs h" "tx_pages ts pg new" "data_pages new" "branch_ok branch"
    "length (bodies cs) + length new + 1 < 2 ^ 62"
    "publish_commit (env_sha e) ts (params_after h branch parent) dr mr t pg = Some (Inr h', pg')"
  shows "\<exists>hdr. audited_store e key pg' (cs @ [(new, hdr)]) h' \<and> ch_branch hdr = branch \<and>
    (\<forall>anch \<in> {None} \<union> (\<lambda>(_, c). Some \<lparr>aa_version = ch_version c, aa_chain_hash = ch_chain_hash c\<rparr>) ` set (cs @ [(new, hdr)]).
       \<exists>pg''. verify_anchored (env_sha e) h' anch pg' = Some (Inr \<lparr>ar_head = hd_version h + 1, ar_commits = of_nat (length cs + 1),
         ar_chain_ok = True, ar_chain_hash = hd_chain_hash h'\<rparr>, pg''))"
proof -
  obtain hdr where A: "audited_store e key pg' (cs @ [(new, hdr)]) h'" "hd_version h' = hd_version h + 1" "ch_branch hdr = branch"
    using publish_audited [OF assms] by blast
  let ?cs = "cs @ [(new, hdr)]"
  have L: "linked (env_sha e) (genesis_head (env_sha e) (fh_file_id (pg_header pg'))) 0 ?cs h'" "pager_rep pg' (bodies ?cs)"
    using A(1) store_invD(1) unfolding audited_store_def by blast+
  have "length c \<le> length (bodies c)" for c by (induction c) (auto simp: bodies_def)
  from this [of ?cs] have n: "length ?cs < 2 ^ 62" using L(2) unfolding pager_rep_def by linarith
  have "\<exists>pg''. verify_anchored (env_sha e) h' anch pg' = Some (Inr \<lparr>ar_head = hd_version h + 1, ar_commits = of_nat (length cs + 1),
         ar_chain_ok = True, ar_chain_hash = hd_chain_hash h'\<rparr>, pg'')"
    if "anch = None \<or> (\<exists>ds c. (ds, c) \<in> set ?cs \<and> anch = Some \<lparr>aa_version = ch_version c, aa_chain_hash = ch_chain_hash c\<rparr>)" for anch
  proof -
    have a: "agrees_with anch (snd x)" if x: "x \<in> set ?cs" for x
    proof (cases anch)
      case None
      then show ?thesis by (simp add: agrees_with_def)
    next
      case (Some a)
      then obtain ds c where c: "(ds, c) \<in> set ?cs" "anch = Some \<lparr>aa_version = ch_version c, aa_chain_hash = ch_chain_hash c\<rparr>"
        using \<open>anch = None \<or> _\<close> by blast
      show ?thesis using anchor_met(1) [OF L(1) n c(1) x] unfolding c(2) .
    qed
    have m: "\<exists>x \<in> set ?cs. met anch (snd x)" if s: "anch \<noteq> None"
    proof -
      obtain ds c where c: "(ds, c) \<in> set ?cs" "anch = Some \<lparr>aa_version = ch_version c, aa_chain_hash = ch_chain_hash c\<rparr>"
        using \<open>anch = None \<or> _\<close> s by blast
      show ?thesis using anchor_met(2) [OF L(1) n c(1)] unfolding c(2) .
    qed
    show ?thesis using verify_complete [OF L a m] by (auto simp: A(2))
  qed
  then show ?thesis using A by (intro exI [of _ hdr]) auto
qed

lemma acknowledged_passes_audit_witness:
  "\<exists>h' pg' pg''. publish_commit sample_sha (sample_tx sample_sha) (params_after (genesis_head sample_sha sample_id) MAIN_BRANCH 0) 3 0 9
       (sample_store sample_sha) = Some (Inr h', pg') \<and>
     verify sample_sha h' pg' = Some (Inr \<lparr>ar_head = 1, ar_commits = 1, ar_chain_ok = True, ar_chain_hash = hd_chain_hash h'\<rparr>, pg'')"
proof -
  let ?e = "sample_env sample_sha" and ?g = "genesis_head sample_sha sample_id"
  have e: "env_sha ?e = sample_sha" by (simp add: sample_env_def)
  have i: "audited_store ?e None (sample_store sample_sha) [] ?g" by (rule sample_store_ok)
  then have i': "store_inv ?e None (sample_store sample_sha) [] ?g" unfolding audited_store_def by (simp only: bodies_simps)
  have l: "length ([] :: bytes list) + length [replicate BODY_SIZE (0 :: u8)] + 1 < 2 ^ 62" by simp
  obtain r pg' h2 where r: "publish_commit (env_sha ?e) (sample_tx sample_sha) (params_after ?g MAIN_BRANCH 0) 3 0 9 (sample_store sample_sha)
      = Some (r, pg')" "r = Inl io_write \<or> r = Inr h2"
    using commit_then_open [OF i' sample_tx_ok l, of 0 3 0 9 4] by metis
  have "r \<noteq> Inl io_write" using nofail_publish sample_store_ok(3) [of sample_sha] r(1) unfolding nofail_def by blast
  then have p: "publish_commit (env_sha ?e) (sample_tx sample_sha) (params_after ?g MAIN_BRANCH 0) 3 0 9 (sample_store sample_sha)
      = Some (Inr h2, pg')" using r by simp
  have l': "length (bodies []) + length [replicate BODY_SIZE (0 :: u8)] + 1 < 2 ^ 62" by (simp add: bodies_simps)
  show ?thesis
    using acknowledged_passes_audit [OF i sample_tx_ok l' p] p by (auto simp: e verify_def genesis_head_def)
qed

section \<open>Where the others can hold\<close>

text \<open>A hash without collisions among the few strings that a store with one empty commit hashes.\<close>

definition length_sha :: hash where "length_sha = (\<lambda>b. Digest (of_nat (length b) # replicate 31 0))"

lemma length_sha_eq: "length_sha a = length_sha b \<Longrightarrow> (of_nat (length a) :: u8) = of_nat (length b)"
  by (drule arg_cong [of _ _ digest_bytes]) (simp add: length_sha_def Digest_inverse)

definition empty_tx :: "hash \<Rightarrow> tx_store" where
  "empty_tx sha = (begin_store (sample_store sha))\<lparr>alloc_next := FIRST_DATA_PAGE\<rparr>"

lemma empty_tx_ok: "tx_pages (empty_tx sha) (sample_store sha) []" "data_pages []"
  using sample_store_ok(4) [of sha]
  by (simp_all add: tx_pages_def empty_tx_def begin_store_def tx_store_new_def pages_are_def data_pages_def)

lemma empty_commit:
  "\<exists>h' pg' hdr. audited_store (sample_env sha) None pg' [([], hdr)] h' \<and> fh_file_id (pg_header pg') = sample_id"
proof -
  let ?e = "sample_env sha" and ?g = "genesis_head sha sample_id"
  have e: "env_sha ?e = sha" by (simp add: sample_env_def)
  have i: "audited_store ?e None (sample_store sha) [] ?g" by (rule sample_store_ok)
  then have i': "store_inv ?e None (sample_store sha) [] ?g" unfolding audited_store_def by (simp only: bodies_simps)
  have l: "length ([] :: bytes list) + length ([] :: bytes list) + 1 < 2 ^ 62" by simp
  obtain r pg' h2 where r: "publish_commit (env_sha ?e) (empty_tx sha) (params_after ?g MAIN_BRANCH 0) 3 0 9 (sample_store sha) = Some (r, pg')"
    "r = Inl io_write \<or> r = Inr h2"
    using commit_then_open [OF i' empty_tx_ok sample_tx_ok(3) l, of 0 3 0 9 4] by metis
  have "r \<noteq> Inl io_write" using nofail_publish sample_store_ok(3) [of sha] r(1) unfolding nofail_def by blast
  then have p: "publish_commit (env_sha ?e) (empty_tx sha) (params_after ?g MAIN_BRANCH 0) 3 0 9 (sample_store sha) = Some (Inr h2, pg')"
    using r by simp
  have l': "length (bodies []) + length ([] :: bytes list) + 1 < 2 ^ 62" by (simp add: bodies_simps)
  show ?thesis using publish_audited [OF i empty_tx_ok sample_tx_ok(3) l' p] sample_store_ok(2) [of sha] by auto
qed

lemma anchor_extends_witness:
  "\<exists>pg pg' pg'' h rep bs hs. verify length_sha h pg = Some (Inr rep, pg') \<and>
     verify_anchored length_sha h (Some (anchor rep)) pg = Some (Inr rep, pg'') \<and> trail bs (hd_commit_page h) hs \<and> length hs = 1 \<and>
     (\<exists>n. map committed hs = map committed (take n hs))"
proof -
  obtain h pg hdr where A: "audited_store (sample_env length_sha) None pg [([], hdr)] h" "fh_file_id (pg_header pg) = sample_id"
    using empty_commit by blast
  have e: "env_sha (sample_env length_sha) = length_sha" by (simp add: sample_env_def)
  have rep: "pager_rep pg [commit_body hdr]" and L: "linked length_sha (genesis_head length_sha sample_id) 0 [([], hdr)] h"
    using A by (simp_all add: audited_store_def store_inv_def e)
  have f: "follows length_sha (genesis_head length_sha sample_id) ([], hdr)" and h: "h = head_from hdr FIRST_DATA_PAGE" using L by simp_all
  have dec: "commit_decode (commit_body hdr) = Some hdr" using f by (simp add: follows_def decode_commit_body)
  have "trail [commit_body hdr] (FIRST_DATA_PAGE + of_nat 0) ([] @ [([], hdr)])"
    using f dec by (intro trail_snoc trail_Nil) (simp_all add: follows_def genesis_head_def saturating_sub_def trail_Nil)
  then have t: "trail [commit_body hdr] (hd_commit_page h) [([], hdr)]" by (simp add: h head_from_def)
  have L': "linked length_sha (genesis_head length_sha (fh_file_id (pg_header pg))) 0 [([], hdr)] h" "pager_rep pg (bodies [([], hdr)])"
    using L rep A(2) by simp_all
  let ?r = "\<lparr>ar_head = hd_version h, ar_commits = 1, ar_chain_ok = True, ar_chain_hash = hd_chain_hash h\<rparr>"
  obtain pg' where v1: "verify_anchored length_sha h None pg = Some (Inr ?r, pg')"
    using verify_complete [OF L', of None] by (auto simp: agrees_with_def)
  obtain pg'' where v2: "verify_anchored length_sha h (Some (anchor ?r)) pg = Some (Inr ?r, pg'')"
    using verify_complete [OF L', of "Some (anchor ?r)"] by (auto simp: agrees_with_def met_def anchor_def h head_from_def)
  have "length (ch_branch hdr) \<le> 64" using f by (simp add: follows_def branch_ok_def BRANCH_MAX_def)
  then have lm: "length (chain_message hdr) = 160" "length (MAGIC_HEADER @ sample_id) = 24"
    by (simp_all add: chain_message_def sample_id_def MAGIC_HEADER_def BRANCH_MAX_def ascii_def)
  have "inj_on length_sha (hashed (fh_file_id (pg_header pg)) [([], hdr)] \<union> hashed (fh_file_id (pg_header pg)) [([], hdr)])"
    using lm unfolding inj_on_def hashed_def A(2) by (auto dest!: length_sha_eq)
  then have "\<exists>n. map committed [([] :: bytes, hdr)] = map committed (take n [([], hdr)])"
    using anchor_extends [OF v1 rep t v2 rep t] A(2) by (simp add: sample_id_def)
  then show ?thesis using v1 v2 t unfolding verify_def by (metis length_Cons list.size(3) One_nat_def)
qed

lemma sample_inv: "store_inv (sample_env sha) None (sample_store sha) [] (genesis_head sha sample_id)"
  using sample_store_ok(1) [of sha] unfolding audited_store_def by (simp only: bodies_simps)

text \<open>The sample store after a crash that left five zeros behind its head.\<close>

lemma sample_reopened:
  "\<exists>pg. reopened (sample_env sha) None pg [] (genesis_head sha sample_id) \<and> df_budget (pg_file pg) = Some 5 \<and>
     length (df_bytes (pg_file pg)) = as_write_offset (pg_state pg) + 5"
proof -
  let ?pg = "sample_store sha" and ?h = "genesis_head sha sample_id"
  note I = store_invD [OF sample_inv, of sha]
  let ?f = "df_bytes (pg_file ?pg)"
  define x where "x = ?pg\<lparr>pg_file := \<lparr>df_bytes = ?f @ replicate 5 0, df_budget = Some 5\<rparr>\<rparr>"
  have same: "same_store ?pg x" using I(9) by (simp add: same_store_def x_def)
  have lx: "12288 \<le> length (df_bytes (pg_file x))" using I(9) by (simp add: x_def)
  note r = ready_same [OF I(3) same I(9) lx]
  have z: "replicate 5 (0 :: u8) = u32_le 0 @ [0]" by (simp add: u32_le_def nat_le_zero eval_nat_numeral)
  have d: "disk ?pg [] (as_dir (pg_state ?pg)) (as_write_offset (pg_state ?pg))" using I(1) unfolding pager_rep_disk by blast
  then have d': "disk x [] [] (length ?f)" "as_write_offset (pg_state ?pg) = 12288" "length ?f = 12288"
    using I(2) I(9) by (cases "as_dir (pg_state ?pg)"; auto simp: disk_def store_ok_def x_def)+
  have "at_pos (df_bytes (pg_file x)) (length ?f) (u32_le 0)" using z by (simp add: x_def at_pos_def)
  then have "tail_ok (ecc_nsym x) (df_bytes (pg_file x)) (length ?f)"
    unfolding tail_ok_def by (auto intro!: exI [of _ 0] simp: x_def size_consts)
  then have t: "torn x []" using d'(1) unfolding torn_def by blast
  have hx: "hist_ok sha (genesis_head sha (fh_file_id (pg_header x))) FIRST_DATA_PAGE [] ?h"
    using sample_store_ok(2) [of sha] by (simp add: x_def)
  have e: "env_sha (sample_env sha) = sha" by (simp add: sample_env_def)
  obtain pg2 where p: "store_open (sample_env sha) None 4 (pg_file x) = Some (Inr (pg2, ?h))"
    "reopened (sample_env sha) None pg2 [] ?h" "pg_file pg2 = pg_file x"
    using store_open_reopened [OF r(1) t, of 0 ?h 4] I(4) r(2) hx by (auto simp: e data_pages_def genesis_head_def)
  have "disk pg2 [] (as_dir (pg_state pg2)) (as_write_offset (pg_state pg2))" using p(2) unfolding reopened_def pager_rep_disk by blast
  then have "as_write_offset (pg_state pg2) = 12288" by (cases "as_dir (pg_state pg2)") (auto simp: disk_def)
  then show ?thesis using p d'(3) by (intro exI [of _ pg2]) (simp add: x_def)
qed

lemma nonce_again_witness:
  "\<exists>pg pg' pg2 h. write_record_at (n_pages pg) [7] (as_write_offset (pg_state pg)) pg = Some (Inl io_write, pg') \<and>
    store_open (sample_env sample_sha) None 4 (pg_file pg') = Some (Inr (pg2, h)) \<and>
    as_nonce_counter (pg_state pg2) = as_nonce_counter (pg_state pg)"
proof -
  let ?h = "genesis_head sample_sha sample_id"
  obtain pg where p: "reopened (sample_env sample_sha) None pg [] ?h" "df_budget (pg_file pg) = Some 5"
    "length (df_bytes (pg_file pg)) = as_write_offset (pg_state pg) + 5" using sample_reopened by blast
  note R = reopenedD [OF p(1)]
  have c: "crypto_provider (pg_crypto pg)" "comp_ok (pg_compressor pg)" using R(9) by (simp_all add: disk_def store_ok_def)
  obtain ts where ts: "body_to_seal (pg_compressor pg) (trim_trailing_zeros [7]) = Some ts" "length ts \<le> BODY_SIZE + 1"
    using body_to_seal_total [OF c(2), of "[7]"] by (auto simp: size_consts)
  define st where "st = seal_bytes (pg_crypto pg) ts (n_pages pg) (as_nonce_counter (pg_state pg))"
  have l: "length st = CRYPTO_RESERVE + length ts" unfolding st_def by (rule crypto_provider.length_seal [OF c(1)])
  have "length st < 2 ^ 32" "length (df_bytes (pg_file pg)) < as_write_offset (pg_state pg) + length (framed_record (ecc_nsym pg) st)"
    "LEN_PREFIX_LEN \<le> 5" using l ts(2) p(3) by (simp_all add: length_framed size_consts)
  then show ?thesis
    using nonce_again [OF p(1) ts(1) st_def _ p(2), of 4] p(3) by (metis order_refl)
qed


text \<open>A first commit that was never published: the hash that is constant is its chain hash.\<close>

definition sample_hdr :: commit_header where
  "sample_hdr = \<lparr>ch_flags = 0, ch_version = 1, ch_parent_page = 0, ch_prev_page = 0, ch_timestamp_ms = 0, ch_data_root = 3,
     ch_meta_root = 0, ch_nonce_counter = 0, ch_pages_written = 2, ch_branch = MAIN_BRANCH,
     ch_content_hash = Digest (replicate 32 0), ch_prev_chain = Digest (replicate 32 0), ch_chain_hash = Digest (replicate 32 0)\<rparr>"

lemma sample_hdr_ok: "branch_ok (ch_branch sample_hdr)" "self_consistent sample_sha sample_hdr = Inr True"
  "ch_version sample_hdr = hd_version (genesis_head sample_sha sample_id) + 1"
  "ch_prev_chain sample_hdr = hd_chain_hash (genesis_head sample_sha sample_id)"
  using sample_tx_ok(3)
  by (simp_all add: sample_hdr_def self_consistent_def compute_chain_def sample_sha_def branch_ok_def genesis_head_def genesis_chain_def)

lemma stale_commit_witness:
  "\<exists>f pg1 x pg2 pg3.
    store_open (sample_env sample_sha) None 4 f = Some (Inr (pg1, genesis_head sample_sha sample_id)) \<and>
    write_record_at (n_pages pg1) (replicate BODY_SIZE 0) (as_write_offset (pg_state pg1)) pg1 = Some (Inr x, pg2) \<and>
    store_open (sample_env sample_sha) None 4 (pg_file pg2) = Some (Inr (pg3, head_from sample_hdr 4)) \<and>
    pager_rep pg3 [replicate BODY_SIZE 0, commit_body sample_hdr]"
proof -
  let ?pg = "sample_store sample_sha"
  note I = store_invD [OF sample_inv, of sample_sha]
  have c: "crypto_provider (pg_crypto ?pg)" "comp_ok (pg_compressor ?pg)"
    using I(1) unfolding pager_rep_disk by (simp_all add: disk_def store_ok_def)
  obtain ts where ts: "body_to_seal (pg_compressor ?pg) (trim_trailing_zeros (replicate BODY_SIZE 0)) = Some ts" "length ts \<le> BODY_SIZE + 1"
    using body_to_seal_total [OF c(2), of "replicate BODY_SIZE 0"] by auto
  have "length (commit_body sample_hdr) = BODY_SIZE" by (rule length_commit_body [OF sample_hdr_ok(1)])
  then obtain tc where tc: "body_to_seal (pg_compressor ?pg) (trim_trailing_zeros (commit_body sample_hdr)) = Some tc" "length tc \<le> BODY_SIZE + 1"
    using body_to_seal_total [OF c(2), of "commit_body sample_hdr"] by auto
  note sc = sealed_seal [OF c(1) tc, of "n_pages ?pg + 1" 0]
  have d: "length (replicate BODY_SIZE (0 :: u8)) = BODY_SIZE" "commit_decode (replicate BODY_SIZE 0) = None"
    using sample_tx_ok(2) by (simp_all add: data_pages_def)
  have e: "env_sha (sample_env sample_sha) = sample_sha" by (simp add: sample_env_def)
  have "n_pages ?pg + 1 = 4" using sample_store_ok(4) [of sample_sha] by (simp add: FIRST_DATA_PAGE_def)
  then show ?thesis
    using stale_commit [OF sample_inv _ d ts _ _ _ _ sc refl, of 4] sample_hdr_ok by (fastforce simp: e)
qed

lemma cyclic_commit_witness:
  "\<exists>h pg. verify_anchored sample_sha h None pg = None \<and>
     hist_ok sample_sha (genesis_head sample_sha sample_id) FIRST_DATA_PAGE [commit_body (sample_hdr\<lparr>ch_prev_page := 3\<rparr>)] h"
proof -
  let ?b = "commit_body (sample_hdr\<lparr>ch_prev_page := 3\<rparr>)" and ?h = "head_from sample_hdr 3"
  have br: "branch_ok (ch_branch (sample_hdr\<lparr>ch_prev_page := 3\<rparr>))" using sample_hdr_ok(1) by simp
  have "\<exists>pg'. append_page (\<lambda>_. ?b) (sample_pager sample_sha) = Some (Inr (FIRST_DATA_PAGE + of_nat (length ([] :: bytes list))), pg') \<and>
      pager_rep pg' ([] @ [?b]) \<and> df_budget (pg_file pg') = None \<and>
      as_nonce_counter (pg_state pg') = as_nonce_counter (pg_state (sample_pager sample_sha)) + 1"
    by (rule append_page_spec [OF sample_pager_rep]) (simp_all add: length_commit_body [OF br] sample_pager_def)
  then obtain pg where pg: "pager_rep pg [?b]" by auto
  have p: "FIRST_DATA_PAGE + of_nat (length ([] :: bytes list)) = (3 :: page_id)" by (simp add: FIRST_DATA_PAGE_def)
  have h: "hist_ok sample_sha (genesis_head sample_sha sample_id) FIRST_DATA_PAGE [commit_body sample_hdr] ?h"
    using sample_hdr_ok by (simp add: chains_on_def decode_commit_body p [simplified])
  have r: "pager_rep pg ([] @ [commit_body (sample_hdr\<lparr>ch_prev_page := FIRST_DATA_PAGE + of_nat (length ([] :: bytes list))\<rparr>)])"
    using pg p by simp
  have hp: "hd_commit_page ?h = FIRST_DATA_PAGE + of_nat (length ([] :: bytes list))" by (simp add: FIRST_DATA_PAGE_def head_from_def)
  have "verify_anchored sample_sha ?h None pg = None \<and> hist_ok sample_sha (genesis_head sample_sha sample_id) FIRST_DATA_PAGE
      ([] @ [commit_body (sample_hdr\<lparr>ch_prev_page := FIRST_DATA_PAGE + of_nat (length ([] :: bytes list))\<rparr>)]) ?h"
    using cyclic_commit [OF sample_hdr_ok(1) r, of sample_sha "genesis_head sample_sha sample_id" ?h None] h hp
    unfolding append_Nil by blast
  then show ?thesis unfolding p append_Nil by blast
qed

end
