(* ===== verification/Schema.thy ===== *)
theory Schema
  imports Keyenc
begin

text \<open>
  The schema of tables as the catalog stores it (\<^verbatim>\<open>src/catalog.rs\<close>): the definitions of columns, indexes, keys and
  triggers, their serialisation in the current version and the reading of every version since the second.
\<close>

section \<open>Definitions\<close>

datatype col_type = ColInteger | ColReal | ColText | ColBlob | ColBoolean

definition col_type_u8 :: "col_type \<Rightarrow> u8" where
  "col_type_u8 t = (case t of ColInteger \<Rightarrow> 1 | ColReal \<Rightarrow> 2 | ColText \<Rightarrow> 3 | ColBlob \<Rightarrow> 4 | ColBoolean \<Rightarrow> 5)"

definition col_type_from_u8 :: "u8 \<Rightarrow> col_type option" where
  "col_type_from_u8 b =
     (if b = 1 then Some ColInteger else if b = 2 then Some ColReal else if b = 3 then Some ColText
      else if b = 4 then Some ColBlob else if b = 5 then Some ColBoolean else None)"

definition col_type_name :: "col_type \<Rightarrow> string" where
  "col_type_name t = (case t of ColInteger \<Rightarrow> ''INTEGER'' | ColReal \<Rightarrow> ''REAL'' | ColText \<Rightarrow> ''TEXT'' | ColBlob \<Rightarrow> ''BLOB''
     | ColBoolean \<Rightarrow> ''BOOLEAN'')"

datatype fk_action = Restrict | Cascade | SetNull

definition fk_action_u8 :: "fk_action \<Rightarrow> u8" where
  "fk_action_u8 a = (case a of Restrict \<Rightarrow> 0 | Cascade \<Rightarrow> 1 | SetNull \<Rightarrow> 2)"

definition fk_action_from_u8 :: "u8 \<Rightarrow> fk_action option" where
  "fk_action_from_u8 b = (if b = 0 then Some Restrict else if b = 1 then Some Cascade else if b = 2 then Some SetNull else None)"

record foreign_key =
  fk_columns :: "nat list"
  fk_parent :: bytes
  fk_parent_columns :: "nat list"
  fk_on_delete :: fk_action
  fk_on_update :: fk_action

datatype trigger_timing = TimingBefore | TimingAfter | TimingInsteadOf

datatype trigger_event = EventInsert | EventUpdate | EventDelete

definition timing_u8 :: "trigger_timing \<Rightarrow> u8" where
  "timing_u8 t = (case t of TimingBefore \<Rightarrow> 0 | TimingAfter \<Rightarrow> 1 | TimingInsteadOf \<Rightarrow> 2)"

definition timing_from_u8 :: "u8 \<Rightarrow> trigger_timing option" where
  "timing_from_u8 b = (if b = 0 then Some TimingBefore else if b = 1 then Some TimingAfter else if b = 2 then Some TimingInsteadOf else None)"

definition event_u8 :: "trigger_event \<Rightarrow> u8" where
  "event_u8 t = (case t of EventInsert \<Rightarrow> 0 | EventUpdate \<Rightarrow> 1 | EventDelete \<Rightarrow> 2)"

definition event_from_u8 :: "u8 \<Rightarrow> trigger_event option" where
  "event_from_u8 b = (if b = 0 then Some EventInsert else if b = 1 then Some EventUpdate else if b = 2 then Some EventDelete else None)"

datatype trigger_for_each = EachRow | EachStatement

definition for_each_u8 :: "trigger_for_each \<Rightarrow> u8" where
  "for_each_u8 t = (case t of EachRow \<Rightarrow> 0 | EachStatement \<Rightarrow> 1)"

definition for_each_from_u8 :: "u8 \<Rightarrow> trigger_for_each option" where
  "for_each_from_u8 b = (if b = 0 then Some EachRow else if b = 1 then Some EachStatement else None)"

record trigger_def =
  tr_name :: bytes
  tr_timing :: trigger_timing
  tr_event :: trigger_event
  tr_for_each :: trigger_for_each
  tr_table :: bytes
  tr_body :: bytes

record column_fk =
  cf_parent :: bytes
  cf_parent_column :: "bytes option"
  cf_on_delete :: fk_action
  cf_on_update :: fk_action

record column_spec =
  cs_name :: bytes
  cs_col_type :: col_type
  cs_not_null :: bool
  cs_primary_key :: bool
  cs_default :: "val option"
  cs_references :: "column_fk option"
  cs_unique :: bool
  cs_check :: "bytes option"

record foreign_key_spec =
  fs_columns :: "bytes list"
  fs_parent :: bytes
  fs_parent_columns :: "bytes list"
  fs_on_delete :: fk_action
  fs_on_update :: fk_action

record table_spec =
  sp_name :: bytes
  sp_columns :: "column_spec list"
  sp_foreign_keys :: "foreign_key_spec list"
  sp_uniques :: "bytes list list"
  sp_checks :: "bytes list"

record column_def =
  cd_name :: bytes
  cd_col_type :: col_type
  cd_not_null :: bool
  cd_default :: "val option"
  cd_dropped :: bool

record index_def =
  ix_name :: bytes
  ix_id :: u32
  ix_columns :: "nat list"
  ix_unique :: bool

record fts_index_def =
  ft_name :: bytes
  ft_id :: u32
  ft_columns :: "nat list"
  ft_tokenizer :: bytes

datatype vector_metric = Cosine | L2

definition metric_u8 :: "vector_metric \<Rightarrow> u8" where
  "metric_u8 m = (case m of Cosine \<Rightarrow> 0 | L2 \<Rightarrow> 1)"

definition metric_from_u8 :: "u8 \<Rightarrow> vector_metric option" where
  "metric_from_u8 b = (if b = 0 then Some Cosine else if b = 1 then Some L2 else None)"

record vector_index_def =
  vi_name :: bytes
  vi_id :: u32
  vi_column :: nat
  vi_lists :: u16
  vi_metric :: vector_metric
  vi_dim :: u32
  vi_nprobe :: u16
  vi_rerank_i8 :: bool

record table_def =
  td_name :: bytes
  td_table_id :: u32
  td_rowid_alias :: "nat option"
  td_columns :: "column_def list"
  td_indexes :: "index_def list"
  td_fts_indexes :: "fts_index_def list"
  td_vector_indexes :: "vector_index_def list"
  td_logical_order :: "nat list"
  td_foreign_keys :: "foreign_key list"
  td_checks :: "bytes list"

datatype column_pos = PosFirst | PosBefore bytes | PosAfter bytes

section \<open>Keys\<close>

definition MAX_COLUMNS :: nat where "MAX_COLUMNS = 255"
definition MAX_NAME_LEN :: nat where "MAX_NAME_LEN = 128"
definition KS_CATALOG :: u8 where "KS_CATALOG = 0x00"
definition CAT_META :: u8 where "CAT_META = 0x00"
definition CAT_TABLE :: u8 where "CAT_TABLE = 0x01"
definition CAT_COUNTER :: u8 where "CAT_COUNTER = 0x02"
definition CAT_INDEX_COUNTER :: u8 where "CAT_INDEX_COUNTER = 0x03"
definition CAT_INDEX_REF :: u8 where "CAT_INDEX_REF = 0x04"
definition CAT_VIEW :: u8 where "CAT_VIEW = 0x05"
definition CAT_TRIGGER :: u8 where "CAT_TRIGGER = 0x06"
definition SCHEMA_VERSION :: u8 where "SCHEMA_VERSION = 10"
definition NO_ALIAS :: u8 where "NO_ALIAS = 0xFF"

definition meta_key :: bytes where "meta_key = [KS_CATALOG, CAT_META]"
definition table_key :: "bytes \<Rightarrow> bytes" where "table_key name = [KS_CATALOG, CAT_TABLE] @ name"
definition counter_key :: "u32 \<Rightarrow> bytes" where "counter_key table_id = [KS_CATALOG, CAT_COUNTER] @ rev (u32_le table_id)"
definition index_counter_key :: bytes where "index_counter_key = [KS_CATALOG, CAT_INDEX_COUNTER]"
definition index_ref_key :: "bytes \<Rightarrow> bytes" where "index_ref_key name = [KS_CATALOG, CAT_INDEX_REF] @ name"
definition view_key :: "bytes \<Rightarrow> bytes" where "view_key name = [KS_CATALOG, CAT_VIEW] @ name"
definition trigger_key :: "bytes \<Rightarrow> bytes" where "trigger_key name = [KS_CATALOG, CAT_TRIGGER] @ name"

section \<open>Serialisation\<close>

text \<open>A string or list with its length before it.\<close>

definition put_usize :: "nat \<Rightarrow> bytes" where "put_usize n = put_varint (of_nat n)"

definition put_str :: "bytes \<Rightarrow> bytes" where "put_str s = put_usize (length s) @ s"

definition put_list :: "('a \<Rightarrow> bytes) \<Rightarrow> 'a list \<Rightarrow> bytes" where
  "put_list enc xs = put_usize (length xs) @ concat (map enc xs)"

definition flag :: "bool \<Rightarrow> bytes" where "flag b = [if b then 1 else 0]"

definition put_column :: "column_def \<Rightarrow> bytes" where
  "put_column col =
     put_str (cd_name col) @ [col_type_u8 (cd_col_type col)] @ flag (cd_not_null col) @
     (case cd_default col of None \<Rightarrow> [0] | Some v \<Rightarrow> 1 # put_str (encode_values [v])) @ flag (cd_dropped col)"

definition put_index :: "index_def \<Rightarrow> bytes" where
  "put_index idx = u32_le (ix_id idx) @ flag (ix_unique idx) @ put_list put_usize (ix_columns idx) @ put_str (ix_name idx)"

definition put_fk :: "foreign_key \<Rightarrow> bytes" where
  "put_fk fk = put_list put_usize (fk_columns fk) @ [fk_action_u8 (fk_on_delete fk), fk_action_u8 (fk_on_update fk)] @
     put_str (fk_parent fk) @ put_list put_usize (fk_parent_columns fk)"

definition put_fts :: "fts_index_def \<Rightarrow> bytes" where
  "put_fts f = u32_le (ft_id f) @ put_list put_usize (ft_columns f) @ put_str (ft_name f) @ put_str (ft_tokenizer f)"

definition put_vector :: "vector_index_def \<Rightarrow> bytes" where
  "put_vector vi = u32_le (vi_id vi) @ put_usize (vi_column vi) @ put_usize (unat (vi_lists vi)) @ [metric_u8 (vi_metric vi)] @
     u32_le (vi_dim vi) @ put_usize (unat (vi_nprobe vi)) @ put_str (vi_name vi) @ flag (vi_rerank_i8 vi)"

definition put_order :: "nat list \<Rightarrow> bytes" where
  "put_order order = (if order = [0..<length order] then [0] else 1 # concat (map put_usize order))"

definition encode_def :: "table_def \<Rightarrow> bytes" where
  "encode_def d =
     [SCHEMA_VERSION] @ u32_le (td_table_id d) @ [case td_rowid_alias d of None \<Rightarrow> NO_ALIAS | Some i \<Rightarrow> of_nat i] @
     put_list put_column (td_columns d) @ put_list put_index (td_indexes d) @ put_order (td_logical_order d) @
     put_list put_fk (td_foreign_keys d) @ put_list put_str (td_checks d) @ put_list put_fts (td_fts_indexes d) @
     put_list put_vector (td_vector_indexes d)"

section \<open>Reading\<close>

text \<open>Readers at a position: the closures of \<^verbatim>\<open>decode_def\<close>.\<close>

type_synonym 'a rd = "bytes \<Rightarrow> nat \<Rightarrow> ('a \<times> nat) res"

definition rd_bind :: "'a rd \<Rightarrow> ('a \<Rightarrow> 'b rd) \<Rightarrow> 'b rd" where
  "rd_bind m f buf pos = rbind (m buf pos) (\<lambda>(x, pos). f x buf pos)"

definition rd_ret :: "'a \<Rightarrow> 'a rd" where "rd_ret x buf pos = Inr (x, pos)"

definition rd_lift :: "'a res \<Rightarrow> 'a rd" where "rd_lift r buf pos = rbind r (\<lambda>x. Inr (x, pos))"

definition bad :: "string \<Rightarrow> error" where "bad reason = CorruptRecord reason"

definition rd_take :: "nat \<Rightarrow> bytes rd" where
  "rd_take n buf pos = rbind (ok_or (get_range buf pos (usize_add pos n)) (bad ''esquema truncado'')) (\<lambda>s. Inr (s, pos + n))"

definition rd_u8 :: "u8 rd" where "rd_u8 = rd_bind (rd_take 1) (\<lambda>s. rd_ret (hd s))"

definition rd_u32 :: "u32 rd" where "rd_u32 = rd_bind (rd_take 4) (\<lambda>s. rd_ret (of_nat (le_val s)))"

definition rd_usize :: "nat rd" where
  "rd_usize buf pos = rbind (ok_or (take_varint buf pos) (bad ''esquema truncado'')) (\<lambda>(n, pos). Inr (unat n, pos))"

definition rd_str :: "string \<Rightarrow> bytes rd" where
  "rd_str reason = rd_bind rd_usize (\<lambda>len. rd_bind (rd_take len) (\<lambda>s.
     if valid_utf8 s then rd_ret s else rd_lift (Inl (bad reason))))"

text \<open>A position of a column, below the number of columns.\<close>

definition rd_below :: "nat \<Rightarrow> string \<Rightarrow> nat rd" where
  "rd_below n reason = rd_bind rd_usize (\<lambda>c. if n \<le> c then rd_lift (Inl (bad reason)) else rd_ret c)"

definition get_column :: "u8 \<Rightarrow> column_def rd" where
  "get_column version =
     rd_bind (rd_str ''nombre de columna no UTF-8'') (\<lambda>name.
     rd_bind rd_u8 (\<lambda>t. rd_bind (rd_lift (ok_or (col_type_from_u8 t) (bad ''tipo de columna desconocido''))) (\<lambda>ty.
     rd_bind rd_u8 (\<lambda>not_null. rd_bind rd_u8 (\<lambda>marker.
     rd_bind (if marker = 0 then rd_ret None
              else if marker = 1 then
                rd_bind rd_usize (\<lambda>dlen. rd_bind (rd_take dlen) (\<lambda>s. rd_bind (rd_lift (decode_values s)) (\<lambda>values.
                  case values of [] \<Rightarrow> rd_lift (Inl (bad ''default vacio'')) | v # _ \<Rightarrow> rd_ret (Some v))))
              else rd_lift (Inl (bad ''marcador de default invalido''))) (\<lambda>default.
     rd_bind (if 5 \<le> version then rd_bind rd_u8 (\<lambda>b. rd_ret (b \<noteq> 0)) else rd_ret False) (\<lambda>dropped.
       rd_ret \<lparr>cd_name = name, cd_col_type = ty, cd_not_null = not_null \<noteq> 0, cd_default = default, cd_dropped = dropped\<rparr>)))))))"

definition get_index :: "nat \<Rightarrow> index_def rd" where
  "get_index ncols =
     rd_bind rd_u32 (\<lambda>ixid. rd_bind rd_u8 (\<lambda>unique. rd_bind rd_usize (\<lambda>icols.
     if icols = 0 \<or> MAX_COLUMNS < icols then rd_lift (Inl (bad ''numero de columnas de indice invalido''))
     else rd_bind (dec_many (rd_below ncols ''columna de indice fuera de rango'') icols) (\<lambda>cols.
       rd_bind (rd_str ''nombre de indice no UTF-8'') (\<lambda>name.
         rd_ret \<lparr>ix_name = name, ix_id = ixid, ix_columns = cols, ix_unique = unique \<noteq> 0\<rparr>)))))"

definition is_permutation :: "nat list \<Rightarrow> nat \<Rightarrow> bool" where
  "is_permutation order n \<longleftrightarrow> length order = n \<and> (\<forall>p \<in> set order. p < n) \<and> distinct order"

definition get_order :: "u8 \<Rightarrow> nat \<Rightarrow> nat list rd" where
  "get_order version ncols =
     (if 3 \<le> version then
        rd_bind rd_u8 (\<lambda>marker.
          if marker = 0 then rd_ret [0..<ncols]
          else if marker = 1 then
            rd_bind (dec_many rd_usize ncols) (\<lambda>lo.
              if is_permutation lo ncols then rd_ret lo else rd_lift (Inl (bad ''orden logico de columnas invalido'')))
          else rd_lift (Inl (bad ''marcador de orden logico invalido'')))
      else rd_ret [0..<ncols])"

definition rd_action :: "fk_action rd" where
  "rd_action = rd_bind rd_u8 (\<lambda>b. rd_lift (ok_or (fk_action_from_u8 b) (bad ''accion de FK desconocida'')))"

definition get_fk :: "u8 \<Rightarrow> nat \<Rightarrow> foreign_key rd" where
  "get_fk version ncols =
     (if version \<le> 5 then
        rd_bind (rd_below ncols ''columna de FK fuera de rango'') (\<lambda>column. rd_bind rd_action (\<lambda>on_delete.
        rd_bind (rd_str ''nombre de padre de FK no UTF-8'') (\<lambda>parent.
          rd_ret \<lparr>fk_columns = [column], fk_parent = parent, fk_parent_columns = [], fk_on_delete = on_delete, fk_on_update = Restrict\<rparr>)))
      else
        rd_bind rd_usize (\<lambda>n. rd_bind (dec_many (rd_below ncols ''columna de FK fuera de rango'') n) (\<lambda>cols.
        rd_bind rd_action (\<lambda>on_delete. rd_bind rd_action (\<lambda>on_update.
        rd_bind (rd_str ''nombre de padre de FK no UTF-8'') (\<lambda>parent.
        rd_bind rd_usize (\<lambda>nparent. rd_bind (dec_many rd_usize nparent) (\<lambda>parent_columns.
          rd_ret \<lparr>fk_columns = cols, fk_parent = parent, fk_parent_columns = parent_columns, fk_on_delete = on_delete,
            fk_on_update = on_update\<rparr>))))))))"

definition get_fts :: "nat \<Rightarrow> fts_index_def rd" where
  "get_fts ncols =
     rd_bind rd_u32 (\<lambda>ftid. rd_bind rd_usize (\<lambda>icols.
     if icols = 0 \<or> MAX_COLUMNS < icols then rd_lift (Inl (bad ''numero de columnas de indice FTS invalido''))
     else rd_bind (dec_many (rd_below ncols ''columna de indice FTS fuera de rango'') icols) (\<lambda>cols.
       rd_bind (rd_str ''nombre de indice FTS no UTF-8'') (\<lambda>name.
       rd_bind (rd_str ''nombre de tokenizer no UTF-8'') (\<lambda>tokenizer.
         rd_ret \<lparr>ft_name = name, ft_id = ftid, ft_columns = cols, ft_tokenizer = tokenizer\<rparr>)))))"

definition get_vector :: "u8 \<Rightarrow> nat \<Rightarrow> vector_index_def rd" where
  "get_vector version ncols =
     rd_bind rd_u32 (\<lambda>viid. rd_bind (rd_below ncols ''columna de indice vectorial fuera de rango'') (\<lambda>column.
     rd_bind rd_usize (\<lambda>lists. rd_bind rd_u8 (\<lambda>m.
     rd_bind (rd_lift (ok_or (metric_from_u8 m) (bad ''metrica vectorial desconocida''))) (\<lambda>metric.
     rd_bind rd_u32 (\<lambda>dim. rd_bind rd_usize (\<lambda>nprobe.
     rd_bind (rd_str ''nombre de indice vectorial no UTF-8'') (\<lambda>name.
     rd_bind (if 10 \<le> version then rd_bind rd_u8 (\<lambda>b. rd_ret (b \<noteq> 0)) else rd_ret False) (\<lambda>rerank.
       rd_ret \<lparr>vi_name = name, vi_id = viid, vi_column = column, vi_lists = of_nat lists, vi_metric = metric, vi_dim = dim,
         vi_nprobe = of_nat nprobe, vi_rerank_i8 = rerank\<rparr>)))))))))"

text \<open>A counted list that versions before \<open>since\<close> do not have.\<close>

definition rd_since :: "u8 \<Rightarrow> u8 \<Rightarrow> 'a rd \<Rightarrow> 'a list rd" where
  "rd_since version since m = (if since \<le> version then rd_bind rd_usize (\<lambda>n. dec_many m n) else rd_ret [])"

definition decode_def :: "bytes \<Rightarrow> bytes \<Rightarrow> table_def res" where
  "decode_def name buf =
     rbind (rd_u8 buf 0) (\<lambda>(version, pos).
     if \<not> (2 \<le> version \<and> version \<le> 10) then Inl (bad ''version de esquema desconocida'')
     else rbind (rd_u32 buf pos) (\<lambda>(table_id, pos).
     rbind (rd_u8 buf pos) (\<lambda>(alias, pos).
     rbind (rd_usize buf pos) (\<lambda>(ncols, pos).
     if MAX_COLUMNS < ncols then Inl (bad ''demasiadas columnas'')
     else rbind (dec_many (get_column version) ncols buf pos) (\<lambda>(columns, pos).
     rbind (rd_usize buf pos) (\<lambda>(nidx, pos).
     rbind (dec_many (get_index ncols) nidx buf pos) (\<lambda>(indexes, pos).
     rbind (get_order version ncols buf pos) (\<lambda>(order, pos).
     rbind (rd_since version 4 (get_fk version ncols) buf pos) (\<lambda>(fks, pos).
     rbind (rd_since version 7 (rd_str ''texto de CHECK no UTF-8'') buf pos) (\<lambda>(checks, pos).
     rbind (rd_since version 8 (get_fts ncols) buf pos) (\<lambda>(fts, pos).
     rbind (rd_since version 9 (get_vector version ncols) buf pos) (\<lambda>(vecs, pos).
     if pos \<noteq> length buf then Inl (bad ''bytes sobrantes tras el esquema'')
     else let rowid_alias = (if alias \<noteq> NO_ALIAS then Some (unat alias) else None) in
       if (case rowid_alias of None \<Rightarrow> False | Some i \<Rightarrow> ncols \<le> i) then Inl (bad ''alias de rowid fuera de rango'')
       else Inr \<lparr>td_name = name, td_table_id = table_id, td_rowid_alias = rowid_alias, td_columns = columns, td_indexes = indexes,
         td_fts_indexes = fts, td_vector_indexes = vecs, td_logical_order = order, td_foreign_keys = fks, td_checks = checks\<rparr>))))))))))))"

section \<open>Triggers\<close>

definition TRIGGER_FMT_V2 :: u8 where "TRIGGER_FMT_V2 = 0xF1"

definition encode_trigger :: "trigger_def \<Rightarrow> bytes" where
  "encode_trigger t = [TRIGGER_FMT_V2, timing_u8 (tr_timing t), event_u8 (tr_event t), for_each_u8 (tr_for_each t)] @
     put_str (tr_table t) @ tr_body t"

definition decode_trigger :: "bytes \<Rightarrow> bytes \<Rightarrow> trigger_def res" where
  "decode_trigger name buf =
     (let b = bad ''trigger mal formado'' in
      rbind (if get_at buf 0 = Some TRIGGER_FMT_V2 then
               rbind (ok_or (get_at buf 3) b) (\<lambda>f. rbind (ok_or (for_each_from_u8 f) b) (\<lambda>for_each. Inr (1 :: nat, for_each)))
             else Inr (0, EachRow)) (\<lambda>(timing_at, for_each).
      rbind (ok_or (get_at buf timing_at) b) (\<lambda>t. rbind (ok_or (timing_from_u8 t) b) (\<lambda>timing.
      rbind (ok_or (get_at buf (timing_at + 1)) b) (\<lambda>e. rbind (ok_or (event_from_u8 e) b) (\<lambda>event.
      let pos = timing_at + 2 + (if timing_at = 1 then 1 else 0) in
      rbind (ok_or (take_varint buf pos) b) (\<lambda>(tlen, pos).
      rbind (ok_or (get_range buf pos (usize_add pos (unat tlen))) b) (\<lambda>table.
      if \<not> valid_utf8 table then Inl b
      else let pos = pos + unat tlen in
        rbind (ok_or (get_range buf pos (length buf)) b) (\<lambda>body.
        if \<not> valid_utf8 body then Inl b
        else Inr \<lparr>tr_name = name, tr_timing = timing, tr_event = event, tr_for_each = for_each, tr_table = table,
          tr_body = body\<rparr>)))))))))"

end
