(* ===== verification/SchemaLaws.thy ===== *)
theory SchemaLaws
  imports Schema
begin

text \<open>
  The catalog's codecs.  \<open>reads m s x\<close>: wherever the bytes \<open>s\<close> stand, the reader \<open>m\<close> gives \<open>x\<close> and stops behind them.
  The relation composes along \<open>rd_bind\<close>, so each record's law is one rule application per field.
\<close>

section \<open>Readers\<close>

definition reads :: "'a rd \<Rightarrow> bytes \<Rightarrow> 'a \<Rightarrow> bool" where
  "reads m s x \<longleftrightarrow> (\<forall>buf p. length buf < 2 ^ 64 \<longrightarrow> at_pos buf p s \<longrightarrow> m buf p = Inr (x, p + length s))"

lemma readsI: "(\<And>buf p. length buf < 2 ^ 64 \<Longrightarrow> at_pos buf p s \<Longrightarrow> m buf p = Inr (x, p + length s)) \<Longrightarrow> reads m s x"
  by (simp add: reads_def)

lemma readsD: "reads m s x \<Longrightarrow> length buf < 2 ^ 64 \<Longrightarrow> at_pos buf p s \<Longrightarrow> m buf p = Inr (x, p + length s)"
  by (simp add: reads_def)

lemma reads_ret: "reads (rd_ret x) [] x"
  by (rule readsI) (simp add: rd_ret_def)

lemma reads_bind: "reads m s x \<Longrightarrow> reads (f x) t y \<Longrightarrow> reads (rd_bind m f) (s @ t) y"
  by (rule readsI) (auto simp: rd_bind_def at_pos_append readsD add.assoc)

lemma reads_bind_Nil: "reads m [] x \<Longrightarrow> reads (f x) t y \<Longrightarrow> reads (rd_bind m f) t y"
  using reads_bind [of m "[]" x f t y] by simp

lemma reads_bind0: "reads m s x \<Longrightarrow> reads (f x) [] y \<Longrightarrow> reads (rd_bind m f) s y"
  using reads_bind [of m s x f "[]" y] by simp

lemma reads_last: "reads m s x \<Longrightarrow> reads (rd_bind m (\<lambda>x. rd_ret (f x))) s (f x)"
  by (erule reads_bind0) (rule reads_ret)

lemma reads_lift: "r = Inr x \<Longrightarrow> reads (rd_lift r) [] x"
  by (rule readsI) (simp add: rd_lift_def)

lemma reads_take: "length s = n \<Longrightarrow> reads (rd_take n) s s"
proof (rule readsI)
  fix buf :: bytes and p
  assume a: "length s = n" "length buf < 2 ^ 64" "at_pos buf p s"
  have "usize_add p n = p + n" using a at_pos_le [OF a(3)] by (simp add: usize_add_def)
  then show "rd_take n buf p = Inr (s, p + length s)" using at_pos_range [OF a(3)] a(1) by (simp add: rd_take_def)
qed

lemma reads_u8: "reads rd_u8 [b] b"
  unfolding rd_u8_def using reads_last [OF reads_take [of "[b]" 1], of hd] by simp

lemma reads_u32: "reads rd_u32 (u32_le w) w"
proof -
  have "reads rd_u32 (u32_le w) (of_nat (le_val (u32_le w)))"
    unfolding rd_u32_def by (rule reads_last [OF reads_take, of "u32_le w" 4 "\<lambda>s. of_nat (le_val s)"]) simp
  then show ?thesis by (simp add: le_val_u32_le)
qed

lemma reads_usize: "n < 2 ^ 64 \<Longrightarrow> reads rd_usize (put_usize n) n"
  by (rule readsI) (simp add: rd_usize_def put_usize_def codec_simps unat_of_nat_u64)

lemma reads_str: "length s < 2 ^ 64 \<Longrightarrow> valid_utf8 s \<Longrightarrow> reads (rd_str reason) (put_str s) s"
  unfolding rd_str_def put_str_def by (rule reads_bind [OF reads_usize], simp, rule reads_bind0 [OF reads_take [OF refl]], simp add: reads_ret)

lemma reads_below: "c < n \<Longrightarrow> c < 2 ^ 64 \<Longrightarrow> reads (rd_below n reason) (put_usize c) c"
  unfolding rd_below_def by (rule reads_bind0 [OF reads_usize], simp, simp add: reads_ret)

lemma reads_eq: "reads m s x \<Longrightarrow> x = y \<Longrightarrow> reads m s y"
  by simp

lemma reads_flag: "reads (rd_bind rd_u8 (\<lambda>b. rd_ret (b \<noteq> 0))) (flag b) b"
  unfolding flag_def by (rule reads_eq, rule reads_bind0, rule reads_u8, rule reads_ret, simp)

lemma reads_many: "(\<And>x. x \<in> set xs \<Longrightarrow> reads m (enc x) x) \<Longrightarrow> reads (dec_many m (length xs)) (concat (map enc xs)) xs"
proof (induction xs)
  case (Cons x xs)
  have IH: "reads (dec_many m (length xs)) (concat (map enc xs)) xs" using Cons by simp
  have x: "reads m (enc x) x" using Cons.prems by simp
  show ?case
    by (rule readsI) (simp add: at_pos_append readsD [OF x] readsD [OF IH] add.assoc)
qed (simp add: reads_def)

lemma reads_list: "length xs < 2 ^ 64 \<Longrightarrow> (\<And>x. x \<in> set xs \<Longrightarrow> reads m (enc x) x) \<Longrightarrow>
  reads (rd_bind rd_usize (\<lambda>n. dec_many m n)) (put_list enc xs) xs"
  unfolding put_list_def by (rule reads_bind [OF reads_usize], assumption, rule reads_many)

section \<open>Well-formed definitions\<close>

definition str_ok :: "bytes \<Rightarrow> bool" where "str_ok s \<longleftrightarrow> valid_utf8 s \<and> length s < 2 ^ 64"

definition cols_ok :: "nat \<Rightarrow> nat list \<Rightarrow> bool" where
  "cols_ok n cols \<longleftrightarrow> cols \<noteq> [] \<and> length cols \<le> MAX_COLUMNS \<and> (\<forall>c \<in> set cols. c < n)"

definition column_ok :: "column_def \<Rightarrow> bool" where
  "column_ok c \<longleftrightarrow> str_ok (cd_name c) \<and> (\<forall>v. cd_default c = Some v \<longrightarrow> value_ok v \<and> length (encode_values [v]) < 2 ^ 64)"

definition index_ok :: "nat \<Rightarrow> index_def \<Rightarrow> bool" where
  "index_ok n x \<longleftrightarrow> str_ok (ix_name x) \<and> cols_ok n (ix_columns x)"

definition fk_ok :: "nat \<Rightarrow> foreign_key \<Rightarrow> bool" where
  "fk_ok n x \<longleftrightarrow> str_ok (fk_parent x) \<and> length (fk_columns x) < 2 ^ 64 \<and> (\<forall>c \<in> set (fk_columns x). c < n) \<and>
     length (fk_parent_columns x) < 2 ^ 64 \<and> (\<forall>c \<in> set (fk_parent_columns x). c < 2 ^ 64)"

definition fts_ok :: "nat \<Rightarrow> fts_index_def \<Rightarrow> bool" where
  "fts_ok n x \<longleftrightarrow> str_ok (ft_name x) \<and> str_ok (ft_tokenizer x) \<and> cols_ok n (ft_columns x)"

definition vector_ok :: "nat \<Rightarrow> vector_index_def \<Rightarrow> bool" where
  "vector_ok n x \<longleftrightarrow> str_ok (vi_name x) \<and> vi_column x < n"

definition table_ok :: "table_def \<Rightarrow> bool" where
  "table_ok d \<longleftrightarrow> (let n = length (td_columns d) in
     n \<le> MAX_COLUMNS \<and> list_all column_ok (td_columns d) \<and>
     list_all (index_ok n) (td_indexes d) \<and> length (td_indexes d) < 2 ^ 64 \<and>
     list_all (fk_ok n) (td_foreign_keys d) \<and> length (td_foreign_keys d) < 2 ^ 64 \<and>
     list_all str_ok (td_checks d) \<and> length (td_checks d) < 2 ^ 64 \<and>
     list_all (fts_ok n) (td_fts_indexes d) \<and> length (td_fts_indexes d) < 2 ^ 64 \<and>
     list_all (vector_ok n) (td_vector_indexes d) \<and> length (td_vector_indexes d) < 2 ^ 64 \<and>
     is_permutation (td_logical_order d) n \<and> (\<forall>i. td_rowid_alias d = Some i \<longrightarrow> i < n))"

section \<open>The codecs of the parts\<close>

lemma enums [simp]: "col_type_from_u8 (col_type_u8 t) = Some t" "fk_action_from_u8 (fk_action_u8 a) = Some a"
  "metric_from_u8 (metric_u8 m) = Some m" "timing_from_u8 (timing_u8 tm) = Some tm" "event_from_u8 (event_u8 ev) = Some ev"
  "for_each_from_u8 (for_each_u8 fe) = Some fe"
  unfolding col_type_from_u8_def col_type_u8_def fk_action_from_u8_def fk_action_u8_def metric_from_u8_def metric_u8_def
    timing_from_u8_def timing_u8_def event_from_u8_def event_u8_def for_each_from_u8_def for_each_u8_def
  by (cases t, simp_all) (cases a, simp_all, cases m, simp_all, cases tm, simp_all, cases ev, simp_all, cases fe, simp_all)

lemma str_okD: "str_ok s \<Longrightarrow> reads (rd_str reason) (put_str s) s"
  by (simp add: str_ok_def reads_str)

lemma reads_Cons: "reads m [b] x \<Longrightarrow> reads (f x) t y \<Longrightarrow> reads (rd_bind m f) (b # t) y"
  using reads_bind [of m "[b]" x f t y] by simp

lemma reads_default:
  assumes "\<forall>v. d = Some v \<longrightarrow> value_ok v \<and> length (encode_values [v]) < 2 ^ 64" and k: "reads (f d) t y"
  shows "reads (rd_bind rd_u8 (\<lambda>marker. rd_bind (if marker = 0 then rd_ret None
      else if marker = 1 then
        rd_bind rd_usize (\<lambda>dlen. rd_bind (rd_take dlen) (\<lambda>s. rd_bind (rd_lift (decode_values s)) (\<lambda>values.
          case values of [] \<Rightarrow> rd_lift (Inl e1) | v # _ \<Rightarrow> rd_ret (Some v))))
      else rd_lift (Inl e2)) f)) ((case d of None \<Rightarrow> [0] | Some v \<Rightarrow> 1 # put_str (encode_values [v])) @ t) y"
proof (cases d)
  case None
  show ?thesis unfolding None option.case append_Cons append_Nil
    by (rule reads_Cons [OF reads_u8], simp, rule reads_bind_Nil [OF reads_ret], simp add: k [unfolded None])
next
  case (Some v)
  let ?e = "encode_values [v]"
  have v: "value_ok v" "length ?e < 2 ^ 64" using assms Some by blast+
  have dec: "decode_values ?e = Inr [v]" using v(1) by (intro decode_values_encode) simp_all
  have l: "reads (rd_bind (rd_lift (decode_values ?e)) (\<lambda>values. case values of [] \<Rightarrow> rd_lift (Inl e1) | v # _ \<Rightarrow> rd_ret (Some v))) [] (Some v)"
    by (rule reads_bind_Nil [OF reads_lift [OF dec]]) (simp add: reads_ret)
  have r: "reads (rd_bind rd_usize (\<lambda>dlen. rd_bind (rd_take dlen) (\<lambda>s. rd_bind (rd_lift (decode_values s)) (\<lambda>values.
          case values of [] \<Rightarrow> rd_lift (Inl e1) | v # _ \<Rightarrow> rd_ret (Some v))))) (put_str ?e) (Some v)"
    unfolding put_str_def by (rule reads_bind [OF reads_usize [OF v(2)]], rule reads_bind0 [OF reads_take [OF refl]], rule l)
  show ?thesis unfolding Some option.case append_Cons
    by (rule reads_Cons [OF reads_u8], simp, rule reads_bind, rule r, simp add: k [unfolded Some])
qed

lemma SCHEMA_5: "5 \<le> SCHEMA_VERSION" "3 \<le> SCHEMA_VERSION" "10 \<le> SCHEMA_VERSION" "\<not> SCHEMA_VERSION \<le> 5"
  "4 \<le> SCHEMA_VERSION" "7 \<le> SCHEMA_VERSION" "8 \<le> SCHEMA_VERSION" "9 \<le> SCHEMA_VERSION" "2 \<le> SCHEMA_VERSION" "SCHEMA_VERSION \<le> 10"
  by (simp_all add: SCHEMA_VERSION_def)

lemma reads_column: "column_ok c \<Longrightarrow> reads (get_column SCHEMA_VERSION) (put_column c) c"
  unfolding get_column_def put_column_def column_ok_def append_assoc
  apply (simp only: SCHEMA_5 if_True)
  apply (rule reads_bind [OF str_okD], simp)
  apply (simp only: append_Cons append_Nil)
  apply (rule reads_Cons [OF reads_u8])
  apply (rule reads_bind_Nil [OF reads_lift], simp)
  apply (simp only: flag_def append_Cons append_Nil)
  apply (rule reads_Cons [OF reads_u8])
  apply (rule reads_default, simp)
  apply (rule reads_bind0 [OF reads_flag [unfolded flag_def]])
  by (cases c) (simp add: reads_ret)

lemma cols_okD:
  assumes "cols_ok n cols" "n \<le> MAX_COLUMNS"
  shows "length cols < 2 ^ 64" "length cols \<noteq> 0" "\<not> MAX_COLUMNS < length cols"
    "reads (dec_many (rd_below n reason) (length cols)) (concat (map put_usize cols)) cols"
proof -
  show "length cols < 2 ^ 64" "length cols \<noteq> 0" "\<not> MAX_COLUMNS < length cols" using assms by (auto simp: cols_ok_def MAX_COLUMNS_def)
  show "reads (dec_many (rd_below n reason) (length cols)) (concat (map put_usize cols)) cols"
    using assms by (intro reads_many reads_below) (auto simp: cols_ok_def MAX_COLUMNS_def)
qed

lemma reads_index:
  assumes "index_ok n x" "n \<le> MAX_COLUMNS"
  shows "reads (get_index n) (put_index x) x"
proof -
  have s: "str_ok (ix_name x)" and c: "cols_ok n (ix_columns x)" using assms(1) by (simp_all add: index_ok_def)
  note C = cols_okD [OF c assms(2)]
  show ?thesis
    unfolding get_index_def put_index_def put_list_def append_assoc flag_def append_Cons append_Nil
    apply (rule reads_bind [OF reads_u32], rule reads_Cons [OF reads_u8], rule reads_bind [OF reads_usize [OF C(1)]])
    apply (simp only: C(2,3) simp_thms if_False)
    apply (rule reads_bind [OF C(4)], rule reads_bind0 [OF str_okD [OF s]])
    by (cases x) (simp add: reads_ret)
qed

lemma reads_action: "reads rd_action [fk_action_u8 a] a"
  unfolding rd_action_def by (rule reads_bind0 [OF reads_u8], rule reads_lift, simp)

lemma reads_fk:
  assumes "fk_ok n x" "n \<le> MAX_COLUMNS"
  shows "reads (get_fk SCHEMA_VERSION n) (put_fk x) x"
proof -
  have s: "str_ok (fk_parent x)" and l: "length (fk_columns x) < 2 ^ 64" "length (fk_parent_columns x) < 2 ^ 64"
    using assms(1) by (simp_all add: fk_ok_def)
  have c: "reads (dec_many (rd_below n reason) (length (fk_columns x))) (concat (map put_usize (fk_columns x))) (fk_columns x)" for reason
    using assms by (intro reads_many reads_below) (auto simp: fk_ok_def MAX_COLUMNS_def)
  have p: "reads (dec_many rd_usize (length (fk_parent_columns x))) (concat (map put_usize (fk_parent_columns x))) (fk_parent_columns x)"
    using assms by (intro reads_many reads_usize) (auto simp: fk_ok_def)
  show ?thesis
    unfolding get_fk_def put_fk_def put_list_def append_assoc append_Cons append_Nil
    apply (simp only: SCHEMA_5 if_False)
    apply (rule reads_bind [OF reads_usize [OF l(1)]], rule reads_bind [OF c], rule reads_Cons [OF reads_action])
    apply (rule reads_Cons [OF reads_action], rule reads_bind [OF str_okD [OF s]], rule reads_bind [OF reads_usize [OF l(2)]])
    apply (rule reads_bind0 [OF p])
    by (cases x) (simp add: reads_ret)
qed

lemma reads_fts:
  assumes "fts_ok n x" "n \<le> MAX_COLUMNS"
  shows "reads (get_fts n) (put_fts x) x"
proof -
  have s: "str_ok (ft_name x)" "str_ok (ft_tokenizer x)" and c: "cols_ok n (ft_columns x)" using assms(1) by (simp_all add: fts_ok_def)
  note C = cols_okD [OF c assms(2)]
  show ?thesis
    unfolding get_fts_def put_fts_def put_list_def append_assoc
    apply (rule reads_bind [OF reads_u32], rule reads_bind [OF reads_usize [OF C(1)]])
    apply (simp only: C(2,3) simp_thms if_False)
    apply (rule reads_bind [OF C(4)], rule reads_bind [OF str_okD [OF s(1)]], rule reads_bind0 [OF str_okD [OF s(2)]])
    by (cases x) (simp add: reads_ret)
qed

lemma u16_bound: "unat (w :: u16) < 2 ^ 64"
  using unat_u16_less [of w] by simp

lemma reads_vector:
  assumes "vector_ok n x" "n \<le> MAX_COLUMNS"
  shows "reads (get_vector SCHEMA_VERSION n) (put_vector x) x"
proof -
  have s: "str_ok (vi_name x)" and c: "vi_column x < n" "vi_column x < 2 ^ 64"
    using assms by (simp_all add: vector_ok_def MAX_COLUMNS_def)
  show ?thesis
    unfolding get_vector_def put_vector_def append_assoc append_Cons append_Nil
    apply (simp only: SCHEMA_5 if_True)
    apply (rule reads_bind [OF reads_u32], rule reads_bind [OF reads_below [OF c]], rule reads_bind [OF reads_usize [OF u16_bound]])
    apply (rule reads_Cons [OF reads_u8], rule reads_bind_Nil [OF reads_lift], simp)
    apply (rule reads_bind [OF reads_u32], rule reads_bind [OF reads_usize [OF u16_bound]], rule reads_bind [OF str_okD [OF s]])
    apply (rule reads_bind0 [OF reads_flag])
    by (cases x) (simp add: reads_ret)
qed

lemma reads_order:
  assumes "is_permutation order n" "n \<le> MAX_COLUMNS"
  shows "reads (get_order SCHEMA_VERSION n) (put_order order) order"
proof -
  have l: "length order = n" "\<And>p. p \<in> set order \<Longrightarrow> p < 2 ^ 64" using assms by (auto simp: is_permutation_def MAX_COLUMNS_def)
  show ?thesis
  proof (cases "order = [0..<length order]")
    case True
    then have e: "put_order order = [0]" "[0..<n] = order" using l(1) by (simp_all add: put_order_def)
    show ?thesis unfolding get_order_def e
      by (simp only: SCHEMA_5 if_True, rule reads_bind0 [OF reads_u8], simp add: e reads_ret)
  next
    case False
    then have e: "put_order order = 1 # concat (map put_usize order)" by (simp add: put_order_def)
    have m: "reads (dec_many rd_usize n) (concat (map put_usize order)) order" using reads_many [of order rd_usize put_usize] l reads_usize by simp
    show ?thesis unfolding get_order_def e
      by (simp only: SCHEMA_5 if_True, rule reads_Cons [OF reads_u8], simp, rule reads_bind0 [OF m], simp add: assms(1) reads_ret)
  qed
qed

lemma reads_since:
  assumes "since \<le> version" "length xs < 2 ^ 64" "\<And>x. x \<in> set xs \<Longrightarrow> reads m (enc x) x"
  shows "reads (rd_since version since m) (put_list enc xs) xs"
  using reads_list [OF assms(2,3)] assms(1) by (simp add: rd_since_def)

section \<open>The round trip\<close>

lemma decode_def_encode:
  assumes ok: "table_ok d" and len: "length (encode_def d) < 2 ^ 64"
  shows "decode_def (td_name d) (encode_def d) = Inr d"
proof -
  let ?n = "length (td_columns d)" and ?v = SCHEMA_VERSION and ?b = "encode_def d"
  note O = ok [unfolded table_ok_def Let_def list_all_iff]
  have n: "?n \<le> MAX_COLUMNS" "?n < 2 ^ 64" using O by (auto simp: MAX_COLUMNS_def)
  let ?al = "case td_rowid_alias d of None \<Rightarrow> NO_ALIAS | Some i \<Rightarrow> of_nat i"
  let ?s = "[[?v], u32_le (td_table_id d), [?al], put_usize ?n, concat (map put_column (td_columns d)),
    put_usize (length (td_indexes d)), concat (map put_index (td_indexes d)), put_order (td_logical_order d),
    put_list put_fk (td_foreign_keys d), put_list put_str (td_checks d), put_list put_fts (td_fts_indexes d), put_list put_vector (td_vector_indexes d)]"
  have b: "?b = concat ?s" by (simp add: encode_def_def put_list_def)
  have at: "at_pos ?b 0 (concat ?s)" unfolding b by (rule at_pos_self)
  have R: "reads rd_u8 [?v] ?v" "reads rd_u32 (u32_le (td_table_id d)) (td_table_id d)" "reads rd_u8 [?al] ?al"
    "reads rd_usize (put_usize ?n) ?n" "reads (dec_many (get_column ?v) ?n) (concat (map put_column (td_columns d))) (td_columns d)"
    "reads rd_usize (put_usize (length (td_indexes d))) (length (td_indexes d))"
    "reads (dec_many (get_index ?n) (length (td_indexes d))) (concat (map put_index (td_indexes d))) (td_indexes d)"
    "reads (get_order ?v ?n) (put_order (td_logical_order d)) (td_logical_order d)"
    "reads (rd_since ?v 4 (get_fk ?v ?n)) (put_list put_fk (td_foreign_keys d)) (td_foreign_keys d)"
    "reads (rd_since ?v 7 (rd_str r)) (put_list put_str (td_checks d)) (td_checks d)"
    "reads (rd_since ?v 8 (get_fts ?n)) (put_list put_fts (td_fts_indexes d)) (td_fts_indexes d)"
    "reads (rd_since ?v 9 (get_vector ?v ?n)) (put_list put_vector (td_vector_indexes d)) (td_vector_indexes d)" for r
    using O n by (auto intro!: reads_u8 reads_u32 reads_usize reads_many reads_column reads_index reads_order reads_since reads_fk
        reads_fts reads_vector str_okD SCHEMA_5)
  note [simp] = R [THEN readsD, OF len]
  have al: "(case td_rowid_alias d of None \<Rightarrow> False | Some i \<Rightarrow> ?n \<le> i) = False"
    "(if ?al \<noteq> NO_ALIAS then Some (unat ?al) else None) = td_rowid_alias d"
  proof -
    have i: "i < 255" if "td_rowid_alias d = Some i" for i using O n(1) that by (auto simp: MAX_COLUMNS_def)
    show "(case td_rowid_alias d of None \<Rightarrow> False | Some i \<Rightarrow> ?n \<le> i) = False" using O by (auto split: option.splits)
    show "(if ?al \<noteq> NO_ALIAS then Some (unat ?al) else None) = td_rowid_alias d"
    proof (cases "td_rowid_alias d")
      case (Some i)
      then have "unat (of_nat i :: u8) = i" using i by (simp add: unat_of_nat)
      then show ?thesis using Some i [OF Some] by (auto simp: NO_ALIAS_def)
    qed simp
  qed
  have "length (concat ?s) = length ?b" by (simp only: b)
  then show ?thesis
    using at al n(1) SCHEMA_5(9,10)
    by (simp only: decode_def_def at_pos_append concat.simps) (simp add: Let_def add.assoc)
qed

section \<open>Triggers\<close>

lemma at_pos_suffix: "at_pos buf p s \<Longrightarrow> p + length s = length buf \<Longrightarrow> get_range buf p (length buf) = Some s"
  by (metis at_pos_range)

lemma at_pos_at: "buf = pre @ s @ rest \<Longrightarrow> length pre = n \<Longrightarrow> at_pos buf n s"
  by auto

lemma decode_trigger_encode:
  assumes "str_ok (tr_table t)" "valid_utf8 (tr_body t)" "length (encode_trigger t) < 2 ^ 64"
  shows "decode_trigger (tr_name t) (encode_trigger t) = Inr t"
proof -
  let ?h = "[TRIGGER_FMT_V2, timing_u8 (tr_timing t), event_u8 (tr_event t), for_each_u8 (tr_for_each t)]"
  let ?l = "put_usize (length (tr_table t))" and ?b = "encode_trigger t"
  have b: "?b = ?h @ ?l @ tr_table t @ tr_body t" by (simp add: encode_trigger_def put_str_def)
  have g: "get_at ?b 0 = Some TRIGGER_FMT_V2" "get_at ?b 3 = Some (for_each_u8 (tr_for_each t))"
    "get_at ?b 1 = Some (timing_u8 (tr_timing t))" "get_at ?b (Suc 1) = Some (event_u8 (tr_event t))"
    unfolding b by (simp_all add: get_at_def)
  have a: "at_pos ?b 4 ?l" "at_pos ?b (4 + length ?l) (tr_table t)" "at_pos ?b (4 + length ?l + length (tr_table t)) (tr_body t)"
    by (rule at_pos_at [OF b], simp, rule at_pos_at [of _ "?h @ ?l" _ "tr_body t"], simp add: b, simp,
        rule at_pos_at [of _ "?h @ ?l @ tr_table t" _ "[]"], simp add: b, simp)
  have n: "length (tr_table t) < 2 ^ 64" "valid_utf8 (tr_table t)" using assms(1) by (simp_all add: str_ok_def)
  have v: "take_varint ?b 4 = Some (of_nat (length (tr_table t)), 4 + length ?l)"
    using a(1) by (simp add: put_usize_def take_varint_put)
  have u: "unat (of_nat (length (tr_table t)) :: u64) = length (tr_table t)" using n(1) by (rule unat_of_nat_u64)
  have w: "usize_add (4 + length ?l) (length (tr_table t)) = 4 + length ?l + length (tr_table t)"
    using at_pos_le [OF a(2)] assms(3) by (simp add: usize_add_def)
  have lb: "length ?b = 4 + length ?l + length (tr_table t) + length (tr_body t)" unfolding b by simp
  note r = at_pos_range [OF a(2)] at_pos_suffix [OF a(3) lb [symmetric]]
  show ?thesis
    using n(2) assms(2) by (simp add: decode_trigger_def Let_def g [simplified] v u w r del: add_2_eq_Suc add_2_eq_Suc')
qed

text \<open>A record of the first version, which had no granularity.\<close>

lemma decode_trigger_v1:
  assumes "str_ok table" "valid_utf8 body" "length (put_str table @ body) + 2 < 2 ^ 64" "tm \<noteq> TimingInsteadOf"
  shows "decode_trigger name ([timing_u8 tm, event_u8 ev] @ put_str table @ body) =
    Inr \<lparr>tr_name = name, tr_timing = tm, tr_event = ev, tr_for_each = EachRow, tr_table = table, tr_body = body\<rparr>"
proof -
  let ?h = "[timing_u8 tm, event_u8 ev]" and ?l = "put_usize (length table)"
  define b where "b = ?h @ ?l @ table @ body"
  have e: "[timing_u8 tm, event_u8 ev] @ put_str table @ body = b" by (simp add: b_def put_str_def)
  have g: "get_at b 0 = Some (timing_u8 tm)" "get_at b (Suc 0) = Some (event_u8 ev)" by (simp_all add: b_def get_at_def)
  have t: "timing_u8 tm \<noteq> TRIGGER_FMT_V2" by (cases tm) (simp_all add: timing_u8_def TRIGGER_FMT_V2_def)
  have a: "at_pos b 2 ?l" "at_pos b (2 + length ?l) table" "at_pos b (2 + length ?l + length table) body"
    by (rule at_pos_at [OF b_def], simp, rule at_pos_at [of _ "?h @ ?l" _ body], simp add: b_def, simp,
        rule at_pos_at [of _ "?h @ ?l @ table" _ "[]"], simp add: b_def, simp)
  have n: "length table < 2 ^ 64" "valid_utf8 table" using assms(1) by (simp_all add: str_ok_def)
  have v: "take_varint b 2 = Some (of_nat (length table), 2 + length ?l)"
    using a(1) by (simp add: put_usize_def take_varint_put)
  have u: "unat (of_nat (length table) :: u64) = length table" using n(1) by (rule unat_of_nat_u64)
  have lb: "length b = 2 + length ?l + length table + length body" unfolding b_def by simp
  have w: "usize_add (2 + length ?l) (length table) = 2 + length ?l + length table"
    using assms(3) by (simp add: usize_add_def put_str_def)
  note r = at_pos_range [OF a(2)] at_pos_suffix [OF a(3) lb [symmetric]]
  show ?thesis
    unfolding e using n(2) assms(2) t by (simp add: decode_trigger_def Let_def g [simplified] v u w r del: add_2_eq_Suc add_2_eq_Suc')
qed

end
