(* ===== verification/Lexer.thy ===== *)
theory Lexer
  imports Keyenc
begin

text \<open>
  The lexer of SQL (\<^verbatim>\<open>src/sql/lexer.rs\<close>).  The text is its UTF-8 bytes and positions are byte offsets, as in the code.
  A keyword is its upper-case spelling, which names the variant of the code's enum; \<^verbatim>\<open>f64::from_str\<close> is the parameter
  \<open>parse_f64\<close>, from the text of a literal to the bits of the number it denotes.
\<close>

section \<open>Tokens\<close>

type_synonym kw = string

datatype tok =
    TIdent bytes
  | TKw kw
  | TInt u64
  | TFloat u64
  | TStr bytes
  | TBlob bytes
  | TParam nat
  | TNamedParam bytes
  | TEq | TNe | TLt | TLe | TGt | TGe | TPlus | TMinus | TStar | TSlash | TPercent
  | TConcat | TArrow | TArrowArrow | TLParen | TRParen | TComma | TSemi | TDot

definition keyword_list :: "kw list" where
  "keyword_list = [''ADD'', ''AFTER'', ''ALL'', ''ALTER'', ''AND'', ''AS'', ''ASC'', ''BEFORE'', ''BEGIN'', ''BETWEEN'', ''BLOB'', ''BOOLEAN'',
    ''BY'', ''CASCADE'', ''CASE'', ''CAST'', ''CHECK'', ''COLUMN'', ''COLUMNS'', ''COMMIT'', ''CONFLICT'', ''CREATE'', ''CURRENT'',
    ''DEFAULT'', ''DO'', ''DELETE'', ''DESC'', ''DISTINCT'', ''DROP'', ''EACH'', ''ELSE'', ''END'', ''EXCEPT'', ''EXISTS'', ''FALSE'',
    ''FIRST'', ''FOLLOWING'', ''FOR'', ''FOREIGN'', ''FROM'', ''FULLTEXT'', ''GROUP'', ''HAVING'', ''IF'', ''IN'', ''INDEX'', ''INNER'',
    ''INSERT'', ''INSTEAD'', ''INTEGER'', ''INTERSECT'', ''INTO'', ''IS'', ''JOIN'', ''KEY'', ''LEFT'', ''LIKE'', ''LIMIT'', ''LISTS'',
    ''MATCH'', ''MOVE'', ''NOT'', ''NOTHING'', ''NULL'', ''OF'', ''OFFSET'', ''ON'', ''OR'', ''ORDER'', ''OVER'', ''PARTITION'',
    ''PRECEDING'', ''PRIMARY'', ''PROBES'', ''REAL'', ''REBUILD'', ''RECURSIVE'', ''RERANK'', ''REFERENCES'', ''RELEASE'', ''RENAME'',
    ''REORDER'', ''RESTRICT'', ''RETURNING'', ''ROLLBACK'', ''ROW'', ''ROWS'', ''SAVEPOINT'', ''SELECT'', ''SET'', ''STATEMENT'',
    ''TABLE'', ''TEXT'', ''THEN'', ''TIMESTAMP'', ''TO'', ''TRIGGER'', ''TRUE'', ''UNBOUNDED'', ''UNION'', ''UNIQUE'', ''UPDATE'',
    ''USING'', ''VALUES'', ''VECTOR'', ''VERSION'', ''VIEW'', ''WHEN'', ''WHERE'', ''WITH'']"

text \<open>Bytes as characters, for the literals of the code.\<close>

definition chr :: "char \<Rightarrow> u8" where "chr c = of_char c"

definition ascii_bytes :: "string \<Rightarrow> bytes" where "ascii_bytes s = map chr s"

definition is_digit :: "u8 \<Rightarrow> bool" where "is_digit b \<longleftrightarrow> 48 \<le> b \<and> b \<le> 57"
definition is_upper :: "u8 \<Rightarrow> bool" where "is_upper b \<longleftrightarrow> 65 \<le> b \<and> b \<le> 90"
definition is_lower :: "u8 \<Rightarrow> bool" where "is_lower b \<longleftrightarrow> 97 \<le> b \<and> b \<le> 122"
definition is_alpha :: "u8 \<Rightarrow> bool" where "is_alpha b \<longleftrightarrow> is_upper b \<or> is_lower b"
definition is_alnum :: "u8 \<Rightarrow> bool" where "is_alnum b \<longleftrightarrow> is_alpha b \<or> is_digit b"

definition to_upper :: "u8 \<Rightarrow> u8" where "to_upper b = (if is_lower b then b - 32 else b)"

definition to_ascii_uppercase :: "bytes \<Rightarrow> bytes" where "to_ascii_uppercase = map to_upper"

definition keyword :: "bytes \<Rightarrow> kw option" where
  "keyword word = List.find (\<lambda>k. ascii_bytes k = to_ascii_uppercase word) keyword_list"

record spanned =
  sp_tok :: tok
  sp_pos :: nat

definition sql_err :: "nat \<Rightarrow> string \<Rightarrow> error" where "sql_err pos msg = Sql msg (Some pos)"

section \<open>Scanning\<close>

text \<open>The loops \<^verbatim>\<open>while i < bytes.len() && p(bytes[i]) { i += 1 }\<close>: the position behind the run.\<close>

definition run_end :: "(u8 \<Rightarrow> bool) \<Rightarrow> bytes \<Rightarrow> nat \<Rightarrow> nat" where
  "run_end p bytes i = i + length (takeWhile p (drop i bytes))"

definition byte_slice :: "bytes \<Rightarrow> nat \<Rightarrow> nat \<Rightarrow> bytes" where
  "byte_slice bytes a b = take (b - a) (drop a bytes)"

definition digit_value :: "u8 \<Rightarrow> nat" where "digit_value b = unat b - 48"

definition decimal :: "bytes \<Rightarrow> nat" where "decimal ds = foldl (\<lambda>n d. 10 * n + digit_value d) 0 ds"

text \<open>
  The bodies of \<^verbatim>\<open>lex_string\<close> and \<^verbatim>\<open>lex_quoted_ident\<close>, which differ in the quote: the content up to the closing quote,
  doubled quotes undone, whole UTF-8 characters at a time.
\<close>

function lex_quoted :: "u8 \<Rightarrow> error \<Rightarrow> bytes \<Rightarrow> nat \<Rightarrow> bytes \<Rightarrow> (bytes \<times> nat) res" where
  "lex_quoted q open_err bytes i s =
     (case get_at bytes i of
        None \<Rightarrow> Inl open_err
      | Some b \<Rightarrow>
          if b = q \<and> get_at bytes (i + 1) = Some q then lex_quoted q open_err bytes (i + 2) (s @ [q])
          else if b = q then Inr (s, i + 1)
          else (case utf8_next (drop i bytes) of
              None \<Rightarrow> Inl Panic
            | Some (_, n) \<Rightarrow> lex_quoted q open_err bytes (i + n) (s @ byte_slice bytes i (i + n))))"
  by pat_completeness auto
termination
  by (relation "measure (\<lambda>(_, _, bytes, i, _). length bytes - i)") (auto simp: get_at_def dest!: utf8_next_pos split: if_splits)

declare lex_quoted.simps [simp del]

definition lex_string :: "bytes \<Rightarrow> nat \<Rightarrow> (bytes \<times> nat) res" where
  "lex_string sql quote = lex_quoted 39 (sql_err quote ''cadena sin cerrar'') sql (quote + 1) []"

definition lex_quoted_ident :: "bytes \<Rightarrow> nat \<Rightarrow> (bytes \<times> nat) res" where
  "lex_quoted_ident sql quote =
     rbind (lex_quoted 34 (sql_err quote ''identificador entre comillas sin cerrar'') sql (quote + 1) []) (\<lambda>(s, next).
       if s = [] then Inl (sql_err quote ''identificador entre comillas vacio'') else Inr (s, next))"

definition is_hex :: "u8 \<Rightarrow> bool" where
  "is_hex b \<longleftrightarrow> is_digit b \<or> (65 \<le> b \<and> b \<le> 70) \<or> (97 \<le> b \<and> b \<le> 102)"

definition hex_value :: "u8 \<Rightarrow> nat" where
  "hex_value b = (if is_digit b then unat b - 48 else if 97 \<le> b then unat b - 87 else unat b - 55)"

fun hex_pairs :: "bytes \<Rightarrow> bytes" where
  "hex_pairs (a # b # rest) = of_nat (16 * hex_value a + hex_value b) # hex_pairs rest"
| "hex_pairs _ = []"

definition lex_blob :: "bytes \<Rightarrow> nat \<Rightarrow> (tok option \<times> nat) res" where
  "lex_blob sql start =
     rbind (lex_string sql (start + 1)) (\<lambda>(raw, next).
       if length raw mod 2 \<noteq> 0 \<or> \<not> list_all is_hex raw then Inl (sql_err start ''literal de blob invalido'')
       else Inr (Some (TBlob (hex_pairs raw)), next))"

text \<open>A number: digits, a fraction unless a letter follows the dot, an exponent only if it has digits.\<close>

definition fraction_end :: "bytes \<Rightarrow> nat \<Rightarrow> nat \<times> bool" where
  "fraction_end bytes i =
     (if get_at bytes i = Some 46 \<and> \<not> (\<exists>c \<in> set_option (get_at bytes (i + 1)). is_alpha c)
      then (run_end is_digit bytes (i + 1), True) else (i, False))"

definition exponent_end :: "bytes \<Rightarrow> nat \<Rightarrow> nat \<times> bool" where
  "exponent_end bytes i =
     (if get_at bytes i = Some 101 \<or> get_at bytes i = Some 69 then
        let j = (if get_at bytes (i + 1) = Some 43 \<or> get_at bytes (i + 1) = Some 45 then i + 2 else i + 1)
        in if (\<exists>c \<in> set_option (get_at bytes j). is_digit c) then (run_end is_digit bytes (j + 1), True) else (i, False)
      else (i, False))"

definition lex_number :: "(bytes \<Rightarrow> u64 option) \<Rightarrow> bytes \<Rightarrow> nat \<Rightarrow> (tok option \<times> nat) res" where
  "lex_number parse_f64 sql start =
     (let (i, frac) = fraction_end sql (run_end is_digit sql start); (i, ex) = exponent_end sql i; text = byte_slice sql start i in
      if frac \<or> ex then
        (case parse_f64 text of None \<Rightarrow> Inl (sql_err start ''literal real invalido'') | Some f \<Rightarrow> Inr (Some (TFloat f), i))
      else if decimal text < 2 ^ 63 then Inr (Some (TInt (of_nat (decimal text))), i)
      else Inl (sql_err start ''entero fuera de rango (i64)''))"

definition lex_param :: "bytes \<Rightarrow> nat \<Rightarrow> (tok option \<times> nat) res" where
  "lex_param sql start =
     (let i = run_end is_digit sql (start + 1); n = decimal (byte_slice sql (start + 1) i) in
      if i = start + 1 then Inl (sql_err start ''parametro sin numero: usa ?1, ?2'')
      else if 2 ^ 64 \<le> n then Inl (sql_err start ''numero de parametro demasiado grande'')
      else if n = 0 then Inl (sql_err start ''los parametros empiezan en ?1'')
      else Inr (Some (TParam n), i))"

definition lex_named :: "bytes \<Rightarrow> nat \<Rightarrow> (tok option \<times> nat) res" where
  "lex_named sql start =
     (if (\<exists>c \<in> set_option (get_at sql (start + 1)). is_alpha c \<or> c = 95) then
        let i = run_end (\<lambda>c. is_alnum c \<or> c = 95) sql (start + 2) in Inr (Some (TNamedParam (byte_slice sql (start + 1) i)), i)
      else Inl (sql_err start ''parametro nombrado sin nombre: usa :nombre''))"

definition word_tok :: "bytes \<Rightarrow> tok" where
  "word_tok word = (case keyword word of Some k \<Rightarrow> TKw k | None \<Rightarrow> TIdent word)"

definition punct :: "(u8 \<times> tok) list" where
  "punct = [(40, TLParen), (41, TRParen), (44, TComma), (59, TSemi), (46, TDot), (43, TPlus), (45, TMinus), (42, TStar),
     (47, TSlash), (37, TPercent), (61, TEq)]"

text \<open>One turn of the loop: the token that begins at \<open>i\<close>, if it is one, and the position behind it.\<close>

definition lex_step :: "(bytes \<Rightarrow> u64 option) \<Rightarrow> bytes \<Rightarrow> nat \<Rightarrow> (tok option \<times> nat) res" where
  "lex_step parse_f64 sql i =
     (let b = sql ! i; n1 = get_at sql (i + 1) in
      if b \<in> {32, 9, 13, 10} then Inr (None, i + 1)
      else if b = 45 \<and> n1 = Some 45 then Inr (None, run_end (\<lambda>c. c \<noteq> 10) sql i)
      else if b = 45 \<and> n1 = Some 62 then
        (if get_at sql (i + 2) = Some 62 then Inr (Some TArrowArrow, i + 3) else Inr (Some TArrow, i + 2))
      else case map_of punct b of Some t \<Rightarrow> Inr (Some t, i + 1) | None \<Rightarrow>
      if b = 124 \<and> n1 = Some 124 then Inr (Some TConcat, i + 2)
      else if b = 33 \<and> n1 = Some 61 then Inr (Some TNe, i + 2)
      else if b = 60 then
        (if n1 = Some 61 then Inr (Some TLe, i + 2) else if n1 = Some 62 then Inr (Some TNe, i + 2) else Inr (Some TLt, i + 1))
      else if b = 62 then (if n1 = Some 61 then Inr (Some TGe, i + 2) else Inr (Some TGt, i + 1))
      else if b = 63 then lex_param sql i
      else if b = 58 then lex_named sql i
      else if b = 39 then rbind (lex_string sql i) (\<lambda>(s, next). Inr (Some (TStr s), next))
      else if b = 34 then rbind (lex_quoted_ident sql i) (\<lambda>(name, next). Inr (Some (TIdent name), next))
      else if (b = 120 \<or> b = 88) \<and> n1 = Some 39 then lex_blob sql i
      else if is_digit b then lex_number parse_f64 sql i
      else if is_alpha b \<or> b = 95 \<or> 128 \<le> b then
        let j = run_end (\<lambda>c. is_alnum c \<or> c = 95 \<or> 128 \<le> c) sql i in Inr (Some (word_tok (byte_slice sql i j)), j)
      else Inl (sql_err i ''caracter inesperado''))"

section \<open>Every turn advances\<close>

lemma run_end_ge: "i \<le> run_end p bs i" by (simp add: run_end_def)

lemma run_end_le: "i \<le> length bs \<Longrightarrow> run_end p bs i \<le> length bs"
  using length_takeWhile_le [of p "drop i bs"] by (simp add: run_end_def)

lemma run_end_gt: "i < length bs \<Longrightarrow> p (bs ! i) \<Longrightarrow> i < run_end p bs i"
  by (simp add: run_end_def Cons_nth_drop_Suc [symmetric])

lemma lex_quoted_bounds: "lex_quoted q e bs i s = Inr (t, j) \<Longrightarrow> i < j \<and> j \<le> length bs"
proof (induction q e bs i s rule: lex_quoted.induct)
  case (1 q e bs i s)
  obtain b where b: "get_at bs i = Some b" "i < length bs"
    using 1(3) by (subst (asm) lex_quoted.simps) (auto simp: get_at_def split: option.splits if_splits)
  show ?case
  proof (cases "b = q")
    case True
    then show ?thesis
      using 1(1) [OF b(1)] 1(3) b by (subst (asm) lex_quoted.simps) (fastforce split: if_splits)
  next
    case False
    then obtain c n where n: "utf8_next (drop i bs) = Some (c, n)" "lex_quoted q e bs (i + n) (s @ byte_slice bs i (i + n)) = Inr (t, j)"
      using 1(3) b by (subst (asm) lex_quoted.simps) (auto split: option.splits)
    then show ?thesis using 1(2) [OF b(1) _ _ n(1) refl n(2)] False utf8_next_pos [OF n(1)] by auto
  qed
qed

lemma lex_string_bounds: "lex_string sql i = Inr (s, j) \<Longrightarrow> i < j \<and> j \<le> length sql"
  by (auto simp: lex_string_def dest!: lex_quoted_bounds)

lemma lex_quoted_ident_bounds: "lex_quoted_ident sql i = Inr (s, j) \<Longrightarrow> i < j \<and> j \<le> length sql"
  by (auto simp: lex_quoted_ident_def rbind_eq_Inr dest!: lex_quoted_bounds split: if_splits)

lemma fraction_end_bounds: "fraction_end bs i = (j, f) \<Longrightarrow> i \<le> j \<and> (i \<le> length bs \<longrightarrow> j \<le> length bs)"
  using run_end_ge [of "i + 1" is_digit bs] run_end_le [of "i + 1" bs is_digit]
  by (auto simp: fraction_end_def get_at_Some_iff split: if_splits)

lemma exponent_end_bounds: "exponent_end bs i = (j, f) \<Longrightarrow> i \<le> j \<and> (i \<le> length bs \<longrightarrow> j \<le> length bs)"
  using run_end_ge [of _ is_digit bs] run_end_le [of _ bs is_digit]
  by (fastforce simp: exponent_end_def Let_def get_at_def split: if_splits dest: Suc_leD)

lemma lex_step_bounds:
  assumes "lex_step pf sql i = Inr (t, j)" "i < length sql"
  shows "i < j \<and> j \<le> length sql"
proof -
  let ?b = "sql ! i"
  have r: "i < run_end p sql i" "run_end p sql i \<le> length sql" if "p ?b" for p
    using run_end_gt [of i sql p] run_end_le [of i sql p] that assms(2) by simp_all
  have num: "i < j \<and> j \<le> length sql" if "lex_number pf sql i = Inr (t, j)" "is_digit ?b"
  proof -
    obtain k f where k: "fraction_end sql (run_end is_digit sql i) = (k, f)" by (cases "fraction_end sql (run_end is_digit sql i)")
    obtain l e where l: "exponent_end sql k = (l, e)" by (cases "exponent_end sql k")
    have "j = l" using that(1) k l by (auto simp: lex_number_def Let_def split: if_splits option.splits)
    then show ?thesis using fraction_end_bounds [OF k] exponent_end_bounds [OF l] r [of is_digit] that(2) by simp
  qed
  have par: "i < j \<and> j \<le> length sql" if "lex_param sql i = Inr (t, j)"
    using that run_end_ge [of "i + 1" is_digit sql] run_end_le [of "i + 1" sql is_digit] assms(2)
    by (auto simp: lex_param_def Let_def split: if_splits)
  have nam: "i < j \<and> j \<le> length sql" if "lex_named sql i = Inr (t, j)"
  proof -
    let ?p = "\<lambda>c. is_alnum c \<or> c = 95"
    have j: "j = run_end ?p sql (i + 2)" "i + 2 \<le> length sql"
      using that by (auto simp: lex_named_def Let_def get_at_def split: if_splits)
    then show ?thesis using run_end_ge [of "i + 2" ?p sql] run_end_le [of "i + 2" sql ?p] by simp
  qed
  have blob: "i < j \<and> j \<le> length sql" if "lex_blob sql i = Inr (t, j)"
    using that lex_string_bounds [of sql "i + 1"] by (auto simp: lex_blob_def rbind_eq_Inr split: if_splits)
  have word: "i < run_end (\<lambda>c. is_alnum c \<or> c = 95 \<or> 128 \<le> c) sql i \<and> run_end (\<lambda>c. is_alnum c \<or> c = 95 \<or> 128 \<le> c) sql i \<le> length sql"
    if "is_alpha ?b \<or> ?b = 95 \<or> 128 \<le> ?b"
    using r [of "\<lambda>c. is_alnum c \<or> c = 95 \<or> 128 \<le> c"] that by (auto simp: is_alnum_def)
  have n2: "get_at sql (i + 1) = Some c \<Longrightarrow> i + 2 \<le> length sql" for c by (auto simp: get_at_def split: if_splits)
  have n3: "get_at sql (i + 2) = Some c \<Longrightarrow> i + 3 \<le> length sql" for c by (auto simp: get_at_def split: if_splits)
  show ?thesis
    using assms(1) unfolding lex_step_def Let_def
    using assms(2) num par nam blob word lex_string_bounds [of sql i] lex_quoted_ident_bounds [of sql i] n2 n3 r [of "\<lambda>c. c \<noteq> 10"]
    by (force simp: rbind_eq_Inr split: if_splits option.splits)
qed

section \<open>The lexer\<close>

function lex_from :: "(bytes \<Rightarrow> u64 option) \<Rightarrow> bytes \<Rightarrow> nat \<Rightarrow> spanned list res" where
  "lex_from parse_f64 sql i =
     (if i < length sql then
        case lex_step parse_f64 sql i of
          Inl e \<Rightarrow> Inl e
        | Inr (t, j) \<Rightarrow> rbind (lex_from parse_f64 sql j) (\<lambda>ts. Inr ((case t of None \<Rightarrow> [] | Some t \<Rightarrow> [\<lparr>sp_tok = t, sp_pos = i\<rparr>]) @ ts))
      else Inr [])"
  by pat_completeness auto
termination by (relation "measure (\<lambda>(_, sql, i). length sql - i)") (auto dest: lex_step_bounds)

declare lex_from.simps [simp del]

definition lex :: "(bytes \<Rightarrow> u64 option) \<Rightarrow> bytes \<Rightarrow> spanned list res" where
  "lex parse_f64 sql = lex_from parse_f64 sql 0"

section \<open>Positions\<close>

lemma lex_from_positions:
  "lex_from pf sql i = Inr ts \<Longrightarrow> i \<le> length sql \<Longrightarrow>
   sorted_wrt (<) (map sp_pos ts) \<and> (\<forall>t \<in> set ts. i \<le> sp_pos t \<and> sp_pos t < length sql)"
proof (induction pf sql i arbitrary: ts rule: lex_from.induct)
  case (1 pf sql i)
  show ?case
  proof (cases "i < length sql")
    case True
    obtain t j us where s: "lex_step pf sql i = Inr (t, j)" "lex_from pf sql j = Inr us"
      "ts = (case t of None \<Rightarrow> [] | Some t \<Rightarrow> [\<lparr>sp_tok = t, sp_pos = i\<rparr>]) @ us"
      using 1(2) True by (subst (asm) lex_from.simps) (auto simp: rbind_eq_Inr split: sum.splits prod.splits)
    note b = lex_step_bounds [OF s(1) True]
    have "sorted_wrt (<) (map sp_pos us) \<and> (\<forall>t \<in> set us. j \<le> sp_pos t \<and> sp_pos t < length sql)"
      using 1(1) [OF True s(1) refl s(2)] b by simp
    then show ?thesis using s(3) b True by (auto split: option.splits)
  next
    case False
    then show ?thesis using 1(2) by (subst (asm) lex_from.simps) simp
  qed
qed

lemma lex_positions:
  "lex pf sql = Inr ts \<Longrightarrow> sorted_wrt (<) (map sp_pos ts) \<and> (\<forall>t \<in> set ts. sp_pos t < length sql)"
  using lex_from_positions [of pf sql 0 ts] by (auto simp: lex_def)

section \<open>Quoted literals\<close>

text \<open>The text with its quotes doubled.\<close>

definition doubled :: "uchar \<Rightarrow> ustr \<Rightarrow> ustr" where
  "doubled q cs = concat (map (\<lambda>c. if c = q then [q, q] else [c]) cs)"

lemma utf8_bytes_append: "utf8_bytes (a @ b) = utf8_bytes a @ utf8_bytes b"
  by (simp add: utf8_bytes_def)

lemma utf8_char_hd: "is_scalar c \<Longrightarrow> hd (utf8_char c) = of_nat q \<Longrightarrow> q < 128 \<Longrightarrow> c = q"
  using utf8_next_char [of c "[]"] by (cases "utf8_char c") (auto simp: utf8_next_def Let_def unat_byte split: if_splits option.splits)

lemma utf8_char_ne: "utf8_char c \<noteq> []"
  by (simp add: utf8_char_def)

lemma lex_quoted_doubled:
  assumes "list_all is_scalar cs" "q < 128" "get_at rest 0 \<noteq> Some (of_nat q)"
  shows "lex_quoted (of_nat q) e (pre @ utf8_bytes (doubled q cs) @ of_nat q # rest) (length pre) s =
    Inr (s @ utf8_bytes cs, length pre + length (utf8_bytes (doubled q cs)) + 1)"
  using assms(1)
proof (induction cs arbitrary: pre s)
  case Nil
  show ?case using assms(3) by (subst lex_quoted.simps) (auto simp: doubled_def utf8_bytes_def get_at_def nth_append)
next
  case (Cons c cs)
  let ?q = "of_nat q :: u8" and ?t = "utf8_bytes (doubled q cs) @ of_nat q # rest"
  have c: "is_scalar c" and cs: "list_all is_scalar cs" using Cons.prems by simp_all
  show ?case
  proof (cases "c = q")
    case True
    have u: "utf8_char q = [?q]" using assms(2) by (simp add: utf8_char_def)
    have t: "pre @ utf8_bytes (doubled q (c # cs)) @ of_nat q # rest = (pre @ [?q, ?q]) @ ?t"
      using True u by (simp add: doubled_def utf8_bytes_def)
    have "lex_quoted ?q e ((pre @ [?q, ?q]) @ ?t) (length pre) s = lex_quoted ?q e ((pre @ [?q, ?q]) @ ?t) (length pre + 2) (s @ [?q])"
      by (subst lex_quoted.simps) (simp add: get_at_def nth_append)
    then show ?thesis unfolding t using Cons.IH [OF cs, of "pre @ [?q, ?q]" "s @ [?q]"] True u
      by (simp add: doubled_def utf8_bytes_def)
  next
    case False
    have n: "utf8_next (utf8_char c @ ?t) = Some (c, length (utf8_char c))"
      using utf8_next_char [OF c] by (simp add: length_utf8_char)
    have h: "get_at (pre @ utf8_char c @ ?t) (length pre) = Some (hd (utf8_char c))" "hd (utf8_char c) \<noteq> ?q"
      using utf8_char_ne [of c] utf8_char_hd [OF c _ assms(2)] False by (auto simp: get_at_def nth_append hd_conv_nth)
    have t: "pre @ utf8_bytes (doubled q (c # cs)) @ of_nat q # rest = pre @ utf8_char c @ ?t"
      using False by (simp add: doubled_def utf8_bytes_def)
    have "lex_quoted ?q e (pre @ utf8_char c @ ?t) (length pre) s =
        lex_quoted ?q e (pre @ utf8_char c @ ?t) (length pre + length (utf8_char c)) (s @ utf8_char c)"
      using n h by (subst lex_quoted.simps) (simp add: byte_slice_def)
    then show ?thesis unfolding t using Cons.IH [OF cs, of "pre @ utf8_char c" "s @ utf8_char c"] False
      by (simp add: doubled_def utf8_bytes_def add.assoc)
  qed
qed

end
