(* ===== verification/SqlAst.thy ===== *)
theory SqlAst
  imports Schema
begin

text \<open>
  The abstract syntax of SQL statements (\<^verbatim>\<open>src/sql/ast.rs\<close>) and what the executor asks of an expression.  Identifiers
  and texts are their UTF-8 bytes, a \<^verbatim>\<open>usize\<close> is a natural number; boxes are not represented.
\<close>

section \<open>Operators\<close>

datatype join_kind = JoinInner | JoinLeft
datatype set_op = SetUnion | SetUnionAll | SetIntersect | SetExcept
datatype as_of_clause = OfVersion u64 | OfTimestamp u64
datatype agg_func = AggCount | AggSum | AggAvg | AggMin | AggMax | AggGroupConcat

datatype window_func =
    WinRowNumber | WinRank | WinDenseRank | WinNtile | WinLag | WinLead | WinFirstValue | WinLastValue
  | WinSum | WinCount | WinAvg | WinMin | WinMax

datatype frame_bound = UnboundedPreceding | Preceding nat | CurrentRow | Following nat | UnboundedFollowing

record window_frame =
  wf_start :: frame_bound
  wf_end :: frame_bound

datatype un_op = OpNeg | OpNot

datatype bin_op =
    OpEq | OpNe | OpLt | OpLe | OpGt | OpGe | OpAnd | OpOr | OpAdd | OpSub | OpMul | OpDiv | OpMod
  | OpConcat | OpJsonGet | OpJsonGetText

section \<open>Expressions and queries\<close>

datatype expr =
    ELiteral val
  | EColumn "bytes option" bytes
  | EParam nat
  | EUnary un_op expr
  | EBinary expr bin_op expr
  | EIsNull expr bool
  | ELike expr expr bool
  | EMatch expr expr bool
  | EAggregate agg_func "expr option" bool "expr option"
  | EFunction bytes "expr list"
  | EIn expr "expr list" bool
  | ECast expr col_type
  | ECase "expr option" "(expr \<times> expr) list" "expr option"
  | EScalarSubquery select_stmt
  | EExists select_stmt
  | EInSubquery expr select_stmt bool
  | EWindow window_func "expr list" "expr list" "(expr \<times> bool) list" "window_frame option"
and select_item = Star | ItemExpr expr "bytes option"
and table_ref = TableRef (tr_name: bytes) (tr_alias: "bytes option") (tr_subquery: "select_stmt option")
and select_stmt = SelectStmt
    (ss_distinct: bool) (ss_projection: "select_item list") (ss_from: "table_ref option")
    (ss_joins: "(join_kind \<times> table_ref \<times> expr) list") (ss_where: "expr option") (ss_group_by: "expr list")
    (ss_having: "expr option") (ss_order_by: "(expr \<times> bool) list") (ss_limit: "expr option") (ss_offset: "expr option")
    (ss_as_of: "as_of_clause option") (ss_compound: "(set_op \<times> select_stmt) list") (ss_with: "(bytes \<times> select_stmt) list")

text \<open>\<^verbatim>\<open>TableRef::qualifier\<close>, and the fields a parsed core gets later.\<close>

definition qualifier :: "table_ref \<Rightarrow> bytes" where
  "qualifier t = (case tr_alias t of Some a \<Rightarrow> a | None \<Rightarrow> tr_name t)"

fun set_with :: "(bytes \<times> select_stmt) list \<Rightarrow> select_stmt \<Rightarrow> select_stmt" where
  "set_with ctes (SelectStmt d p f j w g h ob l os a c _) = SelectStmt d p f j w g h ob l os a c ctes"

fun set_trailer :: "(set_op \<times> select_stmt) list \<Rightarrow> (expr \<times> bool) list \<Rightarrow> expr option \<Rightarrow> expr option \<Rightarrow>
    as_of_clause option \<Rightarrow> select_stmt \<Rightarrow> select_stmt" where
  "set_trailer compound order_by limit offset as_of (SelectStmt d p f j w g h _ _ _ _ _ ctes) =
     SelectStmt d p f j w g h order_by limit offset as_of compound ctes"

section \<open>Statements\<close>

record column_ast =
  ca_name :: bytes
  ca_col_type :: col_type
  ca_not_null :: bool
  ca_primary_key :: bool
  ca_default :: "expr option"
  ca_references :: "column_fk option"
  ca_unique :: bool
  ca_check :: "bytes option"

datatype insert_source = SourceValues "expr list list" | SourceSelect select_stmt

datatype on_conflict = ConflictNothing | ConflictUpdate "(bytes \<times> expr) list" "expr option"

record create_table_ast =
  ct_if_not_exists :: bool
  ct_name :: bytes
  ct_columns :: "column_ast list"
  ct_foreign_keys :: "foreign_key_spec list"
  ct_uniques :: "bytes list list"
  ct_checks :: "bytes list"

record create_vector_ast =
  cv_if_not_exists :: bool
  cv_name :: bytes
  cv_table :: bytes
  cv_column :: bytes
  cv_metric :: "bytes option"
  cv_lists :: "u32 option"
  cv_probes :: "u32 option"
  cv_rerank_i8 :: bool

datatype (plugins del: size) stmt =
    CreateTable create_table_ast
  | CreateTableAs bool bytes select_stmt
  | DropTable bool bytes
  | CreateView bool bytes bytes
  | DropView bool bytes
  | CreateTrigger bool bytes trigger_timing trigger_event trigger_for_each bytes bytes
  | DropTrigger bool bytes
  | CreateIndex bool bool bytes bytes "bytes list"
  | DropIndex bool bytes
  | CreateFtsIndex bool bytes bytes "bytes list" "bytes option"
  | DropFtsIndex bool bytes
  | CreateVectorIndex create_vector_ast
  | DropVectorIndex bool bytes
  | RebuildVectorIndex bytes
  | Insert bytes "bytes list option" insert_source "on_conflict option" "select_item list option"
  | Select select_stmt
  | AlterTableAddColumn bytes column_ast
  | AlterTableMoveColumn bytes bytes column_pos
  | AlterTableReorderColumns bytes "bytes list"
  | AlterTableRenameColumn bytes bytes bytes
  | AlterTableDropColumn bytes bytes
  | Update bytes "(bytes \<times> expr) list" "expr option" "select_item list option"
  | Delete bytes "expr option" "select_item list option"
  | Begin | Commit | Rollback
  | Savepoint bytes | ReleaseSavepoint bytes | RollbackTo bytes

section \<open>What an expression contains\<close>

fun is_const :: "expr \<Rightarrow> bool" where
  "is_const (ELiteral _) = True"
| "is_const (EParam _) = True"
| "is_const (EColumn _ _) = False"
| "is_const (EAggregate _ _ _ _) = False"
| "is_const (EUnary _ e) = is_const e"
| "is_const (EBinary a _ b) = (is_const a \<and> is_const b)"
| "is_const (EIsNull e _) = is_const e"
| "is_const (ELike e p _) = (is_const e \<and> is_const p)"
| "is_const (EMatch c q _) = (is_const c \<and> is_const q)"
| "is_const (EFunction _ args) = list_all is_const args"
| "is_const (EIn e xs _) = (is_const e \<and> list_all is_const xs)"
| "is_const (ECast e _) = is_const e"
| "is_const (ECase operand whens els) =
     (pred_option is_const operand \<and> list_all (\<lambda>(c, r). is_const c \<and> is_const r) whens \<and> pred_option is_const els)"
| "is_const (EScalarSubquery _) = False"
| "is_const (EExists _) = False"
| "is_const (EInSubquery _ _ _) = False"
| "is_const (EWindow _ _ _ _ _) = False"

text \<open>\<^verbatim>\<open>contains_param\<close>, \<^verbatim>\<open>has_aggregate\<close> and \<^verbatim>\<open>has_window\<close> look for a kind of node below an expression.\<close>

definition some_opt :: "('a \<Rightarrow> bool) \<Rightarrow> 'a option \<Rightarrow> bool" where
  "some_opt P x = (case x of None \<Rightarrow> False | Some y \<Rightarrow> P y)"

lemma some_opt_cong [fundef_cong]:
  "x = x' \<Longrightarrow> (\<And>y. y \<in> set_option x' \<Longrightarrow> P y = P' y) \<Longrightarrow> some_opt P x = some_opt P' x'"
  by (cases x') (auto simp: some_opt_def)

fun contains_param :: "expr \<Rightarrow> bool" where
  "contains_param (EParam _) = True"
| "contains_param (ELiteral _) = False"
| "contains_param (EColumn _ _) = False"
| "contains_param (EUnary _ e) = contains_param e"
| "contains_param (EBinary a _ b) = (contains_param a \<or> contains_param b)"
| "contains_param (EIsNull e _) = contains_param e"
| "contains_param (ELike e p _) = (contains_param e \<or> contains_param p)"
| "contains_param (EMatch c q _) = (contains_param c \<or> contains_param q)"
| "contains_param (EAggregate _ arg _ _) = some_opt contains_param arg"
| "contains_param (EFunction _ args) = list_ex contains_param args"
| "contains_param (EIn e xs _) = (contains_param e \<or> list_ex contains_param xs)"
| "contains_param (ECast e _) = contains_param e"
| "contains_param (ECase operand whens els) =
     (some_opt contains_param operand \<or> list_ex (\<lambda>(c, r). contains_param c \<or> contains_param r) whens \<or> some_opt contains_param els)"
| "contains_param (EScalarSubquery _) = False"
| "contains_param (EExists _) = False"
| "contains_param (EInSubquery _ _ _) = False"
| "contains_param (EWindow _ args partition_by _ _) = (list_ex contains_param args \<or> list_ex contains_param partition_by)"

fun has_aggregate :: "expr \<Rightarrow> bool" where
  "has_aggregate (EAggregate _ _ _ _) = True"
| "has_aggregate (ELiteral _) = False"
| "has_aggregate (EColumn _ _) = False"
| "has_aggregate (EParam _) = False"
| "has_aggregate (EUnary _ e) = has_aggregate e"
| "has_aggregate (EBinary a _ b) = (has_aggregate a \<or> has_aggregate b)"
| "has_aggregate (EIsNull e _) = has_aggregate e"
| "has_aggregate (ELike e p _) = (has_aggregate e \<or> has_aggregate p)"
| "has_aggregate (EMatch c q _) = (has_aggregate c \<or> has_aggregate q)"
| "has_aggregate (EFunction _ args) = list_ex has_aggregate args"
| "has_aggregate (EIn e xs _) = (has_aggregate e \<or> list_ex has_aggregate xs)"
| "has_aggregate (ECast e _) = has_aggregate e"
| "has_aggregate (ECase operand whens els) =
     (some_opt has_aggregate operand \<or> list_ex (\<lambda>(c, r). has_aggregate c \<or> has_aggregate r) whens \<or> some_opt has_aggregate els)"
| "has_aggregate (EScalarSubquery _) = False"
| "has_aggregate (EExists _) = False"
| "has_aggregate (EInSubquery _ _ _) = False"
| "has_aggregate (EWindow _ _ _ _ _) = False"

fun has_window :: "expr \<Rightarrow> bool" where
  "has_window (EWindow _ _ _ _ _) = True"
| "has_window (ELiteral _) = False"
| "has_window (EColumn _ _) = False"
| "has_window (EParam _) = False"
| "has_window (EUnary _ e) = has_window e"
| "has_window (EBinary a _ b) = (has_window a \<or> has_window b)"
| "has_window (EIsNull e _) = has_window e"
| "has_window (ELike e p _) = (has_window e \<or> has_window p)"
| "has_window (EMatch c q _) = (has_window c \<or> has_window q)"
| "has_window (EAggregate _ arg _ _) = some_opt has_window arg"
| "has_window (EFunction _ args) = list_ex has_window args"
| "has_window (EIn e xs _) = (has_window e \<or> list_ex has_window xs)"
| "has_window (ECast e _) = has_window e"
| "has_window (ECase operand whens els) =
     (some_opt has_window operand \<or> list_ex (\<lambda>(c, r). has_window c \<or> has_window r) whens \<or> some_opt has_window els)"
| "has_window (EScalarSubquery _) = False"
| "has_window (EExists _) = False"
| "has_window (EInSubquery _ _ _) = False"

end
