(* ===== verification/Datetime.thy ===== *)
theory Datetime
  imports Utf8
begin

text \<open>
  Dates (\<^verbatim>\<open>src/sql/datetime.rs\<close>).  The code's \<^verbatim>\<open>i64\<close> values stay far from the ends of the type (a year has four digits, an
  instant 64 bits of milliseconds), so they are integers; \<open>tdiv\<close> is the division of Rust, which truncates.
\<close>

section \<open>Days of the calendar\<close>

definition tdiv :: "int \<Rightarrow> int \<Rightarrow> int" where "tdiv a b = (if 0 \<le> a then a div b else - ((- a) div b))"

definition days_from_civil :: "int \<Rightarrow> int \<Rightarrow> int \<Rightarrow> int" where
  "days_from_civil y m d =
     (let y = (if m \<le> 2 then y - 1 else y);
          era = tdiv (if 0 \<le> y then y else y - 399) 400;
          yoe = y - era * 400;
          doy = tdiv (153 * (if 2 < m then m - 3 else m + 9) + 2) 5 + d - 1;
          doe = yoe * 365 + tdiv yoe 4 - tdiv yoe 100 + doy
      in era * 146097 + doe - 719468)"

definition civil_from_days :: "int \<Rightarrow> int \<times> int \<times> int" where
  "civil_from_days z =
     (let z = z + 719468;
          era = tdiv (if 0 \<le> z then z else z - 146096) 146097;
          doe = z - era * 146097;
          yoe = tdiv (doe - tdiv doe 1460 + tdiv doe 36524 - tdiv doe 146096) 365;
          y = yoe + era * 400;
          doy = doe - (365 * yoe + tdiv yoe 4 - tdiv yoe 100);
          mp = tdiv (5 * doy + 2) 153;
          d = doy - tdiv (153 * mp + 2) 5 + 1;
          m = (if mp < 10 then mp + 3 else mp - 9)
      in (y + (if m \<le> 2 then 1 else 0), m, d))"

text \<open>\<^verbatim>\<open>div_euclid\<close> and \<^verbatim>\<open>rem_euclid\<close> by a positive number are \<open>div\<close> and \<open>mod\<close>.\<close>

definition ms_to_parts :: "int \<Rightarrow> int \<times> int \<times> int \<times> int \<times> int \<times> int" where
  "ms_to_parts ms =
     (let secs = ms div 1000; days = secs div 86400; tod = secs mod 86400; (y, mo, d) = civil_from_days days
      in (y, mo, d, tdiv tod 3600, tdiv (tod mod 3600) 60, tod mod 60))"

section \<open>RFC 3339\<close>

definition digit :: "u8 \<Rightarrow> bool" where "digit b \<longleftrightarrow> 48 \<le> b \<and> b \<le> 57"

fun parse_n_loop :: "int \<Rightarrow> bytes \<Rightarrow> int option" where
  "parse_n_loop n [] = Some n"
| "parse_n_loop n (c # cs) = (if digit c then parse_n_loop (n * 10 + (int (unat c) - 48)) cs else None)"

definition parse_n :: "bytes \<Rightarrow> int option" where "parse_n b = parse_n_loop 0 b"

definition field :: "bytes \<Rightarrow> nat \<Rightarrow> nat \<Rightarrow> int option" where
  "field b i j = parse_n (take (j - i) (drop i b))"

text \<open>The fraction: its first three digits, scaled to milliseconds, and the position behind all of them.\<close>

definition millis_of :: "bytes \<Rightarrow> int" where
  "millis_of ds = foldl (\<lambda>m d. m * 10 + (int (unat d) - 48)) 0 (take 3 ds) * 10 ^ (3 - length (take 3 ds))"

definition parse_fraction :: "bytes \<Rightarrow> (nat \<times> int) option" where
  "parse_fraction b =
     (if get_at b 19 = Some 46 then
        let ds = takeWhile digit (drop 20 b) in
        if ds = [] then None else Some (20 + length ds, millis_of ds)
      else Some (19, 0))"

definition parse_zone :: "bytes \<Rightarrow> nat \<Rightarrow> (nat \<times> int) option" where
  "parse_zone b i =
     (case get_at b i of
        None \<Rightarrow> None
      | Some c \<Rightarrow>
          if c = 90 \<or> c = 122 then Some (i + 1, 0)
          else if c = 43 \<or> c = 45 then
            let sign = (if c = 43 then 1 else - 1); i = i + 1 in
            if length b < i + 5 \<or> b ! (i + 2) \<noteq> 58 then None
            else case (field b i (i + 2), field b (i + 3) (i + 5)) of
                (Some oh, Some om) \<Rightarrow> if 23 < oh \<or> 59 < om then None else Some (i + 5, sign * (oh * 60 + om))
              | _ \<Rightarrow> None
          else None)"

definition parse_rfc3339_ms :: "bytes \<Rightarrow> u64 option" where
  "parse_rfc3339_ms b =
     (if length b < 20 then None
      else if b ! 4 \<noteq> 45 \<or> b ! 7 \<noteq> 45 \<or> b ! 13 \<noteq> 58 \<or> b ! 16 \<noteq> 58 then None
      else if b ! 10 \<notin> {84, 116, 32} then None
      else case (field b 0 4, field b 5 7, field b 8 10, field b 11 13, field b 14 16, field b 17 19) of
        (Some year, Some month, Some day, Some hour, Some mi, Some sec) \<Rightarrow>
          if \<not> (1 \<le> month \<and> month \<le> 12) \<or> \<not> (1 \<le> day \<and> day \<le> 31) \<or> 23 < hour \<or> 59 < mi \<or> 59 < sec then None
          else (case parse_fraction b of None \<Rightarrow> None | Some (i, millis) \<Rightarrow>
               (case parse_zone b i of None \<Rightarrow> None | Some (i, offset_min) \<Rightarrow>
                  if i \<noteq> length b then None
                  else let days = days_from_civil year month day;
                           secs = days * 86400 + hour * 3600 + mi * 60 + sec - offset_min * 60;
                           ms = secs * 1000 + millis
                       in Some (of_int (max ms 0))))
      | _ \<Rightarrow> None)"

section \<open>Formatting\<close>

text \<open>\<^verbatim>\<open>format!("{n:0w}")\<close>: decimal digits, zeros up to the width, the sign first.\<close>

fun decimal_digits :: "nat \<Rightarrow> ustr" where
  "decimal_digits n = (if n < 10 then [48 + n] else decimal_digits (n div 10) @ [48 + n mod 10])"

declare decimal_digits.simps [simp del]

definition pad :: "nat \<Rightarrow> ustr \<Rightarrow> ustr" where "pad w s = replicate (w - length s) 48 @ s"

definition format_int :: "nat \<Rightarrow> int \<Rightarrow> ustr" where
  "format_int w n = (if n < 0 then 45 # pad (w - 1) (decimal_digits (nat (- n))) else pad w (decimal_digits (nat n)))"

definition uc :: "char \<Rightarrow> uchar" where "uc c = of_char c"

fun strftime_with :: "int \<times> int \<times> int \<times> int \<times> int \<times> int \<Rightarrow> ustr \<Rightarrow> ustr" where
  "strftime_with p [] = []"
| "strftime_with p [c] = [c]"
| "strftime_with p (c # x # fmt) =
     (if c \<noteq> 37 then c # strftime_with p (x # fmt)
      else (let (y, mo, d, h, mi, s) = p in
        if x = 89 then format_int 4 y
        else if x = 109 then format_int 2 mo
        else if x = 100 then format_int 2 d
        else if x = 72 then format_int 2 h
        else if x = 77 then format_int 2 mi
        else if x = 83 then format_int 2 s
        else if x = 106 then format_int 3 (days_from_civil y mo d - days_from_civil y 1 1 + 1)
        else if x = 37 then [37]
        else [37, x]) @ strftime_with p fmt)"

definition strftime :: "ustr \<Rightarrow> int \<Rightarrow> ustr" where "strftime fmt ms = strftime_with (ms_to_parts ms) fmt"

section \<open>The calendar is counted without gaps\<close>

lemma tdiv_floor: "0 < b \<Longrightarrow> tdiv (if 0 \<le> a then a else a - (b - 1)) b = a div b"
proof (cases "0 \<le> a")
  case False
  assume b: "0 < b"
  have "(- (a - (b - 1))) div b = - (a div b)"
  proof (rule int_div_pos_eq)
    show "- (a - (b - 1)) = b * - (a div b) + (b - 1 - a mod b)" by (simp add: algebra_simps minus_div_mult_eq_mod [symmetric])
    show "0 \<le> b - 1 - a mod b" "b - 1 - a mod b < b" using b pos_mod_bound [OF b, of a] pos_mod_sign [OF b, of a] by linarith+
  qed
  then show ?thesis using False b by (simp add: tdiv_def)
qed (simp add: tdiv_def)

lemma tdiv_floors: "tdiv (if 0 \<le> a then a else a - 399) 400 = a div 400"
  "tdiv (if 0 \<le> a then a else a - 146096) 146097 = a div 146097"
proof -
  have n: "399 = 400 - (1 :: int)" "146096 = 146097 - (1 :: int)" by simp_all
  show "tdiv (if 0 \<le> a then a else a - 399) 400 = a div 400" unfolding n(1) by (rule tdiv_floor) simp
  show "tdiv (if 0 \<le> a then a else a - 146096) 146097 = a div 146097" unfolding n(2) by (rule tdiv_floor) simp
qed

lemma succ_mod: "0 < n \<Longrightarrow> (x + 1) mod n = 0 \<longleftrightarrow> x mod n = n - 1" for x n :: int
proof -
  assume n: "0 < n"
  have "(x + 1) mod n = (x mod n + 1) mod n" by (simp add: mod_add_left_eq)
  also have "\<dots> = 0 \<longleftrightarrow> x mod n + 1 = n"
  proof (cases "x mod n + 1 = n")
    case False
    then have "0 \<le> x mod n + 1" "x mod n + 1 < n" "x mod n + 1 \<noteq> 0"
      using pos_mod_bound [OF n, of x] pos_mod_sign [OF n, of x] by linarith+
    then show ?thesis using False by simp
  qed simp
  finally show ?thesis by linarith
qed

lemma tdiv_nonneg: "0 \<le> a \<Longrightarrow> tdiv a b = a div b"
  by (simp add: tdiv_def)

text \<open>Months and days of the year that begins in March.\<close>

definition leap :: "int \<Rightarrow> bool" where "leap y \<longleftrightarrow> y mod 4 = 0 \<and> (y mod 100 \<noteq> 0 \<or> y mod 400 = 0)"

definition month_days :: "int \<Rightarrow> int \<Rightarrow> int" where
  "month_days y m = (if m \<in> {4, 6, 9, 11} then 30 else if m = 2 then (if leap y then 29 else 28) else 31)"

definition valid_date :: "int \<Rightarrow> int \<Rightarrow> int \<Rightarrow> bool" where
  "valid_date y m d \<longleftrightarrow> 1 \<le> m \<and> m \<le> 12 \<and> 1 \<le> d \<and> d \<le> month_days y m"

text \<open>A year of an era is its century, its cycle of four years and the rest.\<close>

lemma yoe_of_doe:
  fixes c q r doy :: int
  assumes c: "0 \<le> c" "c \<le> 3" and q: "0 \<le> q" "q \<le> 24" and r: "0 \<le> r" "r \<le> 3" and doy: "0 \<le> doy" "doy \<le> 365"
    and leap: "doy = 365 \<longrightarrow> r = 3 \<and> (q \<noteq> 24 \<or> c = 3)"
  defines "doe \<equiv> 36524 * c + 1461 * q + 365 * r + doy"
  shows "(doe - doe div 1460 + doe div 36524 - doe div 146096) div 365 = 100 * c + 4 * q + r"
proof -
  let ?e = "(24 * c + q + 365 * r + doy) div 1460"
  have e1: "doe div 1460 = 25 * c + q + ?e"
  proof -
    have "doe = (25 * c + q) * 1460 + (24 * c + q + 365 * r + doy)" by (simp add: doe_def)
    then show ?thesis by simp
  qed
  have e: "?e = 0 \<and> 24 * c + q + 365 * r + doy < 1460 \<or> ?e = 1 \<and> 1460 \<le> 24 * c + q + 365 * r + doy"
    using c q r doy by (auto simp: not_less intro: div_pos_pos_trivial int_div_pos_eq)
  have last: "doe = 146096 \<and> doe div 36524 = 4 \<and> doe div 146096 = 1 \<or> doe < 146096 \<and> doe div 36524 = c \<and> doe div 146096 = 0"
  proof (cases "c = 3 \<and> q = 24 \<and> r = 3 \<and> doy = 365")
    case True
    then show ?thesis by (simp add: doe_def)
  next
    case False
    have b: "1461 * q + 365 * r + doy < 36524"
    proof (rule ccontr)
      assume "\<not> 1461 * q + 365 * r + doy < 36524"
      then have "q = 24 \<and> r = 3 \<and> doy = 365" using q r doy by linarith
      then show False using False leap by blast
    qed
    then have "doe div 36524 = c" using q r doy by (intro int_div_pos_eq) (auto simp: doe_def)
    moreover have "doe < 146096" using b c by (simp add: doe_def)
    moreover have "0 \<le> doe" using c q r doy by (simp add: doe_def)
    ultimately show ?thesis by simp
  qed
  show ?thesis
  proof (rule int_div_pos_eq)
    show "doe - doe div 1460 + doe div 36524 - doe div 146096 = 365 * (100 * c + 4 * q + r) +
        (doy - ?e + (doe div 36524 - c) - doe div 146096)"
      using e1 by (simp add: doe_def)
    show "0 \<le> doy - ?e + (doe div 36524 - c) - doe div 146096" "doy - ?e + (doe div 36524 - c) - doe div 146096 < 365"
      using e last leap c q r doy by (cases "doy = 365"; auto simp: doe_def)+
  qed
qed

text \<open>The month and day of a day of the year.\<close>

lemma div_between: "0 < n \<Longrightarrow> n * (x div n) \<le> x \<and> x < n * (x div n) + n" for x n :: int
  using pos_mod_bound [of n x] pos_mod_sign [of n x] mult_div_mod_eq [of n x] by linarith

lemma month_of_doy:
  fixes doy :: int
  assumes "0 \<le> doy" "doy \<le> 365"
  shows "0 \<le> (5 * doy + 2) div 153" "(5 * doy + 2) div 153 \<le> 11" "(153 * ((5 * doy + 2) div 153) + 2) div 5 \<le> doy"
    "doy < (153 * ((5 * doy + 2) div 153 + 1) + 2) div 5"
proof -
  define mp where "mp = (5 * doy + 2) div 153"
  have m: "153 * mp \<le> 5 * doy + 2" "5 * doy + 2 < 153 * mp + 153"
    using div_between [of 153 "5 * doy + 2"] unfolding mp_def by simp_all
  have "0 \<le> mp" "mp \<le> 11" using m assms by linarith+
  moreover have "(153 * mp + 2) div 5 < doy + 1" using m(1) div_between [of 5 "153 * mp + 2"] by simp
  moreover have "doy + 1 \<le> (153 * (mp + 1) + 2) div 5" using m(2) div_between [of 5 "153 * (mp + 1) + 2"] by simp
  ultimately show "0 \<le> (5 * doy + 2) div 153" "(5 * doy + 2) div 153 \<le> 11" "(153 * ((5 * doy + 2) div 153) + 2) div 5 \<le> doy"
    "doy < (153 * ((5 * doy + 2) div 153 + 1) + 2) div 5" unfolding mp_def by linarith+
qed

lemma month_length:
  fixes mp d :: int
  assumes "0 \<le> mp" "mp \<le> 11" "1 \<le> d" "d \<le> (153 * (mp + 1) + 2) div 5 - (153 * mp + 2) div 5"
  shows "(5 * ((153 * mp + 2) div 5 + d - 1) + 2) div 153 = mp"
proof -
  have "mp = 0 \<or> mp = 1 \<or> mp = 2 \<or> mp = 3 \<or> mp = 4 \<or> mp = 5 \<or> mp = 6 \<or> mp = 7 \<or> mp = 8 \<or> mp = 9 \<or> mp = 10 \<or> mp = 11"
    using assms(1,2) by presburger
  then show ?thesis using assms(3,4) by (elim disjE) (auto intro!: int_div_pos_eq)
qed

text \<open>The year of a day of an era, from the other side.\<close>

lemma split_doe:
  fixes doe :: int
  assumes "0 \<le> doe" "doe < 146097"
  obtains c q r doy where "0 \<le> c" "c \<le> 3" "0 \<le> q" "q \<le> 24" "0 \<le> r" "r \<le> 3" "0 \<le> doy" "doy \<le> 365"
    "doy = 365 \<longrightarrow> r = 3 \<and> (q \<noteq> 24 \<or> c = 3)" "doe = 36524 * c + 1461 * q + 365 * r + doy"
proof -
  define c where "c = min 3 (doe div 36524)"
  define x where "x = doe - 36524 * c"
  define q where "q = min 24 (x div 1461)"
  define y where "y = x - 1461 * q"
  define r where "r = min 3 (y div 365)"
  have c: "0 \<le> c" "c \<le> 3" "0 \<le> x" "x \<le> 36524" "x = 36524 \<Longrightarrow> c = 3"
    using assms by (cases "3 \<le> doe div 36524"; auto simp: c_def x_def min_def minus_mult_div_eq_mod)+
  have q: "0 \<le> q" "q \<le> 24" "0 \<le> y" "y \<le> 1460" "q = 24 \<Longrightarrow> y = 1460 \<Longrightarrow> x = 36524" using c by (auto simp: q_def y_def min_def)
  have r: "0 \<le> r" "r \<le> 3" "0 \<le> y - 365 * r" "y - 365 * r \<le> 365" "y - 365 * r = 365 \<longrightarrow> r = 3 \<and> y = 1460"
    using q by (cases "3 \<le> y div 365"; auto simp: r_def min_def minus_mult_div_eq_mod)+
  show thesis
    by (rule that [of c q r "y - 365 * r"]) (use c q r in \<open>auto simp: y_def x_def\<close>)
qed

lemma days_from_civil_eq:
  fixes y m d :: int
  assumes "1 \<le> m" "m \<le> 12"
  defines "Y \<equiv> (if m \<le> 2 then y - 1 else y)" and "mp \<equiv> (if 2 < m then m - 3 else m + 9)"
  shows "days_from_civil y m d = Y div 400 * 146097 + (365 * (Y mod 400) + Y mod 400 div 4 - Y mod 400 div 100) +
    ((153 * mp + 2) div 5 + d - 1) - 719468"
proof -
  have e: "tdiv (if 0 \<le> Y then Y else Y - 399) 400 = Y div 400" by (rule tdiv_floors)
  have m: "tdiv (153 * mp + 2) 5 = (153 * mp + 2) div 5" using assms(1,2) by (intro tdiv_nonneg) (simp add: mp_def)
  have yo: "Y - Y div 400 * 400 = Y mod 400" by (simp add: minus_div_mult_eq_mod)
  have t: "tdiv (Y mod 400) 4 = Y mod 400 div 4" "tdiv (Y mod 400) 100 = Y mod 400 div 100" by (simp_all add: tdiv_nonneg)
  show ?thesis
    unfolding days_from_civil_def Y_def [symmetric] mp_def [symmetric] Let_def e m yo t by simp
qed

lemma civil_from_days_eq:
  assumes z: "z + 719468 = era * 146097 + (36524 * c + 1461 * q + 365 * r + doy)"
    and b: "0 \<le> c" "c \<le> 3" "0 \<le> q" "q \<le> 24" "0 \<le> r" "r \<le> 3" "0 \<le> doy" "doy \<le> 365"
      "doy = 365 \<longrightarrow> r = 3 \<and> (q \<noteq> 24 \<or> c = 3)"
  shows "civil_from_days z = (let mp = (5 * doy + 2) div 153; m = (if mp < 10 then mp + 3 else mp - 9) in
    (100 * c + 4 * q + r + era * 400 + (if m \<le> 2 then 1 else 0), m, doy - (153 * mp + 2) div 5 + 1))"
proof -
  let ?doe = "36524 * c + 1461 * q + 365 * r + doy" and ?yoe = "100 * c + 4 * q + r" and ?z = "z + 719468"
  have bd: "0 \<le> ?doe" "?doe < 146097"
    using b by (cases "doy = 365"; simp)+
  have ze: "?z div 146097 = era" unfolding z using bd by (intro int_div_pos_eq [where r = ?doe]) simp_all
  have e: "tdiv (if 0 \<le> ?z then ?z else ?z - 146096) 146097 = era" unfolding tdiv_floors by (rule ze)
  have doe: "?z - era * 146097 = ?doe" using z by simp
  have yoe: "(?doe - ?doe div 1460 + ?doe div 36524 - ?doe div 146096) div 365 = ?yoe" by (rule yoe_of_doe [OF b])
  have n: "0 \<le> ?doe - ?doe div 1460 + ?doe div 36524 - ?doe div 146096"
  proof (rule ccontr)
    assume "\<not> 0 \<le> ?doe - ?doe div 1460 + ?doe div 36524 - ?doe div 146096"
    then have "(?doe - ?doe div 1460 + ?doe div 36524 - ?doe div 146096) div 365 < 0" by (intro div_neg_pos_less0) simp_all
    then show False unfolding yoe using b by simp
  qed
  have yn: "0 \<le> ?yoe" using b by simp
  note t = tdiv_nonneg [OF bd(1), of 1460] tdiv_nonneg [OF bd(1), of 36524] tdiv_nonneg [OF bd(1), of 146096]
    trans [OF tdiv_nonneg [OF n, of 365] yoe] tdiv_nonneg [OF yn, of 4] tdiv_nonneg [OF yn, of 100]
  have y4: "?yoe div 4 = 25 * c + q" using b by (intro int_div_pos_eq [where r = r]) simp_all
  have y100: "?yoe div 100 = c" using b by (intro int_div_pos_eq [where r = "4 * q + r"]) simp_all
  have doy: "?doe - (365 * ?yoe + (25 * c + q) - c) = doy" by simp
  have mp: "tdiv (5 * doy + 2) 153 = (5 * doy + 2) div 153" using b by (simp add: tdiv_nonneg)
  have md: "tdiv (153 * ((5 * doy + 2) div 153) + 2) 5 = (153 * ((5 * doy + 2) div 153) + 2) div 5"
    using month_of_doy(1) [of doy] b by (simp add: tdiv_nonneg)
  show ?thesis
    unfolding civil_from_days_def Let_def e doe t y4 y100 doy mp md by simp
qed

lemma feb_leap: "leap y \<longleftrightarrow> (y - 1) mod 4 = 3 \<and> ((y - 1) mod 100 \<noteq> 99 \<or> (y - 1) mod 400 = 399)"
  unfolding leap_def using succ_mod [of 4 "y - 1"] succ_mod [of 100 "y - 1"] succ_mod [of 400 "y - 1"] by simp

text \<open>The decomposition of a year.\<close>

lemma year_parts:
  fixes Y :: int
  obtains c q r where "0 \<le> c" "c \<le> 3" "0 \<le> q" "q \<le> 24" "0 \<le> r" "r \<le> 3" "Y mod 400 = 100 * c + 4 * q + r"
    "Y mod 400 div 4 = 25 * c + q" "Y mod 400 div 100 = c" "Y mod 4 = r" "Y mod 100 = 4 * q + r"
proof -
  define yoe where "yoe = Y mod 400"
  define c where "c = yoe div 100"
  define x where "x = yoe mod 100"
  define q where "q = x div 4"
  define r where "r = x mod 4"
  have y: "0 \<le> yoe" "yoe < 400" by (simp_all add: yoe_def)
  have x: "0 \<le> x" "x < 100" "yoe = 100 * c + x" by (simp_all add: x_def c_def)
  have r: "0 \<le> r" "r \<le> 3" "x = 4 * q + r" by (simp_all add: q_def r_def)
  have c: "0 \<le> c" "c \<le> 3" using x y by linarith+
  have q: "0 \<le> q" "q \<le> 24" using x r by linarith+
  have e: "yoe = 100 * c + 4 * q + r" using x r by simp
  have e4: "yoe div 4 = 25 * c + q" unfolding e using r by (intro int_div_pos_eq [where r = r]) simp_all
  have m: "Y mod 100 = x" "Y mod 4 = yoe mod 4" by (simp_all add: x_def yoe_def mod_mod_cancel)
  have m4: "yoe mod 4 = r" unfolding e using r by (intro int_mod_pos_eq [where q = "25 * c + q"]) simp_all
  show thesis
    by (rule that [OF c q r(1,2) e [unfolded yoe_def] e4 [unfolded yoe_def] c_def [unfolded yoe_def, symmetric]])
      (simp only: m m4, simp only: m r(3))
qed

lemma civil_of_days:
  assumes v: "valid_date y m d"
  shows "civil_from_days (days_from_civil y m d) = (y, m, d)"
proof -
  have m: "1 \<le> m" "m \<le> 12" "1 \<le> d" "d \<le> month_days y m" using v by (simp_all add: valid_date_def)
  define Y where "Y = (if m \<le> 2 then y - 1 else y)"
  define mp where "mp = (if 2 < m then m - 3 else m + 9)"
  let ?doy = "(153 * mp + 2) div 5 + d - 1"
  obtain c q r where P: "0 \<le> c" "c \<le> 3" "0 \<le> q" "q \<le> 24" "0 \<le> r" "r \<le> 3" "Y mod 400 = 100 * c + 4 * q + r"
    "Y mod 400 div 4 = 25 * c + q" "Y mod 400 div 100 = c" "Y mod 4 = r" "Y mod 100 = 4 * q + r" by (rule year_parts)
  have mp: "0 \<le> mp" "mp \<le> 11" using m by (auto simp: mp_def)
  have mi: "m = 1 \<or> m = 2 \<or> m = 3 \<or> m = 4 \<or> m = 5 \<or> m = 6 \<or> m = 7 \<or> m = 8 \<or> m = 9 \<or> m = 10 \<or> m = 11 \<or> m = 12"
    using m by presburger
  have ds: "d \<le> (153 * (mp + 1) + 2) div 5 - (153 * mp + 2) div 5 \<and> ?doy \<le> 365 \<and> 0 \<le> ?doy \<and> (?doy = 365 \<longrightarrow> m = 2 \<and> leap y)"
    using mi m(3,4) unfolding mp_def month_days_def by (elim disjE) (simp_all split: if_splits)
  then have ds: "d \<le> (153 * (mp + 1) + 2) div 5 - (153 * mp + 2) div 5" "?doy \<le> 365" "0 \<le> ?doy" "?doy = 365 \<Longrightarrow> m = 2 \<and> leap y"
    by blast+
  have lp: "?doy = 365 \<longrightarrow> r = 3 \<and> (q \<noteq> 24 \<or> c = 3)"
  proof
    assume "?doy = 365"
    then have "Y = y - 1" "leap y" using ds(4) by (simp_all add: Y_def)
    then have "Y mod 4 = 3" "Y mod 100 \<noteq> 99 \<or> Y mod 400 = 399" using feb_leap [of y] by simp_all
    then have "r = 3" "4 * q + r \<noteq> 99 \<or> 100 * c + 4 * q + r = 399" unfolding P by simp_all
    then show "r = 3 \<and> (q \<noteq> 24 \<or> c = 3)" using P(2,4) by auto
  qed
  have z: "days_from_civil y m d + 719468 = Y div 400 * 146097 + (36524 * c + 1461 * q + 365 * r + ?doy)"
    unfolding days_from_civil_eq [OF m(1,2)] Y_def [symmetric] mp_def [symmetric] using P(7,8,9) by simp
  have b: "(5 * ?doy + 2) div 153 = mp" using month_length [OF mp m(3) ds(1)] by (simp add: algebra_simps)
  have yy: "100 * c + 4 * q + r + Y div 400 * 400 = Y" using div_mult_mod_eq [of Y 400] unfolding P(7) by (subst add.commute)
  show ?thesis
    unfolding civil_from_days_eq [OF z P(1-6) ds(3,2) lp] Let_def b yy using m by (auto simp: mp_def Y_def)
qed

lemma days_of_civil:
  "(case civil_from_days z of (y, m, d) \<Rightarrow> days_from_civil y m d = z \<and> valid_date y m d)"
proof -
  define era where "era = (z + 719468) div 146097"
  have bd: "0 \<le> (z + 719468) mod 146097" "(z + 719468) mod 146097 < 146097" by simp_all
  obtain c q r doy where b: "0 \<le> c" "c \<le> 3" "0 \<le> q" "q \<le> 24" "0 \<le> r" "r \<le> 3" "0 \<le> doy" "doy \<le> 365"
    "doy = 365 \<longrightarrow> r = 3 \<and> (q \<noteq> 24 \<or> c = 3)" "(z + 719468) mod 146097 = 36524 * c + 1461 * q + 365 * r + doy"
    using split_doe [OF bd] by blast
  have z: "z + 719468 = era * 146097 + (36524 * c + 1461 * q + 365 * r + doy)"
    using div_mult_mod_eq [of "z + 719468" 146097] b(10) by (simp add: era_def)
  define mp where "mp = (5 * doy + 2) div 153"
  define m where "m = (if mp < 10 then mp + 3 else mp - 9)"
  define Y where "Y = 100 * c + 4 * q + r + era * 400"
  define d where "d = doy - (153 * mp + 2) div 5 + 1"
  let ?y = "Y + (if m \<le> 2 then 1 else 0)"
  have civ: "civil_from_days z = (?y, m, d)"
    unfolding civil_from_days_eq [OF z b(1-9)] Let_def mp_def [symmetric] m_def [symmetric] Y_def [symmetric] d_def [symmetric] by (rule refl)
  note M = month_of_doy [OF b(7,8), folded mp_def]
  have m: "1 \<le> m" "m \<le> 12" "(if 2 < m then m - 3 else m + 9) = mp" "(if m \<le> 2 then ?y - 1 else ?y) = Y"
    using M(1,2) by (auto simp: m_def)
  have Y: "Y div 400 = era" "Y mod 400 = 100 * c + 4 * q + r"
    using b by (auto simp: Y_def intro!: int_div_pos_eq int_mod_pos_eq [where q = era])
  have y4: "(100 * c + 4 * q + r) div 4 = 25 * c + q" "(100 * c + 4 * q + r) div 100 = c"
    using b int_div_pos_eq [of "100 * c + 4 * q + r" 4 "25 * c + q" r] int_div_pos_eq [of "100 * c + 4 * q + r" 100 c "4 * q + r"] by simp_all
  have "days_from_civil ?y m d = z"
    unfolding days_from_civil_eq [OF m(1,2)] m(3,4) Y y4 using z by (simp add: d_def)
  moreover have "valid_date ?y m d"
  proof -
    have mi: "mp = 0 \<or> mp = 1 \<or> mp = 2 \<or> mp = 3 \<or> mp = 4 \<or> mp = 5 \<or> mp = 6 \<or> mp = 7 \<or> mp = 8 \<or> mp = 9 \<or> mp = 10 \<or> mp = 11"
      using M(1,2) by presburger
    have d: "1 \<le> d" "d \<le> (153 * (mp + 1) + 2) div 5 - (153 * mp + 2) div 5" using M(3,4) by (simp_all add: d_def)
    have f: "d \<le> month_days ?y 2" if mp: "mp = 11" "m = 2"
    proof (cases "doy = 365")
      case True
      have "Y mod 4 = r" "Y mod 100 = 4 * q + r"
        using b int_mod_pos_eq [of Y 4 "25 * c + q + era * 100" r] int_mod_pos_eq [of Y 100 "c + era * 4" "4 * q + r"]
        by (simp_all add: Y_def)
      moreover have "Y mod 400 = 399" if "c = 3" "q = 24" "r = 3" using Y(2) that by simp
      ultimately have "leap (Y + 1)" using b(9) True b(3,4) feb_leap [of "Y + 1"] by auto
      then show ?thesis using True mp by (simp add: month_days_def d_def)
    next
      case False
      then show ?thesis using b(8) mp by (simp add: month_days_def d_def)
    qed
    show ?thesis using mi d m(1,2) f by (elim disjE) (auto simp: valid_date_def month_days_def m_def)
  qed
  ultimately show ?thesis by (simp add: civ)
qed

end
