(* ===== verification/Parser.thy ===== *)
theory Parser
  imports Lexer SqlAst Store Datetime
begin

text \<open>
  The recursive-descent parser (\<^verbatim>\<open>src/sql/parser.rs\<close>): its state, and the grammar of expressions and queries.  A parser
  is a state transformer with errors; \<open>None\<close> is a run that has not returned.  The functions of the code call one another
  without end; the calls that close a cycle (\<^verbatim>\<open>expr\<close>, \<^verbatim>\<open>not_expr\<close>, \<^verbatim>\<open>unary_expr\<close>, \<^verbatim>\<open>select\<close>, \<^verbatim>\<open>statement\<close>) go
  through the record \<open>grammar\<close>, whose level counts how deep they may still go.
\<close>

section \<open>The state\<close>

record parser =
  ps_src :: bytes
  ps_toks :: "spanned list"
  ps_i :: nat
  ps_param_names :: "bytes list"
  ps_positional_seen :: bool
  ps_depth :: nat

type_synonym 'a px = "(parser, 'a) sx"

definition new_parser :: "bytes \<Rightarrow> spanned list \<Rightarrow> parser" where
  "new_parser sql toks = \<lparr>ps_src = sql, ps_toks = toks, ps_i = 0, ps_param_names = [], ps_positional_seen = False, ps_depth = 0\<rparr>"

definition MAX_EXPR_DEPTH :: nat where "MAX_EXPR_DEPTH = 256"

definition peek_spanned :: "parser \<Rightarrow> spanned option" where "peek_spanned p = get_at (ps_toks p) (ps_i p)"

definition peek :: "parser \<Rightarrow> tok option" where "peek p = map_option sp_tok (peek_spanned p)"

definition peek2 :: "parser \<Rightarrow> tok option" where "peek2 p = map_option sp_tok (get_at (ps_toks p) (ps_i p + 1))"

definition cur_pos :: "parser \<Rightarrow> nat" where
  "cur_pos p = (case peek_spanned p of Some s \<Rightarrow> sp_pos s | None \<Rightarrow> length (ps_src p))"

definition then_px :: "'a px \<Rightarrow> 'b px \<Rightarrow> 'b px" where "then_px m k = sbind m (\<lambda>_. k)"

definition peeked :: "tok option px" where "peeked p = sret (peek p) p"

definition here :: "nat px" where "here p = sret (cur_pos p) p"

definition fail_at :: "nat \<Rightarrow> string \<Rightarrow> 'a px" where "fail_at pos msg = sthrow (sql_err pos msg)"

definition fail_here :: "string \<Rightarrow> 'a px" where "fail_here msg p = sthrow (sql_err (cur_pos p) msg) p"

definition next_tok :: "tok option px" where
  "next_tok p = (case peek p of None \<Rightarrow> sret None p | Some t \<Rightarrow> sret (Some t) (p\<lparr>ps_i := ps_i p + 1\<rparr>))"

definition eat :: "tok \<Rightarrow> bool px" where
  "eat t p = (if peek p = Some t then sret True (p\<lparr>ps_i := ps_i p + 1\<rparr>) else sret False p)"

abbreviation eat_kw :: "kw \<Rightarrow> bool px" where "eat_kw k \<equiv> eat (TKw k)"

text \<open>The tests of two tokens, which the code follows by \<^verbatim>\<open>self.i += 2\<close>.\<close>

definition eat2 :: "tok \<Rightarrow> tok \<Rightarrow> bool px" where
  "eat2 t u p = (if peek p = Some t \<and> peek2 p = Some u then sret True (p\<lparr>ps_i := ps_i p + 2\<rparr>) else sret False p)"

text \<open>The matches of the next token against a table of operators, followed by \<^verbatim>\<open>self.i += 1\<close>.\<close>

definition eat_op :: "(tok \<times> 'a) list \<Rightarrow> 'a option px" where
  "eat_op table p = (case Option.bind (peek p) (map_of table) of
     None \<Rightarrow> sret None p | Some x \<Rightarrow> sret (Some x) (p\<lparr>ps_i := ps_i p + 1\<rparr>))"

definition expect :: "tok \<Rightarrow> string \<Rightarrow> unit px" where
  "expect t what = sbind (eat t) (\<lambda>ok. if ok then sret () else fail_here (''se esperaba '' @ what))"

definition expect_kw :: "kw \<Rightarrow> string \<Rightarrow> unit px" where "expect_kw k what = expect (TKw k) what"

definition ident :: "string \<Rightarrow> bytes px" where
  "ident what p = (case peek p of
     Some (TIdent s) \<Rightarrow> sret s (p\<lparr>ps_i := ps_i p + 1\<rparr>)
   | _ \<Rightarrow> fail_here (''se esperaba '' @ what) p)"

section \<open>Loops\<close>

text \<open>
  A loop whose body reports whether to go on, with the number of tokens left as its fuel: each turn that goes on has
  consumed one.
\<close>

primrec repeat_loop :: "nat \<Rightarrow> ('a \<Rightarrow> 'a option px) \<Rightarrow> 'a \<Rightarrow> 'a px" where
  "repeat_loop 0 step a = (\<lambda>_. None)"
| "repeat_loop (Suc n) step a = sbind (step a) (\<lambda>r. case r of None \<Rightarrow> sret a | Some b \<Rightarrow> repeat_loop n step b)"

definition remaining :: "parser \<Rightarrow> nat" where "remaining p = length (ps_toks p) - ps_i p"

definition repeat_px :: "('a \<Rightarrow> 'a option px) \<Rightarrow> 'a \<Rightarrow> 'a px" where
  "repeat_px step a p = repeat_loop (Suc (remaining p)) step a p"

text \<open>The loops \<^verbatim>\<open>loop { xs.push(item()?); if !eat(Comma) { break } }\<close>, also written with a \<^verbatim>\<open>while\<close>.\<close>

definition comma_list :: "'a px \<Rightarrow> 'a list px" where
  "comma_list item = sbind item (\<lambda>x. repeat_px (\<lambda>xs.
     sbind (eat TComma) (\<lambda>c. if c then sbind item (\<lambda>y. sret (Some (xs @ [y]))) else sret None)) [x])"

definition idents :: "string \<Rightarrow> bytes list px" where "idents what = comma_list (ident what)"

text \<open>\<^verbatim>\<open>if eat_kw(k) { Some(item()?) } else { None }\<close>\<close>

definition optional_kw :: "kw \<Rightarrow> 'a px \<Rightarrow> 'a option px" where
  "optional_kw k item = sbind (eat_kw k) (\<lambda>b. if b then sbind item (\<lambda>x. sret (Some x)) else sret None)"

section \<open>The recursive calls\<close>

record grammar =
  g_expr :: "expr px"
  g_not :: "expr px"
  g_unary :: "expr px"
  g_select :: "select_stmt px"
  g_statement :: "stmt px"

section \<open>Clauses without expressions\<close>

definition coltype :: "col_type px" where
  "coltype = sbind next_tok (\<lambda>t.
     if t = Some (TKw ''INTEGER'') then sret ColInteger
     else if t = Some (TKw ''REAL'') then sret ColReal
     else if t = Some (TKw ''TEXT'') then sret ColText
     else if t = Some (TKw ''BLOB'') then sret ColBlob
     else if t = Some (TKw ''BOOLEAN'') then sret ColBoolean
     else fail_here ''se esperaba un tipo: INTEGER, REAL, TEXT, BLOB o BOOLEAN'')"

text \<open>The integer tokens are \<^verbatim>\<open>i64\<close>: the test that one is not negative, or positive.\<close>

definition nonneg_tok :: "tok option \<Rightarrow> u64 option" where
  "nonneg_tok t = (case t of Some (TInt n) \<Rightarrow> if 0 \<le> sint n then Some n else None | _ \<Rightarrow> None)"

definition positive_tok :: "tok option \<Rightarrow> u64 option" where
  "positive_tok t = (case t of Some (TInt n) \<Rightarrow> if 0 < sint n then Some n else None | _ \<Rightarrow> None)"

definition frame_bound :: "frame_bound px" where
  "frame_bound =
     sbind (eat_kw ''UNBOUNDED'') (\<lambda>u. if u then
       sbind (eat_kw ''PRECEDING'') (\<lambda>b. if b then sret UnboundedPreceding
         else then_px (expect_kw ''FOLLOWING'' ''FOLLOWING'') (sret UnboundedFollowing))
     else sbind (eat_kw ''CURRENT'') (\<lambda>c. if c then then_px (expect_kw ''ROW'' ''ROW'') (sret CurrentRow)
     else sbind next_tok (\<lambda>t. case nonneg_tok t of
         None \<Rightarrow> fail_here ''se esperaba un entero, UNBOUNDED o CURRENT''
       | Some n \<Rightarrow> sbind (eat_kw ''PRECEDING'') (\<lambda>b. if b then sret (Preceding (unat n))
           else sbind (eat_kw ''FOLLOWING'') (\<lambda>b. if b then sret (Following (unat n))
           else fail_here ''se esperaba PRECEDING o FOLLOWING'')))))"

definition window_frame :: "window_frame option px" where
  "window_frame = sbind (eat_kw ''ROWS'') (\<lambda>b.
     if \<not> b then sret None
     else sbind (eat_kw ''BETWEEN'') (\<lambda>b.
       if b then sbind frame_bound (\<lambda>start. then_px (expect_kw ''AND'' ''AND'')
         (sbind frame_bound (\<lambda>stop. sret (Some \<lparr>wf_start = start, wf_end = stop\<rparr>))))
       else sbind frame_bound (\<lambda>start. sret (Some \<lparr>wf_start = start, wf_end = CurrentRow\<rparr>))))"

definition as_of :: "as_of_clause option px" where
  "as_of = sbind (eat2 (TKw ''AS'') (TKw ''OF'')) (\<lambda>b.
     if \<not> b then sret None
     else sbind (eat_kw ''VERSION'') (\<lambda>b.
       if b then sbind here (\<lambda>pos. sbind next_tok (\<lambda>t. case nonneg_tok t of
           Some n \<Rightarrow> sret (Some (OfVersion n))
         | None \<Rightarrow> fail_at pos ''se esperaba un numero de version entero no negativo''))
       else sbind (eat_kw ''TIMESTAMP'') (\<lambda>b.
         if b then sbind here (\<lambda>pos. sbind next_tok (\<lambda>t. case t of
             Some (TStr s) \<Rightarrow> (case parse_rfc3339_ms s of
                 None \<Rightarrow> fail_at pos ''timestamp RFC 3339 invalido''
               | Some ms \<Rightarrow> sret (Some (OfTimestamp ms)))
           | _ \<Rightarrow> fail_at pos ''se esperaba un literal de timestamp RFC 3339 entre comillas''))
         else fail_here ''se esperaba VERSION o TIMESTAMP tras AS OF'')))"

section \<open>Parts of a query\<close>

definition ahead2 :: "tok \<Rightarrow> tok \<Rightarrow> bool px" where
  "ahead2 t u p = sret (peek p = Some t \<and> peek2 p = Some u) p"

definition alias_opt :: "bool \<Rightarrow> string \<Rightarrow> bytes option px" where
  "alias_opt also_bare what = sbind (ahead2 (TKw ''AS'') (TKw ''OF'')) (\<lambda>as_of_ahead.
     if as_of_ahead then sret None
     else sbind (eat_kw ''AS'') (\<lambda>b. sbind peeked (\<lambda>t.
       if b \<or> also_bare \<and> (case t of Some (TIdent _) \<Rightarrow> True | _ \<Rightarrow> False) then sbind (ident what) (\<lambda>a. sret (Some a)) else sret None)))"

definition table_ref :: "grammar \<Rightarrow> table_ref px" where
  "table_ref g = sbind (ahead2 TLParen (TKw ''SELECT'')) (\<lambda>b.
     if b then then_px (eat TLParen) (sbind (g_select g) (\<lambda>sub. then_px (expect TRParen '')'')
       (then_px (eat_kw ''AS'') (sbind (ident ''un alias para la subconsulta del FROM'') (\<lambda>a. sret (TableRef [] (Some a) (Some sub)))))))
     else sbind (ident ''un nombre de tabla'') (\<lambda>name. sbind (alias_opt True ''un alias de tabla'') (\<lambda>a. sret (TableRef name a None))))"

definition select_item :: "grammar \<Rightarrow> select_item px" where
  "select_item g = sbind (eat TStar) (\<lambda>b.
     if b then sret Star
     else sbind (g_expr g) (\<lambda>e. sbind (alias_opt False ''un alias de columna tras AS'') (\<lambda>a. sret (ItemExpr e a))))"

definition order_by_item :: "grammar \<Rightarrow> (expr \<times> bool) px" where
  "order_by_item g = sbind (g_expr g) (\<lambda>e. sbind (eat_kw ''DESC'') (\<lambda>desc.
     if desc then sret (e, True) else then_px (eat_kw ''ASC'') (sret (e, False))))"

definition order_by_items :: "grammar \<Rightarrow> (expr \<times> bool) list px" where
  "order_by_items g = comma_list (order_by_item g)"

definition join_kind_opt :: "join_kind option px" where
  "join_kind_opt = sbind (eat_kw ''INNER'') (\<lambda>b. if b then then_px (expect_kw ''JOIN'' ''JOIN'') (sret (Some JoinInner))
     else sbind (eat_kw ''LEFT'') (\<lambda>b. if b then then_px (expect_kw ''JOIN'' ''JOIN'') (sret (Some JoinLeft))
     else sbind (eat_kw ''JOIN'') (\<lambda>b. if b then sret (Some JoinInner) else sret None)))"

definition joins_px :: "grammar \<Rightarrow> (join_kind \<times> table_ref \<times> expr) list px" where
  "joins_px g = repeat_px (\<lambda>js. sbind join_kind_opt (\<lambda>k. case k of
       None \<Rightarrow> sret None
     | Some kind \<Rightarrow> sbind (table_ref g) (\<lambda>t. then_px (expect_kw ''ON'' ''ON'') (sbind (g_expr g) (\<lambda>on. sret (Some (js @ [(kind, t, on)]))))))) []"

definition select_core :: "grammar \<Rightarrow> select_stmt px" where
  "select_core g = then_px (expect_kw ''SELECT'' ''SELECT'') (sbind (eat_kw ''DISTINCT'') (\<lambda>distinct_kw.
     sbind (comma_list (select_item g)) (\<lambda>projection.
     sbind (optional_kw ''FROM'' (table_ref g)) (\<lambda>from.
     sbind (if from = None then sret [] else joins_px g) (\<lambda>joins.
     sbind (optional_kw ''WHERE'' (g_expr g)) (\<lambda>where_clause.
     sbind (optional_kw ''GROUP'' (then_px (expect_kw ''BY'' ''BY'') (comma_list (g_expr g)))) (\<lambda>group_by.
     sbind (optional_kw ''HAVING'' (g_expr g)) (\<lambda>having.
       sret (SelectStmt distinct_kw projection from joins where_clause (case group_by of None \<Rightarrow> [] | Some es \<Rightarrow> es) having
         [] None None None [] [])))))))))"

definition set_op_opt :: "set_op option px" where
  "set_op_opt = sbind (eat_kw ''UNION'') (\<lambda>b. if b then sbind (eat_kw ''ALL'') (\<lambda>all. sret (Some (if all then SetUnionAll else SetUnion)))
     else sbind (eat_kw ''INTERSECT'') (\<lambda>b. if b then sret (Some SetIntersect)
     else sbind (eat_kw ''EXCEPT'') (\<lambda>b. if b then sret (Some SetExcept) else sret None)))"

definition select :: "grammar \<Rightarrow> select_stmt px" where
  "select g = sbind (select_core g) (\<lambda>lead.
     sbind (repeat_px (\<lambda>cs. sbind set_op_opt (\<lambda>op. case op of
         None \<Rightarrow> sret None
       | Some op \<Rightarrow> sbind (select_core g) (\<lambda>s. sret (Some (cs @ [(op, s)]))))) []) (\<lambda>compound.
     sbind (optional_kw ''ORDER'' (then_px (expect_kw ''BY'' ''BY'') (order_by_items g))) (\<lambda>order_by.
     sbind (optional_kw ''LIMIT'' (g_expr g)) (\<lambda>limit.
     sbind (optional_kw ''OFFSET'' (g_expr g)) (\<lambda>offset.
     sbind as_of (\<lambda>as_of.
       sret (set_trailer compound (case order_by of None \<Rightarrow> [] | Some os \<Rightarrow> os) limit offset as_of lead)))))))"

definition with_ctes :: "grammar \<Rightarrow> (bytes \<times> select_stmt) list px" where
  "with_ctes g = then_px (expect_kw ''WITH'' ''WITH'') (then_px (eat_kw ''RECURSIVE'') (comma_list
     (sbind (ident ''un nombre de CTE'') (\<lambda>name. then_px (expect_kw ''AS'' ''AS'') (then_px (expect TLParen ''( tras AS'')
       (sbind (g_select g) (\<lambda>query. then_px (expect TRParen '')'') (sret (name, query)))))))))"

section \<open>Function calls\<close>

definition window_agg :: "agg_func \<Rightarrow> window_func" where
  "window_agg f = (case f of AggSum \<Rightarrow> WinSum | AggCount \<Rightarrow> WinCount | AggAvg \<Rightarrow> WinAvg | AggMin \<Rightarrow> WinMin | _ \<Rightarrow> WinMax)"

definition window_names :: "(bytes \<times> window_func) list" where
  "window_names = map (\<lambda>(s, w). (ascii_bytes s, w)) [(''ROW_NUMBER'', WinRowNumber), (''RANK'', WinRank), (''DENSE_RANK'', WinDenseRank),
     (''NTILE'', WinNtile), (''LAG'', WinLag), (''LEAD'', WinLead), (''FIRST_VALUE'', WinFirstValue), (''LAST_VALUE'', WinLastValue)]"

definition text_of :: "bytes \<Rightarrow> string" where "text_of bs = map (\<lambda>b. char_of (unat b)) bs"

definition window_call :: "expr \<Rightarrow> (window_func \<times> expr list) px" where
  "window_call call = (case call of
     EAggregate func arg distinct_kw sep \<Rightarrow>
       if distinct_kw then fail_here ''DISTINCT no se admite en una ventana''
       else if sep \<noteq> None \<or> func = AggGroupConcat then fail_here ''GROUP_CONCAT no se admite como ventana''
       else sret (window_agg func, case arg of None \<Rightarrow> [] | Some a \<Rightarrow> [a])
   | EFunction name args \<Rightarrow>
       let upper = to_ascii_uppercase name in
       (case map_of window_names upper of
          Some w \<Rightarrow> sret (w, args)
        | None \<Rightarrow> fail_here (''<<'' @ text_of upper @ ''>> no es una funcion de ventana''))
   | _ \<Rightarrow> fail_here ''OVER solo puede seguir a una funcion'')"

definition finish_call :: "grammar \<Rightarrow> expr \<Rightarrow> expr px" where
  "finish_call g call = sbind (eat_kw ''OVER'') (\<lambda>b.
     if \<not> b then sret call
     else sbind (window_call call) (\<lambda>(func, args).
       then_px (expect TLParen ''( tras OVER'')
       (sbind (optional_kw ''PARTITION'' (then_px (expect_kw ''BY'' ''BY'') (comma_list (g_expr g)))) (\<lambda>partition_by.
        sbind (optional_kw ''ORDER'' (then_px (expect_kw ''BY'' ''BY'') (order_by_items g))) (\<lambda>order_by.
        sbind window_frame (\<lambda>frame. then_px (expect TRParen '')'')
          (sret (EWindow func args (case partition_by of None \<Rightarrow> [] | Some es \<Rightarrow> es) (case order_by of None \<Rightarrow> [] | Some os \<Rightarrow> os) frame))))))))"

text \<open>The arguments of a call: \<^verbatim>\<open>if peek != RParen { loop { ... } }\<close>.\<close>

definition call_args :: "grammar \<Rightarrow> expr list px" where
  "call_args g = sbind peeked (\<lambda>t. if t = Some TRParen then sret [] else comma_list (g_expr g))"

definition case_expr :: "grammar \<Rightarrow> expr px" where
  "case_expr g = sbind peeked (\<lambda>t.
     sbind (if t = Some (TKw ''WHEN'') then sret None else sbind (g_expr g) (\<lambda>e. sret (Some e))) (\<lambda>operand.
     sbind (repeat_px (\<lambda>ws. sbind (eat_kw ''WHEN'') (\<lambda>b.
         if b then sbind (g_expr g) (\<lambda>cond. then_px (expect_kw ''THEN'' ''THEN'') (sbind (g_expr g) (\<lambda>r. sret (Some (ws @ [(cond, r)])))))
         else sret None)) []) (\<lambda>whens.
     if whens = [] then fail_here ''CASE necesita al menos un WHEN ... THEN''
     else sbind (optional_kw ''ELSE'' (g_expr g)) (\<lambda>els.
       then_px (expect_kw ''END'' ''END'') (sret (ECase operand whens els))))))"

definition min_max_call :: "grammar \<Rightarrow> bytes \<Rightarrow> agg_func \<Rightarrow> expr px" where
  "min_max_call g name func = sbind (eat_kw ''DISTINCT'') (\<lambda>distinct_kw.
     if distinct_kw then sbind (g_expr g) (\<lambda>arg. then_px (expect TRParen '')'') (finish_call g (EAggregate func (Some arg) True None)))
     else sbind (call_args g) (\<lambda>margs. then_px (expect TRParen '')'')
       (case margs of
          [a] \<Rightarrow> finish_call g (EAggregate func (Some a) False None)
        | _ \<Rightarrow> finish_call g (EFunction name margs))))"

definition aggregate_call :: "grammar \<Rightarrow> nat \<Rightarrow> agg_func \<Rightarrow> expr px" where
  "aggregate_call g pos func = sbind (eat_kw ''DISTINCT'') (\<lambda>distinct_kw. sbind (eat TStar) (\<lambda>star.
     sbind (if star then
         if distinct_kw then fail_at pos ''DISTINCT no admite *''
         else if func \<noteq> AggCount then fail_at pos ''solo COUNT admite *''
         else sret None
       else sbind (g_expr g) (\<lambda>e. sret (Some e))) (\<lambda>arg.
     sbind (if func = AggGroupConcat then sbind (eat TComma) (\<lambda>c. if c then sbind (g_expr g) (\<lambda>e. sret (Some e)) else sret None)
       else sret None) (\<lambda>sep.
     then_px (expect TRParen '')'') (finish_call g (EAggregate func arg distinct_kw sep))))))"

definition scalar_call :: "grammar \<Rightarrow> nat \<Rightarrow> bytes \<Rightarrow> expr px" where
  "scalar_call g pos name = sbind (call_args g) (\<lambda>args. then_px (expect TRParen '')'')
     (if to_ascii_uppercase name = ascii_bytes ''IIF'' then
        (case args of
           [cond, yes, no] \<Rightarrow> sret (ECase None [(cond, yes)] (Some no))
         | _ \<Rightarrow> fail_at pos ''iif() requiere exactamente 3 argumentos'')
      else finish_call g (EFunction name args)))"

definition aggregate_names :: "(bytes \<times> agg_func) list" where
  "aggregate_names = map (\<lambda>(s, f). (ascii_bytes s, f))
     [(''COUNT'', AggCount), (''SUM'', AggSum), (''AVG'', AggAvg), (''GROUP_CONCAT'', AggGroupConcat)]"

definition named_call :: "grammar \<Rightarrow> nat \<Rightarrow> bytes \<Rightarrow> expr px" where
  "named_call g pos name =
     (let upper = to_ascii_uppercase name in
      if upper = ascii_bytes ''MIN'' then min_max_call g name AggMin
      else if upper = ascii_bytes ''MAX'' then min_max_call g name AggMax
      else case map_of aggregate_names upper of
          Some func \<Rightarrow> aggregate_call g pos func
        | None \<Rightarrow> scalar_call g pos name)"

section \<open>Expressions\<close>

primrec name_index :: "bytes \<Rightarrow> bytes list \<Rightarrow> nat option" where
  "name_index x [] = None"
| "name_index x (y # ys) = (if y = x then Some 0 else map_option Suc (name_index x ys))"

definition mix_params :: string where
  "mix_params = ''no se pueden mezclar parametros posicionales (?N) y nombrados (:nombre)''"

definition positional_param :: "nat \<Rightarrow> nat \<Rightarrow> expr px" where
  "positional_param pos n p =
     (if ps_param_names p \<noteq> [] then fail_at pos mix_params p else sret (EParam n) (p\<lparr>ps_positional_seen := True\<rparr>))"

definition named_param :: "nat \<Rightarrow> bytes \<Rightarrow> expr px" where
  "named_param pos name p =
     (if ps_positional_seen p then fail_at pos mix_params p
      else case name_index name (ps_param_names p) of
          Some i \<Rightarrow> sret (EParam (i + 1)) p
        | None \<Rightarrow> sret (EParam (length (ps_param_names p) + 1)) (p\<lparr>ps_param_names := ps_param_names p @ [name]\<rparr>))"

definition paren_expr :: "grammar \<Rightarrow> expr px" where
  "paren_expr g = sbind peeked (\<lambda>t.
     if t = Some (TKw ''SELECT'') then sbind (g_select g) (\<lambda>sub. then_px (expect TRParen '')'') (sret (EScalarSubquery sub)))
     else sbind (g_expr g) (\<lambda>e. then_px (expect TRParen '')'') (sret e)))"

definition ident_expr :: "grammar \<Rightarrow> nat \<Rightarrow> bytes \<Rightarrow> expr px" where
  "ident_expr g pos name = sbind (eat TDot) (\<lambda>b.
     if b then sbind (ident ''un nombre de columna'') (\<lambda>col. sret (EColumn (Some name) col))
     else sbind (eat TLParen) (\<lambda>b. if b then named_call g pos name else sret (EColumn None name)))"

definition primary_kw :: "grammar \<Rightarrow> nat \<Rightarrow> kw \<Rightarrow> expr px" where
  "primary_kw g pos k =
     (if k = ''NULL'' then sret (ELiteral Null)
      else if k = ''TRUE'' then sret (ELiteral (Bool True))
      else if k = ''FALSE'' then sret (ELiteral (Bool False))
      else if k = ''CAST'' then
        then_px (expect TLParen ''( tras CAST'') (sbind (g_expr g) (\<lambda>inner. then_px (expect_kw ''AS'' ''AS'')
          (sbind coltype (\<lambda>to. then_px (expect TRParen '')'') (sret (ECast inner to))))))
      else if k = ''CASE'' then case_expr g
      else if k = ''VECTOR'' then
        then_px (expect TLParen ''( tras vector'') (sbind (call_args g) (\<lambda>args. then_px (expect TRParen '')'')
          (finish_call g (EFunction (ascii_bytes ''vector'') args))))
      else if k = ''EXISTS'' then
        then_px (expect TLParen ''( tras EXISTS'') (sbind (g_select g) (\<lambda>sub. then_px (expect TRParen '')'') (sret (EExists sub))))
      else fail_at pos ''se esperaba una expresion'')"

definition primary_tok :: "grammar \<Rightarrow> nat \<Rightarrow> tok \<Rightarrow> expr px" where
  "primary_tok g pos t = (case t of
     TInt n \<Rightarrow> sret (ELiteral (Integer n))
   | TFloat f \<Rightarrow> sret (ELiteral (Real f))
   | TStr s \<Rightarrow> sret (ELiteral (Text s))
   | TBlob b \<Rightarrow> sret (ELiteral (Blob b))
   | TKw k \<Rightarrow> primary_kw g pos k
   | TParam n \<Rightarrow> positional_param pos n
   | TNamedParam name \<Rightarrow> named_param pos name
   | TIdent name \<Rightarrow> ident_expr g pos name
   | TLParen \<Rightarrow> paren_expr g
   | _ \<Rightarrow> fail_at pos ''se esperaba una expresion'')"

definition primary :: "grammar \<Rightarrow> expr px" where
  "primary g = sbind here (\<lambda>pos. sbind next_tok (\<lambda>t. case t of
     None \<Rightarrow> fail_at pos ''se esperaba una expresion'' | Some t \<Rightarrow> primary_tok g pos t))"

definition unary_expr :: "grammar \<Rightarrow> expr px" where
  "unary_expr g = sbind (eat TMinus) (\<lambda>b. if b then sbind (g_unary g) (\<lambda>e. sret (EUnary OpNeg e)) else primary g)"

text \<open>The loops of the binary operators of one precedence, which associate to the left.\<close>

definition left_assoc :: "(tok \<times> bin_op) list \<Rightarrow> expr px \<Rightarrow> expr px" where
  "left_assoc table operand = sbind operand (repeat_px (\<lambda>left. sbind (eat_op table) (\<lambda>op. case op of
       None \<Rightarrow> sret None
     | Some op \<Rightarrow> sbind operand (\<lambda>right. sret (Some (EBinary left op right))))))"

definition concat_expr :: "grammar \<Rightarrow> expr px" where
  "concat_expr g = left_assoc [(TConcat, OpConcat), (TArrow, OpJsonGet), (TArrowArrow, OpJsonGetText)] (unary_expr g)"

definition mul_expr :: "grammar \<Rightarrow> expr px" where
  "mul_expr g = left_assoc [(TStar, OpMul), (TSlash, OpDiv), (TPercent, OpMod)] (concat_expr g)"

definition add_expr :: "grammar \<Rightarrow> expr px" where
  "add_expr g = left_assoc [(TPlus, OpAdd), (TMinus, OpSub)] (mul_expr g)"

definition in_list :: "grammar \<Rightarrow> expr \<Rightarrow> bool \<Rightarrow> expr px" where
  "in_list g left negated = then_px (expect TLParen ''( tras IN'') (sbind peeked (\<lambda>t.
     if t = Some (TKw ''SELECT'') then sbind (g_select g) (\<lambda>sub. then_px (expect TRParen '')'') (sret (EInSubquery left sub negated)))
     else sbind (call_args g) (\<lambda>xs. then_px (expect TRParen '')'') (sret (EIn left xs negated)))))"

definition between :: "grammar \<Rightarrow> expr \<Rightarrow> bool \<Rightarrow> expr px" where
  "between g left negated = sbind (add_expr g) (\<lambda>lo. then_px (expect_kw ''AND'' ''AND'') (sbind (add_expr g) (\<lambda>hi.
     sret (if negated then EBinary (EBinary left OpLt lo) OpOr (EBinary left OpGt hi)
       else EBinary (EBinary left OpGe lo) OpAnd (EBinary left OpLe hi)))))"

definition compare_ops :: "(tok \<times> bin_op) list" where
  "compare_ops = [(TEq, OpEq), (TNe, OpNe), (TLt, OpLt), (TLe, OpLe), (TGt, OpGt), (TGe, OpGe)]"

text \<open>\<^verbatim>\<open>[NOT] k\<close>: whether it is there, and negated.\<close>

definition eat_negatable :: "kw \<Rightarrow> bool option px" where
  "eat_negatable k = sbind (eat2 (TKw ''NOT'') (TKw k)) (\<lambda>b. if b then sret (Some True)
     else sbind (eat_kw k) (\<lambda>b. sret (if b then Some False else None)))"

definition cmp_rest :: "grammar \<Rightarrow> expr \<Rightarrow> expr px" where
  "cmp_rest g left = sbind (eat_kw ''IS'') (\<lambda>b.
     if b then sbind (eat_kw ''NOT'') (\<lambda>negated. then_px (expect_kw ''NULL'' ''NULL'') (sret (EIsNull left negated)))
     else sbind (eat_negatable ''LIKE'') (\<lambda>n. case n of
       Some negated \<Rightarrow> sbind (add_expr g) (\<lambda>pattern. sret (ELike left pattern negated))
     | None \<Rightarrow> sbind (eat_negatable ''MATCH'') (\<lambda>n. case n of
       Some negated \<Rightarrow> sbind (add_expr g) (\<lambda>query. sret (EMatch left query negated))
     | None \<Rightarrow> sbind (eat_negatable ''IN'') (\<lambda>n. case n of
       Some negated \<Rightarrow> in_list g left negated
     | None \<Rightarrow> sbind (eat_negatable ''BETWEEN'') (\<lambda>n. case n of
       Some negated \<Rightarrow> between g left negated
     | None \<Rightarrow> sbind (eat_op compare_ops) (\<lambda>op. case op of
         None \<Rightarrow> sret left
       | Some op \<Rightarrow> sbind (add_expr g) (\<lambda>right. sret (EBinary left op right))))))))"

definition cmp_expr :: "grammar \<Rightarrow> expr px" where "cmp_expr g = sbind (add_expr g) (cmp_rest g)"

definition not_expr :: "grammar \<Rightarrow> expr px" where
  "not_expr g = sbind (eat_kw ''NOT'') (\<lambda>b. if b then sbind (g_not g) (\<lambda>e. sret (EUnary OpNot e)) else cmp_expr g)"

definition and_expr :: "grammar \<Rightarrow> expr px" where "and_expr g = left_assoc [(TKw ''AND'', OpAnd)] (not_expr g)"

definition or_expr :: "grammar \<Rightarrow> expr px" where "or_expr g = left_assoc [(TKw ''OR'', OpOr)] (and_expr g)"

text \<open>The depth is counted on the way in and restored on every way out.\<close>

definition expr_px :: "grammar \<Rightarrow> expr px" where
  "expr_px g p =
     (let p = p\<lparr>ps_depth := ps_depth p + 1\<rparr> in
      if MAX_EXPR_DEPTH < ps_depth p then fail_here ''expresion demasiado anidada'' (p\<lparr>ps_depth := ps_depth p - 1\<rparr>)
      else map_option (\<lambda>(r, p). (r, p\<lparr>ps_depth := ps_depth p - 1\<rparr>)) (or_expr g p))"

end
