(* ===== verification/ParserStmt.thy ===== *)
theory ParserStmt
  imports Parser
begin

text \<open>
  Statements (\<^verbatim>\<open>src/sql/parser.rs\<close>), the grammar of every level, and the entry points \<^verbatim>\<open>parse_full\<close> and
  \<^verbatim>\<open>parse_many\<close>.
\<close>

section \<open>Slices of the text\<close>

text \<open>
  \<^verbatim>\<open>self.src[a..b].trim().to_string()\<close>.  A slice that is not within the text, or cuts a character, panics.
\<close>

definition is_whitespace :: "uchar \<Rightarrow> bool" where
  "is_whitespace c \<longleftrightarrow> (9 \<le> c \<and> c \<le> 13) \<or> (8192 \<le> c \<and> c \<le> 8202) \<or> c \<in> {32, 133, 160, 5760, 8232, 8233, 8239, 8287, 12288}"

definition trim :: "ustr \<Rightarrow> ustr" where
  "trim s = rev (dropWhile is_whitespace (rev (dropWhile is_whitespace s)))"

definition trimmed_slice :: "bytes \<Rightarrow> nat \<Rightarrow> nat \<Rightarrow> bytes res" where
  "trimmed_slice src a b =
     (if a \<le> b \<and> b \<le> length src then
        (case utf8_decode (byte_slice src a b) of None \<Rightarrow> Inl Panic | Some cs \<Rightarrow> Inr (utf8_bytes (trim cs)))
      else Inl Panic)"

text \<open>The text that a parser consumed, as the three places that store SQL text take it.\<close>

definition source_text :: "unit px \<Rightarrow> bytes px" where
  "source_text m = sbind here (\<lambda>start. then_px m (sbind here (\<lambda>stop p. slift (trimmed_slice (ps_src p) start stop) p)))"

section \<open>Schema statements\<close>

definition if_not_exists :: "bool px" where
  "if_not_exists = sbind (eat_kw ''IF'') (\<lambda>b.
     if b then then_px (expect_kw ''NOT'' ''NOT'') (then_px (expect_kw ''EXISTS'' ''EXISTS'') (sret True)) else sret False)"

definition if_exists :: "bool px" where
  "if_exists = sbind (eat_kw ''IF'') (\<lambda>b. if b then then_px (expect_kw ''EXISTS'' ''EXISTS'') (sret True) else sret False)"

definition paren_idents :: "string \<Rightarrow> bytes list px" where
  "paren_idents what = then_px (expect TLParen ''('') (sbind (idents what) (\<lambda>cols. then_px (expect TRParen '')'') (sret cols)))"

definition fk_action :: "fk_action px" where
  "fk_action = sbind (eat_kw ''CASCADE'') (\<lambda>b. if b then sret Cascade
     else sbind (eat_kw ''RESTRICT'') (\<lambda>b. if b then sret Restrict
     else sbind (eat_kw ''SET'') (\<lambda>b. if b then then_px (expect_kw ''NULL'' ''NULL'') (sret SetNull)
     else fail_here ''se esperaba CASCADE, RESTRICT o SET NULL'')))"

definition fk_actions :: "(fk_action \<times> fk_action) px" where
  "fk_actions = repeat_px (\<lambda>(on_delete, on_update). sbind (eat_kw ''ON'') (\<lambda>b.
     if \<not> b then sret None
     else sbind (eat_kw ''DELETE'') (\<lambda>d. sbind (if d then sret True
         else sbind (eat_kw ''UPDATE'') (\<lambda>u. if u then sret False else fail_here ''se esperaba DELETE o UPDATE tras ON'')) (\<lambda>is_delete.
       sbind fk_action (\<lambda>action. sret (Some (if is_delete then (action, on_update) else (on_delete, action)))))))) (Restrict, Restrict)"

definition table_fk :: "foreign_key_spec px" where
  "table_fk = then_px (expect_kw ''FOREIGN'' ''FOREIGN'') (then_px (expect_kw ''KEY'' ''KEY'')
     (sbind (paren_idents ''una columna'') (\<lambda>columns. then_px (expect_kw ''REFERENCES'' ''REFERENCES'')
     (sbind (ident ''una tabla padre'') (\<lambda>parent.
      sbind (eat TLParen) (\<lambda>b.
      sbind (if b then sbind (idents ''una columna del padre'') (\<lambda>cs. then_px (expect TRParen '')'') (sret cs)) else sret []) (\<lambda>parent_columns.
      sbind fk_actions (\<lambda>(on_delete, on_update).
        sret \<lparr>fs_columns = columns, fs_parent = parent, fs_parent_columns = parent_columns, fs_on_delete = on_delete,
          fs_on_update = on_update\<rparr>))))))))"

definition fk_reference :: "column_fk px" where
  "fk_reference = sbind (ident ''una tabla padre'') (\<lambda>parent. sbind (eat TLParen) (\<lambda>b.
     sbind (if b then sbind (ident ''una columna del padre'') (\<lambda>c. then_px (expect TRParen '')'') (sret (Some c))) else sret None) (\<lambda>column.
     sbind fk_actions (\<lambda>(on_delete, on_update).
       sret \<lparr>cf_parent = parent, cf_parent_column = column, cf_on_delete = on_delete, cf_on_update = on_update\<rparr>))))"

definition check_clause :: "grammar \<Rightarrow> bytes px" where
  "check_clause g = then_px (expect TLParen ''( tras CHECK'') (sbind (source_text (then_px (g_expr g) (sret ()))) (\<lambda>text.
     then_px (expect TRParen '')'') (sret text)))"

definition column_option :: "grammar \<Rightarrow> column_ast \<Rightarrow> column_ast option px" where
  "column_option g col =
     sbind (eat_kw ''PRIMARY'') (\<lambda>b. if b then then_px (expect_kw ''KEY'' ''KEY'') (sret (Some (col\<lparr>ca_primary_key := True\<rparr>)))
     else sbind (eat_kw ''NOT'') (\<lambda>b. if b then then_px (expect_kw ''NULL'' ''NULL'') (sret (Some (col\<lparr>ca_not_null := True\<rparr>)))
     else sbind (eat_kw ''DEFAULT'') (\<lambda>b. if b then sbind (g_expr g) (\<lambda>e. sret (Some (col\<lparr>ca_default := Some e\<rparr>)))
     else sbind (eat_kw ''REFERENCES'') (\<lambda>b. if b then sbind fk_reference (\<lambda>r. sret (Some (col\<lparr>ca_references := Some r\<rparr>)))
     else sbind (eat_kw ''UNIQUE'') (\<lambda>b. if b then sret (Some (col\<lparr>ca_unique := True\<rparr>))
     else sbind (eat_kw ''CHECK'') (\<lambda>b. if b then sbind (check_clause g) (\<lambda>t. sret (Some (col\<lparr>ca_check := Some t\<rparr>)))
     else sret None))))))"

definition column_def :: "grammar \<Rightarrow> column_ast px" where
  "column_def g = sbind (ident ''un nombre de columna'') (\<lambda>name. sbind coltype (\<lambda>ty.
     repeat_px (column_option g) \<lparr>ca_name = name, ca_col_type = ty, ca_not_null = False, ca_primary_key = False, ca_default = None,
       ca_references = None, ca_unique = False, ca_check = None\<rparr>))"

text \<open>
  The query of \<^verbatim>\<open>CREATE TABLE .. AS\<close> and of \<^verbatim>\<open>INSERT\<close>.  The code eats \<^verbatim>\<open>WITH\<close> and calls \<^verbatim>\<open>with_ctes\<close>, which expects it.
\<close>

definition query_after_kw :: "grammar \<Rightarrow> select_stmt px" where
  "query_after_kw g = sbind (eat_kw ''WITH'') (\<lambda>b.
     if b then sbind (with_ctes g) (\<lambda>ctes. sbind (select g) (\<lambda>s. sret (set_with ctes s))) else select g)"

datatype table_clause = ItemFk foreign_key_spec | ItemUnique "bytes list" | ItemCheck bytes | ItemColumn column_ast

definition table_item :: "grammar \<Rightarrow> table_clause px" where
  "table_item g = sbind peeked (\<lambda>t.
     if t = Some (TKw ''FOREIGN'') then sbind table_fk (\<lambda>fk. sret (ItemFk fk))
     else sbind (eat_kw ''UNIQUE'') (\<lambda>b. if b then sbind (paren_idents ''una columna'') (\<lambda>cols. sret (ItemUnique cols))
     else sbind (eat_kw ''CHECK'') (\<lambda>b. if b then sbind (check_clause g) (\<lambda>c. sret (ItemCheck c))
     else sbind (column_def g) (\<lambda>c. sret (ItemColumn c)))))"

definition table_of_items :: "bool \<Rightarrow> bytes \<Rightarrow> table_clause list \<Rightarrow> create_table_ast" where
  "table_of_items if_not name items =
     \<lparr>ct_if_not_exists = if_not, ct_name = name,
      ct_columns = List.map_filter (\<lambda>x. case x of ItemColumn c \<Rightarrow> Some c | _ \<Rightarrow> None) items,
      ct_foreign_keys = List.map_filter (\<lambda>x. case x of ItemFk c \<Rightarrow> Some c | _ \<Rightarrow> None) items,
      ct_uniques = List.map_filter (\<lambda>x. case x of ItemUnique c \<Rightarrow> Some c | _ \<Rightarrow> None) items,
      ct_checks = List.map_filter (\<lambda>x. case x of ItemCheck c \<Rightarrow> Some c | _ \<Rightarrow> None) items\<rparr>"

definition create_table :: "grammar \<Rightarrow> stmt px" where
  "create_table g = then_px (expect_kw ''TABLE'' ''TABLE'') (sbind if_not_exists (\<lambda>if_not. sbind (ident ''un nombre de tabla'') (\<lambda>name.
     sbind (eat_kw ''AS'') (\<lambda>b.
       if b then sbind (query_after_kw g) (\<lambda>query. sret (CreateTableAs if_not name query))
       else then_px (expect TLParen ''('') (sbind (comma_list (table_item g)) (\<lambda>items. then_px (expect TRParen '')'')
         (sret (CreateTable (table_of_items if_not name items)))))))))"

definition create_index :: "stmt px" where
  "create_index = sbind (eat_kw ''UNIQUE'') (\<lambda>uniq. then_px (expect_kw ''INDEX'' ''INDEX'') (sbind if_not_exists (\<lambda>if_not.
     sbind (ident ''un nombre de indice'') (\<lambda>name. then_px (expect_kw ''ON'' ''ON'') (sbind (ident ''un nombre de tabla'') (\<lambda>table.
     sbind (paren_idents ''un nombre de columna'') (\<lambda>columns. sret (CreateIndex if_not uniq name table columns))))))))"

definition create_fts_index :: "stmt px" where
  "create_fts_index = then_px (expect_kw ''FULLTEXT'' ''FULLTEXT'') (then_px (expect_kw ''INDEX'' ''INDEX'') (sbind if_not_exists (\<lambda>if_not.
     sbind (ident ''un nombre de indice'') (\<lambda>name. then_px (expect_kw ''ON'' ''ON'') (sbind (ident ''un nombre de tabla'') (\<lambda>table.
     sbind (paren_idents ''un nombre de columna'') (\<lambda>columns.
     sbind (optional_kw ''USING'' (ident ''un nombre de tokenizer'')) (\<lambda>tokenizer.
       sret (CreateFtsIndex if_not name table columns tokenizer)))))))))"

definition positive_u32 :: "kw \<Rightarrow> u32 option px" where
  "positive_u32 k = optional_kw k (sbind next_tok (\<lambda>t. case positive_tok t of
     Some n \<Rightarrow> sret (ucast n)
   | None \<Rightarrow> fail_here (''se esperaba un entero positivo tras '' @ k)))"

definition create_vector_index :: "stmt px" where
  "create_vector_index = then_px (expect_kw ''VECTOR'' ''VECTOR'') (then_px (expect_kw ''INDEX'' ''INDEX'') (sbind if_not_exists (\<lambda>if_not.
     sbind (ident ''un nombre de indice'') (\<lambda>name. then_px (expect_kw ''ON'' ''ON'') (sbind (ident ''un nombre de tabla'') (\<lambda>table.
     then_px (expect TLParen ''('') (sbind (ident ''un nombre de columna'') (\<lambda>column. then_px (expect TRParen '')'')
     (sbind (optional_kw ''USING'' (ident ''una metrica (cosine|l2)'')) (\<lambda>metric.
      sbind (positive_u32 ''LISTS'') (\<lambda>lists.
      sbind (positive_u32 ''PROBES'') (\<lambda>probes.
      sbind (optional_kw ''RERANK'' (sbind (ident ''el modo de re-rank (int8)'') (\<lambda>mode.
        if to_ascii_uppercase mode = ascii_bytes ''INT8'' then sret () else fail_here ''RERANK solo admite `int8`''))) (\<lambda>rerank.
        sret (CreateVectorIndex \<lparr>cv_if_not_exists = if_not, cv_name = name, cv_table = table, cv_column = column, cv_metric = metric,
          cv_lists = lists, cv_probes = probes, cv_rerank_i8 = (rerank \<noteq> None)\<rparr>))))))))))))))"

definition drop_vector_index :: "stmt px" where
  "drop_vector_index = then_px (expect_kw ''VECTOR'' ''VECTOR'') (then_px (expect_kw ''INDEX'' ''INDEX'') (sbind if_exists (\<lambda>b.
     sbind (ident ''un nombre de indice'') (\<lambda>name. sret (DropVectorIndex b name)))))"

definition drop_fts_index :: "stmt px" where
  "drop_fts_index = then_px (expect_kw ''FULLTEXT'' ''FULLTEXT'') (then_px (expect_kw ''INDEX'' ''INDEX'') (sbind if_exists (\<lambda>b.
     sbind (ident ''un nombre de indice'') (\<lambda>name. sret (DropFtsIndex b name)))))"

definition drop_index :: "stmt px" where
  "drop_index = then_px (expect_kw ''INDEX'' ''INDEX'') (sbind if_exists (\<lambda>b.
     sbind (ident ''un nombre de indice'') (\<lambda>name. sret (DropIndex b name))))"

definition drop_table :: "stmt px" where
  "drop_table = then_px (expect_kw ''TABLE'' ''TABLE'') (sbind if_exists (\<lambda>b.
     sbind (ident ''un nombre de tabla'') (\<lambda>name. sret (DropTable b name))))"

definition rebuild_vector_index :: "stmt px" where
  "rebuild_vector_index = then_px (expect_kw ''REBUILD'' ''REBUILD'') (then_px (expect_kw ''VECTOR'' ''VECTOR'')
     (then_px (expect_kw ''INDEX'' ''INDEX'') (sbind (ident ''un nombre de indice'') (\<lambda>name. sret (RebuildVectorIndex name)))))"

definition create_view :: "grammar \<Rightarrow> stmt px" where
  "create_view g = then_px (expect_kw ''VIEW'' ''VIEW'') (sbind if_not_exists (\<lambda>if_not. sbind (ident ''un nombre de vista'') (\<lambda>name.
     then_px (expect_kw ''AS'' ''AS'') (sbind (source_text (then_px (select g) (sret ()))) (\<lambda>sql. sret (CreateView if_not name sql))))))"

definition trigger_timing :: "trigger_timing px" where
  "trigger_timing = sbind (eat_kw ''BEFORE'') (\<lambda>b. if b then sret TimingBefore
     else sbind (eat_kw ''AFTER'') (\<lambda>b. if b then sret TimingAfter
     else sbind (eat_kw ''INSTEAD'') (\<lambda>b. if b then then_px (expect_kw ''OF'' ''OF'') (sret TimingInsteadOf)
     else fail_here ''se esperaba BEFORE, AFTER o INSTEAD OF'')))"

definition trigger_event :: "trigger_event px" where
  "trigger_event = sbind (eat_kw ''INSERT'') (\<lambda>b. if b then sret EventInsert
     else sbind (eat_kw ''UPDATE'') (\<lambda>b. if b then sret EventUpdate
     else sbind (eat_kw ''DELETE'') (\<lambda>b. if b then sret EventDelete
     else fail_here ''se esperaba INSERT, UPDATE o DELETE'')))"

definition trigger_for_each :: "trigger_for_each px" where
  "trigger_for_each = sbind (eat_kw ''FOR'') (\<lambda>b.
     if \<not> b then sret EachRow
     else then_px (expect_kw ''EACH'' ''EACH'') (sbind (eat_kw ''ROW'') (\<lambda>b. if b then sret EachRow
     else sbind (eat_kw ''STATEMENT'') (\<lambda>b. if b then sret EachStatement
     else fail_here ''se esperaba ROW o STATEMENT''))))"

definition trigger_body :: "grammar \<Rightarrow> unit px" where
  "trigger_body g = repeat_px (\<lambda>_. sbind peeked (\<lambda>t.
     if t = Some (TKw ''END'') \<or> t = None then sret None
     else then_px (g_statement g) (then_px (eat TSemi) (sret (Some ()))))) ()"

definition create_trigger :: "grammar \<Rightarrow> stmt px" where
  "create_trigger g = then_px (expect_kw ''TRIGGER'' ''TRIGGER'') (sbind if_not_exists (\<lambda>if_not. sbind (ident ''un nombre de trigger'') (\<lambda>name.
     sbind trigger_timing (\<lambda>timing. sbind trigger_event (\<lambda>event. then_px (expect_kw ''ON'' ''ON'')
     (sbind (ident ''una tabla'') (\<lambda>table. sbind trigger_for_each (\<lambda>for_each. then_px (expect_kw ''BEGIN'' ''BEGIN'')
     (sbind (source_text (trigger_body g)) (\<lambda>body. then_px (expect_kw ''END'' ''END'')
       (sret (CreateTrigger if_not name timing event for_each table body))))))))))))"

definition create :: "grammar \<Rightarrow> stmt px" where
  "create g = then_px (expect_kw ''CREATE'' ''CREATE'') (sbind peeked (\<lambda>t.
     if t = Some (TKw ''FULLTEXT'') then create_fts_index
     else if t = Some (TKw ''VECTOR'') then create_vector_index
     else if t = Some (TKw ''UNIQUE'') \<or> t = Some (TKw ''INDEX'') then create_index
     else if t = Some (TKw ''VIEW'') then create_view g
     else if t = Some (TKw ''TRIGGER'') then create_trigger g
     else create_table g))"

definition drop_stmt :: "stmt px" where
  "drop_stmt = then_px (expect_kw ''DROP'' ''DROP'') (sbind peeked (\<lambda>t.
     if t = Some (TKw ''FULLTEXT'') then drop_fts_index
     else if t = Some (TKw ''VECTOR'') then drop_vector_index
     else if t = Some (TKw ''INDEX'') then drop_index
     else if t = Some (TKw ''VIEW'') then
       then_px (expect_kw ''VIEW'' ''VIEW'') (sbind if_exists (\<lambda>b. sbind (ident ''un nombre de vista'') (\<lambda>name. sret (DropView b name))))
     else if t = Some (TKw ''TRIGGER'') then
       then_px (expect_kw ''TRIGGER'' ''TRIGGER'') (sbind if_exists (\<lambda>b. sbind (ident ''un nombre de trigger'') (\<lambda>name. sret (DropTrigger b name))))
     else drop_table))"

definition column_pos :: "column_pos px" where
  "column_pos = sbind (eat_kw ''FIRST'') (\<lambda>b. if b then sret PosFirst
     else sbind (eat_kw ''BEFORE'') (\<lambda>b. if b then sbind (ident ''un nombre de columna'') (\<lambda>c. sret (PosBefore c))
     else sbind (eat_kw ''AFTER'') (\<lambda>b. if b then sbind (ident ''un nombre de columna'') (\<lambda>c. sret (PosAfter c))
     else fail_here ''se esperaba FIRST, BEFORE o AFTER'')))"

definition alter_table :: "grammar \<Rightarrow> stmt px" where
  "alter_table g = then_px (expect_kw ''ALTER'' ''ALTER'') (then_px (expect_kw ''TABLE'' ''TABLE'')
     (sbind (ident ''un nombre de tabla'') (\<lambda>table.
      sbind (eat_kw ''ADD'') (\<lambda>b. if b then then_px (eat_kw ''COLUMN'') (sbind (column_def g) (\<lambda>c. sret (AlterTableAddColumn table c)))
      else sbind (eat_kw ''MOVE'') (\<lambda>b. if b then then_px (expect_kw ''COLUMN'' ''COLUMN'')
        (sbind (ident ''un nombre de columna'') (\<lambda>column. sbind column_pos (\<lambda>pos. sret (AlterTableMoveColumn table column pos))))
      else sbind (eat_kw ''REORDER'') (\<lambda>b. if b then then_px (expect_kw ''COLUMNS'' ''COLUMNS'')
        (sbind (paren_idents ''un nombre de columna'') (\<lambda>order. sret (AlterTableReorderColumns table order)))
      else sbind (eat_kw ''RENAME'') (\<lambda>b. if b then then_px (eat_kw ''COLUMN'') (sbind (ident ''un nombre de columna'') (\<lambda>old.
        then_px (expect_kw ''TO'' ''TO'') (sbind (ident ''un nombre de columna'') (\<lambda>new. sret (AlterTableRenameColumn table old new)))))
      else sbind (eat_kw ''DROP'') (\<lambda>b. if b then then_px (eat_kw ''COLUMN'')
        (sbind (ident ''un nombre de columna'') (\<lambda>column. sret (AlterTableDropColumn table column)))
      else fail_here ''se esperaba ADD, DROP, RENAME, MOVE o REORDER tras ALTER TABLE''))))))))"

section \<open>Data statements\<close>

definition returning_clause :: "grammar \<Rightarrow> select_item list option px" where
  "returning_clause g = optional_kw ''RETURNING'' (comma_list (select_item g))"

definition assignment :: "grammar \<Rightarrow> (bytes \<times> expr) px" where
  "assignment g = sbind (ident ''un nombre de columna'') (\<lambda>col. then_px (expect TEq ''='') (sbind (g_expr g) (\<lambda>e. sret (col, e))))"

definition on_conflict_clause :: "grammar \<Rightarrow> on_conflict option px" where
  "on_conflict_clause g = sbind (eat2 (TKw ''ON'') (TKw ''CONFLICT'')) (\<lambda>b.
     if \<not> b then sret None
     else sbind (eat TLParen) (\<lambda>b. then_px (if b then then_px (idents ''una columna'') (expect TRParen '')'') else sret ())
       (then_px (expect_kw ''DO'' ''DO'') (sbind (eat_kw ''NOTHING'') (\<lambda>b.
         if b then sret (Some ConflictNothing)
         else then_px (expect_kw ''UPDATE'' ''UPDATE'') (then_px (expect_kw ''SET'' ''SET'')
           (sbind (comma_list (assignment g)) (\<lambda>sets. sbind (optional_kw ''WHERE'' (g_expr g)) (\<lambda>where_clause.
             sret (Some (ConflictUpdate sets where_clause)))))))))))"

definition values_row :: "grammar \<Rightarrow> expr list px" where
  "values_row g = then_px (expect TLParen ''('') (sbind (comma_list (g_expr g)) (\<lambda>row. then_px (expect TRParen '')'') (sret row)))"

definition insert_source :: "grammar \<Rightarrow> insert_source px" where
  "insert_source g = sbind peeked (\<lambda>t.
     if t = Some (TKw ''SELECT'') \<or> t = Some (TKw ''WITH'') then sbind (query_after_kw g) (\<lambda>s. sret (SourceSelect s))
     else then_px (expect_kw ''VALUES'' ''VALUES'') (sbind (comma_list (values_row g)) (\<lambda>rows. sret (SourceValues rows))))"

definition insert_stmt :: "grammar \<Rightarrow> stmt px" where
  "insert_stmt g = then_px (expect_kw ''INSERT'' ''INSERT'') (then_px (expect_kw ''INTO'' ''INTO'')
     (sbind (ident ''un nombre de tabla'') (\<lambda>table. sbind (eat TLParen) (\<lambda>b.
      sbind (if b then sbind (idents ''un nombre de columna'') (\<lambda>cols. then_px (expect TRParen '')'') (sret (Some cols))) else sret None) (\<lambda>columns.
      sbind (insert_source g) (\<lambda>source. sbind (on_conflict_clause g) (\<lambda>on_conflict. sbind (returning_clause g) (\<lambda>returning.
        sret (Insert table columns source on_conflict returning)))))))))"

definition update :: "grammar \<Rightarrow> stmt px" where
  "update g = then_px (expect_kw ''UPDATE'' ''UPDATE'') (sbind (ident ''un nombre de tabla'') (\<lambda>table. then_px (expect_kw ''SET'' ''SET'')
     (sbind (comma_list (assignment g)) (\<lambda>sets. sbind (optional_kw ''WHERE'' (g_expr g)) (\<lambda>where_clause.
      sbind (returning_clause g) (\<lambda>returning. sret (Update table sets where_clause returning)))))))"

definition delete_stmt :: "grammar \<Rightarrow> stmt px" where
  "delete_stmt g = then_px (expect_kw ''DELETE'' ''DELETE'') (then_px (expect_kw ''FROM'' ''FROM'') (sbind (ident ''un nombre de tabla'') (\<lambda>table.
     sbind (optional_kw ''WHERE'' (g_expr g)) (\<lambda>where_clause. sbind (returning_clause g) (\<lambda>returning.
       sret (Delete table where_clause returning))))))"

section \<open>Statements\<close>

definition savepoint_name :: "bytes px" where "savepoint_name = ident ''un nombre de savepoint''"

definition statement :: "grammar \<Rightarrow> stmt px" where
  "statement g = sbind peeked (\<lambda>t.
     if t = Some (TKw ''WITH'') then sbind (with_ctes g) (\<lambda>ctes. sbind (select g) (\<lambda>sel. sret (Select (set_with ctes sel))))
     else if t = Some (TKw ''CREATE'') then create g
     else if t = Some (TKw ''ALTER'') then alter_table g
     else if t = Some (TKw ''DROP'') then drop_stmt
     else if t = Some (TKw ''REBUILD'') then rebuild_vector_index
     else if t = Some (TKw ''INSERT'') then insert_stmt g
     else if t = Some (TKw ''SELECT'') then sbind (select g) (\<lambda>s. sret (Select s))
     else if t = Some (TKw ''UPDATE'') then update g
     else if t = Some (TKw ''DELETE'') then delete_stmt g
     else sbind (eat_kw ''BEGIN'') (\<lambda>b. if b then sret Begin
     else sbind (eat_kw ''COMMIT'') (\<lambda>b. if b then sret Commit
     else sbind (eat_kw ''ROLLBACK'') (\<lambda>b. if b then sbind (eat_kw ''TO'') (\<lambda>b.
       if b then then_px (eat_kw ''SAVEPOINT'') (sbind savepoint_name (\<lambda>n. sret (RollbackTo n))) else sret Rollback)
     else sbind (eat_kw ''SAVEPOINT'') (\<lambda>b. if b then sbind savepoint_name (\<lambda>n. sret (Savepoint n))
     else sbind (eat_kw ''RELEASE'') (\<lambda>b. if b then then_px (eat_kw ''SAVEPOINT'') (sbind savepoint_name (\<lambda>n. sret (ReleaseSavepoint n)))
     else fail_here
       ''se esperaba CREATE, DROP, INSERT, SELECT, UPDATE, DELETE, BEGIN, COMMIT, ROLLBACK, SAVEPOINT o RELEASE''))))))"

section \<open>The grammar of each level\<close>

primrec grammar :: "nat \<Rightarrow> grammar" where
  "grammar 0 = \<lparr>g_expr = \<lambda>_. None, g_not = \<lambda>_. None, g_unary = \<lambda>_. None, g_select = \<lambda>_. None, g_statement = \<lambda>_. None\<rparr>"
| "grammar (Suc n) = (let g = grammar n in
     \<lparr>g_expr = expr_px g, g_not = not_expr g, g_unary = unary_expr g, g_select = select g, g_statement = statement g\<rparr>)"

definition at_end :: "stmt \<Rightarrow> (stmt \<times> bytes list) px" where
  "at_end stmt p = (case peek_spanned p of
     Some s \<Rightarrow> fail_at (sp_pos s) ''se esperaba el final de la sentencia'' p
   | None \<Rightarrow> sret (stmt, ps_param_names p) p)"

definition parse_full :: "(bytes \<Rightarrow> u64 option) \<Rightarrow> bytes \<Rightarrow> (stmt \<times> bytes list) res option" where
  "parse_full parse_f64 sql = (case lex parse_f64 sql of
     Inl e \<Rightarrow> Some (Inl e)
   | Inr toks \<Rightarrow> map_option fst (sbind (g_statement (grammar (Suc (length toks)))) (\<lambda>stmt. then_px (eat TSemi) (at_end stmt))
       (new_parser sql toks)))"

definition parse :: "(bytes \<Rightarrow> u64 option) \<Rightarrow> bytes \<Rightarrow> stmt res option" where
  "parse parse_f64 sql = map_option (map_sum id fst) (parse_full parse_f64 sql)"

definition parse_many :: "(bytes \<Rightarrow> u64 option) \<Rightarrow> bytes \<Rightarrow> stmt list res option" where
  "parse_many parse_f64 sql = (case lex parse_f64 sql of
     Inl e \<Rightarrow> Some (Inl e)
   | Inr toks \<Rightarrow> map_option fst (repeat_px (\<lambda>stmts. sbind peeked (\<lambda>t.
       if t = None then sret None
       else sbind (g_statement (grammar (Suc (length toks)))) (\<lambda>stmt. then_px (eat TSemi) (sret (Some (stmts @ [stmt])))))) []
       (new_parser sql toks)))"

end
