(* ===== verification/LexerLaws.thy ===== *)
theory LexerLaws
  imports Lexer
begin

text \<open>
  The positions of the tokens are boundaries of characters, so the slices taken between them never panic, and an error of
  the lexer carries such a position.
\<close>

section \<open>Boundaries of characters\<close>

definition boundary :: "ustr \<Rightarrow> nat \<Rightarrow> bool" where
  "boundary cs i \<longleftrightarrow> (\<exists>as bs. cs = as @ bs \<and> i = length (utf8_bytes as))"

lemma boundaryI: "boundary (as @ bs) (length (utf8_bytes as))"
  by (auto simp: boundary_def)

lemma boundary_ends [simp]: "boundary cs 0" "boundary cs (length (utf8_bytes cs))"
  using boundaryI [of "[]" cs] boundaryI [of cs "[]"] by (simp_all add: utf8_bytes_def)

lemma boundary_le: "boundary cs i \<Longrightarrow> i \<le> length (utf8_bytes cs)"
  by (auto simp: boundary_def utf8_bytes_append)

lemma utf8_bytes_simps [simp]: "utf8_bytes [] = []" "utf8_bytes (c # cs) = utf8_char c @ utf8_bytes cs"
  by (simp_all add: utf8_bytes_def)

lemma utf8_char_ascii: "c < 128 \<Longrightarrow> utf8_char c = [of_nat c]"
  by (simp add: utf8_char_def)

lemma byte_ge: "128 \<le> n \<Longrightarrow> n < 256 \<Longrightarrow> (128 :: u8) \<le> of_nat n"
  by (simp add: word_le_nat_alt unat_byte)

lemma utf8_char_high:
  assumes "is_scalar c" "128 \<le> c" "b \<in> set (utf8_char c)"
  shows "128 \<le> b"
proof -
  have m: "x mod 64 < 64" for x :: nat by simp
  have n: "128 + x mod 64 < 256" for x :: nat using m [of x] by simp
  have d: "c < 2048 \<Longrightarrow> c div 64 < 32" "c < 65536 \<Longrightarrow> c div 4096 < 16" "c \<le> 0x10FFFF \<Longrightarrow> c div 262144 < 8" by simp_all
  have le: "c \<le> 0x10FFFF" using assms(1) by (auto simp: is_scalar_def)
  show ?thesis
    using assms(2,3) d le by (auto simp: utf8_char_def simp del: of_nat_add split: if_splits intro!: byte_ge n)
qed

text \<open>A run that takes all bytes from 128, or none, ends at a boundary.\<close>

lemma takeWhile_utf8:
  assumes "list_all is_scalar cs" "\<And>b. 128 \<le> b \<Longrightarrow> P b = v"
  shows "takeWhile P (utf8_bytes cs) = utf8_bytes (takeWhile (\<lambda>c. if c < 128 then P (of_nat c) else v) cs)"
  using assms(1)
proof (induction cs)
  case (Cons c cs)
  have c: "is_scalar c" using Cons.prems by simp
  show ?case
  proof (cases "c < 128")
    case True
    then show ?thesis using Cons by (simp add: utf8_char_ascii)
  next
    case False
    then have h: "P b = v" if "b \<in> set (utf8_char c)" for b using utf8_char_high [OF c _ that] assms(2) by simp
    show ?thesis
    proof (cases v)
      case True
      then show ?thesis using Cons h False by (simp add: takeWhile_append2)
    next
      case F: False
      obtain b bs where b: "utf8_char c = b # bs" using utf8_char_ne [of c] by (cases "utf8_char c") auto
      then show ?thesis using h [of b] F False by simp
    qed
  qed
qed simp

lemma boundary_run:
  assumes "list_all is_scalar cs" "boundary cs i" "\<And>b. 128 \<le> b \<Longrightarrow> P b = v"
  shows "boundary cs (run_end P (utf8_bytes cs) i)"
proof -
  obtain as bs where c: "cs = as @ bs" "i = length (utf8_bytes as)" using assms(2) by (auto simp: boundary_def)
  let ?Q = "\<lambda>c. if c < 128 then P (of_nat c) else v"
  have "drop i (utf8_bytes cs) = utf8_bytes bs" by (simp add: c utf8_bytes_append)
  then have "run_end P (utf8_bytes cs) i = length (utf8_bytes (as @ takeWhile ?Q bs))"
    using takeWhile_utf8 [of bs P v] assms(1,3) c by (simp add: run_end_def utf8_bytes_append)
  then show ?thesis using boundaryI [of "as @ takeWhile ?Q bs" "dropWhile ?Q bs"] by (simp add: c)
qed

lemma boundary_next:
  assumes "list_all is_scalar cs" "boundary cs i" "utf8_next (drop i (utf8_bytes cs)) = Some (c, n)"
  shows "boundary cs (i + n)"
proof -
  obtain as bs where e: "cs = as @ bs" "i = length (utf8_bytes as)" using assms(2) by (auto simp: boundary_def)
  have d: "drop i (utf8_bytes cs) = utf8_bytes bs" by (simp add: e utf8_bytes_append)
  obtain b bs' where b: "bs = b # bs'" using assms(3) d by (cases bs) (auto simp: utf8_next_def)
  have "n = length (utf8_char b)" using assms(1,3) d b e utf8_next_char [of b "utf8_bytes bs'"] by (auto simp: length_utf8_char)
  then show ?thesis using boundaryI [of "as @ [b]" bs'] by (simp add: e b utf8_bytes_append)
qed

lemma boundary_ascii:
  assumes "list_all is_scalar cs" "boundary cs i" "get_at (utf8_bytes cs) i = Some b" "b < 128"
  shows "boundary cs (i + 1)"
proof -
  have l: "i < length (utf8_bytes cs)" "b = utf8_bytes cs ! i" using assms(3) by (simp_all add: get_at_Some_iff)
  have "utf8_next (drop i (utf8_bytes cs)) = Some (unat b, 1)"
    using l assms(4) by (simp add: Cons_nth_drop_Suc [symmetric] utf8_next_def word_less_nat_alt)
  then show ?thesis by (rule boundary_next [OF assms(1,2)])
qed

text \<open>The bytes between two boundaries are a text.\<close>

lemma length_utf8_char_pos: "0 < length (utf8_char c)"
  using utf8_char_ne by simp

lemma boundary_between:
  assumes "boundary cs i" "boundary cs j" "i \<le> j"
  shows "\<exists>es. byte_slice (utf8_bytes cs) i j = utf8_bytes es \<and> set es \<subseteq> set cs"
proof -
  obtain as bs where a: "cs = as @ bs" "i = length (utf8_bytes as)" using assms(1) by (auto simp: boundary_def)
  obtain as' bs' where b: "cs = as' @ bs'" "j = length (utf8_bytes as')" using assms(2) by (auto simp: boundary_def)
  obtain es where "as' = as @ es \<or> as = as' @ es" using a(1) b(1) by (metis append_eq_append_conv2)
  then consider (1) es where "as' = as @ es" | (2) es where "as = as' @ es" by blast
  then show ?thesis
  proof cases
    case 1
    then show ?thesis using a b by (intro exI [of _ es]) (auto simp: byte_slice_def utf8_bytes_append)
  next
    case 2
    then have "utf8_bytes es = []" using a b assms(3) by (simp add: utf8_bytes_append)
    then have "j = i" using 2 a b by (simp add: utf8_bytes_append)
    then show ?thesis by (intro exI [of _ "[]"]) (simp add: byte_slice_def)
  qed
qed

lemma slice_decodes:
  assumes "list_all is_scalar cs" "boundary cs i" "boundary cs j" "i \<le> j"
  shows "\<exists>es. utf8_decode (byte_slice (utf8_bytes cs) i j) = Some es"
proof -
  obtain es where e: "byte_slice (utf8_bytes cs) i j = utf8_bytes es" "set es \<subseteq> set cs"
    using boundary_between [OF assms(2-4)] by blast
  then have "list_all is_scalar es" using assms(1) by (auto simp: list_all_iff)
  then show ?thesis using e(1) utf8_decode_bytes by auto
qed

section \<open>The steps of the lexer\<close>

text \<open>An error of the layer: the SQL error at a boundary.\<close>

definition placed :: "ustr \<Rightarrow> error \<Rightarrow> bool" where
  "placed cs e \<longleftrightarrow> (\<exists>msg pos. e = Sql msg (Some pos) \<and> boundary cs pos)"

lemma placed_sql_err [simp]: "placed cs (sql_err pos msg) \<longleftrightarrow> boundary cs pos"
  by (simp add: placed_def sql_err_def)

definition lands :: "ustr \<Rightarrow> ('a \<times> nat) res \<Rightarrow> bool" where
  "lands cs r \<longleftrightarrow> (case r of Inl e \<Rightarrow> placed cs e | Inr (x, j) \<Rightarrow> boundary cs j)"

lemma lands_simps [simp]: "lands cs (Inl e) \<longleftrightarrow> placed cs e" "lands cs (Inr (x, j)) \<longleftrightarrow> boundary cs j"
  by (simp_all add: lands_def)

lemma lands_bind: "lands cs r \<Longrightarrow> (\<And>x j. r = Inr (x, j) \<Longrightarrow> boundary cs j \<Longrightarrow> lands cs (f (x, j))) \<Longrightarrow> lands cs (rbind r f)"
  by (cases r) auto

lemma lands_if: "(c \<Longrightarrow> lands cs a) \<Longrightarrow> (\<not> c \<Longrightarrow> lands cs b) \<Longrightarrow> lands cs (if c then a else b)"
  by simp

lemma lands_option: "(r = None \<Longrightarrow> lands cs a) \<Longrightarrow> (\<And>x. r = Some x \<Longrightarrow> lands cs (f x)) \<Longrightarrow>
  lands cs (case r of None \<Rightarrow> a | Some x \<Rightarrow> f x)"
  by (cases r) auto

lemma lands_quoted:
  assumes cs: "list_all is_scalar cs" and q: "q < 128" and e: "placed cs e"
  shows "boundary cs i \<Longrightarrow> lands cs (lex_quoted q e (utf8_bytes cs) i s)"
proof (induction "length (utf8_bytes cs) - i" arbitrary: i s rule: less_induct)
  case less
  note asc = boundary_ascii [OF cs]
  show ?case
  proof (cases "get_at (utf8_bytes cs) i")
    case None
    then show ?thesis using e by (subst lex_quoted.simps) simp
  next
    case (Some b)
    then have i: "i < length (utf8_bytes cs)" by (simp add: get_at_Some_iff)
    consider (two) "b = q" "get_at (utf8_bytes cs) (i + 1) = Some q" | (one) "b = q" "get_at (utf8_bytes cs) (i + 1) \<noteq> Some q" | (char) "b \<noteq> q"
      by blast
    then show ?thesis
    proof cases
      case two
      have "boundary cs (i + 1)" using asc [OF less.prems Some] q two by simp
      then have "boundary cs (i + 1 + 1)" using asc [OF _ two(2)] q by blast
      then have "boundary cs (i + 2)" by simp
      then show ?thesis using less.hyps [of "i + 2"] i Some two by (subst lex_quoted.simps) simp
    next
      case one
      then show ?thesis using asc [OF less.prems Some] Some q by (subst lex_quoted.simps) simp
    next
      case char
      obtain as bs where e: "cs = as @ bs" "i = length (utf8_bytes as)" using less.prems by (auto simp: boundary_def)
      obtain c bs' where b: "bs = c # bs'" using i e by (cases bs) (auto simp: utf8_bytes_append)
      have n: "utf8_next (drop i (utf8_bytes cs)) = Some (c, len_utf8 c)"
        using cs e b by (simp add: utf8_bytes_append utf8_next_char)
      note bn = boundary_next [OF cs less.prems n]
      have "0 < len_utf8 c" using utf8_next_pos [OF n] by simp
      then show ?thesis using less.hyps [OF _ bn] i Some char n by (subst lex_quoted.simps) simp
    qed
  qed
qed

lemma boundary_get:
  assumes "list_all is_scalar cs" "boundary cs i" "get_at (utf8_bytes cs) i = Some b" "b < 128"
  shows "boundary cs (Suc i)"
  using boundary_ascii [OF assms] by simp

lemma lands_string:
  assumes "list_all is_scalar cs" "boundary cs i" "get_at (utf8_bytes cs) i = Some b" "b < 128"
  shows "lands cs (lex_string (utf8_bytes cs) i)" "lands cs (lex_quoted_ident (utf8_bytes cs) i)"
  using boundary_get [OF assms] assms(2) unfolding lex_string_def lex_quoted_ident_def
  by (auto intro!: lands_quoted [OF assms(1)] lands_bind)

lemma digit_ascii: "128 \<le> b \<Longrightarrow> is_digit b = False" "128 \<le> b \<Longrightarrow> is_alpha b = False" "128 \<le> b \<Longrightarrow> (is_alnum b \<or> b = 95) = False"
  by (auto simp: is_digit_def is_alpha_def is_alnum_def is_upper_def is_lower_def word_le_nat_alt)

lemma ascii_lt: "is_digit b \<Longrightarrow> b < 128" "is_alpha b \<Longrightarrow> b < 128"
  by (auto simp: is_digit_def is_alpha_def is_upper_def is_lower_def word_le_nat_alt word_less_nat_alt)

lemma lands_number:
  assumes cs: "list_all is_scalar cs" and b: "boundary cs i"
  shows "lands cs (lex_number pf (utf8_bytes cs) i)"
proof -
  let ?sql = "utf8_bytes cs"
  note run = boundary_run [OF cs _ digit_ascii(1)]
  note get = boundary_get [OF cs]
  obtain j f where j: "fraction_end ?sql (run_end is_digit ?sql i) = (j, f)" by (cases "fraction_end ?sql (run_end is_digit ?sql i)")
  obtain k x where k: "exponent_end ?sql j = (k, x)" by (cases "exponent_end ?sql j")
  have bj: "boundary cs j"
    using j run [OF b] get [OF run [OF b]] run by (auto simp: fraction_end_def split: if_splits)
  have s2: "boundary cs (Suc (Suc j))" if "get_at ?sql j = Some c" "c < 128" "get_at ?sql (Suc j) = Some d" "d < 128" for c d
    using get [OF get [OF bj that(1,2)] that(3,4)] .
  have bk: "boundary cs k"
  proof -
    have *: "boundary cs (run_end is_digit ?sql (Suc m))" if "boundary cs m" "get_at ?sql m = Some c" "is_digit c" for m c
      using run [OF get [OF that(1,2) ascii_lt(1) [OF that(3)]]] .
    show ?thesis
      using k bj get [OF bj] s2 * by (auto simp: exponent_end_def Let_def split: if_splits)
  qed
  show ?thesis using b bk by (auto simp: lex_number_def Let_def j k split: option.splits)
qed

lemma lands_step:
  assumes cs: "list_all is_scalar cs" and b: "boundary cs i" and i: "i < length (utf8_bytes cs)"
  shows "lands cs (lex_step pf (utf8_bytes cs) i)"
proof -
  let ?sql = "utf8_bytes cs" and ?b = "utf8_bytes cs ! i"
  have g: "get_at ?sql i = Some ?b" using i by (simp add: get_at_def)
  note get = boundary_get [OF cs]
  have 1: "?b < 128 \<Longrightarrow> boundary cs (Suc i)" using get [OF b g] .
  have 2: "?b < 128 \<Longrightarrow> get_at ?sql (Suc i) = Some d \<Longrightarrow> d < 128 \<Longrightarrow> boundary cs (Suc (Suc i))" for d using get [OF 1] .
  have 3: "?b < 128 \<Longrightarrow> get_at ?sql (Suc i) = Some d \<Longrightarrow> d < 128 \<Longrightarrow> get_at ?sql (Suc (Suc i)) = Some c \<Longrightarrow> c < 128 \<Longrightarrow>
      boundary cs (Suc (Suc (Suc i)))" for c d using get [OF 2] .
  have n: "i + 2 = Suc (Suc i)" "i + 3 = Suc (Suc (Suc i))" by simp_all
  have punct: "map_of punct ?b = Some t \<Longrightarrow> ?b < 128" for t
    by (auto simp: punct_def word_less_nat_alt split: if_splits)
  have comment: "boundary cs (run_end (\<lambda>c. c \<noteq> 10) ?sql i)" by (rule boundary_run [OF cs b, of _ True]) auto
  have word: "boundary cs (run_end (\<lambda>c. is_alnum c \<or> c = 95 \<or> 128 \<le> c) ?sql i)" by (rule boundary_run [OF cs b, of _ True]) auto
  have par: "?b = 63 \<Longrightarrow> lands cs (lex_param ?sql i)"
    using b boundary_run [OF cs 1 digit_ascii(1)] by (auto simp: lex_param_def Let_def)
  have nam: "?b = 58 \<Longrightarrow> lands cs (lex_named ?sql i)"
    using b boundary_run [OF cs 2 digit_ascii(3)] ascii_lt(2) by (auto simp: lex_named_def Let_def)
  have str: "?b = 39 \<Longrightarrow> lands cs (rbind (lex_string ?sql i) (\<lambda>(s, next). Inr (Some (TStr s), next)))"
    by (rule lands_bind, rule lands_string(1) [OF cs b g]) auto
  have qid: "?b = 34 \<Longrightarrow> lands cs (rbind (lex_quoted_ident ?sql i) (\<lambda>(name, next). Inr (Some (TIdent name), next)))"
    by (rule lands_bind, rule lands_string(2) [OF cs b g]) auto
  have blob: "?b < 128 \<Longrightarrow> get_at ?sql (Suc i) = Some 39 \<Longrightarrow> lands cs (lex_blob ?sql i)"
    using lands_string(1) [OF cs 1, of 39] b unfolding lex_blob_def by (auto intro!: lands_bind)
  show ?thesis
    unfolding lex_step_def Let_def
    by (intro lands_if lands_option)
      (auto simp: n word comment b lands_number [OF cs b] split del: if_split intro: 1 2 3 punct par nam blob str qid)
qed

section \<open>The tokens of a text\<close>

definition toks_ok :: "ustr \<Rightarrow> spanned list \<Rightarrow> bool" where
  "toks_ok cs toks \<longleftrightarrow> sorted_wrt (<) (map sp_pos toks) \<and> (\<forall>t \<in> set toks. boundary cs (sp_pos t))"

lemma lex_from_boundaries:
  assumes cs: "list_all is_scalar cs"
  shows "boundary cs i \<Longrightarrow> (case lex_from pf (utf8_bytes cs) i of
    Inl e \<Rightarrow> placed cs e | Inr toks \<Rightarrow> \<forall>t \<in> set toks. boundary cs (sp_pos t))"
proof (induction "length (utf8_bytes cs) - i" arbitrary: i rule: less_induct)
  case less
  show ?case
  proof (cases "i < length (utf8_bytes cs)")
    case True
    note l = lands_step [OF cs less.prems True, of pf]
    show ?thesis
    proof (cases "lex_step pf (utf8_bytes cs) i")
      case (Inl e)
      then show ?thesis using l True by (subst lex_from.simps) simp
    next
      case (Inr r)
      then obtain t j where r: "lex_step pf (utf8_bytes cs) i = Inr (t, j)" by (cases r) auto
      have "i < j" using lex_step_bounds [OF r True] by simp
      moreover have "boundary cs j" using l r by simp
      ultimately show ?thesis
        using less.hyps [of j] less.prems True r
        by (subst lex_from.simps) (auto split: sum.splits option.splits simp: rbind_eq_Inr rbind_eq_Inl)
    qed
  next
    case False
    then show ?thesis by (subst lex_from.simps) simp
  qed
qed

lemma lex_boundaries:
  assumes "list_all is_scalar cs"
  shows "case lex pf (utf8_bytes cs) of Inl e \<Rightarrow> placed cs e | Inr toks \<Rightarrow> toks_ok cs toks"
  using lex_from_boundaries [OF assms, of 0 pf] lex_positions [of pf "utf8_bytes cs"]
  by (auto simp: lex_def toks_ok_def split: sum.splits)

end
