(* ===== verification/ParserRules.thy ===== *)
theory ParserRules
  imports ParserStmt LexerLaws
begin

text \<open>
  Every parser returns: with as many levels of the grammar as there are tokens left, and one more, it never runs out; it
  never moves back, restores the depth, and its errors point at a boundary of the text.  The rules below follow the
  combinators, with the number of tokens a parser consumes when it succeeds.
\<close>

named_theorems takes_rules \<open>progress of parsers\<close>

section \<open>Progress\<close>

definition well_placed :: "ustr \<Rightarrow> parser \<Rightarrow> bool" where
  "well_placed cs p \<longleftrightarrow> list_all is_scalar cs \<and> ps_src p = utf8_bytes cs \<and> toks_ok cs (ps_toks p) \<and> ps_i p \<le> length (ps_toks p)"

definition moved :: "parser \<Rightarrow> parser \<Rightarrow> bool" where
  "moved p q \<longleftrightarrow> ps_src q = ps_src p \<and> ps_toks q = ps_toks p \<and> ps_depth q = ps_depth p \<and> ps_i p \<le> ps_i q \<and> ps_i q \<le> length (ps_toks p)"

text \<open>\<open>takes cs k n m\<close>: with fewer than \<open>k\<close> tokens left, \<open>m\<close> returns; with the result \<open>x\<close> it has consumed \<open>n x\<close> of them.\<close>

definition takes :: "ustr \<Rightarrow> nat \<Rightarrow> ('a \<Rightarrow> nat) \<Rightarrow> 'a px \<Rightarrow> bool" where
  "takes cs k n m \<longleftrightarrow> (\<forall>p. well_placed cs p \<longrightarrow> remaining p < k \<longrightarrow> (\<exists>r q. m p = Some (r, q) \<and> moved p q \<and>
     (case r of Inl e \<Rightarrow> placed cs e | Inr x \<Rightarrow> ps_i p + n x \<le> ps_i q)))"

lemma takesI: "(\<And>p. well_placed cs p \<Longrightarrow> remaining p < k \<Longrightarrow> \<exists>r q. m p = Some (r, q) \<and> moved p q \<and>
    (case r of Inl e \<Rightarrow> placed cs e | Inr x \<Rightarrow> ps_i p + n x \<le> ps_i q)) \<Longrightarrow> takes cs k n m"
  by (simp add: takes_def)

lemma takesE:
  assumes "takes cs k n m" "well_placed cs p" "remaining p < k"
  obtains e q where "m p = Some (Inl e, q)" "moved p q" "placed cs e"
    | x q where "m p = Some (Inr x, q)" "moved p q" "ps_i p + n x \<le> ps_i q"
  using assms unfolding takes_def by (fastforce split: sum.splits)

lemma moved_refl: "well_placed cs p \<Longrightarrow> moved p p"
  by (simp add: moved_def well_placed_def)

lemma moved_placed: "well_placed cs p \<Longrightarrow> moved p q \<Longrightarrow> well_placed cs q"
  by (simp add: moved_def well_placed_def)

lemma moved_trans: "moved p q \<Longrightarrow> moved q r \<Longrightarrow> moved p r"
  by (simp add: moved_def)

lemma moved_remaining: "moved p q \<Longrightarrow> ps_i p + n \<le> ps_i q \<Longrightarrow> remaining q + n \<le> remaining p"
  by (simp add: moved_def remaining_def)

lemma takes_weak: "takes cs k (\<lambda>_. a) m \<Longrightarrow> (\<And>x. n x \<le> a) \<Longrightarrow> takes cs k n m"
proof (rule takesI)
  fix p assume m: "takes cs k (\<lambda>_. a) m" "\<And>x. n x \<le> a" and p: "well_placed cs p" "remaining p < k"
  from m(1) p show "\<exists>r q. m p = Some (r, q) \<and> moved p q \<and> (case r of Inl e \<Rightarrow> placed cs e | Inr x \<Rightarrow> ps_i p + n x \<le> ps_i q)"
  proof (cases rule: takesE)
    case (2 x q)
    then show ?thesis using m(2) [of x] by simp
  qed simp
qed

lemma takes_bind:
  assumes m: "takes cs k (\<lambda>_. a) m" and f: "\<And>x. takes cs (k - a) (\<lambda>y. n y - a) (f x)"
  shows "takes cs k n (sbind m f)"
proof (rule takesI)
  fix p assume p: "well_placed cs p" "remaining p < k"
  from m p show "\<exists>r q. sbind m f p = Some (r, q) \<and> moved p q \<and> (case r of Inl e \<Rightarrow> placed cs e | Inr x \<Rightarrow> ps_i p + n x \<le> ps_i q)"
  proof (cases rule: takesE)
    case (2 x q)
    have q: "well_placed cs q" "remaining q < k - a"
      using moved_placed [OF p(1) 2(2)] moved_remaining [OF 2(2,3)] p(2) by simp_all
    from f [of x] q show ?thesis
    proof (cases rule: takesE)
      case (1 e s)
      then show ?thesis using 2 moved_trans by (auto simp: 2(1))
    next
      case (2 y s)
      then show ?thesis using \<open>m p = Some (Inr x, q)\<close> \<open>moved p q\<close> \<open>ps_i p + a \<le> ps_i q\<close> moved_trans by fastforce
    qed
  qed auto
qed

lemma takes_bind0: "takes cs k (\<lambda>_. 0) m \<Longrightarrow> (\<And>x. takes cs k n (f x)) \<Longrightarrow> takes cs k n (sbind m f)"
  by (rule takes_bind [where a = 0]) simp_all

lemma takes_ret [takes_rules]: "n x = 0 \<Longrightarrow> takes cs k n (sret x)"
  by (rule takesI) (auto intro: moved_refl)

lemma cur_pos_boundary: "well_placed cs p \<Longrightarrow> boundary cs (cur_pos p)"
  by (auto simp: well_placed_def cur_pos_def peek_spanned_def toks_ok_def get_at_def)

lemma takes_fail_here [takes_rules]: "takes cs k n (fail_here msg)"
  by (rule takesI) (auto simp: fail_here_def intro: moved_refl cur_pos_boundary)

lemma takes_fail_at [takes_rules]: "boundary cs pos \<Longrightarrow> takes cs k n (fail_at pos msg)"
  by (rule takesI) (auto simp: fail_at_def intro: moved_refl)

lemma takes_here [takes_rules]: "(\<And>pos. boundary cs pos \<Longrightarrow> takes cs k n (f pos)) \<Longrightarrow> takes cs k n (sbind here f)"
  unfolding takes_def here_def by (simp add: cur_pos_boundary)

lemma takes_peeked [takes_rules]: "(\<And>t. takes cs k n (f t)) \<Longrightarrow> takes cs k n (sbind peeked f)"
  unfolding takes_def peeked_def by simp

lemma takes_ahead2 [takes_rules]: "(\<And>t. takes cs k n (f t)) \<Longrightarrow> takes cs k n (sbind (ahead2 t u) f)"
  unfolding takes_def ahead2_def by simp

lemma takes_if [takes_rules]: "(c \<Longrightarrow> takes cs k n a) \<Longrightarrow> (\<not> c \<Longrightarrow> takes cs k n b) \<Longrightarrow> takes cs k n (if c then a else b)"
  by simp

lemma takes_option [takes_rules]:
  "takes cs k n a \<Longrightarrow> (\<And>x. takes cs k n (f x)) \<Longrightarrow> takes cs k n (case r of None \<Rightarrow> a | Some x \<Rightarrow> f x)"
  by (cases r) auto

lemma takes_prod [takes_rules]: "(\<And>x y. takes cs k n (f x y)) \<Longrightarrow> takes cs k n (case r of (x, y) \<Rightarrow> f x y)"
  by (cases r) auto

lemma takes_list [takes_rules]:
  "takes cs k n a \<Longrightarrow> (\<And>x xs. takes cs k n (f x xs)) \<Longrightarrow> takes cs k n (case r of [] \<Rightarrow> a | x # xs \<Rightarrow> f x xs)"
  by (cases r) auto

section \<open>Single tokens\<close>

lemma moved_one: "well_placed cs p \<Longrightarrow> peek p = Some t \<Longrightarrow> moved p (p\<lparr>ps_i := Suc (ps_i p)\<rparr>) \<and> 0 < remaining p"
  by (auto simp: moved_def well_placed_def peek_def peek_spanned_def get_at_def remaining_def split: if_splits)

lemma moved_two: "well_placed cs p \<Longrightarrow> peek2 p = Some t \<Longrightarrow> moved p (p\<lparr>ps_i := Suc (Suc (ps_i p))\<rparr>) \<and> 1 < remaining p"
  by (auto simp: moved_def well_placed_def peek2_def get_at_def remaining_def split: if_splits)

lemma takes_eat_if [takes_rules]:
  assumes "takes cs (k - 1) (\<lambda>y. n y - 1) a" "takes cs k n b"
  shows "takes cs k n (sbind (eat t) (\<lambda>c. if c then a else b))"
proof (rule takesI)
  fix p assume p: "well_placed cs p" "remaining p < k"
  show "\<exists>r q. sbind (eat t) (\<lambda>c. if c then a else b) p = Some (r, q) \<and> moved p q \<and>
      (case r of Inl e \<Rightarrow> placed cs e | Inr x \<Rightarrow> ps_i p + n x \<le> ps_i q)"
  proof (cases "peek p = Some t")
    case True
    let ?q = "p\<lparr>ps_i := Suc (ps_i p)\<rparr>"
    have m: "moved p ?q" "0 < remaining p" using moved_one [OF p(1) True] by simp_all
    have q: "well_placed cs ?q" "remaining ?q < k - 1"
      using moved_placed [OF p(1) m(1)] p(2) m(2) by (simp_all add: remaining_def)
    from assms(1) q show ?thesis
      by (cases rule: takesE) (use True m(1) in \<open>auto simp: eat_def intro: moved_trans\<close>)
  next
    case False
    from assms(2) p show ?thesis by (cases rule: takesE) (use False in \<open>auto simp: eat_def\<close>)
  qed
qed

lemma takes_eat_unless [takes_rules]:
  "takes cs (k - 1) (\<lambda>y. n y - 1) a \<Longrightarrow> takes cs k n b \<Longrightarrow> takes cs k n (sbind (eat t) (\<lambda>c. if \<not> c then b else a))"
proof -
  have "(\<lambda>c. if \<not> c then b else a) = (\<lambda>c. if c then a else b)" by auto
  then show "takes cs (k - 1) (\<lambda>y. n y - 1) a \<Longrightarrow> takes cs k n b \<Longrightarrow> ?thesis" using takes_eat_if [of cs k n a b t] by simp
qed

lemma takes_eat [takes_rules]: "n True = 0 \<Longrightarrow> n False = 0 \<Longrightarrow> takes cs k n (eat t)"
  by (rule takesI) (auto simp: eat_def intro: moved_refl dest: moved_one)

lemma takes_eat2_if [takes_rules]:
  assumes "takes cs (k - 2) (\<lambda>y. n y - 2) a" "takes cs k n b"
  shows "takes cs k n (sbind (eat2 t u) (\<lambda>c. if c then a else b))"
proof (rule takesI)
  fix p assume p: "well_placed cs p" "remaining p < k"
  show "\<exists>r q. sbind (eat2 t u) (\<lambda>c. if c then a else b) p = Some (r, q) \<and> moved p q \<and>
      (case r of Inl e \<Rightarrow> placed cs e | Inr x \<Rightarrow> ps_i p + n x \<le> ps_i q)"
  proof (cases "peek p = Some t \<and> peek2 p = Some u")
    case True
    let ?q = "p\<lparr>ps_i := Suc (Suc (ps_i p))\<rparr>"
    have m: "moved p ?q" "1 < remaining p" using moved_two [OF p(1)] True by simp_all
    have q: "well_placed cs ?q" "remaining ?q < k - 2"
      using moved_placed [OF p(1) m(1)] p(2) m(2) by (simp_all add: remaining_def)
    from assms(1) q show ?thesis
      by (cases rule: takesE) (use True m(1) in \<open>auto simp: eat2_def intro: moved_trans\<close>)
  next
    case False
    from assms(2) p show ?thesis by (cases rule: takesE) (use False in \<open>auto simp: eat2_def\<close>)
  qed
qed

lemma takes_eat2_unless [takes_rules]:
  "takes cs (k - 2) (\<lambda>y. n y - 2) a \<Longrightarrow> takes cs k n b \<Longrightarrow> takes cs k n (sbind (eat2 t u) (\<lambda>c. if \<not> c then b else a))"
proof -
  have "(\<lambda>c. if \<not> c then b else a) = (\<lambda>c. if c then a else b)" by auto
  then show "takes cs (k - 2) (\<lambda>y. n y - 2) a \<Longrightarrow> takes cs k n b \<Longrightarrow> ?thesis" using takes_eat2_if [of cs k n a b t u] by simp
qed

lemma takes_one:
  assumes "\<And>p. well_placed cs p \<Longrightarrow> (\<exists>e. m p = Some (Inl e, p) \<and> placed cs e) \<or> (\<exists>x t. peek p = Some t \<and> m p = Some (Inr x, p\<lparr>ps_i := Suc (ps_i p)\<rparr>))"
  shows "takes cs k (\<lambda>_. 1) m"
proof (rule takesI)
  fix p assume p: "well_placed cs p"
  show "\<exists>r q. m p = Some (r, q) \<and> moved p q \<and> (case r of Inl e \<Rightarrow> placed cs e | Inr x \<Rightarrow> ps_i p + 1 \<le> ps_i q)"
    using assms [OF p] p by (auto intro: moved_refl dest: moved_one)
qed

lemma takes_expect: "takes cs k (\<lambda>_. 1) (expect t what)"
proof (rule takes_one)
  fix p assume "well_placed cs p"
  then show "(\<exists>e. expect t what p = Some (Inl e, p) \<and> placed cs e) \<or> (\<exists>x u. peek p = Some u \<and> expect t what p = Some (Inr x, p\<lparr>ps_i := Suc (ps_i p)\<rparr>))"
    by (cases "peek p = Some t") (auto simp: expect_def eat_def fail_here_def sbind_def intro: cur_pos_boundary)
qed

lemma takes_ident: "takes cs k (\<lambda>_. 1) (ident what)"
  by (rule takes_one) (auto simp: ident_def fail_here_def intro: cur_pos_boundary split: option.split tok.split)

lemma takes_next [takes_rules]:
  assumes "\<And>t. takes cs k n (f t)"
  shows "takes cs k n (sbind next_tok f)"
proof (rule takes_bind0)
  show "takes cs k (\<lambda>_. 0) next_tok"
    by (rule takesI) (auto simp: next_tok_def intro: moved_refl dest: moved_one split: option.split)
qed (rule assms)

lemma takes_next_case:
  assumes that: "boundary cs pos" and f: "\<And>t. takes cs (k - 1) (\<lambda>y. n y - 1) (f t)"
  shows "takes cs k n (sbind next_tok (\<lambda>t. case t of None \<Rightarrow> fail_at pos msg | Some t \<Rightarrow> f t))"
proof (rule takesI)
  fix p assume p: "well_placed cs p" "remaining p < k"
  show "\<exists>r q. sbind next_tok (\<lambda>t. case t of None \<Rightarrow> fail_at pos msg | Some t \<Rightarrow> f t) p = Some (r, q) \<and> moved p q \<and>
      (case r of Inl e \<Rightarrow> placed cs e | Inr x \<Rightarrow> ps_i p + n x \<le> ps_i q)"
  proof (cases "peek p")
    case None
    then show ?thesis using that moved_refl [OF p(1)] by (simp add: next_tok_def fail_at_def)
  next
    case (Some t)
    let ?q = "p\<lparr>ps_i := Suc (ps_i p)\<rparr>"
    have m: "moved p ?q" "0 < remaining p" using moved_one [OF p(1) Some] by simp_all
    have q: "well_placed cs ?q" "remaining ?q < k - 1"
      using moved_placed [OF p(1) m(1)] p(2) m(2) by (simp_all add: remaining_def)
    from f [of t] q show ?thesis
      by (cases rule: takesE) (use Some m(1) in \<open>auto simp: next_tok_def intro: moved_trans\<close>)
  qed
qed

definition progress :: "'a option \<Rightarrow> nat" where "progress r = (case r of None \<Rightarrow> 0 | Some _ \<Rightarrow> 1)"

lemma progress_simps [simp]: "progress None = 0" "progress (Some x) = 1" "progress r \<le> 1" "progress r - 1 = 0"
  by (auto simp: progress_def split: option.split)

lemma takes_eat_op: "takes cs k progress (eat_op table)"
  by (rule takesI) (auto simp: eat_op_def intro: moved_refl dest: moved_one split: option.split bind_split)

lemma takes_eat_op_case [takes_rules]:
  assumes a: "takes cs k n a" and f: "\<And>x. takes cs (k - 1) (\<lambda>y. n y - 1) (f x)"
  shows "takes cs k n (sbind (eat_op table) (\<lambda>r. case r of None \<Rightarrow> a | Some x \<Rightarrow> f x))"
proof (rule takesI)
  fix p assume p: "well_placed cs p" "remaining p < k"
  from takes_eat_op p show "\<exists>r q. sbind (eat_op table) (\<lambda>r. case r of None \<Rightarrow> a | Some x \<Rightarrow> f x) p = Some (r, q) \<and> moved p q \<and>
      (case r of Inl e \<Rightarrow> placed cs e | Inr x \<Rightarrow> ps_i p + n x \<le> ps_i q)"
  proof (cases rule: takesE [where m = "eat_op table"])
    case (2 x q)
    note q = moved_placed [OF p(1) 2(2)] moved_remaining [OF 2(2,3)]
    show ?thesis
    proof (cases x)
      case None
      have "q = p" using 2(1) None by (auto simp: eat_op_def split: option.splits)
      from a p show ?thesis by (cases rule: takesE) (use 2(1) None \<open>q = p\<close> in auto)
    next
      case (Some t)
      have "remaining q < k - 1" using q(2) p(2) Some by simp
      with f [of t] q(1) show ?thesis
        by (cases rule: takesE) (use 2 Some in \<open>auto intro: moved_trans\<close>)
    qed
  qed auto
qed

section \<open>Loops\<close>

lemma takes_repeat_loop:
  assumes step: "\<And>a. takes cs k progress (step a)"
  shows "well_placed cs p \<Longrightarrow> remaining p < k \<Longrightarrow> remaining p < n \<Longrightarrow>
    \<exists>r q. repeat_loop n step a p = Some (r, q) \<and> moved p q \<and> (case r of Inl e \<Rightarrow> placed cs e | Inr _ \<Rightarrow> True)"
proof (induction n arbitrary: a p)
  case (Suc n)
  from step [of a] Suc.prems(1,2) show ?case
  proof (cases rule: takesE)
    case (2 x q)
    show ?thesis
    proof (cases x)
      case (Some b)
      have q: "well_placed cs q" "remaining q + 1 \<le> remaining p"
        using moved_placed [OF Suc.prems(1) 2(2)] moved_remaining [OF 2(2,3)] Some by simp_all
      then show ?thesis using Suc.IH [of q b] Suc.prems 2 Some moved_trans by fastforce
    qed (use 2 in auto)
  qed auto
qed simp

lemma takes_repeat:
  assumes "\<And>a. takes cs k progress (step a)"
  shows "takes cs k (\<lambda>_. 0) (repeat_px step a)"
proof (rule takesI)
  fix p assume p: "well_placed cs p" "remaining p < k"
  obtain r q where r: "repeat_loop (Suc (remaining p)) step a p = Some (r, q)" "moved p q" "case r of Inl e \<Rightarrow> placed cs e | Inr _ \<Rightarrow> True"
    using takes_repeat_loop [where step = step and n = "Suc (remaining p)" and a = a, OF assms p] by blast
  show "\<exists>r q. repeat_px step a p = Some (r, q) \<and> moved p q \<and> (case r of Inl e \<Rightarrow> placed cs e | Inr _ \<Rightarrow> ps_i p + 0 \<le> ps_i q)"
    by (rule exI [of _ r], rule exI [of _ q]) (use r in \<open>auto simp: repeat_px_def moved_def split: sum.splits\<close>)
qed

lemma takes_sub: "takes cs k n m \<Longrightarrow> takes cs (k - a) n m"
  by (simp add: takes_def)

lemmas takes_expect_kw = takes_expect [of cs k "TKw w" for cs k w, folded expect_kw_def]

lemmas [takes_rules] =
  takes_expect [THEN takes_bind] takes_expect [THEN takes_weak] takes_expect_kw [THEN takes_bind] takes_expect_kw [THEN takes_weak]
  takes_ident [THEN takes_bind] takes_ident [THEN takes_weak] takes_next_case
  takes_repeat [THEN takes_bind0] takes_repeat [THEN takes_weak]

lemma takes_comma_list:
  assumes "takes cs k (\<lambda>_. 1) item"
  shows "takes cs k (\<lambda>_. 1) (comma_list item)"
  unfolding comma_list_def
  by (rule takes_bind [OF assms], rule takes_weak, rule takes_repeat, rule takes_eat_if, rule takes_bind0,
      rule takes_weak [OF takes_sub, OF takes_sub, OF assms]) (auto intro: takes_ret)

lemma takes_left_assoc:
  assumes "takes cs k (\<lambda>_. 1) item"
  shows "takes cs k (\<lambda>_. 1) (left_assoc table item)"
  unfolding left_assoc_def
  by (rule takes_bind [OF assms], rule takes_weak, rule takes_repeat, rule takes_eat_op_case, simp add: takes_ret, rule takes_bind0,
      rule takes_weak [OF takes_sub, OF takes_sub, OF assms]) (auto intro: takes_ret)

lemma takes_optional_kw:
  assumes "takes cs (k - 1) (\<lambda>_. 0) item"
  shows "takes cs k (\<lambda>_. 0) (optional_kw w item)"
  unfolding optional_kw_def
  by (rule takes_eat_if, rule takes_bind0, rule takes_weak [OF assms]) (auto intro: takes_ret)

lemma cur_pos_mono:
  assumes "well_placed cs p" "moved p q"
  shows "cur_pos p \<le> cur_pos q"
proof (cases "ps_i q < length (ps_toks p)")
  case True
  have t: "ps_toks q = ps_toks p" "ps_i p \<le> ps_i q" using assms(2) by (simp_all add: moved_def)
  have "sorted_wrt (<) (map sp_pos (ps_toks p))" using assms(1) by (simp add: well_placed_def toks_ok_def)
  then have "sp_pos (ps_toks p ! ps_i p) \<le> sp_pos (ps_toks p ! ps_i q)"
    using True t(2) sorted_wrt_nth_less [of "(<)" "map sp_pos (ps_toks p)" "ps_i p" "ps_i q"] by (cases "ps_i p = ps_i q") simp_all
  then show ?thesis using True t by (simp add: cur_pos_def peek_spanned_def get_at_def)
next
  case False
  have "cur_pos q = length (ps_src p)" using False assms(2) by (simp add: cur_pos_def peek_spanned_def get_at_def moved_def)
  then show ?thesis using boundary_le [OF cur_pos_boundary [OF assms(1)]] assms(1) by (simp add: well_placed_def)
qed

lemma takes_source_text:
  assumes "takes cs k (\<lambda>_. 0) m"
  shows "takes cs k (\<lambda>_. 0) (source_text m)"
proof (rule takesI)
  fix p assume p: "well_placed cs p" "remaining p < k"
  from assms p show "\<exists>r q. source_text m p = Some (r, q) \<and> moved p q \<and> (case r of Inl e \<Rightarrow> placed cs e | Inr x \<Rightarrow> ps_i p + 0 \<le> ps_i q)"
  proof (cases rule: takesE)
    case (1 e q)
    then show ?thesis by (auto simp: source_text_def here_def then_px_def)
  next
    case (2 x q)
    have q: "well_placed cs q" by (rule moved_placed [OF p(1) 2(2)])
    have "cur_pos p \<le> cur_pos q" by (rule cur_pos_mono [OF p(1) 2(2)])
    then have "\<exists>es. utf8_decode (byte_slice (ps_src q) (cur_pos p) (cur_pos q)) = Some es"
      using slice_decodes [of cs "cur_pos p" "cur_pos q"] cur_pos_boundary [OF p(1)] cur_pos_boundary [OF q] q
      by (simp add: well_placed_def)
    moreover have "cur_pos q \<le> length (ps_src q)"
      using boundary_le [OF cur_pos_boundary [OF q]] q by (simp add: well_placed_def)
    ultimately show ?thesis
      using 2 \<open>cur_pos p \<le> cur_pos q\<close> by (auto simp: source_text_def here_def then_px_def trimmed_slice_def moved_def)
  qed
qed

lemmas [takes_rules] =
  takes_comma_list [THEN takes_bind] takes_comma_list [THEN takes_weak]
  takes_left_assoc [THEN takes_bind] takes_left_assoc [THEN takes_weak]
  takes_optional_kw [THEN takes_bind0] takes_optional_kw [THEN takes_weak]
  takes_source_text [THEN takes_bind0] takes_source_text [THEN takes_weak]

section \<open>The grammar\<close>

definition good :: "ustr \<Rightarrow> nat \<Rightarrow> grammar \<Rightarrow> bool" where
  "good cs k g \<longleftrightarrow> takes cs k (\<lambda>_. 1) (g_expr g) \<and> takes cs k (\<lambda>_. 1) (g_not g) \<and> takes cs k (\<lambda>_. 1) (g_unary g) \<and>
     takes cs k (\<lambda>_. 1) (g_select g) \<and> takes cs k (\<lambda>_. 1) (g_statement g)"

lemma good_sub [simp]: "good cs k g \<Longrightarrow> good cs (k - a) g"
  by (simp add: good_def takes_sub)

lemma good_sub' [simp]: "good cs (k - Suc 0) g \<Longrightarrow> good cs (k - Suc (Suc a)) g"
  using good_sub [of cs "k - Suc 0" g "Suc a"] by simp

lemma good_calls:
  "good cs k g \<Longrightarrow> takes cs k (\<lambda>_. 1) (g_expr g)" "good cs k g \<Longrightarrow> takes cs k (\<lambda>_. 1) (g_not g)"
  "good cs k g \<Longrightarrow> takes cs k (\<lambda>_. 1) (g_unary g)" "good cs k g \<Longrightarrow> takes cs k (\<lambda>_. 1) (g_select g)"
  "good cs k g \<Longrightarrow> takes cs k (\<lambda>_. 1) (g_statement g)"
  by (simp_all add: good_def)

lemmas [takes_rules] = good_calls [THEN takes_bind] good_calls [THEN takes_weak]

end
