(* ===== verification/ParserLaws.thy ===== *)
theory ParserLaws
  imports ParserRules
begin

text \<open>The progress of each function of the parser, by the rules of its combinators.\<close>

section \<open>Queries\<close>

lemma takes_mono: "takes cs k n m \<Longrightarrow> (\<And>x. n' x \<le> n x) \<Longrightarrow> takes cs k n' m"
proof (rule takesI)
  fix p assume m: "takes cs k n m" "\<And>x. n' x \<le> n x" and p: "well_placed cs p" "remaining p < k"
  from m(1) p show "\<exists>r q. m p = Some (r, q) \<and> moved p q \<and> (case r of Inl e \<Rightarrow> placed cs e | Inr x \<Rightarrow> ps_i p + n' x \<le> ps_i q)"
  proof (cases rule: takesE)
    case (2 x q)
    then show ?thesis using m(2) [of x] by simp
  qed simp
qed

lemma takes_alias_opt: "takes cs k (\<lambda>_. 0) (alias_opt also_bare what)"
  unfolding alias_opt_def then_px_def by (intro takes_rules | rule takes_bind0 | simp)+

lemmas [takes_rules] = takes_alias_opt [THEN takes_bind] takes_alias_opt [THEN takes_weak]

lemma takes_coltype: "takes cs k (\<lambda>_. 0) coltype"
  unfolding coltype_def then_px_def by (intro takes_rules | rule takes_bind0 | simp)+

lemmas [takes_rules] = takes_coltype [THEN takes_bind] takes_coltype [THEN takes_weak]

lemma takes_frame_bound: "takes cs k (\<lambda>_. 0) frame_bound"
  unfolding frame_bound_def then_px_def by (intro takes_rules | rule takes_bind0 | simp)+

lemmas [takes_rules] = takes_frame_bound [THEN takes_bind] takes_frame_bound [THEN takes_weak]

lemma takes_window_frame: "takes cs k (\<lambda>_. 0) window_frame"
  unfolding window_frame_def then_px_def by (intro takes_rules | rule takes_bind0 | simp)+

lemmas [takes_rules] = takes_window_frame [THEN takes_bind] takes_window_frame [THEN takes_weak]

lemma takes_as_of: "takes cs k (\<lambda>_. 0) as_of"
proof -
  have s: "takes cs k n (case t of Some (TStr s) \<Rightarrow> f s | _ \<Rightarrow> fail_at pos msg)"
    if "\<And>s. takes cs k n (f s)" "boundary cs pos" for k n t f pos msg
    using that takes_fail_at by (cases t; cases "the t") auto
  show ?thesis unfolding as_of_def then_px_def by (intro takes_rules s | rule takes_bind0 | simp)+
qed

lemmas [takes_rules] = takes_as_of [THEN takes_bind] takes_as_of [THEN takes_weak]

lemma takes_table_ref: "good cs k g \<Longrightarrow> takes cs k (\<lambda>_. 1) (table_ref g)"
  unfolding table_ref_def then_px_def by (intro takes_rules | rule takes_bind0 | simp)+

lemmas [takes_rules] = takes_table_ref [THEN takes_bind] takes_table_ref [THEN takes_weak]

lemma takes_select_item: "good cs k g \<Longrightarrow> takes cs k (\<lambda>_. 1) (select_item g)"
  unfolding select_item_def then_px_def by (intro takes_rules | rule takes_bind0 | simp)+

lemmas [takes_rules] = takes_select_item [THEN takes_bind] takes_select_item [THEN takes_weak]

lemma takes_order_by_item: "good cs k g \<Longrightarrow> takes cs k (\<lambda>_. 1) (order_by_item g)"
  unfolding order_by_item_def then_px_def by (intro takes_rules | rule takes_bind0 | simp)+

lemmas [takes_rules] = takes_order_by_item [THEN takes_bind] takes_order_by_item [THEN takes_weak]

lemma takes_order_by_items: "good cs k g \<Longrightarrow> takes cs k (\<lambda>_. 1) (order_by_items g)"
  unfolding order_by_items_def then_px_def by (intro takes_rules | rule takes_bind0 | simp)+

lemmas [takes_rules] = takes_order_by_items [THEN takes_bind] takes_order_by_items [THEN takes_weak]

lemma takes_join_kind: "takes cs k progress join_kind_opt"
  unfolding join_kind_opt_def then_px_def by (intro takes_rules | rule takes_bind0 | simp)+

lemma takes_set_op: "takes cs k progress set_op_opt"
  unfolding set_op_opt_def then_px_def by (intro takes_rules | rule takes_bind0 | simp)+

text \<open>A step that begins with an optional operator.\<close>

lemma takes_progress_bind [takes_rules]:
  assumes m: "takes cs k progress m" and f: "\<And>x. takes cs (k - 1) (\<lambda>y. n y - 1) (f x)" and a: "n b = 0"
  shows "takes cs k n (sbind m (\<lambda>r. case r of None \<Rightarrow> sret b | Some x \<Rightarrow> f x))"
proof (rule takesI)
  fix p assume p: "well_placed cs p" "remaining p < k"
  from m p show "\<exists>r q. sbind m (\<lambda>r. case r of None \<Rightarrow> sret b | Some x \<Rightarrow> f x) p = Some (r, q) \<and> moved p q \<and>
      (case r of Inl e \<Rightarrow> placed cs e | Inr x \<Rightarrow> ps_i p + n x \<le> ps_i q)"
  proof (cases rule: takesE)
    case (2 x q)
    note q = moved_placed [OF p(1) 2(2)] moved_remaining [OF 2(2,3)]
    show ?thesis
    proof (cases x)
      case None
      then show ?thesis using 2 a by (simp add: moved_def)
    next
      case (Some t)
      have "remaining q < k - 1" using q(2) p(2) Some by simp
      with f [of t] q(1) show ?thesis
        by (cases rule: takesE) (use 2 Some in \<open>auto intro: moved_trans\<close>)
    qed
  qed auto
qed

lemma takes_joins: "good cs k g \<Longrightarrow> takes cs k (\<lambda>_. 0) (joins_px g)"
  unfolding joins_px_def then_px_def by (rule takes_repeat) (intro takes_rules takes_join_kind | rule takes_bind0 | simp)+

lemmas [takes_rules] = takes_joins [THEN takes_bind] takes_joins [THEN takes_weak]

lemma takes_select_core: "good cs (k - 1) g \<Longrightarrow> takes cs k (\<lambda>_. 1) (select_core g)"
  unfolding select_core_def then_px_def by (intro takes_rules | rule takes_bind0 | simp)+

lemmas [takes_rules] = takes_select_core [THEN takes_bind] takes_select_core [THEN takes_weak]

lemma takes_select: "good cs (k - 1) g \<Longrightarrow> takes cs k (\<lambda>_. 1) (select g)"
  unfolding select_def then_px_def by (intro takes_rules takes_set_op | rule takes_bind0 | simp)+

lemmas [takes_rules] = takes_select [THEN takes_bind] takes_select [THEN takes_weak]

lemma takes_with_ctes: "good cs (k - 1) g \<Longrightarrow> takes cs k (\<lambda>_. 1) (with_ctes g)"
  unfolding with_ctes_def then_px_def by (intro takes_rules | rule takes_bind0 | simp)+

lemmas [takes_rules] = takes_with_ctes [THEN takes_bind] takes_with_ctes [THEN takes_weak]

section \<open>Calls\<close>

lemma takes_window_call: "takes cs k (\<lambda>_. 0) (window_call call)"
  unfolding window_call_def by (cases call) (auto simp: Let_def intro!: takes_rules split: option.split)

lemmas [takes_rules] = takes_window_call [THEN takes_bind] takes_window_call [THEN takes_weak]

lemma takes_finish_call: "good cs k g \<Longrightarrow> takes cs k (\<lambda>_. 0) (finish_call g call)"
  unfolding finish_call_def then_px_def by (intro takes_rules | rule takes_bind0 | simp)+

lemmas [takes_rules] = takes_finish_call [THEN takes_bind] takes_finish_call [THEN takes_weak]

lemma takes_call_args: "good cs k g \<Longrightarrow> takes cs k (\<lambda>_. 0) (call_args g)"
  unfolding call_args_def then_px_def by (intro takes_rules | rule takes_bind0 | simp)+

lemmas [takes_rules] = takes_call_args [THEN takes_bind] takes_call_args [THEN takes_weak]

lemma takes_case_expr: "good cs k g \<Longrightarrow> takes cs k (\<lambda>_. 0) (case_expr g)"
  unfolding case_expr_def then_px_def by (intro takes_rules | rule takes_bind0 | simp)+

lemmas [takes_rules] = takes_case_expr [THEN takes_bind] takes_case_expr [THEN takes_weak]

lemma takes_min_max_call: "good cs k g \<Longrightarrow> takes cs k (\<lambda>_. 0) (min_max_call g name func)"
  unfolding min_max_call_def then_px_def by (intro takes_rules | rule takes_bind0 | simp)+

lemmas [takes_rules] = takes_min_max_call [THEN takes_bind] takes_min_max_call [THEN takes_weak]

lemma takes_aggregate_call: "boundary cs pos \<Longrightarrow> good cs k g \<Longrightarrow> takes cs k (\<lambda>_. 0) (aggregate_call g pos func)"
  unfolding aggregate_call_def then_px_def by (intro takes_rules | rule takes_bind0 | simp)+

lemmas [takes_rules] = takes_aggregate_call [THEN takes_bind] takes_aggregate_call [THEN takes_weak]

lemma takes_scalar_call: "boundary cs pos \<Longrightarrow> good cs k g \<Longrightarrow> takes cs k (\<lambda>_. 0) (scalar_call g pos name)"
  unfolding scalar_call_def then_px_def by (intro takes_rules | rule takes_bind0 | simp)+

lemmas [takes_rules] = takes_scalar_call [THEN takes_bind] takes_scalar_call [THEN takes_weak]

lemma takes_named_call: "boundary cs pos \<Longrightarrow> good cs k g \<Longrightarrow> takes cs k (\<lambda>_. 0) (named_call g pos name)"
  unfolding named_call_def Let_def then_px_def by (intro takes_rules | rule takes_bind0 | simp)+

lemmas [takes_rules] = takes_named_call [THEN takes_bind] takes_named_call [THEN takes_weak]

section \<open>Expressions\<close>

lemma takes_params:
  "boundary cs pos \<Longrightarrow> takes cs k (\<lambda>_. 0) (positional_param pos n)" "boundary cs pos \<Longrightarrow> takes cs k (\<lambda>_. 0) (named_param pos name)"
  by (rule takesI; auto simp: positional_param_def named_param_def fail_at_def moved_def well_placed_def split: option.split)+

lemmas [takes_rules] = takes_params [THEN takes_weak]

lemma takes_paren_expr: "good cs k g \<Longrightarrow> takes cs k (\<lambda>_. 0) (paren_expr g)"
  unfolding paren_expr_def then_px_def by (intro takes_rules | rule takes_bind0 | simp)+

lemmas [takes_rules] = takes_paren_expr [THEN takes_bind] takes_paren_expr [THEN takes_weak]

lemma takes_ident_expr: "boundary cs pos \<Longrightarrow> good cs k g \<Longrightarrow> takes cs k (\<lambda>_. 0) (ident_expr g pos name)"
  unfolding ident_expr_def then_px_def by (intro takes_rules | rule takes_bind0 | simp)+

lemmas [takes_rules] = takes_ident_expr [THEN takes_bind] takes_ident_expr [THEN takes_weak]

lemma takes_primary_kw: "boundary cs pos \<Longrightarrow> good cs k g \<Longrightarrow> takes cs k (\<lambda>_. 0) (primary_kw g pos w)"
  unfolding primary_kw_def then_px_def by (intro takes_rules | rule takes_bind0 | simp)+

lemmas [takes_rules] = takes_primary_kw [THEN takes_bind] takes_primary_kw [THEN takes_weak]

lemma takes_primary_tok: "boundary cs pos \<Longrightarrow> good cs k g \<Longrightarrow> takes cs k (\<lambda>_. 0) (primary_tok g pos t)"
  unfolding primary_tok_def by (cases t; simp) (intro takes_rules | simp)+

lemmas [takes_rules] = takes_primary_tok [THEN takes_weak]

lemma takes_primary: "good cs (k - 1) g \<Longrightarrow> takes cs k (\<lambda>_. 1) (primary g)"
  unfolding primary_def then_px_def by (intro takes_rules | rule takes_bind0 | simp)+

lemmas [takes_rules] = takes_primary [THEN takes_bind] takes_primary [THEN takes_weak]

lemma takes_unary_expr: "good cs (k - 1) g \<Longrightarrow> takes cs k (\<lambda>_. 1) (unary_expr g)"
  unfolding unary_expr_def then_px_def by (intro takes_rules | rule takes_bind0 | simp)+

lemmas [takes_rules] = takes_unary_expr [THEN takes_bind] takes_unary_expr [THEN takes_weak]

lemma takes_concat_expr: "good cs (k - 1) g \<Longrightarrow> takes cs k (\<lambda>_. 1) (concat_expr g)"
  unfolding concat_expr_def then_px_def by (intro takes_rules | rule takes_bind0 | simp)+

lemmas [takes_rules] = takes_concat_expr [THEN takes_bind] takes_concat_expr [THEN takes_weak]

lemma takes_mul_expr: "good cs (k - 1) g \<Longrightarrow> takes cs k (\<lambda>_. 1) (mul_expr g)"
  unfolding mul_expr_def then_px_def by (intro takes_rules | rule takes_bind0 | simp)+

lemmas [takes_rules] = takes_mul_expr [THEN takes_bind] takes_mul_expr [THEN takes_weak]

lemma takes_add_expr: "good cs (k - 1) g \<Longrightarrow> takes cs k (\<lambda>_. 1) (add_expr g)"
  unfolding add_expr_def then_px_def by (intro takes_rules | rule takes_bind0 | simp)+

lemmas [takes_rules] = takes_add_expr [THEN takes_bind] takes_add_expr [THEN takes_weak]

lemma takes_in_list: "good cs k g \<Longrightarrow> takes cs k (\<lambda>_. 0) (in_list g left negated)"
  unfolding in_list_def then_px_def by (intro takes_rules | rule takes_bind0 | simp)+

lemmas [takes_rules] = takes_in_list [THEN takes_bind] takes_in_list [THEN takes_weak]

lemma takes_between: "good cs (k - 1) g \<Longrightarrow> takes cs k (\<lambda>_. 0) (between g left negated)"
  unfolding between_def then_px_def by (intro takes_rules | rule takes_bind0 | simp)+

lemmas [takes_rules] = takes_between [THEN takes_bind] takes_between [THEN takes_weak]

lemma takes_two:
  assumes "takes cs (k - 1) (\<lambda>y. n y - 1) m"
  shows "takes cs (k - 2) (\<lambda>y. n y - 2) m"
proof -
  have "takes cs (k - 1 - 1) (\<lambda>y. n y - 2) m" by (rule takes_sub, rule takes_mono [OF assms]) simp
  then show ?thesis unfolding diff_diff_left one_add_one .
qed

lemma takes_negatable [takes_rules]:
  assumes a: "takes cs k n a" and f: "\<And>x. takes cs (k - 1) (\<lambda>y. n y - 1) (f x)"
  shows "takes cs k n (sbind (eat_negatable w) (\<lambda>r. case r of None \<Rightarrow> a | Some x \<Rightarrow> f x))"
proof -
  have "sbind (eat_negatable w) (\<lambda>r. case r of None \<Rightarrow> a | Some x \<Rightarrow> f x) =
      sbind (eat2 (TKw ''NOT'') (TKw w)) (\<lambda>c. if c then f True else sbind (eat_kw w) (\<lambda>c. if c then f False else a))"
    by (rule ext) (simp add: eat_negatable_def sbind_def eat2_def eat_def)
  moreover have "takes cs k n \<dots>" by (intro takes_eat2_if takes_eat_if a f takes_two)
  ultimately show ?thesis by simp
qed

lemma takes_cmp_rest: "good cs (k - 1) g \<Longrightarrow> takes cs k (\<lambda>_. 0) (cmp_rest g left)"
  unfolding cmp_rest_def then_px_def by (intro takes_rules | rule takes_bind0 | simp)+

lemmas [takes_rules] = takes_cmp_rest [THEN takes_bind] takes_cmp_rest [THEN takes_weak]

lemma takes_cmp_expr: "good cs (k - 1) g \<Longrightarrow> takes cs k (\<lambda>_. 1) (cmp_expr g)"
  unfolding cmp_expr_def then_px_def by (intro takes_rules | rule takes_bind0 | simp)+

lemmas [takes_rules] = takes_cmp_expr [THEN takes_bind] takes_cmp_expr [THEN takes_weak]

lemma takes_not_expr: "good cs (k - 1) g \<Longrightarrow> takes cs k (\<lambda>_. 1) (not_expr g)"
  unfolding not_expr_def then_px_def by (intro takes_rules | rule takes_bind0 | simp)+

lemmas [takes_rules] = takes_not_expr [THEN takes_bind] takes_not_expr [THEN takes_weak]

lemma takes_and_expr: "good cs (k - 1) g \<Longrightarrow> takes cs k (\<lambda>_. 1) (and_expr g)"
  unfolding and_expr_def then_px_def by (intro takes_rules | rule takes_bind0 | simp)+

lemmas [takes_rules] = takes_and_expr [THEN takes_bind] takes_and_expr [THEN takes_weak]

lemma takes_or_expr: "good cs (k - 1) g \<Longrightarrow> takes cs k (\<lambda>_. 1) (or_expr g)"
  unfolding or_expr_def then_px_def by (intro takes_rules | rule takes_bind0 | simp)+

lemmas [takes_rules] = takes_or_expr [THEN takes_bind] takes_or_expr [THEN takes_weak]

end
