(* ===== verification/ParserTotal.thy ===== *)
theory ParserTotal
  imports ParserLaws
begin

text \<open>Statements, and the grammar of every level: parsing returns, and its errors point into the text.\<close>

section \<open>Expressions, with their depth\<close>

lemma takes_expr: "good cs (k - 1) g \<Longrightarrow> takes cs k (\<lambda>_. 1) (expr_px g)"
proof (rule takesI)
  fix p assume g: "good cs (k - 1) g" and p: "well_placed cs p" "remaining p < k"
  let ?p = "p\<lparr>ps_depth := ps_depth p + 1\<rparr>"
  have w: "well_placed cs ?p" "remaining ?p < k" using p by (simp_all add: well_placed_def remaining_def)
  show "\<exists>r q. expr_px g p = Some (r, q) \<and> moved p q \<and> (case r of Inl e \<Rightarrow> placed cs e | Inr x \<Rightarrow> ps_i p + 1 \<le> ps_i q)"
  proof (cases "MAX_EXPR_DEPTH < ps_depth ?p")
    case True
    then show ?thesis
      using moved_refl [OF p(1)] cur_pos_boundary [OF p(1)] by (simp add: expr_px_def fail_here_def)
  next
    case False
    from takes_or_expr [OF g] w show ?thesis by (cases rule: takesE) (use False in \<open>auto simp: expr_px_def moved_def\<close>)
  qed
qed

section \<open>Schema statements\<close>

lemma takes_if_not_exists: "takes cs k (\<lambda>_. 0) if_not_exists"
  unfolding if_not_exists_def then_px_def by (intro takes_rules | rule takes_bind0 | simp)+

lemmas [takes_rules] = takes_if_not_exists [THEN takes_bind] takes_if_not_exists [THEN takes_weak]

lemma takes_if_exists: "takes cs k (\<lambda>_. 0) if_exists"
  unfolding if_exists_def then_px_def by (intro takes_rules | rule takes_bind0 | simp)+

lemmas [takes_rules] = takes_if_exists [THEN takes_bind] takes_if_exists [THEN takes_weak]

lemma takes_idents: "takes cs k (\<lambda>_. 1) (idents what)"
  unfolding idents_def then_px_def by (intro takes_rules | rule takes_bind0 | simp)+

lemmas [takes_rules] = takes_idents [THEN takes_bind] takes_idents [THEN takes_weak]

lemma takes_paren_idents: "takes cs k (\<lambda>_. 1) (paren_idents what)"
  unfolding paren_idents_def then_px_def by (intro takes_rules | rule takes_bind0 | simp)+

lemmas [takes_rules] = takes_paren_idents [THEN takes_bind] takes_paren_idents [THEN takes_weak]

lemma takes_fk_action: "takes cs k (\<lambda>_. 0) fk_action"
  unfolding fk_action_def then_px_def by (intro takes_rules | rule takes_bind0 | simp)+

lemmas [takes_rules] = takes_fk_action [THEN takes_bind] takes_fk_action [THEN takes_weak]

lemma takes_fk_actions: "takes cs k (\<lambda>_. 0) fk_actions"
  unfolding fk_actions_def then_px_def
  by (rule takes_repeat, unfold case_prod_beta) (intro takes_rules | rule takes_bind0 | simp)+

lemmas [takes_rules] = takes_fk_actions [THEN takes_bind] takes_fk_actions [THEN takes_weak]

lemma takes_table_fk: "takes cs k (\<lambda>_. 1) table_fk"
  unfolding table_fk_def then_px_def by (intro takes_rules | rule takes_bind0 | simp)+

lemmas [takes_rules] = takes_table_fk [THEN takes_bind] takes_table_fk [THEN takes_weak]

lemma takes_fk_reference: "takes cs k (\<lambda>_. 1) fk_reference"
  unfolding fk_reference_def then_px_def by (intro takes_rules | rule takes_bind0 | simp)+

lemmas [takes_rules] = takes_fk_reference [THEN takes_bind] takes_fk_reference [THEN takes_weak]

lemma takes_check_clause: "good cs k g \<Longrightarrow> takes cs k (\<lambda>_. 1) (check_clause g)"
  unfolding check_clause_def then_px_def by (intro takes_rules | rule takes_bind0 | simp)+

lemmas [takes_rules] = takes_check_clause [THEN takes_bind] takes_check_clause [THEN takes_weak]

lemma takes_column_option: "good cs k g \<Longrightarrow> takes cs k progress (column_option g col)"
  unfolding column_option_def then_px_def by (intro takes_rules | rule takes_bind0 | simp)+

lemmas [takes_rules] = takes_column_option

lemma takes_column_def: "good cs k g \<Longrightarrow> takes cs k (\<lambda>_. 1) (column_def g)"
  unfolding column_def_def then_px_def by (intro takes_rules | rule takes_bind0 | simp)+

lemmas [takes_rules] = takes_column_def [THEN takes_bind] takes_column_def [THEN takes_weak]

lemma takes_query_after_kw: "good cs (k - 1) g \<Longrightarrow> takes cs k (\<lambda>_. 1) (query_after_kw g)"
  unfolding query_after_kw_def then_px_def by (intro takes_rules | rule takes_bind0 | simp)+

lemmas [takes_rules] = takes_query_after_kw [THEN takes_bind] takes_query_after_kw [THEN takes_weak]

lemma takes_table_item: "good cs k g \<Longrightarrow> takes cs k (\<lambda>_. 1) (table_item g)"
  unfolding table_item_def then_px_def by (intro takes_rules | rule takes_bind0 | simp)+

lemmas [takes_rules] = takes_table_item [THEN takes_bind] takes_table_item [THEN takes_weak]

lemma takes_create_table: "good cs k g \<Longrightarrow> takes cs k (\<lambda>_. 1) (create_table g)"
  unfolding create_table_def then_px_def by (intro takes_rules | rule takes_bind0 | simp)+

lemmas [takes_rules] = takes_create_table [THEN takes_bind] takes_create_table [THEN takes_weak]

lemma takes_create_index: "takes cs k (\<lambda>_. 1) create_index"
  unfolding create_index_def then_px_def by (intro takes_rules | rule takes_bind0 | simp)+

lemmas [takes_rules] = takes_create_index [THEN takes_bind] takes_create_index [THEN takes_weak]

lemma takes_create_fts_index: "takes cs k (\<lambda>_. 1) create_fts_index"
  unfolding create_fts_index_def then_px_def by (intro takes_rules | rule takes_bind0 | simp)+

lemmas [takes_rules] = takes_create_fts_index [THEN takes_bind] takes_create_fts_index [THEN takes_weak]

lemma takes_positive_u32: "takes cs k (\<lambda>_. 0) (positive_u32 w)"
  unfolding positive_u32_def then_px_def by (intro takes_rules | rule takes_bind0 | simp)+

lemmas [takes_rules] = takes_positive_u32 [THEN takes_bind] takes_positive_u32 [THEN takes_weak]

lemma takes_create_vector_index: "takes cs k (\<lambda>_. 1) create_vector_index"
  unfolding create_vector_index_def then_px_def by (intro takes_rules | rule takes_bind0 | simp)+

lemmas [takes_rules] = takes_create_vector_index [THEN takes_bind] takes_create_vector_index [THEN takes_weak]

lemma takes_drop_vector_index: "takes cs k (\<lambda>_. 1) drop_vector_index"
  unfolding drop_vector_index_def then_px_def by (intro takes_rules | rule takes_bind0 | simp)+

lemmas [takes_rules] = takes_drop_vector_index [THEN takes_bind] takes_drop_vector_index [THEN takes_weak]

lemma takes_drop_fts_index: "takes cs k (\<lambda>_. 1) drop_fts_index"
  unfolding drop_fts_index_def then_px_def by (intro takes_rules | rule takes_bind0 | simp)+

lemmas [takes_rules] = takes_drop_fts_index [THEN takes_bind] takes_drop_fts_index [THEN takes_weak]

lemma takes_drop_index: "takes cs k (\<lambda>_. 1) drop_index"
  unfolding drop_index_def then_px_def by (intro takes_rules | rule takes_bind0 | simp)+

lemmas [takes_rules] = takes_drop_index [THEN takes_bind] takes_drop_index [THEN takes_weak]

lemma takes_drop_table: "takes cs k (\<lambda>_. 1) drop_table"
  unfolding drop_table_def then_px_def by (intro takes_rules | rule takes_bind0 | simp)+

lemmas [takes_rules] = takes_drop_table [THEN takes_bind] takes_drop_table [THEN takes_weak]

lemma takes_rebuild_vector_index: "takes cs k (\<lambda>_. 1) rebuild_vector_index"
  unfolding rebuild_vector_index_def then_px_def by (intro takes_rules | rule takes_bind0 | simp)+

lemmas [takes_rules] = takes_rebuild_vector_index [THEN takes_bind] takes_rebuild_vector_index [THEN takes_weak]

lemma takes_create_view: "good cs k g \<Longrightarrow> takes cs k (\<lambda>_. 1) (create_view g)"
  unfolding create_view_def then_px_def by (intro takes_rules | rule takes_bind0 | simp)+

lemmas [takes_rules] = takes_create_view [THEN takes_bind] takes_create_view [THEN takes_weak]

lemma takes_trigger_timing: "takes cs k (\<lambda>_. 0) trigger_timing"
  unfolding trigger_timing_def then_px_def by (intro takes_rules | rule takes_bind0 | simp)+

lemmas [takes_rules] = takes_trigger_timing [THEN takes_bind] takes_trigger_timing [THEN takes_weak]

lemma takes_trigger_event: "takes cs k (\<lambda>_. 0) trigger_event"
  unfolding trigger_event_def then_px_def by (intro takes_rules | rule takes_bind0 | simp)+

lemmas [takes_rules] = takes_trigger_event [THEN takes_bind] takes_trigger_event [THEN takes_weak]

lemma takes_trigger_for_each: "takes cs k (\<lambda>_. 0) trigger_for_each"
  unfolding trigger_for_each_def then_px_def by (intro takes_rules | rule takes_bind0 | simp)+

lemmas [takes_rules] = takes_trigger_for_each [THEN takes_bind] takes_trigger_for_each [THEN takes_weak]

lemma takes_trigger_body: "good cs k g \<Longrightarrow> takes cs k (\<lambda>_. 0) (trigger_body g)"
  unfolding trigger_body_def then_px_def by (intro takes_rules | rule takes_bind0 | simp)+

lemmas [takes_rules] = takes_trigger_body [THEN takes_bind] takes_trigger_body [THEN takes_weak]

lemma takes_create_trigger: "good cs k g \<Longrightarrow> takes cs k (\<lambda>_. 1) (create_trigger g)"
  unfolding create_trigger_def then_px_def by (intro takes_rules | rule takes_bind0 | simp)+

lemmas [takes_rules] = takes_create_trigger [THEN takes_bind] takes_create_trigger [THEN takes_weak]

lemma takes_create: "good cs (k - 1) g \<Longrightarrow> takes cs k (\<lambda>_. 1) (create g)"
  unfolding create_def then_px_def by (intro takes_rules | rule takes_bind0 | simp)+

lemmas [takes_rules] = takes_create [THEN takes_bind] takes_create [THEN takes_weak]

lemma takes_drop_stmt: "takes cs k (\<lambda>_. 1) drop_stmt"
  unfolding drop_stmt_def then_px_def by (intro takes_rules | rule takes_bind0 | simp)+

lemmas [takes_rules] = takes_drop_stmt [THEN takes_bind] takes_drop_stmt [THEN takes_weak]

lemma takes_column_pos: "takes cs k (\<lambda>_. 0) column_pos"
  unfolding column_pos_def then_px_def by (intro takes_rules | rule takes_bind0 | simp)+

lemmas [takes_rules] = takes_column_pos [THEN takes_bind] takes_column_pos [THEN takes_weak]

lemma takes_alter_table: "good cs (k - 1) g \<Longrightarrow> takes cs k (\<lambda>_. 1) (alter_table g)"
  unfolding alter_table_def then_px_def by (intro takes_rules | rule takes_bind0 | simp)+

lemmas [takes_rules] = takes_alter_table [THEN takes_bind] takes_alter_table [THEN takes_weak]

section \<open>Data statements\<close>

lemma takes_returning_clause: "good cs k g \<Longrightarrow> takes cs k (\<lambda>_. 0) (returning_clause g)"
  unfolding returning_clause_def then_px_def by (intro takes_rules | rule takes_bind0 | simp)+

lemmas [takes_rules] = takes_returning_clause [THEN takes_bind] takes_returning_clause [THEN takes_weak]

lemma takes_assignment: "good cs k g \<Longrightarrow> takes cs k (\<lambda>_. 1) (assignment g)"
  unfolding assignment_def then_px_def by (intro takes_rules | rule takes_bind0 | simp)+

lemmas [takes_rules] = takes_assignment [THEN takes_bind] takes_assignment [THEN takes_weak]

lemma takes_on_conflict_clause: "good cs k g \<Longrightarrow> takes cs k (\<lambda>_. 0) (on_conflict_clause g)"
  unfolding on_conflict_clause_def then_px_def by (intro takes_rules | rule takes_bind0 | simp)+

lemmas [takes_rules] = takes_on_conflict_clause [THEN takes_bind] takes_on_conflict_clause [THEN takes_weak]

lemma takes_values_row: "good cs k g \<Longrightarrow> takes cs k (\<lambda>_. 1) (values_row g)"
  unfolding values_row_def then_px_def by (intro takes_rules | rule takes_bind0 | simp)+

lemmas [takes_rules] = takes_values_row [THEN takes_bind] takes_values_row [THEN takes_weak]

lemma takes_insert_source: "good cs k g \<Longrightarrow> takes cs k (\<lambda>_. 1) (insert_source g)"
  unfolding insert_source_def then_px_def by (intro takes_rules | rule takes_bind0 | simp)+

lemmas [takes_rules] = takes_insert_source [THEN takes_bind] takes_insert_source [THEN takes_weak]

lemma takes_insert_stmt: "good cs (k - 1) g \<Longrightarrow> takes cs k (\<lambda>_. 1) (insert_stmt g)"
  unfolding insert_stmt_def then_px_def by (intro takes_rules | rule takes_bind0 | simp)+

lemmas [takes_rules] = takes_insert_stmt [THEN takes_bind] takes_insert_stmt [THEN takes_weak]

lemma takes_update: "good cs (k - 1) g \<Longrightarrow> takes cs k (\<lambda>_. 1) (update g)"
  unfolding update_def then_px_def by (intro takes_rules | rule takes_bind0 | simp)+

lemmas [takes_rules] = takes_update [THEN takes_bind] takes_update [THEN takes_weak]

lemma takes_delete_stmt: "good cs (k - 1) g \<Longrightarrow> takes cs k (\<lambda>_. 1) (delete_stmt g)"
  unfolding delete_stmt_def then_px_def by (intro takes_rules | rule takes_bind0 | simp)+

lemmas [takes_rules] = takes_delete_stmt [THEN takes_bind] takes_delete_stmt [THEN takes_weak]

lemma takes_savepoint_name: "takes cs k (\<lambda>_. 1) savepoint_name"
  unfolding savepoint_name_def then_px_def by (intro takes_rules | rule takes_bind0 | simp)+

lemmas [takes_rules] = takes_savepoint_name [THEN takes_bind] takes_savepoint_name [THEN takes_weak]

lemma takes_statement: "good cs (k - 1) g \<Longrightarrow> takes cs k (\<lambda>_. 1) (statement g)"
  unfolding statement_def then_px_def by (intro takes_rules | rule takes_bind0 | simp)+

lemmas [takes_rules] = takes_statement [THEN takes_bind] takes_statement [THEN takes_weak]

section \<open>Every level of the grammar\<close>

lemma good_grammar: "good cs k (grammar k)"
proof (induction k)
  case 0
  show ?case by (simp add: good_def takes_def)
next
  case (Suc k)
  have g: "good cs (Suc k - 1) (grammar k)" using Suc by simp
  show ?case
    using takes_expr [OF g] takes_not_expr [OF g] takes_unary_expr [OF g] takes_select [OF g] takes_statement [OF g]
    by (simp add: good_def Let_def)
qed

lemma new_parser_placed:
  "list_all is_scalar cs \<Longrightarrow> toks_ok cs toks \<Longrightarrow> well_placed cs (new_parser (utf8_bytes cs) toks)"
  by (simp add: well_placed_def new_parser_def)

lemma remaining_new [simp]: "remaining (new_parser sql toks) = length toks"
  by (simp add: remaining_def new_parser_def)

lemma parse_returns:
  assumes cs: "list_all is_scalar cs"
  shows "\<exists>r. parse_full pf (utf8_bytes cs) = Some r \<and> (\<forall>e. r = Inl e \<longrightarrow> placed cs e)"
proof (cases "lex pf (utf8_bytes cs)")
  case (Inl e)
  then show ?thesis using lex_boundaries [OF cs, of pf] by (simp add: parse_full_def)
next
  case (Inr toks)
  let ?p = "new_parser (utf8_bytes cs) toks" and ?k = "Suc (length toks)"
  let ?m = "sbind (g_statement (grammar ?k)) (\<lambda>stmt. then_px (eat TSemi) (at_end stmt))"
  have ok: "toks_ok cs toks" using Inr lex_boundaries [OF cs, of pf] by simp
  have f: "takes cs k (\<lambda>_. 0) (at_end stmt)" for k stmt
    by (rule takesI) (auto simp: at_end_def fail_at_def moved_refl well_placed_def toks_ok_def peek_spanned_def get_at_def moved_def)
  have m: "takes cs ?k (\<lambda>_. 0) ?m"
    unfolding then_px_def
    by (rule takes_bind0, rule takes_weak [OF good_calls(5) [OF good_grammar]], simp, rule takes_bind0, rule takes_eat) (simp_all add: f)
  have w: "well_placed cs ?p" "remaining ?p < ?k" using new_parser_placed [OF cs ok] by simp_all
  from m w show ?thesis
    by (cases rule: takesE) (simp_all add: parse_full_def Inr del: grammar.simps)
qed

lemma parse_many_returns:
  assumes cs: "list_all is_scalar cs"
  shows "\<exists>r. parse_many pf (utf8_bytes cs) = Some r \<and> (\<forall>e. r = Inl e \<longrightarrow> placed cs e)"
proof (cases "lex pf (utf8_bytes cs)")
  case (Inl e)
  then show ?thesis using lex_boundaries [OF cs, of pf] by (simp add: parse_many_def)
next
  case (Inr toks)
  let ?p = "new_parser (utf8_bytes cs) toks" and ?k = "Suc (length toks)"
  let ?step = "\<lambda>stmts. sbind peeked (\<lambda>t. if t = None then sret None
    else sbind (g_statement (grammar ?k)) (\<lambda>stmt. then_px (eat TSemi) (sret (Some (stmts @ [stmt])))))"
  have ok: "toks_ok cs toks" using Inr lex_boundaries [OF cs, of pf] by simp
  have s: "takes cs ?k progress (?step stmts)" for stmts
    unfolding then_px_def
    by (rule takes_peeked, rule takes_if, simp add: takes_ret, rule takes_bind [OF good_calls(5) [OF good_grammar]], rule takes_bind0,
        rule takes_eat) (simp_all add: takes_ret)
  have w: "well_placed cs ?p" "remaining ?p < ?k" using new_parser_placed [OF cs ok] by simp_all
  from takes_repeat [where step = ?step and a = "[]", OF s] w show ?thesis
    by (cases rule: takesE) (simp_all add: parse_many_def Inr del: grammar.simps)
qed

end
