(* ===== verification/ParserPrint.thy ===== *)
theory ParserPrint
  imports ParserLaws
begin

text \<open>
  Precedence and associativity: an expression written as tokens, with the parentheses that its operators need and no others,
  is parsed back to itself.  \<open>show_expr\<close> writes it; the levels are those of the grammar at the head of
  \<^verbatim>\<open>src/sql/parser.rs\<close>, from \<^verbatim>\<open>or\<close> (0) to \<^verbatim>\<open>primary\<close> (8).
\<close>

section \<open>Levels\<close>

definition op_prec :: "bin_op \<Rightarrow> nat" where
  "op_prec op = (case op of OpOr \<Rightarrow> 0 | OpAnd \<Rightarrow> 1 | OpAdd \<Rightarrow> 4 | OpSub \<Rightarrow> 4 | OpMul \<Rightarrow> 5 | OpDiv \<Rightarrow> 5 | OpMod \<Rightarrow> 5
     | OpConcat \<Rightarrow> 6 | OpJsonGet \<Rightarrow> 6 | OpJsonGetText \<Rightarrow> 6 | _ \<Rightarrow> 3)"

definition op_tok :: "bin_op \<Rightarrow> tok" where
  "op_tok op = (case op of OpEq \<Rightarrow> TEq | OpNe \<Rightarrow> TNe | OpLt \<Rightarrow> TLt | OpLe \<Rightarrow> TLe | OpGt \<Rightarrow> TGt | OpGe \<Rightarrow> TGe
     | OpAnd \<Rightarrow> TKw ''AND'' | OpOr \<Rightarrow> TKw ''OR'' | OpAdd \<Rightarrow> TPlus | OpSub \<Rightarrow> TMinus | OpMul \<Rightarrow> TStar | OpDiv \<Rightarrow> TSlash
     | OpMod \<Rightarrow> TPercent | OpConcat \<Rightarrow> TConcat | OpJsonGet \<Rightarrow> TArrow | OpJsonGetText \<Rightarrow> TArrowArrow)"

definition left_level :: "bin_op \<Rightarrow> nat" where "left_level op = (if op_prec op = 3 then 4 else op_prec op)"
definition right_level :: "bin_op \<Rightarrow> nat" where "right_level op = op_prec op + 1"

fun prec :: "expr \<Rightarrow> nat" where
  "prec (EBinary _ op _) = op_prec op"
| "prec (EUnary OpNot _) = 2"
| "prec (EUnary OpNeg _) = 7"
| "prec (EIsNull _ _) = 3"
| "prec (ELike _ _ _) = 3"
| "prec (EMatch _ _ _) = 3"
| "prec (EIn _ _ _) = 3"
| "prec _ = 8"

definition paren :: "nat \<Rightarrow> expr \<Rightarrow> tok list \<Rightarrow> tok list" where
  "paren L e ts = (if prec e < L then TLParen # ts @ [TRParen] else ts)"

definition type_kw :: "col_type \<Rightarrow> kw" where
  "type_kw t = (case t of ColInteger \<Rightarrow> ''INTEGER'' | ColReal \<Rightarrow> ''REAL'' | ColText \<Rightarrow> ''TEXT'' | ColBlob \<Rightarrow> ''BLOB'' | ColBoolean \<Rightarrow> ''BOOLEAN'')"

fun literal_tok :: "val \<Rightarrow> tok" where
  "literal_tok Null = TKw ''NULL''"
| "literal_tok (Bool True) = TKw ''TRUE''"
| "literal_tok (Bool False) = TKw ''FALSE''"
| "literal_tok (Integer n) = TInt n"
| "literal_tok (Real f) = TFloat f"
| "literal_tok (Text s) = TStr s"
| "literal_tok (Blob b) = TBlob b"

fun commas :: "tok list list \<Rightarrow> tok list" where
  "commas [] = []"
| "commas [ts] = ts"
| "commas (ts # tss) = ts @ TComma # commas tss"

definition neg :: "bool \<Rightarrow> tok list" where "neg b = (if b then [TKw ''NOT''] else [])"

section \<open>The tokens of an expression\<close>

fun show_expr :: "expr \<Rightarrow> tok list" where
  "show_expr (ELiteral v) = [literal_tok v]"
| "show_expr (EColumn None c) = [TIdent c]"
| "show_expr (EColumn (Some t) c) = [TIdent t, TDot, TIdent c]"
| "show_expr (EUnary OpNot e) = TKw ''NOT'' # paren 2 e (show_expr e)"
| "show_expr (EUnary OpNeg e) = TMinus # paren 7 e (show_expr e)"
| "show_expr (EBinary a op b) = paren (left_level op) a (show_expr a) @ op_tok op # paren (right_level op) b (show_expr b)"
| "show_expr (EIsNull e n) = paren 4 e (show_expr e) @ TKw ''IS'' # neg n @ [TKw ''NULL'']"
| "show_expr (ELike e q n) = paren 4 e (show_expr e) @ neg n @ TKw ''LIKE'' # paren 4 q (show_expr q)"
| "show_expr (EMatch e q n) = paren 4 e (show_expr e) @ neg n @ TKw ''MATCH'' # paren 4 q (show_expr q)"
| "show_expr (EIn e xs n) = paren 4 e (show_expr e) @ neg n @ TKw ''IN'' # TLParen # commas (map show_expr xs) @ [TRParen]"
| "show_expr (ECast e t) = TKw ''CAST'' # TLParen # show_expr e @ [TKw ''AS'', TKw (type_kw t), TRParen]"
| "show_expr (EFunction f args) = TIdent f # TLParen # commas (map show_expr args) @ [TRParen]"
| "show_expr (ECase operand whens els) =
     TKw ''CASE'' # (case operand of None \<Rightarrow> [] | Some e \<Rightarrow> show_expr e) @
     concat (map (\<lambda>(c, r). TKw ''WHEN'' # show_expr c @ TKw ''THEN'' # show_expr r) whens) @
     (case els of None \<Rightarrow> [] | Some e \<Rightarrow> TKw ''ELSE'' # show_expr e) @ [TKw ''END'']"
| "show_expr e = []"

text \<open>The expressions it writes, and how deeply they nest calls of \<^verbatim>\<open>expr\<close>.\<close>

definition plain_name :: "bytes \<Rightarrow> bool" where
  "plain_name f \<longleftrightarrow> to_ascii_uppercase f \<notin> set (map ascii_bytes [''MIN'', ''MAX'', ''COUNT'', ''SUM'', ''AVG'', ''GROUP_CONCAT'', ''IIF''])"

fun writable :: "expr \<Rightarrow> bool" where
  "writable (ELiteral v) = True"
| "writable (EColumn t c) = True"
| "writable (EUnary op e) = writable e"
| "writable (EBinary a op b) = (writable a \<and> writable b)"
| "writable (EIsNull e n) = writable e"
| "writable (ELike e q n) = (writable e \<and> writable q)"
| "writable (EMatch e q n) = (writable e \<and> writable q)"
| "writable (EIn e xs n) = (writable e \<and> list_all writable xs)"
| "writable (ECast e t) = writable e"
| "writable (EFunction f args) = (plain_name f \<and> list_all writable args)"
| "writable (ECase operand whens els) = (whens \<noteq> [] \<and> pred_option writable operand \<and>
     list_all (\<lambda>(c, r). writable c \<and> writable r) whens \<and> pred_option writable els)"
| "writable e = False"

definition pnest :: "nat \<Rightarrow> expr \<Rightarrow> nat \<Rightarrow> nat" where "pnest L e n = (if prec e < L then n + 1 else n)"

definition max_of :: "nat list \<Rightarrow> nat" where "max_of ns = foldr max ns 0"

fun nest :: "expr \<Rightarrow> nat" where
  "nest (EUnary OpNot e) = pnest 2 e (nest e)"
| "nest (EUnary OpNeg e) = pnest 7 e (nest e)"
| "nest (EBinary a op b) = max (pnest (left_level op) a (nest a)) (pnest (right_level op) b (nest b))"
| "nest (EIsNull e n) = pnest 4 e (nest e)"
| "nest (ELike e q n) = max (pnest 4 e (nest e)) (pnest 4 q (nest q))"
| "nest (EMatch e q n) = max (pnest 4 e (nest e)) (pnest 4 q (nest q))"
| "nest (EIn e xs n) = max (pnest 4 e (nest e)) (max_of (map (\<lambda>x. nest x + 1) xs))"
| "nest (ECast e t) = nest e + 1"
| "nest (EFunction f args) = max_of (map (\<lambda>x. nest x + 1) args)"
| "nest (ECase operand whens els) = max (case operand of None \<Rightarrow> 0 | Some e \<Rightarrow> nest e + 1)
     (max (max_of (map (\<lambda>(c, r). max (nest c + 1) (nest r + 1)) whens)) (case els of None \<Rightarrow> 0 | Some e \<Rightarrow> nest e + 1))"
| "nest e = 0"

section \<open>Reading tokens\<close>

definition at :: "parser \<Rightarrow> tok list \<Rightarrow> bool" where
  "at p ts \<longleftrightarrow> map sp_tok (drop (ps_i p) (ps_toks p)) = ts"

definition adv :: "parser \<Rightarrow> nat \<Rightarrow> parser" where "adv p n = p\<lparr>ps_i := ps_i p + n\<rparr>"

lemma adv_simps [simp]: "adv (adv p a) b = adv p (a + b)" "adv p 0 = p" "ps_depth (adv p n) = ps_depth p"
  "ps_toks (adv p n) = ps_toks p" "ps_i (adv p n) = ps_i p + n"
  by (simp_all add: adv_def add.assoc)

lemma adv_depth [simp]: "(adv p n)\<lparr>ps_depth := d\<rparr> = adv (p\<lparr>ps_depth := d\<rparr>) n"
  by (simp add: adv_def)

lemma at_adv: "at p (ts @ us) \<Longrightarrow> at (adv p (length ts)) us"
  by (auto simp: at_def drop_map [symmetric] add.commute drop_drop [symmetric] simp del: drop_drop)

lemma at_adv1: "at p (t # us) \<Longrightarrow> at (adv p 1) us"
  using at_adv [of p "[t]" us] by simp

definition first :: "tok list \<Rightarrow> tok option" where "first ts = (case ts of [] \<Rightarrow> None | t # _ \<Rightarrow> Some t)"

lemma first_simps [simp]: "first [] = None" "first (t # ts) = Some t" "ts \<noteq> [] \<Longrightarrow> first (ts @ us) = first ts"
  by (auto simp: first_def split: list.split)

lemma at_peek: "at p ts \<Longrightarrow> peek p = first ts"
  by (cases "drop (ps_i p) (ps_toks p)") (auto simp: at_def peek_def peek_spanned_def get_at_def first_def nth_via_drop)

lemma at_peek2: "at p (t # ts) \<Longrightarrow> peek2 p = first ts"
  using at_peek [OF at_adv1, of p t ts] by (simp add: peek_def peek2_def peek_spanned_def)

lemma at_remaining: "at p ts \<Longrightarrow> remaining p = length ts"
  by (auto simp: at_def remaining_def)

lemma reading_eqs:
  "eat t p = (if peek p = Some t then Some (Inr True, adv p 1) else Some (Inr False, p))"
  "eat2 t u p = (if peek p = Some t \<and> peek2 p = Some u then Some (Inr True, adv p 2) else Some (Inr False, p))"
  "next_tok p = (case peek p of None \<Rightarrow> Some (Inr None, p) | Some t \<Rightarrow> Some (Inr (Some t), adv p 1))"
  "peeked p = Some (Inr (peek p), p)"
  "peek p = Some (TIdent x) \<Longrightarrow> ident what p = Some (Inr x, adv p 1)"
  "peek p = Some t \<Longrightarrow> expect t what p = Some (Inr (), adv p 1)"
  "eat_op table p = (case Option.bind (peek p) (map_of table) of None \<Rightarrow> Some (Inr None, p) | Some x \<Rightarrow> Some (Inr (Some x), adv p 1))"
  by (simp_all add: eat_def eat2_def next_tok_def peeked_def ident_def expect_def eat_op_def adv_def split: option.split)

lemma reading_binds:
  "sbind (eat t) f p = (if peek p = Some t then f True (adv p 1) else f False p)"
  "sbind (eat2 t u) g p = (if peek p = Some t \<and> peek2 p = Some u then g True (adv p 2) else g False p)"
  by (simp_all add: sbind_def reading_eqs)

lemma expect_kw_eq: "peek p = Some (TKw k) \<Longrightarrow> expect_kw k what p = Some (Inr (), adv p 1)"
  by (simp add: expect_kw_def reading_eqs)

text \<open>What is behind the first token, as the reading of a sequence needs it.\<close>

lemma at_Cons: "at p (t # ts) \<longleftrightarrow> peek p = Some t \<and> at (adv p 1) ts"
proof
  assume "at p (t # ts)"
  then show "peek p = Some t \<and> at (adv p 1) ts" using at_adv1 [of p t ts] at_peek by force
next
  assume a: "peek p = Some t \<and> at (adv p 1) ts"
  then obtain s where "get_at (ps_toks p) (ps_i p) = Some s" "sp_tok s = t" by (auto simp: peek_def peek_spanned_def)
  then have "drop (ps_i p) (ps_toks p) = s # drop (Suc (ps_i p)) (ps_toks p)" "sp_tok s = t"
    by (auto simp: get_at_Some_iff Cons_nth_drop_Suc)
  then show "at p (t # ts)" using a by (simp add: at_def)
qed

section \<open>The levels of the parser\<close>

definition level :: "nat \<Rightarrow> grammar \<Rightarrow> expr px" where
  "level L g = (if L = 0 then or_expr g else if L = 1 then and_expr g else if L = 2 then not_expr g else if L = 3 then cmp_expr g
     else if L = 4 then add_expr g else if L = 5 then mul_expr g else if L = 6 then concat_expr g else if L = 7 then unary_expr g
     else primary g)"

definition table :: "nat \<Rightarrow> (tok \<times> bin_op) list" where
  "table L = (if L = 0 then [(TKw ''OR'', OpOr)] else if L = 1 then [(TKw ''AND'', OpAnd)]
     else if L = 4 then [(TPlus, OpAdd), (TMinus, OpSub)]
     else if L = 5 then [(TStar, OpMul), (TSlash, OpDiv), (TPercent, OpMod)]
     else [(TConcat, OpConcat), (TArrow, OpJsonGet), (TArrowArrow, OpJsonGetText)])"

definition chains :: "nat set" where "chains = {0, 1, 4, 5, 6}"

lemma level_chain: "L \<in> chains \<Longrightarrow> level L g = left_assoc (table L) (level (L + 1) g)"
  by (auto simp: chains_def level_def table_def or_expr_def and_expr_def add_expr_def mul_expr_def concat_expr_def)

text \<open>The level at which the parser goes on with a token that follows an operand.\<close>

fun binds :: "tok \<Rightarrow> nat option" where
  "binds (TKw k) = (if k = ''OR'' then Some 0 else if k = ''AND'' then Some 1
     else if k \<in> {''IS'', ''NOT'', ''LIKE'', ''MATCH'', ''IN'', ''BETWEEN''} then Some 3 else if k = ''OVER'' then Some 8 else None)"
| "binds t = (if t \<in> {TEq, TNe, TLt, TLe, TGt, TGe} then Some 3 else if t \<in> {TPlus, TMinus} then Some 4
     else if t \<in> {TStar, TSlash, TPercent} then Some 5 else if t \<in> {TConcat, TArrow, TArrowArrow} then Some 6
     else if t \<in> {TDot, TLParen} then Some 8 else None)"

definition stops :: "nat \<Rightarrow> tok list \<Rightarrow> bool" where
  "stops L ts \<longleftrightarrow> (\<forall>t l. first ts = Some t \<longrightarrow> binds t = Some l \<longrightarrow> l < L)"

lemma stops_mono: "stops L ts \<Longrightarrow> L \<le> M \<Longrightarrow> stops M ts"
  by (fastforce simp: stops_def)

lemma stops_Nil [simp]: "stops L []"
  by (simp add: stops_def)

lemma stops_Cons: "stops L (t # ts) \<longleftrightarrow> (\<forall>l. binds t = Some l \<longrightarrow> l < L)"
  by (simp add: stops_def)

lemma table_binds: "map_of (table L) t = Some op \<Longrightarrow> L \<in> chains \<Longrightarrow> binds t = Some L"
  by (auto simp: table_def chains_def split: if_splits)

lemma table_op: "op_prec op \<in> chains \<Longrightarrow> map_of (table (op_prec op)) (op_tok op) = Some op"
  by (cases op) (simp_all add: op_prec_def chains_def table_def op_tok_def)

lemma binds_op: "binds (op_tok op) = Some (op_prec op)"
  by (cases op) (simp_all add: op_prec_def op_tok_def)

lemma stopped_op: "stops L ts \<Longrightarrow> at p ts \<Longrightarrow> L \<in> chains \<Longrightarrow> eat_op (table L) p = Some (Inr None, p)"
proof -
  assume a: "stops L ts" "at p ts" "L \<in> chains"
  have "map_of (table L) t = None" if "first ts = Some t" for t
    using a(1) that table_binds [OF _ a(3)] by (cases "map_of (table L) t") (auto simp: stops_def)
  then show ?thesis using at_peek [OF a(2)] by (auto simp: reading_eqs split: bind_split)
qed

section \<open>Chains of operators\<close>

definition chain_step :: "(tok \<times> bin_op) list \<Rightarrow> expr px \<Rightarrow> expr \<Rightarrow> expr option px" where
  "chain_step tab operand left = sbind (eat_op tab) (\<lambda>op. case op of
       None \<Rightarrow> sret None
     | Some op \<Rightarrow> sbind operand (\<lambda>right. sret (Some (EBinary left op right))))"

lemma left_assoc_step: "left_assoc tab operand = sbind operand (repeat_px (chain_step tab operand))"
  by (simp add: left_assoc_def chain_step_def [abs_def])

lemma repeat_loop_more: "repeat_loop n step a p = Some r \<Longrightarrow> n \<le> m \<Longrightarrow> repeat_loop m step a p = Some r"
proof (induction n arbitrary: a p m)
  case (Suc n)
  then obtain l where m: "m = Suc l" "n \<le> l" by (cases m) auto
  then show ?case using Suc.prems(1) Suc.IH [of _ _ l]
    by (auto simp: sbind_def split: option.splits sum.splits prod.splits)
qed simp

lemma repeat_stop: "step a p = Some (Inr None, p) \<Longrightarrow> repeat_px step a p = Some (Inr a, p)"
  by (simp add: repeat_px_def)

lemma repeat_more:
  assumes "step a p = Some (Inr (Some b), q)" "remaining q < remaining p" "repeat_px step b q = Some r"
  shows "repeat_px step a p = Some r"
  using assms repeat_loop_more [of "Suc (remaining q)" step b q r "remaining p"] by (simp add: repeat_px_def)

lemma chain_stop:
  assumes "stops L ts" "at p ts" "L \<in> chains"
  shows "repeat_px (chain_step (table L) operand) e p = Some (Inr e, p)"
  by (rule repeat_stop) (simp add: chain_step_def stopped_op [OF assms])

lemma chain_more:
  assumes "at p (op_tok op # ts)" "op_prec op \<in> chains" "operand (adv p 1) = Some (Inr b, adv p (1 + n))" "n \<le> length ts"
    "repeat_px (chain_step (table (op_prec op)) operand) (EBinary a op b) (adv p (1 + n)) = Some r"
  shows "repeat_px (chain_step (table (op_prec op)) operand) a p = Some r"
proof (rule repeat_more)
  show "chain_step (table (op_prec op)) operand a p = Some (Inr (Some (EBinary a op b)), adv p (1 + n))"
    using assms(1-3) by (simp add: chain_step_def reading_eqs at_peek table_op)
  have "remaining p = length ts + 1" using at_remaining [OF assms(1)] by simp
  then show "remaining (adv p (1 + n)) < remaining p" by (simp add: remaining_def)
qed (rule assms(5))

section \<open>First tokens\<close>

definition starts :: "tok \<Rightarrow> bool" where
  "starts t \<longleftrightarrow> (case t of TKw k \<Rightarrow> k \<in> {''NULL'', ''TRUE'', ''FALSE'', ''CAST'', ''CASE'', ''NOT''} | TIdent _ \<Rightarrow> True | TInt _ \<Rightarrow> True
     | TFloat _ \<Rightarrow> True | TStr _ \<Rightarrow> True | TBlob _ \<Rightarrow> True | TMinus \<Rightarrow> True | TLParen \<Rightarrow> True | _ \<Rightarrow> False)"

definition opens :: "nat \<Rightarrow> tok list \<Rightarrow> bool" where
  "opens L ts \<longleftrightarrow> (\<exists>t us. ts = t # us \<and> starts t \<and> (3 \<le> L \<longrightarrow> t \<noteq> TKw ''NOT'') \<and> (8 \<le> L \<longrightarrow> t \<noteq> TMinus))"

lemma opens_append: "opens L ts \<Longrightarrow> opens L (ts @ us)"
  by (auto simp: opens_def)

lemma opens_mono: "opens L ts \<Longrightarrow> M \<le> L \<Longrightarrow> opens M ts"
  by (auto simp: opens_def)

lemma opens_paren: "(L \<le> prec e \<Longrightarrow> opens L ts) \<Longrightarrow> opens L (paren L e ts)"
  by (cases "prec e < L") (auto simp: paren_def opens_def starts_def)

lemma op_prec_le: "op_prec op \<le> 6" "op_prec op \<le> left_level op"
  by (cases op; simp add: op_prec_def left_level_def)+

lemma opens_show: "writable e \<Longrightarrow> opens L (paren L e (show_expr e))"
proof (induction e arbitrary: L rule: writable.induct)
  case (1 v)
  then show ?case by (intro opens_paren; cases v; cases "v = Bool True") (auto simp: opens_def starts_def)
next
  case (2 t c)
  then show ?case by (intro opens_paren; cases t) (auto simp: opens_def starts_def)
next
  case (3 op e)
  then show ?case by (intro opens_paren; cases op) (auto simp: opens_def starts_def)
next
  case (4 a op b)
  have "opens (left_level op) (paren (left_level op) a (show_expr a))" using 4 by simp
  then show ?case
    by (intro opens_paren) (use op_prec_le [of op] in \<open>auto intro!: opens_append elim: opens_mono\<close>)
next
  case (5 e n)
  have "opens 4 (paren 4 e (show_expr e))" using 5 by simp
  then show ?case by (intro opens_paren) (auto intro!: opens_append elim: opens_mono)
next
  case (6 e q n)
  have "opens 4 (paren 4 e (show_expr e))" using 6 by simp
  then show ?case by (intro opens_paren) (auto intro!: opens_append elim: opens_mono)
next
  case (7 e q n)
  have "opens 4 (paren 4 e (show_expr e))" using 7 by simp
  then show ?case by (intro opens_paren) (auto intro!: opens_append elim: opens_mono)
next
  case (8 e xs n)
  have "opens 4 (paren 4 e (show_expr e))" using 8 by simp
  then show ?case by (intro opens_paren) (auto intro!: opens_append elim: opens_mono)
next
  case (9 e t)
  show ?case by (rule opens_paren) (simp add: opens_def starts_def)
next
  case (10 f args)
  show ?case by (rule opens_paren) (simp add: opens_def starts_def)
next
  case (11 operand whens els)
  show ?case by (rule opens_paren) (simp add: opens_def starts_def)
qed simp_all

section \<open>Reading back at a level\<close>

abbreviation shown :: "nat \<Rightarrow> expr \<Rightarrow> tok list" where "shown L e \<equiv> paren L e (show_expr e)"

definition ready :: "nat \<Rightarrow> expr \<Rightarrow> nat \<Rightarrow> parser \<Rightarrow> tok list \<Rightarrow> bool" where
  "ready L e k p rest \<longleftrightarrow> at p (shown L e @ rest) \<and> length (shown L e) \<le> k \<and> ps_depth p + pnest L e (nest e) \<le> MAX_EXPR_DEPTH"

definition read_back :: "nat \<Rightarrow> expr \<Rightarrow> bool" where
  "read_back L e \<longleftrightarrow> (\<forall>k p rest. ready L e k p rest \<longrightarrow> stops L rest \<longrightarrow>
     level L (grammar k) p = Some (Inr e, adv p (length (shown L e))))"

definition chained :: "nat \<Rightarrow> expr \<Rightarrow> bool" where
  "chained L e \<longleftrightarrow> (\<forall>k p rest r. ready L e k p rest \<longrightarrow> stops (L + 1) rest \<longrightarrow>
     repeat_px (chain_step (table L) (level (L + 1) (grammar k))) e (adv p (length (shown L e))) = Some r \<longrightarrow>
     level L (grammar k) p = Some r)"

lemma reads_same_level: "prec e \<noteq> L \<Longrightarrow> ready (L + 1) e k p rest \<longleftrightarrow> ready L e k p rest" "prec e \<noteq> L \<Longrightarrow> shown (L + 1) e = shown L e"
  by (auto simp: ready_def paren_def pnest_def)

lemma ready_at: "ready L e k p rest \<Longrightarrow> at (adv p (length (shown L e))) rest"
  by (simp add: ready_def at_adv)

lemma chained_read_back: "L \<in> chains \<Longrightarrow> chained L e \<Longrightarrow> read_back L e"
  unfolding read_back_def chained_def using chain_stop ready_at stops_mono [of L _ "L + 1"] by simp

lemma chained_next: "L \<in> chains \<Longrightarrow> prec e \<noteq> L \<Longrightarrow> read_back (L + 1) e \<Longrightarrow> chained L e"
  unfolding read_back_def chained_def level_chain left_assoc_step by (simp add: reads_same_level [simplified])

lemma cmp_stop: "stops 3 ts \<Longrightarrow> at p ts \<Longrightarrow> cmp_rest g e p = Some (Inr e, p)"
proof -
  assume s: "stops 3 ts" and a: "at p ts"
  have k: "peek p \<noteq> Some t" if "binds t = Some 3" for t using s that at_peek [OF a] by (auto simp: stops_def)
  have n: "sbind (eat_negatable w) f p = f None p" if "binds (TKw w) = Some 3" for w and f :: "bool option \<Rightarrow> expr px"
    using k [OF that] k [of "TKw ''NOT''"] by (simp add: eat_negatable_def reading_eqs)
  have i: "sbind (eat_kw ''IS'') f p = f False p" for f :: "bool \<Rightarrow> expr px"
    using k [of "TKw ''IS''"] by (simp add: reading_eqs)
  have "map_of compare_ops t = None" if "peek p = Some t" for t
    using k [of t] that by (auto simp: compare_ops_def)
  then have "eat_op compare_ops p = Some (Inr None, p)" by (auto simp: reading_eqs split: bind_split)
  then have o: "sbind (eat_op compare_ops) f p = f None p" for f :: "bin_op option \<Rightarrow> expr px" by simp
  show ?thesis unfolding cmp_rest_def by (simp add: i n o)
qed

lemma not_falls: "peek p \<noteq> Some (TKw ''NOT'') \<Longrightarrow> not_expr g p = cmp_expr g p"
  by (simp add: not_expr_def reading_eqs)

lemma unary_falls: "peek p \<noteq> Some TMinus \<Longrightarrow> unary_expr g p = primary g p"
  by (simp add: unary_expr_def reading_eqs)

lemma fall:
  assumes w: "writable e" and L: "L < 8" "prec e \<noteq> L" and r: "read_back (L + 1) e"
  shows "read_back L e"
proof (cases "L \<in> chains")
  case True
  show ?thesis by (rule chained_read_back [OF True chained_next [OF True L(2) r]])
next
  case False
  then have L: "L = 2 \<or> L = 3 \<or> L = 7" using L(1) by (auto simp: chains_def)
  show ?thesis
    unfolding read_back_def
  proof (intro allI impI)
    fix k p rest assume a: "ready L e k p rest" "stops L rest"
    let ?r = "Some (Inr e, adv p (length (shown L e)))"
    have up: "level (L + 1) (grammar k) p = ?r"
      using r a stops_mono [of L rest "L + 1"] reads_same_level [OF assms(3)] unfolding read_back_def by simp
    have "opens (L + 1) (shown L e)" using opens_show [OF w, of "L + 1"] reads_same_level(2) [OF assms(3)] by simp
    then obtain t us where t: "shown L e = t # us" "3 \<le> L + 1 \<longrightarrow> t \<noteq> TKw ''NOT''" "8 \<le> L + 1 \<longrightarrow> t \<noteq> TMinus"
      by (auto simp: opens_def)
    have f: "peek p = Some t" using a(1) at_peek [of p "shown L e @ rest"] by (simp add: ready_def t(1))
    from L show "level L (grammar k) p = ?r"
    proof (elim disjE)
      assume l: "L = 2"
      have "cmp_expr (grammar k) p = ?r" using up by (simp add: l level_def)
      then show ?thesis using not_falls [of p] f t(2) by (simp add: l level_def)
    next
      assume l: "L = 3"
      have "add_expr (grammar k) p = ?r" using up by (simp add: l level_def)
      moreover have "cmp_rest (grammar k) e (adv p (length (shown L e))) = ?r"
        using cmp_stop [OF _ ready_at [OF a(1)]] a(2) l by simp
      ultimately show ?thesis by (simp add: l level_def cmp_expr_def)
    next
      assume l: "L = 7"
      have "primary (grammar k) p = ?r" using up by (simp add: l level_def)
      then show ?thesis using unary_falls [of p] f t(3) by (simp add: l level_def)
    qed
  qed
qed

lemma fall_to: "writable e \<Longrightarrow> read_back M e \<Longrightarrow> L \<le> M \<Longrightarrow> M \<le> 8 \<Longrightarrow> (\<forall>l. L \<le> l \<longrightarrow> l < M \<longrightarrow> prec e \<noteq> l) \<Longrightarrow> read_back L e"
proof (induction "M - L" arbitrary: L)
  case (Suc d)
  have l: "d = M - (L + 1)" "L + 1 \<le> M" "L < 8" "prec e \<noteq> L" using Suc.hyps(2) Suc.prems(3-5) by auto
  have "read_back (L + 1) e" by (rule Suc.hyps(1) [OF l(1) Suc.prems(1,2) l(2) Suc.prems(4)]) (use Suc.prems(5) in simp)
  then show ?case by (rule fall [OF Suc.prems(1) l(3,4)])
qed simp

section \<open>Nested expressions\<close>

lemma sbind_to: "m p = Some (Inr x, q) \<Longrightarrow> f x q = r \<Longrightarrow> sbind m f p = r"
  by simp

lemma then_to: "m p = Some (Inr x, q) \<Longrightarrow> k q = r \<Longrightarrow> then_px m k p = r"
  by (simp add: then_px_def)

lemma shown_0 [simp]: "shown 0 e = show_expr e" "pnest 0 e n = n"
  by (simp_all add: paren_def pnest_def)

lemma shown_native [simp]: "shown (prec e) e = show_expr e" "pnest (prec e) e n = n"
  by (simp_all add: paren_def pnest_def)

text \<open>A call of \<^verbatim>\<open>expr\<close> from inside an expression.\<close>

definition expr_reads :: "expr \<Rightarrow> bool" where
  "expr_reads e \<longleftrightarrow> (\<forall>k p rest. at p (show_expr e @ rest) \<longrightarrow> stops 0 rest \<longrightarrow> length (show_expr e) < k \<longrightarrow>
     ps_depth p + nest e + 1 \<le> MAX_EXPR_DEPTH \<longrightarrow> g_expr (grammar k) p = Some (Inr e, adv p (length (show_expr e))))"

lemma expr_readsD: "expr_reads e \<Longrightarrow> at p (show_expr e @ rest) \<Longrightarrow> stops 0 rest \<Longrightarrow> length (show_expr e) < k \<Longrightarrow>
    ps_depth p + nest e + 1 \<le> MAX_EXPR_DEPTH \<Longrightarrow> g_expr (grammar k) p = Some (Inr e, adv p (length (show_expr e)))"
  by (simp add: expr_reads_def)

lemma read_back_expr: "read_back 0 e \<Longrightarrow> expr_reads e"
  unfolding expr_reads_def
proof (intro allI impI)
  fix k p rest
  assume r: "read_back 0 e" and a: "at p (show_expr e @ rest)" "stops 0 rest" "length (show_expr e) < k"
    "ps_depth p + nest e + 1 \<le> MAX_EXPR_DEPTH"
  obtain m where k: "k = Suc m" "length (show_expr e) \<le> m" using a(3) by (cases k) auto
  let ?p = "p\<lparr>ps_depth := ps_depth p + 1\<rparr>"
  have "ready 0 e m ?p rest" using a k by (simp add: ready_def at_def)
  then have "or_expr (grammar m) ?p = Some (Inr e, adv ?p (length (show_expr e)))"
    using r a(2) unfolding read_back_def by (simp add: level_def)
  then show "g_expr (grammar k) p = Some (Inr e, adv p (length (show_expr e)))"
    using a(4) by (simp add: k(1) Let_def expr_px_def)
qed

lemma primary_first: "peek p = Some t \<Longrightarrow> primary g p = primary_tok g (cur_pos p) t (adv p 1)"
  by (simp add: primary_def here_def reading_eqs)

lemma opens_ne: "opens L ts \<Longrightarrow> \<exists>t. first (ts @ us) = Some t \<and> starts t"
  by (auto simp: opens_def)

lemma starts_not [simp]: "\<not> starts (TKw ''SELECT'')" "\<not> starts (TKw ''WHEN'')" "\<not> starts (TKw ''DISTINCT'')" "\<not> starts TRParen" "\<not> starts TStar"
  by (simp_all add: starts_def)

lemma peek_show:
  assumes "writable e" "at p (show_expr e @ rest)"
  shows "\<exists>t. peek p = Some t \<and> starts t"
  using opens_ne [OF opens_show [OF assms(1), of 0]] at_peek [OF assms(2)] by simp

lemma read_back_paren:
  assumes w: "writable e" and r: "read_back 0 e" and e: "prec e < 8"
  shows "read_back 8 e"
  unfolding read_back_def
proof (intro allI impI)
  fix k p rest assume a: "ready 8 e k p rest" "stops 8 rest"
  have at: "at p (TLParen # show_expr e @ TRParen # rest)" and k: "length (show_expr e) < k" and d: "ps_depth p + nest e + 1 \<le> MAX_EXPR_DEPTH"
    using a(1) e by (simp_all add: ready_def paren_def pnest_def)
  note at1 = at_adv1 [OF at]
  have g: "g_expr (grammar k) (adv p 1) = Some (Inr e, adv (adv p 1) (length (show_expr e)))"
    by (rule expr_readsD [OF read_back_expr [OF r] at1]) (use k d in \<open>simp_all add: stops_Cons\<close>)
  have c: "peek (adv p (length (show_expr e) + 1)) = Some TRParen" using at_peek [OF at_adv [OF at1]] by (simp add: add.commute)
  have s: "peek (adv p 1) \<noteq> Some (TKw ''SELECT'')" using peek_show [OF w at1] by auto
  have "paren_expr (grammar k) (adv p 1) = Some (Inr e, adv p (length (show_expr e) + 2))"
    using g c s by (simp add: paren_expr_def reading_eqs then_px_def add.commute)
  moreover have "peek p = Some TLParen" using at_peek [OF at] by simp
  ultimately show "level 8 (grammar k) p = Some (Inr e, adv p (length (shown 8 e)))"
    using e by (simp add: level_def primary_first primary_tok_def paren_def)
qed

definition reads_all :: "expr \<Rightarrow> bool" where
  "reads_all e \<longleftrightarrow> (\<forall>L \<le> 8. read_back L e) \<and> (\<forall>L \<in> chains. chained L e)"

lemma prec_le: "prec e \<le> 8"
  by (cases e rule: prec.cases) (simp_all add: le_trans [OF op_prec_le(1)])

lemma reads_allI:
  assumes w: "writable e" and r: "read_back (prec e) e" and c: "prec e \<in> chains \<Longrightarrow> chained (prec e) e"
  shows "reads_all e"
proof -
  have low: "read_back L e" if "L \<le> prec e" for L
    by (rule fall_to [OF w r that prec_le]) simp
  have high: "read_back L e" if "prec e < L" "L \<le> 8" for L
    by (rule fall_to [OF w read_back_paren [OF w low [of 0]]]) (use that in auto)
  have all: "read_back L e" if "L \<le> 8" for L using low high that by (cases "L \<le> prec e") auto
  moreover have "chained L e" if "L \<in> chains" for L
  proof (cases "prec e = L")
    case True
    then show ?thesis using c that by simp
  next
    case False
    have "L + 1 \<le> 8" using that by (auto simp: chains_def)
    then show ?thesis using chained_next [OF that False all] by simp
  qed
  ultimately show ?thesis by (simp add: reads_all_def)
qed

lemma reads_allD: "reads_all e \<Longrightarrow> L \<le> 8 \<Longrightarrow> read_back L e" "reads_all e \<Longrightarrow> expr_reads e"
  by (simp_all add: reads_all_def read_back_expr)

lemma read_backD:
  assumes "reads_all e" "at p (shown L e @ rest)" "stops L rest" "length (shown L e) \<le> k" "ps_depth p + pnest L e (nest e) \<le> MAX_EXPR_DEPTH"
    "L \<le> 8"
  shows "level L (grammar k) p = Some (Inr e, adv p (length (shown L e)))"
  using reads_allD(1) [OF assms(1,6)] assms(2-5) unfolding read_back_def ready_def by blast

lemma read_backI:
  assumes "\<And>k p rest. at p (show_expr e @ rest) \<Longrightarrow> stops (prec e) rest \<Longrightarrow> length (show_expr e) \<le> k \<Longrightarrow>
    ps_depth p + nest e \<le> MAX_EXPR_DEPTH \<Longrightarrow> level (prec e) (grammar k) p = Some (Inr e, adv p (length (show_expr e)))"
  shows "read_back (prec e) e"
  unfolding read_back_def ready_def shown_native by (intro allI impI assms) simp_all

section \<open>Each kind of expression\<close>

lemma native_literal: "read_back (prec (ELiteral v)) (ELiteral v)"
proof (rule read_backI)
  fix k p rest assume a: "at p (show_expr (ELiteral v) @ rest)"
  have "peek p = Some (literal_tok v)" using at_peek [OF a] by simp
  then show "level (prec (ELiteral v)) (grammar k) p = Some (Inr (ELiteral v), adv p (length (show_expr (ELiteral v))))"
    by (cases v rule: literal_tok.cases) (simp_all add: level_def primary_first primary_tok_def primary_kw_def)
qed

lemma native_column: "read_back (prec (EColumn t c)) (EColumn t c)"
proof (rule read_backI)
  fix k p rest assume a: "at p (show_expr (EColumn t c) @ rest)" "stops (prec (EColumn t c)) rest"
  show "level (prec (EColumn t c)) (grammar k) p = Some (Inr (EColumn t c), adv p (length (show_expr (EColumn t c))))"
  proof (cases t)
    case None
    have "at p (TIdent c # rest)" using a None by simp
    then have "peek p = Some (TIdent c)" "peek (adv p 1) = first rest" using at_peek at_adv1 by fastforce+
    moreover have "first rest \<noteq> Some TDot" "first rest \<noteq> Some TLParen" using a(2) None by (auto simp: stops_def)
    ultimately show ?thesis using None by (simp add: level_def primary_first primary_tok_def ident_expr_def reading_eqs)
  next
    case (Some s)
    have "at p (TIdent s # TDot # TIdent c # rest)" using a Some by simp
    then have "peek p = Some (TIdent s)" "peek (adv p 1) = Some TDot" "peek (adv p 2) = Some (TIdent c)"
      by (simp_all add: at_Cons numeral_2_eq_2)
    then show ?thesis using Some by (simp add: level_def primary_first primary_tok_def ident_expr_def reading_eqs numeral_2_eq_2)
  qed
qed

lemma native_unary:
  assumes "reads_all e"
  shows "read_back (prec (EUnary op e)) (EUnary op e)"
proof (rule read_backI)
  fix k p rest
  assume a: "at p (show_expr (EUnary op e) @ rest)" "stops (prec (EUnary op e)) rest" "length (show_expr (EUnary op e)) \<le> k"
    "ps_depth p + nest (EUnary op e) \<le> MAX_EXPR_DEPTH"
  obtain L where L: "prec (EUnary op e) = L" "L = (case op of OpNot \<Rightarrow> 2 | OpNeg \<Rightarrow> 7)" by (cases op) auto
  have at: "at p ((case op of OpNot \<Rightarrow> TKw ''NOT'' | OpNeg \<Rightarrow> TMinus) # shown L e @ rest)" using a(1) L by (cases op) auto
  obtain m where k: "k = Suc m" "length (shown L e) \<le> m" using a(3) L by (cases op; cases k) auto
  have "level L (grammar m) (adv p 1) = Some (Inr e, adv (adv p 1) (length (shown L e)))"
    by (rule read_backD [OF assms at_adv1 [OF at] _ k(2)]) (use a(2,4) L in \<open>cases op; simp\<close>)+
  then show "level (prec (EUnary op e)) (grammar k) p = Some (Inr (EUnary op e), adv p (length (show_expr (EUnary op e))))"
    using at_peek [OF at] L by (cases op) (simp_all add: level_def not_expr_def unary_expr_def reading_eqs k(1) Let_def)
qed

text \<open>The right side of a comparison.\<close>

lemma native_cmp:
  assumes e: "reads_all e" and at: "at p (shown 4 e @ ts)" and s: "stops 4 ts" and k: "length (shown 4 e) \<le> k"
    and d: "ps_depth p + pnest 4 e (nest e) \<le> MAX_EXPR_DEPTH"
    and r: "cmp_rest (grammar k) e (adv p (length (shown 4 e))) = r"
  shows "level 3 (grammar k) p = r"
proof -
  have "add_expr (grammar k) p = Some (Inr e, adv p (length (shown 4 e)))"
    using read_backD [OF e at s k d] by (simp add: level_def)
  then show ?thesis using r by (simp add: level_def cmp_expr_def)
qed

lemma add_reads:
  assumes "reads_all e" "at p (shown 4 e @ ts)" "stops 4 ts" "length (shown 4 e) \<le> k" "ps_depth p + pnest 4 e (nest e) \<le> MAX_EXPR_DEPTH"
  shows "add_expr (grammar k) p = Some (Inr e, adv p (length (shown 4 e)))"
  using read_backD [OF assms] by (simp add: level_def)

lemma negatable_hit:
  assumes "at p (neg n @ TKw w # ts)" "w \<noteq> ''NOT''"
  shows "sbind (eat_negatable w) f p = f (Some n) (adv p (length (neg n) + 1))"
  using assms at_peek [OF assms(1)] at_peek2 [of p "TKw ''NOT''" "TKw w # ts"]
  by (cases n) (simp_all add: neg_def eat_negatable_def reading_eqs numeral_2_eq_2)

lemma negatable_miss:
  assumes "at p (neg n @ TKw v # ts)" "w \<noteq> v" "v \<noteq> ''NOT''" "w \<noteq> ''NOT''"
  shows "sbind (eat_negatable w) f p = f None p"
  using assms at_peek [OF assms(1)] at_peek2 [of p "TKw ''NOT''" "TKw v # ts"]
  by (cases n) (simp_all add: neg_def eat_negatable_def reading_eqs)

lemma is_miss: "peek p \<noteq> Some (TKw ''IS'') \<Longrightarrow> sbind (eat_kw ''IS'') f p = f False p"
  by (simp add: reading_eqs)

lemma neg_not_is: "at p (neg n @ TKw v # ts) \<Longrightarrow> v \<noteq> ''IS'' \<Longrightarrow> peek p \<noteq> Some (TKw ''IS'')"
  using at_peek [of p "neg n @ TKw v # ts"] by (cases n) (auto simp: neg_def)

lemma stops_neg: "binds (TKw w) = Some 3 \<Longrightarrow> stops 4 (neg n @ TKw w # ts)"
  by (cases n) (simp_all add: neg_def stops_Cons)

lemma native_is_null:
  assumes "reads_all e"
  shows "read_back (prec (EIsNull e n)) (EIsNull e n)"
proof (rule read_backI)
  fix k p rest
  assume a: "at p (show_expr (EIsNull e n) @ rest)" "length (show_expr (EIsNull e n)) \<le> k" "ps_depth p + nest (EIsNull e n) \<le> MAX_EXPR_DEPTH"
  have at: "at p (shown 4 e @ TKw ''IS'' # neg n @ TKw ''NULL'' # rest)" using a(1) by simp
  let ?q = "adv p (length (shown 4 e))"
  have q: "at ?q (TKw ''IS'' # neg n @ TKw ''NULL'' # rest)" by (rule at_adv [OF at])
  have "cmp_rest (grammar k) e ?q = Some (Inr (EIsNull e n), adv ?q (length (neg n) + 2))"
    using q by (cases n) (simp_all add: neg_def at_Cons cmp_rest_def reading_eqs then_px_def expect_kw_eq numeral_2_eq_2)
  then have "level 3 (grammar k) p = Some (Inr (EIsNull e n), adv ?q (length (neg n) + 2))"
    by (intro native_cmp [OF assms at]) (use a(2,3) in \<open>simp_all add: stops_Cons\<close>)
  then show "level (prec (EIsNull e n)) (grammar k) p = Some (Inr (EIsNull e n), adv p (length (show_expr (EIsNull e n))))"
    by (simp add: add.assoc)
qed

text \<open>\<^verbatim>\<open>LIKE\<close> and \<^verbatim>\<open>MATCH\<close>.\<close>

lemma like_reads:
  assumes e: "reads_all e" and q: "reads_all q" and at: "at p (shown 4 e @ neg n @ TKw w # shown 4 q @ rest)"
    and k: "length (shown 4 e) + length (shown 4 q) \<le> k" and s: "stops 3 rest"
    and d: "ps_depth p + pnest 4 e (nest e) \<le> MAX_EXPR_DEPTH" "ps_depth p + pnest 4 q (nest q) \<le> MAX_EXPR_DEPTH"
    and w: "w = ''LIKE'' \<and> c = ELike e q n \<or> w = ''MATCH'' \<and> c = EMatch e q n"
  shows "level 3 (grammar k) p = Some (Inr c, adv p (length (shown 4 e) + length (neg n) + 1 + length (shown 4 q)))"
proof -
  let ?q = "adv p (length (shown 4 e))"
  have at1: "at ?q (neg n @ TKw w # shown 4 q @ rest)" by (rule at_adv [OF at])
  have at2: "at (adv ?q (length (neg n) + 1)) (shown 4 q @ rest)" using at_adv1 [OF at_adv [OF at1]] by (simp add: add.assoc)
  have r: "add_expr (grammar k) (adv ?q (length (neg n) + 1)) = Some (Inr q, adv (adv ?q (length (neg n) + 1)) (length (shown 4 q)))"
    by (rule add_reads [OF q at2]) (use k d s stops_mono [of 3 rest 4] in simp_all)
  have "w \<noteq> ''IS''" using w by auto
  then have i: "sbind (eat_kw ''IS'') f ?q = f False ?q" for f :: "bool \<Rightarrow> expr px" by (rule is_miss [OF neg_not_is [OF at1]])
  have "cmp_rest (grammar k) e ?q = Some (Inr c, adv p (length (shown 4 e) + length (neg n) + 1 + length (shown 4 q)))"
    using w
  proof (elim disjE conjE)
    assume w: "w = ''LIKE''" "c = ELike e q n"
    note h = negatable_hit [OF at1 [unfolded w]]
    show ?thesis unfolding cmp_rest_def using r by (simp add: i h w(2) add.assoc)
  next
    assume w: "w = ''MATCH''" "c = EMatch e q n"
    note h = negatable_hit [OF at1 [unfolded w]]
    note m = negatable_miss [OF at1 [unfolded w], of "''LIKE''"]
    show ?thesis unfolding cmp_rest_def using r by (simp add: i h m w(2) add.assoc)
  qed
  moreover have "stops 4 (neg n @ TKw w # shown 4 q @ rest)" using w by (intro stops_neg) auto
  ultimately show ?thesis using k d by (intro native_cmp [OF e at]) simp_all
qed

lemma native_like:
  assumes "reads_all e" "reads_all q"
  shows "read_back (prec (ELike e q n)) (ELike e q n)" "read_back (prec (EMatch e q n)) (EMatch e q n)"
  using like_reads [OF assms, of _ n "''LIKE''"] like_reads [OF assms, of _ n "''MATCH''"]
  by (intro read_backI; simp add: add.assoc)+

section \<open>Lists\<close>

lemma comma_list_reads:
  assumes "xs \<noteq> []" "at p (commas (map f xs) @ rest)" "first rest \<noteq> Some TComma"
    and "\<And>x q ts. x \<in> set xs \<Longrightarrow> at q (f x @ ts) \<Longrightarrow> ps_depth q = ps_depth p \<Longrightarrow> first ts = Some TComma \<or> first ts = first rest \<Longrightarrow>
      item q = Some (Inr x, adv q (length (f x)))"
  shows "comma_list item p = Some (Inr xs, adv p (length (commas (map f xs))))"
proof -
  let ?step = "\<lambda>xs. sbind (eat TComma) (\<lambda>c. if c then sbind item (\<lambda>y. sret (Some (xs @ [y]))) else sret None)"
  have more: "repeat_px ?step ys q = Some (Inr (ys @ zs), adv q (length ts))"
    if "at q (ts @ rest)" "ps_depth q = ps_depth p" "ts = concat (map (\<lambda>z. TComma # f z) zs)" "set zs \<subseteq> set xs" for ys q zs ts
    using that
  proof (induction zs arbitrary: ys q ts)
    case Nil
    then have "peek q \<noteq> Some TComma" using at_peek [of q rest] assms(3) by simp
    then show ?case using Nil by (intro trans [OF repeat_stop]) (simp_all add: reading_eqs)
  next
    case (Cons z zs)
    let ?us = "concat (map (\<lambda>z. TComma # f z) zs)"
    have at: "at q (TComma # f z @ ?us @ rest)" using Cons.prems(1,3) by simp
    note at1 = at_adv1 [OF at]
    have i: "item (adv q 1) = Some (Inr z, adv (adv q 1) (length (f z)))"
      by (rule assms(4) [OF _ at1]) (use Cons.prems in \<open>cases zs; auto\<close>)+
    have at2: "at (adv q (1 + length (f z))) (?us @ rest)" using at_adv [OF at1] by simp
    have s: "?step ys q = Some (Inr (Some (ys @ [z])), adv q (1 + length (f z)))"
      using i at_peek [OF at] by (simp add: reading_eqs)
    have r: "remaining (adv q (1 + length (f z))) < remaining q" using at_remaining [OF at] at_remaining [OF at2] by simp
    have "repeat_px ?step (ys @ [z]) (adv q (1 + length (f z))) = Some (Inr ((ys @ [z]) @ zs), adv (adv q (1 + length (f z))) (length ?us))"
      by (rule Cons.IH [OF at2]) (use Cons.prems in auto)
    then show ?case using repeat_more [where step = ?step, OF s r] Cons.prems(3) by (simp add: add.assoc)
  qed
  obtain x zs where xs: "xs = x # zs" using assms(1) by (cases xs) auto
  have c: "commas (map f (x # zs)) = f x @ concat (map (\<lambda>z. TComma # f z) zs)"
    by (induction zs arbitrary: x) auto
  let ?us = "concat (map (\<lambda>z. TComma # f z) zs)"
  have at: "at p (f x @ ?us @ rest)" using assms(2) xs c by simp
  have "item p = Some (Inr x, adv p (length (f x)))" by (rule assms(4) [OF _ at]) (use xs in \<open>cases zs; auto\<close>)+
  moreover have "repeat_px ?step [x] (adv p (length (f x))) = Some (Inr ([x] @ zs), adv (adv p (length (f x))) (length ?us))"
    by (rule more [OF at_adv [OF at]]) (use xs in auto)
  ultimately show ?thesis unfolding comma_list_def using xs c by simp
qed

lemma max_of_le: "x \<in> set xs \<Longrightarrow> x \<le> max_of xs"
  unfolding max_of_def by (induction xs) auto

lemma show_ne: "writable e \<Longrightarrow> show_expr e \<noteq> []"
  using opens_show [of e 0] by (auto simp: opens_def)

lemma length_commas: "ts \<in> set tss \<Longrightarrow> length ts \<le> length (commas tss)"
  by (induction tss rule: commas.induct) auto

text \<open>The arguments of a call: a list of expressions, perhaps empty, before a closing parenthesis.\<close>

lemma args_read:
  assumes at: "at p (commas (map show_expr xs) @ TRParen # rest)" and w: "list_all writable xs" and r: "\<forall>x \<in> set xs. expr_reads x"
    and k: "length (commas (map show_expr xs)) < k" and d: "ps_depth p + max_of (map (\<lambda>x. nest x + 1) xs) \<le> MAX_EXPR_DEPTH"
  shows "call_args (grammar k) p = Some (Inr xs, adv p (length (commas (map show_expr xs))))"
proof (cases xs)
  case Nil
  then have "peek p = Some TRParen" using at_peek [OF at] by simp
  then show ?thesis using Nil by (simp add: call_args_def reading_eqs)
next
  case (Cons x ys)
  have l: "comma_list (g_expr (grammar k)) p = Some (Inr xs, adv p (length (commas (map show_expr xs))))"
  proof (rule comma_list_reads [OF _ at])
    fix x q ts assume x: "x \<in> set xs" "at q (show_expr x @ ts)" "ps_depth q = ps_depth p" "first ts = Some TComma \<or> first ts = first (TRParen # rest)"
    show "g_expr (grammar k) q = Some (Inr x, adv q (length (show_expr x)))"
    proof (rule expr_readsD [OF _ x(2)])
      show "expr_reads x" using r x(1) by simp
      show "stops 0 ts" using x(4) by (auto simp: stops_def)
      show "length (show_expr x) < k" using length_commas [of "show_expr x" "map show_expr xs"] x(1) k by simp
      show "ps_depth q + nest x + 1 \<le> MAX_EXPR_DEPTH"
        using max_of_le [of "nest x + 1" "map (\<lambda>x. nest x + 1) xs"] x(1,3) d by simp
    qed
  qed (use Cons in simp_all)
  have "opens 0 (show_expr x)" using opens_show [of x 0] w Cons by simp
  then have "opens 0 (commas (map show_expr xs))" using Cons by (cases ys) (auto simp: opens_append)
  then have "peek p \<noteq> Some TRParen" using at_peek [OF at] opens_ne [of 0 "commas (map show_expr xs)" "TRParen # rest"] by auto
  then show ?thesis using l by (simp add: call_args_def reading_eqs)
qed

lemma first_commas: "first (commas (map show_expr xs) @ TRParen # rest) \<noteq> Some (TKw ''SELECT'')" if "list_all writable xs"
proof (cases xs)
  case (Cons x ys)
  have "opens 0 (show_expr x)" using opens_show [of x 0] that Cons by simp
  then have "opens 0 (commas (map show_expr xs))" using Cons by (cases ys) (auto simp: opens_append)
  then show ?thesis using opens_ne [of 0 "commas (map show_expr xs)" "TRParen # rest"] by auto
qed simp

lemma native_in:
  assumes e: "reads_all e" and w: "list_all writable xs" and xs: "\<forall>x \<in> set xs. expr_reads x"
  shows "read_back (prec (EIn e xs n)) (EIn e xs n)"
proof (rule read_backI)
  fix k p rest
  assume a: "at p (show_expr (EIn e xs n) @ rest)" "length (show_expr (EIn e xs n)) \<le> k" "ps_depth p + nest (EIn e xs n) \<le> MAX_EXPR_DEPTH"
  let ?cs = "commas (map show_expr xs)" and ?q = "adv p (length (shown 4 e))"
  have at: "at p (shown 4 e @ neg n @ TKw ''IN'' # TLParen # ?cs @ TRParen # rest)" using a(1) by simp
  have at1: "at ?q (neg n @ TKw ''IN'' # TLParen # ?cs @ TRParen # rest)" by (rule at_adv [OF at])
  define q2 q3 where "q2 = adv ?q (length (neg n) + 1)" and "q3 = adv ?q (length (neg n) + 2)"
  have at2: "at q2 (TLParen # ?cs @ TRParen # rest)" using at_adv1 [OF at_adv [OF at1]] by (simp add: add.assoc q2_def)
  have q3: "adv q2 1 = q3" by (simp add: add.assoc q2_def q3_def)
  have at3: "at q3 (?cs @ TRParen # rest)" using at_adv1 [OF at2] q3 by simp
  have args: "call_args (grammar k) q3 = Some (Inr xs, adv q3 (length ?cs))"
    by (rule args_read [OF at3 w xs]) (use a(2,3) in \<open>simp_all add: q3_def\<close>)
  have close: "peek (adv q3 (length ?cs)) = Some TRParen" using at_peek [OF at_adv [OF at3]] by simp
  have sel: "peek q3 \<noteq> Some (TKw ''SELECT'')" using at_peek [OF at3] first_commas [OF w] by simp
  have lp: "peek q2 = Some TLParen" using at_peek [OF at2] by simp
  have "in_list (grammar k) e n q2 = Some (Inr (EIn e xs n), adv q3 (length ?cs + 1))"
    unfolding in_list_def
    by (rule then_to, rule reading_eqs(6) [OF lp], unfold q3, rule sbind_to, rule reading_eqs(4))
      (simp add: sel args close then_px_def reading_eqs)
  then have c: "cmp_rest (grammar k) e ?q = Some (Inr (EIn e xs n), adv q3 (length ?cs + 1))"
    unfolding cmp_rest_def is_miss [OF neg_not_is [OF at1, simplified]]
    by (simp add: negatable_hit [OF at1] negatable_miss [OF at1] q2_def)
  have "level 3 (grammar k) p = Some (Inr (EIn e xs n), adv q3 (length ?cs + 1))"
    by (rule native_cmp [OF e at _ _ _ c]) (use a(2,3) stops_neg [of "''IN''"] in simp_all)
  then show "level (prec (EIn e xs n)) (grammar k) p = Some (Inr (EIn e xs n), adv p (length (show_expr (EIn e xs n))))"
    by (simp add: add.assoc q3_def)
qed

section \<open>Binary operators\<close>

lemma prec_3: "op_prec op \<notin> chains \<Longrightarrow> op_prec op = 3"
  by (cases op) (simp_all add: op_prec_def chains_def)

lemma native_compare:
  assumes a: "reads_all a" and b: "reads_all b" and op: "op_prec op = 3"
  shows "read_back (prec (EBinary a op b)) (EBinary a op b)"
proof (rule read_backI)
  fix k p rest
  let ?e = "EBinary a op b" and ?q = "adv p (length (shown 4 a))"
  assume h: "at p (show_expr ?e @ rest)" "stops (prec ?e) rest" "length (show_expr ?e) \<le> k" "ps_depth p + nest ?e \<le> MAX_EXPR_DEPTH"
  have at: "at p (shown 4 a @ op_tok op # shown 4 b @ rest)" using h(1) op by (simp add: left_level_def right_level_def)
  have at1: "at ?q (op_tok op # shown 4 b @ rest)" by (rule at_adv [OF at])
  have at2: "at (adv ?q 1) (shown 4 b @ rest)" by (rule at_adv1 [OF at1])
  have pk: "peek ?q = Some (op_tok op)" using at_peek [OF at1] by simp
  have r: "add_expr (grammar k) (adv ?q 1) = Some (Inr b, adv (adv ?q 1) (length (shown 4 b)))"
    by (rule add_reads [OF b at2]) (use h op stops_mono [of 3 rest 4] in \<open>simp_all add: left_level_def right_level_def\<close>)
  have nk: "op_tok op \<noteq> TKw w" for w using op by (cases op) (simp_all add: op_prec_def op_tok_def)
  have "eat_negatable w ?q = Some (Inr None, ?q)" for w by (simp add: eat_negatable_def reading_binds reading_eqs pk nk)
  then have n: "sbind (eat_negatable w) f ?q = f None ?q" for w and f :: "bool option \<Rightarrow> expr px" by simp
  have i: "sbind (eat_kw ''IS'') f ?q = f False ?q" for f :: "bool \<Rightarrow> expr px" by (simp add: reading_binds pk nk)
  have "map_of compare_ops (op_tok op) = Some op" using op by (cases op) (simp_all add: op_prec_def op_tok_def compare_ops_def)
  then have o: "sbind (eat_op compare_ops) f ?q = f (Some op) (adv ?q 1)" for f :: "bin_op option \<Rightarrow> expr px"
    using pk by (simp add: reading_eqs)
  have "cmp_rest (grammar k) a ?q = Some (Inr ?e, adv (adv ?q 1) (length (shown 4 b)))"
    unfolding cmp_rest_def by (simp only: i n o option.case if_False, rule sbind_to, rule r) simp
  then have "level 3 (grammar k) p = Some (Inr ?e, adv (adv ?q 1) (length (shown 4 b)))"
    by (intro native_cmp [OF a at]) (use h op binds_op [of op] in \<open>simp_all add: left_level_def right_level_def stops_Cons\<close>)
  then show "level (prec ?e) (grammar k) p = Some (Inr ?e, adv p (length (show_expr ?e)))"
    using op by (simp add: left_level_def right_level_def add.assoc)
qed

lemma native_chain:
  assumes a: "reads_all a" and b: "reads_all b" and op: "op_prec op \<in> chains"
  shows "chained (prec (EBinary a op b)) (EBinary a op b)"
  unfolding chained_def
proof (intro allI impI)
  fix k p rest r
  let ?e = "EBinary a op b" and ?L = "op_prec op"
  let ?q = "adv p (length (shown ?L a))" and ?b = "shown (?L + 1) b" and ?g = "grammar k"
  assume h: "ready (prec ?e) ?e k p rest" "stops (prec ?e + 1) rest"
    "repeat_px (chain_step (table (prec ?e)) (level (prec ?e + 1) ?g)) ?e (adv p (length (shown (prec ?e) ?e))) = Some r"
  have L: "left_level op = ?L" "right_level op = ?L + 1" "?L + 1 \<le> 8" using op by (auto simp: left_level_def right_level_def chains_def)
  have at: "at p (shown ?L a @ op_tok op # ?b @ rest)" and k: "length (shown ?L a) + length ?b + 1 \<le> k"
    and d: "ps_depth p + pnest ?L a (nest a) \<le> MAX_EXPR_DEPTH" "ps_depth p + pnest (?L + 1) b (nest b) \<le> MAX_EXPR_DEPTH"
    using h(1) L by (simp_all add: ready_def paren_def [of ?L ?e] pnest_def [of ?L ?e] nat_add_max_right)
  have at1: "at ?q (op_tok op # ?b @ rest)" by (rule at_adv [OF at])
  have rb: "level (?L + 1) ?g (adv ?q 1) = Some (Inr b, adv (adv ?q 1) (length ?b))"
    by (rule read_backD [OF b at_adv1 [OF at1]]) (use h(2) k d L in simp_all)
  have r1: "repeat_px (chain_step (table ?L) (level (?L + 1) ?g)) a ?q = Some r"
    by (rule chain_more [OF at1 op, of _ b "length ?b"])
      (use rb h(3) L in \<open>simp_all add: paren_def [of ?L ?e] add.assoc\<close>)
  have c: "chained ?L a" using a op by (simp add: reads_all_def)
  have "ready ?L a k p (op_tok op # ?b @ rest)" using at k d by (simp add: ready_def)
  moreover have "stops (?L + 1) (op_tok op # ?b @ rest)" by (simp add: stops_Cons binds_op)
  ultimately have "level ?L ?g p = Some r" using c [unfolded chained_def, rule_format] r1 by blast
  then show "level (prec ?e) ?g p = Some r" by simp
qed

section \<open>Calls\<close>

lemma named_call_plain: "plain_name f \<Longrightarrow> named_call g pos f = scalar_call g pos f"
  by (auto simp: plain_name_def named_call_def Let_def aggregate_names_def)

lemma native_function:
  assumes f: "plain_name f" and w: "list_all writable xs" and xs: "\<forall>x \<in> set xs. expr_reads x"
  shows "read_back (prec (EFunction f xs)) (EFunction f xs)"
proof (rule read_backI)
  fix k p rest
  let ?cs = "commas (map show_expr xs)" and ?q = "adv p 2"
  assume a: "at p (show_expr (EFunction f xs) @ rest)" "stops (prec (EFunction f xs)) rest" "length (show_expr (EFunction f xs)) \<le> k"
    "ps_depth p + nest (EFunction f xs) \<le> MAX_EXPR_DEPTH"
  have at: "at p (TIdent f # TLParen # ?cs @ TRParen # rest)" using a(1) by simp
  have pk: "peek p = Some (TIdent f)" "peek (adv p 1) = Some TLParen" and at1: "at ?q (?cs @ TRParen # rest)"
    using at by (simp_all add: at_Cons numeral_2_eq_2)
  have args: "call_args (grammar k) ?q = Some (Inr xs, adv ?q (length ?cs))"
    by (rule args_read [OF at1 w xs]) (use a(3,4) in simp_all)
  note at2 = at_adv [OF at1]
  have close: "peek (adv ?q (length ?cs)) = Some TRParen" using at_peek [OF at2] by simp
  have over: "peek (adv ?q (length ?cs + 1)) \<noteq> Some (TKw ''OVER'')"
    using at_peek [OF at_adv1 [OF at2]] a(2) by (auto simp: stops_def add.assoc)
  have up: "to_ascii_uppercase f \<noteq> ascii_bytes ''IIF''" using f by (simp add: plain_name_def)
  have c: "scalar_call (grammar k) pos f ?q = Some (Inr (EFunction f xs), adv ?q (length ?cs + 1))" for pos
    unfolding scalar_call_def
    by (rule sbind_to, rule args, rule then_to, rule reading_eqs(6) [OF close]) (use over up in \<open>simp add: finish_call_def reading_eqs add.assoc\<close>)
  then have "primary (grammar k) p = Some (Inr (EFunction f xs), adv ?q (length ?cs + 1))"
    using pk c by (simp add: primary_first primary_tok_def ident_expr_def reading_binds named_call_plain [OF f] numeral_2_eq_2)
  then show "level (prec (EFunction f xs)) (grammar k) p = Some (Inr (EFunction f xs), adv p (length (show_expr (EFunction f xs))))"
    by (simp add: level_def)
qed

lemma coltype_reads: "peek p = Some (TKw (type_kw t)) \<Longrightarrow> coltype p = Some (Inr t, adv p 1)"
  by (cases t) (simp_all add: coltype_def reading_eqs type_kw_def)

lemma native_cast:
  assumes e: "expr_reads e"
  shows "read_back (prec (ECast e t)) (ECast e t)"
proof (rule read_backI)
  fix k p rest
  let ?q = "adv p 2" and ?n = "length (show_expr e)"
  assume a: "at p (show_expr (ECast e t) @ rest)" "length (show_expr (ECast e t)) \<le> k" "ps_depth p + nest (ECast e t) \<le> MAX_EXPR_DEPTH"
  have pk: "peek p = Some (TKw ''CAST'')" "peek (adv p 1) = Some TLParen"
    and at1: "at ?q (show_expr e @ TKw ''AS'' # TKw (type_kw t) # TRParen # rest)"
    using a(1) by (simp_all add: at_Cons numeral_2_eq_2)
  have r: "g_expr (grammar k) ?q = Some (Inr e, adv ?q ?n)"
    by (rule expr_readsD [OF e at1]) (use a(2,3) in \<open>simp_all add: stops_Cons\<close>)
  have "at (adv ?q ?n) (TKw ''AS'' # TKw (type_kw t) # TRParen # rest)" by (rule at_adv [OF at1])
  then have c: "peek (adv ?q ?n) = Some (TKw ''AS'')" "peek (adv ?q (?n + 1)) = Some (TKw (type_kw t))" "peek (adv ?q (?n + 2)) = Some TRParen"
    by (simp_all add: at_Cons numeral_2_eq_2)
  have "primary_tok (grammar k) (cur_pos p) (TKw ''CAST'') (adv p 1) = Some (Inr (ECast e t), adv ?q (?n + 3))"
    using pk c r coltype_reads [OF c(2)]
    by (simp add: primary_tok_def primary_kw_def then_px_def reading_eqs expect_kw_eq numeral_2_eq_2 eval_nat_numeral)
  then show "level (prec (ECast e t)) (grammar k) p = Some (Inr (ECast e t), adv p (length (show_expr (ECast e t))))"
    using pk by (simp add: level_def primary_first eval_nat_numeral)
qed

section \<open>CASE\<close>

definition when_toks :: "expr \<times> expr \<Rightarrow> tok list" where
  "when_toks w = (case w of (c, r) \<Rightarrow> TKw ''WHEN'' # show_expr c @ TKw ''THEN'' # show_expr r)"

lemma when_toks_pair: "when_toks (c, r) = TKw ''WHEN'' # show_expr c @ TKw ''THEN'' # show_expr r"
  by (simp add: when_toks_def)

definition when_step :: "grammar \<Rightarrow> (expr \<times> expr) list \<Rightarrow> (expr \<times> expr) list option px" where
  "when_step g ws = sbind (eat_kw ''WHEN'') (\<lambda>b.
     if b then sbind (g_expr g) (\<lambda>cond. then_px (expect_kw ''THEN'' ''THEN'') (sbind (g_expr g) (\<lambda>r. sret (Some (ws @ [(cond, r)])))))
     else sret None)"

lemma whens_read:
  assumes "at q (concat (map when_toks zs) @ ts)" "stops 0 ts" "first ts \<noteq> Some (TKw ''WHEN'')"
    and "\<forall>(c, r) \<in> set zs. expr_reads c \<and> expr_reads r" "length (concat (map when_toks zs)) < k"
    and "\<forall>(c, r) \<in> set zs. ps_depth q + nest c + 1 \<le> MAX_EXPR_DEPTH \<and> ps_depth q + nest r + 1 \<le> MAX_EXPR_DEPTH"
  shows "repeat_px (when_step (grammar k)) ws q = Some (Inr (ws @ zs), adv q (length (concat (map when_toks zs))))"
  using assms
proof (induction zs arbitrary: ws q)
  case Nil
  then have "peek q \<noteq> Some (TKw ''WHEN'')" using at_peek [of q ts] by simp
  then show ?case by (intro trans [OF repeat_stop]) (simp_all add: when_step_def reading_binds)
next
  case (Cons z zs)
  obtain c r where z: "z = (c, r)" by (cases z)
  let ?us = "concat (map when_toks zs)" and ?c = "show_expr c" and ?r = "show_expr r" and ?g = "g_expr (grammar k)"
  have at: "at q (TKw ''WHEN'' # ?c @ TKw ''THEN'' # ?r @ ?us @ ts)" using Cons.prems(1) by (simp add: z when_toks_pair)
  define q1 q2 where "q1 = adv q 1" and "q2 = adv q1 (length ?c)"
  define q3 q4 where "q3 = adv q2 1" and "q4 = adv q3 (length ?r)"
  note q = q1_def q2_def q3_def q4_def
  have at1: "at q1 (?c @ TKw ''THEN'' # ?r @ ?us @ ts)" using at_adv1 [OF at] by (simp add: q)
  have at2: "at q2 (TKw ''THEN'' # ?r @ ?us @ ts)" using at_adv [OF at1] by (simp add: q2_def)
  have at3: "at q3 (?r @ ?us @ ts)" using at_adv1 [OF at2] by (simp add: q3_def)
  have at4: "at q4 (?us @ ts)" using at_adv [OF at3] by (simp add: q4_def)
  have s: "stops 0 (?us @ ts)" using Cons.prems(2) by (cases zs) (auto simp: when_toks_def stops_Cons split: prod.splits)
  have l: "length ?c < k" "length ?r < k" using Cons.prems(5) by (simp_all add: z when_toks_pair)
  have r1: "?g q1 = Some (Inr c, q2)"
    unfolding q2_def by (rule expr_readsD [OF _ at1]) (use Cons.prems(4,6) l in \<open>simp_all add: z q1_def stops_Cons\<close>)
  have r2: "?g q3 = Some (Inr r, q4)"
    unfolding q4_def by (rule expr_readsD [OF _ at3 s]) (use Cons.prems(4,6) l in \<open>simp_all add: z q1_def q2_def q3_def\<close>)
  have "when_step (grammar k) ws q = Some (Inr (Some (ws @ [z])), q4)"
    using at_peek [OF at] at_peek [OF at2] r1 r2
    by (simp add: when_step_def reading_binds then_px_def expect_kw_eq z q1_def [unfolded One_nat_def, symmetric]
      q3_def [unfolded One_nat_def, symmetric])
  moreover have "remaining q4 < remaining q" using at_remaining [OF at] at_remaining [OF at4] by simp
  moreover have "repeat_px (when_step (grammar k)) (ws @ [z]) q4 = Some (Inr ((ws @ [z]) @ zs), adv q4 (length ?us))"
    by (rule Cons.IH [OF at4 Cons.prems(2,3)]) (use Cons.prems(4-6) in \<open>auto simp: q\<close>)
  ultimately have "repeat_px (when_step (grammar k)) ws q = Some (Inr ((ws @ [z]) @ zs), adv q4 (length ?us))" by (rule repeat_more)
  then show ?case by (simp add: q z when_toks_pair add.assoc add.left_commute)
qed

lemma native_case:
  assumes w: "writable (ECase operand whens els)"
    and e: "\<forall>e \<in> set_option operand. expr_reads e" "\<forall>(c, r) \<in> set whens. expr_reads c \<and> expr_reads r" "\<forall>e \<in> set_option els. expr_reads e"
  shows "read_back (prec (ECase operand whens els)) (ECase operand whens els)"
proof (rule read_backI)
  fix k p rest
  let ?e = "ECase operand whens els" and ?g = "g_expr (grammar k)"
  assume a: "at p (show_expr ?e @ rest)" "length (show_expr ?e) \<le> k" "ps_depth p + nest ?e \<le> MAX_EXPR_DEPTH"
  define ot where "ot = (case operand of None \<Rightarrow> [] | Some e \<Rightarrow> show_expr e)"
  define wt where "wt = concat (map when_toks whens)"
  define et where "et = (case els of None \<Rightarrow> [] | Some e \<Rightarrow> TKw ''ELSE'' # show_expr e)"
  have show_e: "show_expr ?e = TKw ''CASE'' # ot @ wt @ et @ [TKw ''END'']"
    by (simp add: ot_def wt_def et_def when_toks_def [abs_def])
  have at: "at p (TKw ''CASE'' # ot @ wt @ et @ TKw ''END'' # rest)" using a(1) unfolding show_e by simp
  have len: "length ot < k" "length wt < k" "length et \<le> k" using a(2) unfolding show_e by simp_all
  define q1 q2 q3 q4 where "q1 = adv p 1" and "q2 = adv q1 (length ot)" and "q3 = adv q2 (length wt)" and "q4 = adv q3 (length et)"
  have at1: "at q1 (ot @ wt @ et @ TKw ''END'' # rest)" using at_adv1 [OF at] by (simp add: q1_def)
  have at2: "at q2 (wt @ et @ TKw ''END'' # rest)" using at_adv [OF at1] by (simp add: q2_def)
  have at3: "at q3 (et @ TKw ''END'' # rest)" using at_adv [OF at2] by (simp add: q3_def)
  have at4: "at q4 (TKw ''END'' # rest)" using at_adv [OF at3] by (simp add: q4_def)
  have dp: "ps_depth q1 = ps_depth p" "ps_depth q2 = ps_depth p" "ps_depth q3 = ps_depth p" by (simp_all add: q1_def q2_def q3_def)
  obtain x xs where ws: "whens = x # xs" using w by (cases whens) auto
  have wf: "first (wt @ ts) = Some (TKw ''WHEN'')" for ts using ws by (cases x) (simp add: wt_def when_toks_def)
  have operand: "sbind (if peek q1 = Some (TKw ''WHEN'') then sret None else sbind ?g (\<lambda>e. sret (Some e))) f q1 = f operand q2"
    for f :: "expr option \<Rightarrow> expr px"
  proof (cases operand)
    case None
    then have "peek q1 = Some (TKw ''WHEN'')" "q2 = q1" using at_peek [OF at1] wf by (simp_all add: ot_def q2_def)
    then show ?thesis using None by simp
  next
    case (Some y)
    have o: "ot = show_expr y" using Some by (simp add: ot_def)
    have s: "stops 0 (wt @ et @ TKw ''END'' # rest)" using wf by (simp add: stops_def)
    have "?g q1 = Some (Inr y, q2)"
      unfolding q2_def o by (rule expr_readsD [OF _ at1 [unfolded o] s]) (use e(1) Some len(1) a(3) dp o in simp_all)
    moreover have "peek q1 \<noteq> Some (TKw ''WHEN'')" using peek_show [OF _ at1 [unfolded o]] w Some by auto
    ultimately show ?thesis using Some by simp
  qed
  have whens: "repeat_px (when_step (grammar k)) [] q2 = Some (Inr whens, q3)"
  proof -
    have n: "max (nest c + 1) (nest r + 1) \<le> max_of (map (\<lambda>(c, r). max (nest c + 1) (nest r + 1)) whens)" if "(c, r) \<in> set whens" for c r
      by (rule max_of_le) (use that in force)
    have d: "\<forall>(c, r) \<in> set whens. ps_depth q2 + nest c + 1 \<le> MAX_EXPR_DEPTH \<and> ps_depth q2 + nest r + 1 \<le> MAX_EXPR_DEPTH"
      using n a(3) dp(2) by (fastforce simp: nat_add_max_right)
    have "stops 0 (et @ TKw ''END'' # rest)" "first (et @ TKw ''END'' # rest) \<noteq> Some (TKw ''WHEN'')"
      by (auto simp: et_def stops_Cons split: option.split)
    from whens_read [OF at2 [unfolded wt_def] this e(2) len(2) [unfolded wt_def] d, of "[]"] show ?thesis by (simp add: q3_def wt_def)
  qed
  have els: "optional_kw ''ELSE'' ?g q3 = Some (Inr els, q4)"
  proof (cases els)
    case None
    then show ?thesis using at_peek [OF at3] by (simp add: et_def q4_def optional_kw_def reading_binds)
  next
    case (Some y)
    have o: "et = TKw ''ELSE'' # show_expr y" using Some by (simp add: et_def)
    have at: "at q3 (TKw ''ELSE'' # show_expr y @ TKw ''END'' # rest)" using at3 o by simp
    have "?g (adv q3 1) = Some (Inr y, adv (adv q3 1) (length (show_expr y)))"
      by (rule expr_readsD [OF _ at_adv1 [OF at]]) (use e(3) Some len(3) a(3) dp o in \<open>simp_all add: stops_Cons\<close>)
    then show ?thesis using at_peek [OF at] Some o by (simp add: optional_kw_def reading_binds q4_def)
  qed
  have "case_expr (grammar k) q1 = Some (Inr ?e, adv q4 1)"
    unfolding case_expr_def when_step_def [symmetric, abs_def]
    by (rule sbind_to, rule reading_eqs(4), unfold operand, rule sbind_to, rule whens)
      (use ws els at_peek [OF at4] in \<open>simp add: then_px_def expect_kw_eq\<close>)
  moreover have "peek p = Some (TKw ''CASE'')" using at_peek [OF at] by simp
  ultimately show "level (prec ?e) (grammar k) p = Some (Inr ?e, adv p (length (show_expr ?e)))"
    by (simp add: level_def primary_first primary_tok_def primary_kw_def q1_def q2_def q3_def q4_def show_e del: show_expr.simps)
      (simp add: ac_simps)
qed

section \<open>Every expression is read back\<close>

lemma reads_all: "writable e \<Longrightarrow> reads_all e"
proof (induction e rule: writable.induct)
  case (4 a op b)
  then have ab: "reads_all a" "reads_all b" by simp_all
  show ?case
  proof (cases "op_prec op \<in> chains")
    case True
    have c: "chained (prec (EBinary a op b)) (EBinary a op b)" by (rule native_chain [OF ab True])
    have "read_back (prec (EBinary a op b)) (EBinary a op b)" by (rule chained_read_back [OF _ c]) (use True in simp)
    then show ?thesis using c by (rule reads_allI [OF "4.prems"])
  next
    case False
    show ?thesis using False by (intro reads_allI [OF "4.prems" native_compare [OF ab prec_3 [OF False]]]) simp
  qed
next
  case (8 e xs n)
  then show ?case
    by (intro reads_allI [OF "8.prems" native_in]) (auto simp: chains_def list_all_iff intro: reads_allD(2))
next
  case (10 f xs)
  then show ?case
    by (intro reads_allI [OF "10.prems" native_function]) (auto simp: chains_def list_all_iff intro: reads_allD(2))
next
  case (11 operand whens els)
  have "read_back (prec (ECase operand whens els)) (ECase operand whens els)"
    by (rule native_case [OF "11.prems"])
      (use 11 in \<open>auto simp: list_all_iff pred_option_def intro!: reads_allD(2)\<close>)
  then show ?case by (rule reads_allI [OF "11.prems"]) (simp add: chains_def)
next
  case (3 op e)
  then have "reads_all e" by simp
  then show ?case by (intro reads_allI [OF "3.prems" native_unary]) (simp_all, cases op, simp_all add: chains_def)
qed (auto intro!: reads_allI native_literal native_column native_is_null native_like native_cast reads_allD(2) simp: chains_def)

text \<open>A whole text of tokens that is one expression.\<close>

lemma expr_round_trip:
  assumes "writable e" "at p (show_expr e @ rest)" "stops 0 rest" "length (show_expr e) < k" "ps_depth p + nest e < MAX_EXPR_DEPTH"
  shows "g_expr (grammar k) p = Some (Inr e, adv p (length (show_expr e)))"
  by (rule expr_readsD [OF reads_allD(2) [OF reads_all [OF assms(1)]] assms(2-4)]) (use assms(5) in simp)

end
