(* ===== verification/DatetimeLaws.thy ===== *)
theory DatetimeLaws
  imports Datetime
begin

text \<open>What \<^verbatim>\<open>strftime\<close> writes in the form of RFC 3339, \<^verbatim>\<open>parse_rfc3339_ms\<close> reads back, to the second.\<close>

section \<open>Padded decimals\<close>

lemma pad_Suc: "0 < w \<Longrightarrow> pad (Suc w) (decimal_digits m) = pad w (decimal_digits (m div 10)) @ [48 + m mod 10]"
proof (cases "m < 10")
  case True
  assume w: "0 < w"
  then have "replicate w 48 = replicate (w - 1) 48 @ [48 :: nat]" by (simp add: replicate_append_same flip: replicate_Suc)
  then show ?thesis using True w by (simp add: pad_def decimal_digits.simps [of m] decimal_digits.simps [of 0])
next
  case False
  then show ?thesis by (subst decimal_digits.simps) (simp add: pad_def)
qed

lemma parse_n_append: "parse_n_loop n (xs @ [c]) = (case parse_n_loop n xs of None \<Rightarrow> None | Some k \<Rightarrow>
    if digit c then Some (k * 10 + (int (unat c) - 48)) else None)"
  by (induction xs arbitrary: n) (auto split: option.split)

definition is_field :: "nat \<Rightarrow> ustr \<Rightarrow> int \<Rightarrow> bool" where
  "is_field w s n \<longleftrightarrow> length s = w \<and> (\<forall>c \<in> set s. 48 \<le> c \<and> c \<le> 57) \<and> parse_n (map of_nat s) = Some n"

lemma is_field_pad: "m < 10 ^ w \<Longrightarrow> 0 < w \<Longrightarrow> is_field w (pad w (decimal_digits m)) (int m)"
proof (induction w arbitrary: m)
  case (Suc w)
  have d: "digit (of_nat (48 + m mod 10))" "unat (of_nat (48 + m mod 10) :: u8) = 48 + m mod 10"
    using unat_byte [of "48 + m mod 10"] by (simp_all add: digit_def word_le_nat_alt del: of_nat_add)
  show ?case
  proof (cases w)
    case 0
    then have "m < 10" using Suc.prems by simp
    then show ?thesis using d 0 by (simp add: is_field_def pad_def decimal_digits.simps parse_n_def)
  next
    case (Suc v)
    have "m div 10 < 10 ^ w" using Suc.prems(1) by (simp add: less_mult_imp_div_less mult.commute)
    then have f: "is_field w (pad w (decimal_digits (m div 10))) (int (m div 10))" using Suc.IH Suc by simp
    have i: "int (m div 10) * 10 + (int (48 + m mod 10) - 48) = int m"
      using div_mult_mod_eq [of m 10] by (metis add_diff_cancel_left' of_nat_add of_nat_mult of_nat_numeral)
    show ?thesis
      using f d Suc i unfolding pad_Suc [OF \<open>w = Suc v\<close> [THEN arg_cong, of "\<lambda>x. 0 < x", simplified]]
      by (auto simp: is_field_def parse_n_def parse_n_append simp del: of_nat_add)
  qed
qed simp

lemma format_field: "0 \<le> n \<Longrightarrow> n < 10 ^ w \<Longrightarrow> 0 < w \<Longrightarrow> is_field w (format_int w n) n"
  using is_field_pad [of "nat n" w] by (simp add: format_int_def nat_less_iff)

section \<open>Instants\<close>

lemma utf8_bytes_ascii: "\<forall>c \<in> set s. c < 128 \<Longrightarrow> utf8_bytes s = map of_nat s"
  by (induction s) (auto simp: utf8_bytes_def utf8_char_def)

lemma list_of_length: "length s = 2 \<Longrightarrow> \<exists>a b. s = [a, b]" "length s = 4 \<Longrightarrow> \<exists>a b c d. s = [a, b, c, d]"
  by (auto simp: length_Suc_conv eval_nat_numeral)

lemma ms_to_parts_bounds:
  assumes "ms_to_parts ms = (y, mo, d, h, mi, s)"
  shows "1 \<le> mo" "mo \<le> 12" "1 \<le> d" "d \<le> 31" "0 \<le> h" "h < 24" "0 \<le> mi" "mi < 60" "0 \<le> s" "s < 60"
    "days_from_civil y mo d * 86400 + h * 3600 + mi * 60 + s = ms div 1000"
proof -
  define secs where "secs = ms div 1000"
  define tod where "tod = secs mod 86400"
  have tod: "0 \<le> tod" "tod < 86400" "secs = secs div 86400 * 86400 + tod" by (simp_all add: tod_def)
  have c: "civil_from_days (secs div 86400) = (y, mo, d)" and t: "h = tdiv tod 3600" "mi = tdiv (tod mod 3600) 60" "s = tod mod 60"
    using assms by (auto simp: ms_to_parts_def Let_def secs_def tod_def split: prod.splits)
  have v: "days_from_civil y mo d = secs div 86400" "valid_date y mo d" using days_of_civil [of "secs div 86400"] c by simp_all
  show "1 \<le> mo" "mo \<le> 12" "1 \<le> d" "d \<le> 31" using v(2) by (auto simp: valid_date_def month_days_def split: if_splits)
  have h: "h = tod div 3600" "mi = tod mod 3600 div 60" using t tod(1) by (simp_all add: tdiv_nonneg)
  then show "0 \<le> h" "h < 24" "0 \<le> mi" "mi < 60" "0 \<le> s" "s < 60" using tod t(3) by simp_all
  have "tod mod 60 = tod mod 3600 mod 60" by (simp add: mod_mod_cancel)
  then have "tod = h * 3600 + mi * 60 + s" using h t(3) by simp
  then show "days_from_civil y mo d * 86400 + h * 3600 + mi * 60 + s = ms div 1000" using v(1) tod(3) by (simp add: secs_def)
qed

definition rfc3339_format :: ustr where "rfc3339_format = map uc ''%Y-%m-%dT%H:%M:%SZ''"

lemma rfc3339_shape: "strftime rfc3339_format ms = (case ms_to_parts ms of (y, mo, d, h, mi, s) \<Rightarrow>
    format_int 4 y @ 45 # format_int 2 mo @ 45 # format_int 2 d @ 84 # format_int 2 h @ 58 # format_int 2 mi @ 58 # format_int 2 s @ [90])"
  by (simp add: strftime_def rfc3339_format_def uc_def of_char_def split: prod.split)

lemma instant_round_trip:
  assumes "0 \<le> ms" and p: "ms_to_parts ms = (y, mo, d, h, mi, s)" and y: "0 \<le> y" "y \<le> 9999"
  shows "parse_rfc3339_ms (utf8_bytes (strftime rfc3339_format ms)) = Some (of_int (ms div 1000 * 1000))"
proof -
  note b = ms_to_parts_bounds [OF p]
  have f: "is_field 4 (format_int 4 y) y" "is_field 2 (format_int 2 mo) mo" "is_field 2 (format_int 2 d) d"
    "is_field 2 (format_int 2 h) h" "is_field 2 (format_int 2 mi) mi" "is_field 2 (format_int 2 s) s"
    using y b by (auto intro!: format_field)
  obtain y1 y2 y3 y4 where Y: "format_int 4 y = [y1, y2, y3, y4]" using f(1) list_of_length(2) unfolding is_field_def by blast
  obtain m1 m2 where M: "format_int 2 mo = [m1, m2]" using f(2) list_of_length(1) unfolding is_field_def by blast
  obtain d1 d2 where D: "format_int 2 d = [d1, d2]" using f(3) list_of_length(1) unfolding is_field_def by blast
  obtain h1 h2 where H: "format_int 2 h = [h1, h2]" using f(4) list_of_length(1) unfolding is_field_def by blast
  obtain i1 i2 where I: "format_int 2 mi = [i1, i2]" using f(5) list_of_length(1) unfolding is_field_def by blast
  obtain s1 s2 where S: "format_int 2 s = [s1, s2]" using f(6) list_of_length(1) unfolding is_field_def by blast
  let ?t = "[y1, y2, y3, y4, 45, m1, m2, 45, d1, d2, 84, h1, h2, 58, i1, i2, 58, s1, s2, 90] :: ustr"
  have t: "strftime rfc3339_format ms = ?t" by (simp add: rfc3339_shape p Y M D H I S)
  have le: "c \<le> 57 \<Longrightarrow> c < 128" for c :: nat by simp
  have "\<forall>c \<in> set ?t. c < 128" using f by (auto simp: is_field_def Y M D H I S intro: le)
  then have u: "utf8_bytes ?t = map of_nat ?t" by (rule utf8_bytes_ascii)
  define B :: bytes where "B = map of_nat ?t"
  have fields: "field B 0 4 = Some y" "field B 5 7 = Some mo" "field B 8 10 = Some d" "field B 11 13 = Some h" "field B 14 16 = Some mi"
    "field B 17 19 = Some s"
    using f by (simp_all add: is_field_def field_def B_def Y M D H I S)
  have B: "length B = 20" "B ! 4 = 45" "B ! 7 = 45" "B ! 13 = 58" "B ! 16 = 58" "B ! 10 = 84" "get_at B 19 = Some 90"
    by (simp_all add: B_def get_at_def)
  have fz: "parse_fraction B = Some (19, 0)" "parse_zone B 19 = Some (20, 0)" using B by (simp_all add: parse_fraction_def parse_zone_def)
  have r: "max (ms div 1000 * 1000) 0 = ms div 1000 * 1000" using assms(1) by simp
  have "parse_rfc3339_ms B = Some (of_int (max ((days_from_civil y mo d * 86400 + h * 3600 + mi * 60 + s) * 1000) 0))"
    using b(1-10) unfolding parse_rfc3339_ms_def fields fz(1) B Let_def by (simp add: fz(2))
  then show ?thesis unfolding t u B_def [symmetric] b(11) r .
qed

text \<open>The parser checks the day against 31 only: the thirtieth of February is the second of March.\<close>

lemma february_30:
  "parse_rfc3339_ms (utf8_bytes (map uc ''2025-02-30T00:00:00Z'')) = parse_rfc3339_ms (utf8_bytes (map uc ''2025-03-02T00:00:00Z''))"
  "parse_rfc3339_ms (utf8_bytes (map uc ''2025-03-02T00:00:00Z'')) = Some 1740873600000"
  by (simp_all add: uc_def of_char_def utf8_bytes_def utf8_char_def parse_rfc3339_ms_def field_def parse_n_def digit_def
      parse_fraction_def parse_zone_def get_at_def days_from_civil_def tdiv_def Let_def)

end
