(* ===== verification/SqlProps.thy ===== *)
theory SqlProps
  imports SchemaLaws ParserTotal ParserPrint DatetimeLaws
begin

text \<open>The properties of the SQL text layer and of the stored definitions, each with an instance at a concrete input.\<close>

section \<open>Stored definitions\<close>

definition sample_table :: table_def where
  "sample_table = \<lparr>td_name = [116], td_table_id = 7, td_rowid_alias = Some 0,
     td_columns = [\<lparr>cd_name = [97], cd_col_type = ColInteger, cd_not_null = True, cd_default = None, cd_dropped = False\<rparr>,
       \<lparr>cd_name = [98], cd_col_type = ColText, cd_not_null = False, cd_default = Some Null, cd_dropped = False\<rparr>],
     td_indexes = [\<lparr>ix_name = [105], ix_id = 3, ix_columns = [1, 0], ix_unique = True\<rparr>],
     td_fts_indexes = [], td_vector_indexes = [], td_logical_order = [1, 0],
     td_foreign_keys = [\<lparr>fk_columns = [1], fk_parent = [112], fk_parent_columns = [0], fk_on_delete = Cascade, fk_on_update = Restrict\<rparr>],
     td_checks = [[97, 62, 48]]\<rparr>"

text \<open>C22: A table definition written to the catalog is read back: columns with their defaults, indexes of the three
  kinds, foreign keys, checks, the logical order and the row-identifier alias.\<close>

lemma schema_round_trip:
  assumes "table_ok d" "length (encode_def d) < 2 ^ 64"
  shows "decode_def (td_name d) (encode_def d) = Inr d"
  using assms by (rule decode_def_encode)

lemma length_put_usize: "length (put_usize n) \<le> 10"
  unfolding put_usize_def length_put_varint by (rule varint_len_bounds)

lemma length_encode_null: "length (encode_values [Null]) \<le> 20"
  using varint_len_bounds(2) [of 1] by (simp add: encode_values_eq length_put_varint value_payload_def)

lemma sample_table_ok: "table_ok sample_table" "length (encode_def sample_table) < 2 ^ 64"
proof -
  have v: "valid_utf8 [97]" "valid_utf8 [98]" "valid_utf8 [105]" "valid_utf8 [112]" "valid_utf8 [97, 62, 48]"
    by (rule valid_utf8_ascii; simp)+
  show "table_ok sample_table"
    using length_encode_null v
    by (simp add: table_ok_def sample_table_def column_ok_def index_ok_def fk_ok_def str_ok_def cols_ok_def value_ok_def is_permutation_def MAX_COLUMNS_def)

  have "length (encode_def sample_table) \<le> 400"
    using length_put_usize [of 0] length_put_usize [of 1] length_put_usize [of "Suc (Suc 0)"] length_put_usize [of "Suc (Suc (Suc 0))"]
      length_put_usize [of "length (encode_values [Null])"] length_encode_null
    by (simp add: sample_table_def encode_def_def put_list_def put_column_def put_index_def put_order_def put_fk_def put_str_def flag_def
        codec_simps)
  then show "length (encode_def sample_table) < 2 ^ 64" by simp
qed

lemma schema_round_trip_witness: "decode_def [116] (encode_def sample_table) = Inr sample_table"
  using schema_round_trip [OF sample_table_ok] by (simp add: sample_table_def)

section \<open>The lexer\<close>

text \<open>C25: A text between quotes, its own quotes doubled, is one string token whose value is the text, whatever the
  text contains: quoting neutralises it.\<close>

lemma quoted_text_is_one_token:
  assumes "list_all is_scalar cs"
  shows "lex pf (utf8_bytes ([39] @ doubled 39 cs @ [39])) = Inr [\<lparr>sp_tok = TStr (utf8_bytes cs), sp_pos = 0\<rparr>]"
proof -
  let ?d = "utf8_bytes (doubled 39 cs)"
  define sql where "sql = 39 # ?d @ [39 :: u8]"
  have e: "utf8_bytes ([39] @ doubled 39 cs @ [39]) = sql"
    by (simp add: sql_def utf8_bytes_append utf8_char_def)
  have q: "lex_string sql 0 = Inr (utf8_bytes cs, length sql)"
    using lex_quoted_doubled [OF assms, of 39 "[]" "sql_err 0 ''cadena sin cerrar''" "[39]" "[]"]
    by (simp add: lex_string_def sql_def get_at_def)
  have n: "sql ! 0 = 39" "0 < length sql" by (simp_all add: sql_def)
  have s: "lex_step pf sql 0 = Inr (Some (TStr (utf8_bytes cs)), length sql)"
    unfolding lex_step_def Let_def n by (simp add: q punct_def)
  show ?thesis
    unfolding e lex_def using n s by (subst lex_from.simps, subst lex_from.simps) simp
qed

lemma quoted_text_is_one_token_witness:
  "lex (\<lambda>_. None) (utf8_bytes [39, 120, 39, 39, 59, 32, 68, 82, 79, 80, 39]) = Inr [\<lparr>sp_tok = TStr (utf8_bytes [120, 39, 59, 32, 68, 82, 79, 80]), sp_pos = 0\<rparr>]"
  using quoted_text_is_one_token [of "[120, 39, 59, 32, 68, 82, 79, 80]"] by (simp add: doubled_def is_scalar_def)

section \<open>The parser\<close>

text \<open>C24: Parsing a text returns, with a statement or with an error; an error is an error of SQL that points at the
  beginning of a character of the text, or at its end, so no slice of the text panics and no input makes the parser
  loop.\<close>

lemma parsing_returns:
  assumes "list_all is_scalar cs"
  shows "\<exists>r. parse_full pf (utf8_bytes cs) = Some r \<and> (\<forall>e. r = Inl e \<longrightarrow>
    (\<exists>msg pos. e = Sql msg (Some pos) \<and> boundary cs pos \<and> pos \<le> length (utf8_bytes cs)))"
  using parse_returns [OF assms, of pf] boundary_le unfolding placed_def by blast

lemma parsing_returns_witness:
  "\<exists>r. parse_full (\<lambda>_. None) (utf8_bytes [83, 233, 39]) = Some r"
  using parsing_returns [of "[83, 233, 39]" "\<lambda>_. None"] by (auto simp: is_scalar_def)

text \<open>C23: An expression written as tokens with the parentheses that precedence and associativity require, and no
  others, is parsed back to itself, up to the nesting that the parser admits.\<close>

lemma expression_round_trip:
  assumes "writable e" "at p (show_expr e @ rest)" "stops 0 rest" "length (show_expr e) < k" "ps_depth p + nest e < MAX_EXPR_DEPTH"
  shows "g_expr (grammar k) p = Some (Inr e, adv p (length (show_expr e)))"
  using assms by (rule expr_round_trip)

definition sample_expr :: expr where
  "sample_expr = EBinary (EBinary (EColumn None [97]) OpAdd (ELiteral (Integer 2))) OpMul (EUnary OpNeg (EBinary (EColumn None [98]) OpSub
     (EBinary (ELiteral (Integer 1)) OpSub (EColumn (Some [116]) [99]))))"

definition sample_parser :: parser where
  "sample_parser = new_parser [] (map (\<lambda>t. \<lparr>sp_tok = t, sp_pos = 0\<rparr>) [TLParen, TIdent [97], TPlus, TInt 2, TRParen, TStar, TMinus, TLParen,
     TIdent [98], TMinus, TLParen, TInt 1, TMinus, TIdent [116], TDot, TIdent [99], TRParen, TRParen, TSemi])"

lemma expression_round_trip_witness: "g_expr (grammar 19) sample_parser = Some (Inr sample_expr, adv sample_parser 18)"
proof -
  have s: "show_expr sample_expr = [TLParen, TIdent [97], TPlus, TInt 2, TRParen, TStar, TMinus, TLParen,
     TIdent [98], TMinus, TLParen, TInt 1, TMinus, TIdent [116], TDot, TIdent [99], TRParen, TRParen]"
    by (simp add: sample_expr_def paren_def left_level_def right_level_def op_prec_def op_tok_def)
  have w: "writable sample_expr" "nest sample_expr = 2"
    by (simp_all add: sample_expr_def pnest_def left_level_def right_level_def op_prec_def)
  have a: "at sample_parser (show_expr sample_expr @ [TSemi])" by (simp add: s at_def sample_parser_def new_parser_def)
  have d: "ps_depth sample_parser = 0" by (simp add: sample_parser_def new_parser_def)
  have l: "length (show_expr sample_expr) = 18" by (simp add: s)
  show ?thesis
    using expression_round_trip [OF w(1) a, of 19] unfolding l by (simp add: w(2) d stops_Cons MAX_EXPR_DEPTH_def)
qed

text \<open>\<^verbatim>\<open>CREATE TABLE .. AS WITH ..\<close> and \<^verbatim>\<open>INSERT .. WITH ..\<close> are always refused: the code consumes \<^verbatim>\<open>WITH\<close> and then
  expects it again.\<close>

lemma query_with_refused:
  assumes "at p (TKw ''WITH'' # ts)" "first ts \<noteq> Some (TKw ''WITH'')"
  shows "query_after_kw g p = Some (Inl (sql_err (cur_pos (adv p 1)) ''se esperaba WITH''), adv p 1)"
  using at_peek [OF assms(1)] at_peek [OF at_adv1 [OF assms(1)]] assms(2)
  by (simp add: query_after_kw_def reading_binds with_ctes_def then_px_def expect_kw_def expect_def fail_here_def)

section \<open>Dates\<close>

text \<open>C26: Days and dates of the proleptic Gregorian calendar correspond one to one: every day is a valid date whose
  day number it is, and every valid date has its day.\<close>

lemma calendar_bijection:
  "(case civil_from_days z of (y, m, d) \<Rightarrow> days_from_civil y m d = z \<and> valid_date y m d) \<and>
   (\<forall>y m d. valid_date y m d \<longrightarrow> civil_from_days (days_from_civil y m d) = (y, m, d))"
  using days_of_civil [of z] civil_of_days by (intro conjI allI impI) simp_all

lemma calendar_bijection_witness: "civil_from_days (days_from_civil 2024 2 29) = (2024, 2, 29)"
  using calendar_bijection [of 0] by (simp add: valid_date_def month_days_def leap_def)

text \<open>C27: What \<^verbatim>\<open>strftime\<close> writes in the form of RFC 3339 is read back to the same instant, in whole seconds.\<close>

lemma instants_read_back:
  assumes "0 \<le> ms" "ms_to_parts ms = (y, mo, d, h, mi, s)" "0 \<le> y" "y \<le> 9999"
  shows "parse_rfc3339_ms (utf8_bytes (strftime rfc3339_format ms)) = Some (of_int (ms div 1000 * 1000))"
  using assms by (rule instant_round_trip)

lemma sample_instant: "ms_to_parts 1709210096789 = (2024, 2, 29, 12, 34, 56)"
  by code_simp

lemma instants_read_back_witness:
  "parse_rfc3339_ms (utf8_bytes (strftime rfc3339_format 1709210096789)) = Some (of_int 1709210096000)"
  using instants_read_back [OF _ sample_instant] by simp

end
