(* ===== verification/Floats.thy ===== *)
theory Floats
  imports Keyenc "HOL-Library.Log_Nat"
begin

text \<open>
  The binary floating-point numbers of the language, which the code computes with: \<^verbatim>\<open>f64\<close> and \<^verbatim>\<open>f32\<close> of IEEE 754,
  rounded to the nearest, ties to even.  A finite number is an integer multiple of the smallest subnormal of its
  format (\<open>Fin\<close> holds its sign and the multiple), an operation is the exact result, rounded once by \<open>fp_round\<close>; a NaN is
  the default one.  The words are the bit patterns that values and records hold.
\<close>

section \<open>Formats and rounding\<close>

record float_format =
  ff_man :: nat   \<comment> \<open>bits of the mantissa\<close>
  ff_top :: nat   \<comment> \<open>the exponent of infinities and NaNs\<close>
  ff_unit :: nat  \<comment> \<open>the smallest subnormal is two to the minus this\<close>
  ff_sign :: nat  \<comment> \<open>the position of the sign bit\<close>

definition F64 :: float_format where "F64 = \<lparr>ff_man = 52, ff_top = 2047, ff_unit = 1074, ff_sign = 63\<rparr>"
definition F32 :: float_format where "F32 = \<lparr>ff_man = 23, ff_top = 255, ff_unit = 149, ff_sign = 31\<rparr>"

datatype fp = Nan | Inf bool | Fin bool nat

definition fp_read :: "float_format \<Rightarrow> nat \<Rightarrow> fp" where
  "fp_read f b =
     (let neg = (2 ^ ff_sign f \<le> b); m = b mod 2 ^ ff_sign f; e = m div 2 ^ ff_man f; x = m mod 2 ^ ff_man f in
      if e = ff_top f then (if x = 0 then Inf neg else Nan)
      else if e = 0 then Fin neg x else Fin neg ((2 ^ ff_man f + x) * 2 ^ (e - 1)))"

definition half_even :: "nat \<Rightarrow> nat \<Rightarrow> nat" where
  "half_even n d = (let q = n div d; r = n mod d in if 2 * r < d \<or> 2 * r = d \<and> even q then q else q + 1)"

text \<open>The magnitude bits of the number nearest to \<open>n / d\<close> units.\<close>

definition fp_nearest :: "float_format \<Rightarrow> nat \<Rightarrow> nat \<Rightarrow> nat" where
  "fp_nearest f n d =
     (let k = floorlog 2 (n div d) - (ff_man f + 1) in
      min (ff_top f * 2 ^ ff_man f) (half_even n (d * 2 ^ k) + k * 2 ^ ff_man f))"

definition sign_bit :: "float_format \<Rightarrow> bool \<Rightarrow> nat" where "sign_bit f neg = (if neg then 2 ^ ff_sign f else 0)"

definition fp_round :: "float_format \<Rightarrow> bool \<Rightarrow> nat \<Rightarrow> nat \<Rightarrow> nat" where
  "fp_round f neg n d = sign_bit f neg + fp_nearest f n d"

definition fp_nan :: "float_format \<Rightarrow> nat" where "fp_nan f = ff_top f * 2 ^ ff_man f + 2 ^ (ff_man f - 1)"
definition fp_inf :: "float_format \<Rightarrow> bool \<Rightarrow> nat" where "fp_inf f neg = sign_bit f neg + ff_top f * 2 ^ ff_man f"

section \<open>Arithmetic\<close>

definition fp_signed :: "bool \<Rightarrow> nat \<Rightarrow> int" where "fp_signed neg m = (if neg then - int m else int m)"

fun fp_add :: "float_format \<Rightarrow> fp \<Rightarrow> fp \<Rightarrow> nat" where
  "fp_add f (Fin a m) (Fin b n) =
     (let s = fp_signed a m + fp_signed b n in
      if s = 0 then sign_bit f (a \<and> b) else fp_round f (s < 0) (nat \<bar>s\<bar>) 1)"
| "fp_add f (Inf a) (Inf b) = (if a = b then fp_inf f a else fp_nan f)"
| "fp_add f (Inf a) (Fin _ _) = fp_inf f a"
| "fp_add f (Fin _ _) (Inf b) = fp_inf f b"
| "fp_add f _ _ = fp_nan f"

fun fp_negate :: "fp \<Rightarrow> fp" where
  "fp_negate (Fin a m) = Fin (\<not> a) m" | "fp_negate (Inf a) = Inf (\<not> a)" | "fp_negate Nan = Nan"

fun fp_mul :: "float_format \<Rightarrow> fp \<Rightarrow> fp \<Rightarrow> nat" where
  "fp_mul f (Fin a m) (Fin b n) = fp_round f (a \<noteq> b) (m * n) (2 ^ ff_unit f)"
| "fp_mul f (Inf a) (Inf b) = fp_inf f (a \<noteq> b)"
| "fp_mul f (Inf a) (Fin b n) = (if n = 0 then fp_nan f else fp_inf f (a \<noteq> b))"
| "fp_mul f (Fin a m) (Inf b) = (if m = 0 then fp_nan f else fp_inf f (a \<noteq> b))"
| "fp_mul f _ _ = fp_nan f"

fun fp_div :: "float_format \<Rightarrow> fp \<Rightarrow> fp \<Rightarrow> nat" where
  "fp_div f (Fin a m) (Fin b n) =
     (if n = 0 then (if m = 0 then fp_nan f else fp_inf f (a \<noteq> b)) else fp_round f (a \<noteq> b) (m * 2 ^ ff_unit f) n)"
| "fp_div f (Inf a) (Fin b n) = fp_inf f (a \<noteq> b)"
| "fp_div f (Fin a m) (Inf b) = sign_bit f (a \<noteq> b)"
| "fp_div f _ _ = fp_nan f"

text \<open>The remainder of the truncated quotient, which is exact.\<close>

fun fp_rem :: "float_format \<Rightarrow> fp \<Rightarrow> fp \<Rightarrow> nat" where
  "fp_rem f (Fin a m) (Fin b n) = (if n = 0 then fp_nan f else fp_round f a (m mod n) 1)"
| "fp_rem f (Fin a m) (Inf b) = fp_round f a m 1"
| "fp_rem f _ _ = fp_nan f"

function isqrt :: "nat \<Rightarrow> nat" where
  "isqrt n = (if n = 0 then 0 else let s = 2 * isqrt (n div 4) in if (s + 1) * (s + 1) \<le> n then s + 1 else s)"
  by pat_completeness auto
termination by (relation "measure id") auto

declare isqrt.simps [simp del]

fun fp_sqrt :: "float_format \<Rightarrow> fp \<Rightarrow> nat" where
  "fp_sqrt f (Fin a m) =
     (if m = 0 then sign_bit f a else if a then fp_nan f
      else let n = m * 2 ^ ff_unit f * 16; s = isqrt n in
        if s * s = n then fp_round f False s 4 else fp_round f False (2 * s + 1) 8)"
| "fp_sqrt f (Inf a) = (if a then fp_nan f else fp_inf f False)"
| "fp_sqrt f Nan = fp_nan f"

text \<open>Comparison: \<open>None\<close> with a NaN.\<close>

datatype ordering = OLess | OEqual | OGreater

definition compare_lin :: "'a :: linorder \<Rightarrow> 'a \<Rightarrow> ordering" where
  "compare_lin x y = (if x < y then OLess else if x = y then OEqual else OGreater)"

fun fp_compare :: "fp \<Rightarrow> fp \<Rightarrow> ordering option" where
  "fp_compare (Fin a m) (Fin b n) = Some (compare_lin (fp_signed a m) (fp_signed b n))"
| "fp_compare (Inf a) (Inf b) = Some (if a = b then OEqual else if a then OLess else OGreater)"
| "fp_compare (Inf a) (Fin _ _) = Some (if a then OLess else OGreater)"
| "fp_compare (Fin _ _) (Inf b) = Some (if b then OGreater else OLess)"
| "fp_compare _ _ = None"

section \<open>Conversions\<close>

definition fp_of_int :: "float_format \<Rightarrow> int \<Rightarrow> nat" where
  "fp_of_int f n = fp_round f (n < 0) (nat \<bar>n\<bar> * 2 ^ ff_unit f) 1"

fun fp_convert :: "float_format \<Rightarrow> float_format \<Rightarrow> fp \<Rightarrow> nat" where
  "fp_convert f g (Fin a m) = fp_round g a (m * 2 ^ ff_unit g) (2 ^ ff_unit f)"
| "fp_convert f g (Inf a) = fp_inf g a"
| "fp_convert f g Nan = fp_nan g"

text \<open>The integral roundings, given what becomes of sign, integral part and remainder; zeros and results keep the sign.\<close>

fun fp_integral :: "float_format \<Rightarrow> (bool \<Rightarrow> nat \<Rightarrow> nat \<Rightarrow> nat) \<Rightarrow> fp \<Rightarrow> nat" where
  "fp_integral f r (Fin a m) =
     (let u = 2 ^ ff_unit f in fp_round f a (r a (m div u) (m mod u) * u) 1)"
| "fp_integral f r (Inf a) = fp_inf f a"
| "fp_integral f r Nan = fp_nan f"

text \<open>\<^verbatim>\<open>as i64\<close> and \<^verbatim>\<open>as i8\<close>: truncation that saturates, zero for a NaN.\<close>

definition clamp_int :: "nat \<Rightarrow> int \<Rightarrow> int" where "clamp_int w n = max (- (2 ^ (w - 1))) (min (2 ^ (w - 1) - 1) n)"

fun fp_to_int :: "float_format \<Rightarrow> nat \<Rightarrow> fp \<Rightarrow> int" where
  "fp_to_int f w (Fin a m) = clamp_int w (fp_signed a (m div 2 ^ ff_unit f))"
| "fp_to_int f w (Inf a) = clamp_int w (if a then - (2 ^ w) else 2 ^ w)"
| "fp_to_int f w Nan = 0"

section \<open>The operations on words\<close>

definition d64 :: "u64 \<Rightarrow> fp" where "d64 b = fp_read F64 (unat b)"
definition d32 :: "u32 \<Rightarrow> fp" where "d32 b = fp_read F32 (unat b)"

definition f64_add :: "u64 \<Rightarrow> u64 \<Rightarrow> u64" where "f64_add a b = of_nat (fp_add F64 (d64 a) (d64 b))"
definition f64_sub :: "u64 \<Rightarrow> u64 \<Rightarrow> u64" where "f64_sub a b = of_nat (fp_add F64 (d64 a) (fp_negate (d64 b)))"
definition f64_mul :: "u64 \<Rightarrow> u64 \<Rightarrow> u64" where "f64_mul a b = of_nat (fp_mul F64 (d64 a) (d64 b))"
definition f64_div :: "u64 \<Rightarrow> u64 \<Rightarrow> u64" where "f64_div a b = of_nat (fp_div F64 (d64 a) (d64 b))"
definition f64_rem :: "u64 \<Rightarrow> u64 \<Rightarrow> u64" where "f64_rem a b = of_nat (fp_rem F64 (d64 a) (d64 b))"
definition f64_sqrt :: "u64 \<Rightarrow> u64" where "f64_sqrt a = of_nat (fp_sqrt F64 (d64 a))"
definition f64_neg :: "u64 \<Rightarrow> u64" where "f64_neg a = a XOR 0x8000000000000000"
definition f64_abs_val :: "u64 \<Rightarrow> u64" where "f64_abs_val a = a AND 0x7FFFFFFFFFFFFFFF"
definition f64_cmp :: "u64 \<Rightarrow> u64 \<Rightarrow> ordering option" where "f64_cmp a b = fp_compare (d64 a) (d64 b)"
definition f64_is_nan :: "u64 \<Rightarrow> bool" where "f64_is_nan a \<longleftrightarrow> d64 a = Nan"
definition f64_finite :: "u64 \<Rightarrow> bool" where "f64_finite a \<longleftrightarrow> (case d64 a of Fin _ _ \<Rightarrow> True | _ \<Rightarrow> False)"
definition f64_of_i64 :: "u64 \<Rightarrow> u64" where "f64_of_i64 n = of_nat (fp_of_int F64 (sint n))"
definition f64_of_u64 :: "u64 \<Rightarrow> u64" where "f64_of_u64 n = of_nat (fp_of_int F64 (uint n))"
definition f64_to_i64 :: "u64 \<Rightarrow> u64" where "f64_to_i64 a = of_int (fp_to_int F64 64 (d64 a))"
definition f64_trunc :: "u64 \<Rightarrow> u64" where "f64_trunc a = of_nat (fp_integral F64 (\<lambda>_ q _. q) (d64 a))"
definition f64_floor :: "u64 \<Rightarrow> u64" where "f64_floor a = of_nat (fp_integral F64 (\<lambda>s q r. if s \<and> r \<noteq> 0 then q + 1 else q) (d64 a))"
definition f64_ceil :: "u64 \<Rightarrow> u64" where "f64_ceil a = of_nat (fp_integral F64 (\<lambda>s q r. if \<not> s \<and> r \<noteq> 0 then q + 1 else q) (d64 a))"
definition f64_half_away :: "u64 \<Rightarrow> u64" where
  "f64_half_away a = of_nat (fp_integral F64 (\<lambda>_ q r. if 2 ^ 1074 \<le> 2 * r then q + 1 else q) (d64 a))"

definition f32_add :: "u32 \<Rightarrow> u32 \<Rightarrow> u32" where "f32_add a b = of_nat (fp_add F32 (d32 a) (d32 b))"
definition f32_sub :: "u32 \<Rightarrow> u32 \<Rightarrow> u32" where "f32_sub a b = of_nat (fp_add F32 (d32 a) (fp_negate (d32 b)))"
definition f32_mul :: "u32 \<Rightarrow> u32 \<Rightarrow> u32" where "f32_mul a b = of_nat (fp_mul F32 (d32 a) (d32 b))"
definition f32_div :: "u32 \<Rightarrow> u32 \<Rightarrow> u32" where "f32_div a b = of_nat (fp_div F32 (d32 a) (d32 b))"
definition f32_abs_val :: "u32 \<Rightarrow> u32" where "f32_abs_val a = a AND 0x7FFFFFFF"
definition f32_cmp :: "u32 \<Rightarrow> u32 \<Rightarrow> ordering option" where "f32_cmp a b = fp_compare (d32 a) (d32 b)"
definition f32_of_int :: "int \<Rightarrow> u32" where "f32_of_int n = of_nat (fp_of_int F32 n)"
definition f32_half_away :: "u32 \<Rightarrow> u32" where
  "f32_half_away a = of_nat (fp_integral F32 (\<lambda>_ q r. if 2 ^ 149 \<le> 2 * r then q + 1 else q) (d32 a))"
definition f32_to_i8 :: "u32 \<Rightarrow> u8" where "f32_to_i8 a = of_int (fp_to_int F32 8 (d32 a))"
definition f32_of_f64 :: "u64 \<Rightarrow> u32" where "f32_of_f64 a = of_nat (fp_convert F64 F32 (d64 a))"
definition f64_of_f32 :: "u32 \<Rightarrow> u64" where "f64_of_f32 a = of_nat (fp_convert F32 F64 (d32 a))"

section \<open>Texts\<close>

text \<open>\<^verbatim>\<open>f64::from_str\<close>: an optional sign, then a name of infinity or NaN, or digits with an optional point and exponent.\<close>

definition ascii_digit :: "u8 \<Rightarrow> bool" where "ascii_digit b \<longleftrightarrow> 48 \<le> b \<and> b \<le> 57"
definition dec_value :: "bytes \<Rightarrow> nat" where "dec_value ds = foldl (\<lambda>n d. 10 * n + (unat d - 48)) 0 ds"

definition ascii_lower :: "u8 \<Rightarrow> u8" where "ascii_lower b = (if 65 \<le> b \<and> b \<le> 90 then b + 32 else b)"
definition ascii_text :: "string \<Rightarrow> bytes" where "ascii_text s = map of_char s"

definition take_sign :: "bytes \<Rightarrow> bool \<times> bytes" where
  "take_sign bs = (case bs of b # r \<Rightarrow> if b = 45 then (True, r) else if b = 43 then (False, r) else (False, bs) | [] \<Rightarrow> (False, []))"

definition dec_ratio :: "nat \<Rightarrow> int \<Rightarrow> nat \<times> nat" where
  "dec_ratio m e = (if 0 \<le> e then (m * 10 ^ nat e * 2 ^ 1074, 1) else (m * 2 ^ 1074, 10 ^ nat (- e)))"

definition f64_of_decimal :: "bool \<Rightarrow> nat \<Rightarrow> int \<Rightarrow> u64" where
  "f64_of_decimal neg m e = (case dec_ratio m e of (n, d) \<Rightarrow> of_nat (fp_round F64 neg n d))"

definition f64_parse :: "bytes \<Rightarrow> u64 option" where
  "f64_parse bs =
     (case take_sign bs of (neg, r) \<Rightarrow>
       if map ascii_lower r \<in> {ascii_text ''inf'', ascii_text ''infinity''} then Some (of_nat (fp_inf F64 neg))
       else if map ascii_lower r = ascii_text ''nan'' then Some (of_nat (sign_bit F64 neg + fp_nan F64))
       else
         let ip = takeWhile ascii_digit r; r1 = dropWhile ascii_digit r;
             (fp, r2) = (case r1 of b # q \<Rightarrow> if b = 46 then (takeWhile ascii_digit q, dropWhile ascii_digit q) else ([], r1) | [] \<Rightarrow> ([], []))
         in if ip @ fp = [] then None
            else let m = dec_value (ip @ fp); shift = int (length fp) in
              (case r2 of
                 [] \<Rightarrow> Some (f64_of_decimal neg m (- shift))
               | b # q \<Rightarrow> if b = 101 \<or> b = 69 then
                   (case take_sign q of (eneg, ds) \<Rightarrow>
                     if ds = [] \<or> \<not> list_all ascii_digit ds then None
                     else Some (f64_of_decimal neg m ((if eneg then - int (dec_value ds) else int (dec_value ds)) - shift)))
                   else None))"

text \<open>The decimal digits of a number, and the shortest digits that are read back to a double: of the two candidates of
  each length the nearer one that is.  Seventeen digits suffice; behind them stands the exact expansion.\<close>

fun dec_text :: "nat \<Rightarrow> bytes" where
  "dec_text n = (if n < 10 then [of_nat (48 + n)] else dec_text (n div 10) @ [of_nat (48 + n mod 10)])"

declare dec_text.simps [simp del]

definition int_text :: "int \<Rightarrow> bytes" where "int_text n = (if n < 0 then 45 # dec_text (nat (- n)) else dec_text (nat n))"

definition scale10 :: "nat \<Rightarrow> int \<Rightarrow> nat \<times> nat" where
  "scale10 m e = (if 0 \<le> e then (m, 2 ^ 1074 * 10 ^ nat e) else (m * 10 ^ nat (- e), 2 ^ 1074))"

text \<open>The position of the point: \<open>10 ^ (p - 1) \<le> m / 2 ^ 1074 < 10 ^ p\<close>, found from above.\<close>

primrec dec_point :: "nat \<Rightarrow> nat \<Rightarrow> int" where
  "dec_point m 0 = - 324"
| "dec_point m (Suc i) = (let p = int i - 323 in case scale10 m (p - 1) of (n, d) \<Rightarrow> if d \<le> n then p else dec_point m i)"

definition digits_ok :: "nat \<Rightarrow> nat \<Rightarrow> int \<Rightarrow> bool" where
  "digits_ok m n e = (case dec_ratio n e of (a, b) \<Rightarrow> fp_read F64 (fp_nearest F64 a b) = Fin False m)"

fun shortest_from :: "nat \<Rightarrow> int \<Rightarrow> nat \<Rightarrow> nat \<Rightarrow> nat \<times> int" where
  "shortest_from m p k fuel =
     (let e = p - int k; (n, d) = scale10 m e; lo = n div d; r = n mod d;
          cands = (if 2 * r < d \<or> 2 * r = d \<and> even lo then [lo, lo + 1] else [lo + 1, lo])
      in case filter (\<lambda>c. digits_ok m c e) cands of
           c # _ \<Rightarrow> (c, e)
         | [] \<Rightarrow> (if fuel = 0 then (m * 5 ^ 1074, - 1074) else shortest_from m p (k + 1) (fuel - 1)))"

declare shortest_from.simps [simp del]

definition shortest :: "nat \<Rightarrow> nat \<times> int" where "shortest m = shortest_from m (dec_point m 633) 1 17"

text \<open>Digits and exponent without trailing zeros.\<close>

function strip_zeros :: "nat \<Rightarrow> int \<Rightarrow> nat \<times> int" where
  "strip_zeros n e = (if n \<noteq> 0 \<and> n mod 10 = 0 then strip_zeros (n div 10) (e + 1) else (n, e))"
  by pat_completeness auto
termination by (relation "measure fst") auto

declare strip_zeros.simps [simp del]

text \<open>\<^verbatim>\<open>{:?}\<close>: scientific from \<open>1e16\<close> and below \<open>1e-4\<close>, and otherwise with at least one digit behind the point.\<close>

definition zeros :: "nat \<Rightarrow> bytes" where "zeros n = replicate n 48"

definition plain_text :: "nat \<Rightarrow> int \<Rightarrow> bytes" where
  "plain_text n e =
     (let ds = dec_text n; p = int (length ds) + e in
      if 0 \<le> e then ds @ zeros (nat e) @ [46, 48]
      else if 0 < p then take (nat p) ds @ 46 # drop (nat p) ds
      else [48, 46] @ zeros (nat (- p)) @ ds)"

definition exp_text :: "nat \<Rightarrow> int \<Rightarrow> bytes" where
  "exp_text n e =
     (let ds = dec_text n; p = int (length ds) + e in
      take 1 ds @ (if 1 < length ds then 46 # drop 1 ds else []) @ 101 # int_text (p - 1))"

definition f64_debug :: "u64 \<Rightarrow> bytes" where
  "f64_debug a = (case d64 a of
       Nan \<Rightarrow> ascii_text ''NaN''
     | Inf s \<Rightarrow> ascii_text (if s then ''-inf'' else ''inf'')
     | Fin s m \<Rightarrow> (if s then [45] else []) @
         (if m = 0 then [48, 46, 48]
          else let (n, e) = (case shortest m of (n, e) \<Rightarrow> strip_zeros n e) in
            if 10 ^ 16 * 2 ^ 1074 \<le> m \<or> m * 10 ^ 4 < 2 ^ 1074 then exp_text n e else plain_text n e))"

text \<open>\<^verbatim>\<open>{:.p}\<close>: the exact value rounded to \<open>p\<close> digits behind the point.\<close>

definition f64_fixed :: "nat \<Rightarrow> u64 \<Rightarrow> bytes" where
  "f64_fixed p a = (case d64 a of
       Nan \<Rightarrow> ascii_text ''NaN''
     | Inf s \<Rightarrow> ascii_text (if s then ''-inf'' else ''inf'')
     | Fin s m \<Rightarrow> (if s then [45] else []) @
         (let n = half_even (m * 10 ^ p) (2 ^ 1074); ds = dec_text n; ds = zeros (p + 1 - length ds) @ ds; k = length ds - p in
          take k ds @ (if p = 0 then [] else 46 # drop k ds)))"

end
