(* ===== verification/Fts.thy ===== *)
theory Fts
  imports ParserStmt Schema Btree Floats
begin

text \<open>
  Full-text search over one text or one row: tokenizers (\<^verbatim>\<open>src/fts/tokenizer.rs\<close>), the query language
  (\<^verbatim>\<open>src/fts/query.rs\<close>), excerpts (\<^verbatim>\<open>src/fts/excerpt.rs\<close>), and the evaluation of a query against the tokens of a row
  (\<^verbatim>\<open>src/catalog.rs\<close>).  The tables of Unicode that the standard library holds are the record \<open>unicode\<close>.
\<close>

section \<open>Tokens\<close>

record unicode =
  uc_alphanumeric :: "uchar \<Rightarrow> bool"
  uc_lowercase :: "uchar \<Rightarrow> ustr"
  us_lowercase :: "ustr \<Rightarrow> ustr"
  us_uppercase :: "ustr \<Rightarrow> ustr"

record token =
  tk_text :: bytes
  tk_position :: nat
  tk_start :: nat
  tk_stop :: nat

definition chars :: "bytes \<Rightarrow> ustr" where "chars s = (case utf8_decode s of Some cs \<Rightarrow> cs | None \<Rightarrow> [])"

text \<open>Characters with their byte offsets.\<close>

fun char_indices :: "nat \<Rightarrow> ustr \<Rightarrow> (nat \<times> uchar) list" where
  "char_indices i [] = []"
| "char_indices i (c # cs) = (i, c) # char_indices (i + len_utf8 c) cs"

definition fold_table :: "(uchar list \<times> string) list" where
  "fold_table =
    [([0xE0, 0xE1, 0xE2, 0xE3, 0xE4, 0xE5, 0x101, 0x103, 0x105], ''a''), ([0xE6], ''ae''),
     ([0xE7, 0x107, 0x109, 0x10B, 0x10D], ''c''), ([0xF0, 0x10F, 0x111], ''d''),
     ([0xE8, 0xE9, 0xEA, 0xEB, 0x113, 0x115, 0x117, 0x119, 0x11B], ''e''),
     ([0x11D, 0x11F, 0x121, 0x123], ''g''), ([0x125, 0x127], ''h''),
     ([0xEC, 0xED, 0xEE, 0xEF, 0x129, 0x12B, 0x12D, 0x12F, 0x131], ''i''), ([0x135], ''j''), ([0x137], ''k''),
     ([0x13A, 0x13C, 0x13E, 0x140, 0x142], ''l''), ([0xF1, 0x144, 0x146, 0x148, 0x14B], ''n''),
     ([0xF2, 0xF3, 0xF4, 0xF5, 0xF6, 0xF8, 0x14D, 0x14F, 0x151], ''o''), ([0x153], ''oe''),
     ([0x155, 0x157, 0x159], ''r''), ([0x15B, 0x15D, 0x15F, 0x161], ''s''), ([0xDF], ''ss''),
     ([0x163, 0x165, 0x167], ''t''), ([0xFE], ''th''),
     ([0xF9, 0xFA, 0xFB, 0xFC, 0x169, 0x16B, 0x16D, 0x16F, 0x171, 0x173], ''u''), ([0x175], ''w''),
     ([0xFD, 0xFF, 0x177], ''y''), ([0x17A, 0x17C, 0x17E], ''z'')]"

definition fold_lower :: "uchar \<Rightarrow> ustr" where
  "fold_lower c = (case find (\<lambda>(cs, _). c \<in> set cs) fold_table of Some (_, s) \<Rightarrow> map of_char s | None \<Rightarrow> [c])"

datatype tokenizer = UnicodeTokenizer bool "nat option" | AsciiTokenizer

text \<open>\<^verbatim>\<open>UnicodeTokenizer::emit\<close>: the token of a run of the text, unless it folds to nothing or is too long.\<close>

definition emit :: "unicode \<Rightarrow> bool \<Rightarrow> nat option \<Rightarrow> bytes \<Rightarrow> nat \<Rightarrow> nat \<Rightarrow> nat \<Rightarrow> token list" where
  "emit u folds max_len text start stop position =
     (let lower = concat (map (uc_lowercase u) (chars (byte_slice text start stop)));
          norm = (if folds then concat (map fold_lower lower) else lower) in
      if norm = [] \<or> (case max_len of Some m \<Rightarrow> m < length norm | None \<Rightarrow> False) then []
      else [\<lparr>tk_text = utf8_bytes norm, tk_position = position, tk_start = start, tk_stop = stop\<rparr>])"

fun unicode_loop ::
  "unicode \<Rightarrow> (nat \<Rightarrow> nat \<Rightarrow> nat \<Rightarrow> token list) \<Rightarrow> (nat \<times> uchar) list \<Rightarrow> nat option \<Rightarrow> nat \<Rightarrow> nat \<Rightarrow> token list" where
  "unicode_loop u em [] run run_stop position = (case run of Some start \<Rightarrow> em start run_stop position | None \<Rightarrow> [])"
| "unicode_loop u em ((i, c) # r) run run_stop position =
     (if uc_alphanumeric u c then
        unicode_loop u em r (Some (case run of Some start \<Rightarrow> start | None \<Rightarrow> i)) (i + len_utf8 c) position
      else case run of
          Some start \<Rightarrow> em start run_stop position @ unicode_loop u em r None run_stop (position + 1)
        | None \<Rightarrow> unicode_loop u em r None run_stop position)"

function ascii_loop :: "bytes \<Rightarrow> nat \<Rightarrow> nat \<Rightarrow> token list" where
  "ascii_loop text i position =
     (if i < length text then
        if \<not> is_alnum (text ! i) then ascii_loop text (i + 1) position
        else let j = run_end is_alnum text i in
          \<lparr>tk_text = map ascii_lower (byte_slice text i j), tk_position = position, tk_start = i, tk_stop = j\<rparr>
            # (if i < j then ascii_loop text j (position + 1) else [])
      else [])"
  by pat_completeness auto
termination by (relation "measure (\<lambda>(text, i, _). length text - i)") auto

declare ascii_loop.simps [simp del]

fun tokenize :: "unicode \<Rightarrow> tokenizer \<Rightarrow> bytes \<Rightarrow> token list" where
  "tokenize u (UnicodeTokenizer folds max_len) text =
     unicode_loop u (emit u folds max_len text) (char_indices 0 (chars text)) None 0 0"
| "tokenize u AsciiTokenizer text = ascii_loop text 0 0"

definition tokenizer_for :: "bytes \<Rightarrow> tokenizer res" where
  "tokenizer_for name =
     (if name = ascii_bytes ''unicode'' then Inr (UnicodeTokenizer True None)
      else if name = ascii_bytes ''ascii'' then Inr AsciiTokenizer
      else Inl (Sql (''tokenizer FTS desconocido: '' @ text_of name @ '' (validos: unicode, ascii)'') None))"

section \<open>Queries\<close>

datatype fts_query =
    QTerm bytes bool
  | QPhrase "bytes list"
  | QNear "bytes list" nat
  | QColumn bytes fts_query
  | QAnd fts_query fts_query
  | QOr fts_query fts_query
  | QNot fts_query fts_query

definition DEFAULT_NEAR :: nat where "DEFAULT_NEAR = 10"

definition query_err :: "string \<Rightarrow> error" where "query_err msg = Sql (''consulta MATCH invalida: '' @ msg) None"

datatype qtok = QWord ustr | QPhraseTok ustr | QLParen | QRParen | QComma | QColon | QStar | QKwAnd | QKwOr | QKwNot | QKwNear

definition is_special :: "uchar \<Rightarrow> bool" where "is_special c \<longleftrightarrow> c \<in> set (map of_char ''(),:*'') \<or> c = 34"

definition word_of :: "ustr \<Rightarrow> qtok" where
  "word_of w = (if w = map of_char ''AND'' then QKwAnd else if w = map of_char ''OR'' then QKwOr
     else if w = map of_char ''NOT'' then QKwNot else if w = map of_char ''NEAR'' then QKwNear else QWord w)"

definition q_punct :: "(uchar \<times> qtok) list" where
  "q_punct = [(40, QLParen), (41, QRParen), (44, QComma), (58, QColon), (42, QStar)]"

definition in_word :: "uchar \<Rightarrow> bool" where "in_word c \<longleftrightarrow> \<not> is_whitespace c \<and> \<not> is_special c"

function query_lex :: "ustr \<Rightarrow> qtok list res" where
  "query_lex cs =
     (case cs of
        [] \<Rightarrow> Inr []
      | c # r \<Rightarrow>
          if is_whitespace c then query_lex r
          else case map_of q_punct c of
            Some t \<Rightarrow> rbind (query_lex r) (\<lambda>ts. Inr (t # ts))
          | None \<Rightarrow>
            if c = 34 then
              (case dropWhile (\<lambda>d. d \<noteq> 34) r of
                 [] \<Rightarrow> Inl (query_err ''comilla de frase sin cerrar'')
               | _ # r2 \<Rightarrow> rbind (query_lex r2) (\<lambda>ts. Inr (QPhraseTok (takeWhile (\<lambda>d. d \<noteq> 34) r) # ts)))
            else rbind (query_lex (dropWhile in_word r)) (\<lambda>ts. Inr (word_of (c # takeWhile in_word r) # ts)))"
  by pat_completeness auto
termination
proof (relation "measure length")
  have "length (dropWhile P r) < Suc (length r)" for P :: "uchar \<Rightarrow> bool" and r using length_dropWhile_le [of P r] by simp
  moreover have "dropWhile P r = d # r2 \<Longrightarrow> length r2 < Suc (length r)" for P :: "uchar \<Rightarrow> bool" and r d r2
    using length_dropWhile_le [of P r] by simp
  ultimately show "\<And>cs c r. cs = c # r \<Longrightarrow> \<not> is_whitespace c \<Longrightarrow> map_of q_punct c = None \<Longrightarrow> c = 34 \<Longrightarrow>
      (\<And>d r2. dropWhile (\<lambda>d. d \<noteq> 34) r = d # r2 \<Longrightarrow> (r2, cs) \<in> measure length)"
    by auto
qed (auto simp: less_Suc_eq_le length_dropWhile_le)

declare query_lex.simps [simp del]

text \<open>The parser, as functions from the tokens left to a query and the tokens left; \<open>None\<close> is fuel that ran out.\<close>

type_synonym 'a qp = "qtok list \<Rightarrow> ('a \<times> qtok list) res option"

text \<open>A loop of a binary operator: \<open>step\<close> eats the operator, if it is there.\<close>

fun q_loop :: "nat \<Rightarrow> (qtok list \<Rightarrow> qtok list option) \<Rightarrow> (fts_query \<Rightarrow> fts_query \<Rightarrow> fts_query) \<Rightarrow> fts_query qp \<Rightarrow> fts_query \<Rightarrow> fts_query qp" where
  "q_loop 0 step mk operand left ts = None"
| "q_loop (Suc n) step mk operand left ts =
     (case step ts of
        None \<Rightarrow> Some (Inr (left, ts))
      | Some ts \<Rightarrow> opbind (operand ts) (\<lambda>(right, ts). q_loop n step mk operand (mk left right) ts))"

definition q_binary :: "(qtok list \<Rightarrow> qtok list option) \<Rightarrow> (fts_query \<Rightarrow> fts_query \<Rightarrow> fts_query) \<Rightarrow> fts_query qp \<Rightarrow> fts_query qp" where
  "q_binary step mk operand ts = opbind (operand ts) (\<lambda>(left, ts). q_loop (length ts + 1) step mk operand left ts)"

definition eat_q :: "qtok \<Rightarrow> qtok list \<Rightarrow> qtok list option" where
  "eat_q t ts = (case ts of x # r \<Rightarrow> if x = t then Some r else None | [] \<Rightarrow> None)"

definition starts_primary :: "qtok list \<Rightarrow> bool" where
  "starts_primary ts = (case ts of t # _ \<Rightarrow> (case t of QWord _ \<Rightarrow> True | QPhraseTok _ \<Rightarrow> True | QLParen \<Rightarrow> True | QKwNear \<Rightarrow> True | _ \<Rightarrow> False) | [] \<Rightarrow> False)"

definition eat_and :: "qtok list \<Rightarrow> qtok list option" where
  "eat_and ts = (case eat_q QKwAnd ts of Some r \<Rightarrow> Some r | None \<Rightarrow> if starts_primary ts then Some ts else None)"

definition q_not :: "fts_query qp \<Rightarrow> fts_query qp" where "q_not prim = q_binary (eat_q QKwNot) QNot prim"
definition q_and :: "fts_query qp \<Rightarrow> fts_query qp" where "q_and prim = q_binary eat_and QAnd (q_not prim)"
definition q_or :: "fts_query qp \<Rightarrow> fts_query qp" where "q_or prim = q_binary (eat_q QKwOr) QOr (q_and prim)"

fun split_words :: "ustr \<Rightarrow> ustr \<Rightarrow> ustr list" where
  "split_words w [] = (if w = [] then [] else [w])"
| "split_words w (c # cs) = (if is_whitespace c then (if w = [] then [] else [w]) @ split_words [] cs else split_words (w @ [c]) cs)"

fun near_words :: "qtok list \<Rightarrow> bytes list \<times> qtok list" where
  "near_words (QWord w # ts) = (case near_words ts of (ws, r) \<Rightarrow> (utf8_bytes w # ws, r))"
| "near_words ts = ([], ts)"

text \<open>\<^verbatim>\<open>str::parse\<close> of an unsigned and of a signed integer of so many bits.\<close>

definition parse_unsigned :: "nat \<Rightarrow> bytes \<Rightarrow> nat option" where
  "parse_unsigned w s = (let ds = (case s of b # r \<Rightarrow> if b = 43 then r else s | [] \<Rightarrow> []) in
     if ds = [] \<or> \<not> list_all is_digit ds \<or> 2 ^ w \<le> decimal ds then None else Some (decimal ds))"

definition near :: "fts_query qp" where
  "near ts =
     (case eat_q QLParen ts of
        None \<Rightarrow> Some (Inl (query_err ''NEAR requiere '( ''))
      | Some ts \<Rightarrow> case near_words ts of (terms, ts) \<Rightarrow>
          if length terms < 2 then Some (Inl (query_err ''NEAR necesita al menos dos terminos''))
          else obind (case eat_q QComma ts of
               None \<Rightarrow> Inr (DEFAULT_NEAR, ts)
             | Some (QWord w # r) \<Rightarrow> (case parse_unsigned 32 (utf8_bytes w) of
                   None \<Rightarrow> Inl (query_err ''la distancia de NEAR debe ser un entero'') | Some n \<Rightarrow> Inr (n, r))
             | Some _ \<Rightarrow> Inl (query_err ''se esperaba la distancia tras ',' en NEAR''))
            (\<lambda>(d, ts). case eat_q QRParen ts of
               None \<Rightarrow> Some (Inl (query_err ''falta ')' en NEAR''))
             | Some ts \<Rightarrow> Some (Inr (QNear terms d, ts))))"

primrec q_primary :: "nat \<Rightarrow> fts_query qp" where
  "q_primary 0 ts = None"
| "q_primary (Suc n) ts =
     (case ts of
        QLParen # r \<Rightarrow> opbind (q_or (q_primary n) r) (\<lambda>(q, r). case eat_q QRParen r of
            None \<Rightarrow> Some (Inl (query_err ''falta ')'')) | Some r \<Rightarrow> Some (Inr (q, r)))
      | QKwNear # r \<Rightarrow> near r
      | QPhraseTok s # r \<Rightarrow> Some (Inr (QPhrase (map utf8_bytes (split_words [] s)), r))
      | QWord w # r \<Rightarrow> (case eat_q QColon r of
            Some r \<Rightarrow> opbind (q_primary n r) (\<lambda>(q, r). Some (Inr (QColumn (utf8_bytes w) q, r)))
          | None \<Rightarrow> (case eat_q QStar r of
              Some r \<Rightarrow> Some (Inr (QTerm (utf8_bytes w) True, r))
            | None \<Rightarrow> Some (Inr (QTerm (utf8_bytes w) False, r))))
      | _ \<Rightarrow> Some (Inl (query_err ''se esperaba un termino'')))"

definition parse_query :: "bytes \<Rightarrow> fts_query res option" where
  "parse_query input = obind (query_lex (chars input)) (\<lambda>ts. opbind (q_or (q_primary (length ts + 1)) ts) (\<lambda>(q, r).
     if r \<noteq> [] then Some (Inl (query_err ''token inesperado al final de la consulta MATCH'')) else Some (Inr q)))"

section \<open>Sorted lists of row identifiers\<close>

fun intersect_sorted :: "int list \<Rightarrow> int list \<Rightarrow> int list" where
  "intersect_sorted (a # as) (b # bs) =
     (if a < b then intersect_sorted as (b # bs) else if a > b then intersect_sorted (a # as) bs else a # intersect_sorted as bs)"
| "intersect_sorted _ _ = []"

fun union_sorted :: "int list \<Rightarrow> int list \<Rightarrow> int list" where
  "union_sorted (a # as) (b # bs) =
     (if a < b then a # union_sorted as (b # bs) else if a > b then b # union_sorted (a # as) bs else a # union_sorted as bs)"
| "union_sorted [] bs = bs"
| "union_sorted as [] = as"

fun difference_sorted :: "int list \<Rightarrow> int list \<Rightarrow> int list" where
  "difference_sorted (a # as) (b # bs) =
     (if a < b then a # difference_sorted as (b # bs) else if a > b then difference_sorted (a # as) bs else difference_sorted as bs)"
| "difference_sorted as [] = as"
| "difference_sorted [] bs = []"

section \<open>The smallest window that covers every group\<close>

record window =
  wn_l :: nat
  wn_have :: "nat list"
  wn_covered :: nat
  wn_best :: "nat option"

text \<open>The inner loop: while every group is covered, record the span and drop the leftmost position.\<close>

function shrink :: "(nat \<times> nat) list \<Rightarrow> nat \<Rightarrow> nat \<Rightarrow> window \<Rightarrow> window" where
  "shrink items n r w =
     (if wn_covered w = n \<and> wn_l w < length items then
        (let (p, g) = items ! wn_l w; span = fst (items ! r) - p;
             h = wn_have w ! g - 1 in
         shrink items n r \<lparr>wn_l = wn_l w + 1, wn_have = (wn_have w)[g := h],
           wn_covered = (if h = 0 then wn_covered w - 1 else wn_covered w),
           wn_best = Some (case wn_best w of None \<Rightarrow> span | Some b \<Rightarrow> min b span)\<rparr>)
      else w)"
  by pat_completeness auto
termination by (relation "measure (\<lambda>(items, _, _, w). length items - wn_l w)") auto

declare shrink.simps [simp del]

definition extend :: "(nat \<times> nat) list \<Rightarrow> nat \<Rightarrow> window \<Rightarrow> window" where
  "extend items r w =
     (let g = snd (items ! r) in
      w\<lparr>wn_covered := (if wn_have w ! g = 0 then wn_covered w + 1 else wn_covered w), wn_have := (wn_have w)[g := wn_have w ! g + 1]\<rparr>)"

definition group_items :: "nat list list \<Rightarrow> (nat \<times> nat) list" where
  "group_items groups = concat (map (\<lambda>(g, ps). map (\<lambda>p. (p, g)) ps) (enumerate 0 groups))"

definition min_window_span :: "nat list list \<Rightarrow> nat option" where
  "min_window_span groups =
     (if [] \<in> set groups then None
      else let items = sort_key fst (sort_key snd (group_items groups)); n = length groups in
        wn_best (foldl (\<lambda>w r. shrink items n r (extend items r w))
          \<lparr>wn_l = 0, wn_have = replicate n 0, wn_covered = 0, wn_best = None\<rparr> [0..<length items]))"

section \<open>A query against the tokens of a row\<close>

type_synonym doc = "(bytes \<times> u8 \<times> nat) list"

definition in_field :: "u8 option \<Rightarrow> u8 \<Rightarrow> bool" where "in_field fld f = (case fld of None \<Rightarrow> True | Some ff \<Rightarrow> ff = f)"

definition starts_with :: "bytes \<Rightarrow> bytes \<Rightarrow> bool" where "starts_with s p \<longleftrightarrow> take (length p) s = p"

definition doc_has_term :: "doc \<Rightarrow> bytes \<Rightarrow> bool \<Rightarrow> u8 option \<Rightarrow> bool" where
  "doc_has_term doc term prefix fld \<longleftrightarrow>
     list_ex (\<lambda>(t, f, _). in_field fld f \<and> (if prefix then starts_with t term else t = term)) doc"

definition doc_has_phrase :: "doc \<Rightarrow> bytes list \<Rightarrow> u8 option \<Rightarrow> bool" where
  "doc_has_phrase doc tokens fld =
     (case tokens of
        [] \<Rightarrow> False
      | [t] \<Rightarrow> doc_has_term doc t False fld
      | t0 # ts \<Rightarrow> list_ex (\<lambda>(t, f, p). t = t0 \<and> in_field fld f \<and>
          list_all (\<lambda>(k, tok). list_ex (\<lambda>(t2, f2, p2). t2 = tok \<and> f2 = f \<and> p2 = p + k + 1) doc) (enumerate 0 ts)) doc)"

definition positions :: "doc \<Rightarrow> u8 \<Rightarrow> bytes \<Rightarrow> nat list" where
  "positions doc f tok = map (\<lambda>(_, _, p). p) (filter (\<lambda>(t, ff, _). t = tok \<and> ff = f) doc)"

definition doc_has_near :: "doc \<Rightarrow> bytes list \<Rightarrow> nat \<Rightarrow> u8 option \<Rightarrow> bool" where
  "doc_has_near doc tokens distance fld =
     (if length tokens < 2 then False
      else list_ex (\<lambda>f. case min_window_span (map (positions doc f) tokens) of Some s \<Rightarrow> s \<le> distance | None \<Rightarrow> False)
        (filter (in_field fld) (map (\<lambda>(_, f, _). f) doc)))"

definition tokenize_all :: "unicode \<Rightarrow> tokenizer \<Rightarrow> bytes \<Rightarrow> bytes list" where
  "tokenize_all u tk text = map tk_text (tokenize u tk text)"

definition rand :: "bool res \<Rightarrow> bool res \<Rightarrow> bool res" where "rand a b = rbind a (\<lambda>x. if x then b else Inr False)"

fun eval_doc :: "unicode \<Rightarrow> tokenizer \<Rightarrow> doc \<Rightarrow> (bytes \<times> u8) list \<Rightarrow> u8 option \<Rightarrow> fts_query \<Rightarrow> bool res" where
  "eval_doc u tk doc columns fld (QTerm text prefix) =
     (let toks = tokenize_all u tk text in Inr (case toks of
        [] \<Rightarrow> False | [t] \<Rightarrow> doc_has_term doc t prefix fld | _ \<Rightarrow> doc_has_phrase doc toks fld))"
| "eval_doc u tk doc columns fld (QPhrase words) = Inr (doc_has_phrase doc (concat (map (tokenize_all u tk) words)) fld)"
| "eval_doc u tk doc columns fld (QNear terms distance) =
     Inr (doc_has_near doc (concat (map (tokenize_all u tk) terms)) distance fld)"
| "eval_doc u tk doc columns fld (QColumn column q) =
     (case map_of columns column of
        None \<Rightarrow> Inl (Sql (''la columna '' @ text_of column @ '' no esta en el indice FTS'') None)
      | Some f \<Rightarrow> eval_doc u tk doc columns (Some f) q)"
| "eval_doc u tk doc columns fld (QAnd a b) = rand (eval_doc u tk doc columns fld a) (eval_doc u tk doc columns fld b)"
| "eval_doc u tk doc columns fld (QOr a b) =
     rbind (eval_doc u tk doc columns fld a) (\<lambda>x. if x then Inr True else eval_doc u tk doc columns fld b)"
| "eval_doc u tk doc columns fld (QNot a b) =
     rand (eval_doc u tk doc columns fld a) (rbind (eval_doc u tk doc columns fld b) (\<lambda>y. Inr (\<not> y)))"

text \<open>The tokens of a row: those of its indexed columns that hold text.\<close>

definition row_doc :: "unicode \<Rightarrow> tokenizer \<Rightarrow> nat list \<Rightarrow> val list \<Rightarrow> doc" where
  "row_doc u tk cols row = concat (map (\<lambda>col. case get_at row col of
       Some (Text text) \<Rightarrow> map (\<lambda>t. (tk_text t, of_nat col, tk_position t)) (tokenize u tk text) | _ \<Rightarrow> []) cols)"

definition fts_row_matches :: "unicode \<Rightarrow> table_def \<Rightarrow> fts_index_def \<Rightarrow> val list \<Rightarrow> fts_query \<Rightarrow> bool res" where
  "fts_row_matches u d fts row query = rbind (tokenizer_for (ft_tokenizer fts)) (\<lambda>tk.
     eval_doc u tk (row_doc u tk (ft_columns fts) row)
       (map (\<lambda>c. (cd_name (td_columns d ! c), of_nat c)) (ft_columns fts)) None query)"

section \<open>Excerpts\<close>

fun positive_terms :: "fts_query \<Rightarrow> (bytes \<times> bool) list" where
  "positive_terms (QTerm text prefix) = [(text, prefix)]"
| "positive_terms (QPhrase words) = map (\<lambda>w. (w, False)) words"
| "positive_terms (QNear terms _) = map (\<lambda>t. (t, False)) terms"
| "positive_terms (QColumn _ q) = positive_terms q"
| "positive_terms (QAnd a b) = positive_terms a @ positive_terms b"
| "positive_terms (QOr a b) = positive_terms a @ positive_terms b"
| "positive_terms (QNot a b) = positive_terms a"

definition highlight_targets :: "unicode \<Rightarrow> tokenizer \<Rightarrow> fts_query \<Rightarrow> (bytes \<times> bool) list" where
  "highlight_targets u tk q = concat (map (\<lambda>(text, prefix). case tokenize_all u tk text of
       [t] \<Rightarrow> [(t, prefix)] | ts \<Rightarrow> map (\<lambda>t. (t, False)) ts) (positive_terms q))"

definition query_terms :: "unicode \<Rightarrow> tokenizer \<Rightarrow> fts_query \<Rightarrow> bytes list" where
  "query_terms u tk q = remdups_adj (sort (map fst (highlight_targets u tk q)))"

definition token_matches :: "bytes \<Rightarrow> (bytes \<times> bool) list \<Rightarrow> bool" where
  "token_matches tok targets \<longleftrightarrow> list_ex (\<lambda>(t, prefix). if prefix then starts_with tok t else tok = t) targets"

text \<open>The text from \<open>from_pos\<close> with the matching tokens between marks, and where the last mark ended.\<close>

fun mark_tokens :: "bytes \<Rightarrow> (bytes \<Rightarrow> bool) \<Rightarrow> bytes \<Rightarrow> bytes \<Rightarrow> token list \<Rightarrow> nat \<Rightarrow> bytes \<times> nat" where
  "mark_tokens text hit op cl [] from_pos = ([], from_pos)"
| "mark_tokens text hit op cl (t # ts) from_pos =
     (if hit (tk_text t) then
        (case mark_tokens text hit op cl ts (tk_stop t) of (out, p) \<Rightarrow>
          (byte_slice text from_pos (tk_start t) @ op @ byte_slice text (tk_start t) (tk_stop t) @ cl @ out, p))
      else mark_tokens text hit op cl ts from_pos)"

definition highlight :: "unicode \<Rightarrow> tokenizer \<Rightarrow> bytes \<Rightarrow> fts_query \<Rightarrow> bytes \<Rightarrow> bytes \<Rightarrow> bytes" where
  "highlight u tk text q op cl =
     (case mark_tokens text (\<lambda>t. token_matches t (highlight_targets u tk q)) op cl (tokenize u tk text) 0 of
        (out, p) \<Rightarrow> out @ drop p text)"

fun find_index :: "('a \<Rightarrow> bool) \<Rightarrow> 'a list \<Rightarrow> nat option" where
  "find_index p [] = None"
| "find_index p (x # xs) = (if p x then Some 0 else map_option Suc (find_index p xs))"

definition snippet :: "unicode \<Rightarrow> tokenizer \<Rightarrow> bytes \<Rightarrow> fts_query \<Rightarrow> bytes \<Rightarrow> bytes \<Rightarrow> bytes \<Rightarrow> nat \<Rightarrow> bytes" where
  "snippet u tk text q op cl ellipsis max_tokens =
     (let hit = (\<lambda>t. token_matches t (highlight_targets u tk q)); toks = tokenize u tk text in
      if toks = [] \<or> max_tokens = 0 then []
      else
        let center = (case find_index (\<lambda>t. hit (tk_text t)) toks of Some i \<Rightarrow> i | None \<Rightarrow> 0);
            start = center - max_tokens div 2;
            stop = min (start + max_tokens) (length toks);
            start = stop - max_tokens;
            until = tk_stop (toks ! (stop - 1))
        in (if 0 < start then ellipsis else []) @
           (case mark_tokens text hit op cl (take (stop - start) (drop start toks)) (tk_start (toks ! start)) of
              (out, p) \<Rightarrow> out @ byte_slice text p until) @
           (if stop < length toks then ellipsis else []))"

end
