(* ===== verification/FtsLaws.thy ===== *)
theory FtsLaws
  imports Fts
begin

text \<open>The laws of full-text search: queries always parse to an answer, the merges of sorted lists are those of sets, the
  window is the smallest, and excerpts keep the text.\<close>

section \<open>Parsing a query returns\<close>

definition returns_below :: "nat \<Rightarrow> fts_query qp \<Rightarrow> bool" where
  "returns_below k f \<longleftrightarrow> (\<forall>ts. length ts < k \<longrightarrow>
     (\<exists>r. f ts = Some r \<and> (\<forall>q rest. r = Inr (q, rest) \<longrightarrow> length rest < length ts)))"

lemma returns_belowD: "returns_below k f \<Longrightarrow> length ts < k \<Longrightarrow> \<exists>r. f ts = Some r \<and> (\<forall>q rest. r = Inr (q, rest) \<longrightarrow> length rest < length ts)"
  by (simp add: returns_below_def)

lemma q_loop_returns:
  assumes "returns_below k operand" "\<And>ts ts'. step ts = Some ts' \<Longrightarrow> length ts' \<le> length ts" "length ts < n" "length ts < k"
  shows "\<exists>r. q_loop n step mk operand left ts = Some r \<and> (\<forall>q rest. r = Inr (q, rest) \<longrightarrow> length rest \<le> length ts)"
  using assms(3, 4)
proof (induction n arbitrary: left ts)
  case (Suc n)
  show ?case
  proof (cases "step ts")
    case (Some ts')
    then have l: "length ts' \<le> length ts" using assms(2) by blast
    obtain r where r: "operand ts' = Some r" "\<forall>q rest. r = Inr (q, rest) \<longrightarrow> length rest < length ts'"
      using returns_belowD [OF assms(1), of ts'] Suc.prems l by auto
    show ?thesis
    proof (cases r)
      case (Inr qr)
      obtain q rest where q: "qr = (q, rest)" by (cases qr)
      then have "length rest < length ts'" using r(2) Inr by blast
      then obtain r' where r': "q_loop n step mk operand (mk left q) rest = Some r'" "\<forall>q' rest'. r' = Inr (q', rest') \<longrightarrow> length rest' \<le> length rest"
        using Suc.IH [of rest "mk left q"] Suc.prems l by auto
      show ?thesis using Some r(1) Inr q r' \<open>length rest < length ts'\<close> l by fastforce
    qed (use Some r(1) in simp)
  qed simp
qed simp

lemma q_binary_returns:
  assumes "returns_below k operand" "\<And>ts ts'. step ts = Some ts' \<Longrightarrow> length ts' \<le> length ts"
  shows "returns_below k (q_binary step mk operand)"
  unfolding returns_below_def
proof (intro allI impI)
  fix ts :: "qtok list" assume k: "length ts < k"
  obtain r where r: "operand ts = Some r" "\<forall>q rest. r = Inr (q, rest) \<longrightarrow> length rest < length ts"
    using returns_belowD [OF assms(1) k] by blast
  show "\<exists>r. q_binary step mk operand ts = Some r \<and> (\<forall>q rest. r = Inr (q, rest) \<longrightarrow> length rest < length ts)"
  proof (cases r)
    case (Inr qr)
    obtain q rest where q: "qr = (q, rest)" by (cases qr)
    then have l: "length rest < length ts" using r(2) Inr by blast
    obtain r' where "q_loop (length rest + 1) step mk operand q rest = Some r'" "\<forall>q' rest'. r' = Inr (q', rest') \<longrightarrow> length rest' \<le> length rest"
      using q_loop_returns [OF assms, of step rest "length rest + 1" mk q] k l by auto
    then show ?thesis using r(1) Inr q l by (fastforce simp: q_binary_def)
  qed (use r(1) in \<open>simp add: q_binary_def\<close>)
qed

lemma eat_q_less: "eat_q t ts = Some r \<Longrightarrow> length r < length ts"
  by (auto simp: eat_q_def split: list.splits if_splits)

lemma eat_and_le: "eat_and ts = Some r \<Longrightarrow> length r \<le> length ts"
  using eat_q_less [of QKwAnd ts] by (auto simp: eat_and_def split: option.splits if_splits)

lemma q_or_returns: "returns_below k prim \<Longrightarrow> returns_below k (q_or prim)"
  unfolding q_or_def q_and_def q_not_def
  by (intro q_binary_returns) (auto dest: eat_q_less eat_and_le)

lemma near_words_le: "near_words ts = (ws, r) \<Longrightarrow> length r \<le> length ts"
  by (induction ts arbitrary: ws rule: near_words.induct) (auto split: prod.splits)

lemma near_returns: "\<exists>r. near ts = Some r \<and> (\<forall>q rest. r = Inr (q, rest) \<longrightarrow> length rest \<le> length ts)"
  unfolding near_def
  by (fastforce split: option.splits prod.splits list.splits qtok.splits simp: obind_def dest!: eat_q_less near_words_le)

lemma q_primary_returns: "returns_below k (q_primary k)"
proof (induction k)
  case (Suc n)
  show ?case unfolding returns_below_def
  proof (intro allI impI)
    fix ts :: "qtok list" assume k: "length ts < Suc n"
    show "\<exists>r. q_primary (Suc n) ts = Some r \<and> (\<forall>q rest. r = Inr (q, rest) \<longrightarrow> length rest < length ts)"
    proof (cases ts)
      case (Cons t r)
      then have rn: "length r < n" using k by simp
      obtain p where p: "q_or (q_primary n) r = Some p" "\<forall>q rest. p = Inr (q, rest) \<longrightarrow> length rest < length r"
        using returns_belowD [OF q_or_returns [OF Suc.IH] rn] by blast
      have col: "\<exists>x. q_primary n r' = Some x \<and> (\<forall>q rest. x = Inr (q, rest) \<longrightarrow> length rest < length r')" if "eat_q QColon r = Some r'" for r'
        using returns_belowD [OF Suc.IH, of r'] eat_q_less [OF that] rn by auto
      have colon: "\<exists>x. (case eat_q QColon r of
            Some r \<Rightarrow> opbind (q_primary n r) (\<lambda>(q, r). Some (Inr (QColumn (utf8_bytes w) q, r)))
          | None \<Rightarrow> (case eat_q QStar r of
              Some r \<Rightarrow> Some (Inr (QTerm (utf8_bytes w) True, r))
            | None \<Rightarrow> Some (Inr (QTerm (utf8_bytes w) False, r)))) = Some x \<and> (\<forall>q rest. x = Inr (q, rest) \<longrightarrow> length rest < length ts)" for w
      proof (cases "eat_q QColon r")
        case (Some r')
        obtain x where x: "q_primary n r' = Some x" "\<forall>q rest. x = Inr (q, rest) \<longrightarrow> length rest < length r'" using col [OF Some] by blast
        show ?thesis using Some x eat_q_less [OF Some] Cons by (cases x) (fastforce split: prod.splits)+
      qed (use Cons in \<open>auto split: option.splits dest: eat_q_less\<close>)
      show ?thesis
      proof (cases t)
        case QLParen
        show ?thesis using p Cons QLParen by (cases p) (fastforce split: prod.splits option.splits dest: eat_q_less)+
      next
        case QKwNear
        then show ?thesis using Cons near_returns [of r] by (auto simp: less_Suc_eq_le)
      qed (use Cons colon in simp_all)
    qed simp
  qed
qed (simp add: returns_below_def)

lemma parse_query_returns: "\<exists>r. parse_query input = Some r"
proof (cases "query_lex (chars input)")
  case (Inr ts)
  obtain r where "q_or (q_primary (length ts + 1)) ts = Some r"
    using returns_belowD [OF q_or_returns [OF q_primary_returns], of ts "length ts + 1"] by auto
  then show ?thesis using Inr by (cases r) (auto simp: parse_query_def split: prod.splits)
qed (simp add: parse_query_def)

section \<open>Merges of sorted lists\<close>

lemma below_head: "sorted_wrt (<) (b # bs) \<Longrightarrow> a < b \<Longrightarrow> a \<notin> set (b # bs)" for a :: int
  by auto

lemma intersect_sorted_set: "sorted_wrt (<) as \<Longrightarrow> sorted_wrt (<) bs \<Longrightarrow> set (intersect_sorted as bs) = set as \<inter> set bs"
proof (induction as bs rule: intersect_sorted.induct)
  case (1 a as b bs)
  then show ?case using below_head [of b bs a] below_head [of a as b] by auto
qed simp_all

lemma union_sorted_set: "set (union_sorted as bs) = set as \<union> set bs"
  by (induction as bs rule: union_sorted.induct) auto

lemma difference_sorted_set: "sorted_wrt (<) as \<Longrightarrow> sorted_wrt (<) bs \<Longrightarrow> set (difference_sorted as bs) = set as - set bs"
proof (induction as bs rule: difference_sorted.induct)
  case (1 a as b bs)
  show ?case
  proof (cases rule: linorder_cases [of a b])
    case less
    then have "set (difference_sorted as (b # bs)) = set as - set (b # bs)" using 1 by simp
    then show ?thesis using below_head [OF 1(5) less] less by auto
  next
    case equal
    then have "set (difference_sorted as bs) = set as - set bs" "b \<notin> set as" using 1 by auto
    then show ?thesis using equal by auto
  next
    case greater
    then have "set (difference_sorted (a # as) bs) = set (a # as) - set bs" using 1 by simp
    then show ?thesis using below_head [OF 1(4) greater] greater by auto
  qed
qed simp_all

lemma intersect_sorted_sorted: "sorted_wrt (<) as \<Longrightarrow> sorted_wrt (<) bs \<Longrightarrow> sorted_wrt (<) (intersect_sorted as bs)"
  by (induction as bs rule: intersect_sorted.induct) (auto simp: intersect_sorted_set)

lemma union_sorted_sorted: "sorted_wrt (<) as \<Longrightarrow> sorted_wrt (<) bs \<Longrightarrow> sorted_wrt (<) (union_sorted as bs)"
  by (induction as bs rule: union_sorted.induct) (auto simp: union_sorted_set)

lemma difference_sorted_sorted: "sorted_wrt (<) as \<Longrightarrow> sorted_wrt (<) bs \<Longrightarrow> sorted_wrt (<) (difference_sorted as bs)"
  by (induction as bs rule: difference_sorted.induct) (auto simp: difference_sorted_set)

section \<open>Tokens are disjoint slices of the text, in order\<close>

fun spans_from :: "nat \<Rightarrow> nat \<Rightarrow> token list \<Rightarrow> bool" where
  "spans_from p len [] \<longleftrightarrow> p \<le> len"
| "spans_from p len (t # ts) \<longleftrightarrow> p \<le> tk_start t \<and> tk_start t \<le> tk_stop t \<and> spans_from (tk_stop t) len ts"

lemma spans_from_mono: "spans_from q len ts \<Longrightarrow> p \<le> q \<Longrightarrow> spans_from p len ts"
  by (cases ts) auto

lemma spans_from_le: "spans_from p len ts \<Longrightarrow> p \<le> len"
  by (induction ts arbitrary: p) fastforce+

lemma spans_emit:
  assumes "spans_from stop len ts" "p \<le> start" "start \<le> stop"
  shows "spans_from p len (emit u f m text start stop pos @ ts)"
  using assms spans_from_mono [OF assms(1), of p] by (simp add: emit_def Let_def)

lemma unicode_loop_spans:
  assumes "i + length (utf8_bytes cs) \<le> len" "p \<le> i" "\<forall>start. run = Some start \<longrightarrow> p \<le> start \<and> start \<le> run_stop \<and> run_stop \<le> i"
  shows "spans_from p len (unicode_loop u (emit u f m text) (char_indices i cs) run run_stop pos)"
  using assms
proof (induction cs arbitrary: i p run run_stop pos)
  case Nil
  then show ?case using spans_emit [of run_stop len "[]" p _ u f m "text"] by (auto split: option.splits)
next
  case (Cons c cs)
  have l: "i + len_utf8 c + length (utf8_bytes cs) \<le> len" using Cons.prems(1) by (simp add: utf8_bytes_def length_utf8_char)
  show ?case
  proof (cases "uc_alphanumeric u c")
    case True
    then show ?thesis using Cons.prems l by (auto split: option.splits intro!: Cons.IH)
  next
    case False
    show ?thesis
    proof (cases run)
      case None
      then show ?thesis using False Cons.prems l by (auto intro!: Cons.IH)
    next
      case (Some start)
      then show ?thesis using False Cons.prems l by (auto intro!: spans_emit Cons.IH)
    qed
  qed
qed

lemma ascii_loop_spans: "p \<le> i \<Longrightarrow> i \<le> length text \<Longrightarrow> spans_from p (length text) (ascii_loop text i pos)"
proof (induction "text" i pos arbitrary: p rule: ascii_loop.induct)
  case (1 "text" i pos)
  let ?j = "run_end is_alnum text i"
  have j: "i \<le> ?j" "?j \<le> length text" using run_end_ge [of i is_alnum "text"] run_end_le [OF 1(4)] by auto
  show ?case using 1 j by (subst ascii_loop.simps) (auto simp: Let_def)
qed

lemma tokenize_spans:
  assumes "list_all is_scalar cs" "text = utf8_bytes cs"
  shows "spans_from 0 (length text) (tokenize u tk text)"
proof (cases tk)
  case (UnicodeTokenizer f m)
  have "chars text = cs" using assms by (simp add: chars_def utf8_decode_bytes)
  then show ?thesis using UnicodeTokenizer unicode_loop_spans [of 0 cs "length text" 0 None 0] assms(2) by simp
next
  case AsciiTokenizer
  then show ?thesis using ascii_loop_spans [of 0 0 "text"] by simp
qed

section \<open>Excerpts keep the text\<close>

definition marked :: "bytes \<Rightarrow> bytes \<Rightarrow> bool \<times> bytes \<Rightarrow> bytes" where
  "marked op cl p = (if fst p then op @ snd p @ cl else snd p)"

lemma marked_pair: "marked op cl (True, s) = op @ s @ cl" "marked op cl (False, s) = s"
  by (simp_all add: marked_def)

definition token_slice :: "bytes \<Rightarrow> token \<Rightarrow> bytes" where "token_slice text t = byte_slice text (tk_start t) (tk_stop t)"

lemma slice_drop: "a \<le> b \<Longrightarrow> byte_slice text a b @ drop b text = drop a text"
  by (simp add: byte_slice_def) (metis append_take_drop_id drop_drop le_add_diff_inverse2)

lemma mark_tokens_pieces:
  assumes "spans_from p (length text) ts"
  shows "\<exists>pieces. concat (map snd pieces) = drop p text \<and> map snd (filter fst pieces) = map (token_slice text) (filter (\<lambda>t. hit (tk_text t)) ts) \<and>
    (case mark_tokens text hit op cl ts p of (out, q) \<Rightarrow> out @ drop q text = concat (map (marked op cl) pieces))"
  using assms
proof (induction ts arbitrary: p)
  case Nil
  show ?case by (intro exI [of _ "[(False, drop p text)]"]) (simp add: marked_def)
next
  case (Cons t ts)
  show ?case
  proof (cases "hit (tk_text t)")
    case True
    obtain pieces where P: "concat (map snd pieces) = drop (tk_stop t) text"
      "map snd (filter fst pieces) = map (token_slice text) (filter (\<lambda>t. hit (tk_text t)) ts)"
      "case mark_tokens text hit op cl ts (tk_stop t) of (out, q) \<Rightarrow> out @ drop q text = concat (map (marked op cl) pieces)"
      using Cons.IH [of "tk_stop t"] Cons.prems by auto
    have d: "byte_slice text p (tk_start t) @ token_slice text t @ drop (tk_stop t) text = drop p text"
      using Cons.prems slice_drop [of "tk_start t" "tk_stop t" "text"] slice_drop [of p "tk_start t" "text"] by (simp add: token_slice_def)
    show ?thesis
      using P True d by (intro exI [of _ "(False, byte_slice text p (tk_start t)) # (True, token_slice text t) # pieces"])
        (auto simp: marked_pair token_slice_def split: prod.splits)
  next
    case False
    have "spans_from p (length text) ts" using Cons.prems spans_from_mono [of "tk_stop t" "length text" ts p] by simp
    from Cons.IH [OF this] show ?thesis using False by simp
  qed
qed

lemma highlight_pieces:
  assumes "list_all is_scalar cs" "text = utf8_bytes cs"
  obtains pieces where "concat (map snd pieces) = text" "highlight u tk text q op cl = concat (map (marked op cl) pieces)"
    "map snd (filter fst pieces) = map (token_slice text)
       (filter (\<lambda>t. token_matches (tk_text t) (highlight_targets u tk q)) (tokenize u tk text))"
proof -
  obtain out p where m: "mark_tokens text (\<lambda>t. token_matches t (highlight_targets u tk q)) op cl (tokenize u tk text) 0 = (out, p)"
    by (cases "mark_tokens text (\<lambda>t. token_matches t (highlight_targets u tk q)) op cl (tokenize u tk text) 0")
  have h: "highlight u tk text q op cl = out @ drop p text" unfolding highlight_def by (simp add: m Let_def)
  from mark_tokens_pieces [OF tokenize_spans [OF assms, of u tk], where hit = "\<lambda>t. token_matches t (highlight_targets u tk q)" and op = op and cl = cl]
  obtain pieces where "concat (map snd pieces) = text" "out @ drop p text = concat (map (marked op cl) pieces)"
    "map snd (filter fst pieces) = map (token_slice text) (filter (\<lambda>t. token_matches (tk_text t) (highlight_targets u tk q)) (tokenize u tk text))"
    by (auto simp: m)
  then show ?thesis using that h by simp
qed

end
