(* ===== verification/FtsWindow.thy ===== *)
theory FtsWindow
  imports Fts "HOL-Library.Multiset"
begin

text \<open>The sliding window of \<^verbatim>\<open>min_window_span\<close> finds the smallest span of one position of each group.\<close>

section \<open>Counters\<close>

definition live :: "nat list \<Rightarrow> nat" where "live h = card {g. g < length h \<and> 0 < h ! g}"

lemma live_le: "live h \<le> length h"
  using card_mono [of "{..<length h}" "{g. g < length h \<and> 0 < h ! g}"] by (auto simp: live_def)

lemma live_all: "live h = length h \<longleftrightarrow> (\<forall>g < length h. 0 < h ! g)"
proof
  assume "live h = length h"
  then have "{g. g < length h \<and> 0 < h ! g} = {..<length h}"
    unfolding live_def by (intro card_subset_eq) auto
  then show "\<forall>g < length h. 0 < h ! g" by auto
next
  assume "\<forall>g < length h. 0 < h ! g"
  then have "{g. g < length h \<and> 0 < h ! g} = {..<length h}" by auto
  then show "live h = length h" by (simp add: live_def)
qed

lemma live_up:
  assumes "x < length h"
  shows "live (h[x := h ! x + 1]) = (if h ! x = 0 then live h + 1 else live h)"
proof -
  have "{g. g < length (h[x := h ! x + 1]) \<and> 0 < h[x := h ! x + 1] ! g} = insert x {g. g < length h \<and> 0 < h ! g}"
    using assms by (auto simp: nth_list_update split: if_splits)
  then show ?thesis using assms unfolding live_def by (auto simp: card_insert_if)
qed

lemma live_down:
  assumes "x < length h" "0 < h ! x"
  shows "live (h[x := h ! x - 1]) = (if h ! x - 1 = 0 then live h - 1 else live h)"
proof -
  let ?h = "h[x := h ! x - 1]"
  have "?h[x := ?h ! x + 1] = h" using assms by simp
  then show ?thesis using live_up [of x ?h] assms by (auto split: if_splits)
qed

section \<open>Windows of the sorted positions\<close>

definition hits :: "(nat \<times> nat) list \<Rightarrow> nat \<Rightarrow> nat \<Rightarrow> nat \<Rightarrow> nat" where
  "hits items a b g = length (filter (\<lambda>j. snd (items ! j) = g) [a..<b])"

definition covers :: "(nat \<times> nat) list \<Rightarrow> nat \<Rightarrow> nat \<Rightarrow> nat \<Rightarrow> bool" where
  "covers items n a b \<longleftrightarrow> (\<forall>g < n. \<exists>j. a \<le> j \<and> j < b \<and> snd (items ! j) = g)"

lemma hits_pos: "0 < hits items a b g \<longleftrightarrow> (\<exists>j. a \<le> j \<and> j < b \<and> snd (items ! j) = g)"
  by (auto simp: hits_def filter_empty_conv)

lemma hits_right: "a \<le> b \<Longrightarrow> hits items a (b + 1) g = hits items a b g + (if snd (items ! b) = g then 1 else 0)"
  by (simp add: hits_def)

lemma hits_left: "a < b \<Longrightarrow> hits items a b g = (if snd (items ! a) = g then 1 else 0) + hits items (a + 1) b g"
  by (simp add: hits_def upt_conv_Cons)

lemma covers_mono: "covers items n a b \<Longrightarrow> a' \<le> a \<Longrightarrow> b \<le> b' \<Longrightarrow> covers items n a' b'"
  unfolding covers_def by (meson le_trans less_le_trans)

definition span_of :: "(nat \<times> nat) list \<Rightarrow> nat \<Rightarrow> nat \<Rightarrow> nat" where "span_of items a b = fst (items ! (b - 1)) - fst (items ! a)"

text \<open>What holds of the state: the counters are those of the window \<open>[l, r)\<close>, and the best span is attained and is at
  most that of every covering window that begins before \<open>l\<close>.\<close>

definition state_ok :: "(nat \<times> nat) list \<Rightarrow> nat \<Rightarrow> nat \<Rightarrow> window \<Rightarrow> bool" where
  "state_ok items n r w \<longleftrightarrow> wn_l w \<le> r \<and> wn_have w = map (hits items (wn_l w) r) [0..<n] \<and> wn_covered w = live (wn_have w)"

definition best_ok :: "(nat \<times> nat) list \<Rightarrow> nat \<Rightarrow> window \<Rightarrow> bool" where
  "best_ok items n w \<longleftrightarrow>
     (\<forall>a b. covers items n a b \<and> a < wn_l w \<and> b \<le> length items \<longrightarrow> (\<exists>m. wn_best w = Some m \<and> m \<le> span_of items a b)) \<and>
     (\<forall>m. wn_best w = Some m \<longrightarrow> (\<exists>a b. a < b \<and> b \<le> length items \<and> covers items n a b \<and> m = span_of items a b))"

definition items_ok :: "(nat \<times> nat) list \<Rightarrow> nat \<Rightarrow> bool" where
  "items_ok items n \<longleftrightarrow> (\<forall>j < length items. snd (items ! j) < n) \<and> 0 < n \<and> sorted (map fst items)"

lemma covered_iff: "state_ok items n r w \<Longrightarrow> wn_covered w = n \<longleftrightarrow> covers items n (wn_l w) r"
  using live_all [of "wn_have w"] by (auto simp: state_ok_def covers_def hits_pos)

lemma extend_ok:
  assumes I: "items_ok items n" and "state_ok items n r w" "r < length items"
  shows "state_ok items n (Suc r) (extend items r w)"
proof -
  let ?g = "snd (items ! r)" and ?l = "wn_l w" and ?h = "wn_have w"
  have g: "?g < length ?h" "?g < n" using assms by (simp_all add: state_ok_def items_ok_def)
  have "?h[?g := ?h ! ?g + 1] = map (hits items ?l (Suc r)) [0..<n]"
    using assms(2) g hits_right [of ?l r items] by (intro nth_equalityI) (auto simp: state_ok_def nth_list_update)
  then show ?thesis using assms(2) live_up [OF g(1)] by (simp add: state_ok_def extend_def Let_def)
qed

lemma best_extend: "best_ok items n w \<Longrightarrow> best_ok items n (extend items r w)"
  by (simp add: best_ok_def extend_def Let_def)

lemma first_le: "items_ok items n \<Longrightarrow> a \<le> b \<Longrightarrow> b < length items \<Longrightarrow> fst (items ! a) \<le> fst (items ! b)"
  unfolding items_ok_def using sorted_nth_mono [of "map fst items" a b] by simp

text \<open>One turn of the inner loop.\<close>

definition drop_left :: "(nat \<times> nat) list \<Rightarrow> nat \<Rightarrow> window \<Rightarrow> window" where
  "drop_left items r w =
     (let g = snd (items ! wn_l w); span = fst (items ! r) - fst (items ! wn_l w); h = wn_have w ! g - 1 in
      \<lparr>wn_l = wn_l w + 1, wn_have = (wn_have w)[g := h], wn_covered = (if h = 0 then wn_covered w - 1 else wn_covered w),
       wn_best = Some (case wn_best w of None \<Rightarrow> span | Some b \<Rightarrow> min b span)\<rparr>)"

lemma shrink_unfold:
  "shrink items n r w = (if wn_covered w = n \<and> wn_l w < length items then shrink items n r (drop_left items r w) else w)"
  by (subst shrink.simps) (simp add: drop_left_def Let_def case_prod_beta)

lemma drop_left_ok:
  assumes I: "items_ok items n" and S: "state_ok items n (Suc r) w" and B: "best_ok items n w"
    and N: "\<not> covers items n (wn_l w) r" and r: "r < length items" and C: "covers items n (wn_l w) (Suc r)"
  shows "state_ok items n (Suc r) (drop_left items r w) \<and> best_ok items n (drop_left items r w) \<and>
    \<not> covers items n (wn_l (drop_left items r w)) r"
proof -
  let ?l = "wn_l w" and ?h = "wn_have w" and ?w = "drop_left items r w" and ?g = "snd (items ! wn_l w)"
  have l: "?l < Suc r" using C I by (fastforce simp: covers_def items_ok_def)
  have g: "?g < length ?h" "?g < n" using I l r S by (simp_all add: items_ok_def state_ok_def)
  have h: "0 < ?h ! ?g" using S g(2) hits_left [OF l, of items ?g] by (simp add: state_ok_def)
  have "?h[?g := ?h ! ?g - 1] = map (hits items (Suc ?l) (Suc r)) [0..<n]"
    using S g hits_left [OF l, of items] by (intro nth_equalityI) (auto simp: state_ok_def nth_list_update)
  then have st: "state_ok items n (Suc r) ?w"
    using S l live_down [OF g(1) h] by (simp add: state_ok_def drop_left_def Let_def)
  obtain m where m: "wn_best ?w = Some m" "m \<le> span_of items ?l (Suc r)"
      "\<And>b. wn_best w = Some b \<Longrightarrow> m \<le> b" "m = span_of items ?l (Suc r) \<or> wn_best w = Some m"
    by (cases "wn_best w") (auto simp: drop_left_def Let_def span_of_def min_def)
  have "\<exists>m. wn_best ?w = Some m \<and> m \<le> span_of items a b" if "covers items n a b" "a < Suc ?l" "b \<le> length items" for a b
  proof (cases "a = ?l")
    case True
    have "\<not> b \<le> r" using N covers_mono [OF that(1), of ?l r] True by auto
    then have "fst (items ! r) \<le> fst (items ! (b - 1))" using that(3) by (intro first_le [OF I]) auto
    then have "m \<le> span_of items a b" using m(2) True by (simp add: span_of_def)
    then show ?thesis using m(1) by blast
  next
    case False
    then have "\<exists>k. wn_best w = Some k \<and> k \<le> span_of items a b" using B that unfolding best_ok_def by auto
    then obtain k where "wn_best w = Some k" "k \<le> span_of items a b" by blast
    then show ?thesis using m(1, 3) by fastforce
  qed
  moreover have "\<exists>a b. a < b \<and> b \<le> length items \<and> covers items n a b \<and> m = span_of items a b"
    using m(4)
  proof
    assume "m = span_of items ?l (Suc r)"
    then show ?thesis using C l r by (intro exI [of _ ?l] exI [of _ "Suc r"]) simp
  next
    assume "wn_best w = Some m"
    then show ?thesis using B unfolding best_ok_def by blast
  qed
  moreover have "wn_l ?w = Suc ?l" by (simp add: drop_left_def Let_def)
  ultimately have "best_ok items n ?w" unfolding best_ok_def using m(1) by auto
  moreover have "\<not> covers items n (wn_l ?w) r" using N covers_mono [of items n "Suc ?l" r ?l r] by (auto simp: drop_left_def Let_def)
  ultimately show ?thesis using st by blast
qed

lemma shrink_ok:
  assumes "items_ok items n" "state_ok items n (Suc r) w" "best_ok items n w" "\<not> covers items n (wn_l w) r" "r < length items"
  shows "state_ok items n (Suc r) (shrink items n r w) \<and> best_ok items n (shrink items n r w) \<and>
    \<not> covers items n (wn_l (shrink items n r w)) (Suc r)"
  using assms(2-4)
proof (induction "length items - wn_l w" arbitrary: w rule: less_induct)
  case less
  show ?case
  proof (cases "wn_covered w = n")
    case True
    then have C: "covers items n (wn_l w) (Suc r)" using covered_iff [OF less.prems(1)] by simp
    then have l: "wn_l w < length items" using assms(1, 5) by (fastforce simp: covers_def items_ok_def)
    note D = drop_left_ok [OF assms(1) less.prems assms(5) C]
    have "length items - wn_l (drop_left items r w) < length items - wn_l w" using l by (simp add: drop_left_def Let_def)
    from less.hyps [OF this] D show ?thesis using True l by (subst (1 2 3) shrink_unfold) simp
  next
    case False
    then show ?thesis using less.prems covered_iff [OF less.prems(1)] by (subst (1 2 3) shrink_unfold) simp
  qed
qed

lemma window_loop:
  assumes I: "items_ok items n" and "k \<le> length items"
  defines "w0 \<equiv> \<lparr>wn_l = 0, wn_have = replicate n 0, wn_covered = 0, wn_best = None\<rparr>"
  shows "let w = foldl (\<lambda>w r. shrink items n r (extend items r w)) w0 [0..<k] in
    state_ok items n k w \<and> best_ok items n w \<and> \<not> covers items n (wn_l w) k"
  using assms(2)
proof (induction k)
  case 0
  have "live (replicate n 0) = 0" by (simp add: live_def)
  moreover have "replicate n 0 = map (hits items 0 0) [0..<n]" by (intro nth_equalityI) (simp_all add: hits_def)
  ultimately show ?case using I by (auto simp: w0_def state_ok_def best_ok_def covers_def items_ok_def)
next
  case (Suc k)
  let ?w = "foldl (\<lambda>w r. shrink items n r (extend items r w)) w0 [0..<k]"
  have k: "k < length items" using Suc.prems by simp
  have IH: "state_ok items n k ?w" "best_ok items n ?w" "\<not> covers items n (wn_l ?w) k" using Suc by (simp_all add: Let_def)
  have "wn_l (extend items k ?w) = wn_l ?w" by (simp add: extend_def Let_def)
  then show ?case
    using shrink_ok [OF I extend_ok [OF I IH(1) k] best_extend [OF IH(2)]] IH(3) k by (simp add: Let_def)
qed

section \<open>Spans of one position of each group\<close>

definition picks :: "nat list list \<Rightarrow> nat list set" where
  "picks groups = {ps. length ps = length groups \<and> (\<forall>g < length groups. ps ! g \<in> set (groups ! g))}"

definition span :: "nat list \<Rightarrow> nat" where "span ps = Max (set ps) - Min (set ps)"

lemma set_group_items: "set (group_items groups) = {(p, g). g < length groups \<and> p \<in> set (groups ! g)}"
proof -
  have "(g, groups ! g) \<in> set (enumerate 0 groups)" if "g < length groups" for g using that by (simp add: in_set_enumerate_eq)
  then show ?thesis by (fastforce simp: group_items_def in_set_enumerate_eq)
qed

definition sorted_items :: "nat list list \<Rightarrow> (nat \<times> nat) list" where
  "sorted_items groups = sort_key fst (sort_key snd (group_items groups))"

lemma sorted_items_ok: "groups \<noteq> [] \<Longrightarrow> items_ok (sorted_items groups) (length groups)"
proof -
  assume g: "groups \<noteq> []"
  have "set (sorted_items groups) = set (group_items groups)" by (simp add: sorted_items_def)
  then have "snd (sorted_items groups ! j) < length groups" if "j < length (sorted_items groups)" for j
    using nth_mem [OF that] by (auto simp: set_group_items)
  then show ?thesis using g by (simp add: items_ok_def sorted_items_def)
qed

text \<open>A choice of positions lies in a window that is no wider, and a window holds a choice that is no wider.\<close>

lemma pick_window:
  assumes "ps \<in> picks groups" "groups \<noteq> []"
  shows "\<exists>a b. a < b \<and> b \<le> length (sorted_items groups) \<and> covers (sorted_items groups) (length groups) a b \<and>
    span_of (sorted_items groups) a b \<le> span ps"
proof -
  let ?it = "sorted_items groups" and ?n = "length groups"
  have "\<exists>j < length ?it. ?it ! j = (ps ! g, g)" if "g < ?n" for g
  proof -
    have "(ps ! g, g) \<in> set ?it" using assms(1) that by (simp add: sorted_items_def set_group_items picks_def)
    then show ?thesis by (simp add: in_set_conv_nth)
  qed
  then obtain j where j: "\<And>g. g < ?n \<Longrightarrow> j g < length ?it \<and> ?it ! j g = (ps ! g, g)" by metis
  let ?J = "j ` {..<?n}"
  have J: "finite ?J" "?J \<noteq> {}" using assms(2) by auto
  define a where "a = Min ?J"
  define b where "b = Suc (Max ?J)"
  have "a \<in> ?J" "Max ?J \<in> ?J" unfolding a_def using J by simp_all
  then obtain g h where g: "g < ?n" "a = j g" and h: "h < ?n" "b = Suc (j h)" unfolding b_def by auto
  have ab: "a \<le> j i" "j i < b" if "i < ?n" for i using J that by (simp_all add: a_def b_def less_Suc_eq_le)
  have "covers ?it ?n a b" unfolding covers_def using ab j by fastforce
  moreover have "span_of ?it a b = ps ! h - ps ! g" using j [OF g(1)] j [OF h(1)] g(2) h(2) by (simp add: span_of_def)
  moreover have "ps ! h - ps ! g \<le> span ps"
  proof -
    have "ps ! h \<in> set ps" "ps ! g \<in> set ps" using assms(1) g(1) h(1) by (simp_all add: picks_def)
    then have "ps ! h \<le> Max (set ps)" "Min (set ps) \<le> ps ! g" by simp_all
    then show ?thesis unfolding span_def by (rule diff_le_mono2 [THEN order_trans [OF diff_le_mono, rotated], rotated])
  qed
  moreover have "a < b" "b \<le> length ?it" using ab(1, 2) [OF h(1)] j [OF h(1)] h(2) by auto
  ultimately show ?thesis by metis
qed

lemma window_pick:
  assumes "covers (sorted_items groups) (length groups) a b" "groups \<noteq> []" "b \<le> length (sorted_items groups)"
  shows "\<exists>ps \<in> picks groups. span ps \<le> span_of (sorted_items groups) a b"
proof -
  let ?it = "sorted_items groups" and ?n = "length groups"
  obtain j where j: "\<And>g. g < ?n \<Longrightarrow> a \<le> j g \<and> j g < b \<and> snd (?it ! j g) = g"
    using assms(1) unfolding covers_def by metis
  define ps where "ps = map (\<lambda>g. fst (?it ! j g)) [0..<?n]"
  have m: "ps ! g \<in> set (groups ! g)" if "g < ?n" for g
  proof -
    have "?it ! j g \<in> set ?it" using j [OF that] assms(3) by simp
    then show ?thesis using j [OF that] that by (auto simp: sorted_items_def set_group_items ps_def)
  qed
  have bd: "fst (?it ! a) \<le> p \<and> p \<le> fst (?it ! (b - 1))" if "p \<in> set ps" for p
  proof -
    obtain g where g: "g < ?n" "p = fst (?it ! j g)" using \<open>p \<in> set ps\<close> by (auto simp: ps_def)
    moreover have "j g \<le> b - 1" "b - 1 < length ?it" using j [OF g(1)] assms(3) by linarith+
    ultimately show ?thesis
      using first_le [OF sorted_items_ok [OF assms(2)], of a "j g"] first_le [OF sorted_items_ok [OF assms(2)], of "j g" "b - 1"] j [OF g(1)] assms(3)
      by simp
  qed
  have "ps \<noteq> []" using assms(2) by (simp add: ps_def)
  then have "Max (set ps) \<in> set ps" "Min (set ps) \<in> set ps" by simp_all
  then have "Max (set ps) \<le> fst (?it ! (b - 1))" "fst (?it ! a) \<le> Min (set ps)" using bd by blast+
  then have "span ps \<le> span_of ?it a b" unfolding span_def span_of_def by (rule diff_le_mono2 [THEN order_trans [OF diff_le_mono, rotated], rotated])
  moreover have "ps \<in> picks groups" using m by (simp add: picks_def ps_def)
  ultimately show ?thesis by blast
qed

theorem min_window_span_least:
  assumes "groups \<noteq> []"
  shows "case min_window_span groups of
      None \<Rightarrow> picks groups = {}
    | Some m \<Rightarrow> (\<exists>ps \<in> picks groups. span ps = m) \<and> (\<forall>ps \<in> picks groups. m \<le> span ps)"
proof (cases "[] \<in> set groups")
  case True
  then have "picks groups = {}" by (fastforce simp: picks_def in_set_conv_nth)
  then show ?thesis using True by (simp add: min_window_span_def)
next
  case False
  let ?it = "sorted_items groups" and ?n = "length groups" and ?N = "length (sorted_items groups)"
  define w where "w = foldl (\<lambda>w r. shrink ?it ?n r (extend ?it r w))
    \<lparr>wn_l = 0, wn_have = replicate ?n 0, wn_covered = 0, wn_best = None\<rparr> [0..<?N]"
  have m: "min_window_span groups = wn_best w"
    using False by (simp add: min_window_span_def Let_def w_def sorted_items_def)
  have W: "best_ok ?it ?n w" "\<not> covers ?it ?n (wn_l w) ?N"
    using window_loop [OF sorted_items_ok [OF assms] order_refl] unfolding w_def Let_def by blast+
  have all: "\<exists>m. wn_best w = Some m \<and> m \<le> span_of ?it a b" if c: "covers ?it ?n a b" "b \<le> ?N" for a b
  proof -
    have "a < wn_l w" using W(2) covers_mono [OF c(1), of "wn_l w" ?N] c(2) by (meson not_less)
    then show ?thesis using W(1) c unfolding best_ok_def by blast
  qed
  have low: "\<exists>m. wn_best w = Some m \<and> m \<le> span ps" if "ps \<in> picks groups" for ps
    using pick_window [OF that assms] all by (meson le_trans)
  show ?thesis
  proof (cases "wn_best w")
    case None
    then show ?thesis using low m by auto
  next
    case (Some k)
    then obtain a b where "b \<le> ?N" "covers ?it ?n a b" "k = span_of ?it a b" using W(1) unfolding best_ok_def by blast
    then obtain ps where ps: "ps \<in> picks groups" "span ps \<le> k" using window_pick [OF _ assms, of a b] by auto
    then have "span ps = k" using low [OF ps(1)] Some by auto
    then show ?thesis using ps(1) low Some m by auto
  qed
qed

end
