(* ===== verification/FtsProps.thy ===== *)
theory FtsProps
  imports FtsLaws FtsWindow
begin

text \<open>The properties of full-text search, each with an instance at a concrete input.\<close>

text \<open>C30: Parsing a MATCH query returns on every text: the recursion of the grammar ends, with a query or an error.\<close>

theorem match_query_returns: "\<exists>r. parse_query input = Some r"
  by (rule parse_query_returns)

text \<open>C28: The sliding window that evaluates NEAR finds the smallest span: the result is attained by one position of
  each group and no choice of positions spans less; there is no result exactly when some group is empty.\<close>

theorem near_span_is_least:
  assumes "groups \<noteq> []"
  shows "case min_window_span groups of
      None \<Rightarrow> picks groups = {}
    | Some m \<Rightarrow> (\<exists>ps \<in> picks groups. span ps = m) \<and> (\<forall>ps \<in> picks groups. m \<le> span ps)"
  using assms by (rule min_window_span_least)

lemma near_span_is_least_witness:
  "min_window_span [[1, 9], [4, 20], [11]] = Some 7 \<and> (\<exists>ps \<in> picks [[1, 9], [4, 20], [11]]. span ps = 7)"
proof -
  have "min_window_span [[1, 9], [4, 20], [11]] = Some 7" by code_simp
  then show ?thesis using near_span_is_least [of "[[1, 9], [4, 20], [11]]"] by simp
qed

text \<open>C29: Highlighting only inserts the marks: the text is cut into pieces, the marks surround exactly the tokens that
  match the query, in order, and without the marks the text is unchanged, whatever the tokenizer.\<close>

theorem highlight_only_marks:
  assumes "list_all is_scalar cs"
  shows "\<exists>pieces. concat (map snd pieces) = utf8_bytes cs \<and>
    highlight u tk (utf8_bytes cs) q op cl = concat (map (marked op cl) pieces) \<and>
    map snd (filter fst pieces) = map (token_slice (utf8_bytes cs))
       (filter (\<lambda>t. token_matches (tk_text t) (highlight_targets u tk q)) (tokenize u tk (utf8_bytes cs)))"
  by (rule highlight_pieces [OF assms refl, of u tk q op cl]) blast

definition ascii_tables :: unicode where
  "ascii_tables = \<lparr>uc_alphanumeric = (\<lambda>c. 48 \<le> c \<and> c \<le> 57 \<or> 65 \<le> c \<and> c \<le> 90 \<or> 97 \<le> c \<and> c \<le> 122),
     uc_lowercase = (\<lambda>c. [if 65 \<le> c \<and> c \<le> 90 then c + 32 else c]),
     us_lowercase = map (\<lambda>c. if 65 \<le> c \<and> c \<le> 90 then c + 32 else c),
     us_uppercase = map (\<lambda>c. if 97 \<le> c \<and> c \<le> 122 then c - 32 else c)\<rparr>"

lemma highlight_only_marks_witness:
  "\<exists>pieces. concat (map snd pieces) = utf8_bytes [97, 32, 0xE9] \<and>
    highlight ascii_tables AsciiTokenizer (utf8_bytes [97, 32, 0xE9]) (QTerm [97] False) [60] [62] = concat (map (marked [60] [62]) pieces) \<and>
    map snd (filter fst pieces) = map (token_slice (utf8_bytes [97, 32, 0xE9]))
       (filter (\<lambda>t. token_matches (tk_text t) (highlight_targets ascii_tables AsciiTokenizer (QTerm [97] False)))
         (tokenize ascii_tables AsciiTokenizer (utf8_bytes [97, 32, 0xE9])))"
  by (rule highlight_only_marks) (simp add: is_scalar_def)

text \<open>The merges of sorted row identifiers that combine the candidates of a query compute intersection, union and
  difference, and their results are again sorted and free of duplicates.\<close>

theorem candidate_merges_correct:
  assumes "sorted_wrt (<) as" "sorted_wrt (<) bs"
  shows "set (intersect_sorted as bs) = set as \<inter> set bs \<and> sorted_wrt (<) (intersect_sorted as bs) \<and>
    set (union_sorted as bs) = set as \<union> set bs \<and> sorted_wrt (<) (union_sorted as bs) \<and>
    set (difference_sorted as bs) = set as - set bs \<and> sorted_wrt (<) (difference_sorted as bs)"
  using assms by (simp add: intersect_sorted_set union_sorted_set difference_sorted_set
      intersect_sorted_sorted union_sorted_sorted difference_sorted_sorted)

lemma candidate_merges_correct_witness:
  "intersect_sorted [1, 3, 5] [3, 4] = [3] \<and> set (union_sorted [1, 3, 5] [3, 4]) = {1, 3, 5} \<union> {3, 4 :: int}"
  using candidate_merges_correct [of "[1, 3, 5]" "[3, 4]"] by simp

end
