(* ===== verification/Vectors.thy ===== *)
theory Vectors
  imports Floats
begin

text \<open>
  Vectors stored in blobs and their distances (\<^verbatim>\<open>src/vector.rs\<close>).  A vector is the list of the bit patterns of its
  components; the sums are in the order of the code, which fixes every rounding.
\<close>

type_synonym vec = "u32 list"

definition TAG_F32 :: u8 where "TAG_F32 = 0"
definition TAG_I8 :: u8 where "TAG_I8 = 1"

definition f32_from_le :: "bytes \<Rightarrow> u32" where "f32_from_le b = of_nat (le_val b)"

section \<open>Packing\<close>

definition pack_f32 :: "vec \<Rightarrow> bytes" where "pack_f32 vals = TAG_F32 # concat (map u32_le vals)"

text \<open>\<^verbatim>\<open>f32::max\<close> and \<^verbatim>\<open>f32::clamp\<close>; a NaN is dropped by the first and kept by the second.\<close>

definition f32_less :: "u32 \<Rightarrow> u32 \<Rightarrow> bool" where "f32_less a b \<longleftrightarrow> f32_cmp a b = Some OLess"

definition f32_max :: "u32 \<Rightarrow> u32 \<Rightarrow> u32" where
  "f32_max a b = (if d32 a = Nan then b else if d32 b = Nan then a else if f32_less a b then b else a)"

definition f32_clamp :: "u32 \<Rightarrow> u32 \<Rightarrow> u32 \<Rightarrow> u32" where
  "f32_clamp lo hi x = (let x = (if f32_less x lo then lo else x) in if f32_less hi x then hi else x)"

definition i8_scale :: "vec \<Rightarrow> u32" where
  "i8_scale vals = f32_div (foldl (\<lambda>m v. f32_max m (f32_abs_val v)) 0 vals) (f32_of_int 127)"

definition quantize :: "u32 \<Rightarrow> u32 \<Rightarrow> u8" where
  "quantize scale v =
     (if f32_less 0 scale then f32_to_i8 (f32_clamp (f32_of_int (- 127)) (f32_of_int 127) (f32_half_away (f32_div v scale))) else 0)"

definition pack_i8 :: "vec \<Rightarrow> bytes" where
  "pack_i8 vals = (let scale = i8_scale vals in TAG_I8 # u32_le scale @ map (quantize scale) vals)"

text \<open>Sums of doubles start at zero and go from left to right.\<close>

definition f64_sum :: "u64 list \<Rightarrow> u64" where "f64_sum xs = foldl f64_add 0 xs"
definition f32_sum :: "u32 list \<Rightarrow> u32" where "f32_sum xs = foldl f32_add 0 xs"

definition normalize :: "vec \<Rightarrow> vec" where
  "normalize v =
     (let norm = f32_of_f64 (f64_sqrt (f64_sum (map (\<lambda>x. f64_mul (f64_of_f32 x) (f64_of_f32 x)) v))) in
      if f32_cmp norm 0 = Some OEqual then v else map (\<lambda>x. f32_div x norm) v)"

section \<open>Unpacking\<close>

fun chunks4 :: "bytes \<Rightarrow> bytes list" where
  "chunks4 (a # b # c # d # r) = [a, b, c, d] # chunks4 r"
| "chunks4 _ = []"

definition i8_component :: "u32 \<Rightarrow> u8 \<Rightarrow> u32" where "i8_component scale q = f32_mul (f32_of_int (sint q)) scale"

definition unpack :: "bytes \<Rightarrow> vec res" where
  "unpack b = (case b of
       [] \<Rightarrow> Inl (InvalidInput ''BLOB de vector con tag desconocido'')
     | t # rest \<Rightarrow>
         if t = TAG_F32 then
           (if length rest mod 4 \<noteq> 0 then Inl (InvalidInput ''BLOB de vector f32 mal formado'')
            else Inr (map f32_from_le (chunks4 rest)))
         else if t = TAG_I8 then
           (case get_range rest 0 4 of
              None \<Rightarrow> Inl (InvalidInput ''BLOB de vector int8 sin escala'')
            | Some sb \<Rightarrow> Inr (map (i8_component (f32_from_le sb)) (drop 4 rest)))
         else Inl (InvalidInput ''BLOB de vector con tag desconocido''))"

definition to_f32 :: "bytes \<Rightarrow> vec res" where "to_f32 = unpack"

section \<open>Reading the components in place\<close>

datatype vector_fmt = FmtF32 bytes | FmtI8 u32 bytes

definition parse_fmt :: "bytes \<Rightarrow> (nat \<times> vector_fmt) res" where
  "parse_fmt b = (case b of
       [] \<Rightarrow> Inl (InvalidInput ''BLOB de vector con tag desconocido'')
     | t # rest \<Rightarrow>
         if t = TAG_F32 then
           (if length rest mod 4 \<noteq> 0 then Inl (InvalidInput ''BLOB de vector f32 mal formado'')
            else Inr (length rest div 4, FmtF32 rest))
         else if t = TAG_I8 then
           (case get_range rest 0 4 of
              None \<Rightarrow> Inl (InvalidInput ''BLOB de vector int8 sin escala'')
            | Some sb \<Rightarrow> Inr (length rest - 4, FmtI8 (f32_from_le sb) (drop 4 rest)))
         else Inl (InvalidInput ''BLOB de vector con tag desconocido''))"

fun fmt_at :: "vector_fmt \<Rightarrow> nat \<Rightarrow> u32" where
  "fmt_at (FmtF32 b) i = f32_from_le [b ! (i * 4), b ! (i * 4 + 1), b ! (i * 4 + 2), b ! (i * 4 + 3)]"
| "fmt_at (FmtI8 scale q) i = i8_component scale (q ! i)"

definition sums_step :: "u64 \<times> u64 \<times> u64 \<Rightarrow> u32 \<times> u32 \<Rightarrow> u64 \<times> u64 \<times> u64" where
  "sums_step acc xy = (case acc of (sa, sb, sab) \<Rightarrow> case xy of (x, y) \<Rightarrow>
     (f64_add sa (f64_of_f32 (f32_mul x x)), f64_add sb (f64_of_f32 (f32_mul y y)), f64_add sab (f64_of_f32 (f32_mul x y))))"

definition same_dim :: "bytes \<Rightarrow> bytes \<Rightarrow> (nat \<times> vector_fmt \<times> vector_fmt) res" where
  "same_dim a b = rbind (parse_fmt a) (\<lambda>(da, fa). rbind (parse_fmt b) (\<lambda>(db, fb).
     if da \<noteq> db then Inl (InvalidInput ''vectores de distinta dimension'') else Inr (da, fa, fb)))"

definition three_sums :: "bytes \<Rightarrow> bytes \<Rightarrow> (u64 \<times> u64 \<times> u64) res" where
  "three_sums a b = rbind (same_dim a b) (\<lambda>(d, fa, fb).
     Inr (foldl sums_step (0, 0, 0) (map (\<lambda>i. (fmt_at fa i, fmt_at fb i)) [0..<d])))"

definition dot :: "bytes \<Rightarrow> bytes \<Rightarrow> u64 res" where
  "dot a b = rbind (three_sums a b) (\<lambda>(_, _, sab). Inr sab)"

definition l2_distance :: "bytes \<Rightarrow> bytes \<Rightarrow> u64 res" where
  "l2_distance a b = rbind (same_dim a b) (\<lambda>(d, fa, fb).
     Inr (f64_sqrt (foldl (\<lambda>s i. let d = f64_of_f32 (f32_sub (fmt_at fa i) (fmt_at fb i)) in f64_add s (f64_mul d d)) 0 [0..<d])))"

definition F64_ONE :: u64 where "F64_ONE = 0x3FF0000000000000"

definition cosine_distance :: "bytes \<Rightarrow> bytes \<Rightarrow> u64 res" where
  "cosine_distance a b = rbind (three_sums a b) (\<lambda>(sa, sb, sab).
     if f64_cmp sa 0 = Some OEqual \<or> f64_cmp sb 0 = Some OEqual then Inr F64_ONE
     else Inr (f64_sub F64_ONE (f64_div sab (f64_mul (f64_sqrt sa) (f64_sqrt sb)))))"

section \<open>The kernels with eight accumulators\<close>

text \<open>One chunk of eight terms goes to the eight accumulators; the rest is added at the end.\<close>

function lanes :: "u32 list \<Rightarrow> u32 list \<Rightarrow> u32 list \<times> u32 list" where
  "lanes acc ts = (if 8 \<le> length ts then lanes (map2 f32_add acc (take 8 ts)) (drop 8 ts) else (acc, ts))"
  by pat_completeness auto
termination by (relation "measure (\<lambda>(_, ts). length ts)") auto

declare lanes.simps [simp del]

definition lane_sum :: "u32 list \<Rightarrow> u32" where
  "lane_sum ts = (case lanes (replicate 8 0) ts of (acc, r) \<Rightarrow> foldl f32_add (f32_sum acc) r)"

definition dot_f32 :: "vec \<Rightarrow> vec \<Rightarrow> u32" where "dot_f32 a b = lane_sum (map2 f32_mul a b)"

definition sq_diff :: "u32 \<Rightarrow> u32 \<Rightarrow> u32" where "sq_diff x y = (let d = f32_sub x y in f32_mul d d)"

definition l2_sq :: "vec \<Rightarrow> vec \<Rightarrow> u32" where "l2_sq a b = lane_sum (map2 sq_diff a b)"

definition l2_sq_packed_i8 :: "bytes \<Rightarrow> vec \<Rightarrow> u32 option" where
  "l2_sq_packed_i8 packed query =
     (if get_at packed 0 \<noteq> Some TAG_I8 \<or> length packed < 5 then None
      else let scale = f32_from_le (take 4 (drop 1 packed)); q = drop 5 packed in
        if length q \<noteq> length query then None
        else Some (lane_sum (map2 (\<lambda>c e. sq_diff (i8_component scale c) e) q query)))"

section \<open>Laws\<close>

lemma f32_from_le_u32_le [simp]: "f32_from_le (u32_le w) = w"
  by (simp add: f32_from_le_def le_val_u32_le)

lemma four_elements: "length xs = Suc (Suc (Suc (Suc 0))) \<Longrightarrow> \<exists>a b c d. xs = [a, b, c, d]"
  by (auto simp: length_Suc_conv)

lemma u32_le_cases: obtains a b c d where "u32_le w = [a, b, c, d]"
  using four_elements [of "u32_le w"] that by (auto simp: u32_le_def length_nat_le)

lemma chunks4_u32: "map f32_from_le (chunks4 (concat (map u32_le vs))) = vs"
proof (induction vs)
  case (Cons v vs)
  obtain a b c d where e: "u32_le v = [a, b, c, d]" by (rule u32_le_cases)
  have "f32_from_le [a, b, c, d] = v" unfolding e [symmetric] by simp
  then show ?case using Cons by (simp add: e)
qed simp

lemma length_concat_u32: "length (concat (map u32_le vs)) = 4 * length vs"
  by (induction vs) simp_all

text \<open>Packing keeps the components.\<close>

lemma unpack_pack_f32: "unpack (pack_f32 vs) = Inr vs"
  by (simp add: unpack_def pack_f32_def length_concat_u32 chunks4_u32 TAG_F32_def)

lemma unpack_pack_i8: "unpack (pack_i8 vs) = Inr (map (\<lambda>v. i8_component (i8_scale vs) (quantize (i8_scale vs) v)) vs)"
  by (simp add: unpack_def pack_i8_def Let_def get_range_def TAG_I8_def TAG_F32_def)

lemma length_chunks4: "length (chunks4 b) = length b div 4"
  by (induction b rule: chunks4.induct) simp_all

lemma chunks4_nth: "i < length b div 4 \<Longrightarrow> chunks4 b ! i = [b ! (i * 4), b ! (i * 4 + 1), b ! (i * 4 + 2), b ! (i * 4 + 3)]"
proof (induction b arbitrary: i rule: chunks4.induct)
  case (1 a b c d r)
  then show ?case by (cases i) (simp_all add: add.commute)
qed simp_all

text \<open>Reading in place is reading the unpacked vector.\<close>

lemma parse_fmt_unpack:
  "case parse_fmt b of
     Inl e \<Rightarrow> unpack b = Inl e
   | Inr (d, f) \<Rightarrow> \<exists>v. unpack b = Inr v \<and> length v = d \<and> (\<forall>i < d. fmt_at f i = v ! i)"
proof (cases b)
  case (Cons t rest)
  have "fmt_at (FmtF32 rest) i = map f32_from_le (chunks4 rest) ! i" if "i < length rest div 4" for i
    using that by (simp add: chunks4_nth length_chunks4)
  then show ?thesis using Cons
    by (auto simp: parse_fmt_def unpack_def length_chunks4 get_range_def TAG_F32_def TAG_I8_def split: if_splits)
qed (simp add: parse_fmt_def unpack_def)

lemma same_dim_unpack:
  "case same_dim a b of
     Inl e \<Rightarrow> (\<forall>x y. unpack a = Inr x \<longrightarrow> unpack b = Inr y \<longrightarrow> length x \<noteq> length y)
   | Inr (d, fa, fb) \<Rightarrow> \<exists>x y. unpack a = Inr x \<and> unpack b = Inr y \<and> length x = d \<and> length y = d \<and>
       (\<forall>i < d. fmt_at fa i = x ! i \<and> fmt_at fb i = y ! i)"
  using parse_fmt_unpack [of a] parse_fmt_unpack [of b]
  by (auto simp: same_dim_def split: sum.splits prod.splits if_splits)

lemma three_sums_unpack:
  assumes "unpack a = Inr x" "unpack b = Inr y" "length x = length y"
  shows "three_sums a b = Inr (foldl sums_step (0, 0, 0) (zip x y))"
proof -
  obtain d fa fb where s: "same_dim a b = Inr (d, fa, fb)" "length x = d" "length y = d" "\<forall>i < d. fmt_at fa i = x ! i \<and> fmt_at fb i = y ! i"
    using same_dim_unpack [of a b] assms by (auto split: sum.splits prod.splits)
  have "map (\<lambda>i. (fmt_at fa i, fmt_at fb i)) [0..<d] = zip x y" using s by (intro nth_equalityI) simp_all
  then show ?thesis by (simp add: three_sums_def s(1))
qed

text \<open>The kernel that reads the packed bytes computes what the general one computes on the unpacked vector, to the bit.\<close>

lemma l2_sq_packed_unpack:
  "l2_sq_packed_i8 b q = (case unpack b of
       Inl _ \<Rightarrow> None
     | Inr v \<Rightarrow> if get_at b 0 = Some TAG_I8 \<and> length v = length q then Some (l2_sq v q) else None)"
proof (cases b)
  case (Cons t rest)
  have "map2 (\<lambda>c e. sq_diff (i8_component s c) e) p q = map2 sq_diff (map (i8_component s) p) q" for s p
    by (simp add: zip_map1 case_prod_beta comp_def)
  then show ?thesis using Cons
    by (auto simp: l2_sq_packed_i8_def unpack_def l2_sq_def get_at_def get_range_def Let_def TAG_F32_def TAG_I8_def)
qed (simp add: l2_sq_packed_i8_def unpack_def get_at_def)

end
