(* ===== verification/Ivf.thy ===== *)
theory Ivf
  imports Vectors
begin

text \<open>
  Approximate nearest neighbours: the inverted file (\<^verbatim>\<open>src/ivf.rs\<close>) and product quantisation (\<^verbatim>\<open>src/pq.rs\<close>).  The
  number of threads is the parameter \<open>nt\<close>; the slices that they fill are disjoint, so the parallel result is their
  concatenation.
\<close>

section \<open>Nearest centroid\<close>

definition F32_INF :: u32 where "F32_INF = 0x7F800000"

definition nearest_step :: "(vec \<Rightarrow> u32) \<Rightarrow> nat \<times> u32 \<Rightarrow> nat \<times> vec \<Rightarrow> nat \<times> u32" where
  "nearest_step df bst ic = (case ic of (i, c) \<Rightarrow> let d = df c in if f32_less d (snd bst) then (i, d) else bst)"

definition nearest :: "vec list \<Rightarrow> vec \<Rightarrow> nat" where
  "nearest centroids v = fst (foldl (nearest_step (\<lambda>c. l2_sq c v)) (0, F32_INF) (enumerate 0 centroids))"

function slices :: "nat \<Rightarrow> 'a list \<Rightarrow> 'a list list" where
  "slices n xs = (if xs = [] \<or> n = 0 then [] else take n xs # slices n (drop n xs))"
  by pat_completeness auto
termination by (relation "measure (\<lambda>(_, xs). length xs)") auto

declare slices.simps [simp del]

definition div_ceil :: "nat \<Rightarrow> nat \<Rightarrow> nat" where "div_ceil a b = (a + b - 1) div b"

definition nearest_all :: "nat \<Rightarrow> vec list \<Rightarrow> vec list \<Rightarrow> nat list" where
  "nearest_all nt points centroids =
     (if nt \<le> 1 \<or> length points < 4096 then map (nearest centroids) points
      else concat (map (map (nearest centroids)) (slices (div_ceil (length points) nt) points)))"

section \<open>Training\<close>

definition xorshift :: "u64 \<Rightarrow> u64" where
  "xorshift st = (let st = st XOR push_bit 13 st; st = st XOR drop_bit 7 st in st XOR push_bit 17 st)"

definition train_seed :: "nat \<Rightarrow> nat \<Rightarrow> nat \<Rightarrow> u64" where
  "train_seed n k width =
     0x9E3779B97F4A7C15 XOR of_nat n * 0x0100000001b3 XOR push_bit 40 (of_nat k) XOR of_nat width"

text \<open>A draw gives the number and the next state, which are the same.\<close>

fun sample_loop :: "vec list \<Rightarrow> nat \<Rightarrow> nat list \<Rightarrow> u64 \<Rightarrow> vec list \<times> u64" where
  "sample_loop vectors stride (i # is) st =
     (let st = xorshift st; r = sample_loop vectors stride is st in
      (vectors ! ((i * stride + unat st mod stride) mod length vectors) # fst r, snd r))"
| "sample_loop vectors stride [] st = ([], st)"

definition train_sample :: "vec list \<Rightarrow> nat \<Rightarrow> u64 \<Rightarrow> vec list \<times> u64" where
  "train_sample vectors k st =
     (let n = length vectors; cap = max (min (k * 256) (2 ^ 64 - 1)) 4096 in
      if n \<le> cap then (vectors, st) else sample_loop vectors (n div cap) [0..<cap] st)"

text \<open>The choice of the next centroid, with probability proportional to the squared distance.\<close>

fun pick_loop :: "u64 \<Rightarrow> u32 list \<Rightarrow> nat \<Rightarrow> nat option" where
  "pick_loop t (x # xs) i =
     (let t = f64_sub t (f64_of_f32 x) in if f64_cmp t 0 \<in> {Some OLess, Some OEqual} then Some i else pick_loop t xs (i + 1))"
| "pick_loop t [] i = None"

definition pick_next :: "u32 list \<Rightarrow> u64 \<Rightarrow> nat \<times> u64" where
  "pick_next d2 st =
     (let tot = f64_sum (map f64_of_f32 d2); st = xorshift st; m = length d2 in
      if f64_cmp tot 0 \<in> {Some OLess, Some OEqual} then (unat st mod m, st)
      else (case pick_loop (f64_mul (f64_div (f64_of_u64 st) (f64_of_u64 (- 1))) tot) d2 0 of
              Some p \<Rightarrow> p | None \<Rightarrow> m - 1, st))"

fun init_loop :: "nat \<Rightarrow> vec list \<Rightarrow> vec list \<Rightarrow> u32 list \<Rightarrow> u64 \<Rightarrow> vec list" where
  "init_loop 0 sample centroids d2 st = centroids"
| "init_loop (Suc r) sample centroids d2 st =
     (case pick_next d2 st of (p, st) \<Rightarrow>
      let c = sample ! p in
      init_loop r sample (centroids @ [c]) (map2 (\<lambda>v d. let dd = l2_sq v c in if f32_less dd d then dd else d) sample d2) st)"

definition init_centroids :: "nat \<Rightarrow> vec list \<Rightarrow> u64 \<Rightarrow> vec list" where
  "init_centroids k sample st =
     (let st = xorshift st; c = sample ! (unat st mod length sample) in
      init_loop (k - 1) sample [c] (map (\<lambda>v. l2_sq v c) sample) st)"

definition add_into :: "u64 list \<Rightarrow> vec \<Rightarrow> u64 list" where
  "add_into s v = map2 (\<lambda>s x. f64_add s (f64_of_f32 x)) s v @ drop (length v) s"

definition cluster_sums :: "nat \<Rightarrow> nat \<Rightarrow> (vec \<times> nat) list \<Rightarrow> (u64 list \<times> nat) list" where
  "cluster_sums k width assigned =
     foldl (\<lambda>acc (v, c). case acc ! c of (s, n) \<Rightarrow> acc[c := (add_into s v, n + 1)]) (replicate k (replicate width 0, 0)) assigned"

definition f32_same :: "u32 \<Rightarrow> u32 \<Rightarrow> bool" where "f32_same a b \<longleftrightarrow> f32_cmp a b = Some OEqual"

definition new_centroid :: "vec \<Rightarrow> u64 list \<times> nat \<Rightarrow> vec" where
  "new_centroid old sn =
     (case sn of (s, n) \<Rightarrow>
      if n = 0 then old
      else let c = map (\<lambda>x. f32_of_f64 (f64_div x (f64_of_u64 (of_nat n)))) s in
        if list_all2 f32_same c old then old else c)"

text \<open>The code stops when no centroid changed; with a NaN it goes on, and computes the same centroids again.\<close>

definition lloyd_step :: "nat \<Rightarrow> nat \<Rightarrow> vec list \<Rightarrow> vec list \<Rightarrow> vec list" where
  "lloyd_step nt width sample centroids =
     map2 new_centroid centroids (cluster_sums (length centroids) width (zip sample (nearest_all nt sample centroids)))"

fun lloyd :: "nat \<Rightarrow> nat \<Rightarrow> nat \<Rightarrow> vec list \<Rightarrow> vec list \<Rightarrow> vec list" where
  "lloyd nt width 0 sample centroids = centroids"
| "lloyd nt width (Suc r) sample centroids =
     (let cs = lloyd_step nt width sample centroids in if cs = centroids then centroids else lloyd nt width r sample cs)"

definition train :: "nat \<Rightarrow> vec list \<Rightarrow> nat \<Rightarrow> nat \<Rightarrow> vec list" where
  "train nt vectors k max_iters =
     (let n = length vectors in
      if n = 0 then []
      else let k = max 1 (min n k); width = length (hd vectors) in
        case train_sample vectors k (train_seed n k width) of (sample, st) \<Rightarrow>
          lloyd nt width max_iters sample (init_centroids k sample st))"

section \<open>Inverted postings and search\<close>

definition assign_lists :: "nat \<Rightarrow> vec list \<Rightarrow> vec list \<Rightarrow> nat list list" where
  "assign_lists nt vectors centroids =
     foldl (\<lambda>postings (i, c). postings[c := postings ! c @ [i]]) (replicate (length centroids) [])
       (enumerate 0 (nearest_all nt vectors centroids))"

text \<open>\<^verbatim>\<open>f32::total_cmp\<close> orders by an integer key of the bits.\<close>

definition total_key :: "u32 \<Rightarrow> int" where "total_key b = (if bit b 31 then - uint (b AND 0x7FFFFFFF) - 1 else uint b)"

definition search :: "vec \<Rightarrow> vec list \<Rightarrow> nat list list \<Rightarrow> vec list \<Rightarrow> nat \<Rightarrow> nat \<Rightarrow> nat list" where
  "search query centroids postings vectors nprobe top_k =
     (let cents = sort_key (\<lambda>(d, i). total_key d) (map (\<lambda>(i, c). (l2_sq c query, i)) (enumerate 0 centroids));
          probe = max 1 (min (max (length cents) 1) nprobe);
          cands = concat (map (\<lambda>(_, ci). map (\<lambda>idx. (l2_sq (vectors ! idx) query, idx)) (postings ! ci)) (take probe cents))
      in map snd (take top_k (sort_key (\<lambda>(d, i). total_key d) cands)))"

section \<open>Product quantisation\<close>

definition PQ_K :: nat where "PQ_K = 256"

record pq =
  pq_m :: nat
  pq_dim :: nat
  pq_bounds :: "nat list"
  pq_codebooks :: "vec list list"

definition pq_bounds_of :: "nat \<Rightarrow> nat \<Rightarrow> nat list" where "pq_bounds_of m width = map (\<lambda>i. i * width div max m 1) [0..<m + 1]"

definition sub_vector :: "nat list \<Rightarrow> nat \<Rightarrow> vec \<Rightarrow> vec" where
  "sub_vector bounds s v = take (bounds ! (s + 1) - bounds ! s) (drop (bounds ! s) v)"

definition pq_train :: "nat \<Rightarrow> vec list \<Rightarrow> nat \<Rightarrow> nat \<Rightarrow> pq" where
  "pq_train nt vectors m iters =
     (let width = (case vectors of [] \<Rightarrow> 0 | v # _ \<Rightarrow> length v); m = max 1 (min (max width 1) m); bounds = pq_bounds_of m width in
      \<lparr>pq_m = m, pq_dim = width, pq_bounds = bounds,
       pq_codebooks = map (\<lambda>s. train nt (map (sub_vector bounds s) vectors) PQ_K iters) [0..<m]\<rparr>)"

definition pq_encode :: "pq \<Rightarrow> vec \<Rightarrow> bytes" where
  "pq_encode q v = map (\<lambda>s. let sub = sub_vector (pq_bounds q) s v in
     of_nat (fst (foldl (nearest_step (l2_sq sub)) (0, F32_INF) (enumerate 0 (pq_codebooks q ! s))))) [0..<pq_m q]"

definition pq_encode_all :: "nat \<Rightarrow> pq \<Rightarrow> vec list \<Rightarrow> bytes list" where
  "pq_encode_all nt q vectors =
     (if nt \<le> 1 \<or> length vectors < 4096 then map (pq_encode q) vectors
      else concat (map (map (pq_encode q)) (slices (div_ceil (length vectors) nt) vectors)))"

definition adc_table :: "pq \<Rightarrow> vec \<Rightarrow> u32 list list" where
  "adc_table q query = map (\<lambda>s. map (l2_sq (sub_vector (pq_bounds q) s query)) (pq_codebooks q ! s)) [0..<pq_m q]"

definition adc_distance :: "u32 list list \<Rightarrow> bytes \<Rightarrow> u32" where
  "adc_distance table code = f32_sum (map2 (\<lambda>c row. row ! unat c) code table)"

definition put_codebook :: "vec list \<Rightarrow> bytes" where
  "put_codebook cb = u16_le (of_nat (length cb)) @ concat (map (\<lambda>c. concat (map u32_le c)) cb)"

definition pq_to_bytes :: "pq \<Rightarrow> bytes" where
  "pq_to_bytes q = u16_le (of_nat (pq_m q)) @ u16_le (of_nat (pq_dim q)) @ concat (map put_codebook (pq_codebooks q))"

fun get_centroids :: "nat \<Rightarrow> nat \<Rightarrow> bytes \<Rightarrow> nat \<Rightarrow> (vec list \<times> nat) option" where
  "get_centroids 0 sub_dim b pos = Some ([], pos)"
| "get_centroids (Suc n) sub_dim b pos =
     (if length b < pos + sub_dim * 4 then None
      else Option.bind (get_centroids n sub_dim b (pos + sub_dim * 4)) (\<lambda>(cs, p).
        Some (map f32_from_le (chunks4 (take (sub_dim * 4) (drop pos b))) # cs, p)))"

fun get_codebooks :: "nat list \<Rightarrow> bytes \<Rightarrow> nat \<Rightarrow> vec list list option" where
  "get_codebooks (sub_dim # ds) b pos =
     Option.bind (get_at b pos) (\<lambda>lo. Option.bind (get_at b (pos + 1)) (\<lambda>hi.
     Option.bind (get_centroids (le_val [lo, hi]) sub_dim b (pos + 2)) (\<lambda>(cb, pos).
     Option.bind (get_codebooks ds b pos) (\<lambda>cbs. Some (cb # cbs)))))"
| "get_codebooks [] b pos = Some []"

definition pq_from_bytes :: "bytes \<Rightarrow> pq option" where
  "pq_from_bytes b =
     (if length b < 4 then None
      else let m = le_val (take 2 b); width = le_val (take 2 (drop 2 b)); bounds = pq_bounds_of m width in
        map_option (\<lambda>cbs. \<lparr>pq_m = m, pq_dim = width, pq_bounds = bounds, pq_codebooks = cbs\<rparr>)
          (get_codebooks (map (\<lambda>s. bounds ! (s + 1) - bounds ! s) [0..<m]) b 4))"

end
