(* ===== verification/IvfLaws.thy ===== *)
theory IvfLaws
  imports Ivf "HOL-Library.Multiset"
begin

text \<open>What training, search and quantisation promise: shapes, exactness with every cluster probed, and the stored codebooks.\<close>

section \<open>Slices\<close>

lemma concat_slices: "0 < n \<Longrightarrow> concat (slices n xs) = xs"
proof (induction n xs rule: slices.induct)
  case (1 n xs)
  then show ?case by (subst slices.simps) simp
qed

lemma div_ceil_pos: "0 < a \<Longrightarrow> 0 < b \<Longrightarrow> 0 < div_ceil a b"
  by (simp add: div_ceil_def div_greater_zero_iff)

lemma map_slices: "0 < n \<Longrightarrow> concat (map (map f) (slices n xs)) = map f xs"
  by (simp add: map_concat [symmetric] concat_slices)

text \<open>The result does not depend on the number of threads.\<close>

lemma nearest_all_map: "nearest_all nt points cs = map (nearest cs) points"
proof -
  have "concat (map (map (nearest cs)) (slices (div_ceil (length points) nt) points)) = map (nearest cs) points"
    if "\<not> nt \<le> 1" "\<not> length points < 4096"
    using that by (intro map_slices div_ceil_pos) linarith+
  then show ?thesis by (simp add: nearest_all_def)
qed

lemma pq_encode_all_map: "pq_encode_all nt q vs = map (pq_encode q) vs"
proof -
  have "concat (map (map (pq_encode q)) (slices (div_ceil (length vs) nt) vs)) = map (pq_encode q) vs"
    if "\<not> nt \<le> 1" "\<not> length vs < 4096"
    using that by (intro map_slices div_ceil_pos) linarith+
  then show ?thesis by (simp add: pq_encode_all_def)
qed

section \<open>The nearest centroid is one\<close>

lemma nearest_fold:
  assumes "\<forall>(i, c) \<in> set xs. i < n" "fst b < n"
  shows "fst (foldl (nearest_step f) b xs) < n"
  using assms
proof (induction xs arbitrary: b)
  case (Cons x xs)
  have "fst (nearest_step f b x) < n" using Cons.prems by (auto simp: nearest_step_def Let_def split: prod.splits)
  then show ?case using Cons by simp
qed simp

lemma nearest_bound: "cs \<noteq> [] \<Longrightarrow> nearest cs v < length cs"
  unfolding nearest_def by (rule nearest_fold) (auto simp: in_set_enumerate_eq)

section \<open>Inverted lists\<close>

definition push_to :: "nat list list \<Rightarrow> nat \<times> nat \<Rightarrow> nat list list" where
  "push_to ls ic = (case ic of (i, c) \<Rightarrow> ls[c := ls ! c @ [i]])"

lemma push_to_mset:
  assumes "c < length ls"
  shows "mset (concat (push_to ls (i, c))) = add_mset i (mset (concat ls))"
proof -
  have "ls = take c ls @ ls ! c # drop (Suc c) ls" using assms by (simp add: id_take_nth_drop)
  then have "concat ls = concat (take c ls) @ ls ! c @ concat (drop (Suc c) ls)"
    by (metis concat.simps(2) concat_append)
  moreover have "concat (push_to ls (i, c)) = concat (take c ls) @ (ls ! c @ [i]) @ concat (drop (Suc c) ls)"
    using assms by (simp add: push_to_def upd_conv_take_nth_drop)
  ultimately show ?thesis by (simp only: mset_append mset.simps) simp
qed

lemma fold_push:
  assumes "\<forall>(i, c) \<in> set xs. c < length ls"
  shows "length (foldl push_to ls xs) = length ls \<and>
    mset (concat (foldl push_to ls xs)) = mset (concat ls) + mset (map fst xs)"
  using assms
proof (induction xs arbitrary: ls)
  case (Cons x xs)
  obtain i c where x: "x = (i, c)" by (cases x)
  have l: "length (push_to ls x) = length ls" by (simp add: push_to_def x)
  have "mset (concat (push_to ls x)) = add_mset i (mset (concat ls))"
    using Cons.prems x by (simp add: push_to_mset)
  then show ?case using Cons.IH [of "push_to ls x"] Cons.prems l x by simp
qed simp

lemma assign_lists_partition:
  assumes "cs \<noteq> []"
  shows "length (assign_lists nt vectors cs) = length cs"
    and "mset (concat (assign_lists nt vectors cs)) = mset [0..<length vectors]"
proof -
  let ?xs = "enumerate 0 (nearest_all nt vectors cs)" and ?z = "replicate (length cs) []"
  have e: "assign_lists nt vectors cs = foldl push_to ?z ?xs"
    by (simp add: assign_lists_def push_to_def [abs_def] case_prod_beta' cong: foldl_cong)
  have "\<forall>(i, c) \<in> set ?xs. c < length ?z"
    using nearest_bound [OF assms] by (auto simp: in_set_enumerate_eq nearest_all_map)
  from fold_push [OF this] show "length (assign_lists nt vectors cs) = length cs"
    "mset (concat (assign_lists nt vectors cs)) = mset [0..<length vectors]"
    unfolding e by (simp_all add: nearest_all_map del: map_map)
qed

lemma mset_concat_perm: "mset xs = mset ys \<Longrightarrow> mset (concat (map f xs)) = mset (concat (map f ys))"
proof -
  have "mset (concat (map f zs)) = \<Sum>\<^sub># (image_mset (\<lambda>z. mset (f z)) (mset zs))" for zs
    by (induction zs) simp_all
  then show "mset xs = mset ys \<Longrightarrow> ?thesis" by simp
qed

lemma map_sort_key: "map f (sort_key f xs) = sort (map f xs)"
  by (rule properties_for_sort [symmetric]) simp_all

section \<open>Search with every cluster probed is exact\<close>

definition rank :: "vec list \<Rightarrow> vec \<Rightarrow> nat \<Rightarrow> int" where "rank vectors query i = total_key (l2_sq (vectors ! i) query)"

lemma search_all:
  assumes "cs \<noteq> []" "length cs \<le> nprobe"
  obtains xs where "search query cs (assign_lists nt vectors cs) vectors nprobe k = take k xs"
    "mset xs = mset [0..<length vectors]" "map (rank vectors query) xs = sort (map (rank vectors query) [0..<length vectors])"
proof -
  let ?ls = "assign_lists nt vectors cs"
  define cents where "cents = sort_key (\<lambda>(d, i). total_key d) (map (\<lambda>(i, c). (l2_sq c query, i)) (enumerate 0 cs))"
  define f where "f = (\<lambda>i. (l2_sq (vectors ! i) query, i))"
  define cands where "cands = concat (map (\<lambda>(_, ci). map f (?ls ! ci)) cents)"
  have l: "length cents = length cs" by (simp add: cents_def)
  have "mset (map snd cents) = mset (map snd (map (\<lambda>(i, c). (l2_sq c query, i)) (enumerate 0 cs)))"
    by (simp only: mset_map cents_def mset_sort)
  also have "map snd (map (\<lambda>(i, c). (l2_sq c query, i)) (enumerate 0 cs)) = map fst (enumerate 0 cs)"
    unfolding map_map by (rule map_cong) (auto simp: case_prod_beta')
  also have "\<dots> = [0..<length cs]" by simp
  finally have "mset (map snd cents) = mset [0..<length cs]" .
  from mset_concat_perm [OF this, of "(!) ?ls"]
  have "mset (concat (map ((!) ?ls) (map snd cents))) = mset (concat ?ls)"
    using map_nth [of ?ls] unfolding assign_lists_partition(1) [OF assms(1)] by (simp only:)
  then have "mset (map f (concat (map ((!) ?ls) (map snd cents)))) = mset (map f [0..<length vectors])"
    using assign_lists_partition(2) [OF assms(1), of nt vectors] by (simp only: mset_map)
  moreover have "cands = map f (concat (map ((!) ?ls) (map snd cents)))"
    by (simp add: cands_def map_concat comp_def case_prod_beta')
  ultimately have m: "mset cands = mset (map f [0..<length vectors])" by simp
  define xs where "xs = map snd (sort_key (\<lambda>(d, i). total_key d) cands)"
  have s: "search query cs ?ls vectors nprobe k = take k xs"
  proof -
    have p: "take (max 1 (min (max (length cents) 1) nprobe)) cents = cents" using assms(2) l by simp
    show ?thesis
      unfolding search_def Let_def cents_def [symmetric] p f_def [symmetric] cands_def [symmetric] xs_def take_map by (rule refl)
  qed
  have "mset xs = image_mset snd (mset (map f [0..<length vectors]))" by (simp only: xs_def mset_map mset_sort m)
  also have "\<dots> = mset [0..<length vectors]" by (simp only: mset_map [symmetric] map_map comp_def f_def snd_conv map_ident)
  finally have x: "mset xs = mset [0..<length vectors]" .
  have fx: "fst p = l2_sq (vectors ! snd p) query" if "p \<in> set cands" for p
    using arg_cong [OF m, of set_mset] that by (auto simp: f_def)
  have "map (rank vectors query) xs = map (\<lambda>(d, i). total_key d) (sort_key (\<lambda>(d, i). total_key d) cands)"
    unfolding xs_def map_map using fx by (intro map_cong) (auto simp: rank_def case_prod_beta')
  also have "\<dots> = sort (map (\<lambda>(d, i). total_key d) cands)" by (rule map_sort_key)
  also have "\<dots> = sort (map (rank vectors query) [0..<length vectors])"
  proof (rule properties_for_sort [symmetric])
    have "mset (map (\<lambda>(d, i). total_key d) cands) = mset (map (\<lambda>(d, i). total_key d) (map f [0..<length vectors]))"
      unfolding mset_map using m by simp
    then show "mset (sort (map (\<lambda>(d, i). total_key d) cands)) = mset (map (rank vectors query) [0..<length vectors])"
      by (simp only: mset_sort map_map comp_def f_def rank_def [abs_def] prod.case)
  qed simp
  finally show ?thesis using that s x by blast
qed

section \<open>The shape of the trained centroids\<close>

definition all_width :: "nat \<Rightarrow> vec list \<Rightarrow> bool" where "all_width w vs \<longleftrightarrow> (\<forall>v \<in> set vs. length v = w)"

lemma sample_loop_shape:
  "vectors \<noteq> [] \<Longrightarrow> length (fst (sample_loop vectors s is st)) = length is \<and> set (fst (sample_loop vectors s is st)) \<subseteq> set vectors"
  by (induction vectors s "is" st rule: sample_loop.induct) (auto simp: Let_def)

lemma train_sample_shape:
  assumes "vectors \<noteq> []"
  shows "fst (train_sample vectors k st) \<noteq> [] \<and> set (fst (train_sample vectors k st)) \<subseteq> set vectors"
proof -
  let ?cap = "max (min (k * 256) (2 ^ 64 - 1)) 4096" and ?r = "fst (sample_loop vectors (length vectors div max (min (k * 256) (2 ^ 64 - 1)) 4096)
      [0..<max (min (k * 256) (2 ^ 64 - 1)) 4096] st)"
  have "length ?r = length [0..<?cap]" "set ?r \<subseteq> set vectors" using sample_loop_shape [OF assms] by blast+
  moreover have "0 < ?cap" by (simp add: less_max_iff_disj)
  ultimately have "?r \<noteq> []" "set ?r \<subseteq> set vectors" by (auto simp: length_0_conv [symmetric] simp del: length_0_conv)
  then show ?thesis using assms by (simp add: train_sample_def Let_def)
qed

lemma pick_loop_bound: "pick_loop t xs i = Some p \<Longrightarrow> p < i + length xs"
  by (induction t xs i rule: pick_loop.induct) (fastforce simp: Let_def split: if_splits)+

lemma pick_next_bound: "d2 \<noteq> [] \<Longrightarrow> fst (pick_next d2 st) < length d2"
  using pick_loop_bound [of _ d2 0] by (auto simp: pick_next_def Let_def split: option.splits)

lemma init_loop_shape:
  assumes "sample \<noteq> []" "all_width w sample" "all_width w cs" "length d2 = length sample"
  shows "length (init_loop r sample cs d2 st) = length cs + r \<and> all_width w (init_loop r sample cs d2 st)"
  using assms
proof (induction r sample cs d2 st rule: init_loop.induct)
  case (2 r sample cs d2 st)
  obtain p st' where p: "pick_next d2 st = (p, st')" by (cases "pick_next d2 st")
  have "p < length sample" using pick_next_bound [of d2 st] 2(2, 5) p by (cases d2) auto
  then have "all_width w (cs @ [sample ! p])" using 2(3, 4) by (auto simp: all_width_def)
  then show ?case using 2(1) [OF p [symmetric] refl 2(2, 3)] 2(5) by (simp add: p Let_def)
qed simp

lemma init_centroids_shape:
  assumes "sample \<noteq> []" "all_width w sample" "0 < k"
  shows "length (init_centroids k sample st) = k \<and> all_width w (init_centroids k sample st)"
proof -
  have "sample ! (n mod length sample) \<in> set sample" for n using assms(1) by simp
  then have "all_width w [sample ! (n mod length sample)]" for n using assms(2) by (simp add: all_width_def)
  then have "length (init_loop (k - 1) sample [sample ! (n mod length sample)] (map g sample) s) = Suc 0 + (k - 1) \<and>
      all_width w (init_loop (k - 1) sample [sample ! (n mod length sample)] (map g sample) s)" for n g s
    using init_loop_shape [OF assms(1, 2), of "[sample ! (n mod length sample)]" "map g sample" "k - 1" s] by simp
  then show ?thesis using assms(3) by (simp add: init_centroids_def Let_def)
qed

definition sums_ok :: "nat \<Rightarrow> nat \<Rightarrow> (u64 list \<times> nat) list \<Rightarrow> bool" where
  "sums_ok k w acc \<longleftrightarrow> length acc = k \<and> (\<forall>(s, _) \<in> set acc. length s = w)"

lemma length_add_into: "length (add_into s v) = length s" by (simp add: add_into_def)

lemma cluster_sums_ok:
  assumes "\<forall>(v, c) \<in> set xs. c < k"
  shows "sums_ok k w (cluster_sums k w xs)"
proof -
  have main: "sums_ok k w (foldl (\<lambda>acc (v, c). case acc ! c of (s, n) \<Rightarrow> acc[c := (add_into s v, n + 1)]) acc xs)"
    if "sums_ok k w acc" for acc
    using that assms
  proof (induction xs arbitrary: acc)
    case (Cons x xs)
    obtain v c where x: "x = (v, c)" by (cases x)
    obtain s n where s: "acc ! c = (s, n)" by (cases "acc ! c")
    have c: "c < length acc" using Cons.prems x by (simp add: sums_ok_def)
    have "length s = w" using Cons.prems(1) nth_mem [OF c] s by (auto simp: sums_ok_def)
    then have "sums_ok k w (acc[c := (add_into s v, n + 1)])"
      using Cons.prems(1) by (auto simp: sums_ok_def length_add_into dest: set_update_subset_insert [THEN subsetD])
    then show ?case using Cons.IH Cons.prems(2) by (simp add: x s)
  qed simp
  show ?thesis unfolding cluster_sums_def by (rule main) (simp add: sums_ok_def)
qed

lemma lloyd_step_shape:
  assumes "all_width w cs" "cs \<noteq> []"
  shows "length (lloyd_step nt w sample cs) = length cs \<and> all_width w (lloyd_step nt w sample cs)"
proof -
  let ?s = "cluster_sums (length cs) w (zip sample (nearest_all nt sample cs))"
  have "\<forall>(v, c) \<in> set (zip sample (nearest_all nt sample cs)). c < length cs"
    using nearest_bound [OF assms(2)] by (auto simp: nearest_all_map dest!: set_zip_rightD)
  from cluster_sums_ok [OF this, of w] have s: "length ?s = length cs" "\<And>p. p \<in> set ?s \<Longrightarrow> length (fst p) = w"
    by (auto simp: sums_ok_def)
  have "length (new_centroid old p) = w" if "length old = w" "length (fst p) = w" for old p
    using that by (cases p) (auto simp: new_centroid_def Let_def)
  then show ?thesis
    using assms(1) s by (auto simp: lloyd_step_def all_width_def elim!: in_set_zipE dest!: s(2))
qed

lemma lloyd_shape:
  assumes "all_width w cs" "cs \<noteq> []"
  shows "length (lloyd nt w r sample cs) = length cs \<and> all_width w (lloyd nt w r sample cs)"
  using assms
proof (induction r arbitrary: cs)
  case (Suc r)
  have "lloyd_step nt w sample cs \<noteq> []" using lloyd_step_shape [OF Suc.prems, of nt sample] Suc.prems(2) by auto
  then show ?case using Suc.IH lloyd_step_shape [OF Suc.prems, of nt sample] Suc.prems by (simp add: Let_def)
qed simp

lemma train_shape:
  assumes "vectors \<noteq> []" "all_width w vectors"
  shows "length (train nt vectors k r) = max 1 (min (length vectors) k) \<and> all_width w (train nt vectors k r)"
proof -
  let ?k = "max 1 (min (length vectors) k)" and ?w = "length (hd vectors)"
  have w: "?w = w" using assms by (simp add: all_width_def)
  obtain sample st where s: "train_sample vectors ?k (train_seed (length vectors) ?k ?w) = (sample, st)"
    by (cases "train_sample vectors ?k (train_seed (length vectors) ?k ?w)")
  have S: "sample \<noteq> []" "set sample \<subseteq> set vectors"
    using train_sample_shape [OF assms(1), of ?k "train_seed (length vectors) ?k ?w"] s by simp_all
  have "all_width w sample" using S(2) assms(2) by (auto simp: all_width_def)
  from init_centroids_shape [OF S(1) this, of ?k st]
  have i: "length (init_centroids ?k sample st) = ?k" "all_width w (init_centroids ?k sample st)" by simp_all
  then have "init_centroids ?k sample st \<noteq> []" by auto
  from lloyd_shape [OF i(2) this, of nt r sample] show ?thesis
    using assms(1) s i(1) by (simp add: train_def Let_def w)
qed

section \<open>Stored codebooks\<close>

definition pq_ok :: "pq \<Rightarrow> bool" where
  "pq_ok q \<longleftrightarrow> pq_m q < 2 ^ 16 \<and> pq_dim q < 2 ^ 16 \<and> pq_bounds q = pq_bounds_of (pq_m q) (pq_dim q) \<and>
     length (pq_codebooks q) = pq_m q \<and>
     (\<forall>s < pq_m q. length (pq_codebooks q ! s) < 2 ^ 16 \<and> all_width (pq_bounds q ! (s + 1) - pq_bounds q ! s) (pq_codebooks q ! s))"

lemma get_centroids_put:
  assumes "all_width w cs"
  shows "get_centroids (length cs) w (pre @ concat (map (\<lambda>c. concat (map u32_le c)) cs) @ rest) (length pre) =
    Some (cs, length pre + length (concat (map (\<lambda>c. concat (map u32_le c)) cs)))"
  using assms
proof (induction cs arbitrary: pre)
  case (Cons c cs)
  let ?c = "concat (map u32_le c)"
  have l: "length ?c = w * 4" using Cons.prems by (simp add: all_width_def length_concat_u32)
  show ?case using Cons.IH [of "pre @ ?c"] Cons.prems l by (simp add: all_width_def chunks4_u32)
qed simp

lemma u16_bytes: obtains lo hi where "u16_le w = [lo, hi]" "le_val [lo, hi] = unat w"
proof -
  have two: "length xs = Suc (Suc 0) \<Longrightarrow> \<exists>lo hi. xs = [lo, hi]" for xs :: bytes by (auto simp: length_Suc_conv)
  obtain lo hi where e: "u16_le w = [lo, hi]" using two [of "u16_le w"] by (auto simp: u16_le_def)
  show ?thesis using that [OF e] le_val_u16_le [of w] unfolding e by simp
qed

lemma get_codebooks_put:
  assumes "list_all2 (\<lambda>w cb. all_width w cb \<and> length cb < 2 ^ 16) ws cbs"
  shows "get_codebooks ws (pre @ concat (map put_codebook cbs) @ rest) (length pre) = Some cbs"
  using assms
proof (induction arbitrary: pre rule: list_all2_induct)
  case (Cons w ws cb cbs)
  obtain lo hi where u: "u16_le (of_nat (length cb)) = [lo, hi]" "le_val [lo, hi] = length cb"
    using Cons.hyps(1) by (rule_tac w = "of_nat (length cb)" in u16_bytes) (simp add: unat_of_nat)
  let ?cb = "concat (map (\<lambda>c. concat (map u32_le c)) cb)"
  have a: "get_at (pre @ put_codebook cb @ x) (length pre) = Some lo" "get_at (pre @ put_codebook cb @ x) (length pre + 1) = Some hi" for x
    by (simp_all add: put_codebook_def u get_at_def nth_append)
  have g: "get_centroids (length cb) w (pre @ put_codebook cb @ x) (length pre + 2) = Some (cb, length pre + 2 + length ?cb)" for x
    using get_centroids_put [of w cb "pre @ [lo, hi]" x] Cons.hyps(1) by (simp add: put_codebook_def u)
  have p: "length pre + 2 + length ?cb = length (pre @ put_codebook cb)" by (simp add: put_codebook_def u)
  show ?case using Cons.IH [of "pre @ put_codebook cb"] a g unfolding p by (simp add: u(2) del: le_val.simps)
qed simp

lemma pq_round_trip_ok:
  assumes "pq_ok q"
  shows "pq_from_bytes (pq_to_bytes q) = Some q"
proof -
  note O = assms [unfolded pq_ok_def]
  obtain a b where m: "u16_le (of_nat (pq_m q)) = [a, b]" "le_val [a, b] = pq_m q"
    using O by (rule_tac w = "of_nat (pq_m q)" in u16_bytes) (simp add: unat_of_nat)
  obtain c d where w: "u16_le (of_nat (pq_dim q)) = [c, d]" "le_val [c, d] = pq_dim q"
    using O by (rule_tac w = "of_nat (pq_dim q)" in u16_bytes) (simp add: unat_of_nat)
  let ?ws = "map (\<lambda>s. pq_bounds q ! (s + 1) - pq_bounds q ! s) [0..<pq_m q]"
  have "list_all2 (\<lambda>w cb. all_width w cb \<and> length cb < 2 ^ 16) ?ws (pq_codebooks q)"
    using O by (auto simp: list_all2_conv_all_nth)
  moreover have l: "length [a, b, c, d] = 4" by simp
  ultimately have g: "get_codebooks ?ws (a # b # c # d # concat (map put_codebook (pq_codebooks q))) 4 = Some (pq_codebooks q)"
    using get_codebooks_put [of ?ws "pq_codebooks q" "[a, b, c, d]" "[]", unfolded l] by simp
  have e: "pq_to_bytes q = a # b # c # d # concat (map put_codebook (pq_codebooks q))"
    unfolding pq_to_bytes_def m(1) w(1) by simp
  have t: "le_val (take 2 (a # b # c # d # xs)) = pq_m q" "le_val (take 2 (drop 2 (a # b # c # d # xs))) = pq_dim q" for xs
    using m(2) w(2) by (simp_all del: le_val.simps)
  have "pq_bounds_of (pq_m q) (pq_dim q) = pq_bounds q" using O by simp
  then show ?thesis using g unfolding pq_from_bytes_def e t by (simp add: Let_def)
qed

lemma sub_vector_length: "b ! (s + 1) \<le> length v \<Longrightarrow> length (sub_vector b s v) = b ! (s + 1) - b ! s"
  by (simp add: sub_vector_def)

text \<open>What training makes can be stored.\<close>

lemma pq_train_ok:
  assumes "vectors \<noteq> []" "all_width w vectors" "w < 2 ^ 16" "0 < w"
  shows "pq_ok (pq_train nt vectors m r)"
proof -
  let ?m = "max 1 (min (max w 1) m)" and ?b = "pq_bounds_of (max 1 (min (max w 1) m)) w"
  have w: "(case vectors of [] \<Rightarrow> 0 | v # _ \<Rightarrow> length v) = w" using assms(1, 2) by (auto simp: all_width_def split: list.splits)
  have q: "pq_train nt vectors m r = \<lparr>pq_m = ?m, pq_dim = w, pq_bounds = ?b,
     pq_codebooks = map (\<lambda>s. train nt (map (sub_vector ?b s) vectors) PQ_K r) [0..<?m]\<rparr>"
    unfolding pq_train_def w Let_def by (rule refl)
  have bd: "?b ! (s + 1) \<le> w" if "s < ?m" for s
  proof -
    have "?b ! (s + 1) = (s + 1) * w div ?m" using that by (simp add: pq_bounds_of_def del: upt_Suc)
    also have "\<dots> \<le> ?m * w div ?m" using that by (intro div_le_mono mult_le_mono1) simp
    finally show ?thesis by simp
  qed
  have t: "length (train nt (map (sub_vector ?b s) vectors) PQ_K r) < 2 ^ 16 \<and>
      all_width (?b ! (s + 1) - ?b ! s) (train nt (map (sub_vector ?b s) vectors) PQ_K r)" if "s < ?m" for s
  proof -
    have "all_width (?b ! (s + 1) - ?b ! s) (map (sub_vector ?b s) vectors)"
      using assms(2) bd [OF that] by (auto simp: all_width_def sub_vector_length)
    from train_shape [OF _ this, of nt PQ_K r] show ?thesis using assms(1) by (auto simp: PQ_K_def)
  qed
  show ?thesis unfolding q pq_ok_def using t assms(3) by (simp del: upt_Suc)
qed

end
