(* ===== verification/VectorProps.thy ===== *)
theory VectorProps
  imports IvfLaws
begin

text \<open>The properties of the vector index, each with an instance at a concrete input.\<close>

definition one :: u32 where "one = 0x3F800000"
definition two :: u32 where "two = 0x40000000"

text \<open>C31: A search that probes every list of the index is exact: it returns the first \<open>k\<close> of all the vectors arranged
  by their distance to the query, whatever the centroids are and however many threads assigned the vectors.\<close>

theorem full_probe_is_exact:
  assumes "cs \<noteq> []" "length cs \<le> nprobe"
  shows "\<exists>order. search query cs (assign_lists nt vectors cs) vectors nprobe k = take k order \<and>
    mset order = mset [0..<length vectors] \<and> sorted (map (rank vectors query) order)"
proof -
  obtain xs where "search query cs (assign_lists nt vectors cs) vectors nprobe k = take k xs"
    "mset xs = mset [0..<length vectors]" "map (rank vectors query) xs = sort (map (rank vectors query) [0..<length vectors])"
    by (rule search_all [OF assms])
  then show ?thesis by (metis sorted_sort)
qed

lemma full_probe_is_exact_witness:
  "\<exists>order. search [one] [[0], [two]] (assign_lists 4 [[two], [one], [0]] [[0], [two]]) [[two], [one], [0]] 2 2 = take 2 order \<and>
    mset order = mset [0, Suc 0, Suc (Suc 0)] \<and> sorted (map (rank [[two], [one], [0]] [one]) order)"
  using full_probe_is_exact [of "[[0], [two]]" 2 "[one]" 4 "[[two], [one], [0]]" 2] by simp

text \<open>C32: The quantiser trained on the vectors of a table is stored and read back unchanged: the numbers of its parts
  and of its centroids fit the sixteen bits of their fields.\<close>

theorem trained_quantiser_is_stored:
  assumes "vectors \<noteq> []" "all_width w vectors" "w < 2 ^ 16" "0 < w"
  shows "pq_from_bytes (pq_to_bytes (pq_train nt vectors m r)) = Some (pq_train nt vectors m r)"
  using assms by (intro pq_round_trip_ok pq_train_ok)

lemma trained_quantiser_is_stored_witness:
  "pq_from_bytes (pq_to_bytes (pq_train 1 [[one, two], [two, 0]] 2 8)) = Some (pq_train 1 [[one, two], [two, 0]] 2 8)"
  by (rule trained_quantiser_is_stored [of _ 2]) (simp_all add: all_width_def)

text \<open>C33: The distance computed on a packed vector, without unpacking it, is bit for bit the distance to the unpacked
  vector; it is refused exactly where the unpacking fails, the format differs or the lengths do.\<close>

theorem packed_distance_agrees:
  "l2_sq_packed_i8 b q = (case unpack b of
       Inl _ \<Rightarrow> None
     | Inr v \<Rightarrow> if get_at b 0 = Some TAG_I8 \<and> length v = length q then Some (l2_sq v q) else None)"
  by (rule l2_sq_packed_unpack)

text \<open>The number of threads changes neither the assignment of the points nor their codes.\<close>

theorem threads_do_not_matter:
  "nearest_all nt points cs = map (nearest cs) points \<and> pq_encode_all nt q points = map (pq_encode q) points"
  by (intro conjI nearest_all_map pq_encode_all_map)

end
