(* ===== verification/Json.thy ===== *)
theory Json
  imports Utf8 Floats
begin

text \<open>
  The JSON values behind the functions \<^verbatim>\<open>json_*\<close> (\<^verbatim>\<open>src/sql/json.rs\<close>): their parser, their compact text, and the
  paths that select a part of one.  A text is the list of its characters; a parser returns what is left of it.
\<close>

section \<open>Values\<close>

datatype json = JNull | JBool bool | JInt u64 | JFloat u64 | JStr ustr | JArray "json list" | JObject "(ustr \<times> json) list"

fun json_type_name :: "json \<Rightarrow> string" where
  "json_type_name JNull = ''null''"
| "json_type_name (JBool b) = (if b then ''true'' else ''false'')"
| "json_type_name (JInt _) = ''integer''"
| "json_type_name (JFloat _) = ''real''"
| "json_type_name (JStr _) = ''text''"
| "json_type_name (JArray _) = ''array''"
| "json_type_name (JObject _) = ''object''"

definition ustr_of :: "bytes \<Rightarrow> ustr" where "ustr_of = map unat"
definition ascii_of :: "ustr \<Rightarrow> bytes" where "ascii_of = map of_nat"

definition digit_char :: "uchar \<Rightarrow> bool" where "digit_char c \<longleftrightarrow> 48 \<le> c \<and> c \<le> 57"

text \<open>\<^verbatim>\<open>str::parse::<i64>\<close>.\<close>

definition parse_i64 :: "bytes \<Rightarrow> u64 option" where
  "parse_i64 bs = (case take_sign bs of (neg, ds) \<Rightarrow>
     if ds = [] \<or> \<not> list_all ascii_digit ds then None
     else let v = (if neg then - int (dec_value ds) else int (dec_value ds)) in
       if - (2 ^ 63) \<le> v \<and> v < 2 ^ 63 then Some (of_int v) else None)"

section \<open>The text of a value\<close>

definition hex_char :: "nat \<Rightarrow> uchar" where "hex_char d = (if d < 10 then 48 + d else 87 + d)"

definition write_char :: "uchar \<Rightarrow> ustr" where
  "write_char c = (if c = 34 then [92, 34] else if c = 92 then [92, 92] else if c = 10 then [92, 110] else if c = 9 then [92, 116]
     else if c = 13 then [92, 114] else if c < 32 then [92, 117, 48, 48, hex_char (c div 16), hex_char (c mod 16)] else [c])"

definition write_str :: "ustr \<Rightarrow> ustr" where "write_str s = 34 # concat (map write_char s) @ [34]"

fun comma_joined :: "ustr list \<Rightarrow> ustr" where
  "comma_joined [] = []"
| "comma_joined [x] = x"
| "comma_joined (x # xs) = x @ 44 # comma_joined xs"

primrec write_json :: "json \<Rightarrow> ustr" where
  "write_json JNull = map of_char ''null''"
| "write_json (JBool b) = map of_char (if b then ''true'' else ''false'')"
| "write_json (JInt n) = ustr_of (int_text (sint n))"
| "write_json (JFloat f) = ustr_of (f64_debug f)"
| "write_json (JStr s) = write_str s"
| "write_json (JArray a) = 91 # comma_joined (map write_json a) @ [93]"
| "write_json (JObject kvs) = 123 # comma_joined (map (\<lambda>(k, t). write_str k @ 58 # t) (map (map_prod (\<lambda>k. k) write_json) kvs)) @ [125]"

definition json_to_string :: "json \<Rightarrow> ustr" where "json_to_string = write_json"

section \<open>The parser\<close>

definition json_ws :: "ustr \<Rightarrow> ustr" where "json_ws cs = dropWhile (\<lambda>c. c \<in> {32, 9, 10, 13}) cs"

primrec json_lit :: "ustr \<Rightarrow> json \<Rightarrow> ustr \<Rightarrow> (json \<times> ustr) option" where
  "json_lit [] v cs = Some (v, cs)"
| "json_lit (w # ws) v cs = (case cs of [] \<Rightarrow> None | c # r \<Rightarrow> if c = w then json_lit ws v r else None)"

definition hex_value :: "uchar \<Rightarrow> nat option" where
  "hex_value c = (if digit_char c then Some (c - 48) else if 97 \<le> c \<and> c \<le> 102 then Some (c - 87)
     else if 65 \<le> c \<and> c \<le> 70 then Some (c - 55) else None)"

primrec hex_code :: "nat \<Rightarrow> nat \<Rightarrow> ustr \<Rightarrow> (nat \<times> ustr) option" where
  "hex_code 0 code cs = Some (code, cs)"
| "hex_code (Suc n) code cs = (case cs of [] \<Rightarrow> None | c # r \<Rightarrow> Option.bind (hex_value c) (\<lambda>d. hex_code n (code * 16 + d) r))"

definition json_escapes :: "(uchar \<times> uchar) list" where
  "json_escapes = [(34, 34), (92, 92), (47, 47), (110, 10), (116, 9), (114, 13), (98, 8), (102, 12)]"

lemma hex_code_shorter: "hex_code n code cs = Some (x, r) \<Longrightarrow> length r \<le> length cs"
  by (induction n arbitrary: code cs) (auto split: list.splits bind_splits simp: le_Suc_eq)

text \<open>What follows the opening quote: the characters up to the closing one.\<close>

function json_chars :: "ustr \<Rightarrow> (ustr \<times> ustr) option" where
  "json_chars cs =
     (case cs of
        [] \<Rightarrow> None
      | c # r \<Rightarrow>
          if c = 34 then Some ([], r)
          else if c = 92 then
            (case r of
               [] \<Rightarrow> None
             | e # r2 \<Rightarrow>
                 if e = 117 then
                   (case hex_code 4 0 r2 of
                      None \<Rightarrow> None
                    | Some (code, r3) \<Rightarrow> if is_scalar code then map_option (apfst (Cons code)) (json_chars r3) else None)
                 else (case map_of json_escapes e of
                      None \<Rightarrow> None
                    | Some x \<Rightarrow> map_option (apfst (Cons x)) (json_chars r2)))
          else map_option (apfst (Cons c)) (json_chars r))"
  by pat_completeness auto
termination by (relation "measure length") (auto dest: hex_code_shorter)

declare json_chars.simps [simp del]

definition json_string :: "ustr \<Rightarrow> (ustr \<times> ustr) option" where
  "json_string cs = (case cs of [] \<Rightarrow> None | c # r \<Rightarrow> if c = 34 then json_chars r else None)"

definition digits_end :: "ustr \<Rightarrow> ustr" where "digits_end cs = dropWhile digit_char cs"

text \<open>What is left behind a number, and whether it has a fraction or an exponent.\<close>

definition after_fraction :: "ustr \<Rightarrow> bool \<times> ustr" where
  "after_fraction cs = (case cs of c # r \<Rightarrow> if c = 46 then (True, digits_end r) else (False, cs) | [] \<Rightarrow> (False, cs))"

definition after_exponent :: "ustr \<Rightarrow> bool \<times> ustr" where
  "after_exponent cs = (case cs of
       c # r \<Rightarrow> if c = 101 \<or> c = 69 then (True, digits_end (case r of s # r2 \<Rightarrow> if s = 43 \<or> s = 45 then r2 else r | [] \<Rightarrow> r)) else (False, cs)
     | [] \<Rightarrow> (False, cs))"

definition after_number :: "ustr \<Rightarrow> bool \<times> ustr" where
  "after_number cs =
     (case after_fraction (digits_end (case cs of c # r \<Rightarrow> if c = 45 then r else cs | [] \<Rightarrow> cs)) of (f1, r) \<Rightarrow>
      case after_exponent r of (f2, r) \<Rightarrow> (f1 \<or> f2, r))"

definition json_number :: "ustr \<Rightarrow> (json \<times> ustr) option" where
  "json_number cs =
     (case after_number cs of (is_float, r) \<Rightarrow>
        let text = ascii_of (take (length cs - length r) cs);
            float = map_option (\<lambda>f. (JFloat f, r)) (f64_parse text)
        in if is_float then float
           else (case parse_i64 text of Some n \<Rightarrow> Some (JInt n, r) | None \<Rightarrow> float))"

text \<open>The mutually recursive part has fuel; the outer option is its end.\<close>

definition jbind :: "'a option option \<Rightarrow> ('a \<Rightarrow> 'b option option) \<Rightarrow> 'b option option" where
  "jbind x f = (case x of None \<Rightarrow> None | Some None \<Rightarrow> Some None | Some (Some a) \<Rightarrow> f a)"

fun json_value :: "nat \<Rightarrow> ustr \<Rightarrow> (json \<times> ustr) option option"
  and json_items :: "nat \<Rightarrow> ustr \<Rightarrow> (json list \<times> ustr) option option"
  and json_members :: "nat \<Rightarrow> ustr \<Rightarrow> ((ustr \<times> json) list \<times> ustr) option option" where
  "json_value 0 cs = None"
| "json_value (Suc n) cs =
     (case json_ws cs of
        [] \<Rightarrow> Some None
      | c # r \<Rightarrow>
          if c = 123 then
            (case json_ws r of
               d # r2 \<Rightarrow> if d = 125 then Some (Some (JObject [], r2)) else jbind (json_members n (d # r2)) (\<lambda>(kvs, r). Some (Some (JObject kvs, r)))
             | [] \<Rightarrow> jbind (json_members n []) (\<lambda>(kvs, r). Some (Some (JObject kvs, r))))
          else if c = 91 then
            (case json_ws r of
               d # r2 \<Rightarrow> if d = 93 then Some (Some (JArray [], r2)) else jbind (json_items n (d # r2)) (\<lambda>(vs, r). Some (Some (JArray vs, r)))
             | [] \<Rightarrow> jbind (json_items n []) (\<lambda>(vs, r). Some (Some (JArray vs, r))))
          else if c = 34 then Some (map_option (apfst JStr) (json_string (c # r)))
          else if c = 116 then Some (json_lit (map of_char ''true'') (JBool True) (c # r))
          else if c = 102 then Some (json_lit (map of_char ''false'') (JBool False) (c # r))
          else if c = 110 then Some (json_lit (map of_char ''null'') JNull (c # r))
          else if c = 45 \<or> digit_char c then Some (json_number (c # r))
          else Some None)"
| "json_items 0 cs = None"
| "json_items (Suc n) cs = jbind (json_value n cs) (\<lambda>(v, r).
     case json_ws r of
       [] \<Rightarrow> Some None
     | c # r \<Rightarrow> if c = 44 then jbind (json_items n r) (\<lambda>(vs, r). Some (Some (v # vs, r)))
               else if c = 93 then Some (Some ([v], r)) else Some None)"
| "json_members 0 cs = None"
| "json_members (Suc n) cs =
     (case json_string (json_ws cs) of
        None \<Rightarrow> Some None
      | Some (k, r) \<Rightarrow>
          (case json_ws r of
             [] \<Rightarrow> Some None
           | c # r \<Rightarrow> if c \<noteq> 58 then Some None
               else jbind (json_value n r) (\<lambda>(v, r). case json_ws r of
                   [] \<Rightarrow> Some None
                 | c # r \<Rightarrow> if c = 44 then jbind (json_members n r) (\<lambda>(kvs, r). Some (Some ((k, v) # kvs, r)))
                           else if c = 125 then Some (Some ([(k, v)], r)) else Some None)))"

declare json_value.simps [simp del] json_items.simps [simp del] json_members.simps [simp del]

definition json_parse :: "ustr \<Rightarrow> json option option" where
  "json_parse s = jbind (json_value (2 * length s + 1) (json_ws s)) (\<lambda>(v, r). Some (if json_ws r = [] then Some v else None))"

section \<open>Paths\<close>

definition key_char :: "uchar \<Rightarrow> bool" where "key_char c \<longleftrightarrow> c \<noteq> 46 \<and> c \<noteq> 91"

definition parse_usize :: "ustr \<Rightarrow> nat option" where
  "parse_usize cs = (let ds = (case cs of c # r \<Rightarrow> if c = 43 then r else cs | [] \<Rightarrow> []) in
     if ds = [] \<or> \<not> list_all digit_char ds then None
     else let n = dec_value (ascii_of ds) in if n < 2 ^ 64 then Some n else None)"

function json_walk :: "json \<Rightarrow> ustr \<Rightarrow> json option" where
  "json_walk cur cs =
     (case cs of
        [] \<Rightarrow> Some cur
      | c # r \<Rightarrow>
          if c = 46 then
            (case cur of
               JObject kvs \<Rightarrow> (case find (\<lambda>(k, _). k = takeWhile key_char r) kvs of
                   Some (_, v) \<Rightarrow> json_walk v (dropWhile key_char r) | None \<Rightarrow> None)
             | _ \<Rightarrow> None)
          else if c = 91 then
            (case parse_usize (takeWhile (\<lambda>d. d \<noteq> 93) r) of
               None \<Rightarrow> None
             | Some i \<Rightarrow> (case cur of
                 JArray vs \<Rightarrow> if i < length vs then json_walk (vs ! i) (drop 1 (dropWhile (\<lambda>d. d \<noteq> 93) r)) else None
               | _ \<Rightarrow> None))
          else None)"
  by pat_completeness auto
termination
proof (relation "measure (\<lambda>(_, cs). length cs)")
  have d: "length (dropWhile P r) < Suc (length r)" for P :: "uchar \<Rightarrow> bool" and r
    by (rule le_imp_less_Suc, rule length_dropWhile_le)
  have e: "length (drop 1 (dropWhile P r)) < Suc (length r)" for P :: "uchar \<Rightarrow> bool" and r
    using d [of P r] by (simp only: length_drop)
  show "\<And>cur cs c r kvs a k v. cs = c # r \<Longrightarrow> c = 46 \<Longrightarrow> cur = JObject kvs \<Longrightarrow>
      find (\<lambda>(k, _). k = takeWhile key_char r) kvs = Some a \<Longrightarrow> (k, v) = a \<Longrightarrow>
      ((v, dropWhile key_char r), cur, cs) \<in> measure (\<lambda>(_, cs). length cs)"
    "\<And>cur cs c r i vs. cs = c # r \<Longrightarrow> c \<noteq> 46 \<Longrightarrow> c = 91 \<Longrightarrow> parse_usize (takeWhile (\<lambda>d. d \<noteq> 93) r) = Some i \<Longrightarrow> cur = JArray vs \<Longrightarrow>
      i < length vs \<Longrightarrow> ((vs ! i, drop 1 (dropWhile (\<lambda>d. d \<noteq> 93) r)), cur, cs) \<in> measure (\<lambda>(_, cs). length cs)"
    using d e by (simp_all only: in_measure prod.case list.size add_Suc_right add_0_right)
qed simp

declare json_walk.simps [simp del]

definition json_extract :: "json \<Rightarrow> ustr \<Rightarrow> json option" where
  "json_extract j path = (case path of c # r \<Rightarrow> if c = 36 then json_walk j r else None | [] \<Rightarrow> None)"

end
