(* ===== verification/Scalar.thy ===== *)
theory Scalar
  imports Fts Vectors Json Datetime
begin

text \<open>
  Values as the executor of SQL computes with them (the last part of \<^verbatim>\<open>src/exec.rs\<close>): comparison, arithmetic, the
  three-valued logic, casts, patterns, and the conversions to and from text and JSON.
\<close>

section \<open>Logic, order and arithmetic\<close>

definition sql_fail :: "string \<Rightarrow> 'a res" where "sql_fail msg = Inl (Sql msg None)"

definition truthy3 :: "val \<Rightarrow> bool option res" where
  "truthy3 v = (case v of Bool b \<Rightarrow> Inr (Some b) | Null \<Rightarrow> Inr None | _ \<Rightarrow> sql_fail (''se esperaba BOOLEAN, no '' @ type_name v))"

definition truthy :: "val \<Rightarrow> bool res" where
  "truthy v = rbind (truthy3 v) (\<lambda>t. Inr (case t of Some b \<Rightarrow> b | None \<Rightarrow> False))"

fun cmp_values :: "val \<Rightarrow> val \<Rightarrow> ordering option res" where
  "cmp_values Null _ = Inr None"
| "cmp_values _ Null = Inr None"
| "cmp_values (Integer x) (Integer y) = Inr (Some (compare_lin (sint x) (sint y)))"
| "cmp_values (Integer x) (Real y) = Inr (f64_cmp (f64_of_i64 x) y)"
| "cmp_values (Real x) (Integer y) = Inr (f64_cmp x (f64_of_i64 y))"
| "cmp_values (Real x) (Real y) = Inr (f64_cmp x y)"
| "cmp_values (Text x) (Text y) = Inr (Some (compare_lin x y))"
| "cmp_values (Blob x) (Blob y) = Inr (Some (compare_lin x y))"
| "cmp_values (Bool x) (Bool y) = Inr (Some (compare_lin x y))"
| "cmp_values a b = sql_fail (''tipos incomparables: '' @ type_name a @ '' y '' @ type_name b)"

fun cmp_nulls_first :: "val \<Rightarrow> val \<Rightarrow> ordering res" where
  "cmp_nulls_first Null Null = Inr OEqual"
| "cmp_nulls_first Null _ = Inr OLess"
| "cmp_nulls_first _ Null = Inr OGreater"
| "cmp_nulls_first a b = rbind (cmp_values a b) (\<lambda>r. Inr (case r of Some x \<Rightarrow> x | None \<Rightarrow> OEqual))"

text \<open>\<^verbatim>\<open>checked_add\<close> and its siblings, on the exact result; the division of integers truncates.\<close>

definition checked :: "int \<Rightarrow> val res" where
  "checked n = (if - (2 ^ 63) \<le> n \<and> n < 2 ^ 63 then Inr (Integer (of_int n)) else sql_fail ''desbordamiento de entero'')"

definition int_quot :: "int \<Rightarrow> int \<Rightarrow> int" where "int_quot x y = sgn x * sgn y * (\<bar>x\<bar> div \<bar>y\<bar>)"

definition int_arith :: "bin_op \<Rightarrow> int \<Rightarrow> int \<Rightarrow> val res" where
  "int_arith op x y = (case op of
       OpAdd \<Rightarrow> checked (x + y)
     | OpSub \<Rightarrow> checked (x - y)
     | OpMul \<Rightarrow> checked (x * y)
     | OpDiv \<Rightarrow> if y = 0 then Inr Null else checked (int_quot x y)
     | OpMod \<Rightarrow> if y = 0 then Inr Null else Inr (Integer (of_int (x - y * int_quot x y)))
     | _ \<Rightarrow> Inl Panic)"

definition f64_zero :: "u64 \<Rightarrow> bool" where "f64_zero x \<longleftrightarrow> f64_cmp x 0 = Some OEqual"

definition real_arith :: "bin_op \<Rightarrow> u64 \<Rightarrow> u64 \<Rightarrow> val res" where
  "real_arith op x y =
     (if op \<in> {OpDiv, OpMod} \<and> f64_zero y then Inr Null
      else rbind (case op of OpAdd \<Rightarrow> Inr (f64_add x y) | OpSub \<Rightarrow> Inr (f64_sub x y) | OpMul \<Rightarrow> Inr (f64_mul x y)
             | OpDiv \<Rightarrow> Inr (f64_div x y) | OpMod \<Rightarrow> Inr (f64_rem x y) | _ \<Rightarrow> Inl Panic)
        (\<lambda>r. Inr (if f64_is_nan r then Null else Real r)))"

definition num_f64 :: "val \<Rightarrow> u64 option" where
  "num_f64 v = (case v of Integer n \<Rightarrow> Some (f64_of_i64 n) | Real f \<Rightarrow> Some f | _ \<Rightarrow> None)"

definition arith :: "bin_op \<Rightarrow> val \<Rightarrow> val \<Rightarrow> val res" where
  "arith op a b =
     (if a = Null \<or> b = Null then Inr Null
      else case (a, b) of
        (Integer x, Integer y) \<Rightarrow> int_arith op (sint x) (sint y)
      | _ \<Rightarrow> (case (num_f64 a, num_f64 b) of
            (Some x, Some y) \<Rightarrow> real_arith op x y
          | _ \<Rightarrow> sql_fail (''aritmetica sobre '' @ type_name a @ '' y '' @ type_name b)))"

section \<open>Patterns\<close>

fun like_match :: "ustr \<Rightarrow> ustr \<Rightarrow> bool" where
  "like_match [] s \<longleftrightarrow> s = []"
| "like_match (c # p) s \<longleftrightarrow>
     (if c = 37 then list_ex (\<lambda>i. like_match p (drop i s)) [0..<length s + 1]
      else if c = 95 then s \<noteq> [] \<and> like_match p (drop 1 s)
      else (case s of d # r \<Rightarrow> d = c \<and> like_match p (drop 1 s) | [] \<Rightarrow> False))"

function class_loop :: "ustr \<Rightarrow> uchar \<Rightarrow> bool \<Rightarrow> bool \<times> ustr" where
  "class_loop p ch matched =
     (case p of
        [] \<Rightarrow> (matched, [])
      | a # r \<Rightarrow>
          if a = 93 then (matched, r)
          else (case r of
              b # c # r2 \<Rightarrow> if b = 45 \<and> c \<noteq> 93 then class_loop r2 ch (matched \<or> a \<le> ch \<and> ch \<le> c) else class_loop r ch (matched \<or> a = ch)
            | _ \<Rightarrow> class_loop r ch (matched \<or> a = ch)))"
  by pat_completeness auto
termination by (relation "measure (\<lambda>(p, _, _). length p)") auto

declare class_loop.simps [simp del]

definition glob_class :: "ustr \<Rightarrow> uchar \<Rightarrow> bool \<times> ustr" where
  "glob_class p ch =
     (let negate = (case p of c # _ \<Rightarrow> c = 94 | [] \<Rightarrow> False) in
      case class_loop (if negate then drop 1 p else p) ch False of (m, rest) \<Rightarrow> (m \<noteq> negate, rest))"

lemma class_loop_rest: "length (snd (class_loop p ch m)) \<le> length p"
proof (induction "length p" arbitrary: p m rule: less_induct)
  case less
  have H: "length (snd (class_loop q ch n)) \<le> length p" if "length q < length p" for q n
    using less [OF that, of n] that by simp
  show ?case
  proof (cases p)
    case (Cons a r)
    have 1: "length (snd (class_loop r ch n)) \<le> Suc (length r)" "length (snd (class_loop (drop 2 r) ch n)) \<le> Suc (length r)" for n
      using H [of r n] H [of "drop 2 r" n] Cons by simp_all
    show ?thesis
    proof (cases r)
      case (Cons b r1)
      then show ?thesis using 1 \<open>p = a # r\<close> by (subst class_loop.simps) (cases r1; simp)
    qed (use 1 Cons in \<open>subst class_loop.simps; simp\<close>)
  qed (simp add: class_loop.simps)
qed

lemma glob_class_rest: "glob_class p ch = (m, rest) \<Longrightarrow> length rest \<le> length p"
  using class_loop_rest [of p ch False] class_loop_rest [of "drop 1 p" ch False]
  by (auto simp: glob_class_def Let_def split: prod.splits if_splits)

function glob_match :: "ustr \<Rightarrow> ustr \<Rightarrow> bool" where
  "glob_match p s =
     (case p of
        [] \<Rightarrow> s = []
      | c # q \<Rightarrow>
          if c = 42 then list_ex (\<lambda>i. glob_match q (drop i s)) [0..<length s + 1]
          else if c = 63 then s \<noteq> [] \<and> glob_match q (drop 1 s)
          else if c = 91 then
            (case s of [] \<Rightarrow> False | d # r \<Rightarrow> (case glob_class q d of (m, rest) \<Rightarrow> m \<and> glob_match rest r))
          else (case s of d # r \<Rightarrow> d = c \<and> glob_match q r | [] \<Rightarrow> False))"
  by pat_completeness auto
termination by (relation "measure (\<lambda>(p, _). length p)") (auto dest: glob_class_rest [OF sym] simp: less_Suc_eq_le)

declare glob_match.simps [simp del]

section \<open>Values as text\<close>

definition trimmed :: "bytes \<Rightarrow> bytes" where "trimmed s = utf8_bytes (trim (chars s))"

definition bool_text :: "bool \<Rightarrow> bytes" where "bool_text b = ascii_text (if b then ''TRUE'' else ''FALSE'')"

text \<open>\<^verbatim>\<open>parse_int\<close>: an integer, or else a finite real, truncated.\<close>

definition parse_int :: "bytes \<Rightarrow> val option" where
  "parse_int s = (let t = trimmed s in
     case parse_i64 t of
       Some n \<Rightarrow> Some (Integer n)
     | None \<Rightarrow> (case f64_parse t of
           Some f \<Rightarrow> if f64_finite f then Some (Integer (f64_to_i64 (f64_trunc f))) else None
         | None \<Rightarrow> None))"

definition cast_err :: "val \<Rightarrow> col_type \<Rightarrow> val res" where
  "cast_err v t = sql_fail (''no se puede convertir '' @ type_name v @ '' a '' @ col_type_name t)"

definition or_err :: "'a option \<Rightarrow> 'a res \<Rightarrow> 'a res" where
  "or_err x e = (case x of Some a \<Rightarrow> Inr a | None \<Rightarrow> e)"

definition cast_integer :: "val \<Rightarrow> val res" where
  "cast_integer v = (case v of
       Integer n \<Rightarrow> Inr (Integer n)
     | Bool b \<Rightarrow> Inr (Integer (if b then 1 else 0))
     | Real f \<Rightarrow> if f64_is_nan f then sql_fail ''no se puede convertir NaN a INTEGER'' else Inr (Integer (f64_to_i64 (f64_trunc f)))
     | Text s \<Rightarrow> or_err (parse_int s) (cast_err v ColInteger)
     | Blob _ \<Rightarrow> cast_err v ColInteger
     | Null \<Rightarrow> Inl Panic)"

definition cast_real :: "val \<Rightarrow> val res" where
  "cast_real v = (case v of
       Real f \<Rightarrow> Inr (Real f)
     | Integer n \<Rightarrow> Inr (Real (f64_of_i64 n))
     | Bool b \<Rightarrow> Inr (Real (if b then F64_ONE else 0))
     | Text s \<Rightarrow> or_err (map_option Real (f64_parse (trimmed s))) (cast_err v ColReal)
     | Blob _ \<Rightarrow> cast_err v ColReal
     | Null \<Rightarrow> Inl Panic)"

definition cast_text :: "val \<Rightarrow> val res" where
  "cast_text v = (case v of
       Text s \<Rightarrow> Inr (Text s)
     | Integer n \<Rightarrow> Inr (Text (int_text (sint n)))
     | Real f \<Rightarrow> Inr (Text (f64_debug f))
     | Bool b \<Rightarrow> Inr (Text (bool_text b))
     | Blob b \<Rightarrow> if valid_utf8 b then Inr (Text b) else sql_fail ''CAST de BLOB no-UTF-8 a TEXT''
     | Null \<Rightarrow> Inl Panic)"

definition cast_blob :: "val \<Rightarrow> val res" where
  "cast_blob v = (case v of Blob b \<Rightarrow> Inr (Blob b) | Text s \<Rightarrow> Inr (Blob s) | _ \<Rightarrow> cast_err v ColBlob)"

definition cast_boolean :: "val \<Rightarrow> val res" where
  "cast_boolean v = (case v of
       Bool b \<Rightarrow> Inr (Bool b)
     | Integer n \<Rightarrow> Inr (Bool (n \<noteq> 0))
     | Real f \<Rightarrow> Inr (Bool (\<not> f64_zero f))
     | Text s \<Rightarrow> (let t = map ascii_lower (trimmed s) in
         if t = ascii_text ''true'' \<or> t = ascii_text ''1'' then Inr (Bool True)
         else if t = ascii_text ''false'' \<or> t = ascii_text ''0'' then Inr (Bool False) else cast_err v ColBoolean)
     | Blob _ \<Rightarrow> cast_err v ColBoolean
     | Null \<Rightarrow> Inl Panic)"

definition cast_value :: "val \<Rightarrow> col_type \<Rightarrow> val res" where
  "cast_value v t =
     (if v = Null then Inr Null
      else case t of ColInteger \<Rightarrow> cast_integer v | ColReal \<Rightarrow> cast_real v | ColText \<Rightarrow> cast_text v
        | ColBlob \<Rightarrow> cast_blob v | ColBoolean \<Rightarrow> cast_boolean v)"

definition coerce_value :: "val \<Rightarrow> col_type \<Rightarrow> val option" where
  "coerce_value v t = (case (t, v) of
       (_, Null) \<Rightarrow> Some Null
     | (ColInteger, Integer n) \<Rightarrow> Some v
     | (ColReal, Integer n) \<Rightarrow> Some (Real (f64_of_i64 n))
     | (ColReal, Real f) \<Rightarrow> Some v
     | (ColText, Text s) \<Rightarrow> Some v
     | (ColBlob, Blob b) \<Rightarrow> Some v
     | (ColBoolean, Bool b) \<Rightarrow> Some v
     | _ \<Rightarrow> None)"

definition value_text :: "val \<Rightarrow> bytes option" where
  "value_text v = (case cast_value v ColText of Inr (Text s) \<Rightarrow> Some s | _ \<Rightarrow> None)"

definition hex_upper :: "nat \<Rightarrow> u8" where "hex_upper d = of_nat (if d < 10 then 48 + d else 55 + d)"

definition to_hex :: "bytes \<Rightarrow> bytes" where
  "to_hex bs = concat (map (\<lambda>b. [hex_upper (unat b div 16), hex_upper (unat b mod 16)]) bs)"

definition doubled_quotes :: "bytes \<Rightarrow> bytes" where "doubled_quotes s = concat (map (\<lambda>b. if b = 39 then [39, 39] else [b]) s)"

definition sql_quote :: "val \<Rightarrow> bytes" where
  "sql_quote v = (case v of
       Null \<Rightarrow> ascii_text ''NULL''
     | Integer n \<Rightarrow> int_text (sint n)
     | Real f \<Rightarrow> f64_debug f
     | Bool b \<Rightarrow> bool_text b
     | Text s \<Rightarrow> 39 # doubled_quotes s @ [39]
     | Blob b \<Rightarrow> 88 # 39 # to_hex b @ [39])"

definition pad_to :: "bytes \<Rightarrow> int \<Rightarrow> bytes \<Rightarrow> bool \<Rightarrow> bytes" where
  "pad_to s len fill left =
     (let target = nat (max len 0); cs = chars s; ps = chars fill in
      if target \<le> length cs then utf8_bytes (take target cs)
      else if fill = [] then s
      else let padding = utf8_bytes (map (\<lambda>i. ps ! (i mod length ps)) [0..<target - length cs]) in
        if left then padding @ s else s @ padding)"

section \<open>JSON\<close>

text \<open>A text parsed as JSON; the parser always returns.\<close>

definition json_doc :: "bytes \<Rightarrow> json option" where
  "json_doc s = (case json_parse (chars s) of Some r \<Rightarrow> r | None \<Rightarrow> None)"

definition json_text :: "json \<Rightarrow> bytes" where "json_text j = utf8_bytes (json_to_string j)"

definition value_to_json :: "val \<Rightarrow> json res" where
  "value_to_json v = (case v of
       Null \<Rightarrow> Inr JNull
     | Bool b \<Rightarrow> Inr (JBool b)
     | Integer n \<Rightarrow> Inr (JInt n)
     | Real f \<Rightarrow> Inr (JFloat f)
     | Text s \<Rightarrow> Inr (JStr (chars s))
     | Blob _ \<Rightarrow> sql_fail ''JSON no admite BLOB'')"

definition json_to_value :: "json \<Rightarrow> val" where
  "json_to_value j = (case j of
       JNull \<Rightarrow> Null
     | JBool b \<Rightarrow> Integer (if b then 1 else 0)
     | JInt n \<Rightarrow> Integer n
     | JFloat f \<Rightarrow> Real f
     | JStr s \<Rightarrow> Text (utf8_bytes s)
     | JArray _ \<Rightarrow> Text (json_text j)
     | JObject _ \<Rightarrow> Text (json_text j))"

definition json_path :: "val \<Rightarrow> bytes res" where
  "json_path v = (case v of Text s \<Rightarrow> Inr s | _ \<Rightarrow> sql_fail ''la ruta de json_extract debe ser TEXT (p. ej. '$.a')'')"

definition json_at :: "json \<Rightarrow> bytes \<Rightarrow> json option" where "json_at j path = json_extract j (chars path)"

definition json_arrow :: "bin_op \<Rightarrow> val \<Rightarrow> val \<Rightarrow> val res" where
  "json_arrow op doc key =
     (if doc = Null \<or> key = Null then Inr Null
      else rbind (case doc of Text s \<Rightarrow> Inr s
          | _ \<Rightarrow> sql_fail (''->/->> requieren TEXT JSON a la izquierda, no '' @ type_name doc)) (\<lambda>text.
        rbind (case key of
            Integer n \<Rightarrow> Inr (36 # 91 # int_text (sint n) @ [93])
          | Text s \<Rightarrow> Inr (case s of b # _ \<Rightarrow> if b = 36 then s else 36 # 46 # s | [] \<Rightarrow> [36, 46])
          | _ \<Rightarrow> sql_fail (''la clave de ->/->> debe ser texto o entero, no '' @ type_name key)) (\<lambda>path.
        rbind (or_err (json_doc text) (sql_fail ''->/->>: JSON invalido'')) (\<lambda>j.
        Inr (case json_at j path of
            None \<Rightarrow> Null
          | Some node \<Rightarrow> if op = OpJsonGet then Text (json_text node) else json_to_value node)))))"

end
