(* ===== verification/SqlFun.thy ===== *)
theory SqlFun
  imports Scalar
begin

text \<open>
  The scalar functions of SQL (\<^verbatim>\<open>call_function\<close> of \<^verbatim>\<open>src/exec.rs\<close>), one definition per arm.  Parameters are what the
  machine gives: the mathematical library (\<open>libm\<close>), the Unicode tables, and the clock; the generator of \<^verbatim>\<open>random()\<close> is a
  state.
\<close>

record libm =
  lm_exp :: "u64 \<Rightarrow> u64"
  lm_ln :: "u64 \<Rightarrow> u64"
  lm_log10 :: "u64 \<Rightarrow> u64"
  lm_log2 :: "u64 \<Rightarrow> u64"
  lm_sin :: "u64 \<Rightarrow> u64"
  lm_cos :: "u64 \<Rightarrow> u64"
  lm_tan :: "u64 \<Rightarrow> u64"
  lm_asin :: "u64 \<Rightarrow> u64"
  lm_acos :: "u64 \<Rightarrow> u64"
  lm_atan :: "u64 \<Rightarrow> u64"
  lm_powf :: "u64 \<Rightarrow> u64 \<Rightarrow> u64"
  lm_atan2 :: "u64 \<Rightarrow> u64 \<Rightarrow> u64"

record eval_env =
  ee_unicode :: unicode
  ee_libm :: libm
  ee_now :: u64   \<comment> \<open>milliseconds since the epoch, from the clock\<close>

definition bad_arity :: "string \<Rightarrow> 'a res" where
  "bad_arity l = sql_fail (''numero de argumentos invalido para '' @ l @ ''()'')"

definition need_num :: "string \<Rightarrow> val \<Rightarrow> 'a res" where
  "need_num l v = sql_fail (l @ ''() requiere un numero, no '' @ type_name v)"

definition need_text :: "string \<Rightarrow> val \<Rightarrow> 'a res" where
  "need_text l v = sql_fail (l @ ''() requiere TEXT, no '' @ type_name v)"

text \<open>The argument of a function of one argument: \<^verbatim>\<open>NULL\<close> gives \<^verbatim>\<open>NULL\<close>.\<close>

definition unary_fn :: "string \<Rightarrow> val list \<Rightarrow> (val \<Rightarrow> val res) \<Rightarrow> val res" where
  "unary_fn l args f = (case args of [v] \<Rightarrow> if v = Null then Inr Null else f v | _ \<Rightarrow> bad_arity l)"

text \<open>Two arguments, of which none is \<^verbatim>\<open>NULL\<close>.\<close>

definition binary_fn :: "string \<Rightarrow> val list \<Rightarrow> (val \<Rightarrow> val \<Rightarrow> val res) \<Rightarrow> val res" where
  "binary_fn l args f = (case args of [a, b] \<Rightarrow> if a = Null \<or> b = Null then Inr Null else f a b | _ \<Rightarrow> bad_arity l)"

definition count_int :: "nat \<Rightarrow> val" where "count_int n = Integer (of_nat n)"

definition num_arg :: "string \<Rightarrow> val \<Rightarrow> u64 res" where "num_arg l v = or_err (num_f64 v) (need_num l v)"
definition text_arg :: "string \<Rightarrow> val \<Rightarrow> bytes res" where "text_arg l v = or_err (value_text v) (need_text l v)"

section \<open>Text\<close>

definition fn_case :: "unicode \<Rightarrow> string \<Rightarrow> val list \<Rightarrow> val res" where
  "fn_case u l args = unary_fn l args (\<lambda>v. case v of
       Text s \<Rightarrow> Inr (Text (utf8_bytes (if l = ''upper'' then us_uppercase u (chars s) else us_lowercase u (chars s))))
     | _ \<Rightarrow> need_text l v)"

definition fn_length :: "string \<Rightarrow> val list \<Rightarrow> val res" where
  "fn_length l args = unary_fn l args (\<lambda>v. case v of
       Text s \<Rightarrow> Inr (count_int (length (chars s)))
     | Blob b \<Rightarrow> Inr (count_int (length b))
     | _ \<Rightarrow> sql_fail (''length() requiere TEXT o BLOB, no '' @ type_name v))"

definition fn_trim :: "string \<Rightarrow> val list \<Rightarrow> val res" where
  "fn_trim l args = unary_fn l args (\<lambda>v. case v of
       Text s \<Rightarrow> Inr (Text (if l = ''ltrim'' then utf8_bytes (dropWhile is_whitespace (chars s))
           else if l = ''rtrim'' then utf8_bytes (rev (dropWhile is_whitespace (rev (chars s)))) else trimmed s))
     | _ \<Rightarrow> need_text l v)"

text \<open>\<^verbatim>\<open>substr\<close> counts characters from 1, or from the end; the sum of its bounds wraps.\<close>

definition substr_chars :: "ustr \<Rightarrow> int \<Rightarrow> int option \<Rightarrow> ustr" where
  "substr_chars cs start len =
     (let n = int (length cs);
          begin_at = (if start < 0 then max (n + start) 0 else max (start - 1) 0);
          end_at = (case len of Some l \<Rightarrow> min (sint (of_int (begin_at + max l 0) :: u64)) n | None \<Rightarrow> n);
          b = nat (min begin_at n); e = nat (min (max end_at begin_at) n)
      in take (e - b) (drop b cs))"

definition fn_substr :: "val list \<Rightarrow> val res" where
  "fn_substr args = (case args of
       Null # _ \<Rightarrow> Inr Null
     | [Text s, Integer start] \<Rightarrow> Inr (Text (utf8_bytes (substr_chars (chars s) (sint start) None)))
     | [Text s, Integer start, Integer len] \<Rightarrow> Inr (Text (utf8_bytes (substr_chars (chars s) (sint start) (Some (sint len)))))
     | _ \<Rightarrow> sql_fail ''substr(texto, inicio [, largo]) con enteros'')"

function replace_sub :: "bytes \<Rightarrow> bytes \<Rightarrow> bytes \<Rightarrow> bytes" where
  "replace_sub old new s =
     (if old = [] then s
      else if starts_with s old then new @ replace_sub old new (drop (length old) s)
      else (case s of [] \<Rightarrow> [] | b # r \<Rightarrow> b # replace_sub old new r))"
  by pat_completeness auto
termination
proof (relation "measure (\<lambda>(_, _, s). length s)")
  fix old new s :: bytes
  assume "old \<noteq> []" "starts_with s old"
  then have "s \<noteq> []" by (auto simp: starts_with_def)
  then show "((old, new, drop (length old) s), old, new, s) \<in> measure (\<lambda>(_, _, s). length s)" using \<open>old \<noteq> []\<close>
    by (simp add: diff_less)
qed auto

declare replace_sub.simps [simp del]

definition fn_replace :: "string \<Rightarrow> val list \<Rightarrow> val res" where
  "fn_replace l args = (case args of
       [a, b, c] \<Rightarrow> if a = Null \<or> b = Null \<or> c = Null then Inr Null
         else (case (a, b, c) of (Text s, Text old, Text new) \<Rightarrow> Inr (Text (replace_sub old new s))
           | _ \<Rightarrow> sql_fail ''replace(texto, de, a) requiere TEXT'')
     | _ \<Rightarrow> bad_arity l)"

fun find_sub :: "bytes \<Rightarrow> bytes \<Rightarrow> nat option" where
  "find_sub needle hay = (if starts_with hay needle then Some 0 else case hay of [] \<Rightarrow> None | _ # r \<Rightarrow> map_option Suc (find_sub needle r))"

declare find_sub.simps [simp del]

definition fn_instr :: "string \<Rightarrow> val list \<Rightarrow> val res" where
  "fn_instr l args = binary_fn l args (\<lambda>a b. case (a, b) of
       (Text hay, Text needle) \<Rightarrow> Inr (count_int (if needle = [] then 1 else case find_sub needle hay of
           Some i \<Rightarrow> length (chars (take i hay)) + 1 | None \<Rightarrow> 0))
     | _ \<Rightarrow> sql_fail ''instr(texto, sub) requiere TEXT'')"

definition fn_reverse :: "string \<Rightarrow> val list \<Rightarrow> val res" where
  "fn_reverse l args = unary_fn l args (\<lambda>v. case v of Text s \<Rightarrow> Inr (Text (utf8_bytes (rev (chars s)))) | _ \<Rightarrow> need_text l v)"

definition fn_hex :: "string \<Rightarrow> val list \<Rightarrow> val res" where
  "fn_hex l args = unary_fn l args (\<lambda>v. case v of Text s \<Rightarrow> Inr (Text (to_hex s)) | Blob b \<Rightarrow> Inr (Text (to_hex b))
     | _ \<Rightarrow> sql_fail (''hex() requiere TEXT o BLOB, no '' @ type_name v))"

fun concat_values :: "string \<Rightarrow> val list \<Rightarrow> bytes res" where
  "concat_values l [] = Inr []"
| "concat_values l (v # vs) =
     (if v = Null then concat_values l vs
      else rbind (text_arg l v) (\<lambda>s. rbind (concat_values l vs) (\<lambda>r. Inr (s @ r))))"

definition fn_concat :: "string \<Rightarrow> val list \<Rightarrow> val res" where
  "fn_concat l args = (if args = [] then bad_arity l else rbind (concat_values l args) (\<lambda>s. Inr (Text s)))"

fun text_args :: "string \<Rightarrow> val list \<Rightarrow> bytes list res" where
  "text_args l [] = Inr []"
| "text_args l (v # vs) = rbind (text_arg l v) (\<lambda>s. rbind (text_args l vs) (\<lambda>r. Inr (s # r)))"

fun joined_by :: "bytes \<Rightarrow> bytes list \<Rightarrow> bytes" where
  "joined_by sep [] = []"
| "joined_by sep [s] = s"
| "joined_by sep (s # ss) = s @ sep @ joined_by sep ss"

definition fn_concat_ws :: "string \<Rightarrow> val list \<Rightarrow> val res" where
  "fn_concat_ws l args = (case args of
       [] \<Rightarrow> bad_arity l
     | sep # vs \<Rightarrow> if sep = Null then Inr Null
         else rbind (text_arg l sep) (\<lambda>s. rbind (text_args l (filter (\<lambda>v. v \<noteq> Null) vs)) (\<lambda>parts. Inr (Text (joined_by s parts)))))"

definition fn_pad :: "string \<Rightarrow> val list \<Rightarrow> val res" where
  "fn_pad l args =
     (if (case args of v # _ \<Rightarrow> v = Null | [] \<Rightarrow> False) then Inr Null
      else rbind (case args of
            [s, Integer n] \<Rightarrow> Inr (s, sint n, [32])
          | [s, Integer n, p] \<Rightarrow> rbind (text_arg l p) (\<lambda>p. Inr (s, sint n, p))
          | _ # v # _ \<Rightarrow> need_num l v
          | _ \<Rightarrow> bad_arity l)
        (\<lambda>(s, len, fill). rbind (text_arg l s) (\<lambda>s. Inr (Text (pad_to s len fill (l = ''lpad''))))))"

definition fn_unicode :: "string \<Rightarrow> val list \<Rightarrow> val res" where
  "fn_unicode l args = unary_fn l args (\<lambda>v. case v of
       Text s \<Rightarrow> Inr (case chars s of c # _ \<Rightarrow> count_int c | [] \<Rightarrow> Null) | _ \<Rightarrow> need_text l v)"

fun char_values :: "string \<Rightarrow> val list \<Rightarrow> ustr res" where
  "char_values l [] = Inr []"
| "char_values l (v # vs) =
     rbind (case v of
         Integer n \<Rightarrow> if 0 \<le> sint n \<and> is_scalar (nat (sint n)) then Inr (nat (sint n))
           else sql_fail (''char(): punto de codigo invalido: '' @ text_of (int_text (sint n)))
       | _ \<Rightarrow> need_num l v)
     (\<lambda>c. rbind (char_values l vs) (\<lambda>cs. Inr (c # cs)))"

definition fn_char :: "string \<Rightarrow> val list \<Rightarrow> val res" where
  "fn_char l args = rbind (char_values l args) (\<lambda>cs. Inr (Text (utf8_bytes cs)))"

definition fn_quote :: "string \<Rightarrow> val list \<Rightarrow> val res" where
  "fn_quote l args = (case args of [v] \<Rightarrow> Inr (Text (sql_quote v)) | _ \<Rightarrow> bad_arity l)"

definition fn_glob :: "string \<Rightarrow> val list \<Rightarrow> val res" where
  "fn_glob l args = binary_fn l args (\<lambda>a b. case (a, b) of
       (Text pat, Text s) \<Rightarrow> Inr (Bool (glob_match (chars pat) (chars s))) | _ \<Rightarrow> sql_fail ''glob(patron TEXT, texto TEXT)'')"

section \<open>\<^verbatim>\<open>printf\<close>\<close>

fun radix_text :: "nat \<Rightarrow> nat \<Rightarrow> nat \<Rightarrow> bytes" where
  "radix_text alpha b n =
     (let digit = (\<lambda>d. of_nat (if d < 10 then 48 + d else alpha + (d - 10)) :: u8) in
      if b < 2 \<or> n < b then [digit n] else radix_text alpha b (n div b) @ [digit (n mod b)])"

declare radix_text.simps [simp del]

definition printf_int :: "val \<Rightarrow> u64 res" where
  "printf_int v = rbind (cast_value v ColInteger) (\<lambda>w. Inr (case w of Integer n \<Rightarrow> n | _ \<Rightarrow> 0))"

definition printf_one :: "uchar \<Rightarrow> val \<Rightarrow> nat option \<Rightarrow> (bytes \<times> bool) res" where
  "printf_one conv arg prec =
     (if conv = 100 \<or> conv = 105 then rbind (printf_int arg) (\<lambda>n. Inr (int_text (sint n), True))
      else if conv = 120 then rbind (printf_int arg) (\<lambda>n. Inr (radix_text 97 16 (unat n), True))
      else if conv = 88 then rbind (printf_int arg) (\<lambda>n. Inr (radix_text 65 16 (unat n), True))
      else if conv = 111 then rbind (printf_int arg) (\<lambda>n. Inr (radix_text 97 8 (unat n), True))
      else if conv = 102 then
        Inr (f64_fixed (case prec of Some p \<Rightarrow> p | None \<Rightarrow> 6) (case num_f64 arg of Some x \<Rightarrow> x | None \<Rightarrow> 0), True)
      else if conv = 115 then
        (let s = (case value_text arg of Some s \<Rightarrow> s | None \<Rightarrow> []) in
         Inr (case prec of Some p \<Rightarrow> utf8_bytes (take p (chars s)) | None \<Rightarrow> s, False))
      else sql_fail (''printf(): conversion desconocida %'' @ text_of (utf8_char conv)))"

definition printf_pad :: "bytes \<Rightarrow> nat \<Rightarrow> bool \<Rightarrow> bool \<Rightarrow> bytes" where
  "printf_pad body width left zero =
     (let len = length (chars body); fill = width - len in
      if width \<le> len then body
      else if left then body @ replicate fill 32
      else if zero then (case body of
          b # r \<Rightarrow> if b = 45 \<or> b = 43 then b # replicate fill 48 @ r else replicate fill 48 @ body
        | [] \<Rightarrow> replicate fill 48)
      else replicate fill 32 @ body)"

record printf_spec =
  ps_left :: bool
  ps_zero :: bool
  ps_width :: nat
  ps_prec :: "nat option"

definition char_number :: "ustr \<Rightarrow> nat" where "char_number ds = foldl (\<lambda>n d. n * 10 + (d - 48)) 0 ds"

definition is_flag :: "uchar \<Rightarrow> bool" where "is_flag c \<longleftrightarrow> c = 45 \<or> c = 48"

definition read_spec :: "ustr \<Rightarrow> printf_spec \<times> ustr" where
  "read_spec f =
     (let flags = takeWhile is_flag f; f1 = dropWhile is_flag f;
          width = takeWhile digit_char f1; f2 = dropWhile digit_char f1;
          (prec, f3) = (case f2 of
              c # q \<Rightarrow> if c = 46 then (Some (char_number (takeWhile digit_char q)), dropWhile digit_char q) else (None, f2)
            | [] \<Rightarrow> (None, []))
      in (\<lparr>ps_left = 45 \<in> set flags, ps_zero = 48 \<in> set flags, ps_width = char_number width, ps_prec = prec\<rparr>, f3))"

lemma read_spec_rest: "read_spec f = (sp, r) \<Longrightarrow> length r \<le> length f"
proof -
  assume r: "read_spec f = (sp, r)"
  have d: "length (dropWhile P xs) \<le> length xs" for P and xs :: ustr by (rule length_dropWhile_le)
  define f2 where "f2 = dropWhile digit_char (dropWhile is_flag f)"
  have "length f2 \<le> length (dropWhile is_flag f)" "length (dropWhile is_flag f) \<le> length f"
    "length (dropWhile digit_char (tl f2)) \<le> length (tl f2)" "length (tl f2) \<le> length f2"
    unfolding f2_def by (rule d d | simp)+
  moreover have "r = f2 \<or> r = dropWhile digit_char (tl f2)"
    using r by (auto simp: read_spec_def Let_def f2_def [symmetric] split: list.splits if_splits)
  ultimately show ?thesis by auto
qed

function sql_printf :: "ustr \<Rightarrow> val list \<Rightarrow> bytes res" where
  "sql_printf f args =
     (case f of
        [] \<Rightarrow> Inr []
      | c # r \<Rightarrow>
          if c \<noteq> 37 then rbind (sql_printf r args) (\<lambda>t. Inr (utf8_char c @ t))
          else if (case r of d # _ \<Rightarrow> d = 37 | [] \<Rightarrow> False) then rbind (sql_printf (tl r) args) (\<lambda>t. Inr (37 # t))
          else (case read_spec r of (sp, q) \<Rightarrow>
            (case q of
               [] \<Rightarrow> sql_fail ''printf(): especificador incompleto''
             | conv # q2 \<Rightarrow> (case args of
                   [] \<Rightarrow> sql_fail ''printf(): faltan argumentos para el formato''
                 | arg # args2 \<Rightarrow> rbind (printf_one conv arg (ps_prec sp)) (\<lambda>(body, numeric).
                     rbind (sql_printf q2 args2) (\<lambda>t. Inr (printf_pad body (ps_width sp) (ps_left sp) (ps_zero sp \<and> numeric) @ t)))))))"
  by pat_completeness auto
termination
  by (relation "measure (\<lambda>(f, _). length f)") (auto dest!: read_spec_rest [OF sym] split: list.splits)

declare sql_printf.simps [simp del]

definition fn_printf :: "string \<Rightarrow> val list \<Rightarrow> val res" where
  "fn_printf l args = (case args of
       [] \<Rightarrow> bad_arity l
     | fmt # vs \<Rightarrow> if fmt = Null then Inr Null
         else rbind (text_arg l fmt) (\<lambda>f. rbind (sql_printf (chars f) vs) (\<lambda>s. Inr (Text s))))"

end
