(* ===== verification/SqlCall.thy ===== *)
theory SqlCall
  imports SqlFun
begin

text \<open>The remaining scalar functions (numbers, conditions, dates, JSON, vectors) and the dispatch on the name.\<close>

section \<open>Numbers\<close>

definition fn_abs :: "string \<Rightarrow> val list \<Rightarrow> val res" where
  "fn_abs l args = unary_fn l args (\<lambda>v. case v of
       Integer n \<Rightarrow> if sint n = - (2 ^ 63) then sql_fail ''desbordamiento de entero en abs()'' else Inr (Integer (of_int \<bar>sint n\<bar>))
     | Real f \<Rightarrow> Inr (Real (f64_abs_val f))
     | _ \<Rightarrow> need_num l v)"

text \<open>\<^verbatim>\<open>10f64.powi(d)\<close> for up to fifteen digits is exact.\<close>

definition round_real :: "u64 \<Rightarrow> int \<Rightarrow> u64" where
  "round_real f digits =
     (let p = f64_of_i64 (of_int (10 ^ nat (max 0 (min 15 digits)))) in f64_div (f64_half_away (f64_mul f p)) p)"

definition fn_round :: "string \<Rightarrow> val list \<Rightarrow> val res" where
  "fn_round l args =
     rbind (case args of
         [x] \<Rightarrow> Inr (x, 0)
       | [x, Integer d] \<Rightarrow> Inr (x, sint d)
       | [_, v] \<Rightarrow> sql_fail (''round(): el 2 argumento debe ser un entero, no '' @ type_name v)
       | _ \<Rightarrow> bad_arity l)
     (\<lambda>(x, digits). case x of
         Null \<Rightarrow> Inr Null
       | Integer n \<Rightarrow> Inr (Real (f64_of_i64 n))
       | Real f \<Rightarrow> Inr (Real (round_real f digits))
       | _ \<Rightarrow> need_num l x)"

definition fn_ceil_floor :: "string \<Rightarrow> val list \<Rightarrow> val res" where
  "fn_ceil_floor l args = unary_fn l args (\<lambda>v. case v of
       Integer n \<Rightarrow> Inr (Integer n)
     | Real f \<Rightarrow> Inr (Real (if l = ''floor'' then f64_floor f else f64_ceil f))
     | _ \<Rightarrow> need_num l v)"

definition f64_neg_num :: "u64 \<Rightarrow> bool" where "f64_neg_num f \<longleftrightarrow> f64_cmp f 0 = Some OLess"

definition fn_sqrt :: "string \<Rightarrow> val list \<Rightarrow> val res" where
  "fn_sqrt l args = unary_fn l args (\<lambda>v. case v of
       Integer n \<Rightarrow> Inr (if sint n < 0 then Null else Real (f64_sqrt (f64_of_i64 n)))
     | Real f \<Rightarrow> Inr (if f64_neg_num f then Null else Real (f64_sqrt f))
     | _ \<Rightarrow> need_num l v)"

definition fn_pow :: "libm \<Rightarrow> string \<Rightarrow> val list \<Rightarrow> val res" where
  "fn_pow lm l args = binary_fn l args (\<lambda>a b. rbind (num_arg l a) (\<lambda>x. rbind (num_arg l b) (\<lambda>y. Inr (Real (lm_powf lm x y)))))"

definition fn_mod :: "string \<Rightarrow> val list \<Rightarrow> val res" where
  "fn_mod l args = (case args of [a, b] \<Rightarrow> arith OpMod a b | _ \<Rightarrow> bad_arity l)"

definition fn_sign :: "string \<Rightarrow> val list \<Rightarrow> val res" where
  "fn_sign l args = unary_fn l args (\<lambda>v. case v of
       Integer n \<Rightarrow> Inr (Integer (of_int (sgn (sint n))))
     | Real f \<Rightarrow> Inr (if f64_is_nan f then Null else if f64_cmp f 0 = Some OGreater then Integer 1
         else if f64_neg_num f then Integer (- 1) else Integer 0)
     | _ \<Rightarrow> need_num l v)"

definition PI :: u64 where "PI = 0x400921FB54442D18"
definition HALF_TURN :: u64 where "HALF_TURN = f64_of_i64 180"

definition fn_pi :: "string \<Rightarrow> val list \<Rightarrow> val res" where
  "fn_pi l args = (case args of [] \<Rightarrow> Inr (Real PI) | _ \<Rightarrow> bad_arity l)"

definition math_fns :: "libm \<Rightarrow> (string \<times> (u64 \<Rightarrow> u64)) list" where
  "math_fns lm =
    [(''exp'', lm_exp lm), (''ln'', lm_ln lm), (''log10'', lm_log10 lm), (''log2'', lm_log2 lm), (''sin'', lm_sin lm),
     (''cos'', lm_cos lm), (''tan'', lm_tan lm), (''asin'', lm_asin lm), (''acos'', lm_acos lm), (''atan'', lm_atan lm),
     (''radians'', \<lambda>x. f64_mul x (f64_div PI HALF_TURN)), (''degrees'', \<lambda>x. f64_mul x (f64_div HALF_TURN PI)), (''trunc'', f64_trunc)]"

definition fn_math :: "string \<Rightarrow> (u64 \<Rightarrow> u64) \<Rightarrow> val list \<Rightarrow> val res" where
  "fn_math l f args = unary_fn l args (\<lambda>v. rbind (num_arg l v) (\<lambda>x. Inr (Real (f x))))"

text \<open>\<^verbatim>\<open>f64::log\<close> of a base is the quotient of two natural logarithms.\<close>

definition fn_log :: "libm \<Rightarrow> string \<Rightarrow> val list \<Rightarrow> val res" where
  "fn_log lm l args = (case args of
       [v] \<Rightarrow> if v = Null then Inr Null else rbind (num_arg l v) (\<lambda>x. Inr (Real (lm_log10 lm x)))
     | [b, v] \<Rightarrow> if b = Null \<or> v = Null then Inr Null
         else rbind (num_arg l b) (\<lambda>base. rbind (num_arg l v) (\<lambda>x. Inr (Real (f64_div (lm_ln lm x) (lm_ln lm base)))))
     | _ \<Rightarrow> bad_arity l)"

definition fn_atan2 :: "libm \<Rightarrow> string \<Rightarrow> val list \<Rightarrow> val res" where
  "fn_atan2 lm l args = binary_fn l args (\<lambda>y x. rbind (num_arg l y) (\<lambda>yy. rbind (num_arg l x) (\<lambda>xx. Inr (Real (lm_atan2 lm yy xx)))))"

text \<open>The generator of \<^verbatim>\<open>random()\<close>: the new state is the value.\<close>

definition next_random :: "u64 \<Rightarrow> u64" where
  "next_random x = (let x = x XOR push_bit 13 x; x = x XOR drop_bit 7 x in x XOR push_bit 17 x)"

section \<open>Conditions\<close>

definition fn_coalesce :: "string \<Rightarrow> val list \<Rightarrow> val res" where
  "fn_coalesce l args = (if args = [] then bad_arity l else Inr (case find (\<lambda>v. v \<noteq> Null) args of Some v \<Rightarrow> v | None \<Rightarrow> Null))"

definition fn_ifnull :: "string \<Rightarrow> val list \<Rightarrow> val res" where
  "fn_ifnull l args = (case args of [a, b] \<Rightarrow> Inr (if a = Null then b else a) | _ \<Rightarrow> bad_arity l)"

definition fn_typeof :: "string \<Rightarrow> val list \<Rightarrow> val res" where
  "fn_typeof l args = (case args of [v] \<Rightarrow> Inr (Text (ascii_text (type_name v))) | _ \<Rightarrow> bad_arity l)"

definition fn_nullif :: "string \<Rightarrow> val list \<Rightarrow> val res" where
  "fn_nullif l args = (case args of
       [a, b] \<Rightarrow> rbind (cmp_values a b) (\<lambda>r. Inr (if r = Some OEqual then Null else a)) | _ \<Rightarrow> bad_arity l)"

fun best_of :: "bool \<Rightarrow> val \<Rightarrow> val list \<Rightarrow> val res" where
  "best_of want_max best [] = Inr best"
| "best_of want_max best (v # vs) =
     rbind (cmp_values v best) (\<lambda>r. best_of want_max (if r = Some (if want_max then OGreater else OLess) then v else best) vs)"

definition fn_min_max :: "string \<Rightarrow> val list \<Rightarrow> val res" where
  "fn_min_max l args = (case args of
       v # w # vs \<Rightarrow> if Null \<in> set args then Inr Null else best_of (l = ''max'') v (w # vs)
     | _ \<Rightarrow> bad_arity l)"

section \<open>Dates\<close>

definition f64_lit :: "string \<Rightarrow> u64" where "f64_lit s = (case f64_parse (ascii_text s) of Some f \<Rightarrow> f | None \<Rightarrow> 0)"

definition fn_julianday :: "string \<Rightarrow> val list \<Rightarrow> val res" where
  "fn_julianday l args = unary_fn l args (\<lambda>v. case v of
       Integer ms \<Rightarrow> Inr (Real (f64_add (f64_div (f64_of_i64 ms) (f64_lit ''86400000.0'')) (f64_lit ''2440587.5'')))
     | _ \<Rightarrow> sql_fail (''julianday() espera epoch ms (INTEGER), no '' @ type_name v))"

definition fn_unixepoch :: "string \<Rightarrow> val list \<Rightarrow> val res" where
  "fn_unixepoch l args = unary_fn l args (\<lambda>v. case v of
       Integer ms \<Rightarrow> Inr (Integer (of_int (sint ms div 1000)))
     | _ \<Rightarrow> sql_fail (''unixepoch() espera epoch ms (INTEGER), no '' @ type_name v))"

definition fmt_time :: "string \<Rightarrow> val list \<Rightarrow> val res" where
  "fmt_time fmt args = (case args of
       [Null] \<Rightarrow> Inr Null
     | [Integer ms] \<Rightarrow> Inr (Text (utf8_bytes (strftime (map of_char fmt) (sint ms))))
     | [v] \<Rightarrow> sql_fail (''se esperaba epoch ms (INTEGER), no '' @ type_name v)
     | _ \<Rightarrow> sql_fail ''se esperaba 1 argumento (epoch ms INTEGER)'')"

definition fn_strftime :: "string \<Rightarrow> val list \<Rightarrow> val res" where
  "fn_strftime l args = binary_fn l args (\<lambda>a b. case (a, b) of
       (Text f, Integer ms) \<Rightarrow> Inr (Text (utf8_bytes (strftime (chars f) (sint ms))))
     | _ \<Rightarrow> sql_fail ''strftime(formato TEXT, epoch_ms INTEGER)'')"

section \<open>JSON\<close>

definition fn_json :: "string \<Rightarrow> val list \<Rightarrow> val res" where
  "fn_json l args = unary_fn l args (\<lambda>v. case v of
       Text s \<Rightarrow> or_err (map_option (\<lambda>j. Text (json_text j)) (json_doc s)) (sql_fail ''json(): texto JSON invalido'')
     | _ \<Rightarrow> sql_fail (''json() espera TEXT, no '' @ type_name v))"

definition fn_json_valid :: "string \<Rightarrow> val list \<Rightarrow> val res" where
  "fn_json_valid l args = unary_fn l args (\<lambda>v. case v of Text s \<Rightarrow> Inr (Bool (json_doc s \<noteq> None)) | _ \<Rightarrow> Inr (Bool False))"

text \<open>The node a document and an optional path denote; \<open>None\<close> is a \<^verbatim>\<open>NULL\<close> argument.\<close>

definition json_node :: "string \<Rightarrow> string \<Rightarrow> val list \<Rightarrow> json option option res" where
  "json_node usage invalid args =
     (case args of
        [v] \<Rightarrow> (if v = Null then Inr None else case v of
            Text s \<Rightarrow> rbind (or_err (json_doc s) (sql_fail invalid)) (\<lambda>j. Inr (Some (Some j))) | _ \<Rightarrow> sql_fail usage)
      | [v, p] \<Rightarrow> (if v = Null \<or> p = Null then Inr None else case (v, p) of
            (Text s, Text path) \<Rightarrow> rbind (or_err (json_doc s) (sql_fail invalid)) (\<lambda>j. Inr (Some (json_at j path)))
          | _ \<Rightarrow> sql_fail usage)
      | _ \<Rightarrow> sql_fail usage)"

definition fn_json_type :: "val list \<Rightarrow> val res" where
  "fn_json_type args = rbind (json_node ''json_type(json TEXT [, path TEXT])'' ''json_type(): JSON invalido'' args) (\<lambda>x.
     Inr (case x of Some (Some j) \<Rightarrow> Text (ascii_text (json_type_name j)) | _ \<Rightarrow> Null))"

definition fn_json_array_length :: "val list \<Rightarrow> val res" where
  "fn_json_array_length args =
     rbind (json_node ''json_array_length(json TEXT [, path TEXT])'' ''json_array_length(): JSON invalido'' args) (\<lambda>x.
     Inr (case x of None \<Rightarrow> Null | Some (Some (JArray a)) \<Rightarrow> count_int (length a) | _ \<Rightarrow> Integer 0))"

fun json_nodes :: "json \<Rightarrow> val list \<Rightarrow> json list res" where
  "json_nodes j [] = Inr []"
| "json_nodes j (p # ps) = rbind (json_path p) (\<lambda>path. rbind (json_nodes j ps) (\<lambda>r.
     Inr ((case json_at j path of Some n \<Rightarrow> n | None \<Rightarrow> JNull) # r)))"

definition fn_json_extract :: "val list \<Rightarrow> val res" where
  "fn_json_extract args = (case args of
       v # paths \<Rightarrow> if v = Null then Inr Null else (case v of
           Text s \<Rightarrow> if paths = [] then sql_fail ''json_extract(json TEXT, path TEXT, ...)''
             else rbind (or_err (json_doc s) (sql_fail ''json_extract(): JSON invalido'')) (\<lambda>j.
               case paths of
                 [p] \<Rightarrow> rbind (json_path p) (\<lambda>path. Inr (case json_at j path of Some n \<Rightarrow> json_to_value n | None \<Rightarrow> Null))
               | _ \<Rightarrow> rbind (json_nodes j paths) (\<lambda>ns. Inr (Text (json_text (JArray ns)))))
         | _ \<Rightarrow> sql_fail ''json_extract(json TEXT, path TEXT, ...)'')
     | [] \<Rightarrow> sql_fail ''json_extract(json TEXT, path TEXT, ...)'')"

fun json_pairs :: "string \<Rightarrow> val list \<Rightarrow> (ustr \<times> json) list res" where
  "json_pairs l (k # v # vs) =
     rbind (if k = Null then sql_fail ''json_object(): la clave no puede ser NULL'' else text_arg l k) (\<lambda>key.
     rbind (value_to_json v) (\<lambda>j. rbind (json_pairs l vs) (\<lambda>r. Inr ((chars key, j) # r))))"
| "json_pairs l _ = Inr []"

definition fn_json_object :: "string \<Rightarrow> val list \<Rightarrow> val res" where
  "fn_json_object l args =
     (if odd (length args) then sql_fail ''json_object() requiere pares clave/valor''
      else rbind (json_pairs l args) (\<lambda>kvs. Inr (Text (json_text (JObject kvs)))))"

fun json_values :: "val list \<Rightarrow> json list res" where
  "json_values [] = Inr []"
| "json_values (v # vs) = rbind (value_to_json v) (\<lambda>j. rbind (json_values vs) (\<lambda>r. Inr (j # r)))"

definition fn_json_array :: "val list \<Rightarrow> val res" where
  "fn_json_array args = rbind (json_values args) (\<lambda>js. Inr (Text (json_text (JArray js))))"

definition fn_json_quote :: "string \<Rightarrow> val list \<Rightarrow> val res" where
  "fn_json_quote l args = (case args of [v] \<Rightarrow> rbind (value_to_json v) (\<lambda>j. Inr (Text (json_text j))) | _ \<Rightarrow> bad_arity l)"

section \<open>Vectors\<close>

fun vector_components :: "string \<Rightarrow> val list \<Rightarrow> vec option res" where
  "vector_components l [] = Inr (Some [])"
| "vector_components l (v # vs) = (case v of
       Real r \<Rightarrow> rbind (vector_components l vs) (\<lambda>x. Inr (map_option (Cons (f32_of_f64 r)) x))
     | Integer n \<Rightarrow> rbind (vector_components l vs) (\<lambda>x. Inr (map_option (Cons (f32_of_int (sint n))) x))
     | Null \<Rightarrow> Inr None
     | _ \<Rightarrow> need_num l v)"

definition fn_vector :: "string \<Rightarrow> val list \<Rightarrow> val res" where
  "fn_vector l args = rbind (vector_components l args) (\<lambda>x. Inr (case x of
       None \<Rightarrow> Null | Some vals \<Rightarrow> Blob (if l = ''vector_i8'' then pack_i8 vals else pack_f32 vals)))"

definition fn_distance :: "string \<Rightarrow> val list \<Rightarrow> val res" where
  "fn_distance l args = binary_fn l args (\<lambda>a b. case (a, b) of
       (Blob x, Blob y) \<Rightarrow> rbind (if l = ''cosine_distance'' then cosine_distance x y
           else if l = ''l2_distance'' then l2_distance x y else dot x y) (\<lambda>d. Inr (Real d))
     | _ \<Rightarrow> sql_fail (l @ ''() requiere dos BLOB de vector''))"

section \<open>The dispatch\<close>

definition fn_table :: "eval_env \<Rightarrow> string \<Rightarrow> (string list \<times> (val list \<Rightarrow> val res)) list" where
  "fn_table ee l =
    [([''upper'', ''lower''], fn_case (ee_unicode ee) l), ([''length'', ''char_length''], fn_length l),
     ([''trim'', ''ltrim'', ''rtrim''], fn_trim l), ([''abs''], fn_abs l), ([''round''], fn_round l),
     ([''coalesce''], fn_coalesce l), ([''ifnull''], fn_ifnull l), ([''typeof''], fn_typeof l),
     ([''substr'', ''substring''], fn_substr), ([''nullif''], fn_nullif l), ([''replace''], fn_replace l),
     ([''instr''], fn_instr l), ([''reverse''], fn_reverse l), ([''hex''], fn_hex l),
     ([''ceil'', ''ceiling'', ''floor''], fn_ceil_floor l), ([''sqrt''], fn_sqrt l),
     ([''pow'', ''power''], fn_pow (ee_libm ee) l), ([''mod''], fn_mod l), ([''sign''], fn_sign l),
     ([''pi''], fn_pi l), ([''log''], fn_log (ee_libm ee) l), ([''atan2''], fn_atan2 (ee_libm ee) l),
     ([''min'', ''max''], fn_min_max l), ([''concat''], fn_concat l), ([''concat_ws''], fn_concat_ws l),
     ([''lpad'', ''rpad''], fn_pad l), ([''unicode''], fn_unicode l), ([''char''], fn_char l),
     ([''quote''], fn_quote l), ([''glob''], fn_glob l), ([''printf'', ''format''], fn_printf l),
     ([''julianday''], fn_julianday l), ([''unixepoch''], fn_unixepoch l), ([''json''], fn_json l),
     ([''json_valid''], fn_json_valid l), ([''json_type''], fn_json_type), ([''json_extract''], fn_json_extract),
     ([''json_array_length''], fn_json_array_length), ([''json_object''], fn_json_object l),
     ([''json_array''], fn_json_array), ([''json_quote''], fn_json_quote l),
     ([''now''], \<lambda>args. if args = [] then Inr (Integer (ee_now ee)) else bad_arity l),
     ([''date''], fmt_time ''%Y-%m-%d''), ([''time''], fmt_time ''%H:%M:%S''),
     ([''datetime''], fmt_time ''%Y-%m-%d %H:%M:%S''), ([''strftime''], fn_strftime l),
     ([''vector'', ''vector_i8''], fn_vector l), ([''cosine_distance'', ''l2_distance'', ''dot''], fn_distance l)]"

definition call_pure :: "eval_env \<Rightarrow> bytes \<Rightarrow> string \<Rightarrow> val list \<Rightarrow> val res" where
  "call_pure ee name l args =
     (case map_of (math_fns (ee_libm ee)) l of
        Some f \<Rightarrow> fn_math l f args
      | None \<Rightarrow> (case find (\<lambda>(ns, _). l \<in> set ns) (fn_table ee l) of
            Some (_, f) \<Rightarrow> f args
          | None \<Rightarrow> sql_fail (''funcion desconocida: '' @ text_of name @ ''()'')))"

definition call_function :: "eval_env \<Rightarrow> bytes \<Rightarrow> val list \<Rightarrow> u64 \<Rightarrow> val res \<times> u64" where
  "call_function ee name args st =
     (let l = text_of (map ascii_lower name) in
      if l = ''random'' then (if args = [] then (Inr (Integer (next_random st)), next_random st) else (bad_arity l, st))
      else (call_pure ee name l args, st))"

end
