(* ===== verification/Eval.thy ===== *)
theory Eval
  imports SqlCall
begin

text \<open>
  The evaluation of expressions (\<^verbatim>\<open>src/exec.rs\<close>): the schema of a statement, which gives columns their place in the
  combined row, and \<^verbatim>\<open>eval\<close>.  A computation carries the state of \<^verbatim>\<open>random()\<close>; the operands of an expression are passed as
  computations, so that an operator runs only those it needs.
\<close>

section \<open>The schema of a statement\<close>

record schema_table =
  sb_qualifier :: bytes
  sb_def :: table_def
  sb_offset :: nat

text \<open>What \<^verbatim>\<open>bm25\<close> needs of a query: its terms with their weights, in the order in which the map is read.\<close>

record fts_rank_ctx =
  fr_idf :: "(bytes \<times> u64) list"
  fr_avgdl :: u64

record query_schema =
  qs_tables :: "schema_table list"
  qs_fts_rank :: "((u32 \<times> bytes) \<times> fts_rank_ctx) list"

definition schema_new :: query_schema where "schema_new = \<lparr>qs_tables = [], qs_fts_rank = []\<rparr>"

definition schema_width :: "query_schema \<Rightarrow> nat" where
  "schema_width qs = (case rev (qs_tables qs) of t # _ \<Rightarrow> sb_offset t + length (td_columns (sb_def t)) | [] \<Rightarrow> 0)"

definition schema_push :: "query_schema \<Rightarrow> bytes \<Rightarrow> table_def \<Rightarrow> query_schema res" where
  "schema_push qs q d =
     (if q \<in> set (map sb_qualifier (qs_tables qs)) then sql_fail (''alias de tabla duplicado: '' @ text_of q)
      else Inr (qs\<lparr>qs_tables := qs_tables qs @ [\<lparr>sb_qualifier = q, sb_def = d, sb_offset = schema_width qs\<rparr>]\<rparr>))"

definition schema_single :: "bytes \<Rightarrow> table_def \<Rightarrow> query_schema" where
  "schema_single q d = (case schema_push schema_new q d of Inr qs \<Rightarrow> qs | Inl _ \<Rightarrow> schema_new)"

definition column_index :: "table_def \<Rightarrow> bytes \<Rightarrow> nat option" where
  "column_index d name = find_index (\<lambda>c. \<not> cd_dropped c \<and> cd_name c = name) (td_columns d)"

definition column_owner :: "query_schema \<Rightarrow> bytes option \<Rightarrow> bytes \<Rightarrow> (schema_table \<times> nat) res" where
  "column_owner qs tq name =
     (case tq of
        Some q \<Rightarrow>
          (case find (\<lambda>t. sb_qualifier t = q) (qs_tables qs) of
             None \<Rightarrow> sql_fail (''tabla desconocida en la consulta: '' @ text_of q)
           | Some t \<Rightarrow> (case column_index (sb_def t) name of
               None \<Rightarrow> sql_fail (''columna desconocida: '' @ text_of q @ ''.'' @ text_of name)
             | Some i \<Rightarrow> Inr (t, i)))
      | None \<Rightarrow>
          (case List.map_filter (\<lambda>t. map_option (Pair t) (column_index (sb_def t) name)) (qs_tables qs) of
             [] \<Rightarrow> sql_fail (''columna desconocida: '' @ text_of name)
           | [x] \<Rightarrow> Inr x
           | _ \<Rightarrow> sql_fail (''columna ambigua: '' @ text_of name)))"

definition resolve :: "query_schema \<Rightarrow> bytes option \<Rightarrow> bytes \<Rightarrow> nat res" where
  "resolve qs tq name = rbind (column_owner qs tq name) (\<lambda>(t, i). Inr (sb_offset t + i))"

definition owner_of :: "query_schema \<Rightarrow> bytes option \<Rightarrow> bytes \<Rightarrow> (table_def \<times> nat \<times> nat) res" where
  "owner_of qs tq name = rbind (column_owner qs tq name) (\<lambda>(t, i). Inr (sb_def t, i, sb_offset t))"

text \<open>A check of several parts stops at the first error.\<close>

fun all_ok :: "unit res list \<Rightarrow> unit res" where
  "all_ok [] = Inr ()"
| "all_ok (r # rs) = rbind r (\<lambda>_. all_ok rs)"

definition opt_ok :: "unit res option \<Rightarrow> unit res" where "opt_ok x = (case x of Some r \<Rightarrow> r | None \<Rightarrow> Inr ())"

fun validate_columns :: "query_schema \<Rightarrow> expr \<Rightarrow> unit res" where
  "validate_columns qs (EColumn tq name) = rbind (resolve qs tq name) (\<lambda>_. Inr ())"
| "validate_columns qs (ELiteral _) = Inr ()"
| "validate_columns qs (EParam _) = Inr ()"
| "validate_columns qs (EUnary _ e) = validate_columns qs e"
| "validate_columns qs (EBinary a _ b) = all_ok [validate_columns qs a, validate_columns qs b]"
| "validate_columns qs (EIsNull e _) = validate_columns qs e"
| "validate_columns qs (ELike e p _) = all_ok [validate_columns qs e, validate_columns qs p]"
| "validate_columns qs (EMatch c q _) = all_ok [validate_columns qs c, validate_columns qs q]"
| "validate_columns qs (EAggregate _ arg _ _) = opt_ok (map_option (validate_columns qs) arg)"
| "validate_columns qs (EFunction _ args) = all_ok (map (validate_columns qs) args)"
| "validate_columns qs (EIn e xs _) = all_ok (validate_columns qs e # map (validate_columns qs) xs)"
| "validate_columns qs (ECast e _) = validate_columns qs e"
| "validate_columns qs (ECase operand whens els) =
     all_ok (opt_ok (map_option (validate_columns qs) operand)
       # map (\<lambda>(c, r). all_ok [validate_columns qs c, validate_columns qs r]) whens @ [opt_ok (map_option (validate_columns qs) els)])"
| "validate_columns qs (EScalarSubquery _) = Inr ()"
| "validate_columns qs (EExists _) = Inr ()"
| "validate_columns qs (EInSubquery e _ _) = validate_columns qs e"
| "validate_columns qs (EWindow _ args partition_by order_by _) =
     all_ok (map (validate_columns qs) args @ map (validate_columns qs) partition_by @ map (\<lambda>(e, _). validate_columns qs e) order_by)"

definition no_aggregates :: "expr \<Rightarrow> string \<Rightarrow> unit res" where
  "no_aggregates e clause =
     (if has_aggregate e then sql_fail (''los agregados no se permiten en '' @ clause) else Inr ())"

text \<open>The target of an \<^verbatim>\<open>ORDER BY\<close>: an output column by name or position, or an expression over the input row.\<close>

definition order_output_index :: "expr \<Rightarrow> bytes list \<Rightarrow> nat res" where
  "order_output_index e columns = (case e of
       EColumn None name \<Rightarrow> (case find_index (\<lambda>c. c = name) columns of
           Some i \<Rightarrow> Inr i | None \<Rightarrow> sql_fail (''ORDER BY: <<'' @ text_of name @ ''>> no esta en la proyeccion''))
     | ELiteral (Integer n) \<Rightarrow> if 1 \<le> sint n \<and> unat n \<le> length columns then Inr (unat n - 1)
         else sql_fail ''ORDER BY aqui solo admite una columna de salida o su posicion''
     | _ \<Rightarrow> sql_fail ''ORDER BY aqui solo admite una columna de salida o su posicion'')"

definition aliased :: "bytes \<Rightarrow> select_item \<Rightarrow> expr option" where
  "aliased name it = (case it of ItemExpr e (Some a) \<Rightarrow> if a = name then Some e else None | _ \<Rightarrow> None)"

definition order_key_expr :: "expr \<Rightarrow> select_item list \<Rightarrow> expr res" where
  "order_key_expr e projection = (case e of
       ELiteral (Integer n) \<Rightarrow> if 1 \<le> sint n then
           (case get_at projection (unat n - 1) of
              Some (ItemExpr x _) \<Rightarrow> Inr x | _ \<Rightarrow> sql_fail (''ORDER BY: posicion fuera de rango o sobre '' @ [CHR 0x27, CHR 0x2A, CHR 0x27]))
         else Inr e
     | EColumn None name \<Rightarrow> Inr (case List.map_filter (aliased name) projection of x # _ \<Rightarrow> x | [] \<Rightarrow> e)
     | _ \<Rightarrow> Inr e)"

section \<open>Computations\<close>

type_synonym 'a ev = "u64 \<Rightarrow> 'a res \<times> u64"

definition ev_res :: "'a res \<Rightarrow> 'a ev" where "ev_res r st = (r, st)"
definition ev_ok :: "'a \<Rightarrow> 'a ev" where "ev_ok a st = (Inr a, st)"
definition ev_fail :: "string \<Rightarrow> 'a ev" where "ev_fail msg = ev_res (sql_fail msg)"

definition ebind :: "'a ev \<Rightarrow> ('a \<Rightarrow> 'b ev) \<Rightarrow> 'b ev" where
  "ebind m f st = (case m st of (Inl e, st2) \<Rightarrow> (Inl e, st2) | (Inr a, st2) \<Rightarrow> f a st2)"

definition erbind :: "'a res \<Rightarrow> ('a \<Rightarrow> 'b ev) \<Rightarrow> 'b ev" where "erbind r f = ebind (ev_res r) f"

fun run_all :: "'a ev list \<Rightarrow> 'a list ev" where
  "run_all [] = ev_ok []"
| "run_all (m # ms) = ebind m (\<lambda>a. ebind (run_all ms) (\<lambda>r. ev_ok (a # r)))"

type_synonym row_ctx = "(query_schema \<times> val list) option"

section \<open>Operators\<close>

definition negated_bool :: "bool \<Rightarrow> bool \<Rightarrow> val" where "negated_bool negated b = Bool (b \<noteq> negated)"

definition eval_neg :: "val \<Rightarrow> val res" where
  "eval_neg v = (case v of
       Null \<Rightarrow> Inr Null
     | Integer n \<Rightarrow> checked (- sint n)
     | Real f \<Rightarrow> Inr (Real (f64_neg f))
     | _ \<Rightarrow> sql_fail (''no se puede negar un '' @ type_name v))"

definition eval_not :: "val \<Rightarrow> val res" where
  "eval_not v = (case v of Null \<Rightarrow> Inr Null | Bool b \<Rightarrow> Inr (Bool (\<not> b)) | _ \<Rightarrow> sql_fail (''NOT requiere BOOLEAN, no '' @ type_name v))"

definition eval_like :: "bool \<Rightarrow> val \<Rightarrow> val \<Rightarrow> val res" where
  "eval_like negated s p =
     (if s = Null \<or> p = Null then Inr Null
      else case (s, p) of
        (Text s, Text p) \<Rightarrow> Inr (negated_bool negated (like_match (chars p) (chars s)))
      | _ \<Rightarrow> sql_fail (''LIKE requiere TEXT, no '' @ type_name s @ '' y '' @ type_name p))"

definition compare_op :: "bin_op \<Rightarrow> ordering \<Rightarrow> bool" where
  "compare_op op r = (case op of OpEq \<Rightarrow> r = OEqual | OpNe \<Rightarrow> r \<noteq> OEqual | OpLt \<Rightarrow> r = OLess | OpLe \<Rightarrow> r \<noteq> OGreater
     | OpGt \<Rightarrow> r = OGreater | _ \<Rightarrow> r \<noteq> OLess)"

definition eval_compare :: "bin_op \<Rightarrow> val \<Rightarrow> val \<Rightarrow> val res" where
  "eval_compare op l r = rbind (cmp_values l r) (\<lambda>x. Inr (case x of None \<Rightarrow> Null | Some c \<Rightarrow> Bool (compare_op op c)))"

definition eval_concat :: "val \<Rightarrow> val \<Rightarrow> val res" where
  "eval_concat l r =
     (if l = Null \<or> r = Null then Inr Null
      else case (l, r) of (Text a, Text b) \<Rightarrow> Inr (Text (a @ b))
        | _ \<Rightarrow> sql_fail (''|| requiere TEXT, no '' @ type_name l @ '' y '' @ type_name r @ '' (usa CAST)''))"

definition and_values :: "bool option \<Rightarrow> bool option \<Rightarrow> val" where
  "and_values l r = (if r = Some False then Bool False else if l = Some True \<and> r = Some True then Bool True else Null)"

definition or_values :: "bool option \<Rightarrow> bool option \<Rightarrow> val" where
  "or_values l r = (if r = Some True then Bool True else if l = Some False \<and> r = Some False then Bool False else Null)"

text \<open>A binary operator on the value of its left operand and the computation of its right one.\<close>

definition eval_binary :: "bin_op \<Rightarrow> val \<Rightarrow> val ev \<Rightarrow> val ev" where
  "eval_binary op l right = (case op of
       OpAnd \<Rightarrow> erbind (truthy3 l) (\<lambda>l3. if l3 = Some False then ev_ok (Bool False)
         else ebind right (\<lambda>r. erbind (truthy3 r) (\<lambda>r3. ev_ok (and_values l3 r3))))
     | OpOr \<Rightarrow> erbind (truthy3 l) (\<lambda>l3. if l3 = Some True then ev_ok (Bool True)
         else ebind right (\<lambda>r. erbind (truthy3 r) (\<lambda>r3. ev_ok (or_values l3 r3))))
     | _ \<Rightarrow> ebind right (\<lambda>r. ev_res (
         if op \<in> {OpEq, OpNe, OpLt, OpLe, OpGt, OpGe} then eval_compare op l r
         else if op \<in> {OpAdd, OpSub, OpMul, OpDiv, OpMod} then arith op l r
         else if op = OpConcat then eval_concat l r
         else json_arrow op l r)))"

text \<open>\<^verbatim>\<open>IN\<close> over the computations of a list: whether the value was found, and whether a \<^verbatim>\<open>NULL\<close> was seen before.\<close>

fun in_loop :: "val \<Rightarrow> bool \<Rightarrow> val ev list \<Rightarrow> (bool \<times> bool) ev" where
  "in_loop v saw_null [] = ev_ok (False, saw_null)"
| "in_loop v saw_null (m # ms) = ebind m (\<lambda>iv. erbind (cmp_values v iv) (\<lambda>r.
     if r = Some OEqual then ev_ok (True, saw_null) else in_loop v (saw_null \<or> r = None) ms))"

definition eval_in :: "bool \<Rightarrow> val \<Rightarrow> val ev list \<Rightarrow> val ev" where
  "eval_in negated v xs =
     (if v = Null then ev_ok Null
      else ebind (in_loop v False xs) (\<lambda>(found, saw_null).
        ev_ok (if found then Bool (\<not> negated) else if saw_null then Null else Bool negated)))"

fun case_loop :: "val option \<Rightarrow> (val ev \<times> val ev) list \<Rightarrow> val ev \<Rightarrow> val ev" where
  "case_loop op_val [] els = els"
| "case_loop op_val ((cond, result) # whens) els = ebind cond (\<lambda>c.
     erbind (case op_val of Some v \<Rightarrow> rbind (cmp_values v c) (\<lambda>r. Inr (r = Some OEqual)) | None \<Rightarrow> truthy c) (\<lambda>hit.
     if hit then result else case_loop op_val whens els))"

section \<open>Full-text search on a row\<close>

text \<open>A query as text; its parser always returns.\<close>

definition match_query :: "bytes \<Rightarrow> fts_query res" where
  "match_query s = (case parse_query s of Some r \<Rightarrow> r | None \<Rightarrow> Inl Panic)"

definition fts_index_of :: "table_def \<Rightarrow> nat \<Rightarrow> bytes \<Rightarrow> fts_index_def res" where
  "fts_index_of d pos name = or_err (find (\<lambda>f. pos \<in> set (ft_columns f)) (td_fts_indexes d))
     (sql_fail (''la columna <<'' @ text_of name @ ''>> no tiene un indice FULLTEXT''))"

definition row_slice :: "val list \<Rightarrow> nat \<Rightarrow> nat \<Rightarrow> val list res" where
  "row_slice row off n = or_err (get_range row off (off + n)) (Inl Panic)"

definition eval_match :: "unicode \<Rightarrow> bool \<Rightarrow> expr \<Rightarrow> val ev \<Rightarrow> row_ctx \<Rightarrow> val ev" where
  "eval_match u negated column query row = (case column of
       EColumn tq name \<Rightarrow>
         (case row of
            None \<Rightarrow> ev_fail ''MATCH no puede evaluarse fuera de una fila''
          | Some (schema, full_row) \<Rightarrow>
              erbind (owner_of schema tq name) (\<lambda>(d, pos, off).
              erbind (fts_index_of d pos name) (\<lambda>fts.
              ebind query (\<lambda>q. case q of
                  Null \<Rightarrow> ev_ok Null
                | Text s \<Rightarrow> ev_res (rbind (match_query s) (\<lambda>q. rbind (row_slice full_row off (length (td_columns d))) (\<lambda>local.
                    rbind (fts_row_matches u d fts local q) (\<lambda>m. Inr (negated_bool negated m)))))
                | _ \<Rightarrow> ev_fail ''la consulta MATCH debe ser texto''))))
     | _ \<Rightarrow> ev_fail ''MATCH requiere una columna indexada a la izquierda'')"

definition ELLIPSIS :: bytes where "ELLIPSIS = [0xE2, 0x80, 0xA6]"

definition str_arg :: "string \<Rightarrow> val ev list \<Rightarrow> nat \<Rightarrow> bytes \<Rightarrow> bytes ev" where
  "str_arg name ms i dflt = (case get_at ms i of
       None \<Rightarrow> ev_ok dflt
     | Some m \<Rightarrow> ebind m (\<lambda>v. case v of Text s \<Rightarrow> ev_ok s
         | _ \<Rightarrow> ev_fail (name @ ''(): el argumento '' @ text_of (dec_text i) @ '' debe ser texto'')))"

definition max_tokens_arg :: "val ev list \<Rightarrow> nat ev" where
  "max_tokens_arg ms = (case get_at ms 5 of
       None \<Rightarrow> ev_ok 15
     | Some m \<Rightarrow> ebind m (\<lambda>v. case v of
         Integer n \<Rightarrow> if 0 < sint n then ev_ok (unat n) else ev_fail ''snippet(): max_tokens debe ser un entero positivo''
       | _ \<Rightarrow> ev_fail ''snippet(): max_tokens debe ser un entero positivo''))"

definition eval_excerpt :: "unicode \<Rightarrow> string \<Rightarrow> expr list \<Rightarrow> val ev list \<Rightarrow> row_ctx \<Rightarrow> val ev" where
  "eval_excerpt u name args ms row =
     (case row of
        None \<Rightarrow> ev_fail (name @ ''() necesita una fila'')
      | Some (schema, full_row) \<Rightarrow>
          if length args < 2 then ev_fail (name @ ''(columna, consulta, ...) requiere al menos 2 argumentos'')
          else case args ! 0 of
            EColumn tq col \<Rightarrow>
              erbind (owner_of schema tq col) (\<lambda>(d, pos, off).
              erbind (fts_index_of d pos col) (\<lambda>fts.
              erbind (tokenizer_for (ft_tokenizer fts)) (\<lambda>tk.
              erbind (or_err (get_at full_row (off + pos)) (Inl Panic)) (\<lambda>cell. case cell of
                Null \<Rightarrow> ev_ok Null
              | Text text \<Rightarrow>
                  ebind (ms ! 1) (\<lambda>qv. case qv of
                    Null \<Rightarrow> ev_ok Null
                  | Text s \<Rightarrow>
                      erbind (match_query s) (\<lambda>q.
                      ebind (str_arg name ms 2 [91]) (\<lambda>opening.
                      ebind (str_arg name ms 3 [93]) (\<lambda>closing.
                      if name = ''highlight'' then ev_ok (Text (highlight u tk text q opening closing))
                      else ebind (str_arg name ms 4 ELLIPSIS) (\<lambda>ellipsis.
                        ebind (max_tokens_arg ms) (\<lambda>n. ev_ok (Text (snippet u tk text q opening closing ellipsis n)))))))
                  | _ \<Rightarrow> ev_fail (name @ ''(): la consulta debe ser texto''))
              | _ \<Rightarrow> ev_fail (name @ ''() solo aplica a columnas TEXT'')))))
          | _ \<Rightarrow> ev_fail (name @ ''(): el primer argumento debe ser una columna indexada''))"

text \<open>The contribution of a term to the score of a row (\<^verbatim>\<open>src/catalog.rs\<close>).\<close>

definition bm25_idf :: "libm \<Rightarrow> u64 \<Rightarrow> u64 \<Rightarrow> u64" where
  "bm25_idf lm n df =
     (let n = f64_of_u64 n; d = f64_of_u64 df; half = f64_lit ''0.5'' in
      lm_ln lm (f64_add F64_ONE (f64_div (f64_add (f64_sub n d) half) (f64_add d half))))"

definition bm25_term :: "u64 \<Rightarrow> u64 \<Rightarrow> u64 \<Rightarrow> u64 \<Rightarrow> u64" where
  "bm25_term idf tf dl avgdl =
     (let k1 = f64_lit ''1.2''; b = f64_lit ''0.75'' in
      if f64_zero tf then 0
      else let norm = (if f64_cmp avgdl 0 = Some OGreater then f64_div dl avgdl else F64_ONE) in
        f64_div (f64_mul idf (f64_mul tf (f64_add k1 F64_ONE)))
          (f64_add tf (f64_mul k1 (f64_add (f64_sub F64_ONE b) (f64_mul b norm)))))"

definition row_tokens :: "unicode \<Rightarrow> tokenizer \<Rightarrow> nat list \<Rightarrow> val list \<Rightarrow> bytes list" where
  "row_tokens u tk cols row = concat (map (\<lambda>col. case get_at row col of Some (Text text) \<Rightarrow> tokenize_all u tk text | _ \<Rightarrow> []) cols)"

definition bm25_score :: "fts_rank_ctx \<Rightarrow> bytes list \<Rightarrow> u64" where
  "bm25_score ctx tokens =
     (let dl = f64_of_u64 (of_nat (length tokens)) in
      foldl (\<lambda>score (term, idf). f64_add score (bm25_term idf (f64_of_u64 (of_nat (length (filter ((=) term) tokens)))) dl (fr_avgdl ctx)))
        0 (fr_idf ctx))"

definition eval_bm25 :: "unicode \<Rightarrow> expr list \<Rightarrow> val ev list \<Rightarrow> row_ctx \<Rightarrow> val ev" where
  "eval_bm25 u args ms row =
     (case row of
        None \<Rightarrow> ev_fail ''bm25() necesita una fila''
      | Some (schema, full_row) \<Rightarrow>
          if length args \<noteq> 2 then ev_fail ''bm25(columna, consulta) requiere 2 argumentos''
          else case args ! 0 of
            EColumn tq name \<Rightarrow> ebind (ms ! 1) (\<lambda>qv. case qv of
                Null \<Rightarrow> ev_ok Null
              | Text q_str \<Rightarrow> ev_res (
                  rbind (owner_of schema tq name) (\<lambda>(d, pos, off).
                  rbind (fts_index_of d pos name) (\<lambda>fts.
                  rbind (or_err (map_of (qs_fts_rank schema) (ft_id fts, q_str))
                      (sql_fail ''bm25() solo se admite en un SELECT directo (sin join/subconsulta)'')) (\<lambda>ctx.
                  rbind (tokenizer_for (ft_tokenizer fts)) (\<lambda>tk.
                  rbind (row_slice full_row off (length (td_columns d))) (\<lambda>local.
                  Inr (Real (bm25_score ctx (row_tokens u tk (ft_columns fts) local)))))))))
              | _ \<Rightarrow> ev_fail ''bm25(): la consulta debe ser texto'')
          | _ \<Rightarrow> ev_fail ''bm25(): el primer argumento debe ser una columna indexada'')"

section \<open>Expressions\<close>

fun eval :: "eval_env \<Rightarrow> row_ctx \<Rightarrow> val list \<Rightarrow> expr \<Rightarrow> val ev" where
  "eval ee row ps (ELiteral v) = ev_ok v"
| "eval ee row ps (EParam n) = (case (if n = 0 then None else get_at ps (n - 1)) of
     Some v \<Rightarrow> ev_ok v | None \<Rightarrow> ev_fail (''falta el parametro ?'' @ text_of (dec_text n)))"
| "eval ee row ps (EColumn tq name) = (case row of
     None \<Rightarrow> ev_fail (''aqui no se permiten columnas: '' @ text_of name)
   | Some (schema, values) \<Rightarrow> ev_res (rbind (resolve schema tq name) (\<lambda>i. or_err (get_at values i) (Inl Panic))))"
| "eval ee row ps (EAggregate _ _ _ _) = ev_fail ''los agregados solo se permiten en la lista del SELECT''"
| "eval ee row ps (EWindow _ _ _ _ _) = ev_fail ''las funciones de ventana (OVER) solo se permiten en la lista del SELECT''"
| "eval ee row ps (EUnary op e) = ebind (eval ee row ps e) (\<lambda>v. ev_res (case op of OpNeg \<Rightarrow> eval_neg v | OpNot \<Rightarrow> eval_not v))"
| "eval ee row ps (EIsNull e negated) = ebind (eval ee row ps e) (\<lambda>v. ev_ok (negated_bool negated (v = Null)))"
| "eval ee row ps (EMatch c q negated) = eval_match (ee_unicode ee) negated c (eval ee row ps q) row"
| "eval ee row ps (ELike e p negated) = ebind (eval ee row ps e) (\<lambda>s. ebind (eval ee row ps p) (\<lambda>p. ev_res (eval_like negated s p)))"
| "eval ee row ps (EBinary a op b) = ebind (eval ee row ps a) (\<lambda>l. eval_binary op l (eval ee row ps b))"
| "eval ee row ps (EFunction name args) =
     (let ms = map (eval ee row ps) args in
      if name = ascii_text ''snippet'' \<or> name = ascii_text ''highlight'' then eval_excerpt (ee_unicode ee) (text_of name) args ms row
      else if name = ascii_text ''bm25'' then eval_bm25 (ee_unicode ee) args ms row
      else ebind (run_all ms) (call_function ee name))"
| "eval ee row ps (EIn e xs negated) = ebind (eval ee row ps e) (\<lambda>v. eval_in negated v (map (eval ee row ps) xs))"
| "eval ee row ps (ECast e t) = ebind (eval ee row ps e) (\<lambda>v. ev_res (cast_value v t))"
| "eval ee row ps (ECase operand whens els) =
     (let ws = map (\<lambda>(c, r). (eval ee row ps c, eval ee row ps r)) whens;
          el = (case map_option (eval ee row ps) els of Some m \<Rightarrow> m | None \<Rightarrow> ev_ok Null)
      in case map_option (eval ee row ps) operand of
           Some m \<Rightarrow> ebind m (\<lambda>v. case_loop (Some v) ws el)
         | None \<Rightarrow> case_loop None ws el)"
| "eval ee row ps (EScalarSubquery _) = ev_fail ''subconsulta sin resolver (las correlacionadas no se soportan en v1)''"
| "eval ee row ps (EExists _) = ev_fail ''subconsulta sin resolver (las correlacionadas no se soportan en v1)''"
| "eval ee row ps (EInSubquery _ _ _) = ev_fail ''subconsulta sin resolver (las correlacionadas no se soportan en v1)''"

definition eval_const :: "eval_env \<Rightarrow> val list \<Rightarrow> expr \<Rightarrow> val ev" where "eval_const ee ps e = eval ee None ps e"

definition usize_const :: "eval_env \<Rightarrow> val list \<Rightarrow> string \<Rightarrow> expr \<Rightarrow> nat ev" where
  "usize_const ee ps what e = ebind (eval_const ee ps e) (\<lambda>v. case v of
       Integer n \<Rightarrow> if 0 \<le> sint n then ev_ok (unat n) else ev_fail (what @ '' debe ser un entero no negativo'')
     | _ \<Rightarrow> ev_fail (what @ '' debe ser un entero no negativo''))"

end
