(* ===== verification/EvalLaws.thy ===== *)
theory EvalLaws
  imports Eval
begin

text \<open>Laws of the evaluation: patterns compose, arithmetic is exact, and expressions have types.\<close>

section \<open>Patterns\<close>

lemma like_match_any: "like_match (37 # p) s \<longleftrightarrow> (\<exists>u v. s = u @ v \<and> like_match p v)"
proof
  assume "like_match (37 # p) s"
  then have "\<exists>i. like_match p (drop i s)" by (auto simp: list_ex_iff intro: exI [of _ "length s"])
  then obtain i where "like_match p (drop i s)" ..
  then show "\<exists>u v. s = u @ v \<and> like_match p v" by (intro exI [of _ "take i s"] exI [of _ "drop i s"]) simp
next
  assume "\<exists>u v. s = u @ v \<and> like_match p v"
  then obtain u v where "s = u @ v" "like_match p v" by blast
  then show "like_match (37 # p) s" by (auto simp: list_ex_iff intro!: bexI [of _ "length u"])
qed

lemma like_match_one: "like_match (95 # p) s \<longleftrightarrow> (\<exists>d r. s = d # r \<and> like_match p r)"
  by (cases s) auto

lemma like_match_char: "c \<noteq> 37 \<Longrightarrow> c \<noteq> 95 \<Longrightarrow> like_match (c # p) s \<longleftrightarrow> (\<exists>r. s = c # r \<and> like_match p r)"
  by (cases s) auto

lemma like_match_append: "like_match (p @ q) s \<longleftrightarrow> (\<exists>u v. s = u @ v \<and> like_match p u \<and> like_match q v)"
proof (induction p arbitrary: s)
  case Nil
  then show ?case by auto
next
  case (Cons c p)
  consider "c = 37" | "c = 95" | "c \<noteq> 37" "c \<noteq> 95" by blast
  then show ?case
  proof cases
    case 1
    have "like_match (37 # p @ q) s \<longleftrightarrow> (\<exists>a u v. s = a @ u @ v \<and> like_match p u \<and> like_match q v)"
      unfolding like_match_any Cons by blast
    also have "\<dots> \<longleftrightarrow> (\<exists>u v. s = u @ v \<and> like_match (37 # p) u \<and> like_match q v)"
      unfolding like_match_any by (metis append.assoc)
    finally show ?thesis using 1 by simp
  next
    case 2
    have "like_match (95 # p @ q) s \<longleftrightarrow> (\<exists>d u v. s = (d # u) @ v \<and> like_match p u \<and> like_match q v)"
      unfolding like_match_one Cons by auto
    also have "\<dots> \<longleftrightarrow> (\<exists>u v. s = u @ v \<and> like_match (95 # p) u \<and> like_match q v)"
      unfolding like_match_one by blast
    finally show ?thesis using 2 by simp
  next
    case 3
    have "like_match (c # p @ q) s \<longleftrightarrow> (\<exists>u v. s = (c # u) @ v \<and> like_match p u \<and> like_match q v)"
      unfolding like_match_char [OF 3] Cons by auto
    also have "\<dots> \<longleftrightarrow> (\<exists>u v. s = u @ v \<and> like_match (c # p) u \<and> like_match q v)"
      unfolding like_match_char [OF 3] by blast
    finally show ?thesis by simp
  qed
qed

lemma like_match_plain: "list_all (\<lambda>c. c \<noteq> 37 \<and> c \<noteq> 95) p \<Longrightarrow> like_match p s \<longleftrightarrow> s = p"
  by (induction p arbitrary: s) (auto split: list.splits)

section \<open>Integers\<close>

lemma sint_range: "- (2 ^ 63) \<le> sint (w :: u64)" "sint (w :: u64) < 2 ^ 63"
  using sint_greater_eq [of w] sint_less [of w] by simp_all

lemma sint_of_int: "- (2 ^ 63) \<le> n \<Longrightarrow> n < 2 ^ 63 \<Longrightarrow> sint (of_int n :: u64) = n"
  by (simp add: signed_of_int signed_take_bit_int_eq_self)

lemma checked_cases:
  "checked n = Inr (Integer w) \<longleftrightarrow> - (2 ^ 63) \<le> n \<and> n < 2 ^ 63 \<and> sint w = n"
  using sint_of_int [of n] sint_range [of w] by (auto simp: checked_def sql_fail_def)

lemma int_quot_bound: "y \<noteq> 0 \<Longrightarrow> \<bar>int_quot x y\<bar> \<le> \<bar>x\<bar>"
proof -
  assume y: "y \<noteq> 0"
  have "\<bar>x\<bar> div \<bar>y\<bar> \<le> \<bar>x\<bar> div 1" using y by (intro zdiv_mono2) auto
  then show ?thesis using y by (cases "x = 0") (auto simp: int_quot_def abs_mult pos_imp_zdiv_nonneg_iff)
qed


section \<open>The type of an expression\<close>

definition value_type :: "val \<Rightarrow> col_type option" where
  "value_type v = (case v of Null \<Rightarrow> None | Bool _ \<Rightarrow> Some ColBoolean | Integer _ \<Rightarrow> Some ColInteger | Real _ \<Rightarrow> Some ColReal
     | Text _ \<Rightarrow> Some ColText | Blob _ \<Rightarrow> Some ColBlob)"

definition of_type :: "val \<Rightarrow> col_type \<Rightarrow> bool" where "of_type v t \<longleftrightarrow> v = Null \<or> value_type v = Some t"

lemma of_type_simps [simp]:
  "of_type Null t" "of_type (Bool b) t \<longleftrightarrow> t = ColBoolean" "of_type (Integer n) t \<longleftrightarrow> t = ColInteger"
  "of_type (Real f) t \<longleftrightarrow> t = ColReal" "of_type (Text s) t \<longleftrightarrow> t = ColText" "of_type (Blob s) t \<longleftrightarrow> t = ColBlob"
  by (auto simp: of_type_def value_type_def)

lemma sql_fail_not [simp]: "sql_fail m \<noteq> Inr v" "Inr v \<noteq> sql_fail m" by (simp_all add: sql_fail_def)

lemma rbind_Inr: "rbind r f = Inr b \<longleftrightarrow> (\<exists>a. r = Inr a \<and> f a = Inr b)"
  by (cases r) auto

lemma or_err_Inr: "or_err x e = Inr a \<longleftrightarrow> x = Some a \<or> x = None \<and> e = Inr a"
  by (auto simp: or_err_def split: option.splits)

lemma cast_value_type: "cast_value v t = Inr w \<Longrightarrow> of_type w t"
  by (cases v; cases t) (auto simp: cast_value_def cast_integer_def cast_real_def cast_text_def cast_blob_def cast_boolean_def
      or_err_Inr cast_err_def parse_int_def Let_def split: if_splits option.splits)

lemma cast_value_same: "of_type w t \<Longrightarrow> cast_value w t = Inr w"
  by (cases w) (auto simp: cast_value_def cast_integer_def cast_real_def cast_text_def cast_blob_def cast_boolean_def)

lemma coerce_value_type: "coerce_value v t = Some w \<Longrightarrow> of_type w t"
  by (cases v; cases t) (auto simp: coerce_value_def)

lemma unary_fn_type: "unary_fn l args f = Inr w \<Longrightarrow> (\<And>v. f v = Inr w \<Longrightarrow> of_type w t) \<Longrightarrow> of_type w t"
  by (auto simp: unary_fn_def bad_arity_def split: list.splits if_splits)

lemma binary_fn_type: "binary_fn l args f = Inr w \<Longrightarrow> (\<And>a b. f a b = Inr w \<Longrightarrow> of_type w t) \<Longrightarrow> of_type w t"
  by (auto simp: binary_fn_def bad_arity_def split: list.splits if_splits)

definition fn_types :: "(string \<times> col_type) list" where
  "fn_types =
    [(''upper'', ColText), (''lower'', ColText), (''length'', ColInteger), (''char_length'', ColInteger), (''trim'', ColText),
     (''ltrim'', ColText), (''rtrim'', ColText), (''typeof'', ColText), (''substr'', ColText), (''substring'', ColText),
     (''replace'', ColText), (''instr'', ColInteger), (''reverse'', ColText), (''hex'', ColText), (''round'', ColReal),
     (''sqrt'', ColReal), (''pow'', ColReal), (''power'', ColReal), (''sign'', ColInteger), (''pi'', ColReal), (''exp'', ColReal),
     (''ln'', ColReal), (''log10'', ColReal), (''log2'', ColReal), (''sin'', ColReal), (''cos'', ColReal), (''tan'', ColReal),
     (''asin'', ColReal), (''acos'', ColReal), (''atan'', ColReal), (''radians'', ColReal), (''degrees'', ColReal), (''trunc'', ColReal),
     (''log'', ColReal), (''atan2'', ColReal), (''concat'', ColText), (''concat_ws'', ColText), (''lpad'', ColText), (''rpad'', ColText),
     (''unicode'', ColInteger), (''char'', ColText), (''quote'', ColText), (''glob'', ColBoolean), (''printf'', ColText), (''format'', ColText),
     (''julianday'', ColReal), (''unixepoch'', ColInteger), (''json'', ColText), (''json_valid'', ColBoolean), (''json_type'', ColText),
     (''json_array_length'', ColInteger), (''json_object'', ColText), (''json_array'', ColText), (''json_quote'', ColText),
     (''now'', ColInteger), (''date'', ColText), (''time'', ColText), (''datetime'', ColText), (''strftime'', ColText), (''random'', ColInteger),
     (''vector'', ColBlob), (''vector_i8'', ColBlob), (''cosine_distance'', ColReal), (''l2_distance'', ColReal), (''dot'', ColReal)]"

lemmas fn_result_simps = bad_arity_def need_num_def need_text_def count_int_def rbind_Inr or_err_Inr num_arg_def text_arg_def Let_def

lemma text_fn_types:
  "fn_case u l args = Inr w \<Longrightarrow> of_type w ColText"
  "fn_length l args = Inr w \<Longrightarrow> of_type w ColInteger"
  "fn_trim l args = Inr w \<Longrightarrow> of_type w ColText"
  "fn_instr l args = Inr w \<Longrightarrow> of_type w ColInteger"
  "fn_reverse l args = Inr w \<Longrightarrow> of_type w ColText"
  "fn_hex l args = Inr w \<Longrightarrow> of_type w ColText"
  "fn_unicode l args = Inr w \<Longrightarrow> of_type w ColInteger"
  "fn_glob l args = Inr w \<Longrightarrow> of_type w ColBoolean"
  unfolding fn_case_def fn_length_def fn_trim_def fn_instr_def fn_reverse_def fn_hex_def fn_unicode_def fn_glob_def
  by ((erule unary_fn_type binary_fn_type; auto simp: fn_result_simps split: val.splits list.splits)+)

lemma text_list_fn_types:
  "fn_substr args = Inr w \<Longrightarrow> of_type w ColText"
  "fn_replace l args = Inr w \<Longrightarrow> of_type w ColText"
  "fn_concat l args = Inr w \<Longrightarrow> of_type w ColText"
  "fn_concat_ws l args = Inr w \<Longrightarrow> of_type w ColText"
  "fn_pad l args = Inr w \<Longrightarrow> of_type w ColText"
  "fn_char l args = Inr w \<Longrightarrow> of_type w ColText"
  "fn_quote l args = Inr w \<Longrightarrow> of_type w ColText"
  "fn_printf l args = Inr w \<Longrightarrow> of_type w ColText"
  "fn_typeof l args = Inr w \<Longrightarrow> of_type w ColText"
  unfolding fn_substr_def fn_replace_def fn_concat_def fn_concat_ws_def fn_pad_def fn_char_def fn_quote_def fn_printf_def fn_typeof_def
  by (auto simp: fn_result_simps split: val.splits list.splits if_splits prod.splits)

lemma fn_round_type:
  assumes "fn_round l args = Inr w"
  shows "of_type w ColReal"
proof -
  obtain x d where "(case x of Null \<Rightarrow> Inr Null | Integer n \<Rightarrow> Inr (Real (f64_of_i64 n)) | Real f \<Rightarrow> Inr (Real (round_real f d))
      | _ \<Rightarrow> need_num l x) = Inr w"
    using assms unfolding fn_round_def rbind_Inr by (auto simp only: prod.case)
  then show ?thesis by (cases x) (auto simp: need_num_def)
qed

lemma json_node_types:
  assumes "rbind (json_node usage invalid args) (\<lambda>x. Inr (f x)) = Inr w" "\<And>x. of_type (f x) t"
  shows "of_type w t"
  using assms by (auto simp: rbind_Inr)

lemma number_fn_types:
  "fn_sqrt l args = Inr w \<Longrightarrow> of_type w ColReal"
  "fn_pow lm l args = Inr w \<Longrightarrow> of_type w ColReal"
  "fn_sign l args = Inr w \<Longrightarrow> of_type w ColInteger"
  "fn_pi l args = Inr w \<Longrightarrow> of_type w ColReal"
  "fn_math l f args = Inr w \<Longrightarrow> of_type w ColReal"
  "fn_log lm l args = Inr w \<Longrightarrow> of_type w ColReal"
  "fn_atan2 lm l args = Inr w \<Longrightarrow> of_type w ColReal"
  unfolding fn_sqrt_def fn_pow_def fn_sign_def fn_pi_def fn_math_def fn_log_def fn_atan2_def
  by (auto simp: fn_result_simps unary_fn_def binary_fn_def split: val.splits list.splits if_splits)

lemma other_fn_types:
  "fn_julianday l args = Inr w \<Longrightarrow> of_type w ColReal"
  "fn_unixepoch l args = Inr w \<Longrightarrow> of_type w ColInteger"
  "fmt_time f args = Inr w \<Longrightarrow> of_type w ColText"
  "fn_strftime l args = Inr w \<Longrightarrow> of_type w ColText"
  "fn_json l args = Inr w \<Longrightarrow> of_type w ColText"
  "fn_json_valid l args = Inr w \<Longrightarrow> of_type w ColBoolean"
  "fn_json_object l args = Inr w \<Longrightarrow> of_type w ColText"
  "fn_json_array args = Inr w \<Longrightarrow> of_type w ColText"
  "fn_json_quote l args = Inr w \<Longrightarrow> of_type w ColText"
  "fn_vector l args = Inr w \<Longrightarrow> of_type w ColBlob"
  "fn_distance l args = Inr w \<Longrightarrow> of_type w ColReal"
  unfolding fn_julianday_def fn_unixepoch_def fmt_time_def fn_strftime_def fn_json_def fn_json_valid_def  fn_json_object_def fn_json_array_def fn_json_quote_def fn_vector_def fn_distance_def
  by (auto simp: fn_result_simps unary_fn_def binary_fn_def split: val.splits list.splits if_splits option.splits json.splits)

lemma json_node_fn_types:
  "fn_json_type args = Inr w \<Longrightarrow> of_type w ColText"
  "fn_json_array_length args = Inr w \<Longrightarrow> of_type w ColInteger"
  unfolding fn_json_type_def fn_json_array_length_def
  by (erule json_node_types; simp add: count_int_def split: option.split json.split)+

text \<open>Computations that yield values of a type.\<close>

definition yields :: "val ev \<Rightarrow> col_type \<Rightarrow> bool" where
  "yields m t \<longleftrightarrow> (\<forall>st st2 v. m st = (Inr v, st2) \<longrightarrow> of_type v t)"

lemma ebind_Inr: "ebind m f st = (Inr b, st2) \<longleftrightarrow> (\<exists>a st1. m st = (Inr a, st1) \<and> f a st1 = (Inr b, st2))"
  by (auto simp: ebind_def split: prod.splits sum.splits)

lemma yields_bind: "(\<And>a. yields (f a) t) \<Longrightarrow> yields (ebind m f) t"
  by (auto simp: yields_def ebind_Inr)

lemma yields_bind_typed: "yields m s \<Longrightarrow> (\<And>a. of_type a s \<Longrightarrow> yields (f a) t) \<Longrightarrow> yields (ebind m f) t"
  by (auto simp: yields_def ebind_Inr) blast

lemma yields_rbind: "(\<And>a. r = Inr a \<Longrightarrow> yields (f a) t) \<Longrightarrow> yields (erbind r f) t"
  by (auto simp: yields_def erbind_def ebind_Inr ev_res_def)

lemma yields_ok: "of_type v t \<Longrightarrow> yields (ev_ok v) t"
  by (auto simp: yields_def ev_ok_def)

lemma yields_res: "(\<And>v. r = Inr v \<Longrightarrow> of_type v t) \<Longrightarrow> yields (ev_res r) t"
  by (auto simp: yields_def ev_res_def)

lemma yields_fail: "yields (ev_fail m) t"
  by (auto simp: yields_def ev_fail_def ev_res_def)

lemmas yields_rules = yields_bind yields_rbind yields_ok yields_res yields_fail

lemma yields_case_loop:
  "\<forall>(c, r) \<in> set ws. yields r t \<Longrightarrow> yields els t \<Longrightarrow> yields (case_loop v ws els) t"
  by (induction v ws els rule: case_loop.induct) (auto intro!: yields_rules)

lemma yields_in: "yields (eval_in negated v ms) ColBoolean"
  by (auto simp: eval_in_def intro!: yields_rules)

lemma yields_match: "yields (eval_match u negated c q row) ColBoolean"
  by (auto simp: eval_match_def negated_bool_def rbind_Inr intro!: yields_rules split: expr.split option.split val.split)

lemma yields_excerpt: "yields (eval_excerpt u name args ms row) ColText"
  by (auto simp: eval_excerpt_def intro!: yields_rules split: expr.split option.split val.split)

lemma yields_bm25: "yields (eval_bm25 u args ms row) ColReal"
  by (auto simp: eval_bm25_def rbind_Inr intro!: yields_rules split: expr.split option.split val.split)

lemma math_fns_types: "list_all (\<lambda>(l, f). map_of fn_types l = Some ColReal) (math_fns lm)"
  by (simp add: math_fns_def fn_types_def)

lemma fn_table_types:
  "list_all (\<lambda>(ns, f). list_all (\<lambda>n. case map_of fn_types n of Some t \<Rightarrow> (\<forall>args w. f args = Inr w \<longrightarrow> of_type w t) | None \<Rightarrow> True) ns) (fn_table ee l)"
  by (simp add: fn_table_def fn_types_def)
    (intro conjI allI impI; (erule text_fn_types text_list_fn_types fn_round_type number_fn_types other_fn_types json_node_fn_types | simp add: bad_arity_def split: if_splits))

lemma call_pure_type:
  assumes "map_of fn_types l = Some t" "call_pure ee name l args = Inr w"
  shows "of_type w t"
proof (cases "map_of (math_fns (ee_libm ee)) l")
  case None
  then obtain ns f where f: "find (\<lambda>(ns, _). l \<in> set ns) (fn_table ee l) = Some (ns, f)" "f args = Inr w"
    using assms(2) by (auto simp: call_pure_def split: option.splits prod.splits)
  then have "(ns, f) \<in> set (fn_table ee l)" "l \<in> set ns" by (auto simp: find_Some_iff in_set_conv_nth)
  then show ?thesis using fn_table_types [of ee l] assms(1) f(2) by (fastforce simp: list_all_iff)
next
  case (Some f)
  then have "(l, f) \<in> set (math_fns (ee_libm ee))" by (rule map_of_SomeD)
  then have "t = ColReal" using math_fns_types [of "ee_libm ee"] assms(1) by (auto simp: list_all_iff)
  then show ?thesis using Some assms(2) number_fn_types(5) by (simp add: call_pure_def)
qed

lemma call_function_type:
  assumes "map_of fn_types (text_of (map ascii_lower name)) = Some t" "call_function ee name args st = (Inr w, st2)"
  shows "of_type w t"
proof (cases "text_of (map ascii_lower name) = ''random''")
  case True
  then show ?thesis using assms by (auto simp: call_function_def Let_def bad_arity_def fn_types_def split: if_splits)
next
  case False
  then show ?thesis using assms call_pure_type by (auto simp: call_function_def Let_def)
qed

definition column_type :: "query_schema \<Rightarrow> bytes option \<Rightarrow> bytes \<Rightarrow> col_type option" where
  "column_type qs tq name = (case column_owner qs tq name of Inr (t, i) \<Rightarrow> Some (cd_col_type (td_columns (sb_def t) ! i)) | Inl _ \<Rightarrow> None)"

text \<open>A row fits the schema if every column has a value of its declared type, or \<^verbatim>\<open>NULL\<close>.\<close>

definition row_typed :: "query_schema \<Rightarrow> val list \<Rightarrow> bool" where
  "row_typed qs row \<longleftrightarrow> (\<forall>t \<in> set (qs_tables qs). \<forall>i < length (td_columns (sb_def t)).
     sb_offset t + i < length row \<and> of_type (row ! (sb_offset t + i)) (cd_col_type (td_columns (sb_def t) ! i)))"

definition numeric :: "col_type option \<Rightarrow> bool" where "numeric t \<longleftrightarrow> t = Some ColInteger \<or> t = Some ColReal"

definition arith_type :: "col_type option \<Rightarrow> col_type option \<Rightarrow> col_type option" where
  "arith_type a b = (if numeric a \<and> numeric b then Some (if a = Some ColInteger \<and> b = Some ColInteger then ColInteger else ColReal) else None)"

definition binary_type :: "bin_op \<Rightarrow> col_type option \<Rightarrow> col_type option \<Rightarrow> col_type option" where
  "binary_type op a b =
     (if op \<in> {OpAnd, OpOr, OpEq, OpNe, OpLt, OpLe, OpGt, OpGe} then Some ColBoolean
      else if op \<in> {OpAdd, OpSub, OpMul, OpDiv, OpMod} then arith_type a b
      else if op = OpJsonGetText then None else Some ColText)"

definition common_type :: "col_type option list \<Rightarrow> col_type option" where
  "common_type ts = (case ts of t # r \<Rightarrow> if list_all ((=) t) r then t else None | [] \<Rightarrow> None)"

fun expr_type :: "query_schema \<Rightarrow> expr \<Rightarrow> col_type option" where
  "expr_type qs (ELiteral v) = value_type v"
| "expr_type qs (EColumn tq name) = column_type qs tq name"
| "expr_type qs (EUnary op e) = (case op of OpNot \<Rightarrow> Some ColBoolean | OpNeg \<Rightarrow> if numeric (expr_type qs e) then expr_type qs e else None)"
| "expr_type qs (EBinary a op b) = binary_type op (expr_type qs a) (expr_type qs b)"
| "expr_type qs (EIsNull _ _) = Some ColBoolean"
| "expr_type qs (ELike _ _ _) = Some ColBoolean"
| "expr_type qs (EMatch _ _ _) = Some ColBoolean"
| "expr_type qs (EIn _ _ _) = Some ColBoolean"
| "expr_type qs (ECast _ t) = Some t"
| "expr_type qs (EFunction name _) =
     (if name = ascii_text ''snippet'' \<or> name = ascii_text ''highlight'' then Some ColText
      else if name = ascii_text ''bm25'' then Some ColReal
      else map_of fn_types (text_of (map ascii_lower name)))"
| "expr_type qs (ECase _ whens els) =
     common_type (map (\<lambda>(c, r). expr_type qs r) whens @ (case map_option (expr_type qs) els of Some t \<Rightarrow> [t] | None \<Rightarrow> []))"
| "expr_type qs _ = None"

lemma find_index_bound: "find_index P xs = Some i \<Longrightarrow> i < length xs"
  by (induction P xs arbitrary: i rule: find_index.induct) (auto split: if_splits)

lemma column_owner_in:
  assumes "column_owner qs tq name = Inr (t, i)"
  shows "t \<in> set (qs_tables qs)" "i < length (td_columns (sb_def t))"
proof -
  have "t \<in> set (qs_tables qs) \<and> i < length (td_columns (sb_def t))"
  proof (cases tq)
    case None
    then have "(t, i) \<in> set (List.map_filter (\<lambda>t. map_option (Pair t) (column_index (sb_def t) name)) (qs_tables qs))"
      using assms by (auto simp: column_owner_def split: list.splits)
    then show ?thesis by (auto simp: List.map_filter_def column_index_def dest: find_index_bound split: option.splits)
  next
    case (Some q)
    then show ?thesis using assms
      by (auto simp: column_owner_def column_index_def find_Some_iff dest: find_index_bound split: option.splits)
  qed
  then show "t \<in> set (qs_tables qs)" "i < length (td_columns (sb_def t))" by simp_all
qed

lemma get_at_Some: "get_at xs i = Some x \<longleftrightarrow> i < length xs \<and> xs ! i = x"
  by (auto simp: get_at_def)

lemma yields_column:
  assumes "row_typed qs row" "column_type qs tq name = Some t"
  shows "yields (ev_res (rbind (resolve qs tq name) (\<lambda>i. or_err (get_at row i) (Inl Panic)))) t"
  using assms column_owner_in
  by (intro yields_res) (fastforce simp: resolve_def rbind_Inr or_err_Inr get_at_Some column_type_def row_typed_def split: sum.splits prod.splits)

lemma int_arith_type: "int_arith op x y = Inr w \<Longrightarrow> of_type w ColInteger"
  by (cases op) (auto simp: int_arith_def checked_def split: if_splits)

lemma real_arith_type: "real_arith op x y = Inr w \<Longrightarrow> of_type w ColReal"
  by (auto simp: real_arith_def rbind_Inr split: if_splits)

lemma numeric_value: "of_type a t \<Longrightarrow> t = ColInteger \<or> t = ColReal \<Longrightarrow> a = Null \<or> (t = ColInteger \<and> (\<exists>n. a = Integer n)) \<or> (t = ColReal \<and> (\<exists>f. a = Real f))"
  by (cases a) auto

lemma arith_has_type:
  assumes "arith_type s u = Some t" "\<And>x. s = Some x \<Longrightarrow> of_type a x" "\<And>x. u = Some x \<Longrightarrow> of_type b x" "arith op a b = Inr w"
  shows "of_type w t"
proof -
  have N: "numeric s" "numeric u" "t = (if s = Some ColInteger \<and> u = Some ColInteger then ColInteger else ColReal)"
    using assms(1) by (auto simp: arith_type_def split: if_splits)
  obtain x where s: "s = Some x" "x = ColInteger \<or> x = ColReal" using N(1) by (auto simp: numeric_def)
  obtain y where u: "u = Some y" "y = ColInteger \<or> y = ColReal" using N(2) by (auto simp: numeric_def)
  have t: "t = (if x = ColInteger \<and> y = ColInteger then ColInteger else ColReal)" using N(3) s u by simp
  consider "a = Null \<or> b = Null" | n m where "x = ColInteger" "y = ColInteger" "a = Integer n" "b = Integer m"
    | f g where "t = ColReal" "num_f64 a = Some f" "num_f64 b = Some g" "arith op a b = real_arith op f g"
    using numeric_value [OF assms(2) [OF s(1)] s(2)] numeric_value [OF assms(3) [OF u(1)] u(2)] t
    by (auto simp: num_f64_def arith_def)
  then show ?thesis
  proof cases
    case 1
    then show ?thesis using assms(4) by (auto simp: arith_def)
  next
    case 2
    then show ?thesis using assms(4) int_arith_type t by (simp add: arith_def)
  next
    case 3
    then show ?thesis using assms(4) real_arith_type by simp
  qed
qed

lemma eval_neg_type: "of_type v t \<Longrightarrow> t = ColInteger \<or> t = ColReal \<Longrightarrow> eval_neg v = Inr w \<Longrightarrow> of_type w t"
  by (cases v) (auto simp: eval_neg_def checked_def split: if_splits)

lemma eval_not_type: "eval_not v = Inr w \<Longrightarrow> of_type w ColBoolean"
  by (cases v) (auto simp: eval_not_def)

lemma eval_like_type: "eval_like n a b = Inr w \<Longrightarrow> of_type w ColBoolean"
  by (cases a; cases b) (auto simp: eval_like_def negated_bool_def)

lemma eval_compare_type: "eval_compare op a b = Inr w \<Longrightarrow> of_type w ColBoolean"
  by (auto simp: eval_compare_def rbind_Inr split: option.splits)

lemma eval_concat_type: "eval_concat a b = Inr w \<Longrightarrow> of_type w ColText"
  by (cases a; cases b) (auto simp: eval_concat_def)

lemma json_arrow_type: "json_arrow OpJsonGet a b = Inr w \<Longrightarrow> of_type w ColText"
  by (auto simp: json_arrow_def rbind_Inr split: if_splits option.splits)

lemma yields_binary_typed:
  assumes "binary_type op s u = Some t" "\<And>x. s = Some x \<Longrightarrow> of_type l x" "\<And>x. u = Some x \<Longrightarrow> yields right x"
  shows "yields (eval_binary op l right) t"
proof -
  consider (bool) "op \<in> {OpAnd, OpOr}" | (cmp) "op \<in> {OpEq, OpNe, OpLt, OpLe, OpGt, OpGe}"
    | (arith) "op \<in> {OpAdd, OpSub, OpMul, OpDiv, OpMod}" | (concat) "op = OpConcat" | (get) "op = OpJsonGet" | (gettext) "op = OpJsonGetText"
    by (cases op) auto
  then show ?thesis
  proof cases
    case bool
    then show ?thesis using assms(1)
      by (auto simp: binary_type_def eval_binary_def and_values_def or_values_def intro!: yields_rules)
  next
    case cmp
    then show ?thesis using assms(1) by (auto simp: binary_type_def eval_binary_def intro!: yields_rules eval_compare_type)
  next
    case arith
    then have t: "arith_type s u = Some t" using assms(1) by (auto simp: binary_type_def)
    then obtain y where u: "u = Some y" by (auto simp: arith_type_def numeric_def split: if_splits)
    have "yields (ebind right (\<lambda>r. ev_res (arith op l r))) t"
    proof (rule yields_bind_typed [OF assms(3) [OF u]])
      fix r assume r: "of_type r y"
      show "yields (ev_res (arith op l r)) t"
      proof (rule yields_res)
        fix v assume v: "arith op l r = Inr v"
        show "of_type v t"
        proof (rule arith_has_type [OF t _ _ v])
          show "\<And>x. s = Some x \<Longrightarrow> of_type l x" by (rule assms(2))
          show "\<And>x. u = Some x \<Longrightarrow> of_type r x" using r u by simp
        qed
      qed
    qed
    then show ?thesis using arith by (auto simp: eval_binary_def)
  next
    case concat
    then show ?thesis using assms(1) by (auto simp: binary_type_def eval_binary_def intro!: yields_rules eval_concat_type)
  next
    case get
    then show ?thesis using assms(1) by (auto simp: binary_type_def eval_binary_def intro!: yields_rules json_arrow_type)
  next
    case gettext
    then show ?thesis using assms(1) by (auto simp: binary_type_def)
  qed
qed

lemma yieldsD: "yields m t \<Longrightarrow> m st = (Inr v, st2) \<Longrightarrow> of_type v t"
  by (auto simp: yields_def)

lemma yields_bind_opt:
  "(\<And>x. s = Some x \<Longrightarrow> yields m x) \<Longrightarrow> (\<And>a. (\<And>x. s = Some x \<Longrightarrow> of_type a x) \<Longrightarrow> yields (f a) t) \<Longrightarrow> yields (ebind m f) t"
  by (auto simp: yields_def ebind_Inr) blast

lemma common_type_member: "common_type ts = Some t \<Longrightarrow> u \<in> set ts \<Longrightarrow> u = Some t"
  by (auto simp: common_type_def list_all_iff split: list.splits if_splits)

lemma yields_call: "map_of fn_types (text_of (map ascii_lower name)) = Some t \<Longrightarrow> yields (call_function ee name args) t"
  by (auto simp: yields_def call_function_type)

lemma yields_function:
  "expr_type qs (EFunction name args) = Some t \<Longrightarrow> yields (eval ee row ps (EFunction name args)) t"
  unfolding eval.simps Let_def expr_type.simps
  by (simp only: split: if_splits) (auto intro: yields_excerpt yields_bm25 yields_bind yields_call)

lemma yields_else: "(\<And>m. els = Some m \<Longrightarrow> yields m t) \<Longrightarrow> yields (case els of Some m \<Rightarrow> m | None \<Rightarrow> ev_ok Null) t"
  by (cases els) (auto intro!: yields_rules)

lemma yields_case:
  assumes "common_type (map (\<lambda>(c, r). expr_type qs r) whens @ (case map_option (expr_type qs) els of Some t \<Rightarrow> [t] | None \<Rightarrow> [])) = Some t"
    and whens: "\<And>c r. (c, r) \<in> set whens \<Longrightarrow> expr_type qs r = Some t \<Longrightarrow> yields (eval ee row ps r) t"
    and els: "\<And>e. els = Some e \<Longrightarrow> expr_type qs e = Some t \<Longrightarrow> yields (eval ee row ps e) t"
  shows "yields (eval ee row ps (ECase operand whens els)) t"
proof -
  have ws: "\<forall>(c, r) \<in> set (map (\<lambda>(c, r). (eval ee row ps c, eval ee row ps r)) whens). yields r t"
  proof clarify
    fix c' r' assume "(c', r') \<in> set (map (\<lambda>(c, r). (eval ee row ps c, eval ee row ps r)) whens)"
    then obtain c r where m: "(c, r) \<in> set whens" and r': "r' = eval ee row ps r" by auto
    have "expr_type qs r = Some t"
      using m by (intro common_type_member [OF assms(1)]) (force simp: image_iff)
    then show "yields r' t" using whens [OF m] r' by simp
  qed
  have el: "yields (case map_option (eval ee row ps) els of Some m \<Rightarrow> m | None \<Rightarrow> ev_ok Null) t"
  proof (rule yields_else)
    fix m assume "map_option (eval ee row ps) els = Some m"
    then obtain e where e: "els = Some e" "m = eval ee row ps e" by auto
    have "expr_type qs e = Some t"
      by (intro common_type_member [OF assms(1)]) (simp add: e)
    then show "yields m t" using els e by simp
  qed
  show ?thesis
    unfolding eval.simps Let_def
    by (cases operand) (simp_all only: option.map option.case yields_bind yields_case_loop [OF ws el])
qed

lemma eval_has_type:
  "row_typed qs row \<Longrightarrow> expr_type qs e = Some t \<Longrightarrow> yields (eval ee (Some (qs, row)) ps e) t"
proof (induction qs e arbitrary: t rule: expr_type.induct)
  case (1 qs v)
  then show ?case by (auto intro!: yields_ok simp: of_type_def)
next
  case (2 qs tq name)
  then show ?case by (simp add: yields_column)
next
  case (3 qs op e)
  show ?case
  proof (cases op)
    case OpNot
    then show ?thesis using 3 by (auto intro!: yields_bind yields_res eval_not_type)
  next
    case OpNeg
    with 3 have n: "expr_type qs e = Some t" "t = ColInteger \<or> t = ColReal" by (auto simp: numeric_def split: if_splits)
    have e: "yields (eval ee (Some (qs, row)) ps e) t" using 3 OpNeg n by auto
    show ?thesis
      unfolding eval.simps OpNeg un_op.case
      by (rule yields_bind_typed [OF e], rule yields_res, erule eval_neg_type [OF _ n(2)])
  qed
next
  case (4 qs a op b)
  show ?case
    unfolding eval.simps
  proof (rule yields_bind_opt [where s = "expr_type qs a"])
    show "\<And>x. expr_type qs a = Some x \<Longrightarrow> yields (eval ee (Some (qs, row)) ps a) x" by (rule 4(1) [OF 4(3)])
    show "yields (eval_binary op l (eval ee (Some (qs, row)) ps b)) t" if "\<And>x. expr_type qs a = Some x \<Longrightarrow> of_type l x" for l
      using 4(4) that 4(2) [OF 4(3)] by (intro yields_binary_typed [where s = "expr_type qs a" and u = "expr_type qs b"]) auto
  qed
next
  case (9 qs e ty)
  then show ?case by (auto intro!: yields_bind yields_res cast_value_type)
next
  case (10 qs name args)
  from 10(2) show ?case by (rule yields_function)
next
  case (11 qs operand whens els)
  show ?case
  proof (rule yields_case)
    show "common_type (map (\<lambda>(c, r). expr_type qs r) whens @ (case map_option (expr_type qs) els of Some t \<Rightarrow> [t] | None \<Rightarrow> [])) = Some t"
      using 11 by simp
  qed (use 11 in auto)
qed (auto simp: negated_bool_def intro!: yields_rules yields_in yields_match elim: eval_like_type)

end
