(* ===== verification/FloatLaws.thy ===== *)
theory FloatLaws
  imports Floats Utf8
begin

text \<open>The printed digits of every finite double are read back as the same double.\<close>

section \<open>Rounding depends on the quotient only, and is exact on doubles\<close>

lemma half_even_scale: "0 < c \<Longrightarrow> half_even (c * n) (c * d) = half_even n d"
proof -
  assume c: "0 < c"
  have "2 * (c * x) < c * d \<longleftrightarrow> 2 * x < d" "2 * (c * x) = c * d \<longleftrightarrow> 2 * x = d" for x
    using c mult_less_cancel1 [of c "2 * x" d] mult_cancel1 [of c "2 * x" d] by (simp_all add: mult.left_commute)
  then show ?thesis using c by (simp add: half_even_def Let_def mult_mod_right [symmetric])
qed

lemma fp_nearest_scale: "0 < c \<Longrightarrow> fp_nearest f (c * n) (c * d) = fp_nearest f n d"
  using half_even_scale [of c n] by (simp add: fp_nearest_def Let_def mult.assoc)

lemma fp_nearest_cross:
  assumes "n * d' = n' * d" "0 < d" "0 < d'"
  shows "fp_nearest f n d = fp_nearest f n' d'"
  using fp_nearest_scale [of d' f n d] fp_nearest_scale [of d f n' d'] assms by (simp add: mult.commute)

lemma half_even_exact: "0 < d \<Longrightarrow> half_even (q * d) d = q"
  by (simp add: half_even_def)

lemma floorlog_between:
  assumes "2 ^ k \<le> n" "n < 2 ^ (k + 1)"
  shows "floorlog 2 n = k + 1"
proof (rule antisym)
  show "floorlog 2 n \<le> k + 1" using assms(2) by (simp add: floorlog_le_iff)
  show "k + 1 \<le> floorlog 2 n" using assms(1) by (intro floorlog_geI) simp_all
qed

text \<open>The bits of a finite double without its sign.\<close>

definition magnitude :: "u64 \<Rightarrow> nat" where "magnitude a = unat a mod 2 ^ 63"

lemma d64_parts:
  assumes "d64 a = Fin s m"
  shows "magnitude a < 2047 * 2 ^ 52" "unat a = sign_bit F64 s + magnitude a"
    "m = (if magnitude a div 2 ^ 52 = 0 then magnitude a mod 2 ^ 52
      else (2 ^ 52 + magnitude a mod 2 ^ 52) * 2 ^ (magnitude a div 2 ^ 52 - 1))"
proof -
  have b: "unat a < 2 ^ 64" using unsigned_less [of a] by simp
  have "magnitude a < 2 ^ 63" by (simp add: magnitude_def)
  then have e: "magnitude a div 2 ^ 52 < 2048" by (simp add: less_mult_imp_div_less)
  have f: "s = (2 ^ 63 \<le> unat a)" "magnitude a div 2 ^ 52 \<noteq> 2047"
    and m: "m = (if magnitude a div 2 ^ 52 = 0 then magnitude a mod 2 ^ 52
      else (2 ^ 52 + magnitude a mod 2 ^ 52) * 2 ^ (magnitude a div 2 ^ 52 - 1))"
    using assms unfolding d64_def fp_read_def Let_def F64_def magnitude_def by (auto split: if_splits)
  show "m = (if magnitude a div 2 ^ 52 = 0 then magnitude a mod 2 ^ 52
      else (2 ^ 52 + magnitude a mod 2 ^ 52) * 2 ^ (magnitude a div 2 ^ 52 - 1))" by (rule m)
  have "magnitude a div 2 ^ 52 < 2047" using e f(2) by linarith
  then show "magnitude a < 2047 * 2 ^ 52" by (simp add: div_less_iff_less_mult)
  have "unat a = 2 ^ 63 * (unat a div 2 ^ 63) + magnitude a" unfolding magnitude_def by simp
  moreover have "unat a div 2 ^ 63 = (if s then 1 else 0)" using b f(1) by (auto simp: div_nat_eqI)
  ultimately show "unat a = sign_bit F64 s + magnitude a" by (simp add: sign_bit_def F64_def split: if_splits)
qed

lemma mod_and_steps:
  fixes b c :: nat
  assumes "b div c \<noteq> 0"
  shows "c + b mod c + (b div c - 1) * c = b"
proof -
  have "(b div c - 1) * c + c = b div c * c" using assms by (cases "b div c") simp_all
  then show ?thesis using div_mult_mod_eq [of b c] by linarith
qed

lemma fp_nearest_double:
  assumes "d64 a = Fin s m" "0 < d"
  shows "fp_nearest F64 (m * d) d = magnitude a"
proof -
  let ?b = "magnitude a" and ?e = "magnitude a div 2 ^ 52" and ?x = "magnitude a mod 2 ^ 52"
  note P = d64_parts [OF assms(1)]
  have top: "min (2047 * 2 ^ 52) ?b = ?b" using P(1) by simp
  have x: "?x < 2 ^ 52" by simp
  have b: "?b = ?e * 2 ^ 52 + ?x" by simp
  show ?thesis
  proof (cases "?e = 0")
    case True
    then have m: "m = ?x" using P(3) by simp
    have "floorlog 2 m \<le> 53" using x m by (simp add: floorlog_le_iff)
    then show ?thesis using assms(2) True m b top by (simp add: fp_nearest_def F64_def Let_def half_even_exact)
  next
    case False
    then have m: "m = (2 ^ 52 + ?x) * 2 ^ (?e - 1)" using P(3) by simp
    have "floorlog 2 m = 52 + (?e - 1) + 1"
    proof (rule floorlog_between)
      show "2 ^ (52 + (?e - 1)) \<le> m" unfolding m power_add by (rule mult_right_mono) simp_all
      have "(2 ^ 52 + ?x) * 2 ^ (?e - 1) < 2 ^ 53 * 2 ^ (?e - 1)" using x by (intro mult_strict_right_mono) simp_all
      then show "m < 2 ^ (52 + (?e - 1) + 1)" unfolding m by (simp only: power_add [symmetric]) (simp add: ac_simps)
    qed
    then have k: "floorlog 2 m - 53 = ?e - 1" by simp
    have "half_even (m * d) (d * 2 ^ (?e - 1)) = 2 ^ 52 + ?x"
      unfolding m using half_even_exact [of "d * 2 ^ (?e - 1)" "2 ^ 52 + ?x"] assms(2) by (simp add: ac_simps)
    moreover have "2 ^ 52 + ?x + (?e - 1) * 2 ^ 52 = ?b" by (rule mod_and_steps [OF False])
    ultimately show ?thesis using assms(2) k top by (simp add: fp_nearest_def F64_def Let_def)
  qed
qed

lemma fp_nearest_top: "fp_nearest F64 n d \<le> 2047 * 2 ^ 52"
  by (simp add: fp_nearest_def F64_def Let_def)

lemma digits_ok_nearest:
  assumes "digits_ok m n e" "d64 a = Fin s m"
  shows "(case dec_ratio n e of (p, q) \<Rightarrow> fp_nearest F64 p q) = magnitude a"
proof -
  obtain p q where pq: "dec_ratio n e = (p, q)" by (cases "dec_ratio n e")
  let ?r = "fp_nearest F64 p q" and ?w = "of_nat (fp_nearest F64 p q) :: u64"
  have "?r < 2 ^ 63" using fp_nearest_top [of p q] by simp
  then have w: "unat ?w = ?r" "magnitude ?w = ?r" by (simp_all add: unat_of_nat magnitude_def)
  then have "d64 ?w = Fin False m" using assms(1) pq by (simp add: digits_ok_def d64_def)
  then show ?thesis using fp_nearest_double [of ?w False m 1] fp_nearest_double [OF assms(2), of 1] w pq by simp
qed

text \<open>A pair of digits and exponent denotes the double if its quotient rounds to it.\<close>

definition denotes :: "nat \<Rightarrow> int \<Rightarrow> nat \<Rightarrow> bool" where
  "denotes n e b \<longleftrightarrow> (case dec_ratio n e of (p, q) \<Rightarrow> fp_nearest F64 p q = b)"

lemma dec_ratio_pos: "dec_ratio n e = (p, q) \<Longrightarrow> 0 < q"
  by (auto simp: dec_ratio_def split: if_splits)

lemma denotes_cross:
  assumes "denotes n e b" "dec_ratio n e = (p, q)" "dec_ratio n' e' = (p', q')" "p * q' = p' * q"
  shows "denotes n' e' b"
  using assms fp_nearest_cross [of p q' p' q F64] dec_ratio_pos [OF assms(2)] dec_ratio_pos [OF assms(3)] by (simp add: denotes_def)

lemma denotes_shift: "denotes (n * 10) e b \<longleftrightarrow> denotes n (e + 1) b"
proof -
  obtain p q p' q' where r: "dec_ratio (n * 10) e = (p, q)" "dec_ratio n (e + 1) = (p', q')"
    by (cases "dec_ratio (n * 10) e", cases "dec_ratio n (e + 1)")
  define U :: nat where "U = 2 ^ 1074"
  have "p * q' = p' * q"
  proof (cases "0 \<le> e")
    case True
    then have "nat (e + 1) = Suc (nat e)" by simp
    then show ?thesis using r True by (auto simp add: dec_ratio_def U_def [symmetric])
  next
    case False
    then have k: "nat (- e) = Suc (nat (- (e + 1)))" by simp
    show ?thesis
    proof (cases "e = - 1")
      case True
      then show ?thesis using r by (auto simp: dec_ratio_def U_def [symmetric])
    next
      case False2: False
      then show ?thesis using r False k by (auto simp: dec_ratio_def U_def [symmetric])
    qed
  qed
  then show ?thesis using denotes_cross [OF _ r] denotes_cross [OF _ r(2) r(1)] by auto
qed

lemma denotes_shifts: "denotes (n * 10 ^ k) e b \<longleftrightarrow> denotes n (e + int k) b"
proof (induction k arbitrary: e)
  case (Suc k)
  have "denotes (n * 10 ^ Suc k) e b \<longleftrightarrow> denotes (n * 10 ^ k) (e + 1) b"
    using denotes_shift [of "n * 10 ^ k" e b] by (simp add: ac_simps)
  then show ?case using Suc.IH [of "e + 1"] by (simp add: ac_simps)
qed simp

lemma strip_zeros_denotes: "denotes n e b \<Longrightarrow> strip_zeros n e = (n', e') \<Longrightarrow> denotes n' e' b"
proof (induction n e arbitrary: n' e' rule: strip_zeros.induct)
  case (1 n e)
  show ?case
  proof (cases "n \<noteq> 0 \<and> n mod 10 = 0")
    case True
    then have "n = n div 10 * 10" using div_mult_mod_eq [of n 10] by simp
    then have "denotes (n div 10) (e + 1) b" using "1.prems"(1) denotes_shift [of "n div 10" e b] by simp
    then show ?thesis using 1(1) [OF True] "1.prems"(2) True by (simp add: strip_zeros.simps [of n])
  next
    case False
    then show ?thesis using "1.prems" by (auto simp: strip_zeros.simps [of n])
  qed
qed

lemma strip_zeros_pos: "0 < n \<Longrightarrow> strip_zeros n e = (n', e') \<Longrightarrow> 0 < n'"
proof (induction n e arbitrary: n' e' rule: strip_zeros.induct)
  case (1 n e)
  show ?case
  proof (cases "n \<noteq> 0 \<and> n mod 10 = 0")
    case True
    then have "0 < n div 10" by (cases "n < 10") (auto simp: div_greater_zero_iff)
    then show ?thesis using 1(1) [OF True] "1.prems"(2) True by (simp add: strip_zeros.simps [of n])
  next
    case False
    then show ?thesis using "1.prems" by (auto simp: strip_zeros.simps [of n])
  qed
qed

lemma denotes_exact:
  assumes "d64 a = Fin s m"
  shows "denotes (m * 5 ^ 1074) (- 1074) (magnitude a)"
proof -
  have p: "m * 5 ^ k * 2 ^ k = m * 10 ^ k" for k :: nat by (simp add: power_mult_distrib [symmetric] mult.assoc)
  have "dec_ratio (m * 5 ^ 1074) (- 1074) = (m * 10 ^ 1074, 10 ^ 1074)"
    unfolding dec_ratio_def using p [of 1074] by (simp del: power_numeral)
  then show ?thesis using fp_nearest_double [OF assms, of "10 ^ 1074"] by (simp add: denotes_def del: power_numeral)
qed

lemma shortest_step:
  assumes "d64 a = Fin s m" "shortest_from m p k fuel = (n, e)"
    "(if fuel = 0 then (m * 5 ^ 1074, - 1074) else shortest_from m p (k + 1) (fuel - 1)) = (n, e) \<Longrightarrow> denotes n e (magnitude a)"
  shows "denotes n e (magnitude a)"
proof -
  define cands where "cands = (let (n, d) = scale10 m (p - int k); lo = n div d; r = n mod d in
    if 2 * r < d \<or> 2 * r = d \<and> even lo then [lo, lo + 1] else [lo + 1, lo])"
  have u: "shortest_from m p k fuel = (case filter (\<lambda>c. digits_ok m c (p - int k)) cands of
      c # _ \<Rightarrow> (c, p - int k)
    | [] \<Rightarrow> (if fuel = 0 then (m * 5 ^ 1074, - 1074) else shortest_from m p (k + 1) (fuel - 1)))"
    by (subst shortest_from.simps) (simp add: Let_def cands_def split_beta del: power_numeral)
  show ?thesis
  proof (cases "filter (\<lambda>c. digits_ok m c (p - int k)) cands")
    case (Cons c cs)
    then have "digits_ok m c (p - int k)" by (metis filter_eq_ConsD)
    then have "denotes c (p - int k) (magnitude a)" using digits_ok_nearest [OF _ assms(1), of c "p - int k"] by (simp add: denotes_def split_beta)
    then show ?thesis using assms(2) u Cons by simp
  next
    case Nil
    show ?thesis by (rule assms(3)) (use assms(2) u Nil in \<open>simp only: list.case\<close>)
  qed
qed

lemma shortest_from_denotes:
  "d64 a = Fin s m \<Longrightarrow> shortest_from m p k fuel = (n, e) \<Longrightarrow> denotes n e (magnitude a)"
proof (induction fuel arbitrary: k)
  case 0
  then show ?case using denotes_exact [OF 0(1)] by (rule_tac shortest_step [of a s m p k 0]) (auto simp del: power_numeral)
next
  case (Suc fuel)
  then show ?case by (rule_tac shortest_step [of a s m p k "Suc fuel"]) auto
qed

section \<open>Digits as text\<close>

lemma ascii_digit_dec: "d < 10 \<Longrightarrow> ascii_digit (of_nat (48 + d))" "d < 10 \<Longrightarrow> unat (of_nat (48 + d) :: u8) - 48 = d"
  using unat_byte [of "48 + d"] by (simp_all add: ascii_digit_def word_le_nat_alt)

lemma dec_text_digits: "list_all ascii_digit (dec_text n)" "dec_text n \<noteq> []"
proof (induction n rule: dec_text.induct)
  case (1 n)
  {
    case 1
    then show ?case using "1.IH" ascii_digit_dec(1) [of n] ascii_digit_dec(1) [of "n mod 10"] by (subst dec_text.simps) auto
  next
    case 2
    show ?case by (subst dec_text.simps) simp
  }
qed

lemma dec_value_append: "dec_value (ds @ es) = dec_value ds * 10 ^ length es + dec_value es"
proof -
  have "foldl (\<lambda>n d. 10 * n + g d) k es = k * 10 ^ length es + foldl (\<lambda>n d. 10 * n + g d) 0 es" for k :: nat and g and es :: bytes
  proof (induction es arbitrary: k)
    case (Cons e es)
    have "foldl (\<lambda>n d. 10 * n + g d) k (e # es) = foldl (\<lambda>n d. 10 * n + g d) (10 * k + g e) es" by simp
    also have "\<dots> = k * 10 ^ length (e # es) + (g e * 10 ^ length es + foldl (\<lambda>n d. 10 * n + g d) 0 es)"
      unfolding Cons [of "10 * k + g e"] by (simp add: add_mult_distrib)
    also have "g e * 10 ^ length es + foldl (\<lambda>n d. 10 * n + g d) 0 es = foldl (\<lambda>n d. 10 * n + g d) 0 (e # es)"
      unfolding Cons [of "g e", symmetric] by simp
    finally show ?case .
  qed simp
  then have "foldl (\<lambda>n d. 10 * n + (unat d - 48)) (dec_value ds) es = dec_value ds * 10 ^ length es + dec_value es"
    unfolding dec_value_def .
  then show ?thesis by (simp add: dec_value_def)
qed

lemma dec_value_text: "dec_value (dec_text n) = n"
proof (induction n rule: dec_text.induct)
  case (1 n)
  show ?case
  proof (cases "n < 10")
    case True
    then show ?thesis using ascii_digit_dec(2) [of n] by (simp add: dec_text.simps [of n] dec_value_def)
  next
    case False
    have "dec_value [of_nat (48 + n mod 10)] = n mod 10" using ascii_digit_dec(2) [of "n mod 10"] by (simp add: dec_value_def)
    then show ?thesis using False 1 by (simp add: dec_text.simps [of n] dec_value_append)
  qed
qed

lemma dec_value_zeros: "dec_value (zeros k) = 0" "length (zeros k) = k" "list_all ascii_digit (zeros k)"
  by (induction k) (simp_all add: zeros_def dec_value_append [of "[_]", simplified] dec_value_def ascii_digit_def)

lemma take_sign_digits: "list_all ascii_digit ds \<Longrightarrow> ds \<noteq> [] \<Longrightarrow> take_sign (ds @ r) = (False, ds @ r)"
  by (cases ds) (auto simp: take_sign_def ascii_digit_def)

lemma take_sign_int: "take_sign (int_text k) = (k < 0, dec_text (nat \<bar>k\<bar>))"
  using take_sign_digits [of "dec_text (nat k)" "[]"] dec_text_digits [of "nat k"] by (simp add: int_text_def take_sign_def)

lemma digits_stop:
  assumes "list_all ascii_digit ds" "\<not> ascii_digit b"
  shows "takeWhile ascii_digit (ds @ b # r) = ds" "dropWhile ascii_digit (ds @ b # r) = b # r"
    "takeWhile ascii_digit ds = ds" "dropWhile ascii_digit ds = []"
  using assms by (auto simp: list_all_iff takeWhile_append dropWhile_append takeWhile_eq_all_conv dropWhile_eq_Nil_conv)

lemma not_digits: "\<not> ascii_digit 46" "\<not> ascii_digit 101" by (simp_all add: ascii_digit_def)

text \<open>The text of a number with a fraction or an exponent or both.\<close>

definition number_text :: "bytes \<Rightarrow> bytes option \<Rightarrow> int option \<Rightarrow> bytes" where
  "number_text ip fr ex = ip @ (case fr of Some fp \<Rightarrow> 46 # fp | None \<Rightarrow> []) @ (case ex of Some k \<Rightarrow> 101 # int_text k | None \<Rightarrow> [])"

abbreviation frac_digits :: "bytes option \<Rightarrow> bytes" where "frac_digits fr \<equiv> (case fr of Some fp \<Rightarrow> fp | None \<Rightarrow> [])"

lemma not_a_name:
  assumes "ascii_digit d"
  shows "map ascii_lower (d # r) \<noteq> ascii_text ''inf''" "map ascii_lower (d # r) \<noteq> ascii_text ''infinity''"
    "map ascii_lower (d # r) \<noteq> ascii_text ''nan''"
  using assms by (auto simp: ascii_lower_def ascii_text_def ascii_digit_def)

lemma f64_parse_number:
  assumes "list_all ascii_digit ip" "ip \<noteq> []" "list_all ascii_digit (frac_digits fr)"
  shows "f64_parse ((if s then [45] else []) @ number_text ip fr ex) =
    Some (f64_of_decimal s (dec_value (ip @ frac_digits fr)) ((case ex of Some k \<Rightarrow> k | None \<Rightarrow> 0) - int (length (frac_digits fr))))"
proof -
  let ?t = "number_text ip fr ex"
  obtain d ds where ip: "ip = d # ds" "ascii_digit d" using assms by (cases ip) auto
  have sign: "take_sign ((if s then [45] else []) @ ?t) = (s, ?t)"
    using take_sign_digits [OF assms(1, 2)] by (simp add: number_text_def take_sign_def [of "45 # _"])
  have name: "map ascii_lower ?t \<notin> {ascii_text ''inf'', ascii_text ''infinity''}" "map ascii_lower ?t \<noteq> ascii_text ''nan''"
    using not_a_name [OF ip(2)] by (simp_all add: number_text_def ip(1) del: list.map)
  have e: "take_sign (int_text k) = (k < 0, dec_text (nat \<bar>k\<bar>))" for k by (rule take_sign_int)
  have v: "(if k < 0 then - int (dec_value (dec_text (nat \<bar>k\<bar>))) else int (dec_value (dec_text (nat \<bar>k\<bar>)))) = k" for k
    by (simp add: dec_value_text)
  show ?thesis
  proof (cases fr)
    case None
    then show ?thesis
      using sign name assms(1, 2)
      by (cases ex) (simp_all add: f64_parse_def e Let_def number_text_def v not_digits dec_text_digits
          digits_stop [OF assms(1) not_digits(2)] del: insert_iff)
  next
    case (Some fp)
    then show ?thesis
      using sign name assms
      by (cases ex) (simp_all add: f64_parse_def e Let_def number_text_def v not_digits dec_text_digits
          digits_stop [OF assms(1) not_digits(1)] digits_stop [of fp 101] del: insert_iff)
  qed
qed

text \<open>What is printed: a number whose digits denote the double.\<close>

definition number_ok :: "bytes \<Rightarrow> bytes option \<Rightarrow> int option \<Rightarrow> nat \<Rightarrow> bool" where
  "number_ok ip fr ex b \<longleftrightarrow> list_all ascii_digit ip \<and> ip \<noteq> [] \<and> list_all ascii_digit (frac_digits fr) \<and> (fr \<noteq> None \<or> ex \<noteq> None) \<and>
     denotes (dec_value (ip @ frac_digits fr)) ((case ex of Some k \<Rightarrow> k | None \<Rightarrow> 0) - int (length (frac_digits fr))) b"

lemma list_all_take_drop: "list_all P xs \<Longrightarrow> list_all P (take k xs)" "list_all P xs \<Longrightarrow> list_all P (drop k xs)"
  by (auto simp: list_all_iff dest: in_set_takeD in_set_dropD)

lemma dec_value_0: "dec_value [48] = 0" "dec_value [] = 0" by (simp_all add: dec_value_def)

lemma plain_text_number:
  assumes "denotes n e b"
  shows "\<exists>ip fr. plain_text n e = number_text ip fr None \<and> number_ok ip fr None b"
proof -
  let ?ds = "dec_text n"
  define p where "p = int (length ?ds) + e"
  have D: "list_all ascii_digit ?ds" "?ds \<noteq> []" by (rule dec_text_digits)+
  consider "0 \<le> e" | "e < 0" "0 < p" | "e < 0" "p \<le> 0" by linarith
  then show ?thesis
  proof cases
    case 1
    have "dec_value ((?ds @ zeros (nat e)) @ [48]) = n * 10 ^ Suc (nat e)"
      by (simp add: dec_value_append dec_value_zeros dec_value_text dec_value_0)
    moreover have "denotes (n * 10 ^ Suc (nat e)) (- 1) b" using 1 assms by (simp add: denotes_shifts del: power_Suc)
    ultimately have "number_ok (?ds @ zeros (nat e)) (Some [48]) None b"
      using D dec_value_zeros(3) by (simp add: number_ok_def ascii_digit_def del: append_assoc)
    then show ?thesis using 1 by (intro exI [of _ "?ds @ zeros (nat e)"] exI [of _ "Some [48]"]) (simp add: plain_text_def number_text_def Let_def)
  next
    case 2
    have "- int (length (drop (nat p) ?ds)) = e" using 2 by (simp add: p_def)
    then have "number_ok (take (nat p) ?ds) (Some (drop (nat p) ?ds)) None b"
      using D assms 2 by (simp add: number_ok_def list_all_take_drop dec_value_text del: length_drop)
    then show ?thesis using 2 unfolding p_def
      by (intro exI [of _ "take (nat p) ?ds"] exI [of _ "Some (drop (nat p) ?ds)"]) (simp add: plain_text_def number_text_def Let_def p_def)
  next
    case 3
    have "- int (length (zeros (nat (- p)) @ ?ds)) = e" using 3 by (simp add: p_def dec_value_zeros)
    moreover have "dec_value ([48] @ zeros (nat (- p)) @ ?ds) = n"
      by (simp only: dec_value_append dec_value_zeros dec_value_text dec_value_0)
    ultimately have "number_ok [48] (Some (zeros (nat (- p)) @ ?ds)) None b"
      using D assms dec_value_zeros(3) by (simp add: number_ok_def ascii_digit_def)
    then show ?thesis using 3 unfolding p_def
      by (intro exI [of _ "[48]"] exI [of _ "Some (zeros (nat (- p)) @ ?ds)"]) (simp add: plain_text_def number_text_def Let_def p_def)
  qed
qed

lemma exp_text_number:
  assumes "denotes n e b"
  shows "\<exists>ip fr k. exp_text n e = number_text ip fr (Some k) \<and> number_ok ip fr (Some k) b"
proof -
  let ?ds = "dec_text n"
  have D: "list_all ascii_digit ?ds" "?ds \<noteq> []" by (rule dec_text_digits)+
  define fr where "fr = (if 1 < length ?ds then Some (drop 1 ?ds) else None)"
  have "take 1 ?ds @ frac_digits fr = ?ds" "length (frac_digits fr) = length ?ds - 1" "list_all ascii_digit (frac_digits fr)"
    using D list_all_take_drop(2) [OF D(1), of 1] by (auto simp: fr_def neq_Nil_conv)
  moreover have "int (length ?ds) + e - 1 - int (length ?ds - 1) = e" using D(2) by (cases ?ds) auto
  ultimately have "number_ok (take 1 ?ds) fr (Some (int (length ?ds) + e - 1)) b"
    using D assms by (simp add: number_ok_def list_all_take_drop dec_value_text)
  moreover have "exp_text n e = number_text (take 1 ?ds) fr (Some (int (length ?ds) + e - 1))"
    by (simp add: exp_text_def number_text_def Let_def fr_def)
  ultimately show ?thesis by blast
qed

lemma fp_nearest_zero: "fp_nearest f 0 d = 0"
proof -
  have "half_even 0 x = 0" for x by (cases "x = 0") (simp_all add: half_even_def)
  moreover have "floorlog 2 (0 div d) = 0" by (simp add: floorlog_eq_zero_iff)
  ultimately show ?thesis by (simp add: fp_nearest_def Let_def)
qed

lemma denotes_zero: "denotes 0 e 0"
  by (cases "0 \<le> e") (simp_all only: denotes_def dec_ratio_def mult_zero_left if_True if_False prod.case fp_nearest_zero)

lemma f64_debug_number:
  assumes "d64 a = Fin s m"
  obtains ip fr ex where "f64_debug a = (if s then [45] else []) @ number_text ip fr ex" "number_ok ip fr ex (magnitude a)"
proof (cases "m = 0")
  case True
  have "magnitude a = 0" using fp_nearest_double [OF assms, of 1] True by (simp add: fp_nearest_zero)
  moreover have "denotes 0 (- 1) 0" by (rule denotes_zero)
  moreover have "dec_value ([48] @ [48]) = 0" by (simp only: dec_value_append dec_value_0)
  ultimately have "number_ok [48] (Some [48]) None (magnitude a)"
    by (simp add: number_ok_def ascii_digit_def)
  moreover have "f64_debug a = (if s then [45] else []) @ number_text [48] (Some [48]) None"
    unfolding f64_debug_def assms number_text_def True by (simp only: fp.case if_True refl option.case append_Nil2 append_Cons append_Nil)
  ultimately show thesis by (rule that [rotated])
next
  case False
  obtain n0 e0 where s0: "shortest m = (n0, e0)" by (cases "shortest m")
  obtain n e where s1: "strip_zeros n0 e0 = (n, e)" by (cases "strip_zeros n0 e0")
  have d: "denotes n e (magnitude a)"
    using strip_zeros_denotes [OF shortest_from_denotes [OF assms] s1] s0 by (simp add: shortest_def)
  define big where "big \<longleftrightarrow> 10 ^ 16 * 2 ^ 1074 \<le> m \<or> m * 10 ^ 4 < 2 ^ 1074"
  have t: "f64_debug a = (if s then [45] else []) @ (if big then exp_text n e else plain_text n e)"
    using assms False s0 s1 by (simp only: f64_debug_def fp.case if_False Let_def prod.case big_def)
  show thesis
  proof (cases big)
    case True
    obtain ip fr k where "exp_text n e = number_text ip fr (Some k)" "number_ok ip fr (Some k) (magnitude a)"
      using exp_text_number [OF d] by blast
    then show thesis using True by (intro that) (simp_all only: t if_True)
  next
    case False
    obtain ip fr where "plain_text n e = number_text ip fr None" "number_ok ip fr None (magnitude a)"
      using plain_text_number [OF d] by blast
    then show thesis using False by (intro that) (simp_all only: t if_False)
  qed
qed

lemma f64_of_decimal_denotes: "denotes n e b \<Longrightarrow> f64_of_decimal s n e = of_nat (sign_bit F64 s + b)"
  by (auto simp: denotes_def f64_of_decimal_def fp_round_def split: prod.splits)

theorem f64_parse_debug:
  assumes "d64 a = Fin s m"
  shows "f64_parse (f64_debug a) = Some a"
proof -
  obtain ip fr ex where t: "f64_debug a = (if s then [45] else []) @ number_text ip fr ex" and ok: "number_ok ip fr ex (magnitude a)"
    using f64_debug_number [OF assms] by blast
  have "f64_parse (f64_debug a) = Some (f64_of_decimal s (dec_value (ip @ frac_digits fr)) ((case ex of Some k \<Rightarrow> k | None \<Rightarrow> 0) - int (length (frac_digits fr))))"
    unfolding t using ok by (intro f64_parse_number) (simp_all add: number_ok_def)
  also have "\<dots> = Some (of_nat (unat a))" using f64_of_decimal_denotes [of _ _ "magnitude a" s] ok d64_parts(2) [OF assms] by (simp add: number_ok_def)
  finally show ?thesis by simp
qed

end
