(* ===== verification/JsonLaws.thy ===== *)
theory JsonLaws
  imports Json FloatLaws
begin

text \<open>Parsing JSON returns on every text, and the text of a value is read back as the value.\<close>

section \<open>The parser returns\<close>

lemma json_ws_le: "length (json_ws cs) \<le> length cs"
  unfolding json_ws_def by (rule length_dropWhile_le)

lemma json_ws_Cons: "json_ws cs = c # r \<Longrightarrow> length r < length cs"
  using json_ws_le [of cs] by simp

lemma json_lit_le: "json_lit ws v cs = Some (x, r) \<Longrightarrow> length r \<le> length cs"
  by (induction ws arbitrary: cs) (fastforce split: list.splits if_splits)+

lemma json_lit_less: "json_lit (w # ws) v cs = Some (x, r) \<Longrightarrow> length r < length cs"
  by (auto split: list.splits if_splits dest: json_lit_le)

lemma json_chars_less: "json_chars cs = Some (s, r) \<Longrightarrow> length r < length cs"
proof (induction cs arbitrary: s r rule: json_chars.induct)
  case (1 cs)
  note E = "1.prems" [unfolded json_chars.simps [of cs]]
  show ?case
  proof (cases cs)
    case Nil
    then show ?thesis using E by simp
  next
    case C: (Cons c q)
    consider "c = 34" | "c \<noteq> 34" "c \<noteq> 92" | "c = 92" by blast
    then show ?thesis
    proof cases
      case 1
      then show ?thesis using E C by simp
    next
      case 2
      then obtain s' where "json_chars q = Some (s', r)" using E C by auto
      then show ?thesis using "1.IH"(3) [OF C 2] C by simp
    next
      case 3
      then obtain e p where q: "q = e # p" using E C by (auto split: list.splits)
      show ?thesis
      proof (cases "e = 117")
        case True
        then obtain code p2 s' where h: "hex_code 4 0 p = Some (code, p2)" "is_scalar code" "json_chars p2 = Some (s', r)"
          using E C 3 q by (auto split: option.splits if_splits)
        then have "length r < length p2" using "1.IH"(1) [OF C _ 3 q True h(1) refl h(2)] 3 by simp
        then show ?thesis using hex_code_shorter [OF h(1)] C q by simp
      next
        case False
        then obtain x s' where h: "map_of json_escapes e = Some x" "json_chars p = Some (s', r)"
          using E C 3 q by (auto split: option.splits)
        then show ?thesis using "1.IH"(2) [OF C _ 3 q False h(1)] 3 C q by simp
      qed
    qed
  qed
qed

lemma json_string_less: "json_string cs = Some (s, r) \<Longrightarrow> length r < length cs"
  by (auto simp: json_string_def split: list.splits if_splits dest: json_chars_less)

lemma digits_end_le: "length (digits_end cs) \<le> length cs"
  unfolding digits_end_def by (rule length_dropWhile_le)

lemma after_fraction_le: "after_fraction cs = (f, r) \<Longrightarrow> length r \<le> length cs"
  using digits_end_le by (auto simp: after_fraction_def le_SucI split: list.splits if_splits)

lemma after_exponent_le:
  assumes "after_exponent cs = (f, r)"
  shows "length r \<le> length cs"
proof (cases cs)
  case (Cons c q)
  have "length (digits_end (case q of s # r2 \<Rightarrow> if s = 43 \<or> s = 45 then r2 else q | [] \<Rightarrow> q)) \<le> length q"
    using digits_end_le [of q] digits_end_le [of "tl q"] by (cases q) auto
  then show ?thesis using assms Cons by (auto simp: after_exponent_def split: if_splits)
qed (use assms in \<open>simp add: after_exponent_def\<close>)

lemma json_number_less:
  assumes "json_number (c # q) = Some (v, r)" "c = 45 \<or> digit_char c"
  shows "length r < length (c # q)"
proof -
  obtain f r' where a: "after_number (c # q) = (f, r')" by (cases "after_number (c # q)")
  have "length (digits_end (if c = 45 then q else c # q)) \<le> length q"
    using assms(2) digits_end_le [of q] by (auto simp: digits_end_def)
  then have "length r' \<le> length q"
    using a by (auto simp: after_number_def split: prod.splits dest!: after_fraction_le after_exponent_le)
  moreover have "r = r'" using assms(1) a by (auto simp: json_number_def Let_def split: if_splits option.splits)
  ultimately show ?thesis by simp
qed

definition json_step :: "nat \<Rightarrow> ('a \<times> ustr) option option \<Rightarrow> bool" where
  "json_step len x \<longleftrightarrow> (\<exists>y. x = Some y \<and> (\<forall>a r. y = Some (a, r) \<longrightarrow> length r < len))"

lemma json_stepI [intro]: "json_step len (Some None)" "length r < len \<Longrightarrow> json_step len (Some (Some (a, r)))"
  by (auto simp: json_step_def)

lemma json_step_option: "(\<And>a r. y = Some (a, r) \<Longrightarrow> length r < len) \<Longrightarrow> json_step len (Some y)"
  by (auto simp: json_step_def)

lemma json_step_bind:
  assumes "json_step l x" "\<And>a r. length r < l \<Longrightarrow> json_step len (f (a, r))"
  shows "json_step len (jbind x f)"
  using assms by (cases x) (auto simp: json_step_def jbind_def split: option.splits)

lemma json_value_step:
  assumes "\<And>ds. 2 * length ds + 2 \<le> n \<Longrightarrow> json_step (length ds) (json_items n ds)"
    "\<And>ds. 2 * length ds + 2 \<le> n \<Longrightarrow> json_step (length ds) (json_members n ds)" "2 * length cs \<le> n"
  shows "json_step (length cs) (json_value (Suc n) cs)"
proof (cases "json_ws cs")
  case Nil
  then show ?thesis by (auto simp: json_value.simps)
next
  case (Cons c r)
  then have l: "length r < length cs" by (rule json_ws_Cons)
  have w: "length (json_ws r) \<le> length r" by (rule json_ws_le)
  have i: "json_step (length cs) (jbind (json_items n (json_ws r)) (\<lambda>(vs, r). Some (Some (JArray vs, r))))"
    using assms(3) l w by (intro json_step_bind [OF assms(1)]) auto
  have m: "json_step (length cs) (jbind (json_members n (json_ws r)) (\<lambda>(kvs, r). Some (Some (JObject kvs, r))))"
    using assms(3) l w by (intro json_step_bind [OF assms(2)]) auto
  consider "c = 123" | "c = 91" | "c \<noteq> 123" "c \<noteq> 91" by blast
  then show ?thesis
  proof cases
    case 1
    then show ?thesis using Cons m l w by (auto simp: json_value.simps split: list.split)
  next
    case 2
    then show ?thesis using Cons i l w by (auto simp: json_value.simps split: list.split)
  next
    case 3
    have n: "json_number (c # r) = Some (v, q) \<Longrightarrow> c = 45 \<or> digit_char c \<Longrightarrow> length q < length cs" for v q
      using json_number_less [of c r v q] l by simp
    then have n2: "json_number (45 # r) = Some (v, q) \<Longrightarrow> c = 45 \<Longrightarrow> length q < length cs" for v q by blast
    have "length q < length (c # r) \<Longrightarrow> length q < length cs" for q :: ustr using l by simp
    then show ?thesis using Cons 3
      by (auto simp: json_value.simps intro!: json_step_option dest!: json_string_less json_lit_less n n2
          simp del: json_lit.simps length_Cons)
  qed
qed

lemma json_items_step:
  assumes "\<And>ds. 2 * length ds + 1 \<le> n \<Longrightarrow> json_step (length ds) (json_value n ds)"
    "\<And>ds. 2 * length ds + 2 \<le> n \<Longrightarrow> json_step (length ds) (json_items n ds)" "2 * length cs + 1 \<le> n"
  shows "json_step (length cs) (json_items (Suc n) cs)"
  unfolding json_items.simps
proof (rule json_step_bind [OF assms(1)], rule assms(3))
  fix v and r :: ustr
  assume r: "length r < length cs"
  show "json_step (length cs) (case (v, r) of (v, r) \<Rightarrow> case json_ws r of
       [] \<Rightarrow> Some None
     | c # r \<Rightarrow> if c = 44 then jbind (json_items n r) (\<lambda>(vs, r). Some (Some (v # vs, r)))
               else if c = 93 then Some (Some ([v], r)) else Some None)"
  proof (cases "json_ws r")
    case (Cons c q)
    then have "length q < length r" by (rule json_ws_Cons)
    then have "json_step (length cs) (jbind (json_items n q) (\<lambda>(vs, r). Some (Some (v # vs, r))))" "length q < length cs"
      using assms(3) r by (auto intro!: json_step_bind [OF assms(2)])
    then show ?thesis using Cons by auto
  qed auto
qed

lemma json_members_step:
  assumes "\<And>ds. 2 * length ds + 1 \<le> n \<Longrightarrow> json_step (length ds) (json_value n ds)"
    "\<And>ds. 2 * length ds + 2 \<le> n \<Longrightarrow> json_step (length ds) (json_members n ds)" "2 * length cs + 1 \<le> n"
  shows "json_step (length cs) (json_members (Suc n) cs)"
proof (cases "json_string (json_ws cs)")
  case None
  then show ?thesis by (auto simp: json_members.simps)
next
  case (Some kr)
  obtain k r where kr: "kr = (k, r)" by (cases kr)
  have r: "length r < length cs" using Some kr json_string_less [of "json_ws cs" k r] json_ws_le [of cs] by simp
  show ?thesis
  proof (cases "json_ws r")
    case Nil
    then show ?thesis using Some kr by (auto simp: json_members.simps)
  next
    case (Cons c q)
    then have q: "length q < length r" by (rule json_ws_Cons)
    have "json_step (length cs) (jbind (json_value n q) (\<lambda>(v, r). case json_ws r of
        [] \<Rightarrow> Some None
      | c # r \<Rightarrow> if c = 44 then jbind (json_members n r) (\<lambda>(kvs, r). Some (Some ((k, v) # kvs, r)))
                else if c = 125 then Some (Some ([(k, v)], r)) else Some None))"
    proof (rule json_step_bind [OF assms(1)])
      fix v and r' :: ustr
      assume r': "length r' < length q"
      show "json_step (length cs) (case (v, r') of (v, r) \<Rightarrow> case json_ws r of
          [] \<Rightarrow> Some None
        | c # r \<Rightarrow> if c = 44 then jbind (json_members n r) (\<lambda>(kvs, r). Some (Some ((k, v) # kvs, r)))
                  else if c = 125 then Some (Some ([(k, v)], r)) else Some None)"
      proof (cases "json_ws r'")
        case (Cons d p)
        then have "length p < length r'" by (rule json_ws_Cons)
        then have "json_step (length cs) (jbind (json_members n p) (\<lambda>(kvs, r). Some (Some ((k, v) # kvs, r))))" "length p < length cs"
          using assms(3) r q r' by (auto intro!: json_step_bind [OF assms(2)])
        then show ?thesis using Cons by auto
      qed auto
    qed (use assms(3) r q in linarith)
    then show ?thesis using Some kr Cons by (auto simp: json_members.simps)
  qed
qed

lemma json_returns:
  "(\<forall>cs. 2 * length cs + 1 \<le> n \<longrightarrow> json_step (length cs) (json_value n cs)) \<and>
   (\<forall>cs. 2 * length cs + 2 \<le> n \<longrightarrow> json_step (length cs) (json_items n cs)) \<and>
   (\<forall>cs. 2 * length cs + 2 \<le> n \<longrightarrow> json_step (length cs) (json_members n cs))"
proof (induction n)
  case (Suc n)
  then show ?case by (auto intro!: json_value_step json_items_step json_members_step)
qed simp

lemma json_parse_returns: "\<exists>r. json_parse s = Some r"
proof -
  have "json_step (length (json_ws s)) (json_value (2 * length s + 1) (json_ws s))"
    using json_returns [of "2 * length s + 1"] json_ws_le [of s] by simp
  then show ?thesis by (cases "json_value (2 * length s + 1) (json_ws s)") (auto simp: json_step_def json_parse_def jbind_def split: option.split)
qed

section \<open>The text of a value is read back\<close>

lemma hex_value_char: "d < 16 \<Longrightarrow> hex_value (hex_char d) = Some d"
  by (auto simp: hex_value_def hex_char_def digit_char_def)

lemma hex_code_4:
  "hex_code 4 0 (a # b # c # d # r) = Option.bind (hex_value a) (\<lambda>a. Option.bind (hex_value b) (\<lambda>b.
     Option.bind (hex_value c) (\<lambda>c. Option.bind (hex_value d) (\<lambda>d. Some (((a * 16 + b) * 16 + c) * 16 + d, r)))))"
  by (simp add: numeral_eq_Suc)

lemma hex_code_low:
  assumes "c < 32"
  shows "hex_code 4 0 (48 # 48 # hex_char (c div 16) # hex_char (c mod 16) # r) = Some (c, r)"
proof -
  have "hex_value 48 = Some 0" by (simp add: hex_value_def digit_char_def)
  moreover have "c div 16 < 16" "c mod 16 < 16" using assms by simp_all
  ultimately show ?thesis by (simp add: hex_code_4 hex_value_char)
qed

lemma json_chars_write: "json_chars (concat (map write_char s) @ 34 # r) = Some (s, r)"
proof (induction s)
  case Nil
  show ?case by (simp add: json_chars.simps)
next
  case (Cons c s)
  define t where "t = concat (map write_char s) @ 34 # r"
  have "is_scalar c" if "c < 32" using that by (simp add: is_scalar_def)
  moreover have "json_chars t = Some (s, r)" using Cons by (simp only: t_def)
  ultimately have "json_chars (write_char c @ t) = Some (c # s, r)" using hex_code_low [of c t]
    by (simp add: write_char_def json_chars.simps [of "_ # _"] json_escapes_def)
  then show ?case by (simp add: t_def)
qed

lemma json_string_write: "json_string (write_str s @ r) = Some (s, r)"
  by (simp add: write_str_def json_string_def json_chars_write)

definition json_ends :: "ustr \<Rightarrow> bool" where "json_ends r \<longleftrightarrow> (case r of c # _ \<Rightarrow> c \<in> {44, 93, 125} | [] \<Rightarrow> True)"

lemma digits_end_append: "json_ends r \<Longrightarrow> digits_end (cs @ r) = digits_end cs @ r"
  by (induction cs) (auto simp: digits_end_def json_ends_def digit_char_def split: list.splits)

lemma after_fraction_append: "json_ends r \<Longrightarrow> after_fraction (cs @ r) = apsnd (\<lambda>x. x @ r) (after_fraction cs)"
  by (cases cs) (auto simp: after_fraction_def digits_end_append json_ends_def split: list.splits)

lemma after_exponent_append: "json_ends r \<Longrightarrow> after_exponent (cs @ r) = apsnd (\<lambda>x. x @ r) (after_exponent cs)"
proof (cases cs)
  case (Cons c q)
  assume r: "json_ends r"
  have "digits_end r = r" using r digits_end_append [of r "[]"] by (simp add: digits_end_def)
  then show ?thesis using Cons r digits_end_append [OF r, of "tl q"] digits_end_append [OF r, of q]
    by (cases q; cases r) (auto simp: after_exponent_def json_ends_def)
qed (auto simp: after_exponent_def json_ends_def split: list.splits)

lemma after_number_append: "cs \<noteq> [] \<Longrightarrow> json_ends r \<Longrightarrow> after_number (cs @ r) = apsnd (\<lambda>x. x @ r) (after_number cs)"
proof -
  assume "cs \<noteq> []" "json_ends r"
  moreover from this have "(case cs @ r of [] \<Rightarrow> cs @ r | c # q \<Rightarrow> if c = 45 then q else cs @ r) =
      (case cs of [] \<Rightarrow> cs | c # q \<Rightarrow> if c = 45 then q else cs) @ r"
    by (cases cs) auto
  ultimately show ?thesis
    by (simp add: after_number_def after_exponent_append after_fraction_append digits_end_append split: prod.splits)
qed

lemma json_number_append:
  assumes "t \<noteq> []" "after_number t = (f, [])" "json_ends r"
  shows "json_number (t @ r) = (let float = map_option (\<lambda>x. (JFloat x, r)) (f64_parse (ascii_of t)) in
     if f then float else (case parse_i64 (ascii_of t) of Some n \<Rightarrow> Some (JInt n, r) | None \<Rightarrow> float))"
proof -
  have "take (length (t @ r) - length r) (t @ r) = t" by simp
  moreover have "after_number (t @ r) = (f, r)" using assms by (simp add: after_number_append)
  ultimately show ?thesis by (simp only: json_number_def Let_def prod.case)
qed

lemma ascii_of_ustr_of [simp]: "ascii_of (ustr_of bs) = bs"
  by (simp add: ascii_of_def ustr_of_def comp_def)

lemma parse_int_text: "parse_i64 (int_text (sint w)) = Some w"
proof -
  have "- (2 ^ 63) \<le> sint w" "sint w < 2 ^ 63" using sint_greater_eq [of w] sint_less [of w] by simp_all
  then show ?thesis by (simp add: parse_i64_def take_sign_int dec_text_digits dec_value_text Let_def)
qed

lemma digit_char_unat: "digit_char (unat b) \<longleftrightarrow> ascii_digit b"
  by (simp add: digit_char_def ascii_digit_def word_le_nat_alt)

lemma digits_end_digits: "list_all ascii_digit ds \<Longrightarrow> digits_end (ustr_of ds) = []"
  by (induction ds) (auto simp: digits_end_def ustr_of_def digit_char_unat)

lemma after_number_int: "after_number (ustr_of (int_text n)) = (False, [])"
proof -
  obtain d ds where "dec_text (nat n) = d # ds" "ascii_digit d" "list_all ascii_digit ds"
    using dec_text_digits [of "nat n"] by (cases "dec_text (nat n)") auto
  then have "digits_end (ustr_of (dec_text (nat n))) = []" "ustr_of (dec_text (nat n)) = unat d # ustr_of ds" "unat d \<noteq> 45"
    using digits_end_digits [of "d # ds"] by (auto simp: ustr_of_def ascii_digit_def word_le_nat_alt)
  moreover have "digits_end (ustr_of (dec_text (nat (- n)))) = []" by (simp add: digits_end_digits dec_text_digits)
  moreover have "ustr_of (45 # xs) = 45 # ustr_of xs" for xs by (simp add: ustr_of_def)
  ultimately show ?thesis by (auto simp: after_number_def int_text_def after_fraction_def after_exponent_def)
qed

lemma ustr_of_simps: "ustr_of [] = []" "ustr_of (b # bs) = unat b # ustr_of bs" "ustr_of (bs @ cs) = ustr_of bs @ ustr_of cs"
  by (simp_all add: ustr_of_def)

lemma digits_end_stop: "list_all ascii_digit ds \<Longrightarrow> \<not> digit_char c \<Longrightarrow> digits_end (ustr_of ds @ c # r) = c # r"
  by (induction ds) (auto simp: digits_end_def ustr_of_def digit_char_unat)

lemma after_exponent_text: "after_exponent (ustr_of (101 # int_text k)) = (True, [])"
proof -
  have "digits_end (ustr_of (dec_text n)) = []" for n by (simp add: digits_end_digits dec_text_digits)
  moreover obtain d ds where "dec_text (nat k) = d # ds" "unat d \<noteq> 43" "unat d \<noteq> 45"
    using dec_text_digits [of "nat k"] by (cases "dec_text (nat k)") (auto simp: ascii_digit_def word_le_nat_alt)
  ultimately show ?thesis
    by (auto simp: after_exponent_def ustr_of_simps int_text_def split: list.splits) (metis ustr_of_simps(2))
qed

lemma after_number_text:
  assumes "number_ok ip fr ex b"
  shows "after_number (ustr_of ((if s then [45] else []) @ number_text ip fr ex)) = (True, [])"
proof -
  let ?e = "case ex of Some k \<Rightarrow> 101 # int_text k | None \<Rightarrow> []"
  note O = assms [unfolded number_ok_def]
  obtain d ds where ip: "ip = d # ds" "unat d \<noteq> 45" using O by (cases ip) (auto simp: ascii_digit_def word_le_nat_alt)
  have sign: "(case ustr_of ((if s then [45] else []) @ number_text ip fr ex) of
      c # r \<Rightarrow> if c = 45 then r else ustr_of ((if s then [45] else []) @ number_text ip fr ex) | [] \<Rightarrow> ustr_of ((if s then [45] else []) @ number_text ip fr ex))
      = ustr_of (number_text ip fr ex)"
    using ip by (simp add: number_text_def ustr_of_simps)
  have stop: "\<not> digit_char 46" "\<not> digit_char 101" by (simp_all add: digit_char_def)
  have ee: "after_exponent (ustr_of ?e) = (ex \<noteq> None, [])"
    using after_exponent_text by (cases ex) (simp_all add: after_exponent_def ustr_of_simps)
  have de: "digits_end (ustr_of ds @ ustr_of ?e) = ustr_of ?e" if "list_all ascii_digit ds" for ds
    using that digits_end_digits [OF that] digits_end_stop [OF that stop(2)] by (cases ex) (simp_all add: ustr_of_simps)
  show ?thesis
  proof (cases fr)
    case None
    then have "digits_end (ustr_of (number_text ip fr ex)) = ustr_of ?e" using O de by (simp add: number_text_def ustr_of_simps)
    moreover have "after_fraction (ustr_of ?e) = (False, ustr_of ?e)" by (cases ex) (simp_all add: after_fraction_def ustr_of_simps)
    ultimately show ?thesis using ee O None unfolding after_number_def sign by simp
  next
    case (Some fp)
    have "digits_end (ustr_of (number_text ip fr ex)) = 46 # ustr_of fp @ ustr_of ?e"
      using O Some digits_end_stop [of ip 46] stop by (simp add: number_text_def ustr_of_simps)
    moreover have "after_fraction (46 # ustr_of fp @ ustr_of ?e) = (True, ustr_of ?e)"
      using O Some de by (simp add: after_fraction_def)
    ultimately show ?thesis using ee unfolding after_number_def sign by simp
  qed
qed

text \<open>The reals that the text can carry are the finite ones: a document has no infinities and no NaN.\<close>

definition float_reads :: "u64 \<Rightarrow> bool" where
  "float_reads f \<longleftrightarrow> (case ustr_of (f64_debug f) of [] \<Rightarrow> False | c # _ \<Rightarrow> c = 45 \<or> digit_char c) \<and>
     after_number (ustr_of (f64_debug f)) = (True, []) \<and> f64_parse (f64_debug f) = Some f"

lemma finite_reads:
  assumes "f64_finite f"
  shows "float_reads f"
proof -
  obtain s m where f: "d64 f = Fin s m" using assms by (auto simp: f64_finite_def split: fp.splits)
  obtain ip fr ex where t: "f64_debug f = (if s then [45] else []) @ number_text ip fr ex" and ok: "number_ok ip fr ex (magnitude f)"
    using f64_debug_number [OF f] by blast
  have "case ustr_of (f64_debug f) of [] \<Rightarrow> False | c # _ \<Rightarrow> c = 45 \<or> digit_char c"
    using ok by (cases ip) (auto simp: t number_ok_def number_text_def ustr_of_simps digit_char_unat)
  then show ?thesis using after_number_text [OF ok, of s] f64_parse_debug [OF f] by (simp add: float_reads_def t)
qed

primrec json_ok :: "json \<Rightarrow> bool" where
  "json_ok JNull \<longleftrightarrow> True"
| "json_ok (JBool b) \<longleftrightarrow> True"
| "json_ok (JInt n) \<longleftrightarrow> True"
| "json_ok (JFloat f) \<longleftrightarrow> f64_finite f"
| "json_ok (JStr s) \<longleftrightarrow> True"
| "json_ok (JArray a) \<longleftrightarrow> list_all (\<lambda>b. b) (map json_ok a)"
| "json_ok (JObject kvs) \<longleftrightarrow> list_all snd (map (map_prod (\<lambda>k. k) json_ok) kvs)"

definition json_head :: "uchar \<Rightarrow> bool" where "json_head c \<longleftrightarrow> c \<in> {110, 116, 102, 34, 91, 123, 45} \<or> digit_char c"

lemma int_text_head: "\<exists>c q. ustr_of (int_text n) = c # q \<and> (c = 45 \<or> digit_char c)"
proof -
  obtain d ds where "dec_text (nat n) = d # ds" "ascii_digit d"
    using dec_text_digits [of "nat n"] by (cases "dec_text (nat n)") auto
  then show ?thesis by (auto simp: int_text_def ustr_of_def digit_char_unat)
qed

lemma write_json_head: "json_ok j \<Longrightarrow> \<exists>c q. write_json j = c # q \<and> json_head c"
proof (cases j)
  case (JInt n)
  then show ?thesis using int_text_head [of "sint n"] by (auto simp: json_head_def)
next
  case (JFloat f)
  then show "json_ok j \<Longrightarrow> ?thesis" using finite_reads [of f] by (auto simp: json_head_def float_reads_def split: list.splits)
qed (auto simp: json_head_def write_str_def)

lemma json_head_ws: "json_head c \<Longrightarrow> json_ws (c # q) = c # q" "json_head c \<Longrightarrow> c \<noteq> 93 \<and> c \<noteq> 125"
  by (auto simp: json_head_def json_ws_def digit_char_def)

lemma json_ws_stop: "c \<in> {44, 58, 93, 125, 34} \<Longrightarrow> json_ws (c # q) = c # q"
  by (auto simp: json_ws_def)

definition reads_back :: "json \<Rightarrow> bool" where
  "reads_back j \<longleftrightarrow> (\<forall>r n. json_ends r \<longrightarrow> 2 * length (write_json j @ r) + 1 \<le> n \<longrightarrow> json_value n (write_json j @ r) = Some (Some (j, r)))"

lemma reads_backI:
  assumes "\<And>m r. json_value (Suc m) (write_json j @ r) = Some (Some (j, r))"
  shows "reads_back j"
  unfolding reads_back_def
proof (intro allI impI)
  fix r n assume "2 * length (write_json j @ r) + 1 \<le> n"
  then show "json_value n (write_json j @ r) = Some (Some (j, r))" using assms by (cases n) auto
qed

lemma reads_backD: "reads_back j \<Longrightarrow> json_ends r \<Longrightarrow> 2 * length (write_json j @ r) + 1 \<le> n \<Longrightarrow> json_value n (write_json j @ r) = Some (Some (j, r))"
  by (simp add: reads_back_def)

lemma json_items_write:
  assumes "vs \<noteq> []" "\<forall>v \<in> set vs. reads_back v" "2 * length (comma_joined (map write_json vs) @ 93 # r) + 2 \<le> n"
  shows "json_items n (comma_joined (map write_json vs) @ 93 # r) = Some (Some (vs, r))"
  using assms
proof (induction vs arbitrary: n rule: induct_list012)
  case (2 v)
  then obtain m where n: "n = Suc m" by (cases n) auto
  have "json_value m (write_json v @ 93 # r) = Some (Some (v, 93 # r))"
    using 2 n by (intro reads_backD) (auto simp: json_ends_def)
  then show ?case using n by (simp add: json_items.simps jbind_def json_ws_stop)
next
  case (3 v w ws)
  then obtain m where n: "n = Suc m" by (cases n) auto
  let ?r = "comma_joined (map write_json (w # ws)) @ 93 # r"
  have "json_value m (write_json v @ 44 # ?r) = Some (Some (v, 44 # ?r))"
    using 3 n by (intro reads_backD) (auto simp: json_ends_def)
  moreover have "json_items m ?r = Some (Some (w # ws, r))" using 3 n by (intro "3.IH"(2)) auto
  ultimately show ?case using n by (simp add: json_items.simps jbind_def json_ws_stop)
qed simp

abbreviation write_member :: "ustr \<times> json \<Rightarrow> ustr" where
  "write_member kv \<equiv> write_str (fst kv) @ 58 # write_json (snd kv)"

lemma json_members_write:
  assumes "kvs \<noteq> []" "\<forall>kv \<in> set kvs. reads_back (snd kv)" "2 * length (comma_joined (map write_member kvs) @ 125 # r) + 2 \<le> n"
  shows "json_members n (comma_joined (map write_member kvs) @ 125 # r) = Some (Some (kvs, r))"
  using assms
proof (induction kvs arbitrary: n rule: induct_list012)
  case (2 kv)
  then obtain m where n: "n = Suc m" by (cases n) auto
  have "json_value m (write_json (snd kv) @ 125 # r) = Some (Some (snd kv, 125 # r))"
    using 2 n by (intro reads_backD) (auto simp: json_ends_def)
  moreover have "json_ws (write_str k @ q) = write_str k @ q" for k q by (simp add: write_str_def json_ws_stop)
  ultimately show ?case using n by (simp add: json_members.simps jbind_def json_ws_stop json_string_write)
next
  case (3 kv kw kws)
  then obtain m where n: "n = Suc m" by (cases n) auto
  let ?r = "comma_joined (map write_member (kw # kws)) @ 125 # r"
  have "json_value m (write_json (snd kv) @ 44 # ?r) = Some (Some (snd kv, 44 # ?r))"
    using 3 n by (intro reads_backD) (auto simp: json_ends_def)
  moreover have "json_members m ?r = Some (Some (kw # kws, r))" using 3 n by (intro "3.IH"(2)) auto
  moreover have "json_ws (write_str k @ q) = write_str k @ q" for k q by (simp add: write_str_def json_ws_stop)
  ultimately show ?case using n by (simp add: json_members.simps jbind_def json_ws_stop json_string_write)
qed simp

lemma json_nonempty: "t = c # q \<Longrightarrow> t \<noteq> []" by simp

lemma json_lit_append: "json_lit ws v (ws @ r) = Some (v, r)"
  by (induction ws) auto

lemma json_number_value:
  assumes "ustr_of t = c # q" "c = 45 \<or> digit_char c" "json_number (ustr_of t @ r) = Some (v, r)"
  shows "json_value (Suc n) (ustr_of t @ r) = Some (Some (v, r))"
proof -
  have "json_ws (c # q @ r) = c # q @ r" using assms(2) by (intro json_head_ws) (auto simp: json_head_def)
  moreover have "c \<noteq> 123 \<and> c \<noteq> 91 \<and> c \<noteq> 34 \<and> c \<noteq> 116 \<and> c \<noteq> 102 \<and> c \<noteq> 110" using assms(2) by (auto simp: digit_char_def)
  ultimately show ?thesis using assms by (simp add: json_value.simps)
qed

theorem write_json_reads_back: "json_ok j \<Longrightarrow> reads_back j"
proof (induction j)
  case (JArray a)
  have IH: "\<forall>v \<in> set a. reads_back v" using JArray by (auto simp: list_all_iff)
  show ?case unfolding reads_back_def
  proof (intro allI impI)
    fix r n assume r: "json_ends r" "2 * length (write_json (JArray a) @ r) + 1 \<le> n"
    then obtain m where n: "n = Suc m" by (cases n) auto
    have w: "json_ws (91 # q) = 91 # q" "json_ws (93 # q) = 93 # q" for q by (simp_all add: json_ws_def)
    show "json_value n (write_json (JArray a) @ r) = Some (Some (JArray a, r))"
    proof (cases a)
      case Nil
      then show ?thesis by (simp add: n json_value.simps w)
    next
      case (Cons v vs)
      then obtain c q where c: "write_json v = c # q" "json_head c" using JArray.prems write_json_head [of v] by auto
      then obtain q' where j: "comma_joined (map write_json a) = c # q'" using Cons by (cases vs) auto
      have "json_items m (comma_joined (map write_json a) @ 93 # r) = Some (Some (a, r))"
        using Cons IH r n by (intro json_items_write) auto
      then show ?thesis using json_head_ws [OF c(2)] by (simp add: n json_value.simps w j jbind_def)
    qed
  qed
next
  case (JObject kvs)
  have IH: "\<forall>kv \<in> set kvs. reads_back (snd kv)" using JObject by (auto simp: list_all_iff)
  have e: "map (\<lambda>(k, t). write_str k @ 58 # t) (map (map_prod (\<lambda>k. k) write_json) kvs) = map write_member kvs" by auto
  show ?case unfolding reads_back_def
  proof (intro allI impI)
    fix r n assume r: "json_ends r" "2 * length (write_json (JObject kvs) @ r) + 1 \<le> n"
    then obtain m where n: "n = Suc m" by (cases n) auto
    have w: "json_ws (123 # q) = 123 # q" "json_ws (125 # q) = 125 # q" "json_ws (34 # q) = 34 # q" for q by (simp_all add: json_ws_def)
    show "json_value n (write_json (JObject kvs) @ r) = Some (Some (JObject kvs, r))"
    proof (cases kvs)
      case Nil
      then show ?thesis by (simp add: n json_value.simps w)
    next
      case (Cons kv kws)
      then obtain q' where j: "comma_joined (map write_member kvs) = 34 # q'" by (cases kws) (auto simp: write_str_def)
      have "2 * length (comma_joined (map write_member kvs) @ 125 # r) + 2 \<le> m"
        using r(2) n unfolding write_json.simps e by simp
      then have "json_members m (comma_joined (map write_member kvs) @ 125 # r) = Some (Some (kvs, r))"
        using Cons IH by (intro json_members_write) auto
      then show ?thesis unfolding write_json.simps e by (simp add: n json_value.simps w j jbind_def)
    qed
  qed
next
  case (JInt x)
  show ?case unfolding reads_back_def
  proof (intro allI impI)
    fix r n assume r: "json_ends r" "2 * length (write_json (JInt x) @ r) + 1 \<le> n"
    obtain c q where c: "ustr_of (int_text (sint x)) = c # q" "c = 45 \<or> digit_char c" using int_text_head by blast
    have "json_number (ustr_of (int_text (sint x)) @ r) = Some (JInt x, r)"
      using json_number_append [OF _ after_number_int r(1), of "sint x"] json_nonempty [OF c(1)] by (simp add: parse_int_text)
    then show "json_value n (write_json (JInt x) @ r) = Some (Some (JInt x, r))"
      using r(2) json_number_value [OF c] by (cases n) auto
  qed
next
  case (JFloat x)
  show ?case unfolding reads_back_def
  proof (intro allI impI)
    fix r n assume r: "json_ends r" "2 * length (write_json (JFloat x) @ r) + 1 \<le> n"
    obtain c q where c: "ustr_of (f64_debug x) = c # q" "c = 45 \<or> digit_char c" "after_number (ustr_of (f64_debug x)) = (True, [])"
      "f64_parse (f64_debug x) = Some x"
      using finite_reads [of x] JFloat by (auto simp: float_reads_def split: list.splits)
    have "json_number (ustr_of (f64_debug x) @ r) = Some (JFloat x, r)"
      using json_number_append [OF json_nonempty [OF c(1)] c(3) r(1)] c(4) by simp
    then show "json_value n (write_json (JFloat x) @ r) = Some (Some (JFloat x, r))"
      using r(2) json_number_value [OF c(1, 2)] by (cases n) auto
  qed
next
  case (JStr s)
  have "json_ws (write_str s @ r) = 34 # concat (map write_char s) @ 34 # r" for r by (simp add: write_str_def json_ws_def)
  moreover have "json_string (34 # concat (map write_char s) @ 34 # r) = Some (s, r)" for r
    using json_string_write [of s r] by (simp add: write_str_def)
  ultimately have "json_value (Suc m) (write_str s @ r) = Some (Some (JStr s, r))" for m r by (simp add: json_value.simps)
  then show ?case by (intro reads_backI) simp
next
  case JNull
  have "json_lit (map of_char ''null'') JNull (map of_char ''null'' @ r) = Some (JNull, r)" for r by (rule json_lit_append)
  then have "json_value (Suc m) (write_json JNull @ r) = Some (Some (JNull, r))" for m r
    by (simp add: json_value.simps json_ws_def digit_char_def)
  then show ?case by (rule reads_backI)
next
  case (JBool b)
  have "json_lit (map of_char ''true'') (JBool True) (map of_char ''true'' @ r) = Some (JBool True, r)" for r by (rule json_lit_append)
  moreover have "json_lit (map of_char ''false'') (JBool False) (map of_char ''false'' @ r) = Some (JBool False, r)" for r by (rule json_lit_append)
  ultimately have "json_value (Suc m) (write_json (JBool b) @ r) = Some (Some (JBool b, r))" for m r
    by (cases b) (simp_all add: json_value.simps json_ws_def digit_char_def)
  then show ?case by (rule reads_backI)
qed

lemma json_text_parsed: "json_ok j \<Longrightarrow> json_parse (json_to_string j) = Some (Some j)"
proof -
  assume j: "json_ok j"
  obtain c q where c: "write_json j = c # q" "json_head c" using write_json_head [OF j] by blast
  have "json_value (2 * length (write_json j) + 1) (write_json j @ []) = Some (Some (j, []))"
    using write_json_reads_back [OF j] by (rule reads_backD) (simp_all add: json_ends_def)
  moreover have "json_ws (write_json j) = write_json j" using c json_head_ws(1) by simp
  ultimately show ?thesis by (simp add: json_parse_def json_to_string_def jbind_def json_ws_def)
qed

end
