(* ===== verification/ValueProps.thy ===== *)
theory ValueProps
  imports EvalLaws JsonLaws
begin

text \<open>
  The properties of the values of an expression: their types, their arithmetic, three-valued logic, patterns, comparison
  and their text as JSON.  The examples run in an environment whose mathematical functions are the identity, with the
  case tables of ASCII.
\<close>

definition plain_libm :: libm where
  "plain_libm = \<lparr>lm_exp = id, lm_ln = id, lm_log10 = id, lm_log2 = id, lm_sin = id, lm_cos = id, lm_tan = id,
     lm_asin = id, lm_acos = id, lm_atan = id, lm_powf = (\<lambda>x _. x), lm_atan2 = (\<lambda>x _. x)\<rparr>"

definition plain_unicode :: unicode where
  "plain_unicode = \<lparr>uc_alphanumeric = (\<lambda>c. 97 \<le> c \<and> c \<le> 122), uc_lowercase = (\<lambda>c. [c]), us_lowercase = id, us_uppercase = id\<rparr>"

definition plain_env :: eval_env where "plain_env = \<lparr>ee_unicode = plain_unicode, ee_libm = plain_libm, ee_now = 0\<rparr>"

text \<open>C34: the value of an expression has the type its text promises: over a row whose columns have values of their
  declared types (or \<^verbatim>\<open>NULL\<close>), every expression with a static type --- literals, columns, operators, \<^verbatim>\<open>CAST\<close>,
  \<^verbatim>\<open>CASE\<close> and the functions of fixed result type --- yields a value of it or \<^verbatim>\<open>NULL\<close>, whenever it yields one.\<close>

theorem expressions_respect_types:
  assumes "row_typed qs row" "expr_type qs e = Some t" "eval ee (Some (qs, row)) ps e st = (Inr v, st2)"
  shows "of_type v t"
  using yieldsD [OF eval_has_type [OF assms(1,2)] assms(3)] .

definition one_column :: query_schema where
  "one_column = schema_single [116] \<lparr>td_name = [116], td_table_id = 1, td_rowid_alias = None,
    td_columns = [\<lparr>cd_name = [97], cd_col_type = ColInteger, cd_not_null = False, cd_default = None, cd_dropped = False\<rparr>],
    td_indexes = [], td_fts_indexes = [], td_vector_indexes = [], td_logical_order = [0], td_foreign_keys = [], td_checks = []\<rparr>"

lemma expressions_respect_types_witness:
  "of_type (Integer (- 5)) ColInteger"
proof (rule expressions_respect_types)
  let ?e = "ECase None [(EIsNull (EColumn None [97]) False, ELiteral (Integer 1))] (Some (EUnary OpNeg (EColumn None [97])))"
  show "row_typed one_column [Integer 5]" by (simp add: row_typed_def one_column_def schema_single_def schema_push_def schema_new_def schema_width_def)
  show "expr_type one_column ?e = Some ColInteger" by code_simp
  show "eval plain_env (Some (one_column, [Integer 5])) [] ?e 0 = (Inr (Integer (- 5)), 0)"
    by code_simp
qed

lemma boolean_cases: "of_type v ColBoolean \<Longrightarrow> v = Null \<or> (\<exists>b. v = Bool b)"
  by (cases v) (auto simp: of_type_def value_type_def)

text \<open>C35: De Morgan's law holds of boolean expressions with \<^verbatim>\<open>NULL\<close>, evaluation order, short circuits and errors
  included: \<^verbatim>\<open>NOT (a AND b)\<close> and \<^verbatim>\<open>NOT a OR NOT b\<close> have the same outcome and leave the same state.\<close>

theorem de_morgan:
  assumes "row_typed qs row" "expr_type qs a = Some ColBoolean" "expr_type qs b = Some ColBoolean"
  shows "eval ee (Some (qs, row)) ps (EUnary OpNot (EBinary a OpAnd b)) st
       = eval ee (Some (qs, row)) ps (EBinary (EUnary OpNot a) OpOr (EUnary OpNot b)) st"
proof -
  let ?a = "eval ee (Some (qs, row)) ps a" and ?b = "eval ee (Some (qs, row)) ps b"
  have a: "v = Null \<or> (\<exists>x. v = Bool x)" if "?a st = (Inr v, s)" for v s
    using yieldsD [OF eval_has_type [OF assms(1,2)] that] by (rule boolean_cases)
  have b: "v = Null \<or> (\<exists>x. v = Bool x)" if "?b s = (Inr v, s')" for v s s'
    using yieldsD [OF eval_has_type [OF assms(1,3)] that] by (rule boolean_cases)
  obtain ra sa where ra: "?a st = (ra, sa)" by fastforce
  show ?thesis
  proof (cases ra)
    case (Inl e)
    then show ?thesis using ra by (simp add: ebind_def)
  next
    case (Inr v)
    obtain rb s' where rb: "?b sa = (rb, s')" by fastforce
    show ?thesis
    proof (cases rb)
      case (Inl e)
      then show ?thesis using a [of v sa] ra rb Inr
        by (auto simp: ebind_def erbind_def ev_res_def ev_ok_def eval_binary_def eval_not_def truthy3_def)
    next
      case (Inr w)
      then show ?thesis using a [of v sa] b [of sa w s'] ra rb \<open>ra = Inr v\<close>
        by (auto simp: ebind_def erbind_def ev_res_def ev_ok_def eval_binary_def eval_not_def truthy3_def and_values_def or_values_def)
    qed
  qed
qed

lemma de_morgan_witness:
  "eval plain_env (Some (schema_new, [])) [] (EUnary OpNot (EBinary (EIsNull (ELiteral Null) False) OpAnd (ELike (ELiteral Null) (ELiteral Null) False))) 0
   = eval plain_env (Some (schema_new, [])) [] (EBinary (EUnary OpNot (EIsNull (ELiteral Null) False)) OpOr (EUnary OpNot (ELike (ELiteral Null) (ELiteral Null) False))) 0
   \<and> eval plain_env (Some (schema_new, [])) [] (EUnary OpNot (EBinary (EIsNull (ELiteral Null) False) OpAnd (ELike (ELiteral Null) (ELiteral Null) False))) 0
   = (Inr Null, 0)"
proof
  show "eval plain_env (Some (schema_new, [])) [] (EUnary OpNot (EBinary (EIsNull (ELiteral Null) False) OpAnd (ELike (ELiteral Null) (ELiteral Null) False))) 0
   = eval plain_env (Some (schema_new, [])) [] (EBinary (EUnary OpNot (EIsNull (ELiteral Null) False)) OpOr (EUnary OpNot (ELike (ELiteral Null) (ELiteral Null) False))) 0"
    by (rule de_morgan) (simp_all add: row_typed_def schema_new_def)
qed code_simp

definition exact_result :: "bin_op \<Rightarrow> int \<Rightarrow> int \<Rightarrow> int" where
  "exact_result op x y = (case op of OpAdd \<Rightarrow> x + y | OpSub \<Rightarrow> x - y | OpMul \<Rightarrow> x * y
     | OpDiv \<Rightarrow> sgn x * sgn y * (\<bar>x\<bar> div \<bar>y\<bar>) | _ \<Rightarrow> sgn x * (\<bar>x\<bar> mod \<bar>y\<bar>))"

lemma int_rem_exact: "y \<noteq> 0 \<Longrightarrow> x - y * int_quot x y = sgn x * (\<bar>x\<bar> mod \<bar>y\<bar>)" for x y :: int
proof -
  assume "y \<noteq> 0"
  have "x - y * int_quot x y = sgn x * \<bar>x\<bar> - sgn x * \<bar>y\<bar> * (\<bar>x\<bar> div \<bar>y\<bar>)"
    by (simp add: int_quot_def sgn_mult_abs abs_sgn mult.commute mult.left_commute mult.assoc)
  also have "\<dots> = sgn x * (\<bar>x\<bar> mod \<bar>y\<bar>)"
    by (simp add: minus_mult_div_eq_mod [symmetric] right_diff_distrib mult.assoc)
  finally show ?thesis .
qed

lemma int_rem_range: "y \<noteq> 0 \<Longrightarrow> - (2 ^ 63) \<le> y \<Longrightarrow> y < 2 ^ 63 \<Longrightarrow> - (2 ^ 63) \<le> sgn x * (\<bar>x\<bar> mod \<bar>y\<bar>) \<and> sgn x * (\<bar>x\<bar> mod \<bar>y\<bar>) < 2 ^ 63" for x y :: int
proof -
  assume y: "y \<noteq> 0" "- (2 ^ 63) \<le> y" "y < 2 ^ 63"
  have "0 \<le> \<bar>x\<bar> mod \<bar>y\<bar>" "\<bar>x\<bar> mod \<bar>y\<bar> < \<bar>y\<bar>" "\<bar>y\<bar> \<le> 2 ^ 63" using y by auto
  then show ?thesis by (cases x "0 :: int" rule: linorder_cases) auto
qed

definition exact_or_refused :: "bin_op \<Rightarrow> u64 \<Rightarrow> u64 \<Rightarrow> val res \<Rightarrow> bool" where
  "exact_or_refused op x y r = (case r of
      Inr Null \<Rightarrow> op \<in> {OpDiv, OpMod} \<and> y = 0
    | Inr (Integer z) \<Rightarrow> (y \<noteq> 0 \<or> op \<notin> {OpDiv, OpMod}) \<and> sint z = exact_result op (sint x) (sint y)
    | Inl _ \<Rightarrow> exact_result op (sint x) (sint y) < - (2 ^ 63) \<or> 2 ^ 63 \<le> exact_result op (sint x) (sint y)
    | _ \<Rightarrow> False)"

lemma checked_exact: "op \<notin> {OpDiv, OpMod} \<or> y \<noteq> 0 \<Longrightarrow> n = exact_result op (sint x) (sint y) \<Longrightarrow> exact_or_refused op x y (checked n)"
  by (auto simp: checked_def sql_fail_def exact_or_refused_def sint_of_int)

text \<open>C36: integer arithmetic is exact or refused: the operators on two integers give their result over the integers
  (division truncated towards zero, the remainder with the sign of the dividend), \<^verbatim>\<open>NULL\<close> exactly for a zero divisor, and an
  error exactly when the result is not an \<^verbatim>\<open>i64\<close>.  No wrap-around is ever stored.\<close>

theorem integer_arithmetic_exact:
  assumes "op \<in> {OpAdd, OpSub, OpMul, OpDiv, OpMod}"
  shows "exact_or_refused op x y (arith op (Integer x) (Integer y))"
proof -
  have s0: "sint y = 0 \<longleftrightarrow> y = 0" by (metis signed_0 signed_word_eqI)
  consider "op \<in> {OpAdd, OpSub, OpMul}" | "op \<in> {OpDiv, OpMod}" "y = 0" | "op = OpDiv" "y \<noteq> 0" | "op = OpMod" "y \<noteq> 0"
    using assms by auto
  then show ?thesis
  proof cases
    case 1
    then show ?thesis by (auto simp: arith_def int_arith_def intro!: checked_exact) (simp_all add: exact_result_def)
  next
    case 2
    then show ?thesis by (auto simp: arith_def int_arith_def exact_or_refused_def)
  next
    case 3
    then show ?thesis using s0
      by (auto simp: arith_def int_arith_def intro!: checked_exact) (simp add: exact_result_def int_quot_def)
  next
    case 4
    then have "int_arith OpMod (sint x) (sint y) = Inr (Integer (of_int (exact_result OpMod (sint x) (sint y))))"
      using s0 by (simp add: int_arith_def exact_result_def int_rem_exact)
    moreover have "sint (of_int (exact_result OpMod (sint x) (sint y)) :: u64) = exact_result OpMod (sint x) (sint y)"
      using int_rem_range [of "sint y" "sint x"] 4 s0 sint_range [of y] by (intro sint_of_int) (simp_all add: exact_result_def)
    ultimately show ?thesis using 4 by (simp add: arith_def exact_or_refused_def)
  qed
qed

lemma integer_arithmetic_exact_witness:
  "exact_or_refused OpMod (- 7) 2 (Inr (Integer (- 1))) \<and> exact_result OpMod (- 7) 2 = - 1"
proof
  have "arith OpMod (Integer (- 7)) (Integer 2) = Inr (Integer (- 1))" by code_simp
  then show "exact_or_refused OpMod (- 7) 2 (Inr (Integer (- 1)))" using integer_arithmetic_exact [of OpMod "- 7" 2] by simp
  show "exact_result OpMod (- 7) 2 = - 1" by code_simp
qed

text \<open>C38: a \<^verbatim>\<open>LIKE\<close> pattern matches piece by piece: two patterns in a row match a text exactly when it splits into a part for
  each, \<^verbatim>\<open>%\<close> takes any text and \<^verbatim>\<open>_\<close> any single code point.\<close>

theorem like_patterns_compose:
  "(like_match (p @ q) s \<longleftrightarrow> (\<exists>u v. s = u @ v \<and> like_match p u \<and> like_match q v))
   \<and> like_match [37] s \<and> (like_match [95] s \<longleftrightarrow> (\<exists>c. s = [c]))"
  by (cases s) (simp_all add: like_match_append like_match_any like_match_one)

text \<open>C37: the text of a JSON value reads back as the value, for every value without an infinite or undefined number: strings with
  quotes, escapes and control characters, numbers of all magnitudes, and arrays and objects nested in any way.\<close>

theorem json_text_reads_back:
  assumes "json_ok j"
  shows "json_parse (json_to_string j) = Some (Some j)"
  by (rule json_text_parsed [OF assms])

lemma json_text_reads_back_witness:
  "json_parse (json_to_string (JObject [([97, 34], JArray [JNull, JInt (- 5), JStr [10, 0x20AC]])]))
   = Some (Some (JObject [([97, 34], JArray [JNull, JInt (- 5), JStr [10, 0x20AC]])]))"
  by (rule json_text_reads_back) simp

lemma two_53_rounds: "n = 2 ^ 53 \<or> n = 2 ^ 53 + 1 \<Longrightarrow> f64_of_i64 (of_int n) = of_nat (1076 * 2 ^ 52)"
proof -
  assume n: "n = 2 ^ 53 \<or> n = 2 ^ 53 + 1"
  define u :: nat where "u = 2 ^ 1074"
  have k: "floorlog 2 (nat n * u) = 1128"
    using n floorlog_between [of 1127 "nat n * u"] by (auto simp: u_def)
  have half: "half_even (nat n) 2 = 2 ^ 52" using n by (auto simp: half_even_def)
  have "(2 :: nat) ^ 1075 = u * 2" by (simp only: u_def power_Suc [symmetric] mult.commute) simp
  then have "fp_nearest F64 (nat n * u) 1 = 1076 * 2 ^ 52"
    using half_even_scale [of u "nat n" 2] half k
    by (simp add: fp_nearest_def F64_def u_def [symmetric] mult.commute [of "nat n"])
  moreover have "sint (of_int n :: u64) = n" using n by (intro sint_of_int) auto
  ultimately show ?thesis using n by (auto simp: f64_of_i64_def fp_of_int_def fp_round_def sign_bit_def F64_def u_def)
qed

lemma f64_cmp_same: "\<not> f64_is_nan x \<Longrightarrow> f64_cmp x x = Some OEqual"
  by (cases "d64 x") (auto simp: f64_cmp_def f64_is_nan_def compare_lin_def)

text \<open>C39: equality of numbers is not transitive: an integer meets a real through the nearest real, so two different integers
  are both equal to the same real.\<close>

theorem number_equality_not_transitive:
  "\<exists>x y. cmp_values (Integer x) (Real (f64_of_i64 x)) = Inr (Some OEqual)
      \<and> cmp_values (Real (f64_of_i64 x)) (Integer y) = Inr (Some OEqual)
      \<and> cmp_values (Integer x) (Integer y) = Inr (Some OLess)"
proof (intro exI conjI)
  let ?x = "of_int (2 ^ 53) :: u64" and ?y = "of_int (2 ^ 53 + 1) :: u64"
  have x: "f64_of_i64 ?x = of_nat (1076 * 2 ^ 52)" "f64_of_i64 ?y = of_nat (1076 * 2 ^ 52)" by (intro two_53_rounds; simp)+
  have n: "\<not> f64_is_nan (of_nat (1076 * 2 ^ 52))" by (simp add: f64_is_nan_def d64_def fp_read_def F64_def)
  show "cmp_values (Integer ?x) (Real (f64_of_i64 ?x)) = Inr (Some OEqual)" using f64_cmp_same [OF n] x by simp
  show "cmp_values (Real (f64_of_i64 ?x)) (Integer ?y) = Inr (Some OEqual)" using f64_cmp_same [OF n] x by simp
  have "sint ?x = 2 ^ 53" "sint ?y = 2 ^ 53 + 1" by (intro sint_of_int; simp)+
  then show "cmp_values (Integer ?x) (Integer ?y) = Inr (Some OLess)" by (simp add: compare_lin_def)
qed

text \<open>C40: the two zeros of the reals are equal as values of a query and have different keys in an index and different
  bytes in the key of a group: a row stored with the negative zero is found by a scan and missed by an index.\<close>

theorem zeros_equal_with_two_keys:
  "cmp_values (Real 0) (Real (2 ^ 63)) = Inr (Some OEqual)
    \<and> encode_index_value (Real 0) \<noteq> encode_index_value (Real (2 ^ 63)) \<and> encode_values [Real 0] \<noteq> encode_values [Real (2 ^ 63)]"
proof (intro conjI)
  show "cmp_values (Real 0) (Real (2 ^ 63)) = Inr (Some OEqual)"
    by (simp add: f64_cmp_def d64_def fp_read_def F64_def compare_lin_def fp_signed_def)
  have u: "u64_be a = u64_be b \<Longrightarrow> a = b" for a b by (metis be_val_u64_be unsigned_word_eqI)
  then show "encode_index_value (Real 0) \<noteq> encode_index_value (Real (2 ^ 63))"
    by (auto simp: encode_index_value_def real_be_def dest!: u)
  have l: "u64_le a = u64_le b \<Longrightarrow> a = b" for a b by (metis le_val_u64_le unsigned_word_eqI)
  show "encode_values [Real 0] \<noteq> encode_values [Real (2 ^ 63)]"
    by (auto simp: encode_values_eq value_payload_def value_tag_def dest!: l)
qed

end
