(* ===== verification/Aggregate.thy ===== *)
theory Aggregate
  imports Eval
begin

text \<open>
  Aggregates and groups (\<^verbatim>\<open>src/exec.rs\<close>: \<^verbatim>\<open>aggregate_projection\<close>, \<^verbatim>\<open>col_outside_agg\<close>, \<^verbatim>\<open>collect_columns\<close>,
  \<^verbatim>\<open>run_grouped\<close>, \<^verbatim>\<open>fold_aggregates\<close>, \<^verbatim>\<open>compute_aggregate\<close>) with what every query shares: removal of duplicates, the sort
  of \<^verbatim>\<open>ORDER BY\<close> and \<^verbatim>\<open>LIMIT\<close>.  The sort is the stable one of the standard library; where two keys cannot be compared its
  choice of comparisons decides which error is seen first, so of an error only its presence is modelled.

  Window functions (\<^verbatim>\<open>collect_windows\<close> to \<^verbatim>\<open>window_aggregate\<close>) are computed over all
  rows that pass the filter: the rows of a partition are positions in the input, in the order of the window, and the
  result has a value for every row.  Bounds of frames are \<^verbatim>\<open>isize\<close> with the wrap-around of a release build.
\<close>

section \<open>Shared parts\<close>

text \<open>The derived equality of values: that of the floats on reals.\<close>

definition val_eq :: "val \<Rightarrow> val \<Rightarrow> bool" where
  "val_eq a b = (case (a, b) of (Real x, Real y) \<Rightarrow> f64_cmp x y = Some OEqual | _ \<Rightarrow> a = b)"

definition row_eq :: "val list \<Rightarrow> val list \<Rightarrow> bool" where "row_eq = list_all2 val_eq"

fun dedup :: "('a \<Rightarrow> 'a \<Rightarrow> bool) \<Rightarrow> 'a list \<Rightarrow> 'a list \<Rightarrow> 'a list" where
  "dedup eq out [] = out"
| "dedup eq out (x # xs) = dedup eq (if list_ex (eq x) out then out else out @ [x]) xs"

definition dedup_preserving :: "val list list \<Rightarrow> val list list" where "dedup_preserving = dedup row_eq []"

fun collect_res :: "'a res list \<Rightarrow> 'a list res" where
  "collect_res [] = Inr []"
| "collect_res (r # rs) = rbind r (\<lambda>x. rbind (collect_res rs) (\<lambda>xs. Inr (x # xs)))"

definition map_ev :: "('a \<Rightarrow> 'b ev) \<Rightarrow> 'a list \<Rightarrow> 'b list ev" where "map_ev f xs = run_all (map f xs)"

definition limit_offset :: "eval_env \<Rightarrow> expr option \<Rightarrow> expr option \<Rightarrow> val list \<Rightarrow> 'a list \<Rightarrow> 'a list ev" where
  "limit_offset ee limit offset ps rows =
     ebind (case offset of Some e \<Rightarrow> usize_const ee ps ''OFFSET'' e | None \<Rightarrow> ev_ok 0) (\<lambda>off.
     ebind (case limit of Some e \<Rightarrow> usize_const ee ps ''LIMIT'' e | None \<Rightarrow> ev_ok (2 ^ 64 - 1)) (\<lambda>lim.
     ev_ok (take lim (drop off rows))))"

definition reverse_ordering :: "ordering \<Rightarrow> ordering" where
  "reverse_ordering c = (case c of OLess \<Rightarrow> OGreater | OEqual \<Rightarrow> OEqual | OGreater \<Rightarrow> OLess)"

fun cmp_keys :: "bool list \<Rightarrow> val list \<Rightarrow> val list \<Rightarrow> ordering res" where
  "cmp_keys (d # ds) (a # as) (b # bs) = rbind (cmp_nulls_first a b) (\<lambda>c.
     if c = OEqual then cmp_keys ds as bs else Inr (if d then reverse_ordering c else c))"
| "cmp_keys _ _ _ = Inr OEqual"

fun insert_by :: "('a \<Rightarrow> 'a \<Rightarrow> ordering res) \<Rightarrow> 'a \<Rightarrow> 'a list \<Rightarrow> 'a list res" where
  "insert_by cmp x [] = Inr [x]"
| "insert_by cmp x (y # ys) = rbind (cmp x y) (\<lambda>c.
     if c = OGreater then rbind (insert_by cmp x ys) (\<lambda>zs. Inr (y # zs)) else Inr (x # y # ys))"

fun sort_by :: "('a \<Rightarrow> 'a \<Rightarrow> ordering res) \<Rightarrow> 'a list \<Rightarrow> 'a list res" where
  "sort_by cmp [] = Inr []"
| "sort_by cmp (x # xs) = rbind (sort_by cmp xs) (insert_by cmp x)"

section \<open>Columns of an expression\<close>

fun first_some :: "'a option list \<Rightarrow> 'a option" where
  "first_some [] = None" | "first_some (x # xs) = (case x of Some y \<Rightarrow> Some y | None \<Rightarrow> first_some xs)"

definition flat_opt :: "'a option option \<Rightarrow> 'a option" where "flat_opt x = (case x of Some y \<Rightarrow> y | None \<Rightarrow> None)"

fun col_outside_agg :: "expr \<Rightarrow> bytes option" where
  "col_outside_agg (EColumn _ name) = Some name"
| "col_outside_agg (ELiteral _) = None"
| "col_outside_agg (EParam _) = None"
| "col_outside_agg (EAggregate _ _ _ _) = None"
| "col_outside_agg (EUnary _ e) = col_outside_agg e"
| "col_outside_agg (EBinary a _ b) = first_some [col_outside_agg a, col_outside_agg b]"
| "col_outside_agg (EIsNull e _) = col_outside_agg e"
| "col_outside_agg (ELike e p _) = first_some [col_outside_agg e, col_outside_agg p]"
| "col_outside_agg (EMatch c q _) = first_some [col_outside_agg c, col_outside_agg q]"
| "col_outside_agg (EFunction _ args) = first_some (map col_outside_agg args)"
| "col_outside_agg (EIn e xs _) = first_some (col_outside_agg e # map col_outside_agg xs)"
| "col_outside_agg (ECast e _) = col_outside_agg e"
| "col_outside_agg (ECase operand whens els) =
     first_some (flat_opt (map_option col_outside_agg operand)
       # map (\<lambda>(c, r). first_some [col_outside_agg c, col_outside_agg r]) whens @ [flat_opt (map_option col_outside_agg els)])"
| "col_outside_agg (EScalarSubquery _) = None"
| "col_outside_agg (EExists _) = None"
| "col_outside_agg (EInSubquery e _ _) = col_outside_agg e"
| "col_outside_agg (EWindow _ _ _ _ _) = None"

type_synonym col_ref = "bytes option \<times> bytes"

definition opt_list :: "'a list option \<Rightarrow> 'a list" where "opt_list x = (case x of Some y \<Rightarrow> y | None \<Rightarrow> [])"

fun collect_columns :: "bool \<Rightarrow> expr \<Rightarrow> col_ref list" where
  "collect_columns skip (EColumn t name) = [(t, name)]"
| "collect_columns skip (ELiteral _) = []"
| "collect_columns skip (EParam _) = []"
| "collect_columns skip (EUnary _ e) = collect_columns skip e"
| "collect_columns skip (EIsNull e _) = collect_columns skip e"
| "collect_columns skip (EBinary a _ b) = collect_columns skip a @ collect_columns skip b"
| "collect_columns skip (ELike e p _) = collect_columns skip e @ collect_columns skip p"
| "collect_columns skip (EMatch c q _) = collect_columns skip c @ collect_columns skip q"
| "collect_columns skip (EAggregate _ arg _ _) = (if skip then [] else opt_list (map_option (collect_columns skip) arg))"
| "collect_columns skip (EFunction _ args) = concat (map (collect_columns skip) args)"
| "collect_columns skip (EIn e xs _) = collect_columns skip e @ concat (map (collect_columns skip) xs)"
| "collect_columns skip (ECast e _) = collect_columns skip e"
| "collect_columns skip (ECase operand whens els) = opt_list (map_option (collect_columns skip) operand)
     @ concat (map (\<lambda>(c, r). collect_columns skip c @ collect_columns skip r) whens) @ opt_list (map_option (collect_columns skip) els)"
| "collect_columns skip (EScalarSubquery _) = []"
| "collect_columns skip (EExists _) = []"
| "collect_columns skip (EInSubquery e _ _) = collect_columns skip e"
| "collect_columns skip (EWindow _ args partition_by _ _) =
     concat (map (collect_columns skip) args) @ concat (map (collect_columns skip) partition_by)"

section \<open>Aggregates\<close>

record accu =
  ac_count :: u64
  ac_int :: u64
  ac_real :: u64
  ac_real_seen :: bool
  ac_best :: "val option"

definition accu_start :: accu where
  "accu_start = \<lparr>ac_count = 0, ac_int = 0, ac_real = 0, ac_real_seen = False, ac_best = None\<rparr>"

definition sum_step :: "accu \<Rightarrow> val \<Rightarrow> accu res" where
  "sum_step a v = (case v of
       Integer n \<Rightarrow>
         if ac_real_seen a then Inr (a\<lparr>ac_real := f64_add (ac_real a) (f64_of_i64 n)\<rparr>)
         else (let s = sint (ac_int a) + sint n in
           if - (2 ^ 63) \<le> s \<and> s < 2 ^ 63 then Inr (a\<lparr>ac_int := of_int s\<rparr>)
           else sql_fail ''desbordamiento de entero en SUM'')
     | Real f \<Rightarrow>
         let r = (if ac_real_seen a then ac_real a else f64_of_i64 (ac_int a)) in
         Inr (a\<lparr>ac_real := f64_add r f, ac_real_seen := True\<rparr>)
     | _ \<Rightarrow> sql_fail (''SUM requiere valores numericos, no '' @ type_name v))"

definition avg_step :: "accu \<Rightarrow> val \<Rightarrow> accu res" where
  "avg_step a v = (case num_f64 v of
       Some f \<Rightarrow> Inr (a\<lparr>ac_real := f64_add (ac_real a) f\<rparr>)
     | None \<Rightarrow> sql_fail (''AVG requiere valores numericos, no '' @ type_name v))"

text \<open>The better of the best value so far and the next one; the first of equals stays.\<close>

definition keep_best :: "ordering \<Rightarrow> val option \<Rightarrow> val \<Rightarrow> val res" where
  "keep_best want best v = (case best of
       None \<Rightarrow> Inr v
     | Some b \<Rightarrow> rbind (cmp_values v b) (\<lambda>c. Inr (if c = Some want then v else b)))"

definition best_step :: "ordering \<Rightarrow> accu \<Rightarrow> val \<Rightarrow> accu res" where
  "best_step want a v = rbind (keep_best want (ac_best a) v) (\<lambda>b. Inr (a\<lparr>ac_best := Some b\<rparr>))"

definition agg_step :: "agg_func \<Rightarrow> accu \<Rightarrow> val \<Rightarrow> accu res" where
  "agg_step func a0 v = (let a = a0\<lparr>ac_count := ac_count a0 + 1\<rparr> in case func of
       AggCount \<Rightarrow> Inr a
     | AggSum \<Rightarrow> sum_step a v
     | AggAvg \<Rightarrow> avg_step a v
     | AggMin \<Rightarrow> best_step OLess a v
     | AggMax \<Rightarrow> best_step OGreater a v
     | AggGroupConcat \<Rightarrow> Inl Panic)"

fun agg_fold :: "agg_func \<Rightarrow> accu \<Rightarrow> val list \<Rightarrow> accu res" where
  "agg_fold func a [] = Inr a"
| "agg_fold func a (v # vs) = rbind (agg_step func a v) (\<lambda>b. agg_fold func b vs)"

definition agg_result :: "agg_func \<Rightarrow> accu \<Rightarrow> val res" where
  "agg_result func a = (case func of
       AggCount \<Rightarrow> Inr (Integer (ac_count a))
     | AggSum \<Rightarrow> Inr (if ac_count a = 0 then Null else if ac_real_seen a then Real (ac_real a) else Integer (ac_int a))
     | AggAvg \<Rightarrow> Inr (if ac_count a = 0 then Null else Real (f64_div (ac_real a) (f64_of_i64 (ac_count a))))
     | AggMin \<Rightarrow> Inr (case ac_best a of Some v \<Rightarrow> v | None \<Rightarrow> Null)
     | AggMax \<Rightarrow> Inr (case ac_best a of Some v \<Rightarrow> v | None \<Rightarrow> Null)
     | AggGroupConcat \<Rightarrow> Inl Panic)"

fun concat_parts :: "val list \<Rightarrow> bytes list res" where
  "concat_parts [] = Inr []"
| "concat_parts (v # vs) = (case v of
     Text s \<Rightarrow> rbind (concat_parts vs) (\<lambda>ss. Inr (s # ss))
   | _ \<Rightarrow> sql_fail (''GROUP_CONCAT requiere TEXT, no '' @ type_name v @ '' (usa CAST)''))"

definition separator :: "eval_env \<Rightarrow> val list \<Rightarrow> expr option \<Rightarrow> bytes ev" where
  "separator ee ps sep = (case sep of
       None \<Rightarrow> ev_ok [44]
     | Some e \<Rightarrow> ebind (eval_const ee ps e) (\<lambda>v. case v of
         Text s \<Rightarrow> ev_ok s
       | Null \<Rightarrow> ev_ok [44]
       | _ \<Rightarrow> ev_fail (''GROUP_CONCAT: el separador debe ser TEXT, no '' @ type_name v)))"

definition compute_aggregate ::
  "eval_env \<Rightarrow> agg_func \<Rightarrow> expr option \<Rightarrow> bool \<Rightarrow> expr option \<Rightarrow> query_schema \<Rightarrow> val list list \<Rightarrow> val list \<Rightarrow> val ev" where
  "compute_aggregate ee func arg uniq sep qs rows ps = (case arg of
       None \<Rightarrow> ev_ok (Integer (of_nat (length rows)))
     | Some arg \<Rightarrow>
         if has_aggregate arg then ev_fail ''agregados anidados''
         else ebind (map_ev (\<lambda>row. eval ee (Some (qs, row)) ps arg) rows) (\<lambda>all.
           let present = filter (\<lambda>v. v \<noteq> Null) all;
               values = (if uniq then dedup val_eq [] present else present)
           in if func = AggGroupConcat then
                (if values = [] then ev_ok Null
                 else ebind (separator ee ps sep) (\<lambda>s. erbind (concat_parts values) (\<lambda>parts. ev_ok (Text (joined_by s parts)))))
              else erbind (agg_fold func accu_start values) (\<lambda>a. ev_res (agg_result func a))))"

text \<open>Every aggregate below an expression becomes its value over the rows.\<close>

fun fold_aggregates :: "eval_env \<Rightarrow> query_schema \<Rightarrow> val list list \<Rightarrow> val list \<Rightarrow> expr \<Rightarrow> expr ev" where
  "fold_aggregates ee qs rows ps (EAggregate func arg uniq sep) =
     ebind (compute_aggregate ee func arg uniq sep qs rows ps) (\<lambda>v. ev_ok (ELiteral v))"
| "fold_aggregates ee qs rows ps (EUnary op e) = ebind (fold_aggregates ee qs rows ps e) (\<lambda>e'. ev_ok (EUnary op e'))"
| "fold_aggregates ee qs rows ps (EBinary a op b) =
     ebind (fold_aggregates ee qs rows ps a) (\<lambda>a'. ebind (fold_aggregates ee qs rows ps b) (\<lambda>b'. ev_ok (EBinary a' op b')))"
| "fold_aggregates ee qs rows ps (EIsNull e negated) = ebind (fold_aggregates ee qs rows ps e) (\<lambda>e'. ev_ok (EIsNull e' negated))"
| "fold_aggregates ee qs rows ps (ELike e p negated) =
     ebind (fold_aggregates ee qs rows ps e) (\<lambda>e'. ebind (fold_aggregates ee qs rows ps p) (\<lambda>p'. ev_ok (ELike e' p' negated)))"
| "fold_aggregates ee qs rows ps (EMatch c q negated) =
     ebind (fold_aggregates ee qs rows ps c) (\<lambda>c'. ebind (fold_aggregates ee qs rows ps q) (\<lambda>q'. ev_ok (EMatch c' q' negated)))"
| "fold_aggregates ee qs rows ps (EFunction name args) =
     ebind (run_all (map (fold_aggregates ee qs rows ps) args)) (\<lambda>as. ev_ok (EFunction name as))"
| "fold_aggregates ee qs rows ps (EIn e xs negated) =
     ebind (fold_aggregates ee qs rows ps e) (\<lambda>e'. ebind (run_all (map (fold_aggregates ee qs rows ps) xs)) (\<lambda>ys. ev_ok (EIn e' ys negated)))"
| "fold_aggregates ee qs rows ps (ECast e t) = ebind (fold_aggregates ee qs rows ps e) (\<lambda>e'. ev_ok (ECast e' t))"
| "fold_aggregates ee qs rows ps (ECase operand whens els) =
     ebind (case map_option (fold_aggregates ee qs rows ps) operand of
              Some m \<Rightarrow> ebind m (\<lambda>x. ev_ok (Some x)) | None \<Rightarrow> ev_ok None) (\<lambda>operand'.
     ebind (run_all (map (\<lambda>(c, r). ebind (fold_aggregates ee qs rows ps c) (\<lambda>c'.
              ebind (fold_aggregates ee qs rows ps r) (\<lambda>r'. ev_ok (c', r')))) whens)) (\<lambda>whens'.
     ebind (case map_option (fold_aggregates ee qs rows ps) els of
              Some m \<Rightarrow> ebind m (\<lambda>x. ev_ok (Some x)) | None \<Rightarrow> ev_ok None) (\<lambda>els'.
     ev_ok (ECase operand' whens' els'))))"
| "fold_aggregates ee qs rows ps (ELiteral v) = ev_ok (ELiteral v)"
| "fold_aggregates ee qs rows ps (EColumn t n) = ev_ok (EColumn t n)"
| "fold_aggregates ee qs rows ps (EParam n) = ev_ok (EParam n)"
| "fold_aggregates ee qs rows ps (EScalarSubquery s) = ev_ok (EScalarSubquery s)"
| "fold_aggregates ee qs rows ps (EExists s) = ev_ok (EExists s)"
| "fold_aggregates ee qs rows ps (EInSubquery e s negated) = ev_ok (EInSubquery e s negated)"
| "fold_aggregates ee qs rows ps (EWindow f as pb ob fr) = ev_ok (EWindow f as pb ob fr)"

record select_out =
  so_columns :: "bytes list"
  so_rows :: "val list list"

text \<open>The name of an output column: its alias or \<^verbatim>\<open>colN\<close>, with the name of a plain column between them.\<close>

definition col_n :: "nat \<Rightarrow> bytes" where "col_n i = ascii_text ''col'' @ dec_text (i + 1)"

definition item_name :: "nat \<Rightarrow> select_item \<Rightarrow> bytes" where
  "item_name i it = (case it of
       ItemExpr _ (Some a) \<Rightarrow> a
     | ItemExpr (EColumn _ name) None \<Rightarrow> name
     | _ \<Rightarrow> col_n i)"

text \<open>One row over all the input, without \<^verbatim>\<open>GROUP BY\<close>.\<close>

fun aggregate_projection :: "eval_env \<Rightarrow> query_schema \<Rightarrow> val list list \<Rightarrow> val list \<Rightarrow> nat \<Rightarrow> select_item list \<Rightarrow> (bytes list \<times> val list) ev" where
  "aggregate_projection ee qs rows ps i [] = ev_ok ([], [])"
| "aggregate_projection ee qs rows ps i (Star # items) = ev_fail ([CHR 0x27, CHR 0x2A, CHR 0x27] @ '' no se puede combinar con agregados'')"
| "aggregate_projection ee qs rows ps i (ItemExpr e alias # items) = (case col_outside_agg e of
     Some name \<Rightarrow> ev_fail (''sin GROUP BY, la columna '' @ text_of name @ '' debe ir dentro de un agregado'')
   | None \<Rightarrow> erbind (validate_columns qs e) (\<lambda>_.
       ebind (fold_aggregates ee qs rows ps e) (\<lambda>e'.
       ebind (eval_const ee ps e') (\<lambda>v.
       ebind (aggregate_projection ee qs rows ps (i + 1) items) (\<lambda>(names, vs).
       ev_ok ((case alias of Some a \<Rightarrow> a | None \<Rightarrow> col_n i) # names, v # vs))))))"

section \<open>Groups\<close>

fun group_add :: "'k \<Rightarrow> 'a \<Rightarrow> ('k \<times> 'a list) list \<Rightarrow> ('k \<times> 'a list) list" where
  "group_add k x [] = [(k, [x])]"
| "group_add k x ((k', xs) # gs) = (if k' = k then (k', xs @ [x]) # gs else (k', xs) # group_add k x gs)"

definition group_rows :: "('k \<times> 'a) list \<Rightarrow> ('k \<times> 'a list) list" where
  "group_rows kxs = foldl (\<lambda>gs (k, x). group_add k x gs) [] kxs"

definition same_col :: "col_ref \<Rightarrow> col_ref \<Rightarrow> bool" where
  "same_col c g \<longleftrightarrow> snd g = snd c \<and> (fst g = None \<or> fst c = None \<or> fst g = fst c)"

definition check_grouped :: "query_schema \<Rightarrow> col_ref list \<Rightarrow> expr \<Rightarrow> unit res" where
  "check_grouped qs group_cols e = rbind (validate_columns qs e) (\<lambda>_.
     case find (\<lambda>c. \<not> list_ex (same_col c) group_cols) (collect_columns True e) of
       Some c \<Rightarrow> sql_fail (''la columna '' @ text_of (snd c) @ '' debe ir en GROUP BY o dentro de un agregado'')
     | None \<Rightarrow> Inr ())"

fun check_items :: "query_schema \<Rightarrow> col_ref list \<Rightarrow> select_item list \<Rightarrow> unit res" where
  "check_items qs cols [] = Inr ()"
| "check_items qs cols (Star # items) = sql_fail ([CHR 0x27, CHR 0x2A, CHR 0x27] @ '' no se puede combinar con GROUP BY'')"
| "check_items qs cols (ItemExpr e _ # items) = rbind (check_grouped qs cols e) (\<lambda>_. check_items qs cols items)"

definition item_expr :: "select_item \<Rightarrow> expr res" where
  "item_expr it = (case it of ItemExpr e _ \<Rightarrow> Inr e | Star \<Rightarrow> Inl Panic)"

text \<open>The row of one group, or nothing if \<^verbatim>\<open>HAVING\<close> drops it; the first row of the group gives its columns.\<close>

definition group_row :: "eval_env \<Rightarrow> query_schema \<Rightarrow> val list \<Rightarrow> expr option \<Rightarrow> select_item list \<Rightarrow> val list list \<Rightarrow> val list option ev" where
  "group_row ee qs ps having items grp =
     (let rep = hd grp;
          out = map_ev (\<lambda>it. erbind (item_expr it) (\<lambda>e. ebind (fold_aggregates ee qs grp ps e) (\<lambda>e'. eval ee (Some (qs, rep)) ps e'))) items
      in case having of
           None \<Rightarrow> ebind out (\<lambda>r. ev_ok (Some r))
         | Some h \<Rightarrow> ebind (fold_aggregates ee qs grp ps h) (\<lambda>h'. ebind (eval ee (Some (qs, rep)) ps h') (\<lambda>v.
             erbind (truthy v) (\<lambda>keep. if keep then ebind out (\<lambda>r. ev_ok (Some r)) else ev_ok None))))"

text \<open>\<^verbatim>\<open>ORDER BY\<close> on output columns, by name or position.\<close>

definition sort_output :: "(expr \<times> bool) list \<Rightarrow> bytes list \<Rightarrow> val list list \<Rightarrow> val list list res" where
  "sort_output order_by columns rows =
     (if order_by = [] then Inr rows
      else rbind (collect_res (map (\<lambda>(e, d). rbind (order_output_index e columns) (\<lambda>i. Inr (i, d))) order_by)) (\<lambda>order.
        let keys = (\<lambda>row. map (\<lambda>(i, _). row ! i) order)
        in sort_by (\<lambda>a b. cmp_keys (map snd order) (keys a) (keys b)) rows))"

definition run_grouped :: "eval_env \<Rightarrow> select_stmt \<Rightarrow> query_schema \<Rightarrow> val list list \<Rightarrow> val list \<Rightarrow> select_out ev" where
  "run_grouped ee stmt qs rows ps =
     erbind (all_ok (map (validate_columns qs) (ss_group_by stmt))) (\<lambda>_.
     let group_cols = concat (map (collect_columns False) (ss_group_by stmt)); items = ss_projection stmt in
     erbind (check_items qs group_cols items) (\<lambda>_.
     erbind (case ss_having stmt of Some h \<Rightarrow> check_grouped qs group_cols h | None \<Rightarrow> Inr ()) (\<lambda>_.
     ebind (map_ev (\<lambda>row. ebind (map_ev (eval ee (Some (qs, row)) ps) (ss_group_by stmt)) (\<lambda>key. ev_ok (encode_values key, row))) rows) (\<lambda>keyed.
     let columns = map (\<lambda>(i, it). item_name i it) (enumerate 0 items) in
     ebind (map_ev (\<lambda>(_, grp). group_row ee qs ps (ss_having stmt) items grp) (group_rows keyed)) (\<lambda>outs.
     erbind (sort_output (ss_order_by stmt) columns (List.map_filter (\<lambda>r. r) outs)) (\<lambda>sorted.
     ebind (limit_offset ee (ss_limit stmt) (ss_offset stmt) ps sorted) (\<lambda>rows.
     ev_ok \<lparr>so_columns = columns, so_rows = rows\<rparr>)))))))"

section \<open>Windows of an expression\<close>

text \<open>The list grows by the windows of an expression that it does not have yet.\<close>

fun collect_windows :: "expr \<Rightarrow> expr list" where
  "collect_windows (EWindow f as pb ob fr) = [EWindow f as pb ob fr]"
| "collect_windows (EUnary _ e) = collect_windows e"
| "collect_windows (EIsNull e _) = collect_windows e"
| "collect_windows (ECast e _) = collect_windows e"
| "collect_windows (EBinary a _ b) = collect_windows a @ collect_windows b"
| "collect_windows (ELike a b _) = collect_windows a @ collect_windows b"
| "collect_windows (EFunction _ args) = concat (map collect_windows args)"
| "collect_windows (EIn e xs _) = collect_windows e @ concat (map collect_windows xs)"
| "collect_windows (ECase operand whens els) = opt_list (map_option collect_windows operand)
     @ concat (map (\<lambda>(c, r). collect_windows c @ collect_windows r) whens) @ opt_list (map_option collect_windows els)"
| "collect_windows _ = []"

definition distinct_windows :: "expr list \<Rightarrow> expr list" where "distinct_windows = dedup (=) []"

text \<open>The windows of an expression replaced by their values.\<close>

fun subst_windows :: "(expr \<Rightarrow> val option) \<Rightarrow> expr \<Rightarrow> expr" where
  "subst_windows f (EWindow w as pb ob fr) =
     (case f (EWindow w as pb ob fr) of Some v \<Rightarrow> ELiteral v | None \<Rightarrow> EWindow w as pb ob fr)"
| "subst_windows f (EUnary op e) = EUnary op (subst_windows f e)"
| "subst_windows f (EBinary a op b) = EBinary (subst_windows f a) op (subst_windows f b)"
| "subst_windows f (EIsNull e n) = EIsNull (subst_windows f e) n"
| "subst_windows f (ELike a b n) = ELike (subst_windows f a) (subst_windows f b) n"
| "subst_windows f (EFunction name args) = EFunction name (map (subst_windows f) args)"
| "subst_windows f (EIn e xs n) = EIn (subst_windows f e) (map (subst_windows f) xs) n"
| "subst_windows f (ECast e t) = ECast (subst_windows f e) t"
| "subst_windows f (ECase operand whens els) =
     ECase (map_option (subst_windows f) operand) (map (\<lambda>(c, r). (subst_windows f c, subst_windows f r)) whens)
       (map_option (subst_windows f) els)"
| "subst_windows f e = e"

section \<open>Frames\<close>

definition isize :: "int \<Rightarrow> int" where "isize n = sint (of_int n :: u64)"

definition frame_point :: "int \<Rightarrow> int \<Rightarrow> bool \<Rightarrow> frame_bound \<Rightarrow> int" where
  "frame_point k m is_start b = (case b of
       UnboundedPreceding \<Rightarrow> if is_start then 0 else - 1
     | Preceding n \<Rightarrow> isize (k - isize (int n))
     | CurrentRow \<Rightarrow> k
     | Following n \<Rightarrow> isize (k + isize (int n))
     | UnboundedFollowing \<Rightarrow> if is_start then m else m - 1)"

text \<open>First and last position of the frame of row \<open>k\<close> of \<open>m\<close>, or nothing if it is empty.\<close>

definition frame_range :: "window_frame option \<Rightarrow> nat \<Rightarrow> nat \<Rightarrow> bool \<Rightarrow> (nat \<times> nat) option" where
  "frame_range frame k m has_order =
     (let (s, e) = (case frame of
            Some f \<Rightarrow> (wf_start f, wf_end f)
          | None \<Rightarrow> (UnboundedPreceding, if has_order then CurrentRow else UnboundedFollowing));
          lo = max 0 (frame_point (int k) (int m) True s);
          hi = min (int m - 1) (frame_point (int k) (int m) False e)
      in if lo \<le> hi then Some (nat lo, nat hi) else None)"

definition frame_slice :: "window_frame option \<Rightarrow> bool \<Rightarrow> nat list \<Rightarrow> nat \<Rightarrow> nat list" where
  "frame_slice frame has_order part k = (case frame_range frame k (length part) has_order of
       Some (s, e) \<Rightarrow> take (e + 1 - s) (drop s part) | None \<Rightarrow> [])"

section \<open>Aggregates over a frame\<close>

definition win_sum_step :: "accu \<Rightarrow> val \<Rightarrow> accu res" where
  "win_sum_step a v = (case v of
       Null \<Rightarrow> Inr a
     | Integer n \<Rightarrow> Inr (a\<lparr>ac_count := ac_count a + 1, ac_int := ac_int a + n, ac_real := f64_add (ac_real a) (f64_of_i64 n)\<rparr>)
     | Real f \<Rightarrow> Inr (a\<lparr>ac_count := ac_count a + 1, ac_real_seen := True, ac_real := f64_add (ac_real a) f\<rparr>)
     | _ \<Rightarrow> sql_fail (''SUM/AVG requieren numeros, no '' @ type_name v))"

fun win_sums :: "('a \<Rightarrow> val ev) \<Rightarrow> accu \<Rightarrow> 'a list \<Rightarrow> accu ev" where
  "win_sums value a [] = ev_ok a"
| "win_sums value a (i # is) = ebind (value i) (\<lambda>v. erbind (win_sum_step a v) (\<lambda>b. win_sums value b is))"

fun win_best :: "ordering \<Rightarrow> ('a \<Rightarrow> val ev) \<Rightarrow> val option \<Rightarrow> 'a list \<Rightarrow> val option ev" where
  "win_best want value best [] = ev_ok best"
| "win_best want value best (i # is) = ebind (value i) (\<lambda>v.
     if v = Null then win_best want value best is
     else erbind (keep_best want best v) (\<lambda>b. win_best want value (Some b) is))"

definition window_aggregate :: "window_func \<Rightarrow> bool \<Rightarrow> ('a \<Rightarrow> val ev) \<Rightarrow> 'a list \<Rightarrow> val ev" where
  "window_aggregate func no_args value frame = (case func of
       WinCount \<Rightarrow> if no_args then ev_ok (count_int (length frame))
         else ebind (map_ev value frame) (\<lambda>vs. ev_ok (count_int (length (filter (\<lambda>v. v \<noteq> Null) vs))))
     | WinSum \<Rightarrow> ebind (win_sums value accu_start frame) (\<lambda>a.
         ev_ok (if ac_count a = 0 then Null else if ac_real_seen a then Real (ac_real a) else Integer (ac_int a)))
     | WinAvg \<Rightarrow> ebind (win_sums value accu_start frame) (\<lambda>a.
         ev_ok (if ac_count a = 0 then Null else Real (f64_div (ac_real a) (f64_of_i64 (ac_count a)))))
     | WinMin \<Rightarrow> ebind (win_best OLess value None frame) (\<lambda>b. ev_ok (case b of Some v \<Rightarrow> v | None \<Rightarrow> Null))
     | WinMax \<Rightarrow> ebind (win_best OGreater value None frame) (\<lambda>b. ev_ok (case b of Some v \<Rightarrow> v | None \<Rightarrow> Null))
     | _ \<Rightarrow> ev_res (Inl Panic))"

section \<open>One partition\<close>

text \<open>Rank and dense rank of every row, by its key; without an order every row has its own.\<close>

fun ranks :: "bool \<Rightarrow> (val list \<times> nat \<times> nat) option \<Rightarrow> nat \<Rightarrow> val list list \<Rightarrow> (nat \<times> nat) list" where
  "ranks has_order prev k [] = []"
| "ranks has_order prev k (key # keys) =
     (let (rank, dense) = (case prev of
            None \<Rightarrow> (k + 1, 1)
          | Some (p, r, d) \<Rightarrow> if \<not> has_order \<or> \<not> row_eq p key then (k + 1, d + 1) else (r, d))
      in (rank, dense) # ranks has_order (Some (key, rank, dense)) (k + 1) keys)"

definition ntile :: "nat \<Rightarrow> nat \<Rightarrow> nat \<Rightarrow> nat" where
  "ntile k m p =
     (let base = m div k; rem = m mod k; big = (base + 1) * rem in
      if p < big then p div (base + 1) + 1 else rem + (p - big) div max base 1 + 1)"

definition tile_count :: "eval_env \<Rightarrow> val list \<Rightarrow> expr list \<Rightarrow> nat ev" where
  "tile_count ee ps args = (case args of
       [] \<Rightarrow> ev_res (Inl Panic)
     | a # _ \<Rightarrow> ebind (eval_const ee ps a) (\<lambda>v. case v of
           Integer n \<Rightarrow> if 1 \<le> sint n then ev_ok (unat n) else ev_fail ''NTILE() requiere un entero positivo''
         | _ \<Rightarrow> ev_fail ''NTILE() requiere un entero positivo''))"

definition shift_offset :: "eval_env \<Rightarrow> val list \<Rightarrow> expr list \<Rightarrow> int ev" where
  "shift_offset ee ps args = (case get_at args 1 of
       None \<Rightarrow> ev_ok 1
     | Some e \<Rightarrow> ebind (eval_const ee ps e) (\<lambda>v. case v of
         Integer n \<Rightarrow> ev_ok (sint n) | _ \<Rightarrow> ev_fail ''el desplazamiento de LAG/LEAD debe ser entero''))"

text \<open>The values of the rows of a partition, in its order.\<close>

definition shifted :: "expr list \<Rightarrow> (expr \<Rightarrow> nat \<Rightarrow> val ev) \<Rightarrow> (nat \<Rightarrow> val ev) \<Rightarrow> nat list \<Rightarrow> int \<Rightarrow> nat \<Rightarrow> val ev" where
  "shifted args on_row arg0 part target k =
     (if 0 \<le> target \<and> target < int (length part) then arg0 (nat target)
      else case get_at args 2 of Some e \<Rightarrow> on_row e (part ! k) | None \<Rightarrow> ev_ok Null)"

definition window_partition ::
  "eval_env \<Rightarrow> window_func \<Rightarrow> expr list \<Rightarrow> window_frame option \<Rightarrow> (nat \<Rightarrow> val list) \<Rightarrow> bool \<Rightarrow> query_schema \<Rightarrow>
     (nat \<Rightarrow> val list) \<Rightarrow> val list \<Rightarrow> nat list \<Rightarrow> val list ev" where
  "window_partition ee func args frame order_key has_order qs row ps part =
     (let m = length part;
          on_row = (\<lambda>e i. eval ee (Some (qs, row i)) ps e);
          arg0 = (\<lambda>p. case args of a # _ \<Rightarrow> on_row a (part ! p) | [] \<Rightarrow> ev_res (Inl Panic))
      in case func of
           WinRowNumber \<Rightarrow> ev_ok (map (\<lambda>k. count_int (k + 1)) [0..<m])
         | WinRank \<Rightarrow> ev_ok (map (\<lambda>(r, _). count_int r) (ranks has_order None 0 (map order_key part)))
         | WinDenseRank \<Rightarrow> ev_ok (map (\<lambda>(_, d). count_int d) (ranks has_order None 0 (map order_key part)))
         | WinNtile \<Rightarrow> ebind (tile_count ee ps args) (\<lambda>k. ev_ok (map (\<lambda>p. count_int (ntile k m p)) [0..<m]))
         | WinLag \<Rightarrow> ebind (shift_offset ee ps args) (\<lambda>off. map_ev (\<lambda>k. shifted args on_row arg0 part (isize (int k - off)) k) [0..<m])
         | WinLead \<Rightarrow> ebind (shift_offset ee ps args) (\<lambda>off. map_ev (\<lambda>k. shifted args on_row arg0 part (isize (int k + off)) k) [0..<m])
         | WinFirstValue \<Rightarrow> map_ev (\<lambda>k. case frame_range frame k m has_order of Some (s, _) \<Rightarrow> arg0 s | None \<Rightarrow> ev_ok Null) [0..<m]
         | WinLastValue \<Rightarrow> map_ev (\<lambda>k. case frame_range frame k m has_order of Some (_, e) \<Rightarrow> arg0 e | None \<Rightarrow> ev_ok Null) [0..<m]
         | _ \<Rightarrow> map_ev (\<lambda>k. window_aggregate func (args = [])
               (\<lambda>i. case args of a # _ \<Rightarrow> on_row a i | [] \<Rightarrow> ev_res (Inl Panic)) (frame_slice frame has_order part k)) [0..<m])"

section \<open>One window over all rows\<close>

definition fill :: "'a list \<Rightarrow> (nat \<times> 'a) list \<Rightarrow> 'a list" where "fill = foldl (\<lambda>r (i, v). r[i := v])"

fun window_parts :: "(nat list \<Rightarrow> nat list res) \<Rightarrow> (nat list \<Rightarrow> val list ev) \<Rightarrow> val list \<Rightarrow> nat list list \<Rightarrow> val list ev" where
  "window_parts order values result [] = ev_ok result"
| "window_parts order values result (part # parts) =
     erbind (order part) (\<lambda>sorted. ebind (values sorted) (\<lambda>vs. window_parts order values (fill result (zip sorted vs)) parts))"

definition compute_window :: "eval_env \<Rightarrow> query_schema \<Rightarrow> val list list \<Rightarrow> val list \<Rightarrow> expr \<Rightarrow> val list ev" where
  "compute_window ee qs rows ps w = (case w of
       EWindow func args partition_by order_by frame \<Rightarrow>
         ebind (map_ev (\<lambda>row. map_ev (eval ee (Some (qs, row)) ps) partition_by) rows) (\<lambda>keys.
         ebind (map_ev (\<lambda>row. map_ev (\<lambda>(e, _). eval ee (Some (qs, row)) ps e) order_by) rows) (\<lambda>order_keys.
         let parts = map snd (group_rows (zip (map encode_values keys) [0..<length rows]));
             order = (\<lambda>part. if order_by = [] then Inr part
               else sort_by (\<lambda>a b. cmp_keys (map snd order_by) (order_keys ! a) (order_keys ! b)) part);
             values = window_partition ee func args frame ((!) order_keys) (order_by \<noteq> []) qs ((!) rows) ps
         in window_parts order values (replicate (length rows) Null) parts))
     | _ \<Rightarrow> ev_res (Inl Panic))"

section \<open>The query\<close>

text \<open>What \<^verbatim>\<open>*\<close> stands for: the columns of every table that are not dropped, in their logical order.\<close>

definition live_columns :: "table_def \<Rightarrow> nat list" where
  "live_columns d = filter (\<lambda>p. \<not> cd_dropped (td_columns d ! p)) (td_logical_order d)"

definition star_map :: "query_schema \<Rightarrow> nat list" where
  "star_map qs = concat (map (\<lambda>t. map (\<lambda>p. sb_offset t + p) (live_columns (sb_def t))) (qs_tables qs))"

definition star_names :: "query_schema \<Rightarrow> bytes list" where
  "star_names qs = concat (map (\<lambda>t. map (\<lambda>p. cd_name (td_columns (sb_def t) ! p)) (live_columns (sb_def t))) (qs_tables qs))"

definition output_names :: "query_schema \<Rightarrow> select_item list \<Rightarrow> bytes list" where
  "output_names qs items = concat (map (\<lambda>(i, it). if it = Star then star_names qs else [item_name i it]) (enumerate 0 items))"

definition star_values :: "query_schema \<Rightarrow> val list \<Rightarrow> val list" where
  "star_values qs row = map (\<lambda>p. row ! p) (star_map qs)"

datatype sort_key = KeyOut nat | KeySchema nat

definition window_sort_key :: "query_schema \<Rightarrow> bytes list \<Rightarrow> expr \<Rightarrow> sort_key res" where
  "window_sort_key qs columns e = (case e of
       EColumn t name \<Rightarrow>
         (case (t, find_index (\<lambda>c. c = name) columns) of
            (None, Some i) \<Rightarrow> Inr (KeyOut i)
          | _ \<Rightarrow> rbind (resolve qs t name) (\<lambda>i. Inr (KeySchema i)))
     | ELiteral (Integer n) \<Rightarrow> if 1 \<le> sint n \<and> unat n \<le> length columns then Inr (KeyOut (unat n - 1))
         else sql_fail ''ORDER BY con ventanas solo admite una columna o su posicion''
     | _ \<Rightarrow> sql_fail ''ORDER BY con ventanas solo admite una columna o su posicion'')"

definition sort_windowed :: "query_schema \<Rightarrow> bytes list \<Rightarrow> (expr \<times> bool) list \<Rightarrow> (val list \<times> val list) list \<Rightarrow> (val list \<times> val list) list res" where
  "sort_windowed qs columns order_by pairs =
     (if order_by = [] then Inr pairs
      else rbind (collect_res (map (\<lambda>(e, _). window_sort_key qs columns e) order_by)) (\<lambda>ks.
        let keys = (\<lambda>(row, out). map (\<lambda>k. case k of KeyOut i \<Rightarrow> out ! i | KeySchema i \<Rightarrow> row ! i) ks)
        in sort_by (\<lambda>a b. cmp_keys (map snd order_by) (keys a) (keys b)) pairs))"

definition windowed_row :: "eval_env \<Rightarrow> query_schema \<Rightarrow> val list \<Rightarrow> select_item list \<Rightarrow> (expr \<Rightarrow> val option) \<Rightarrow> val list \<Rightarrow> val list ev" where
  "windowed_row ee qs ps items f row =
     ebind (map_ev (\<lambda>it. case it of
         Star \<Rightarrow> ev_ok (star_values qs row)
       | ItemExpr e _ \<Rightarrow> ebind (eval ee (Some (qs, row)) ps (subst_windows f e)) (\<lambda>v. ev_ok [v])) items) (\<lambda>vss. ev_ok (concat vss))"

definition item_check :: "query_schema \<Rightarrow> select_item \<Rightarrow> unit res" where
  "item_check qs it = (case it of Star \<Rightarrow> Inr () | ItemExpr e _ \<Rightarrow> validate_columns qs e)"

definition run_windowed :: "eval_env \<Rightarrow> select_stmt \<Rightarrow> query_schema \<Rightarrow> val list list \<Rightarrow> val list \<Rightarrow> select_out ev" where
  "run_windowed ee stmt qs rows ps =
     (let items = ss_projection stmt;
          windows = distinct_windows (concat (map (\<lambda>it. case it of ItemExpr e _ \<Rightarrow> collect_windows e | Star \<Rightarrow> []) items));
          columns = output_names qs items
      in erbind (all_ok (map (item_check qs) items)) (\<lambda>_.
         ebind (map_ev (compute_window ee qs rows ps) windows) (\<lambda>computed.
         let values = (\<lambda>i w. map_option (\<lambda>j. computed ! j ! i) (find_index (\<lambda>x. x = w) windows)) in
         ebind (map_ev (\<lambda>(i, row). ebind (windowed_row ee qs ps items (values i) row) (\<lambda>out. ev_ok (row, out))) (enumerate 0 rows)) (\<lambda>pairs.
         erbind (sort_windowed qs columns (ss_order_by stmt) pairs) (\<lambda>sorted.
         ebind (limit_offset ee (ss_limit stmt) (ss_offset stmt) ps
             ((if ss_distinct stmt then dedup_preserving else (\<lambda>x. x)) (map snd sorted))) (\<lambda>out.
         ev_ok \<lparr>so_columns = columns, so_rows = out\<rparr>))))))"

end
