(* ===== verification/Query.thy ===== *)
theory Query
  imports Aggregate Vectors Ivf
begin

text \<open>
  Running a query (\<^verbatim>\<open>src/exec.rs\<close>: \<^verbatim>\<open>run_select\<close> and what it calls): pushed down conditions, joins, the filter,
  grouping, order, projection, set operations, common table expressions and derived tables.  \<open>run_select k\<close> calls itself
  through the stages to a depth of \<open>k\<close>; beyond it the result is a panic, as when the stack of the program is exhausted.

  How a query reaches the rows of its first table (\<^verbatim>\<open>src/exec.rs\<close>): the interface \<^verbatim>\<open>DataSource\<close> as a record of
  its methods, the search for an access path --- rowid, index equality, index range, full text, vectors --- and the
  rows each path reads.  A path yields candidates; \<^verbatim>\<open>WHERE\<close> is applied to them again afterwards.
  The method \<^verbatim>\<open>view\<close> is left out with the views.

  Subqueries (\<^verbatim>\<open>src/exec.rs\<close>).  One that names no table of the query around it is run once and replaced by its value;
  the others are left for each row, where the outer columns are replaced by their values first.  The functions that
  run a query take the runner as an argument; \<open>run_select\<close> ties the knot.
\<close>

section \<open>The source of the rows\<close>

record data_source =
  ds_table :: "bytes \<Rightarrow> table_def option res"
  ds_get_row :: "table_def \<Rightarrow> u64 \<Rightarrow> val list option res"
  ds_scan_rows :: "table_def \<Rightarrow> val list list res"
  ds_index_lookup :: "table_def \<Rightarrow> index_def \<Rightarrow> val list \<Rightarrow> u64 list res"
  ds_index_range :: "table_def \<Rightarrow> index_def \<Rightarrow> (val \<times> bool) option \<Rightarrow> (val \<times> bool) option \<Rightarrow> u64 list res"
  ds_fts_search :: "table_def \<Rightarrow> fts_index_def \<Rightarrow> fts_query \<Rightarrow> u64 list res"
  ds_fts_stats :: "u32 \<Rightarrow> bytes list \<Rightarrow> (u64 list \<times> u64 \<times> u64) res"
  ds_fts_topk :: "table_def \<Rightarrow> fts_index_def \<Rightarrow> fts_query \<Rightarrow> nat \<Rightarrow> u64 list res"
  ds_vector_search :: "vector_index_def \<Rightarrow> vec \<Rightarrow> nat \<Rightarrow> nat \<Rightarrow> u64 list res"
  ds_knn_exact :: "table_def \<Rightarrow> nat \<Rightarrow> bytes \<Rightarrow> vector_metric \<Rightarrow> nat \<Rightarrow> u64 list res"
  ds_col_blob :: "table_def \<Rightarrow> nat \<Rightarrow> u64 \<Rightarrow> bytes option res"

definition lookup_table :: "data_source \<Rightarrow> table_ref \<Rightarrow> table_def res" where
  "lookup_table src t = rbind (ds_table src (tr_name t)) (\<lambda>d.
     or_err d (sql_fail (''tabla desconocida: '' @ text_of (tr_name t))))"

text \<open>The rows of some rowids; one that is not there is skipped.\<close>

definition rows_of :: "data_source \<Rightarrow> table_def \<Rightarrow> u64 list \<Rightarrow> val list list res" where
  "rows_of src d rowids = rbind (collect_res (map (ds_get_row src d) rowids)) (\<lambda>rs. Inr (List.map_filter (\<lambda>r. r) rs))"

lemma pred_option_code [code]: "pred_option P None \<longleftrightarrow> True" "pred_option P (Some x) \<longleftrightarrow> P x" by simp_all

section \<open>By rowid and by index\<close>

text \<open>A column of the table \<open>t\<close>, by its name alone or with the qualifier of the table.\<close>

definition own_column :: "schema_table \<Rightarrow> expr \<Rightarrow> nat option" where
  "own_column t e = (case e of
       EColumn tq name \<Rightarrow>
         if tq = None \<or> tq = Some (sb_qualifier t) then find_index (\<lambda>c. cd_name c = name) (td_columns (sb_def t)) else None
     | _ \<Rightarrow> None)"

definition is_alias_column :: "schema_table \<Rightarrow> nat \<Rightarrow> expr \<Rightarrow> bool" where
  "is_alias_column t alias e = (case e of
       EColumn tq name \<Rightarrow> name = cd_name (td_columns (sb_def t) ! alias) \<and> (tq = None \<or> tq = Some (sb_qualifier t))
     | _ \<Rightarrow> False)"

definition point_lookup_key :: "schema_table \<Rightarrow> expr option \<Rightarrow> expr option" where
  "point_lookup_key t w = (case (td_rowid_alias (sb_def t), w) of
       (Some alias, Some (EBinary l OpEq r)) \<Rightarrow>
         if is_alias_column t alias l \<and> is_const r then Some r
         else if is_alias_column t alias r \<and> is_const l then Some l else None
     | _ \<Rightarrow> None)"

fun collect_equalities :: "schema_table \<Rightarrow> expr \<Rightarrow> (nat \<times> expr) list" where
  "collect_equalities t (EBinary l OpAnd r) = collect_equalities t l @ collect_equalities t r"
| "collect_equalities t (EBinary l OpEq r) =
     (case own_column t l of
        Some c \<Rightarrow> if is_const r then [(c, r)]
          else (case own_column t r of Some c \<Rightarrow> if is_const l then [(c, l)] else [] | None \<Rightarrow> [])
      | None \<Rightarrow> (case own_column t r of Some c \<Rightarrow> if is_const l then [(c, l)] else [] | None \<Rightarrow> []))"
| "collect_equalities t _ = []"

text \<open>The constants of the columns of an index, if there is one for each.\<close>

fun covering :: "(nat \<times> expr) list \<Rightarrow> nat list \<Rightarrow> expr list option" where
  "covering eqs [] = Some []"
| "covering eqs (c # cs) = (case (map_of eqs c, covering eqs cs) of (Some e, Some es) \<Rightarrow> Some (e # es) | _ \<Rightarrow> None)"

fun best_index :: "(nat \<times> expr) list \<Rightarrow> (index_def \<times> expr list) option \<Rightarrow> index_def list \<Rightarrow> (index_def \<times> expr list) option" where
  "best_index eqs best [] = best"
| "best_index eqs best (idx # rest) =
     best_index eqs (case covering eqs (ix_columns idx) of
         Some es \<Rightarrow> (case best of
             Some (b, _) \<Rightarrow> if length (ix_columns b) < length (ix_columns idx) then Some (idx, es) else best
           | None \<Rightarrow> Some (idx, es))
       | None \<Rightarrow> best) rest"

definition index_eq_plan :: "schema_table \<Rightarrow> expr option \<Rightarrow> (index_def \<times> expr list) option" where
  "index_eq_plan t w = (case w of
       None \<Rightarrow> None
     | Some e \<Rightarrow> (let eqs = collect_equalities t e in
         if eqs = [] then None else best_index eqs None (td_indexes (sb_def t))))"

text \<open>The key of the constants: \<open>None\<close> where one is \<^verbatim>\<open>NULL\<close> or has no value of the type of its column.\<close>

fun index_key :: "eval_env \<Rightarrow> table_def \<Rightarrow> val list \<Rightarrow> nat list \<Rightarrow> expr list \<Rightarrow> val list option ev" where
  "index_key ee d ps (c # cs) (e # es) = ebind (eval_const ee ps e) (\<lambda>v.
     if v = Null then ev_ok None
     else case get_at (td_columns d) c of
         None \<Rightarrow> ev_res (Inl Panic)
       | Some col \<Rightarrow> (case coerce_value v (cd_col_type col) of
             None \<Rightarrow> ev_ok None
           | Some w \<Rightarrow> ebind (index_key ee d ps cs es) (\<lambda>ws. ev_ok (map_option ((#) w) ws))))"
| "index_key ee d ps _ _ = ev_ok (Some [])"

definition index_eq_rows :: "eval_env \<Rightarrow> data_source \<Rightarrow> table_def \<Rightarrow> val list \<Rightarrow> index_def \<Rightarrow> expr list \<Rightarrow> val list list ev" where
  "index_eq_rows ee src d ps idx es = ebind (index_key ee d ps (ix_columns idx) es) (\<lambda>key. ev_res (case key of
       None \<Rightarrow> ds_scan_rows src d
     | Some vs \<Rightarrow> rbind (ds_index_lookup src d idx vs) (rows_of src d)))"

definition flip_op :: "bin_op \<Rightarrow> bin_op" where
  "flip_op op = (case op of OpLt \<Rightarrow> OpGt | OpLe \<Rightarrow> OpGe | OpGt \<Rightarrow> OpLt | OpGe \<Rightarrow> OpLe | x \<Rightarrow> x)"

definition index_range_plan :: "schema_table \<Rightarrow> expr option \<Rightarrow> (index_def \<times> bin_op \<times> expr) option" where
  "index_range_plan t w = (case w of
       Some (EBinary l op r) \<Rightarrow>
         if op \<notin> {OpLt, OpLe, OpGt, OpGe} then None
         else let side = (case own_column t l of
                  Some c \<Rightarrow> if is_const r then Some (c, op, r)
                    else (case own_column t r of Some c \<Rightarrow> if is_const l then Some (c, flip_op op, l) else None | None \<Rightarrow> None)
                | None \<Rightarrow> (case own_column t r of Some c \<Rightarrow> if is_const l then Some (c, flip_op op, l) else None | None \<Rightarrow> None))
           in (case side of
                 None \<Rightarrow> None
               | Some (c, op, e) \<Rightarrow>
                   if td_rowid_alias (sb_def t) = Some c then None
                   else map_option (\<lambda>idx. (idx, op, e)) (find (\<lambda>i. ix_columns i = [c]) (td_indexes (sb_def t))))
     | _ \<Rightarrow> None)"

definition index_range_rows :: "eval_env \<Rightarrow> data_source \<Rightarrow> table_def \<Rightarrow> val list \<Rightarrow> index_def \<Rightarrow> bin_op \<Rightarrow> expr \<Rightarrow> val list list ev" where
  "index_range_rows ee src d ps idx op e = ebind (eval_const ee ps e) (\<lambda>v.
     case ix_columns idx of
       [] \<Rightarrow> ev_res (Inl Panic)
     | c # _ \<Rightarrow> ev_res (
         if v = Null then ds_scan_rows src d
         else rbind (or_err (get_at (td_columns d) c) (Inl Panic)) (\<lambda>col. case coerce_value v (cd_col_type col) of
             None \<Rightarrow> ds_scan_rows src d
           | Some w \<Rightarrow>
               let range = (\<lambda>lo hi. rbind (ds_index_range src d idx lo hi) (rows_of src d)) in
               (case op of
                  OpGt \<Rightarrow> range (Some (w, False)) None
                | OpGe \<Rightarrow> range (Some (w, True)) None
                | OpLt \<Rightarrow> range None (Some (w, False))
                | OpLe \<Rightarrow> range None (Some (w, True))
                | _ \<Rightarrow> ds_scan_rows src d))))"

section \<open>By full text\<close>

definition live_column :: "table_def \<Rightarrow> bytes \<Rightarrow> nat option" where "live_column = column_index"

definition fts_of_column :: "table_def \<Rightarrow> bytes \<Rightarrow> fts_index_def option" where
  "fts_of_column d name = (case live_column d name of
       Some p \<Rightarrow> find (\<lambda>f. p \<in> set (ft_columns f)) (td_fts_indexes d) | None \<Rightarrow> None)"

fun find_match_conjunct :: "expr \<Rightarrow> (expr \<times> expr \<times> bool) option" where
  "find_match_conjunct (EMatch c q negated) = Some (c, q, negated)"
| "find_match_conjunct (EBinary a OpAnd b) =
     (case find_match_conjunct a of Some m \<Rightarrow> Some m | None \<Rightarrow> find_match_conjunct b)"
| "find_match_conjunct _ = None"

definition fts_plan :: "eval_env \<Rightarrow> data_source \<Rightarrow> table_def \<Rightarrow> val list \<Rightarrow> expr option \<Rightarrow> val list list option ev" where
  "fts_plan ee src d ps w = (case Option.bind w find_match_conjunct of
       Some (EColumn _ name, q, False) \<Rightarrow>
         (case fts_of_column d name of
            None \<Rightarrow> ev_ok None
          | Some fts \<Rightarrow> ebind (eval_const ee ps q) (\<lambda>v. case v of
                Text s \<Rightarrow> ev_res (rbind (match_query s) (\<lambda>q. rbind (ds_fts_search src d fts q) (\<lambda>ids.
                    rbind (rows_of src d ids) (\<lambda>rows. Inr (Some rows)))))
              | _ \<Rightarrow> ev_ok None))
     | _ \<Rightarrow> ev_ok None)"

text \<open>Nothing after the scan changes the number of rows, as the code checks it: aggregates are not among the conditions.\<close>

definition plain_tail :: "select_stmt \<Rightarrow> bool" where
  "plain_tail stmt \<longleftrightarrow> ss_joins stmt = [] \<and> ss_group_by stmt = [] \<and> ss_having stmt = None \<and> \<not> ss_distinct stmt
     \<and> ss_offset stmt = None \<and> ss_compound stmt = []"

definition fts_topk_plan :: "eval_env \<Rightarrow> data_source \<Rightarrow> table_def \<Rightarrow> select_stmt \<Rightarrow> val list \<Rightarrow> val list list option ev" where
  "fts_topk_plan ee src d stmt ps =
     (case (ss_limit stmt, ss_order_by stmt) of
        (Some limit, [(EFunction fname [EColumn _ ob_col, ob_q], True)]) \<Rightarrow>
          if \<not> plain_tail stmt \<or> fname \<noteq> ascii_text ''bm25'' then ev_ok None
          else ebind (eval_const ee ps ob_q) (\<lambda>qv. case qv of
            Text ob_s \<Rightarrow>
              (case ss_where stmt of
                 Some (EMatch (EColumn _ m_col) m_q False) \<Rightarrow>
                   ebind (eval_const ee ps m_q) (\<lambda>mv. case mv of
                     Text m_s \<Rightarrow>
                       if m_col \<noteq> ob_col \<or> m_s \<noteq> ob_s then ev_ok None
                       else (case fts_of_column d m_col of
                           None \<Rightarrow> ev_ok None
                         | Some fts \<Rightarrow> ebind (usize_const ee ps ''LIMIT'' limit) (\<lambda>k.
                             ev_res (rbind (match_query m_s) (\<lambda>q.
                               rbind (ds_fts_topk src d fts q (max (min (2 ^ 64 - 1) (k * 8)) 64)) (\<lambda>ids.
                               rbind (rows_of src d ids) (\<lambda>rows. Inr (Some rows)))))))
                   | _ \<Rightarrow> ev_ok None)
               | _ \<Rightarrow> ev_ok None)
          | _ \<Rightarrow> ev_ok None)
      | _ \<Rightarrow> ev_ok None)"

section \<open>By distance\<close>

definition f32_sqrt :: "u32 \<Rightarrow> u32" where "f32_sqrt a = of_nat (fp_sqrt F32 (d32 a))"
definition F32_ONE :: u32 where "F32_ONE = 0x3F800000"
definition f32_zero :: "u32 \<Rightarrow> bool" where "f32_zero a \<longleftrightarrow> f32_cmp a 0 = Some OEqual"

text \<open>The query of nearest neighbours that an order by distance with a limit is: metric, column, vector and limit.\<close>

definition knn_shape :: "select_stmt \<Rightarrow> (vector_metric \<times> bytes \<times> expr \<times> expr) option" where
  "knn_shape stmt =
     (case (ss_where stmt, ss_limit stmt, ss_order_by stmt) of
        (None, Some limit, [(EFunction fname [EColumn _ col, q], False)]) \<Rightarrow>
          if fname = ascii_text ''cosine_distance'' then Some (Cosine, col, q, limit)
          else if fname = ascii_text ''l2_distance'' then Some (L2, col, q, limit) else None
      | _ \<Rightarrow> None)"

definition approx_distance :: "vector_metric \<Rightarrow> vec \<Rightarrow> u32 \<Rightarrow> vec \<Rightarrow> u32" where
  "approx_distance metric query qn x = (case metric of
       L2 \<Rightarrow> l2_sq x query
     | Cosine \<Rightarrow> let sn = f32_sqrt (dot_f32 x x) in
         if f32_zero sn \<or> f32_zero qn then F32_ONE else f32_sub F32_ONE (f32_div (dot_f32 x query) (f32_mul sn qn)))"

fun score_rows :: "data_source \<Rightarrow> table_def \<Rightarrow> nat \<Rightarrow> vector_metric \<Rightarrow> vec \<Rightarrow> u32 \<Rightarrow> u64 list \<Rightarrow> (u32 \<times> u64) list res" where
  "score_rows src d col metric query qn [] = Inr []"
| "score_rows src d col metric query qn (rid # rids) = rbind (ds_col_blob src d col rid) (\<lambda>b. case b of
     None \<Rightarrow> score_rows src d col metric query qn rids
   | Some blob \<Rightarrow> rbind (unpack blob) (\<lambda>x.
       rbind (score_rows src d col metric query qn rids) (\<lambda>rest.
       Inr (if length x \<noteq> length query then rest else (approx_distance metric query qn x, rid) # rest))))"

text \<open>The nearest \<open>kk\<close>; of equal distances the selection of the standard library may keep others.\<close>

definition nearest_scored :: "nat \<Rightarrow> (u32 \<times> u64) list \<Rightarrow> u64 list" where
  "nearest_scored kk scored = map snd (take kk (sort_key (\<lambda>(x, _). total_key x) scored))"

definition vector_candidates :: "data_source \<Rightarrow> table_def \<Rightarrow> select_stmt \<Rightarrow> nat \<Rightarrow> vector_metric \<Rightarrow> vector_index_def \<Rightarrow> vec \<Rightarrow> nat \<Rightarrow> u64 list res" where
  "vector_candidates src d stmt col metric vidx query k =
     (let nprobe = max (unat (vi_nprobe vidx)) 1; simple = plain_tail stmt in
      if vi_rerank_i8 vidx \<and> simple then
        rbind (ds_vector_search src vidx query nprobe (max k 1)) (\<lambda>ids. Inr (sort_key sint ids))
      else rbind (ds_vector_search src vidx query nprobe (max (min (2 ^ 64 - 1) (k * 32)) 64)) (\<lambda>ids.
        let shortlist = sort_key sint ids in
        if simple then
          rbind (score_rows src d col metric query (f32_sqrt (dot_f32 query query)) shortlist) (\<lambda>scored.
          Inr (nearest_scored (max k 1) scored))
        else Inr shortlist))"

definition vector_plan :: "eval_env \<Rightarrow> data_source \<Rightarrow> table_def \<Rightarrow> select_stmt \<Rightarrow> val list \<Rightarrow> val list list option ev" where
  "vector_plan ee src d stmt ps =
     (case knn_shape stmt of
        None \<Rightarrow> ev_ok None
      | Some (metric, name, q, limit) \<Rightarrow>
          (case live_column d name of
             None \<Rightarrow> ev_ok None
           | Some col \<Rightarrow>
               (case find (\<lambda>v. vi_column v = col \<and> vi_metric v = metric) (td_vector_indexes d) of
                  None \<Rightarrow> ev_ok None
                | Some vidx \<Rightarrow> ebind (eval_const ee ps q) (\<lambda>qv. case qv of
                      Blob qb \<Rightarrow> erbind (to_f32 qb) (\<lambda>query. ebind (usize_const ee ps ''LIMIT'' limit) (\<lambda>k.
                        ev_res (rbind (vector_candidates src d stmt col metric vidx query k) (\<lambda>ids.
                          rbind (rows_of src d ids) (\<lambda>rows. Inr (Some rows))))))
                    | _ \<Rightarrow> ev_ok None))))"

definition exact_knn_plan :: "eval_env \<Rightarrow> data_source \<Rightarrow> table_def \<Rightarrow> select_stmt \<Rightarrow> val list \<Rightarrow> val list list option ev" where
  "exact_knn_plan ee src d stmt ps =
     (case knn_shape stmt of
        None \<Rightarrow> ev_ok None
      | Some (metric, name, q, limit) \<Rightarrow>
          if \<not> plain_tail stmt then ev_ok None
          else (case live_column d name of
             None \<Rightarrow> ev_ok None
           | Some col \<Rightarrow> ebind (eval_const ee ps q) (\<lambda>qv. case qv of
                 Blob qb \<Rightarrow> ebind (usize_const ee ps ''LIMIT'' limit) (\<lambda>k.
                   ev_res (rbind (ds_knn_exact src d col qb metric k) (\<lambda>ids.
                     rbind (rows_of src d ids) (\<lambda>rows. Inr (Some rows)))))
               | _ \<Rightarrow> ev_ok None)))"

section \<open>The path of a query over one table\<close>

definition first_plan :: "val list list option ev \<Rightarrow> val list list ev \<Rightarrow> val list list ev" where
  "first_plan plan other = ebind plan (\<lambda>r. case r of Some rows \<Rightarrow> ev_ok rows | None \<Rightarrow> other)"

definition base_rows :: "eval_env \<Rightarrow> data_source \<Rightarrow> schema_table \<Rightarrow> select_stmt \<Rightarrow> val list \<Rightarrow> val list list ev" where
  "base_rows ee src t stmt ps =
     (let d = sb_def t; w = ss_where stmt in
      if ss_joins stmt \<noteq> [] then ev_res (ds_scan_rows src d)
      else case point_lookup_key t w of
        Some key \<Rightarrow> ebind (eval_const ee ps key) (\<lambda>v. ev_res (case v of
            Integer rid \<Rightarrow> rows_of src d [rid] | _ \<Rightarrow> ds_scan_rows src d))
      | None \<Rightarrow> (case index_eq_plan t w of
        Some (idx, es) \<Rightarrow> index_eq_rows ee src d ps idx es
      | None \<Rightarrow> (case index_range_plan t w of
        Some (idx, op, e) \<Rightarrow> index_range_rows ee src d ps idx op e
      | None \<Rightarrow> first_plan (fts_topk_plan ee src d stmt ps)
                (first_plan (fts_plan ee src d ps w)
                (first_plan (vector_plan ee src d stmt ps)
                (first_plan (exact_knn_plan ee src d stmt ps)
                (ev_res (ds_scan_rows src d))))))))"

section \<open>Statistics for relevance\<close>

fun collect_bm25 :: "expr \<Rightarrow> (expr \<times> expr) list" where
  "collect_bm25 (EFunction name args) =
     (if name = ascii_text ''bm25'' \<and> length args = 2 then [(args ! 0, args ! 1)] else concat (map collect_bm25 args))"
| "collect_bm25 (EUnary _ e) = collect_bm25 e"
| "collect_bm25 (ECast e _) = collect_bm25 e"
| "collect_bm25 (EIsNull e _) = collect_bm25 e"
| "collect_bm25 (EBinary a _ b) = collect_bm25 a @ collect_bm25 b"
| "collect_bm25 (ELike a b _) = collect_bm25 a @ collect_bm25 b"
| "collect_bm25 (EMatch a b _) = collect_bm25 a @ collect_bm25 b"
| "collect_bm25 (EIn e xs _) = collect_bm25 e @ concat (map collect_bm25 xs)"
| "collect_bm25 (ECase operand whens els) = opt_list (map_option collect_bm25 operand)
     @ concat (map (\<lambda>(c, r). collect_bm25 c @ collect_bm25 r) whens) @ opt_list (map_option collect_bm25 els)"
| "collect_bm25 (EAggregate _ arg _ _) = opt_list (map_option collect_bm25 arg)"
| "collect_bm25 (EWindow _ args partition_by order_by _) =
     concat (map collect_bm25 args) @ concat (map collect_bm25 partition_by) @ concat (map (\<lambda>(e, _). collect_bm25 e) order_by)"
| "collect_bm25 _ = []"

definition rank_context :: "eval_env \<Rightarrow> data_source \<Rightarrow> u32 \<Rightarrow> bytes \<Rightarrow> bytes \<Rightarrow> fts_rank_ctx res" where
  "rank_context ee src fts_id tok q_str =
     rbind (tokenizer_for tok) (\<lambda>tk. rbind (match_query q_str) (\<lambda>q.
     let terms = query_terms (ee_unicode ee) tk q in
     rbind (ds_fts_stats src fts_id terms) (\<lambda>(df, n, total).
     Inr \<lparr>fr_idf = zip terms (map (bm25_idf (ee_libm ee) n) df),
          fr_avgdl = (if n = 0 then 0 else f64_div (f64_of_u64 total) (f64_of_u64 n))\<rparr>)))"

fun precompute_calls :: "eval_env \<Rightarrow> data_source \<Rightarrow> val list \<Rightarrow> query_schema \<Rightarrow> (expr \<times> expr) list \<Rightarrow> query_schema ev" where
  "precompute_calls ee src ps qs [] = ev_ok qs"
| "precompute_calls ee src ps qs ((col, q) # calls) = (case col of
     EColumn tq name \<Rightarrow> ebind (eval_const ee ps q) (\<lambda>qv. case qv of
         Text q_str \<Rightarrow>
           erbind (owner_of qs tq name) (\<lambda>(d, p, _).
           erbind (fts_index_of d p name) (\<lambda>fts.
           if map_of (qs_fts_rank qs) (ft_id fts, q_str) \<noteq> None then precompute_calls ee src ps qs calls
           else erbind (rank_context ee src (ft_id fts) (ft_tokenizer fts) q_str) (\<lambda>ctx.
             precompute_calls ee src ps (qs\<lparr>qs_fts_rank := ((ft_id fts, q_str), ctx) # qs_fts_rank qs\<rparr>) calls)))
       | _ \<Rightarrow> ev_fail ''bm25(): la consulta debe ser texto constante'')
   | _ \<Rightarrow> ev_fail ''bm25(): el primer argumento debe ser una columna indexada'')"

definition precompute_bm25 :: "eval_env \<Rightarrow> data_source \<Rightarrow> query_schema \<Rightarrow> select_stmt \<Rightarrow> val list \<Rightarrow> query_schema ev" where
  "precompute_bm25 ee src qs stmt ps =
     precompute_calls ee src ps qs
       (concat (map (\<lambda>it. case it of ItemExpr e _ \<Rightarrow> collect_bm25 e | Star \<Rightarrow> []) (ss_projection stmt))
        @ concat (map (\<lambda>(e, _). collect_bm25 e) (ss_order_by stmt)))"

type_synonym runner = "data_source \<Rightarrow> select_stmt \<Rightarrow> val list \<Rightarrow> select_out ev"

section \<open>Where subqueries are\<close>

fun expr_has_subquery :: "expr \<Rightarrow> bool" where
  "expr_has_subquery (EScalarSubquery _) = True"
| "expr_has_subquery (EExists _) = True"
| "expr_has_subquery (EInSubquery _ _ _) = True"
| "expr_has_subquery (ELiteral _) = False"
| "expr_has_subquery (EColumn _ _) = False"
| "expr_has_subquery (EParam _) = False"
| "expr_has_subquery (EUnary _ e) = expr_has_subquery e"
| "expr_has_subquery (EBinary a _ b) = (expr_has_subquery a \<or> expr_has_subquery b)"
| "expr_has_subquery (EIsNull e _) = expr_has_subquery e"
| "expr_has_subquery (ELike a b _) = (expr_has_subquery a \<or> expr_has_subquery b)"
| "expr_has_subquery (EMatch a b _) = (expr_has_subquery a \<or> expr_has_subquery b)"
| "expr_has_subquery (EAggregate _ arg _ sep) = (some_opt expr_has_subquery arg \<or> some_opt expr_has_subquery sep)"
| "expr_has_subquery (EFunction _ args) = list_ex expr_has_subquery args"
| "expr_has_subquery (EIn e xs _) = (expr_has_subquery e \<or> list_ex expr_has_subquery xs)"
| "expr_has_subquery (ECast e _) = expr_has_subquery e"
| "expr_has_subquery (ECase operand whens els) = (some_opt expr_has_subquery operand
     \<or> list_ex (\<lambda>(c, r). expr_has_subquery c \<or> expr_has_subquery r) whens \<or> some_opt expr_has_subquery els)"
| "expr_has_subquery (EWindow _ args partition_by _ _) = (list_ex expr_has_subquery args \<or> list_ex expr_has_subquery partition_by)"

definition select_has_subquery :: "select_stmt \<Rightarrow> bool" where
  "select_has_subquery s \<longleftrightarrow> some_opt expr_has_subquery (ss_where s)
     \<or> list_ex (\<lambda>it. case it of ItemExpr e _ \<Rightarrow> expr_has_subquery e | Star \<Rightarrow> False) (ss_projection s)
     \<or> some_opt expr_has_subquery (ss_having s) \<or> list_ex (\<lambda>(_, _, on). expr_has_subquery on) (ss_joins s)
     \<or> list_ex expr_has_subquery (ss_group_by s)"

definition outer_qualifiers :: "select_stmt \<Rightarrow> bytes list" where
  "outer_qualifiers s = (case ss_from s of Some t \<Rightarrow> [qualifier t] | None \<Rightarrow> []) @ map (\<lambda>(_, t, _). qualifier t) (ss_joins s)"

text \<open>Whether some column is qualified by one of the names; the order of a query is not looked at.\<close>

fun expr_refs_quals :: "bytes list \<Rightarrow> expr \<Rightarrow> bool"
  and item_refs_quals :: "bytes list \<Rightarrow> select_item \<Rightarrow> bool"
  and stmt_refs_quals :: "bytes list \<Rightarrow> select_stmt \<Rightarrow> bool" where
  "expr_refs_quals qs (EColumn t _) = (case t of Some q \<Rightarrow> q \<in> set qs | None \<Rightarrow> False)"
| "expr_refs_quals qs (ELiteral _) = False"
| "expr_refs_quals qs (EParam _) = False"
| "expr_refs_quals qs (EUnary _ e) = expr_refs_quals qs e"
| "expr_refs_quals qs (ECast e _) = expr_refs_quals qs e"
| "expr_refs_quals qs (EIsNull e _) = expr_refs_quals qs e"
| "expr_refs_quals qs (EBinary a _ b) = (expr_refs_quals qs a \<or> expr_refs_quals qs b)"
| "expr_refs_quals qs (ELike a b _) = (expr_refs_quals qs a \<or> expr_refs_quals qs b)"
| "expr_refs_quals qs (EMatch a b _) = (expr_refs_quals qs a \<or> expr_refs_quals qs b)"
| "expr_refs_quals qs (EAggregate _ arg _ sep) = (some_opt (expr_refs_quals qs) arg \<or> some_opt (expr_refs_quals qs) sep)"
| "expr_refs_quals qs (EFunction _ args) = list_ex (expr_refs_quals qs) args"
| "expr_refs_quals qs (EIn e xs _) = (expr_refs_quals qs e \<or> list_ex (expr_refs_quals qs) xs)"
| "expr_refs_quals qs (ECase operand whens els) = (some_opt (expr_refs_quals qs) operand
     \<or> list_ex (\<lambda>(c, r). expr_refs_quals qs c \<or> expr_refs_quals qs r) whens \<or> some_opt (expr_refs_quals qs) els)"
| "expr_refs_quals qs (EScalarSubquery s) = stmt_refs_quals qs s"
| "expr_refs_quals qs (EExists s) = stmt_refs_quals qs s"
| "expr_refs_quals qs (EInSubquery e s _) = (expr_refs_quals qs e \<or> stmt_refs_quals qs s)"
| "expr_refs_quals qs (EWindow _ args partition_by order_by _) = (list_ex (expr_refs_quals qs) args
     \<or> list_ex (expr_refs_quals qs) partition_by \<or> list_ex (\<lambda>(e, _). expr_refs_quals qs e) order_by)"
| "item_refs_quals qs Star = False"
| "item_refs_quals qs (ItemExpr e _) = expr_refs_quals qs e"
| "stmt_refs_quals qs (SelectStmt _ items _ joins w gs h _ _ _ _ compound _) =
     (some_opt (expr_refs_quals qs) w \<or> some_opt (expr_refs_quals qs) h \<or> list_ex (item_refs_quals qs) items
      \<or> list_ex (\<lambda>(_, _, on). expr_refs_quals qs on) joins \<or> list_ex (expr_refs_quals qs) gs
      \<or> list_ex (\<lambda>(_, s). stmt_refs_quals qs s) compound)"

section \<open>Outer columns\<close>

definition opt_ev :: "'a ev option \<Rightarrow> 'a option ev" where
  "opt_ev x = (case x of Some m \<Rightarrow> ebind m (\<lambda>y. ev_ok (Some y)) | None \<Rightarrow> ev_ok None)"

definition pair_ev :: "'a ev \<times> 'b ev \<Rightarrow> ('a \<times> 'b) ev" where
  "pair_ev p = ebind (fst p) (\<lambda>x. ebind (snd p) (\<lambda>y. ev_ok (x, y)))"

text \<open>A qualified column that the outer schema has becomes the value of the row, whether or not the query around it has
  a table of that name itself.\<close>

definition outer_value :: "query_schema \<Rightarrow> val list \<Rightarrow> bytes option \<Rightarrow> bytes \<Rightarrow> expr ev" where
  "outer_value qs row t name = (case t of
       None \<Rightarrow> ev_ok (EColumn t name)
     | Some q \<Rightarrow> (case resolve qs (Some q) name of
         Inr i \<Rightarrow> ev_res (rbind (or_err (get_at row i) (Inl Panic)) (\<lambda>v. Inr (ELiteral v)))
       | Inl _ \<Rightarrow> ev_ok (EColumn t name)))"

fun subst_outer_expr :: "query_schema \<Rightarrow> val list \<Rightarrow> expr \<Rightarrow> expr ev"
  and subst_outer_item :: "query_schema \<Rightarrow> val list \<Rightarrow> select_item \<Rightarrow> select_item ev"
  and subst_outer_stmt :: "query_schema \<Rightarrow> val list \<Rightarrow> select_stmt \<Rightarrow> select_stmt ev" where
  "subst_outer_expr qs row (EColumn t name) = outer_value qs row t name"
| "subst_outer_expr qs row (ELiteral v) = ev_ok (ELiteral v)"
| "subst_outer_expr qs row (EParam n) = ev_ok (EParam n)"
| "subst_outer_expr qs row (EUnary op e) = ebind (subst_outer_expr qs row e) (\<lambda>x. ev_ok (EUnary op x))"
| "subst_outer_expr qs row (EBinary a op b) =
     ebind (subst_outer_expr qs row a) (\<lambda>x. ebind (subst_outer_expr qs row b) (\<lambda>y. ev_ok (EBinary x op y)))"
| "subst_outer_expr qs row (EIsNull e n) = ebind (subst_outer_expr qs row e) (\<lambda>x. ev_ok (EIsNull x n))"
| "subst_outer_expr qs row (ELike a b n) =
     ebind (subst_outer_expr qs row a) (\<lambda>x. ebind (subst_outer_expr qs row b) (\<lambda>y. ev_ok (ELike x y n)))"
| "subst_outer_expr qs row (EMatch a b n) =
     ebind (subst_outer_expr qs row a) (\<lambda>x. ebind (subst_outer_expr qs row b) (\<lambda>y. ev_ok (EMatch x y n)))"
| "subst_outer_expr qs row (EAggregate f arg u sep) =
     ebind (opt_ev (map_option (subst_outer_expr qs row) arg)) (\<lambda>x.
     ebind (opt_ev (map_option (subst_outer_expr qs row) sep)) (\<lambda>y. ev_ok (EAggregate f x u y)))"
| "subst_outer_expr qs row (EFunction name args) =
     ebind (run_all (map (subst_outer_expr qs row) args)) (\<lambda>xs. ev_ok (EFunction name xs))"
| "subst_outer_expr qs row (EIn e es n) =
     ebind (subst_outer_expr qs row e) (\<lambda>x. ebind (run_all (map (subst_outer_expr qs row) es)) (\<lambda>xs. ev_ok (EIn x xs n)))"
| "subst_outer_expr qs row (ECast e t) = ebind (subst_outer_expr qs row e) (\<lambda>x. ev_ok (ECast x t))"
| "subst_outer_expr qs row (ECase operand whens els) =
     ebind (opt_ev (map_option (subst_outer_expr qs row) operand)) (\<lambda>x.
     ebind (run_all (map (\<lambda>(c, r). pair_ev (subst_outer_expr qs row c, subst_outer_expr qs row r)) whens)) (\<lambda>ws.
     ebind (opt_ev (map_option (subst_outer_expr qs row) els)) (\<lambda>y. ev_ok (ECase x ws y))))"
| "subst_outer_expr qs row (EScalarSubquery s) = ebind (subst_outer_stmt qs row s) (\<lambda>x. ev_ok (EScalarSubquery x))"
| "subst_outer_expr qs row (EExists s) = ebind (subst_outer_stmt qs row s) (\<lambda>x. ev_ok (EExists x))"
| "subst_outer_expr qs row (EInSubquery e s n) =
     ebind (subst_outer_expr qs row e) (\<lambda>x. ebind (subst_outer_stmt qs row s) (\<lambda>y. ev_ok (EInSubquery x y n)))"
| "subst_outer_expr qs row (EWindow f args pb ob fr) =
     ebind (run_all (map (subst_outer_expr qs row) args)) (\<lambda>xs.
     ebind (run_all (map (subst_outer_expr qs row) pb)) (\<lambda>ys. ev_ok (EWindow f xs ys ob fr)))"
| "subst_outer_item qs row Star = ev_ok Star"
| "subst_outer_item qs row (ItemExpr e a) = ebind (subst_outer_expr qs row e) (\<lambda>x. ev_ok (ItemExpr x a))"
| "subst_outer_stmt qs row (SelectStmt d items from joins w gs h ob l os a compound ctes) =
     ebind (opt_ev (map_option (subst_outer_expr qs row) w)) (\<lambda>w'.
     ebind (opt_ev (map_option (subst_outer_expr qs row) h)) (\<lambda>h'.
     ebind (run_all (map (subst_outer_item qs row) items)) (\<lambda>items'.
     ebind (run_all (map (\<lambda>(k, t, on). ebind (subst_outer_expr qs row on) (\<lambda>x. ev_ok (k, t, x))) joins)) (\<lambda>joins'.
     ebind (run_all (map (subst_outer_expr qs row) gs)) (\<lambda>gs'.
     ebind (run_all (map (\<lambda>(k, s). ebind (subst_outer_stmt qs row s) (\<lambda>x. ev_ok (k, x))) compound)) (\<lambda>compound'.
     ev_ok (SelectStmt d items' from joins' w' gs' h' ob l os a compound' ctes)))))))"

section \<open>Subqueries replaced by their values\<close>

definition first_value :: "val list \<Rightarrow> val res" where
  "first_value row = (case row of v # _ \<Rightarrow> Inr v | [] \<Rightarrow> Inl Panic)"

definition eval_scalar_subquery :: "runner \<Rightarrow> data_source \<Rightarrow> select_stmt \<Rightarrow> val list \<Rightarrow> val ev" where
  "eval_scalar_subquery run src s ps = ebind (run src s ps) (\<lambda>out.
     if length (so_columns out) \<noteq> 1 then ev_fail ''una subconsulta escalar debe devolver exactamente una columna''
     else case so_rows out of
         [] \<Rightarrow> ev_ok Null
       | [row] \<Rightarrow> ev_res (first_value row)
       | _ \<Rightarrow> ev_fail ''una subconsulta escalar devolvio mas de una fila'')"

definition scalar_literal :: "runner \<Rightarrow> data_source \<Rightarrow> val list \<Rightarrow> select_stmt \<Rightarrow> expr ev" where
  "scalar_literal run src ps s = ebind (eval_scalar_subquery run src s ps) (\<lambda>v. ev_ok (ELiteral v))"

definition exists_literal :: "runner \<Rightarrow> data_source \<Rightarrow> val list \<Rightarrow> select_stmt \<Rightarrow> expr ev" where
  "exists_literal run src ps s = ebind (run src s ps) (\<lambda>out. ev_ok (ELiteral (Bool (so_rows out \<noteq> []))))"

text \<open>The list of an \<^verbatim>\<open>IN\<close>: the subquery runs before the operand is resolved.\<close>

definition in_literals :: "runner \<Rightarrow> data_source \<Rightarrow> val list \<Rightarrow> expr ev \<Rightarrow> select_stmt \<Rightarrow> bool \<Rightarrow> expr ev" where
  "in_literals run src ps e s negated = ebind (run src s ps) (\<lambda>out.
     if length (so_columns out) \<noteq> 1 then ev_fail ''IN (SELECT ..) requiere exactamente una columna''
     else erbind (collect_res (map first_value (so_rows out))) (\<lambda>vs.
       ebind e (\<lambda>x. ev_ok (EIn x (map ELiteral vs) negated))))"

text \<open>What becomes of the subqueries of an expression; everything else is rebuilt from its parts.\<close>

record subquery_cases =
  sq_scalar :: "select_stmt \<Rightarrow> expr ev"
  sq_exists :: "select_stmt \<Rightarrow> expr ev"
  sq_in :: "expr ev \<Rightarrow> select_stmt \<Rightarrow> bool \<Rightarrow> expr ev"

fun rebuild :: "subquery_cases \<Rightarrow> expr \<Rightarrow> expr ev" where
  "rebuild c (EScalarSubquery s) = sq_scalar c s"
| "rebuild c (EExists s) = sq_exists c s"
| "rebuild c (EInSubquery e s n) = sq_in c (rebuild c e) s n"
| "rebuild c (EColumn t name) = ev_ok (EColumn t name)"
| "rebuild c (ELiteral v) = ev_ok (ELiteral v)"
| "rebuild c (EParam n) = ev_ok (EParam n)"
| "rebuild c (EUnary op e) = ebind (rebuild c e) (\<lambda>x. ev_ok (EUnary op x))"
| "rebuild c (EBinary a op b) = ebind (rebuild c a) (\<lambda>x. ebind (rebuild c b) (\<lambda>y. ev_ok (EBinary x op y)))"
| "rebuild c (EIsNull e n) = ebind (rebuild c e) (\<lambda>x. ev_ok (EIsNull x n))"
| "rebuild c (ELike a b n) = ebind (rebuild c a) (\<lambda>x. ebind (rebuild c b) (\<lambda>y. ev_ok (ELike x y n)))"
| "rebuild c (EMatch a b n) = ebind (rebuild c a) (\<lambda>x. ebind (rebuild c b) (\<lambda>y. ev_ok (EMatch x y n)))"
| "rebuild c (EAggregate f arg u sep) = ebind (opt_ev (map_option (rebuild c) arg)) (\<lambda>x.
     ebind (opt_ev (map_option (rebuild c) sep)) (\<lambda>y. ev_ok (EAggregate f x u y)))"
| "rebuild c (EFunction name args) = ebind (run_all (map (rebuild c) args)) (\<lambda>xs. ev_ok (EFunction name xs))"
| "rebuild c (EIn e es n) = ebind (rebuild c e) (\<lambda>x. ebind (run_all (map (rebuild c) es)) (\<lambda>xs. ev_ok (EIn x xs n)))"
| "rebuild c (ECast e t) = ebind (rebuild c e) (\<lambda>x. ev_ok (ECast x t))"
| "rebuild c (ECase operand whens els) =
     ebind (opt_ev (map_option (rebuild c) operand)) (\<lambda>x.
     ebind (run_all (map (\<lambda>(k, r). pair_ev (rebuild c k, rebuild c r)) whens)) (\<lambda>ws.
     ebind (opt_ev (map_option (rebuild c) els)) (\<lambda>y. ev_ok (ECase x ws y))))"
| "rebuild c (EWindow f args pb ob fr) = ebind (run_all (map (rebuild c) args)) (\<lambda>xs.
     ebind (run_all (map (rebuild c) pb)) (\<lambda>ys. ev_ok (EWindow f xs ys ob fr)))"

definition resolve_expr :: "runner \<Rightarrow> data_source \<Rightarrow> val list \<Rightarrow> bytes list \<Rightarrow> expr \<Rightarrow> expr ev" where
  "resolve_expr run src ps outer = rebuild \<lparr>
     sq_scalar = (\<lambda>s. if stmt_refs_quals outer s then ev_ok (EScalarSubquery s) else scalar_literal run src ps s),
     sq_exists = (\<lambda>s. if stmt_refs_quals outer s then ev_ok (EExists s) else exists_literal run src ps s),
     sq_in = (\<lambda>e s n. if stmt_refs_quals outer s then ebind e (\<lambda>x. ev_ok (EInSubquery x s n)) else in_literals run src ps e s n)\<rparr>"

definition resolve_correlated_expr :: "runner \<Rightarrow> data_source \<Rightarrow> query_schema \<Rightarrow> val list \<Rightarrow> val list \<Rightarrow> expr \<Rightarrow> expr ev" where
  "resolve_correlated_expr run src qs row ps = rebuild \<lparr>
     sq_scalar = (\<lambda>s. ebind (subst_outer_stmt qs row s) (scalar_literal run src ps)),
     sq_exists = (\<lambda>s. ebind (subst_outer_stmt qs row s) (exists_literal run src ps)),
     sq_in = (\<lambda>e s n. ebind (subst_outer_stmt qs row s) (\<lambda>s. in_literals run src ps e s n))\<rparr>"

fun resolve_select_subqueries :: "runner \<Rightarrow> data_source \<Rightarrow> val list \<Rightarrow> bytes list \<Rightarrow> select_stmt \<Rightarrow> select_stmt ev" where
  "resolve_select_subqueries run src ps outer (SelectStmt d items from joins w gs h ob l os a compound ctes) =
     (let r = resolve_expr run src ps outer in
      ebind (opt_ev (map_option r w)) (\<lambda>w'.
      ebind (opt_ev (map_option r h)) (\<lambda>h'.
      ebind (run_all (map (\<lambda>it. case it of Star \<Rightarrow> ev_ok Star | ItemExpr e a \<Rightarrow> ebind (r e) (\<lambda>x. ev_ok (ItemExpr x a))) items)) (\<lambda>items'.
      ebind (run_all (map (\<lambda>(k, t, on). ebind (r on) (\<lambda>x. ev_ok (k, t, x))) joins)) (\<lambda>joins'.
      ebind (run_all (map r gs)) (\<lambda>gs'.
      ev_ok (SelectStmt d items' from joins' w' gs' h' ob l os a compound ctes)))))))"

section \<open>Conditions pushed to one table\<close>

fun split_and :: "expr \<Rightarrow> expr list" where
  "split_and (EBinary a OpAnd b) = split_and a @ split_and b"
| "split_and e = [e]"

text \<open>The qualifiers of the columns, unless a part must not be pushed.\<close>

fun cat_opts :: "'a list option list \<Rightarrow> 'a list option" where
  "cat_opts [] = Some []"
| "cat_opts (x # xs) = (case (x, cat_opts xs) of (Some a, Some b) \<Rightarrow> Some (a @ b) | _ \<Rightarrow> None)"

definition opt_part :: "'a list option option \<Rightarrow> 'a list option" where
  "opt_part x = (case x of Some y \<Rightarrow> y | None \<Rightarrow> Some [])"

fun walk_quals :: "expr \<Rightarrow> bytes list option" where
  "walk_quals (EColumn t _) = (case t of Some q \<Rightarrow> Some [q] | None \<Rightarrow> None)"
| "walk_quals (ELiteral _) = Some []"
| "walk_quals (EParam _) = Some []"
| "walk_quals (EUnary _ e) = walk_quals e"
| "walk_quals (ECast e _) = walk_quals e"
| "walk_quals (EIsNull e _) = walk_quals e"
| "walk_quals (EBinary a _ b) = cat_opts [walk_quals a, walk_quals b]"
| "walk_quals (ELike a b _) = cat_opts [walk_quals a, walk_quals b]"
| "walk_quals (EFunction _ args) = cat_opts (map walk_quals args)"
| "walk_quals (EIn e xs _) = cat_opts (walk_quals e # map walk_quals xs)"
| "walk_quals (ECase operand whens els) = cat_opts (opt_part (map_option walk_quals operand)
     # map (\<lambda>(c, r). cat_opts [walk_quals c, walk_quals r]) whens @ [opt_part (map_option walk_quals els)])"
| "walk_quals _ = None"

definition conjunct_qualifier :: "expr \<Rightarrow> bytes option" where
  "conjunct_qualifier e = (case walk_quals e of
       Some (q # qs) \<Rightarrow> if list_all ((=) q) qs then Some q else None | _ \<Rightarrow> None)"

definition pushdown :: "select_stmt \<Rightarrow> (expr \<times> bytes option) list" where
  "pushdown stmt = (if ss_joins stmt = [] then []
     else case ss_where stmt of Some w \<Rightarrow> map (\<lambda>c. (c, conjunct_qualifier c)) (split_and w) | None \<Rightarrow> [])"

fun filter_ev :: "('a \<Rightarrow> bool ev) \<Rightarrow> 'a list \<Rightarrow> 'a list ev" where
  "filter_ev p [] = ev_ok []"
| "filter_ev p (x # xs) = ebind (p x) (\<lambda>b. ebind (filter_ev p xs) (\<lambda>ys. ev_ok (if b then x # ys else ys)))"

fun all_true :: "(expr \<Rightarrow> val ev) \<Rightarrow> expr list \<Rightarrow> bool ev" where
  "all_true value [] = ev_ok True"
| "all_true value (c # cs) = ebind (value c) (\<lambda>v. erbind (truthy v) (\<lambda>b. if b then all_true value cs else ev_ok False))"

definition prefilter :: "eval_env \<Rightarrow> val list list \<Rightarrow> table_def \<Rightarrow> bytes \<Rightarrow> (expr \<times> bytes option) list \<Rightarrow> val list \<Rightarrow> val list list ev" where
  "prefilter ee rows d q push ps =
     (let mine = map fst (filter (\<lambda>(_, qual). qual = Some q) push); qs = schema_single q d in
      if mine = [] then ev_ok rows
      else filter_ev (\<lambda>row. all_true (eval ee (Some (qs, row)) ps) mine) rows)"

section \<open>Joins\<close>

definition true_on :: "eval_env \<Rightarrow> query_schema \<Rightarrow> val list \<Rightarrow> expr \<Rightarrow> val list \<Rightarrow> bool ev" where
  "true_on ee qs ps e row = ebind (eval ee (Some (qs, row)) ps e) (\<lambda>v. ev_res (truthy v))"

definition resize :: "nat \<Rightarrow> val list \<Rightarrow> val list" where
  "resize n row = take n row @ replicate (n - length row) Null"

definition join_row :: "eval_env \<Rightarrow> query_schema \<Rightarrow> val list \<Rightarrow> join_kind \<Rightarrow> expr \<Rightarrow> val list list \<Rightarrow> val list \<Rightarrow> val list list ev" where
  "join_row ee qs ps kind on right_rows left =
     ebind (filter_ev (true_on ee qs ps on) (map (\<lambda>r. left @ r) right_rows)) (\<lambda>matches.
     ev_ok (if matches = [] \<and> kind = JoinLeft then [resize (schema_width qs) left] else matches))"

fun join_all :: "eval_env \<Rightarrow> data_source \<Rightarrow> val list \<Rightarrow> (expr \<times> bytes option) list \<Rightarrow> (join_kind \<times> table_ref \<times> expr) list \<Rightarrow>
    query_schema \<Rightarrow> val list list \<Rightarrow> (query_schema \<times> val list list) ev" where
  "join_all ee src ps push [] qs rows = ev_ok (qs, rows)"
| "join_all ee src ps push ((kind, t, on) # joins) qs rows =
     erbind (lookup_table src t) (\<lambda>d.
     erbind (ds_scan_rows src d) (\<lambda>scanned.
     ebind (if kind = JoinInner \<and> push \<noteq> [] then prefilter ee scanned d (qualifier t) push ps else ev_ok scanned) (\<lambda>right_rows.
     erbind (schema_push qs (qualifier t) d) (\<lambda>qs'.
     erbind (no_aggregates on ''ON'') (\<lambda>_.
     erbind (validate_columns qs' on) (\<lambda>_.
     ebind (map_ev (join_row ee qs' ps kind on right_rows) rows) (\<lambda>rss.
     join_all ee src ps push joins qs' (concat rss))))))))"

section \<open>The filter\<close>

definition where_row :: "runner \<Rightarrow> eval_env \<Rightarrow> data_source \<Rightarrow> query_schema \<Rightarrow> val list \<Rightarrow> expr \<Rightarrow> val list \<Rightarrow> bool ev" where
  "where_row run ee src qs ps cond row =
     ebind (if expr_has_subquery cond then resolve_correlated_expr run src qs row ps cond else ev_ok cond) (\<lambda>c.
     true_on ee qs ps c row)"

definition where_rows :: "runner \<Rightarrow> eval_env \<Rightarrow> data_source \<Rightarrow> query_schema \<Rightarrow> val list \<Rightarrow> expr option \<Rightarrow> val list list \<Rightarrow> val list list ev" where
  "where_rows run ee src qs ps w rows = (case w of
       None \<Rightarrow> ev_ok rows
     | Some cond \<Rightarrow> erbind (no_aggregates cond ''WHERE'') (\<lambda>_. erbind (validate_columns qs cond) (\<lambda>_.
         filter_ev (where_row run ee src qs ps cond) rows)))"

section \<open>Aggregates over all rows\<close>

definition is_agg_item :: "select_item \<Rightarrow> bool" where
  "is_agg_item it = (case it of ItemExpr e _ \<Rightarrow> has_aggregate e | Star \<Rightarrow> False)"

definition run_aggregate :: "eval_env \<Rightarrow> select_stmt \<Rightarrow> query_schema \<Rightarrow> val list list \<Rightarrow> val list \<Rightarrow> select_out ev" where
  "run_aggregate ee stmt qs rows ps =
     ebind (aggregate_projection ee qs rows ps 0 (ss_projection stmt)) (\<lambda>(columns, row).
     ebind (case ss_having stmt of
         None \<Rightarrow> ev_ok True
       | Some h \<Rightarrow> erbind (validate_columns qs h) (\<lambda>_. ebind (fold_aggregates ee qs rows ps h) (\<lambda>h'.
           ebind (eval_const ee ps h') (\<lambda>v. ev_res (truthy v))))) (\<lambda>keep.
     if keep then ebind (limit_offset ee (ss_limit stmt) (ss_offset stmt) ps [row]) (\<lambda>out. ev_ok \<lparr>so_columns = columns, so_rows = out\<rparr>)
     else ev_ok \<lparr>so_columns = columns, so_rows = []\<rparr>))"

section \<open>Order and projection\<close>

definition order_rows :: "eval_env \<Rightarrow> select_stmt \<Rightarrow> query_schema \<Rightarrow> val list \<Rightarrow> val list list \<Rightarrow> val list list ev" where
  "order_rows ee stmt qs ps rows =
     (if ss_order_by stmt = [] then ev_ok rows
      else ebind (map_ev (\<lambda>row. ebind (map_ev (\<lambda>(e, _). erbind (order_key_expr e (ss_projection stmt)) (\<lambda>e.
              erbind (validate_columns qs e) (\<lambda>_. eval ee (Some (qs, row)) ps e))) (ss_order_by stmt)) (\<lambda>keys. ev_ok (keys, row))) rows) (\<lambda>keyed.
        erbind (sort_by (\<lambda>a b. cmp_keys (map snd (ss_order_by stmt)) (fst a) (fst b)) keyed) (\<lambda>sorted.
        ev_ok (map snd sorted))))"

definition star_identity :: "query_schema \<Rightarrow> bool" where
  "star_identity qs \<longleftrightarrow> star_map qs = [0..<length (star_map qs)]"

definition project_item :: "runner \<Rightarrow> eval_env \<Rightarrow> data_source \<Rightarrow> query_schema \<Rightarrow> val list \<Rightarrow> val list \<Rightarrow> select_item \<Rightarrow> val list ev" where
  "project_item run ee src qs ps row it = (case it of
       Star \<Rightarrow> ev_ok (star_values qs row)
     | ItemExpr e _ \<Rightarrow>
         ebind (if expr_has_subquery e then resolve_correlated_expr run src qs row ps e else ev_ok e) (\<lambda>e.
         ebind (eval ee (Some (qs, row)) ps e) (\<lambda>v. ev_ok [v])))"

definition project_row :: "runner \<Rightarrow> eval_env \<Rightarrow> data_source \<Rightarrow> query_schema \<Rightarrow> val list \<Rightarrow> select_item list \<Rightarrow> val list \<Rightarrow> val list ev" where
  "project_row run ee src qs ps items row =
     ebind (map_ev (project_item run ee src qs ps row) items) (\<lambda>vss. ev_ok (concat vss))"

definition project_rows :: "runner \<Rightarrow> eval_env \<Rightarrow> data_source \<Rightarrow> select_stmt \<Rightarrow> query_schema \<Rightarrow> val list \<Rightarrow> val list list \<Rightarrow> select_out ev" where
  "project_rows run ee src stmt qs ps ordered =
     ebind (if ss_distinct stmt then ev_ok ordered else limit_offset ee (ss_limit stmt) (ss_offset stmt) ps ordered) (\<lambda>rows.
     let items = ss_projection stmt; columns = output_names qs items in
     erbind (all_ok (map (item_check qs) items)) (\<lambda>_.
     if \<not> ss_distinct stmt \<and> star_identity qs \<and> items = [Star] then ev_ok \<lparr>so_columns = columns, so_rows = rows\<rparr>
     else ebind (map_ev (project_row run ee src qs ps items) rows) (\<lambda>outs.
       ebind (if ss_distinct stmt then limit_offset ee (ss_limit stmt) (ss_offset stmt) ps (dedup_preserving outs) else ev_ok outs) (\<lambda>out.
       ev_ok \<lparr>so_columns = columns, so_rows = out\<rparr>))))"

text \<open>After the filter: groups, aggregates, windows or rows.\<close>

definition run_tail :: "runner \<Rightarrow> eval_env \<Rightarrow> data_source \<Rightarrow> select_stmt \<Rightarrow> query_schema \<Rightarrow> val list list \<Rightarrow> val list \<Rightarrow> select_out ev" where
  "run_tail run ee src stmt qs rows ps =
     (if ss_group_by stmt \<noteq> [] then run_grouped ee stmt qs rows ps
      else if list_ex is_agg_item (ss_projection stmt) \<or> some_opt has_aggregate (ss_having stmt) then run_aggregate ee stmt qs rows ps
      else if ss_having stmt \<noteq> None then ev_fail ''HAVING requiere GROUP BY o agregados''
      else if list_ex (\<lambda>it. case it of ItemExpr e _ \<Rightarrow> has_window e | Star \<Rightarrow> False) (ss_projection stmt) then run_windowed ee stmt qs rows ps
      else ebind (order_rows ee stmt qs ps rows) (project_rows run ee src stmt qs ps))"

definition run_from :: "runner \<Rightarrow> eval_env \<Rightarrow> data_source \<Rightarrow> select_stmt \<Rightarrow> table_ref \<Rightarrow> val list \<Rightarrow> select_out ev" where
  "run_from run ee src stmt from ps =
     erbind (lookup_table src from) (\<lambda>d.
     ebind (precompute_bm25 ee src (schema_single (qualifier from) d) stmt ps) (\<lambda>qs.
     let push = pushdown stmt in
     ebind (base_rows ee src (hd (qs_tables qs)) stmt ps) (\<lambda>base.
     ebind (if push = [] then ev_ok base else prefilter ee base d (qualifier from) push ps) (\<lambda>rows.
     ebind (join_all ee src ps push (ss_joins stmt) qs rows) (\<lambda>(qs, joined).
     ebind (where_rows run ee src qs ps (ss_where stmt) joined) (\<lambda>kept.
     run_tail run ee src stmt qs kept ps))))))"

section \<open>Without a table\<close>

fun no_from_items :: "nat \<Rightarrow> select_item list \<Rightarrow> (bytes list \<times> expr list) res" where
  "no_from_items i [] = Inr ([], [])"
| "no_from_items i (Star # items) = sql_fail ''SELECT * requiere FROM''"
| "no_from_items i (ItemExpr e a # items) =
     (if has_aggregate e then sql_fail ''un agregado requiere FROM''
      else rbind (no_from_items (i + 1) items) (\<lambda>(names, es). Inr (item_name i (ItemExpr e a) # names, e # es)))"

definition no_from_clauses :: "select_stmt \<Rightarrow> unit res" where
  "no_from_clauses stmt =
     (if ss_joins stmt \<noteq> [] then sql_fail ''JOIN requiere FROM''
      else if ss_group_by stmt \<noteq> [] then sql_fail ''GROUP BY requiere FROM''
      else if ss_having stmt \<noteq> None then sql_fail ''HAVING requiere FROM''
      else if ss_order_by stmt \<noteq> [] then sql_fail ''ORDER BY requiere FROM''
      else if ss_as_of stmt \<noteq> None then sql_fail ''AS OF requiere FROM'' else Inr ())"

definition run_select_no_from :: "eval_env \<Rightarrow> select_stmt \<Rightarrow> val list \<Rightarrow> select_out ev" where
  "run_select_no_from ee stmt ps =
     erbind (no_from_clauses stmt) (\<lambda>_.
     erbind (no_from_items 0 (ss_projection stmt)) (\<lambda>(columns, es).
     ebind (case ss_where stmt of Some c \<Rightarrow> ebind (eval_const ee ps c) (\<lambda>v. ev_res (truthy v)) | None \<Rightarrow> ev_ok True) (\<lambda>keep.
     ebind (limit_offset ee (ss_limit stmt) (ss_offset stmt) ps (if keep then [[]] else [] :: val list list)) (\<lambda>rows.
     if rows = [] then ev_ok \<lparr>so_columns = columns, so_rows = []\<rparr>
     else ebind (map_ev (eval_const ee ps) es) (\<lambda>row. ev_ok \<lparr>so_columns = columns, so_rows = [row]\<rparr>)))))"

section \<open>Set operations\<close>

definition combine_rows :: "set_op \<Rightarrow> val list list \<Rightarrow> val list list \<Rightarrow> val list list" where
  "combine_rows op rows part = (case op of
       SetUnionAll \<Rightarrow> rows @ part
     | SetUnion \<Rightarrow> dedup_preserving (rows @ part)
     | SetIntersect \<Rightarrow> filter (\<lambda>r. list_ex (row_eq r) part) (dedup_preserving rows)
     | SetExcept \<Rightarrow> filter (\<lambda>r. \<not> list_ex (row_eq r) part) (dedup_preserving rows))"

fun compound_rows :: "runner \<Rightarrow> data_source \<Rightarrow> val list \<Rightarrow> nat \<Rightarrow> (set_op \<times> select_stmt) list \<Rightarrow> val list list \<Rightarrow> val list list ev" where
  "compound_rows run src ps n [] rows = ev_ok rows"
| "compound_rows run src ps n ((op, s) # rest) rows = ebind (run src s ps) (\<lambda>out.
     if length (so_columns out) \<noteq> n then ev_fail (''operador de conjunto: los SELECT tienen distinto numero de columnas (''
       @ text_of (dec_text n) @ '' vs '' @ text_of (dec_text (length (so_columns out))) @ '')'')
     else compound_rows run src ps n rest (combine_rows op rows (so_rows out)))"

fun select_core :: "select_stmt \<Rightarrow> select_stmt" where
  "select_core (SelectStmt d p f j w g h ob l os a c ctes) = SelectStmt d p f j w g h [] None None a [] ctes"

definition run_compound :: "runner \<Rightarrow> eval_env \<Rightarrow> data_source \<Rightarrow> select_stmt \<Rightarrow> val list \<Rightarrow> select_out ev" where
  "run_compound run ee src stmt ps =
     ebind (run src (select_core stmt) ps) (\<lambda>lead.
     let columns = so_columns lead in
     ebind (compound_rows run src ps (length columns) (ss_compound stmt) (so_rows lead)) (\<lambda>rows.
     erbind (sort_output (ss_order_by stmt) columns rows) (\<lambda>sorted.
     ebind (limit_offset ee (ss_limit stmt) (ss_offset stmt) ps sorted) (\<lambda>out.
     ev_ok \<lparr>so_columns = columns, so_rows = out\<rparr>))))"

section \<open>Common table expressions and derived tables\<close>

text \<open>A table of rows in memory laid over a source: it hides a table of its name, and its rows are found by its number.\<close>

record cte_entry =
  ce_name :: bytes
  ce_def :: table_def
  ce_rows :: "val list list"

definition entry_of :: "cte_entry list \<Rightarrow> table_def \<Rightarrow> cte_entry option" where
  "entry_of ctes d = find (\<lambda>e. td_table_id (ce_def e) = td_table_id d) ctes"

definition cte_source :: "data_source \<Rightarrow> cte_entry list \<Rightarrow> data_source" where
  "cte_source src ctes = src\<lparr>
     ds_table := (\<lambda>name. case find (\<lambda>e. ce_name e = name) ctes of Some e \<Rightarrow> Inr (Some (ce_def e)) | None \<Rightarrow> ds_table src name),
     ds_get_row := (\<lambda>d rid. case entry_of ctes d of Some _ \<Rightarrow> Inr None | None \<Rightarrow> ds_get_row src d rid),
     ds_scan_rows := (\<lambda>d. case entry_of ctes d of Some e \<Rightarrow> Inr (ce_rows e) | None \<Rightarrow> ds_scan_rows src d)\<rparr>"

definition synthetic_def :: "bytes \<Rightarrow> bytes list \<Rightarrow> u32 \<Rightarrow> table_def" where
  "synthetic_def name columns tid = \<lparr>td_name = name, td_table_id = tid, td_rowid_alias = None,
     td_columns = map (\<lambda>c. \<lparr>cd_name = c, cd_col_type = ColInteger, cd_not_null = False, cd_default = None, cd_dropped = False\<rparr>) columns,
     td_indexes = [], td_fts_indexes = [], td_vector_indexes = [], td_logical_order = [0..<length columns],
     td_foreign_keys = [], td_checks = []\<rparr>"

definition CTE_ID :: "nat \<Rightarrow> u32" where "CTE_ID i = 0xFFFFFFFF - of_nat i"
definition DERIVED_ID :: "nat \<Rightarrow> u32" where "DERIVED_ID i = 0xFFFE0000 - of_nat i"

text \<open>A query that names its own common table expression, in itself or in an arm of a set operation.\<close>

definition names_table :: "bytes \<Rightarrow> table_ref \<Rightarrow> bool" where
  "names_table name t \<longleftrightarrow> tr_subquery t = None \<and> tr_name t = name"

fun refs_name :: "bytes \<Rightarrow> select_stmt \<Rightarrow> bool" where
  "refs_name name (SelectStmt _ _ from joins _ _ _ _ _ _ _ compound _) =
     (some_opt (names_table name) from \<or> list_ex (\<lambda>(_, t, _). names_table name t) joins
      \<or> list_ex (\<lambda>(_, s). refs_name name s) compound)"

definition MAX_ROWS :: nat where "MAX_ROWS = 1000000"

definition fresh_rows :: "bool \<Rightarrow> val list list \<Rightarrow> val list list \<Rightarrow> val list list" where
  "fresh_rows union_all all step =
     (if union_all then step else filter (\<lambda>r. \<not> list_ex (row_eq r) all) (dedup_preserving step))"

text \<open>The fixed point: every step sees the rows of the step before; each adds a row, and there are at most a million.\<close>

function recursion_loop :: "(val list list \<Rightarrow> select_out ev) \<Rightarrow> nat \<Rightarrow> bool \<Rightarrow> val list list \<Rightarrow> val list list \<Rightarrow> u64 \<Rightarrow> val list list res \<times> u64" where
  "recursion_loop step ncols union_all all working st =
     (case step working st of
        (Inl e, st2) \<Rightarrow> (Inl e, st2)
      | (Inr out, st2) \<Rightarrow>
          if length (so_columns out) \<noteq> ncols then
            (sql_fail ''CTE recursiva: el termino tiene distinto numero de columnas que la semilla'', st2)
          else let fresh = fresh_rows union_all all (so_rows out) in
            if fresh = [] then (Inr all, st2)
            else if MAX_ROWS < length (all @ fresh) then
              (sql_fail ''CTE recursiva: demasiadas filas (recursion sin caso base?)'', st2)
            else recursion_loop step ncols union_all (all @ fresh) fresh st2)"
  by pat_completeness auto
termination
  by (relation "measure (\<lambda>(step, ncols, u, all, w, st). MAX_ROWS - length all)") (auto simp: neq_Nil_conv)

declare recursion_loop.simps [simp del]

definition materialize_recursive :: "runner \<Rightarrow> data_source \<Rightarrow> val list \<Rightarrow> cte_entry list \<Rightarrow> bytes \<Rightarrow> select_stmt \<Rightarrow> nat \<Rightarrow> cte_entry ev" where
  "materialize_recursive run src ps ctes name s i = (case ss_compound s of
       [(op, term)] \<Rightarrow>
         ebind (run (cte_source src ctes) (select_core s) ps) (\<lambda>seed.
         let entry = (\<lambda>rows. \<lparr>ce_name = name, ce_def = synthetic_def name (so_columns seed) (CTE_ID i), ce_rows = rows\<rparr>);
             step = (\<lambda>working. run (cte_source src (ctes @ [entry working])) term ps)
         in ebind (recursion_loop step (length (so_columns seed)) (op = SetUnionAll) (so_rows seed) (so_rows seed)) (\<lambda>rows.
            ev_ok (entry rows)))
     | _ \<Rightarrow> ev_fail ''CTE recursiva: usa exactamente <<semilla UNION [ALL] termino>>'')"

fun materialize_ctes :: "runner \<Rightarrow> data_source \<Rightarrow> val list \<Rightarrow> cte_entry list \<Rightarrow> nat \<Rightarrow> (bytes \<times> select_stmt) list \<Rightarrow> cte_entry list ev" where
  "materialize_ctes run src ps ctes i [] = ev_ok ctes"
| "materialize_ctes run src ps ctes i ((name, s) # rest) =
     ebind (if refs_name name s then materialize_recursive run src ps ctes name s i
            else ebind (run (cte_source src ctes) s ps) (\<lambda>out. ev_ok \<lparr>ce_name = name,
                   ce_def = synthetic_def name (so_columns out) (CTE_ID i), ce_rows = so_rows out\<rparr>)) (\<lambda>entry.
     materialize_ctes run src ps (ctes @ [entry]) (i + 1) rest)"

definition run_with_ctes :: "runner \<Rightarrow> data_source \<Rightarrow> select_stmt \<Rightarrow> val list \<Rightarrow> select_out ev" where
  "run_with_ctes run src stmt ps =
     ebind (materialize_ctes run src ps [] 0 (ss_with stmt)) (\<lambda>ctes. run (cte_source src ctes) (set_with [] stmt) ps)"

definition select_has_derived :: "select_stmt \<Rightarrow> bool" where
  "select_has_derived stmt \<longleftrightarrow> some_opt (\<lambda>t. tr_subquery t \<noteq> None) (ss_from stmt)
     \<or> list_ex (\<lambda>(_, t, _). tr_subquery t \<noteq> None) (ss_joins stmt)"

definition materialize_ref :: "runner \<Rightarrow> data_source \<Rightarrow> val list \<Rightarrow> cte_entry list \<Rightarrow> table_ref \<Rightarrow> (table_ref \<times> cte_entry list) ev" where
  "materialize_ref run src ps entries t = (case (tr_subquery t, tr_alias t) of
       (None, _) \<Rightarrow> ev_ok (t, entries)
     | (Some s, None) \<Rightarrow> ebind (run (cte_source src []) s ps) (\<lambda>_. ev_res (Inl Panic))
     | (Some s, Some alias) \<Rightarrow> ebind (run (cte_source src []) s ps) (\<lambda>out.
         ev_ok (TableRef alias (Some alias) None,
           entries @ [\<lparr>ce_name = alias, ce_def = synthetic_def alias (so_columns out) (DERIVED_ID (length entries)), ce_rows = so_rows out\<rparr>])))"

fun materialize_joins :: "runner \<Rightarrow> data_source \<Rightarrow> val list \<Rightarrow> cte_entry list \<Rightarrow> (join_kind \<times> table_ref \<times> expr) list \<Rightarrow>
    ((join_kind \<times> table_ref \<times> expr) list \<times> cte_entry list) ev" where
  "materialize_joins run src ps entries [] = ev_ok ([], entries)"
| "materialize_joins run src ps entries ((k, t, on) # js) =
     ebind (materialize_ref run src ps entries t) (\<lambda>(t', entries').
     ebind (materialize_joins run src ps entries' js) (\<lambda>(js', entries''). ev_ok ((k, t', on) # js', entries'')))"

fun set_tables :: "table_ref option \<Rightarrow> (join_kind \<times> table_ref \<times> expr) list \<Rightarrow> select_stmt \<Rightarrow> select_stmt" where
  "set_tables f j (SelectStmt d p _ _ w g h ob l os a c ctes) = SelectStmt d p f j w g h ob l os a c ctes"

definition run_with_derived :: "runner \<Rightarrow> data_source \<Rightarrow> select_stmt \<Rightarrow> val list \<Rightarrow> select_out ev" where
  "run_with_derived run src stmt ps =
     ebind (case ss_from stmt of
         None \<Rightarrow> ev_ok (None, [])
       | Some t \<Rightarrow> ebind (materialize_ref run src ps [] t) (\<lambda>(t', es). ev_ok (Some t', es))) (\<lambda>(from, es).
     ebind (materialize_joins run src ps es (ss_joins stmt)) (\<lambda>(joins, entries).
     run (cte_source src entries) (set_tables from joins stmt) ps))"

section \<open>Every query\<close>

definition run_plain :: "runner \<Rightarrow> eval_env \<Rightarrow> data_source \<Rightarrow> select_stmt \<Rightarrow> val list \<Rightarrow> select_out ev" where
  "run_plain run ee src stmt ps =
     (if ss_compound stmt \<noteq> [] then run_compound run ee src stmt ps
      else case ss_from stmt of
        None \<Rightarrow> run_select_no_from ee stmt ps
      | Some from \<Rightarrow> run_from run ee src stmt from ps)"

primrec run_select :: "nat \<Rightarrow> eval_env \<Rightarrow> data_source \<Rightarrow> select_stmt \<Rightarrow> val list \<Rightarrow> select_out ev" where
  "run_select 0 ee src stmt ps = ev_res (Inl Panic)"
| "run_select (Suc k) ee src stmt ps =
     (if ss_with stmt \<noteq> [] then run_with_ctes (run_select k ee) src stmt ps
      else if select_has_derived stmt then run_with_derived (run_select k ee) src stmt ps
      else ebind (if select_has_subquery stmt then resolve_select_subqueries (run_select k ee) src ps (outer_qualifiers stmt) stmt
                  else ev_ok stmt) (\<lambda>s. run_plain (run_select k ee) ee src s ps))"

end
