(* ===== verification/QueryLaws.thy ===== *)
theory QueryLaws
  imports Query EvalLaws FloatLaws "HOL-Library.Product_Lexorder" "HOL-Library.Multiset"
begin

text \<open>
  The parts of a query: sorting with a comparison that is a total preorder (\<open>comparator\<close>) is stable and orders, the keys of
  \<^verbatim>\<open>ORDER BY\<close> over typed columns without NaN are such a comparison, groups are the classes of equal keys in the order of
  their first row, and the tiles of \<^verbatim>\<open>NTILE\<close> are consecutive and of even size.
\<close>

section \<open>Sorting by a comparator\<close>

text \<open>A comparison that is a total preorder.\<close>

locale comparator =
  fixes cmp :: "'a \<Rightarrow> 'a \<Rightarrow> ordering"
  assumes swap: "cmp y x = reverse_ordering (cmp x y)"
    and trans: "cmp x y \<noteq> OGreater \<Longrightarrow> cmp y z \<noteq> OGreater \<Longrightarrow> cmp x z \<noteq> OGreater"
begin

definition le :: "'a \<Rightarrow> 'a \<Rightarrow> bool" where "le x y \<longleftrightarrow> cmp x y \<noteq> OGreater"

lemma le_refl: "le x x"
  using swap [of x x] by (cases "cmp x x") (auto simp: le_def reverse_ordering_def)

lemma le_total: "le x y \<or> le y x"
  using swap [of y x] by (cases "cmp x y") (auto simp: le_def reverse_ordering_def)

lemma le_trans: "le x y \<Longrightarrow> le y z \<Longrightarrow> le x z"
  using trans by (auto simp: le_def)

lemma equal_le: "cmp x y = OEqual \<longleftrightarrow> le x y \<and> le y x"
  using swap [of y x] by (cases "cmp x y") (auto simp: le_def reverse_ordering_def)

fun place :: "'a \<Rightarrow> 'a list \<Rightarrow> 'a list" where
  "place x [] = [x]"
| "place x (y # ys) = (if le x y then x # y # ys else y # place x ys)"

fun stable :: "'a list \<Rightarrow> 'a list" where
  "stable [] = []"
| "stable (x # xs) = place x (stable xs)"

lemma place_mset: "mset (place x ys) = add_mset x (mset ys)"
  by (induction ys) auto

lemma stable_mset: "mset (stable xs) = mset xs"
  by (induction xs) (auto simp: place_mset)

lemma place_set: "set (place x ys) = insert x (set ys)"
  by (induction ys) auto

lemma place_sorted: "sorted_wrt le ys \<Longrightarrow> sorted_wrt le (place x ys)"
proof (induction ys)
  case (Cons y ys)
  show ?case
  proof (cases "le x y")
    case True
    then show ?thesis using Cons.prems by (auto intro: le_trans)
  next
    case False
    then have "le y x" using le_total by blast
    then show ?thesis using Cons False by (auto simp: place_set)
  qed
qed simp

lemma stable_sorted: "sorted_wrt le (stable xs)"
  by (induction xs) (auto simp: place_sorted)

lemma place_filter:
  "sorted_wrt le ys \<Longrightarrow> filter (\<lambda>z. cmp z k = OEqual) (place x ys) = filter (\<lambda>z. cmp z k = OEqual) (x # ys)"
proof (induction ys)
  case (Cons y ys)
  have "\<not> (cmp x k = OEqual \<and> cmp y k = OEqual)" if "\<not> le x y"
    using that le_trans [of x k y] by (auto simp: equal_le)
  then show ?case using Cons by auto
qed simp

lemma stable_filter: "filter (\<lambda>z. cmp z k = OEqual) (stable xs) = filter (\<lambda>z. cmp z k = OEqual) xs"
  by (induction xs) (auto simp: place_filter stable_sorted)

text \<open>The sort of the code, with a comparison that agrees and never fails on the elements.\<close>

lemma insert_by_place:
  "\<forall>y \<in> set ys. c x y = Inr (cmp x y) \<Longrightarrow> insert_by c x ys = Inr (place x ys)"
  by (induction ys) (auto simp: le_def)

lemma sort_by_stable:
  "\<forall>x \<in> set xs. \<forall>y \<in> set xs. c x y = Inr (cmp x y) \<Longrightarrow> sort_by c xs = Inr (stable xs)"
proof (induction xs)
  case (Cons x xs)
  have "set (stable xs) = set xs" using stable_mset [of xs] by (metis set_mset_mset)
  then show ?case using Cons by (simp add: insert_by_place)
qed simp

end

section \<open>The comparison of keys\<close>

text \<open>A rank that orders the values of one type as the code compares them, \<^verbatim>\<open>NULL\<close> first.\<close>

definition val_rank :: "val \<Rightarrow> nat \<times> int \<times> bytes" where
  "val_rank v = (case v of
       Null \<Rightarrow> (0, 0, [])
     | Integer n \<Rightarrow> (1, sint n, [])
     | Bool b \<Rightarrow> (1, if b then 1 else 0, [])
     | Text s \<Rightarrow> (1, 0, s)
     | Blob b \<Rightarrow> (1, 0, b)
     | Real f \<Rightarrow> (case d64 f of
           Inf neg \<Rightarrow> (if neg then 1 else 3, 0, []) | Fin neg m \<Rightarrow> (2, fp_signed neg m, []) | Nan \<Rightarrow> (4, 0, [])))"

definition sortable :: "col_type \<Rightarrow> val \<Rightarrow> bool" where
  "sortable t v \<longleftrightarrow> of_type v t \<and> (case v of Real f \<Rightarrow> \<not> f64_is_nan f | _ \<Rightarrow> True)"

lemma cmp_by_rank:
  assumes "sortable t a" "sortable t b"
  shows "cmp_nulls_first a b = Inr (compare_lin (val_rank a) (val_rank b))"
  using assms
  by (cases a; cases b)
    (auto simp: sortable_def of_type_def value_type_def val_rank_def compare_lin_def f64_cmp_def f64_is_nan_def less_prod_def' split: fp.splits)

definition head_rank :: "val list \<Rightarrow> nat \<times> int \<times> bytes" where
  "head_rank vs = (case vs of v # _ \<Rightarrow> val_rank v | [] \<Rightarrow> (0, 0, []))"

fun key_cmp :: "bool list \<Rightarrow> val list \<Rightarrow> val list \<Rightarrow> ordering" where
  "key_cmp [] as bs = OEqual"
| "key_cmp (d # ds) as bs = (let c = compare_lin (head_rank as) (head_rank bs) in
     if c = OEqual then key_cmp ds (tl as) (tl bs) else if d then reverse_ordering c else c)"

lemma compare_lin_swap: "compare_lin y x = reverse_ordering (compare_lin x y)"
  by (auto simp: compare_lin_def reverse_ordering_def)

lemma reverse_ordering_simps [simp]:
  "reverse_ordering OEqual = OEqual" "reverse_ordering OLess = OGreater" "reverse_ordering OGreater = OLess"
  "reverse_ordering (reverse_ordering c) = c" "reverse_ordering c = OEqual \<longleftrightarrow> c = OEqual"
  by (auto simp: reverse_ordering_def split: ordering.splits)

lemma key_cmp_swap: "key_cmp ds bs as = reverse_ordering (key_cmp ds as bs)"
proof (induction ds as bs rule: key_cmp.induct)
  case (2 d ds as bs)
  have "compare_lin (head_rank bs) (head_rank as) = reverse_ordering (compare_lin (head_rank as) (head_rank bs))"
    by (rule compare_lin_swap)
  then show ?case using 2 by (simp add: Let_def)
qed simp

lemma key_cmp_trans: "key_cmp ds as bs \<noteq> OGreater \<Longrightarrow> key_cmp ds bs cs \<noteq> OGreater \<Longrightarrow> key_cmp ds as cs \<noteq> OGreater"
proof (induction ds arbitrary: as bs cs)
  case (Cons d ds)
  show ?case
    using Cons.prems Cons.IH [of "tl as" "tl bs" "tl cs"]
    by (cases d) (auto simp: Let_def compare_lin_def split: if_splits)
qed simp

interpretation keys: comparator "\<lambda>x y. key_cmp ds (fst x) (fst y)" for ds
  by unfold_locales (rule key_cmp_swap, erule (1) key_cmp_trans)

lemma cmp_keys_rank:
  "list_all2 sortable ts as \<Longrightarrow> list_all2 sortable ts bs \<Longrightarrow> length ds = length ts \<Longrightarrow> cmp_keys ds as bs = Inr (key_cmp ds as bs)"
proof (induction ts arbitrary: ds as bs)
  case (Cons t ts)
  then obtain d ds' a as' b bs' where e: "ds = d # ds'" "as = a # as'" "bs = b # bs'"
    by (auto simp: list_all2_Cons1 length_Suc_conv)
  then show ?case using Cons cmp_by_rank [of t a b] by (simp add: head_rank_def Let_def)
qed auto

section \<open>Groups\<close>

lemma group_add_keys: "map fst (group_add k x gs) = (if k \<in> set (map fst gs) then map fst gs else map fst gs @ [k])"
  by (induction k x gs rule: group_add.induct) auto

lemma group_add_map:
  "distinct ks \<Longrightarrow> group_add k x (map (\<lambda>j. (j, f j)) ks) =
     map (\<lambda>j. (j, if j = k then f j @ [x] else f j)) ks @ (if k \<in> set ks then [] else [(k, [x])])"
  by (induction ks) auto

definition members :: "('k \<times> 'a) list \<Rightarrow> 'k \<Rightarrow> 'a list" where
  "members kxs k = map snd (filter (\<lambda>(j, _). j = k) kxs)"

lemma dedup_snoc: "dedup eq out (xs @ [x]) = (let ys = dedup eq out xs in if list_ex (eq x) ys then ys else ys @ [x])"
  by (induction xs arbitrary: out) auto

lemma dedup_eq_set: "set (dedup (=) out xs) = set out \<union> set xs"
  by (induction xs arbitrary: out) (auto simp: list_ex_iff)

lemma dedup_eq_distinct: "distinct out \<Longrightarrow> distinct (dedup (=) out xs)"
  by (induction xs arbitrary: out) (auto simp: list_ex_iff)

lemma group_rows_members: "group_rows kxs = map (\<lambda>k. (k, members kxs k)) (dedup (=) [] (map fst kxs))"
proof (induction kxs rule: rev_induct)
  case Nil
  show ?case by (simp add: group_rows_def)
next
  case (snoc kx kxs)
  obtain k x where kx: "kx = (k, x)" by fastforce
  let ?ks = "dedup (=) [] (map fst kxs)"
  have m: "members (kxs @ [(k, x)]) j = (if j = k then members kxs j @ [x] else members kxs j)" for j
    by (auto simp: members_def)
  have "k \<notin> set ?ks \<Longrightarrow> members kxs k = []" by (force simp: members_def dedup_eq_set filter_empty_conv)
  then show ?case
    using snoc group_add_map [where ks = "?ks" and f = "members kxs" and k = k and x = x, OF dedup_eq_distinct]
    by (auto simp: group_rows_def kx dedup_snoc Let_def list_ex_iff m)
qed

section \<open>Tiles\<close>

lemma ntile_small: "m < k \<Longrightarrow> p < m \<Longrightarrow> ntile k m p = p + 1"
  by (simp add: ntile_def Let_def)

text \<open>The first row of a tile.\<close>

definition tile_start :: "nat \<Rightarrow> nat \<Rightarrow> nat \<Rightarrow> nat" where
  "tile_start k m t = t * (m div k) + min t (m mod k)"

lemma ntile_between:
  assumes "1 \<le> k" "t < k" "tile_start k m t \<le> p" "p < tile_start k m (t + 1)"
  shows "ntile k m p = t + 1"
proof -
  let ?b = "m div k" and ?r = "m mod k"
  show ?thesis
  proof (cases "t < ?r")
    case True
    then have "t * (?b + 1) \<le> p" "p < (t + 1) * (?b + 1)" using assms by (auto simp: tile_start_def algebra_simps)
    then have d: "p div (?b + 1) = t" by (intro div_nat_eqI) (auto simp: algebra_simps)
    have "(t + 1) * (?b + 1) \<le> ?r * (?b + 1)" using True by (intro mult_right_mono) auto
    then have "p < (?b + 1) * ?r" using \<open>p < (t + 1) * (?b + 1)\<close> by (simp add: algebra_simps)
    then show ?thesis using d by (simp add: ntile_def Let_def)
  next
    case False
    then have le: "t * ?b + ?r \<le> p" and lt: "p < (t + 1) * ?b + ?r" using assms by (auto simp: tile_start_def)
    have b: "0 < ?b" using le lt by (cases "?b = 0") auto
    have "?r * ?b \<le> t * ?b" using False by (intro mult_right_mono) auto
    then have "?r * ?b + ?r \<le> p" using le by linarith
    then have "\<not> p < (?b + 1) * ?r" by (simp add: algebra_simps)
    moreover obtain d where d: "t = ?r + d" using False by (metis le_add_diff_inverse not_less)
    moreover have "(p - (?b + 1) * ?r) div ?b = d"
    proof (rule div_nat_eqI)
      show "?b * d \<le> p - (?b + 1) * ?r" "p - (?b + 1) * ?r < ?b * Suc d"
        using le lt unfolding d by (simp_all add: algebra_simps)
    qed
    moreover have "max ?b 1 = ?b" using b by simp
    ultimately show ?thesis by (simp add: ntile_def Let_def del: max_nat.left_neutral)
  qed
qed

end
