(* ===== verification/Spec2Isabelle.thy ===== *)
theory Spec2Isabelle
  imports CodecProps BtreeProps PagerProps CommitProps SqlProps FtsProps VectorProps ValueProps EccLaws RangeCoder QueryLaws
begin

text \<open>
  Arkeion is an embedded, versioned database in one file.  This development models its storage engine as it is
  written under \<^verbatim>\<open>src/src\<close> and proves what its layers promise to each other.

  \<^bold>\<open>The parts, from the bytes up.\<close>
  \<^item> \<open>Prelude\<close>: lists of bytes, words of 8 to 64 bits in both byte orders, reads at a position (\<open>at_pos\<close>), the
    result type \<open>'a res = error + 'a\<close>, the locales \<open>codec\<close> (encoder and decoder) and \<open>memcmp\<close> (order-preserving
    encoding); \<open>Errors\<close>: \<^verbatim>\<open>error.rs\<close>; \<open>Utf8\<close>: the standard library's check of UTF-8.
  \<^item> \<open>Format\<close> (\<^verbatim>\<open>format.rs\<close>): page geometry, header page, meta slots, varints.  \<open>Records\<close> (\<^verbatim>\<open>record.rs\<close>): rows.
    \<open>Keyenc\<close> (\<^verbatim>\<open>keyenc.rs\<close> and the key functions of \<^verbatim>\<open>catalog.rs\<close>): keys whose byte order is the order of values.
  \<^item> \<open>Node\<close> (\<^verbatim>\<open>btree/node.rs\<close>): the bytes of leaf, inner and overflow nodes.  \<open>NodeRep\<close>, \<open>NodeRead\<close>, \<open>NodeSearch\<close>,
    \<open>NodeUpdate\<close>: the relation \<open>leaf_rep\<close>/\<open>inner_rep\<close> between a body and its cells; every reader is a function of
    the cells, every writer establishes the relation.
  \<^item> \<open>Store\<close> (\<^verbatim>\<open>TxStore\<close> of \<^verbatim>\<open>tx.rs\<close>), \<open>Btree\<close>, \<open>BtreeScan\<close> (\<^verbatim>\<open>btree/mod.rs\<close>): the copy-on-write tree over pages.
    \<open>BtreeLaws\<close>: search trees of pages refine maps; \<open>BtreeDiff\<close>: the cursor yields a tree's entries in order, and the
    diff of two versions is the pointwise comparison of their lookups; \<open>BtreeCursor\<close> and \<open>BtreeSplit\<close>: two defects
    of insertion.
  \<^item> \<open>Crypto\<close> (\<^verbatim>\<open>crypto.rs\<close>), \<open>Ecc\<close> and \<open>EccLaws\<close> (\<^verbatim>\<open>ecc.rs\<close>), \<open>Compress\<close> and \<open>CompressLaws\<close> (\<^verbatim>\<open>compress.rs\<close>),
    \<open>PageCache\<close> and \<open>Pager\<close> (\<^verbatim>\<open>pager.rs\<close>, \<^verbatim>\<open>io.rs\<close>), \<open>PagerLaws\<close>: from the bytes of the file to verified pages.
    \<open>pager_rep\<close> relates a pager and its file to the list of its page bodies.
  \<^item> \<open>RangeCoder\<close>: the round trip and the termination of the range coder; \<open>CompressRuns\<close>: the backends always answer, and
    do compress runs; \<open>PagerCrash\<close>: writes that run out of budget and the sweep of the file at opening.
  \<^item> \<open>Commit\<close> (\<^verbatim>\<open>commit.rs\<close>) and \<open>TxCommit\<close> (publication and opening, \<^verbatim>\<open>tx.rs\<close>): the hash chain of commits, recovery and
    the audit; \<open>CommitLaws\<close>: histories of pages (\<open>hist_ok\<close>) and what recovery finds in them.
  \<^item> \<open>TxCommitLaws\<close>, \<open>StoreOpen\<close>, \<open>StoreCommit\<close>, \<open>StoreCreate\<close>, \<open>StoreLive\<close>: a store at rest (\<open>store_inv\<close>) is created, opened and
    committed to, on disks that stop after any byte; \<open>StoreCrash\<close>: what a store reopened after a crash keeps, and does not.
  \<^item> \<open>CommitAudit\<close>, \<open>AuditComplete\<close>: the audit is sound (a history that passes is determined by the chain hash, up to
    collisions) and complete (what commits write passes it, against every anchor).
  \<^item> \<open>Schema\<close>, \<open>SchemaLaws\<close> (\<^verbatim>\<open>catalog.rs\<close>): the definitions of tables, indexes and triggers as the catalog stores them;
    the encoding of each part is decoded back, older versions of the trigger format included.
  \<^item> \<open>SqlAst\<close>, \<open>Lexer\<close>, \<open>LexerLaws\<close>, \<open>Parser\<close>, \<open>ParserStmt\<close> (\<^verbatim>\<open>sql/ast.rs\<close>, \<^verbatim>\<open>sql/lexer.rs\<close>, \<^verbatim>\<open>sql/parser.rs\<close>): text to
    tokens to syntax trees.  The parser is the record \<open>grammar k\<close> of its mutually recursive functions with fuel \<open>k\<close>;
    \<open>ParserRules\<close>, \<open>ParserLaws\<close> and \<open>ParserTotal\<close> show that every function advances and that the number of tokens is
    fuel enough (\<open>parse_returns\<close>); \<open>ParserPrint\<close> writes expressions as tokens and reads them back.
  \<^item> \<open>Datetime\<close>, \<open>DatetimeLaws\<close> (\<^verbatim>\<open>sql/datetime.rs\<close>): the calendar, RFC 3339 and \<^verbatim>\<open>strftime\<close>.
  \<^item> \<open>Floats\<close>: executable IEEE 754 arithmetic of the two formats Rust uses, with reading, printing and rounding to
    nearest even (standard library, hence no entry in the map).  \<open>Vectors\<close> (\<^verbatim>\<open>vector.rs\<close>), \<open>Ivf\<close> (\<^verbatim>\<open>ivf.rs\<close>, \<^verbatim>\<open>pq.rs\<close>):
    packed vectors, k-means, inverted lists, product quantisation; \<open>IvfLaws\<close>: a full probe is exact, shapes survive training.
  \<^item> \<open>Fts\<close> (\<^verbatim>\<open>fts/*.rs\<close>, the evaluation of a query on a row in \<^verbatim>\<open>catalog.rs\<close>): tokenizers, MATCH queries, excerpts;
    \<open>FtsLaws\<close>: parsing returns, merges are set operations, tokens are disjoint slices; \<open>FtsWindow\<close>: the window of NEAR.
  \<^item> \<open>Json\<close>, \<open>JsonLaws\<close> (\<^verbatim>\<open>sql/json.rs\<close>): JSON values, their text, parser and paths; \<open>FloatLaws\<close>: a finite double
    printed as Rust prints it reads back as itself, on which the round trip of JSON rests.  The fuel of \<open>json_value\<close> is
    bounded by the length of the text (\<open>json_parse_returns\<close>).
  \<^item> \<open>Scalar\<close>, \<open>SqlFun\<close>, \<open>SqlCall\<close>, \<open>Eval\<close> (\<^verbatim>\<open>exec.rs\<close>): comparison, arithmetic, patterns, casts, every scalar function,
    column resolution and the evaluation of expressions over a row.  \<open>eval\<close> passes the state of \<^verbatim>\<open>random()\<close> along; the
    clock, the tables of Unicode and the functions of the mathematical library are the parameter \<open>eval_env\<close>.
    \<open>EvalLaws\<close>: static types of expressions (\<open>expr_type\<close>) and that evaluation respects them (\<open>eval_has_type\<close>).
  \<^item> \<open>Aggregate\<close>, \<open>Query\<close> (\<^verbatim>\<open>exec.rs\<close>): a SELECT over a \<open>data_source\<close> (the trait
    \<^verbatim>\<open>DataSource\<close>, a parameter): the planner and its index paths, subqueries, joins, groups, aggregates, windows, order,
    compound queries, \<^verbatim>\<open>WITH\<close> with recursion, derived tables.  \<open>run_select k\<close> answers queries whose recursion is
    at most \<open>k\<close> deep; running out of \<open>k\<close> is the code's exhausted stack, and nothing is claimed about how much is enough.
    \<open>QueryLaws\<close>: sorting is stable and ordered, groups are classes of equal keys, tiles are even.
  \<^item> \<open>CodecProps\<close>, \<open>BtreeProps\<close>, \<open>PagerProps\<close>, \<open>CommitProps\<close>, \<open>SqlProps\<close>, \<open>FtsProps\<close>, \<open>VectorProps\<close>, \<open>ValueProps\<close>: the properties, each with its claim and a witness.

  \<^bold>\<open>Conventions.\<close>  Machine integers are words (\<open>u8\<close> to \<open>u64\<close>; \<^verbatim>\<open>i64\<close> and \<^verbatim>\<open>f64\<close> are their 64 bits); \<^verbatim>\<open>usize\<close> is a natural
  number except where the code's wrap-around matters.  A panic is the error \<open>Panic\<close>.  Functions that thread a
  position return it.  Stateful code is \<open>('s, 'a) sx\<close>: from a state to \<open>None\<close> (does not return) or a result and the new
  state, also on error.  Loops over page identifiers read from the file are partial functions, since a corrupt file
  may be cyclic; their return is proved where the pages are well-formed.

  \<^bold>\<open>Parameters.\<close>  SHA-256 and AES-256-GCM are crates: \<open>sha\<close> is any function to 32-byte digests, and the cipher any
  record that satisfies \<open>aead_ok\<close> (decryption inverts encryption, lengths are kept).  The tables of Unicode in the
  standard library are the record \<open>unicode\<close>.

  \<^bold>\<open>Not modelled.\<close>  Locks and threads (the sequential code between them is), fsync, file locking; the
  operations of the catalog on its tree (with the inverted index) and so the implementations of \<open>data_source\<close>; the
  statements of the SQL executor that change rows or the schema, views and the streaming select; the protocol and the
  public interface.
\<close>

end
